(* ===== verification/Prelude.thy ===== *)
theory Prelude
  imports Complex_Main "HOL-Library.Word"
begin

text \<open>
  Shared vocabulary of the development: the result type of C code that may stop the
  process, its sequencing operator, the lemma collections, and generic facts on lists
  and options that the component theories use.
\<close>

section \<open>Outcomes of C code\<close>

text \<open>
  The library is built with \<open>LAUNCHDARKLY_USE_ASSERT\<close> and \<open>LAUNCHDARKLY_DEFENSIVE\<close>
  (\<open>src/CMakeLists.txt\<close>), so a failed \<open>LD_ASSERT\<close> aborts the process while the public
  API functions check their arguments and return. A computation that does not return a
  value is a \<open>fault\<close>:
  \<^item> \<open>AssertFailed\<close>: a failed \<open>LD_ASSERT\<close>;
  \<^item> \<open>NullDeref\<close>: a \<open>NULL\<close> pointer handed to \<open>strcmp\<close>, \<open>strlen\<close> or a field access;
  \<^item> \<open>BadConversion\<close>: a floating point value converted to an integer type that cannot
    hold its integral part, which is undefined behaviour in C;
  \<^item> \<open>SignedOverflow\<close>: a sum of signed integers outside their type;
  \<^item> \<open>Uninitialized\<close>: a read of a union member that was not the last one written;
  \<^item> \<open>OutOfBounds\<close>: a write outside a block of memory;
  \<^item> \<open>DoubleFree\<close>: a block of memory freed a second time;
  \<^item> \<open>UseAfterFree\<close>: a read or write through a pointer to freed memory;
  \<^item> \<open>NoReturn\<close>: the recursion did not end within the given depth.
\<close>

datatype fault = AssertFailed | NullDeref | BadConversion | SignedOverflow | Uninitialized
  | OutOfBounds | DoubleFree | UseAfterFree | NoReturn

type_synonym 'a exec = "fault + 'a"

definition exec_bind :: "'a exec \<Rightarrow> ('a \<Rightarrow> 'b exec) \<Rightarrow> 'b exec" where
  "exec_bind m f = (case m of Inl e \<Rightarrow> Inl e | Inr x \<Rightarrow> f x)"

definition ld_assert :: "bool \<Rightarrow> unit exec" where
  "ld_assert b = (if b then Inr () else Inl AssertFailed)"

text \<open>Reading through a pointer that must not be \<open>NULL\<close>.\<close>

definition deref :: "'a option \<Rightarrow> 'a exec" where
  "deref p = (case p of None \<Rightarrow> Inl NullDeref | Some x \<Rightarrow> Inr x)"

named_theorems exec_simps "unfolding of sequenced computations"
named_theorems json_simps "laws of the JSON operations"
named_theorems num_simps "laws of the floating point operations"

lemma exec_bind_Inl [simp]: "exec_bind (Inl e) f = Inl e"
  by (simp add: exec_bind_def)

lemma exec_bind_Inr [simp]: "exec_bind (Inr x) f = f x"
  by (simp add: exec_bind_def)

lemma exec_bind_eq_Inr [exec_simps]:
  "exec_bind m f = Inr y \<longleftrightarrow> (\<exists>x. m = Inr x \<and> f x = Inr y)"
  by (cases m) auto

lemma exec_bind_eq_Inl [exec_simps]:
  "exec_bind m f = Inl e \<longleftrightarrow> m = Inl e \<or> (\<exists>x. m = Inr x \<and> f x = Inl e)"
  by (cases m) auto

lemma exec_bindE:
  assumes "exec_bind m f = Inr y"
  obtains x where "m = Inr x" and "f x = Inr y"
  using assms by (cases m) auto

lemma exec_bind_assoc: "exec_bind (exec_bind m f) g = exec_bind m (\<lambda>x. exec_bind (f x) g)"
  by (cases m) auto

lemma exec_bind_cong [fundef_cong]:
  assumes "m = m'" and "\<And>x. m' = Inr x \<Longrightarrow> f x = f' x"
  shows "exec_bind m f = exec_bind m' f'"
  using assms by (cases m') auto

lemma ld_assert_eq_Inr [simp]: "ld_assert b = Inr u \<longleftrightarrow> b"
  by (simp add: ld_assert_def)

lemma ld_assert_True [simp]: "ld_assert True = Inr ()"
  by (simp add: ld_assert_def)

lemma ld_assert_False [simp]: "ld_assert False = Inl AssertFailed"
  by (simp add: ld_assert_def)

lemma ld_assert_eq_Inl [simp]: "ld_assert b = Inl e \<longleftrightarrow> \<not> b \<and> e = AssertFailed"
  by (auto simp: ld_assert_def)

lemma deref_simps [simp]:
  "deref None = Inl NullDeref" "deref (Some x) = Inr x"
  by (simp_all add: deref_def)

lemma deref_eq_Inr [exec_simps]: "deref p = Inr x \<longleftrightarrow> p = Some x"
  by (cases p) auto

section \<open>Association lists as C keeps them\<close>

text \<open>
  An object or a hash table is a list of entries in insertion order. \<open>del_first\<close> unlinks
  the first entry with a key, which is what the code does after a lookup by key.
\<close>

fun del_first :: "'k \<Rightarrow> ('k \<times> 'v) list \<Rightarrow> ('k \<times> 'v) list" where
  "del_first k [] = []"
| "del_first k (x # xs) = (if fst x = k then xs else x # del_first k xs)"

lemma map_of_del_first_neq [simp]: "k' \<noteq> k \<Longrightarrow> map_of (del_first k xs) k' = map_of xs k'"
  by (induction xs) auto

lemma set_del_first_subset: "set (del_first k xs) \<subseteq> set xs"
  by (induction xs) auto

lemma keys_del_first_subset: "fst ` set (del_first k xs) \<subseteq> fst ` set xs"
  using set_del_first_subset by (rule image_mono)

lemma del_first_not_in [simp]: "k \<notin> fst ` set xs \<Longrightarrow> del_first k xs = xs"
  by (induction xs) auto

lemma distinct_del_first:
  assumes "distinct (map fst xs)"
  shows "distinct (map fst (del_first k xs))"
    and "fst ` set (del_first k xs) = fst ` set xs - {k}"
  using assms by (induction xs) (auto simp: rev_image_eqI)

lemma map_of_del_first_same:
  "distinct (map fst xs) \<Longrightarrow> map_of (del_first k xs) k = None"
  by (metis Diff_iff distinct_del_first(2) insertI1 map_of_eq_None_iff)

lemma del_first_eq_filter:
  "distinct (map fst xs) \<Longrightarrow> del_first k xs = filter (\<lambda>x. fst x \<noteq> k) xs"
  by (induction xs) (auto intro!: filter_True [symmetric] simp: rev_image_eqI)

lemma length_del_first_le: "length (del_first k xs) \<le> length xs"
  by (induction xs) auto

lemma distinct_set_key:
  "distinct (map fst xs) \<Longrightarrow> distinct (map fst (del_first k xs @ [(k, v)]))"
  by (simp add: distinct_del_first)

lemma map_of_set_key:
  "distinct (map fst xs) \<Longrightarrow> map_of (del_first k xs @ [(k, v)]) k' = ((map_of xs)(k \<mapsto> v)) k'"
  by (cases "k' = k") (auto simp: map_of_del_first_same map_add_def split: option.splits)

lemma set_map_filter: "set (List.map_filter f xs) = {y. \<exists>x\<in>set xs. f x = Some y}"
  by (induction xs) (auto simp: List.map_filter_simps split: option.splits)

section \<open>Hash tables\<close>

text \<open>
  A uthash table is the list of its entries in insertion order, the order in which
  \<open>HASH_ITER\<close> visits them. \<open>HASH_ADD_KEYPTR\<close> does not look for an equal key; uthash
  leaves it to its user to keep keys unique, and links a new entry at the head of its
  bucket, so that a find meets the last one added first.
\<close>

definition hash_find :: "('k \<times> 'v) list \<Rightarrow> 'k \<Rightarrow> 'v option" where
  "hash_find t k = map_of (rev t) k"

definition hash_add :: "('k \<times> 'v) list \<Rightarrow> 'k \<Rightarrow> 'v \<Rightarrow> ('k \<times> 'v) list" where
  "hash_add t k v = t @ [(k, v)]"

definition hash_del :: "('k \<times> 'v) list \<Rightarrow> 'k \<Rightarrow> ('k \<times> 'v) list" where
  "hash_del t k = rev (del_first k (rev t))"

lemma hash_find_Nil [simp]: "hash_find [] k = None"
  by (simp add: hash_find_def)

lemma map_of_rev: "distinct (map fst t) \<Longrightarrow> map_of (rev t) = map_of t"
  by (rule map_of_inject_set [THEN iffD2]) (auto simp: rev_map [symmetric])

lemma hash_find_add: "hash_find (hash_add t k v) k' = (if k' = k then Some v else hash_find t k')"
  by (simp add: hash_find_def hash_add_def)

lemma hash_find_del:
  "distinct (map fst t) \<Longrightarrow> hash_find (hash_del t k) k' = (if k' = k then None else hash_find t k')"
proof -
  assume "distinct (map fst t)"
  then have d: "distinct (map fst (rev t))" by (simp add: rev_map [symmetric])
  then have "map_of (rev (rev (del_first k (rev t)))) k' =
      (if k' = k then None else map_of (rev t) k')"
    by (simp add: map_of_del_first_same)
  then show ?thesis by (simp only: hash_find_def hash_del_def)
qed

lemma keys_hash_del:
  assumes "distinct (map fst t)"
  shows "distinct (map fst (hash_del t k))" and "fst ` set (hash_del t k) = fst ` set t - {k}"
  using assms distinct_del_first [of "rev t" k] by (simp_all add: hash_del_def rev_map [symmetric])

lemma set_hash_del_subset: "set (hash_del t k) \<subseteq> set t"
  using set_del_first_subset [of k "rev t"] by (simp add: hash_del_def)

lemma hash_find_None: "hash_find t k = None \<longleftrightarrow> k \<notin> fst ` set t"
  by (simp add: hash_find_def map_of_eq_None_iff)

lemma hash_find_set: "hash_find t k = Some v \<Longrightarrow> (k, v) \<in> set t"
  using map_of_SomeD [of "rev t" k v] by (simp add: hash_find_def)

lemma hash_find_map_of: "distinct (map fst t) \<Longrightarrow> hash_find t = map_of t"
  by (rule ext) (simp add: hash_find_def map_of_rev)

section \<open>Machine integers\<close>

lemma unat_inc: "a < b \<Longrightarrow> unat (a + 1) = unat a + 1"
  for a b :: "'a::len word"
  by unat_arith

section \<open>The contract of a keyed container\<close>

text \<open>
  What the clients of a container addressed by key rely on: a lookup after a put or a
  remove, under an invariant that both keep.
\<close>

locale keyed_map =
  fixes invar :: "'m \<Rightarrow> bool"
    and lookup :: "'m \<Rightarrow> 'k \<Rightarrow> 'v option"
    and put :: "'m \<Rightarrow> 'k \<Rightarrow> 'v \<Rightarrow> 'm"
    and remove :: "'m \<Rightarrow> 'k \<Rightarrow> 'm"
  assumes lookup_put: "invar m \<Longrightarrow> lookup (put m k v) k' = (if k' = k then Some v else lookup m k')"
    and lookup_remove: "invar m \<Longrightarrow> lookup (remove m k) k' = (if k' = k then None else lookup m k')"
    and invar_put: "invar m \<Longrightarrow> invar (put m k v)"
    and invar_remove: "invar m \<Longrightarrow> invar (remove m k)"
begin

lemma invar_put_all: "invar m \<Longrightarrow> invar (foldl (\<lambda>m p. put m (fst p) (snd p)) m kvs)"
  by (induction kvs arbitrary: m) (auto simp: invar_put)

lemma lookup_put_all:
  "invar m \<Longrightarrow> lookup (foldl (\<lambda>m p. put m (fst p) (snd p)) m kvs) k =
     (case map_of (rev kvs) k of None \<Rightarrow> lookup m k | Some v \<Rightarrow> Some v)"
proof (induction kvs arbitrary: m)
  case (Cons p kvs)
  then show ?case
    by (auto simp: invar_put lookup_put map_add_def split: option.splits)
qed simp

lemma lookup_put_same: "invar m \<Longrightarrow> lookup (put m k v) k = Some v"
  by (simp add: lookup_put)

lemma lookup_put_other: "invar m \<Longrightarrow> k' \<noteq> k \<Longrightarrow> lookup (put m k v) k' = lookup m k'"
  by (simp add: lookup_put)

lemma lookup_put_put:
  "invar m \<Longrightarrow> lookup (put (put m k v) k w) k' = lookup (put m k w) k'"
  by (simp add: lookup_put invar_put)

lemma lookup_put_commute:
  "invar m \<Longrightarrow> k \<noteq> l \<Longrightarrow> lookup (put (put m k v) l w) k' = lookup (put (put m l w) k v) k'"
  by (simp add: lookup_put invar_put)

end

end
