(* ===== verification/Lru.thy ===== *)
theory Lru
  imports Prelude
begin

text \<open>
  The least-recently-used set of user keys, \<open>src/lru.c\<close>. A node is linked into a
  circular list, most recently used first, and into a hash table. The list and the table
  are represented by the keys of their nodes, the table in insertion order.
  The abstract view is the list of remembered keys by recency.
\<close>

section \<open>State and operations\<close>

record LDLRU =
  lru_elements :: "32 word"
  lru_capacity :: "32 word"
  lru_list :: "string list"
  lru_hash :: "string list"

datatype LDLRUStatus = LDLRUSTATUS_ERROR | LDLRUSTATUS_EXISTED | LDLRUSTATUS_NEW

definition LDLRUInit :: "32 word \<Rightarrow> LDLRU" where
  "LDLRUInit capacity =
     \<lparr>lru_elements = 0, lru_capacity = capacity, lru_list = [], lru_hash = []\<rparr>"

text \<open>
  \<open>lru->list->prev\<close> is the last node of the circular list; on an empty list the head
  pointer is \<open>NULL\<close>.
\<close>

definition list_prev :: "LDLRU \<Rightarrow> string exec" where
  "list_prev lru = (if lru_list lru = [] then Inl NullDeref else Inr (last (lru_list lru)))"

definition LDLRUInsert :: "LDLRU \<Rightarrow> string \<Rightarrow> (LDLRUStatus \<times> LDLRU) exec" where
  "LDLRUInsert lru key =
     (if lru_capacity lru = 0 then Inr (LDLRUSTATUS_NEW, lru)
      else if key \<notin> set (lru_hash lru) then
        exec_bind
          (if lru_elements lru = lru_capacity lru then
             exec_bind (list_prev lru) (\<lambda>node.
               Inr (lru\<lparr>lru_hash := remove1 node (lru_hash lru),
                        lru_list := butlast (lru_list lru)\<rparr>))
           else Inr (lru\<lparr>lru_elements := lru_elements lru + 1\<rparr>))
          (\<lambda>lru. Inr (LDLRUSTATUS_NEW,
             lru\<lparr>lru_list := key # lru_list lru, lru_hash := lru_hash lru @ [key]\<rparr>))
      else Inr (LDLRUSTATUS_EXISTED,
             lru\<lparr>lru_list := key # remove1 key (lru_list lru)\<rparr>))"

definition LDLRUClear :: "LDLRU \<Rightarrow> LDLRU" where
  "LDLRUClear lru = lru\<lparr>lru_elements := 0, lru_list := [], lru_hash := []\<rparr>"

fun lru_run :: "LDLRU \<Rightarrow> string list \<Rightarrow> LDLRU exec" where
  "lru_run lru [] = Inr lru"
| "lru_run lru (k # ks) = exec_bind (LDLRUInsert lru k) (\<lambda>r. lru_run (snd r) ks)"

section \<open>Invariant and abstract specification\<close>

definition lru_inv :: "LDLRU \<Rightarrow> bool" where
  "lru_inv lru \<longleftrightarrow> distinct (lru_list lru) \<and> distinct (lru_hash lru) \<and>
     set (lru_hash lru) = set (lru_list lru) \<and>
     unat (lru_elements lru) = length (lru_list lru) \<and>
     lru_elements lru \<le> lru_capacity lru"

text \<open>A bounded recency list: a known key moves to the front, a new one evicts the oldest.\<close>

definition spec_insert :: "nat \<Rightarrow> string list \<Rightarrow> string \<Rightarrow> LDLRUStatus \<times> string list" where
  "spec_insert cap xs k =
     (if cap = 0 then (LDLRUSTATUS_NEW, xs)
      else if k \<in> set xs then (LDLRUSTATUS_EXISTED, k # remove1 k xs)
      else (LDLRUSTATUS_NEW, k # take (cap - 1) xs))"

lemma LDLRUInit_inv: "lru_inv (LDLRUInit c)"
  by (simp add: lru_inv_def LDLRUInit_def)

lemma LDLRUClear_inv: "lru_inv (LDLRUClear lru)"
  by (simp add: lru_inv_def LDLRUClear_def)

lemma lru_inv_length: "lru_inv lru \<Longrightarrow> length (lru_list lru) \<le> unat (lru_capacity lru)"
  by (auto simp: lru_inv_def word_le_nat_alt)

lemma insert_existing:
  assumes "lru_inv lru" and "key \<in> set (lru_list lru)"
  shows "\<exists>lru'. LDLRUInsert lru key = Inr (LDLRUSTATUS_EXISTED, lru') \<and> lru_inv lru' \<and>
     lru_list lru' = key # remove1 key (lru_list lru) \<and> lru_capacity lru' = lru_capacity lru"
proof -
  have c: "lru_capacity lru \<noteq> 0"
    using assms lru_inv_length [OF assms(1)] by auto
  have "length (remove1 key (lru_list lru)) + 1 = length (lru_list lru)"
    using assms(2) by (metis One_nat_def Suc_eq_plus1 Suc_pred length_pos_if_in_set length_remove1)
  with assms c show ?thesis
    by (auto simp: LDLRUInsert_def lru_inv_def)
qed

lemma insert_full:
  assumes "lru_inv lru" and "key \<notin> set (lru_list lru)" and "lru_capacity lru \<noteq> 0"
    and "lru_elements lru = lru_capacity lru"
  shows "\<exists>lru'. LDLRUInsert lru key = Inr (LDLRUSTATUS_NEW, lru') \<and> lru_inv lru' \<and>
     lru_list lru' = key # butlast (lru_list lru) \<and> lru_capacity lru' = lru_capacity lru"
proof -
  let ?xs = "lru_list lru"
  have ne: "?xs \<noteq> []"
    using assms by (auto simp: lru_inv_def unat_eq_zero)
  have split: "?xs = butlast ?xs @ [last ?xs]" using ne by simp
  have d: "distinct (butlast ?xs @ [last ?xs])"
    using assms(1) split by (simp add: lru_inv_def)
  have "set (remove1 (last ?xs) (lru_hash lru)) = set (butlast ?xs)"
  proof -
    have "set (remove1 (last ?xs) (lru_hash lru)) = set (lru_hash lru) - {last ?xs}"
      using assms(1) by (simp add: lru_inv_def)
    also have "set (lru_hash lru) = insert (last ?xs) (set (butlast ?xs))"
      using assms(1) split by (metis lru_inv_def list.set(2) rotate1.simps(2) set_rotate1)
    finally show ?thesis using d by auto
  qed
  moreover have "key \<notin> set (butlast ?xs)" using assms(2) in_set_butlastD by metis
  moreover have "distinct (butlast ?xs)" "distinct (remove1 (last ?xs) (lru_hash lru))"
    using d assms(1) by (simp_all add: lru_inv_def)
  moreover have "length (butlast ?xs) + 1 = length ?xs" using split by (metis length_append_singleton Suc_eq_plus1)
  moreover have "key \<notin> set (lru_hash lru)" "unat (lru_capacity lru) = length ?xs"
    using assms by (simp_all add: lru_inv_def)
  ultimately show ?thesis
    using assms(3,4) ne by (simp add: LDLRUInsert_def lru_inv_def list_prev_def)
qed

lemma insert_room:
  assumes "lru_inv lru" and "key \<notin> set (lru_list lru)"
    and "lru_elements lru \<noteq> lru_capacity lru"
  shows "\<exists>lru'. LDLRUInsert lru key = Inr (LDLRUSTATUS_NEW, lru') \<and> lru_inv lru' \<and>
     lru_list lru' = key # lru_list lru \<and> lru_capacity lru' = lru_capacity lru"
proof -
  have lt: "lru_elements lru < lru_capacity lru"
    using assms(1,3) by (simp add: lru_inv_def order.strict_iff_order)
  then have c: "lru_capacity lru \<noteq> 0" by auto
  have le: "lru_elements lru + 1 \<le> lru_capacity lru"
    using lt by (simp add: inc_le)
  have "unat (lru_elements lru + 1) = unat (lru_elements lru) + 1"
    using lt by (rule unat_inc)
  with assms c le show ?thesis
    by (auto simp: LDLRUInsert_def lru_inv_def)
qed

lemma LDLRUInsert_spec:
  assumes "lru_inv lru"
  shows "\<exists>st lru'. LDLRUInsert lru key = Inr (st, lru') \<and> lru_inv lru' \<and>
     lru_capacity lru' = lru_capacity lru \<and>
     (st, lru_list lru') = spec_insert (unat (lru_capacity lru)) (lru_list lru) key"
proof -
  let ?c = "unat (lru_capacity lru)" and ?xs = "lru_list lru"
  have len: "unat (lru_elements lru) = length ?xs" using assms by (simp add: lru_inv_def)
  consider (zero) "lru_capacity lru = 0"
    | (known) "lru_capacity lru \<noteq> 0" "key \<in> set ?xs"
    | (full) "lru_capacity lru \<noteq> 0" "key \<notin> set ?xs" "lru_elements lru = lru_capacity lru"
    | (room) "lru_capacity lru \<noteq> 0" "key \<notin> set ?xs" "lru_elements lru \<noteq> lru_capacity lru"
    by blast
  then show ?thesis
  proof cases
    case zero
    with assms show ?thesis by (simp add: LDLRUInsert_def spec_insert_def)
  next
    case known
    with insert_existing [OF assms known(2)] show ?thesis
      by (auto simp: spec_insert_def unat_eq_zero)
  next
    case full
    then have "length ?xs = ?c" using len by simp
    then have "take (?c - 1) ?xs = butlast ?xs" by (simp add: butlast_conv_take)
    with insert_full [OF assms full(2,1,3)] full show ?thesis
      by (auto simp: spec_insert_def unat_eq_zero)
  next
    case room
    have "length ?xs < ?c"
      using room(3) len lru_inv_length [OF assms] by (metis le_neq_implies_less word_unat_eq_iff)
    then have "take (?c - 1) ?xs = ?xs" by simp
    with insert_room [OF assms room(2,3)] room show ?thesis
      by (auto simp: spec_insert_def unat_eq_zero)
  qed
qed

section \<open>What a run remembers\<close>

lemma remdups_snoc: "remdups (xs @ [x]) = filter (\<lambda>y. y \<noteq> x) (remdups xs) @ [x]"
  by (induction xs) auto

lemma remove1_take:
  assumes "distinct xs" and "k \<in> set (take c xs)"
  shows "remove1 k (take c xs) = take (c - 1) (filter (\<lambda>y. y \<noteq> k) xs)"
  using assms
proof (induction xs arbitrary: c)
  case (Cons x xs)
  show ?case
  proof (cases c)
    case (Suc d)
    show ?thesis
    proof (cases "x = k")
      case True
      then have "filter (\<lambda>y. y \<noteq> k) xs = xs" using Cons.prems by (auto intro: filter_True)
      with True Suc show ?thesis by simp
    next
      case False
      with Cons.prems Suc have "k \<in> set (take d xs)" by auto
      moreover from this have "0 < d" by (cases d) auto
      ultimately show ?thesis
        using Cons.IH [of d] Cons.prems False Suc by (cases d) auto
    qed
  qed (use Cons.prems in simp)
qed simp

lemma take_filter_absent:
  "k \<notin> set (take c xs) \<Longrightarrow> take (c - 1) xs = take (c - 1) (filter (\<lambda>y. y \<noteq> k) xs)"
proof (induction xs arbitrary: c)
  case (Cons x xs)
  show ?case
  proof (cases "c - 1")
    case (Suc d)
    then have "c = Suc (Suc d)" by simp
    with Cons.prems Cons.IH [of "Suc d"] show ?thesis by auto
  qed simp
qed simp

lemma spec_insert_recency:
  "snd (spec_insert c (take c (rev (remdups ks))) k) = take c (rev (remdups (ks @ [k])))"
proof (cases c)
  case (Suc d)
  let ?R = "rev (remdups ks)"
  have "rev (remdups (ks @ [k])) = k # filter (\<lambda>y. y \<noteq> k) ?R"
    by (simp add: remdups_snoc rev_filter)
  then show ?thesis
    using remove1_take [of ?R k c] take_filter_absent [of k c ?R] Suc
    by (auto simp: spec_insert_def min_def)
qed (simp add: spec_insert_def)

lemma lru_run_append:
  "lru_run lru (ks @ ls) = exec_bind (lru_run lru ks) (\<lambda>l. lru_run l ls)"
  by (induction ks arbitrary: lru) (auto simp: exec_bind_assoc)

lemma lru_run_recency:
  "\<exists>lru. lru_run (LDLRUInit c) ks = Inr lru \<and> lru_inv lru \<and> lru_capacity lru = c \<and>
     lru_list lru = take (unat c) (rev (remdups ks))"
proof (induction ks rule: rev_induct)
  case Nil
  show ?case by (simp add: LDLRUInit_inv) (simp add: LDLRUInit_def)
next
  case (snoc k ks)
  then obtain lru where run: "lru_run (LDLRUInit c) ks = Inr lru" and inv: "lru_inv lru"
    and cap: "lru_capacity lru = c" and l: "lru_list lru = take (unat c) (rev (remdups ks))"
    by blast
  obtain st lru' where ins: "LDLRUInsert lru k = Inr (st, lru')" and inv': "lru_inv lru'"
    and cap': "lru_capacity lru' = c"
    and sp: "(st, lru_list lru') = spec_insert (unat c) (lru_list lru) k"
    using LDLRUInsert_spec [OF inv, of k] cap by auto
  have "lru_list lru' = take (unat c) (rev (remdups (ks @ [k])))"
    using sp l spec_insert_recency [of "unat c" ks k] by (metis snd_conv)
  then show ?case using run ins inv' cap' by (simp add: lru_run_append)
qed

section \<open>Guarantees\<close>

text \<open>Inserting a user key refines the bounded recency list: it never faults, keeps the
  invariant linking the list, the table and the element count, keeps the capacity, and returns
  the status and the new list that the specification gives, on all branches (capacity zero,
  known key, full, room left).\<close>

theorem LDLRUInsert_refines:
  assumes "lru_inv lru"
  shows "\<exists>st lru'. LDLRUInsert lru key = Inr (st, lru') \<and> lru_inv lru' \<and>
     lru_capacity lru' = lru_capacity lru \<and>
     (st, lru_list lru') = spec_insert (unat (lru_capacity lru)) (lru_list lru) key"
  by (rule LDLRUInsert_spec [OF assms])

theorem LDLRUInsert_refines_witness:
  "\<exists>st lru'. LDLRUInsert (LDLRUInit 2) ''a'' = Inr (st, lru') \<and> lru_inv lru' \<and>
     lru_capacity lru' = lru_capacity (LDLRUInit 2) \<and>
     (st, lru_list lru') = spec_insert (unat (lru_capacity (LDLRUInit 2))) (lru_list (LDLRUInit 2)) ''a''"
  by (rule LDLRUInsert_refines [OF LDLRUInit_inv])

text \<open>C38: after any sequence of inserted keys the set answers, for the next key, that it existed
  exactly when that key is among the most recently used distinct keys, as many as the capacity
  allows, and it never remembers more keys than that.\<close>

theorem lru_remembers_most_recent:
  "\<exists>lru st lru'. lru_run (LDLRUInit c) ks = Inr lru \<and> LDLRUInsert lru k = Inr (st, lru') \<and>
     (st = LDLRUSTATUS_EXISTED) = (k \<in> set (take (unat c) (rev (remdups ks)))) \<and>
     st \<noteq> LDLRUSTATUS_ERROR \<and> length (lru_list lru') \<le> unat c \<and> set (lru_hash lru') = set (lru_list lru')"
proof -
  obtain lru where run: "lru_run (LDLRUInit c) ks = Inr lru" "lru_inv lru" "lru_capacity lru = c"
    "lru_list lru = take (unat c) (rev (remdups ks))"
    using lru_run_recency by blast
  obtain st lru' where ins: "LDLRUInsert lru k = Inr (st, lru')" "lru_inv lru'"
    "lru_capacity lru' = c" "(st, lru_list lru') = spec_insert (unat c) (lru_list lru) k"
    using LDLRUInsert_spec [OF run(2), of k] run(3) by auto
  have "(st = LDLRUSTATUS_EXISTED) = (k \<in> set (lru_list lru)) \<and> st \<noteq> LDLRUSTATUS_ERROR"
    using ins(4) run(4) by (auto simp: spec_insert_def split: if_splits)
  moreover have "set (lru_hash lru') = set (lru_list lru')" using ins(2) by (simp add: lru_inv_def)
  ultimately show ?thesis using run(1,4) ins(1,3) lru_inv_length [OF ins(2)] by auto
qed

end
