(* ===== verification/Numbers.thy ===== *)
theory Numbers
  imports Prelude
begin

text \<open>
  The floating point numbers of the C code. A \<open>double\<close> or \<open>float\<close> is a finite
  value (an exact rational), an infinity or not-a-number; arithmetic is exact followed by
  rounding to nearest, ties to even, at the precision and exponent range of the IEEE
  binary64 and binary32 formats. The sign of zero is not represented: no comparison or
  arithmetic of the modelled code depends on it. Conversions to an integer type truncate
  towards zero and are undefined outside the range of the type.
\<close>

section \<open>Values and comparisons\<close>

datatype dbl = Fin rat | PInf | NInf | NaN

fun dbl_lt :: "dbl \<Rightarrow> dbl \<Rightarrow> bool" where
  "dbl_lt (Fin a) (Fin b) = (a < b)"
| "dbl_lt (Fin a) PInf = True"
| "dbl_lt NInf (Fin b) = True"
| "dbl_lt NInf PInf = True"
| "dbl_lt _ _ = False"

fun dbl_eq :: "dbl \<Rightarrow> dbl \<Rightarrow> bool" where
  "dbl_eq (Fin a) (Fin b) = (a = b)"
| "dbl_eq PInf PInf = True"
| "dbl_eq NInf NInf = True"
| "dbl_eq _ _ = False"

definition dbl_le :: "dbl \<Rightarrow> dbl \<Rightarrow> bool" where
  "dbl_le a b \<longleftrightarrow> dbl_lt a b \<or> dbl_eq a b"

lemma dbl_le_Fin [simp]: "dbl_le (Fin a) (Fin b) \<longleftrightarrow> a \<le> b"
  by (auto simp: dbl_le_def)

lemma dbl_eq_iff: "dbl_eq a b \<longleftrightarrow> a = b \<and> a \<noteq> NaN"
  by (cases a; cases b) auto

lemma dbl_lt_trans: "dbl_lt a b \<Longrightarrow> dbl_lt b c \<Longrightarrow> dbl_lt a c"
  by (cases a; cases b; cases c) auto

lemma dbl_lt_irrefl [simp]: "\<not> dbl_lt a a"
  by (cases a) auto

lemma dbl_lt_le_trans: "dbl_lt a b \<Longrightarrow> dbl_le b c \<Longrightarrow> dbl_lt a c"
  by (cases a; cases b; cases c) (auto simp: dbl_le_def)

lemma dbl_le_trans: "dbl_le a b \<Longrightarrow> dbl_le b c \<Longrightarrow> dbl_le a c"
  by (cases a; cases b; cases c) (auto simp: dbl_le_def)

lemma dbl_not_lt: "a \<noteq> NaN \<Longrightarrow> b \<noteq> NaN \<Longrightarrow> \<not> dbl_lt a b \<longleftrightarrow> dbl_le b a"
  by (cases a; cases b) (auto simp: dbl_le_def)

section \<open>Rounding\<close>

fun nlog2 :: "nat \<Rightarrow> nat" where
  "nlog2 n = (if n < 2 then 0 else Suc (nlog2 (n div 2)))"

declare nlog2.simps [simp del]

lemma nlog2_bounds: "0 < n \<Longrightarrow> 2 ^ nlog2 n \<le> n \<and> n < 2 ^ Suc (nlog2 n)"
proof (induction n rule: nlog2.induct)
  case (1 n)
  show ?case
  proof (cases "n < 2")
    case True
    with "1.prems" show ?thesis by (simp add: nlog2.simps)
  next
    case False
    with "1.IH" have "2 ^ nlog2 (n div 2) \<le> n div 2 \<and> n div 2 < 2 ^ Suc (nlog2 (n div 2))"
      by simp
    with False show ?thesis by (auto simp: nlog2.simps [of n])
  qed
qed

text \<open>The exponent of the binade of a positive rational.\<close>

definition ilog2 :: "rat \<Rightarrow> int" where
  "ilog2 x = (if 1 \<le> x then int (nlog2 (nat \<lfloor>x\<rfloor>))
     else - int (Suc (nlog2 (nat (\<lceil>1 / x\<rceil> - 1)))))"

lemma ilog2_ge_one:
  assumes "1 \<le> x"
  shows "2 powi ilog2 x \<le> x" and "x < 2 powi (ilog2 x + 1)"
proof -
  let ?n = "nat \<lfloor>x\<rfloor>"
  have n: "0 < ?n" using assms by simp
  have b: "2 ^ nlog2 ?n \<le> ?n" "?n < 2 ^ Suc (nlog2 ?n)"
    using nlog2_bounds [OF n] by auto
  have fl: "of_nat ?n \<le> x" "x < of_nat ?n + 1"
    using assms floor_correct [of x] by simp_all
  have "(2::rat) ^ nlog2 ?n \<le> of_nat ?n"
    using b(1) by (metis of_nat_le_iff of_nat_numeral of_nat_power)
  then have "(2::rat) ^ nlog2 ?n \<le> x" using fl(1) by (rule order_trans)
  then show "2 powi ilog2 x \<le> x"
    using assms by (simp add: ilog2_def)
  have "Suc ?n \<le> 2 ^ Suc (nlog2 ?n)" using b(2) by simp
  then have "of_nat (Suc ?n) \<le> (2::rat) ^ Suc (nlog2 ?n)"
    by (metis of_nat_le_iff of_nat_numeral of_nat_power)
  then have "x < (2::rat) ^ Suc (nlog2 ?n)" using fl by simp
  then show "x < 2 powi (ilog2 x + 1)"
    using assms by (simp add: ilog2_def power_int_add)
qed

lemma ilog2_lt_one:
  assumes "0 < x" and "x < 1"
  shows "2 powi ilog2 x \<le> x" and "x < 2 powi (ilog2 x + 1)"
proof -
  let ?m = "nat (\<lceil>1 / x\<rceil> - 1)"
  have gt: "1 < 1 / x" using assms by simp
  then have "1 < \<lceil>1 / x\<rceil>" by (simp only: less_ceiling_iff of_int_1)
  then have c: "2 \<le> \<lceil>1 / x\<rceil>" by linarith
  then have m: "0 < ?m" by linarith
  have b: "2 ^ nlog2 ?m \<le> ?m" "?m < 2 ^ Suc (nlog2 ?m)"
    using nlog2_bounds [OF m] by auto
  have im: "int ?m = \<lceil>1 / x\<rceil> - 1" using c by linarith
  have bi: "(2::int) ^ nlog2 ?m \<le> int ?m" "int ?m < (2::int) ^ Suc (nlog2 ?m)"
    using b by (metis of_nat_le_iff of_nat_numeral of_nat_power)
       (metis b(2) of_nat_less_iff of_nat_numeral of_nat_power)
  have up: "1 / x \<le> 2 ^ Suc (nlog2 ?m)"
  proof -
    have "\<lceil>1 / x\<rceil> \<le> (2::int) ^ Suc (nlog2 ?m)" using bi(2) im by linarith
    then show ?thesis by (simp add: ceiling_le_iff)
  qed
  have lo: "2 ^ nlog2 ?m < 1 / x"
  proof -
    have "(2::int) ^ nlog2 ?m < \<lceil>1 / x\<rceil>" using bi(1) im by linarith
    then show ?thesis by (simp add: less_ceiling_iff)
  qed
  have i: "ilog2 x = - int (Suc (nlog2 ?m))" using assms by (simp add: ilog2_def)
  show "2 powi ilog2 x \<le> x"
    using up assms unfolding i power_int_minus power_int_of_nat
    by (simp add: field_simps)
  have "x < 1 / 2 ^ nlog2 ?m" using lo assms by (simp add: field_simps)
  moreover have "ilog2 x + 1 = - int (nlog2 ?m)" using i by simp
  ultimately show "x < 2 powi (ilog2 x + 1)"
    by (simp add: power_int_minus inverse_eq_divide)
qed

lemma ilog2_bounds:
  assumes "0 < x"
  shows "2 powi ilog2 x \<le> x" and "x < 2 powi (ilog2 x + 1)"
  using assms ilog2_ge_one ilog2_lt_one by (cases "1 \<le> x"; force)+

lemma ilog2_mono:
  assumes "0 < x" and "x \<le> y"
  shows "ilog2 x \<le> ilog2 y"
proof -
  have "(2::rat) powi ilog2 x \<le> x" "y < 2 powi (ilog2 y + 1)"
    using assms ilog2_bounds [of x] ilog2_bounds [of y] by auto
  then have "(2::rat) powi ilog2 x < 2 powi (ilog2 y + 1)" using assms by linarith
  then have "ilog2 x < ilog2 y + 1"
    using power_int_increasing [of "ilog2 y + 1" "ilog2 x" "2::rat"] by (meson leD leI one_le_numeral)
  then show ?thesis by simp
qed


text \<open>Round to the nearest integer, ties to the even one.\<close>

definition rhe :: "rat \<Rightarrow> int" where
  "rhe x = (let n = \<lfloor>x\<rfloor>; f = x - of_int n in
     if f < 1 / 2 then n else if 1 / 2 < f then n + 1 else if even n then n else n + 1)"

lemma rhe_of_int [simp]: "rhe (of_int n) = n"
  by (simp add: rhe_def)

lemma rhe_cases: "rhe x = \<lfloor>x\<rfloor> \<or> rhe x = \<lfloor>x\<rfloor> + 1"
  by (simp add: rhe_def Let_def)

lemma rhe_mono:
  assumes "x \<le> y"
  shows "rhe x \<le> rhe y"
proof (cases "\<lfloor>x\<rfloor> = \<lfloor>y\<rfloor>")
  case True
  then have "x - of_int \<lfloor>x\<rfloor> \<le> y - of_int \<lfloor>y\<rfloor>" using assms by simp
  then show ?thesis unfolding rhe_def Let_def using True by auto
next
  case False
  then have "\<lfloor>x\<rfloor> + 1 \<le> \<lfloor>y\<rfloor>" using floor_mono [OF assms] by simp
  then show ?thesis using rhe_cases [of x] rhe_cases [of y] by auto
qed

lemma rhe_minus: "rhe (- x) = - rhe x"
proof (cases "x = of_int \<lfloor>x\<rfloor>")
  case True
  then have "rhe (- x) = rhe (of_int (- \<lfloor>x\<rfloor>))" by simp
  also have "\<dots> = - \<lfloor>x\<rfloor>" by (rule rhe_of_int)
  also have "\<lfloor>x\<rfloor> = rhe x" using True by (metis rhe_of_int)
  finally show ?thesis .
next
  case False
  then have "of_int \<lfloor>x\<rfloor> < x" using floor_correct [of x] by linarith
  then have "\<lfloor>- x\<rfloor> = - \<lfloor>x\<rfloor> - 1"
    using floor_correct [of x] by (intro floor_unique) auto
  then show ?thesis unfolding rhe_def Let_def by auto
qed

text \<open>
  The exponent of the last place of a number of precision \<open>p\<close> with least exponent
  \<open>emin\<close>, and rounding at that place.
\<close>

definition quantum :: "nat \<Rightarrow> int \<Rightarrow> rat \<Rightarrow> int" where
  "quantum p emin x = max (ilog2 \<bar>x\<bar> - int p + 1) emin"

definition rnd :: "nat \<Rightarrow> int \<Rightarrow> rat \<Rightarrow> rat" where
  "rnd p emin x = (if x = 0 then 0 else
     let q = quantum p emin x in of_int (rhe (x / 2 powi q)) * 2 powi q)"

definition fl :: "nat \<Rightarrow> int \<Rightarrow> int \<Rightarrow> rat \<Rightarrow> dbl" where
  "fl p emin emax x = (let r = rnd p emin x in
     if 2 powi emax \<le> r then PInf else if r \<le> - (2 powi emax) then NInf else Fin r)"

definition fl64 :: "rat \<Rightarrow> dbl" where
  "fl64 = fl 53 (-1074) 1024"

definition fl32 :: "rat \<Rightarrow> dbl" where
  "fl32 = fl 24 (-149) 128"

lemma rnd_zero [simp]: "rnd p emin 0 = 0"
  by (simp add: rnd_def)

lemma rnd_minus: "rnd p emin (- x) = - rnd p emin x"
  by (simp add: rnd_def quantum_def Let_def rhe_minus)

lemma quantum_mono: "0 < x \<Longrightarrow> x \<le> y \<Longrightarrow> quantum p emin x \<le> quantum p emin y"
  using ilog2_mono [of x y] by (auto simp: quantum_def)

text \<open>A power of two at or above the last place is a barrier that rounding does not cross.\<close>

lemma powi_split: "q \<le> k \<Longrightarrow> (2::rat) powi k = of_int (2 ^ nat (k - q)) * 2 powi q"
  by (simp add: power_int_add [symmetric] flip: power_int_of_nat)

lemma rnd_le_pow2:
  assumes "0 < x" and "x \<le> 2 powi k" and "quantum p emin x \<le> k"
  shows "rnd p emin x \<le> 2 powi k"
proof -
  let ?q = "quantum p emin x"
  have pos: "(0::rat) < 2 powi ?q" by simp
  have "x / 2 powi ?q \<le> of_int (2 ^ nat (k - ?q))"
    using assms(2) powi_split [OF assms(3)] pos by (simp add: field_simps)
  then have "rhe (x / 2 powi ?q) \<le> 2 ^ nat (k - ?q)"
    using rhe_mono rhe_of_int by metis
  then have "of_int (rhe (x / 2 powi ?q)) \<le> (of_int (2 ^ nat (k - ?q)) :: rat)"
    by (simp only: of_int_le_iff)
  then show ?thesis
    using assms(1) powi_split [OF assms(3)] pos by (simp add: rnd_def Let_def mult_right_mono)
qed

lemma rnd_ge_pow2:
  assumes "0 < x" and "2 powi k \<le> x" and "quantum p emin x \<le> k"
  shows "2 powi k \<le> rnd p emin x"
proof -
  let ?q = "quantum p emin x"
  have pos: "(0::rat) < 2 powi ?q" by simp
  have "of_int (2 ^ nat (k - ?q)) \<le> x / 2 powi ?q"
    using assms(2) powi_split [OF assms(3)] pos by (simp add: field_simps)
  then have "2 ^ nat (k - ?q) \<le> rhe (x / 2 powi ?q)"
    using rhe_mono rhe_of_int by metis
  then have "(of_int (2 ^ nat (k - ?q)) :: rat) \<le> of_int (rhe (x / 2 powi ?q))"
    by (simp only: of_int_le_iff)
  then show ?thesis
    using assms(1) powi_split [OF assms(3)] pos by (simp add: rnd_def Let_def mult_right_mono)
qed

lemma rnd_nonneg: "0 \<le> x \<Longrightarrow> 0 \<le> rnd p emin x"
  using rhe_mono [of 0 "x / 2 powi quantum p emin x"] rhe_of_int [of 0]
  by (auto simp: rnd_def Let_def)

lemma rnd_mono_pos:
  assumes "0 < x" and "x \<le> y" and "0 < p"
  shows "rnd p emin x \<le> rnd p emin y"
proof (cases "quantum p emin x = quantum p emin y")
  case True
  have "x / 2 powi quantum p emin y \<le> y / 2 powi quantum p emin y"
    using assms(2) by (simp add: divide_right_mono)
  then have "rhe (x / 2 powi quantum p emin y) \<le> rhe (y / 2 powi quantum p emin y)"
    by (rule rhe_mono)
  then show ?thesis using assms True by (simp add: rnd_def Let_def)
next
  case False
  then have lt: "quantum p emin x < quantum p emin y"
    using quantum_mono [OF assms(1,2)] by (simp add: order.strict_iff_order)
  let ?e = "ilog2 y"
  have qy: "quantum p emin y = ?e - int p + 1"
    using lt assms(1,2) by (auto simp: quantum_def split: if_splits)
  then have le: "quantum p emin y \<le> ?e" using assms(3) by simp
  have y: "0 < y" using assms by simp
  have "ilog2 x < ?e"
    using lt qy assms(1) by (simp add: quantum_def)
  then have "(2::rat) powi (ilog2 x + 1) \<le> 2 powi ?e"
    by (intro power_int_increasing) auto
  with ilog2_bounds(2) [OF assms(1)] have "x \<le> 2 powi ?e" by linarith
  moreover have "quantum p emin x \<le> ?e" using lt le by simp
  ultimately have "rnd p emin x \<le> 2 powi ?e" using assms(1) by (intro rnd_le_pow2)
  also have "\<dots> \<le> rnd p emin y"
    using y ilog2_bounds(1) [OF y] le by (intro rnd_ge_pow2)
  finally show ?thesis .
qed

lemma rnd_mono:
  assumes "x \<le> y" and "0 < p"
  shows "rnd p emin x \<le> rnd p emin y"
proof (cases "0 < x")
  case True
  then show ?thesis using assms rnd_mono_pos by blast
next
  case False
  show ?thesis
  proof (cases "0 \<le> y")
    case True
    then have "0 \<le> rnd p emin y" by (rule rnd_nonneg)
    moreover have "0 \<le> rnd p emin (- x)" using False by (intro rnd_nonneg) simp
    ultimately show ?thesis by (simp add: rnd_minus)
  next
    case neg: False
    then have "rnd p emin (- y) \<le> rnd p emin (- x)"
      using assms by (intro rnd_mono_pos) auto
    then show ?thesis by (simp add: rnd_minus)
  qed
qed

lemma fl_not_NaN [simp]: "fl p emin emax x \<noteq> NaN"
  by (simp add: fl_def Let_def)

lemma fl_mono:
  assumes "x \<le> y" and "0 < p"
  shows "dbl_le (fl p emin emax x) (fl p emin emax y)"
proof -
  have pos: "(0::rat) < 2 powi emax" by simp
  show ?thesis
    using rnd_mono [OF assms, of emin] pos by (auto simp: fl_def Let_def dbl_le_def)
qed

lemma fl32_mono: "x \<le> y \<Longrightarrow> dbl_le (fl32 x) (fl32 y)"
  by (simp add: fl32_def fl_mono)

lemma fl32_zero [simp]: "fl32 0 = Fin 0"
  by (simp add: fl32_def fl_def)

lemma fl64_zero [simp]: "fl64 0 = Fin 0"
  by (simp add: fl64_def fl_def)

text \<open>A multiple of a power of two at or above the last place is not changed by rounding.\<close>

lemma rnd_exact:
  assumes "quantum p emin x \<le> k" and "x = of_int m * 2 powi k"
  shows "rnd p emin x = x"
proof (cases "x = 0")
  case False
  define q where "q = quantum p emin x"
  have "2 powi k = of_int (2 ^ nat (k - q)) * (2::rat) powi q"
    using assms(1) unfolding q_def by (rule powi_split)
  then have x: "x = of_int (m * 2 ^ nat (k - q)) * 2 powi q"
    using assms(2) by (simp add: mult.assoc)
  have "x / 2 powi q = of_int (m * 2 ^ nat (k - q))" by (subst x) simp
  then have "rhe (x / 2 powi q) = m * 2 ^ nat (k - q)" by (simp only: rhe_of_int)
  with False have "rnd p emin x = of_int (m * 2 ^ nat (k - q)) * 2 powi q"
    by (simp only: rnd_def Let_def q_def [symmetric] if_False)
  then show ?thesis using x by (rule trans [OF _ sym])
qed simp

lemma ilog2_less:
  assumes "0 < x" and "x < 2 powi k"
  shows "ilog2 x < k"
proof (rule ccontr)
  assume "\<not> ilog2 x < k"
  then have "(2::rat) powi k \<le> 2 powi ilog2 x" by (intro power_int_increasing) auto
  then show False using ilog2_bounds(1) [OF assms(1)] assms(2) by linarith
qed

lemma fl64_int:
  assumes "\<bar>i\<bar> < 2 ^ 53"
  shows "fl64 (of_int i) = Fin (of_int i)"
proof (cases "i = 0")
  case False
  let ?x = "of_int i :: rat"
  have lt: "\<bar>?x\<bar> < 2 powi 53"
  proof -
    have "(of_int \<bar>i\<bar> :: rat) < of_int (2 ^ 53)" using assms by (simp only: of_int_less_iff)
    then show ?thesis by simp
  qed
  then have "ilog2 \<bar>?x\<bar> < 53" using False by (intro ilog2_less) auto
  then have "quantum 53 (- 1074) ?x \<le> 0" by (simp add: quantum_def)
  then have r: "rnd 53 (- 1074) ?x = ?x" by (rule rnd_exact [of _ _ _ _ i]) simp
  define M where "M = (2::rat) powi 1024"
  have "(2::rat) powi 53 \<le> M" unfolding M_def by (intro power_int_increasing) auto
  with lt have "\<bar>?x\<bar> < M" by (rule less_le_trans)
  then show ?thesis unfolding fl64_def fl_def r Let_def M_def [symmetric] by (simp add: abs_less_iff)
qed simp

section \<open>Arithmetic\<close>

fun dbl_neg :: "dbl \<Rightarrow> dbl" where
  "dbl_neg (Fin a) = Fin (- a)"
| "dbl_neg PInf = NInf"
| "dbl_neg NInf = PInf"
| "dbl_neg NaN = NaN"

text \<open>Addition in double precision, with the IEEE rules for infinities.\<close>

fun dbl_add :: "dbl \<Rightarrow> dbl \<Rightarrow> dbl" where
  "dbl_add (Fin a) (Fin b) = fl64 (a + b)"
| "dbl_add NaN _ = NaN"
| "dbl_add _ NaN = NaN"
| "dbl_add PInf NInf = NaN"
| "dbl_add NInf PInf = NaN"
| "dbl_add PInf _ = PInf"
| "dbl_add NInf _ = NInf"
| "dbl_add _ PInf = PInf"
| "dbl_add _ NInf = NInf"

definition dbl_sub :: "dbl \<Rightarrow> dbl \<Rightarrow> dbl" where
  "dbl_sub a b = dbl_add a (dbl_neg b)"

text \<open>Division and multiplication by a positive finite constant of the source.\<close>

fun dbl_div_const :: "dbl \<Rightarrow> rat \<Rightarrow> dbl" where
  "dbl_div_const (Fin a) c = fl64 (a / c)"
| "dbl_div_const x c = x"

fun dbl_mul_const :: "dbl \<Rightarrow> rat \<Rightarrow> dbl" where
  "dbl_mul_const (Fin a) c = fl64 (a * c)"
| "dbl_mul_const x c = x"

text \<open>Assignment of a \<open>double\<close> to a \<open>float\<close>.\<close>

fun to_float :: "dbl \<Rightarrow> dbl" where
  "to_float (Fin a) = fl32 a"
| "to_float x = x"

definition trunc :: "rat \<Rightarrow> int" where
  "trunc x = (if 0 \<le> x then \<lfloor>x\<rfloor> else \<lceil>x\<rceil>)"

text \<open>\<open>fmod\<close> by a positive constant: exact, with the sign of the dividend.\<close>

fun dbl_fmod :: "dbl \<Rightarrow> rat \<Rightarrow> dbl" where
  "dbl_fmod (Fin a) c = Fin (a - c * of_int (trunc (a / c)))"
| "dbl_fmod _ c = NaN"

section \<open>Conversions between floating point and integer types\<close>

type_synonym uint = "32 word"

definition dbl_to_int_range :: "int \<Rightarrow> int \<Rightarrow> dbl \<Rightarrow> int exec" where
  "dbl_to_int_range lo hi d = (case d of
     Fin x \<Rightarrow> if lo \<le> trunc x \<and> trunc x < hi then Inr (trunc x) else Inl BadConversion
   | _ \<Rightarrow> Inl BadConversion)"

text \<open>\<open>(unsigned int)d\<close>, \<open>(int)d\<close> and \<open>(int64_t)d\<close>.\<close>

definition dbl_to_uint :: "dbl \<Rightarrow> uint exec" where
  "dbl_to_uint d = exec_bind (dbl_to_int_range 0 (2 ^ 32) d) (\<lambda>i. Inr (word_of_int i))"

definition dbl_to_int32 :: "dbl \<Rightarrow> int exec" where
  "dbl_to_int32 d = dbl_to_int_range (- (2 ^ 31)) (2 ^ 31) d"

definition dbl_to_int64 :: "dbl \<Rightarrow> int exec" where
  "dbl_to_int64 d = dbl_to_int_range (- (2 ^ 63)) (2 ^ 63) d"

text \<open>An \<open>unsigned int\<close> used as a \<open>double\<close>; every value is exact.\<close>

definition uint_to_dbl :: "uint \<Rightarrow> dbl" where
  "uint_to_dbl w = Fin (of_nat (unat w))"

lemma uint_to_dbl_inj [simp]: "uint_to_dbl v = uint_to_dbl w \<longleftrightarrow> v = w"
  by (metis dbl.inject of_nat_eq_iff uint_to_dbl_def word_unat_eq_iff)

lemma dbl_eq_uint [simp]: "dbl_eq (uint_to_dbl v) (uint_to_dbl w) \<longleftrightarrow> v = w"
  by (simp add: dbl_eq_iff) (simp add: uint_to_dbl_def)

lemma trunc_of_int [simp]: "trunc (of_int i) = i"
  by (simp add: trunc_def)

lemma dbl_to_uint_uint [simp]: "dbl_to_uint (uint_to_dbl w) = Inr w"
proof -
  have "trunc (of_nat (unat w)) = int (unat w)"
    using trunc_of_int [of "int (unat w)"] by simp
  moreover have "int (unat w) < 2 ^ 32"
    using uint_lt2p [of w] by simp
  ultimately show ?thesis
    by (simp add: dbl_to_uint_def dbl_to_int_range_def uint_to_dbl_def)
qed

lemma dbl_to_uint_Inr:
  assumes "dbl_to_uint d = Inr w"
  obtains x where "d = Fin x" and "uint w = trunc x" and "- 1 < x" and "x < 2 ^ 32"
proof -
  obtain x where d: "d = Fin x"
    using assms by (cases d) (auto simp: dbl_to_uint_def dbl_to_int_range_def)
  with assms have r: "0 \<le> trunc x" "trunc x < 2 ^ 32" and w: "w = word_of_int (trunc x)"
    by (auto simp: dbl_to_uint_def dbl_to_int_range_def split: if_splits)
  have u: "uint w = trunc x" using r w by (simp add: uint_word_of_int)
  have lo: "- 1 < x" using r(1) by (auto simp: trunc_def split: if_splits)
  have hi: "x < 2 ^ 32" using r(2) by (auto simp: trunc_def floor_less_iff split: if_splits)
  show thesis using that [OF d u lo hi] .
qed

section \<open>Evaluation of closed terms\<close>

lemma floor_rat_numeral [simp]:
  "\<lfloor>numeral a / numeral b :: rat\<rfloor> = numeral a div numeral b"
  "\<lfloor>- (numeral a / numeral b) :: rat\<rfloor> = - numeral a div numeral b"
  "\<lfloor>1 / numeral b :: rat\<rfloor> = 1 div numeral b"
  "\<lfloor>- (1 / numeral b) :: rat\<rfloor> = - 1 div numeral b"
  using floor_divide_of_int_eq [of "numeral a" "numeral b", where ?'a = rat]
    floor_divide_of_int_eq [of "- numeral a" "numeral b", where ?'a = rat]
    floor_divide_of_int_eq [of 1 "numeral b", where ?'a = rat]
    floor_divide_of_int_eq [of "- 1" "numeral b", where ?'a = rat]
  by simp_all

lemma ceiling_rat_numeral [simp]:
  "\<lceil>numeral a / numeral b :: rat\<rceil> = - (- numeral a div numeral b)"
  "\<lceil>1 / numeral b :: rat\<rceil> = - (- 1 div numeral b)"
  by (simp_all only: ceiling_def minus_divide_left [symmetric] floor_rat_numeral)

lemmas fl_eval = fl32_def fl64_def fl_def rnd_def quantum_def ilog2_def nlog2.simps rhe_def Let_def
lemmas conv_eval = dbl_to_uint_def dbl_to_int32_def dbl_to_int64_def dbl_to_int_range_def trunc_def

end
