(* ===== verification/Json.thy ===== *)
theory Json
  imports Numbers
begin

text \<open>
  The JSON values and operations of \<open>c-sdk-common/src/json.c\<close> over \<open>cJSON.c\<close>. A
  pointer that the code may leave \<open>NULL\<close> is an \<open>option\<close>. The children of a
  collection are a list in link order; an object keeps duplicate keys, as cJSON does, and
  a lookup finds the first. Text and keys are C strings, hence free of the NUL character.
  The model takes every allocation to succeed.
\<close>

section \<open>Values\<close>

datatype LDJSONType = LDNull | LDText | LDNumber | LDBool | LDObject | LDArray

datatype LDJSON =
    JNull
  | JBool bool
  | JNumber dbl
  | JText string
  | JArray "LDJSON list"
  | JObject "(string \<times> LDJSON) list"

fun LDJSONGetType :: "LDJSON option \<Rightarrow> LDJSONType" where
  "LDJSONGetType None = LDNull"
| "LDJSONGetType (Some (JBool b)) = LDBool"
| "LDJSONGetType (Some (JNumber n)) = LDNumber"
| "LDJSONGetType (Some JNull) = LDNull"
| "LDJSONGetType (Some (JObject kvs)) = LDObject"
| "LDJSONGetType (Some (JArray xs)) = LDArray"
| "LDJSONGetType (Some (JText s)) = LDText"

fun LDGetBool :: "LDJSON option \<Rightarrow> bool" where
  "LDGetBool (Some (JBool b)) = b"
| "LDGetBool _ = False"

fun LDGetNumber :: "LDJSON option \<Rightarrow> dbl" where
  "LDGetNumber (Some (JNumber n)) = n"
| "LDGetNumber _ = Fin 0"

fun LDGetText :: "LDJSON option \<Rightarrow> string option" where
  "LDGetText (Some (JText s)) = Some s"
| "LDGetText _ = None"

text \<open>\<open>LDSetNumber\<close> on a node: whether it succeeded and the node after it.\<close>

fun LDSetNumber :: "LDJSON option \<Rightarrow> dbl \<Rightarrow> bool \<times> LDJSON option" where
  "LDSetNumber (Some (JNumber m)) n = (True, Some (JNumber n))"
| "LDSetNumber j n = (False, j)"

section \<open>Collections\<close>

text \<open>
  A loop \<open>for (iter = LDGetIter(c); iter; iter = LDIterNext(iter))\<close> visits the nodes
  of this list; the first component of a node is its \<open>LDIterKey\<close>.
\<close>

fun LDGetIter :: "LDJSON option \<Rightarrow> (string option \<times> LDJSON) list" where
  "LDGetIter (Some (JArray xs)) = map (Pair None) xs"
| "LDGetIter (Some (JObject kvs)) = map (\<lambda>(k, v). (Some k, v)) kvs"
| "LDGetIter _ = []"

definition iter_values :: "LDJSON option \<Rightarrow> LDJSON list" where
  "iter_values j = map snd (LDGetIter j)"

lemma iter_values_simps [simp]:
  "iter_values (Some (JArray xs)) = xs"
  "iter_values (Some (JObject kvs)) = map snd kvs"
  "iter_values None = []"
  by (simp_all add: iter_values_def comp_def split_def)

definition LDCollectionGetSize :: "LDJSON option \<Rightarrow> uint" where
  "LDCollectionGetSize j = of_nat (length (LDGetIter j))"

text \<open>The index is passed on to cJSON as an \<open>int\<close>, where a negative one finds nothing.\<close>

fun LDArrayLookup :: "LDJSON option \<Rightarrow> uint \<Rightarrow> LDJSON option" where
  "LDArrayLookup (Some (JArray xs)) i =
     (if sint i < 0 then None
      else if nat (sint i) < length xs then Some (xs ! nat (sint i)) else None)"
| "LDArrayLookup _ i = None"

fun LDArrayPush :: "LDJSON option \<Rightarrow> LDJSON option \<Rightarrow> bool \<times> LDJSON option" where
  "LDArrayPush (Some (JArray xs)) (Some x) = (True, Some (JArray (xs @ [x])))"
| "LDArrayPush j x = (False, j)"

fun LDArrayAppend :: "LDJSON option \<Rightarrow> LDJSON option \<Rightarrow> bool \<times> LDJSON option" where
  "LDArrayAppend (Some (JArray xs)) (Some (JArray ys)) = (True, Some (JArray (xs @ ys)))"
| "LDArrayAppend j x = (False, j)"

fun LDObjectLookup :: "LDJSON option \<Rightarrow> string \<Rightarrow> LDJSON option" where
  "LDObjectLookup (Some (JObject kvs)) k = map_of kvs k"
| "LDObjectLookup _ k = None"

fun LDObjectDeleteKey :: "LDJSON option \<Rightarrow> string \<Rightarrow> LDJSON option" where
  "LDObjectDeleteKey (Some (JObject kvs)) k = Some (JObject (del_first k kvs))"
| "LDObjectDeleteKey j k = j"

text \<open>The detached node and the object after it.\<close>

definition LDObjectDetachKey :: "LDJSON option \<Rightarrow> string \<Rightarrow> LDJSON option \<times> LDJSON option" where
  "LDObjectDetachKey j k = (LDObjectLookup j k, LDObjectDeleteKey j k)"

fun LDObjectSetKey :: "LDJSON option \<Rightarrow> string \<Rightarrow> LDJSON option \<Rightarrow> bool \<times> LDJSON option" where
  "LDObjectSetKey (Some (JObject kvs)) k (Some v) =
     (True, Some (JObject (del_first k kvs @ [(k, v)])))"
| "LDObjectSetKey j k v = (False, j)"

fun merge_entries :: "LDJSON option \<Rightarrow> (string \<times> LDJSON) list \<Rightarrow> LDJSON option" where
  "merge_entries j [] = j"
| "merge_entries j ((k, v) # kvs) = merge_entries (snd (LDObjectSetKey j k (Some v))) kvs"

fun LDObjectMerge :: "LDJSON option \<Rightarrow> LDJSON option \<Rightarrow> bool \<times> LDJSON option" where
  "LDObjectMerge (Some (JObject kvs)) (Some (JObject from)) =
     (True, merge_entries (Some (JObject kvs)) from)"
| "LDObjectMerge j f = (False, j)"

text \<open>
  What \<open>LDObjectSetKey\<close> leaves in an object that is not \<open>NULL\<close>; on an object it never
  fails.
\<close>

definition set_key :: "LDJSON \<Rightarrow> string \<Rightarrow> LDJSON \<Rightarrow> LDJSON" where
  "set_key j k v = the (snd (LDObjectSetKey (Some j) k (Some v)))"

definition delete_key :: "LDJSON \<Rightarrow> string \<Rightarrow> LDJSON" where
  "delete_key j k = the (LDObjectDeleteKey (Some j) k)"

section \<open>Comparison\<close>

fun jsize :: "LDJSON \<Rightarrow> nat" where
  "jsize (JArray xs) = Suc (sum_list (map (\<lambda>x. Suc (jsize x)) xs))"
| "jsize (JObject kvs) = Suc (sum_list (map (\<lambda>p. Suc (jsize (snd p))) kvs))"
| "jsize _ = 1"

definition jsizes :: "LDJSON list \<Rightarrow> nat" where
  "jsizes xs = sum_list (map (\<lambda>x. Suc (jsize x)) xs)"

definition esizes :: "(string \<times> LDJSON) list \<Rightarrow> nat" where
  "esizes kvs = sum_list (map (\<lambda>p. Suc (jsize (snd p))) kvs)"

lemma esizes_lookup: "map_of kvs k = Some v \<Longrightarrow> jsize v < esizes kvs"
  by (induction kvs) (auto simp: esizes_def split: if_splits)

function (sequential) cJSON_Compare :: "LDJSON \<Rightarrow> LDJSON \<Rightarrow> bool"
  and compare_arrays :: "LDJSON list \<Rightarrow> LDJSON list \<Rightarrow> bool"
  and compare_entries :: "(string \<times> LDJSON) list \<Rightarrow> (string \<times> LDJSON) list \<Rightarrow> bool"
where
  "cJSON_Compare JNull JNull = True"
| "cJSON_Compare (JBool x) (JBool y) = (x = y)"
| "cJSON_Compare (JNumber x) (JNumber y) = dbl_eq x y"
| "cJSON_Compare (JText x) (JText y) = (x = y)"
| "cJSON_Compare (JArray xs) (JArray ys) = compare_arrays xs ys"
| "cJSON_Compare (JObject xs) (JObject ys) = (compare_entries xs ys \<and> compare_entries ys xs)"
| "cJSON_Compare _ _ = False"
| "compare_arrays [] [] = True"
| "compare_arrays (x # xs) (y # ys) = (cJSON_Compare x y \<and> compare_arrays xs ys)"
| "compare_arrays _ _ = False"
| "compare_entries [] ys = True"
| "compare_entries ((k, v) # xs) ys = (case map_of ys k of
      None \<Rightarrow> False
    | Some w \<Rightarrow> cJSON_Compare v w \<and> compare_entries xs ys)"
  by pat_completeness auto
termination
  by (relation "measure (\<lambda>x. case x of
        Inl (a, b) \<Rightarrow> jsize a + jsize b
      | Inr (Inl (xs, ys)) \<Rightarrow> jsizes xs + jsizes ys
      | Inr (Inr (xs, ys)) \<Rightarrow> esizes xs + esizes ys)")
    (auto simp: jsizes_def esizes_def dest!: esizes_lookup)

definition LDJSONCompare :: "LDJSON option \<Rightarrow> LDJSON option \<Rightarrow> bool" where
  "LDJSONCompare a b = (case (a, b) of (Some x, Some y) \<Rightarrow> cJSON_Compare x y | _ \<Rightarrow> False)"

lemma compare_arrays_iff: "compare_arrays xs ys \<longleftrightarrow> list_all2 cJSON_Compare xs ys"
  by (induction xs arbitrary: ys; case_tac ys) auto

lemma compare_entries_iff:
  "compare_entries xs ys \<longleftrightarrow>
     (\<forall>p\<in>set xs. \<exists>w. map_of ys (fst p) = Some w \<and> cJSON_Compare (snd p) w)"
  by (induction xs) (auto split: option.splits)

lemma cJSON_Compare_type:
  "cJSON_Compare a b \<Longrightarrow> LDJSONGetType (Some a) = LDJSONGetType (Some b)"
  by (cases a; cases b) auto

lemma cJSON_Compare_sym: "cJSON_Compare a b = cJSON_Compare b a"
  and compare_arrays_sym: "compare_arrays xs ys = compare_arrays ys xs"
  and compare_entries_triv: "compare_entries us vs = compare_entries us vs"
  by (induction a b and xs ys and us vs
        rule: cJSON_Compare_compare_arrays_compare_entries.induct)
    (auto simp: dbl_eq_iff)

section \<open>Well-formed values\<close>

text \<open>No object inside the value has the same key twice.\<close>

fun wf_json :: "LDJSON \<Rightarrow> bool" where
  "wf_json (JArray xs) = list_all wf_json xs"
| "wf_json (JObject kvs) = (distinct (map fst kvs) \<and> list_all (\<lambda>p. wf_json (snd p)) kvs)"
| "wf_json _ = True"

text \<open>No number inside the value is not-a-number, which is not equal to itself.\<close>

fun nan_free :: "LDJSON \<Rightarrow> bool" where
  "nan_free (JArray xs) = list_all nan_free xs"
| "nan_free (JObject kvs) = list_all (\<lambda>p. nan_free (snd p)) kvs"
| "nan_free (JNumber n) = (n \<noteq> NaN)"
| "nan_free _ = True"

lemma cJSON_Compare_refl: "wf_json a \<Longrightarrow> nan_free a \<Longrightarrow> cJSON_Compare a a"
proof (induction a rule: wf_json.induct)
  case (1 xs)
  then show ?case
    by (simp add: compare_arrays_iff list_all_iff list_all2_same)
next
  case (2 kvs)
  then show ?case
    by (auto simp: compare_entries_iff list_all_iff map_of_is_SomeI)
qed (auto simp: dbl_eq_iff)

lemma json_type_iff:
  "LDJSONGetType (Some j) = LDText \<longleftrightarrow> (\<exists>s. j = JText s)"
  "LDJSONGetType (Some j) = LDNumber \<longleftrightarrow> (\<exists>n. j = JNumber n)"
  "LDJSONGetType (Some j) = LDBool \<longleftrightarrow> (\<exists>b. j = JBool b)"
  "LDJSONGetType (Some j) = LDObject \<longleftrightarrow> (\<exists>kvs. j = JObject kvs)"
  "LDJSONGetType (Some j) = LDArray \<longleftrightarrow> (\<exists>xs. j = JArray xs)"
  "LDJSONGetType (Some j) = LDNull \<longleftrightarrow> j = JNull"
  by (cases j; simp)+

section \<open>Objects as keyed containers\<close>

text \<open>An object whose own keys are distinct; its members may be any values.\<close>

definition obj_inv :: "LDJSON \<Rightarrow> bool" where
  "obj_inv j \<longleftrightarrow> (\<exists>kvs. j = JObject kvs \<and> distinct (map fst kvs))"

definition obj_lookup :: "LDJSON \<Rightarrow> string \<Rightarrow> LDJSON option" where
  "obj_lookup j k = LDObjectLookup (Some j) k"

lemma LDObjectSetKey_object:
  "LDObjectSetKey (Some (JObject kvs)) k (Some v) = (True, Some (set_key (JObject kvs) k v))"
  by (simp add: set_key_def)

lemma obj_lookup_simps [simp]:
  "obj_lookup (JObject kvs) k = map_of kvs k"
  "obj_lookup JNull k = None"
  "obj_lookup (JBool b) k = None"
  "obj_lookup (JNumber n) k = None"
  "obj_lookup (JText t) k = None"
  "obj_lookup (JArray xs) k = None"
  by (simp_all add: obj_lookup_def)

lemma LDObjectLookup_Some [simp]: "LDObjectLookup (Some j) k = obj_lookup j k"
  by (rule obj_lookup_def [symmetric])

lemma set_key_JObject: "set_key (JObject kvs) k v = JObject (del_first k kvs @ [(k, v)])"
  by (simp add: set_key_def)

lemma delete_key_JObject: "delete_key (JObject kvs) k = JObject (del_first k kvs)"
  by (simp add: delete_key_def)

interpretation obj: keyed_map obj_inv obj_lookup set_key delete_key
proof unfold_locales
  fix m :: LDJSON and k k' v
  assume "obj_inv m"
  then obtain kvs where m: "m = JObject kvs" and d: "distinct (map fst kvs)"
    by (auto simp: obj_inv_def)
  show "obj_lookup (set_key m k v) k' = (if k' = k then Some v else obj_lookup m k')"
    using d map_of_set_key [OF d, of k v k'] by (simp add: m set_key_JObject)
  show "obj_lookup (delete_key m k) k' = (if k' = k then None else obj_lookup m k')"
    using d by (simp add: m delete_key_JObject map_of_del_first_same)
  show "obj_inv (set_key m k v)"
    using d distinct_set_key [OF d, of k v] by (simp add: m set_key_JObject obj_inv_def)
  show "obj_inv (delete_key m k)"
    using d by (simp add: m delete_key_JObject obj_inv_def distinct_del_first)
qed

lemma obj_inv_empty [simp]: "obj_inv (JObject [])"
  by (simp add: obj_inv_def)

lemmas obj_laws [json_simps] =
  obj.lookup_put obj.lookup_remove obj.invar_put obj.invar_remove

lemma wf_json_obj_inv: "wf_json (JObject kvs) \<Longrightarrow> obj_inv (JObject kvs)"
  by (simp add: obj_inv_def)

lemma obj_inv_type [simp]: "obj_inv j \<Longrightarrow> LDJSONGetType (Some j) = LDObject"
  by (auto simp: obj_inv_def)

lemma set_key_is_object:
  "LDJSONGetType (Some j) = LDObject \<Longrightarrow> LDJSONGetType (Some (set_key j k v)) = LDObject"
  by (cases j) (auto simp: set_key_JObject)

lemma wf_json_set_key: "wf_json j \<Longrightarrow> wf_json v \<Longrightarrow> LDJSONGetType (Some j) = LDObject \<Longrightarrow>
    wf_json (set_key j k v)"
  using set_del_first_subset
  by (cases j) (fastforce simp: set_key_JObject distinct_del_first list_all_iff)+

lemma wf_json_delete_key: "wf_json j \<Longrightarrow> LDJSONGetType (Some j) = LDObject \<Longrightarrow> wf_json (delete_key j k)"
  using set_del_first_subset
  by (cases j) (fastforce simp: delete_key_JObject distinct_del_first list_all_iff)+

lemma wf_json_lookup: "wf_json j \<Longrightarrow> obj_lookup j k = Some v \<Longrightarrow> wf_json v"
  by (cases j) (auto simp: list_all_iff dest!: map_of_SomeD)

lemma merge_entries_foldl:
  "LDJSONGetType (Some j) = LDObject \<Longrightarrow>
   merge_entries (Some j) kvs = Some (foldl (\<lambda>m p. set_key m (fst p) (snd p)) j kvs)"
proof (induction kvs arbitrary: j)
  case (Cons p kvs)
  obtain k v where p: "p = (k, v)" by (cases p)
  from Cons.prems obtain es where j: "j = JObject es" by (cases j) auto
  have "merge_entries (Some j) (p # kvs) = merge_entries (Some (set_key j k v)) kvs"
    by (simp add: p j set_key_JObject)
  also have "\<dots> = Some (foldl (\<lambda>m p. set_key m (fst p) (snd p)) (set_key j k v) kvs)"
    using Cons.prems by (intro Cons.IH set_key_is_object)
  finally show ?case by (simp add: p)
qed simp

section \<open>Comparison is an equivalence\<close>

lemma compare_scalar:
  "cJSON_Compare JNull b \<longleftrightarrow> b = JNull" "cJSON_Compare (JBool x) b \<longleftrightarrow> b = JBool x"
  "cJSON_Compare (JText t) b \<longleftrightarrow> b = JText t" "cJSON_Compare (JNumber n) b \<longleftrightarrow> (\<exists>m. b = JNumber m \<and> dbl_eq n m)"
  by (cases b; auto)+

lemma cJSON_Compare_trans: "cJSON_Compare a b \<Longrightarrow> cJSON_Compare b c \<Longrightarrow> cJSON_Compare a c"
proof (induction a arbitrary: b c)
  case (JArray xs)
  have "LDJSONGetType (Some b) = LDArray" "LDJSONGetType (Some c) = LDArray"
    using JArray.prems [THEN cJSON_Compare_type] by simp_all
  then obtain ys zs where bc: "b = JArray ys" "c = JArray zs" by (auto simp: json_type_iff)
  have "list_all2 cJSON_Compare xs ys" "list_all2 cJSON_Compare ys zs"
    using JArray.prems by (simp_all add: bc compare_arrays_iff)
  then have "list_all2 cJSON_Compare xs zs"
    using JArray.IH by (simp add: list_all2_conv_all_nth) (metis nth_mem)
  then show ?case by (simp add: bc compare_arrays_iff)
next
  case (JObject xs)
  have "LDJSONGetType (Some b) = LDObject" "LDJSONGetType (Some c) = LDObject"
    using JObject.prems [THEN cJSON_Compare_type] by simp_all
  then obtain ys zs where bc: "b = JObject ys" "c = JObject zs" by (auto simp: json_type_iff)
  have step: "compare_entries xs ys" "compare_entries ys xs" "compare_entries ys zs" "compare_entries zs ys"
    using JObject.prems by (simp_all add: bc)
  have IH: "cJSON_Compare v w \<Longrightarrow> cJSON_Compare w z \<Longrightarrow> cJSON_Compare v z" if "(k, v) \<in> set xs" for k v w z
    using JObject.IH that by (metis prod_set_simps(2) singletonI snds.simps snd_conv)
  have "compare_entries xs zs"
    unfolding compare_entries_iff
  proof
    fix p assume p: "p \<in> set xs"
    then obtain w where w: "map_of ys (fst p) = Some w" "cJSON_Compare (snd p) w"
      using step(1) by (auto simp: compare_entries_iff)
    then obtain z where "map_of zs (fst p) = Some z" "cJSON_Compare w z"
      using step(3) map_of_SomeD [OF w(1)] by (auto simp: compare_entries_iff)
    then show "\<exists>z. map_of zs (fst p) = Some z \<and> cJSON_Compare (snd p) z"
      using IH [of "fst p" "snd p"] p w(2) by auto
  qed
  moreover have "compare_entries zs xs"
    unfolding compare_entries_iff
  proof
    fix p assume "p \<in> set zs"
    then obtain w where w: "map_of ys (fst p) = Some w" "cJSON_Compare (snd p) w"
      using step(4) by (auto simp: compare_entries_iff)
    then obtain v where v: "map_of xs (fst p) = Some v" "cJSON_Compare w v"
      using step(2) map_of_SomeD [OF w(1)] by (auto simp: compare_entries_iff)
    then have "cJSON_Compare v (snd p)"
      using IH [OF map_of_SomeD [OF v(1)]] w(2) by (metis cJSON_Compare_sym)
    then show "\<exists>v. map_of xs (fst p) = Some v \<and> cJSON_Compare (snd p) v"
      using v(1) cJSON_Compare_sym by auto
  qed
  ultimately show ?case by (simp add: bc)
qed (auto simp: compare_scalar dbl_eq_iff)

text \<open>The equality of JSON values that the \<open>in\<close> operator and the tests of values rest on is
  symmetric and transitive, and it is reflexive on every value whose objects have distinct keys
  and which contains no not-a-number.\<close>

theorem LDJSONCompare_equivalence:
  "LDJSONCompare (Some a) (Some b) = LDJSONCompare (Some b) (Some a) \<and>
   (LDJSONCompare (Some a) (Some b) \<longrightarrow> LDJSONCompare (Some b) (Some c) \<longrightarrow> LDJSONCompare (Some a) (Some c)) \<and>
   (wf_json a \<longrightarrow> nan_free a \<longrightarrow> LDJSONCompare (Some a) (Some a))"
  using cJSON_Compare_sym cJSON_Compare_trans cJSON_Compare_refl by (auto simp: LDJSONCompare_def)

theorem LDJSONCompare_equivalence_witness:
  "LDJSONCompare (Some (JObject [(''a'', JNull), (''b'', JBool True)])) (Some (JObject [(''b'', JBool True), (''a'', JNull)])) \<and>
   LDJSONCompare (Some (JObject [(''b'', JBool True), (''a'', JNull)])) (Some (JObject [(''a'', JNull), (''b'', JBool True)])) \<and>
   LDJSONCompare (Some (JObject [(''a'', JNull), (''b'', JBool True)])) (Some (JObject [(''a'', JNull), (''b'', JBool True)]))"
proof -
  let ?a = "JObject [(''a'', JNull), (''b'', JBool True)]" and ?b = "JObject [(''b'', JBool True), (''a'', JNull)]"
  have "LDJSONCompare (Some ?a) (Some ?b)" "wf_json ?a" "nan_free ?a" by (simp_all add: LDJSONCompare_def)
  then show ?thesis using LDJSONCompare_equivalence [of ?a ?b ?a] by blast
qed

end
