(* ===== verification/TimeUtils.thy ===== *)
theory TimeUtils
  imports Json
begin

text \<open>
  Timers and timestamps, \<open>src/time_utils.c\<close>, over the clock functions of
  \<open>c-sdk-common/src/utility.c\<close>. A clock reading is an argument: the milliseconds the
  operating system reports, or \<open>None\<close> when \<open>clock_gettime\<close> fails, where the POSIX
  build aborts.
\<close>

record LDTimer =
  timer_ms :: dbl

record LDTimestamp =
  ts_ms :: dbl

definition LDi_getMonotonicMilliseconds :: "dbl option \<Rightarrow> dbl exec" where
  "LDi_getMonotonicMilliseconds reading =
     (case reading of Some ms \<Rightarrow> Inr ms | None \<Rightarrow> Inl AssertFailed)"

definition LDi_getUnixMilliseconds :: "dbl option \<Rightarrow> dbl exec" where
  "LDi_getUnixMilliseconds reading =
     (case reading of Some ms \<Rightarrow> Inr ms | None \<Rightarrow> Inl AssertFailed)"

definition LDTimer_Reset :: "dbl option \<Rightarrow> LDTimer exec" where
  "LDTimer_Reset reading =
     exec_bind (LDi_getMonotonicMilliseconds reading) (\<lambda>ms. Inr \<lparr>timer_ms = ms\<rparr>)"

definition LDTimer_Elapsed :: "LDTimer \<Rightarrow> dbl option \<Rightarrow> dbl exec" where
  "LDTimer_Elapsed timer reading =
     exec_bind (LDi_getMonotonicMilliseconds reading) (\<lambda>now. Inr (dbl_sub now (timer_ms timer)))"

definition LDTimestamp_InitNow :: "dbl option \<Rightarrow> LDTimestamp exec" where
  "LDTimestamp_InitNow reading =
     exec_bind (LDi_getUnixMilliseconds reading) (\<lambda>ms. Inr \<lparr>ts_ms = ms\<rparr>)"

definition LDTimestamp_IsInvalid :: "LDTimestamp \<Rightarrow> bool" where
  "LDTimestamp_IsInvalid ts = dbl_eq (ts_ms ts) (Fin (- 1))"

definition LDTimestamp_InitZero :: LDTimestamp where
  "LDTimestamp_InitZero = \<lparr>ts_ms = Fin 0\<rparr>"

text \<open>\<open>time_t\<close> is a signed integer; the product is computed in double precision.\<close>

definition LDTimestamp_InitUnixSeconds :: "int \<Rightarrow> LDTimestamp exec" where
  "LDTimestamp_InitUnixSeconds unixSeconds =
     exec_bind (ld_assert (0 \<le> unixSeconds)) (\<lambda>_.
       Inr \<lparr>ts_ms = dbl_mul_const (fl64 (of_int unixSeconds)) 1000\<rparr>)"

definition LDTimestamp_InitUnixMillis :: "dbl \<Rightarrow> LDTimestamp exec" where
  "LDTimestamp_InitUnixMillis unixMilliseconds =
     exec_bind (ld_assert (dbl_le (Fin 0) unixMilliseconds)) (\<lambda>_. Inr \<lparr>ts_ms = unixMilliseconds\<rparr>)"

definition LDTimestamp_Before :: "LDTimestamp \<Rightarrow> LDTimestamp \<Rightarrow> bool" where
  "LDTimestamp_Before a b = dbl_lt (ts_ms a) (ts_ms b)"

definition LDTimestamp_Equal :: "LDTimestamp \<Rightarrow> LDTimestamp \<Rightarrow> bool" where
  "LDTimestamp_Equal a b = dbl_eq (ts_ms a) (ts_ms b)"

definition LDTimestamp_AsUnixMillis :: "LDTimestamp \<Rightarrow> dbl" where
  "LDTimestamp_AsUnixMillis ts = (if LDTimestamp_IsInvalid ts then Fin (- 1) else ts_ms ts)"

definition LDTimestamp_MarshalUnixMillis :: "LDTimestamp \<Rightarrow> LDJSON" where
  "LDTimestamp_MarshalUnixMillis ts =
     (if LDTimestamp_IsInvalid ts then JNumber (Fin (- 1)) else JNumber (ts_ms ts))"

lemma Marshal_ms [simp]: "LDTimestamp_MarshalUnixMillis ts = JNumber (ts_ms ts)"
  by (auto simp: LDTimestamp_MarshalUnixMillis_def LDTimestamp_IsInvalid_def dbl_eq_iff)

lemma AsUnixMillis_ms [simp]: "LDTimestamp_AsUnixMillis ts = ts_ms ts"
  by (auto simp: LDTimestamp_AsUnixMillis_def LDTimestamp_IsInvalid_def dbl_eq_iff)

end
