(* ===== verification/User.thy ===== *)
theory User
  imports Json
begin

text \<open>
  Users, \<open>c-sdk-common/src/user.c\<close>: construction and setters, the value of an attribute
  as the evaluator sees it, and the JSON form sent with events, from which private
  attributes are redacted.
\<close>

section \<open>Users and setters\<close>

text \<open>The key is never \<open>NULL\<close>: \<open>LDUserNew\<close> creates no user without one.\<close>

record LDUser =
  u_key :: string
  u_anonymous :: bool
  u_secondary :: "string option"
  u_ip :: "string option"
  u_firstName :: "string option"
  u_lastName :: "string option"
  u_email :: "string option"
  u_name :: "string option"
  u_avatar :: "string option"
  u_country :: "string option"
  u_privateAttributeNames :: LDJSON
  u_custom :: "LDJSON option"

definition LDi_userNew :: "string \<Rightarrow> LDUser" where
  "LDi_userNew key = \<lparr>u_key = key, u_anonymous = False, u_secondary = None, u_ip = None,
     u_firstName = None, u_lastName = None, u_email = None, u_name = None, u_avatar = None,
     u_country = None, u_privateAttributeNames = JArray [], u_custom = None\<rparr>"

text \<open>\<open>LDUserNew\<close> refuses a \<open>NULL\<close> key.\<close>

definition LDUserNew :: "string option \<Rightarrow> LDUser option" where
  "LDUserNew key = map_option LDi_userNew key"

definition LDUserSetAnonymous :: "LDUser \<Rightarrow> bool \<Rightarrow> LDUser" where
  "LDUserSetAnonymous user anon = user\<lparr>u_anonymous := anon\<rparr>"

definition LDUserSetIP :: "LDUser \<Rightarrow> string option \<Rightarrow> LDUser" where
  "LDUserSetIP user ip = user\<lparr>u_ip := ip\<rparr>"

definition LDUserSetFirstName :: "LDUser \<Rightarrow> string option \<Rightarrow> LDUser" where
  "LDUserSetFirstName user firstName = user\<lparr>u_firstName := firstName\<rparr>"

definition LDUserSetLastName :: "LDUser \<Rightarrow> string option \<Rightarrow> LDUser" where
  "LDUserSetLastName user lastName = user\<lparr>u_lastName := lastName\<rparr>"

definition LDUserSetEmail :: "LDUser \<Rightarrow> string option \<Rightarrow> LDUser" where
  "LDUserSetEmail user email = user\<lparr>u_email := email\<rparr>"

definition LDUserSetName :: "LDUser \<Rightarrow> string option \<Rightarrow> LDUser" where
  "LDUserSetName user nam = user\<lparr>u_name := nam\<rparr>"

definition LDUserSetAvatar :: "LDUser \<Rightarrow> string option \<Rightarrow> LDUser" where
  "LDUserSetAvatar user avatar = user\<lparr>u_avatar := avatar\<rparr>"

definition LDUserSetCountry :: "LDUser \<Rightarrow> string option \<Rightarrow> LDUser" where
  "LDUserSetCountry user country = user\<lparr>u_country := country\<rparr>"

definition LDUserSetSecondary :: "LDUser \<Rightarrow> string option \<Rightarrow> LDUser" where
  "LDUserSetSecondary user secondary = user\<lparr>u_secondary := secondary\<rparr>"

definition LDUserSetCustom :: "LDUser \<Rightarrow> LDJSON option \<Rightarrow> LDUser" where
  "LDUserSetCustom user custom = user\<lparr>u_custom := custom\<rparr>"

definition LDUserSetPrivateAttributes :: "LDUser \<Rightarrow> LDJSON option \<Rightarrow> LDUser" where
  "LDUserSetPrivateAttributes user privateAttributes =
     (case privateAttributes of None \<Rightarrow> user
      | Some p \<Rightarrow> user\<lparr>u_privateAttributeNames := p\<rparr>)"

definition LDUserAddPrivateAttribute :: "LDUser \<Rightarrow> string option \<Rightarrow> bool \<times> LDUser" where
  "LDUserAddPrivateAttribute user attribute =
     (case attribute of None \<Rightarrow> (False, user)
      | Some a \<Rightarrow>
          (case LDArrayPush (Some (u_privateAttributeNames user)) (Some (JText a)) of
             (ok, arr) \<Rightarrow> (ok, user\<lparr>u_privateAttributeNames := the arr\<rparr>)))"

section \<open>Attribute access\<close>

text \<open>\<open>strcmp\<close> on the text of a node that is not text is a \<open>NULL\<close> dereference.\<close>

fun text_in_nodes :: "LDJSON list \<Rightarrow> string \<Rightarrow> bool exec" where
  "text_in_nodes [] text = Inr False"
| "text_in_nodes (x # xs) text =
     exec_bind (deref (LDGetText (Some x))) (\<lambda>s. if s = text then Inr True else text_in_nodes xs text)"

definition LDi_textInArray :: "LDJSON \<Rightarrow> string \<Rightarrow> bool exec" where
  "LDi_textInArray arr text = text_in_nodes (iter_values (Some arr)) text"

definition LDi_valueOfAttribute :: "LDUser \<Rightarrow> string \<Rightarrow> LDJSON option exec" where
  "LDi_valueOfAttribute user attribute =
     (if attribute = ''key'' then Inr (Some (JText (u_key user)))
      else if attribute = ''secondary'' then Inr (map_option JText (u_secondary user))
      else if attribute = ''ip'' then Inr (map_option JText (u_ip user))
      else if attribute = ''email'' then Inr (map_option JText (u_email user))
      else if attribute = ''firstName'' then Inr (map_option JText (u_firstName user))
      else if attribute = ''lastName'' then Inr (map_option JText (u_lastName user))
      else if attribute = ''avatar'' then Inr (map_option JText (u_avatar user))
      else if attribute = ''country'' then Inr (map_option JText (u_country user))
      else if attribute = ''name'' then Inr (map_option JText (u_name user))
      else if attribute = ''anonymous'' then Inr (Some (JBool (u_anonymous user)))
      else (case u_custom user of
          None \<Rightarrow> Inr None
        | Some custom \<Rightarrow>
            exec_bind (ld_assert (LDJSONGetType (Some custom) = LDObject)) (\<lambda>_.
              Inr (LDObjectLookup (Some custom) attribute))))"

section \<open>Redaction\<close>

definition isPrivateAttr :: "LDUser \<Rightarrow> string \<Rightarrow> bool \<Rightarrow> LDJSON option \<Rightarrow> bool exec" where
  "isPrivateAttr user key allAttributesPrivate globalPrivateAttributeNames =
     (if allAttributesPrivate then Inr True
      else exec_bind
        (case globalPrivateAttributeNames of None \<Rightarrow> Inr False | Some g \<Rightarrow> LDi_textInArray g key)
        (\<lambda>found. if found then Inr True
           else LDi_textInArray (u_privateAttributeNames user) key))"

text \<open>The list of hidden names, created at the first one.\<close>

definition addHidden :: "LDJSON option \<Rightarrow> string \<Rightarrow> LDJSON option" where
  "addHidden ref value =
     snd (LDArrayPush (case ref of None \<Rightarrow> Some (JArray []) | Some r \<Rightarrow> Some r) (Some (JText value)))"

definition addstring ::
  "LDUser \<Rightarrow> bool \<Rightarrow> bool \<Rightarrow> LDJSON option \<Rightarrow> string \<Rightarrow> string option \<Rightarrow>
   LDJSON option \<times> LDJSON \<Rightarrow> (LDJSON option \<times> LDJSON) exec"
where
  "addstring user redact allp glob field value st =
     (case value of None \<Rightarrow> Inr st
      | Some v \<Rightarrow>
          exec_bind (if redact then isPrivateAttr user field allp glob else Inr False) (\<lambda>priv.
            if priv then Inr (addHidden (fst st) field, snd st)
            else Inr (fst st, set_key (snd st) field (JText v))))"

fun addstrings ::
  "LDUser \<Rightarrow> bool \<Rightarrow> bool \<Rightarrow> LDJSON option \<Rightarrow> (string \<times> string option) list \<Rightarrow>
   LDJSON option \<times> LDJSON \<Rightarrow> (LDJSON option \<times> LDJSON) exec"
where
  "addstrings user redact allp glob [] st = Inr st"
| "addstrings user redact allp glob ((f, v) # fs) st =
     exec_bind (addstring user redact allp glob f v st) (addstrings user redact allp glob fs)"

text \<open>The string fields, in the order \<open>LDi_userToJSON\<close> adds them.\<close>

definition user_fields :: "LDUser \<Rightarrow> (string \<times> string option) list" where
  "user_fields user =
     [(''secondary'', u_secondary user), (''ip'', u_ip user), (''firstName'', u_firstName user),
      (''lastName'', u_lastName user), (''email'', u_email user), (''name'', u_name user),
      (''avatar'', u_avatar user), (''country'', u_country user)]"

text \<open>The loop over the custom attributes: the keys still to visit, the hidden names, the copy.\<close>

fun redact_custom ::
  "LDUser \<Rightarrow> bool \<Rightarrow> LDJSON option \<Rightarrow> string list \<Rightarrow> LDJSON option \<times> LDJSON \<Rightarrow>
   (LDJSON option \<times> LDJSON) exec"
where
  "redact_custom user allp glob [] st = Inr st"
| "redact_custom user allp glob (k # ks) st =
     exec_bind (isPrivateAttr user k allp glob) (\<lambda>priv.
       redact_custom user allp glob ks
         (if priv then (addHidden (fst st) k, delete_key (snd st) k) else st))"

definition LDi_userToJSON :: "LDUser \<Rightarrow> bool \<Rightarrow> bool \<Rightarrow> LDJSON option \<Rightarrow> LDJSON exec" where
  "LDi_userToJSON user redact allAttributesPrivate globalPrivateAttributeNames =
     (let json = set_key (JObject []) ''key'' (JText (u_key user));
          json = (if u_anonymous user then set_key json ''anonymous'' (JBool True) else json)
      in exec_bind
        (addstrings user redact allAttributesPrivate globalPrivateAttributeNames
           (user_fields user) (None, json)) (\<lambda>st.
      exec_bind
        (case u_custom user of
           None \<Rightarrow> Inr st
         | Some custom \<Rightarrow>
             exec_bind
               (case custom of
                  JObject kvs \<Rightarrow>
                    (if redact then
                       redact_custom user allAttributesPrivate globalPrivateAttributeNames
                         (map fst kvs) (fst st, custom)
                     else Inr (fst st, custom))
                | _ \<Rightarrow> Inr (fst st, custom))
               (\<lambda>hc. Inr (fst hc, set_key (snd st) ''custom'' (snd hc)))) (\<lambda>st.
      case fst st of
        None \<Rightarrow> Inr (snd st)
      | Some hidden \<Rightarrow> Inr (set_key (snd st) ''privateAttrs'' hidden))))"

section \<open>What the JSON form contains\<close>

fun text_array :: "LDJSON \<Rightarrow> bool" where
  "text_array (JArray xs) = list_all (\<lambda>x. LDJSONGetType (Some x) = LDText) xs"
| "text_array _ = False"

fun names_of :: "LDJSON \<Rightarrow> string list" where
  "names_of (JArray xs) = List.map_filter (\<lambda>x. LDGetText (Some x)) xs"
| "names_of _ = []"

text \<open>The attribute lists hold only text, and the custom attributes are an object.\<close>

definition wf_names :: "LDUser \<Rightarrow> LDJSON option \<Rightarrow> bool" where
  "wf_names user glob \<longleftrightarrow>
     text_array (u_privateAttributeNames user) \<and> (case glob of None \<Rightarrow> True | Some g \<Rightarrow> text_array g)"

definition wf_user :: "LDUser \<Rightarrow> bool" where
  "wf_user user \<longleftrightarrow> (case u_custom user of None \<Rightarrow> True | Some c \<Rightarrow> obj_inv c)"

definition is_private :: "LDUser \<Rightarrow> bool \<Rightarrow> LDJSON option \<Rightarrow> string \<Rightarrow> bool" where
  "is_private user allp glob k \<longleftrightarrow>
     allp \<or> (case glob of None \<Rightarrow> False | Some g \<Rightarrow> k \<in> set (names_of g)) \<or>
     k \<in> set (names_of (u_privateAttributeNames user))"

lemma text_in_nodes_ok:
  "list_all (\<lambda>x. LDJSONGetType (Some x) = LDText) xs \<Longrightarrow>
   text_in_nodes xs t = Inr (t \<in> set (List.map_filter (\<lambda>x. LDGetText (Some x)) xs))"
proof (induction xs)
  case (Cons x xs)
  then obtain s where "x = JText s" by (cases x) auto
  with Cons show ?case by (auto simp: List.map_filter_simps)
qed (simp add: List.map_filter_simps)

lemma LDi_textInArray_ok: "text_array arr \<Longrightarrow> LDi_textInArray arr t = Inr (t \<in> set (names_of arr))"
  by (cases arr) (simp_all add: LDi_textInArray_def text_in_nodes_ok)

lemma isPrivateAttr_ok:
  "wf_names user glob \<Longrightarrow> isPrivateAttr user k allp glob = Inr (is_private user allp glob k)"
  by (auto simp: isPrivateAttr_def wf_names_def is_private_def LDi_textInArray_ok split: option.splits)

definition hidden_json :: "string list \<Rightarrow> LDJSON option" where
  "hidden_json hs = (if hs = [] then None else Some (JArray (map JText hs)))"

lemma addHidden_json [simp]: "addHidden (hidden_json hs) k = hidden_json (hs @ [k])"
  by (simp add: addHidden_def hidden_json_def)

lemma hidden_json_Nil [simp]: "hidden_json [] = None"
  by (simp add: hidden_json_def)

definition hidden_fields :: "(string \<Rightarrow> bool) \<Rightarrow> (string \<times> string option) list \<Rightarrow> string list" where
  "hidden_fields P fs = map fst (filter (\<lambda>p. snd p \<noteq> None \<and> P (fst p)) fs)"

definition shown_fields ::
  "(string \<Rightarrow> bool) \<Rightarrow> (string \<times> string option) list \<Rightarrow> (string \<times> LDJSON) list" where
  "shown_fields P fs =
     map (\<lambda>p. (fst p, JText (the (snd p)))) (filter (\<lambda>p. snd p \<noteq> None \<and> \<not> P (fst p)) fs)"

lemma set_key_fresh: "k \<notin> fst ` set kvs \<Longrightarrow> set_key (JObject kvs) k v = JObject (kvs @ [(k, v)])"
  by (simp add: set_key_JObject)

lemma addstrings_eq:
  assumes "wf_names user glob" and "distinct (map fst fs)"
    and "\<forall>f\<in>fst ` set fs. f \<notin> fst ` set kvs" and "P = (\<lambda>f. r \<and> is_private user allp glob f)"
  shows "addstrings user r allp glob fs (hidden_json hs, JObject kvs) =
     Inr (hidden_json (hs @ hidden_fields P fs), JObject (kvs @ shown_fields P fs))"
  using assms(2,3)
proof (induction fs arbitrary: hs kvs)
  case Nil
  then show ?case by (simp add: hidden_fields_def shown_fields_def)
next
  case (Cons p fs)
  obtain f v where p: "p = (f, v)" by (cases p)
  show ?case
  proof (cases v)
    case None
    with Cons p show ?thesis by (simp add: addstring_def hidden_fields_def shown_fields_def)
  next
    case (Some t)
    have step: "addstring user r allp glob f v (hidden_json hs, JObject kvs) =
        Inr (if P f then (hidden_json (hs @ [f]), JObject kvs)
             else (hidden_json hs, JObject (kvs @ [(f, JText t)])))"
      using Some Cons.prems p assms(1,4) by (simp add: addstring_def isPrivateAttr_ok set_key_fresh)
    have fresh: "\<forall>g\<in>fst ` set fs. g \<notin> fst ` set (kvs @ [(f, JText t)])"
      using Cons.prems p by auto
    show ?thesis
      using step Cons.IH [of kvs "hs @ [f]"] Cons.IH [of "kvs @ [(f, JText t)]" hs] fresh Cons.prems p Some
      by (simp add: hidden_fields_def shown_fields_def)
  qed
qed

lemma redact_custom_eq:
  assumes "wf_names user glob" and "P = is_private user allp glob" and "distinct (map fst es)"
  shows "redact_custom user allp glob ks (hidden_json hs, JObject es) =
     Inr (hidden_json (hs @ filter P ks), JObject (filter (\<lambda>e. \<not> (fst e \<in> set ks \<and> P (fst e))) es))"
  using assms(3)
proof (induction ks arbitrary: hs es)
  case (Cons k ks)
  have "distinct (map fst (filter (\<lambda>e. fst e \<noteq> k) es))"
    using Cons.prems by (simp add: distinct_map_filter)
  then show ?case
    using Cons.IH [of es hs] Cons.IH [of "filter (\<lambda>e. fst e \<noteq> k) es" "hs @ [k]"] Cons.prems assms(1,2)
    by (auto simp: isPrivateAttr_ok delete_key_JObject del_first_eq_filter intro!: filter_cong)
qed simp

fun entries :: "LDJSON option \<Rightarrow> (string \<times> LDJSON) list" where
  "entries (Some (JObject es)) = es"
| "entries _ = []"

definition hidden_names :: "(string \<Rightarrow> bool) \<Rightarrow> LDUser \<Rightarrow> string list" where
  "hidden_names P user =
     hidden_fields P (user_fields user) @ filter P (map fst (entries (u_custom user)))"

text \<open>The object sent for a user, attribute by attribute, for a given set of private names.\<close>

definition user_entries :: "(string \<Rightarrow> bool) \<Rightarrow> LDUser \<Rightarrow> (string \<times> LDJSON) list" where
  "user_entries P user =
     [(''key'', JText (u_key user))] @
     (if u_anonymous user then [(''anonymous'', JBool True)] else []) @
     shown_fields P (user_fields user) @
     (case u_custom user of None \<Rightarrow> []
      | Some c \<Rightarrow> [(''custom'', JObject (filter (\<lambda>e. \<not> P (fst e)) (entries (Some c))))]) @
     (case hidden_json (hidden_names P user) of None \<Rightarrow> [] | Some h \<Rightarrow> [(''privateAttrs'', h)])"

lemma shown_fields_keys: "fst ` set (shown_fields P fs) \<subseteq> fst ` set fs"
  by (auto simp: shown_fields_def rev_image_eqI)

lemma user_fields_keys: "fst ` set (user_fields user) =
   {''secondary'', ''ip'', ''firstName'', ''lastName'', ''email'', ''name'', ''avatar'', ''country''}"
  by (simp add: user_fields_def)

lemma shown_user_keys:
  "fst ` set (shown_fields P (user_fields user)) \<subseteq>
     {''secondary'', ''ip'', ''firstName'', ''lastName'', ''email'', ''name'', ''avatar'', ''country''}"
  using shown_fields_keys user_fields_keys by metis

lemma user_fields_distinct: "distinct (map fst (user_fields user))"
  by (simp add: user_fields_def)

lemma not_shown:
  "k \<notin> {''secondary'', ''ip'', ''firstName'', ''lastName'', ''email'', ''name'', ''avatar'', ''country''} \<Longrightarrow>
   k \<notin> fst ` set (shown_fields P (user_fields user))"
  using shown_user_keys by blast

lemma LDi_userToJSON_eq:
  assumes "wf_names user glob" and "wf_user user" and "P = (\<lambda>k. r \<and> is_private user allp glob k)"
  shows "LDi_userToJSON user r allp glob = Inr (JObject (user_entries P user))"
proof -
  let ?fs = "user_fields user"
  define b where "b = (''key'', JText (u_key user)) #
    (if u_anonymous user then [(''anonymous'', JBool True)] else [])"
  let ?shown = "b @ shown_fields P ?fs"
  have base: "(if u_anonymous user
      then set_key (set_key (JObject []) ''key'' (JText (u_key user))) ''anonymous'' (JBool True)
      else set_key (JObject []) ''key'' (JText (u_key user))) = JObject b"
    by (simp add: set_key_JObject b_def)
  have keys: "fst ` set b \<subseteq> {''key'', ''anonymous''}" by (auto simp: b_def)
  then have "\<forall>f\<in>fst ` set ?fs. f \<notin> fst ` set b"
    unfolding user_fields_keys by auto
  from addstrings_eq [OF assms(1) user_fields_distinct this assms(3), of "[]"]
  have fields: "addstrings user r allp glob ?fs (None, JObject b) =
      Inr (hidden_json (hidden_fields P ?fs), JObject ?shown)" by simp
  have fresh: "''custom'' \<notin> fst ` set ?shown" "''privateAttrs'' \<notin> fst ` set ?shown"
    using keys not_shown [of "''custom''" P user] not_shown [of "''privateAttrs''" P user]
    unfolding set_append image_Un by auto
  have ue: "user_entries P user = ?shown @
     (case u_custom user of None \<Rightarrow> []
      | Some c \<Rightarrow> [(''custom'', JObject (filter (\<lambda>e. \<not> P (fst e)) (entries (Some c))))]) @
     (case hidden_json (hidden_names P user) of None \<Rightarrow> [] | Some h \<Rightarrow> [(''privateAttrs'', h)])"
    by (simp add: user_entries_def b_def)
  show ?thesis
  proof (cases "u_custom user")
    case None
    then show ?thesis
      using fresh unfolding LDi_userToJSON_def Let_def base fields exec_bind_Inr ue
      by (simp add: hidden_names_def set_key_fresh split: option.splits)
  next
    case (Some c)
    then obtain es where c: "c = JObject es" and d: "distinct (map fst es)"
      using assms(2) by (auto simp: wf_user_def obj_inv_def)
    have red: "redact_custom user allp glob (map fst es) (hidden_json (hidden_fields P ?fs), JObject es) =
        Inr (hidden_json (hidden_fields P ?fs @ filter (is_private user allp glob) (map fst es)),
             JObject (filter (\<lambda>e. \<not> is_private user allp glob (fst e)) es))"
      using redact_custom_eq [OF assms(1) refl d, of allp "map fst es" "hidden_fields P ?fs"]
      by (auto intro: filter_cong)
    show ?thesis
      using fresh red Some c assms(3)
      unfolding LDi_userToJSON_def Let_def base fields exec_bind_Inr ue
      by (cases r) (simp_all add: hidden_names_def set_key_fresh split: option.splits)
  qed
qed

lemma map_of_shown_fields:
  "distinct (map fst fs) \<Longrightarrow> (f, v) \<in> set fs \<Longrightarrow>
   map_of (shown_fields P fs) f = (if P f then None else map_option JText v)"
proof (induction fs)
  case (Cons p fs)
  have "f \<notin> fst ` set fs \<Longrightarrow> map_of (shown_fields P fs) f = None"
    using shown_fields_keys [of P fs] by (auto simp: map_of_eq_None_iff)
  with Cons show ?case
    by (cases v) (auto simp: shown_fields_def rev_image_eqI split: if_splits)
qed simp

lemma map_of_user_entries_field:
  assumes "(f, v) \<in> set (user_fields user)"
  shows "map_of (user_entries P user) f = (if P f then None else map_option JText v)"
proof -
  have "f \<in> fst ` set (user_fields user)" using assms by (simp add: rev_image_eqI)
  then have "f \<noteq> ''key''" "f \<noteq> ''anonymous''" "f \<noteq> ''custom''" "f \<noteq> ''privateAttrs''"
    unfolding user_fields_keys by auto
  then show ?thesis
    using map_of_shown_fields [OF user_fields_distinct assms, of P]
    by (auto simp: user_entries_def map_add_def split: option.splits)
qed

lemma map_of_shown_other:
  "k \<in> {''custom'', ''privateAttrs''} \<Longrightarrow> map_of (shown_fields P (user_fields user)) k = None"
  unfolding map_of_eq_None_iff by (rule not_shown) auto

lemma map_of_user_entries_custom:
  "map_of (user_entries P user) ''custom'' =
     map_option (\<lambda>c. JObject (filter (\<lambda>e. \<not> P (fst e)) (entries (Some c)))) (u_custom user)"
  by (auto simp: user_entries_def map_of_shown_other map_add_def split: option.splits)

lemma map_of_user_entries_private:
  "map_of (user_entries P user) ''privateAttrs'' = hidden_json (hidden_names P user)"
  by (auto simp: user_entries_def map_of_shown_other map_add_def split: option.splits)

lemma map_of_filter_key: "map_of (filter (\<lambda>e. Q (fst e)) es) k = (if Q k then map_of es k else None)"
  by (induction es) auto

lemma texts_of_JText [simp]: "List.map_filter (\<lambda>x. LDGetText (Some x)) (map JText hs) = hs"
  by (induction hs) (auto simp: List.map_filter_simps)

lemma set_hidden_names:
  assumes "wf_user user"
  shows "k \<in> set (hidden_names P user) \<longleftrightarrow> P k \<and> ((\<exists>v. (k, Some v) \<in> set (user_fields user)) \<or>
     (\<exists>c w. u_custom user = Some c \<and> obj_lookup c k = Some w))"
proof -
  have "k \<in> fst ` set es \<longleftrightarrow> (\<exists>w. map_of es k = Some w)" for es :: "(string \<times> LDJSON) list"
    by (metis domD domI dom_map_of_conv_image_fst)
  then have "k \<in> set (map fst (entries (u_custom user))) \<longleftrightarrow>
      (\<exists>c w. u_custom user = Some c \<and> obj_lookup c k = Some w)"
    using assms by (auto simp: wf_user_def obj_inv_def split: option.splits)
  moreover have "k \<in> set (hidden_fields P fs) \<longleftrightarrow> P k \<and> (\<exists>v. (k, Some v) \<in> set fs)" for fs
    by (force simp: hidden_fields_def)
  ultimately show ?thesis by (auto simp: hidden_names_def)
qed

text \<open>C22: with redaction, a private attribute of a user never leaves the process: none of the
  built-in string fields and none of the custom attributes that is private (all private, or
  named by the configuration or by the user) appears in the JSON form, every other one appears
  unchanged, the key always appears, and \<open>privateAttrs\<close> names exactly the attributes removed.\<close>

theorem LDi_userToJSON_redacts:
  assumes "wf_names user glob" and "wf_user user" and "P = is_private user allp glob"
  shows "\<exists>j. LDi_userToJSON user True allp glob = Inr j \<and>
     obj_lookup j ''key'' = Some (JText (u_key user)) \<and>
     (\<forall>(f, v)\<in>set (user_fields user). obj_lookup j f = (if P f then None else map_option JText v)) \<and>
     (\<forall>c. u_custom user = Some c \<longrightarrow> (\<exists>c'. obj_lookup j ''custom'' = Some c' \<and>
        (\<forall>k. obj_lookup c' k = (if P k then None else obj_lookup c k)))) \<and>
     (\<forall>k. (\<exists>h. obj_lookup j ''privateAttrs'' = Some h \<and> k \<in> set (names_of h)) \<longleftrightarrow>
        P k \<and> ((\<exists>v. (k, Some v) \<in> set (user_fields user)) \<or>
                (\<exists>c w. u_custom user = Some c \<and> obj_lookup c k = Some w)))"
proof -
  have eq: "LDi_userToJSON user True allp glob = Inr (JObject (user_entries P user))"
    using LDi_userToJSON_eq [OF assms(1,2)] assms(3) by simp
  have key: "map_of (user_entries P user) ''key'' = Some (JText (u_key user))"
    by (simp add: user_entries_def)
  have custom: "\<exists>c'. obj_lookup (JObject (user_entries P user)) ''custom'' = Some c' \<and>
      (\<forall>k. obj_lookup c' k = (if P k then None else obj_lookup c k))" if c: "u_custom user = Some c" for c
    using c assms(2)
    by (auto simp: map_of_user_entries_custom wf_user_def obj_inv_def
        map_of_filter_key [where Q = "\<lambda>k. \<not> P k"])
  have hidden: "(\<exists>h. obj_lookup (JObject (user_entries P user)) ''privateAttrs'' = Some h \<and>
      k \<in> set (names_of h)) \<longleftrightarrow> k \<in> set (hidden_names P user)" for k
    by (auto simp: map_of_user_entries_private hidden_json_def)
  show ?thesis
    using eq key custom hidden map_of_user_entries_field set_hidden_names [OF assms(2)]
    by (auto simp del: split_paired_Ex)
qed

text \<open>Users on which statements are instantiated.\<close>

definition sample_user :: LDUser where
  "sample_user = LDi_userNew ''bob''"

definition sample_private_user :: LDUser where
  "sample_private_user = (LDi_userNew ''u'')\<lparr>u_email := Some ''e'', u_name := Some ''n'',
     u_privateAttributeNames := JArray [JText ''email''],
     u_custom := Some (JObject [(''plan'', JText ''p''), (''team'', JText ''t'')])\<rparr>"

definition sample_private :: "LDJSON option" where
  "sample_private = Some (JArray [JText ''team''])"

lemma sample_private_user_wf: "wf_names sample_private_user sample_private" "wf_user sample_private_user"
  by (simp_all add: wf_names_def wf_user_def sample_private_user_def sample_private_def LDi_userNew_def obj_inv_def)

lemma sample_private_iff: "is_private sample_private_user False sample_private k \<longleftrightarrow> k = ''team'' \<or> k = ''email''"
  by (simp add: is_private_def sample_private_user_def sample_private_def LDi_userNew_def List.map_filter_simps)

lemma sample_private_user_fields:
  "(''email'', Some ''e'') \<in> set (user_fields sample_private_user)" "(''name'', Some ''n'') \<in> set (user_fields sample_private_user)"
  "u_key sample_private_user = ''u''"
  by (simp_all add: user_fields_def sample_private_user_def LDi_userNew_def)

theorem LDi_userToJSON_redacts_witness:
  "\<exists>j. LDi_userToJSON sample_private_user True False sample_private = Inr j \<and>
     obj_lookup j ''key'' = Some (JText ''u'') \<and> obj_lookup j ''email'' = None \<and>
     obj_lookup j ''name'' = Some (JText ''n'')"
proof -
  obtain j where j: "LDi_userToJSON sample_private_user True False sample_private = Inr j"
    "obj_lookup j ''key'' = Some (JText (u_key sample_private_user))"
    "\<forall>(f, v)\<in>set (user_fields sample_private_user).
       obj_lookup j f = (if is_private sample_private_user False sample_private f then None else map_option JText v)"
    using LDi_userToJSON_redacts [OF sample_private_user_wf refl, of False] by (elim exE conjE) (rule that)
  have "obj_lookup j ''email'' = None" "obj_lookup j ''name'' = Some (JText ''n'')"
    using bspec [OF j(3) sample_private_user_fields(1)] bspec [OF j(3) sample_private_user_fields(2)]
    by (simp_all add: sample_private_iff)
  then show ?thesis using j(1,2) sample_private_user_fields(3) by auto
qed

end
