(* ===== verification/Config.thy ===== *)
theory Config
  imports Json
begin

text \<open>
  The configuration, \<open>src/config.c\<close>: its defaults and setters. The pointers to a store
  backend and a data source supplied by the application are not represented. Setters are
  applied to a configuration that is not \<open>NULL\<close>; string arguments may be \<open>NULL\<close>.
\<close>

record LDConfig =
  c_key :: string
  c_baseURI :: string
  c_streamURI :: string
  c_eventsURI :: string
  c_stream :: bool
  c_sendEvents :: bool
  c_eventsCapacity :: uint
  c_timeout :: uint
  c_flushInterval :: uint
  c_pollInterval :: uint
  c_offline :: bool
  c_useLDD :: bool
  c_allAttributesPrivate :: bool
  c_privateAttributeNames :: LDJSON
  c_inlineUsersInEvents :: bool
  c_userKeysCapacity :: uint
  c_userKeysFlushInterval :: uint
  c_storeCacheMilliseconds :: uint
  c_wrapperName :: "string option"
  c_wrapperVersion :: "string option"

definition LDi_trimTrailingSlash :: "string \<Rightarrow> string" where
  "LDi_trimTrailingSlash s = (if length s = 0 \<or> s ! (length s - 1) \<noteq> CHR ''/'' then s
     else take (length s - 1) s)"

definition LDConfigNew :: "string option \<Rightarrow> LDConfig option" where
  "LDConfigNew key = (case key of None \<Rightarrow> None
     | Some k \<Rightarrow> Some \<lparr>c_key = k, c_baseURI = ''https://app.launchdarkly.com'',
         c_streamURI = ''https://stream.launchdarkly.com'',
         c_eventsURI = ''https://events.launchdarkly.com'',
         c_stream = True, c_sendEvents = True, c_eventsCapacity = 10000, c_timeout = 5000,
         c_flushInterval = 5000, c_pollInterval = 30000, c_offline = False, c_useLDD = False,
         c_allAttributesPrivate = False, c_privateAttributeNames = JArray [],
         c_inlineUsersInEvents = False, c_userKeysCapacity = 1000,
         c_userKeysFlushInterval = 300000, c_storeCacheMilliseconds = 30000,
         c_wrapperName = None, c_wrapperVersion = None\<rparr>)"

definition LDConfigSetBaseURI :: "LDConfig \<Rightarrow> string option \<Rightarrow> bool \<times> LDConfig" where
  "LDConfigSetBaseURI config baseURI = (case baseURI of None \<Rightarrow> (False, config)
     | Some s \<Rightarrow> (True, config\<lparr>c_baseURI := LDi_trimTrailingSlash s\<rparr>))"

definition LDConfigSetStreamURI :: "LDConfig \<Rightarrow> string option \<Rightarrow> bool \<times> LDConfig" where
  "LDConfigSetStreamURI config streamURI = (case streamURI of None \<Rightarrow> (False, config)
     | Some s \<Rightarrow> (True, config\<lparr>c_streamURI := LDi_trimTrailingSlash s\<rparr>))"

definition LDConfigSetEventsURI :: "LDConfig \<Rightarrow> string option \<Rightarrow> bool \<times> LDConfig" where
  "LDConfigSetEventsURI config eventsURI = (case eventsURI of None \<Rightarrow> (False, config)
     | Some s \<Rightarrow> (True, config\<lparr>c_eventsURI := LDi_trimTrailingSlash s\<rparr>))"

definition LDConfigSetStream :: "LDConfig \<Rightarrow> bool \<Rightarrow> LDConfig" where
  "LDConfigSetStream config b = config\<lparr>c_stream := b\<rparr>"

definition LDConfigSetSendEvents :: "LDConfig \<Rightarrow> bool \<Rightarrow> LDConfig" where
  "LDConfigSetSendEvents config b = config\<lparr>c_sendEvents := b\<rparr>"

definition LDConfigSetEventsCapacity :: "LDConfig \<Rightarrow> uint \<Rightarrow> LDConfig" where
  "LDConfigSetEventsCapacity config n = config\<lparr>c_eventsCapacity := n\<rparr>"

definition LDConfigSetTimeout :: "LDConfig \<Rightarrow> uint \<Rightarrow> LDConfig" where
  "LDConfigSetTimeout config n = config\<lparr>c_timeout := n\<rparr>"

definition LDConfigSetFlushInterval :: "LDConfig \<Rightarrow> uint \<Rightarrow> LDConfig" where
  "LDConfigSetFlushInterval config n = config\<lparr>c_flushInterval := n\<rparr>"

definition LDConfigSetPollInterval :: "LDConfig \<Rightarrow> uint \<Rightarrow> LDConfig" where
  "LDConfigSetPollInterval config n = config\<lparr>c_pollInterval := n\<rparr>"

definition LDConfigSetOffline :: "LDConfig \<Rightarrow> bool \<Rightarrow> LDConfig" where
  "LDConfigSetOffline config b = config\<lparr>c_offline := b\<rparr>"

definition LDConfigSetUseLDD :: "LDConfig \<Rightarrow> bool \<Rightarrow> LDConfig" where
  "LDConfigSetUseLDD config b = config\<lparr>c_useLDD := b\<rparr>"

definition LDConfigSetAllAttributesPrivate :: "LDConfig \<Rightarrow> bool \<Rightarrow> LDConfig" where
  "LDConfigSetAllAttributesPrivate config b = config\<lparr>c_allAttributesPrivate := b\<rparr>"

definition LDConfigInlineUsersInEvents :: "LDConfig \<Rightarrow> bool \<Rightarrow> LDConfig" where
  "LDConfigInlineUsersInEvents config b = config\<lparr>c_inlineUsersInEvents := b\<rparr>"

definition LDConfigSetUserKeysCapacity :: "LDConfig \<Rightarrow> uint \<Rightarrow> LDConfig" where
  "LDConfigSetUserKeysCapacity config n = config\<lparr>c_userKeysCapacity := n\<rparr>"

definition LDConfigSetUserKeysFlushInterval :: "LDConfig \<Rightarrow> uint \<Rightarrow> LDConfig" where
  "LDConfigSetUserKeysFlushInterval config n = config\<lparr>c_userKeysFlushInterval := n\<rparr>"

definition LDConfigAddPrivateAttribute :: "LDConfig \<Rightarrow> string option \<Rightarrow> bool \<times> LDConfig" where
  "LDConfigAddPrivateAttribute config attribute = (case attribute of None \<Rightarrow> (False, config)
     | Some a \<Rightarrow>
         (case LDArrayPush (Some (c_privateAttributeNames config)) (Some (JText a)) of
            (ok, arr) \<Rightarrow> (ok, config\<lparr>c_privateAttributeNames := the arr\<rparr>)))"

definition LDConfigSetFeatureStoreBackendCacheTTL :: "LDConfig \<Rightarrow> uint \<Rightarrow> LDConfig" where
  "LDConfigSetFeatureStoreBackendCacheTTL config n = config\<lparr>c_storeCacheMilliseconds := n\<rparr>"

definition LDConfigSetWrapperInfo ::
  "LDConfig \<Rightarrow> string option \<Rightarrow> string option \<Rightarrow> bool \<times> LDConfig" where
  "LDConfigSetWrapperInfo config wrapperName wrapperVersion =
     (if wrapperName = None \<and> wrapperVersion \<noteq> None then (False, config)
      else (case wrapperName of
          None \<Rightarrow> (True, config\<lparr>c_wrapperName := None, c_wrapperVersion := None\<rparr>)
        | Some n \<Rightarrow> (True, config\<lparr>c_wrapperName := Some n, c_wrapperVersion := wrapperVersion\<rparr>)))"

lemma trimTrailingSlash_snoc: "LDi_trimTrailingSlash (s @ [CHR ''/'']) = s"
  by (simp add: LDi_trimTrailingSlash_def)

lemma trimTrailingSlash_other: "s = [] \<or> last s \<noteq> CHR ''/'' \<Longrightarrow> LDi_trimTrailingSlash s = s"
  by (auto simp: LDi_trimTrailingSlash_def last_conv_nth)

text \<open>The default configuration, used where a statement is instantiated.\<close>

definition sample_config :: LDConfig where
  "sample_config = the (LDConfigNew (Some ''sdk''))"

end
