(* ===== verification/FlagModel.thy ===== *)
theory FlagModel
  imports TimeUtils
begin

text \<open>
  Flag metadata read out of a flag's JSON, \<open>src/flag_model.c\<close>, and where the client-side
  availability of a flag comes from in the old and the new schema.
\<close>

section \<open>Availability\<close>

record AvailabilityParser =
  p_usingEnvironmentId :: bool
  p_usingMobileKey :: bool
  p_clientSide :: bool
  p_isExplicit :: bool

record LDClientSideAvailability =
  usingMobileKey :: bool
  usingEnvironmentID :: bool
  usingExplicitSchema :: bool

definition initParser :: AvailabilityParser where
  "initParser = \<lparr>p_usingEnvironmentId = False, p_usingMobileKey = False,
     p_clientSide = False, p_isExplicit = False\<rparr>"

fun read_explicit_props ::
  "AvailabilityParser \<Rightarrow> (string option \<times> LDJSON) list \<Rightarrow> AvailabilityParser exec" where
  "read_explicit_props p [] = Inr p"
| "read_explicit_props p ((key, iter) # rest) =
     exec_bind (deref key) (\<lambda>prop.
       if prop = ''usingEnvironmentId''
         then read_explicit_props (p\<lparr>p_usingEnvironmentId := LDGetBool (Some iter)\<rparr>) rest
       else if prop = ''usingMobileKey''
         then read_explicit_props (p\<lparr>p_usingMobileKey := LDGetBool (Some iter)\<rparr>) rest
       else read_explicit_props p rest)"

definition parserReadExplicit :: "AvailabilityParser \<Rightarrow> LDJSON \<Rightarrow> AvailabilityParser exec" where
  "parserReadExplicit p object =
     (let type = LDJSONGetType (Some object);
          p = p\<lparr>p_isExplicit := (type = LDObject)\<rparr>
      in if type = LDObject then read_explicit_props p (LDGetIter (Some object)) else Inr p)"

definition parserReadDeprecated :: "AvailabilityParser \<Rightarrow> LDJSON \<Rightarrow> AvailabilityParser" where
  "parserReadDeprecated p object =
     (if LDJSONGetType (Some object) = LDBool then p\<lparr>p_clientSide := LDGetBool (Some object)\<rparr> else p)"

definition parserStoreAvailability :: "AvailabilityParser \<Rightarrow> LDClientSideAvailability" where
  "parserStoreAvailability p =
     (if p_isExplicit p
      then \<lparr>usingMobileKey = p_usingMobileKey p, usingEnvironmentID = p_usingEnvironmentId p,
            usingExplicitSchema = True\<rparr>
      else \<lparr>usingMobileKey = True, usingEnvironmentID = p_clientSide p, usingExplicitSchema = False\<rparr>)"

section \<open>The flag model\<close>

record LDFlagModel =
  fm_key :: "string option"
  fm_version :: uint
  fm_trackEvents :: bool
  fm_debugEventsUntilDate :: dbl

text \<open>The loop of \<open>LDi_initFlagModel\<close> over the properties of the flag.\<close>

fun read_model ::
  "LDFlagModel \<Rightarrow> AvailabilityParser \<Rightarrow> (string option \<times> LDJSON) list \<Rightarrow>
   (LDFlagModel \<times> AvailabilityParser) exec" where
  "read_model m p [] = Inr (m, p)"
| "read_model m p ((key, iter) # rest) =
     exec_bind (deref key) (\<lambda>prop.
       if prop = ''key'' then read_model (m\<lparr>fm_key := LDGetText (Some iter)\<rparr>) p rest
       else if prop = ''version'' then
         exec_bind (dbl_to_uint (LDGetNumber (Some iter))) (\<lambda>v.
           read_model (m\<lparr>fm_version := v\<rparr>) p rest)
       else if prop = ''trackEvents'' then
         read_model (if LDJSONGetType (Some iter) = LDBool
                     then m\<lparr>fm_trackEvents := LDGetBool (Some iter)\<rparr> else m) p rest
       else if prop = ''debugEventsUntilDate'' then
         read_model (if LDJSONGetType (Some iter) = LDNumber
                     then m\<lparr>fm_debugEventsUntilDate := LDGetNumber (Some iter)\<rparr> else m) p rest
       else if prop = ''clientSideAvailability'' then
         exec_bind (parserReadExplicit p iter) (\<lambda>p. read_model m p rest)
       else if prop = ''clientSide'' then read_model m (parserReadDeprecated p iter) rest
       else read_model m p rest)"

definition LDi_initFlagModel :: "LDJSON \<Rightarrow> (LDFlagModel \<times> LDClientSideAvailability) exec" where
  "LDi_initFlagModel json =
     exec_bind (read_model \<lparr>fm_key = None, fm_version = 0, fm_trackEvents = False,
                  fm_debugEventsUntilDate = Fin 0\<rparr> initParser (LDGetIter (Some json))) (\<lambda>(m, p).
     exec_bind (ld_assert (fm_key m \<noteq> None)) (\<lambda>_.
       Inr (m, parserStoreAvailability p)))"

section \<open>What the model holds\<close>

definition member_bool :: "LDJSON option \<Rightarrow> bool" where
  "member_bool j = (case j of Some (JBool b) \<Rightarrow> b | _ \<Rightarrow> False)"

definition object_iter :: "(string \<times> LDJSON) list \<Rightarrow> (string option \<times> LDJSON) list" where
  "object_iter kvs = map (\<lambda>(k, v). (Some k, v)) kvs"

lemma object_iter_Cons: "object_iter ((k, j) # kvs) = (Some k, j) # object_iter kvs"
  by (simp add: object_iter_def)

lemma LDGetBool_member: "LDGetBool j = member_bool j"
  by (cases j rule: LDGetBool.cases) (auto simp: member_bool_def split: LDJSON.split)

lemma read_explicit_props_eq:
  assumes "distinct (map fst kvs)"
  shows "read_explicit_props p (object_iter kvs) = Inr (p\<lparr>
     p_usingEnvironmentId := (case map_of kvs ''usingEnvironmentId'' of None \<Rightarrow> p_usingEnvironmentId p | Some j \<Rightarrow> LDGetBool (Some j)),
     p_usingMobileKey := (case map_of kvs ''usingMobileKey'' of None \<Rightarrow> p_usingMobileKey p | Some j \<Rightarrow> LDGetBool (Some j))\<rparr>)"
  using assms
proof (induction kvs arbitrary: p)
  case (Cons x kvs)
  obtain k j where x: "x = (k, j)" by (cases x)
  have new: "map_of kvs k = None" using Cons.prems by (simp add: x map_of_eq_None_iff)
  show ?case using Cons.IH Cons.prems new by (auto simp: x object_iter_def split: option.split)
qed (simp add: object_iter_def)

text \<open>The fields of the parser as the members of the flag determine them.\<close>

definition schema :: "AvailabilityParser \<Rightarrow> bool \<times> bool \<times> bool" where
  "schema p = (p_isExplicit p, p_usingEnvironmentId p, p_usingMobileKey p)"

definition schema_of :: "AvailabilityParser \<Rightarrow> LDJSON option \<Rightarrow> bool \<times> bool \<times> bool" where
  "schema_of p j = (case j of None \<Rightarrow> schema p
     | Some (JObject es) \<Rightarrow> (True,
         (case map_of es ''usingEnvironmentId'' of None \<Rightarrow> p_usingEnvironmentId p | Some b \<Rightarrow> LDGetBool (Some b)),
         (case map_of es ''usingMobileKey'' of None \<Rightarrow> p_usingMobileKey p | Some b \<Rightarrow> LDGetBool (Some b)))
     | _ \<Rightarrow> (False, p_usingEnvironmentId p, p_usingMobileKey p))"

definition bool_or :: "bool \<Rightarrow> LDJSON option \<Rightarrow> bool" where
  "bool_or b j = (case j of Some (JBool c) \<Rightarrow> c | _ \<Rightarrow> b)"

definition number_or :: "dbl \<Rightarrow> LDJSON option \<Rightarrow> dbl" where
  "number_or d j = (case j of Some (JNumber c) \<Rightarrow> c | _ \<Rightarrow> d)"

definition read_version :: "uint \<Rightarrow> LDJSON option \<Rightarrow> uint exec" where
  "read_version v j = (case j of None \<Rightarrow> Inr v | Some j \<Rightarrow> dbl_to_uint (LDGetNumber (Some j)))"

definition key_or :: "string option \<Rightarrow> LDJSON option \<Rightarrow> string option" where
  "key_or k j = (case j of None \<Rightarrow> k | Some j \<Rightarrow> LDGetText (Some j))"

lemma schema_of_clientSide [simp]: "schema_of (p\<lparr>p_clientSide := b\<rparr>) j = schema_of p j"
  by (simp add: schema_of_def schema_def cong: option.case_cong LDJSON.case_cong)

lemma bool_or_None [simp]: "bool_or b None = b"
  by (simp add: bool_or_def)

lemma parserReadExplicit_eq:
  assumes "wf_json j"
  shows "\<exists>p'. parserReadExplicit p j = Inr p' \<and> schema p' = schema_of p (Some j) \<and> p_clientSide p' = p_clientSide p"
proof (cases j)
  case (JObject kvs)
  then have d: "distinct (map fst kvs)" using assms by simp
  have "LDGetIter (Some j) = object_iter kvs" by (simp add: JObject object_iter_def)
  then show ?thesis
    using read_explicit_props_eq [OF d, of "p\<lparr>p_isExplicit := True\<rparr>"]
    by (simp add: JObject parserReadExplicit_def schema_def schema_of_def cong: option.case_cong)
qed (simp_all add: parserReadExplicit_def schema_def schema_of_def)

lemma parserReadDeprecated_eq: "parserReadDeprecated p j = p\<lparr>p_clientSide := bool_or (p_clientSide p) (Some j)\<rparr>"
  by (cases j) (simp_all add: parserReadDeprecated_def bool_or_def)

definition model_of :: "LDFlagModel \<Rightarrow> uint \<Rightarrow> (string \<times> LDJSON) list \<Rightarrow> LDFlagModel" where
  "model_of m v kvs = \<lparr>fm_key = key_or (fm_key m) (map_of kvs ''key''),
     fm_version = v, fm_trackEvents = bool_or (fm_trackEvents m) (map_of kvs ''trackEvents''),
     fm_debugEventsUntilDate = number_or (fm_debugEventsUntilDate m) (map_of kvs ''debugEventsUntilDate'')\<rparr>"

lemma read_model_eq:
  assumes "distinct (map fst kvs)" and "list_all (\<lambda>e. wf_json (snd e)) kvs"
    and "read_version (fm_version m) (map_of kvs ''version'') = Inr v"
  shows "\<exists>p'. read_model m p (object_iter kvs) = Inr (model_of m v kvs, p') \<and>
     schema p' = schema_of p (map_of kvs ''clientSideAvailability'') \<and>
     p_clientSide p' = bool_or (p_clientSide p) (map_of kvs ''clientSide'')"
  using assms
proof (induction kvs arbitrary: m p)
  case Nil
  then show ?case by (simp add: object_iter_def model_of_def schema_of_def bool_or_def number_or_def read_version_def key_or_def)
next
  case (Cons x kvs)
  obtain k j where x: "x = (k, j)" by (cases x)
  have new: "map_of kvs k = None" using Cons.prems(1) by (simp add: x map_of_eq_None_iff)
  obtain p1 where p1: "parserReadExplicit p j = Inr p1" "schema p1 = schema_of p (Some j)"
    "p_clientSide p1 = p_clientSide p"
    using parserReadExplicit_eq [of j p] Cons.prems(2) by (auto simp: x)
  have IH: "\<exists>p''. read_model m' p' (object_iter kvs) = Inr (model_of m' v kvs, p'') \<and>
      schema p'' = schema_of p' (map_of kvs ''clientSideAvailability'') \<and>
      p_clientSide p'' = bool_or (p_clientSide p') (map_of kvs ''clientSide'')"
    if "read_version (fm_version m') (map_of kvs ''version'') = Inr v" for m' p'
    using Cons.IH [OF _ _ that] Cons.prems(1,2) by simp
  consider (key) "k = ''key''" | (ver) "k = ''version''" | (tr) "k = ''trackEvents''" | (db) "k = ''debugEventsUntilDate''"
    | (av) "k = ''clientSideAvailability''" | (cs) "k = ''clientSide''"
    | (other) "k \<noteq> ''key'' \<and> k \<noteq> ''version'' \<and> k \<noteq> ''trackEvents'' \<and> k \<noteq> ''debugEventsUntilDate'' \<and>
         k \<noteq> ''clientSideAvailability'' \<and> k \<noteq> ''clientSide''"
    by argo
  then show ?case
  proof cases
    case key
    then show ?thesis using IH [of "m\<lparr>fm_key := LDGetText (Some j)\<rparr>" p] Cons.prems(3) new
      by (simp add: object_iter_Cons x model_of_def key_or_def)
  next
    case ver
    then show ?thesis using IH [of "m\<lparr>fm_version := v\<rparr>" p] Cons.prems(3) new
      by (simp add: object_iter_Cons x model_of_def read_version_def)
  next
    case tr
    then show ?thesis
      using IH [of "if LDJSONGetType (Some j) = LDBool then m\<lparr>fm_trackEvents := LDGetBool (Some j)\<rparr> else m" p] Cons.prems(3) new
      by (cases j) (simp_all add: object_iter_Cons x model_of_def bool_or_def)
  next
    case db
    then show ?thesis
      using IH [of "if LDJSONGetType (Some j) = LDNumber then m\<lparr>fm_debugEventsUntilDate := LDGetNumber (Some j)\<rparr> else m" p] Cons.prems(3) new
      by (cases j) (simp_all add: object_iter_Cons x model_of_def number_or_def)
  next
    case av
    then show ?thesis using IH [of m p1] Cons.prems(3) new p1
      by (simp add: object_iter_Cons x model_of_def) (simp add: schema_of_def)
  next
    case cs
    then show ?thesis using IH [of m "parserReadDeprecated p j"] Cons.prems(3) new
      by (simp add: object_iter_Cons x model_of_def parserReadDeprecated_eq)
  next
    case other
    then have "k \<noteq> ''key''" "k \<noteq> ''version''" "k \<noteq> ''trackEvents''" "k \<noteq> ''debugEventsUntilDate''"
      "k \<noteq> ''clientSideAvailability''" "k \<noteq> ''clientSide''"
      by argo+
    note k = this this [symmetric]
    have "read_model m p (object_iter (x # kvs)) = read_model m p (object_iter kvs)"
      by (simp only: x object_iter_Cons read_model.simps deref_simps exec_bind_Inr k if_False)
    moreover have "map_of (x # kvs) k' = map_of kvs k'" if "k' \<noteq> k" for k' using that by (simp add: x)
    ultimately show ?thesis using IH [of m p] Cons.prems(3) k unfolding model_of_def by metis
  qed
qed

text \<open>Reading the model of a flag: for a flag with a text key, whose objects have no repeated
  member and whose version fits an unsigned integer, the model holds the key, version, tracking
  switch and debug date of the flag (or their defaults), whatever the order of the members; the
  availability comes from \<open>clientSideAvailability\<close> when that is an object, and otherwise from the
  deprecated \<open>clientSide\<close>, with the flag available to mobile keys.\<close>

theorem LDi_initFlagModel_reads:
  assumes "wf_json (JObject kvs)" and "map_of kvs ''key'' = Some (JText k)"
    and "read_version 0 (map_of kvs ''version'') = Inr v"
  shows "LDi_initFlagModel (JObject kvs) = Inr
     (\<lparr>fm_key = Some k, fm_version = v, fm_trackEvents = member_bool (map_of kvs ''trackEvents''),
       fm_debugEventsUntilDate = number_or (Fin 0) (map_of kvs ''debugEventsUntilDate'')\<rparr>,
      case map_of kvs ''clientSideAvailability'' of
        Some (JObject es) \<Rightarrow> \<lparr>usingMobileKey = member_bool (map_of es ''usingMobileKey''),
          usingEnvironmentID = member_bool (map_of es ''usingEnvironmentId''), usingExplicitSchema = True\<rparr>
      | _ \<Rightarrow> \<lparr>usingMobileKey = True, usingEnvironmentID = member_bool (map_of kvs ''clientSide''),
          usingExplicitSchema = False\<rparr>)"
proof -
  have d: "distinct (map fst kvs)" "list_all (\<lambda>e. wf_json (snd e)) kvs" using assms(1) by simp_all
  obtain p where p: "read_model \<lparr>fm_key = None, fm_version = 0, fm_trackEvents = False, fm_debugEventsUntilDate = Fin 0\<rparr>
      initParser (object_iter kvs) = Inr (model_of \<lparr>fm_key = None, fm_version = 0, fm_trackEvents = False,
      fm_debugEventsUntilDate = Fin 0\<rparr> v kvs, p)"
    "schema p = schema_of initParser (map_of kvs ''clientSideAvailability'')"
    "p_clientSide p = bool_or (p_clientSide initParser) (map_of kvs ''clientSide'')"
    using read_model_eq [OF d, of "\<lparr>fm_key = None, fm_version = 0, fm_trackEvents = False, fm_debugEventsUntilDate = Fin 0\<rparr>"
        v initParser] assms(3) by auto
  have b: "bool_or False j = member_bool j" for j by (simp add: bool_or_def member_bool_def)
  have g: "(case j of None \<Rightarrow> False | Some j \<Rightarrow> LDGetBool (Some j)) = member_bool j" for j
    by (auto simp: LDGetBool_member member_bool_def split: option.split)
  have "parserStoreAvailability p = (case map_of kvs ''clientSideAvailability'' of
        Some (JObject es) \<Rightarrow> \<lparr>usingMobileKey = member_bool (map_of es ''usingMobileKey''),
          usingEnvironmentID = member_bool (map_of es ''usingEnvironmentId''), usingExplicitSchema = True\<rparr>
      | _ \<Rightarrow> \<lparr>usingMobileKey = True, usingEnvironmentID = member_bool (map_of kvs ''clientSide''),
          usingExplicitSchema = False\<rparr>)"
  proof (cases "map_of kvs ''clientSideAvailability''")
    case None
    then show ?thesis
      using p(2,3) by (simp add: parserStoreAvailability_def schema_def schema_of_def initParser_def b)
  next
    case (Some a)
    then show ?thesis
      using p(2,3) by (cases a) (simp_all add: parserStoreAvailability_def schema_def schema_of_def initParser_def b g cong: option.case_cong)
  qed
  moreover have "LDGetIter (Some (JObject kvs)) = object_iter kvs" by (simp add: object_iter_def)
  ultimately show ?thesis
    using p(1) assms(2) by (simp add: LDi_initFlagModel_def model_of_def key_or_def b)
qed

definition sample_flag_entries :: "(string \<times> LDJSON) list" where
  "sample_flag_entries = [(''clientSide'', JBool True), (''version'', JNumber (uint_to_dbl 7)), (''key'', JText ''f''),
     (''clientSideAvailability'', JObject [(''usingMobileKey'', JBool False)])]"

theorem LDi_initFlagModel_reads_witness:
  "LDi_initFlagModel (JObject sample_flag_entries) = Inr
     (\<lparr>fm_key = Some ''f'', fm_version = 7, fm_trackEvents = False, fm_debugEventsUntilDate = Fin 0\<rparr>,
      \<lparr>usingMobileKey = False, usingEnvironmentID = False, usingExplicitSchema = True\<rparr>)"
  using LDi_initFlagModel_reads [of sample_flag_entries "''f''" 7]
  by (simp add: sample_flag_entries_def read_version_def member_bool_def number_or_def)

end
