(* ===== verification/External.thy ===== *)
theory External
  imports Json
begin

text \<open>
  The third-party code the evaluator calls, which is fetched at build time and is not part
  of the repository: SHA-1 and hexify for bucketing, PCRE for regular expressions, the
  timestamp and semantic version parsers. Each is a field of this record, so that every
  theorem holds for any such code unless it names a hypothesis about it.
\<close>

record timestamp_t =
  t_sec :: int
  t_nsec :: int
  t_offset :: int

text \<open>
  \<open>clibs_SHA1\<close> gives the digest bytes of a string. \<open>hexify\<close> gives its status and the
  text written to a buffer of the given size. \<open>pcre\<close> gives, for a pattern that compiles,
  the result of \<open>pcre_exec\<close> on a subject. \<open>timestamp_parse\<close> and \<open>semver_parse\<close> give
  \<open>None\<close> where the C functions return a non-zero error.
\<close>

record 'sv externals =
  clibs_SHA1 :: "string \<Rightarrow> 8 word list"
  hexify :: "8 word list \<Rightarrow> nat \<Rightarrow> int \<times> string"
  pcre :: "string \<Rightarrow> (string \<Rightarrow> int) option"
  timestamp_parse :: "string \<Rightarrow> timestamp_t option"
  timestamp_compare :: "timestamp_t \<Rightarrow> timestamp_t \<Rightarrow> int"
  semver_parse :: "string \<Rightarrow> 'sv option"
  semver_eq :: "'sv \<Rightarrow> 'sv \<Rightarrow> bool"
  semver_lt :: "'sv \<Rightarrow> 'sv \<Rightarrow> bool"
  semver_gt :: "'sv \<Rightarrow> 'sv \<Rightarrow> bool"

section \<open>Hypotheses on third-party code\<close>

text \<open>\<open>hexify\<close> of a digest writes sixteen lower-case hexadecimal digits into a 17 byte buffer.\<close>

definition hex_digit :: "char \<Rightarrow> bool" where
  "hex_digit c \<longleftrightarrow> (48 \<le> (of_char c :: nat) \<and> (of_char c :: nat) \<le> 57) \<or>
     (97 \<le> (of_char c :: nat) \<and> (of_char c :: nat) \<le> 102)"

definition hexify_ok :: "'sv externals \<Rightarrow> bool" where
  "hexify_ok ext \<longleftrightarrow> (\<forall>s. \<exists>enc. hexify ext (clibs_SHA1 ext s) 17 = (16, enc) \<and>
     length enc = 16 \<and> list_all hex_digit enc)"

text \<open>
  \<open>timestamp_compare\<close> is negative, zero or positive as the first instant, in seconds and
  nanoseconds, is before, at or after the second one.
\<close>

definition instant :: "timestamp_t \<Rightarrow> int" where
  "instant t = t_sec t * 1000000000 + t_nsec t"

definition timestamp_compare_ok :: "'sv externals \<Rightarrow> bool" where
  "timestamp_compare_ok ext \<longleftrightarrow>
     (\<forall>a b. 0 \<le> t_nsec a \<and> t_nsec a < 1000000000 \<and> 0 \<le> t_nsec b \<and> t_nsec b < 1000000000 \<longrightarrow>
        sgn (timestamp_compare ext a b) = sgn (instant a - instant b))"

text \<open>The comparison of versions is a strict order and \<open>semver_gt\<close> is its converse.\<close>

definition semver_ok :: "'sv externals \<Rightarrow> bool" where
  "semver_ok ext \<longleftrightarrow> (\<forall>a b. semver_gt ext a b = semver_lt ext b a) \<and>
     (\<forall>a b. semver_eq ext a b = semver_eq ext b a) \<and>
     (\<forall>a b. \<not> (semver_lt ext a b \<and> semver_lt ext b a)) \<and>
     (\<forall>a b. semver_eq ext a b \<longrightarrow> \<not> semver_lt ext a b)"

section \<open>A concrete instance\<close>

text \<open>
  Simple functions with the documented shape, used where a hypothesis has to be shown
  satisfiable: a digest of zero bytes, exact patterns, decimal timestamps ordered by
  their fields, and versions compared by length.
\<close>

definition ts_cmp :: "timestamp_t \<Rightarrow> timestamp_t \<Rightarrow> int" where
  "ts_cmp a b = (if t_sec a \<noteq> t_sec b then sgn (t_sec a - t_sec b) else sgn (t_nsec a - t_nsec b))"

definition sample_ext :: "nat externals" where
  "sample_ext = \<lparr>clibs_SHA1 = (\<lambda>s. replicate 20 0),
     hexify = (\<lambda>bytes n. (16, replicate 16 CHR ''0'')),
     pcre = (\<lambda>p. Some (\<lambda>s. if s = p then 1 else - 1)),
     timestamp_parse = (\<lambda>s. Some \<lparr>t_sec = int (length s), t_nsec = 0, t_offset = 0\<rparr>),
     timestamp_compare = ts_cmp,
     semver_parse = (\<lambda>s. Some (length s)),
     semver_eq = (=), semver_lt = (<), semver_gt = (>)\<rparr>"

lemma hexify_ok_sample: "hexify_ok sample_ext"
  by (simp add: hexify_ok_def sample_ext_def hex_digit_def list_all_iff)

lemma timestamp_compare_ok_sample: "timestamp_compare_ok sample_ext"
  by (auto simp: timestamp_compare_ok_def sample_ext_def ts_cmp_def instant_def sgn_if)

lemma semver_ok_sample: "semver_ok sample_ext"
  by (auto simp: semver_ok_def sample_ext_def)

end
