(* ===== verification/Operators.thy ===== *)
theory Operators
  imports External "HOL-Library.Sublist"
begin

text \<open>
  The clause operators, \<open>src/operator.c\<close>: a test of a user value against a clause
  value. A wrong type makes a test false; converting a date outside the range of the
  timestamp fields is undefined in C and a fault here.
\<close>

section \<open>Strings\<close>

type_synonym op_fn = "LDJSON \<Rightarrow> LDJSON \<Rightarrow> bool exec"

text \<open>\<open>CHECKSTRING\<close> and \<open>CHECKNUMBER\<close> return false from the operator on a wrong type.\<close>

definition checkstring :: "LDJSON \<Rightarrow> LDJSON \<Rightarrow> (string \<Rightarrow> string \<Rightarrow> bool exec) \<Rightarrow> bool exec" where
  "checkstring uvalue cvalue body =
     (case (uvalue, cvalue) of (JText u, JText c) \<Rightarrow> body u c | _ \<Rightarrow> Inr False)"

definition checknumber :: "LDJSON \<Rightarrow> LDJSON \<Rightarrow> (dbl \<Rightarrow> dbl \<Rightarrow> bool exec) \<Rightarrow> bool exec" where
  "checknumber uvalue cvalue body =
     (case (uvalue, cvalue) of (JNumber u, JNumber c) \<Rightarrow> body u c | _ \<Rightarrow> Inr False)"

definition operatorInFn :: op_fn where
  "operatorInFn uvalue cvalue = Inr (LDJSONCompare (Some uvalue) (Some cvalue))"

definition operatorStartsWithFn :: op_fn where
  "operatorStartsWithFn uvalue cvalue = checkstring uvalue cvalue (\<lambda>u c.
     if length c > length u then Inr False else Inr (take (length c) u = take (length c) c))"

definition operatorEndsWithFn :: op_fn where
  "operatorEndsWithFn uvalue cvalue = checkstring uvalue cvalue (\<lambda>u c.
     if length c > length u then Inr False else Inr (drop (length u - length c) u = c))"

definition operatorMatchesFn :: "'sv externals \<Rightarrow> op_fn" where
  "operatorMatchesFn ext uvalue cvalue = checkstring uvalue cvalue (\<lambda>subject regex.
     case pcre ext regex of None \<Rightarrow> Inr False | Some exec \<Rightarrow> Inr (0 \<le> exec subject))"

text \<open>\<open>strstr(u, c) != NULL\<close>: some suffix of the haystack begins with the needle.\<close>

fun strstr_found :: "string \<Rightarrow> string \<Rightarrow> bool" where
  "strstr_found [] c = (c = [])"
| "strstr_found (x # u) c = (take (length c) (x # u) = c \<or> strstr_found u c)"

definition operatorContainsFn :: op_fn where
  "operatorContainsFn uvalue cvalue = checkstring uvalue cvalue (\<lambda>u c. Inr (strstr_found u c))"

section \<open>Numbers\<close>

definition operatorLessThanFn :: op_fn where
  "operatorLessThanFn uvalue cvalue = checknumber uvalue cvalue (\<lambda>u c. Inr (dbl_lt u c))"

definition operatorLessThanOrEqualFn :: op_fn where
  "operatorLessThanOrEqualFn uvalue cvalue = checknumber uvalue cvalue (\<lambda>u c. Inr (dbl_le u c))"

definition operatorGreaterThanFn :: op_fn where
  "operatorGreaterThanFn uvalue cvalue = checknumber uvalue cvalue (\<lambda>u c. Inr (dbl_lt c u))"

definition operatorGreaterThanOrEqualFn :: op_fn where
  "operatorGreaterThanOrEqualFn uvalue cvalue = checknumber uvalue cvalue (\<lambda>u c. Inr (dbl_le c u))"

section \<open>Dates\<close>

definition floorAtMagnitude :: "dbl \<Rightarrow> rat \<Rightarrow> dbl" where
  "floorAtMagnitude n magnitude = dbl_sub n (dbl_fmod n magnitude)"

definition LDi_parseTime :: "'sv externals \<Rightarrow> LDJSON \<Rightarrow> timestamp_t option exec" where
  "LDi_parseTime ext json = (case json of
       JNumber original \<Rightarrow>
         (let rounded = floorAtMagnitude original 1000 in
          exec_bind (dbl_to_int64 (dbl_div_const rounded 1000)) (\<lambda>sec.
          exec_bind (dbl_to_int32 (dbl_mul_const (dbl_sub original rounded) 1000000)) (\<lambda>nsec.
            Inr (Some \<lparr>t_sec = sec, t_nsec = nsec, t_offset = 0\<rparr>))))
     | JText text \<Rightarrow> Inr (timestamp_parse ext text)
     | _ \<Rightarrow> Inr None)"

definition compareTime :: "'sv externals \<Rightarrow> LDJSON \<Rightarrow> LDJSON \<Rightarrow> (int \<Rightarrow> int \<Rightarrow> bool) \<Rightarrow> bool exec" where
  "compareTime ext uvalue cvalue op =
     exec_bind (LDi_parseTime ext uvalue) (\<lambda>ustamp.
       case ustamp of None \<Rightarrow> Inr False
       | Some us \<Rightarrow> exec_bind (LDi_parseTime ext cvalue) (\<lambda>cstamp.
           case cstamp of None \<Rightarrow> Inr False
           | Some cs \<Rightarrow> Inr (op (timestamp_compare ext us cs) 0)))"

definition fnLT :: "int \<Rightarrow> int \<Rightarrow> bool" where
  "fnLT l r = (l < r)"

definition fnGT :: "int \<Rightarrow> int \<Rightarrow> bool" where
  "fnGT l r = (l > r)"

definition operatorBefore :: "'sv externals \<Rightarrow> op_fn" where
  "operatorBefore ext uvalue cvalue = compareTime ext uvalue cvalue fnLT"

definition operatorAfter :: "'sv externals \<Rightarrow> op_fn" where
  "operatorAfter ext uvalue cvalue = compareTime ext uvalue cvalue fnGT"

section \<open>Semantic versions\<close>

definition compareSemVer :: "'sv externals \<Rightarrow> LDJSON \<Rightarrow> LDJSON \<Rightarrow> ('sv \<Rightarrow> 'sv \<Rightarrow> bool) \<Rightarrow> bool exec" where
  "compareSemVer ext uvalue cvalue op = checkstring uvalue cvalue (\<lambda>u c.
     case semver_parse ext u of None \<Rightarrow> Inr False
     | Some usem \<Rightarrow> (case semver_parse ext c of None \<Rightarrow> Inr False
         | Some csem \<Rightarrow> Inr (op usem csem)))"

definition operatorSemVerEqual :: "'sv externals \<Rightarrow> op_fn" where
  "operatorSemVerEqual ext uvalue cvalue = compareSemVer ext uvalue cvalue (semver_eq ext)"

definition operatorSemVerLessThan :: "'sv externals \<Rightarrow> op_fn" where
  "operatorSemVerLessThan ext uvalue cvalue = compareSemVer ext uvalue cvalue (semver_lt ext)"

definition operatorSemVerGreaterThan :: "'sv externals \<Rightarrow> op_fn" where
  "operatorSemVerGreaterThan ext uvalue cvalue = compareSemVer ext uvalue cvalue (semver_gt ext)"

section \<open>Lookup by name\<close>

definition LDi_lookupOperation :: "'sv externals \<Rightarrow> string \<Rightarrow> op_fn option" where
  "LDi_lookupOperation ext operation =
     (if operation = ''in'' then Some operatorInFn
      else if operation = ''endsWith'' then Some operatorEndsWithFn
      else if operation = ''startsWith'' then Some operatorStartsWithFn
      else if operation = ''matches'' then Some (operatorMatchesFn ext)
      else if operation = ''contains'' then Some operatorContainsFn
      else if operation = ''lessThan'' then Some operatorLessThanFn
      else if operation = ''lessThanOrEqual'' then Some operatorLessThanOrEqualFn
      else if operation = ''greaterThan'' then Some operatorGreaterThanFn
      else if operation = ''greaterThanOrEqual'' then Some operatorGreaterThanOrEqualFn
      else if operation = ''before'' then Some (operatorBefore ext)
      else if operation = ''after'' then Some (operatorAfter ext)
      else if operation = ''semVerEqual'' then Some (operatorSemVerEqual ext)
      else if operation = ''semVerLessThan'' then Some (operatorSemVerLessThan ext)
      else if operation = ''semVerGreaterThan'' then Some (operatorSemVerGreaterThan ext)
      else None)"

lemmas op_defs = operatorInFn_def operatorStartsWithFn_def operatorEndsWithFn_def
  operatorMatchesFn_def operatorContainsFn_def operatorLessThanFn_def
  operatorLessThanOrEqualFn_def operatorGreaterThanFn_def operatorGreaterThanOrEqualFn_def
  operatorBefore_def operatorAfter_def operatorSemVerEqual_def operatorSemVerLessThan_def
  operatorSemVerGreaterThan_def

lemma checkstring_cases:
  "checkstring uvalue cvalue body =
     (case (LDGetText (Some uvalue), LDGetText (Some cvalue)) of
        (Some u, Some c) \<Rightarrow> body u c | _ \<Rightarrow> Inr False)"
  by (cases uvalue; cases cvalue) (simp_all add: checkstring_def)

section \<open>Correctness of the string operators\<close>

lemma strstr_found_sublist: "strstr_found u c \<longleftrightarrow> sublist c u"
proof (induction u)
  case (Cons x u)
  have "take (length c) (x # u) = c \<longleftrightarrow> prefix c (x # u)"
    by (metis append_eq_conv_conj prefix_def)
  with Cons show ?case by (simp add: sublist_Cons_right)
qed simp

lemma take_prefix_iff: "length c \<le> length u \<Longrightarrow> take (length c) u = c \<longleftrightarrow> prefix c u"
  by (metis append_eq_conv_conj prefix_def)

lemma drop_suffix_iff:
  "length c \<le> length u \<Longrightarrow> drop (length u - length c) u = c \<longleftrightarrow> suffix c u"
  by (metis append_eq_conv_conj append_take_drop_id diff_diff_cancel length_drop length_append
      add_diff_cancel_right' suffix_def)

text \<open>The string operators decide what their names say: the clause text is a prefix, a
  suffix, or a contiguous part of the user text; on values that are not both text they are
  false, and they never fault.\<close>

theorem string_operators_correct:
  "operatorStartsWithFn uvalue cvalue =
     Inr (\<exists>u c. uvalue = JText u \<and> cvalue = JText c \<and> prefix c u) \<and>
   operatorEndsWithFn uvalue cvalue =
     Inr (\<exists>u c. uvalue = JText u \<and> cvalue = JText c \<and> suffix c u) \<and>
   operatorContainsFn uvalue cvalue =
     Inr (\<exists>u c. uvalue = JText u \<and> cvalue = JText c \<and> sublist c u)"
proof (cases "\<exists>u c. uvalue = JText u \<and> cvalue = JText c")
  case True
  then obtain u c where uc: "uvalue = JText u" "cvalue = JText c" by blast
  have "operatorStartsWithFn (JText u) (JText c) = Inr (prefix c u)"
    using take_prefix_iff [of c u] prefix_length_le [of c u]
    by (auto simp: operatorStartsWithFn_def checkstring_def)
  moreover have "operatorEndsWithFn (JText u) (JText c) = Inr (suffix c u)"
    using drop_suffix_iff [of c u] suffix_length_le [of c u]
    by (auto simp: operatorEndsWithFn_def checkstring_def)
  moreover have "operatorContainsFn (JText u) (JText c) = Inr (sublist c u)"
    by (simp add: operatorContainsFn_def checkstring_def strstr_found_sublist)
  ultimately show ?thesis by (simp add: uc)
next
  case False
  then have "checkstring uvalue cvalue body = Inr False" for body
    by (cases uvalue; cases cvalue) (auto simp: checkstring_def)
  with False show ?thesis by (auto simp: op_defs)
qed

section \<open>Correctness of the number operators\<close>

text \<open>On two numbers that are not not-a-number the operators are a total order: exactly one of
  less than, equal and greater than holds, and the two inclusive operators are the negations of
  the strict ones.\<close>

theorem number_operators_total_order:
  assumes "u \<noteq> NaN" and "c \<noteq> NaN"
  shows "\<exists>lt eq gt. operatorLessThanFn (JNumber u) (JNumber c) = Inr lt \<and>
     operatorInFn (JNumber u) (JNumber c) = Inr eq \<and>
     operatorGreaterThanFn (JNumber u) (JNumber c) = Inr gt \<and>
     operatorLessThanOrEqualFn (JNumber u) (JNumber c) = Inr (\<not> gt) \<and>
     operatorGreaterThanOrEqualFn (JNumber u) (JNumber c) = Inr (\<not> lt) \<and>
     (lt \<or> eq \<or> gt) \<and> \<not> (lt \<and> eq) \<and> \<not> (lt \<and> gt) \<and> \<not> (eq \<and> gt)"
proof -
  have "dbl_le u c \<longleftrightarrow> \<not> dbl_lt c u" "dbl_le c u \<longleftrightarrow> \<not> dbl_lt u c" using assms by (simp_all add: dbl_not_lt)
  moreover have "\<not> (dbl_lt u c \<and> dbl_lt c u)" using dbl_lt_trans [of u c u] by auto
  moreover have "dbl_eq u c \<longleftrightarrow> u = c" using assms by (simp add: dbl_eq_iff)
  moreover have "dbl_eq c u \<longleftrightarrow> u = c" using assms by (auto simp: dbl_eq_iff)
  ultimately show ?thesis
    by (simp add: op_defs checknumber_def LDJSONCompare_def) (auto simp: dbl_le_def)
qed

theorem number_operators_total_order_witness:
  "\<exists>lt eq gt. operatorLessThanFn (JNumber (Fin 1)) (JNumber (Fin 2)) = Inr lt \<and>
     operatorInFn (JNumber (Fin 1)) (JNumber (Fin 2)) = Inr eq \<and>
     operatorGreaterThanFn (JNumber (Fin 1)) (JNumber (Fin 2)) = Inr gt \<and>
     operatorLessThanOrEqualFn (JNumber (Fin 1)) (JNumber (Fin 2)) = Inr (\<not> gt) \<and>
     operatorGreaterThanOrEqualFn (JNumber (Fin 1)) (JNumber (Fin 2)) = Inr (\<not> lt) \<and>
     (lt \<or> eq \<or> gt) \<and> \<not> (lt \<and> eq) \<and> \<not> (lt \<and> gt) \<and> \<not> (eq \<and> gt)"
  by (rule number_operators_total_order) simp_all

section \<open>Correctness of the date operators\<close>

lemma trunc_div: "0 \<le> n \<Longrightarrow> trunc (of_int n / of_int d) = n div d"
  if "0 < d" for n d :: int
  using that by (simp add: trunc_def floor_divide_of_int_eq)

lemma parse_millis:
  assumes "0 \<le> n" and "n < 2 ^ 53"
  shows "floorAtMagnitude (Fin (of_int n)) 1000 = Fin (of_int (1000 * (n div 1000)))"
proof -
  have "dbl_fmod (Fin (of_int n)) 1000 = Fin (of_int (n mod 1000))"
    using trunc_div [of 1000 n] assms by (simp add: minus_mult_div_eq_mod [symmetric])
  moreover have "fl64 (of_int (n - n mod 1000)) = Fin (of_int (n - n mod 1000))"
    using assms pos_mod_sign [of 1000 n] zmod_le_nonneg_dividend [of n 1000] by (intro fl64_int) linarith
  moreover have "n - n mod 1000 = 1000 * (n div 1000)" by (simp add: minus_mod_eq_mult_div)
  ultimately show ?thesis
    unfolding floorAtMagnitude_def dbl_sub_def by (metis dbl_add.simps(1) dbl_neg.simps(1) of_int_minus of_int_add uminus_add_conv_diff add.commute)
qed

text \<open>
  A date given as a non-negative whole number of milliseconds, below the precision of a
  double, is split into seconds and nanoseconds without loss.
\<close>

lemma LDi_parseTime_millis:
  assumes "0 \<le> n" and "n < 2 ^ 53"
  shows "LDi_parseTime ext (JNumber (Fin (of_int n))) =
     Inr (Some \<lparr>t_sec = n div 1000, t_nsec = (n mod 1000) * 1000000, t_offset = 0\<rparr>)"
proof -
  let ?r = "Fin (of_int (1000 * (n div 1000)))"
  have b: "0 \<le> n div 1000" "n div 1000 < 2 ^ 53" "0 \<le> n mod 1000" "n mod 1000 < 1000"
    using assms by auto
  have "dbl_div_const ?r 1000 = fl64 (of_int (n div 1000))" by simp
  then have sec: "dbl_to_int64 (dbl_div_const ?r 1000) = Inr (n div 1000)"
    using b by (simp add: fl64_int dbl_to_int64_def dbl_to_int_range_def)
  have "of_int n + - of_int (1000 * (n div 1000)) = (of_int (n mod 1000) :: rat)"
    by (simp add: minus_mult_div_eq_mod [symmetric])
  then have sub: "dbl_sub (Fin (of_int n)) ?r = fl64 (of_int (n mod 1000))"
    unfolding dbl_sub_def dbl_neg.simps dbl_add.simps by (rule arg_cong)
  have "dbl_mul_const (fl64 (of_int (n mod 1000))) 1000000 = fl64 (of_int ((n mod 1000) * 1000000))"
    using b by (simp add: fl64_int)
  then have nsec: "dbl_to_int32 (dbl_mul_const (dbl_sub (Fin (of_int n)) ?r) 1000000) =
      Inr ((n mod 1000) * 1000000)"
  proof -
    define m where "m = n mod 1000"
    have m: "0 \<le> m" "m < 1000" using b(3,4) by (simp_all add: m_def)
    then have f: "fl64 (of_int (m * 1000000)) = Fin (of_int (m * 1000000))"
      by (intro fl64_int) (simp add: abs_mult)
    from \<open>dbl_mul_const _ _ = _\<close> show ?thesis
      unfolding sub m_def [symmetric] using m
      by (simp only: f dbl_to_int32_def dbl_to_int_range_def dbl.case trunc_of_int) simp
  qed
  show ?thesis
    unfolding LDi_parseTime_def by (simp only: LDJSON.case parse_millis [OF assms] Let_def sec nsec exec_bind_Inr)
qed

text \<open>The date operators order dates: for two dates given as whole numbers of milliseconds since
  1970 (below the precision of a double) \<open>before\<close> holds exactly when the user's date is the
  earlier one and \<open>after\<close> exactly when it is the later one, provided the timestamp library
  compares instants.\<close>

theorem date_operators_order:
  assumes "timestamp_compare_ok ext" and "0 \<le> m" and "m < 2 ^ 53" and "0 \<le> n" and "n < 2 ^ 53"
  shows "operatorBefore ext (JNumber (Fin (of_int m))) (JNumber (Fin (of_int n))) = Inr (m < n) \<and>
     operatorAfter ext (JNumber (Fin (of_int m))) (JNumber (Fin (of_int n))) = Inr (n < m)"
proof -
  define t where "t i = \<lparr>t_sec = i div 1000, t_nsec = (i mod 1000) * 1000000, t_offset = 0\<rparr>" for i :: int
  have "instant (t i) = i * 1000000" for i
  proof -
    have "instant (t i) = (1000 * (i div 1000) + i mod 1000) * 1000000"
      unfolding instant_def t_def timestamp_t.simps by (simp only: distrib_right mult.assoc mult.commute [of 1000])
    then show ?thesis by (simp only: mult_div_mod_eq)
  qed
  moreover have "0 \<le> t_nsec (t i) \<and> t_nsec (t i) < 1000000000" for i
    using pos_mod_bound [of 1000 i] by (simp add: t_def)
  ultimately have "sgn (timestamp_compare ext (t m) (t n)) = sgn (m * 1000000 - n * 1000000)"
    using assms(1) unfolding timestamp_compare_ok_def by metis
  then have "sgn (timestamp_compare ext (t m) (t n)) = sgn (m - n)"
    by (simp add: sgn_if split: if_splits)
  then have "timestamp_compare ext (t m) (t n) < 0 \<longleftrightarrow> m < n" "timestamp_compare ext (t m) (t n) > 0 \<longleftrightarrow> n < m"
    by (auto simp: sgn_if split: if_splits)
  then show ?thesis
    by (simp add: operatorBefore_def operatorAfter_def compareTime_def LDi_parseTime_millis [OF assms(2,3)]
        LDi_parseTime_millis [OF assms(4,5)] fnLT_def fnGT_def flip: t_def)
qed

theorem date_operators_order_witness:
  "operatorBefore sample_ext (JNumber (Fin (of_int 1500))) (JNumber (Fin (of_int 2001))) = Inr (1500 < (2001 :: int)) \<and>
   operatorAfter sample_ext (JNumber (Fin (of_int 1500))) (JNumber (Fin (of_int 2001))) = Inr (2001 < (1500 :: int))"
  by (rule date_operators_order [OF timestamp_compare_ok_sample]) simp_all

end
