(* ===== verification/StoreUtilities.thy ===== *)
theory StoreUtilities
  imports Json
begin

text \<open>
  Feature data as the stores see it, \<open>src/store/store_utilities.c\<close>: kinds, keys,
  versions, validation and deletion markers.
\<close>

datatype FeatureKind = LD_FLAG | LD_SEGMENT

fun featureKindToString :: "FeatureKind \<Rightarrow> string" where
  "featureKindToString LD_FLAG = ''features''"
| "featureKindToString LD_SEGMENT = ''segments''"

definition stringToFeatureKind :: "string \<Rightarrow> FeatureKind option" where
  "stringToFeatureKind kind =
     (if kind = ''features'' then Some LD_FLAG
      else if kind = ''segments'' then Some LD_SEGMENT else None)"

definition LDi_getDataKey :: "LDJSON \<Rightarrow> string option exec" where
  "LDi_getDataKey feature =
     (let tmp = LDObjectLookup (Some feature) ''key'' in
      exec_bind (ld_assert (tmp \<noteq> None)) (\<lambda>_. Inr (LDGetText tmp)))"

text \<open>The version is converted from \<open>double\<close> to \<open>unsigned int\<close> on return.\<close>

definition LDi_getDataVersion :: "LDJSON \<Rightarrow> uint exec" where
  "LDi_getDataVersion feature = (case LDObjectLookup (Some feature) ''version'' of
       None \<Rightarrow> Inr 0
     | Some tmp \<Rightarrow> if LDJSONGetType (Some tmp) \<noteq> LDNumber then Inr 0
                   else dbl_to_uint (LDGetNumber (Some tmp)))"

definition LDi_validateData :: "LDJSON \<Rightarrow> bool" where
  "LDi_validateData feature =
     (if LDJSONGetType (Some feature) \<noteq> LDObject then False
      else case LDObjectLookup (Some feature) ''version'' of
        None \<Rightarrow> False
      | Some version \<Rightarrow> if LDJSONGetType (Some version) \<noteq> LDNumber then False
          else case LDObjectLookup (Some feature) ''key'' of
            None \<Rightarrow> False
          | Some key \<Rightarrow> if LDJSONGetType (Some key) \<noteq> LDText then False
              else case LDObjectLookup (Some feature) ''deleted'' of
                None \<Rightarrow> True
              | Some deleted \<Rightarrow> LDJSONGetType (Some deleted) = LDBool)"

definition LDi_isDataDeleted :: "LDJSON \<Rightarrow> bool" where
  "LDi_isDataDeleted feature = (case LDObjectLookup (Some feature) ''deleted'' of
       None \<Rightarrow> False
     | Some tmp \<Rightarrow> if LDJSONGetType (Some tmp) \<noteq> LDBool then True else LDGetBool (Some tmp))"

definition LDi_makeDeletedData :: "string \<Rightarrow> uint \<Rightarrow> LDJSON" where
  "LDi_makeDeletedData key version =
     (let placeholder = JObject [];
          placeholder = set_key placeholder ''key'' (JText key);
          placeholder = set_key placeholder ''version'' (JNumber (uint_to_dbl version))
      in set_key placeholder ''deleted'' (JBool True))"

section \<open>Items that a store accepts\<close>

text \<open>Validated data whose version is in the range of \<open>unsigned int\<close>.\<close>

definition item_version :: "LDJSON \<Rightarrow> uint" where
  "item_version item = (case LDi_getDataVersion item of Inr v \<Rightarrow> v | Inl _ \<Rightarrow> 0)"

definition item_key :: "LDJSON \<Rightarrow> string" where
  "item_key item = (case LDi_getDataKey item of Inr (Some k) \<Rightarrow> k | _ \<Rightarrow> [])"

definition valid_item :: "LDJSON \<Rightarrow> bool" where
  "valid_item item \<longleftrightarrow> LDi_validateData item \<and> LDi_getDataVersion item = Inr (item_version item)"

lemma validateData_key:
  "LDi_validateData item \<Longrightarrow> LDi_getDataKey item = Inr (Some (item_key item))"
  by (auto simp: LDi_validateData_def LDi_getDataKey_def item_key_def json_type_iff
      split: option.splits if_splits)

lemma valid_item_key: "valid_item item \<Longrightarrow> LDi_getDataKey item = Inr (Some (item_key item))"
  by (simp add: valid_item_def validateData_key)

lemma valid_item_version: "valid_item item \<Longrightarrow> LDi_getDataVersion item = Inr (item_version item)"
  by (simp add: valid_item_def)

lemma featureKind_roundtrip: "stringToFeatureKind (featureKindToString kind) = Some kind"
  by (cases kind) (simp_all add: stringToFeatureKind_def)

lemma makeDeletedData_eq:
  "LDi_makeDeletedData key version =
     JObject [(''key'', JText key), (''version'', JNumber (uint_to_dbl version)), (''deleted'', JBool True)]"
  by (simp add: LDi_makeDeletedData_def set_key_JObject Let_def)

lemma makeDeletedData_valid:
  "valid_item (LDi_makeDeletedData key version)"
  "item_key (LDi_makeDeletedData key version) = key"
  "item_version (LDi_makeDeletedData key version) = version"
  "LDi_isDataDeleted (LDi_makeDeletedData key version)"
  by (simp_all add: makeDeletedData_eq valid_item_def LDi_validateData_def LDi_getDataVersion_def
      item_version_def item_key_def LDi_getDataKey_def LDi_isDataDeleted_def)

end
