(* ===== verification/StoreInterface.thy ===== *)
theory StoreInterface
  imports StoreUtilities "HOL-Library.Multiset"
begin

text \<open>
  The interface between the client and a feature store, \<open>src/store/internal_store.h\<close>:
  a table of operations over an implementation context, and the contract every
  implementation has to meet. The abstract state of a store is a view: the newest item
  received for each kind and key, deletion markers included.
\<close>

section \<open>The table of operations\<close>

text \<open>
  A get or all may change the context (a cache), so both return it. The first component
  of a result is the success flag the C function returns.
\<close>

record 's LDInternalStoreInterface =
  si_context :: 's
  si_init :: "'s \<Rightarrow> LDJSON \<Rightarrow> (bool \<times> 's) exec"
  si_get :: "'s \<Rightarrow> FeatureKind \<Rightarrow> string \<Rightarrow> (bool \<times> LDJSON option \<times> 's) exec"
  si_all :: "'s \<Rightarrow> FeatureKind \<Rightarrow> (bool \<times> LDJSON option \<times> 's) exec"
  si_upsert :: "'s \<Rightarrow> FeatureKind \<Rightarrow> string \<Rightarrow> LDJSON \<Rightarrow> (bool \<times> 's) exec"
  si_initialized :: "'s \<Rightarrow> bool \<times> 's"

section \<open>Views\<close>

type_synonym store_view = "FeatureKind \<Rightarrow> string \<Rightarrow> LDJSON option"

definition view_put :: "store_view \<Rightarrow> FeatureKind \<Rightarrow> LDJSON \<Rightarrow> store_view" where
  "view_put v kind item = v(kind := (v kind)(item_key item \<mapsto> item))"

text \<open>An item replaces what is stored under its key unless that is as new or newer.\<close>

definition newer_wins :: "store_view \<Rightarrow> FeatureKind \<Rightarrow> LDJSON \<Rightarrow> store_view" where
  "newer_wins v kind item = (case v kind (item_key item) of
       None \<Rightarrow> view_put v kind item
     | Some old \<Rightarrow> if item_version item \<le> item_version old then v else view_put v kind item)"

fun run_view :: "store_view \<Rightarrow> (FeatureKind \<times> LDJSON) list \<Rightarrow> store_view" where
  "run_view v [] = v"
| "run_view v ((kind, item) # xs) = run_view (newer_wins v kind item) xs"

text \<open>What a reader sees of a stored item.\<close>

definition visible :: "LDJSON option \<Rightarrow> LDJSON option" where
  "visible i = (case i of None \<Rightarrow> None | Some item \<Rightarrow> if LDi_isDataDeleted item then None else Some item)"

lemma newer_wins_other:
  "kind' \<noteq> kind \<or> k \<noteq> item_key item \<Longrightarrow> newer_wins v kind item kind' k = v kind' k"
  by (auto simp: newer_wins_def view_put_def split: option.splits)

lemma newer_wins_same:
  "newer_wins v kind item kind (item_key item) = (case v kind (item_key item) of
       None \<Rightarrow> Some item
     | Some old \<Rightarrow> Some (if item_version item \<le> item_version old then old else item))"
  by (simp add: newer_wins_def view_put_def split: option.splits)

section \<open>The newest item wins, in any order\<close>

definition candidates :: "store_view \<Rightarrow> (FeatureKind \<times> LDJSON) set \<Rightarrow> FeatureKind \<Rightarrow> string \<Rightarrow> LDJSON set" where
  "candidates v xs kind k = set_option (v kind k) \<union> {item. (kind, item) \<in> xs \<and> item_key item = k}"

lemma candidates_Nil [simp]: "candidates v {} kind k = set_option (v kind k)"
  by (simp add: candidates_def)

lemma candidates_step:
  assumes "w \<in> candidates (newer_wins v kind item) xs kind' k"
  shows "w \<in> candidates v (insert (kind, item) xs) kind' k"
  using assms newer_wins_other [of kind' kind k item v] newer_wins_same [of v kind item]
  by (cases "kind' = kind \<and> k = item_key item") (auto simp: candidates_def split: option.splits if_splits)

lemma candidates_below:
  assumes "c \<in> candidates v (insert (kind, item) xs) kind' k"
  shows "\<exists>w \<in> candidates (newer_wins v kind item) xs kind' k. item_version c \<le> item_version w"
proof (cases "kind' = kind \<and> k = item_key item")
  case True
  then obtain w where w: "newer_wins v kind item kind' k = Some w" "item_version item \<le> item_version w"
    "\<forall>old. v kind' k = Some old \<longrightarrow> item_version old \<le> item_version w"
    using newer_wins_same [of v kind item] by (auto split: option.splits if_splits)
  show ?thesis
  proof (cases "(kind', c) \<in> xs \<and> item_key c = k")
    case True
    then show ?thesis by (intro bexI [of _ c]) (auto simp: candidates_def)
  next
    case False
    with assms w show ?thesis by (intro bexI [of _ w]) (auto simp: candidates_def)
  qed
next
  case False
  with assms have "c \<in> candidates (newer_wins v kind item) xs kind' k"
    using newer_wins_other [of kind' kind k item v] by (auto simp: candidates_def)
  then show ?thesis by blast
qed

lemma run_view_newest:
  "(run_view v xs kind k = None \<longleftrightarrow> candidates v (set xs) kind k = {}) \<and>
   (\<forall>w. run_view v xs kind k = Some w \<longrightarrow> w \<in> candidates v (set xs) kind k \<and>
      (\<forall>c\<in>candidates v (set xs) kind k. item_version c \<le> item_version w))"
proof (induction xs arbitrary: v)
  case Nil
  show ?case by (cases "v kind k") auto
next
  case (Cons x xs)
  obtain kd it where x: "x = (kd, it)" by (cases x)
  let ?v = "newer_wins v kd it"
  have up: "\<exists>w\<in>candidates ?v (set xs) kind k. item_version c \<le> item_version w"
    if "c \<in> candidates v (insert (kd, it) (set xs)) kind k" for c
    using candidates_below [OF that] .
  have down: "w \<in> candidates v (insert (kd, it) (set xs)) kind k"
    if "w \<in> candidates ?v (set xs) kind k" for w
    using candidates_step [OF that] .
  have "candidates ?v (set xs) kind k = {} \<longleftrightarrow> candidates v (insert (kd, it) (set xs)) kind k = {}"
    using up down by blast
  moreover have "w \<in> candidates v (insert (kd, it) (set xs)) kind k \<and>
      (\<forall>c\<in>candidates v (insert (kd, it) (set xs)) kind k. item_version c \<le> item_version w)"
    if "run_view ?v xs kind k = Some w" for w
    using Cons.IH [of ?v] that up down by (meson order_trans)
  ultimately show ?case using Cons.IH [of ?v] by (simp add: x)
qed

text \<open>No two different items of a kind and key carry the same version.\<close>

definition versions_unique :: "store_view \<Rightarrow> (FeatureKind \<times> LDJSON) list \<Rightarrow> bool" where
  "versions_unique v xs \<longleftrightarrow> (\<forall>kind k. inj_on item_version (candidates v (set xs) kind k))"

lemma run_view_perm:
  assumes "versions_unique v xs" and "set ys = set xs"
  shows "run_view v ys = run_view v xs"
proof (intro ext)
  fix kind k
  have inj: "inj_on item_version (candidates v (set xs) kind k)"
    using assms(1) by (simp add: versions_unique_def)
  show "run_view v ys kind k = run_view v xs kind k"
  proof (cases "run_view v xs kind k")
    case None
    then show ?thesis
      using run_view_newest [of v xs kind k] run_view_newest [of v ys kind k] assms(2) by simp
  next
    case (Some w)
    then have w: "w \<in> candidates v (set xs) kind k"
      "\<forall>c\<in>candidates v (set xs) kind k. item_version c \<le> item_version w"
      using run_view_newest [of v xs kind k] by auto
    then obtain u where u: "run_view v ys kind k = Some u"
      using run_view_newest [of v ys kind k] assms(2) by (cases "run_view v ys kind k") auto
    then have "u \<in> candidates v (set xs) kind k"
      "\<forall>c\<in>candidates v (set xs) kind k. item_version c \<le> item_version u"
      using run_view_newest [of v ys kind k] assms(2) by auto
    with w have "u = w" using inj by (metis inj_onD order_antisym)
    with Some u show ?thesis by simp
  qed
qed

section \<open>The contract\<close>

text \<open>Delivering a sequence of items to a store through its upsert operation.\<close>

fun run_upserts ::
  "('s \<Rightarrow> FeatureKind \<Rightarrow> string \<Rightarrow> LDJSON \<Rightarrow> (bool \<times> 's) exec) \<Rightarrow> 's \<Rightarrow>
   (FeatureKind \<times> LDJSON) list \<Rightarrow> 's exec"
where
  "run_upserts upsert s [] = Inr s"
| "run_upserts upsert s ((kind, item) # xs) =
     exec_bind (upsert s kind (item_key item) item) (\<lambda>r. run_upserts upsert (snd r) xs)"

locale feature_store =
  fixes invar :: "'s \<Rightarrow> bool"
    and view :: "'s \<Rightarrow> store_view"
    and get :: "'s \<Rightarrow> FeatureKind \<Rightarrow> string \<Rightarrow> (bool \<times> LDJSON option \<times> 's) exec"
    and upsert :: "'s \<Rightarrow> FeatureKind \<Rightarrow> string \<Rightarrow> LDJSON \<Rightarrow> (bool \<times> 's) exec"
  assumes get_visible:
      "invar s \<Longrightarrow> get s kind k = Inr (True, visible (view s kind k), s)"
    and upsert_newer:
      "invar s \<Longrightarrow> valid_item item \<Longrightarrow>
       \<exists>s'. upsert s kind (item_key item) item = Inr (True, s') \<and> invar s' \<and>
         view s' = newer_wins (view s) kind item"
    and upsert_invalid: "\<not> LDi_validateData item \<Longrightarrow> upsert s kind k item = Inr (False, s)"
begin

lemma run_upserts_view:
  "invar s \<Longrightarrow> list_all (\<lambda>x. valid_item (snd x)) xs \<Longrightarrow>
   \<exists>s'. run_upserts upsert s xs = Inr s' \<and> invar s' \<and> view s' = run_view (view s) xs"
proof (induction xs arbitrary: s)
  case (Cons x xs)
  obtain kind item where x: "x = (kind, item)" by (cases x)
  with Cons.prems obtain s1 where s1:
    "upsert s kind (item_key item) item = Inr (True, s1)" "invar s1"
    "view s1 = newer_wins (view s) kind item"
    using upsert_newer [of s item kind] by auto
  moreover obtain s2 where "run_upserts upsert s1 xs = Inr s2" "invar s2"
    "view s2 = run_view (view s1) xs"
    using Cons.IH [OF s1(2)] Cons.prems(2) by auto
  ultimately show ?case by (simp add: x)
qed simp

lemma upsert_then_get:
  assumes "invar s" and "valid_item item"
    and "\<forall>old. view s kind (item_key item) = Some old \<longrightarrow> item_version old < item_version item"
  shows "\<exists>s'. upsert s kind (item_key item) item = Inr (True, s') \<and> invar s' \<and>
     get s' kind (item_key item) =
       Inr (True, if LDi_isDataDeleted item then None else Some item, s')"
proof -
  obtain s' where s': "upsert s kind (item_key item) item = Inr (True, s')" "invar s'"
    "view s' = newer_wins (view s) kind item"
    using upsert_newer [OF assms(1,2)] by blast
  have "view s' kind (item_key item) = Some item"
    using assms(3) s'(3) newer_wins_same [of "view s" kind item] by (auto split: option.splits)
  then show ?thesis using s' by (simp add: get_visible visible_def)
qed

lemma stale_upsert_ignored:
  assumes "invar s" and "valid_item item" and "view s kind (item_key item) = Some old"
    and "item_version item \<le> item_version old"
  shows "\<exists>s'. upsert s kind (item_key item) item = Inr (True, s') \<and> invar s' \<and> view s' = view s"
  using upsert_newer [OF assms(1,2), of kind] assms(3,4) by (auto simp: newer_wins_def)

lemma delivery_order_irrelevant:
  assumes "invar s" and "list_all (\<lambda>x. valid_item (snd x)) xs"
    and "versions_unique (view s) xs" and "mset ys = mset xs"
  shows "\<exists>s1 s2. run_upserts upsert s xs = Inr s1 \<and> run_upserts upsert s ys = Inr s2 \<and>
     invar s1 \<and> invar s2 \<and> (\<forall>kind k r t. get s1 kind k = Inr (r, t, s1) \<longleftrightarrow> get s2 kind k = Inr (r, t, s2))"
proof -
  have set: "set ys = set xs" using assms(4) by (metis set_mset_mset)
  then have "list_all (\<lambda>x. valid_item (snd x)) ys" using assms(2) by (simp add: list_all_iff)
  with assms(1,2) obtain s1 s2 where
    1: "run_upserts upsert s xs = Inr s1" "invar s1" "view s1 = run_view (view s) xs" and
    2: "run_upserts upsert s ys = Inr s2" "invar s2" "view s2 = run_view (view s) ys"
    using run_upserts_view by meson
  have "view s1 = view s2" using 1(3) 2(3) run_view_perm [OF assms(3) set] by simp
  then show ?thesis using 1 2 by (auto simp: get_visible)
qed

end

end
