(* ===== verification/MemoryStore.thy ===== *)
theory MemoryStore
  imports StoreInterface
begin

text \<open>
  The in-memory feature store, \<open>src/store/memory_store.c\<close>: one hash table per kind. The
  reference counts of the stored values are memory management and not represented; locks
  make each operation atomic.
\<close>

section \<open>State and table helpers\<close>

record MemoryStoreContext =
  ms_initialized :: bool
  ms_features :: "(string \<times> LDJSON) list"
  ms_segments :: "(string \<times> LDJSON) list"

definition clearStore :: "MemoryStoreContext \<Rightarrow> MemoryStoreContext" where
  "clearStore ctx = ctx\<lparr>ms_features := [], ms_segments := []\<rparr>"

fun ms_table :: "MemoryStoreContext \<Rightarrow> FeatureKind \<Rightarrow> (string \<times> LDJSON) list" where
  "ms_table ctx LD_FLAG = ms_features ctx"
| "ms_table ctx LD_SEGMENT = ms_segments ctx"

fun ms_set_table :: "MemoryStoreContext \<Rightarrow> FeatureKind \<Rightarrow> (string \<times> LDJSON) list \<Rightarrow> MemoryStoreContext" where
  "ms_set_table ctx LD_FLAG t = ctx\<lparr>ms_features := t\<rparr>"
| "ms_set_table ctx LD_SEGMENT t = ctx\<lparr>ms_segments := t\<rparr>"

definition removeAndDeleteItem :: "MemoryStoreContext \<Rightarrow> FeatureKind \<Rightarrow> string \<Rightarrow> MemoryStoreContext" where
  "removeAndDeleteItem ctx kind key = ms_set_table ctx kind (hash_del (ms_table ctx kind) key)"

definition addToStore :: "MemoryStoreContext \<Rightarrow> FeatureKind \<Rightarrow> string \<times> LDJSON \<Rightarrow> MemoryStoreContext" where
  "addToStore ctx kind item = ms_set_table ctx kind (hash_add (ms_table ctx kind) (fst item) (snd item))"

definition getFromStore :: "MemoryStoreContext \<Rightarrow> FeatureKind \<Rightarrow> string \<Rightarrow> LDJSON option" where
  "getFromStore ctx kind key = hash_find (ms_table ctx kind) key"

text \<open>The key of an item is asserted not to be \<open>NULL\<close>.\<close>

definition makeMemoryItem :: "string option \<Rightarrow> LDJSON \<Rightarrow> (string \<times> LDJSON) exec" where
  "makeMemoryItem key value =
     (case key of None \<Rightarrow> Inl AssertFailed | Some k \<Rightarrow> Inr (k, value))"

section \<open>Operations\<close>

fun init_items :: "MemoryStoreContext \<Rightarrow> FeatureKind \<Rightarrow> LDJSON list \<Rightarrow> MemoryStoreContext exec" where
  "init_items ctx kind [] = Inr ctx"
| "init_items ctx kind (item # items) =
     exec_bind (LDi_getDataKey item) (\<lambda>key.
     exec_bind (makeMemoryItem key item) (\<lambda>newItem.
       init_items (addToStore ctx kind newItem) kind items))"

fun init_kinds :: "MemoryStoreContext \<Rightarrow> (string option \<times> LDJSON) list \<Rightarrow> MemoryStoreContext exec" where
  "init_kinds ctx [] = Inr ctx"
| "init_kinds ctx ((key, items) # rest) =
     exec_bind (deref key) (\<lambda>kind.
       case stringToFeatureKind kind of
         None \<Rightarrow> init_kinds ctx rest
       | Some featureKind \<Rightarrow>
           exec_bind (init_items ctx featureKind (iter_values (Some items))) (\<lambda>ctx.
             init_kinds ctx rest))"

definition storeInit :: "MemoryStoreContext \<Rightarrow> LDJSON \<Rightarrow> (bool \<times> MemoryStoreContext) exec" where
  "storeInit ctx newData =
     exec_bind (init_kinds (clearStore ctx) (LDGetIter (Some newData))) (\<lambda>ctx.
       Inr (True, ctx\<lparr>ms_initialized := True\<rparr>))"

definition storeGet ::
  "MemoryStoreContext \<Rightarrow> FeatureKind \<Rightarrow> string \<Rightarrow> (bool \<times> LDJSON option \<times> MemoryStoreContext) exec" where
  "storeGet ctx kind key = (case getFromStore ctx kind key of
       None \<Rightarrow> Inr (True, None, ctx)
     | Some value \<Rightarrow> if \<not> LDi_isDataDeleted value then Inr (True, Some value, ctx)
                     else Inr (True, None, ctx))"

text \<open>
  The loop of \<open>storeAll\<close> over the table. \<open>LDObjectSetReference\<close> appends a reference
  without looking for an equal key.
\<close>

fun all_items :: "(string \<times> LDJSON) list \<Rightarrow> (string \<times> LDJSON) list \<Rightarrow> (string \<times> LDJSON) list" where
  "all_items acc [] = acc"
| "all_items acc ((key, value) # t) =
     all_items (if \<not> LDi_isDataDeleted value then acc @ [(key, value)] else acc) t"

definition storeAll ::
  "MemoryStoreContext \<Rightarrow> FeatureKind \<Rightarrow> (bool \<times> LDJSON option \<times> MemoryStoreContext) exec" where
  "storeAll ctx kind = Inr (True, Some (JObject (all_items [] (ms_table ctx kind))), ctx)"

definition storeUpsert ::
  "MemoryStoreContext \<Rightarrow> FeatureKind \<Rightarrow> string \<Rightarrow> LDJSON \<Rightarrow> (bool \<times> MemoryStoreContext) exec" where
  "storeUpsert ctx kind key item =
     (if \<not> LDi_validateData item then Inr (False, ctx)
      else
        (let add = (\<lambda>ctx. exec_bind (LDi_getDataKey item) (\<lambda>k.
               exec_bind (makeMemoryItem k item) (\<lambda>newItem. Inr (True, addToStore ctx kind newItem))))
         in case getFromStore ctx kind key of
              None \<Rightarrow> add ctx
            | Some existing \<Rightarrow>
                exec_bind (LDi_getDataVersion item) (\<lambda>itemVersion.
                exec_bind (LDi_getDataVersion existing) (\<lambda>existingVersion.
                  if existingVersion \<ge> itemVersion then Inr (True, ctx)
                  else add (removeAndDeleteItem ctx kind key)))))"

definition storeInitialized :: "MemoryStoreContext \<Rightarrow> bool \<times> MemoryStoreContext" where
  "storeInitialized ctx = (ms_initialized ctx, ctx)"

definition memory_context :: MemoryStoreContext where
  "memory_context = \<lparr>ms_initialized = False, ms_features = [], ms_segments = []\<rparr>"

definition LDStoreMemoryNew :: "MemoryStoreContext LDInternalStoreInterface" where
  "LDStoreMemoryNew = \<lparr>si_context = memory_context, si_init = storeInit, si_get = storeGet,
     si_all = storeAll, si_upsert = storeUpsert, si_initialized = storeInitialized\<rparr>"

section \<open>Invariant and contract\<close>

definition table_inv :: "(string \<times> LDJSON) list \<Rightarrow> bool" where
  "table_inv t \<longleftrightarrow> distinct (map fst t) \<and> (\<forall>(k, item)\<in>set t. valid_item item \<and> item_key item = k)"

definition ms_inv :: "MemoryStoreContext \<Rightarrow> bool" where
  "ms_inv ctx \<longleftrightarrow> table_inv (ms_features ctx) \<and> table_inv (ms_segments ctx)"

lemma ms_inv_table: "ms_inv ctx \<longleftrightarrow> (\<forall>kind. table_inv (ms_table ctx kind))"
  by (metis (full_types) FeatureKind.exhaust ms_inv_def ms_table.simps)

lemma ms_table_set [simp]:
  "ms_table (ms_set_table ctx kind t) kind' = (if kind' = kind then t else ms_table ctx kind')"
  by (cases kind; cases kind') auto

lemma table_inv_valid: "table_inv t \<Longrightarrow> hash_find t k = Some item \<Longrightarrow> valid_item item \<and> item_key item = k"
  using hash_find_set [of t k item] by (auto simp: table_inv_def)

lemma table_inv_replace:
  assumes "table_inv t" and "valid_item item" and "item_key item = k"
  shows "table_inv (hash_add (hash_del t k) k item)"
  using assms keys_hash_del [of t k] set_hash_del_subset [of t k]
  by (fastforce simp: table_inv_def hash_add_def)

lemma table_inv_add:
  assumes "table_inv t" and "valid_item item" and "item_key item = k" and "hash_find t k = None"
  shows "table_inv (hash_add t k item)"
  using assms by (auto simp: table_inv_def hash_add_def hash_find_None)

definition ms_view :: "MemoryStoreContext \<Rightarrow> store_view" where
  "ms_view ctx kind k = getFromStore ctx kind k"

lemma storeUpsert_newer:
  assumes "ms_inv ctx" and "valid_item item"
  shows "\<exists>ctx'. storeUpsert ctx kind (item_key item) item = Inr (True, ctx') \<and> ms_inv ctx' \<and>
     ms_view ctx' = newer_wins (ms_view ctx) kind item"
proof -
  let ?k = "item_key item" and ?t = "ms_table ctx kind"
  have inv: "\<And>kind. table_inv (ms_table ctx kind)" using assms(1) by (simp add: ms_inv_table)
  have item: "LDi_validateData item" "LDi_getDataKey item = Inr (Some ?k)"
    "LDi_getDataVersion item = Inr (item_version item)"
    using assms(2) by (auto simp: valid_item_def valid_item_key)
  show ?thesis
  proof (cases "hash_find ?t ?k")
    case None
    then have "storeUpsert ctx kind ?k item = Inr (True, addToStore ctx kind (?k, item))"
      using item by (simp add: storeUpsert_def getFromStore_def makeMemoryItem_def)
    moreover have "ms_inv (addToStore ctx kind (?k, item))"
      using inv table_inv_add [OF inv assms(2) refl None] by (simp add: ms_inv_table addToStore_def)
    moreover have "ms_view (addToStore ctx kind (?k, item)) = newer_wins (ms_view ctx) kind item"
      using None by (auto simp: fun_eq_iff ms_view_def getFromStore_def addToStore_def newer_wins_def
          view_put_def hash_find_add)
    ultimately show ?thesis by blast
  next
    case (Some old)
    then have old: "LDi_getDataVersion old = Inr (item_version old)"
      using table_inv_valid [OF inv Some] by (simp add: valid_item_def)
    show ?thesis
    proof (cases "item_version item \<le> item_version old")
      case True
      then show ?thesis
        using assms(1) item old Some
        by (simp add: storeUpsert_def getFromStore_def newer_wins_def ms_view_def)
    next
      case False
      let ?ctx = "addToStore (removeAndDeleteItem ctx kind ?k) kind (?k, item)"
      have t: "ms_table ?ctx kind' = (if kind' = kind then hash_add (hash_del ?t ?k) ?k item else ms_table ctx kind')" for kind'
        by (simp add: addToStore_def removeAndDeleteItem_def)
      have "storeUpsert ctx kind ?k item = Inr (True, ?ctx)"
        using item old Some False by (simp add: storeUpsert_def getFromStore_def makeMemoryItem_def)
      moreover have "ms_inv ?ctx"
        using inv table_inv_replace [OF inv assms(2) refl] t by (simp add: ms_inv_table)
      moreover have "ms_view ?ctx = newer_wins (ms_view ctx) kind item"
        using Some False inv [of kind]
        by (auto simp: fun_eq_iff ms_view_def getFromStore_def t newer_wins_def view_put_def
            hash_find_add hash_find_del table_inv_def)
      ultimately show ?thesis by blast
    qed
  qed
qed

interpretation ms: feature_store ms_inv ms_view storeGet storeUpsert
proof unfold_locales
  fix ctx kind k item
  show "storeGet ctx kind k = Inr (True, visible (ms_view ctx kind k), ctx)"
    by (simp add: storeGet_def ms_view_def visible_def split: option.splits)
  show "\<not> LDi_validateData item \<Longrightarrow> storeUpsert ctx kind k item = Inr (False, ctx)"
    by (simp add: storeUpsert_def)
qed (rule storeUpsert_newer)

lemma memory_context_inv: "ms_inv memory_context"
  by (simp add: ms_inv_def table_inv_def memory_context_def)

section \<open>Initialisation and listing\<close>

lemma all_items_filter: "all_items acc t = acc @ filter (\<lambda>e. \<not> LDi_isDataDeleted (snd e)) t"
  by (induction acc t rule: all_items.induct) auto

lemma map_of_filter:
  "distinct (map fst t) \<Longrightarrow> map_of (filter (\<lambda>e. P (snd e)) t) k =
     (case map_of t k of None \<Rightarrow> None | Some v \<Rightarrow> if P v then Some v else None)"
proof (induction t)
  case (Cons e t)
  have "map_of t (fst e) = None" using Cons.prems by (simp add: map_of_eq_None_iff)
  with Cons show ?case by (cases "k = fst e") (auto split: option.splits)
qed simp

lemma listing_visible:
  assumes "ms_inv ctx"
  shows "map_of (filter (\<lambda>e. \<not> LDi_isDataDeleted (snd e)) (ms_table ctx kind)) k = visible (ms_view ctx kind k)"
proof -
  have "distinct (map fst (ms_table ctx kind))" using assms by (simp add: ms_inv_table table_inv_def)
  then show ?thesis
    using map_of_filter [of "ms_table ctx kind" "\<lambda>v. \<not> LDi_isDataDeleted v"]
    by (auto simp: hash_find_map_of visible_def ms_view_def getFromStore_def split: option.split)
qed

text \<open>The listing of a kind has exactly the items that a read by key returns: no deleted
  item, and every other item under its key.\<close>

theorem storeAll_agrees_with_storeGet:
  assumes "ms_inv ctx"
  shows "\<exists>items. storeAll ctx kind = Inr (True, Some items, ctx) \<and>
     (\<forall>k. storeGet ctx kind k = Inr (True, obj_lookup items k, ctx))"
  using ms.get_visible [OF assms] listing_visible [OF assms] by (simp add: storeAll_def all_items_filter)

definition sample_item :: "string \<Rightarrow> uint \<Rightarrow> LDJSON" where
  "sample_item key version = JObject [(''key'', JText key), (''version'', JNumber (uint_to_dbl version))]"

lemma sample_item_valid [simp]:
  "valid_item (sample_item key version)" "item_key (sample_item key version) = key"
  "item_version (sample_item key version) = version" "\<not> LDi_isDataDeleted (sample_item key version)"
  by (simp_all add: sample_item_def valid_item_def LDi_validateData_def LDi_getDataVersion_def
      item_version_def item_key_def LDi_getDataKey_def LDi_isDataDeleted_def)

definition sample_context :: MemoryStoreContext where
  "sample_context = \<lparr>ms_initialized = True, ms_features = [(''a'', sample_item ''a'' 1)], ms_segments = []\<rparr>"

lemma sample_context_inv: "ms_inv sample_context"
  by (simp add: ms_inv_def table_inv_def sample_context_def)

theorem storeAll_agrees_with_storeGet_witness:
  "\<exists>items. storeAll sample_context LD_FLAG = Inr (True, Some items, sample_context) \<and>
     (\<forall>k. storeGet sample_context LD_FLAG k = Inr (True, obj_lookup items k, sample_context))"
  by (rule storeAll_agrees_with_storeGet [OF sample_context_inv])

text \<open>The items of a kind in the data a store is initialised with.\<close>

definition keyed_items :: "LDJSON option \<Rightarrow> (string \<times> LDJSON) list" where
  "keyed_items items = map (\<lambda>i. (item_key i, i)) (iter_values items)"

definition init_data_ok :: "LDJSON \<Rightarrow> bool" where
  "init_data_ok data \<longleftrightarrow> obj_inv data \<and> (\<forall>kind.
     list_all valid_item (iter_values (obj_lookup data (featureKindToString kind))) \<and>
     distinct (map fst (keyed_items (obj_lookup data (featureKindToString kind)))))"

lemma init_items_table:
  "list_all valid_item items \<Longrightarrow> \<exists>ctx'. init_items ctx kind items = Inr ctx' \<and>
     ms_initialized ctx' = ms_initialized ctx \<and>
     (\<forall>kind'. ms_table ctx' kind' = ms_table ctx kind' @
        (if kind' = kind then map (\<lambda>i. (item_key i, i)) items else []))"
proof (induction items arbitrary: ctx)
  case (Cons i items)
  let ?c = "addToStore ctx kind (item_key i, i)"
  obtain c' where c': "init_items ?c kind items = Inr c'" "ms_initialized c' = ms_initialized ?c"
    "\<forall>kind'. ms_table c' kind' = ms_table ?c kind' @ (if kind' = kind then map (\<lambda>i. (item_key i, i)) items else [])"
    using Cons by auto
  have "init_items ctx kind (i # items) = Inr c'"
    using c'(1) Cons.prems by (simp add: valid_item_key makeMemoryItem_def)
  moreover have "ms_initialized ?c = ms_initialized ctx" by (cases kind) (simp_all add: addToStore_def)
  ultimately show ?case using c'(2,3) by (auto simp: addToStore_def hash_add_def)
qed simp

lemma stringToFeatureKind_iff: "stringToFeatureKind k = Some kind \<longleftrightarrow> k = featureKindToString kind"
  by (cases kind) (auto simp: stringToFeatureKind_def)

lemma init_kinds_table:
  assumes "\<forall>(k, items)\<in>set kvs. \<forall>kind. k = featureKindToString kind \<longrightarrow> list_all valid_item (iter_values (Some items))"
    and "distinct (map fst kvs)"
  shows "\<exists>ctx'. init_kinds ctx (map (\<lambda>(k, v). (Some k, v)) kvs) = Inr ctx' \<and>
     ms_initialized ctx' = ms_initialized ctx \<and>
     (\<forall>kind. ms_table ctx' kind = ms_table ctx kind @ keyed_items (map_of kvs (featureKindToString kind)))"
  using assms
proof (induction kvs arbitrary: ctx)
  case Nil
  then show ?case by (simp add: keyed_items_def)
next
  case (Cons x kvs)
  obtain k items where x: "x = (k, items)" by (cases x)
  have new: "map_of kvs k = None" using Cons.prems(2) by (simp add: x map_of_eq_None_iff)
  have IH: "\<exists>c'. init_kinds c (map (\<lambda>(k, v). (Some k, v)) kvs) = Inr c' \<and> ms_initialized c' = ms_initialized c \<and>
     (\<forall>kind. ms_table c' kind = ms_table c kind @ keyed_items (map_of kvs (featureKindToString kind)))" for c
    using Cons.prems by (intro Cons.IH) auto
  show ?case
  proof (cases "stringToFeatureKind k")
    case None
    then have "featureKindToString kind \<noteq> k" for kind by (auto simp: featureKind_roundtrip)
    then show ?thesis using IH [of ctx] None by (auto simp: x)
  next
    case (Some fk)
    then have k: "k = featureKindToString fk" by (simp add: stringToFeatureKind_iff)
    then have "list_all valid_item (iter_values (Some items))" using Cons.prems(1) by (auto simp: x)
    then obtain c1 where c1: "init_items ctx fk (iter_values (Some items)) = Inr c1"
      "ms_initialized c1 = ms_initialized ctx"
      "\<forall>kind'. ms_table c1 kind' = ms_table ctx kind' @
         (if kind' = fk then map (\<lambda>i. (item_key i, i)) (iter_values (Some items)) else [])"
      using init_items_table by blast
    obtain c2 where c2: "init_kinds c1 (map (\<lambda>(k, v). (Some k, v)) kvs) = Inr c2"
      "ms_initialized c2 = ms_initialized c1"
      "\<forall>kind. ms_table c2 kind = ms_table c1 kind @ keyed_items (map_of kvs (featureKindToString kind))"
      using IH by blast
    have inj: "featureKindToString kind = featureKindToString fk \<longleftrightarrow> kind = fk" for kind
      by (metis featureKind_roundtrip option.inject)
    have "ms_table c2 kind = ms_table ctx kind @ keyed_items (map_of (x # kvs) (featureKindToString kind))" for kind
      using c1(3) c2(3) new k inj [of kind] by (auto simp: x keyed_items_def)
    moreover have "init_kinds ctx (map (\<lambda>(k, v). (Some k, v)) (x # kvs)) = Inr c2"
      using Some c1(1) c2(1) by (simp add: x)
    ultimately show ?thesis using c1(2) c2(2) by auto
  qed
qed

lemma storeInit_ok:
  assumes "init_data_ok data"
  shows "\<exists>ctx'. storeInit ctx data = Inr (True, ctx') \<and> ms_inv ctx' \<and> ms_initialized ctx' \<and>
     (\<forall>kind k. ms_view ctx' kind k = map_of (keyed_items (obj_lookup data (featureKindToString kind))) k)"
proof -
  obtain kvs where data: "data = JObject kvs" "distinct (map fst kvs)"
    using assms by (auto simp: init_data_ok_def obj_inv_def)
  have "\<forall>(k, items)\<in>set kvs. \<forall>kind. k = featureKindToString kind \<longrightarrow> list_all valid_item (iter_values (Some items))"
  proof (intro ballI, clarify)
    fix items kind
    assume "(featureKindToString kind, items) \<in> set kvs"
    then have "obj_lookup data (featureKindToString kind) = Some items" using data by simp
    then show "list_all valid_item (iter_values (Some items))" using assms unfolding init_data_ok_def by metis
  qed
  then obtain c where c: "init_kinds (clearStore ctx) (map (\<lambda>(k, v). (Some k, v)) kvs) = Inr c"
    "\<forall>kind. ms_table c kind = ms_table (clearStore ctx) kind @ keyed_items (map_of kvs (featureKindToString kind))"
    using init_kinds_table data(2) by blast
  have clear: "ms_table (clearStore ctx) kind = []" for kind by (cases kind) (simp_all add: clearStore_def)
  let ?c = "c\<lparr>ms_initialized := True\<rparr>"
  have t: "ms_table ?c kind = keyed_items (obj_lookup data (featureKindToString kind))" for kind
    using spec [OF c(2), of kind] clear [of kind] by (cases kind) (simp_all add: data(1))
  have "table_inv (keyed_items (obj_lookup data (featureKindToString kind)))" for kind
    using assms by (auto simp: init_data_ok_def table_inv_def keyed_items_def list_all_iff)
  then have "ms_inv ?c" by (simp add: ms_inv_table t)
  moreover have "ms_view ?c kind k = map_of (keyed_items (obj_lookup data (featureKindToString kind))) k" for kind k
    using assms by (simp add: ms_view_def getFromStore_def t hash_find_map_of init_data_ok_def)
  ultimately show ?thesis using c(1) by (simp add: storeInit_def data(1))
qed

text \<open>Initialising the memory store replaces everything it held: afterwards it is
  initialised, its invariant holds, and a read by kind and key returns the item of the new
  data with that key, unless it is a deletion marker, and nothing else.\<close>

theorem storeInit_replaces_contents:
  assumes "init_data_ok data"
  shows "\<exists>ctx'. storeInit ctx data = Inr (True, ctx') \<and> ms_inv ctx' \<and> storeInitialized ctx' = (True, ctx') \<and>
     (\<forall>kind k. storeGet ctx' kind k =
        Inr (True, visible (map_of (keyed_items (obj_lookup data (featureKindToString kind))) k), ctx'))"
proof -
  obtain ctx' where "storeInit ctx data = Inr (True, ctx')" "ms_inv ctx'" "ms_initialized ctx'"
    "\<forall>kind k. ms_view ctx' kind k = map_of (keyed_items (obj_lookup data (featureKindToString kind))) k"
    using storeInit_ok [OF assms] by blast
  then show ?thesis using ms.get_visible [of ctx'] by (auto simp: storeInitialized_def)
qed

definition sample_data :: LDJSON where
  "sample_data = JObject [(''features'', JObject [(''a'', sample_item ''a'' 1), (''b'', sample_item ''b'' 2)])]"

theorem storeInit_replaces_contents_witness:
  "\<exists>ctx'. storeInit sample_context sample_data = Inr (True, ctx') \<and> ms_inv ctx' \<and>
     storeInitialized ctx' = (True, ctx') \<and>
     (\<forall>kind k. storeGet ctx' kind k =
        Inr (True, visible (map_of (keyed_items (obj_lookup sample_data (featureKindToString kind))) k), ctx'))"
proof (rule storeInit_replaces_contents)
  have "list_all valid_item (iter_values (obj_lookup sample_data (featureKindToString kind))) \<and>
     distinct (map fst (keyed_items (obj_lookup sample_data (featureKindToString kind))))" for kind
    by (cases kind) (simp_all add: sample_data_def keyed_items_def)
  then show "init_data_ok sample_data" by (simp add: init_data_ok_def) (simp add: sample_data_def obj_inv_def)
qed

end
