(* ===== verification/Store.thy ===== *)
theory Store
  imports MemoryStore
begin

text \<open>
  The store handle the client and the data sources use, \<open>src/store.c\<close>: every operation
  goes through the table of the configured implementation. Its contract is proved once for
  any implementation that meets \<open>feature_store\<close> and then read off for the memory store.
\<close>

record 's LDStore =
  implementation :: "'s LDInternalStoreInterface"

definition store_with :: "'s LDStore \<Rightarrow> 's \<Rightarrow> 's LDStore" where
  "store_with store ctx = store\<lparr>implementation := (implementation store)\<lparr>si_context := ctx\<rparr>\<rparr>"

definition LDStoreInit :: "'s LDStore \<Rightarrow> LDJSON \<Rightarrow> (bool \<times> 's LDStore) exec" where
  "LDStoreInit store sets =
     exec_bind (si_init (implementation store) (si_context (implementation store)) sets) (\<lambda>(ok, ctx).
       Inr (ok, store_with store ctx))"

definition LDStoreGet ::
  "'s LDStore \<Rightarrow> FeatureKind \<Rightarrow> string \<Rightarrow> (bool \<times> LDJSON option \<times> 's LDStore) exec" where
  "LDStoreGet store kind key =
     exec_bind (si_get (implementation store) (si_context (implementation store)) kind key)
       (\<lambda>(ok, r, ctx). Inr (ok, r, store_with store ctx))"

definition LDStoreAll ::
  "'s LDStore \<Rightarrow> FeatureKind \<Rightarrow> (bool \<times> LDJSON option \<times> 's LDStore) exec" where
  "LDStoreAll store kind =
     exec_bind (si_all (implementation store) (si_context (implementation store)) kind)
       (\<lambda>(ok, r, ctx). Inr (ok, r, store_with store ctx))"

definition removal_item :: "string \<Rightarrow> uint \<Rightarrow> LDJSON" where
  "removal_item key version =
     (let item = JObject [];
          item = set_key item ''version'' (JNumber (uint_to_dbl version));
          item = set_key item ''key'' (JText key)
      in set_key item ''deleted'' (JBool True))"

definition LDStoreRemove ::
  "'s LDStore \<Rightarrow> FeatureKind \<Rightarrow> string \<Rightarrow> uint \<Rightarrow> (bool \<times> 's LDStore) exec" where
  "LDStoreRemove store kind key version =
     exec_bind (si_upsert (implementation store) (si_context (implementation store)) kind key
         (removal_item key version))
       (\<lambda>(ok, ctx). Inr (ok, store_with store ctx))"

definition LDStoreUpsert ::
  "'s LDStore \<Rightarrow> FeatureKind \<Rightarrow> LDJSON \<Rightarrow> (bool \<times> 's LDStore) exec" where
  "LDStoreUpsert store kind feature =
     (if LDi_validateData feature
      then exec_bind (LDi_getDataKey feature) (\<lambda>key.
           exec_bind (deref key) (\<lambda>key.
           exec_bind (si_upsert (implementation store) (si_context (implementation store)) kind key feature)
             (\<lambda>(ok, ctx). Inr (ok, store_with store ctx))))
      else Inr (False, store))"

definition LDStoreInitialized :: "'s LDStore \<Rightarrow> bool \<times> 's LDStore" where
  "LDStoreInitialized store =
     (let (r, ctx) = si_initialized (implementation store) (si_context (implementation store))
      in (r, store_with store ctx))"

definition LDStoreInitEmpty :: "'s LDStore \<Rightarrow> (bool \<times> 's LDStore) exec" where
  "LDStoreInitEmpty store = LDStoreInit store (JObject [])"

section \<open>Sequences of updates\<close>

datatype store_update = Upsert FeatureKind LDJSON | Remove FeatureKind string uint

fun update_kind :: "store_update \<Rightarrow> FeatureKind" where
  "update_kind (Upsert kind item) = kind"
| "update_kind (Remove kind key version) = kind"

fun update_item :: "store_update \<Rightarrow> LDJSON" where
  "update_item (Upsert kind item) = item"
| "update_item (Remove kind key version) = removal_item key version"

fun apply_update :: "'s LDStore \<Rightarrow> store_update \<Rightarrow> (bool \<times> 's LDStore) exec" where
  "apply_update store (Upsert kind item) = LDStoreUpsert store kind item"
| "apply_update store (Remove kind key version) = LDStoreRemove store kind key version"

fun apply_updates :: "'s LDStore \<Rightarrow> store_update list \<Rightarrow> 's LDStore exec" where
  "apply_updates store [] = Inr store"
| "apply_updates store (u # us) =
     exec_bind (apply_update store u) (\<lambda>r. apply_updates (snd r) us)"

text \<open>The items of a batch of updates for a kind and a key.\<close>

definition update_view :: "store_update list \<Rightarrow> (FeatureKind \<times> LDJSON) list" where
  "update_view us = map (\<lambda>u. (update_kind u, update_item u)) us"

lemma removal_item_eq:
  "removal_item key version =
     JObject [(''version'', JNumber (uint_to_dbl version)), (''key'', JText key), (''deleted'', JBool True)]"
  by (simp add: removal_item_def set_key_JObject Let_def)

lemma removal_item_valid [simp]:
  "valid_item (removal_item key version)"
  "item_key (removal_item key version) = key"
  "item_version (removal_item key version) = version"
  "LDi_isDataDeleted (removal_item key version)"
  by (simp_all add: removal_item_eq valid_item_def LDi_validateData_def LDi_getDataVersion_def
      item_version_def item_key_def LDi_getDataKey_def LDi_isDataDeleted_def)

lemma store_with_context [simp]:
  "si_context (implementation (store_with store ctx)) = ctx"
  "si_get (implementation (store_with store ctx)) = si_get (implementation store)"
  "si_upsert (implementation (store_with store ctx)) = si_upsert (implementation store)"
  "store_with (store_with store ctx) ctx' = store_with store ctx'"
  "store_with store (si_context (implementation store)) = store"
  by (simp_all add: store_with_def)

lemma run_view_keeps:
  assumes "w kind k = Some item"
    and "\<forall>u\<in>set us. update_kind u = kind \<and> item_key (update_item u) = k \<longrightarrow>
       item_version (update_item u) \<le> item_version item"
  shows "run_view w (update_view us) kind k = Some item"
  using assms
proof (induction us arbitrary: w)
  case (Cons u us)
  have "newer_wins w (update_kind u) (update_item u) kind k = Some item"
  proof (cases "kind = update_kind u \<and> k = item_key (update_item u)")
    case True
    then show ?thesis using Cons.prems newer_wins_same [of w "update_kind u" "update_item u"] by simp
  next
    case False
    then show ?thesis using Cons.prems(1) newer_wins_other [of kind "update_kind u" k "update_item u" w] by auto
  qed
  then show ?case using Cons by (simp add: update_view_def)
qed (auto simp: update_view_def)

section \<open>Clients of a feature store\<close>

locale store_client = feature_store invar view "si_get (implementation store)" "si_upsert (implementation store)"
  for store :: "'s LDStore" and invar :: "'s \<Rightarrow> bool" and view :: "'s \<Rightarrow> store_view"
begin

lemma update_newer:
  assumes "invar ctx" and "valid_item (update_item u)"
  shows "\<exists>ctx'. apply_update (store_with store ctx) u = Inr (True, store_with store ctx') \<and>
     invar ctx' \<and> view ctx' = newer_wins (view ctx) (update_kind u) (update_item u)"
proof (cases u)
  case (Upsert kind item)
  with assms show ?thesis
    using upsert_newer [of ctx item kind]
    by (auto simp: LDStoreUpsert_def valid_item_def validateData_key)
next
  case (Remove kind key version)
  with assms show ?thesis
    using upsert_newer [of ctx "removal_item key version" kind] by (auto simp: LDStoreRemove_def)
qed

lemma updates_view:
  assumes "invar ctx" and "list_all (\<lambda>u. valid_item (update_item u)) us"
  shows "\<exists>ctx'. apply_updates (store_with store ctx) us = Inr (store_with store ctx') \<and>
     invar ctx' \<and> view ctx' = run_view (view ctx) (update_view us)"
  using assms
proof (induction us arbitrary: ctx)
  case (Cons u us)
  then obtain c1 where c1: "apply_update (store_with store ctx) u = Inr (True, store_with store c1)"
    "invar c1" "view c1 = newer_wins (view ctx) (update_kind u) (update_item u)"
    using update_newer [of ctx u] by auto
  moreover obtain c2 where "apply_updates (store_with store c1) us = Inr (store_with store c2)"
    "invar c2" "view c2 = run_view (view c1) (update_view us)"
    using Cons.IH [OF c1(2)] Cons.prems(2) by auto
  ultimately show ?case by (auto simp: update_view_def)
qed (auto simp: update_view_def)

lemma get_view:
  "invar ctx \<Longrightarrow> LDStoreGet (store_with store ctx) kind k =
     Inr (True, visible (view ctx kind k), store_with store ctx)"
  by (simp add: LDStoreGet_def get_visible)

text \<open>A reader sees, after any updates, the newest item received for a key, if it is not a deletion.\<close>

lemma updates_newest:
  assumes "invar ctx" and "list_all (\<lambda>u. valid_item (update_item u)) us"
  shows "\<exists>store' w. apply_updates (store_with store ctx) us = Inr store' \<and>
     LDStoreGet store' kind k = Inr (True, visible w, store') \<and>
     (case w of None \<Rightarrow> candidates (view ctx) (set (update_view us)) kind k = {}
      | Some i \<Rightarrow> i \<in> candidates (view ctx) (set (update_view us)) kind k \<and>
          (\<forall>c\<in>candidates (view ctx) (set (update_view us)) kind k. item_version c \<le> item_version i))"
proof -
  obtain ctx' where c: "apply_updates (store_with store ctx) us = Inr (store_with store ctx')"
    "invar ctx'" "view ctx' = run_view (view ctx) (update_view us)"
    using updates_view [OF assms] by blast
  let ?w = "run_view (view ctx) (update_view us) kind k"
  have "case ?w of None \<Rightarrow> candidates (view ctx) (set (update_view us)) kind k = {}
      | Some i \<Rightarrow> i \<in> candidates (view ctx) (set (update_view us)) kind k \<and>
          (\<forall>c\<in>candidates (view ctx) (set (update_view us)) kind k. item_version c \<le> item_version i)"
    using run_view_newest [of "view ctx" "update_view us" kind k] by (auto split: option.split)
  then show ?thesis using c get_view [of ctx' kind k] by auto
qed

lemma updates_order:
  assumes "invar ctx" and "list_all (\<lambda>u. valid_item (update_item u)) us"
    and "versions_unique (view ctx) (update_view us)" and "mset us' = mset us"
  shows "\<exists>s1 s2. apply_updates (store_with store ctx) us = Inr s1 \<and>
     apply_updates (store_with store ctx) us' = Inr s2 \<and>
     (\<forall>kind k. \<exists>r. LDStoreGet s1 kind k = Inr (True, r, s1) \<and> LDStoreGet s2 kind k = Inr (True, r, s2))"
proof -
  have set: "set us' = set us" using assms(4) by (metis set_mset_mset)
  then have us': "list_all (\<lambda>u. valid_item (update_item u)) us'" using assms(2) by (simp add: list_all_iff)
  obtain c1 where 1: "apply_updates (store_with store ctx) us = Inr (store_with store c1)"
    "invar c1" "view c1 = run_view (view ctx) (update_view us)"
    using updates_view [OF assms(1,2)] by blast
  obtain c2 where 2: "apply_updates (store_with store ctx) us' = Inr (store_with store c2)"
    "invar c2" "view c2 = run_view (view ctx) (update_view us')"
    using updates_view [OF assms(1) us'] by blast
  have "view c2 = view c1"
    using 1(3) 2(3) run_view_perm [OF assms(3), of "update_view us'"] set by (simp add: update_view_def)
  then have "\<forall>kind k. LDStoreGet (store_with store c1) kind k = Inr (True, visible (view c1 kind k), store_with store c1) \<and>
      LDStoreGet (store_with store c2) kind k = Inr (True, visible (view c1 kind k), store_with store c2)"
    using 1(2) 2(2) by (simp add: get_view)
  then show ?thesis using 1(1) 2(1) by blast
qed

text \<open>Once removed at a version, a key stays hidden while only versions up to it arrive.\<close>

lemma removed_stays:
  assumes "invar ctx" and "list_all (\<lambda>u. valid_item (update_item u)) us"
    and "\<forall>old. view ctx kind k = Some old \<longrightarrow> item_version old < v"
    and "\<forall>u\<in>set us. update_kind u = kind \<and> item_key (update_item u) = k \<longrightarrow> item_version (update_item u) \<le> v"
  shows "\<exists>store'. apply_updates (store_with store ctx) (Remove kind k v # us) = Inr store' \<and>
     LDStoreGet store' kind k = Inr (True, None, store')"
proof -
  let ?us = "Remove kind k v # us"
  have "list_all (\<lambda>u. valid_item (update_item u)) ?us" using assms(2) by simp
  then obtain c where c: "apply_updates (store_with store ctx) ?us = Inr (store_with store c)"
    "invar c" "view c = run_view (view ctx) (update_view ?us)"
    using updates_view [OF assms(1)] by blast
  define w where "w = newer_wins (view ctx) kind (removal_item k v)"
  have w: "w kind k = Some (removal_item k v)"
    using assms(3) newer_wins_same [of "view ctx" kind "removal_item k v"]
    by (auto simp: w_def split: option.splits)
  have "run_view w (update_view us) kind k = Some (removal_item k v)"
    using w assms(4) by (intro run_view_keeps) auto
  then have "visible (view c kind k) = None"
    using c(3) by (simp add: update_view_def w_def visible_def)
  then show ?thesis using c(1,2) get_view [of c kind k] by auto
qed

end

interpretation mem: store_client "\<lparr>implementation = LDStoreMemoryNew\<rparr>" ms_inv ms_view
proof -
  have "si_get (implementation \<lparr>implementation = LDStoreMemoryNew\<rparr>) = storeGet"
    "si_upsert (implementation \<lparr>implementation = LDStoreMemoryNew\<rparr>) = storeUpsert"
    by (simp_all add: LDStoreMemoryNew_def)
  then show "store_client \<lparr>implementation = LDStoreMemoryNew\<rparr> ms_inv ms_view"
    using ms.feature_store_axioms by (simp add: store_client_def)
qed

section \<open>Guarantees of the memory store behind the handle\<close>

definition memory_handle :: "MemoryStoreContext \<Rightarrow> MemoryStoreContext LDStore" where
  "memory_handle ctx = store_with \<lparr>implementation = LDStoreMemoryNew\<rparr> ctx"

definition sample_updates :: "store_update list" where
  "sample_updates = [Upsert LD_FLAG (sample_item ''a'' 3), Remove LD_FLAG ''a'' 5, Upsert LD_FLAG (sample_item ''a'' 4)]"

lemma sample_updates_valid: "list_all (\<lambda>u. valid_item (update_item u)) sample_updates"
  by (simp add: sample_updates_def)

text \<open>C4: whatever valid upserts and removals a data source delivers, in whatever order, all of
  them are applied without a fault, and a read then returns the newest version among the item
  the store held and the items delivered for that key, or nothing if that newest item is a
  deletion or if there is none.\<close>

theorem updates_keep_newest:
  assumes "ms_inv ctx" and "list_all (\<lambda>u. valid_item (update_item u)) us"
  shows "\<exists>store' w. apply_updates (memory_handle ctx) us = Inr store' \<and>
     LDStoreGet store' kind k = Inr (True, visible w, store') \<and>
     (case w of None \<Rightarrow> candidates (ms_view ctx) (set (update_view us)) kind k = {}
      | Some i \<Rightarrow> i \<in> candidates (ms_view ctx) (set (update_view us)) kind k \<and>
          (\<forall>c\<in>candidates (ms_view ctx) (set (update_view us)) kind k. item_version c \<le> item_version i))"
  unfolding memory_handle_def by (rule mem.updates_newest [OF assms])

theorem updates_keep_newest_witness:
  "\<exists>store' w. apply_updates (memory_handle sample_context) sample_updates = Inr store' \<and>
     LDStoreGet store' LD_FLAG ''a'' = Inr (True, visible w, store') \<and>
     (case w of None \<Rightarrow> candidates (ms_view sample_context) (set (update_view sample_updates)) LD_FLAG ''a'' = {}
      | Some i \<Rightarrow> i \<in> candidates (ms_view sample_context) (set (update_view sample_updates)) LD_FLAG ''a'' \<and>
          (\<forall>c\<in>candidates (ms_view sample_context) (set (update_view sample_updates)) LD_FLAG ''a''.
             item_version c \<le> item_version i))"
  by (rule updates_keep_newest [OF sample_context_inv sample_updates_valid])

text \<open>The order of delivery does not matter: when no two different items for a key have the
  same version, every permutation of the updates leaves a store whose reads agree on every
  kind and key.\<close>

theorem updates_commute:
  assumes "ms_inv ctx" and "list_all (\<lambda>u. valid_item (update_item u)) us"
    and "versions_unique (ms_view ctx) (update_view us)" and "mset us' = mset us"
  shows "\<exists>s1 s2. apply_updates (memory_handle ctx) us = Inr s1 \<and>
     apply_updates (memory_handle ctx) us' = Inr s2 \<and>
     (\<forall>kind k. \<exists>r. LDStoreGet s1 kind k = Inr (True, r, s1) \<and> LDStoreGet s2 kind k = Inr (True, r, s2))"
  unfolding memory_handle_def by (rule mem.updates_order [OF assms])

lemma sample_versions_unique: "versions_unique (ms_view sample_context) (update_view sample_updates)"
proof -
  have "candidates (ms_view sample_context) (set (update_view sample_updates)) kind k \<subseteq>
      {sample_item ''a'' 1, sample_item ''a'' 3, removal_item ''a'' 5, sample_item ''a'' 4}" for kind k
    by (cases kind) (auto simp: candidates_def update_view_def sample_updates_def ms_view_def
        getFromStore_def sample_context_def hash_find_map_of split: if_splits)
  moreover have "inj_on item_version
      {sample_item ''a'' 1, sample_item ''a'' 3, removal_item ''a'' 5, sample_item ''a'' 4}"
    by auto
  ultimately show ?thesis unfolding versions_unique_def by (intro allI) (rule inj_on_subset)
qed

theorem updates_commute_witness:
  "\<exists>s1 s2. apply_updates (memory_handle sample_context) sample_updates = Inr s1 \<and>
     apply_updates (memory_handle sample_context) (rev sample_updates) = Inr s2 \<and>
     (\<forall>kind k. \<exists>r. LDStoreGet s1 kind k = Inr (True, r, s1) \<and> LDStoreGet s2 kind k = Inr (True, r, s2))"
  by (rule updates_commute [OF sample_context_inv sample_updates_valid sample_versions_unique]) simp

text \<open>A removal is not undone by late data: once a key is removed at a version newer than
  what the store holds, reads return nothing for it while only updates up to that version
  arrive.\<close>

theorem removal_is_durable:
  assumes "ms_inv ctx" and "list_all (\<lambda>u. valid_item (update_item u)) us"
    and "\<forall>old. ms_view ctx kind k = Some old \<longrightarrow> item_version old < v"
    and "\<forall>u\<in>set us. update_kind u = kind \<and> item_key (update_item u) = k \<longrightarrow> item_version (update_item u) \<le> v"
  shows "\<exists>store'. apply_updates (memory_handle ctx) (Remove kind k v # us) = Inr store' \<and>
     LDStoreGet store' kind k = Inr (True, None, store')"
  unfolding memory_handle_def by (rule mem.removed_stays [OF assms])

theorem removal_is_durable_witness:
  "\<exists>store'. apply_updates (memory_handle sample_context) (Remove LD_FLAG ''a'' 5 # sample_updates) = Inr store' \<and>
     LDStoreGet store' LD_FLAG ''a'' = Inr (True, None, store')"
  by (rule removal_is_durable [OF sample_context_inv sample_updates_valid])
    (simp_all add: sample_updates_def ms_view_def getFromStore_def sample_context_def hash_find_def)

end
