(* ===== verification/Details.thy ===== *)
theory Details
  imports Json
begin

text \<open>
  Evaluation details, \<open>include/launchdarkly/variations.h\<close> and the first part of
  \<open>src/variations.c\<close>: the reason of an evaluation, its union of extra data, and the JSON
  form sent with events.
\<close>

datatype LDEvalReason =
    LD_UNKNOWN | LD_ERROR | LD_OFF | LD_PREREQUISITE_FAILED | LD_TARGET_MATCH | LD_RULE_MATCH
  | LD_FALLTHROUGH

datatype LDEvalErrorKind =
    LD_CLIENT_NOT_READY | LD_NULL_KEY | LD_STORE_ERROR | LD_FLAG_NOT_FOUND | LD_USER_NOT_SPECIFIED
  | LD_CLIENT_NOT_SPECIFIED | LD_MALFORMED_FLAG | LD_WRONG_TYPE | LD_OOM

text \<open>
  The union \<open>extra\<close> by the member written last. The flag \<open>inExperiment\<close> of a rule is
  written after its index and identifier, so it may still be missing.
\<close>

datatype extra =
    NoExtra
  | ErrorKind LDEvalErrorKind
  | PrerequisiteKey "string option"
  | DetailsRule uint "string option" "bool option"
  | DetailsFallthrough bool

record LDDetails =
  d_variationIndex :: uint
  d_hasVariation :: bool
  d_reason :: LDEvalReason
  d_extra :: extra

definition LDDetailsInit :: "LDDetails \<Rightarrow> LDDetails" where
  "LDDetailsInit d = d\<lparr>d_variationIndex := 0, d_hasVariation := False, d_reason := LD_UNKNOWN\<rparr>"

text \<open>A details structure on the stack before anything is written to its union.\<close>

definition new_details :: LDDetails where
  "new_details = \<lparr>d_variationIndex = 0, d_hasVariation = False, d_reason = LD_UNKNOWN, d_extra = NoExtra\<rparr>"

text \<open>\<open>LDDetailsClear\<close> frees the strings of the union and initialises the rest.\<close>

definition LDDetailsClear :: "LDDetails \<Rightarrow> LDDetails" where
  "LDDetailsClear d = LDDetailsInit d"

fun LDEvalReasonKindToString :: "LDEvalReason \<Rightarrow> string option" where
  "LDEvalReasonKindToString LD_ERROR = Some ''ERROR''"
| "LDEvalReasonKindToString LD_OFF = Some ''OFF''"
| "LDEvalReasonKindToString LD_PREREQUISITE_FAILED = Some ''PREREQUISITE_FAILED''"
| "LDEvalReasonKindToString LD_TARGET_MATCH = Some ''TARGET_MATCH''"
| "LDEvalReasonKindToString LD_RULE_MATCH = Some ''RULE_MATCH''"
| "LDEvalReasonKindToString LD_FALLTHROUGH = Some ''FALLTHROUGH''"
| "LDEvalReasonKindToString _ = None"

fun LDEvalErrorKindToString :: "LDEvalErrorKind \<Rightarrow> string option" where
  "LDEvalErrorKindToString LD_CLIENT_NOT_READY = Some ''CLIENT_NOT_READY''"
| "LDEvalErrorKindToString LD_NULL_KEY = Some ''NULL_KEY''"
| "LDEvalErrorKindToString LD_STORE_ERROR = Some ''STORE_ERROR''"
| "LDEvalErrorKindToString LD_FLAG_NOT_FOUND = Some ''FLAG_NOT_FOUND''"
| "LDEvalErrorKindToString LD_USER_NOT_SPECIFIED = Some ''USER_NOT_SPECIFIED''"
| "LDEvalErrorKindToString LD_CLIENT_NOT_SPECIFIED = Some ''CLIENT_NOT_SPECIFIED''"
| "LDEvalErrorKindToString LD_MALFORMED_FLAG = Some ''MALFORMED_FLAG''"
| "LDEvalErrorKindToString LD_WRONG_TYPE = Some ''WRONG_TYPE''"
| "LDEvalErrorKindToString _ = None"

definition LDReasonToJSON :: "LDDetails \<Rightarrow> LDJSON option exec" where
  "LDReasonToJSON details = (case LDEvalReasonKindToString (d_reason details) of
       None \<Rightarrow> Inr None
     | Some kind \<Rightarrow>
         (let result = set_key (JObject []) ''kind'' (JText kind) in
          if d_reason details = LD_ERROR then
            (case d_extra details of
               ErrorKind k \<Rightarrow> (case LDEvalErrorKindToString k of
                   None \<Rightarrow> Inr None
                 | Some t \<Rightarrow> Inr (Some (set_key result ''errorKind'' (JText t))))
             | _ \<Rightarrow> Inl Uninitialized)
          else if d_reason details = LD_PREREQUISITE_FAILED then
            (case d_extra details of
               PrerequisiteKey (Some k) \<Rightarrow> Inr (Some (set_key result ''prerequisiteKey'' (JText k)))
             | PrerequisiteKey None \<Rightarrow> Inr (Some result)
             | _ \<Rightarrow> Inl Uninitialized)
          else if d_reason details = LD_RULE_MATCH then
            (case d_extra details of
               DetailsRule ruleIndex ruleId (Some inExperiment) \<Rightarrow>
                 (let result = (case ruleId of None \<Rightarrow> result | Some i \<Rightarrow> set_key result ''ruleId'' (JText i));
                      result = set_key result ''ruleIndex'' (JNumber (uint_to_dbl ruleIndex))
                  in Inr (Some (if inExperiment then set_key result ''inExperiment'' (JBool True) else result)))
             | _ \<Rightarrow> Inl Uninitialized)
          else if d_reason details = LD_FALLTHROUGH then
            (case d_extra details of
               DetailsFallthrough inExperiment \<Rightarrow>
                 Inr (Some (if inExperiment then set_key result ''inExperiment'' (JBool True) else result))
             | _ \<Rightarrow> Inl Uninitialized)
          else Inr (Some result)))"

section \<open>Consistent details\<close>

text \<open>The union holds the member that the reason selects.\<close>

fun extra_matches :: "LDEvalReason \<Rightarrow> extra \<Rightarrow> bool" where
  "extra_matches LD_ERROR x = (\<exists>k. x = ErrorKind k \<and> k \<noteq> LD_OOM)"
| "extra_matches LD_PREREQUISITE_FAILED x = (\<exists>k. x = PrerequisiteKey k)"
| "extra_matches LD_RULE_MATCH x = (\<exists>i r b. x = DetailsRule i r (Some b))"
| "extra_matches LD_FALLTHROUGH x = (\<exists>b. x = DetailsFallthrough b)"
| "extra_matches LD_UNKNOWN x = False"
| "extra_matches _ x = True"

definition details_ok :: "LDDetails \<Rightarrow> bool" where
  "details_ok d \<longleftrightarrow> extra_matches (d_reason d) (d_extra d)"

lemma error_kind_string: "k \<noteq> LD_OOM \<Longrightarrow> \<exists>t. LDEvalErrorKindToString k = Some t"
  by (cases k) auto

lemma LDReasonToJSON_ok:
  assumes "details_ok d"
  shows "\<exists>kvs kind. LDReasonToJSON d = Inr (Some (JObject kvs)) \<and>
     LDEvalReasonKindToString (d_reason d) = Some kind \<and> map_of kvs ''kind'' = Some (JText kind) \<and>
     distinct (map fst kvs)"
  using assms error_kind_string
  by (cases "d_reason d")
    (auto simp: details_ok_def LDReasonToJSON_def Let_def set_key_JObject split: option.splits)

text \<open>The details an evaluation produces can always be reported: when the extra data matches the
  reason, the reason is serialized without reading an unwritten member of the union, as an object
  whose \<open>kind\<close> names the reason, whose experiment mark is present exactly when the rule or the
  fallthrough was in an experiment, and which carries the error kind, the failed prerequisite or
  the rule index that goes with the reason.\<close>

theorem LDReasonToJSON_complete:
  assumes "details_ok d"
  shows "\<exists>j kind. LDReasonToJSON d = Inr (Some j) \<and> obj_inv j \<and>
     LDEvalReasonKindToString (d_reason d) = Some kind \<and> obj_lookup j ''kind'' = Some (JText kind) \<and>
     obj_lookup j ''inExperiment'' = (case d_extra d of
         DetailsRule _ _ (Some True) \<Rightarrow> if d_reason d = LD_RULE_MATCH then Some (JBool True) else None
       | DetailsFallthrough True \<Rightarrow> if d_reason d = LD_FALLTHROUGH then Some (JBool True) else None
       | _ \<Rightarrow> None) \<and>
     (d_reason d = LD_ERROR \<longrightarrow> (\<exists>k t. d_extra d = ErrorKind k \<and> LDEvalErrorKindToString k = Some t \<and>
        obj_lookup j ''errorKind'' = Some (JText t))) \<and>
     (d_reason d = LD_PREREQUISITE_FAILED \<longrightarrow> (\<exists>k. d_extra d = PrerequisiteKey k \<and>
        obj_lookup j ''prerequisiteKey'' = map_option JText k)) \<and>
     (d_reason d = LD_RULE_MATCH \<longrightarrow> (\<exists>i r b. d_extra d = DetailsRule i r b \<and>
        obj_lookup j ''ruleIndex'' = Some (JNumber (uint_to_dbl i)) \<and>
        obj_lookup j ''ruleId'' = map_option JText r))"
  using assms error_kind_string
  by (cases "d_reason d"; cases "d_extra d")
    (auto simp: details_ok_def LDReasonToJSON_def Let_def set_key_JObject obj_inv_def split: option.splits bool.splits)

definition sample_details :: LDDetails where
  "sample_details = \<lparr>d_variationIndex = 1, d_hasVariation = True, d_reason = LD_RULE_MATCH,
     d_extra = DetailsRule 2 (Some ''r'') (Some True)\<rparr>"

theorem LDReasonToJSON_complete_witness:
  "\<exists>j. LDReasonToJSON sample_details = Inr (Some j) \<and> obj_lookup j ''ruleId'' = Some (JText ''r'') \<and>
     obj_lookup j ''inExperiment'' = Some (JBool True)"
proof -
  have "details_ok sample_details" by (auto simp: details_ok_def sample_details_def)
  from LDReasonToJSON_complete [OF this] obtain j i r b where "LDReasonToJSON sample_details = Inr (Some j)"
    "obj_lookup j ''inExperiment'' = Some (JBool True)" "d_extra sample_details = DetailsRule i r b"
    "obj_lookup j ''ruleId'' = map_option JText r"
    by (auto simp: sample_details_def)
  then show ?thesis by (auto simp: sample_details_def)
qed

end
