(* ===== verification/JsonPrint.thy ===== *)
theory JsonPrint
  imports Json
begin

text \<open>
  Text output: the conversions of the C library's \<open>printf\<close> that the code uses, and the
  unformatted printer of \<open>c-sdk-common/src/cJSON.c\<close>. The output buffer grows on demand,
  so printing is a function to the printed text; \<open>None\<close> is the printer's \<open>false\<close>. The
  decimal point of the locale is written as a full stop.
\<close>

section \<open>Conversions of the C library\<close>

definition digit_char :: "nat \<Rightarrow> char" where
  "digit_char d = char_of (48 + d)"

fun show_nat :: "nat \<Rightarrow> string" where
  "show_nat n = (if n < 10 then [digit_char n] else show_nat (n div 10) @ [digit_char (n mod 10)])"

declare show_nat.simps [simp del]

text \<open>\<open>%d\<close>\<close>

definition show_int :: "int \<Rightarrow> string" where
  "show_int i = (if i < 0 then CHR ''-'' # show_nat (nat (- i)) else show_nat (nat i))"

definition pad_zeros :: "nat \<Rightarrow> string \<Rightarrow> string" where
  "pad_zeros w s = replicate (w - length s) CHR ''0'' @ s"

definition strip_zeros :: "string \<Rightarrow> string" where
  "strip_zeros s = rev (dropWhile (\<lambda>c. c = CHR ''0'') (rev s))"

text \<open>\<open>%f\<close>: six decimals, correctly rounded.\<close>

fun fmt_f :: "dbl \<Rightarrow> string" where
  "fmt_f (Fin x) = (let n = nat (rhe (\<bar>x\<bar> * 10 ^ 6)) in
     (if x < 0 then ''-'' else []) @ show_nat (n div 10 ^ 6) @ ''.'' @ pad_zeros 6 (show_nat (n mod 10 ^ 6)))"
| "fmt_f PInf = ''inf''"
| "fmt_f NInf = ''-inf''"
| "fmt_f NaN = ''nan''"

text \<open>The decimal exponent of a positive rational, and its value rounded to \<open>p\<close> digits.\<close>

fun ndigits :: "nat \<Rightarrow> nat" where
  "ndigits n = (if n < 10 then 1 else Suc (ndigits (n div 10)))"

declare ndigits.simps [simp del]

definition ilog10 :: "rat \<Rightarrow> int" where
  "ilog10 x = (if 1 \<le> x then int (ndigits (nat \<lfloor>x\<rfloor>)) - 1 else - int (ndigits (nat (\<lceil>1 / x\<rceil> - 1))))"

definition sci :: "nat \<Rightarrow> rat \<Rightarrow> nat \<times> int" where
  "sci p x = (let e = ilog10 x; m = nat (rhe (x / 10 powi (e - int p + 1)))
     in if m = 10 ^ p then (10 ^ (p - 1), e + 1) else (m, e))"

text \<open>\<open>%1.pg\<close> on a finite value.\<close>

definition fmt_g :: "nat \<Rightarrow> rat \<Rightarrow> string" where
  "fmt_g p x = (if x = 0 then ''0'' else
     (case sci p \<bar>x\<bar> of (m, e) \<Rightarrow>
       let ds = show_nat m; sgn = (if x < 0 then ''-'' else []) in
       if e < - 4 \<or> int p \<le> e then
         sgn @ take 1 ds @ (let r = strip_zeros (drop 1 ds) in if r = [] then [] else CHR ''.'' # r) @
         ''e'' @ (if e < 0 then ''-'' else ''+'') @ pad_zeros 2 (show_nat (nat \<bar>e\<bar>))
       else if 0 \<le> e then
         sgn @ take (nat e + 1) ds @
         (let r = strip_zeros (drop (nat e + 1) ds) in if r = [] then [] else CHR ''.'' # r)
       else sgn @ ''0.'' @ replicate (nat (- e) - 1) CHR ''0'' @ strip_zeros ds))"

text \<open>The value \<open>sscanf("%lg")\<close> reads back from that text.\<close>

definition scan_g :: "nat \<Rightarrow> rat \<Rightarrow> dbl" where
  "scan_g p x = (if x = 0 then Fin 0 else
     (case sci p \<bar>x\<bar> of (m, e) \<Rightarrow> fl64 (sgn x * of_nat m * 10 powi (e - int p + 1))))"

section \<open>The printer\<close>

definition print_number :: "dbl \<Rightarrow> string option" where
  "print_number d =
     (let number_buffer = (case d of
          Fin x \<Rightarrow> if dbl_eq (scan_g 15 x) d then fmt_g 15 x else fmt_g 17 x
        | _ \<Rightarrow> ''null'')
      in if length number_buffer > 25 then None else Some number_buffer)"

definition hex_char :: "nat \<Rightarrow> char" where
  "hex_char d = (if d < 10 then char_of (48 + d) else char_of (87 + d))"

definition escape_char :: "char \<Rightarrow> string" where
  "escape_char c =
     (let n = (of_char c :: nat) in
      if 31 < n \<and> n \<noteq> 34 \<and> n \<noteq> 92 then [c]
      else CHR 0x5C #
        (if n = 92 then [CHR 0x5C]
         else if n = 34 then [CHR 0x22]
         else if n = 8 then ''b''
         else if n = 12 then ''f''
         else if n = 10 then ''n''
         else if n = 13 then ''r''
         else if n = 9 then ''t''
         else ''u00'' @ [hex_char (n div 16), hex_char (n mod 16)]))"

definition print_string_ptr :: "string \<Rightarrow> string" where
  "print_string_ptr input = [CHR 0x22] @ concat (map escape_char input) @ [CHR 0x22]"

text \<open>\<open>print_value\<close>, and the loops of \<open>print_array\<close> and \<open>print_object\<close> after the opening bracket.\<close>

fun print_value :: "LDJSON \<Rightarrow> string option"
  and print_array :: "LDJSON list \<Rightarrow> string option"
  and print_object :: "(string \<times> LDJSON) list \<Rightarrow> string option"
where
  "print_value JNull = Some ''null''"
| "print_value (JBool b) = Some (if b then ''true'' else ''false'')"
| "print_value (JNumber d) = print_number d"
| "print_value (JText s) = Some (print_string_ptr s)"
| "print_value (JArray xs) = map_option (\<lambda>r. ''['' @ r) (print_array xs)"
| "print_value (JObject kvs) = map_option (\<lambda>r. ''{'' @ r) (print_object kvs)"
| "print_array [] = Some '']''"
| "print_array (x # xs) = (case print_value x of None \<Rightarrow> None
     | Some v \<Rightarrow> (case print_array xs of None \<Rightarrow> None
         | Some r \<Rightarrow> Some (v @ (if xs = [] then [] else '','') @ r)))"
| "print_object [] = Some ''}''"
| "print_object ((k, x) # kvs) = (case print_value x of None \<Rightarrow> None
     | Some v \<Rightarrow> (case print_object kvs of None \<Rightarrow> None
         | Some r \<Rightarrow> Some (print_string_ptr k @ '':'' @ v @ (if kvs = [] then [] else '','') @ r)))"

definition LDJSONSerialize :: "LDJSON option \<Rightarrow> string option" where
  "LDJSONSerialize json = (case json of None \<Rightarrow> None | Some j \<Rightarrow> print_value j)"

section \<open>Integers print as their decimal digits\<close>

definition is_digit :: "char \<Rightarrow> bool" where
  "is_digit c \<longleftrightarrow> 48 \<le> (of_char c :: nat) \<and> (of_char c :: nat) \<le> 57"

lemma of_char_digit: "d < 10 \<Longrightarrow> (of_char (digit_char d) :: nat) = 48 + d"
  by (simp add: digit_char_def)

lemma digit_is_digit: "d < 10 \<Longrightarrow> is_digit (digit_char d)"
  by (simp add: is_digit_def of_char_digit)

lemma digit_char_0: "digit_char 0 = CHR ''0''"
  by code_simp

lemma show_nat_digits: "list_all is_digit (show_nat n)"
proof (induction n rule: show_nat.induct)
  case (1 n)
  then show ?case
    by (subst show_nat.simps) (auto simp: digit_is_digit)
qed

lemma show_nat_not_Nil [simp]: "show_nat n \<noteq> []"
  by (subst show_nat.simps) simp

definition read_nat :: "string \<Rightarrow> nat" where
  "read_nat s = foldl (\<lambda>a c. 10 * a + ((of_char c :: nat) - 48)) 0 s"

lemma read_show_nat: "read_nat (show_nat n) = n"
proof (induction n rule: show_nat.induct)
  case (1 n)
  show ?case
  proof (cases "n < 10")
    case True
    then show ?thesis by (simp add: show_nat.simps [of n] read_nat_def of_char_digit)
  next
    case False
    with 1 have "read_nat (show_nat (n div 10)) = n div 10" by simp
    with False show ?thesis by (simp add: show_nat.simps [of n] read_nat_def of_char_digit)
  qed
qed

lemma show_nat_inj: "show_nat m = show_nat n \<longleftrightarrow> m = n"
  by (metis read_show_nat)

lemma length_show_nat: "length (show_nat n) = ndigits n"
  by (induction n rule: ndigits.induct) (subst show_nat.simps, subst ndigits.simps, simp)

lemma ndigits_bounds: "n < 10 ^ ndigits n" "0 < n \<Longrightarrow> 10 ^ (ndigits n - 1) \<le> n"
proof -
  have "n < 10 ^ ndigits n \<and> (0 < n \<longrightarrow> 10 ^ (ndigits n - 1) \<le> n) \<and> 0 < ndigits n"
  proof (induction n rule: ndigits.induct)
    case (1 n)
    show ?case
    proof (cases "n < 10")
      case True
      then show ?thesis by (simp add: ndigits.simps [of n])
    next
      case False
      with 1 have IH: "n div 10 < 10 ^ ndigits (n div 10)" "10 ^ (ndigits (n div 10) - 1) \<le> n div 10"
        "0 < ndigits (n div 10)" by auto
      have "10 * 10 ^ (ndigits (n div 10) - 1) = (10::nat) ^ ndigits (n div 10)"
        using IH(3) by (metis Suc_pred' power_Suc)
      with False IH show ?thesis by (simp add: ndigits.simps [of n]) linarith
    qed
  qed
  then show "n < 10 ^ ndigits n" "0 < n \<Longrightarrow> 10 ^ (ndigits n - 1) \<le> n" by auto
qed

lemma show_nat_mult_10: "0 < n \<Longrightarrow> show_nat (n * 10 ^ k) = show_nat n @ replicate k CHR ''0''"
proof (induction k)
  case (Suc k)
  let ?m = "n * 10 ^ k"
  have "10 \<le> ?m * 10" using Suc.prems by simp
  then have "show_nat (?m * 10) = show_nat ?m @ [digit_char 0]"
    by (subst show_nat.simps) simp
  moreover have "n * 10 ^ Suc k = ?m * 10" by simp
  ultimately show ?case
    using Suc by (simp only: digit_char_0) (simp add: replicate_append_same)
qed simp

lemma strip_zeros_replicate: "strip_zeros (replicate k CHR ''0'') = []"
  by (simp add: strip_zeros_def)

lemma ndigits_le:
  assumes "n < 10 ^ p" and "0 < p"
  shows "ndigits n \<le> p"
proof (cases "n = 0")
  case True
  then show ?thesis using assms(2) by (simp add: ndigits.simps)
next
  case False
  then have "10 ^ (ndigits n - 1) < (10::nat) ^ p"
    using ndigits_bounds(2) [of n] assms(1) by linarith
  then have "ndigits n - 1 < p" by (simp only: power_strict_increasing_iff [of 10] one_less_numeral_iff semiring_norm)
  then show ?thesis by linarith
qed

lemma ndigits_pos [simp]: "0 < ndigits n"
  by (subst ndigits.simps) simp

lemma sci_nat:
  assumes "0 < n" and "n < 10 ^ p"
  shows "sci p (of_nat n) = (n * 10 ^ (p - ndigits n), int (ndigits n) - 1)"
proof -
  have p: "0 < p" using assms by (cases p) auto
  have d: "ndigits n \<le> p" using ndigits_le [OF assms(2) p] .
  have e: "ilog10 (of_nat n) = int (ndigits n) - 1" using assms(1) by (simp add: ilog10_def)
  have "(10::rat) powi (int (ndigits n) - 1 - int p + 1) = inverse (10 ^ (p - ndigits n))"
    using d by (simp add: power_int_minus [symmetric] flip: power_int_of_nat)
  then have "of_nat n / (10::rat) powi (int (ndigits n) - 1 - int p + 1) =
      of_int (int (n * 10 ^ (p - ndigits n)))"
    by (simp add: divide_inverse)
  then have m: "rhe (of_nat n / 10 powi (int (ndigits n) - 1 - int p + 1)) = int (n * 10 ^ (p - ndigits n))"
    by (simp only: rhe_of_int)
  have "n * 10 ^ (p - ndigits n) < 10 ^ ndigits n * 10 ^ (p - ndigits n)"
    using ndigits_bounds(1) [of n] by simp
  also have "\<dots> = 10 ^ p" using d by (simp flip: power_add)
  finally show ?thesis unfolding sci_def e Let_def m nat_int by simp
qed

lemma fmt_g_nat:
  assumes "0 < n" and "n < 10 ^ p"
  shows "fmt_g p (of_nat n) = show_nat n"
proof -
  have p: "0 < p" using assms by (cases p) auto
  have d: "ndigits n \<le> p" using ndigits_le [OF assms(2) p] .
  have e: "\<not> (int (ndigits n) - 1 < - 4 \<or> int p \<le> int (ndigits n) - 1)" "0 \<le> int (ndigits n) - 1"
    "nat (int (ndigits n) - 1) + 1 = ndigits n"
    using d ndigits_pos [of n] by linarith+
  show ?thesis
    using assms e
    by (simp add: fmt_g_def sci_nat [OF assms] Let_def show_nat_mult_10 length_show_nat strip_zeros_replicate
        del: of_nat_less_0_iff)
qed

lemma print_number_nat:
  assumes "n < 10 ^ 15"
  shows "print_number (Fin (of_nat n)) = Some (show_nat n)"
proof -
  have len: "length (show_nat n) \<le> 25"
    using ndigits_le [OF assms] by (simp add: length_show_nat)
  show ?thesis
  proof (cases "n = 0")
    case True
    then show ?thesis
      by (simp add: print_number_def scan_g_def fmt_g_def show_nat.simps digit_char_0)
  next
    case False
    then have n: "0 < n" by simp
    have d: "ndigits n \<le> 15" using ndigits_le [OF assms] by simp
    have "(of_nat (n * 10 ^ (15 - ndigits n)) :: rat) * 10 powi (int (ndigits n) - 1 - int 15 + 1) = of_nat n"
      using d by (simp add: power_int_def nat_diff_distrib field_simps)
    moreover have "fl64 (of_nat n) = Fin (of_nat n)"
      using fl64_int [of "int n"] assms by simp
    ultimately have "scan_g 15 (of_nat n) = Fin (of_nat n)"
      using n unfolding scan_g_def abs_of_nat sci_nat [OF n assms] prod.case
      by (simp add: mult.assoc)
    then show ?thesis
      using len by (simp add: print_number_def fmt_g_nat [OF n assms])
  qed
qed

lemma print_number_uint: "print_number (uint_to_dbl w) = Some (show_nat (unat w))"
proof -
  have "unat w < 2 ^ 32" using unsigned_less [of w, where ?'a = nat] by simp
  then show ?thesis unfolding uint_to_dbl_def by (intro print_number_nat) simp
qed

text \<open>An unsigned number printed by the serializer reads back: for any version, index or
  counter of 32 bits the printed text consists of decimal digits only, denotes that number,
  and two different numbers are printed differently.\<close>

theorem print_uint_roundtrip:
  "\<exists>t. print_number (uint_to_dbl w) = Some t \<and> list_all is_digit t \<and> t \<noteq> [] \<and> read_nat t = unat w \<and>
     (print_number (uint_to_dbl w') = Some t) = (w' = w)"
  by (auto simp: print_number_uint show_nat_digits read_show_nat show_nat_inj word_unat_eq_iff)

end
