(* ===== verification/Events.thy ===== *)
theory Events
  imports Config User Details TimeUtils JsonPrint
begin

text \<open>
  The construction of analytics events, \<open>src/event_processor.c\<close>: base, feature, index,
  identify, custom and alias events. \<open>None\<close> inside a result is the C function's \<open>NULL\<close>,
  which with allocation taken to succeed means that flag data has the wrong type.
\<close>

definition LDi_notNull :: "LDJSON option \<Rightarrow> bool" where
  "LDi_notNull json = (case json of None \<Rightarrow> False | Some j \<Rightarrow> LDJSONGetType (Some j) \<noteq> LDNull)"

definition LDi_newBaseEvent :: "string \<Rightarrow> LDTimestamp \<Rightarrow> LDJSON" where
  "LDi_newBaseEvent kind now =
     (let event = set_key (JObject []) ''creationDate'' (LDTimestamp_MarshalUnixMillis now)
      in set_key event ''kind'' (JText kind))"

definition LDi_addUserInfoToEvent ::
  "LDJSON \<Rightarrow> LDUser \<Rightarrow> bool \<Rightarrow> bool \<Rightarrow> LDJSON option \<Rightarrow> LDJSON exec" where
  "LDi_addUserInfoToEvent event user inlineUsersInEvents allAttributesPrivate privateAttributeNames =
     (if inlineUsersInEvents then
        exec_bind (LDi_userToJSON user True allAttributesPrivate privateAttributeNames) (\<lambda>tmp.
          Inr (set_key event ''user'' tmp))
      else Inr (set_key event ''userKey'' (JText (u_key user))))"

text \<open>The stages of \<open>LDi_newFeatureEvent\<close>: optional members, ...\<close>

definition set_opt :: "LDJSON \<Rightarrow> string \<Rightarrow> LDJSON option \<Rightarrow> LDJSON" where
  "set_opt event key v = (case v of None \<Rightarrow> event | Some j \<Rightarrow> set_key event key j)"

text \<open>... a member copied from the flag, which must have the expected type unless it is null, ...\<close>

definition copy_typed :: "LDJSON \<Rightarrow> string \<Rightarrow> LDJSONType \<Rightarrow> LDJSON \<Rightarrow> LDJSON option" where
  "copy_typed flag key type event =
     (let tmp = LDObjectLookup (Some flag) key in
      if LDi_notNull tmp then
        (if LDJSONGetType tmp \<noteq> type then None else Some (set_key event key (the tmp)))
      else Some event)"

text \<open>... and the flag's own tracking switch; \<open>None\<close> is a schema error.\<close>

definition flag_switch :: "LDJSON \<Rightarrow> string \<Rightarrow> bool option" where
  "flag_switch flag key =
     (let tmp = LDObjectLookup (Some flag) key in
      if LDi_notNull tmp then (if LDJSONGetType tmp \<noteq> LDBool then None else Some (LDGetBool tmp))
      else Some False)"

definition rule_tracked :: "LDJSON \<Rightarrow> LDDetails \<Rightarrow> bool exec" where
  "rule_tracked flag details =
     (if d_reason details = LD_RULE_MATCH then
        (case d_extra details of
           DetailsRule ruleIndex ruleId inExperiment \<Rightarrow>
             (let tmp = LDArrayLookup (LDObjectLookup (Some flag) ''rules'') ruleIndex;
                  tmp = LDObjectLookup tmp ''trackEvents''
              in Inr (LDi_notNull tmp \<and> LDJSONGetType tmp = LDBool \<and> LDGetBool tmp))
         | _ \<Rightarrow> Inl Uninitialized)
      else Inr False)"

text \<open>\<open>(shouldTrack, shouldAlwaysDetail)\<close> after the reason has been added.\<close>

definition tracking :: "LDJSON option \<Rightarrow> LDDetails option \<Rightarrow> bool \<Rightarrow> (bool \<times> bool) option exec" where
  "tracking flag details shouldTrack = (case (flag, details) of
       (Some f, Some d) \<Rightarrow>
         (case flag_switch f ''trackEventsFallthrough'' of
            None \<Rightarrow> Inr None
          | Some b \<Rightarrow>
              exec_bind (rule_tracked f d) (\<lambda>r.
                let always = (b \<and> d_reason d = LD_FALLTHROUGH) \<or> r
                in Inr (Some (shouldTrack \<or> always, always))))
     | _ \<Rightarrow> Inr (Some (shouldTrack, False)))"

text \<open>The event after the flag's version and debug date were copied, and whether the flag is tracked.\<close>

definition flag_members :: "LDJSON option \<Rightarrow> LDJSON \<Rightarrow> (LDJSON \<times> bool) option" where
  "flag_members flag event = (case flag of
       None \<Rightarrow> Some (event, False)
     | Some f \<Rightarrow>
         (case copy_typed f ''version'' LDNumber event of
            None \<Rightarrow> None
          | Some event \<Rightarrow>
              (case copy_typed f ''debugEventsUntilDate'' LDNumber event of
                 None \<Rightarrow> None
               | Some event \<Rightarrow> map_option (Pair event) (flag_switch f ''trackEvents''))))"

definition add_reason :: "LDDetails option \<Rightarrow> LDJSON \<Rightarrow> LDJSON option exec" where
  "add_reason details event = (case details of None \<Rightarrow> Inr (Some event)
     | Some d \<Rightarrow> exec_bind (LDReasonToJSON d) (\<lambda>tmp. Inr (map_option (set_key event ''reason'') tmp)))"

definition mark_event :: "LDUser \<Rightarrow> bool \<Rightarrow> bool \<Rightarrow> LDJSON \<Rightarrow> LDJSON" where
  "mark_event user shouldTrack shouldAlwaysDetail event =
     (let event = (if shouldTrack then set_key event ''trackEvents'' (JBool True) else event);
          event = (if shouldAlwaysDetail then set_key event ''shouldAlwaysTrackDetails'' (JBool True) else event)
      in if u_anonymous user then set_key event ''contextKind'' (JText ''anonymousUser'') else event)"

definition LDi_newFeatureEvent ::
  "string \<Rightarrow> LDUser \<Rightarrow> uint option \<Rightarrow> LDJSON option \<Rightarrow> LDJSON option \<Rightarrow> string option \<Rightarrow>
   LDJSON option \<Rightarrow> LDDetails option \<Rightarrow> LDTimestamp \<Rightarrow> bool \<Rightarrow> bool \<Rightarrow> LDJSON option \<Rightarrow>
   LDJSON option exec"
where
  "LDi_newFeatureEvent key user variation value defaultValue prereqOf flag details timestamp
     inlineUsersInEvents allAttributesPrivate privateAttributeNames =
     exec_bind (LDi_addUserInfoToEvent (LDi_newBaseEvent ''feature'' timestamp) user
         inlineUsersInEvents allAttributesPrivate privateAttributeNames) (\<lambda>event.
     let event = set_key event ''key'' (JText key);
         event = set_opt event ''variation'' (map_option (\<lambda>v. JNumber (uint_to_dbl v)) variation);
         event = set_opt event ''value'' value;
         event = set_opt event ''default'' defaultValue;
         event = set_opt event ''prereqOf'' (map_option JText prereqOf)
     in case flag_members flag event of
          None \<Rightarrow> Inr None
        | Some (event, shouldTrack) \<Rightarrow>
            exec_bind (add_reason details event) (\<lambda>event.
            case event of None \<Rightarrow> Inr None
            | Some event \<Rightarrow>
                exec_bind (tracking flag details shouldTrack) (\<lambda>t.
                case t of None \<Rightarrow> Inr None
                | Some (shouldTrack, shouldAlwaysDetail) \<Rightarrow>
                    Inr (Some (mark_event user shouldTrack shouldAlwaysDetail event)))))"

definition LDi_newIdentifyEvent ::
  "LDUser \<Rightarrow> LDTimestamp \<Rightarrow> bool \<Rightarrow> LDJSON option \<Rightarrow> LDJSON exec" where
  "LDi_newIdentifyEvent user timestamp allAttributesPrivate privateAttributeNames =
     (let event = set_key (LDi_newBaseEvent ''identify'' timestamp) ''key'' (JText (u_key user)) in
      exec_bind (LDi_userToJSON user True allAttributesPrivate privateAttributeNames) (\<lambda>tmp.
        Inr (set_key event ''user'' tmp)))"

definition LDi_newCustomEvent ::
  "LDUser \<Rightarrow> string \<Rightarrow> LDJSON option \<Rightarrow> dbl \<Rightarrow> bool \<Rightarrow> bool \<Rightarrow> bool \<Rightarrow> LDJSON option \<Rightarrow>
   LDTimestamp \<Rightarrow> LDJSON exec"
where
  "LDi_newCustomEvent user key data metric hasMetric inlineUsersInEvents allAttributesPrivate
     privateAttributeNames timestamp =
     exec_bind (LDi_addUserInfoToEvent (LDi_newBaseEvent ''custom'' timestamp) user
         inlineUsersInEvents allAttributesPrivate privateAttributeNames) (\<lambda>event.
     let event = set_key event ''key'' (JText key);
         event = set_opt event ''data'' data;
         event = (if hasMetric then set_key event ''metricValue'' (JNumber metric) else event);
         event = (if u_anonymous user
                  then set_key event ''contextKind'' (JText ''anonymousUser'') else event)
     in Inr event)"

definition contextKindString :: "LDUser \<Rightarrow> LDJSON" where
  "contextKindString user = (if u_anonymous user then JText ''anonymousUser'' else JText ''user'')"

definition LDi_newAliasEvent :: "LDUser \<Rightarrow> LDUser \<Rightarrow> LDTimestamp \<Rightarrow> LDJSON" where
  "LDi_newAliasEvent currentUser previousUser timestamp =
     (let event = LDi_newBaseEvent ''alias'' timestamp;
          event = set_key event ''key'' (JText (u_key currentUser));
          event = set_key event ''previousKey'' (JText (u_key previousUser));
          event = set_key event ''contextKind'' (contextKindString currentUser)
      in set_key event ''previousContextKind'' (contextKindString previousUser))"

text \<open>The key of a summary counter: the printed object of variation and version.\<close>

definition LDi_makeSummaryKey :: "LDJSON \<Rightarrow> string option exec" where
  "LDi_makeSummaryKey event =
     (let key = JObject []; tmp = LDObjectLookup (Some event) ''variation'' in
      exec_bind
        (if LDi_notNull tmp then
           exec_bind (ld_assert (LDJSONGetType tmp = LDNumber)) (\<lambda>_. Inr (set_key key ''variation'' (the tmp)))
         else Inr key) (\<lambda>key.
      let tmp = LDObjectLookup (Some event) ''version'' in
      exec_bind
        (if LDi_notNull tmp then
           exec_bind (ld_assert (LDJSONGetType tmp = LDNumber)) (\<lambda>_. Inr (set_key key ''version'' (the tmp)))
         else Inr key) (\<lambda>key.
      Inr (LDJSONSerialize (Some key)))))"

end
