(* ===== verification/Evaluate.thy ===== *)
theory Evaluate
  imports Events Operators Store
begin

text \<open>
  The flag evaluator, \<open>src/evaluate.c\<close>. The functions are in the order of the call graph,
  leaves first. A lookup of an optional member gives \<open>None\<close> where the C function returns
  false, and \<open>Some NULL\<close> or \<open>Some value\<close> otherwise. The recursion of \<open>LDi_evaluate\<close>
  through prerequisites carries a depth, and running out of it is \<open>NoReturn\<close>; the
  theorems show when a depth is enough and when none is.
\<close>

section \<open>Members of flag data\<close>

definition lookupRequiredValueOfType :: "LDJSON \<Rightarrow> string \<Rightarrow> LDJSONType \<Rightarrow> LDJSON option exec" where
  "lookupRequiredValueOfType obj key expectedType =
     exec_bind (ld_assert (LDJSONGetType (Some obj) = LDObject)) (\<lambda>_.
       case LDObjectLookup (Some obj) key of
         None \<Rightarrow> Inr None
       | Some tmp \<Rightarrow> if LDJSONGetType (Some tmp) \<noteq> expectedType then Inr None else Inr (Some tmp))"

definition lookupOptionalValueOfType ::
  "LDJSON \<Rightarrow> string \<Rightarrow> LDJSONType \<Rightarrow> LDJSON option option exec" where
  "lookupOptionalValueOfType obj key expectedType =
     exec_bind (ld_assert (LDJSONGetType (Some obj) = LDObject)) (\<lambda>_.
       case LDObjectLookup (Some obj) key of
         None \<Rightarrow> Inr (Some None)
       | Some tmp \<Rightarrow>
           if LDJSONGetType (Some tmp) = LDNull then Inr (Some None)
           else if LDJSONGetType (Some tmp) \<noteq> expectedType then Inr None
           else Inr (Some (Some tmp)))"

datatype EvalStatus = EVAL_MEM | EVAL_SCHEMA | EVAL_STORE | EVAL_MATCH | EVAL_MISS

definition LDi_isEvalError :: "EvalStatus \<Rightarrow> bool" where
  "LDi_isEvalError status \<longleftrightarrow> status = EVAL_MEM \<or> status = EVAL_SCHEMA \<or> status = EVAL_STORE"

definition maybeNegate :: "LDJSON \<Rightarrow> EvalStatus \<Rightarrow> EvalStatus exec" where
  "maybeNegate clause status =
     (if LDi_isEvalError status then Inr status
      else exec_bind (lookupOptionalValueOfType clause ''negate'' LDBool) (\<lambda>r.
        case r of None \<Rightarrow> Inr EVAL_SCHEMA
        | Some negate \<Rightarrow>
            if negate \<noteq> None \<and> LDGetBool negate then
              (if status = EVAL_MATCH then Inr EVAL_MISS
               else if status = EVAL_MISS then Inr EVAL_MATCH else Inr status)
            else Inr status))"

text \<open>
  \<open>None\<close> is a failure, with the error \<open>EVAL_SCHEMA\<close>. A negative index is refused before
  the conversion to \<open>unsigned int\<close>.
\<close>

definition getValue :: "LDJSON \<Rightarrow> LDJSON option \<Rightarrow> (LDJSON \<times> uint) option exec" where
  "getValue flag index = (case index of
       None \<Rightarrow> Inr None
     | Some i \<Rightarrow>
         if LDJSONGetType (Some i) \<noteq> LDNumber then Inr None
         else if dbl_lt (LDGetNumber (Some i)) (Fin 0) then Inr None
         else exec_bind (dbl_to_uint (LDGetNumber (Some i))) (\<lambda>vi.
              exec_bind (lookupRequiredValueOfType flag ''variations'' LDArray) (\<lambda>variations.
                case variations of None \<Rightarrow> Inr None
                | Some vs \<Rightarrow>
                    (case LDArrayLookup (Some vs) vi of
                       None \<Rightarrow> Inr None
                     | Some variation \<Rightarrow> Inr (Some (variation, vi))))))"

text \<open>The outputs of an evaluation, and the number of clock readings taken.\<close>

record evalstate =
  es_details :: LDDetails
  es_events :: "LDJSON option"
  es_value :: "LDJSON option"
  es_ticks :: nat

definition set_reason :: "evalstate \<Rightarrow> LDEvalReason \<Rightarrow> evalstate" where
  "set_reason st r = st\<lparr>es_details := (es_details st)\<lparr>d_reason := r\<rparr>\<rparr>"

definition set_extra :: "evalstate \<Rightarrow> extra \<Rightarrow> evalstate" where
  "set_extra st x = st\<lparr>es_details := (es_details st)\<lparr>d_extra := x\<rparr>\<rparr>"

definition addValue :: "LDJSON \<Rightarrow> LDJSON option \<Rightarrow> evalstate \<Rightarrow> (bool \<times> evalstate) exec" where
  "addValue flag index st =
     exec_bind (getValue flag index) (\<lambda>r.
       case r of
         None \<Rightarrow> Inr (False, st\<lparr>es_value := None,
             es_details := (LDDetailsClear (es_details st))
               \<lparr>d_hasVariation := False, d_reason := LD_ERROR, d_extra := ErrorKind LD_MALFORMED_FLAG\<rparr>\<rparr>)
       | Some (v, vi) \<Rightarrow> Inr (True, st\<lparr>es_value := Some v,
             es_details := (es_details st)\<lparr>d_hasVariation := True, d_variationIndex := vi\<rparr>\<rparr>))"

text \<open>\<open>NULL\<close> when \<open>bucketBy\<close> has the wrong type.\<close>

definition LDi_getBucketAttribute :: "LDJSON \<Rightarrow> string option exec" where
  "LDi_getBucketAttribute obj =
     exec_bind (lookupOptionalValueOfType obj ''bucketBy'' LDText) (\<lambda>r.
       case r of None \<Rightarrow> Inr None
       | Some None \<Rightarrow> Inr (Some ''key'')
       | Some (Some bucketBy) \<Rightarrow> Inr (LDGetText (Some bucketBy)))"

section \<open>Bucketing\<close>

text \<open>One step of the accumulation, in single precision.\<close>

fun hex_step :: "dbl \<Rightarrow> rat \<Rightarrow> dbl" where
  "hex_step (Fin acc) charOffset = (case fl32 (acc * 16) of Fin m \<Rightarrow> fl32 (m + charOffset) | x \<Rightarrow> x)"
| "hex_step acc charOffset = acc"

fun hex_loop :: "dbl \<Rightarrow> string \<Rightarrow> dbl" where
  "hex_loop acc [] = acc"
| "hex_loop acc (c # cs) =
     (let i = (of_char c :: nat) in
      if 48 \<le> i \<and> i \<le> 57 then hex_loop (hex_step acc (of_nat (i - 48))) cs
      else if 97 \<le> i \<and> i \<le> 102 then hex_loop (hex_step acc (of_nat (i - 87))) cs
      else Fin 0)"

definition LDi_hexToDecimal :: "string \<Rightarrow> dbl" where
  "LDi_hexToDecimal input = hex_loop (Fin 0) input"

text \<open>\<open>const float longScale = 1152921504606846975.0\<close> and a division in single precision.\<close>

definition longScale :: dbl where
  "longScale = fl32 1152921504606846975"

fun float_div :: "dbl \<Rightarrow> dbl \<Rightarrow> dbl" where
  "float_div (Fin a) (Fin b) = fl32 (a / b)"
| "float_div a b = NaN"

text \<open>The text that is hashed, before it is cut to the buffer.\<close>

definition bucket_raw :: "LDUser \<Rightarrow> string \<Rightarrow> string \<Rightarrow> int option \<Rightarrow> string \<Rightarrow> string" where
  "bucket_raw user segmentKey salt seed bucketable =
     (case seed of
        Some s \<Rightarrow> (case u_secondary user of
            Some sec \<Rightarrow> show_int s @ ''.'' @ bucketable @ ''.'' @ sec
          | None \<Rightarrow> show_int s @ ''.'' @ bucketable)
      | None \<Rightarrow> (case u_secondary user of
            Some sec \<Rightarrow> segmentKey @ ''.'' @ salt @ ''.'' @ bucketable @ ''.'' @ sec
          | None \<Rightarrow> segmentKey @ ''.'' @ salt @ ''.'' @ bucketable))"

text \<open>The bucket is 0 wherever the function returns false.\<close>

definition LDi_bucketUser ::
  "'sv externals \<Rightarrow> LDUser \<Rightarrow> string \<Rightarrow> string \<Rightarrow> string \<Rightarrow> int option \<Rightarrow> (bool \<times> dbl) exec" where
  "LDi_bucketUser ext user segmentKey attribute salt seed =
     exec_bind (LDi_valueOfAttribute user attribute) (\<lambda>attributeValue.
       case attributeValue of
         None \<Rightarrow> Inr (False, Fin 0)
       | Some v \<Rightarrow>
           (case (if LDJSONGetType (Some v) = LDText then LDGetText (Some v)
                  else if LDJSONGetType (Some v) = LDNumber
                    then Some (take 255 (fmt_f (LDGetNumber (Some v))))
                  else None) of
              None \<Rightarrow> Inr (False, Fin 0)
            | Some bucketable \<Rightarrow>
                (let raw = bucket_raw user segmentKey salt seed bucketable in
                 if length raw < 256 then
                   (case hexify ext (clibs_SHA1 ext raw) 17 of (status, encoded) \<Rightarrow>
                      exec_bind (ld_assert (status = 16)) (\<lambda>_.
                        Inr (True, float_div (LDi_hexToDecimal (take 15 encoded)) longScale)))
                 else Inr (False, Fin 0))))"

text \<open>
  The loop over the weighted variations: the user's bucket, whether the rollout is an
  experiment, the running sum (single precision), the last variation seen and its
  untracked flag.
\<close>

fun rollout_loop ::
  "dbl \<Rightarrow> bool \<Rightarrow> dbl \<Rightarrow> LDJSON option \<Rightarrow> bool \<Rightarrow> LDJSON list \<Rightarrow> (LDJSON option \<times> bool) option exec" where
  "rollout_loop userBucket inExperiment acc subVariation untrackedValue [] =
     Inr (Some (subVariation, inExperiment \<and> \<not> untrackedValue))"
| "rollout_loop userBucket inExperiment acc subVariation untrackedValue (variation # rest) =
     exec_bind (lookupRequiredValueOfType variation ''weight'' LDNumber) (\<lambda>weight.
       case weight of None \<Rightarrow> Inr None
       | Some w \<Rightarrow>
           (let acc = to_float (dbl_add acc (dbl_div_const (LDGetNumber (Some w)) 100000)) in
            exec_bind (lookupRequiredValueOfType variation ''variation'' LDNumber) (\<lambda>sub.
              case sub of None \<Rightarrow> Inr None
              | Some s \<Rightarrow>
                  exec_bind (lookupOptionalValueOfType variation ''untracked'' LDBool) (\<lambda>r.
                    case r of None \<Rightarrow> Inr None
                    | Some untracked \<Rightarrow>
                        (let untrackedValue = LDGetBool untracked in
                         if dbl_lt userBucket acc
                         then Inr (Some (Some s, inExperiment \<and> \<not> untrackedValue))
                         else rollout_loop userBucket inExperiment acc (Some s) untrackedValue rest)))))"

text \<open>\<open>None\<close> is the result false; otherwise the index and whether the user is in an experiment.\<close>

definition LDi_variationIndexForUser ::
  "'sv externals \<Rightarrow> LDJSON \<Rightarrow> LDUser \<Rightarrow> string \<Rightarrow> string \<Rightarrow> (LDJSON option \<times> bool) option exec" where
  "LDi_variationIndexForUser ext varOrRoll user key salt =
     exec_bind (lookupOptionalValueOfType varOrRoll ''variation'' LDNumber) (\<lambda>r.
       case r of None \<Rightarrow> Inr None
       | Some (Some variation) \<Rightarrow> Inr (Some (Some variation, False))
       | Some None \<Rightarrow>
     exec_bind (lookupRequiredValueOfType varOrRoll ''rollout'' LDObject) (\<lambda>r.
       case r of None \<Rightarrow> Inr None
       | Some rollout \<Rightarrow>
     exec_bind (lookupOptionalValueOfType rollout ''kind'' LDText) (\<lambda>r.
       case r of None \<Rightarrow> Inr None
       | Some rolloutKind \<Rightarrow>
     (let inExperiment = (LDGetText rolloutKind = Some ''experiment'') in
     exec_bind (lookupRequiredValueOfType rollout ''variations'' LDArray) (\<lambda>r.
       case r of None \<Rightarrow> Inr None
       | Some variations \<Rightarrow>
     if LDCollectionGetSize (Some variations) = 0 then Inr None else
     exec_bind (LDi_getBucketAttribute rollout) (\<lambda>r.
       case r of None \<Rightarrow> Inr None
       | Some attribute \<Rightarrow>
     exec_bind (lookupOptionalValueOfType rollout ''seed'' LDNumber) (\<lambda>r.
       case r of None \<Rightarrow> Inr None
       | Some seedJSON \<Rightarrow>
     exec_bind (case seedJSON of None \<Rightarrow> Inr None
         | Some j \<Rightarrow> exec_bind (dbl_to_int32 (LDGetNumber (Some j))) (\<lambda>i. Inr (Some i))) (\<lambda>seed.
     exec_bind (LDi_bucketUser ext user key attribute salt seed) (\<lambda>b.
       rollout_loop (snd b) inExperiment (Fin 0) None False (iter_values (Some variations)))))))))))"

definition LDi_getIndexForVariationOrRollout ::
  "'sv externals \<Rightarrow> LDJSON \<Rightarrow> LDJSON option \<Rightarrow> LDUser \<Rightarrow> (LDJSON option \<times> bool) option exec" where
  "LDi_getIndexForVariationOrRollout ext flag varOrRoll user =
     exec_bind (ld_assert (varOrRoll \<noteq> None)) (\<lambda>_.
     exec_bind (lookupRequiredValueOfType flag ''key'' LDText) (\<lambda>r.
       case r of None \<Rightarrow> Inr None
       | Some key \<Rightarrow>
     exec_bind (lookupRequiredValueOfType flag ''salt'' LDText) (\<lambda>r.
       case r of None \<Rightarrow> Inr None
       | Some salt \<Rightarrow>
     exec_bind (deref (LDGetText (Some key))) (\<lambda>key.
     exec_bind (deref (LDGetText (Some salt))) (\<lambda>salt.
       LDi_variationIndexForUser ext (the varOrRoll) user key salt)))))"

section \<open>Clauses, segments and rules\<close>

fun match_any_loop :: "op_fn \<Rightarrow> LDJSON \<Rightarrow> LDJSON list \<Rightarrow> EvalStatus exec" where
  "match_any_loop f value [] = Inr EVAL_MISS"
| "match_any_loop f value (iter # rest) =
     exec_bind (f value iter) (\<lambda>b. if b then Inr EVAL_MATCH else match_any_loop f value rest)"

definition matchAny :: "op_fn \<Rightarrow> LDJSON \<Rightarrow> LDJSON option \<Rightarrow> EvalStatus exec" where
  "matchAny f value values = match_any_loop f value (iter_values values)"

text \<open>
  The loop over the elements of an array attribute: \<open>Inl\<close> is a return from the
  function without negation.
\<close>

fun attr_array_loop :: "op_fn \<Rightarrow> LDJSON option \<Rightarrow> LDJSON list \<Rightarrow> (EvalStatus + EvalStatus) exec" where
  "attr_array_loop fn values [] = Inr (Inr EVAL_MISS)"
| "attr_array_loop fn values (iter # rest) =
     (if LDJSONGetType (Some iter) = LDObject \<or> LDJSONGetType (Some iter) = LDArray
      then Inr (Inl EVAL_MISS)
      else exec_bind (matchAny fn iter values) (\<lambda>evalStatus.
        if LDi_isEvalError evalStatus then Inr (Inl evalStatus)
        else if evalStatus = EVAL_MATCH then Inr (Inr EVAL_MATCH)
        else attr_array_loop fn values rest))"

definition LDi_clauseMatchesUserNoSegments ::
  "'sv externals \<Rightarrow> LDJSON \<Rightarrow> LDUser \<Rightarrow> EvalStatus exec" where
  "LDi_clauseMatchesUserNoSegments ext clause user =
     exec_bind (lookupRequiredValueOfType clause ''op'' LDText) (\<lambda>r.
       case r of None \<Rightarrow> Inr EVAL_SCHEMA
       | Some op \<Rightarrow>
     exec_bind (deref (LDGetText (Some op))) (\<lambda>opText.
       case LDi_lookupOperation ext opText of None \<Rightarrow> Inr EVAL_MISS
       | Some fn \<Rightarrow>
     exec_bind (lookupRequiredValueOfType clause ''attribute'' LDText) (\<lambda>r.
       case r of None \<Rightarrow> Inr EVAL_SCHEMA
       | Some attribute \<Rightarrow>
     exec_bind (lookupOptionalValueOfType clause ''values'' LDArray) (\<lambda>r.
       case r of None \<Rightarrow> Inr EVAL_SCHEMA
       | Some values \<Rightarrow>
     exec_bind (deref (LDGetText (Some attribute))) (\<lambda>attribute.
     exec_bind (LDi_valueOfAttribute user attribute) (\<lambda>r.
       case r of None \<Rightarrow> Inr EVAL_MISS
       | Some attributeValue \<Rightarrow>
     if LDJSONGetType (Some attributeValue) = LDNull then Inr EVAL_MISS
     else if LDJSONGetType (Some attributeValue) = LDArray then
       exec_bind (attr_array_loop fn values (iter_values (Some attributeValue))) (\<lambda>r.
         case r of Inl status \<Rightarrow> Inr status
         | Inr status \<Rightarrow> maybeNegate clause status)
     else
       exec_bind (matchAny fn attributeValue values) (\<lambda>evalStatus.
         if LDi_isEvalError evalStatus then Inr evalStatus
         else maybeNegate clause evalStatus)))))))"

fun clauses_loop :: "(LDJSON \<Rightarrow> EvalStatus exec) \<Rightarrow> LDJSON list \<Rightarrow> EvalStatus exec" where
  "clauses_loop match [] = Inr EVAL_MATCH"
| "clauses_loop match (clause # rest) =
     exec_bind (match clause) (\<lambda>evalStatus.
       if LDi_isEvalError evalStatus then Inr evalStatus
       else if evalStatus = EVAL_MISS then Inr EVAL_MISS
       else clauses_loop match rest)"

definition LDi_segmentRuleMatchUser ::
  "'sv externals \<Rightarrow> LDJSON \<Rightarrow> string \<Rightarrow> LDUser \<Rightarrow> string \<Rightarrow> EvalStatus exec" where
  "LDi_segmentRuleMatchUser ext segmentRule segmentKey user salt =
     exec_bind (lookupOptionalValueOfType segmentRule ''clauses'' LDArray) (\<lambda>r.
       case r of None \<Rightarrow> Inr EVAL_SCHEMA
       | Some clauses \<Rightarrow>
     exec_bind (clauses_loop (\<lambda>clause. LDi_clauseMatchesUserNoSegments ext clause user)
         (iter_values clauses)) (\<lambda>evalStatus.
       if LDi_isEvalError evalStatus \<or> evalStatus = EVAL_MISS then Inr evalStatus else
     exec_bind (lookupOptionalValueOfType segmentRule ''weight'' LDNumber) (\<lambda>r.
       case r of None \<Rightarrow> Inr EVAL_SCHEMA
       | Some None \<Rightarrow> Inr EVAL_MATCH
       | Some (Some weight) \<Rightarrow>
     exec_bind (LDi_getBucketAttribute segmentRule) (\<lambda>r.
       case r of None \<Rightarrow> Inr EVAL_SCHEMA
       | Some attribute \<Rightarrow>
     exec_bind (LDi_bucketUser ext user segmentKey attribute salt None) (\<lambda>b.
       if dbl_lt (snd b) (dbl_div_const (LDGetNumber (Some weight)) 100000)
       then Inr EVAL_MATCH else Inr EVAL_MISS)))))"

fun segment_rules_loop ::
  "'sv externals \<Rightarrow> string \<Rightarrow> LDUser \<Rightarrow> string \<Rightarrow> LDJSON list \<Rightarrow> EvalStatus exec" where
  "segment_rules_loop ext key user salt [] = Inr EVAL_MISS"
| "segment_rules_loop ext key user salt (iter # rest) =
     (if LDJSONGetType (Some iter) \<noteq> LDObject then Inr EVAL_SCHEMA
      else exec_bind (LDi_segmentRuleMatchUser ext iter key user salt) (\<lambda>evalStatus.
        if LDi_isEvalError evalStatus then Inr evalStatus
        else if evalStatus = EVAL_MATCH then Inr EVAL_MATCH
        else segment_rules_loop ext key user salt rest))"

text \<open>Whether an optional list of keys contains the user's key; the outer \<open>None\<close> is a schema error.\<close>

definition key_listed :: "LDJSON \<Rightarrow> string \<Rightarrow> LDUser \<Rightarrow> bool option exec" where
  "key_listed obj member user =
     exec_bind (lookupOptionalValueOfType obj member LDArray) (\<lambda>r.
       case r of None \<Rightarrow> Inr None
       | Some None \<Rightarrow> Inr (Some False)
       | Some (Some keys) \<Rightarrow> exec_bind (LDi_textInArray keys (u_key user)) (\<lambda>b. Inr (Some b)))"

definition LDi_segmentMatchesUser :: "'sv externals \<Rightarrow> LDJSON \<Rightarrow> LDUser \<Rightarrow> EvalStatus exec" where
  "LDi_segmentMatchesUser ext segment user =
     exec_bind (key_listed segment ''included'' user) (\<lambda>r.
       case r of None \<Rightarrow> Inr EVAL_SCHEMA
       | Some True \<Rightarrow> Inr EVAL_MATCH
       | Some False \<Rightarrow>
     exec_bind (key_listed segment ''excluded'' user) (\<lambda>r.
       case r of None \<Rightarrow> Inr EVAL_SCHEMA
       | Some True \<Rightarrow> Inr EVAL_MISS
       | Some False \<Rightarrow>
     exec_bind (lookupOptionalValueOfType segment ''rules'' LDArray) (\<lambda>r.
       case r of None \<Rightarrow> Inr EVAL_SCHEMA
       | Some None \<Rightarrow> Inr EVAL_MISS
       | Some (Some segmentRules) \<Rightarrow>
     exec_bind (lookupRequiredValueOfType segment ''key'' LDText) (\<lambda>r.
       case r of None \<Rightarrow> Inr EVAL_SCHEMA
       | Some key \<Rightarrow>
     exec_bind (lookupRequiredValueOfType segment ''salt'' LDText) (\<lambda>r.
       case r of None \<Rightarrow> Inr EVAL_SCHEMA
       | Some salt \<Rightarrow>
     exec_bind (deref (LDGetText (Some key))) (\<lambda>key.
     exec_bind (deref (LDGetText (Some salt))) (\<lambda>salt.
       segment_rules_loop ext key user salt (iter_values (Some segmentRules)))))))))"

text \<open>
  What the evaluator calls in its environment: the third-party code, the reads of the
  store, the configuration and the successive readings of the system clock. The store is
  read through a snapshot: a read does not change what later reads of the same evaluation
  return.
\<close>

record 'sv evalenv =
  e_ext :: "'sv externals"
  e_store :: "FeatureKind \<Rightarrow> string \<Rightarrow> (bool \<times> LDJSON option) exec"
  e_config :: LDConfig
  e_clock :: "nat \<Rightarrow> dbl option"

definition store_reader :: "'s LDStore \<Rightarrow> FeatureKind \<Rightarrow> string \<Rightarrow> (bool \<times> LDJSON option) exec" where
  "store_reader store kind key =
     exec_bind (LDStoreGet store kind key) (\<lambda>(ok, r, _). Inr (ok, r))"

fun segment_match_loop :: "'sv evalenv \<Rightarrow> LDUser \<Rightarrow> LDJSON \<Rightarrow> LDJSON list \<Rightarrow> EvalStatus exec" where
  "segment_match_loop env user clause [] = maybeNegate clause EVAL_MISS"
| "segment_match_loop env user clause (iter # rest) = (case LDGetText (Some iter) of
       None \<Rightarrow> segment_match_loop env user clause rest
     | Some key \<Rightarrow>
         exec_bind (e_store env LD_SEGMENT key) (\<lambda>(ok, segment).
           if \<not> ok then Inr EVAL_STORE
           else case segment of
             None \<Rightarrow> segment_match_loop env user clause rest
           | Some segment \<Rightarrow>
               exec_bind (LDi_segmentMatchesUser (e_ext env) segment user) (\<lambda>evalStatus.
                 if LDi_isEvalError evalStatus then Inr evalStatus
                 else if evalStatus = EVAL_MATCH then maybeNegate clause EVAL_MATCH
                 else segment_match_loop env user clause rest)))"

definition LDi_clauseMatchesUser :: "'sv evalenv \<Rightarrow> LDJSON \<Rightarrow> LDUser \<Rightarrow> EvalStatus exec" where
  "LDi_clauseMatchesUser env clause user =
     (if LDJSONGetType (Some clause) \<noteq> LDObject then Inr EVAL_SCHEMA
      else exec_bind (lookupRequiredValueOfType clause ''op'' LDText) (\<lambda>r.
        case r of None \<Rightarrow> Inr EVAL_SCHEMA
        | Some op \<Rightarrow>
      if LDGetText (Some op) = Some ''segmentMatch'' then
        exec_bind (lookupOptionalValueOfType clause ''values'' LDArray) (\<lambda>r.
          case r of None \<Rightarrow> Inr EVAL_SCHEMA
          | Some None \<Rightarrow> maybeNegate clause EVAL_MISS
          | Some (Some values) \<Rightarrow> segment_match_loop env user clause (iter_values (Some values)))
      else LDi_clauseMatchesUserNoSegments (e_ext env) clause user))"

definition LDi_ruleMatchesUser :: "'sv evalenv \<Rightarrow> LDJSON \<Rightarrow> LDUser \<Rightarrow> EvalStatus exec" where
  "LDi_ruleMatchesUser env rule user =
     exec_bind (lookupOptionalValueOfType rule ''clauses'' LDArray) (\<lambda>r.
       case r of None \<Rightarrow> Inr EVAL_SCHEMA
       | Some None \<Rightarrow> Inr EVAL_MATCH
       | Some (Some clauses) \<Rightarrow>
           clauses_loop (\<lambda>clause.
             if LDJSONGetType (Some clause) \<noteq> LDObject then Inr EVAL_SCHEMA
             else LDi_clauseMatchesUser env clause user) (iter_values (Some clauses)))"

section \<open>Flags\<close>

text \<open>
  The blocks of \<open>LDi_evaluate\<close>. \<open>None\<close> means that the block did not return and the next
  one runs.
\<close>

definition eval_off :: "LDJSON \<Rightarrow> evalstate \<Rightarrow> (EvalStatus \<times> evalstate) exec" where
  "eval_off flag st =
     (let st = set_reason st LD_OFF; off = LDObjectLookup (Some flag) ''offVariation'' in
      if off = None \<or> LDJSONGetType off = LDNull then Inr (EVAL_MISS, st\<lparr>es_value := None\<rparr>)
      else exec_bind (addValue flag off st) (\<lambda>(ok, st).
        if ok then Inr (EVAL_MISS, st) else Inr (EVAL_SCHEMA, st)))"

fun targets_loop ::
  "LDJSON \<Rightarrow> LDUser \<Rightarrow> evalstate \<Rightarrow> LDJSON list \<Rightarrow> (EvalStatus \<times> evalstate) option exec" where
  "targets_loop flag user st [] = Inr None"
| "targets_loop flag user st (target # rest) =
     (if LDJSONGetType (Some target) \<noteq> LDObject then Inr (Some (EVAL_SCHEMA, st))
      else exec_bind (key_listed target ''values'' user) (\<lambda>r.
        case r of None \<Rightarrow> Inr (Some (EVAL_SCHEMA, st))
        | Some False \<Rightarrow> targets_loop flag user st rest
        | Some True \<Rightarrow>
            exec_bind (lookupRequiredValueOfType target ''variation'' LDNumber) (\<lambda>variation.
              case variation of None \<Rightarrow> Inr (Some (EVAL_SCHEMA, st))
              | Some v \<Rightarrow>
                  exec_bind (addValue flag (Some v) (set_reason st LD_TARGET_MATCH)) (\<lambda>(ok, st).
                    Inr (Some (if ok then EVAL_MATCH else EVAL_SCHEMA, st))))))"

definition eval_targets :: "LDJSON \<Rightarrow> LDUser \<Rightarrow> evalstate \<Rightarrow> (EvalStatus \<times> evalstate) option exec" where
  "eval_targets flag user st =
     exec_bind (lookupOptionalValueOfType flag ''targets'' LDArray) (\<lambda>r.
       case r of None \<Rightarrow> Inr (Some (EVAL_SCHEMA, st))
       | Some None \<Rightarrow> Inr None
       | Some (Some targets) \<Rightarrow> targets_loop flag user st (iter_values (Some targets)))"

definition rule_matched ::
  "'sv externals \<Rightarrow> LDJSON \<Rightarrow> LDUser \<Rightarrow> uint \<Rightarrow> LDJSON \<Rightarrow> evalstate \<Rightarrow> (EvalStatus \<times> evalstate) exec" where
  "rule_matched ext flag user index rule st =
     (let st = set_extra (set_reason st LD_RULE_MATCH) (DetailsRule index None None) in
      exec_bind (LDi_getIndexForVariationOrRollout ext flag (Some rule) user) (\<lambda>r.
        case r of None \<Rightarrow> Inr (EVAL_SCHEMA, st)
        | Some (variation, inExperiment) \<Rightarrow>
            (let st = set_extra st (DetailsRule index None (Some inExperiment)) in
             exec_bind (addValue flag variation st) (\<lambda>(ok, st).
               if \<not> ok then Inr (EVAL_SCHEMA, st)
               else exec_bind (lookupOptionalValueOfType rule ''id'' LDText) (\<lambda>r.
                 case r of None \<Rightarrow> Inr (EVAL_SCHEMA, st)
                 | Some None \<Rightarrow> Inr (EVAL_MATCH, st)
                 | Some (Some ruleId) \<Rightarrow>
                     exec_bind (deref (LDGetText (Some ruleId))) (\<lambda>text.
                       Inr (EVAL_MATCH, set_extra st (DetailsRule index (Some text) (Some inExperiment)))))))))"

fun rules_loop ::
  "'sv evalenv \<Rightarrow> LDJSON \<Rightarrow> LDUser \<Rightarrow> evalstate \<Rightarrow> uint \<Rightarrow> LDJSON list \<Rightarrow>
   (EvalStatus \<times> evalstate) option exec"
where
  "rules_loop env flag user st index [] = Inr None"
| "rules_loop env flag user st index (rule # rest) =
     (if LDJSONGetType (Some rule) \<noteq> LDObject then Inr (Some (EVAL_SCHEMA, st))
      else exec_bind (LDi_ruleMatchesUser env rule user) (\<lambda>substatus.
        if LDi_isEvalError substatus then Inr (Some (substatus, st))
        else if substatus = EVAL_MATCH then
          exec_bind (rule_matched (e_ext env) flag user index rule st) (\<lambda>r. Inr (Some r))
        else rules_loop env flag user st (index + 1) rest))"

definition eval_rules ::
  "'sv evalenv \<Rightarrow> LDJSON \<Rightarrow> LDUser \<Rightarrow> evalstate \<Rightarrow> (EvalStatus \<times> evalstate) option exec" where
  "eval_rules env flag user st =
     exec_bind (lookupOptionalValueOfType flag ''rules'' LDArray) (\<lambda>r.
       case r of None \<Rightarrow> Inr (Some (EVAL_SCHEMA, st))
       | Some None \<Rightarrow> Inr None
       | Some (Some rules) \<Rightarrow> rules_loop env flag user st 0 (iter_values (Some rules)))"

definition eval_fallthrough ::
  "'sv externals \<Rightarrow> LDJSON \<Rightarrow> LDUser \<Rightarrow> evalstate \<Rightarrow> (EvalStatus \<times> evalstate) exec" where
  "eval_fallthrough ext flag user st =
     (let st = set_reason st LD_FALLTHROUGH in
      exec_bind (LDi_getIndexForVariationOrRollout ext flag
          (LDObjectLookup (Some flag) ''fallthrough'') user) (\<lambda>r.
        case r of None \<Rightarrow> Inr (EVAL_SCHEMA, st)
        | Some (index, inExperiment) \<Rightarrow>
            exec_bind (addValue flag index (set_extra st (DetailsFallthrough inExperiment))) (\<lambda>(ok, st).
              Inr (if ok then EVAL_MATCH else EVAL_SCHEMA, st))))"

text \<open>
  Prerequisites, over the evaluation of one flag: a loop iteration reads the clock,
  finds the flag, evaluates it on fresh outputs and records its events. The result is the
  status, the key of the prerequisite reached last, and the events.
\<close>

definition fresh_outputs :: "nat \<Rightarrow> evalstate" where
  "fresh_outputs ticks = \<lparr>es_details = new_details, es_events = None, es_value = None, es_ticks = ticks\<rparr>"

definition append_events :: "LDJSON option \<Rightarrow> LDJSON option \<Rightarrow> LDJSON \<Rightarrow> LDJSON option" where
  "append_events events subevents event =
     (let events = (case events of None \<Rightarrow> Some (JArray []) | Some e \<Rightarrow> Some e);
          events = (case subevents of None \<Rightarrow> events | Some s \<Rightarrow> snd (LDArrayAppend events (Some s)))
      in snd (LDArrayPush events (Some event)))"

definition prereq_satisfied :: "LDJSON \<Rightarrow> LDDetails \<Rightarrow> LDJSON \<Rightarrow> EvalStatus exec" where
  "prereq_satisfied preflag details variation =
     exec_bind (lookupOptionalValueOfType preflag ''on'' LDBool) (\<lambda>r.
       case r of None \<Rightarrow> Inr EVAL_SCHEMA
       | Some on \<Rightarrow>
           (let variationMatch = (d_hasVariation details \<and>
                  dbl_eq (uint_to_dbl (d_variationIndex details)) (LDGetNumber (Some variation)))
            in if on = None \<or> \<not> LDGetBool on \<or> \<not> variationMatch then Inr EVAL_MISS else Inr EVAL_MATCH))"

fun prereq_loop ::
  "'sv evalenv \<Rightarrow> (LDJSON \<Rightarrow> evalstate \<Rightarrow> (EvalStatus \<times> evalstate) exec) \<Rightarrow> LDJSON \<Rightarrow> LDUser \<Rightarrow>
   string option \<Rightarrow> evalstate \<Rightarrow> LDJSON list \<Rightarrow> (EvalStatus \<times> string option \<times> evalstate) exec"
where
  "prereq_loop env eval flag user failedKey st [] = Inr (EVAL_MATCH, failedKey, st)"
| "prereq_loop env eval flag user failedKey st (iter # rest) =
     exec_bind (LDTimestamp_InitNow (e_clock env (es_ticks st))) (\<lambda>timestamp.
     let st = st\<lparr>es_ticks := Suc (es_ticks st)\<rparr> in
     if LDJSONGetType (Some iter) \<noteq> LDObject then Inr (EVAL_SCHEMA, failedKey, st) else
     exec_bind (lookupRequiredValueOfType iter ''key'' LDText) (\<lambda>r.
       case r of None \<Rightarrow> Inr (EVAL_SCHEMA, failedKey, st)
       | Some key \<Rightarrow>
     exec_bind (lookupRequiredValueOfType iter ''variation'' LDNumber) (\<lambda>r.
       case r of None \<Rightarrow> Inr (EVAL_SCHEMA, failedKey, st)
       | Some variation \<Rightarrow>
     exec_bind (deref (LDGetText (Some key))) (\<lambda>keyText.
     let failedKey = Some keyText in
     exec_bind (e_store env LD_FLAG keyText) (\<lambda>(ok, preflag).
       if \<not> ok then Inr (EVAL_STORE, failedKey, st)
       else case preflag of None \<Rightarrow> Inr (EVAL_MISS, failedKey, st)
       | Some preflag \<Rightarrow>
     exec_bind (eval preflag (fresh_outputs (es_ticks st))) (\<lambda>(status, sub).
     let st = st\<lparr>es_ticks := es_ticks sub\<rparr> in
       if LDi_isEvalError status then Inr (status, failedKey, st) else
     exec_bind (LDi_newFeatureEvent keyText user
         (if d_hasVariation (es_details sub) then Some (d_variationIndex (es_details sub)) else None)
         (es_value sub) None (LDGetText (LDObjectLookup (Some flag) ''key'')) (Some preflag)
         (Some (es_details sub)) timestamp (c_inlineUsersInEvents (e_config env))
         (c_allAttributesPrivate (e_config env)) (Some (c_privateAttributeNames (e_config env)))) (\<lambda>event.
       case event of None \<Rightarrow> Inr (EVAL_MEM, failedKey, st)
       | Some event \<Rightarrow>
     let st = st\<lparr>es_events := append_events (es_events st) (es_events sub) event\<rparr> in
       if status = EVAL_MISS then Inr (EVAL_MISS, failedKey, st) else
     exec_bind (prereq_satisfied preflag (es_details sub) variation) (\<lambda>r.
       if r = EVAL_MATCH then prereq_loop env eval flag user failedKey st rest
       else Inr (r, failedKey, st)))))))))"

definition LDi_checkPrerequisites ::
  "'sv evalenv \<Rightarrow> (LDJSON \<Rightarrow> evalstate \<Rightarrow> (EvalStatus \<times> evalstate) exec) \<Rightarrow> LDJSON \<Rightarrow> LDUser \<Rightarrow>
   evalstate \<Rightarrow> (EvalStatus \<times> string option \<times> evalstate) exec"
where
  "LDi_checkPrerequisites env eval flag user st =
     exec_bind (lookupOptionalValueOfType flag ''prerequisites'' LDArray) (\<lambda>r.
       case r of None \<Rightarrow> Inr (EVAL_SCHEMA, None, st)
       | Some None \<Rightarrow> Inr (EVAL_MATCH, None, st)
       | Some (Some prerequisites) \<Rightarrow>
           prereq_loop env eval flag user None st (iter_values (Some prerequisites)))"

definition eval_prerequisite_failed ::
  "LDJSON \<Rightarrow> string option \<Rightarrow> evalstate \<Rightarrow> (EvalStatus \<times> evalstate) exec" where
  "eval_prerequisite_failed flag failedKey st =
     exec_bind (addValue flag (LDObjectLookup (Some flag) ''offVariation'')
         (set_extra (set_reason st LD_PREREQUISITE_FAILED) (PrerequisiteKey failedKey))) (\<lambda>(ok, st).
       Inr (if ok then EVAL_MISS else EVAL_SCHEMA, st))"

text \<open>The blocks after the prerequisites.\<close>

definition eval_rest :: "'sv evalenv \<Rightarrow> LDJSON \<Rightarrow> LDUser \<Rightarrow> evalstate \<Rightarrow> (EvalStatus \<times> evalstate) exec" where
  "eval_rest env flag user st =
     exec_bind (eval_targets flag user st) (\<lambda>r.
       case r of Some x \<Rightarrow> Inr x
       | None \<Rightarrow>
     exec_bind (eval_rules env flag user st) (\<lambda>r.
       case r of Some x \<Rightarrow> Inr x
       | None \<Rightarrow> eval_fallthrough (e_ext env) flag user st))"

definition eval_flag ::
  "'sv evalenv \<Rightarrow> (LDJSON \<Rightarrow> evalstate \<Rightarrow> (EvalStatus \<times> evalstate) exec) \<Rightarrow> LDUser \<Rightarrow>
   LDJSON \<Rightarrow> evalstate \<Rightarrow> (EvalStatus \<times> evalstate) exec"
where
  "eval_flag env eval user flag st =
     (if LDJSONGetType (Some flag) \<noteq> LDObject then Inr (EVAL_SCHEMA, st)
      else exec_bind (lookupOptionalValueOfType flag ''on'' LDBool) (\<lambda>r.
        case r of None \<Rightarrow> Inr (EVAL_SCHEMA, st)
        | Some on \<Rightarrow>
      if on = None \<or> \<not> LDGetBool on then eval_off flag st else
      exec_bind (LDi_checkPrerequisites env eval flag user st) (\<lambda>(substatus, failedKey, st).
        if LDi_isEvalError substatus then Inr (substatus, st)
        else if substatus = EVAL_MISS then eval_prerequisite_failed flag failedKey st
        else eval_rest env flag user st)))"

primrec LDi_evaluate ::
  "nat \<Rightarrow> 'sv evalenv \<Rightarrow> LDUser \<Rightarrow> LDJSON \<Rightarrow> evalstate \<Rightarrow> (EvalStatus \<times> evalstate) exec"
where
  "LDi_evaluate 0 env user flag st = Inl NoReturn"
| "LDi_evaluate (Suc depth) env user flag st = eval_flag env (LDi_evaluate depth env user) user flag st"

end
