(* ===== verification/EvaluateResult.thy ===== *)
theory EvaluateResult
  imports Evaluate
begin

text \<open>
  What an evaluation hands back: a match or a miss always comes with a reason that fits
  the status and with the variation its index selects. The depth of the recursion matters
  only until it is enough: acyclic prerequisites need no more depth than their rank, and
  a flag that requires itself never returns.
\<close>

section \<open>Selected values\<close>

lemma sint_unat:
  fixes i :: "32 word"
  assumes "0 \<le> sint i"
  shows "nat (sint i) = unat i"
proof -
  have "uint i = sint i"
    using assms sint_lt [of i] unfolding uint_sint by (intro take_bit_int_eq_self) simp_all
  then show ?thesis by (simp only: nat_uint_eq [symmetric])
qed

lemma LDArrayLookup_Some:
  "LDArrayLookup (Some (JArray xs)) i = Some v \<Longrightarrow> unat i < length xs \<and> v = xs ! unat i"
  by (auto simp: sint_unat split: if_splits)

lemma lookupRequired_Some [exec_simps]:
  "lookupRequiredValueOfType j k T = Inr (Some v) \<longleftrightarrow>
     LDJSONGetType (Some j) = LDObject \<and> obj_lookup j k = Some v \<and> LDJSONGetType (Some v) = T"
  by (auto simp: lookupRequiredValueOfType_def exec_simps split: option.splits if_splits)

lemma getValue_Some:
  assumes "getValue flag index = Inr (Some (v, vi))"
  obtains vs where "obj_lookup flag ''variations'' = Some (JArray vs)"
    and "unat vi < length vs" and "v = vs ! unat vi"
proof -
  from assms obtain vs where vs: "obj_lookup flag ''variations'' = Some vs"
    "LDJSONGetType (Some vs) = LDArray" "LDArrayLookup (Some vs) vi = Some v"
    by (auto simp: getValue_def exec_simps split: option.splits if_splits)
  then obtain xs where "vs = JArray xs" by (auto simp: json_type_iff)
  with vs that show thesis using LDArrayLookup_Some by metis
qed

text \<open>The value returned for a flag is the element of its variations at the returned index.\<close>

definition value_selected :: "LDJSON \<Rightarrow> evalstate \<Rightarrow> bool" where
  "value_selected flag st \<longleftrightarrow>
     (\<exists>vs. obj_lookup flag ''variations'' = Some (JArray vs) \<and>
        unat (d_variationIndex (es_details st)) < length vs \<and>
        es_value st = Some (vs ! unat (d_variationIndex (es_details st))))"

lemma addValue_True:
  assumes "addValue flag i st = Inr (True, st')"
  shows "value_selected flag st' \<and> d_hasVariation (es_details st') \<and>
     d_reason (es_details st') = d_reason (es_details st) \<and> d_extra (es_details st') = d_extra (es_details st) \<and>
     es_events st' = es_events st \<and> es_ticks st' = es_ticks st"
proof -
  from assms obtain v vi where g: "getValue flag i = Inr (Some (v, vi))" and
    st': "st' = st\<lparr>es_value := Some v,
       es_details := (es_details st)\<lparr>d_hasVariation := True, d_variationIndex := vi\<rparr>\<rparr>"
    by (auto simp: addValue_def elim!: exec_bindE split: option.split_asm)
  from g obtain vs where "obj_lookup flag ''variations'' = Some (JArray vs)"
    "unat vi < length vs" "v = vs ! unat vi" by (rule getValue_Some)
  then show ?thesis by (simp add: st' value_selected_def)
qed

lemma reason_extra [simp]:
  "d_reason (es_details (set_reason st r)) = r"
  "d_extra (es_details (set_reason st r)) = d_extra (es_details st)"
  "d_reason (es_details (set_extra st x)) = d_reason (es_details st)"
  "d_extra (es_details (set_extra st x)) = x"
  "es_events (set_reason st r) = es_events st" "es_events (set_extra st x) = es_events st"
  "es_ticks (set_reason st r) = es_ticks st" "es_ticks (set_extra st x) = es_ticks st"
  "es_value (set_reason st r) = es_value st" "es_value (set_extra st x) = es_value st"
  "d_hasVariation (es_details (set_reason st r)) = d_hasVariation (es_details st)"
  "d_hasVariation (es_details (set_extra st x)) = d_hasVariation (es_details st)"
  "d_variationIndex (es_details (set_reason st r)) = d_variationIndex (es_details st)"
  "d_variationIndex (es_details (set_extra st x)) = d_variationIndex (es_details st)"
  by (simp_all add: set_reason_def set_extra_def)

lemma value_selected_set_extra [simp]: "value_selected flag (set_extra st x) = value_selected flag st"
  by (simp add: value_selected_def)

text \<open>What a caller can rely on after a status that is not an error.\<close>

definition match_result :: "LDJSON \<Rightarrow> evalstate \<Rightarrow> bool" where
  "match_result flag st \<longleftrightarrow>
     d_reason (es_details st) \<in> {LD_TARGET_MATCH, LD_RULE_MATCH, LD_FALLTHROUGH} \<and>
     details_ok (es_details st) \<and> d_hasVariation (es_details st) \<and> value_selected flag st"

definition miss_result :: "LDJSON \<Rightarrow> evalstate \<Rightarrow> bool" where
  "miss_result flag st \<longleftrightarrow>
     d_reason (es_details st) \<in> {LD_OFF, LD_PREREQUISITE_FAILED} \<and> details_ok (es_details st) \<and>
     (if d_hasVariation (es_details st) then value_selected flag st
      else d_reason (es_details st) = LD_OFF \<and> es_value st = None)"

definition good_result :: "LDJSON \<Rightarrow> EvalStatus \<Rightarrow> evalstate \<Rightarrow> bool" where
  "good_result flag status st \<longleftrightarrow>
     (status = EVAL_MATCH \<longrightarrow> match_result flag st) \<and> (status = EVAL_MISS \<longrightarrow> miss_result flag st)"

lemma eval_off_good:
  assumes "eval_off flag st = Inr (status, st')" and "\<not> d_hasVariation (es_details st)"
  shows "good_result flag status st'"
  using assms
  by (auto simp: eval_off_def Let_def exec_simps good_result_def miss_result_def details_ok_def
      split: if_splits dest!: addValue_True)

lemma good_result_error: "LDi_isEvalError status \<Longrightarrow> good_result flag status st"
  by (auto simp: LDi_isEvalError_def good_result_def)

lemma good_result_schema [simp]: "good_result flag EVAL_SCHEMA st"
  by (simp add: good_result_def)

lemma addValue_match:
  assumes "addValue flag i st = Inr (ok, st')" and "ok"
    and "d_reason (es_details st) \<in> {LD_TARGET_MATCH, LD_RULE_MATCH, LD_FALLTHROUGH}"
    and "details_ok (es_details st)"
  shows "good_result flag EVAL_MATCH st'"
  using assms addValue_True [of flag i st st']
  by (auto simp: good_result_def match_result_def details_ok_def)

lemma targets_loop_good:
  assumes "targets_loop flag user st ts = Inr (Some (status, st'))"
  shows "good_result flag status st'"
  using assms
proof (induction ts)
  case (Cons t ts)
  show ?case
  proof (cases "LDJSONGetType (Some t) = LDObject")
    case True
    with Cons.prems obtain r where r: "key_listed t ''values'' user = Inr r"
      and rest: "(case r of None \<Rightarrow> Inr (Some (EVAL_SCHEMA, st))
        | Some False \<Rightarrow> targets_loop flag user st ts
        | Some True \<Rightarrow>
            exec_bind (lookupRequiredValueOfType t ''variation'' LDNumber) (\<lambda>variation.
              case variation of None \<Rightarrow> Inr (Some (EVAL_SCHEMA, st))
              | Some v \<Rightarrow>
                  exec_bind (addValue flag (Some v) (set_reason st LD_TARGET_MATCH)) (\<lambda>(ok, st).
                    Inr (Some (if ok then EVAL_MATCH else EVAL_SCHEMA, st))))) =
         Inr (Some (status, st'))"
      by (auto elim: exec_bindE)
    then show ?thesis
      using Cons.IH
      by (auto elim!: exec_bindE addValue_match simp: details_ok_def
          split: option.split_asm bool.split_asm)
  qed (use Cons.prems in auto)
qed simp

lemma rule_matched_good:
  assumes "rule_matched ext flag user index rule st = Inr (status, st')"
  shows "good_result flag status st'"
  using assms unfolding rule_matched_def Let_def
  by (auto elim!: exec_bindE split: option.split_asm if_split_asm dest!: addValue_True
      simp: good_result_def match_result_def details_ok_def)

lemma rules_loop_good:
  assumes "rules_loop env flag user st index rs = Inr (Some (status, st'))"
  shows "good_result flag status st'"
  using assms
proof (induction rs arbitrary: index)
  case (Cons r rs)
  then show ?case
    by (auto elim!: exec_bindE split: if_split_asm intro: good_result_error rule_matched_good)
qed simp

lemma eval_targets_good:
  "eval_targets flag user st = Inr (Some (status, st')) \<Longrightarrow> good_result flag status st'"
  unfolding eval_targets_def
  by (auto elim!: exec_bindE split: option.split_asm intro: targets_loop_good)

lemma eval_rules_good:
  "eval_rules env flag user st = Inr (Some (status, st')) \<Longrightarrow> good_result flag status st'"
  unfolding eval_rules_def
  by (auto elim!: exec_bindE split: option.split_asm intro: rules_loop_good)

lemma eval_fallthrough_good:
  assumes "eval_fallthrough ext flag user st = Inr (status, st')"
  shows "good_result flag status st'"
  using assms unfolding eval_fallthrough_def Let_def
  by (auto elim!: exec_bindE split: option.split_asm if_split_asm dest!: addValue_True
      simp: good_result_def match_result_def details_ok_def)

lemma eval_rest_good:
  assumes "eval_rest env flag user st = Inr (status, st')"
  shows "good_result flag status st'"
  using assms unfolding eval_rest_def
  by (auto elim!: exec_bindE split: option.split_asm)
    (auto dest: eval_targets_good eval_rules_good eval_fallthrough_good)

lemma eval_prerequisite_failed_good:
  assumes "eval_prerequisite_failed flag failedKey st = Inr (status, st')"
  shows "good_result flag status st'"
  using assms unfolding eval_prerequisite_failed_def
  by (auto elim!: exec_bindE split: if_split_asm dest!: addValue_True
      simp: good_result_def miss_result_def details_ok_def)

lemma eval_flag_good:
  assumes "eval_flag env eval user flag st = Inr (status, st')" and "\<not> d_hasVariation (es_details st)"
  shows "good_result flag status st'"
  using assms unfolding eval_flag_def
  by (auto elim!: exec_bindE split: option.split_asm if_split_asm)
    (auto dest: eval_off_good eval_prerequisite_failed_good eval_rest_good good_result_error)

text \<open>What an error leaves behind: the outputs as they were; or, for a schema error, malformed flag
  data in the details and no value; or the reason of the rule or the fallthrough whose variation
  could not be determined; or the variation of a matched rule whose identifier is not text.\<close>

definition untouched_outputs :: "evalstate \<Rightarrow> evalstate \<Rightarrow> bool" where
  "untouched_outputs st st' \<longleftrightarrow> es_details st' = es_details st \<and> es_value st' = es_value st"

definition malformed_outputs :: "evalstate \<Rightarrow> bool" where
  "malformed_outputs st \<longleftrightarrow> es_value st = None \<and> es_details st =
     \<lparr>d_variationIndex = 0, d_hasVariation = False, d_reason = LD_ERROR, d_extra = ErrorKind LD_MALFORMED_FLAG\<rparr>"

definition undetermined_outputs :: "evalstate \<Rightarrow> evalstate \<Rightarrow> bool" where
  "undetermined_outputs st st' \<longleftrightarrow> es_value st' = es_value st \<and>
     d_hasVariation (es_details st') = d_hasVariation (es_details st) \<and>
     (d_reason (es_details st') = LD_FALLTHROUGH \<and> d_extra (es_details st') = d_extra (es_details st) \<or>
      d_reason (es_details st') = LD_RULE_MATCH \<and> (\<exists>i. d_extra (es_details st') = DetailsRule i None None))"

definition error_result :: "LDJSON \<Rightarrow> EvalStatus \<Rightarrow> evalstate \<Rightarrow> evalstate \<Rightarrow> bool" where
  "error_result flag status st st' \<longleftrightarrow> (LDi_isEvalError status \<longrightarrow> untouched_outputs st st' \<or>
     status = EVAL_SCHEMA \<and> (malformed_outputs st' \<or> undetermined_outputs st st' \<or>
       d_reason (es_details st') = LD_RULE_MATCH \<and> d_hasVariation (es_details st') \<and> value_selected flag st'))"

lemma error_result_simps [simp]:
  "error_result flag EVAL_MATCH st st'" "error_result flag EVAL_MISS st st'" "error_result flag status st st"
  by (simp_all add: error_result_def LDi_isEvalError_def untouched_outputs_def)

lemma addValue_False: "addValue flag i st = Inr (False, st') \<Longrightarrow> malformed_outputs st'"
  by (auto simp: addValue_def malformed_outputs_def LDDetailsClear_def LDDetailsInit_def elim!: exec_bindE split: option.split_asm)

lemma malformed_error [simp]: "malformed_outputs st' \<Longrightarrow> error_result flag EVAL_SCHEMA st st'"
  by (simp add: error_result_def)

lemma targets_loop_error:
  "targets_loop flag user st ts = Inr (Some (status, st')) \<Longrightarrow> error_result flag status st st'"
  by (induction ts)
    (auto elim!: exec_bindE split: if_split_asm option.split_asm bool.split_asm dest!: addValue_False)

lemma rule_matched_error:
  assumes "rule_matched ext flag user index rule st = Inr (status, st')"
  shows "error_result flag status st st'"
  using assms unfolding rule_matched_def Let_def
  by (auto elim!: exec_bindE split: option.split_asm if_split_asm dest!: addValue_False addValue_True
      simp: error_result_def undetermined_outputs_def LDi_isEvalError_def)

lemma rules_loop_error:
  "rules_loop env flag user st index rs = Inr (Some (status, st')) \<Longrightarrow> error_result flag status st st'"
  by (induction rs arbitrary: index)
    (auto elim!: exec_bindE split: if_split_asm intro: rule_matched_error)

lemma eval_fallthrough_error:
  assumes "eval_fallthrough ext flag user st = Inr (status, st')"
  shows "error_result flag status st st'"
  using assms unfolding eval_fallthrough_def Let_def
  by (auto elim!: exec_bindE split: option.split_asm if_split_asm dest!: addValue_False
      simp: error_result_def undetermined_outputs_def LDi_isEvalError_def)

lemma eval_rest_error:
  assumes "eval_rest env flag user st = Inr (status, st')"
  shows "error_result flag status st st'"
  using assms unfolding eval_rest_def eval_targets_def eval_rules_def
  by (auto elim!: exec_bindE split: option.split_asm
      dest!: targets_loop_error rules_loop_error eval_fallthrough_error)

lemma prereq_loop_outputs:
  "prereq_loop env eval flag user fk st ps = Inr (s, fk', st') \<Longrightarrow> untouched_outputs st st'"
proof (induction ps arbitrary: fk st)
  case (Cons p ps)
  have same: "untouched_outputs st (st\<lparr>es_ticks := n\<rparr>)" "untouched_outputs st (st\<lparr>es_ticks := n, es_events := e\<rparr>)" for n e
    by (simp_all add: untouched_outputs_def)
  show ?case
    using Cons.prems unfolding prereq_loop.simps Let_def
    by (auto elim!: exec_bindE split: if_split_asm option.split_asm dest!: Cons.IH simp: untouched_outputs_def)
qed (simp add: untouched_outputs_def)

lemma checkPrerequisites_outputs:
  "LDi_checkPrerequisites env eval flag user st = Inr (s, fk, st') \<Longrightarrow> untouched_outputs st st'"
  unfolding LDi_checkPrerequisites_def
  by (auto elim!: exec_bindE split: option.split_asm dest!: prereq_loop_outputs simp: untouched_outputs_def)

lemma error_result_untouched:
  "untouched_outputs st st1 \<Longrightarrow> error_result flag status st1 st' \<Longrightarrow> error_result flag status st st'"
  by (auto simp: error_result_def untouched_outputs_def undetermined_outputs_def)

lemma eval_flag_error:
  assumes "eval_flag env eval user flag st = Inr (status, st')"
  shows "error_result flag status st st'"
proof -
  have off: "eval_off flag st = Inr (s, s') \<Longrightarrow> error_result flag s st s'" for s s'
    by (auto simp: eval_off_def Let_def elim!: exec_bindE split: if_split_asm dest!: addValue_False)
  have failed: "eval_prerequisite_failed flag fk s0 = Inr (s, s') \<Longrightarrow> error_result flag s s0 s'" for fk s0 s s'
    by (auto simp: eval_prerequisite_failed_def elim!: exec_bindE split: if_split_asm dest!: addValue_False)
  have pre: "untouched_outputs st s1 \<Longrightarrow> error_result flag s st s1" for s s1
    by (simp add: error_result_def)
  show ?thesis
    using assms unfolding eval_flag_def
    by (auto elim!: exec_bindE split: option.split_asm if_split_asm
        dest!: off checkPrerequisites_outputs failed eval_rest_error)
      (rule pre error_result_untouched; assumption)+
qed


section \<open>A sample environment\<close>

text \<open>
  A store with one flag, a flag that requires it, and the default configuration: the
  concrete inputs on which the theorems about evaluation are instantiated.
\<close>

definition base_flag :: LDJSON where
  "base_flag = JObject [(''key'', JText ''base''), (''on'', JBool True), (''salt'', JText ''s''),
     (''version'', JNumber (uint_to_dbl 3)), (''variations'', JArray [JBool False, JBool True]),
     (''fallthrough'', JObject [(''variation'', JNumber (uint_to_dbl 1))])]"

fun sample_store :: "FeatureKind \<Rightarrow> string \<Rightarrow> (bool \<times> LDJSON option) exec" where
  "sample_store LD_FLAG k = Inr (True, if k = ''base'' then Some base_flag else None)"
| "sample_store LD_SEGMENT k = Inr (True, None)"

definition sample_env :: "nat evalenv" where
  "sample_env = \<lparr>e_ext = sample_ext, e_store = sample_store, e_config = sample_config,
     e_clock = (\<lambda>t. Some (Fin 5))\<rparr>"

definition sample_flag :: LDJSON where
  "sample_flag = JObject [(''key'', JText ''top''), (''on'', JBool True), (''salt'', JText ''s''),
     (''prerequisites'', JArray [JObject [(''key'', JText ''base''), (''variation'', JNumber (uint_to_dbl 1))]]),
     (''variations'', JArray [JText ''a'', JText ''b'']), (''offVariation'', JNumber (uint_to_dbl 0)),
     (''fallthrough'', JObject [(''variation'', JNumber (uint_to_dbl 1))])]"

lemmas eval_defs = eval_flag_def eval_off_def eval_rest_def eval_targets_def eval_rules_def
  eval_fallthrough_def eval_prerequisite_failed_def LDi_checkPrerequisites_def
  lookupOptionalValueOfType_def lookupRequiredValueOfType_def prereq_satisfied_def
  LDi_getIndexForVariationOrRollout_def LDi_variationIndexForUser_def addValue_def getValue_def
  set_reason_def set_extra_def fresh_outputs_def new_details_def append_events_def LDi_isEvalError_def
  LDTimestamp_InitNow_def LDi_getUnixMilliseconds_def Let_def

lemmas event_defs = LDi_newFeatureEvent_def LDi_addUserInfoToEvent_def flag_members_def copy_typed_def
  flag_switch_def add_reason_def LDReasonToJSON_def tracking_def rule_tracked_def LDi_notNull_def
  LDi_newBaseEvent_def set_key_JObject set_opt_def mark_event_def

lemmas sample_defs = sample_env_def sample_flag_def base_flag_def sample_config_def LDConfigNew_def

lemma uint_not_neg [simp]: "\<not> dbl_lt (uint_to_dbl w) (Fin 0)"
  unfolding uint_to_dbl_def dbl_lt.simps not_less by (rule of_nat_0_le_iff)

definition sample_outcome :: "LDJSON option \<Rightarrow> evalstate" where
  "sample_outcome events = \<lparr>es_details = \<lparr>d_variationIndex = 1, d_hasVariation = True,
       d_reason = LD_FALLTHROUGH, d_extra = DetailsFallthrough False\<rparr>,
     es_events = events, es_value = Some (JText ''b''), es_ticks = 1\<rparr>"

lemma sample_evaluation:
  "\<exists>e. LDi_evaluate 2 sample_env sample_user sample_flag (fresh_outputs 0) =
     Inr (EVAL_MATCH, sample_outcome (Some (JArray [e])))"
  by (simp add: numeral_2_eq_2 eval_defs event_defs sample_defs sample_outcome_def)


section \<open>Depth\<close>

text \<open>A computation that ends, normally or by a fault, within the depth it was given.\<close>

definition ends :: "'a exec \<Rightarrow> bool" where
  "ends m \<longleftrightarrow> m \<noteq> Inl NoReturn"

lemma ends_simps [simp]: "ends (Inr x)" "ends (Inl e) \<longleftrightarrow> e \<noteq> NoReturn"
  by (simp_all add: ends_def)

lemma ends_bind: "ends (exec_bind m f) \<longleftrightarrow> ends m \<and> (\<forall>x. m = Inr x \<longrightarrow> ends (f x))"
  by (cases m) (auto simp: ends_def)

text \<open>An evaluation function that agrees with another wherever that one ends.\<close>

definition extends ::
  "(LDJSON \<Rightarrow> evalstate \<Rightarrow> 'r exec) \<Rightarrow> (LDJSON \<Rightarrow> evalstate \<Rightarrow> 'r exec) \<Rightarrow> bool" where
  "extends f g \<longleftrightarrow> (\<forall>flag st. ends (f flag st) \<longrightarrow> g flag st = f flag st)"

lemma bind_extends:
  assumes "ends m \<Longrightarrow> m' = m" and "\<And>x. m = Inr x \<Longrightarrow> ends (f x) \<Longrightarrow> f' x = f x" and "ends (exec_bind m f)"
  shows "exec_bind m' f' = exec_bind m f"
  using assms by (cases m) (auto simp: ends_def)

lemma prereq_loop_extends:
  assumes "extends f g" and "ends (prereq_loop env f flag user k st ps)"
  shows "prereq_loop env g flag user k st ps = prereq_loop env f flag user k st ps"
  using assms(2)
proof (induction ps arbitrary: k st)
  case (Cons p ps)
  have fg: "ends (f pf s) \<Longrightarrow> g pf s = f pf s" for pf s
    using assms(1) by (simp add: extends_def)
  show ?case
    using Cons.prems
    unfolding prereq_loop.simps Let_def
    by (elim bind_extends [rotated 2]; (rule refl)?)
      (auto split: option.splits if_splits prod.splits intro!: bind_extends fg Cons.IH simp: Let_def)
qed simp

lemma eval_flag_extends:
  assumes "extends f g" and "ends (eval_flag env f user flag st)"
  shows "eval_flag env g user flag st = eval_flag env f user flag st"
proof -
  have "LDi_checkPrerequisites env g flag user st = LDi_checkPrerequisites env f flag user st"
    if "ends (LDi_checkPrerequisites env f flag user st)"
    using that unfolding LDi_checkPrerequisites_def
    by (elim bind_extends [rotated 2])
      (auto split: option.splits intro: prereq_loop_extends [OF assms(1)])
  then show ?thesis
    using assms(2) unfolding eval_flag_def
    by (auto split: if_splits option.splits elim!: bind_extends [rotated 2])
qed

lemma LDi_evaluate_Suc: "extends (LDi_evaluate n env user) (LDi_evaluate (Suc n) env user)"
proof (induction n)
  case (Suc n)
  from eval_flag_extends [OF this] show ?case
    unfolding extends_def LDi_evaluate.simps(2) [of "Suc n"] LDi_evaluate.simps(2) [of n] by blast
qed (simp add: extends_def ends_def)

lemma LDi_evaluate_mono:
  assumes "ends (LDi_evaluate n env user flag st)" and "n \<le> m"
  shows "LDi_evaluate m env user flag st = LDi_evaluate n env user flag st"
  using assms(2)
proof (induction m rule: dec_induct)
  case (step m)
  then show ?case using LDi_evaluate_Suc [of m env user] assms(1) by (simp add: extends_def)
qed simp

subsection \<open>Everything but the recursion ends\<close>

named_theorems ends_rules "computations that end at any depth"

lemma ends_lookup [ends_rules]:
  "ends (lookupRequiredValueOfType j k T)" "ends (lookupOptionalValueOfType j k T)"
  by (auto simp: lookupRequiredValueOfType_def lookupOptionalValueOfType_def ends_bind ld_assert_def
      split: option.splits)

lemma ends_basic [ends_rules]:
  "ends (ld_assert b)" "ends (deref p)" "ends (dbl_to_int_range lo hi d)"
  "ends (LDTimestamp_InitNow c)"
  by (auto simp: ld_assert_def deref_def dbl_to_int_range_def LDTimestamp_InitNow_def
      LDi_getUnixMilliseconds_def split: option.splits dbl.splits)

lemma ends_conv [ends_rules]: "ends (dbl_to_uint d)" "ends (dbl_to_int32 d)" "ends (dbl_to_int64 d)"
  by (simp_all add: dbl_to_uint_def dbl_to_int32_def dbl_to_int64_def ends_bind ends_rules)

lemma ends_valueOfAttribute [ends_rules]: "ends (LDi_valueOfAttribute user a)"
  by (auto simp: LDi_valueOfAttribute_def ends_bind ends_rules split: option.splits)

lemma ends_textInArray [ends_rules]: "ends (LDi_textInArray j t)"
proof -
  have "ends (text_in_nodes xs t)" for xs
    by (induction xs) (auto simp: ends_bind ends_rules)
  then show ?thesis by (simp add: LDi_textInArray_def)
qed

lemma ends_maybeNegate [ends_rules]: "ends (maybeNegate c s)"
  by (auto simp: maybeNegate_def ends_bind ends_rules split: option.splits)

lemma ends_addValue [ends_rules]: "ends (addValue flag i st)"
proof -
  have "ends (getValue flag i)"
    by (auto simp: getValue_def ends_bind ends_rules split: option.splits)
  then show ?thesis by (auto simp: addValue_def ends_bind split: option.splits)
qed

lemma ends_bucket [ends_rules]:
  "ends (LDi_getBucketAttribute j)" "ends (LDi_bucketUser ext user k a salt seed)"
  by (auto simp: LDi_getBucketAttribute_def LDi_bucketUser_def Let_def ends_bind ends_rules
      split: option.splits prod.splits)

lemma ends_rollout_loop [ends_rules]: "ends (rollout_loop b e s sv u vs)"
  by (induction vs arbitrary: s sv u)
    (auto simp: Let_def ends_bind ends_rules split: option.splits)

lemma ends_getIndex [ends_rules]: "ends (LDi_getIndexForVariationOrRollout ext flag vr user)"
proof -
  have "ends (LDi_variationIndexForUser ext v user key salt)" for v key salt
    by (auto simp: LDi_variationIndexForUser_def Let_def ends_bind ends_rules split: option.splits)
  then show ?thesis
    by (auto simp: LDi_getIndexForVariationOrRollout_def ends_bind ends_rules split: option.splits)
qed

lemma ends_parseTime [ends_rules]: "ends (LDi_parseTime ext j)"
  by (auto simp: LDi_parseTime_def Let_def ends_bind ends_rules split: LDJSON.splits option.splits)

lemma ends_compare [ends_rules]: "ends (compareTime ext u c f)" "ends (compareSemVer ext u c g)"
  by (auto simp: compareTime_def compareSemVer_def checkstring_def ends_bind ends_rules
      split: option.splits LDJSON.splits prod.splits)

lemma ends_operation: "LDi_lookupOperation ext op = Some f \<Longrightarrow> ends (f u c)"
  by (auto simp: LDi_lookupOperation_def operatorInFn_def operatorStartsWithFn_def operatorEndsWithFn_def
      operatorMatchesFn_def operatorContainsFn_def operatorLessThanFn_def operatorLessThanOrEqualFn_def
      operatorGreaterThanFn_def operatorGreaterThanOrEqualFn_def operatorBefore_def operatorAfter_def
      operatorSemVerEqual_def operatorSemVerLessThan_def operatorSemVerGreaterThan_def
      checkstring_def checknumber_def ends_rules split: if_splits LDJSON.splits option.splits)

lemma ends_matchAny: "(\<And>u c. ends (f u c)) \<Longrightarrow> ends (matchAny f v vs)"
proof -
  assume "\<And>u c. ends (f u c)"
  then have "ends (match_any_loop f v xs)" for xs
    by (induction xs) (auto simp: ends_bind)
  then show ?thesis by (simp add: matchAny_def)
qed

lemma ends_attr_array: "(\<And>u c. ends (f u c)) \<Longrightarrow> ends (attr_array_loop f vs xs)"
  by (induction xs) (auto simp: ends_bind ends_matchAny)

lemma ends_clauseNoSegments [ends_rules]: "ends (LDi_clauseMatchesUserNoSegments ext c user)"
  by (auto simp: LDi_clauseMatchesUserNoSegments_def ends_bind ends_rules ends_operation
      intro!: ends_matchAny ends_attr_array split: option.splits sum.splits)

lemma ends_clauses_loop: "(\<And>c. ends (f c)) \<Longrightarrow> ends (clauses_loop f cs)"
  by (induction cs) (auto simp: ends_bind)

lemma ends_segment [ends_rules]: "ends (LDi_segmentMatchesUser ext s user)"
proof -
  have rule: "ends (LDi_segmentRuleMatchUser ext r k user salt)" for r k salt
    by (auto simp: LDi_segmentRuleMatchUser_def ends_bind ends_rules
        intro!: ends_clauses_loop split: option.splits)
  have "ends (segment_rules_loop ext k user salt rs)" for k salt rs
    by (induction rs) (auto simp: ends_bind rule)
  moreover have "ends (key_listed j m user)" for j m
    by (auto simp: key_listed_def ends_bind ends_rules split: option.splits)
  ultimately show ?thesis
    by (auto simp: LDi_segmentMatchesUser_def ends_bind ends_rules split: option.splits bool.splits)
qed

text \<open>The reads of the store end.\<close>

definition store_ends :: "'sv evalenv \<Rightarrow> bool" where
  "store_ends env \<longleftrightarrow> (\<forall>kind k. ends (e_store env kind k))"

lemma ends_ruleMatches: "store_ends env \<Longrightarrow> ends (LDi_ruleMatchesUser env r user)"
proof -
  assume st: "store_ends env"
  have "ends (segment_match_loop env user c vs)" for c vs
    using st by (induction vs) (auto simp: ends_bind ends_rules store_ends_def split: option.splits)
  then have "ends (LDi_clauseMatchesUser env c user)" for c
    by (auto simp: LDi_clauseMatchesUser_def ends_bind ends_rules split: option.splits)
  then show ?thesis
    by (auto simp: LDi_ruleMatchesUser_def ends_bind ends_rules intro!: ends_clauses_loop
        split: option.splits)
qed

lemma ends_eval_rest: "store_ends env \<Longrightarrow> ends (eval_rest env flag user st)"
proof -
  assume st: "store_ends env"
  have key: "ends (key_listed j m user)" for j m
    by (auto simp: key_listed_def ends_bind ends_rules split: option.splits)
  have targets: "ends (targets_loop flag user st ts)" for ts
    by (induction ts) (auto simp: ends_bind ends_rules key split: option.splits bool.splits)
  have rule: "ends (rule_matched ext flag user i r st)" for ext i r
    by (auto simp: rule_matched_def Let_def ends_bind ends_rules split: option.splits)
  have "ends (rules_loop env flag user st i rs)" for i rs
    by (induction rs arbitrary: i) (auto simp: ends_bind rule ends_ruleMatches [OF st])
  with targets show ?thesis
    by (auto simp: eval_rest_def eval_targets_def eval_rules_def eval_fallthrough_def Let_def
        ends_bind ends_rules split: option.splits)
qed

subsection \<open>Acyclic prerequisites\<close>

text \<open>The keys of a flag's prerequisites, and a rank that falls along them for all flags of the store.\<close>

definition prereq_key :: "LDJSON \<Rightarrow> string option" where
  "prereq_key p = LDGetText (obj_lookup p ''key'')"

definition prereq_keys :: "LDJSON \<Rightarrow> string list" where
  "prereq_keys flag = List.map_filter prereq_key (iter_values (obj_lookup flag ''prerequisites''))"

definition ranked :: "'sv evalenv \<Rightarrow> (string \<Rightarrow> nat) \<Rightarrow> bool" where
  "ranked env rank \<longleftrightarrow> (\<forall>k f. e_store env LD_FLAG k = Inr (True, Some f) \<longrightarrow>
     (\<forall>k'\<in>set (prereq_keys f). rank k' < rank k))"

lemma ends_userToJSON [ends_rules]: "ends (LDi_userToJSON user r allp glob)"
proof -
  have priv: "ends (isPrivateAttr user k allp glob)" for k
    by (auto simp: isPrivateAttr_def ends_bind ends_rules split: option.splits)
  have fields: "ends (addstrings user r allp glob fs st)" for fs st
    by (induction fs arbitrary: st) (auto simp: addstring_def ends_bind priv split: option.splits)
  have "ends (redact_custom user allp glob ks st)" for ks st
    by (induction ks arbitrary: st) (auto simp: ends_bind priv)
  with fields show ?thesis
    by (auto simp: LDi_userToJSON_def Let_def ends_bind split: option.splits LDJSON.splits)
qed

lemma ends_featureEvent [ends_rules]:
  "ends (LDi_newFeatureEvent key user v val def pre flag det ts inl allp names)"
proof -
  have "ends (LDReasonToJSON d)" for d
    by (auto simp: LDReasonToJSON_def Let_def split: option.splits extra.splits)
  moreover have "ends (tracking f d b)" for f d b
    by (auto simp: tracking_def rule_tracked_def Let_def ends_bind split: option.splits extra.splits)
  ultimately show ?thesis
    by (auto simp: LDi_newFeatureEvent_def LDi_addUserInfoToEvent_def add_reason_def Let_def ends_bind ends_rules
        split: option.splits prod.splits)
qed

lemma ends_prereq_loop:
  assumes "store_ends env"
    and "\<And>p k f st. p \<in> set ps \<Longrightarrow> prereq_key p = Some k \<Longrightarrow>
      e_store env LD_FLAG k = Inr (True, Some f) \<Longrightarrow> ends (eval f st)"
  shows "ends (prereq_loop env eval flag user fk st ps)"
  using assms(2)
proof (induction ps arbitrary: fk st)
  case (Cons p ps)
  have IH: "ends (prereq_loop env eval flag user fk' st' ps)" for fk' st'
    using Cons.prems by (intro Cons.IH) auto
  have sat: "ends (prereq_satisfied pf d v)" for pf d v
    by (auto simp: prereq_satisfied_def Let_def ends_bind ends_rules split: option.splits)
  have ev: "obj_lookup p ''key'' = Some (JText k) \<Longrightarrow>
      e_store env LD_FLAG k = Inr (True, Some f) \<Longrightarrow> ends (eval f st)" for k f st
    using Cons.prems [of p k f st] by (simp add: prereq_key_def)
  show ?case
    using assms(1)
    by (auto simp: Let_def ends_bind ends_rules exec_simps store_ends_def sat IH json_type_iff
        split: option.splits intro: ev)
qed simp

lemma ends_evaluate_rank:
  assumes "store_ends env" and "ranked env rank"
    and "\<forall>k\<in>set (prereq_keys flag). rank k < n"
  shows "ends (LDi_evaluate (Suc n) env user flag st)"
  using assms(3)
proof (induction n arbitrary: flag st rule: less_induct)
  case (less n)
  have ev: "ends (LDi_evaluate n env user f st')"
    if "k \<in> set (prereq_keys flag)" "e_store env LD_FLAG k = Inr (True, Some f)" for k f st'
  proof -
    have k: "rank k < n" using less.prems that(1) by blast
    have "\<forall>k'\<in>set (prereq_keys f). rank k' < rank k"
      using assms(2) that(2) by (auto simp: ranked_def)
    then have "ends (LDi_evaluate (Suc (rank k)) env user f st')" using less.IH [OF k] by blast
    moreover have "Suc (rank k) \<le> n" using k by simp
    ultimately show ?thesis using LDi_evaluate_mono by metis
  qed
  have loop: "ends (prereq_loop env (LDi_evaluate n env user) flag user None st (iter_values (Some ps)))"
    if "obj_lookup flag ''prerequisites'' = Some ps" for ps
    using assms(1) that by (intro ends_prereq_loop ev) (auto simp: prereq_keys_def set_map_filter)
  have "ends (LDi_checkPrerequisites env (LDi_evaluate n env user) flag user st)"
    unfolding LDi_checkPrerequisites_def
    by (auto simp: ends_bind ends_rules lookupOptionalValueOfType_def exec_simps loop
        split: option.splits if_splits)
  then show ?case
    by (auto simp: eval_flag_def ends_bind ends_rules eval_off_def Let_def eval_prerequisite_failed_def
        ends_eval_rest [OF assms(1)] split: option.splits)
qed

text \<open>C2: evaluation returns whenever the prerequisites of the flags in the store are acyclic:
  with a rank that falls along prerequisites, any depth above the ranks of a flag's own
  prerequisites gives the same result, and that result is not a lack of depth.\<close>

theorem acyclic_evaluation_ends:
  assumes "store_ends env" and "ranked env rank" and "\<forall>k\<in>set (prereq_keys flag). rank k < n"
  shows "\<exists>r. r \<noteq> Inl NoReturn \<and> (\<forall>depth > n. LDi_evaluate depth env user flag st = r)"
proof -
  have "ends (LDi_evaluate (Suc n) env user flag st)" using ends_evaluate_rank [OF assms] .
  moreover from this have "\<forall>depth > n. LDi_evaluate depth env user flag st = LDi_evaluate (Suc n) env user flag st"
    using LDi_evaluate_mono by (metis Suc_leI)
  ultimately show ?thesis unfolding ends_def by blast
qed

theorem acyclic_evaluation_ends_witness:
  "\<exists>r. r \<noteq> Inl NoReturn \<and>
     (\<forall>depth > 1. LDi_evaluate depth sample_env sample_user sample_flag (fresh_outputs 0) = r)"
proof (rule acyclic_evaluation_ends [where rank = "\<lambda>k. if k = ''base'' then 0 else 1"])
  have "ends (sample_store kind k)" for kind k by (cases kind) simp_all
  then show "store_ends sample_env" by (simp add: store_ends_def sample_env_def)
  show "ranked sample_env (\<lambda>k. if k = ''base'' then 0 else 1)"
    by (simp add: ranked_def sample_defs prereq_keys_def map_filter_def)
  show "\<forall>k\<in>set (prereq_keys sample_flag). (if k = ''base'' then 0 else 1) < (1::nat)"
    by (simp add: sample_flag_def prereq_keys_def prereq_key_def map_filter_def)
qed

subsection \<open>Cyclic prerequisites\<close>

text \<open>The first prerequisite that evaluating a flag reaches, for a flag that is on.\<close>

definition first_prereq :: "LDJSON \<Rightarrow> string option" where
  "first_prereq flag = (case (obj_lookup flag ''on'', obj_lookup flag ''prerequisites'') of
       (Some (JBool True), Some (JArray (p # ps))) \<Rightarrow>
         (case (obj_lookup p ''key'', obj_lookup p ''variation'') of
            (Some (JText k), Some (JNumber v)) \<Rightarrow> Some k
          | _ \<Rightarrow> None)
     | _ \<Rightarrow> None)"

lemma obj_lookup_object: "obj_lookup j k = Some v \<Longrightarrow> LDJSONGetType (Some j) = LDObject"
  by (cases j) auto

lemma first_prereq_SomeE:
  assumes "first_prereq flag = Some k"
  obtains p ps v where "obj_lookup flag ''on'' = Some (JBool True)"
    "obj_lookup flag ''prerequisites'' = Some (JArray (p # ps))"
    "obj_lookup p ''key'' = Some (JText k)" "obj_lookup p ''variation'' = Some (JNumber v)"
  using assms unfolding first_prereq_def
  by (auto split: option.split_asm LDJSON.split_asm list.split_asm bool.split_asm)

text \<open>C36: the code does not detect cyclic prerequisites. When every flag of a set is on and its
  first prerequisite leads to a flag of the set again (a flag that requires itself is the
  simplest case), evaluating any of them exhausts every depth: the recursion never ends.\<close>

theorem prerequisite_cycle_never_returns:
  assumes "\<forall>f\<in>S. \<exists>k g. first_prereq f = Some k \<and> e_store env LD_FLAG k = Inr (True, Some g) \<and> g \<in> S"
    and "\<forall>t. e_clock env t \<noteq> None" and "flag \<in> S"
  shows "LDi_evaluate depth env user flag st = Inl NoReturn"
  using assms(3)
proof (induction depth arbitrary: flag st)
  case (Suc depth)
  obtain k g where k: "first_prereq flag = Some k" "e_store env LD_FLAG k = Inr (True, Some g)" "g \<in> S"
    using assms(1) Suc.prems by blast
  obtain p ps v where p: "obj_lookup flag ''on'' = Some (JBool True)"
    "obj_lookup flag ''prerequisites'' = Some (JArray (p # ps))"
    "obj_lookup p ''key'' = Some (JText k)" "obj_lookup p ''variation'' = Some (JNumber v)"
    using k(1) by (rule first_prereq_SomeE)
  obtain c where c: "e_clock env (es_ticks st) = Some c" using assms(2) by auto
  have "LDJSONGetType (Some flag) = LDObject" "LDJSONGetType (Some p) = LDObject"
    using p obj_lookup_object by blast+
  then show ?case
    using p k c Suc.IH [OF k(3)]
    by (simp add: eval_flag_def lookupOptionalValueOfType_def lookupRequiredValueOfType_def
        LDi_checkPrerequisites_def LDTimestamp_InitNow_def LDi_getUnixMilliseconds_def Let_def)
qed simp

definition self_flag :: LDJSON where
  "self_flag = JObject [(''key'', JText ''loop''), (''on'', JBool True),
     (''prerequisites'', JArray [JObject [(''key'', JText ''loop''), (''variation'', JNumber (Fin 0))]])]"

theorem prerequisite_cycle_never_returns_witness:
  "LDi_evaluate 1000 (sample_env\<lparr>e_store := (\<lambda>kind k. Inr (True, Some self_flag))\<rparr>) sample_user self_flag
     (fresh_outputs 0) = Inl NoReturn"
  by (rule prerequisite_cycle_never_returns [where S = "{self_flag}"])
    (simp_all add: first_prereq_def self_flag_def sample_env_def)

end
