(* ===== verification/Rollout.thy ===== *)
theory Rollout
  imports EvaluateResult
begin

text \<open>
  Percentage rollouts: the bucket of a user lies between zero and one, both included,
  and a rollout serves the first variation whose cumulative weight exceeds the bucket,
  the last one if none does.
\<close>

section \<open>The bucket of a user\<close>

lemma dbl_le_refl: "a \<noteq> NaN \<Longrightarrow> dbl_le a a"
  by (cases a) (auto simp: dbl_le_def)

lemma dbl_le_not_NaN: "dbl_le a b \<Longrightarrow> a \<noteq> NaN \<and> b \<noteq> NaN"
  by (cases a; cases b) (auto simp: dbl_le_def)

lemma fl32_not_NaN [simp]: "fl32 x \<noteq> NaN"
  by (simp add: fl32_def)

lemma dbl_le_Fin_between: "dbl_le (Fin a) x \<Longrightarrow> dbl_le x (Fin b) \<Longrightarrow> \<exists>y. x = Fin y \<and> a \<le> y \<and> y \<le> b"
  by (cases x) (auto simp: dbl_le_def)

definition hex_add :: "dbl \<Rightarrow> rat \<Rightarrow> dbl" where
  "hex_add m d = (case m of Fin x \<Rightarrow> fl32 (x + d) | _ \<Rightarrow> m)"

lemma hex_add_mono: "dbl_le m n \<Longrightarrow> d \<le> e \<Longrightarrow> dbl_le (hex_add m d) (hex_add n e)"
  by (cases m; cases n) (auto simp: hex_add_def dbl_le_def [of PInf] dbl_le_def [of NInf]
      dbl_le_def [of NaN] intro: fl32_mono, auto simp: dbl_le_def fl32_def fl_def Let_def)

lemma hex_step_add: "hex_step (Fin a) d = hex_add (fl32 (a * 16)) d"
  by (simp add: hex_add_def split: dbl.split)

lemma hex_step_mono:
  assumes "dbl_le a b" and "d \<le> e"
  shows "dbl_le (hex_step a d) (hex_step b e)"
proof (cases a)
  case (Fin x)
  show ?thesis
  proof (cases b)
    case (Fin y)
    with assms \<open>a = Fin x\<close> have "dbl_le (fl32 (x * 16)) (fl32 (y * 16))"
      by (intro fl32_mono) simp
    then show ?thesis using Fin \<open>a = Fin x\<close> assms(2) by (simp only: hex_step_add hex_add_mono)
  next
    case PInf
    have "hex_step a d \<noteq> NaN" by (simp add: \<open>a = Fin x\<close> split: dbl.split)
    with PInf show ?thesis by (cases "hex_step a d") (auto simp: dbl_le_def)
  qed (use assms Fin in \<open>auto simp: dbl_le_def\<close>)
next
  case NInf
  then show ?thesis using assms dbl_le_not_NaN [OF assms(1)]
    by (cases b) (auto simp: dbl_le_def split: dbl.splits, auto simp: fl32_def fl_def Let_def split: if_splits)
qed (use assms in \<open>cases b; auto simp: dbl_le_def\<close>)+

text \<open>The largest accumulator after a number of hexadecimal digits.\<close>

fun hex_max :: "nat \<Rightarrow> dbl" where
  "hex_max 0 = Fin 0"
| "hex_max (Suc n) = hex_step (hex_max n) 15"

lemma hex_step_zero: "hex_step (Fin 0) 0 = Fin 0"
  by simp

lemma hex_loop_bounds:
  assumes "list_all hex_digit cs" and "dbl_le (Fin 0) acc" and "dbl_le acc (hex_max k)"
  shows "dbl_le (Fin 0) (hex_loop acc cs) \<and> dbl_le (hex_loop acc cs) (hex_max (k + length cs))"
  using assms
proof (induction cs arbitrary: acc k)
  case (Cons c cs)
  let ?i = "of_char c :: nat"
  have step: "hex_loop acc (c # cs) = hex_loop (hex_step acc (of_nat d)) cs \<Longrightarrow> d \<le> 15 \<Longrightarrow> ?case" for d
  proof -
    assume l: "hex_loop acc (c # cs) = hex_loop (hex_step acc (of_nat d)) cs" and d: "d \<le> 15"
    have "of_nat d \<le> (of_nat 15 :: rat)" using d by (simp only: of_nat_le_iff)
    then have up: "dbl_le (hex_step acc (of_nat d)) (hex_max (Suc k))"
      using hex_step_mono [OF Cons.prems(3)] by simp
    have "dbl_le (hex_step (Fin 0) 0) (hex_step acc (of_nat d))"
      using Cons.prems(2) by (intro hex_step_mono) simp_all
    then have "dbl_le (Fin 0) (hex_step acc (of_nat d))" by (simp only: hex_step_zero)
    then show ?thesis using Cons.IH [OF _ _ up] Cons.prems(1) l by simp
  qed
  have "(48 \<le> ?i \<and> ?i \<le> 57) \<or> (97 \<le> ?i \<and> ?i \<le> 102)" using Cons.prems(1) by (simp add: hex_digit_def)
  then show ?case
    using step [of "?i - 48"] step [of "?i - 87"] by (auto simp: Let_def simp del: of_nat_diff)
qed simp

lemma hex_max_15: "hex_max 15 = Fin (2 ^ 60)"
  by (simp add: numeral_eq_Suc) (simp add: fl_eval)

lemma longScale_eq: "longScale = Fin (2 ^ 60)"
  by (simp add: longScale_def fl_eval)

lemma fl32_one: "fl32 1 = Fin 1"
  by (simp add: fl_eval)

lemma hexToDecimal_bounds:
  assumes "list_all hex_digit cs" and "length cs = 15"
  shows "\<exists>x. LDi_hexToDecimal cs = Fin x \<and> 0 \<le> x \<and> x \<le> 2 ^ 60"
  using hex_loop_bounds [OF assms(1), of "Fin 0" 0] assms(2)
  by (auto simp: LDi_hexToDecimal_def hex_max_15 intro: dbl_le_Fin_between)

lemma bucketUser_range:
  assumes "hexify_ok ext" and "LDi_bucketUser ext user k a salt seed = Inr (ok, b)"
  shows "\<exists>x. b = Fin x \<and> 0 \<le> x \<and> x \<le> 1"
proof -
  have enc: "\<exists>x. float_div (LDi_hexToDecimal (take 15 (snd (hexify ext (clibs_SHA1 ext raw) 17)))) longScale = Fin x \<and>
      0 \<le> x \<and> x \<le> 1" for raw
  proof -
    obtain e where e: "hexify ext (clibs_SHA1 ext raw) 17 = (16, e)" "length e = 16" "list_all hex_digit e"
      using assms(1) by (auto simp: hexify_ok_def)
    then have "list_all hex_digit (take 15 e)" by (auto simp: list_all_iff dest: in_set_takeD)
    then obtain x where x: "LDi_hexToDecimal (take 15 e) = Fin x" "0 \<le> x" "x \<le> 2 ^ 60"
      using hexToDecimal_bounds [of "take 15 e"] e(2) by auto
    then have "x / 2 ^ 60 \<le> 1" "0 \<le> x / 2 ^ 60" by simp_all
    then have "dbl_le (Fin 0) (fl32 (x / 2 ^ 60))" "dbl_le (fl32 (x / 2 ^ 60)) (Fin 1)"
      using fl32_mono [of "x / 2 ^ 60" 1] fl32_mono [of 0 "x / 2 ^ 60"] fl32_one by simp_all
    then show ?thesis using dbl_le_Fin_between x(1) e(1) by (simp add: longScale_eq)
  qed
  show ?thesis
    using assms(2) enc unfolding LDi_bucketUser_def Let_def
    by (auto elim!: exec_bindE split: option.split_asm if_split_asm prod.split_asm) (metis snd_conv)+
qed

text \<open>C32: a user's bucket, computed in single precision from fifteen hexadecimal digits of a
  SHA-1 digest, is a number between 0 and 1. Rounding can make it exactly 1, so a bucket is
  not always below the total weight of a rollout.\<close>

theorem bucket_in_unit_interval:
  assumes "hexify_ok ext" and "LDi_bucketUser ext user segmentKey attribute salt seed = Inr (ok, bucket)"
  shows "\<exists>x. bucket = Fin x \<and> 0 \<le> x \<and> x \<le> 1"
  using assms by (rule bucketUser_range)

lemma sample_bucket: "LDi_bucketUser sample_ext sample_user ''k'' ''key'' ''s'' None = Inr (True, Fin 0)"
proof -
  have "hexify sample_ext b n = (16, replicate 16 CHR ''0'')" for b n by (simp add: sample_ext_def)
  moreover have "LDi_hexToDecimal (replicate 15 CHR ''0'') = Fin 0"
    by (simp add: LDi_hexToDecimal_def numeral_eq_Suc)
  ultimately show ?thesis
    by (simp add: LDi_bucketUser_def LDi_valueOfAttribute_def sample_user_def LDi_userNew_def bucket_raw_def
        longScale_eq)
qed

theorem bucket_in_unit_interval_witness:
  "LDi_bucketUser sample_ext sample_user ''k'' ''key'' ''s'' None = Inr (True, Fin 0) \<and>
   (\<exists>x. Fin 0 = Fin x \<and> 0 \<le> x \<and> x \<le> 1)"
  using bucket_in_unit_interval [OF hexify_ok_sample sample_bucket] sample_bucket by blast

section \<open>The variation a rollout serves\<close>

text \<open>An optional member is absent, null or of the given type.\<close>

definition opt_member :: "LDJSON \<Rightarrow> string \<Rightarrow> LDJSONType \<Rightarrow> bool" where
  "opt_member j k T \<longleftrightarrow> (case obj_lookup j k of None \<Rightarrow> True
     | Some v \<Rightarrow> LDJSONGetType (Some v) = LDNull \<or> LDJSONGetType (Some v) = T)"

definition req_member :: "LDJSON \<Rightarrow> string \<Rightarrow> LDJSONType \<Rightarrow> bool" where
  "req_member j k T \<longleftrightarrow> (case obj_lookup j k of None \<Rightarrow> False | Some v \<Rightarrow> LDJSONGetType (Some v) = T)"

definition member_value :: "LDJSON \<Rightarrow> string \<Rightarrow> LDJSON option" where
  "member_value j k = (case obj_lookup j k of None \<Rightarrow> None
     | Some v \<Rightarrow> if LDJSONGetType (Some v) = LDNull then None else Some v)"

lemma lookupOptional_ok:
  "LDJSONGetType (Some j) = LDObject \<Longrightarrow> opt_member j k T \<Longrightarrow>
   lookupOptionalValueOfType j k T = Inr (Some (member_value j k))"
  by (auto simp: lookupOptionalValueOfType_def opt_member_def member_value_def split: option.splits)

lemma lookupRequired_ok:
  "LDJSONGetType (Some j) = LDObject \<Longrightarrow> req_member j k T \<Longrightarrow>
   lookupRequiredValueOfType j k T = Inr (obj_lookup j k)"
  by (auto simp: lookupRequiredValueOfType_def req_member_def split: option.splits)

lemma req_member_object: "req_member j k T \<Longrightarrow> LDJSONGetType (Some j) = LDObject"
  by (auto simp: req_member_def split: option.splits dest: obj_lookup_object)

definition wf_weighted :: "LDJSON \<Rightarrow> bool" where
  "wf_weighted v \<longleftrightarrow> req_member v ''weight'' LDNumber \<and> req_member v ''variation'' LDNumber \<and>
     opt_member v ''untracked'' LDBool"

definition untracked :: "LDJSON \<Rightarrow> bool" where
  "untracked v = LDGetBool (member_value v ''untracked'')"

text \<open>The cumulative weights as the loop adds them up, in single precision.\<close>

definition add_weight :: "dbl \<Rightarrow> LDJSON \<Rightarrow> dbl" where
  "add_weight acc v = to_float (dbl_add acc (dbl_div_const (LDGetNumber (obj_lookup v ''weight'')) 100000))"

fun cumulative :: "dbl \<Rightarrow> LDJSON list \<Rightarrow> dbl list" where
  "cumulative acc [] = []"
| "cumulative acc (v # vs) = add_weight acc v # cumulative (add_weight acc v) vs"

lemma length_cumulative [simp]: "length (cumulative acc vs) = length vs"
  by (induction vs arbitrary: acc) auto

lemma cumulative_Nil [simp]: "cumulative acc vs = [] \<longleftrightarrow> vs = []"
  by (cases vs) auto

text \<open>The position of the first threshold above the bucket, or the last position.\<close>

fun pick :: "dbl \<Rightarrow> dbl list \<Rightarrow> nat" where
  "pick b [] = 0"
| "pick b (t # ts) = (if dbl_lt b t \<or> ts = [] then 0 else Suc (pick b ts))"

lemma pick_less: "ts \<noteq> [] \<Longrightarrow> pick b ts < length ts"
  by (induction ts) auto

lemma pick_first: "j < pick b ts \<Longrightarrow> \<not> dbl_lt b (ts ! j)"
  by (induction ts arbitrary: j) (auto split: if_splits, case_tac j, auto)

lemma pick_above: "ts \<noteq> [] \<Longrightarrow> dbl_lt b (ts ! pick b ts) \<or> pick b ts = length ts - 1"
  by (induction ts) auto

lemma rollout_loop_pick:
  assumes "list_all wf_weighted vs" and "vs \<noteq> []"
  shows "rollout_loop b e acc sv u vs =
     (let v = vs ! pick b (cumulative acc vs) in Inr (Some (obj_lookup v ''variation'', e \<and> \<not> untracked v)))"
  using assms
proof (induction vs arbitrary: acc sv u)
  case (Cons v vs)
  have v: "req_member v ''weight'' LDNumber" "req_member v ''variation'' LDNumber"
    "opt_member v ''untracked'' LDBool"
    using Cons.prems by (auto simp: wf_weighted_def)
  then obtain w s where ws: "obj_lookup v ''weight'' = Some w" "obj_lookup v ''variation'' = Some s"
    by (auto simp: req_member_def split: option.splits)
  have step: "rollout_loop b e acc sv u (v # vs) =
     (if dbl_lt b (add_weight acc v) then Inr (Some (Some s, e \<and> \<not> untracked v))
      else rollout_loop b e (add_weight acc v) (Some s) (untracked v) vs)"
    using v ws req_member_object [OF v(1)]
    by (simp add: lookupRequired_ok lookupOptional_ok untracked_def add_weight_def Let_def)
  show ?case
    unfolding step using Cons ws by (cases "vs = []") (auto simp: Let_def)
qed simp

definition seed_ok :: "LDJSON \<Rightarrow> bool" where
  "seed_ok r \<longleftrightarrow> opt_member r ''seed'' LDNumber \<and>
     (case member_value r ''seed'' of None \<Rightarrow> True
      | Some j \<Rightarrow> (\<exists>i. dbl_to_int32 (LDGetNumber (Some j)) = Inr i))"

definition wf_rollout :: "LDJSON \<Rightarrow> LDJSON list \<Rightarrow> bool" where
  "wf_rollout r vs \<longleftrightarrow> opt_member r ''kind'' LDText \<and> obj_lookup r ''variations'' = Some (JArray vs) \<and>
     vs \<noteq> [] \<and> length vs < 2 ^ 32 \<and> list_all wf_weighted vs \<and>
     opt_member r ''bucketBy'' LDText \<and> seed_ok r"

definition bucket_attribute :: "LDJSON \<Rightarrow> string" where
  "bucket_attribute r = (case member_value r ''bucketBy'' of Some (JText t) \<Rightarrow> t | _ \<Rightarrow> ''key'')"

definition rollout_seed :: "LDJSON \<Rightarrow> int option" where
  "rollout_seed r = (case member_value r ''seed'' of None \<Rightarrow> None
     | Some j \<Rightarrow> (case dbl_to_int32 (LDGetNumber (Some j)) of Inr i \<Rightarrow> Some i | Inl _ \<Rightarrow> None))"

definition is_experiment :: "LDJSON \<Rightarrow> bool" where
  "is_experiment r \<longleftrightarrow> LDGetText (member_value r ''kind'') = Some ''experiment''"

lemma getBucketAttribute_ok:
  assumes "LDJSONGetType (Some r) = LDObject" and "opt_member r ''bucketBy'' LDText"
  shows "LDi_getBucketAttribute r = Inr (Some (bucket_attribute r))"
  using assms
  by (auto simp: LDi_getBucketAttribute_def lookupOptional_ok bucket_attribute_def json_type_iff
      opt_member_def member_value_def split: option.splits)

lemma variationIndexForUser_rollout:
  assumes "LDJSONGetType (Some vr) = LDObject" and "member_value vr ''variation'' = None"
    and "obj_lookup vr ''rollout'' = Some r" and "wf_rollout r vs"
    and "LDi_bucketUser ext user key (bucket_attribute r) salt (rollout_seed r) = Inr (ok, b)"
  shows "LDi_variationIndexForUser ext vr user key salt =
     (let v = vs ! pick b (cumulative (Fin 0) vs) in
      Inr (Some (obj_lookup v ''variation'', is_experiment r \<and> \<not> untracked v)))"
proof -
  have r: "LDJSONGetType (Some r) = LDObject"
    using assms(4) obj_lookup_object by (auto simp: wf_rollout_def)
  have vr: "opt_member vr ''variation'' LDNumber"
    using assms(2) by (auto simp: opt_member_def member_value_def split: option.splits if_splits)
  have "(of_nat (length vs) :: uint) \<noteq> 0"
    using assms(4) by (auto simp: wf_rollout_def word_of_nat_eq_0_iff dvd_imp_le)
  then have size: "LDCollectionGetSize (Some (JArray vs)) \<noteq> 0"
    by (simp add: LDCollectionGetSize_def)
  have seed: "(case member_value r ''seed'' of None \<Rightarrow> Inr None
      | Some j \<Rightarrow> exec_bind (dbl_to_int32 (LDGetNumber (Some j))) (\<lambda>i. Inr (Some i))) = Inr (rollout_seed r)"
    using assms(4) by (auto simp: wf_rollout_def seed_ok_def rollout_seed_def split: option.splits)
  have req: "req_member vr ''rollout'' LDObject" "req_member r ''variations'' LDArray"
    using assms(3,4) r by (auto simp: req_member_def wf_rollout_def)
  show ?thesis
    using assms vr r size req
    by (simp add: LDi_variationIndexForUser_def lookupOptional_ok lookupRequired_ok wf_rollout_def seed_ok_def
        getBucketAttribute_ok seed rollout_loop_pick is_experiment_def Let_def)
qed

text \<open>C23: a well-formed percentage rollout serves exactly one of its variations: the first whose
  cumulative weight exceeds the user's bucket, or the last one if none does; the evaluation
  counts as an experiment only if the rollout is one and that variation is tracked.\<close>

theorem rollout_serves_first_threshold:
  assumes "LDJSONGetType (Some varOrRoll) = LDObject" and "member_value varOrRoll ''variation'' = None"
    and "obj_lookup varOrRoll ''rollout'' = Some r" and "wf_rollout r vs"
    and "LDi_bucketUser ext user key (bucket_attribute r) salt (rollout_seed r) = Inr (ok, bucket)"
  shows "\<exists>i < length vs.
     LDi_variationIndexForUser ext varOrRoll user key salt =
       Inr (Some (obj_lookup (vs ! i) ''variation'', is_experiment r \<and> \<not> untracked (vs ! i))) \<and>
     (\<forall>j < i. \<not> dbl_lt bucket (cumulative (Fin 0) vs ! j)) \<and>
     (dbl_lt bucket (cumulative (Fin 0) vs ! i) \<or> i = length vs - 1)"
proof -
  let ?ts = "cumulative (Fin 0) vs"
  have ne: "?ts \<noteq> []" using assms(4) by (simp add: wf_rollout_def)
  show ?thesis
    using variationIndexForUser_rollout [OF assms] pick_less [OF ne, of bucket] pick_above [OF ne, of bucket]
      pick_first [of _ bucket ?ts]
    by (intro exI [of _ "pick bucket ?ts"]) (auto simp: Let_def)
qed

definition sample_weighted :: "rat \<Rightarrow> uint \<Rightarrow> LDJSON" where
  "sample_weighted w v = JObject [(''weight'', JNumber (Fin w)), (''variation'', JNumber (uint_to_dbl v))]"

definition sample_rollout :: LDJSON where
  "sample_rollout = JObject [(''variations'', JArray [sample_weighted 60000 0, sample_weighted 40000 1])]"

theorem rollout_serves_first_threshold_witness:
  "\<exists>i < length [sample_weighted 60000 0, sample_weighted 40000 1].
     LDi_variationIndexForUser sample_ext (JObject [(''rollout'', sample_rollout)]) sample_user ''k'' ''s'' =
       Inr (Some (obj_lookup ([sample_weighted 60000 0, sample_weighted 40000 1] ! i) ''variation'',
         is_experiment sample_rollout \<and> \<not> untracked ([sample_weighted 60000 0, sample_weighted 40000 1] ! i))) \<and>
     (\<forall>j < i. \<not> dbl_lt (Fin 0) (cumulative (Fin 0) [sample_weighted 60000 0, sample_weighted 40000 1] ! j)) \<and>
     (dbl_lt (Fin 0) (cumulative (Fin 0) [sample_weighted 60000 0, sample_weighted 40000 1] ! i) \<or>
      i = length [sample_weighted 60000 0, sample_weighted 40000 1] - 1)"
proof (rule rollout_serves_first_threshold)
  show "LDJSONGetType (Some (JObject [(''rollout'', sample_rollout)])) = LDObject"
    "member_value (JObject [(''rollout'', sample_rollout)]) ''variation'' = None"
    "obj_lookup (JObject [(''rollout'', sample_rollout)]) ''rollout'' = Some sample_rollout"
    by (simp_all add: member_value_def)
  show "wf_rollout sample_rollout [sample_weighted 60000 0, sample_weighted 40000 1]"
    by (simp add: wf_rollout_def sample_rollout_def sample_weighted_def wf_weighted_def opt_member_def
        req_member_def seed_ok_def member_value_def)
  have "bucket_attribute sample_rollout = ''key''" "rollout_seed sample_rollout = None"
    by (simp_all add: bucket_attribute_def rollout_seed_def member_value_def sample_rollout_def)
  then show "LDi_bucketUser sample_ext sample_user ''k'' (bucket_attribute sample_rollout) ''s''
      (rollout_seed sample_rollout) = Inr (True, Fin 0)"
    using sample_bucket by simp
qed

end
