(* ===== verification/Clauses.thy ===== *)
theory Clauses
  imports Rollout
begin

text \<open>
  What clauses, segments and rules decide, stated without the control flow of the code: a
  clause is a disjunction over its values, possibly negated; a rule is a conjunction over
  its clauses; a segment lists keys before it consults its rules.
\<close>

section \<open>Clauses\<close>

definition wf_clause :: "LDJSON \<Rightarrow> bool" where
  "wf_clause c \<longleftrightarrow> req_member c ''op'' LDText \<and> req_member c ''attribute'' LDText \<and>
     opt_member c ''values'' LDArray \<and> opt_member c ''negate'' LDBool"

definition text_member :: "LDJSON \<Rightarrow> string \<Rightarrow> string" where
  "text_member j k = (case obj_lookup j k of Some (JText t) \<Rightarrow> t | _ \<Rightarrow> [])"

definition clause_values :: "LDJSON \<Rightarrow> LDJSON list" where
  "clause_values c = iter_values (member_value c ''values'')"

definition negated :: "LDJSON \<Rightarrow> bool" where
  "negated c = LDGetBool (member_value c ''negate'')"

definition decide :: "bool \<Rightarrow> EvalStatus" where
  "decide b = (if b then EVAL_MATCH else EVAL_MISS)"

lemma decide_simps [simp]:
  "decide b = EVAL_MATCH \<longleftrightarrow> b" "decide b = EVAL_MISS \<longleftrightarrow> \<not> b" "\<not> LDi_isEvalError (decide b)"
  by (auto simp: decide_def LDi_isEvalError_def)

lemma status_not_error [simp]: "\<not> LDi_isEvalError EVAL_MATCH" "\<not> LDi_isEvalError EVAL_MISS"
  by (simp_all add: LDi_isEvalError_def)

lemma req_text: "req_member j k LDText \<Longrightarrow> obj_lookup j k = Some (JText (text_member j k))"
  by (auto simp: req_member_def text_member_def json_type_iff split: option.splits)

lemma maybeNegate_decide:
  "LDJSONGetType (Some c) = LDObject \<Longrightarrow> opt_member c ''negate'' LDBool \<Longrightarrow>
   maybeNegate c (decide b) = Inr (decide (b \<noteq> negated c))"
  by (auto simp: maybeNegate_def lookupOptional_ok negated_def decide_def LDi_isEvalError_def)

lemma maybeNegate_ok:
  assumes "LDJSONGetType (Some c) = LDObject" and "opt_member c ''negate'' LDBool"
  shows "maybeNegate c EVAL_MATCH = Inr (decide (\<not> negated c))"
    and "maybeNegate c EVAL_MISS = Inr (decide (negated c))"
  using maybeNegate_decide [OF assms, of True] maybeNegate_decide [OF assms, of False]
  by (simp_all add: decide_def)

text \<open>An operator that answers on all the values of a clause.\<close>

lemma matchAny_ok:
  assumes "\<forall>w\<in>set ws. f v w = Inr (g w)" and "iter_values vs = ws"
  shows "matchAny f v vs = Inr (decide (\<exists>w\<in>set ws. g w))"
proof -
  have "match_any_loop f v ws = Inr (decide (\<exists>w\<in>set ws. g w))"
    using assms(1) by (induction ws) (auto simp: decide_def)
  then show ?thesis by (simp add: matchAny_def assms(2))
qed

lemma attr_array_ok:
  assumes "\<forall>x\<in>set xs. LDJSONGetType (Some x) \<notin> {LDObject, LDArray}"
    and "\<forall>x\<in>set xs. \<forall>w\<in>set ws. f x w = Inr (g x w)" and "iter_values vs = ws"
  shows "attr_array_loop f vs xs = Inr (Inr (decide (\<exists>x\<in>set xs. \<exists>w\<in>set ws. g x w)))"
  using assms(1,2)
proof (induction xs)
  case (Cons x xs)
  have "matchAny f x vs = Inr (decide (\<exists>w\<in>set ws. g x w))"
    using Cons.prems assms(3) by (intro matchAny_ok) auto
  with Cons show ?case by (auto simp: decide_def)
qed (simp add: decide_def)

text \<open>The values a clause compares: the elements of an array attribute, or the attribute itself.\<close>

fun operands :: "LDJSON \<Rightarrow> LDJSON list" where
  "operands (JArray xs) = xs"
| "operands JNull = []"
| "operands j = [j]"

definition comparable :: "LDJSON \<Rightarrow> bool" where
  "comparable v \<longleftrightarrow> (case v of JArray xs \<Rightarrow> list_all (\<lambda>x. LDJSONGetType (Some x) \<notin> {LDObject, LDArray}) xs
     | JNull \<Rightarrow> False | _ \<Rightarrow> True)"

lemma clause_decides:
  assumes "wf_clause c" and "LDi_lookupOperation ext (text_member c ''op'') = Some f"
    and "LDi_valueOfAttribute user (text_member c ''attribute'') = Inr (Some v)" and "comparable v"
    and "\<forall>x\<in>set (operands v). \<forall>w\<in>set (clause_values c). f x w = Inr (g x w)"
  shows "LDi_clauseMatchesUserNoSegments ext c user =
     Inr (decide ((\<exists>x\<in>set (operands v). \<exists>w\<in>set (clause_values c). g x w) \<noteq> negated c))"
proof -
  have c: "LDJSONGetType (Some c) = LDObject" "req_member c ''op'' LDText" "req_member c ''attribute'' LDText"
    "opt_member c ''values'' LDArray" "opt_member c ''negate'' LDBool"
    using assms(1) by (auto simp: wf_clause_def dest: req_member_object)
  have pre: "LDi_clauseMatchesUserNoSegments ext c user =
     (if LDJSONGetType (Some v) = LDNull then Inr EVAL_MISS
      else if LDJSONGetType (Some v) = LDArray then
        exec_bind (attr_array_loop f (member_value c ''values'') (iter_values (Some v))) (\<lambda>r.
          case r of Inl status \<Rightarrow> Inr status | Inr status \<Rightarrow> maybeNegate c status)
      else exec_bind (matchAny f v (member_value c ''values'')) (\<lambda>evalStatus.
          if LDi_isEvalError evalStatus then Inr evalStatus else maybeNegate c evalStatus))"
    using c assms(2,3)
    by (simp add: LDi_clauseMatchesUserNoSegments_def lookupRequired_ok lookupOptional_ok req_text)
  show ?thesis
  proof (cases "LDJSONGetType (Some v) = LDArray")
    case True
    then obtain xs where v: "v = JArray xs" by (auto simp: json_type_iff)
    have "attr_array_loop f (member_value c ''values'') xs =
        Inr (Inr (decide (\<exists>x\<in>set xs. \<exists>w\<in>set (clause_values c). g x w)))"
      using assms(4,5) by (intro attr_array_ok) (auto simp: v comparable_def list_all_iff clause_values_def)
    then show ?thesis using pre c by (simp add: v maybeNegate_decide)
  next
    case False
    then have "operands v = [v]" "LDJSONGetType (Some v) \<noteq> LDNull"
      using assms(4) by (cases v; simp add: comparable_def)+
    moreover from this have "matchAny f v (member_value c ''values'') =
        Inr (decide (\<exists>w\<in>set (clause_values c). g v w))"
      using assms(5) by (intro matchAny_ok) (auto simp: clause_values_def)
    ultimately show ?thesis using pre c False by (simp add: maybeNegate_decide)
  qed
qed

section \<open>Rules\<close>

lemma clauses_loop_all:
  assumes "\<forall>c\<in>set cs. f c = Inr (decide (P c))"
  shows "clauses_loop f cs = Inr (decide (\<forall>c\<in>set cs. P c))"
  using assms by (induction cs) (auto simp: decide_def)

lemma rule_decides:
  assumes "LDJSONGetType (Some r) = LDObject" and "opt_member r ''clauses'' LDArray"
    and "\<forall>c\<in>set (iter_values (member_value r ''clauses'')).
      LDJSONGetType (Some c) = LDObject \<and> LDi_clauseMatchesUser env c user = Inr (decide (P c))"
  shows "LDi_ruleMatchesUser env r user =
     Inr (decide (\<forall>c\<in>set (iter_values (member_value r ''clauses'')). P c))"
proof -
  have "LDi_ruleMatchesUser env r user =
     clauses_loop (\<lambda>c. if LDJSONGetType (Some c) \<noteq> LDObject then Inr EVAL_SCHEMA
       else LDi_clauseMatchesUser env c user) (iter_values (member_value r ''clauses''))"
    using assms(1,2)
    by (auto simp: LDi_ruleMatchesUser_def lookupOptional_ok split: option.splits)
  also have "\<dots> = Inr (decide (\<forall>c\<in>set (iter_values (member_value r ''clauses'')). P c))"
    using assms(3) by (intro clauses_loop_all) auto
  finally show ?thesis .
qed

section \<open>Segments\<close>

definition keys_member :: "LDJSON \<Rightarrow> string \<Rightarrow> bool" where
  "keys_member j k \<longleftrightarrow> (case member_value j k of None \<Rightarrow> True | Some a \<Rightarrow> text_array a)"

definition listed :: "LDJSON \<Rightarrow> string \<Rightarrow> string \<Rightarrow> bool" where
  "listed j m key \<longleftrightarrow> (case member_value j m of None \<Rightarrow> False | Some a \<Rightarrow> key \<in> set (names_of a))"

lemma text_array_type: "text_array a \<Longrightarrow> LDJSONGetType (Some a) = LDArray"
  by (cases a) auto

lemma key_listed_ok:
  assumes "LDJSONGetType (Some j) = LDObject" and "keys_member j m"
  shows "key_listed j m user = Inr (Some (listed j m (u_key user)))"
proof -
  have "opt_member j m LDArray"
    using assms(2) by (auto simp: keys_member_def opt_member_def member_value_def
        split: option.splits if_splits dest: text_array_type)
  with assms show ?thesis
    by (auto simp: key_listed_def lookupOptional_ok keys_member_def listed_def LDi_textInArray_ok
        split: option.splits)
qed

lemma segment_rules_any:
  assumes "\<forall>r\<in>set rs. LDJSONGetType (Some r) = LDObject \<and>
      LDi_segmentRuleMatchUser ext r key user salt = Inr (decide (P r))"
  shows "segment_rules_loop ext key user salt rs = Inr (decide (\<exists>r\<in>set rs. P r))"
  using assms by (induction rs) (auto simp: decide_def)

lemma segment_decides:
  assumes "LDJSONGetType (Some s) = LDObject" and "keys_member s ''included''" and "keys_member s ''excluded''"
    and "opt_member s ''rules'' LDArray" and "req_member s ''key'' LDText" and "req_member s ''salt'' LDText"
    and "\<forall>r\<in>set (iter_values (member_value s ''rules'')). LDJSONGetType (Some r) = LDObject \<and>
      LDi_segmentRuleMatchUser ext r (text_member s ''key'') user (text_member s ''salt'') = Inr (decide (P r))"
  shows "LDi_segmentMatchesUser ext s user =
     Inr (decide (listed s ''included'' (u_key user) \<or>
       \<not> listed s ''excluded'' (u_key user) \<and> (\<exists>r\<in>set (iter_values (member_value s ''rules'')). P r)))"
proof -
  have rules: "segment_rules_loop ext (text_member s ''key'') user (text_member s ''salt'')
      (iter_values (member_value s ''rules'')) =
      Inr (decide (\<exists>r\<in>set (iter_values (member_value s ''rules'')). P r))"
    using assms(7) by (rule segment_rules_any)
  show ?thesis
    using assms(1-6) rules
    by (auto simp: LDi_segmentMatchesUser_def key_listed_ok lookupOptional_ok lookupRequired_ok req_text
        split: option.splits bool.splits) (auto simp: decide_def)
qed

text \<open>A segment clause: the keys it names that the store does not have are skipped.\<close>

lemma segment_match_loop_ok:
  assumes "LDJSONGetType (Some c) = LDObject" and "opt_member c ''negate'' LDBool"
    and "\<forall>v\<in>set vs. \<forall>k. LDGetText (Some v) = Some k \<longrightarrow>
      (\<exists>s. e_store env LD_SEGMENT k = Inr (True, s) \<and>
        (\<forall>seg. s = Some seg \<longrightarrow> LDi_segmentMatchesUser (e_ext env) seg user = Inr (decide (P seg))))"
  shows "segment_match_loop env user c vs = Inr (decide
     ((\<exists>v\<in>set vs. \<exists>k seg. LDGetText (Some v) = Some k \<and>
        e_store env LD_SEGMENT k = Inr (True, Some seg) \<and> P seg) \<noteq> negated c))"
  using assms(3)
proof (induction vs)
  case Nil
  then show ?case using assms(1,2) by (simp add: maybeNegate_ok)
next
  case (Cons v vs)
  show ?case
  proof (cases "LDGetText (Some v)")
    case None
    with Cons show ?thesis by simp
  next
    case (Some k)
    then obtain s where s: "e_store env LD_SEGMENT k = Inr (True, s)"
      "\<forall>seg. s = Some seg \<longrightarrow> LDi_segmentMatchesUser (e_ext env) seg user = Inr (decide (P seg))"
      using Cons.prems by (meson list.set_intros(1))
    with Cons Some assms(1,2) show ?thesis
      by (cases s) (auto simp: maybeNegate_ok)
  qed
qed

section \<open>Properties\<close>

text \<open>
  The values a clause gets to compare: the attribute itself, or the elements of an array attribute
  up to the first object or array in it, which ends the comparison.
\<close>

definition plain :: "LDJSON \<Rightarrow> bool" where
  "plain x \<longleftrightarrow> LDJSONGetType (Some x) \<notin> {LDObject, LDArray}"

fun tested :: "LDJSON \<Rightarrow> LDJSON list" where
  "tested (JArray xs) = takeWhile plain xs"
| "tested j = [j]"

fun interrupted :: "LDJSON \<Rightarrow> bool" where
  "interrupted (JArray xs) \<longleftrightarrow> \<not> list_all plain xs"
| "interrupted j \<longleftrightarrow> False"

lemma attr_array_tested:
  assumes "\<forall>x\<in>set (takeWhile plain xs). \<forall>w\<in>set ws. f x w = Inr (g x w)" and "iter_values vs = ws"
  shows "attr_array_loop f vs xs =
     (if \<exists>x\<in>set (takeWhile plain xs). \<exists>w\<in>set ws. g x w then Inr (Inr EVAL_MATCH)
      else if list_all plain xs then Inr (Inr EVAL_MISS) else Inr (Inl EVAL_MISS))"
  using assms(1)
proof (induction xs)
  case (Cons x xs)
  show ?case
  proof (cases "plain x")
    case True
    then have "matchAny f x vs = Inr (decide (\<exists>w\<in>set ws. g x w))"
      using Cons.prems assms(2) by (intro matchAny_ok) auto
    moreover have "LDJSONGetType (Some x) \<noteq> LDObject" "LDJSONGetType (Some x) \<noteq> LDArray"
      using True by (simp_all add: plain_def)
    ultimately show ?thesis using Cons True by (auto simp: decide_def)
  next
    case False
    then have "LDJSONGetType (Some x) = LDObject \<or> LDJSONGetType (Some x) = LDArray" by (simp add: plain_def)
    then show ?thesis using False by simp
  qed
qed simp

text \<open>C33: what a well-formed clause decides, in every case: with an operator the SDK does not know,
  for a user who has no such attribute or a null one, and for an array attribute in which an
  object or array comes before any match, it is a miss, also when the clause is negated; otherwise
  it is the disjunction of the operator over the values of the clause (and over the elements of an
  array attribute), exclusive-or its negate flag.\<close>

theorem clause_is_disjunction:
  assumes "wf_clause c" and "LDi_valueOfAttribute user (text_member c ''attribute'') = Inr attribute"
    and "\<forall>f v. LDi_lookupOperation ext (text_member c ''op'') = Some f \<and> attribute = Some v \<longrightarrow>
      (\<forall>x\<in>set (tested v). \<forall>w\<in>set (clause_values c). f x w = Inr (g x w))"
  shows "LDi_clauseMatchesUserNoSegments ext c user = Inr (decide
     (LDi_lookupOperation ext (text_member c ''op'') \<noteq> None \<and>
      (case attribute of None \<Rightarrow> False
       | Some v \<Rightarrow> v \<noteq> JNull \<and>
           (let hit = (\<exists>x\<in>set (tested v). \<exists>w\<in>set (clause_values c). g x w)
            in (interrupted v \<longrightarrow> hit) \<and> hit \<noteq> negated c))))"
proof -
  have c: "LDJSONGetType (Some c) = LDObject" "req_member c ''op'' LDText" "req_member c ''attribute'' LDText"
    "opt_member c ''values'' LDArray" "opt_member c ''negate'' LDBool"
    using assms(1) by (auto simp: wf_clause_def dest: req_member_object)
  note run = LDi_clauseMatchesUserNoSegments_def lookupRequired_ok lookupOptional_ok req_text
  show ?thesis
  proof (cases "LDi_lookupOperation ext (text_member c ''op'') = None \<or> attribute = None \<or> attribute = Some JNull")
    case True
    then show ?thesis using c assms(2) by (auto simp: run decide_def split: option.split)
  next
    case False
    then obtain f v where f: "LDi_lookupOperation ext (text_member c ''op'') = Some f" and v: "attribute = Some v" "v \<noteq> JNull"
      by auto
    have pre: "LDi_clauseMatchesUserNoSegments ext c user =
       (if LDJSONGetType (Some v) = LDArray then
          exec_bind (attr_array_loop f (member_value c ''values'') (iter_values (Some v))) (\<lambda>r.
            case r of Inl status \<Rightarrow> Inr status | Inr status \<Rightarrow> maybeNegate c status)
        else exec_bind (matchAny f v (member_value c ''values'')) (\<lambda>evalStatus.
            if LDi_isEvalError evalStatus then Inr evalStatus else maybeNegate c evalStatus))"
      using c assms(2) f v by (auto simp: run json_type_iff)
    show ?thesis
    proof (cases "LDJSONGetType (Some v) = LDArray")
      case True
      then obtain xs where xs: "v = JArray xs" by (auto simp: json_type_iff)
      then have "attr_array_loop f (member_value c ''values'') xs =
         (if \<exists>x\<in>set (takeWhile plain xs). \<exists>w\<in>set (clause_values c). g x w then Inr (Inr EVAL_MATCH)
          else if list_all plain xs then Inr (Inr EVAL_MISS) else Inr (Inl EVAL_MISS))"
        using assms(3) f v by (intro attr_array_tested) (auto simp: clause_values_def)
      then show ?thesis using pre c f v xs by (auto simp: maybeNegate_ok decide_def)
    next
      case False
      then have t: "tested v = [v]" "\<not> interrupted v" by (cases v; simp)+
      then have "matchAny f v (member_value c ''values'') = Inr (decide (\<exists>w\<in>set (clause_values c). g v w))"
        using assms(3) f v by (intro matchAny_ok) (auto simp: clause_values_def)
      then show ?thesis using pre c f v t False by (simp add: maybeNegate_decide)
    qed
  qed
qed

definition sample_clause :: LDJSON where
  "sample_clause = JObject [(''op'', JText ''in''), (''attribute'', JText ''key''),
     (''values'', JArray [JText ''amy'', JText ''bob'']), (''negate'', JBool True)]"

theorem clause_is_disjunction_witness:
  "LDi_clauseMatchesUserNoSegments sample_ext sample_clause sample_user = Inr EVAL_MISS \<and>
   LDi_clauseMatchesUserNoSegments sample_ext (JObject [(''op'', JText ''in''), (''attribute'', JText ''plan''),
     (''negate'', JBool True)]) sample_user = Inr EVAL_MISS"
proof (rule conjI, goal_cases)
  case 1
  have "LDi_lookupOperation sample_ext ''in'' = Some operatorInFn"
    by (simp add: LDi_lookupOperation_def)
  then show ?case
    using clause_is_disjunction [of sample_clause sample_user "Some (JText ''bob'')" sample_ext
        "\<lambda>x w. LDJSONCompare (Some x) (Some w)"]
    by (simp add: wf_clause_def sample_clause_def req_member_def opt_member_def text_member_def member_value_def
        LDi_valueOfAttribute_def sample_user_def LDi_userNew_def operatorInFn_def clause_values_def negated_def
        LDJSONCompare_def decide_def)
next
  case 2
  show ?case
    using clause_is_disjunction [of "JObject [(''op'', JText ''in''), (''attribute'', JText ''plan''), (''negate'', JBool True)]"
        sample_user None sample_ext "\<lambda>x w. False"]
    by (simp add: wf_clause_def req_member_def opt_member_def text_member_def member_value_def
        LDi_valueOfAttribute_def sample_user_def LDi_userNew_def decide_def)
qed

text \<open>A rule is the conjunction of its clauses; a rule without clauses matches every user.\<close>

theorem rule_is_conjunction:
  assumes "LDJSONGetType (Some r) = LDObject" and "opt_member r ''clauses'' LDArray"
    and "\<forall>c\<in>set (iter_values (member_value r ''clauses'')).
      LDJSONGetType (Some c) = LDObject \<and> LDi_clauseMatchesUser env c user = Inr (decide (P c))"
  shows "LDi_ruleMatchesUser env r user =
     Inr (decide (\<forall>c\<in>set (iter_values (member_value r ''clauses'')). P c))"
  using assms by (rule rule_decides)

theorem rule_is_conjunction_witness:
  "LDi_ruleMatchesUser sample_env (JObject [(''clauses'', JArray [sample_clause])]) sample_user = Inr EVAL_MISS"
proof -
  have "LDi_clauseMatchesUser sample_env sample_clause sample_user = Inr (decide False)"
    by (simp add: LDi_clauseMatchesUser_def LDi_clauseMatchesUserNoSegments_def sample_clause_def sample_env_def
        lookupRequiredValueOfType_def lookupOptionalValueOfType_def LDi_lookupOperation_def
        LDi_valueOfAttribute_def sample_user_def LDi_userNew_def matchAny_def operatorInFn_def
        LDJSONCompare_def maybeNegate_def LDi_isEvalError_def decide_def)
  then show ?thesis
    using rule_is_conjunction [of "JObject [(''clauses'', JArray [sample_clause])]" sample_env sample_user "\<lambda>c. False"]
    by (simp add: opt_member_def member_value_def decide_def sample_clause_def)
qed

text \<open>A segment contains a user whose key it includes; failing that, not one whose key it
  excludes; failing that, one that some rule of the segment matches.\<close>

theorem segment_lists_before_rules:
  assumes "LDJSONGetType (Some s) = LDObject" and "keys_member s ''included''" and "keys_member s ''excluded''"
    and "opt_member s ''rules'' LDArray" and "req_member s ''key'' LDText" and "req_member s ''salt'' LDText"
    and "\<forall>r\<in>set (iter_values (member_value s ''rules'')). LDJSONGetType (Some r) = LDObject \<and>
      LDi_segmentRuleMatchUser ext r (text_member s ''key'') user (text_member s ''salt'') = Inr (decide (P r))"
  shows "LDi_segmentMatchesUser ext s user =
     Inr (decide (listed s ''included'' (u_key user) \<or>
       \<not> listed s ''excluded'' (u_key user) \<and> (\<exists>r\<in>set (iter_values (member_value s ''rules'')). P r)))"
  using assms by (rule segment_decides)

definition sample_segment :: LDJSON where
  "sample_segment = JObject [(''key'', JText ''seg''), (''salt'', JText ''s''),
     (''included'', JArray [JText ''bob'']), (''excluded'', JArray [JText ''bob''])]"

theorem segment_lists_before_rules_witness:
  "LDi_segmentMatchesUser sample_ext sample_segment sample_user = Inr EVAL_MATCH"
  using segment_lists_before_rules [of sample_segment sample_ext sample_user "\<lambda>r. False"]
  by (simp add: sample_segment_def keys_member_def opt_member_def req_member_def member_value_def listed_def
      sample_user_def LDi_userNew_def List.map_filter_simps decide_def)

text \<open>A segment clause holds, before negation, when one of the named segments that the store
  has contains the user; names of segments the store does not have are skipped.\<close>

theorem segment_clause_is_disjunction:
  assumes "obj_lookup c ''op'' = Some (JText ''segmentMatch'')" and "opt_member c ''values'' LDArray"
    and "opt_member c ''negate'' LDBool"
    and "\<forall>v\<in>set (clause_values c). \<forall>k. LDGetText (Some v) = Some k \<longrightarrow>
      (\<exists>s. e_store env LD_SEGMENT k = Inr (True, s) \<and>
        (\<forall>seg. s = Some seg \<longrightarrow> LDi_segmentMatchesUser (e_ext env) seg user = Inr (decide (P seg))))"
  shows "LDi_clauseMatchesUser env c user = Inr (decide
     ((\<exists>v\<in>set (clause_values c). \<exists>k seg. LDGetText (Some v) = Some k \<and>
        e_store env LD_SEGMENT k = Inr (True, Some seg) \<and> P seg) \<noteq> negated c))"
proof -
  have c: "LDJSONGetType (Some c) = LDObject" using assms(1) by (rule obj_lookup_object)
  have "LDi_clauseMatchesUser env c user = segment_match_loop env user c (clause_values c)"
    using c assms(1,2)
    by (auto simp: LDi_clauseMatchesUser_def lookupRequiredValueOfType_def lookupOptional_ok clause_values_def
        split: option.split)
  then show ?thesis using segment_match_loop_ok [OF c assms(3,4)] by simp
qed

theorem segment_clause_is_disjunction_witness:
  "LDi_clauseMatchesUser (sample_env\<lparr>e_store := (\<lambda>kind k. Inr (True, if k = ''seg'' then Some sample_segment else None))\<rparr>)
     (JObject [(''op'', JText ''segmentMatch''), (''values'', JArray [JText ''gone'', JText ''seg''])])
     sample_user = Inr EVAL_MATCH"
proof -
  have "LDi_segmentMatchesUser sample_ext sample_segment sample_user = Inr (decide True)"
    by (simp add: LDi_segmentMatchesUser_def key_listed_def lookupOptionalValueOfType_def sample_segment_def
        LDi_textInArray_def sample_user_def LDi_userNew_def decide_def)
  then show ?thesis
    using segment_clause_is_disjunction [of "JObject [(''op'', JText ''segmentMatch''), (''values'', JArray [JText ''gone'', JText ''seg''])]"
        "sample_env\<lparr>e_store := (\<lambda>kind k. Inr (True, if k = ''seg'' then Some sample_segment else None))\<rparr>"
        sample_user "\<lambda>seg. True"]
    by (simp add: opt_member_def member_value_def clause_values_def negated_def sample_env_def decide_def)
qed

end
