(* ===== verification/EventProcessor.thy ===== *)
theory EventProcessor
  imports Events Lru
begin

text \<open>
  The event processor, \<open>src/event_processor.c\<close>: the bounded queue of events, the summary
  counters, the set of recently seen users and the payload handed to the sender. The lock
  makes each operation atomic. Readings of the system and the monotonic clock are
  arguments.
\<close>

section \<open>State\<close>

record LDEventProcessor =
  ep_events :: LDJSON
  ep_summaryCounters :: LDJSON
  ep_summaryStart :: dbl
  ep_userKeys :: LDLRU
  ep_lastUserKeyFlush :: LDTimer
  ep_lastServerTime :: LDTimestamp
  ep_config :: LDConfig

definition LDEventProcessor_Create :: "LDConfig \<Rightarrow> dbl option \<Rightarrow> LDEventProcessor exec" where
  "LDEventProcessor_Create config reading =
     exec_bind (LDTimer_Reset reading) (\<lambda>timer.
       Inr \<lparr>ep_events = JArray [], ep_summaryCounters = JObject [], ep_summaryStart = Fin 0,
            ep_userKeys = LDLRUInit (c_userKeysCapacity config), ep_lastUserKeyFlush = timer,
            ep_lastServerTime = LDTimestamp_InitZero, ep_config = config\<rparr>)"

text \<open>What an evaluation reports, \<open>struct EvaluationResult\<close>.\<close>

record EvaluationResult =
  r_user :: LDUser
  r_subEvents :: "LDJSON option"
  r_flagKey :: string
  r_actualValue :: "LDJSON option"
  r_fallbackValue :: "LDJSON option"
  r_flag :: "LDJSON option"
  r_details :: LDDetails
  r_detailedEvaluation :: bool

section \<open>Queueing\<close>

definition LDi_addEvent :: "LDEventProcessor \<Rightarrow> LDJSON \<Rightarrow> LDEventProcessor exec" where
  "LDi_addEvent p event =
     exec_bind (ld_assert (LDJSONGetType (Some (ep_events p)) = LDArray)) (\<lambda>_.
       if LDCollectionGetSize (Some (ep_events p)) \<ge> c_eventsCapacity (ep_config p) then Inr p
       else Inr (p\<lparr>ep_events := the (snd (LDArrayPush (Some (ep_events p)) (Some event)))\<rparr>))"

definition user_json :: "LDEventProcessor \<Rightarrow> LDUser \<Rightarrow> LDJSON exec" where
  "user_json p user = LDi_userToJSON user True (c_allAttributesPrivate (ep_config p))
     (Some (c_privateAttributeNames (ep_config p)))"

definition convertToDebug :: "LDEventProcessor \<Rightarrow> LDJSON \<Rightarrow> LDUser \<Rightarrow> LDJSON exec" where
  "convertToDebug p event user =
     (let event = delete_key event ''kind'';
          event = delete_key event ''userKey'';
          event = set_key event ''kind'' (JText ''debug'')
      in exec_bind (user_json p user) (\<lambda>inlineUser. Inr (set_key event ''user'' inlineUser)))"

text \<open>The members that steer queueing are taken off the event before it is queued.\<close>

definition strip_reason :: "LDJSON \<Rightarrow> bool \<Rightarrow> LDJSON" where
  "strip_reason event detailed =
     (let tmp = LDObjectLookup (Some event) ''shouldAlwaysTrackDetails'' in
      if LDi_notNull tmp then
        delete_key (if \<not> LDGetBool tmp then delete_key event ''reason'' else event) ''shouldAlwaysTrackDetails''
      else if \<not> detailed then delete_key event ''reason'' else event)"

definition LDi_possiblyQueueEvent ::
  "LDEventProcessor \<Rightarrow> LDJSON \<Rightarrow> LDTimestamp \<Rightarrow> EvaluationResult \<Rightarrow> LDEventProcessor exec" where
  "LDi_possiblyQueueEvent p event now result =
     (let shouldTrack = LDGetBool (LDObjectLookup (LDObjectLookup (Some event) ''reason'') ''inExperiment'');
          event = strip_reason event (r_detailedEvaluation result);
          tmp = LDObjectLookup (Some event) ''trackEvents'';
          shouldTrack = (if LDi_notNull tmp \<and> \<not> shouldTrack then LDGetBool tmp else shouldTrack);
          event = (if LDi_notNull tmp then delete_key event ''trackEvents'' else event);
          tmp = LDObjectLookup (Some event) ''debugEventsUntilDate''
      in exec_bind
        (if LDi_notNull tmp then
           exec_bind (LDTimestamp_InitUnixMillis (LDGetNumber tmp)) (\<lambda>debugUntil.
             let event = delete_key event ''debugEventsUntilDate'' in
             if LDTimestamp_Before now debugUntil \<and> LDTimestamp_Before (ep_lastServerTime p) debugUntil then
               exec_bind (convertToDebug p event (r_user result)) (\<lambda>debugEvent.
               exec_bind (LDi_addEvent p debugEvent) (\<lambda>p. Inr (p, event)))
             else Inr (p, event))
         else Inr (p, event)) (\<lambda>(p, event).
        if shouldTrack then LDi_addEvent p event else Inr p))"

section \<open>Summaries\<close>

text \<open>
  Writing through a pointer to a member: its entry keeps its place in the object.
\<close>

fun update_entries :: "string \<Rightarrow> LDJSON \<Rightarrow> (string \<times> LDJSON) list \<Rightarrow> (string \<times> LDJSON) list" where
  "update_entries k v [] = []"
| "update_entries k v (e # es) = (if fst e = k then (k, v) # es else e # update_entries k v es)"

fun update_member :: "LDJSON \<Rightarrow> string \<Rightarrow> LDJSON \<Rightarrow> LDJSON" where
  "update_member (JObject es) k v = JObject (update_entries k v es)"
| "update_member j k v = j"

definition copy_notnull :: "LDJSON \<Rightarrow> string \<Rightarrow> LDJSON \<Rightarrow> LDJSON" where
  "copy_notnull event key entry =
     (let tmp = LDObjectLookup (Some event) key in
      if LDi_notNull tmp then set_key entry key (the tmp) else entry)"

definition new_flag_context :: "LDJSON \<Rightarrow> LDJSON" where
  "new_flag_context event =
     set_key (copy_notnull event ''default'' (JObject [])) ''counters'' (JObject [])"

definition new_counter :: "LDJSON \<Rightarrow> bool \<Rightarrow> LDJSON" where
  "new_counter event unknown =
     (let entry = set_key (JObject []) ''count'' (JNumber (Fin 1));
          entry = copy_notnull event ''value'' entry;
          entry = copy_notnull event ''version'' entry;
          entry = copy_notnull event ''variation'' entry
      in if unknown then set_key entry ''unknown'' (JBool True) else entry)"

text \<open>The counters object of a flag after one more event with the given summary key.\<close>

definition count_event :: "LDJSON \<Rightarrow> string \<Rightarrow> LDJSON \<Rightarrow> bool \<Rightarrow> LDJSON exec" where
  "count_event counters keytext event unknown =
     (case LDObjectLookup (Some counters) keytext of
        None \<Rightarrow> Inr (set_key counters keytext (new_counter event unknown))
      | Some entry \<Rightarrow>
          (case LDObjectLookup (Some entry) ''count'' of
             None \<Rightarrow> Inl AssertFailed
           | Some tmp \<Rightarrow>
               (case LDSetNumber (Some tmp) (dbl_add (LDGetNumber (Some tmp)) (Fin 1)) of
                  (status, tmp') \<Rightarrow>
                    exec_bind (ld_assert status) (\<lambda>_.
                      Inr (update_member counters keytext (update_member entry ''count'' (the tmp')))))))"

definition LDi_summarizeEvent ::
  "LDEventProcessor \<Rightarrow> LDJSON \<Rightarrow> bool \<Rightarrow> dbl option \<Rightarrow> (bool \<times> LDEventProcessor) exec" where
  "LDi_summarizeEvent p event unknown reading =
     (let tmp = LDObjectLookup (Some event) ''key'' in
      exec_bind (ld_assert (tmp \<noteq> None \<and> LDJSONGetType tmp = LDText)) (\<lambda>_.
      exec_bind (deref (LDGetText tmp)) (\<lambda>flagKey.
      exec_bind (LDi_makeSummaryKey event) (\<lambda>keytext.
      case keytext of None \<Rightarrow> Inr (False, p)
      | Some keytext \<Rightarrow>
      exec_bind (if dbl_eq (ep_summaryStart p) (Fin 0)
           then exec_bind (LDi_getUnixMilliseconds reading) (\<lambda>now. Inr (p\<lparr>ep_summaryStart := now\<rparr>))
           else Inr p) (\<lambda>p.
      let summary = (case LDObjectLookup (Some (ep_summaryCounters p)) flagKey of
             None \<Rightarrow> set_key (ep_summaryCounters p) flagKey (new_flag_context event)
           | Some _ \<Rightarrow> ep_summaryCounters p);
          flagContext = the (LDObjectLookup (Some summary) flagKey);
          counters = LDObjectLookup (Some flagContext) ''counters''
      in exec_bind (ld_assert (counters \<noteq> None \<and> LDJSONGetType counters = LDObject)) (\<lambda>_.
         exec_bind (count_event (the counters) keytext event unknown) (\<lambda>counters.
           Inr (True, p\<lparr>ep_summaryCounters :=
             update_member summary flagKey (update_member flagContext ''counters'' counters)\<rparr>))))))))"

definition LDi_objectToArray :: "LDJSON \<Rightarrow> LDJSON exec" where
  "LDi_objectToArray object =
     exec_bind (ld_assert (LDJSONGetType (Some object) = LDObject)) (\<lambda>_.
       Inr (JArray (iter_values (Some object))))"

fun summary_features :: "(string \<times> LDJSON) list \<Rightarrow> (string \<times> LDJSON) list exec" where
  "summary_features [] = Inr []"
| "summary_features ((k, iter) # rest) =
     (case LDObjectDetachKey (Some iter) ''counters'' of (countersObject, iter') \<Rightarrow>
        exec_bind (ld_assert (countersObject \<noteq> None)) (\<lambda>_.
        exec_bind (LDi_objectToArray (the countersObject)) (\<lambda>countersArray.
        exec_bind (summary_features rest) (\<lambda>rest.
          Inr ((k, set_key (the iter') ''counters'' countersArray) # rest)))))"

fun object_entries :: "LDJSON \<Rightarrow> (string \<times> LDJSON) list" where
  "object_entries (JObject es) = es"
| "object_entries _ = []"

definition LDi_prepareSummaryEvent :: "LDEventProcessor \<Rightarrow> dbl \<Rightarrow> LDJSON exec" where
  "LDi_prepareSummaryEvent p now =
     (let summary = set_key (JObject []) ''kind'' (JText ''summary'');
          summary = set_key summary ''startDate'' (JNumber (ep_summaryStart p));
          summary = set_key summary ''endDate'' (JNumber now)
      in exec_bind (summary_features (object_entries (ep_summaryCounters p))) (\<lambda>counters.
        Inr (set_key summary ''features'' (JObject counters))))"

section \<open>Index events\<close>

text \<open>
  The time since the keys were last flushed is read once; when it is over the interval
  the set is cleared and the timer restarted from a second reading.
\<close>

definition flush_user_keys ::
  "LDEventProcessor \<Rightarrow> dbl option \<Rightarrow> dbl option \<Rightarrow> LDEventProcessor exec" where
  "flush_user_keys p elapsedReading resetReading =
     exec_bind (LDTimer_Elapsed (ep_lastUserKeyFlush p) elapsedReading) (\<lambda>elapsedMs.
       if dbl_lt (uint_to_dbl (c_userKeysFlushInterval (ep_config p))) elapsedMs then
         exec_bind (LDTimer_Reset resetReading) (\<lambda>timer.
           Inr (p\<lparr>ep_userKeys := LDLRUClear (ep_userKeys p), ep_lastUserKeyFlush := timer\<rparr>))
       else Inr p)"

definition LDi_maybeMakeIndexEvent ::
  "LDEventProcessor \<Rightarrow> LDUser \<Rightarrow> LDTimestamp \<Rightarrow> dbl option \<Rightarrow> dbl option \<Rightarrow>
   (bool \<times> LDJSON option \<times> LDEventProcessor) exec"
where
  "LDi_maybeMakeIndexEvent p user timestamp elapsedReading resetReading =
     (if c_inlineUsersInEvents (ep_config p) then Inr (True, None, p)
      else exec_bind (flush_user_keys p elapsedReading resetReading) (\<lambda>p.
        exec_bind (LDLRUInsert (ep_userKeys p) (u_key user)) (\<lambda>(status, lru).
        let p = p\<lparr>ep_userKeys := lru\<rparr> in
        if status = LDLRUSTATUS_ERROR then Inr (False, None, p)
        else if status = LDLRUSTATUS_EXISTED then Inr (True, None, p)
        else exec_bind (user_json p user) (\<lambda>tmp.
          Inr (True, Some (set_key (LDi_newBaseEvent ''index'' timestamp) ''user'' tmp), p)))))"

section \<open>Operations of the client\<close>

text \<open>The clock readings one operation may take, in the order the code takes them.\<close>

record readings =
  rd_now :: "dbl option"
  rd_elapsed :: "dbl option"
  rd_reset :: "dbl option"
  rd_summary :: "nat \<Rightarrow> dbl option"

fun summarize_all ::
  "LDEventProcessor \<Rightarrow> (nat \<Rightarrow> dbl option) \<Rightarrow> nat \<Rightarrow> LDJSON list \<Rightarrow> (bool \<times> LDEventProcessor) exec" where
  "summarize_all p rd i [] = Inr (True, p)"
| "summarize_all p rd i (e # es) =
     exec_bind (LDi_summarizeEvent p e False (rd i)) (\<lambda>(ok, p).
       if ok then summarize_all p rd (Suc i) es else Inr (False, p))"

fun queue_all ::
  "LDEventProcessor \<Rightarrow> LDTimestamp \<Rightarrow> EvaluationResult \<Rightarrow> LDJSON list \<Rightarrow> LDEventProcessor exec" where
  "queue_all p now result [] = Inr p"
| "queue_all p now result (e # es) =
     exec_bind (LDi_possiblyQueueEvent p e now result) (\<lambda>p. queue_all p now result es)"

definition add_opt :: "LDEventProcessor \<Rightarrow> LDJSON option \<Rightarrow> LDEventProcessor exec" where
  "add_opt p event = (case event of None \<Rightarrow> Inr p | Some e \<Rightarrow> LDi_addEvent p e)"

definition LDEventProcessor_ProcessEvaluation ::
  "LDEventProcessor \<Rightarrow> EvaluationResult \<Rightarrow> readings \<Rightarrow> (bool \<times> LDEventProcessor) exec" where
  "LDEventProcessor_ProcessEvaluation p result rd =
     exec_bind (LDTimestamp_InitNow (rd_now rd)) (\<lambda>now.
     let evaluationValue = (if LDi_notNull (r_actualValue result) then r_actualValue result
                            else r_fallbackValue result);
         variationIndex = (if d_hasVariation (r_details result)
                           then Some (d_variationIndex (r_details result)) else None)
     in
     exec_bind (LDi_newFeatureEvent (r_flagKey result) (r_user result) variationIndex evaluationValue
         (r_fallbackValue result) None (r_flag result) (Some (r_details result)) now
         (c_inlineUsersInEvents (ep_config p)) (c_allAttributesPrivate (ep_config p))
         (Some (c_privateAttributeNames (ep_config p)))) (\<lambda>featureEvent.
       case featureEvent of None \<Rightarrow> Inr (False, p)
       | Some featureEvent \<Rightarrow>
     exec_bind (LDi_maybeMakeIndexEvent p (r_user result) now (rd_elapsed rd) (rd_reset rd)) (\<lambda>(ok, indexEvent, p).
       if \<not> ok then Inr (False, p) else
     exec_bind (LDi_summarizeEvent p featureEvent (r_flag result = None) (rd_summary rd 0)) (\<lambda>(ok, p).
       if \<not> ok then Inr (False, p) else
     exec_bind (add_opt p indexEvent) (\<lambda>p.
     exec_bind (if r_flag result \<noteq> None then LDi_possiblyQueueEvent p featureEvent now result else Inr p) (\<lambda>p.
       case r_subEvents result of None \<Rightarrow> Inr (True, p)
       | Some subEvents \<Rightarrow>
     exec_bind (ld_assert (LDJSONGetType (Some subEvents) = LDArray)) (\<lambda>_.
     exec_bind (summarize_all p (rd_summary rd) 1 (iter_values (Some subEvents))) (\<lambda>(ok, p).
       if \<not> ok then Inr (False, p) else
     exec_bind (queue_all p now result (iter_values (Some subEvents))) (\<lambda>p. Inr (True, p))))))))))"

definition LDEventProcessor_Identify ::
  "LDEventProcessor \<Rightarrow> LDUser \<Rightarrow> dbl option \<Rightarrow> (bool \<times> LDEventProcessor) exec" where
  "LDEventProcessor_Identify p user reading =
     (if length (u_key user) = 0 then Inr (True, p)
      else exec_bind (LDTimestamp_InitNow reading) (\<lambda>timestamp.
        exec_bind (LDi_newIdentifyEvent user timestamp (c_allAttributesPrivate (ep_config p))
            (Some (c_privateAttributeNames (ep_config p)))) (\<lambda>event.
        exec_bind (LDLRUInsert (ep_userKeys p) (u_key user)) (\<lambda>(status, lru).
        exec_bind (LDi_addEvent (p\<lparr>ep_userKeys := lru\<rparr>) event) (\<lambda>p. Inr (True, p))))))"

definition LDi_track ::
  "LDEventProcessor \<Rightarrow> LDUser \<Rightarrow> string \<Rightarrow> LDJSON option \<Rightarrow> dbl \<Rightarrow> bool \<Rightarrow> readings \<Rightarrow>
   (bool \<times> LDEventProcessor) exec"
where
  "LDi_track p user eventKey data metric hasMetric rd =
     exec_bind (LDTimestamp_InitNow (rd_now rd)) (\<lambda>timestamp.
     exec_bind (LDi_maybeMakeIndexEvent p user timestamp (rd_elapsed rd) (rd_reset rd)) (\<lambda>(ok, indexEvent, p).
       if \<not> ok then Inr (False, p) else
     exec_bind (LDi_newCustomEvent user eventKey data metric hasMetric (c_inlineUsersInEvents (ep_config p))
         (c_allAttributesPrivate (ep_config p)) (Some (c_privateAttributeNames (ep_config p))) timestamp) (\<lambda>event.
     exec_bind (LDi_addEvent p event) (\<lambda>p.
     exec_bind (add_opt p indexEvent) (\<lambda>p. Inr (True, p))))))"

definition LDEventProcessor_Track ::
  "LDEventProcessor \<Rightarrow> LDUser \<Rightarrow> string \<Rightarrow> LDJSON option \<Rightarrow> readings \<Rightarrow> (bool \<times> LDEventProcessor) exec" where
  "LDEventProcessor_Track p user eventKey data rd = LDi_track p user eventKey data (Fin 0) False rd"

definition LDEventProcessor_TrackMetric ::
  "LDEventProcessor \<Rightarrow> LDUser \<Rightarrow> string \<Rightarrow> LDJSON option \<Rightarrow> dbl \<Rightarrow> readings \<Rightarrow>
   (bool \<times> LDEventProcessor) exec" where
  "LDEventProcessor_TrackMetric p user eventKey data metric rd = LDi_track p user eventKey data metric True rd"

definition LDEventProcessor_Alias ::
  "LDEventProcessor \<Rightarrow> LDUser \<Rightarrow> LDUser \<Rightarrow> dbl option \<Rightarrow> (bool \<times> LDEventProcessor) exec" where
  "LDEventProcessor_Alias p currentUser previousUser reading =
     exec_bind (LDTimestamp_InitNow reading) (\<lambda>timestamp.
     exec_bind (LDi_addEvent p (LDi_newAliasEvent currentUser previousUser timestamp)) (\<lambda>p. Inr (True, p)))"

section \<open>Operations of the sender\<close>

definition LDEventProcessor_CreateEventPayloadAndResetState ::
  "LDEventProcessor \<Rightarrow> dbl option \<Rightarrow> (bool \<times> LDJSON option \<times> LDEventProcessor) exec" where
  "LDEventProcessor_CreateEventPayloadAndResetState p reading =
     exec_bind (LDi_getUnixMilliseconds reading) (\<lambda>now.
       if LDCollectionGetSize (Some (ep_events p)) = 0 \<and>
          LDCollectionGetSize (Some (ep_summaryCounters p)) = 0 then Inr (True, None, p)
       else exec_bind
         (if LDCollectionGetSize (Some (ep_summaryCounters p)) \<noteq> 0 then
            exec_bind (LDi_prepareSummaryEvent p now) (\<lambda>summaryEvent.
              Inr (p\<lparr>ep_events := the (snd (LDArrayPush (Some (ep_events p)) (Some summaryEvent))),
                     ep_summaryStart := Fin 0, ep_summaryCounters := JObject []\<rparr>))
          else Inr p) (\<lambda>p.
         Inr (True, Some (ep_events p), p\<lparr>ep_events := JArray []\<rparr>)))"

definition LDEventProcessor_SetLastServerTime :: "LDEventProcessor \<Rightarrow> int \<Rightarrow> LDEventProcessor exec" where
  "LDEventProcessor_SetLastServerTime p serverTime =
     exec_bind (LDTimestamp_InitUnixSeconds serverTime) (\<lambda>t. Inr (p\<lparr>ep_lastServerTime := t\<rparr>))"

definition LDEventProcessor_GetEvents :: "LDEventProcessor \<Rightarrow> LDJSON" where
  "LDEventProcessor_GetEvents p = ep_events p"

definition LDEventProcessor_GetLastServerTime :: "LDEventProcessor \<Rightarrow> dbl" where
  "LDEventProcessor_GetLastServerTime p = LDTimestamp_AsUnixMillis (ep_lastServerTime p)"

end
