(* ===== verification/Summaries.thy ===== *)
theory Summaries
  imports EventProcessor
begin

text \<open>
  The summary counters as a table of numbers: one count for each flag key and summary
  key. Summarizing an event adds one to exactly one count, so after any sequence of
  events a count is the number of events that had its keys.
\<close>

section \<open>Writing to members\<close>

lemma map_of_update_entries:
  "map_of (update_entries k v es) k' =
     (if k' = k \<and> map_of es k \<noteq> None then Some v else map_of es k')"
  by (induction es) auto

lemma keys_update_entries [simp]: "map fst (update_entries k v es) = map fst es"
  by (induction es) auto

lemma lookup_update:
  "obj_lookup j k = Some w \<Longrightarrow> obj_lookup (update_member j k v) k' = (if k' = k then Some v else obj_lookup j k')"
  by (cases j) (auto simp: map_of_update_entries)

lemma obj_inv_update: "obj_inv j \<Longrightarrow> obj_inv (update_member j k v)"
  by (auto simp: obj_inv_def)

lemma lookup_set: "obj_inv j \<Longrightarrow> obj_lookup (set_key j k v) k' = (if k' = k then Some v else obj_lookup j k')"
  by (rule obj.lookup_put)

lemma obj_inv_set [simp]: "obj_inv j \<Longrightarrow> obj_inv (set_key j k v)"
  by (rule obj.invar_put)

lemma obj_inv_copy [simp]: "obj_inv j \<Longrightarrow> obj_inv (copy_notnull e k j)"
  by (simp add: copy_notnull_def Let_def)

lemma lookup_copy:
  "obj_inv j \<Longrightarrow> k' \<noteq> k \<Longrightarrow> obj_lookup (copy_notnull e k j) k' = obj_lookup j k'"
  by (simp add: copy_notnull_def Let_def lookup_set)

section \<open>The table of counts\<close>

text \<open>
  A counter is an object whose \<open>count\<close> is a whole number. The bound keeps the addition
  in double precision exact.
\<close>

definition counter_ok :: "LDJSON \<Rightarrow> bool" where
  "counter_ok e \<longleftrightarrow> (\<exists>n. obj_lookup e ''count'' = Some (JNumber (Fin (of_nat n))))"

definition counters_ok :: "LDJSON \<Rightarrow> bool" where
  "counters_ok cs \<longleftrightarrow> obj_inv cs \<and> (\<forall>k e. obj_lookup cs k = Some e \<longrightarrow> counter_ok e)"

definition context_ok :: "LDJSON \<Rightarrow> bool" where
  "context_ok c \<longleftrightarrow> (\<exists>cs. obj_lookup c ''counters'' = Some cs \<and> counters_ok cs)"

definition summary_ok :: "LDJSON \<Rightarrow> bool" where
  "summary_ok s \<longleftrightarrow> obj_inv s \<and> (\<forall>k c. obj_lookup s k = Some c \<longrightarrow> context_ok c)"

definition counter_value :: "LDJSON option \<Rightarrow> nat" where
  "counter_value e = (case e of None \<Rightarrow> 0
     | Some e \<Rightarrow> (case LDGetNumber (obj_lookup e ''count'') of Fin x \<Rightarrow> nat \<lfloor>x\<rfloor> | _ \<Rightarrow> 0))"

definition counters_value :: "LDJSON option \<Rightarrow> string \<Rightarrow> nat" where
  "counters_value cs kt = (case cs of None \<Rightarrow> 0 | Some c \<Rightarrow> counter_value (obj_lookup c kt))"

definition count_of :: "LDJSON \<Rightarrow> string \<Rightarrow> string \<Rightarrow> nat" where
  "count_of s fk kt = (case obj_lookup s fk of None \<Rightarrow> 0
     | Some c \<Rightarrow> counters_value (obj_lookup c ''counters'') kt)"

text \<open>An event that can be summarized under a flag key and a summary key.\<close>

definition summarizable :: "LDJSON \<Rightarrow> string \<Rightarrow> string \<Rightarrow> bool" where
  "summarizable e fk kt \<longleftrightarrow> obj_lookup e ''key'' = Some (JText fk) \<and> LDi_makeSummaryKey e = Inr (Some kt)"

lemma new_counter_count: "obj_lookup (new_counter e u) ''count'' = Some (JNumber (Fin 1))"
  by (simp add: new_counter_def Let_def lookup_set lookup_copy)

lemma counter_value_new [simp]: "counter_value (Some (new_counter e u)) = 1"
  by (simp add: counter_value_def new_counter_count)

lemma counter_ok_new: "counter_ok (new_counter e u)"
  using of_nat_1 [where 'a = rat] by (auto simp: counter_ok_def new_counter_count intro!: exI [of _ 1])

lemma count_event_ok:
  assumes "counters_ok cs" and "counter_value (obj_lookup cs kt) < 2 ^ 53 - 1"
  shows "\<exists>cs'. count_event cs kt e u = Inr cs' \<and> counters_ok cs' \<and>
     (\<forall>kt'. counter_value (obj_lookup cs' kt') =
        counter_value (obj_lookup cs kt') + (if kt' = kt then 1 else 0))"
proof (cases "obj_lookup cs kt")
  case None
  then have c: "count_event cs kt e u = Inr (set_key cs kt (new_counter e u))"
    by (simp add: count_event_def)
  have inv: "obj_inv cs" using assms(1) by (simp add: counters_ok_def)
  have "counters_ok (set_key cs kt (new_counter e u))"
    using assms(1) inv by (auto simp: counters_ok_def lookup_set counter_ok_new split: if_splits)
  moreover have "counter_value (obj_lookup (set_key cs kt (new_counter e u)) kt') =
      counter_value (obj_lookup cs kt') + (if kt' = kt then 1 else 0)" for kt'
    using None inv by (simp add: lookup_set) (simp add: counter_value_def)
  ultimately show ?thesis using c by blast
next
  case (Some entry)
  have inv: "obj_inv cs" using assms(1) by (simp add: counters_ok_def)
  obtain n where n: "obj_lookup entry ''count'' = Some (JNumber (Fin (of_nat n)))"
    using assms(1) Some by (auto simp: counters_ok_def counter_ok_def)
  have lt: "n < 2 ^ 53 - 1" using assms(2) Some n by (simp add: counter_value_def)
  have "fl64 (of_int (int n + 1)) = Fin (of_int (int n + 1))"
    using lt by (intro fl64_int) simp
  then have add: "dbl_add (Fin (of_nat n)) (Fin 1) = Fin (of_nat (Suc n))" by (simp add: add.commute)
  define entry' where "entry' = update_member entry ''count'' (JNumber (Fin (of_nat (Suc n))))"
  have e': "obj_lookup entry' ''count'' = Some (JNumber (Fin (of_nat (Suc n))))"
    using lookup_update [OF n] by (simp add: entry'_def)
  have c: "count_event cs kt e u = Inr (update_member cs kt entry')"
    using Some n add by (simp add: count_event_def entry'_def)
  have ok: "counter_ok entry'" using e' by (auto simp: counter_ok_def simp del: of_nat_Suc)
  have "counters_ok (update_member cs kt entry')"
    using assms(1) inv ok by (auto simp: counters_ok_def obj_inv_update lookup_update [OF Some] split: if_splits)
  moreover have "counter_value (obj_lookup (update_member cs kt entry') kt') =
      counter_value (obj_lookup cs kt') + (if kt' = kt then 1 else 0)" for kt'
  proof -
    have "counter_value (Some entry') = Suc n"
      unfolding counter_value_def option.case e' LDGetNumber.simps dbl.case by (simp only: floor_of_nat nat_int)
    moreover have "counter_value (Some entry) = n" using n by (simp add: counter_value_def)
    ultimately show ?thesis using lookup_update [OF Some, of entry' kt'] Some by simp
  qed
  ultimately show ?thesis using c by blast
qed

lemma new_context:
  "context_ok (new_flag_context e)"
  "counters_value (obj_lookup (new_flag_context e) ''counters'') kt = 0"
  by (simp_all add: new_flag_context_def context_ok_def counters_ok_def lookup_set counters_value_def
      counter_value_def)

lemma summarizeEvent_ok:
  assumes "summary_ok (ep_summaryCounters p)" and "summarizable e fk kt"
    and "count_of (ep_summaryCounters p) fk kt < 2 ^ 53 - 1" and "rd \<noteq> None"
  shows "\<exists>p'. LDi_summarizeEvent p e u rd = Inr (True, p') \<and> summary_ok (ep_summaryCounters p') \<and>
     (\<forall>fk' kt'. count_of (ep_summaryCounters p') fk' kt' =
        count_of (ep_summaryCounters p) fk' kt' + (if fk' = fk \<and> kt' = kt then 1 else 0)) \<and>
     ep_events p' = ep_events p \<and> ep_config p' = ep_config p \<and> ep_userKeys p' = ep_userKeys p \<and>
     ep_lastUserKeyFlush p' = ep_lastUserKeyFlush p \<and> ep_lastServerTime p' = ep_lastServerTime p"
proof -
  define p1 where "p1 = (if dbl_eq (ep_summaryStart p) (Fin 0) then p\<lparr>ep_summaryStart := the rd\<rparr> else p)"
  define s where "s = (case obj_lookup (ep_summaryCounters p) fk of
      None \<Rightarrow> set_key (ep_summaryCounters p) fk (new_flag_context e) | Some _ \<Rightarrow> ep_summaryCounters p)"
  have inv: "obj_inv (ep_summaryCounters p)" using assms(1) by (simp add: summary_ok_def)
  have s_ok: "summary_ok s"
    using assms(1) inv new_context by (auto simp: s_def summary_ok_def lookup_set split: option.splits if_splits)
  have s_count: "count_of s fk' kt' = count_of (ep_summaryCounters p) fk' kt'" for fk' kt'
    using inv new_context by (auto simp: s_def count_of_def lookup_set split: option.splits)
  obtain c where c: "obj_lookup s fk = Some c"
    using inv by (cases "obj_lookup (ep_summaryCounters p) fk") (auto simp: s_def lookup_set)
  obtain cs where cs: "obj_lookup c ''counters'' = Some cs" "counters_ok cs"
    using s_ok c by (auto simp: summary_ok_def context_ok_def)
  have "counter_value (obj_lookup cs kt) < 2 ^ 53 - 1"
    using assms(3) s_count [of fk kt] c cs by (simp add: count_of_def counters_value_def)
  then obtain cs' where cs': "count_event cs kt e u = Inr cs'" "counters_ok cs'"
    "\<forall>kt'. counter_value (obj_lookup cs' kt') = counter_value (obj_lookup cs kt') + (if kt' = kt then 1 else 0)"
    using count_event_ok [OF cs(2)] by blast
  define c' where "c' = update_member c ''counters'' cs'"
  define s' where "s' = update_member s fk c'"
  have p1: "ep_summaryCounters p1 = ep_summaryCounters p" "ep_events p1 = ep_events p" "ep_config p1 = ep_config p"
    "ep_userKeys p1 = ep_userKeys p" "ep_lastUserKeyFlush p1 = ep_lastUserKeyFlush p"
    "ep_lastServerTime p1 = ep_lastServerTime p"
    by (simp_all add: p1_def)
  have run: "LDi_summarizeEvent p e u rd = Inr (True, p1\<lparr>ep_summaryCounters := s'\<rparr>)"
  proof -
    have start: "(if dbl_eq (ep_summaryStart p) (Fin 0)
        then exec_bind (LDi_getUnixMilliseconds rd) (\<lambda>now. Inr (p\<lparr>ep_summaryStart := now\<rparr>)) else Inr p) = Inr p1"
      using assms(4) by (auto simp: p1_def LDi_getUnixMilliseconds_def)
    have key: "LDObjectLookup (Some e) ''key'' = Some (JText fk)" "LDi_makeSummaryKey e = Inr (Some kt)"
      using assms(2) by (simp_all add: summarizable_def)
    have s1: "(case obj_lookup (ep_summaryCounters p) fk of
        None \<Rightarrow> set_key (ep_summaryCounters p1) fk (new_flag_context e) | Some _ \<Rightarrow> ep_summaryCounters p1) = s"
      by (simp add: s_def p1 split: option.split)
    have cs_obj: "LDJSONGetType (Some cs) = LDObject" using cs(2) by (simp add: counters_ok_def)
    show ?thesis
      unfolding LDi_summarizeEvent_def Let_def key start
      using c cs(1) cs'(1) cs_obj
      by (simp add: p1(1)) (simp add: s1 s'_def c'_def)
  qed
  have c'l: "obj_lookup c' ''counters'' = Some cs'" using lookup_update [OF cs(1)] by (simp add: c'_def)
  have s'l: "obj_lookup s' k = (if k = fk then Some c' else obj_lookup s k)" for k
    using lookup_update [OF c] by (simp add: s'_def)
  have "obj_inv s'" using s_ok by (simp add: s'_def summary_ok_def obj_inv_update)
  then have "summary_ok s'"
    using s_ok c'l cs'(2) by (auto simp: summary_ok_def s'l context_ok_def split: if_splits)
  moreover have "count_of s' fk' kt' = count_of s fk' kt' + (if fk' = fk \<and> kt' = kt then 1 else 0)" for fk' kt'
    using c cs(1) cs'(3) by (simp add: count_of_def s'l counters_value_def c'l)
  ultimately show ?thesis using run s_count p1 by simp
qed

section \<open>Sequences of events\<close>

text \<open>The number of events in a list that have the given keys.\<close>

definition occurrences :: "(string \<times> string) list \<Rightarrow> string \<Rightarrow> string \<Rightarrow> nat" where
  "occurrences ks fk kt = length (filter (\<lambda>k. k = (fk, kt)) ks)"

lemma summarize_all_ok:
  assumes "summary_ok (ep_summaryCounters p)" and "\<forall>i. rd i \<noteq> None"
    and "list_all2 (\<lambda>e k. summarizable e (fst k) (snd k)) es ks"
    and "\<forall>fk kt. count_of (ep_summaryCounters p) fk kt + length es < 2 ^ 53"
  shows "\<exists>p'. summarize_all p rd i es = Inr (True, p') \<and> summary_ok (ep_summaryCounters p') \<and>
     (\<forall>fk kt. count_of (ep_summaryCounters p') fk kt =
        count_of (ep_summaryCounters p) fk kt + occurrences ks fk kt) \<and>
     ep_events p' = ep_events p \<and> ep_config p' = ep_config p \<and> ep_userKeys p' = ep_userKeys p \<and>
     ep_lastUserKeyFlush p' = ep_lastUserKeyFlush p \<and> ep_lastServerTime p' = ep_lastServerTime p"
  using assms(3,1,4)
proof (induction es ks arbitrary: p i rule: list_all2_induct)
  case Nil
  then show ?case by (simp add: occurrences_def)
next
  case (Cons e es k ks)
  have "count_of (ep_summaryCounters p) (fst k) (snd k) < 2 ^ 53 - 1"
    using Cons.prems(2) [rule_format, of "fst k" "snd k"] by simp
  then obtain p1 where p1: "LDi_summarizeEvent p e False (rd i) = Inr (True, p1)"
    "summary_ok (ep_summaryCounters p1)"
    "\<forall>fk kt. count_of (ep_summaryCounters p1) fk kt =
       count_of (ep_summaryCounters p) fk kt + (if fk = fst k \<and> kt = snd k then 1 else 0)"
    "ep_events p1 = ep_events p" "ep_config p1 = ep_config p" "ep_userKeys p1 = ep_userKeys p"
    "ep_lastUserKeyFlush p1 = ep_lastUserKeyFlush p" "ep_lastServerTime p1 = ep_lastServerTime p"
    using summarizeEvent_ok [OF Cons.prems(1) Cons.hyps(1), of "rd i" False] assms(2) by blast
  have "\<forall>fk kt. count_of (ep_summaryCounters p1) fk kt + length es < 2 ^ 53"
  proof (intro allI)
    fix fk kt
    have "count_of (ep_summaryCounters p1) fk kt \<le> count_of (ep_summaryCounters p) fk kt + 1"
      using p1(3) by simp
    then show "count_of (ep_summaryCounters p1) fk kt + length es < 2 ^ 53"
      using Cons.prems(2) [rule_format, of fk kt] by simp
  qed
  then obtain p2 where "summarize_all p1 rd (Suc i) es = Inr (True, p2)" "summary_ok (ep_summaryCounters p2)"
    "\<forall>fk kt. count_of (ep_summaryCounters p2) fk kt = count_of (ep_summaryCounters p1) fk kt + occurrences ks fk kt"
    "ep_events p2 = ep_events p1" "ep_config p2 = ep_config p1" "ep_userKeys p2 = ep_userKeys p1"
    "ep_lastUserKeyFlush p2 = ep_lastUserKeyFlush p1" "ep_lastServerTime p2 = ep_lastServerTime p1"
    using Cons.IH [OF p1(2), of "Suc i"] by blast
  then show ?case using p1 by (cases k) (auto simp: occurrences_def)
qed

section \<open>Summary keys\<close>

text \<open>
  The summary key of an event with a whole-number variation and version determines both,
  and whether each is present.
\<close>

definition summary_text :: "uint option \<Rightarrow> uint option \<Rightarrow> string" where
  "summary_text var ver =
     ''{'' @ (case var of None \<Rightarrow> [] | Some v \<Rightarrow> print_string_ptr ''variation'' @ '':'' @ show_nat (unat v)) @
     (if var \<noteq> None \<and> ver \<noteq> None then '','' else []) @
     (case ver of None \<Rightarrow> [] | Some v \<Rightarrow> print_string_ptr ''version'' @ '':'' @ show_nat (unat v)) @ ''}''"

definition number_member :: "LDJSON \<Rightarrow> string \<Rightarrow> uint option \<Rightarrow> bool" where
  "number_member e k n \<longleftrightarrow> (case n of None \<Rightarrow> \<not> LDi_notNull (obj_lookup e k)
     | Some v \<Rightarrow> obj_lookup e k = Some (JNumber (uint_to_dbl v)))"

lemma makeSummaryKey_text:
  assumes "number_member e ''variation'' var" and "number_member e ''version'' ver"
  shows "LDi_makeSummaryKey e = Inr (Some (summary_text var ver))"
  using assms
  by (cases var; cases ver)
    (simp_all add: number_member_def LDi_makeSummaryKey_def LDi_notNull_def set_key_JObject LDJSONSerialize_def
      print_number_uint summary_text_def)

lemma digits_split:
  assumes "list_all is_digit xs" and "list_all is_digit ys" and "\<not> is_digit c" and "\<not> is_digit d"
    and "xs @ c # r = ys @ d # s"
  shows "xs = ys \<and> c = d \<and> r = s"
proof -
  have "takeWhile is_digit (xs @ c # r) = xs" "takeWhile is_digit (ys @ d # s) = ys"
    using assms(1-4) by (simp_all add: list_all_iff takeWhile_append)
  then have "xs = ys" using assms(5) by metis
  then show ?thesis using assms(5) by simp
qed

lemma show_nat_split:
  assumes "\<not> is_digit c" and "\<not> is_digit d"
  shows "show_nat m @ c # r = show_nat n @ d # s \<longleftrightarrow> m = n \<and> c = d \<and> r = s"
proof
  assume "show_nat m @ c # r = show_nat n @ d # s"
  from digits_split [OF show_nat_digits show_nat_digits assms this]
  show "m = n \<and> c = d \<and> r = s" by (simp add: show_nat_inj)
qed simp

lemma not_digits [simp]: "\<not> is_digit CHR '',''" "\<not> is_digit CHR ''}''"
  by (simp_all add: is_digit_def)

lemma quoted:
  "print_string_ptr ''variation'' = CHR 0x22 # ''variation'' @ [CHR 0x22]"
  "print_string_ptr ''version'' = CHR 0x22 # ''version'' @ [CHR 0x22]"
  by code_simp+

lemma summary_text_inj:
  "summary_text var ver = summary_text var' ver' \<longleftrightarrow> var = var' \<and> ver = ver'"
  by (cases var; cases ver; cases var'; cases ver')
    (simp_all add: summary_text_def quoted show_nat_split show_nat_inj word_unat_eq_iff)

section \<open>Guarantees\<close>

definition plain_event :: "string \<Rightarrow> uint \<Rightarrow> uint \<Rightarrow> LDJSON" where
  "plain_event key var ver = JObject [(''key'', JText key), (''variation'', JNumber (uint_to_dbl var)),
     (''version'', JNumber (uint_to_dbl ver))]"

definition empty_processor :: LDEventProcessor where
  "empty_processor = \<lparr>ep_events = JArray [], ep_summaryCounters = JObject [], ep_summaryStart = Fin 0,
     ep_userKeys = LDLRUInit (c_userKeysCapacity sample_config), ep_lastUserKeyFlush = \<lparr>timer_ms = Fin 0\<rparr>,
     ep_lastServerTime = LDTimestamp_InitZero, ep_config = sample_config\<rparr>"

lemma plain_event_members:
  "number_member (plain_event key var ver) ''variation'' (Some var)"
  "number_member (plain_event key var ver) ''version'' (Some ver)"
  by (simp_all add: number_member_def plain_event_def)

lemma plain_event_summarizable:
  "summarizable (plain_event key var ver) key (summary_text (Some var) (Some ver))"
  using makeSummaryKey_text [OF plain_event_members] by (simp add: summarizable_def plain_event_def)

lemma empty_summary: "summary_ok (ep_summaryCounters empty_processor)" "count_of (ep_summaryCounters empty_processor) fk kt = 0"
  by (simp_all add: empty_processor_def summary_ok_def count_of_def)

text \<open>The summary counts exactly: summarizing a sequence of events never fails, leaves the
  queue and the user keys alone, and adds to the count of every flag key and summary key the
  number of events of the sequence that have these keys, as long as the counts stay below the
  precision of a double.\<close>

theorem summary_counts_occurrences:
  assumes "summary_ok (ep_summaryCounters p)" and "\<forall>i. rd i \<noteq> None"
    and "list_all2 (\<lambda>e k. summarizable e (fst k) (snd k)) es ks"
    and "\<forall>fk kt. count_of (ep_summaryCounters p) fk kt + length es < 2 ^ 53"
  shows "\<exists>p'. summarize_all p rd i es = Inr (True, p') \<and> summary_ok (ep_summaryCounters p') \<and>
     (\<forall>fk kt. count_of (ep_summaryCounters p') fk kt =
        count_of (ep_summaryCounters p) fk kt + occurrences ks fk kt) \<and>
     ep_events p' = ep_events p \<and> ep_userKeys p' = ep_userKeys p"
  using summarize_all_ok [OF assms] by blast

theorem summary_counts_occurrences_witness:
  "\<exists>p'. summarize_all empty_processor (\<lambda>i. Some (Fin 1)) 0 [plain_event ''f'' 1 2, plain_event ''f'' 1 2] = Inr (True, p') \<and>
     count_of (ep_summaryCounters p') ''f'' (summary_text (Some 1) (Some 2)) = 2"
proof -
  let ?k = "(''f'', summary_text (Some 1) (Some 2))"
  have "list_all2 (\<lambda>e k. summarizable e (fst k) (snd k)) [plain_event ''f'' 1 2, plain_event ''f'' 1 2] [?k, ?k]"
    by (simp add: plain_event_summarizable)
  from summary_counts_occurrences [OF empty_summary(1) _ this, of "\<lambda>i. Some (Fin 1)" 0]
  show ?thesis by (auto simp: empty_summary occurrences_def)
qed

text \<open>Evaluations are counted together only when they agree: two events whose variation and
  version are unsigned numbers or missing get the same summary key exactly when they have the
  same variation and the same version.\<close>

theorem summary_key_identifies:
  assumes "number_member e ''variation'' var" and "number_member e ''version'' ver"
    and "number_member e' ''variation'' var'" and "number_member e' ''version'' ver'"
  shows "\<exists>k k'. LDi_makeSummaryKey e = Inr (Some k) \<and> LDi_makeSummaryKey e' = Inr (Some k') \<and>
     (k = k') = (var = var' \<and> ver = ver')"
  using makeSummaryKey_text [OF assms(1,2)] makeSummaryKey_text [OF assms(3,4)] by (simp add: summary_text_inj)

theorem summary_key_identifies_witness:
  "\<exists>k k'. LDi_makeSummaryKey (plain_event ''f'' 1 23) = Inr (Some k) \<and>
     LDi_makeSummaryKey (plain_event ''f'' 12 3) = Inr (Some k') \<and>
     (k = k') = (Some (1 :: uint) = Some 12 \<and> Some (23 :: uint) = Some 3)"
  by (rule summary_key_identifies) (rule plain_event_members)+

end
