(* ===== verification/EventQueue.thy ===== *)
theory EventQueue
  imports Summaries
begin

text \<open>
  The queue of the event processor: it never outgrows the configured capacity, in any
  reachable state; which events an evaluation queues and with which members; and what
  the sender receives.
\<close>

section \<open>A bounded queue\<close>

definition queued :: "LDEventProcessor \<Rightarrow> LDJSON list" where
  "queued p = iter_values (Some (ep_events p))"

definition capacity :: "LDEventProcessor \<Rightarrow> nat" where
  "capacity p = unat (c_eventsCapacity (ep_config p))"

definition queue_ok :: "LDEventProcessor \<Rightarrow> bool" where
  "queue_ok p \<longleftrightarrow> (\<exists>es. ep_events p = JArray es \<and> length es \<le> capacity p)"

definition offer :: "nat \<Rightarrow> LDJSON list \<Rightarrow> LDJSON \<Rightarrow> LDJSON list" where
  "offer cap es e = (if length es < cap then es @ [e] else es)"

lemma length_offer: "length es \<le> cap \<Longrightarrow> length (offer cap es e) \<le> cap"
  by (simp add: offer_def)

lemma queue_okD: "queue_ok p \<Longrightarrow> ep_events p = JArray (queued p) \<and> length (queued p) \<le> capacity p"
  by (auto simp: queue_ok_def queued_def)

lemma size_lt_capacity:
  assumes "length es \<le> unat (c :: uint)"
  shows "of_nat (length es) \<ge> c \<longleftrightarrow> \<not> length es < unat c"
proof -
  have "length es < 2 ^ 32" using assms unsigned_less [of c, where ?'a = nat] by simp
  then have "unat (of_nat (length es) :: uint) = length es" by (simp add: unsigned_of_nat take_bit_nat_eq_self)
  then show ?thesis by (simp add: word_le_nat_alt not_less)
qed

lemma addEvent_ok:
  assumes "queue_ok p"
  shows "LDi_addEvent p e = Inr (p\<lparr>ep_events := JArray (offer (capacity p) (queued p) e)\<rparr>)"
proof -
  have q: "ep_events p = JArray (queued p)" "length (queued p) \<le> capacity p"
    using queue_okD [OF assms] by auto
  have "(LDCollectionGetSize (Some (ep_events p)) \<ge> c_eventsCapacity (ep_config p)) \<longleftrightarrow>
      \<not> length (queued p) < capacity p"
    using size_lt_capacity [of "queued p" "c_eventsCapacity (ep_config p)"] q
    by (simp add: LDCollectionGetSize_def capacity_def)
  then show ?thesis
    using q(1) by (simp add: LDi_addEvent_def offer_def)
qed

lemma addEvent_fields:
  assumes "LDi_addEvent p e = Inr p'"
  shows "ep_config p' = ep_config p \<and> ep_userKeys p' = ep_userKeys p \<and> (queue_ok p \<longrightarrow> queue_ok p')"
proof -
  have "ep_config p' = ep_config p \<and> ep_userKeys p' = ep_userKeys p"
    using assms by (auto simp: LDi_addEvent_def elim!: exec_bindE split: if_split_asm)
  moreover have "queue_ok p'" if "queue_ok p"
    using assms addEvent_ok [OF that] length_offer queue_okD [OF that]
    by (auto simp: queue_ok_def capacity_def)
  ultimately show ?thesis by blast
qed

section \<open>The reachable states\<close>

text \<open>
  An operation keeps a state sound if it keeps the configuration, the bound of the queue
  and the invariant of the set of user keys.
\<close>

definition sound :: "LDEventProcessor \<Rightarrow> bool" where
  "sound p \<longleftrightarrow> queue_ok p \<and> lru_inv (ep_userKeys p)"

definition keeps :: "LDEventProcessor \<Rightarrow> LDEventProcessor \<Rightarrow> bool" where
  "keeps p p' \<longleftrightarrow> ep_config p' = ep_config p \<and> (sound p \<longrightarrow> sound p')"

lemma keeps_refl [simp]: "keeps p p"
  by (simp add: keeps_def)

lemma keeps_trans: "keeps p q \<Longrightarrow> keeps q r \<Longrightarrow> keeps p r"
  by (auto simp: keeps_def)

lemma keeps_addEvent: "LDi_addEvent p e = Inr p' \<Longrightarrow> keeps p p'"
  using addEvent_fields by (auto simp: keeps_def sound_def)

lemma keeps_same: "ep_config p' = ep_config p \<Longrightarrow> ep_events p' = ep_events p \<Longrightarrow> ep_userKeys p' = ep_userKeys p \<Longrightarrow>
    keeps p p'"
  by (simp add: keeps_def sound_def queue_ok_def capacity_def)

lemma keeps_add_opt: "add_opt p e = Inr p' \<Longrightarrow> keeps p p'"
  by (auto simp: add_opt_def keeps_addEvent split: option.split_asm)

lemma keeps_possiblyQueue: "LDi_possiblyQueueEvent p e now r = Inr p' \<Longrightarrow> keeps p p'"
  unfolding LDi_possiblyQueueEvent_def Let_def
  by (auto elim!: exec_bindE split: if_split_asm) (auto dest!: keeps_addEvent intro: keeps_trans)

lemma keeps_summarize: "LDi_summarizeEvent p e u rd = Inr (ok, p') \<Longrightarrow> keeps p p'"
  unfolding LDi_summarizeEvent_def Let_def
  by (auto elim!: exec_bindE split: option.split_asm if_split_asm intro!: keeps_same)

lemma keeps_summarize_all: "summarize_all p rd i es = Inr (ok, p') \<Longrightarrow> keeps p p'"
proof (induction es arbitrary: p i)
  case (Cons e es)
  then obtain ok1 p1 where 1: "LDi_summarizeEvent p e False (rd i) = Inr (ok1, p1)"
    and 2: "(if ok1 then summarize_all p1 rd (Suc i) es else Inr (False, p1)) = Inr (ok, p')"
    by (auto elim!: exec_bindE)
  have "keeps p1 p'" using 2 Cons.IH by (auto split: if_split_asm)
  then show ?case using keeps_summarize [OF 1] keeps_trans by blast
qed simp

lemma keeps_queue_all: "queue_all p now r es = Inr p' \<Longrightarrow> keeps p p'"
proof (induction es arbitrary: p)
  case (Cons e es)
  then obtain p1 where "LDi_possiblyQueueEvent p e now r = Inr p1" "queue_all p1 now r es = Inr p'"
    by (auto elim!: exec_bindE)
  then show ?case using Cons.IH keeps_possiblyQueue keeps_trans by blast
qed simp

lemma keeps_insert:
  assumes "LDLRUInsert (ep_userKeys p) k = Inr (st, lru)"
  shows "keeps p (p\<lparr>ep_userKeys := lru\<rparr>)"
  using assms LDLRUInsert_spec [of "ep_userKeys p" k]
  by (auto simp: keeps_def sound_def queue_ok_def capacity_def)

lemma keeps_flush: "flush_user_keys p a b = Inr p' \<Longrightarrow> keeps p p'"
  unfolding flush_user_keys_def
  by (auto elim!: exec_bindE split: if_split_asm
      simp: keeps_def sound_def queue_ok_def capacity_def LDLRUClear_inv)

lemma keeps_maybeIndex: "LDi_maybeMakeIndexEvent p u ts a b = Inr (ok, e, p') \<Longrightarrow> keeps p p'"
  unfolding LDi_maybeMakeIndexEvent_def Let_def
  by (auto elim!: exec_bindE split: if_split_asm dest!: keeps_flush keeps_insert intro: keeps_trans)

lemma keeps_process:
  assumes "LDEventProcessor_ProcessEvaluation p r rd = Inr (ok, p')"
  shows "keeps p p'"
  using assms unfolding LDEventProcessor_ProcessEvaluation_def Let_def
  by (auto elim!: exec_bindE split: option.split_asm if_split_asm
      dest!: keeps_maybeIndex keeps_summarize keeps_add_opt keeps_possiblyQueue keeps_summarize_all keeps_queue_all)
    (blast intro: keeps_trans)+

lemma keeps_track: "LDi_track p u k d m h rd = Inr (ok, p') \<Longrightarrow> keeps p p'"
  unfolding LDi_track_def
  by (auto elim!: exec_bindE split: if_split_asm dest!: keeps_maybeIndex keeps_addEvent keeps_add_opt)
    (blast intro: keeps_trans)+

lemma keeps_identify: "LDEventProcessor_Identify p u rd = Inr (ok, p') \<Longrightarrow> keeps p p'"
  unfolding LDEventProcessor_Identify_def
  by (auto elim!: exec_bindE split: if_split_asm dest!: keeps_insert keeps_addEvent intro: keeps_trans)

lemma keeps_alias: "LDEventProcessor_Alias p u v rd = Inr (ok, p') \<Longrightarrow> keeps p p'"
  unfolding LDEventProcessor_Alias_def by (auto elim!: exec_bindE intro: keeps_addEvent)

lemma keeps_payload:
  "LDEventProcessor_CreateEventPayloadAndResetState p rd = Inr (ok, e, p') \<Longrightarrow> keeps p p'"
  unfolding LDEventProcessor_CreateEventPayloadAndResetState_def
  by (auto elim!: exec_bindE split: if_split_asm simp: keeps_def sound_def queue_ok_def capacity_def)

lemma keeps_serverTime: "LDEventProcessor_SetLastServerTime p t = Inr p' \<Longrightarrow> keeps p p'"
  unfolding LDEventProcessor_SetLastServerTime_def
  by (auto elim!: exec_bindE intro: keeps_same)

inductive ep_step :: "LDEventProcessor \<Rightarrow> LDEventProcessor \<Rightarrow> bool" where
  process: "LDEventProcessor_ProcessEvaluation p r rd = Inr (ok, p') \<Longrightarrow> ep_step p p'"
| identify: "LDEventProcessor_Identify p user now = Inr (ok, p') \<Longrightarrow> ep_step p p'"
| track: "LDEventProcessor_Track p user key data rd = Inr (ok, p') \<Longrightarrow> ep_step p p'"
| trackMetric: "LDEventProcessor_TrackMetric p user key data metric rd = Inr (ok, p') \<Longrightarrow> ep_step p p'"
| aliased: "LDEventProcessor_Alias p user previous now = Inr (ok, p') \<Longrightarrow> ep_step p p'"
| payload: "LDEventProcessor_CreateEventPayloadAndResetState p now = Inr (ok, result, p') \<Longrightarrow> ep_step p p'"
| serverTime: "LDEventProcessor_SetLastServerTime p t = Inr p' \<Longrightarrow> ep_step p p'"

inductive ep_reachable :: "LDConfig \<Rightarrow> LDEventProcessor \<Rightarrow> bool" where
  create: "LDEventProcessor_Create config reading = Inr p \<Longrightarrow> ep_reachable config p"
| step: "ep_reachable config p \<Longrightarrow> ep_step p p' \<Longrightarrow> ep_reachable config p'"

lemma keeps_step: "ep_step p p' \<Longrightarrow> keeps p p'"
  by (induction rule: ep_step.induct)
    (auto simp: LDEventProcessor_Track_def LDEventProcessor_TrackMetric_def
      dest: keeps_process keeps_identify keeps_track keeps_alias keeps_payload keeps_serverTime)

lemma create_sound: "LDEventProcessor_Create config reading = Inr p \<Longrightarrow> sound p \<and> ep_config p = config"
  unfolding LDEventProcessor_Create_def
  by (auto elim!: exec_bindE simp: sound_def queue_ok_def LDLRUInit_inv)

lemma reachable_sound: "ep_reachable config p \<Longrightarrow> sound p \<and> ep_config p = config"
proof (induction rule: ep_reachable.induct)
  case (create config reading p)
  then show ?case by (rule create_sound)
next
  case (step config p p')
  then show ?case using keeps_step [of p p'] by (auto simp: keeps_def)
qed

section \<open>What an evaluation queues\<close>

text \<open>
  The members that steer queueing are not null in an event the processor builds, and a
  debug date is a non-negative number.
\<close>

definition steering :: "string set" where
  "steering = {''trackEvents'', ''debugEventsUntilDate'', ''shouldAlwaysTrackDetails''}"

definition steerable :: "LDJSON \<Rightarrow> bool" where
  "steerable e \<longleftrightarrow> obj_inv e \<and> (\<forall>k\<in>steering. obj_lookup e k \<noteq> Some JNull) \<and>
     (case obj_lookup e ''debugEventsUntilDate'' of None \<Rightarrow> True
      | Some d \<Rightarrow> dbl_le (Fin 0) (LDGetNumber (Some d)))"

definition tracked :: "LDJSON \<Rightarrow> bool" where
  "tracked e \<longleftrightarrow> LDGetBool (LDObjectLookup (obj_lookup e ''reason'') ''inExperiment'') \<or>
     LDGetBool (obj_lookup e ''trackEvents'')"

definition keeps_reason :: "LDJSON \<Rightarrow> bool \<Rightarrow> bool" where
  "keeps_reason e detailed = (case obj_lookup e ''shouldAlwaysTrackDetails'' of
       None \<Rightarrow> detailed | Some b \<Rightarrow> LDGetBool (Some b))"

definition debugging :: "LDEventProcessor \<Rightarrow> LDJSON \<Rightarrow> LDTimestamp \<Rightarrow> bool" where
  "debugging p e now = (case obj_lookup e ''debugEventsUntilDate'' of None \<Rightarrow> False
     | Some d \<Rightarrow> dbl_lt (ts_ms now) (LDGetNumber (Some d)) \<and>
         dbl_lt (ts_ms (ep_lastServerTime p)) (LDGetNumber (Some d)))"

lemma lookup_delete: "obj_inv j \<Longrightarrow> obj_lookup (delete_key j k) k' = (if k' = k then None else obj_lookup j k')"
  by (rule obj.lookup_remove)

lemma obj_inv_delete [simp]: "obj_inv j \<Longrightarrow> obj_inv (delete_key j k)"
  by (rule obj.invar_remove)

lemma notNull_iff: "v \<noteq> Some JNull \<Longrightarrow> LDi_notNull v \<longleftrightarrow> v \<noteq> None"
  by (cases v) (auto simp: LDi_notNull_def json_type_iff)

lemma strip_reason_lookup:
  assumes "steerable e"
  shows "obj_inv (strip_reason e d)" and "obj_lookup (strip_reason e d) k =
     (if k = ''shouldAlwaysTrackDetails'' \<or> k = ''reason'' \<and> \<not> keeps_reason e d then None else obj_lookup e k)"
  using assms notNull_iff [of "obj_lookup e ''shouldAlwaysTrackDetails''"]
  by (auto simp: strip_reason_def Let_def steerable_def steering_def lookup_delete keeps_reason_def
      split: option.splits)

text \<open>The event as it is sent, and its debug copy.\<close>

definition sent_event :: "LDJSON \<Rightarrow> bool \<Rightarrow> string \<Rightarrow> LDJSON option" where
  "sent_event e d k = (if k \<in> steering \<or> k = ''reason'' \<and> \<not> keeps_reason e d then None else obj_lookup e k)"

definition debug_event :: "LDJSON \<Rightarrow> bool \<Rightarrow> LDJSON \<Rightarrow> string \<Rightarrow> LDJSON option" where
  "debug_event e d uj k = (if k = ''kind'' then Some (JText ''debug'') else if k = ''user'' then Some uj
     else if k = ''userKey'' then None else sent_event e d k)"

definition cleaned :: "LDJSON \<Rightarrow> bool \<Rightarrow> LDJSON" where
  "cleaned e d =
     (let e1 = strip_reason e d;
          e2 = (if LDi_notNull (obj_lookup e1 ''trackEvents'') then delete_key e1 ''trackEvents'' else e1)
      in if LDi_notNull (obj_lookup e2 ''debugEventsUntilDate'') then delete_key e2 ''debugEventsUntilDate'' else e2)"

lemma cleaned_lookup:
  assumes "steerable e"
  shows "obj_inv (cleaned e d)" and "obj_lookup (cleaned e d) k = sent_event e d k"
proof -
  have nn: "obj_lookup e ''trackEvents'' \<noteq> Some JNull" "obj_lookup e ''debugEventsUntilDate'' \<noteq> Some JNull"
    using assms by (auto simp: steerable_def steering_def)
  show "obj_inv (cleaned e d)"
    using strip_reason_lookup [OF assms] by (simp add: cleaned_def Let_def)
  show "obj_lookup (cleaned e d) k = sent_event e d k"
    using strip_reason_lookup [OF assms, of d] nn
    by (auto simp: cleaned_def Let_def lookup_delete notNull_iff sent_event_def steering_def)
qed

lemma convertToDebug_ok:
  assumes "obj_inv e" and "user_json p u = Inr uj"
  shows "\<exists>e'. convertToDebug p e u = Inr e' \<and> (\<forall>k. obj_lookup e' k =
     (if k = ''kind'' then Some (JText ''debug'') else if k = ''user'' then Some uj
      else if k = ''userKey'' then None else obj_lookup e k))"
  using assms by (auto simp: convertToDebug_def Let_def lookup_set lookup_delete)

lemma possiblyQueue_eq:
  assumes "steerable e"
  shows "LDi_possiblyQueueEvent p e now r =
     exec_bind (if debugging p e now
        then exec_bind (convertToDebug p (cleaned e (r_detailedEvaluation r)) (r_user r)) (LDi_addEvent p)
        else Inr p)
      (\<lambda>p. if tracked e then LDi_addEvent p (cleaned e (r_detailedEvaluation r)) else Inr p)"
proof -
  let ?e = "strip_reason e (r_detailedEvaluation r)"
  have nn: "obj_lookup e ''trackEvents'' \<noteq> Some JNull" "obj_lookup e ''debugEventsUntilDate'' \<noteq> Some JNull"
    using assms by (auto simp: steerable_def steering_def)
  have inv: "obj_inv ?e" using strip_reason_lookup [OF assms] by simp
  have l: "obj_lookup ?e ''trackEvents'' = obj_lookup e ''trackEvents''"
    "obj_lookup ?e ''debugEventsUntilDate'' = obj_lookup e ''debugEventsUntilDate''"
    using strip_reason_lookup [OF assms] by simp_all
  let ?e2 = "if LDi_notNull (obj_lookup ?e ''trackEvents'') then delete_key ?e ''trackEvents'' else ?e"
  have l2: "obj_lookup ?e2 ''debugEventsUntilDate'' = obj_lookup e ''debugEventsUntilDate''"
    using l inv by (simp add: lookup_delete)
  have track: "(if LDi_notNull (obj_lookup ?e ''trackEvents'') \<and> \<not> b then LDGetBool (obj_lookup ?e ''trackEvents'') else b) =
      (b \<or> LDGetBool (obj_lookup e ''trackEvents''))" for b
    using l nn by (cases "obj_lookup e ''trackEvents''") (auto simp: notNull_iff)
  show ?thesis
  proof (cases "obj_lookup e ''debugEventsUntilDate''")
    case None
    then show ?thesis
      using l2 unfolding LDi_possiblyQueueEvent_def Let_def LDObjectLookup_Some track
      by (simp add: cleaned_def Let_def debugging_def LDi_notNull_def tracked_def)
  next
    case (Some d)
    then have "LDi_notNull (obj_lookup ?e2 ''debugEventsUntilDate'')" "dbl_le (Fin 0) (LDGetNumber (Some d))"
      using l2 nn assms by (auto simp: notNull_iff steerable_def)
    then show ?thesis
      using l2 Some unfolding LDi_possiblyQueueEvent_def Let_def LDObjectLookup_Some track
      by (simp add: cleaned_def Let_def debugging_def tracked_def LDTimestamp_InitUnixMillis_def
          LDTimestamp_Before_def exec_bind_assoc cong: if_cong)
  qed
qed

text \<open>The events offered to the queue, the debug copy first.\<close>

lemma possiblyQueue_ok:
  assumes "queue_ok p" and "steerable e" and "user_json p (r_user r) = Inr uj"
  shows "\<exists>full dbg. LDi_possiblyQueueEvent p e now r = Inr (p\<lparr>ep_events := JArray
       (foldl (offer (capacity p)) (queued p)
         ((if debugging p e now then [dbg] else []) @ (if tracked e then [full] else [])))\<rparr>) \<and>
     obj_lookup full = sent_event e (r_detailedEvaluation r) \<and>
     obj_lookup dbg = debug_event e (r_detailedEvaluation r) uj"
proof -
  let ?d = "r_detailedEvaluation r"
  obtain dbg where dbg: "convertToDebug p (cleaned e ?d) (r_user r) = Inr dbg"
    "obj_lookup dbg = debug_event e ?d uj"
    using convertToDebug_ok [OF cleaned_lookup(1) [OF assms(2)] assms(3), of ?d]
    by (auto simp: fun_eq_iff debug_event_def cleaned_lookup(2) [OF assms(2)])
  define p1 where "p1 = p\<lparr>ep_events := JArray (offer (capacity p) (queued p) dbg)\<rparr>"
  have p1: "queue_ok p1" "capacity p1 = capacity p" "queued p1 = offer (capacity p) (queued p) dbg"
    using queue_okD [OF assms(1)] length_offer
    by (auto simp: p1_def queue_ok_def capacity_def queued_def)
  have ev: "ep_events p = JArray (queued p)" using queue_okD [OF assms(1)] by simp
  have "obj_lookup (cleaned e ?d) = sent_event e ?d" by (simp add: fun_eq_iff cleaned_lookup(2) [OF assms(2)])
  moreover have "LDi_possiblyQueueEvent p e now r = Inr (p\<lparr>ep_events := JArray
       (foldl (offer (capacity p)) (queued p)
         ((if debugging p e now then [dbg] else []) @ (if tracked e then [cleaned e ?d] else [])))\<rparr>)"
    using addEvent_ok [OF assms(1)] addEvent_ok [OF p1(1)] p1 dbg(1) ev
    by (auto simp: possiblyQueue_eq [OF assms(2)] p1_def)
  ultimately show ?thesis using dbg(2) by blast
qed

section \<open>Index events\<close>

lemma maybeIndex_ok:
  assumes "\<not> c_inlineUsersInEvents (ep_config p)" and "lru_inv (ep_userKeys p)"
    and "user_json p u = Inr uj" and "elapsed \<noteq> None" and "reset \<noteq> None"
  defines "p1 \<equiv> (case flush_user_keys p elapsed reset of Inr q \<Rightarrow> q | Inl _ \<Rightarrow> p)"
  shows "\<exists>p'. LDi_maybeMakeIndexEvent p u ts elapsed reset =
       Inr (True, if u_key u \<in> set (lru_list (ep_userKeys p1)) then None
                  else Some (set_key (LDi_newBaseEvent ''index'' ts) ''user'' uj), p') \<and>
     lru_inv (ep_userKeys p') \<and> lru_capacity (ep_userKeys p') = lru_capacity (ep_userKeys p) \<and>
     lru_list (ep_userKeys p') = snd (spec_insert (unat (lru_capacity (ep_userKeys p)))
        (lru_list (ep_userKeys p1)) (u_key u)) \<and>
     ep_events p' = ep_events p \<and> ep_config p' = ep_config p \<and> ep_summaryCounters p' = ep_summaryCounters p \<and>
     ep_lastServerTime p' = ep_lastServerTime p"
proof -
  have f: "flush_user_keys p elapsed reset = Inr p1"
    using assms(4,5) by (auto simp: p1_def flush_user_keys_def LDTimer_Elapsed_def LDTimer_Reset_def
        LDi_getMonotonicMilliseconds_def)
  have p1: "lru_inv (ep_userKeys p1)" "lru_capacity (ep_userKeys p1) = lru_capacity (ep_userKeys p)"
    "ep_config p1 = ep_config p" "ep_events p1 = ep_events p" "ep_summaryCounters p1 = ep_summaryCounters p"
    "ep_lastServerTime p1 = ep_lastServerTime p"
    using f assms(2) LDLRUClear_inv [of "ep_userKeys p"]
    by (auto simp: flush_user_keys_def LDLRUClear_def elim!: exec_bindE split: if_split_asm)
  obtain st lru where lru: "LDLRUInsert (ep_userKeys p1) (u_key u) = Inr (st, lru)" "lru_inv lru"
    "lru_capacity lru = lru_capacity (ep_userKeys p1)"
    "(st, lru_list lru) = spec_insert (unat (lru_capacity (ep_userKeys p1))) (lru_list (ep_userKeys p1)) (u_key u)"
    using LDLRUInsert_spec [OF p1(1)] by blast
  have known: "u_key u \<in> set (lru_list (ep_userKeys p1)) \<Longrightarrow> unat (lru_capacity (ep_userKeys p1)) \<noteq> 0"
    using lru_inv_length [OF p1(1)] length_pos_if_in_set [of "u_key u" "lru_list (ep_userKeys p1)"] by linarith
  have st: "st = (if u_key u \<in> set (lru_list (ep_userKeys p1)) then LDLRUSTATUS_EXISTED else LDLRUSTATUS_NEW)"
    using lru(4) known by (auto simp: spec_insert_def split: if_splits)
  have uj: "user_json (p1\<lparr>ep_userKeys := lru\<rparr>) u = Inr uj" using assms(3) p1(3) by (simp add: user_json_def)
  have "lru_list lru = snd (spec_insert (unat (lru_capacity (ep_userKeys p))) (lru_list (ep_userKeys p1)) (u_key u))"
    using lru(4) p1(2) by (metis snd_conv)
  then show ?thesis
    using assms(1) f lru(1-3) st uj p1 by (auto simp: LDi_maybeMakeIndexEvent_def Let_def)
qed

section \<open>The payload\<close>

definition feature_summary :: "LDJSON \<Rightarrow> LDJSON" where
  "feature_summary c = set_key (delete_key c ''counters'') ''counters''
     (JArray (iter_values (obj_lookup c ''counters'')))"

lemma summary_features_ok:
  assumes "\<forall>(k, c)\<in>set es. context_ok c"
  shows "summary_features es = Inr (map (\<lambda>(k, c). (k, feature_summary c)) es)"
  using assms
proof (induction es)
  case (Cons x es)
  obtain k c where x: "x = (k, c)" by (cases x)
  then obtain cs where cs: "obj_lookup c ''counters'' = Some cs" "counters_ok cs"
    using Cons.prems by (auto simp: context_ok_def)
  then have "LDJSONGetType (Some cs) = LDObject" by (simp add: counters_ok_def)
  with Cons cs show ?case
    by (simp add: x LDObjectDetachKey_def LDi_objectToArray_def feature_summary_def delete_key_def)
qed simp

lemma object_entries_inv: "obj_inv j \<Longrightarrow> j = JObject (object_entries j) \<and> distinct (map fst (object_entries j))"
  by (auto simp: obj_inv_def)

definition summary_event :: "LDEventProcessor \<Rightarrow> dbl \<Rightarrow> LDJSON" where
  "summary_event p now = JObject [(''kind'', JText ''summary''), (''startDate'', JNumber (ep_summaryStart p)),
     (''endDate'', JNumber now),
     (''features'', JObject (map (\<lambda>(k, c). (k, feature_summary c)) (object_entries (ep_summaryCounters p))))]"

lemma prepareSummary_ok:
  assumes "summary_ok (ep_summaryCounters p)"
  shows "LDi_prepareSummaryEvent p now = Inr (summary_event p now)"
proof -
  have inv: "ep_summaryCounters p = JObject (object_entries (ep_summaryCounters p))"
    "distinct (map fst (object_entries (ep_summaryCounters p)))"
    using assms object_entries_inv [of "ep_summaryCounters p"] by (auto simp: summary_ok_def)
  then have "\<forall>(k, c)\<in>set (object_entries (ep_summaryCounters p)). context_ok c"
    using assms by (auto simp: summary_ok_def) (metis map_of_is_SomeI obj_lookup_simps(1))
  then show ?thesis
    by (simp add: LDi_prepareSummaryEvent_def summary_features_ok summary_event_def set_key_JObject Let_def)
qed

lemma size_zero_iff:
  assumes "length es < 2 ^ 32"
  shows "LDCollectionGetSize (Some (JArray es)) = 0 \<longleftrightarrow> es = []"
proof -
  have "unat (of_nat (length es) :: uint) = length es"
    using assms by (simp add: unsigned_of_nat take_bit_nat_eq_self)
  then show ?thesis by (auto simp: LDCollectionGetSize_def unat_eq_zero [symmetric])
qed

lemma payload_ok:
  assumes "queue_ok p" and "summary_ok (ep_summaryCounters p)"
    and "length (object_entries (ep_summaryCounters p)) < 2 ^ 32"
  defines "counters \<equiv> object_entries (ep_summaryCounters p)"
  shows "LDEventProcessor_CreateEventPayloadAndResetState p (Some now) =
     (if queued p = [] \<and> counters = [] then Inr (True, None, p)
      else Inr (True, Some (JArray (queued p @ (if counters = [] then [] else [summary_event p now]))),
        p\<lparr>ep_events := JArray [], ep_summaryCounters := JObject [],
          ep_summaryStart := (if counters = [] then ep_summaryStart p else Fin 0)\<rparr>))"
proof -
  have ev: "ep_events p = JArray (queued p)" "length (queued p) < 2 ^ 32"
    using queue_okD [OF assms(1)] unsigned_less [of "c_eventsCapacity (ep_config p)", where ?'a = nat]
    by (auto simp: capacity_def)
  have s: "ep_summaryCounters p = JObject counters"
    using assms(2) object_entries_inv unfolding counters_def summary_ok_def by blast
  have sz: "LDCollectionGetSize (Some (JObject counters)) = 0 \<longleftrightarrow> counters = []"
    using size_zero_iff [of "map snd counters"] assms(3) by (simp add: LDCollectionGetSize_def counters_def)
  show ?thesis
    using ev s sz size_zero_iff [OF ev(2)] prepareSummary_ok [OF assms(2)]
    by (auto simp: LDEventProcessor_CreateEventPayloadAndResetState_def LDi_getUnixMilliseconds_def)
qed

section \<open>Guarantees\<close>

lemma empty_processor_create: "LDEventProcessor_Create sample_config (Some (Fin 0)) = Inr empty_processor"
  by (simp add: LDEventProcessor_Create_def LDTimer_Reset_def LDi_getMonotonicMilliseconds_def empty_processor_def)

lemma empty_processor_sound: "sound empty_processor" "queue_ok empty_processor"
  using create_sound [OF empty_processor_create] by (simp_all add: sound_def)

text \<open>C30: in every state the event processor can reach through its interface (evaluations, identify,
  track, alias, payloads, server times, in any order and with any arguments) the queue is an
  array no longer than the configured capacity, and the remembered user keys are consistent and
  no more than the set's capacity.\<close>

theorem event_queue_bounded:
  assumes "ep_reachable config p"
  shows "(\<exists>es. ep_events p = JArray es \<and> length es \<le> unat (c_eventsCapacity config)) \<and>
     lru_inv (ep_userKeys p) \<and> length (lru_list (ep_userKeys p)) \<le> unat (lru_capacity (ep_userKeys p))"
  using reachable_sound [OF assms] lru_inv_length by (auto simp: sound_def queue_ok_def capacity_def)

theorem event_queue_bounded_witness:
  "(\<exists>es. ep_events empty_processor = JArray es \<and> length es \<le> unat (c_eventsCapacity sample_config)) \<and>
     lru_inv (ep_userKeys empty_processor) \<and>
     length (lru_list (ep_userKeys empty_processor)) \<le> unat (lru_capacity (ep_userKeys empty_processor))"
  by (rule event_queue_bounded [OF ep_reachable.create [OF empty_processor_create]])

text \<open>What an evaluation queues: a debug copy when the debug date lies in the future of both the
  local clock and the last server time, then the event itself when it is tracked, each only if
  there is room. The event sent loses the steering members, and its reason unless that is to be
  kept; the debug copy has the kind \<open>debug\<close> and the whole user instead of the key.\<close>

theorem evaluation_queues:
  assumes "queue_ok p" and "steerable e" and "user_json p (r_user r) = Inr uj"
  shows "\<exists>full dbg. LDi_possiblyQueueEvent p e now r = Inr (p\<lparr>ep_events := JArray
       (foldl (offer (capacity p)) (queued p)
         ((if debugging p e now then [dbg] else []) @ (if tracked e then [full] else [])))\<rparr>) \<and>
     obj_lookup full = sent_event e (r_detailedEvaluation r) \<and>
     obj_lookup dbg = debug_event e (r_detailedEvaluation r) uj"
  by (rule possiblyQueue_ok [OF assms])

definition tracked_event :: LDJSON where
  "tracked_event = JObject [(''kind'', JText ''feature''), (''trackEvents'', JBool True),
     (''debugEventsUntilDate'', JNumber (Fin 50))]"

definition sample_result :: EvaluationResult where
  "sample_result = \<lparr>r_user = sample_user, r_subEvents = None, r_flagKey = ''f'', r_actualValue = Some (JBool True),
     r_fallbackValue = Some (JBool False), r_flag = None,
     r_details = \<lparr>d_variationIndex = 1, d_hasVariation = True, d_reason = LD_OFF, d_extra = NoExtra\<rparr>,
     r_detailedEvaluation = False\<rparr>"

lemma sample_user_json: "user_json empty_processor sample_user = Inr (JObject [(''key'', JText ''bob'')])"
  by (simp add: user_json_def sample_user_def LDi_userToJSON_def user_fields_def LDi_userNew_def addstring_def
      set_key_JObject)

lemma tracked_event_steerable: "steerable tracked_event"
  by (simp add: steerable_def tracked_event_def obj_inv_def steering_def)

theorem evaluation_queues_witness:
  "\<exists>full dbg. LDi_possiblyQueueEvent empty_processor tracked_event \<lparr>ts_ms = Fin 10\<rparr> sample_result =
       Inr (empty_processor\<lparr>ep_events := JArray [dbg, full]\<rparr>) \<and>
     obj_lookup full ''kind'' = Some (JText ''feature'') \<and> obj_lookup full ''trackEvents'' = None \<and>
     obj_lookup dbg ''kind'' = Some (JText ''debug'')"
proof -
  have r: "r_user sample_result = sample_user" by (simp add: sample_result_def)
  have d: "debugging empty_processor tracked_event \<lparr>ts_ms = Fin 10\<rparr>" "tracked tracked_event"
    by (simp_all add: debugging_def tracked_event_def empty_processor_def LDTimestamp_InitZero_def tracked_def)
  have q: "queued empty_processor = []" "capacity empty_processor = 10000"
    by (simp_all add: queued_def capacity_def empty_processor_def sample_config_def LDConfigNew_def)
  have uj: "user_json empty_processor (r_user sample_result) = Inr (JObject [(''key'', JText ''bob'')])"
    by (simp add: r sample_user_json)
  from evaluation_queues [OF empty_processor_sound(2) tracked_event_steerable uj, of "\<lparr>ts_ms = Fin 10\<rparr>"]
  obtain full dbg where e: "LDi_possiblyQueueEvent empty_processor tracked_event \<lparr>ts_ms = Fin 10\<rparr> sample_result =
       Inr (empty_processor\<lparr>ep_events := JArray [dbg, full]\<rparr>)"
    "obj_lookup full = sent_event tracked_event (r_detailedEvaluation sample_result)"
    "obj_lookup dbg = debug_event tracked_event (r_detailedEvaluation sample_result) (JObject [(''key'', JText ''bob'')])"
    by (auto simp: d q offer_def)
  have "obj_lookup full ''kind'' = Some (JText ''feature'')" "obj_lookup full ''trackEvents'' = None"
    "obj_lookup dbg ''kind'' = Some (JText ''debug'')"
    by (simp_all add: e(2,3) sent_event_def debug_event_def steering_def tracked_event_def)
  with e(1) show ?thesis by blast
qed

text \<open>With users not inlined in events, an index event introduces a user exactly when the key is
  not among the recently used ones (after the periodic flush of that set); the key then counts as
  most recently used, and the queue and the counters are left alone.\<close>

theorem index_event_for_new_users:
  assumes "\<not> c_inlineUsersInEvents (ep_config p)" and "lru_inv (ep_userKeys p)"
    and "user_json p u = Inr uj" and "flush_user_keys p (Some t1) (Some t2) = Inr q"
  shows "\<exists>p'. LDi_maybeMakeIndexEvent p u ts (Some t1) (Some t2) =
       Inr (True, if u_key u \<in> set (lru_list (ep_userKeys q)) then None
                  else Some (set_key (LDi_newBaseEvent ''index'' ts) ''user'' uj), p') \<and>
     lru_list (ep_userKeys p') = snd (spec_insert (unat (lru_capacity (ep_userKeys p)))
        (lru_list (ep_userKeys q)) (u_key u)) \<and>
     lru_inv (ep_userKeys p') \<and> ep_events p' = ep_events p \<and> ep_summaryCounters p' = ep_summaryCounters p"
  using maybeIndex_ok [OF assms(1-3), of "Some t1" "Some t2" ts] assms(4) by auto

theorem index_event_for_new_users_witness:
  "\<exists>p'. LDi_maybeMakeIndexEvent empty_processor sample_user \<lparr>ts_ms = Fin 10\<rparr> (Some (Fin 1)) (Some (Fin 1)) =
       Inr (True, Some (set_key (LDi_newBaseEvent ''index'' \<lparr>ts_ms = Fin 10\<rparr>) ''user'' (JObject [(''key'', JText ''bob'')])), p')"
proof -
  have f: "flush_user_keys empty_processor (Some (Fin 1)) (Some (Fin 1)) = Inr empty_processor"
    by (simp add: flush_user_keys_def LDTimer_Elapsed_def LDi_getMonotonicMilliseconds_def empty_processor_def
        sample_config_def LDConfigNew_def dbl_sub_def fl_eval uint_to_dbl_def)
  have "\<not> c_inlineUsersInEvents (ep_config empty_processor)" "lru_list (ep_userKeys empty_processor) = []"
    by (simp_all add: empty_processor_def sample_config_def LDConfigNew_def LDLRUInit_def)
  with index_event_for_new_users [OF this(1) _ sample_user_json f, of "\<lparr>ts_ms = Fin 10\<rparr>"] empty_processor_sound(1)
  show ?thesis by (auto simp: sound_def)
qed

text \<open>A flush hands over everything once: the payload is the queued events in order, followed by
  one summary event when something was counted, and the processor is left with an empty queue
  and no counts; with nothing to send there is no payload and the state is unchanged.\<close>

theorem payload_drains:
  assumes "queue_ok p" and "summary_ok (ep_summaryCounters p)"
    and "length (object_entries (ep_summaryCounters p)) < 2 ^ 32"
  shows "\<exists>payload p'. LDEventProcessor_CreateEventPayloadAndResetState p (Some now) = Inr (True, payload, p') \<and>
     queued p' = [] \<and> object_entries (ep_summaryCounters p') = [] \<and> ep_userKeys p' = ep_userKeys p \<and>
     payload = (if queued p = [] \<and> object_entries (ep_summaryCounters p) = [] then None
       else Some (JArray (queued p @
         (if object_entries (ep_summaryCounters p) = [] then [] else [summary_event p now]))))"
  using payload_ok [OF assms] by (simp add: queued_def)

theorem payload_drains_witness:
  "\<exists>payload p'. LDEventProcessor_CreateEventPayloadAndResetState empty_processor (Some (Fin 1)) = Inr (True, payload, p') \<and>
     queued p' = [] \<and> object_entries (ep_summaryCounters p') = [] \<and> ep_userKeys p' = ep_userKeys empty_processor \<and>
     payload = (if queued empty_processor = [] \<and> object_entries (ep_summaryCounters empty_processor) = [] then None
       else Some (JArray (queued empty_processor @
         (if object_entries (ep_summaryCounters empty_processor) = [] then [] else [summary_event empty_processor (Fin 1)]))))"
  by (rule payload_drains [OF empty_processor_sound(2) empty_summary(1)]) (simp add: empty_processor_def)

end
