(* ===== verification/EventFlow.thy ===== *)
theory EventFlow
  imports EvaluateResult EventQueue
begin

text \<open>
  From evaluation to analytics: every feature event, the one of the evaluated flag and
  those of its prerequisites, has the shape the event processor asserts, and reporting an
  evaluation counts each of them once.
\<close>

section \<open>The shape of feature events\<close>

text \<open>
  A flag whose metadata events can be built from: a whole-number version, or none, and a
  debug date that is not negative, or none.
\<close>

definition metadata_ok :: "LDJSON \<Rightarrow> bool" where
  "metadata_ok flag \<longleftrightarrow> (\<exists>ver. number_member flag ''version'' ver) \<and>
     (case obj_lookup flag ''debugEventsUntilDate'' of
        Some (JNumber d) \<Rightarrow> dbl_le (Fin 0) d | _ \<Rightarrow> True)"

definition flag_version :: "LDJSON option \<Rightarrow> uint option" where
  "flag_version flag = (case flag of None \<Rightarrow> None
     | Some f \<Rightarrow> (case obj_lookup f ''version'' of
          Some (JNumber d) \<Rightarrow> (case dbl_to_uint d of Inr w \<Rightarrow> Some w | Inl _ \<Rightarrow> None)
        | _ \<Rightarrow> None))"

definition event_ok :: "LDJSON \<Rightarrow> bool" where
  "event_ok e \<longleftrightarrow> steerable e \<and> (\<exists>fk kt. summarizable e fk kt)"

lemma number_member_version:
  "number_member f ''version'' ver \<Longrightarrow> flag_version (Some f) = ver"
  by (cases ver) (auto simp: number_member_def flag_version_def LDi_notNull_def json_type_iff split: option.splits)

text \<open>An event under construction: what later stages may add to it.\<close>

definition event_part :: "LDJSON \<Rightarrow> string \<Rightarrow> uint option \<Rightarrow> bool" where
  "event_part e key var \<longleftrightarrow> obj_inv e \<and> obj_lookup e ''key'' = Some (JText key) \<and>
     obj_lookup e ''variation'' = map_option (\<lambda>v. JNumber (uint_to_dbl v)) var"

lemma event_part_set [simp]:
  "event_part e key var \<Longrightarrow> k \<noteq> ''key'' \<Longrightarrow> k \<noteq> ''variation'' \<Longrightarrow> event_part (set_key e k v) key var"
  by (simp add: event_part_def lookup_set)

lemma obj_inv_set_opt [simp]: "obj_inv e \<Longrightarrow> obj_inv (set_opt e k v)"
  by (simp add: set_opt_def split: option.split)

lemma lookup_set_opt:
  "obj_inv e \<Longrightarrow> obj_lookup (set_opt e k v) k' =
     (if k' = k then (case v of None \<Rightarrow> obj_lookup e k | Some x \<Rightarrow> Some x) else obj_lookup e k')"
  by (auto simp: set_opt_def lookup_set split: option.split)

lemma base_event: "obj_inv (LDi_newBaseEvent kind ts)"
  "obj_lookup (LDi_newBaseEvent kind ts) k =
     (if k = ''kind'' then Some (JText kind) else if k = ''creationDate'' then Some (JNumber (ts_ms ts)) else None)"
  by (simp_all add: LDi_newBaseEvent_def Let_def lookup_set)

lemma addUserInfo_event:
  assumes "LDi_addUserInfoToEvent e u inl allp names = Inr e'" and "obj_inv e"
  shows "obj_inv e' \<and> (\<forall>k. k \<notin> {''user'', ''userKey''} \<longrightarrow> obj_lookup e' k = obj_lookup e k)"
  using assms by (auto simp: LDi_addUserInfoToEvent_def lookup_set elim!: exec_bindE split: if_split_asm)

lemma copy_typed_event:
  assumes "copy_typed f k T e = Some e'" and "obj_inv e"
  shows "obj_inv e' \<and> (\<forall>k'. obj_lookup e' k' =
     (if k' = k \<and> LDi_notNull (obj_lookup f k) then obj_lookup f k else obj_lookup e k')) \<and>
     (LDi_notNull (obj_lookup f k) \<longrightarrow> LDJSONGetType (obj_lookup f k) = T)"
  using assms by (auto simp: copy_typed_def Let_def lookup_set LDi_notNull_def split: if_split_asm option.splits)

text \<open>The members of the event that the flag decides.\<close>

definition copied :: "LDJSON option \<Rightarrow> string \<Rightarrow> LDJSON option" where
  "copied flag k = (case flag of None \<Rightarrow> None
     | Some f \<Rightarrow> if LDi_notNull (obj_lookup f k) then obj_lookup f k else None)"

lemma flag_members_event:
  assumes "flag_members flag e = Some (e', t)" and "obj_inv e"
    and "obj_lookup e ''version'' = None" and "obj_lookup e ''debugEventsUntilDate'' = None"
  shows "obj_inv e' \<and> (\<forall>k. k \<notin> {''version'', ''debugEventsUntilDate''} \<longrightarrow> obj_lookup e' k = obj_lookup e k) \<and>
     obj_lookup e' ''version'' = copied flag ''version'' \<and>
     obj_lookup e' ''debugEventsUntilDate'' = copied flag ''debugEventsUntilDate'' \<and>
     (\<forall>d. obj_lookup e' ''debugEventsUntilDate'' = Some d \<longrightarrow> LDJSONGetType (Some d) = LDNumber)"
proof (cases flag)
  case None
  then show ?thesis using assms by (simp add: flag_members_def copied_def)
next
  case (Some f)
  then obtain e1 where e1: "copy_typed f ''version'' LDNumber e = Some e1"
    and e2: "copy_typed f ''debugEventsUntilDate'' LDNumber e1 = Some e'"
    using assms(1) by (auto simp: flag_members_def split: option.split_asm)
  show ?thesis
    using copy_typed_event [OF e1 assms(2)] copy_typed_event [OF e2] assms(3,4) Some
    by (auto simp: copied_def split: if_splits)
qed

lemma featureEvent_shape:
  assumes "LDi_newFeatureEvent key u var val def pre flag det ts inl allp names = Inr (Some e)"
  shows "event_part e key var \<and> obj_lookup e ''version'' = copied flag ''version'' \<and>
     obj_lookup e ''debugEventsUntilDate'' = copied flag ''debugEventsUntilDate'' \<and>
     (\<forall>d. obj_lookup e ''debugEventsUntilDate'' = Some d \<longrightarrow> LDJSONGetType (Some d) = LDNumber) \<and>
     obj_lookup e ''trackEvents'' \<in> {None, Some (JBool True)} \<and>
     obj_lookup e ''shouldAlwaysTrackDetails'' \<in> {None, Some (JBool True)}"
proof -
  define step where "step e0 = set_opt (set_opt (set_opt (set_opt (set_key e0 ''key'' (JText key))
     ''variation'' (map_option (\<lambda>v. JNumber (uint_to_dbl v)) var)) ''value'' val) ''default'' def)
     ''prereqOf'' (map_option JText pre)" for e0
  from assms obtain e0 e2 t e3 a b where
    e0: "LDi_addUserInfoToEvent (LDi_newBaseEvent ''feature'' ts) u inl allp names = Inr e0"
    and e2: "flag_members flag (step e0) = Some (e2, t)" and e3: "add_reason det e2 = Inr (Some e3)"
    and e: "e = mark_event u a b e3"
    unfolding LDi_newFeatureEvent_def Let_def step_def [symmetric]
    by (auto elim!: exec_bindE split: option.split_asm prod.split_asm)
  have i0: "obj_inv e0" "\<forall>k. k \<notin> {''user'', ''userKey''} \<longrightarrow> obj_lookup e0 k = obj_lookup (LDi_newBaseEvent ''feature'' ts) k"
    using addUserInfo_event [OF e0] base_event by auto
  have e1: "event_part (step e0) key var" "\<forall>k\<in>{''version'', ''debugEventsUntilDate'', ''trackEvents'', ''shouldAlwaysTrackDetails''}.
      obj_lookup (step e0) k = None"
    using i0 by (auto simp: step_def event_part_def lookup_set lookup_set_opt base_event split: option.split)
  have s2: "obj_inv e2" "\<forall>k. k \<notin> {''version'', ''debugEventsUntilDate''} \<longrightarrow> obj_lookup e2 k = obj_lookup (step e0) k"
    "obj_lookup e2 ''version'' = copied flag ''version''"
    "obj_lookup e2 ''debugEventsUntilDate'' = copied flag ''debugEventsUntilDate''"
    "\<forall>d. obj_lookup e2 ''debugEventsUntilDate'' = Some d \<longrightarrow> LDJSONGetType (Some d) = LDNumber"
    using flag_members_event [OF e2] e1 by (auto simp: event_part_def)
  have s3: "obj_inv e3" "\<forall>k. k \<noteq> ''reason'' \<longrightarrow> obj_lookup e3 k = obj_lookup e2 k"
    using e3 s2(1) by (auto simp: add_reason_def lookup_set elim!: exec_bindE split: option.split_asm)
  show ?thesis
    using s3 s2 e1 by (auto simp: e mark_event_def Let_def event_part_def lookup_set)
qed

lemma featureEvent_ok:
  assumes "LDi_newFeatureEvent key u var val def pre flag det ts inl allp names = Inr (Some e)"
    and "\<forall>f. flag = Some f \<longrightarrow> metadata_ok f"
  shows "steerable e \<and> summarizable e key (summary_text var (flag_version flag))"
proof -
  have s: "event_part e key var" "obj_lookup e ''version'' = copied flag ''version''"
    "obj_lookup e ''debugEventsUntilDate'' = copied flag ''debugEventsUntilDate''"
    "\<forall>d. obj_lookup e ''debugEventsUntilDate'' = Some d \<longrightarrow> LDJSONGetType (Some d) = LDNumber"
    "obj_lookup e ''trackEvents'' \<in> {None, Some (JBool True)}"
    "obj_lookup e ''shouldAlwaysTrackDetails'' \<in> {None, Some (JBool True)}"
    using featureEvent_shape [OF assms(1)] by auto
  have "number_member e ''variation'' var"
    using s(1) by (cases var) (simp_all add: event_part_def number_member_def LDi_notNull_def)
  moreover have "number_member e ''version'' (flag_version flag)"
  proof (cases flag)
    case None
    then show ?thesis using s(2) by (simp add: copied_def flag_version_def number_member_def LDi_notNull_def)
  next
    case (Some f)
    then obtain ver where "number_member f ''version'' ver" using assms(2) by (auto simp: metadata_ok_def)
    then show ?thesis
      using s(2) Some number_member_version [of f ver]
      by (cases ver) (auto simp: number_member_def copied_def LDi_notNull_def)
  qed
  ultimately have "summarizable e key (summary_text var (flag_version flag))"
    using s(1) by (simp add: summarizable_def event_part_def makeSummaryKey_text)
  moreover have "steerable e"
    using s assms(2)
    by (auto simp: steerable_def steering_def event_part_def metadata_ok_def copied_def json_type_iff
        split: option.splits if_splits)
  ultimately show ?thesis by blast
qed

section \<open>Events of prerequisites\<close>

definition events_ok :: "LDJSON option \<Rightarrow> bool" where
  "events_ok events \<longleftrightarrow> (case events of None \<Rightarrow> True
     | Some a \<Rightarrow> (\<exists>es. a = JArray es \<and> list_all event_ok es))"

lemma append_events_ok:
  "events_ok a \<Longrightarrow> events_ok b \<Longrightarrow> event_ok e \<Longrightarrow> events_ok (append_events a b e)"
  by (auto simp: events_ok_def append_events_def Let_def split: option.splits)

text \<open>All flags of the store have usable metadata.\<close>

definition store_metadata_ok :: "'sv evalenv \<Rightarrow> bool" where
  "store_metadata_ok env \<longleftrightarrow> (\<forall>k f. e_store env LD_FLAG k = Inr (True, Some f) \<longrightarrow> metadata_ok f)"

lemma prereq_loop_events:
  assumes "store_metadata_ok env"
    and "\<And>f st status st'. eval f st = Inr (status, st') \<Longrightarrow> events_ok (es_events st) \<Longrightarrow> events_ok (es_events st')"
    and "prereq_loop env eval flag user fk st ps = Inr (status, fk', st')" and "events_ok (es_events st)"
  shows "events_ok (es_events st')"
  using assms(3,4)
proof (induction ps arbitrary: fk st)
  case (Cons p ps)
  have ev: "event_ok e" if "LDi_newFeatureEvent k user v val None pre (Some f) det ts inl allp names = Inr (Some e)"
    "e_store env LD_FLAG k = Inr (True, Some f)" for k v val pre f det ts inl allp names e
    using featureEvent_ok [OF that(1)] that(2) assms(1) by (auto simp: event_ok_def store_metadata_ok_def)
  have sub: "events_ok (es_events s')" if "eval f (fresh_outputs n) = Inr (st1, s')" for f n st1 s'
    using assms(2) [OF that] by (simp add: fresh_outputs_def events_ok_def)
  show ?case
    using Cons.prems unfolding prereq_loop.simps Let_def
    by (auto elim!: exec_bindE split: if_split_asm option.split_asm
        dest!: sub ev Cons.IH)
      (auto intro: append_events_ok)
qed simp

lemma addValue_events: "addValue flag i st = Inr (ok, st') \<Longrightarrow> es_events st' = es_events st"
  by (auto simp: addValue_def elim!: exec_bindE split: option.split_asm)

lemma eval_rest_events:
  assumes "eval_rest env flag user st = Inr (status, st')"
  shows "es_events st' = es_events st"
proof -
  have t: "targets_loop flag user st ts = Inr (Some (s, s')) \<Longrightarrow> es_events s' = es_events st" for ts s s'
    by (induction ts)
      (auto elim!: exec_bindE split: if_split_asm option.split_asm bool.split_asm dest!: addValue_events)
  have m: "rule_matched ext flag user i r st = Inr (s, s') \<Longrightarrow> es_events s' = es_events st" for ext i r s s'
    by (auto simp: rule_matched_def Let_def elim!: exec_bindE split: if_split_asm option.split_asm
        dest!: addValue_events)
  have r: "rules_loop env flag user st i rs = Inr (Some (s, s')) \<Longrightarrow> es_events s' = es_events st" for i rs s s'
    by (induction rs arbitrary: i) (auto elim!: exec_bindE split: if_split_asm dest!: m)
  have f: "eval_fallthrough ext flag user st = Inr (s, s') \<Longrightarrow> es_events s' = es_events st" for ext s s'
    by (auto simp: eval_fallthrough_def Let_def elim!: exec_bindE split: option.split_asm dest!: addValue_events)
  show ?thesis
    using assms
    by (auto simp: eval_rest_def eval_targets_def eval_rules_def elim!: exec_bindE split: option.split_asm
        dest!: t r f)
qed

lemma eval_flag_events:
  assumes "store_metadata_ok env"
    and "\<And>f st status st'. eval f st = Inr (status, st') \<Longrightarrow> events_ok (es_events st) \<Longrightarrow> events_ok (es_events st')"
    and "eval_flag env eval user flag st = Inr (status, st')" and "events_ok (es_events st)"
  shows "events_ok (es_events st')"
proof -
  have pre: "LDi_checkPrerequisites env eval flag user st = Inr (s, fk, s') \<Longrightarrow> events_ok (es_events s')" for s fk s'
    using assms(4) unfolding LDi_checkPrerequisites_def
    by (auto elim!: exec_bindE split: option.split_asm)
      (erule (1) prereq_loop_events [of env eval, OF assms(1,2), rotated 2])
  have off: "eval_off flag st = Inr (s, s') \<Longrightarrow> es_events s' = es_events st" for s s'
    by (auto simp: eval_off_def Let_def elim!: exec_bindE split: if_split_asm dest!: addValue_events)
  have failed: "eval_prerequisite_failed flag fk s0 = Inr (s, s') \<Longrightarrow> es_events s' = es_events s0" for fk s0 s s'
    by (auto simp: eval_prerequisite_failed_def elim!: exec_bindE dest!: addValue_events)
  show ?thesis
    using assms(3,4)
    by (auto simp: eval_flag_def elim!: exec_bindE split: option.split_asm if_split_asm
        dest!: off failed eval_rest_events pre)
qed

lemma evaluate_events:
  assumes "store_metadata_ok env"
  shows "LDi_evaluate depth env user flag st = Inr (status, st') \<Longrightarrow> events_ok (es_events st) \<Longrightarrow>
     events_ok (es_events st')"
proof (induction depth arbitrary: flag st status st')
  case (Suc depth)
  show ?case
    using eval_flag_events [of env "LDi_evaluate depth env user", OF assms Suc.IH] Suc.prems by simp
qed simp

section \<open>Reporting an evaluation\<close>

definition null_or :: "LDJSON \<Rightarrow> string \<Rightarrow> LDJSONType \<Rightarrow> bool" where
  "null_or j k T \<longleftrightarrow> (LDi_notNull (obj_lookup j k) \<longrightarrow> LDJSONGetType (obj_lookup j k) = T)"

text \<open>A flag that events can be built from: usable metadata, and switches that are booleans or null.\<close>

definition reportable :: "LDJSON \<Rightarrow> bool" where
  "reportable f \<longleftrightarrow> metadata_ok f \<and> null_or f ''debugEventsUntilDate'' LDNumber \<and>
     null_or f ''trackEvents'' LDBool \<and> null_or f ''trackEventsFallthrough'' LDBool"

lemma number_member_null_or: "number_member f k v \<Longrightarrow> null_or f k LDNumber"
  by (cases v) (auto simp: number_member_def null_or_def)

lemma featureEvent_total:
  assumes "wf_names u names" and "wf_user u" and "\<forall>d. det = Some d \<longrightarrow> details_ok d"
    and "\<forall>f. flag = Some f \<longrightarrow> reportable f"
  shows "\<exists>e. LDi_newFeatureEvent key u var val def pre flag det ts inl allp names = Inr (Some e)"
proof -
  have user: "\<exists>e'. LDi_addUserInfoToEvent e u inl allp names = Inr e'" for e
    using LDi_userToJSON_eq [OF assms(1,2) refl, of True allp] by (simp add: LDi_addUserInfoToEvent_def)
  have members: "flag_members flag e \<noteq> None" for e
  proof (cases flag)
    case (Some f)
    then have "null_or f ''version'' LDNumber" "reportable f"
      using assms(4) number_member_null_or by (auto simp: reportable_def metadata_ok_def)
    then show ?thesis
      by (simp add: Some flag_members_def copy_typed_def flag_switch_def reportable_def null_or_def Let_def
          del: not_None_eq)
  qed (simp add: flag_members_def)
  have reason: "\<exists>e'. add_reason det e = Inr (Some e')" for e
    using LDReasonToJSON_ok assms(3) by (fastforce simp: add_reason_def split: option.split)
  have rule: "\<exists>b. rule_tracked f d = Inr b" if "details_ok d" for f d
    using that by (cases "d_reason d") (auto simp: rule_tracked_def details_ok_def Let_def)
  have track: "\<exists>a b. tracking flag det t = Inr (Some (a, b))" for t
  proof (cases "\<exists>f d. flag = Some f \<and> det = Some d")
    case True
    then obtain f d where "flag = Some f" "det = Some d" by blast
    moreover from this assms(3,4) obtain b where "rule_tracked f d = Inr b" using rule by blast
    ultimately show ?thesis
      using assms(4) by (simp add: tracking_def flag_switch_def reportable_def null_or_def Let_def)
  qed (auto simp: tracking_def split: option.split)
  let ?e = "\<lambda>e0. set_opt (set_opt (set_opt (set_opt (set_key e0 ''key'' (JText key))
     ''variation'' (map_option (\<lambda>v. JNumber (uint_to_dbl v)) var)) ''value'' val) ''default'' def)
     ''prereqOf'' (map_option JText pre)"
  obtain e0 where e0: "LDi_addUserInfoToEvent (LDi_newBaseEvent ''feature'' ts) u inl allp names = Inr e0"
    using user by blast
  obtain e1 t where e1: "flag_members flag (?e e0) = Some (e1, t)" using members by fastforce
  obtain e2 where e2: "add_reason det e1 = Inr (Some e2)" using reason by blast
  obtain a b where "tracking flag det t = Inr (Some (a, b))" using track by blast
  then show ?thesis unfolding LDi_newFeatureEvent_def Let_def e0 exec_bind_Inr e1 by (simp add: e2)
qed

definition event_keys :: "LDJSON \<Rightarrow> string \<times> string" where
  "event_keys e = ((case obj_lookup e ''key'' of Some (JText t) \<Rightarrow> t | _ \<Rightarrow> []),
     (case LDi_makeSummaryKey e of Inr (Some t) \<Rightarrow> t | _ \<Rightarrow> []))"

lemma event_keys_ok: "event_ok e \<Longrightarrow> summarizable e (fst (event_keys e)) (snd (event_keys e))"
  by (auto simp: event_ok_def summarizable_def event_keys_def)

lemma queue_ok_keeps:
  assumes "LDi_possiblyQueueEvent p e now r = Inr p'" and "queue_ok p"
  shows "queue_ok p'"
  using assms unfolding LDi_possiblyQueueEvent_def Let_def
  by (auto elim!: exec_bindE split: if_split_asm) (auto dest!: addEvent_fields)

lemma queue_all_ok:
  assumes "queue_ok p" and "list_all steerable es" and "user_json p (r_user r) = Inr uj"
  shows "\<exists>evs. queue_all p now r es = Inr (p\<lparr>ep_events := JArray evs\<rparr>) \<and> length evs \<le> capacity p"
  using assms
proof (induction es arbitrary: p)
  case Nil
  then show ?case using queue_okD [OF Nil(1)] by (auto intro!: exI [of _ "queued p"])
next
  case (Cons e es)
  then obtain evs where p1: "LDi_possiblyQueueEvent p e now r = Inr (p\<lparr>ep_events := JArray evs\<rparr>)"
    using possiblyQueue_ok [OF Cons.prems(1) _ Cons.prems(3), of e now] by auto
  let ?p = "p\<lparr>ep_events := JArray evs\<rparr>"
  have k: "queue_ok ?p" "user_json ?p (r_user r) = Inr uj"
    using queue_ok_keeps [OF p1 Cons.prems(1)] Cons.prems(3) by (simp_all add: user_json_def)
  then show ?case using Cons.IH [OF k(1) _ k(2)] Cons.prems p1 by (auto simp: capacity_def)
qed

text \<open>
  The hypotheses of a report: a sound processor, clocks that can be read, a user and a
  flag that events can be built from, and events of prerequisites of the expected shape.
\<close>

definition clocks_ok :: "readings \<Rightarrow> bool" where
  "clocks_ok rd \<longleftrightarrow> rd_now rd \<noteq> None \<and> rd_elapsed rd \<noteq> None \<and> rd_reset rd \<noteq> None \<and>
     (\<forall>i. rd_summary rd i \<noteq> None)"

definition report_ok :: "LDEventProcessor \<Rightarrow> EvaluationResult \<Rightarrow> bool" where
  "report_ok p r \<longleftrightarrow> wf_user (r_user r) \<and>
     wf_names (r_user r) (Some (c_privateAttributeNames (ep_config p))) \<and> details_ok (r_details r) \<and>
     (\<forall>f. r_flag r = Some f \<longrightarrow> reportable f) \<and> events_ok (r_subEvents r)"

definition result_variation :: "EvaluationResult \<Rightarrow> uint option" where
  "result_variation r = (if d_hasVariation (r_details r) then Some (d_variationIndex (r_details r)) else None)"

text \<open>The counters an evaluation contributes to: its own and those of its prerequisites.\<close>

definition report_keys :: "EvaluationResult \<Rightarrow> (string \<times> string) list" where
  "report_keys r = (r_flagKey r, summary_text (result_variation r) (flag_version (r_flag r))) #
     map event_keys (iter_values (r_subEvents r))"

lemma maybeIndex_total:
  assumes "sound p" and "user_json p u = Inr uj" and "elapsed \<noteq> None" and "reset \<noteq> None"
  shows "\<exists>e p'. LDi_maybeMakeIndexEvent p u ts elapsed reset = Inr (True, e, p') \<and> sound p' \<and>
     ep_config p' = ep_config p \<and> ep_summaryCounters p' = ep_summaryCounters p"
proof (cases "c_inlineUsersInEvents (ep_config p)")
  case True
  then show ?thesis using assms(1) by (simp add: LDi_maybeMakeIndexEvent_def)
next
  case False
  then obtain e p' where e: "LDi_maybeMakeIndexEvent p u ts elapsed reset = Inr (True, e, p')"
    "ep_config p' = ep_config p" "ep_summaryCounters p' = ep_summaryCounters p"
    using maybeIndex_ok [OF False _ assms(2-4)] assms(1) unfolding sound_def by blast
  then show ?thesis using keeps_maybeIndex [OF e(1)] assms(1) by (auto simp: keeps_def)
qed

lemma queue_step:
  assumes "LDi_addEvent p e = Inr p'" and "sound p"
  shows "sound p' \<and> ep_config p' = ep_config p \<and> ep_summaryCounters p' = ep_summaryCounters p"
  using assms keeps_addEvent [OF assms(1)]
  by (auto simp: keeps_def LDi_addEvent_def elim!: exec_bindE split: if_split_asm)

lemma process_evaluation_ok:
  assumes "sound p" and "summary_ok (ep_summaryCounters p)" and "clocks_ok rd" and "report_ok p r"
    and "\<forall>fk kt. count_of (ep_summaryCounters p) fk kt + length (report_keys r) < 2 ^ 53"
  shows "\<exists>p'. LDEventProcessor_ProcessEvaluation p r rd = Inr (True, p') \<and> sound p' \<and>
     summary_ok (ep_summaryCounters p') \<and>
     (\<forall>fk kt. count_of (ep_summaryCounters p') fk kt =
        count_of (ep_summaryCounters p) fk kt + occurrences (report_keys r) fk kt)"
proof -
  obtain now where now: "LDTimestamp_InitNow (rd_now rd) = Inr now"
    using assms(3) by (auto simp: clocks_ok_def LDTimestamp_InitNow_def LDi_getUnixMilliseconds_def)
  obtain uj where uj: "user_json q (r_user r) = Inr uj" if "ep_config q = ep_config p" for q
    using LDi_userToJSON_eq [of "r_user r" "Some (c_privateAttributeNames (ep_config p))" _ True] assms(4)
    unfolding report_ok_def user_json_def by metis
  define val where "val = (if LDi_notNull (r_actualValue r) then r_actualValue r else r_fallbackValue r)"
  have total: "\<exists>e. LDi_newFeatureEvent key (r_user r) var v fb pre (r_flag r) (Some (r_details r)) ts inl allp
      (Some (c_privateAttributeNames (ep_config p))) = Inr (Some e)" for key var v fb pre ts inl allp
    using assms(4) by (intro featureEvent_total) (auto simp: report_ok_def)
  obtain fe where fe: "LDi_newFeatureEvent (r_flagKey r) (r_user r) (result_variation r) val
      (r_fallbackValue r) None (r_flag r) (Some (r_details r)) now
      (c_inlineUsersInEvents (ep_config p)) (c_allAttributesPrivate (ep_config p))
      (Some (c_privateAttributeNames (ep_config p))) = Inr (Some fe)"
    using total by blast
  have fe_ok: "steerable fe" "summarizable fe (r_flagKey r) (summary_text (result_variation r) (flag_version (r_flag r)))"
    using featureEvent_ok [OF fe] assms(4) by (auto simp: report_ok_def reportable_def)
  obtain ie p1 where p1: "LDi_maybeMakeIndexEvent p (r_user r) now (rd_elapsed rd) (rd_reset rd) = Inr (True, ie, p1)"
    "sound p1" "ep_config p1 = ep_config p" "ep_summaryCounters p1 = ep_summaryCounters p"
    using maybeIndex_total [OF assms(1) uj [OF refl], of "rd_elapsed rd" "rd_reset rd" now] assms(3)
    unfolding clocks_ok_def by blast
  have b1: "count_of (ep_summaryCounters p1) fk kt + length (report_keys r) < 2 ^ 53" for fk kt
    using assms(5) p1(4) by simp
  have "count_of (ep_summaryCounters p1) (r_flagKey r) (summary_text (result_variation r) (flag_version (r_flag r))) < 2 ^ 53 - 1"
    using b1 [of "r_flagKey r" "summary_text (result_variation r) (flag_version (r_flag r))"] by (simp add: report_keys_def)
  then obtain p2 where p2: "LDi_summarizeEvent p1 fe (r_flag r = None) (rd_summary rd 0) = Inr (True, p2)"
    "summary_ok (ep_summaryCounters p2)"
    "\<forall>fk kt. count_of (ep_summaryCounters p2) fk kt = count_of (ep_summaryCounters p1) fk kt +
       (if fk = r_flagKey r \<and> kt = summary_text (result_variation r) (flag_version (r_flag r)) then 1 else 0)"
    "sound p2" "ep_config p2 = ep_config p"
    using summarizeEvent_ok [OF _ fe_ok(2), of p1 "rd_summary rd 0" "r_flag r = None"] assms(2,3) p1
    by (auto simp: clocks_ok_def sound_def queue_ok_def capacity_def)
  obtain p3 where p3: "add_opt p2 ie = Inr p3" "sound p3" "ep_config p3 = ep_config p"
    "ep_summaryCounters p3 = ep_summaryCounters p2"
    using p2(4,5) queue_step addEvent_ok [of p2] by (cases ie) (auto simp: add_opt_def sound_def)
  obtain p4 where p4: "(if r_flag r \<noteq> None then LDi_possiblyQueueEvent p3 fe now r else Inr p3) = Inr p4"
    "sound p4" "ep_config p4 = ep_config p" "ep_summaryCounters p4 = ep_summaryCounters p2"
  proof (cases "r_flag r")
    case (Some f)
    obtain q where q: "LDi_possiblyQueueEvent p3 fe now r = Inr q" "ep_summaryCounters q = ep_summaryCounters p3"
      using possiblyQueue_ok [OF _ fe_ok(1) uj [OF p3(3)], of now] p3(2) by (auto simp: sound_def)
    then show ?thesis using that [of q] Some p3 keeps_possiblyQueue [OF q(1)] by (auto simp: keeps_def)
  qed (use that p3 in simp)
  show ?thesis
  proof (cases "r_subEvents r")
    case None
    then have "LDEventProcessor_ProcessEvaluation p r rd = Inr (True, p4)"
      unfolding LDEventProcessor_ProcessEvaluation_def Let_def now exec_bind_Inr result_variation_def [symmetric]
        val_def [symmetric] fe using p1(1) p2(1) p3(1) p4(1) by simp
    then show ?thesis using p4 p2 p1(4) None by (auto simp: report_keys_def occurrences_def)
  next
    case (Some sub)
    then obtain es where sub: "sub = JArray es" "list_all event_ok es"
      using assms(4) by (auto simp: report_ok_def events_ok_def)
    have "list_all2 (\<lambda>e k. summarizable e (fst k) (snd k)) es (map event_keys es)"
      using sub(2) by (auto simp: list_all2_conv_all_nth list_all_length event_keys_ok)
    moreover have "\<forall>fk kt. count_of (ep_summaryCounters p4) fk kt + length es < 2 ^ 53"
    proof (intro allI)
      fix fk kt
      have "count_of (ep_summaryCounters p4) fk kt \<le> count_of (ep_summaryCounters p1) fk kt + 1"
        using p2(3) p4(4) by simp
      then show "count_of (ep_summaryCounters p4) fk kt + length es < 2 ^ 53"
        using b1 [of fk kt] Some sub by (simp add: report_keys_def)
    qed
    ultimately obtain p5 where p5: "summarize_all p4 (rd_summary rd) 1 es = Inr (True, p5)"
      "summary_ok (ep_summaryCounters p5)" "\<forall>fk kt. count_of (ep_summaryCounters p5) fk kt =
         count_of (ep_summaryCounters p4) fk kt + occurrences (map event_keys es) fk kt"
      "ep_config p5 = ep_config p4" "ep_events p5 = ep_events p4" "ep_userKeys p5 = ep_userKeys p4"
      using summarize_all_ok [of p4 "rd_summary rd" es "map event_keys es" 1] p2(2) p4(4) assms(3)
      by (auto simp: clocks_ok_def)
    have s5: "sound p5" using p4(2) p5(4-6) by (simp add: sound_def queue_ok_def capacity_def)
    have "list_all steerable es" using sub(2) by (auto simp: list_all_iff event_ok_def)
    then obtain evs where p6: "queue_all p5 now r es = Inr (p5\<lparr>ep_events := JArray evs\<rparr>)"
      using queue_all_ok [of p5 es r uj now] s5 uj [of p5] p5(4) p4(3) by (auto simp: sound_def)
    then have "LDEventProcessor_ProcessEvaluation p r rd = Inr (True, p5\<lparr>ep_events := JArray evs\<rparr>)"
      unfolding LDEventProcessor_ProcessEvaluation_def Let_def now exec_bind_Inr result_variation_def [symmetric]
        val_def [symmetric] fe using p1(1) p2(1) p3(1) p4(1) p5(1) Some sub(1) by simp
    moreover have "sound (p5\<lparr>ep_events := JArray evs\<rparr>)"
      using keeps_queue_all [OF p6] s5 by (simp add: keeps_def)
    ultimately show ?thesis using p5 p4(4) p2(3) p1(4) Some sub
      by (auto simp: report_keys_def occurrences_def)
  qed
qed

section \<open>Guarantees\<close>


lemma sample_metadata: "store_metadata_ok sample_env"
proof -
  have "number_member base_flag ''version'' (Some 3)" by (simp add: number_member_def base_flag_def)
  moreover have "obj_lookup base_flag ''debugEventsUntilDate'' = None" by (simp add: base_flag_def)
  ultimately have "metadata_ok base_flag" unfolding metadata_ok_def by auto
  then show ?thesis by (simp add: store_metadata_ok_def sample_env_def)
qed


text \<open>Reporting an evaluation is total and counts once: from a sound processor, with readable
  clocks, a well-formed user and a reportable flag, the report succeeds, the processor stays sound,
  and the count of the evaluated flag with its variation and version and the counts of its
  prerequisite events grow by exactly their number of occurrences.\<close>

theorem report_counts_once:
  assumes "sound p" and "summary_ok (ep_summaryCounters p)" and "clocks_ok rd" and "report_ok p r"
    and "\<forall>fk kt. count_of (ep_summaryCounters p) fk kt + length (report_keys r) < 2 ^ 53"
  shows "\<exists>p'. LDEventProcessor_ProcessEvaluation p r rd = Inr (True, p') \<and> sound p' \<and>
     summary_ok (ep_summaryCounters p') \<and>
     (\<forall>fk kt. count_of (ep_summaryCounters p') fk kt =
        count_of (ep_summaryCounters p) fk kt + occurrences (report_keys r) fk kt)"
  by (rule process_evaluation_ok [OF assms])

definition sample_readings :: readings where
  "sample_readings = \<lparr>rd_now = Some (Fin 10), rd_elapsed = Some (Fin 10), rd_reset = Some (Fin 10),
     rd_summary = (\<lambda>i. Some (Fin 10))\<rparr>"

theorem report_counts_once_witness:
  "\<exists>p'. LDEventProcessor_ProcessEvaluation empty_processor sample_result sample_readings = Inr (True, p') \<and>
     count_of (ep_summaryCounters p') ''f'' (summary_text (Some 1) None) = 1"
proof -
  have "clocks_ok sample_readings" by (simp add: clocks_ok_def sample_readings_def)
  moreover have "report_ok empty_processor sample_result"
    by (simp add: report_ok_def sample_result_def wf_user_def sample_user_def LDi_userNew_def wf_names_def
        empty_processor_def sample_config_def LDConfigNew_def details_ok_def events_ok_def)
  moreover have keys: "report_keys sample_result = [(''f'', summary_text (Some 1) None)]"
    by (simp add: report_keys_def sample_result_def result_variation_def flag_version_def)
  ultimately show ?thesis
    using report_counts_once [OF empty_processor_sound(1) empty_summary(1), of sample_readings sample_result]
    by (auto simp: empty_summary occurrences_def)
qed

end
