(* ===== verification/Prerequisites.thy ===== *)
theory Prerequisites
  imports EventFlow Clauses
begin

text \<open>
  What the prerequisites of a flag decide and report, stated without the loop and the state it
  threads: the verdict on a prerequisite depends on the flag data and the user alone, not on the
  clock or on what was collected before, and the events of an evaluation are those of the
  prerequisites it reaches, at every level.
\<close>

section \<open>Events and clock readings do not influence a decision\<close>

text \<open>The state with other collected events and another number of clock readings.\<close>

definition retag :: "LDJSON option \<Rightarrow> nat \<Rightarrow> evalstate \<Rightarrow> evalstate" where
  "retag e t st = st\<lparr>es_events := e, es_ticks := t\<rparr>"

lemma retag_simps [simp]:
  "es_details (retag e t st) = es_details st" "es_value (retag e t st) = es_value st"
  "es_events (retag e t st) = e" "es_ticks (retag e t st) = t" "retag e t (retag e' t' st) = retag e t st"
  "retag (es_events st) (es_ticks st) st = st"
  "set_reason (retag e t st) r = retag e t (set_reason st r)" "set_extra (retag e t st) x = retag e t (set_extra st x)"
  by (simp_all add: retag_def set_reason_def set_extra_def)

lemma retag_update [simp]: "(retag e t st)\<lparr>es_value := v\<rparr> = retag e t (st\<lparr>es_value := v\<rparr>)"
  "retag e t (st\<lparr>es_ticks := t'\<rparr>) = retag e t st" "retag e t (st\<lparr>es_events := e'\<rparr>) = retag e t st"
  "retag e t (st\<lparr>es_ticks := t', es_events := e'\<rparr>) = retag e t st"
  "(retag e t st)\<lparr>es_ticks := t'\<rparr> = retag e t' st" "(retag e t st)\<lparr>es_events := e'\<rparr> = retag e' t st"
  by (simp_all add: retag_def)

lemma retag_any [simp]: "\<exists>e' t'. retag e t st = retag e' t' st"
  by (intro exI, rule refl)

definition retag_run :: "LDJSON option \<Rightarrow> nat \<Rightarrow> ('a \<times> evalstate) exec \<Rightarrow> ('a \<times> evalstate) exec" where
  "retag_run e t m = exec_bind m (\<lambda>(a, st). Inr (a, retag e t st))"

definition retag_block :: "LDJSON option \<Rightarrow> nat \<Rightarrow> ('a \<times> evalstate) option exec \<Rightarrow> ('a \<times> evalstate) option exec" where
  "retag_block e t m = exec_bind m (\<lambda>r. Inr (map_option (\<lambda>(a, st). (a, retag e t st)) r))"

lemma retag_run_simps [simp]: "retag_run e t (Inr (a, st)) = Inr (a, retag e t st)" "retag_run e t (Inl f) = Inl f"
  by (simp_all add: retag_run_def)

lemma retag_block_simps [simp]: "retag_block e t (Inr None) = Inr None" "retag_block e t (Inl f) = Inl f"
  "retag_block e t (Inr (Some (a, st))) = Inr (Some (a, retag e t st))"
  by (simp_all add: retag_block_def)

lemma retag_bind:
  "retag_run e t (exec_bind m f) = exec_bind m (\<lambda>x. retag_run e t (f x))"
  "retag_block e t (exec_bind m g) = exec_bind m (\<lambda>x. retag_block e t (g x))"
  by (cases m; simp)+

lemma addValue_retag: "addValue flag i (retag e t st) = retag_run e t (addValue flag i st)"
  by (cases "getValue flag i") (auto simp: addValue_def retag_def split: option.split)

lemma bind_retag: "exec_bind (retag_run e t m) f = exec_bind m (\<lambda>(a, st). f (a, retag e t st))"
  by (cases m) (auto simp: retag_run_def)

lemma bind_retag_block: "exec_bind (retag_block e t m) f = exec_bind m (\<lambda>r. f (map_option (\<lambda>(a, st). (a, retag e t st)) r))"
  by (cases m) (auto simp: retag_block_def)

lemma targets_retag: "targets_loop flag user (retag e t st) ts = retag_block e t (targets_loop flag user st ts)"
proof (induction ts)
  case (Cons p ts)
  show ?case
    by (auto intro!: exec_bind_cong split: option.split bool.split
        simp: retag_bind addValue_retag bind_retag case_prod_beta Cons.IH)
qed simp

lemma rule_matched_retag:
  "rule_matched ext flag user i r (retag e t st) = retag_run e t (rule_matched ext flag user i r st)"
  by (auto simp: rule_matched_def Let_def retag_bind addValue_retag bind_retag case_prod_beta
      intro!: exec_bind_cong split: option.split)

lemma rules_retag: "rules_loop env flag user (retag e t st) i rs = retag_block e t (rules_loop env flag user st i rs)"
  by (induction rs arbitrary: i)
    (auto simp: retag_bind rule_matched_retag bind_retag case_prod_beta intro!: exec_bind_cong)

lemma fallthrough_retag:
  "eval_fallthrough ext flag user (retag e t st) = retag_run e t (eval_fallthrough ext flag user st)"
  by (auto simp: eval_fallthrough_def Let_def retag_bind addValue_retag bind_retag case_prod_beta
      intro!: exec_bind_cong split: option.split)

lemma eval_rest_retag: "eval_rest env flag user (retag e t st) = retag_run e t (eval_rest env flag user st)"
proof -
  have "eval_targets flag user (retag e t st) = retag_block e t (eval_targets flag user st)"
    by (auto simp: eval_targets_def retag_bind targets_retag intro!: exec_bind_cong split: option.split)
  moreover have "eval_rules env flag user (retag e t st) = retag_block e t (eval_rules env flag user st)"
    by (auto simp: eval_rules_def retag_bind rules_retag intro!: exec_bind_cong split: option.split)
  ultimately show ?thesis
    by (auto simp: eval_rest_def retag_bind bind_retag_block fallthrough_retag intro!: exec_bind_cong split: option.split)
qed

lemma eval_off_retag: "eval_off flag (retag e t st) = retag_run e t (eval_off flag st)"
  by (auto simp: eval_off_def Let_def retag_bind addValue_retag bind_retag case_prod_beta intro!: exec_bind_cong)

lemma eval_failed_retag:
  "eval_prerequisite_failed flag fk (retag e t st) = retag_run e t (eval_prerequisite_failed flag fk st)"
  by (auto simp: eval_prerequisite_failed_def retag_bind addValue_retag bind_retag case_prod_beta intro!: exec_bind_cong)

text \<open>The clock is only read for the timestamps of events.\<close>

definition with_clock :: "'sv evalenv \<Rightarrow> (nat \<Rightarrow> dbl option) \<Rightarrow> 'sv evalenv" where
  "with_clock env c = env\<lparr>e_clock := c\<rparr>"

definition readable :: "(nat \<Rightarrow> dbl option) \<Rightarrow> bool" where
  "readable c \<longleftrightarrow> (\<forall>n. c n \<noteq> None)"

lemma with_clock_simps [simp]:
  "e_ext (with_clock env c) = e_ext env" "e_store (with_clock env c) = e_store env"
  "e_config (with_clock env c) = e_config env" "e_clock (with_clock env c) = c"
  "with_clock (with_clock env c) c' = with_clock env c'" "with_clock env (e_clock env) = env"
  by (simp_all add: with_clock_def)

lemma segment_match_clock: "segment_match_loop (with_clock env c) user cl vs = segment_match_loop env user cl vs"
  by (induction vs) (auto intro!: exec_bind_cong split: option.split)

lemma ruleMatches_clock: "LDi_ruleMatchesUser (with_clock env c) r user = LDi_ruleMatchesUser env r user"
proof -
  have clause: "LDi_clauseMatchesUser (with_clock env c) cl user = LDi_clauseMatchesUser env cl user" for cl
    unfolding LDi_clauseMatchesUser_def segment_match_clock with_clock_simps by (rule refl)
  show ?thesis unfolding LDi_ruleMatchesUser_def clause by (rule refl)
qed

lemma eval_rest_clock: "eval_rest (with_clock env c) flag user st = eval_rest env flag user st"
proof -
  have loop: "rules_loop (with_clock env c) flag user st i rs = rules_loop env flag user st i rs" for i rs
    by (induction rs arbitrary: i) (simp_all add: ruleMatches_clock cong: if_cong)
  show ?thesis unfolding eval_rest_def eval_rules_def loop with_clock_simps by (rule refl)
qed

lemma featureEvent_timestamp:
  assumes "LDi_newFeatureEvent key u var val def pre flag det ts inl allp names = Inr x"
  shows "\<exists>y. LDi_newFeatureEvent key u var val def pre flag det ts' inl allp names = Inr y \<and> (y = None \<longleftrightarrow> x = None)"
proof -
  have user: "\<exists>b. LDi_addUserInfoToEvent e' u inl allp names = Inr b"
    if "LDi_addUserInfoToEvent e u inl allp names = Inr a" for e e' a
    using that by (auto simp: LDi_addUserInfoToEvent_def elim!: exec_bindE split: if_split_asm)
  have members: "rel_option (\<lambda>a b. snd a = snd b) (flag_members flag e) (flag_members flag e')" for e e'
    by (auto simp: flag_members_def copy_typed_def Let_def option.rel_map split: option.split intro: option.rel_refl)
  have reason: "\<exists>y. add_reason det e' = Inr y \<and> (y = None \<longleftrightarrow> x = None)" if "add_reason det e = Inr x" for e e' x
    using that by (auto simp: add_reason_def elim!: exec_bindE split: option.split_asm)
  define step where "step e0 = set_opt (set_opt (set_opt (set_opt (set_key e0 ''key'' (JText key))
     ''variation'' (map_option (\<lambda>v. JNumber (uint_to_dbl v)) var)) ''value'' val) ''default'' def)
     ''prereqOf'' (map_option JText pre)" for e0
  from assms obtain e0 where e0: "LDi_addUserInfoToEvent (LDi_newBaseEvent ''feature'' ts) u inl allp names = Inr e0"
    by (auto simp: LDi_newFeatureEvent_def elim!: exec_bindE)
  obtain e1 where e1: "LDi_addUserInfoToEvent (LDi_newBaseEvent ''feature'' ts') u inl allp names = Inr e1"
    using user [OF e0] by blast
  show ?thesis
  proof (cases "flag_members flag (step e0)")
    case None
    then have "flag_members flag (step e1) = None" using members [of "step e0" "step e1"] by auto
    with None show ?thesis using assms by (simp add: LDi_newFeatureEvent_def Let_def e0 e1 step_def)
  next
    case (Some m)
    then obtain a b t where ab: "flag_members flag (step e0) = Some (a, t)" "flag_members flag (step e1) = Some (b, t)"
      using members [of "step e0" "step e1"] by (cases m) (auto simp: option_rel_Some1)
    obtain r where r: "add_reason det a = Inr r"
      using assms ab(1) by (auto simp: LDi_newFeatureEvent_def Let_def e0 step_def elim!: exec_bindE)
    obtain r' where r': "add_reason det b = Inr r'" "r' = None \<longleftrightarrow> r = None" using reason [OF r] by blast
    show ?thesis
      using assms ab r r' unfolding LDi_newFeatureEvent_def Let_def e0 e1 exec_bind_Inr step_def [symmetric]
      by (auto elim!: exec_bindE split: option.split_asm option.split prod.split_asm)
  qed
qed

section \<open>One prerequisite\<close>

lemmas prereq_loop_Cons = prereq_loop.simps(2)
declare prereq_loop.simps(2) [simp del]

definition is_on :: "LDJSON \<Rightarrow> bool" where
  "is_on flag \<longleftrightarrow> obj_lookup flag ''on'' = Some (JBool True)"

lemma on_object: "is_on flag \<Longrightarrow> LDJSONGetType (Some flag) = LDObject"
  using obj_lookup_object by (auto simp: is_on_def)

text \<open>The key and the required variation of a well-formed prerequisite.\<close>

definition prereq_entry :: "LDJSON \<Rightarrow> (string \<times> dbl) option" where
  "prereq_entry p = (case (obj_lookup p ''key'', obj_lookup p ''variation'') of
       (Some (JText k), Some (JNumber v)) \<Rightarrow> Some (k, v) | _ \<Rightarrow> None)"

lemma prereq_entry_SomeD:
  "prereq_entry p = Some (k, v) \<Longrightarrow> obj_lookup p ''key'' = Some (JText k) \<and> obj_lookup p ''variation'' = Some (JNumber v)"
  by (auto simp: prereq_entry_def split: option.split_asm LDJSON.split_asm)

definition reported_variation :: "LDDetails \<Rightarrow> uint option" where
  "reported_variation d = (if d_hasVariation d then Some (d_variationIndex d) else None)"

text \<open>The event of a prerequisite that was evaluated.\<close>

definition prereq_event ::
  "'sv evalenv \<Rightarrow> LDJSON \<Rightarrow> LDUser \<Rightarrow> string \<Rightarrow> LDJSON \<Rightarrow> evalstate \<Rightarrow> dbl \<Rightarrow> LDJSON option exec" where
  "prereq_event env flag user k f sub now = LDi_newFeatureEvent k user (reported_variation (es_details sub))
     (es_value sub) None (LDGetText (LDObjectLookup (Some flag) ''key'')) (Some f) (Some (es_details sub)) \<lparr>ts_ms = now\<rparr>
     (c_inlineUsersInEvents (e_config env)) (c_allAttributesPrivate (e_config env))
     (Some (c_privateAttributeNames (e_config env)))"

text \<open>The iteration of the loop on a well-formed prerequisite, and on another.\<close>

lemma loop_entry:
  assumes "prereq_entry p = Some (k, v)" and "e_clock env (es_ticks st) = Some now"
  shows "prereq_loop env eval flag user fk st (p # ps) = exec_bind (e_store env LD_FLAG k) (\<lambda>(ok, preflag).
     let st = st\<lparr>es_ticks := Suc (es_ticks st)\<rparr> in
     if \<not> ok then Inr (EVAL_STORE, Some k, st)
     else case preflag of None \<Rightarrow> Inr (EVAL_MISS, Some k, st)
     | Some f \<Rightarrow> exec_bind (eval f (fresh_outputs (es_ticks st))) (\<lambda>(status, sub).
         let st = st\<lparr>es_ticks := es_ticks sub\<rparr> in
         if LDi_isEvalError status then Inr (status, Some k, st) else
         exec_bind (prereq_event env flag user k f sub now) (\<lambda>event. case event of None \<Rightarrow> Inr (EVAL_MEM, Some k, st)
         | Some event \<Rightarrow>
             let st = st\<lparr>es_events := append_events (es_events st) (es_events sub) event\<rparr> in
             if status = EVAL_MISS then Inr (EVAL_MISS, Some k, st) else
             exec_bind (prereq_satisfied f (es_details sub) (JNumber v)) (\<lambda>r.
               if r = EVAL_MATCH then prereq_loop env eval flag user (Some k) st ps else Inr (r, Some k, st)))))"
proof -
  have p: "obj_lookup p ''key'' = Some (JText k)" "obj_lookup p ''variation'' = Some (JNumber v)"
    using prereq_entry_SomeD [OF assms(1)] by simp_all
  then have "LDJSONGetType (Some p) = LDObject" using obj_lookup_object by blast
  then show ?thesis
    using p assms(2) unfolding prereq_loop_Cons Let_def prereq_event_def reported_variation_def
    by (simp add: lookupRequiredValueOfType_def LDTimestamp_InitNow_def LDi_getUnixMilliseconds_def)
qed

lemma loop_no_entry:
  assumes "prereq_entry p = None" and "e_clock env (es_ticks st) = Some now"
  shows "prereq_loop env eval flag user fk st (p # ps) = Inr (EVAL_SCHEMA, fk, st\<lparr>es_ticks := Suc (es_ticks st)\<rparr>)"
  using assms
  by (auto simp: prereq_loop_Cons prereq_entry_def lookupRequiredValueOfType_def LDTimestamp_InitNow_def LDi_getUnixMilliseconds_def
      Let_def json_type_iff split: option.split_asm LDJSON.split_asm option.split)

lemma loop_clock: "prereq_loop env eval flag user fk st (p # ps) = Inr r \<Longrightarrow> \<exists>now. e_clock env (es_ticks st) = Some now"
  by (auto simp: prereq_loop_Cons LDTimestamp_InitNow_def LDi_getUnixMilliseconds_def elim!: exec_bindE split: option.split_asm)

lemma event_clock:
  assumes "prereq_event env flag user k f sub now = Inr x" and "untouched_outputs sub sub'"
  shows "\<exists>y. prereq_event (with_clock env c) flag user k f sub' now' = Inr y \<and> (y = None \<longleftrightarrow> x = None)"
  using featureEvent_timestamp [of k user _ _ None _ "Some f"] assms
  unfolding prereq_event_def untouched_outputs_def by (metis with_clock_simps(3))

lemma prereq_loop_sim:
  assumes "readable c"
    and ev: "\<And>f t s sub. eval f (fresh_outputs t) = Inr (s, sub) \<Longrightarrow>
      \<forall>t'. \<exists>sub'. eval' f (fresh_outputs t') = Inr (s, sub') \<and> untouched_outputs sub sub'"
    and "prereq_loop env eval flag user fk st ps = Inr (s, fk', st1)"
  shows "\<exists>e t. prereq_loop (with_clock env c) eval' flag user fk (retag e0 t0 st) ps = Inr (s, fk', retag e t st1)"
  using assms(3)
proof (induction ps arbitrary: fk st e0 t0)
  case (Cons p ps)
  obtain now where now: "e_clock env (es_ticks st) = Some now" using loop_clock [OF Cons.prems] by blast
  obtain now' where now': "e_clock (with_clock env c) (es_ticks (retag e0 t0 st)) = Some now'"
    using assms(1) by (auto simp: readable_def)
  show ?case
  proof (cases "prereq_entry p")
    case None
    then show ?thesis
      using Cons.prems loop_no_entry [OF None now'] by (auto simp: loop_no_entry [OF None now])
  next
    case (Some kv)
    then obtain k v where kv: "prereq_entry p = Some (k, v)" by (cases kv) auto
    note run = Cons.prems [unfolded loop_entry [OF kv now]] and goal = loop_entry [OF kv now', of eval' flag user fk ps]
    obtain ok pf where st: "e_store env LD_FLAG k = Inr (ok, pf)" using run by (auto elim: exec_bindE)
    show ?thesis
    proof (cases "ok \<and> pf \<noteq> None")
      case False
      then show ?thesis using run unfolding goal by (auto simp: st Let_def split: option.split_asm)
    next
      case True
      then obtain f where f: "ok" "pf = Some f" by auto
      obtain s1 sub where sub: "eval f (fresh_outputs (Suc (es_ticks st))) = Inr (s1, sub)"
        using run f by (auto simp: st Let_def elim: exec_bindE)
      obtain sub' where sub': "eval' f (fresh_outputs (Suc t0)) = Inr (s1, sub')" "untouched_outputs sub sub'"
        using ev [OF sub] by blast
      show ?thesis
      proof (cases "LDi_isEvalError s1")
        case True
        then show ?thesis using run unfolding goal by (auto simp: st f sub sub' Let_def)
      next
        case no_error: False
        obtain x where x: "prereq_event env flag user k f sub now = Inr x"
          using run no_error by (auto simp: st f sub Let_def elim: exec_bindE)
        obtain y where y: "prereq_event (with_clock env c) flag user k f sub' now' = Inr y" "y = None \<longleftrightarrow> x = None"
          using event_clock [OF x sub'(2)] by blast
        show ?thesis
        proof (cases "x = None \<or> s1 = EVAL_MISS")
          case True
          then show ?thesis using run no_error y(2) unfolding goal
            by (auto simp: st f sub sub' x y(1) Let_def split: option.split_asm)
        next
          case False
          then obtain e e' where e: "x = Some e" "y = Some e'" using y(2) by auto
          obtain r where r: "prereq_satisfied f (es_details sub) (JNumber v) = Inr r"
            using run no_error False e by (auto simp: st f sub x Let_def elim: exec_bindE)
          have "es_details sub' = es_details sub" using sub'(2) by (simp add: untouched_outputs_def)
          then show ?thesis
            using run no_error False e unfolding goal
            by (auto simp: st f sub sub' x y(1) r Let_def split: if_split_asm)
              (drule Cons.IH, simp)
        qed
      qed
    qed
  qed
qed auto

lemma evaluate_sim:
  assumes "readable c" and "LDi_evaluate d env user flag st = Inr (s, st1)"
  shows "\<exists>e t. LDi_evaluate d (with_clock env c) user flag (retag e0 t0 st) = Inr (s, retag e t st1)"
  using assms(2)
proof (induction d arbitrary: flag st s st1 e0 t0)
  case (Suc d)
  have ev: "\<forall>t'. \<exists>sub'. LDi_evaluate d (with_clock env c) user f (fresh_outputs t') = Inr (s, sub') \<and> untouched_outputs sub sub'"
    if "LDi_evaluate d env user f (fresh_outputs t) = Inr (s, sub)" for f t s sub
  proof
    fix t'
    have "fresh_outputs t' = retag None t' (fresh_outputs t)" by (simp add: fresh_outputs_def retag_def)
    then show "\<exists>sub'. LDi_evaluate d (with_clock env c) user f (fresh_outputs t') = Inr (s, sub') \<and> untouched_outputs sub sub'"
      using Suc.IH [OF that, of None t'] by (auto simp: untouched_outputs_def)
  qed
  have sim: "\<exists>e t. prereq_loop (with_clock env c) (LDi_evaluate d (with_clock env c) user) flag user None (retag e0 t0 st) ps =
      Inr (a, fk, retag e t s1)"
    if "prereq_loop env (LDi_evaluate d env user) flag user None st ps = Inr (a, fk, s1)" for ps a fk s1
    by (rule prereq_loop_sim [OF assms(1) ev that])
  have check: "\<exists>e t. LDi_checkPrerequisites (with_clock env c) (LDi_evaluate d (with_clock env c) user) flag user (retag e0 t0 st) =
      Inr (a, fk, retag e t s1)"
    if "LDi_checkPrerequisites env (LDi_evaluate d env user) flag user st = Inr (a, fk, s1)" for a fk s1
    using that sim [of _ a fk s1]
    by (auto simp: LDi_checkPrerequisites_def elim!: exec_bindE split: option.split_asm)
  show ?case
    using Suc.prems check
    by (auto simp: eval_flag_def eval_off_retag eval_failed_retag eval_rest_retag eval_rest_clock
        elim!: exec_bindE split: option.split_asm if_split_asm)
qed simp

section \<open>The verdict on a prerequisite\<close>

text \<open>
  What the evaluation of a flag decides: its status and details. They are taken at a constant
  clock and from fresh outputs, and are the same for any others.
\<close>

definition outcome :: "nat \<Rightarrow> 'sv evalenv \<Rightarrow> LDUser \<Rightarrow> LDJSON \<Rightarrow> (EvalStatus \<times> LDDetails) option" where
  "outcome d env user f = (case LDi_evaluate d (with_clock env (\<lambda>_. Some (Fin 0))) user f (fresh_outputs 0) of
       Inr (s, st) \<Rightarrow> Some (s, es_details st) | Inl _ \<Rightarrow> None)"

lemma fresh_retag: "fresh_outputs t = retag None t (fresh_outputs t')"
  by (simp add: fresh_outputs_def retag_def)

lemma outcome_of_run:
  assumes "LDi_evaluate d env user f (fresh_outputs t) = Inr (s, sub)"
  shows "outcome d env user f = Some (s, es_details sub)"
  using evaluate_sim [OF _ assms, of "\<lambda>_. Some (Fin 0)" None 0]
  by (auto simp: outcome_def readable_def fresh_retag [of 0 t, symmetric])

lemma run_of_outcome:
  assumes "outcome d env user f = Some (s, det)" and "readable (e_clock env)"
  obtains sub where "LDi_evaluate d env user f (fresh_outputs t) = Inr (s, sub)" "es_details sub = det"
proof -
  obtain st where st: "LDi_evaluate d (with_clock env (\<lambda>_. Some (Fin 0))) user f (fresh_outputs 0) = Inr (s, st)"
    "es_details st = det"
    using assms(1) by (auto simp: outcome_def split: sum.split_asm)
  then show ?thesis
    using evaluate_sim [OF assms(2) st(1), of None t] that by (auto simp: fresh_retag [of t 0, symmetric])
qed

lemma matched_is_on:
  assumes "LDi_evaluate d env user f st = Inr (EVAL_MATCH, st')"
  shows "is_on f"
  using assms
  by (cases d) (auto simp: eval_flag_def eval_off_def eval_prerequisite_failed_def is_on_def Let_def
      lookupOptionalValueOfType_def LDi_isEvalError_def json_type_iff
      elim!: exec_bindE split: option.split_asm if_split_asm)

lemma satisfied_on:
  assumes "is_on f"
  shows "prereq_satisfied f det (JNumber v) = Inr
     (if d_hasVariation det \<and> dbl_eq (uint_to_dbl (d_variationIndex det)) v then EVAL_MATCH else EVAL_MISS)"
  using assms on_object [OF assms] by (auto simp: prereq_satisfied_def is_on_def lookupOptionalValueOfType_def)

text \<open>
  A prerequisite holds when its flag is stored, matches and serves the required variation; it fails
  when the flag is not stored, is off, has a failed prerequisite of its own, or serves another
  variation; otherwise the data is broken.
\<close>

datatype standing = Holds | Fails | Broken

definition standing_of :: "nat \<Rightarrow> 'sv evalenv \<Rightarrow> LDUser \<Rightarrow> LDJSON \<Rightarrow> standing" where
  "standing_of d env user p = (case prereq_entry p of None \<Rightarrow> Broken
     | Some (k, v) \<Rightarrow> (case e_store env LD_FLAG k of
         Inr (True, None) \<Rightarrow> Fails
       | Inr (True, Some f) \<Rightarrow> (case outcome d env user f of
           Some (EVAL_MATCH, det) \<Rightarrow>
             if d_hasVariation det \<and> dbl_eq (uint_to_dbl (d_variationIndex det)) v then Holds else Fails
         | Some (EVAL_MISS, det) \<Rightarrow> Fails
         | _ \<Rightarrow> Broken)
       | _ \<Rightarrow> Broken))"

text \<open>The prerequisites of a flag, and those that are looked at: up to the first that does not hold.\<close>

definition prerequisites :: "LDJSON \<Rightarrow> LDJSON list" where
  "prerequisites flag = iter_values (member_value flag ''prerequisites'')"

fun reached :: "('a \<Rightarrow> standing) \<Rightarrow> 'a list \<Rightarrow> 'a list" where
  "reached h [] = []"
| "reached h (p # ps) = p # (if h p = Holds then reached h ps else [])"

text \<open>
  The counters an evaluation contributes to beside its own: for each prerequisite that is looked
  at, in order, those of its own evaluation and then its key with the served variation and version.
\<close>

fun reports :: "nat \<Rightarrow> 'sv evalenv \<Rightarrow> LDUser \<Rightarrow> LDJSON \<Rightarrow> (string \<times> string) list" where
  "reports 0 env user flag = []"
| "reports (Suc d) env user flag = (if is_on flag then
     concat (map (\<lambda>p. case prereq_entry p of None \<Rightarrow> []
       | Some (k, v) \<Rightarrow> (case e_store env LD_FLAG k of
           Inr (True, Some f) \<Rightarrow> (case outcome d env user f of
             Some (s, det) \<Rightarrow> reports d env user f @
               [(k, summary_text (reported_variation det) (flag_version (Some f)))]
           | None \<Rightarrow> [])
         | _ \<Rightarrow> []))
       (reached (standing_of d env user) (prerequisites flag))) else [])"

section \<open>What the loop reports\<close>

definition collected :: "LDJSON option \<Rightarrow> (string \<times> string) list" where
  "collected events = map event_keys (iter_values events)"

lemma collected_append:
  "events_ok a \<Longrightarrow> events_ok b \<Longrightarrow> collected (append_events a b e) = collected a @ collected b @ [event_keys e]"
  by (auto simp: collected_def events_ok_def append_events_def Let_def split: option.split_asm option.split)

lemma prereq_event_keys:
  assumes "prereq_event env flag user k f sub now = Inr (Some e)" and "metadata_ok f"
  shows "event_ok e" and "event_keys e = (k, summary_text (reported_variation (es_details sub)) (flag_version (Some f)))"
  using featureEvent_ok [OF assms(1) [unfolded prereq_event_def]] assms(2)
  by (auto simp: event_ok_def event_keys_def summarizable_def)

definition contribution :: "nat \<Rightarrow> 'sv evalenv \<Rightarrow> LDUser \<Rightarrow> LDJSON \<Rightarrow> (string \<times> string) list" where
  "contribution d env user p = (case prereq_entry p of None \<Rightarrow> []
     | Some (k, v) \<Rightarrow> (case e_store env LD_FLAG k of
         Inr (True, Some f) \<Rightarrow> (case outcome d env user f of
           Some (s, det) \<Rightarrow> reports d env user f @
             [(k, summary_text (reported_variation det) (flag_version (Some f)))]
         | None \<Rightarrow> [])
       | _ \<Rightarrow> []))"

lemma reports_Suc:
  "reports (Suc d) env user flag = (if is_on flag then
     concat (map (contribution d env user) (reached (standing_of d env user) (prerequisites flag))) else [])"
  unfolding contribution_def [abs_def] by simp

declare reports.simps(2) [simp del]

lemma loop_reports:
  assumes "store_metadata_ok env"
    and IH: "\<And>f t s sub. LDi_evaluate d env user f (fresh_outputs t) = Inr (s, sub) \<Longrightarrow> \<not> LDi_isEvalError s \<Longrightarrow>
      collected (es_events sub) = reports d env user f"
    and "prereq_loop env (LDi_evaluate d env user) flag user fk st ps = Inr (s, fk', st1)"
    and "\<not> LDi_isEvalError s" and "events_ok (es_events st)"
  shows "collected (es_events st1) = collected (es_events st) @
     concat (map (contribution d env user) (reached (standing_of d env user) ps))"
  using assms(3,5)
proof (induction ps arbitrary: fk st)
  case (Cons p ps)
  obtain now where now: "e_clock env (es_ticks st) = Some now" using loop_clock [OF Cons.prems(1)] by blast
  obtain k v where kv: "prereq_entry p = Some (k, v)"
    using Cons.prems(1) assms(4) loop_no_entry [OF _ now] by (cases "prereq_entry p") (auto simp: LDi_isEvalError_def)
  note run = Cons.prems(1) [unfolded loop_entry [OF kv now]]
  obtain ok pf where "e_store env LD_FLAG k = Inr (ok, pf)" using run by (auto elim: exec_bindE)
  then have st: "e_store env LD_FLAG k = Inr (True, pf)"
    using run assms(4) by (cases ok) (auto simp: LDi_isEvalError_def)
  show ?case
  proof (cases pf)
    case None
    then show ?thesis using run by (auto simp: st kv contribution_def standing_of_def Let_def)
  next
    case (Some f)
    obtain s1 sub where sub: "LDi_evaluate d env user f (fresh_outputs (Suc (es_ticks st))) = Inr (s1, sub)"
      using run Some by (auto simp: st Let_def elim: exec_bindE)
    have s1: "\<not> LDi_isEvalError s1" using run assms(4) by (auto simp: st Some sub Let_def split: if_split_asm)
    obtain e where e: "prereq_event env flag user k f sub now = Inr (Some e)"
      using run s1 assms(4)
      by (auto simp: st Some sub Let_def LDi_isEvalError_def [of EVAL_MEM] elim!: exec_bindE split: option.split_asm)
    have f: "metadata_ok f" using st assms(1) by (auto simp: Some store_metadata_ok_def)
    have evs: "events_ok (es_events sub)"
      using evaluate_events [OF assms(1) sub] by (simp add: fresh_outputs_def events_ok_def)
    let ?ev = "append_events (es_events st) (es_events sub) e"
    have con: "contribution d env user p = collected (es_events sub) @ [event_keys e]"
      by (simp add: contribution_def kv st Some outcome_of_run [OF sub] IH [OF sub s1] prereq_event_keys(2) [OF e f])
    have ev: "collected ?ev = collected (es_events st) @ contribution d env user p" "events_ok ?ev"
      using collected_append [OF Cons.prems(2) evs] append_events_ok [OF Cons.prems(2) evs prereq_event_keys(1) [OF e f]]
      by (simp_all add: con)
    show ?thesis
    proof (cases "standing_of d env user p = Holds")
      case True
      then have m: "s1 = EVAL_MATCH" and hit: "d_hasVariation (es_details sub)"
          "dbl_eq (uint_to_dbl (d_variationIndex (es_details sub))) v"
        by (auto simp: standing_of_def kv st Some outcome_of_run [OF sub] split: EvalStatus.split_asm if_split_asm)
      have "prereq_loop env (LDi_evaluate d env user) flag user (Some k)
          (st\<lparr>es_ticks := es_ticks sub, es_events := ?ev\<rparr>) ps = Inr (s, fk', st1)"
        using run m hit satisfied_on [OF matched_is_on, of d env user f] sub
        by (auto simp: st Some e Let_def LDi_isEvalError_def)
      from Cons.IH [OF this] show ?thesis using True ev by simp
    next
      case False
      then have "es_events st1 = ?ev"
        using run s1 satisfied_on [OF matched_is_on, of d env user f] sub
        by (cases s1) (auto simp: standing_of_def kv st Some outcome_of_run [OF sub] e Let_def LDi_isEvalError_def split: if_split_asm)
      then show ?thesis using False ev by simp
    qed
  qed
qed simp

lemma check_reports:
  assumes "store_metadata_ok env"
    and "\<And>f t s sub. LDi_evaluate d env user f (fresh_outputs t) = Inr (s, sub) \<Longrightarrow> \<not> LDi_isEvalError s \<Longrightarrow>
      collected (es_events sub) = reports d env user f"
    and "LDi_checkPrerequisites env (LDi_evaluate d env user) flag user st = Inr (s, fk, st1)"
    and "\<not> LDi_isEvalError s" and "events_ok (es_events st)" and "is_on flag"
  shows "collected (es_events st1) = collected (es_events st) @ reports (Suc d) env user flag"
proof -
  have "lookupOptionalValueOfType flag ''prerequisites'' LDArray \<noteq> Inr None"
    using assms(3,4) by (auto simp: LDi_checkPrerequisites_def LDi_isEvalError_def)
  then have "lookupOptionalValueOfType flag ''prerequisites'' LDArray = Inr (Some (member_value flag ''prerequisites''))"
    using on_object [OF assms(6)]
    by (auto simp: lookupOptionalValueOfType_def member_value_def split: option.split if_splits)
  then show ?thesis
    using assms(3,6) loop_reports [OF assms(1,2) _ assms(4,5)]
    by (auto simp: LDi_checkPrerequisites_def reports_Suc prerequisites_def split: option.split_asm)
qed

lemma evaluate_reports:
  assumes "store_metadata_ok env" and "LDi_evaluate d env user flag st = Inr (s, st1)"
    and "\<not> LDi_isEvalError s" and "events_ok (es_events st)"
  shows "collected (es_events st1) = collected (es_events st) @ reports d env user flag"
  using assms(2-4)
proof (induction d arbitrary: flag st s st1)
  case (Suc d)
  have off: "eval_off flag st = Inr (a, s') \<Longrightarrow> es_events s' = es_events st" for a s'
    by (auto simp: eval_off_def Let_def elim!: exec_bindE split: if_split_asm dest!: addValue_events)
  have failed: "eval_prerequisite_failed flag fk s0 = Inr (a, s') \<Longrightarrow> es_events s' = es_events s0" for fk s0 a s'
    by (auto simp: eval_prerequisite_failed_def elim!: exec_bindE dest!: addValue_events)
  have sub: "collected (es_events sub) = reports d env user f"
    if "LDi_evaluate d env user f (fresh_outputs t) = Inr (s, sub)" "\<not> LDi_isEvalError s" for f t s sub
    using Suc.IH [OF that] by (simp add: fresh_outputs_def events_ok_def collected_def)
  show ?case
  proof (cases "is_on flag")
    case True
    then have run: "eval_flag env (LDi_evaluate d env user) user flag st =
      exec_bind (LDi_checkPrerequisites env (LDi_evaluate d env user) flag user st) (\<lambda>(substatus, failedKey, st).
        if LDi_isEvalError substatus then Inr (substatus, st)
        else if substatus = EVAL_MISS then eval_prerequisite_failed flag failedKey st
        else eval_rest env flag user st)"
      using on_object [OF True] by (simp add: eval_flag_def lookupOptionalValueOfType_def is_on_def)
    obtain a fk s0 where c: "LDi_checkPrerequisites env (LDi_evaluate d env user) flag user st = Inr (a, fk, s0)"
      using Suc.prems(1) by (auto simp: run elim: exec_bindE)
    then have "\<not> LDi_isEvalError a" and "es_events st1 = es_events s0"
      using Suc.prems(1,2) failed eval_rest_events by (auto simp: run split: if_split_asm)
    then show ?thesis using check_reports [OF assms(1) sub c _ Suc.prems(3) True] by simp
  next
    case False
    then have "eval_off flag st = Inr (s, st1)"
      using Suc.prems(1,2)
      by (auto simp: eval_flag_def is_on_def lookupOptionalValueOfType_def LDi_isEvalError_def json_type_iff
          elim!: exec_bindE split: option.split_asm if_split_asm)
    then show ?thesis using off False by (simp add: reports_Suc)
  qed
qed simp

section \<open>Prerequisites that can be reported\<close>

text \<open>
  The surroundings in which every prerequisite event can be built: a readable clock, a well-formed
  user and stored flags with usable metadata.
\<close>

definition reporting_ok :: "'sv evalenv \<Rightarrow> LDUser \<Rightarrow> bool" where
  "reporting_ok env user \<longleftrightarrow> readable (e_clock env) \<and> wf_user user \<and>
     wf_names user (Some (c_privateAttributeNames (e_config env))) \<and>
     (\<forall>k f. e_store env LD_FLAG k = Inr (True, Some f) \<longrightarrow> reportable f)"

lemma reporting_metadata: "reporting_ok env user \<Longrightarrow> store_metadata_ok env"
  by (auto simp: reporting_ok_def store_metadata_ok_def reportable_def)

lemma prereq_event_total:
  assumes "reporting_ok env user" and "e_store env LD_FLAG k = Inr (True, Some f)"
    and "LDi_evaluate d env user f (fresh_outputs t) = Inr (s, sub)" and "\<not> LDi_isEvalError s"
  shows "\<exists>e. prereq_event env flag user k f sub now = Inr (Some e)"
proof -
  have "good_result f s sub"
    using assms(3) by (cases d) (auto simp: fresh_outputs_def new_details_def dest!: eval_flag_good)
  then have "details_ok (es_details sub)"
    using assms(4) by (cases s) (auto simp: good_result_def match_result_def miss_result_def LDi_isEvalError_def)
  then show ?thesis
    using assms(1,2) unfolding prereq_event_def by (intro featureEvent_total) (auto simp: reporting_ok_def)
qed

lemma standing_cases:
  assumes "standing_of d env user p = h" and "h \<noteq> Broken"
  obtains k v where "prereq_entry p = Some (k, v)" "e_store env LD_FLAG k = Inr (True, None)" "h = Fails"
  | k v f s det where "prereq_entry p = Some (k, v)" "e_store env LD_FLAG k = Inr (True, Some f)"
      "outcome d env user f = Some (s, det)" "s = EVAL_MATCH \<or> s = EVAL_MISS"
      "h = Holds \<longleftrightarrow> s = EVAL_MATCH \<and> d_hasVariation det \<and> dbl_eq (uint_to_dbl (d_variationIndex det)) v"
  using assms
  by (auto simp: standing_of_def split: option.split_asm sum.split_asm bool.split_asm EvalStatus.split_asm if_split_asm)

lemma loop_step:
  assumes "reporting_ok env user" and "standing_of d env user p \<noteq> Broken" and "prereq_entry p = Some (k, v)"
  shows "\<exists>e t. prereq_loop env (LDi_evaluate d env user) flag user fk st (p # ps) =
     (if standing_of d env user p = Holds
      then prereq_loop env (LDi_evaluate d env user) flag user (Some k) (retag e t st) ps
      else Inr (EVAL_MISS, Some k, retag e t st))"
proof -
  obtain now where now: "e_clock env (es_ticks st) = Some now"
    using assms(1) unfolding reporting_ok_def readable_def by (metis option.exhaust)
  note goal = loop_entry [OF assms(3) now]
  from refl assms(2) show ?thesis
  proof (cases rule: standing_cases)
    case (1 k' v')
    then show ?thesis
      using assms(3) unfolding goal
      by (auto simp: Let_def retag_def intro!: exI [of _ "es_events st"] exI [of _ "Suc (es_ticks st)"])
  next
    case (2 k' v' f s det)
    have k: "k' = k" "v' = v" using 2(1) assms(3) by auto
    obtain sub where sub: "LDi_evaluate d env user f (fresh_outputs (Suc (es_ticks st))) = Inr (s, sub)" "es_details sub = det"
      using run_of_outcome [OF 2(3)] assms(1) by (auto simp: reporting_ok_def)
    have s: "\<not> LDi_isEvalError s" using 2(4) by (auto simp: LDi_isEvalError_def)
    obtain e where e: "prereq_event env flag user k f sub now = Inr (Some e)"
      using prereq_event_total [OF assms(1) 2(2) sub(1) s] k by blast
    have upd: "st\<lparr>es_ticks := es_ticks sub, es_events := x\<rparr> = retag x (es_ticks sub) st" for x
      by (simp add: retag_def)
    have hit: "prereq_satisfied f det (JNumber v) = Inr (if d_hasVariation det \<and>
        dbl_eq (uint_to_dbl (d_variationIndex det)) v then EVAL_MATCH else EVAL_MISS)" if "s = EVAL_MATCH"
      using satisfied_on [OF matched_is_on] sub(1) that by blast
    show ?thesis
      using 2(2,4,5) s sub hit unfolding goal
      by (intro exI [of _ "append_events (es_events st) (es_events sub) e"] exI [of _ "es_ticks sub"])
        (auto simp: k e upd Let_def split: if_split)
  qed
qed

lemma loop_holds:
  assumes "reporting_ok env user"
  shows "\<forall>p\<in>set ps. standing_of d env user p = Holds \<Longrightarrow>
     \<exists>fk' e t. prereq_loop env (LDi_evaluate d env user) flag user fk st (ps @ qs) =
       prereq_loop env (LDi_evaluate d env user) flag user fk' (retag e t st) qs"
proof (induction ps arbitrary: fk st)
  case Nil
  then show ?case by (auto intro!: exI [of _ fk] exI [of _ "es_events st"] exI [of _ "es_ticks st"])
next
  case (Cons p ps)
  then have h: "standing_of d env user p = Holds" by simp
  obtain k v where kv: "prereq_entry p = Some (k, v)" using h by (cases rule: standing_cases) auto
  obtain e t where "prereq_loop env (LDi_evaluate d env user) flag user fk st (p # ps @ qs) =
      prereq_loop env (LDi_evaluate d env user) flag user (Some k) (retag e t st) (ps @ qs)"
    using loop_step [OF assms _ kv, of d flag fk st "ps @ qs"] h by auto
  moreover obtain fk' e' t' where "prereq_loop env (LDi_evaluate d env user) flag user (Some k) (retag e t st) (ps @ qs) =
      prereq_loop env (LDi_evaluate d env user) flag user fk' (retag e' t' (retag e t st)) qs"
    using Cons.IH [of "Some k" "retag e t st"] Cons.prems by auto
  ultimately show ?case by auto
qed

text \<open>All prerequisites of a flag hold.\<close>

definition prerequisites_hold :: "nat \<Rightarrow> 'sv evalenv \<Rightarrow> LDUser \<Rightarrow> LDJSON \<Rightarrow> bool" where
  "prerequisites_hold n env user flag \<longleftrightarrow> opt_member flag ''prerequisites'' LDArray \<and>
     (prerequisites flag = [] \<or> reporting_ok env user) \<and>
     (\<forall>p\<in>set (prerequisites flag). standing_of n env user p = Holds)"

lemma no_prerequisites_hold: "member_value flag ''prerequisites'' = None \<Longrightarrow> prerequisites_hold n env user flag"
  by (auto simp: prerequisites_hold_def prerequisites_def member_value_def opt_member_def split: option.split_asm if_split_asm)

lemma check_loop:
  assumes "is_on flag" and "opt_member flag ''prerequisites'' LDArray"
  shows "LDi_checkPrerequisites env eval flag user st = prereq_loop env eval flag user None st (prerequisites flag)"
  using lookupOptional_ok [OF on_object [OF assms(1)] assms(2)]
  by (simp add: LDi_checkPrerequisites_def prerequisites_def split: option.split)

lemma eval_flag_on:
  assumes "is_on flag"
  shows "eval_flag env eval user flag st =
    exec_bind (LDi_checkPrerequisites env eval flag user st) (\<lambda>(substatus, failedKey, st).
      if LDi_isEvalError substatus then Inr (substatus, st)
      else if substatus = EVAL_MISS then eval_prerequisite_failed flag failedKey st
      else eval_rest env flag user st)"
  using on_object [OF assms] assms by (simp add: eval_flag_def lookupOptionalValueOfType_def is_on_def)

lemma evaluate_collects:
  assumes "reporting_ok env user" and "LDi_evaluate d env user f (fresh_outputs t) = Inr (s, sub)" and "\<not> LDi_isEvalError s"
  shows "collected (es_events sub) = reports d env user f"
  using evaluate_reports [OF reporting_metadata [OF assms(1)] assms(2,3)]
  by (simp add: fresh_outputs_def events_ok_def collected_def)

lemma prerequisites_hold_rest:
  assumes "is_on flag" and "prerequisites_hold n env user flag"
  shows "\<exists>e t. LDi_evaluate (Suc n) env user flag st = eval_rest env flag user (retag e t st) \<and>
     (events_ok (es_events st) \<longrightarrow> collected e = collected (es_events st) @ reports (Suc n) env user flag)"
proof -
  let ?check = "LDi_checkPrerequisites env (LDi_evaluate n env user) flag user st"
  note check = check_loop [OF assms(1), of env "LDi_evaluate n env user" user st]
  have h: "opt_member flag ''prerequisites'' LDArray" "\<forall>p\<in>set (prerequisites flag). standing_of n env user p = Holds"
    using assms(2) by (auto simp: prerequisites_hold_def)
  show ?thesis
  proof (cases "prerequisites flag = []")
    case True
    then show ?thesis
      using check [OF h(1)]
      by (intro exI [of _ "es_events st"] exI [of _ "es_ticks st"])
        (simp add: eval_flag_on [OF assms(1)] LDi_isEvalError_def reports_Suc)
  next
    case False
    then have ok: "reporting_ok env user" using assms(2) by (simp add: prerequisites_hold_def)
    obtain fk e t where r: "?check = Inr (EVAL_MATCH, fk, retag e t st)"
      using loop_holds [OF ok h(2), of flag None st "[]"] check [OF h(1)] by auto
    have "collected e = collected (es_events st) @ reports (Suc n) env user flag" if "events_ok (es_events st)"
      using check_reports [OF reporting_metadata [OF ok] evaluate_collects [OF ok] r _ that assms(1)]
      by (simp add: LDi_isEvalError_def)
    then show ?thesis
      using r by (intro exI [of _ e] exI [of _ t]) (simp add: eval_flag_on [OF assms(1)] LDi_isEvalError_def)
  qed
qed

lemma prerequisite_fails:
  assumes "is_on flag" and "reporting_ok env user"
    and "obj_lookup flag ''prerequisites'' = Some (JArray (pre @ p # post))"
    and "\<forall>q\<in>set pre. standing_of n env user q = Holds" and "standing_of n env user p = Fails"
    and "obj_lookup p ''key'' = Some (JText k)"
  shows "\<exists>e t. LDi_evaluate (Suc n) env user flag st = eval_prerequisite_failed flag (Some k) (retag e t st) \<and>
     (events_ok (es_events st) \<longrightarrow> collected e = collected (es_events st) @ reports (Suc n) env user flag)"
proof -
  let ?check = "LDi_checkPrerequisites env (LDi_evaluate n env user) flag user st"
  have ps: "opt_member flag ''prerequisites'' LDArray" "prerequisites flag = pre @ p # post"
    using assms(3) by (simp_all add: opt_member_def prerequisites_def member_value_def)
  obtain v where kv: "prereq_entry p = Some (k, v)"
    using assms(5,6) by (auto simp: standing_of_def prereq_entry_def split: option.split_asm LDJSON.split_asm)
  obtain fk e t where "?check = prereq_loop env (LDi_evaluate n env user) flag user fk (retag e t st) (p # post)"
    using loop_holds [OF assms(2,4), of flag None st "p # post"] unfolding check_loop [OF assms(1) ps(1)] ps(2) by blast
  moreover obtain e' t' where "prereq_loop env (LDi_evaluate n env user) flag user fk (retag e t st) (p # post) =
      Inr (EVAL_MISS, Some k, retag e' t' (retag e t st))"
    using loop_step [OF assms(2) _ kv, of n flag fk "retag e t st" post] assms(5) by auto
  ultimately have r: "?check = Inr (EVAL_MISS, Some k, retag e' t' st)" by simp
  have "collected e' = collected (es_events st) @ reports (Suc n) env user flag" if "events_ok (es_events st)"
    using check_reports [OF reporting_metadata [OF assms(2)] evaluate_collects [OF assms(2)] r _ that assms(1)]
    by (simp add: LDi_isEvalError_def)
  then show ?thesis
    using r by (intro exI [of _ e'] exI [of _ t']) (simp add: eval_flag_on [OF assms(1)] LDi_isEvalError_def)
qed

section \<open>Samples\<close>

lemma fresh_events [simp]: "events_ok (es_events (fresh_outputs t))" "collected (es_events (fresh_outputs t)) = []"
  by (simp_all add: fresh_outputs_def events_ok_def collected_def)

lemma sample_reporting: "reporting_ok sample_env sample_user"
proof -
  have "number_member base_flag ''version'' (Some 3)" by (simp add: number_member_def base_flag_def)
  moreover have "obj_lookup base_flag k = None" if "k \<in> {''debugEventsUntilDate'', ''trackEvents'', ''trackEventsFallthrough''}" for k
    using that by (auto simp: base_flag_def)
  ultimately have "reportable base_flag" by (auto simp: reportable_def metadata_ok_def null_or_def LDi_notNull_def)
  then show ?thesis
    by (auto simp: reporting_ok_def readable_def sample_env_def wf_user_def wf_names_def sample_user_def LDi_userNew_def
        sample_config_def LDConfigNew_def split: if_split_asm)
qed

definition requires :: "string \<Rightarrow> uint \<Rightarrow> LDJSON" where
  "requires k i = JObject [(''key'', JText k), (''variation'', JNumber (uint_to_dbl i))]"

lemma requires_simps [simp]: "prereq_entry (requires k i) = Some (k, uint_to_dbl i)"
  "obj_lookup (requires k i) ''key'' = Some (JText k)"
  by (simp_all add: requires_def prereq_entry_def)

lemma sample_outcome_base: "outcome (Suc n) sample_env sample_user base_flag =
   Some (EVAL_MATCH, \<lparr>d_variationIndex = 1, d_hasVariation = True, d_reason = LD_FALLTHROUGH, d_extra = DetailsFallthrough False\<rparr>)"
  by (simp add: outcome_def eval_defs sample_defs)

lemma sample_standing:
  "standing_of (Suc n) sample_env sample_user (requires ''base'' 1) = Holds"
  "standing_of n sample_env sample_user (requires ''gone'' i) = Fails"
  by (simp_all add: standing_of_def sample_outcome_base) (simp_all add: sample_env_def sample_outcome_base [unfolded sample_env_def])

lemma sample_env_ext [simp]: "e_ext sample_env = sample_ext"
  by (simp add: sample_env_def)

lemma sample_contribution:
  "contribution (Suc n) sample_env sample_user (requires ''base'' 1) = [(''base'', summary_text (Some 1) (Some 3))]"
  "contribution n sample_env sample_user (requires ''gone'' i) = []"
proof -
  have "reports (Suc n) sample_env sample_user base_flag = []"
    by (simp add: reports_Suc prerequisites_def member_value_def base_flag_def)
  moreover have "flag_version (Some base_flag) = Some 3" by (simp add: flag_version_def base_flag_def)
  moreover have "e_store sample_env LD_FLAG ''base'' = Inr (True, Some base_flag)" by (simp add: sample_env_def)
  ultimately show "contribution (Suc n) sample_env sample_user (requires ''base'' 1) = [(''base'', summary_text (Some 1) (Some 3))]"
    by (simp add: contribution_def sample_outcome_base reported_variation_def)
  show "contribution n sample_env sample_user (requires ''gone'' i) = []"
    by (simp add: contribution_def sample_env_def)
qed

lemmas sample_reports = reports_Suc sample_contribution

end
