(* ===== verification/Precedence.thy ===== *)
theory Precedence
  imports Prerequisites
begin

text \<open>
  The order in which a flag decides: off, prerequisites, targets, rules, fallthrough. Each
  theorem fixes only what its stage reads, so what comes later may be absent or malformed.
\<close>

section \<open>Variations by index\<close>

text \<open>The variation at an index that is a whole number in the range of the array.\<close>

definition variation_at :: "LDJSON \<Rightarrow> uint \<Rightarrow> LDJSON option" where
  "variation_at flag i = (case obj_lookup flag ''variations'' of
       Some (JArray vs) \<Rightarrow> LDArrayLookup (Some (JArray vs)) i | _ \<Rightarrow> None)"

definition index_member :: "LDJSON \<Rightarrow> string \<Rightarrow> uint \<Rightarrow> bool" where
  "index_member j k i \<longleftrightarrow> obj_lookup j k = Some (JNumber (uint_to_dbl i))"

definition select_variation :: "evalstate \<Rightarrow> LDEvalReason \<Rightarrow> extra \<Rightarrow> uint \<Rightarrow> LDJSON \<Rightarrow> evalstate" where
  "select_variation st reason x i v = st\<lparr>es_value := Some v,
     es_details := \<lparr>d_variationIndex = i, d_hasVariation = True, d_reason = reason, d_extra = x\<rparr>\<rparr>"

definition malformed :: "evalstate \<Rightarrow> evalstate" where
  "malformed st = st\<lparr>es_value := None, es_details :=
     \<lparr>d_variationIndex = 0, d_hasVariation = False, d_reason = LD_ERROR, d_extra = ErrorKind LD_MALFORMED_FLAG\<rparr>\<rparr>"

lemma getValue_ok:
  assumes "variation_at flag i = Some v"
  shows "getValue flag (Some (JNumber (uint_to_dbl i))) = Inr (Some (v, i))"
proof -
  obtain vs where vs: "obj_lookup flag ''variations'' = Some (JArray vs)"
    "LDArrayLookup (Some (JArray vs)) i = Some v"
    using assms by (auto simp: variation_at_def split: option.split_asm LDJSON.split_asm)
  have "lookupRequiredValueOfType flag ''variations'' LDArray = Inr (Some (JArray vs))"
    using vs(1) obj_lookup_object [OF vs(1)] by (simp add: lookupRequiredValueOfType_def)
  then show ?thesis using vs(2) by (simp add: getValue_def del: LDArrayLookup.simps)
qed

lemma addValue_ok:
  assumes "variation_at flag i = Some v"
  shows "addValue flag (Some (JNumber (uint_to_dbl i))) st = Inr (True,
     select_variation st (d_reason (es_details st)) (d_extra (es_details st)) i v)"
  using getValue_ok [OF assms] by (simp add: addValue_def select_variation_def)

lemma addValue_None: "addValue flag None st = Inr (False, malformed st)"
  by (simp add: addValue_def getValue_def malformed_def LDDetailsClear_def LDDetailsInit_def)

lemma select_simps [simp]:
  "select_variation (set_reason st r) r' x i v = select_variation st r' x i v"
  "select_variation (set_extra st y) r' x i v = select_variation st r' x i v"
  "set_extra (select_variation st r x i v) y = select_variation st r y i v"
  "malformed (set_reason st r) = malformed st" "malformed (set_extra st y) = malformed st"
  by (simp_all add: select_variation_def malformed_def set_reason_def set_extra_def)

section \<open>Off\<close>

definition is_off :: "LDJSON \<Rightarrow> bool" where
  "is_off flag \<longleftrightarrow> LDJSONGetType (Some flag) = LDObject \<and>
     member_value flag ''on'' \<in> {None, Some (JBool False)}"

lemma eval_off_flag:
  assumes "is_off flag"
  shows "eval_flag env eval user flag st = eval_off flag st"
proof -
  have "lookupOptionalValueOfType flag ''on'' LDBool = Inr (Some (member_value flag ''on''))"
    using assms
    by (auto simp: lookupOptionalValueOfType_def is_off_def member_value_def split: option.splits if_splits)
  then show ?thesis using assms by (auto simp: eval_flag_def is_off_def)
qed

lemma eval_on_flag:
  assumes "is_on flag" and "member_value flag ''prerequisites'' = None"
  shows "eval_flag env eval user flag st = eval_rest env flag user st"
proof -
  have obj: "LDJSONGetType (Some flag) = LDObject"
    using assms(1) obj_lookup_object by (auto simp: is_on_def)
  then have "lookupOptionalValueOfType flag ''prerequisites'' LDArray = Inr (Some None)"
    using assms(2) by (auto simp: lookupOptionalValueOfType_def member_value_def split: option.splits if_splits)
  then show ?thesis
    using assms(1) obj
    by (simp add: eval_flag_def lookupOptionalValueOfType_def [of flag "''on''"] is_on_def
        LDi_checkPrerequisites_def)
qed

text \<open>A flag that is off serves its off variation, or no value when it has none, with the
  reason off. Nothing else of the flag is read: prerequisites, targets, rules and
  fallthrough play no part.\<close>

theorem flag_off_serves_off_variation:
  assumes "is_off flag"
  shows "(member_value flag ''offVariation'' = None \<longrightarrow>
       LDi_evaluate (Suc n) env user flag st =
         Inr (EVAL_MISS, (set_reason st LD_OFF)\<lparr>es_value := None\<rparr>)) \<and>
     (\<forall>i v. index_member flag ''offVariation'' i \<and> variation_at flag i = Some v \<longrightarrow>
       LDi_evaluate (Suc n) env user flag st =
         Inr (EVAL_MISS, select_variation st LD_OFF (d_extra (es_details st)) i v))"
proof -
  have "eval_off flag st = Inr (EVAL_MISS, (set_reason st LD_OFF)\<lparr>es_value := None\<rparr>)"
    if "member_value flag ''offVariation'' = None"
    using that by (auto simp: eval_off_def Let_def member_value_def split: option.splits if_splits)
  moreover have "eval_off flag st = Inr (EVAL_MISS, select_variation st LD_OFF (d_extra (es_details st)) i v)"
    if "index_member flag ''offVariation'' i" "variation_at flag i = Some v" for i v
    using that by (simp add: eval_off_def Let_def index_member_def addValue_ok)
  ultimately show ?thesis by (simp add: eval_off_flag [OF assms])
qed

definition off_flag :: LDJSON where
  "off_flag = JObject [(''on'', JBool False), (''offVariation'', JNumber (uint_to_dbl 1)),
     (''variations'', JArray [JText ''a'', JText ''b''])]"

theorem flag_off_serves_off_variation_witness:
  "LDi_evaluate 1 sample_env sample_user off_flag (fresh_outputs 0) =
     Inr (EVAL_MISS, select_variation (fresh_outputs 0) LD_OFF NoExtra 1 (JText ''b''))"
proof -
  have "is_off off_flag" by (simp add: is_off_def off_flag_def member_value_def)
  from flag_off_serves_off_variation [OF this, of 0 sample_env sample_user "fresh_outputs 0"] show ?thesis
    by (simp add: index_member_def variation_at_def off_flag_def fresh_outputs_def new_details_def)
qed

section \<open>Prerequisites\<close>

text \<open>C34: when the prerequisites of a flag hold up to one that fails (its flag is not stored, is
  off, has a failed prerequisite itself or serves another variation than required), the flag
  serves its off variation, with the reason prerequisite failed and the key of exactly that
  prerequisite; the prerequisites up to it are reported and later ones are not. Unlike for a flag
  that is off, an absent off variation is then an error: the result is malformed flag data.\<close>

theorem failed_prerequisite_serves_off_variation:
  assumes "is_on flag" and "reporting_ok env user"
    and "obj_lookup flag ''prerequisites'' = Some (JArray (pre @ p # post))"
    and "\<forall>q\<in>set pre. standing_of n env user q = Holds" and "standing_of n env user p = Fails"
    and "obj_lookup p ''key'' = Some (JText k)"
  shows "\<exists>e t. (events_ok (es_events st) \<longrightarrow> collected e = collected (es_events st) @ reports (Suc n) env user flag) \<and>
     (\<forall>i v. index_member flag ''offVariation'' i \<and> variation_at flag i = Some v \<longrightarrow>
       LDi_evaluate (Suc n) env user flag st =
         Inr (EVAL_MISS, select_variation (retag e t st) LD_PREREQUISITE_FAILED (PrerequisiteKey (Some k)) i v)) \<and>
     (obj_lookup flag ''offVariation'' = None \<longrightarrow>
       LDi_evaluate (Suc n) env user flag st = Inr (EVAL_SCHEMA, malformed (retag e t st)))"
proof -
  obtain e t where r: "LDi_evaluate (Suc n) env user flag st = eval_prerequisite_failed flag (Some k) (retag e t st)"
    "events_ok (es_events st) \<longrightarrow> collected e = collected (es_events st) @ reports (Suc n) env user flag"
    using prerequisite_fails [OF assms] by blast
  show ?thesis
    using r(2) unfolding r(1)
    by (intro exI [of _ e] exI [of _ t])
      (simp add: eval_prerequisite_failed_def index_member_def addValue_ok addValue_None del: retag_simps(7,8))
qed

definition needy_flag :: LDJSON where
  "needy_flag = JObject [(''key'', JText ''needy''), (''on'', JBool True),
     (''prerequisites'', JArray [requires ''base'' 1, requires ''gone'' 0, requires ''base'' 1]),
     (''offVariation'', JNumber (uint_to_dbl 1)), (''variations'', JArray [JText ''a'', JText ''b''])]"

theorem failed_prerequisite_serves_off_variation_witness:
  "\<exists>e t. collected e = [(''base'', summary_text (Some 1) (Some 3))] \<and>
     LDi_evaluate 2 sample_env sample_user needy_flag (fresh_outputs 0) = Inr (EVAL_MISS,
       select_variation (retag e t (fresh_outputs 0)) LD_PREREQUISITE_FAILED (PrerequisiteKey (Some ''gone'')) 1 (JText ''b''))"
proof -
  have on: "is_on needy_flag" and ps: "prerequisites needy_flag = [requires ''base'' 1, requires ''gone'' 0, requires ''base'' 1]"
    by (simp_all add: is_on_def needy_flag_def prerequisites_def member_value_def)
  have "reports (Suc 1) sample_env sample_user needy_flag = [(''base'', summary_text (Some 1) (Some 3))]"
    using on sample_standing(1) [of 0] sample_standing(2) by (simp add: sample_reports ps)
  then show ?thesis
    using failed_prerequisite_serves_off_variation [of needy_flag sample_env sample_user "[requires ''base'' 1]"
        "requires ''gone'' 0" "[requires ''base'' 1]" "Suc 0" "''gone''" "fresh_outputs 0"]
      on sample_standing(1) [of 0] sample_standing(2) [of "Suc 0"] sample_reporting
    by (auto simp: needy_flag_def index_member_def variation_at_def numeral_2_eq_2 simp del: LDi_evaluate.simps)
qed

section \<open>Targets\<close>

text \<open>A target that the loop can pass over: an object whose keys are text.\<close>

definition passes :: "LDJSON \<Rightarrow> LDUser \<Rightarrow> bool" where
  "passes t user \<longleftrightarrow> LDJSONGetType (Some t) = LDObject \<and> keys_member t ''values'' \<and>
     \<not> listed t ''values'' (u_key user)"

lemma targets_loop_pass:
  "list_all (\<lambda>t. passes t user) pre \<Longrightarrow> targets_loop flag user st (pre @ ts) = targets_loop flag user st ts"
  by (induction pre) (auto simp: passes_def key_listed_ok)

lemma eval_targets_none:
  assumes "LDJSONGetType (Some flag) = LDObject" and "opt_member flag ''targets'' LDArray"
    and "list_all (\<lambda>t. passes t user) (iter_values (member_value flag ''targets''))"
  shows "eval_targets flag user st = Inr None"
  using assms targets_loop_pass [OF assms(3), of flag st "[]"]
  by (auto simp: eval_targets_def lookupOptional_ok split: option.splits)

text \<open>A user whose key is listed by a target gets that target's variation, with the reason
  target match, before any rule is looked at; of several targets that list the key the
  first one decides.\<close>

theorem target_match_precedes_rules:
  assumes "is_on flag" and "member_value flag ''prerequisites'' = None"
    and "obj_lookup flag ''targets'' = Some (JArray (pre @ t # post))"
    and "list_all (\<lambda>t. passes t user) pre"
    and "keys_member t ''values''" and "listed t ''values'' (u_key user)"
    and "index_member t ''variation'' i" and "variation_at flag i = Some v"
  shows "LDi_evaluate (Suc n) env user flag st =
     Inr (EVAL_MATCH, select_variation st LD_TARGET_MATCH (d_extra (es_details st)) i v)"
proof -
  have t: "LDJSONGetType (Some t) = LDObject"
    using assms(7) obj_lookup_object by (auto simp: index_member_def)
  have "targets_loop flag user st (t # post) =
      Inr (Some (EVAL_MATCH, select_variation st LD_TARGET_MATCH (d_extra (es_details st)) i v))"
    using t assms(5-8)
    by (simp add: key_listed_ok lookupRequiredValueOfType_def index_member_def addValue_ok)
  then have "eval_targets flag user st =
      Inr (Some (EVAL_MATCH, select_variation st LD_TARGET_MATCH (d_extra (es_details st)) i v))"
    using assms(3) targets_loop_pass [OF assms(4)] on_object [OF assms(1)]
    by (simp add: eval_targets_def lookupOptionalValueOfType_def)
  then show ?thesis by (simp add: eval_on_flag [OF assms(1,2)] eval_rest_def)
qed

definition target_flag :: LDJSON where
  "target_flag = JObject [(''on'', JBool True), (''variations'', JArray [JText ''a'', JText ''b'']),
     (''targets'', JArray [JObject [(''values'', JArray [JText ''eve'']), (''variation'', JNumber (uint_to_dbl 0))],
        JObject [(''values'', JArray [JText ''amy'', JText ''bob'']), (''variation'', JNumber (uint_to_dbl 1))]])]"

theorem target_match_precedes_rules_witness:
  "LDi_evaluate 1 sample_env sample_user target_flag (fresh_outputs 0) =
     Inr (EVAL_MATCH, select_variation (fresh_outputs 0) LD_TARGET_MATCH NoExtra 1 (JText ''b''))"
  using target_match_precedes_rules [of target_flag
      "[JObject [(''values'', JArray [JText ''eve'']), (''variation'', JNumber (uint_to_dbl 0))]]"
      "JObject [(''values'', JArray [JText ''amy'', JText ''bob'']), (''variation'', JNumber (uint_to_dbl 1))]"
      "[]" sample_user 1 "JText ''b''" 0 sample_env "fresh_outputs 0"]
  by (simp add: is_on_def member_value_def target_flag_def passes_def keys_member_def listed_def sample_user_def
      LDi_userNew_def index_member_def variation_at_def fresh_outputs_def new_details_def List.map_filter_simps)

section \<open>Rules and fallthrough\<close>

lemma rules_loop_pass:
  assumes "\<forall>r\<in>set pre. LDJSONGetType (Some r) = LDObject \<and> LDi_ruleMatchesUser env r user = Inr EVAL_MISS"
  shows "rules_loop env flag user st i (pre @ rs) = rules_loop env flag user st (i + of_nat (length pre)) rs"
  using assms by (induction pre arbitrary: i) (auto simp: LDi_isEvalError_def algebra_simps)

text \<open>
  The variation a rule or the fallthrough chooses for a user, and whether that is part of an
  experiment: its fixed variation, or the variation of its rollout with the first cumulative weight
  above the user's bucket.
\<close>

definition chooses :: "'sv externals \<Rightarrow> LDJSON \<Rightarrow> LDUser \<Rightarrow> LDJSON \<Rightarrow> uint \<Rightarrow> bool \<Rightarrow> bool" where
  "chooses ext flag user vr i inExperiment \<longleftrightarrow>
     (\<exists>k s. obj_lookup flag ''key'' = Some (JText k) \<and> obj_lookup flag ''salt'' = Some (JText s) \<and>
       (index_member vr ''variation'' i \<and> \<not> inExperiment \<or>
        (\<exists>r vs ok b v. LDJSONGetType (Some vr) = LDObject \<and> member_value vr ''variation'' = None \<and>
           obj_lookup vr ''rollout'' = Some r \<and> wf_rollout r vs \<and>
           LDi_bucketUser ext user k (bucket_attribute r) s (rollout_seed r) = Inr (ok, b) \<and>
           v = vs ! pick b (cumulative (Fin 0) vs) \<and> index_member v ''variation'' i \<and>
           (inExperiment \<longleftrightarrow> is_experiment r \<and> \<not> untracked v))))"

lemma chooses_object: "chooses ext flag user vr i x \<Longrightarrow> LDJSONGetType (Some vr) = LDObject"
  using obj_lookup_object by (auto simp: chooses_def index_member_def)

lemma chooses_index:
  assumes "chooses ext flag user vr i x"
  shows "LDi_getIndexForVariationOrRollout ext flag (Some vr) user = Inr (Some (Some (JNumber (uint_to_dbl i)), x))"
proof -
  obtain k s where ks: "obj_lookup flag ''key'' = Some (JText k)" "obj_lookup flag ''salt'' = Some (JText s)"
    using assms by (auto simp: chooses_def)
  have "LDi_variationIndexForUser ext vr user k s = Inr (Some (Some (JNumber (uint_to_dbl i)), x))"
    using assms chooses_object [OF assms] ks
    by (auto simp: chooses_def index_member_def variationIndexForUser_rollout Let_def)
      (simp add: LDi_variationIndexForUser_def lookupOptionalValueOfType_def)
  then show ?thesis
    using ks obj_lookup_object [OF ks(1)]
    by (simp add: LDi_getIndexForVariationOrRollout_def lookupRequiredValueOfType_def)
qed

lemma fixed_variation:
  assumes "obj_lookup flag ''key'' = Some (JText k)" and "obj_lookup flag ''salt'' = Some (JText s)"
    and "index_member vr ''variation'' i"
  shows "LDi_getIndexForVariationOrRollout ext flag (Some vr) user = Inr (Some (Some (JNumber (uint_to_dbl i)), False))"
  using assms by (intro chooses_index) (auto simp: chooses_def)

text \<open>C3: when the prerequisites hold and no target lists the user, the first rule that matches
  decides: it serves its fixed variation or the one its rollout assigns to the user, with the
  reason rule match, the position of the rule, its identifier and whether the user is part of an
  experiment. Rules after it and the fallthrough play no part, and the prerequisites are reported.\<close>

theorem first_matching_rule_decides:
  assumes "is_on flag" and "prerequisites_hold n env user flag"
    and "opt_member flag ''targets'' LDArray"
    and "list_all (\<lambda>t. passes t user) (iter_values (member_value flag ''targets''))"
    and "obj_lookup flag ''rules'' = Some (JArray (pre @ r # post))"
    and "\<forall>r\<in>set pre. LDJSONGetType (Some r) = LDObject \<and> LDi_ruleMatchesUser env r user = Inr EVAL_MISS"
    and "LDi_ruleMatchesUser env r user = Inr EVAL_MATCH"
    and "chooses (e_ext env) flag user r i inExperiment" and "variation_at flag i = Some v"
    and "opt_member r ''id'' LDText"
  shows "\<exists>e t. LDi_evaluate (Suc n) env user flag st = Inr (EVAL_MATCH,
       select_variation (retag e t st) LD_RULE_MATCH
         (DetailsRule (of_nat (length pre)) (LDGetText (member_value r ''id'')) (Some inExperiment)) i v) \<and>
     (events_ok (es_events st) \<longrightarrow> collected e = collected (es_events st) @ reports (Suc n) env user flag)"
proof -
  let ?x = "DetailsRule (of_nat (length pre)) (LDGetText (member_value r ''id'')) (Some inExperiment)"
  note r = chooses_object [OF assms(8)]
  have "rule_matched (e_ext env) flag user (of_nat (length pre)) r st =
      Inr (EVAL_MATCH, select_variation st LD_RULE_MATCH ?x i v)" for st
    using r assms(9,10)
    by (auto simp: rule_matched_def Let_def chooses_index [OF assms(8)] addValue_ok lookupOptional_ok opt_member_def
        member_value_def json_type_iff split: option.splits)
  then have "rules_loop env flag user st 0 (pre @ r # post) =
      Inr (Some (EVAL_MATCH, select_variation st LD_RULE_MATCH ?x i v))" for st
    using rules_loop_pass [OF assms(6)] assms(7) r by (simp add: LDi_isEvalError_def)
  then have "eval_rules env flag user st = Inr (Some (EVAL_MATCH, select_variation st LD_RULE_MATCH ?x i v))" for st
    using assms(5) on_object [OF assms(1)] by (simp add: eval_rules_def lookupOptionalValueOfType_def)
  then have "eval_rest env flag user st = Inr (EVAL_MATCH, select_variation st LD_RULE_MATCH ?x i v)" for st
    using eval_targets_none [OF on_object [OF assms(1)] assms(3,4)] by (simp add: eval_rest_def)
  then show ?thesis using prerequisites_hold_rest [OF assms(1,2), of st] by (simp del: LDi_evaluate.simps)
qed

definition rule_for :: "string \<Rightarrow> uint \<Rightarrow> LDJSON" where
  "rule_for name i = JObject [(''id'', JText name), (''variation'', JNumber (uint_to_dbl i)),
     (''clauses'', JArray [JObject [(''op'', JText ''in''), (''attribute'', JText ''key''),
        (''values'', JArray [JText name])]])]"

definition rules_flag :: LDJSON where
  "rules_flag = JObject [(''key'', JText ''f''), (''salt'', JText ''s''), (''on'', JBool True),
     (''prerequisites'', JArray [requires ''base'' 1]), (''variations'', JArray [JText ''a'', JText ''b'']),
     (''rules'', JArray [rule_for ''eve'' 0, rule_for ''bob'' 1])]"

lemma rule_for_matches:
  "LDi_ruleMatchesUser sample_env (rule_for name i) sample_user = Inr (decide (name = ''bob''))"
proof -
  have "LDi_ruleMatchesUser sample_env (rule_for name i) sample_user =
     Inr (decide (\<forall>c\<in>set (iter_values (member_value (rule_for name i) ''clauses'')). name = ''bob''))"
    by (intro rule_decides)
      (auto simp: rule_for_def opt_member_def member_value_def LDi_clauseMatchesUser_def
        LDi_clauseMatchesUserNoSegments_def lookupRequiredValueOfType_def lookupOptionalValueOfType_def
        LDi_lookupOperation_def LDi_valueOfAttribute_def sample_user_def LDi_userNew_def matchAny_def
        operatorInFn_def LDJSONCompare_def maybeNegate_def LDi_isEvalError_def decide_def)
  then show ?thesis by (simp add: rule_for_def member_value_def)
qed

lemma rules_flag_chooses: "chooses sample_ext rules_flag sample_user (rule_for name i) i False"
  by (simp add: chooses_def rules_flag_def rule_for_def index_member_def)

theorem first_matching_rule_decides_witness:
  "\<exists>e t. LDi_evaluate 2 sample_env sample_user rules_flag (fresh_outputs 0) = Inr (EVAL_MATCH,
       select_variation (retag e t (fresh_outputs 0)) LD_RULE_MATCH (DetailsRule 1 (Some ''bob'') (Some False)) 1 (JText ''b'')) \<and>
     collected e = [(''base'', summary_text (Some 1) (Some 3))]"
proof -
  have on: "is_on rules_flag" and ps: "prerequisites rules_flag = [requires ''base'' 1]"
    by (simp_all add: is_on_def rules_flag_def prerequisites_def member_value_def)
  have hold: "prerequisites_hold (Suc 0) sample_env sample_user rules_flag"
    using sample_standing(1) [of 0] sample_reporting ps
    by (simp add: prerequisites_hold_def rules_flag_def opt_member_def)
  have "reports (Suc (Suc 0)) sample_env sample_user rules_flag = [(''base'', summary_text (Some 1) (Some 3))]"
    using on sample_standing(1) [of 0] by (simp add: sample_reports ps)
  then show ?thesis
    using first_matching_rule_decides [OF on hold, of "[rule_for ''eve'' 0]" "rule_for ''bob'' 1" "[]" 1 False
        "JText ''b''" "fresh_outputs 0"]
      rule_for_matches [of "''eve''" 0] rule_for_matches [of "''bob''" 1] rules_flag_chooses [of "''bob''" 1]
    by (simp add: member_value_def rules_flag_def opt_member_def variation_at_def decide_def numeral_2_eq_2
        rule_for_def del: LDi_evaluate.simps)
qed

text \<open>C35: when the prerequisites hold and neither a target nor a rule decides, the flag serves the
  variation its fallthrough chooses, fixed or by rollout. A flag without a fallthrough does not
  produce an error there: the evaluator stops the process on a failed assertion.\<close>

theorem fallthrough_decides_last:
  assumes "is_on flag" and "prerequisites_hold n env user flag"
    and "opt_member flag ''targets'' LDArray"
    and "list_all (\<lambda>t. passes t user) (iter_values (member_value flag ''targets''))"
    and "opt_member flag ''rules'' LDArray"
    and "\<forall>r\<in>set (iter_values (member_value flag ''rules'')).
      LDJSONGetType (Some r) = LDObject \<and> LDi_ruleMatchesUser env r user = Inr EVAL_MISS"
  shows "\<exists>e t. (events_ok (es_events st) \<longrightarrow> collected e = collected (es_events st) @ reports (Suc n) env user flag) \<and>
     (\<forall>f i inExperiment v. obj_lookup flag ''fallthrough'' = Some f \<and> chooses (e_ext env) flag user f i inExperiment \<and>
       variation_at flag i = Some v \<longrightarrow>
       LDi_evaluate (Suc n) env user flag st =
         Inr (EVAL_MATCH, select_variation (retag e t st) LD_FALLTHROUGH (DetailsFallthrough inExperiment) i v)) \<and>
     (obj_lookup flag ''fallthrough'' = None \<longrightarrow> LDi_evaluate (Suc n) env user flag st = Inl AssertFailed)"
proof -
  have "eval_rules env flag user st = Inr None" for st
    using rules_loop_pass [OF assms(6), of flag st 0 "[]"] assms(5) on_object [OF assms(1)]
    by (auto simp: eval_rules_def lookupOptional_ok split: option.splits)
  then have rest: "eval_rest env flag user st = eval_fallthrough (e_ext env) flag user st" for st
    using eval_targets_none [OF on_object [OF assms(1)] assms(3,4)] by (simp add: eval_rest_def)
  have stop: "eval_fallthrough (e_ext env) flag user st = Inl AssertFailed"
    if "obj_lookup flag ''fallthrough'' = None" for st
    using that by (simp add: eval_fallthrough_def LDi_getIndexForVariationOrRollout_def Let_def)
  have serve: "eval_fallthrough (e_ext env) flag user st =
      Inr (EVAL_MATCH, select_variation st LD_FALLTHROUGH (DetailsFallthrough x) i v)"
    if "obj_lookup flag ''fallthrough'' = Some f" "chooses (e_ext env) flag user f i x" "variation_at flag i = Some v"
    for f i x v st
    using that(1) by (simp add: eval_fallthrough_def Let_def chooses_index [OF that(2)] addValue_ok [OF that(3)])
  obtain e t where r: "LDi_evaluate (Suc n) env user flag st = eval_rest env flag user (retag e t st)"
    "events_ok (es_events st) \<longrightarrow> collected e = collected (es_events st) @ reports (Suc n) env user flag"
    using prerequisites_hold_rest [OF assms(1,2), of st] by blast
  show ?thesis
    using r(2) serve stop unfolding r(1) rest by (intro exI [of _ e] exI [of _ t]) blast
qed

text \<open>A rollout as fallthrough, behind a prerequisite and a rule that does not match.\<close>

definition rollout_flag :: LDJSON where
  "rollout_flag = JObject [(''key'', JText ''k''), (''salt'', JText ''s''), (''on'', JBool True),
     (''prerequisites'', JArray [requires ''base'' 1]), (''variations'', JArray [JText ''a'', JText ''b'']),
     (''rules'', JArray [rule_for ''eve'' 1]), (''fallthrough'', JObject [(''rollout'', sample_rollout)])]"

lemma sample_rollout_chooses: "chooses sample_ext rollout_flag sample_user (JObject [(''rollout'', sample_rollout)]) 0 False"
proof -
  let ?vs = "[sample_weighted 60000 0, sample_weighted 40000 1]" and ?vr = "JObject [(''rollout'', sample_rollout)]"
  have "dbl_lt (Fin 0) (add_weight (Fin 0) (sample_weighted 60000 0))"
    by (simp add: add_weight_def sample_weighted_def fl_eval)
  then have pick: "pick (Fin 0) (cumulative (Fin 0) ?vs) = 0" by simp
  have wf: "wf_rollout sample_rollout ?vs"
    by (simp add: wf_rollout_def sample_rollout_def sample_weighted_def wf_weighted_def opt_member_def
        req_member_def seed_ok_def member_value_def)
  have r: "bucket_attribute sample_rollout = ''key''" "rollout_seed sample_rollout = None" "\<not> is_experiment sample_rollout"
    by (simp_all add: bucket_attribute_def rollout_seed_def is_experiment_def member_value_def sample_rollout_def)
  have v: "index_member (?vs ! pick (Fin 0) (cumulative (Fin 0) ?vs)) ''variation'' 0"
    unfolding pick by (simp add: index_member_def sample_weighted_def)
  have vr: "LDJSONGetType (Some ?vr) = LDObject" "member_value ?vr ''variation'' = None"
    "obj_lookup ?vr ''rollout'' = Some sample_rollout"
    by (simp_all add: member_value_def)
  have ks: "obj_lookup rollout_flag ''key'' = Some (JText ''k'')" "obj_lookup rollout_flag ''salt'' = Some (JText ''s'')"
    by (simp_all add: rollout_flag_def)
  show ?thesis unfolding chooses_def using wf r v vr ks sample_bucket by metis
qed

theorem fallthrough_decides_last_witness:
  "\<exists>e t. LDi_evaluate 2 sample_env sample_user rollout_flag (fresh_outputs 0) = Inr (EVAL_MATCH,
       select_variation (retag e t (fresh_outputs 0)) LD_FALLTHROUGH (DetailsFallthrough False) 0 (JText ''a'')) \<and>
     collected e = [(''base'', summary_text (Some 1) (Some 3))]"
proof -
  have on: "is_on rollout_flag" and ps: "prerequisites rollout_flag = [requires ''base'' 1]"
    by (simp_all add: is_on_def rollout_flag_def prerequisites_def member_value_def)
  have hold: "prerequisites_hold (Suc 0) sample_env sample_user rollout_flag"
    using sample_standing(1) [of 0] sample_reporting ps
    by (simp add: prerequisites_hold_def rollout_flag_def opt_member_def)
  have "reports (Suc (Suc 0)) sample_env sample_user rollout_flag = [(''base'', summary_text (Some 1) (Some 3))]"
    using on sample_standing(1) [of 0] by (simp add: sample_reports ps)
  moreover have "\<forall>r\<in>set (iter_values (member_value rollout_flag ''rules'')).
      LDJSONGetType (Some r) = LDObject \<and> LDi_ruleMatchesUser sample_env r sample_user = Inr EVAL_MISS"
    using rule_for_matches [of "''eve''" 1] by (simp add: member_value_def rollout_flag_def decide_def rule_for_def)
  moreover have "opt_member rollout_flag ''targets'' LDArray" "opt_member rollout_flag ''rules'' LDArray"
    "member_value rollout_flag ''targets'' = None" "variation_at rollout_flag 0 = Some (JText ''a'')"
    "obj_lookup rollout_flag ''fallthrough'' = Some (JObject [(''rollout'', sample_rollout)])"
    by (simp_all add: opt_member_def member_value_def rollout_flag_def variation_at_def)
  ultimately show ?thesis
    using fallthrough_decides_last [OF on hold, of "fresh_outputs 0"] sample_rollout_chooses
    unfolding numeral_2_eq_2 by (simp del: LDi_evaluate.simps) blast
qed

end
