(* ===== verification/Client.thy ===== *)
theory Client
  imports EventProcessor Store
begin

text \<open>
  The client handle and the calls that record events, \<open>src/client.c\<close>. A client that the
  caller passes as \<open>NULL\<close> is \<open>None\<close>. The background thread and the creation of the client
  are described by the state they leave: the configuration, the store handle and the event
  processor.
\<close>

record 's LDClient =
  cl_shuttingdown :: bool
  cl_config :: LDConfig
  cl_shouldFlush :: bool
  cl_store :: "'s LDStore"
  cl_eventProcessor :: LDEventProcessor

text \<open>What \<open>LDClientInit\<close> builds, before it starts the thread and waits.\<close>

definition LDClientInit :: "LDConfig option \<Rightarrow> 's LDStore \<Rightarrow> dbl option \<Rightarrow> 's LDClient option exec" where
  "LDClientInit config store reading = (case config of None \<Rightarrow> Inr None
     | Some config \<Rightarrow> exec_bind (LDEventProcessor_Create config reading) (\<lambda>p.
         Inr (Some \<lparr>cl_shuttingdown = False, cl_config = config, cl_shouldFlush = False,
           cl_store = store, cl_eventProcessor = p\<rparr>)))"

definition LDClientIsInitialized :: "'s LDClient option \<Rightarrow> bool \<times> 's LDClient option" where
  "LDClientIsInitialized client = (case client of None \<Rightarrow> (False, None)
     | Some client \<Rightarrow> (case LDStoreInitialized (cl_store client) of
         (r, store) \<Rightarrow> (r, Some (client\<lparr>cl_store := store\<rparr>))))"

text \<open>An operation of the event processor, which changes nothing else of the client.\<close>

definition with_processor ::
  "'s LDClient \<Rightarrow> (bool \<times> LDEventProcessor) exec \<Rightarrow> (bool \<times> 's LDClient option) exec" where
  "with_processor client m =
     exec_bind m (\<lambda>(ok, p). Inr (ok, Some (client\<lparr>cl_eventProcessor := p\<rparr>)))"

definition LDClientTrack ::
  "'s LDClient option \<Rightarrow> string option \<Rightarrow> LDUser option \<Rightarrow> LDJSON option \<Rightarrow> readings \<Rightarrow>
   (bool \<times> 's LDClient option) exec" where
  "LDClientTrack client key user data rd = (case (client, key, user) of
       (Some client, Some key, Some user) \<Rightarrow>
         if \<not> c_sendEvents (cl_config client) then Inr (True, Some client)
         else with_processor client (LDEventProcessor_Track (cl_eventProcessor client) user key data rd)
     | _ \<Rightarrow> Inr (False, client))"

definition LDClientTrackMetric ::
  "'s LDClient option \<Rightarrow> string option \<Rightarrow> LDUser option \<Rightarrow> LDJSON option \<Rightarrow> dbl \<Rightarrow> readings \<Rightarrow>
   (bool \<times> 's LDClient option) exec" where
  "LDClientTrackMetric client key user data metric rd = (case (client, key, user) of
       (Some client, Some key, Some user) \<Rightarrow>
         if \<not> c_sendEvents (cl_config client) then Inr (True, Some client)
         else with_processor client
           (LDEventProcessor_TrackMetric (cl_eventProcessor client) user key data metric rd)
     | _ \<Rightarrow> Inr (False, client))"

definition LDClientAlias ::
  "'s LDClient option \<Rightarrow> LDUser option \<Rightarrow> LDUser option \<Rightarrow> dbl option \<Rightarrow> (bool \<times> 's LDClient option) exec" where
  "LDClientAlias client currentUser previousUser reading = (case (client, currentUser, previousUser) of
       (Some client, Some currentUser, Some previousUser) \<Rightarrow>
         if \<not> c_sendEvents (cl_config client) then Inr (True, Some client)
         else with_processor client
           (LDEventProcessor_Alias (cl_eventProcessor client) currentUser previousUser reading)
     | _ \<Rightarrow> Inr (False, client))"

definition LDClientIdentify ::
  "'s LDClient option \<Rightarrow> LDUser option \<Rightarrow> dbl option \<Rightarrow> (bool \<times> 's LDClient option) exec" where
  "LDClientIdentify client user reading = (case (client, user) of
       (Some client, Some user) \<Rightarrow>
         if \<not> c_sendEvents (cl_config client) then Inr (True, Some client)
         else with_processor client (LDEventProcessor_Identify (cl_eventProcessor client) user reading)
     | _ \<Rightarrow> Inr (False, client))"

definition LDClientIsOffline :: "'s LDClient option \<Rightarrow> bool" where
  "LDClientIsOffline client = (case client of None \<Rightarrow> False | Some client \<Rightarrow> c_offline (cl_config client))"

definition LDClientFlush :: "'s LDClient option \<Rightarrow> bool \<times> 's LDClient option" where
  "LDClientFlush client = (case client of None \<Rightarrow> (False, None)
     | Some client \<Rightarrow> (True, Some (client\<lparr>cl_shouldFlush := True\<rparr>)))"

text \<open>The part of \<open>LDClientClose\<close> that other threads can see.\<close>

definition LDClientClose :: "'s LDClient option \<Rightarrow> bool \<times> 's LDClient option" where
  "LDClientClose client = (True, map_option (\<lambda>c. c\<lparr>cl_shuttingdown := True\<rparr>) client)"

end
