(* ===== verification/Variations.thy ===== *)
theory Variations
  imports Evaluate Client
begin

text \<open>
  The typed variation calls and the evaluation of all flags, second part of
  \<open>src/variations.c\<close>. The evaluator works on the store as it is after the flag was read.
\<close>

section \<open>One flag\<close>

text \<open>
  What a call takes from its surroundings: third-party code, the clock readings of the
  evaluator and of the event processor, and the depth given to the evaluator.
\<close>

record 'sv calls =
  k_ext :: "'sv externals"
  k_clock :: "nat \<Rightarrow> dbl option"
  k_readings :: readings
  k_monotonic :: "nat \<Rightarrow> dbl option"
  k_depth :: nat

definition eval_env :: "'sv calls \<Rightarrow> 's LDClient \<Rightarrow> 'sv evalenv" where
  "eval_env k client = \<lparr>e_ext = k_ext k, e_store = store_reader (cl_store client),
     e_config = cl_config client, e_clock = k_clock k\<rparr>"

text \<open>
  The outcome of \<open>variation\<close>: whether the pointer returned is the fallback's, the value, the
  details and the client.
\<close>

record 's variation_result =
  v_fallback :: bool
  v_value :: LDJSON
  v_details :: LDDetails
  v_client :: "'s LDClient option"

definition set_error :: "LDDetails \<Rightarrow> LDEvalErrorKind \<Rightarrow> LDDetails" where
  "set_error d kind = d\<lparr>d_reason := LD_ERROR, d_extra := ErrorKind kind\<rparr>"

definition fall_back :: "LDJSON \<Rightarrow> LDDetails \<Rightarrow> 's LDClient option \<Rightarrow> 's variation_result" where
  "fall_back fallback d client =
     \<lparr>v_fallback = True, v_value = fallback, v_details = d, v_client = client\<rparr>"

text \<open>
  The evaluation of the flag that was found, or not. \<open>None\<close> is the jump to the error label
  out of memory: there the collected events are freed, and freed again after the label.
\<close>

definition evaluate_found ::
  "'sv calls \<Rightarrow> 's LDClient \<Rightarrow> LDUser \<Rightarrow> LDJSON option \<Rightarrow>
   (LDDetails \<times> (LDJSON option \<times> LDJSON option) option) exec" where
  "evaluate_found k client user flag = (case flag of
       None \<Rightarrow> Inr (set_error new_details LD_FLAG_NOT_FOUND, Some (None, None))
     | Some flag \<Rightarrow>
         exec_bind (LDi_evaluate (k_depth k) (eval_env k client) user flag (fresh_outputs 0)) (\<lambda>(status, st).
           if status = EVAL_MEM then
             (case es_events st of
                Some _ \<Rightarrow> Inl DoubleFree
              | None \<Rightarrow> Inr (set_error (es_details st) LD_OOM, None))
           else if status = EVAL_SCHEMA then
             Inr (set_error (es_details st) LD_MALFORMED_FLAG, Some (None, es_value st))
           else Inr (es_details st, Some (es_events st, es_value st))))"

definition report_evaluation ::
  "'sv calls \<Rightarrow> 's LDClient \<Rightarrow> EvaluationResult \<Rightarrow> (bool \<times> 's LDClient) exec" where
  "report_evaluation k client result =
     (if c_sendEvents (cl_config client)
      then exec_bind (LDEventProcessor_ProcessEvaluation (cl_eventProcessor client) result (k_readings k))
        (\<lambda>(ok, p). Inr (ok, client\<lparr>cl_eventProcessor := p\<rparr>))
      else Inr (True, client))"

definition variation ::
  "'sv calls \<Rightarrow> 's LDClient option \<Rightarrow> LDUser option \<Rightarrow> string option \<Rightarrow> LDJSON \<Rightarrow>
   (LDJSONType \<Rightarrow> bool) \<Rightarrow> bool \<Rightarrow> 's variation_result exec" where
  "variation k client user key fallback checkType detailed = (case client of
       None \<Rightarrow> Inr (fall_back fallback (set_error new_details LD_CLIENT_NOT_SPECIFIED) None)
     | Some client \<Rightarrow> (case user of
         None \<Rightarrow> Inr (fall_back fallback (set_error new_details LD_USER_NOT_SPECIFIED) (Some client))
       | Some user \<Rightarrow> (case key of
           None \<Rightarrow> Inr (fall_back fallback (set_error new_details LD_NULL_KEY) (Some client))
         | Some key \<Rightarrow>
       (case LDStoreInitialized (cl_store client) of (ready, store) \<Rightarrow>
       let client = client\<lparr>cl_store := store\<rparr> in
       if \<not> ready then Inr (fall_back fallback (set_error new_details LD_CLIENT_NOT_READY) (Some client))
       else exec_bind (LDStoreGet (cl_store client) LD_FLAG key) (\<lambda>(ok, flag, store).
       let client = client\<lparr>cl_store := store\<rparr> in
       if \<not> ok then Inr (fall_back fallback (set_error new_details LD_STORE_ERROR) (Some client))
       else exec_bind (evaluate_found k client user flag) (\<lambda>(details, r).
       case r of None \<Rightarrow> Inr (fall_back fallback details (Some client))
       | Some (subEvents, value) \<Rightarrow>
       exec_bind (report_evaluation k client
           \<lparr>r_user = user, r_subEvents = subEvents, r_flagKey = key, r_actualValue = value,
             r_fallbackValue = Some fallback, r_flag = flag, r_details = details,
             r_detailedEvaluation = detailed\<rparr>) (\<lambda>(ok, client).
       if \<not> ok \<or> \<not> LDi_notNull value then Inr (fall_back fallback details (Some client))
       else if \<not> checkType (LDJSONGetType value) then
         Inr (fall_back fallback ((set_error details LD_WRONG_TYPE)\<lparr>d_hasVariation := False\<rparr>) (Some client))
       else Inr \<lparr>v_fallback = False, v_value = the value, v_details = details, v_client = Some client\<rparr>)))))))"

section \<open>Typed calls\<close>

definition isBool :: "LDJSONType \<Rightarrow> bool" where
  "isBool type = (type = LDBool)"

definition isNumber :: "LDJSONType \<Rightarrow> bool" where
  "isNumber type = (type = LDNumber)"

definition isText :: "LDJSONType \<Rightarrow> bool" where
  "isText type = (type = LDText)"

definition isAnyType :: "LDJSONType \<Rightarrow> bool" where
  "isAnyType type = True"

definition LDBoolVariation ::
  "'sv calls \<Rightarrow> 's LDClient option \<Rightarrow> LDUser option \<Rightarrow> string option \<Rightarrow> bool \<Rightarrow> bool \<Rightarrow>
   (bool \<times> 's variation_result) exec" where
  "LDBoolVariation k client user key fallback detailed =
     exec_bind (variation k client user key (JBool fallback) isBool detailed) (\<lambda>r.
       Inr (LDGetBool (Some (v_value r)), r))"

text \<open>The number is converted to \<open>int\<close>, which is undefined outside its range.\<close>

definition LDIntVariation ::
  "'sv calls \<Rightarrow> 's LDClient option \<Rightarrow> LDUser option \<Rightarrow> string option \<Rightarrow> int \<Rightarrow> bool \<Rightarrow>
   (int \<times> 's variation_result) exec" where
  "LDIntVariation k client user key fallback detailed =
     exec_bind (variation k client user key (JNumber (Fin (of_int fallback))) isNumber detailed) (\<lambda>r.
     exec_bind (dbl_to_int32 (LDGetNumber (Some (v_value r)))) (\<lambda>n. Inr (n, r)))"

definition LDDoubleVariation ::
  "'sv calls \<Rightarrow> 's LDClient option \<Rightarrow> LDUser option \<Rightarrow> string option \<Rightarrow> dbl \<Rightarrow> bool \<Rightarrow>
   (dbl \<times> 's variation_result) exec" where
  "LDDoubleVariation k client user key fallback detailed =
     exec_bind (variation k client user key (JNumber fallback) isNumber detailed) (\<lambda>r.
       Inr (LDGetNumber (Some (v_value r)), r))"

definition LDStringVariation ::
  "'sv calls \<Rightarrow> 's LDClient option \<Rightarrow> LDUser option \<Rightarrow> string option \<Rightarrow> string option \<Rightarrow> bool \<Rightarrow>
   (string option \<times> 's variation_result) exec" where
  "LDStringVariation k client user key fallback detailed =
     (let fallbackJSON = (case fallback of None \<Rightarrow> JNull | Some t \<Rightarrow> JText t) in
      exec_bind (variation k client user key fallbackJSON isText detailed) (\<lambda>r.
        if fallback = None \<and> v_fallback r then Inr (None, r)
        else Inr (LDGetText (Some (v_value r)), r)))"

definition LDJSONVariation ::
  "'sv calls \<Rightarrow> 's LDClient option \<Rightarrow> LDUser option \<Rightarrow> string option \<Rightarrow> LDJSON option \<Rightarrow> bool \<Rightarrow>
   (LDJSON option \<times> 's variation_result) exec" where
  "LDJSONVariation k client user key fallback detailed =
     (let fallbackJSON = (case fallback of None \<Rightarrow> JNull | Some j \<Rightarrow> j) in
      exec_bind (variation k client user key fallbackJSON isAnyType detailed) (\<lambda>r.
        if fallback = None \<and> v_fallback r then Inr (None, r) else Inr (Some (v_value r), r)))"

section \<open>All flags\<close>

text \<open>
  The loop of \<open>LDAllFlags\<close>: the status of an evaluation is ignored, a value is entered under
  the flag's own key.
\<close>

fun all_flags_loop ::
  "'sv evalenv \<Rightarrow> nat \<Rightarrow> LDUser \<Rightarrow> nat \<Rightarrow> LDJSON \<Rightarrow> LDJSON list \<Rightarrow> LDJSON exec" where
  "all_flags_loop env depth user ticks acc [] = Inr acc"
| "all_flags_loop env depth user ticks acc (flag # rest) =
     exec_bind (LDi_evaluate depth env user flag (fresh_outputs ticks)) (\<lambda>(status, st).
     exec_bind (case es_value st of None \<Rightarrow> Inr acc
       | Some v \<Rightarrow> (case LDGetText (LDObjectLookup (Some flag) ''key'') of
           None \<Rightarrow> Inl AssertFailed | Some key \<Rightarrow> Inr (set_key acc key v))) (\<lambda>acc.
       all_flags_loop env depth user (es_ticks st) acc rest))"

definition LDAllFlags ::
  "'sv calls \<Rightarrow> 's LDClient option \<Rightarrow> LDUser option \<Rightarrow> (LDJSON option \<times> 's LDClient option) exec" where
  "LDAllFlags k client user = (case (client, user) of
       (Some client, Some user) \<Rightarrow>
         if c_offline (cl_config client) then Inr (None, Some client)
         else (case LDStoreInitialized (cl_store client) of (ready, store) \<Rightarrow>
           let client = client\<lparr>cl_store := store\<rparr> in
           if \<not> ready then Inr (None, Some client)
           else exec_bind (LDStoreAll (cl_store client) LD_FLAG) (\<lambda>(ok, rawFlags, store).
             let client = client\<lparr>cl_store := store\<rparr> in
             if \<not> ok then Inr (None, Some client)
             else (case rawFlags of None \<Rightarrow> Inr (Some (JObject []), Some client)
               | Some raw \<Rightarrow>
                   exec_bind (all_flags_loop (eval_env k client) (k_depth k) user 0 (JObject [])
                       (iter_values (Some raw))) (\<lambda>r. Inr (Some r, Some client)))))
     | _ \<Rightarrow> Inr (None, client))"

end
