(* ===== verification/VariationFlow.thy ===== *)
theory VariationFlow
  imports Prerequisites Variations
begin

text \<open>
  What a variation call returns and reports, on top of the evaluator, the memory store and
  the event processor.
\<close>

section \<open>Values come from the flag\<close>

text \<open>Also after a schema error a value that was written is a variation of the flag.\<close>

definition flag_value :: "LDJSON \<Rightarrow> LDJSON option \<Rightarrow> bool" where
  "flag_value flag v \<longleftrightarrow> (case v of None \<Rightarrow> True
     | Some v \<Rightarrow> (\<exists>vs. obj_lookup flag ''variations'' = Some (JArray vs) \<and> v \<in> set vs))"

lemma flag_value_None [simp]: "flag_value flag None"
  by (simp add: flag_value_def)

lemma addValue_value:
  assumes "addValue flag i st = Inr (ok, st')"
  shows "flag_value flag (es_value st')"
proof (cases ok)
  case True
  then show ?thesis using addValue_True [of flag i st st'] assms
    by (auto simp: value_selected_def flag_value_def)
next
  case False
  then have "es_value st' = None" using assms by (auto simp: addValue_def elim!: exec_bindE split: option.split_asm)
  then show ?thesis by simp
qed

lemma targets_value:
  "targets_loop flag user st ts = Inr (Some (s, s')) \<Longrightarrow> flag_value flag (es_value st) \<Longrightarrow> flag_value flag (es_value s')"
  by (induction ts)
    (auto elim!: exec_bindE split: if_split_asm option.split_asm bool.split_asm dest!: addValue_value)

lemma rule_matched_value:
  "rule_matched ext flag user i r st = Inr (s, s') \<Longrightarrow> flag_value flag (es_value st) \<Longrightarrow> flag_value flag (es_value s')"
  by (auto simp: rule_matched_def Let_def elim!: exec_bindE split: if_split_asm option.split_asm
      dest!: addValue_value)

lemma rules_value:
  "rules_loop env flag user st i rs = Inr (Some (s, s')) \<Longrightarrow> flag_value flag (es_value st) \<Longrightarrow> flag_value flag (es_value s')"
  by (induction rs arbitrary: i) (auto elim!: exec_bindE split: if_split_asm dest!: rule_matched_value)

lemma fallthrough_value:
  "eval_fallthrough ext flag user st = Inr (s, s') \<Longrightarrow> flag_value flag (es_value st) \<Longrightarrow> flag_value flag (es_value s')"
  by (auto simp: eval_fallthrough_def Let_def elim!: exec_bindE split: option.split_asm dest!: addValue_value)

lemma eval_rest_value:
  "eval_rest env flag user st = Inr (s, s') \<Longrightarrow> flag_value flag (es_value st) \<Longrightarrow> flag_value flag (es_value s')"
  by (auto simp: eval_rest_def eval_targets_def eval_rules_def elim!: exec_bindE split: option.split_asm
      dest!: targets_value rules_value fallthrough_value)

lemma prereq_loop_value:
  "prereq_loop env eval flag user fk st ps = Inr (s, fk', s') \<Longrightarrow> es_value s' = es_value st"
proof (induction ps arbitrary: fk st)
  case (Cons p ps)
  show ?case
    using Cons.prems unfolding prereq_loop.simps Let_def
    by (auto elim!: exec_bindE split: if_split_asm option.split_asm dest!: Cons.IH)
qed simp

lemma eval_flag_value:
  assumes "eval_flag env eval user flag st = Inr (s, s')" and "flag_value flag (es_value st)"
  shows "flag_value flag (es_value s')"
proof -
  have pre: "LDi_checkPrerequisites env eval flag user st = Inr (a, fk, s1) \<Longrightarrow> es_value s1 = es_value st" for a fk s1
    by (auto simp: LDi_checkPrerequisites_def elim!: exec_bindE split: option.split_asm dest!: prereq_loop_value)
  have off: "eval_off flag st = Inr (a, s1) \<Longrightarrow> flag_value flag (es_value s1)" for a s1
    using assms(2) by (auto simp: eval_off_def Let_def elim!: exec_bindE split: if_split_asm dest!: addValue_value)
  have failed: "eval_prerequisite_failed flag fk s0 = Inr (a, s1) \<Longrightarrow> flag_value flag (es_value s1)" for fk s0 a s1
    by (auto simp: eval_prerequisite_failed_def elim!: exec_bindE dest!: addValue_value)
  show ?thesis
    using assms
    by (auto simp: eval_flag_def elim!: exec_bindE split: option.split_asm if_split_asm
        dest!: off failed pre eval_rest_value)
qed

lemma evaluate_value:
  assumes "LDi_evaluate depth env user flag (fresh_outputs n) = Inr (s, st)"
  shows "flag_value flag (es_value st)"
  using assms by (cases depth) (auto simp: fresh_outputs_def dest!: eval_flag_value)

section \<open>What a call returns\<close>

lemma evaluate_found_value:
  assumes "evaluate_found k client user flag = Inr (d, Some (ev, Some v))"
  shows "\<exists>f. flag = Some f \<and> flag_value f (Some v)"
  using assms
  by (auto simp: evaluate_found_def elim!: exec_bindE split: option.split_asm if_split_asm
      dest: evaluate_value)

lemma variation_outcome:
  assumes "variation k (Some client) (Some user) (Some key) fallback checkType detailed = Inr r"
  shows "if v_fallback r then v_value r = fallback
     else checkType (LDJSONGetType (Some (v_value r))) \<and> v_value r \<noteq> JNull \<and>
       (\<exists>flag store store'. LDStoreInitialized (cl_store client) = (True, store) \<and>
          LDStoreGet store LD_FLAG key = Inr (True, Some flag, store') \<and> flag_value flag (Some (v_value r)))"
  using assms unfolding variation_def
  by (auto simp: Let_def fall_back_def LDi_notNull_def elim!: exec_bindE
      split: prod.split_asm option.split_asm if_split_asm dest!: evaluate_found_value)

section \<open>A call on the memory store\<close>

lemma memory_handle_ops:
  assumes "ms_inv ctx"
  shows "LDStoreGet (memory_handle ctx) kind key = Inr (True, visible (ms_view ctx kind key), memory_handle ctx)"
    and "LDStoreInitialized (memory_handle ctx) = (ms_initialized ctx, memory_handle ctx)"
  using mem.get_view [OF assms, of kind key]
  by (simp_all add: memory_handle_def LDStoreInitialized_def store_with_def LDStoreMemoryNew_def storeInitialized_def)

text \<open>
  The surroundings of a call that works: an initialised memory store, an event processor in
  a sound state with the client's configuration, readable clocks, and a well-formed user.
\<close>

definition call_ok :: "'sv calls \<Rightarrow> MemoryStoreContext LDClient \<Rightarrow> MemoryStoreContext \<Rightarrow> LDUser \<Rightarrow> bool" where
  "call_ok k client ctx user \<longleftrightarrow> cl_store client = memory_handle ctx \<and> ms_inv ctx \<and> ms_initialized ctx \<and>
     c_sendEvents (cl_config client) \<and> ep_config (cl_eventProcessor client) = cl_config client \<and>
     sound (cl_eventProcessor client) \<and> summary_ok (ep_summaryCounters (cl_eventProcessor client)) \<and>
     clocks_ok (k_readings k) \<and> wf_user user \<and> wf_names user (Some (c_privateAttributeNames (cl_config client)))"

definition call_result ::
  "LDUser \<Rightarrow> string \<Rightarrow> LDJSON \<Rightarrow> LDJSON \<Rightarrow> bool \<Rightarrow> evalstate \<Rightarrow> EvaluationResult" where
  "call_result user key fallback flag detailed st =
     \<lparr>r_user = user, r_subEvents = es_events st, r_flagKey = key, r_actualValue = es_value st,
       r_fallbackValue = Some fallback, r_flag = Some flag, r_details = es_details st,
       r_detailedEvaluation = detailed\<rparr>"

definition served :: "LDJSON \<Rightarrow> (LDJSONType \<Rightarrow> bool) \<Rightarrow> LDJSON option \<Rightarrow> LDJSON" where
  "served fallback checkType v =
     (if LDi_notNull v \<and> checkType (LDJSONGetType v) then the v else fallback)"

lemma variation_reports:
  assumes "call_ok k client ctx user" and "visible (ms_view ctx LD_FLAG key) = Some flag" and "reportable flag"
    and "store_metadata_ok (eval_env k client)"
    and "LDi_evaluate (k_depth k) (eval_env k client) user flag (fresh_outputs 0) = Inr (status, st)"
    and "status = EVAL_MATCH \<or> status = EVAL_MISS"
    and "\<forall>fk kt. count_of (ep_summaryCounters (cl_eventProcessor client)) fk kt +
        length (report_keys (call_result user key fallback flag detailed st)) < 2 ^ 53"
  shows "\<exists>r p'. variation k (Some client) (Some user) (Some key) fallback checkType detailed = Inr r \<and>
     v_value r = served fallback checkType (es_value st) \<and>
     v_client r = Some (client\<lparr>cl_eventProcessor := p'\<rparr>) \<and> sound p' \<and>
     (\<forall>fk kt. count_of (ep_summaryCounters p') fk kt =
        count_of (ep_summaryCounters (cl_eventProcessor client)) fk kt +
        occurrences (report_keys (call_result user key fallback flag detailed st)) fk kt)"
proof -
  let ?r = "call_result user key fallback flag detailed st" and ?p = "cl_eventProcessor client"
  have c: "cl_store client = memory_handle ctx" "ms_inv ctx" "ms_initialized ctx" "c_sendEvents (cl_config client)"
    "clocks_ok (k_readings k)" "sound ?p" "summary_ok (ep_summaryCounters ?p)"
    using assms(1) by (simp_all add: call_ok_def)
  have st: "LDStoreInitialized (cl_store client) = (True, cl_store client)"
    "LDStoreGet (cl_store client) LD_FLAG key = Inr (True, Some flag, cl_store client)"
    using memory_handle_ops [OF c(2)] assms(2) by (simp_all add: c(1,3))
  have "good_result flag status st"
    using assms(5) by (cases "k_depth k") (auto simp: fresh_outputs_def new_details_def dest!: eval_flag_good)
  then have d: "details_ok (es_details st)"
    using assms(6) by (auto simp: good_result_def match_result_def miss_result_def)
  have "events_ok (es_events st)"
    using evaluate_events [OF assms(4,5)] by (simp add: fresh_outputs_def events_ok_def)
  then have "report_ok ?p ?r"
    using assms(1,3) d by (simp add: report_ok_def call_result_def call_ok_def)
  then obtain p' where p': "LDEventProcessor_ProcessEvaluation ?p ?r (k_readings k) = Inr (True, p')" "sound p'"
    "\<forall>fk kt. count_of (ep_summaryCounters p') fk kt = count_of (ep_summaryCounters ?p) fk kt +
        occurrences (report_keys ?r) fk kt"
    using process_evaluation_ok [OF c(6,7,5) _ assms(7)] by blast
  have found: "evaluate_found k client user (Some flag) = Inr (es_details st, Some (es_events st, es_value st))"
    using assms(5,6) by (auto simp: evaluate_found_def)
  have report: "report_evaluation k client ?r = Inr (True, client\<lparr>cl_eventProcessor := p'\<rparr>)"
    using p'(1) c(4) by (simp add: report_evaluation_def)
  show ?thesis
    using st found report p'(2,3)
    by (auto simp: variation_def served_def fall_back_def call_result_def)
qed

section \<open>A sample client\<close>

definition flag_context :: "LDJSON \<Rightarrow> MemoryStoreContext" where
  "flag_context flag = \<lparr>ms_initialized = True, ms_features = [(item_key flag, flag)], ms_segments = []\<rparr>"

definition sample_calls :: "nat calls" where
  "sample_calls = \<lparr>k_ext = sample_ext, k_clock = (\<lambda>i. Some (Fin 5)), k_readings = sample_readings,
     k_monotonic = (\<lambda>i. Some (Fin 5)), k_depth = 1\<rparr>"

definition sample_client :: "LDJSON \<Rightarrow> MemoryStoreContext LDClient" where
  "sample_client flag = \<lparr>cl_shuttingdown = False, cl_config = sample_config, cl_shouldFlush = False,
     cl_store = memory_handle (flag_context flag), cl_eventProcessor = empty_processor\<rparr>"

lemma base_flag_item: "valid_item base_flag" "item_key base_flag = ''base''" "\<not> LDi_isDataDeleted base_flag"
  by (simp_all add: base_flag_def valid_item_def LDi_validateData_def LDi_getDataVersion_def
      item_version_def item_key_def LDi_getDataKey_def LDi_isDataDeleted_def)

lemma base_flag_context: "ms_inv (flag_context base_flag)"
  "visible (ms_view (flag_context base_flag) LD_FLAG ''base'') = Some base_flag"
  by (simp_all add: ms_inv_def table_inv_def flag_context_def base_flag_item ms_view_def getFromStore_def
      hash_find_def visible_def)

lemma sample_call_ok: "call_ok sample_calls (sample_client base_flag) (flag_context base_flag) sample_user"
  using base_flag_context(1) empty_processor_sound empty_summary
  by (simp add: call_ok_def sample_client_def flag_context_def sample_config_def LDConfigNew_def sample_calls_def
      clocks_ok_def sample_readings_def wf_user_def wf_names_def sample_user_def LDi_userNew_def)
    (simp add: empty_processor_def sample_config_def LDConfigNew_def)

definition base_state :: evalstate where
  "base_state = \<lparr>es_details = \<lparr>d_variationIndex = 1, d_hasVariation = True, d_reason = LD_FALLTHROUGH,
     d_extra = DetailsFallthrough False\<rparr>, es_events = None, es_value = Some (JBool True), es_ticks = 0\<rparr>"

lemma base_evaluation:
  "LDi_evaluate 1 (eval_env sample_calls (sample_client base_flag)) sample_user base_flag (fresh_outputs 0) =
     Inr (EVAL_MATCH, base_state)"
  by (simp add: eval_defs base_flag_def base_state_def)

lemma base_reportable: "reportable base_flag" "metadata_ok base_flag"
proof -
  have "number_member base_flag ''version'' (Some 3)" by (simp add: number_member_def base_flag_def)
  moreover have "obj_lookup base_flag ''debugEventsUntilDate'' = None" "obj_lookup base_flag ''trackEvents'' = None"
    "obj_lookup base_flag ''trackEventsFallthrough'' = None"
    by (simp_all add: base_flag_def)
  ultimately show "metadata_ok base_flag" "reportable base_flag"
    by (auto simp: metadata_ok_def reportable_def null_or_def LDi_notNull_def)
qed

lemma sample_client_metadata: "store_metadata_ok (eval_env sample_calls (sample_client base_flag))"
proof -
  have "visible (ms_view (flag_context base_flag) LD_FLAG k) \<in> {None, Some base_flag}" for k
    by (auto simp: ms_view_def getFromStore_def flag_context_def hash_find_def visible_def)
  then have "k' = base_flag" if "visible (ms_view (flag_context base_flag) LD_FLAG k) = Some k'" for k k'
    using that by (metis empty_iff insert_iff option.distinct(1) option.inject)
  then show ?thesis
    using memory_handle_ops(1) [OF base_flag_context(1)] base_reportable(2)
    by (auto simp: store_metadata_ok_def eval_env_def sample_client_def store_reader_def)
qed

section \<open>Guarantees\<close>

text \<open>C6: a variation call that returns hands back either the fallback or a value that is not null, has
  a type the caller accepts, and is one of the variations of the flag the store holds under the
  key; this holds whatever the flag data, also when it is malformed.\<close>

theorem variation_serves_flag_or_fallback:
  assumes "variation k (Some client) (Some user) (Some key) fallback checkType detailed = Inr r"
  shows "if v_fallback r then v_value r = fallback
     else checkType (LDJSONGetType (Some (v_value r))) \<and> v_value r \<noteq> JNull \<and>
       (\<exists>flag store store' vs. LDStoreInitialized (cl_store client) = (True, store) \<and>
          LDStoreGet store LD_FLAG key = Inr (True, Some flag, store') \<and>
          obj_lookup flag ''variations'' = Some (JArray vs) \<and> v_value r \<in> set vs)"
  using variation_outcome [OF assms] by (auto simp: flag_value_def split: if_splits)

text \<open>C5: a variation call end to end: on an initialised memory store that holds a reportable flag, with
  a sound event processor and an evaluation that ends in a match or a miss, the call returns the
  evaluated value (or the fallback, if that value is missing, null or of a type not asked for),
  changes nothing of the client but its event processor, and counts exactly the flag itself, with
  its variation and version, and for each prerequisite that is looked at the prerequisites of that
  one and then itself, with the variation it serves, down to every level.\<close>

theorem variation_end_to_end:
  assumes "call_ok k client ctx user" and "visible (ms_view ctx LD_FLAG key) = Some flag" and "reportable flag"
    and "store_metadata_ok (eval_env k client)"
    and "LDi_evaluate (k_depth k) (eval_env k client) user flag (fresh_outputs 0) = Inr (status, st)"
    and "status = EVAL_MATCH \<or> status = EVAL_MISS"
    and "\<forall>fk kt. count_of (ep_summaryCounters (cl_eventProcessor client)) fk kt +
        Suc (length (reports (k_depth k) (eval_env k client) user flag)) < 2 ^ 53"
  shows "\<exists>r p'. variation k (Some client) (Some user) (Some key) fallback checkType detailed = Inr r \<and>
     v_value r = served fallback checkType (es_value st) \<and>
     v_client r = Some (client\<lparr>cl_eventProcessor := p'\<rparr>) \<and> sound p' \<and>
     (\<forall>fk kt. count_of (ep_summaryCounters p') fk kt =
        count_of (ep_summaryCounters (cl_eventProcessor client)) fk kt +
        occurrences ((key, summary_text (reported_variation (es_details st)) (flag_version (Some flag))) #
          reports (k_depth k) (eval_env k client) user flag) fk kt)"
proof -
  have "\<not> LDi_isEvalError status" using assms(6) by (auto simp: LDi_isEvalError_def)
  then have "map event_keys (iter_values (es_events st)) = reports (k_depth k) (eval_env k client) user flag"
    using evaluate_reports [OF assms(4,5)] by (simp add: collected_def [symmetric])
  then have "report_keys (call_result user key fallback flag detailed st) =
      (key, summary_text (reported_variation (es_details st)) (flag_version (Some flag))) #
        reports (k_depth k) (eval_env k client) user flag"
    by (simp add: report_keys_def call_result_def result_variation_def reported_variation_def)
  then show ?thesis using variation_reports [OF assms(1-6), of fallback detailed] assms(7) by simp
qed

text \<open>A flag that requires a flag that requires a third one.\<close>

definition chain_flag :: "string \<Rightarrow> string \<Rightarrow> LDJSON" where
  "chain_flag key needed = JObject [(''key'', JText key), (''on'', JBool True), (''salt'', JText ''s''),
     (''version'', JNumber (uint_to_dbl 7)), (''variations'', JArray [JText ''a'', JText ''b'']),
     (''prerequisites'', JArray [requires needed 1]),
     (''fallthrough'', JObject [(''variation'', JNumber (uint_to_dbl 1))])]"

definition chain_context :: MemoryStoreContext where
  "chain_context = \<lparr>ms_initialized = True, ms_features = [(''top'', chain_flag ''top'' ''mid''),
     (''mid'', chain_flag ''mid'' ''base''), (''base'', base_flag)], ms_segments = []\<rparr>"

definition chain_client :: "MemoryStoreContext LDClient" where
  "chain_client = (sample_client base_flag)\<lparr>cl_store := memory_handle chain_context\<rparr>"

definition chain_calls :: "nat calls" where
  "chain_calls = sample_calls\<lparr>k_depth := 3\<rparr>"

abbreviation chain_env :: "nat evalenv" where
  "chain_env \<equiv> eval_env chain_calls chain_client"

lemma chain_item: "valid_item (chain_flag k n)" "item_key (chain_flag k n) = k" "\<not> LDi_isDataDeleted (chain_flag k n)"
  by (simp_all add: chain_flag_def valid_item_def LDi_validateData_def LDi_getDataVersion_def
      item_version_def item_key_def LDi_getDataKey_def LDi_isDataDeleted_def)

lemma chain_inv: "ms_inv chain_context"
  by (simp add: ms_inv_def table_inv_def chain_context_def base_flag_item chain_item)

lemma chain_store: "e_store chain_env LD_FLAG k = Inr (True, if k = ''top'' then Some (chain_flag ''top'' ''mid'')
     else if k = ''mid'' then Some (chain_flag ''mid'' ''base'') else if k = ''base'' then Some base_flag else None)"
  using memory_handle_ops(1) [OF chain_inv, of LD_FLAG k]
  by (auto simp: eval_env_def store_reader_def chain_client_def chain_context_def ms_view_def getFromStore_def
      hash_find_def visible_def base_flag_item chain_item)

lemma chain_reportable: "reportable (chain_flag k n)"
proof -
  have "number_member (chain_flag k n) ''version'' (Some 7)" by (simp add: number_member_def chain_flag_def)
  moreover have "obj_lookup (chain_flag k n) m = None" if "m \<in> {''debugEventsUntilDate'', ''trackEvents'', ''trackEventsFallthrough''}" for m
    using that by (auto simp: chain_flag_def)
  ultimately show ?thesis by (auto simp: reportable_def metadata_ok_def null_or_def LDi_notNull_def)
qed

lemma chain_reporting: "reporting_ok chain_env sample_user"
  unfolding reporting_ok_def chain_store
  by (auto simp: eval_env_def chain_calls_def sample_calls_def readable_def chain_client_def sample_client_def wf_user_def
      wf_names_def sample_user_def LDi_userNew_def sample_config_def LDConfigNew_def chain_reportable base_reportable
      split: if_split_asm)

abbreviation served_second :: LDDetails where
  "served_second \<equiv> \<lparr>d_variationIndex = 1, d_hasVariation = True, d_reason = LD_FALLTHROUGH, d_extra = DetailsFallthrough False\<rparr>"

lemma chain_base: "outcome (Suc d) chain_env sample_user base_flag = Some (EVAL_MATCH, served_second)"
  by (simp add: outcome_def eval_defs base_flag_def)

lemma chain_link:
  assumes "standing_of d chain_env sample_user (requires n 1) = Holds"
  shows "\<exists>st. LDi_evaluate (Suc d) chain_env sample_user (chain_flag k n) (fresh_outputs t) = Inr (EVAL_MATCH, st) \<and>
     es_details st = served_second \<and> es_value st = Some (JText ''b'')"
proof -
  have f: "is_on (chain_flag k n)" "prerequisites_hold d chain_env sample_user (chain_flag k n)"
    using assms chain_reporting
    by (simp_all add: is_on_def chain_flag_def prerequisites_hold_def opt_member_def prerequisites_def member_value_def)
  obtain e u where "LDi_evaluate (Suc d) chain_env sample_user (chain_flag k n) (fresh_outputs t) =
      eval_rest chain_env (chain_flag k n) sample_user (retag e u (fresh_outputs t))"
    using prerequisites_hold_rest [OF f] by blast
  moreover have "eval_rest chain_env (chain_flag k n) sample_user st =
      Inr (EVAL_MATCH, st\<lparr>es_details := served_second, es_value := Some (JText ''b'')\<rparr>)" for st
    by (simp add: eval_defs chain_flag_def)
  ultimately show ?thesis by simp
qed

lemma chain_standing: "standing_of (Suc d) chain_env sample_user (requires ''base'' 1) = Holds"
  by (simp add: standing_of_def chain_store chain_base)

lemma chain_mid: "outcome (Suc (Suc d)) chain_env sample_user (chain_flag ''mid'' ''base'') = Some (EVAL_MATCH, served_second)"
proof -
  obtain st where st: "LDi_evaluate (Suc (Suc d)) chain_env sample_user (chain_flag ''mid'' ''base'') (fresh_outputs 0) =
      Inr (EVAL_MATCH, st)" "es_details st = served_second"
    using chain_link [OF chain_standing] by blast
  then show ?thesis using outcome_of_run [OF st(1)] by simp
qed

lemma chain_standing_mid: "standing_of (Suc (Suc d)) chain_env sample_user (requires ''mid'' 1) = Holds"
  by (simp add: standing_of_def chain_store chain_mid)

lemma chain_reports:
  "reports 3 chain_env sample_user (chain_flag ''top'' ''mid'') =
     [(''base'', summary_text (Some 1) (Some 3)), (''mid'', summary_text (Some 1) (Some 7))]"
proof -
  have on: "is_on (chain_flag k n)" "prerequisites (chain_flag k n) = [requires n 1]" "flag_version (Some (chain_flag k n)) = Some 7" for k n
    by (simp_all add: is_on_def chain_flag_def prerequisites_def member_value_def flag_version_def)
  have base: "prerequisites base_flag = []" "flag_version (Some base_flag) = Some 3"
    by (simp_all add: prerequisites_def member_value_def base_flag_def flag_version_def)
  show ?thesis
    by (simp add: numeral_3_eq_3 reports_Suc on base chain_standing chain_standing_mid contribution_def chain_store
        chain_base chain_mid reported_variation_def)
qed

theorem variation_end_to_end_witness:
  "\<exists>r p'. variation chain_calls (Some chain_client) (Some sample_user) (Some ''top'') (JText ''x'') isText False = Inr r \<and>
     v_value r = JText ''b'' \<and> v_client r = Some (chain_client\<lparr>cl_eventProcessor := p'\<rparr>) \<and> sound p' \<and>
     count_of (ep_summaryCounters p') ''top'' (summary_text (Some 1) (Some 7)) = 1 \<and>
     count_of (ep_summaryCounters p') ''mid'' (summary_text (Some 1) (Some 7)) = 1 \<and>
     count_of (ep_summaryCounters p') ''base'' (summary_text (Some 1) (Some 3)) = 1"
proof -
  let ?f = "chain_flag ''top'' ''mid''"
  have calls: "k_depth chain_calls = 3" "cl_eventProcessor chain_client = empty_processor"
    by (simp_all add: chain_calls_def chain_client_def sample_client_def)
  have ok: "call_ok chain_calls chain_client chain_context sample_user"
    using sample_call_ok chain_inv by (simp add: call_ok_def chain_calls_def chain_client_def chain_context_def)
  have top: "visible (ms_view chain_context LD_FLAG ''top'') = Some ?f"
    by (simp add: chain_context_def ms_view_def getFromStore_def hash_find_def visible_def chain_item)
  have version: "flag_version (Some ?f) = Some 7" by (simp add: flag_version_def chain_flag_def)
  obtain st where st: "LDi_evaluate 3 chain_env sample_user ?f (fresh_outputs 0) = Inr (EVAL_MATCH, st)"
    "es_details st = served_second" "es_value st = Some (JText ''b'')"
    using chain_link [OF chain_standing_mid] unfolding numeral_3_eq_3 by blast
  have variation: "summary_text (reported_variation (es_details st)) (flag_version (Some ?f)) = summary_text (Some 1) (Some 7)"
    by (simp add: st(2) version reported_variation_def)
  have few: "\<forall>fk kt. count_of (ep_summaryCounters (cl_eventProcessor chain_client)) fk kt +
      Suc (length (reports (k_depth chain_calls) chain_env sample_user ?f)) < 2 ^ 53"
    by (simp add: calls chain_reports empty_summary)
  obtain r p' where "variation chain_calls (Some chain_client) (Some sample_user) (Some ''top'') (JText ''x'') isText False = Inr r"
    "v_value r = served (JText ''x'') isText (es_value st)" "v_client r = Some (chain_client\<lparr>cl_eventProcessor := p'\<rparr>)" "sound p'"
    "\<forall>fk kt. count_of (ep_summaryCounters p') fk kt = occurrences ((''top'', summary_text (Some 1) (Some 7)) #
       [(''base'', summary_text (Some 1) (Some 3)), (''mid'', summary_text (Some 1) (Some 7))]) fk kt"
    using variation_end_to_end [OF ok top chain_reportable reporting_metadata [OF chain_reporting], of EVAL_MATCH st "JText ''x''" isText False]
      st(1) few by (auto simp: calls chain_reports variation empty_summary)
  then show ?thesis using st(3) by (intro exI conjI) (auto simp: served_def LDi_notNull_def isText_def occurrences_def)
qed

lemma sample_counts:
  "\<forall>fk kt. count_of (ep_summaryCounters (cl_eventProcessor (sample_client base_flag))) fk kt +
     length (report_keys (call_result sample_user ''base'' (JBool False) base_flag False base_state)) < 2 ^ 53"
  by (simp add: sample_client_def empty_summary report_keys_def call_result_def base_state_def)

theorem variation_serves_flag_or_fallback_witness:
  "\<exists>r. variation sample_calls (Some (sample_client base_flag)) (Some sample_user) (Some ''base'') (JBool False)
       isBool False = Inr r \<and>
     (if v_fallback r then v_value r = JBool False
      else isBool (LDJSONGetType (Some (v_value r))) \<and> v_value r \<noteq> JNull \<and>
       (\<exists>flag store store' vs. LDStoreInitialized (cl_store (sample_client base_flag)) = (True, store) \<and>
          LDStoreGet store LD_FLAG ''base'' = Inr (True, Some flag, store') \<and>
          obj_lookup flag ''variations'' = Some (JArray vs) \<and> v_value r \<in> set vs))"
proof -
  obtain r where "variation sample_calls (Some (sample_client base_flag)) (Some sample_user) (Some ''base'')
      (JBool False) isBool False = Inr r"
    using variation_reports [OF sample_call_ok base_flag_context(2) base_reportable(1) sample_client_metadata,
        of EVAL_MATCH base_state "JBool False" False isBool] base_evaluation sample_counts
    by (auto simp: sample_calls_def)
  with variation_serves_flag_or_fallback [OF this] show ?thesis by blast
qed

end
