(* ===== verification/VariationErrors.thy ===== *)
theory VariationErrors
  imports VariationFlow
begin

text \<open>
  Variation calls on malformed flags: what the error paths of \<open>variation\<close> return, and two
  cases where they do not do what the comments in the code say.
\<close>

section \<open>Clients with several flags\<close>

definition flags_context :: "LDJSON list \<Rightarrow> MemoryStoreContext" where
  "flags_context flags = \<lparr>ms_initialized = True, ms_features = map (\<lambda>f. (item_key f, f)) flags, ms_segments = []\<rparr>"

definition flags_client :: "LDJSON list \<Rightarrow> MemoryStoreContext LDClient" where
  "flags_client flags = (sample_client base_flag)\<lparr>cl_store := memory_handle (flags_context flags)\<rparr>"

definition deep_calls :: "nat calls" where
  "deep_calls = sample_calls\<lparr>k_depth := 2\<rparr>"

lemmas client_defs = flags_client_def sample_client_def deep_calls_def sample_calls_def eval_env_def

lemma flags_context_inv:
  "ms_inv (flags_context flags) \<longleftrightarrow> distinct (map item_key flags) \<and> list_all valid_item flags"
  by (auto simp: ms_inv_def table_inv_def flags_context_def comp_def list_all_iff)

lemma flags_store:
  assumes "distinct (map item_key flags)" and "list_all valid_item flags"
  shows "LDStoreInitialized (cl_store (flags_client flags)) = (True, cl_store (flags_client flags))"
    and "LDStoreGet (cl_store (flags_client flags)) LD_FLAG key =
      Inr (True, visible (map_of (map (\<lambda>f. (item_key f, f)) flags) key), cl_store (flags_client flags))"
proof -
  have inv: "ms_inv (flags_context flags)" using assms by (simp add: flags_context_inv)
  have "ms_view (flags_context flags) LD_FLAG key = map_of (map (\<lambda>f. (item_key f, f)) flags) key"
    using assms(1) by (simp add: ms_view_def getFromStore_def flags_context_def hash_find_map_of comp_def)
  then show "LDStoreInitialized (cl_store (flags_client flags)) = (True, cl_store (flags_client flags))"
    "LDStoreGet (cl_store (flags_client flags)) LD_FLAG key =
      Inr (True, visible (map_of (map (\<lambda>f. (item_key f, f)) flags) key), cl_store (flags_client flags))"
    using memory_handle_ops [OF inv] by (simp_all add: flags_client_def) (simp add: flags_context_def)
qed

section \<open>A prerequisite with a malformed switch\<close>

text \<open>
  The second prerequisite is evaluated, but no event can be made for it, because its
  \<open>trackEvents\<close> is text. The event of the first one has been collected by then.
\<close>

definition bad_switch_flag :: LDJSON where
  "bad_switch_flag = JObject [(''key'', JText ''bad''), (''on'', JBool True), (''salt'', JText ''s''),
     (''version'', JNumber (uint_to_dbl 3)), (''trackEvents'', JText ''yes''),
     (''variations'', JArray [JBool False, JBool True]),
     (''fallthrough'', JObject [(''variation'', JNumber (uint_to_dbl 1))])]"

definition dependent_flag :: LDJSON where
  "dependent_flag = JObject [(''key'', JText ''top''), (''on'', JBool True), (''salt'', JText ''s''),
     (''version'', JNumber (uint_to_dbl 3)),
     (''prerequisites'', JArray [JObject [(''key'', JText ''base''), (''variation'', JNumber (uint_to_dbl 1))],
        JObject [(''key'', JText ''bad''), (''variation'', JNumber (uint_to_dbl 1))]]),
     (''variations'', JArray [JText ''a'', JText ''b'']), (''offVariation'', JNumber (uint_to_dbl 0)),
     (''fallthrough'', JObject [(''variation'', JNumber (uint_to_dbl 1))])]"

lemmas item_defs = valid_item_def LDi_validateData_def LDi_getDataVersion_def item_version_def item_key_def
  LDi_getDataKey_def LDi_isDataDeleted_def

lemma dependent_items:
  "item_key bad_switch_flag = ''bad''" "item_key dependent_flag = ''top''"
  "valid_item bad_switch_flag" "valid_item dependent_flag"
  "\<not> LDi_isDataDeleted bad_switch_flag" "\<not> LDi_isDataDeleted dependent_flag"
  by (simp_all add: bad_switch_flag_def dependent_flag_def item_defs)

abbreviation dependent_client :: "MemoryStoreContext LDClient" where
  "dependent_client \<equiv> flags_client [base_flag, bad_switch_flag, dependent_flag]"

lemma dependent_store:
  "LDStoreInitialized (cl_store dependent_client) = (True, cl_store dependent_client)"
  "LDStoreGet (cl_store dependent_client) LD_FLAG ''base'' = Inr (True, Some base_flag, cl_store dependent_client)"
  "LDStoreGet (cl_store dependent_client) LD_FLAG ''bad'' = Inr (True, Some bad_switch_flag, cl_store dependent_client)"
  "LDStoreGet (cl_store dependent_client) LD_FLAG ''top'' = Inr (True, Some dependent_flag, cl_store dependent_client)"
  using flags_store [of "[base_flag, bad_switch_flag, dependent_flag]"]
  by (simp_all add: dependent_items base_flag_item visible_def)

lemma dependent_evaluation:
  assumes "e_store env LD_FLAG ''base'' = Inr (True, Some base_flag)"
    and "e_store env LD_FLAG ''bad'' = Inr (True, Some bad_switch_flag)"
    and "e_clock env = (\<lambda>i. Some (Fin 5))" and "e_config env = sample_config"
  shows "\<exists>e st. LDi_evaluate 2 env sample_user dependent_flag (fresh_outputs 0) = Inr (EVAL_MEM, st) \<and>
     es_events st = Some (JArray [e])"
  using assms
  by (simp add: numeral_2_eq_2 eval_defs event_defs dependent_flag_def base_flag_def bad_switch_flag_def
      sample_config_def LDConfigNew_def)

lemma dependent_env:
  "e_store (eval_env deep_calls dependent_client) LD_FLAG ''base'' = Inr (True, Some base_flag)"
  "e_store (eval_env deep_calls dependent_client) LD_FLAG ''bad'' = Inr (True, Some bad_switch_flag)"
  "e_clock (eval_env deep_calls dependent_client) = (\<lambda>i. Some (Fin 5))"
  "e_config (eval_env deep_calls dependent_client) = sample_config"
  using dependent_store by (simp_all add: eval_env_def store_reader_def)
    (simp_all add: deep_calls_def sample_calls_def flags_client_def sample_client_def)

text \<open>When the event of a prerequisite cannot be made (its switch \<open>trackEvents\<close> is not a boolean) after
  the event of an earlier prerequisite was collected, a variation call frees the collected events
  twice; every flag involved is accepted by the store.\<close>

theorem failed_event_frees_twice:
  "ms_inv (flags_context [base_flag, bad_switch_flag, dependent_flag]) \<and>
   variation deep_calls (Some dependent_client) (Some sample_user) (Some ''top'') (JText ''f'') isText False = Inl DoubleFree"
proof
  show "ms_inv (flags_context [base_flag, bad_switch_flag, dependent_flag])"
    by (simp add: flags_context_inv dependent_items base_flag_item)
  obtain e st where "LDi_evaluate (k_depth deep_calls) (eval_env deep_calls dependent_client) sample_user dependent_flag
      (fresh_outputs 0) = Inr (EVAL_MEM, st)" "es_events st = Some (JArray [e])"
    using dependent_evaluation [OF dependent_env] by (auto simp: deep_calls_def)
  then show "variation deep_calls (Some dependent_client) (Some sample_user) (Some ''top'') (JText ''f'') isText False =
      Inl DoubleFree"
    using dependent_store by (simp add: variation_def evaluate_found_def)
qed

section \<open>A matched rule with a malformed id\<close>

definition bad_rule_flag :: LDJSON where
  "bad_rule_flag = JObject [(''key'', JText ''ruled''), (''on'', JBool True), (''salt'', JText ''s''),
     (''version'', JNumber (uint_to_dbl 3)),
     (''rules'', JArray [JObject [(''clauses'', JArray []), (''variation'', JNumber (uint_to_dbl 1)),
        (''id'', JNumber (uint_to_dbl 4))]]),
     (''variations'', JArray [JText ''a'', JText ''b''])]"

lemma bad_rule_item: "item_key bad_rule_flag = ''ruled''" "valid_item bad_rule_flag" "\<not> LDi_isDataDeleted bad_rule_flag"
  by (simp_all add: bad_rule_flag_def item_defs)

lemma bad_rule_evaluation:
  "\<exists>st. LDi_evaluate 2 env sample_user bad_rule_flag (fresh_outputs 0) = Inr (EVAL_SCHEMA, st) \<and>
     es_value st = Some (JText ''b'')"
  by (simp add: numeral_2_eq_2 eval_defs bad_rule_flag_def LDi_ruleMatchesUser_def rule_matched_def)

lemma bad_rule_call:
  assumes "\<not> c_sendEvents (cl_config client)"
    and "LDStoreInitialized (cl_store client) = (True, cl_store client)"
    and "LDStoreGet (cl_store client) LD_FLAG ''ruled'' = Inr (True, Some bad_rule_flag, cl_store client)"
  shows "\<exists>r. variation deep_calls (Some client) (Some sample_user) (Some ''ruled'') (JText ''f'') isText True = Inr r \<and>
     \<not> v_fallback r \<and> v_value r = JText ''b'' \<and> d_reason (v_details r) = LD_ERROR \<and>
     d_extra (v_details r) = ErrorKind LD_MALFORMED_FLAG"
proof -
  obtain st where "LDi_evaluate (k_depth deep_calls) (eval_env deep_calls client) sample_user bad_rule_flag
      (fresh_outputs 0) = Inr (EVAL_SCHEMA, st)" "es_value st = Some (JText ''b'')"
    using bad_rule_evaluation by (auto simp: deep_calls_def)
  then show ?thesis
    using assms by (simp add: variation_def evaluate_found_def report_evaluation_def LDi_notNull_def isText_def set_error_def)
qed

text \<open>A flag whose matching rule has an id that is not text is served although it is reported as
  malformed: the call returns the rule's variation, not the fallback, with the reason \<open>ERROR\<close> and the
  kind \<open>MALFORMED_FLAG\<close>.\<close>

theorem malformed_rule_served:
  "\<exists>r. variation deep_calls (Some ((flags_client [bad_rule_flag])\<lparr>cl_config := sample_config\<lparr>c_sendEvents := False\<rparr>\<rparr>))
       (Some sample_user) (Some ''ruled'') (JText ''f'') isText True = Inr r \<and>
     \<not> v_fallback r \<and> v_value r = JText ''b'' \<and> d_reason (v_details r) = LD_ERROR \<and>
     d_extra (v_details r) = ErrorKind LD_MALFORMED_FLAG"
  using flags_store [of "[bad_rule_flag]"] by (intro bad_rule_call) (simp_all add: bad_rule_item visible_def)

end
