(* ===== verification/JsonHelpers.thy ===== *)
theory JsonHelpers
  imports Json
begin

text \<open>
  The convenience setters of \<open>src/json_internal_helpers.c\<close>. All but the last replace an
  existing member; \<open>LDObjectSetReference\<close> appends without looking for one, so it can leave
  an object with the same key twice.
\<close>

fun LDObjectSetString :: "LDJSON option \<Rightarrow> string option \<Rightarrow> string option \<Rightarrow> bool \<times> LDJSON option" where
  "LDObjectSetString (Some (JObject kvs)) (Some k) (Some v) =
     (True, Some (JObject (del_first k kvs @ [(k, JText v)])))"
| "LDObjectSetString j k v = (False, j)"

fun LDObjectSetBool :: "LDJSON option \<Rightarrow> string option \<Rightarrow> bool \<Rightarrow> bool \<times> LDJSON option" where
  "LDObjectSetBool (Some (JObject kvs)) (Some k) v =
     (True, Some (JObject (del_first k kvs @ [(k, JBool v)])))"
| "LDObjectSetBool j k v = (False, j)"

text \<open>The object with the new child in it, which the C code returns a pointer to.\<close>

fun LDObjectNewChild :: "LDJSON option \<Rightarrow> string option \<Rightarrow> LDJSON option" where
  "LDObjectNewChild (Some (JObject kvs)) (Some k) = Some (JObject (del_first k kvs @ [(k, JObject [])]))"
| "LDObjectNewChild j k = None"

fun LDObjectSetNumber :: "LDJSON option \<Rightarrow> string option \<Rightarrow> dbl \<Rightarrow> bool \<times> LDJSON option" where
  "LDObjectSetNumber (Some (JObject kvs)) (Some k) n =
     (True, Some (JObject (del_first k kvs @ [(k, JNumber n)])))"
| "LDObjectSetNumber j k n = (False, j)"

fun LDObjectSetReference :: "LDJSON option \<Rightarrow> string option \<Rightarrow> LDJSON option \<Rightarrow> bool \<times> LDJSON option" where
  "LDObjectSetReference (Some (JObject kvs)) (Some k) (Some item) = (True, Some (JObject (kvs @ [(k, item)])))"
| "LDObjectSetReference j k item = (False, j)"

lemma setters_set_key:
  "LDObjectSetString (Some (JObject kvs)) (Some k) (Some v) = (True, Some (set_key (JObject kvs) k (JText v)))"
  "LDObjectSetBool (Some (JObject kvs)) (Some k) b = (True, Some (set_key (JObject kvs) k (JBool b)))"
  "LDObjectSetNumber (Some (JObject kvs)) (Some k) n = (True, Some (set_key (JObject kvs) k (JNumber n)))"
  "LDObjectNewChild (Some (JObject kvs)) (Some k) = Some (set_key (JObject kvs) k (JObject []))"
  by (simp_all add: set_key_JObject)

text \<open>On a key that is not there yet a reference is a member like any other.\<close>

lemma reference_fresh:
  "k \<notin> fst ` set kvs \<Longrightarrow>
   LDObjectSetReference (Some (JObject kvs)) (Some k) (Some v) = (True, Some (set_key (JObject kvs) k v))"
  by (simp add: set_key_JObject)

end
