(* ===== verification/AllFlags.thy ===== *)
theory AllFlags
  imports Variations FlagModel JsonHelpers JsonPrint
begin

text \<open>
  The state of all flags for a user, \<open>src/all_flags_state.c\<close>, its public accessors in
  \<open>src/flag_state.c\<close> and the call that builds it in \<open>src/variations.c\<close>.
\<close>

section \<open>State of one flag and of all flags\<close>

record LDFlagState =
  fs_key :: string
  fs_value :: "LDJSON option"
  fs_details :: LDDetails
  fs_version :: uint
  fs_trackEvents :: bool
  fs_debugEventsUntilDate :: dbl
  fs_omitDetails :: bool

text \<open>The values map of the invalid state is \<open>NULL\<close>.\<close>

record AllFlagsState =
  af_hash :: "(string \<times> LDFlagState) list"
  af_map :: "LDJSON option"
  af_valid :: bool

definition LDi_newFlagState :: "string \<Rightarrow> LDFlagState" where
  "LDi_newFlagState key = \<lparr>fs_key = key, fs_value = None, fs_details = new_details, fs_version = 0,
     fs_trackEvents = False, fs_debugEventsUntilDate = Fin 0, fs_omitDetails = False\<rparr>"

definition LDi_flagModelPopulate :: "LDFlagModel \<Rightarrow> LDFlagState \<Rightarrow> LDFlagState" where
  "LDi_flagModelPopulate model flag = flag\<lparr>fs_version := fm_version model,
     fs_debugEventsUntilDate := fm_debugEventsUntilDate model, fs_trackEvents := fm_trackEvents model\<rparr>"

definition LDi_newAllFlagsState :: "bool \<Rightarrow> AllFlagsState" where
  "LDi_newAllFlagsState valid =
     (if valid then \<lparr>af_hash = [], af_map = Some (JObject []), af_valid = True\<rparr>
      else \<lparr>af_hash = [], af_map = None, af_valid = False\<rparr>)"

definition LDi_allFlagsStateAdd :: "AllFlagsState \<Rightarrow> LDFlagState \<Rightarrow> bool \<times> AllFlagsState" where
  "LDi_allFlagsStateAdd state flag =
     (case (case fs_value flag of
         Some v \<Rightarrow> LDObjectSetReference (af_map state) (Some (fs_key flag)) (Some v)
       | None \<Rightarrow> LDObjectSetKey (af_map state) (fs_key flag) (Some JNull)) of
       (ok, m) \<Rightarrow>
         if ok then (True, state\<lparr>af_map := m, af_hash := hash_add (af_hash state) (fs_key flag) flag\<rparr>)
         else (False, state))"

definition LDi_allFlagsStateValid :: "AllFlagsState \<Rightarrow> bool" where
  "LDi_allFlagsStateValid flags = af_valid flags"

definition LDi_allFlagsStateDetails :: "AllFlagsState \<Rightarrow> string \<Rightarrow> LDDetails option" where
  "LDi_allFlagsStateDetails flags key = map_option fs_details (hash_find (af_hash flags) key)"

definition LDi_allFlagsStateValue :: "AllFlagsState \<Rightarrow> string \<Rightarrow> LDJSON option" where
  "LDi_allFlagsStateValue flags key =
     (case hash_find (af_hash flags) key of None \<Rightarrow> None | Some flag \<Rightarrow> fs_value flag)"

definition LDi_allFlagsStateValuesMap :: "AllFlagsState \<Rightarrow> LDJSON option" where
  "LDi_allFlagsStateValuesMap flags = af_map flags"

section \<open>JSON form\<close>

text \<open>The values, in the order of the table.\<close>

fun flag_values :: "LDJSON \<Rightarrow> LDFlagState list \<Rightarrow> LDJSON" where
  "flag_values object [] = object"
| "flag_values object (flag # rest) = flag_values
     (case fs_value flag of
        None \<Rightarrow> the (snd (LDObjectSetKey (Some object) (fs_key flag) (Some JNull)))
      | Some v \<Rightarrow> the (snd (LDObjectSetReference (Some object) (Some (fs_key flag)) (Some v)))) rest"

text \<open>The metadata of one flag; \<open>None\<close> when its reason cannot be serialized.\<close>

definition flag_metadata :: "LDFlagState \<Rightarrow> LDJSON option exec" where
  "flag_metadata flag =
     (let o1 = JObject [];
          o2 = (if d_hasVariation (fs_details flag)
                then set_key o1 ''variation'' (JNumber (uint_to_dbl (d_variationIndex (fs_details flag)))) else o1);
          o3 = (if fs_omitDetails flag then o2 else set_key o2 ''version'' (JNumber (uint_to_dbl (fs_version flag))))
      in exec_bind
        (if d_reason (fs_details flag) \<noteq> LD_UNKNOWN \<and> \<not> fs_omitDetails flag
         then exec_bind (LDReasonToJSON (fs_details flag)) (\<lambda>r. case r of None \<Rightarrow> Inr None
           | Some reason \<Rightarrow> Inr (Some (set_key o3 ''reason'' reason)))
         else Inr (Some o3)) (\<lambda>r.
      case r of None \<Rightarrow> Inr None
      | Some o4 \<Rightarrow>
          (let o5 = (if fs_trackEvents flag then set_key o4 ''trackEvents'' (JBool True) else o4)
           in Inr (Some (if dbl_lt (Fin 0) (fs_debugEventsUntilDate flag)
                         then set_key o5 ''debugEventsUntilDate'' (JNumber (fs_debugEventsUntilDate flag)) else o5)))))"

fun flags_metadata :: "LDJSON \<Rightarrow> LDFlagState list \<Rightarrow> LDJSON option exec" where
  "flags_metadata object [] = Inr (Some object)"
| "flags_metadata object (flag # rest) =
     exec_bind (flag_metadata flag) (\<lambda>r. case r of None \<Rightarrow> Inr None
       | Some m \<Rightarrow> flags_metadata (set_key object (fs_key flag) m) rest)"

definition buildFlagState :: "AllFlagsState \<Rightarrow> LDJSON \<Rightarrow> LDJSON option exec" where
  "buildFlagState flags object =
     (let flag_list = map snd (af_hash flags);
          object = the (snd (LDObjectSetBool (Some object) (Some ''$valid'') (af_valid flags)));
          object = flag_values object flag_list
      in exec_bind (flags_metadata (JObject []) flag_list) (\<lambda>r.
        case r of None \<Rightarrow> Inr None
        | Some m \<Rightarrow> Inr (Some (set_key object ''$flagsState'' m))))"

definition LDi_allFlagsStateJSON :: "AllFlagsState \<Rightarrow> string option exec" where
  "LDi_allFlagsStateJSON flags =
     exec_bind (buildFlagState flags (JObject [])) (\<lambda>r.
       case r of None \<Rightarrow> Inr None | Some object \<Rightarrow> Inr (LDJSONSerialize (Some object)))"

section \<open>The builder\<close>

record LDAllFlagsBuilder =
  b_state :: AllFlagsState
  b_includeReasons :: bool
  b_detailsOnlyForTrackedFlags :: bool

text \<open>The options are bits 0 to 2 of an unsigned integer.\<close>

definition LD_INCLUDE_REASON :: "uint \<Rightarrow> bool" where
  "LD_INCLUDE_REASON options = bit options 0"

definition LD_DETAILS_ONLY_FOR_TRACKED_FLAGS :: "uint \<Rightarrow> bool" where
  "LD_DETAILS_ONLY_FOR_TRACKED_FLAGS options = bit options 1"

definition LD_CLIENT_SIDE_ONLY :: "uint \<Rightarrow> bool" where
  "LD_CLIENT_SIDE_ONLY options = bit options 2"

definition LDi_newAllFlagsBuilder :: "uint \<Rightarrow> LDAllFlagsBuilder" where
  "LDi_newAllFlagsBuilder options = \<lparr>b_state = LDi_newAllFlagsState True,
     b_includeReasons = LD_INCLUDE_REASON options,
     b_detailsOnlyForTrackedFlags = LD_DETAILS_ONLY_FOR_TRACKED_FLAGS options\<rparr>"

text \<open>
  The debug date, in milliseconds of Unix time, is compared with a reading of the monotonic
  clock. A reason that is dropped loses the string of its union.
\<close>

definition omit_details :: "LDFlagState \<Rightarrow> dbl \<Rightarrow> bool" where
  "omit_details flag now \<longleftrightarrow> \<not> fs_trackEvents flag \<and>
     \<not> (\<not> dbl_eq (fs_debugEventsUntilDate flag) (Fin 0) \<and> dbl_lt now (fs_debugEventsUntilDate flag))"

definition drop_reason :: "LDDetails \<Rightarrow> LDDetails" where
  "drop_reason d = d\<lparr>d_reason := LD_UNKNOWN,
     d_extra := (if d_reason d = LD_RULE_MATCH \<or> d_reason d = LD_PREREQUISITE_FAILED then NoExtra else d_extra d)\<rparr>"

definition LDi_allFlagsBuilderAdd ::
  "LDAllFlagsBuilder \<Rightarrow> LDFlagState \<Rightarrow> dbl option \<Rightarrow> (bool \<times> LDAllFlagsBuilder) exec" where
  "LDi_allFlagsBuilderAdd b flag reading =
     exec_bind (if b_detailsOnlyForTrackedFlags b
        then exec_bind (LDi_getMonotonicMilliseconds reading) (\<lambda>now.
          Inr (if omit_details flag now then flag\<lparr>fs_omitDetails := True\<rparr> else flag))
        else Inr flag) (\<lambda>flag.
     let flag = (if b_includeReasons b then flag else flag\<lparr>fs_details := drop_reason (fs_details flag)\<rparr>)
     in case LDi_allFlagsStateAdd (b_state b) flag of (ok, state) \<Rightarrow> Inr (ok, b\<lparr>b_state := state\<rparr>))"

definition LDi_allFlagsBuilderBuild :: "LDAllFlagsBuilder \<Rightarrow> AllFlagsState" where
  "LDi_allFlagsBuilderBuild builder = b_state builder"

section \<open>The call\<close>

text \<open>The evaluated state of one flag, and the number of clock readings used so far.\<close>

definition evaluated_state ::
  "'sv evalenv \<Rightarrow> nat \<Rightarrow> LDUser \<Rightarrow> LDJSON \<Rightarrow> LDFlagModel \<Rightarrow> string \<Rightarrow> nat \<Rightarrow> (LDFlagState \<times> nat) exec" where
  "evaluated_state env depth user flag model key ticks =
     exec_bind (LDi_evaluate depth env user flag (fresh_outputs ticks)) (\<lambda>(status, st).
       Inr (LDi_flagModelPopulate model
         ((LDi_newFlagState key)\<lparr>fs_details := es_details st, fs_value := es_value st\<rparr>), es_ticks st))"

fun all_states_loop ::
  "'sv calls \<Rightarrow> 'sv evalenv \<Rightarrow> LDUser \<Rightarrow> uint \<Rightarrow> nat \<Rightarrow> nat \<Rightarrow> LDAllFlagsBuilder \<Rightarrow> LDJSON list \<Rightarrow>
   (bool \<times> LDAllFlagsBuilder) exec" where
  "all_states_loop k env user options ticks i builder [] = Inr (True, builder)"
| "all_states_loop k env user options ticks i builder (flag # rest) =
     exec_bind (LDi_initFlagModel flag) (\<lambda>(model, availability).
       if LD_CLIENT_SIDE_ONLY options \<and> \<not> usingEnvironmentID availability
       then all_states_loop k env user options ticks i builder rest
       else exec_bind (deref (fm_key model)) (\<lambda>key.
         exec_bind (evaluated_state env (k_depth k) user flag model key ticks) (\<lambda>(state, ticks).
         exec_bind (LDi_allFlagsBuilderAdd builder state (k_monotonic k i)) (\<lambda>(ok, builder).
           if ok then all_states_loop k env user options ticks (Suc i) builder rest
           else Inr (False, builder)))))"

definition LDAllFlagsState ::
  "'sv calls \<Rightarrow> 's LDClient option \<Rightarrow> LDUser option \<Rightarrow> uint \<Rightarrow> (AllFlagsState \<times> 's LDClient option) exec" where
  "LDAllFlagsState k client user options = (case (client, user) of
       (Some client, Some user) \<Rightarrow>
         if c_offline (cl_config client) then Inr (LDi_newAllFlagsState False, Some client)
         else (case LDStoreInitialized (cl_store client) of (ready, store) \<Rightarrow>
           let client = client\<lparr>cl_store := store\<rparr> in
           if \<not> ready then Inr (LDi_newAllFlagsState False, Some client)
           else exec_bind (LDStoreAll (cl_store client) LD_FLAG) (\<lambda>(ok, rawFlags, store).
             let client = client\<lparr>cl_store := store\<rparr>; builder = LDi_newAllFlagsBuilder options in
             if \<not> ok then Inr (LDi_newAllFlagsState False, Some client)
             else (case rawFlags of None \<Rightarrow> Inr (LDi_allFlagsBuilderBuild builder, Some client)
               | Some raw \<Rightarrow>
                   exec_bind (all_states_loop k (eval_env k client) user options 0 0 builder
                       (iter_values (Some raw))) (\<lambda>(success, builder).
                     Inr (if success then LDi_allFlagsBuilderBuild builder else LDi_newAllFlagsState False,
                          Some client)))))
     | _ \<Rightarrow> Inr (LDi_newAllFlagsState False, client))"

section \<open>Public accessors\<close>

definition LDAllFlagsStateValid :: "AllFlagsState option \<Rightarrow> bool" where
  "LDAllFlagsStateValid flags = (case flags of None \<Rightarrow> False | Some f \<Rightarrow> LDi_allFlagsStateValid f)"

definition LDAllFlagsStateSerializeJSON :: "AllFlagsState option \<Rightarrow> string option exec" where
  "LDAllFlagsStateSerializeJSON flags = (case flags of None \<Rightarrow> Inr None | Some f \<Rightarrow> LDi_allFlagsStateJSON f)"

definition LDAllFlagsStateGetDetails :: "AllFlagsState option \<Rightarrow> string option \<Rightarrow> LDDetails option" where
  "LDAllFlagsStateGetDetails flags key = (case (flags, key) of
       (Some f, Some k) \<Rightarrow> LDi_allFlagsStateDetails f k | _ \<Rightarrow> None)"

definition LDAllFlagsStateGetValue :: "AllFlagsState option \<Rightarrow> string option \<Rightarrow> LDJSON option" where
  "LDAllFlagsStateGetValue flags key = (case (flags, key) of
       (Some f, Some k) \<Rightarrow> LDi_allFlagsStateValue f k | _ \<Rightarrow> None)"

definition LDAllFlagsStateToValuesMap :: "AllFlagsState option \<Rightarrow> LDJSON option" where
  "LDAllFlagsStateToValuesMap flags = (case flags of None \<Rightarrow> None | Some f \<Rightarrow> LDi_allFlagsStateValuesMap f)"

end
