(* ===== verification/FlagStates.thy ===== *)
theory FlagStates
  imports VariationFlow AllFlags
begin

text \<open>
  What the state of all flags holds: on the memory store, exactly one entry for each stored
  flag that the options admit, with the outcome of evaluating that flag.
\<close>

section \<open>Invariant of the state\<close>

definition value_or_null :: "LDJSON option \<Rightarrow> LDJSON" where
  "value_or_null v = (case v of None \<Rightarrow> JNull | Some j \<Rightarrow> j)"

text \<open>The values map has the same keys in the same order as the table.\<close>

definition states_inv :: "AllFlagsState \<Rightarrow> bool" where
  "states_inv s \<longleftrightarrow> af_valid s \<and> distinct (map fst (af_hash s)) \<and> (\<forall>(k, f)\<in>set (af_hash s). fs_key f = k) \<and>
     af_map s = Some (JObject (map (\<lambda>(k, f). (k, value_or_null (fs_value f))) (af_hash s)))"

lemma states_inv_new: "states_inv (LDi_newAllFlagsState True)"
  by (simp add: states_inv_def LDi_newAllFlagsState_def)

lemma allFlagsStateAdd_fresh:
  assumes "states_inv s" and "fs_key f \<notin> fst ` set (af_hash s)"
  shows "\<exists>s'. LDi_allFlagsStateAdd s f = (True, s') \<and> states_inv s' \<and> af_hash s' = af_hash s @ [(fs_key f, f)]"
proof -
  let ?kvs = "map (\<lambda>(k, f). (k, value_or_null (fs_value f))) (af_hash s)"
  have "fst ` set ?kvs = fst ` set (af_hash s)" by (force simp: image_iff)
  then have "fs_key f \<notin> fst ` set ?kvs" using assms(2) by simp
  then have d: "del_first (fs_key f) ?kvs = ?kvs" by (rule del_first_not_in)
  have m: "af_map s = Some (JObject ?kvs)" using assms(1) by (simp add: states_inv_def)
  show ?thesis
    using assms d unfolding LDi_allFlagsStateAdd_def m
    by (cases "fs_value f") (auto simp: states_inv_def hash_add_def value_or_null_def)
qed

lemma states_lookups:
  assumes "states_inv s"
  shows "LDi_allFlagsStateValue s k = (case map_of (af_hash s) k of None \<Rightarrow> None | Some f \<Rightarrow> fs_value f)"
    and "LDi_allFlagsStateDetails s k = map_option fs_details (map_of (af_hash s) k)"
    and "LDObjectLookup (LDi_allFlagsStateValuesMap s) k =
      map_option (\<lambda>f. value_or_null (fs_value f)) (map_of (af_hash s) k)"
proof -
  have h: "hash_find (af_hash s) = map_of (af_hash s)"
    using assms by (simp add: states_inv_def hash_find_map_of)
  then show "LDi_allFlagsStateValue s k = (case map_of (af_hash s) k of None \<Rightarrow> None | Some f \<Rightarrow> fs_value f)"
    "LDi_allFlagsStateDetails s k = map_option fs_details (map_of (af_hash s) k)"
    by (simp_all add: LDi_allFlagsStateValue_def LDi_allFlagsStateDetails_def)
  show "LDObjectLookup (LDi_allFlagsStateValuesMap s) k =
      map_option (\<lambda>f. value_or_null (fs_value f)) (map_of (af_hash s) k)"
    using assms by (simp add: states_inv_def LDi_allFlagsStateValuesMap_def map_of_map)
qed

section \<open>The loop over the flags\<close>

text \<open>Whether the options admit a flag.\<close>

definition admitted :: "uint \<Rightarrow> LDJSON \<Rightarrow> bool" where
  "admitted options flag \<longleftrightarrow> (\<exists>model availability. LDi_initFlagModel flag = Inr (model, availability) \<and>
     (LD_CLIENT_SIDE_ONLY options \<longrightarrow> usingEnvironmentID availability))"

definition shown_details :: "bool \<Rightarrow> LDDetails \<Rightarrow> LDDetails" where
  "shown_details reasons d = (if reasons then d else drop_reason d)"

text \<open>The state a flag must have: the outcome of one evaluation with the metadata of the model.\<close>

definition evaluated_to :: "'sv calls \<Rightarrow> 'sv evalenv \<Rightarrow> LDUser \<Rightarrow> bool \<Rightarrow> LDJSON \<Rightarrow> LDFlagState \<Rightarrow> bool" where
  "evaluated_to k env user reasons flag f \<longleftrightarrow> (\<exists>n status st model availability.
     LDi_evaluate (k_depth k) env user flag (fresh_outputs n) = Inr (status, st) \<and>
     LDi_initFlagModel flag = Inr (model, availability) \<and> fm_key model = Some (fs_key f) \<and>
     fs_value f = es_value st \<and> fs_version f = fm_version model \<and> fs_trackEvents f = fm_trackEvents model \<and>
     fs_debugEventsUntilDate f = fm_debugEventsUntilDate model \<and>
     fs_details f = shown_details reasons (es_details st))"

lemma evaluated_state_eq:
  assumes "evaluated_state env depth user flag model key n = Inr (f, m)"
  shows "\<exists>status st. LDi_evaluate depth env user flag (fresh_outputs n) = Inr (status, st) \<and>
     f = LDi_flagModelPopulate model ((LDi_newFlagState key)\<lparr>fs_details := es_details st, fs_value := es_value st\<rparr>)"
  using assms by (auto simp: evaluated_state_def elim!: exec_bindE)

lemma builderAdd_fresh:
  assumes "LDi_allFlagsBuilderAdd b f reading = Inr (ok, b')" and "states_inv (b_state b)"
    and "fs_key f \<notin> fst ` set (af_hash (b_state b))"
  shows "\<exists>f'. ok \<and> states_inv (b_state b') \<and> b_includeReasons b' = b_includeReasons b \<and>
     af_hash (b_state b') = af_hash (b_state b) @ [(fs_key f, f')] \<and> fs_key f' = fs_key f \<and>
     fs_value f' = fs_value f \<and> fs_version f' = fs_version f \<and> fs_trackEvents f' = fs_trackEvents f \<and>
     fs_debugEventsUntilDate f' = fs_debugEventsUntilDate f \<and>
     fs_details f' = (if b_includeReasons b then fs_details f else drop_reason (fs_details f))"
proof -
  obtain omit where o: "LDi_allFlagsStateAdd (b_state b) (if b_includeReasons b then f\<lparr>fs_omitDetails := omit\<rparr>
      else f\<lparr>fs_omitDetails := omit, fs_details := drop_reason (fs_details f)\<rparr>) = (ok, b_state b')"
    "b_includeReasons b' = b_includeReasons b"
  proof -
    have "f = f\<lparr>fs_omitDetails := fs_omitDetails f\<rparr>" by simp
    then show ?thesis using assms(1) that [of True] that [of "fs_omitDetails f"]
      by (auto simp: LDi_allFlagsBuilderAdd_def Let_def elim!: exec_bindE split: if_split_asm prod.split_asm)
  qed
  let ?f = "if b_includeReasons b then f\<lparr>fs_omitDetails := omit\<rparr>
      else f\<lparr>fs_omitDetails := omit, fs_details := drop_reason (fs_details f)\<rparr>"
  have "fs_key ?f = fs_key f" by simp
  then show ?thesis
    using o allFlagsStateAdd_fresh [OF assms(2), of ?f] assms(3) by (intro exI [of _ ?f]) auto
qed

lemma all_states_loop_result:
  assumes "all_states_loop k env user options n i b flags = Inr (ok, b')" and "states_inv (b_state b)"
    and "distinct (map item_key flags)" and "item_key ` set flags \<inter> fst ` set (af_hash (b_state b)) = {}"
    and "\<And>flag model av. flag \<in> set flags \<Longrightarrow> LDi_initFlagModel flag = Inr (model, av) \<Longrightarrow>
      fm_key model = Some (item_key flag)"
  shows "\<exists>fs. ok \<and> states_inv (b_state b') \<and> af_hash (b_state b') = af_hash (b_state b) @ map (\<lambda>f. (fs_key f, f)) fs \<and>
     list_all2 (\<lambda>flag f. evaluated_to k env user (b_includeReasons b) flag f \<and> fs_key f = item_key flag)
       (filter (admitted options) flags) fs"
  using assms
proof (induction flags arbitrary: n i b)
  case (Cons flag flags)
  obtain model av where model: "LDi_initFlagModel flag = Inr (model, av)"
    using Cons.prems(1) by (auto elim!: exec_bindE)
  have key: "fm_key model = Some (item_key flag)" using Cons.prems(5) model by simp
  show ?case
  proof (cases "LD_CLIENT_SIDE_ONLY options \<and> \<not> usingEnvironmentID av")
    case True
    then have "\<not> admitted options flag" using model by (auto simp: admitted_def)
    moreover have "all_states_loop k env user options n i b flags = Inr (ok, b')"
      using Cons.prems(1) model True by simp
    ultimately show ?thesis using Cons.IH [of n i b] Cons.prems(2-5) by simp
  next
    case False
    then have adm: "admitted options flag" using model by (auto simp: admitted_def)
    from Cons.prems(1) model False key obtain f m ok1 b1 where
      f: "evaluated_state env (k_depth k) user flag model (item_key flag) n = Inr (f, m)" and
      b1: "LDi_allFlagsBuilderAdd b f (k_monotonic k i) = Inr (ok1, b1)" and
      rest: "(if ok1 then all_states_loop k env user options m (Suc i) b1 flags else Inr (False, b1)) = Inr (ok, b')"
      by (auto elim!: exec_bindE)
    obtain status st where st: "LDi_evaluate (k_depth k) env user flag (fresh_outputs n) = Inr (status, st)"
      "f = LDi_flagModelPopulate model ((LDi_newFlagState (item_key flag))\<lparr>fs_details := es_details st, fs_value := es_value st\<rparr>)"
      using evaluated_state_eq [OF f] by blast
    have fk: "fs_key f = item_key flag" by (simp add: st(2) LDi_flagModelPopulate_def LDi_newFlagState_def)
    have "fs_key f \<notin> fst ` set (af_hash (b_state b))" using Cons.prems(4) fk by auto
    with builderAdd_fresh [OF b1 Cons.prems(2)] obtain f' where
      f': "ok1" "states_inv (b_state b1)" "b_includeReasons b1 = b_includeReasons b"
      "af_hash (b_state b1) = af_hash (b_state b) @ [(fs_key f, f')]" "fs_key f' = fs_key f"
      "fs_value f' = fs_value f" "fs_version f' = fs_version f" "fs_trackEvents f' = fs_trackEvents f"
      "fs_debugEventsUntilDate f' = fs_debugEventsUntilDate f"
      "fs_details f' = (if b_includeReasons b then fs_details f else drop_reason (fs_details f))"
      by blast
    have ev: "evaluated_to k env user (b_includeReasons b) flag f'"
      unfolding evaluated_to_def using st(1) model key f'
      by (intro exI conjI) (auto simp: shown_details_def st(2) LDi_flagModelPopulate_def LDi_newFlagState_def)
    have "all_states_loop k env user options m (Suc i) b1 flags = Inr (ok, b')" using rest f'(1) by simp
    moreover have "item_key ` set flags \<inter> fst ` set (af_hash (b_state b1)) = {}"
      using Cons.prems(3,4) f'(4) fk by auto
    ultimately obtain fs where "ok" "states_inv (b_state b')"
      "af_hash (b_state b') = af_hash (b_state b1) @ map (\<lambda>f. (fs_key f, f)) fs"
      "list_all2 (\<lambda>flag f. evaluated_to k env user (b_includeReasons b) flag f \<and> fs_key f = item_key flag)
         (filter (admitted options) flags) fs"
      using Cons.IH [of m "Suc i" b1] Cons.prems(3,5) f'(2,3) by auto
    then show ?thesis using ev adm f'(4,5) fk by (intro exI [of _ "f' # fs"]) simp
  qed
qed simp

section \<open>The call on the memory store\<close>

lemma read_model_key:
  "read_model m p (object_iter kvs) = Inr (m', p') \<Longrightarrow> distinct (map fst kvs) \<Longrightarrow>
   fm_key m' = key_or (fm_key m) (map_of kvs ''key'')"
proof (induction kvs arbitrary: m p)
  case (Cons x kvs)
  obtain k j where x: "x = (k, j)" by (cases x)
  show ?case
  proof (cases "k = ''key''")
    case True
    have "map_of kvs k = None" using Cons.prems(2) by (simp add: x map_of_eq_None_iff)
    with True show ?thesis
      using Cons.prems Cons.IH [of "m\<lparr>fm_key := LDGetText (Some j)\<rparr>" p]
      by (simp add: x object_iter_Cons key_or_def)
  next
    case False
    then have "\<exists>m1 p1. read_model m1 p1 (object_iter kvs) = Inr (m', p') \<and> fm_key m1 = fm_key m"
      using Cons.prems(1) unfolding x object_iter_Cons read_model.simps
      by (force elim!: exec_bindE split: if_split_asm)
    then show ?thesis using False Cons.IH Cons.prems(2) by (auto simp: x)
  qed
qed (simp add: object_iter_def key_or_def)

lemma model_key:
  assumes "LDi_initFlagModel flag = Inr (model, av)" and "obj_inv flag" and "valid_item flag"
  shows "fm_key model = Some (item_key flag)"
proof -
  obtain kvs where kvs: "flag = JObject kvs" "distinct (map fst kvs)"
    using assms(2) by (cases flag) (auto simp: obj_inv_def)
  have "LDGetIter (Some flag) = object_iter kvs" by (simp add: kvs(1) object_iter_def)
  with assms(1) have "fm_key model = key_or None (map_of kvs ''key'')"
    using read_model_key [OF _ kvs(2)]
    by (force simp: LDi_initFlagModel_def elim!: exec_bindE)
  moreover have "LDGetText (obj_lookup flag ''key'') = Some (item_key flag)"
    using valid_item_key [OF assms(3)] by (auto simp: LDi_getDataKey_def Let_def elim!: exec_bindE split: if_split_asm)
  ultimately show ?thesis by (cases "map_of kvs ''key''") (simp_all add: kvs(1) key_or_def)
qed

lemma map_of_list_all2:
  assumes "list_all2 (\<lambda>a b. P a b \<and> g b = h a) xs ys" and "distinct (map h xs)"
  shows "x \<in> set xs \<Longrightarrow> \<exists>y. map_of (map (\<lambda>y. (g y, y)) ys) (h x) = Some y \<and> P x y"
    and "k \<notin> h ` set xs \<Longrightarrow> map_of (map (\<lambda>y. (g y, y)) ys) k = None"
  using assms by (induction rule: list_all2_induct) (auto, metis image_eqI)

lemma memory_handle_all:
  "LDStoreAll (memory_handle ctx) kind = Inr (True, Some (JObject (filter (\<lambda>e. \<not> LDi_isDataDeleted (snd e))
     (ms_table ctx kind))), memory_handle ctx)"
  by (simp add: memory_handle_def LDStoreAll_def store_with_def LDStoreMemoryNew_def storeAll_def all_items_filter)

definition flag_list :: "MemoryStoreContext \<Rightarrow> LDJSON list" where
  "flag_list ctx = map snd (filter (\<lambda>e. \<not> LDi_isDataDeleted (snd e)) (ms_table ctx LD_FLAG))"

lemma flag_list_props:
  assumes "ms_inv ctx"
  shows "distinct (map item_key (flag_list ctx))"
    and "flag \<in> set (flag_list ctx) \<longleftrightarrow> visible (ms_view ctx LD_FLAG (item_key flag)) = Some flag"
    and "visible (ms_view ctx LD_FLAG k) = Some flag \<Longrightarrow> flag \<in> set (flag_list ctx) \<and> item_key flag = k \<and> valid_item flag"
proof -
  let ?t = "filter (\<lambda>e. \<not> LDi_isDataDeleted (snd e)) (ms_table ctx LD_FLAG)"
  have t: "table_inv (ms_table ctx LD_FLAG)" using assms unfolding ms_inv_table by blast
  have "distinct (map fst ?t)" using t by (simp add: table_inv_def distinct_map_filter)
  moreover have k: "\<forall>e\<in>set ?t. item_key (snd e) = fst e \<and> valid_item (snd e)" using t by (auto simp: table_inv_def)
  moreover have "map item_key (flag_list ctx) = map fst ?t"
    unfolding flag_list_def map_map using k by (intro map_cong refl) simp
  ultimately show "distinct (map item_key (flag_list ctx))" by simp
  note v = listing_visible [OF assms, of LD_FLAG]
  show 3: "flag \<in> set (flag_list ctx) \<and> item_key flag = k \<and> valid_item flag"
    if "visible (ms_view ctx LD_FLAG k) = Some flag" for k
  proof -
    have "(k, flag) \<in> set ?t" using that unfolding v [symmetric] by (rule map_of_SomeD)
    then show ?thesis using k by (force simp: flag_list_def)
  qed
  show "flag \<in> set (flag_list ctx) \<longleftrightarrow> visible (ms_view ctx LD_FLAG (item_key flag)) = Some flag"
    using k 3 \<open>distinct (map fst ?t)\<close> by (force simp: v [symmetric] flag_list_def)
qed

text \<open>What the accessors of a state say about one key.\<close>

definition state_shows ::
  "AllFlagsState \<Rightarrow> string \<Rightarrow> (LDJSON option \<times> LDDetails) option \<Rightarrow> bool" where
  "state_shows s key r \<longleftrightarrow>
     LDAllFlagsStateGetValue (Some s) (Some key) = (case r of None \<Rightarrow> None | Some (v, d) \<Rightarrow> v) \<and>
     LDAllFlagsStateGetDetails (Some s) (Some key) = map_option snd r \<and>
     LDObjectLookup (LDAllFlagsStateToValuesMap (Some s)) key = map_option (\<lambda>(v, d). value_or_null v) r"

lemma all_flags_state_contents:
  assumes "LDAllFlagsState k (Some client) (Some user) options = Inr (s, c')"
    and "\<not> c_offline (cl_config client)" and "cl_store client = memory_handle ctx" and "ms_inv ctx" and "ms_initialized ctx"
    and "list_all obj_inv (flag_list ctx)"
  shows "c' = Some client \<and> states_inv s \<and> (\<exists>fs. af_hash s = map (\<lambda>f. (fs_key f, f)) fs \<and>
     list_all2 (\<lambda>flag f. evaluated_to k (eval_env k client) user (LD_INCLUDE_REASON options) flag f \<and> fs_key f = item_key flag)
       (filter (admitted options) (flag_list ctx)) fs)"
proof -
  let ?b = "LDi_newAllFlagsBuilder options"
  have b: "states_inv (b_state ?b)" "af_hash (b_state ?b) = []" "b_includeReasons ?b = LD_INCLUDE_REASON options"
    using states_inv_new by (simp_all add: LDi_newAllFlagsBuilder_def LDi_newAllFlagsState_def)
  have "LDStoreInitialized (cl_store client) = (True, cl_store client)"
    using memory_handle_ops(2) [OF assms(4)] assms(3,5) by simp
  moreover have c: "client\<lparr>cl_store := memory_handle ctx\<rparr> = client" using assms(3) by simp
  ultimately obtain ok b' where loop:
    "all_states_loop k (eval_env k client) user options 0 0 ?b (flag_list ctx) = Inr (ok, b')"
    "c' = Some client" "s = (if ok then LDi_allFlagsBuilderBuild b' else LDi_newAllFlagsState False)"
    using memory_handle_all [of ctx LD_FLAG] assms(1-3)
    by (auto simp: LDAllFlagsState_def flag_list_def Let_def c elim!: exec_bindE)
  have "fm_key model = Some (item_key flag)"
    if "flag \<in> set (flag_list ctx)" "LDi_initFlagModel flag = Inr (model, av)" for flag model av
    using that model_key flag_list_props(2,3) [OF assms(4)] assms(6) by (metis list_all_iff)
  from all_states_loop_result [OF loop(1) b(1) flag_list_props(1) [OF assms(4)] _ this]
  show ?thesis using loop(2,3) b(2,3) by (auto simp: LDi_allFlagsBuilderBuild_def)
qed

lemma states_show:
  assumes "states_inv s"
  shows "state_shows s key (map_option (\<lambda>f. (fs_value f, fs_details f)) (map_of (af_hash s) key))"
  using states_lookups [OF assms, of key]
  by (simp add: state_shows_def LDAllFlagsStateGetValue_def LDAllFlagsStateGetDetails_def
      LDAllFlagsStateToValuesMap_def option.map_comp comp_def split: option.split)

lemma contents_show:
  assumes "states_inv s" and "af_hash s = map (\<lambda>f. (fs_key f, f)) fs" and "distinct (map item_key flags)"
    and "list_all2 (\<lambda>flag f. evaluated_to k env user reasons flag f \<and> fs_key f = item_key flag) flags fs"
  shows "key \<notin> item_key ` set flags \<Longrightarrow> state_shows s key None"
    and "flag \<in> set flags \<Longrightarrow>
      \<exists>n status st. LDi_evaluate (k_depth k) env user flag (fresh_outputs n) = Inr (status, st) \<and>
        state_shows s (item_key flag) (Some (es_value st, shown_details reasons (es_details st)))"
proof -
  note m = map_of_list_all2 [OF assms(4,3)] and sh = states_show [OF assms(1)]
  show "state_shows s key None" if "key \<notin> item_key ` set flags"
    using sh [of key] m(2) [OF that] assms(2) by simp
  assume flag: "flag \<in> set flags"
  obtain f where f: "map_of (af_hash s) (item_key flag) = Some f" "evaluated_to k env user reasons flag f"
    using m(1) [OF flag] assms(2) by auto
  then obtain n status st where "LDi_evaluate (k_depth k) env user flag (fresh_outputs n) = Inr (status, st)"
    "fs_value f = es_value st" "fs_details f = shown_details reasons (es_details st)"
    unfolding evaluated_to_def by blast
  then show "\<exists>n status st. LDi_evaluate (k_depth k) env user flag (fresh_outputs n) = Inr (status, st) \<and>
      state_shows s (item_key flag) (Some (es_value st, shown_details reasons (es_details st)))"
    using sh [of "item_key flag"] f(1) by (intro exI conjI) simp_all
qed

section \<open>The sample client\<close>

definition base_model :: "LDFlagModel \<times> LDClientSideAvailability" where
  "base_model = (\<lparr>fm_key = Some ''base'', fm_version = 3, fm_trackEvents = False, fm_debugEventsUntilDate = Fin 0\<rparr>,
     \<lparr>usingMobileKey = True, usingEnvironmentID = False, usingExplicitSchema = False\<rparr>)"

lemma base_model_read: "LDi_initFlagModel base_flag = Inr base_model"
  by (simp add: base_flag_def base_model_def LDi_initFlagModel_def initParser_def parserStoreAvailability_def)

lemma sample_states_returned:
  "\<exists>s. LDAllFlagsState sample_calls (Some (sample_client base_flag)) (Some sample_user) 0 =
     Inr (s, Some (sample_client base_flag))"
proof -
  let ?c = "sample_client base_flag"
  have c: "cl_store ?c = memory_handle (flag_context base_flag)" "\<not> c_offline (cl_config ?c)"
    "?c\<lparr>cl_store := memory_handle (flag_context base_flag)\<rparr> = ?c" "ms_initialized (flag_context base_flag)"
    by (simp_all add: sample_client_def sample_config_def LDConfigNew_def flag_context_def)
  have "filter (\<lambda>e. \<not> LDi_isDataDeleted (snd e)) (ms_table (flag_context base_flag) LD_FLAG) = [(''base'', base_flag)]"
    by (simp add: flag_context_def base_flag_item)
  then have all: "LDStoreAll (memory_handle (flag_context base_flag)) LD_FLAG =
      Inr (True, Some (JObject [(''base'', base_flag)]), memory_handle (flag_context base_flag))"
    by (simp only: memory_handle_all)
  have ready: "LDStoreInitialized (memory_handle (flag_context base_flag)) = (True, memory_handle (flag_context base_flag))"
    using memory_handle_ops(2) [OF base_flag_context(1)] c(4) by simp
  have options: "\<not> LD_CLIENT_SIDE_ONLY 0" "b_detailsOnlyForTrackedFlags (LDi_newAllFlagsBuilder 0) = False"
    "states_inv (b_state (LDi_newAllFlagsBuilder 0))" "af_hash (b_state (LDi_newAllFlagsBuilder 0)) = []"
    using states_inv_new by (simp_all add: LD_CLIENT_SIDE_ONLY_def LDi_newAllFlagsBuilder_def
        LD_DETAILS_ONLY_FOR_TRACKED_FLAGS_def LDi_newAllFlagsState_def)
  have "k_depth sample_calls = 1" by (simp add: sample_calls_def)
  then have "\<exists>f n. evaluated_state (eval_env sample_calls ?c) (k_depth sample_calls) sample_user base_flag
      (fst base_model) ''base'' 0 = Inr (f, n)"
    using base_evaluation by (simp add: evaluated_state_def)
  then obtain f n where f: "evaluated_state (eval_env sample_calls ?c) (k_depth sample_calls) sample_user base_flag
      (fst base_model) ''base'' 0 = Inr (f, n)" by blast
  obtain b where b: "LDi_allFlagsBuilderAdd (LDi_newAllFlagsBuilder 0) f (k_monotonic sample_calls 0) = Inr (True, b)"
  proof -
    have "\<exists>ok b. LDi_allFlagsBuilderAdd (LDi_newAllFlagsBuilder 0) f (k_monotonic sample_calls 0) = Inr (ok, b)"
      using options(2) by (simp add: LDi_allFlagsBuilderAdd_def Let_def split: prod.split)
    then obtain ok b where add: "LDi_allFlagsBuilderAdd (LDi_newAllFlagsBuilder 0) f (k_monotonic sample_calls 0) = Inr (ok, b)"
      by blast
    moreover have ok using builderAdd_fresh [OF add options(3)] options(4) by simp
    ultimately show ?thesis using that by simp
  qed
  have "all_states_loop sample_calls (eval_env sample_calls ?c) sample_user 0 0 0 (LDi_newAllFlagsBuilder 0) [base_flag] =
      Inr (True, b)"
    using f b options(1) by (simp add: base_model_read) (simp add: base_model_def)
  then show ?thesis by (simp add: LDAllFlagsState_def c ready all)
qed

text \<open>C7: a call for the state of all flags that returns, on an initialised memory store whose flags have
  no repeated members, leaves the client as it was and returns a valid state. For every stored
  flag that the options admit, the value, the details and the values map show one evaluation of
  that flag, without its reason unless the options ask for reasons; for every other key they show
  nothing.\<close>

theorem all_flags_state_evaluates_each:
  assumes "LDAllFlagsState k (Some client) (Some user) options = Inr (s, c')"
    and "\<not> c_offline (cl_config client)" and "cl_store client = memory_handle ctx" and "ms_inv ctx" and "ms_initialized ctx"
    and "list_all obj_inv (flag_list ctx)"
  shows "c' = Some client \<and> LDAllFlagsStateValid (Some s) \<and>
     (\<forall>key. case visible (ms_view ctx LD_FLAG key) of
        None \<Rightarrow> state_shows s key None
      | Some flag \<Rightarrow>
          if admitted options flag then
            (\<exists>n status st. LDi_evaluate (k_depth k) (eval_env k client) user flag (fresh_outputs n) = Inr (status, st) \<and>
               state_shows s key (Some (es_value st,
                 shown_details (LD_INCLUDE_REASON options) (es_details st))))
          else state_shows s key None)"
proof -
  let ?xs = "filter (admitted options) (flag_list ctx)"
  obtain fs where fs: "c' = Some client" "states_inv s" "af_hash s = map (\<lambda>f. (fs_key f, f)) fs"
    "list_all2 (\<lambda>flag f. evaluated_to k (eval_env k client) user (LD_INCLUDE_REASON options) flag f \<and>
       fs_key f = item_key flag) ?xs fs"
    using all_flags_state_contents [OF assms] by blast
  have d: "distinct (map item_key ?xs)" using flag_list_props(1) [OF assms(4)] by (rule distinct_map_filter)
  note sh = contents_show [OF fs(2,3) d fs(4)]
  have unlisted: "key \<notin> item_key ` set ?xs" if "\<And>flag. visible (ms_view ctx LD_FLAG key) = Some flag \<Longrightarrow> \<not> admitted options flag" for key
  proof
    assume "key \<in> item_key ` set ?xs"
    then obtain flag where flag: "flag \<in> set (flag_list ctx)" "admitted options flag" "key = item_key flag" by auto
    then show False using that [of flag] flag_list_props(2) [OF assms(4), of flag] by simp
  qed
  have "if admitted options flag then
      (\<exists>n status st. LDi_evaluate (k_depth k) (eval_env k client) user flag (fresh_outputs n) = Inr (status, st) \<and>
         state_shows s key (Some (es_value st,
           shown_details (LD_INCLUDE_REASON options) (es_details st))))
      else state_shows s key None" if v: "visible (ms_view ctx LD_FLAG key) = Some flag" for key flag
    using sh(1) [OF unlisted [of key]] sh(2) [of flag] flag_list_props(3) [OF assms(4) v] v by simp
  moreover have "state_shows s key None" if "visible (ms_view ctx LD_FLAG key) = None" for key
    using that sh(1) [OF unlisted [of key]] by simp
  ultimately show ?thesis
    using fs(1,2)
    by (simp add: LDAllFlagsStateValid_def LDi_allFlagsStateValid_def states_inv_def split: option.split)
qed

theorem all_flags_state_evaluates_each_witness:
  "\<exists>s n status st. LDAllFlagsState sample_calls (Some (sample_client base_flag)) (Some sample_user) 0 =
       Inr (s, Some (sample_client base_flag)) \<and> LDAllFlagsStateValid (Some s) \<and>
     LDi_evaluate 1 (eval_env sample_calls (sample_client base_flag)) sample_user base_flag (fresh_outputs n) =
       Inr (status, st) \<and> state_shows s ''base'' (Some (es_value st, drop_reason (es_details st)))"
proof -
  let ?c = "sample_client base_flag"
  obtain s where s: "LDAllFlagsState sample_calls (Some ?c) (Some sample_user) 0 = Inr (s, Some ?c)"
    using sample_states_returned by blast
  have c: "\<not> c_offline (cl_config ?c)" "cl_store ?c = memory_handle (flag_context base_flag)"
    "ms_initialized (flag_context base_flag)" "k_depth sample_calls = 1"
    by (simp_all add: sample_client_def sample_config_def LDConfigNew_def flag_context_def sample_calls_def)
  have w: "list_all obj_inv (flag_list (flag_context base_flag))"
    by (simp add: flag_list_def flag_context_def base_flag_item) (simp add: obj_inv_def base_flag_def)
  have a: "admitted 0 base_flag" "\<not> LD_INCLUDE_REASON 0"
    using base_model_read by (simp_all add: admitted_def base_model_def LD_CLIENT_SIDE_ONLY_def LD_INCLUDE_REASON_def)
  note r = all_flags_state_evaluates_each [OF s c(1,2) base_flag_context(1) c(3) w]
  have "case visible (ms_view (flag_context base_flag) LD_FLAG ''base'') of None \<Rightarrow> False
     | Some flag \<Rightarrow> (\<exists>n status st. LDi_evaluate 1 (eval_env sample_calls ?c) sample_user flag (fresh_outputs n) = Inr (status, st) \<and>
          state_shows s ''base'' (Some (es_value st, drop_reason (es_details st))))"
    using r [THEN conjunct2, THEN conjunct2, THEN spec, of "''base''"] a c(4)
    by (simp add: base_flag_context(2) shown_details_def)
  then show ?thesis using s r by (auto simp: base_flag_context(2))
qed

end
