(* ===== verification/JsonParse.thy ===== *)
theory JsonParse
  imports JsonPrint
begin

text \<open>
  The JSON parser of \<open>c-sdk-common/src/cJSON.c\<close>. A parse buffer is the list of the characters
  from its offset to its end; the text is a C string and its terminating NUL is the last of
  them. A parse function returns the value and the buffer behind it, or \<open>None\<close> where the C
  function returns \<open>false\<close>.
\<close>

unbundle bit_operations_syntax

section \<open>Numbers\<close>

text \<open>
  \<open>strtod\<close> of the C library on a text of digits, signs, exponent letters and points: the value,
  rounded to nearest, and the rest of the text; \<open>None\<close> when there is no number to convert.
\<close>

fun read_sign :: "string \<Rightarrow> bool \<times> string" where
  "read_sign [] = (False, [])"
| "read_sign (c # s) = (if c = CHR ''-'' then (True, s) else if c = CHR ''+'' then (False, s) else (False, c # s))"

fun read_fraction :: "string \<Rightarrow> string \<times> string" where
  "read_fraction [] = ([], [])"
| "read_fraction (c # s) =
     (if c = CHR ''.'' then (takeWhile is_digit s, dropWhile is_digit s) else ([], c # s))"

fun read_exponent :: "string \<Rightarrow> int \<times> string" where
  "read_exponent [] = (0, [])"
| "read_exponent (c # s) =
     (if c = CHR ''e'' \<or> c = CHR ''E'' then
        (case read_sign s of (negative, t) \<Rightarrow>
           if takeWhile is_digit t = [] then (0, c # s)
           else ((if negative then - 1 else 1) * int (read_nat (takeWhile is_digit t)), dropWhile is_digit t))
      else (0, c # s))"

definition strtod :: "string \<Rightarrow> (dbl \<times> string) option" where
  "strtod s = (case read_sign s of (negative, s1) \<Rightarrow>
     case read_fraction (dropWhile is_digit s1) of (f, s2) \<Rightarrow>
       let i = takeWhile is_digit s1 in
       if i = [] \<and> f = [] then None
       else (case read_exponent s2 of (e, s3) \<Rightarrow>
         Some (fl64 ((if negative then - 1 else 1) * of_nat (read_nat (i @ f)) * 10 powi (e - int (length f))), s3)))"

definition number_char :: "char \<Rightarrow> bool" where
  "number_char c \<longleftrightarrow> is_digit c \<or> c = CHR ''+'' \<or> c = CHR ''-'' \<or> c = CHR ''e'' \<or> c = CHR ''E'' \<or> c = CHR ''.''"

text \<open>At most 63 characters are copied for the conversion.\<close>

definition parse_number :: "string \<Rightarrow> (LDJSON \<times> string) option" where
  "parse_number input =
     (let number_c_string = takeWhile number_char (take 63 input) in
      case strtod number_c_string of None \<Rightarrow> None
      | Some (number, after_end) \<Rightarrow>
          Some (JNumber number, drop (length number_c_string - length after_end) input))"

section \<open>Strings\<close>

text \<open>A character that is no hexadecimal digit makes the whole number 0.\<close>

definition hex_value :: "char \<Rightarrow> nat option" where
  "hex_value c = (let n = (of_char c :: nat) in
     if 48 \<le> n \<and> n \<le> 57 then Some (n - 48)
     else if 65 \<le> n \<and> n \<le> 70 then Some (10 + n - 65)
     else if 97 \<le> n \<and> n \<le> 102 then Some (10 + n - 97) else None)"

fun hex4_loop :: "64 word \<Rightarrow> string \<Rightarrow> 64 word" where
  "hex4_loop h [] = h"
| "hex4_loop h (c # s) = (case hex_value c of None \<Rightarrow> 0
     | Some d \<Rightarrow> hex4_loop (push_bit 4 h + of_nat d) s)"

definition parse_hex4 :: "string \<Rightarrow> 64 word" where
  "parse_hex4 input = hex4_loop 0 (take 4 input)"

text \<open>The bytes of a code point: continuation bytes from the last one back, then the first byte.\<close>

definition byte_of :: "64 word \<Rightarrow> char" where
  "byte_of w = char_of (unat (w AND 0xFF))"

fun continuation :: "nat \<Rightarrow> 64 word \<Rightarrow> string \<Rightarrow> 64 word \<times> string" where
  "continuation 0 codepoint out = (codepoint, out)"
| "continuation (Suc n) codepoint out =
     continuation n (drop_bit 6 codepoint) (byte_of ((codepoint OR 0x80) AND 0xBF) # out)"

definition encode_utf8 :: "64 word \<Rightarrow> string option" where
  "encode_utf8 codepoint =
     (let encode = (\<lambda>n mark. case continuation n codepoint [] of
         (first, out) \<Rightarrow> Some (byte_of (first OR mark) # out))
      in if codepoint < 0x80 then Some [byte_of (codepoint AND 0x7F)]
         else if codepoint < 0x800 then encode 1 0xC0
         else if codepoint < 0x10000 then encode 2 0xE0
         else if codepoint \<le> 0x10FFFF then encode 3 0xF0
         else None)"

text \<open>The length of the sequence and the bytes it stands for; the input starts at the backslash.\<close>

definition utf16_literal_to_utf8 :: "string \<Rightarrow> (nat \<times> string) option" where
  "utf16_literal_to_utf8 input =
     (if length input < 6 then None
      else let first_code = parse_hex4 (drop 2 input) in
        if 0xDC00 \<le> first_code \<and> first_code \<le> 0xDFFF then None
        else if 0xD800 \<le> first_code \<and> first_code \<le> 0xDBFF then
          (let second_sequence = drop 6 input in
           if length second_sequence < 6 then None
           else if take 2 second_sequence \<noteq> [CHR 0x5C, CHR ''u''] then None
           else let second_code = parse_hex4 (drop 2 second_sequence) in
             if second_code < 0xDC00 \<or> 0xDFFF < second_code then None
             else map_option (\<lambda>out. (12, out)) (encode_utf8
               (0x10000 + (push_bit 10 (first_code AND 0x3FF) OR (second_code AND 0x3FF)))))
        else map_option (\<lambda>out. (6, out)) (encode_utf8 first_code))"

text \<open>The characters up to the closing quote, where a backslash hides the character behind it.\<close>

fun string_end :: "string \<Rightarrow> (string \<times> string) option" where
  "string_end [] = None"
| "string_end (c # s) =
     (if c = CHR 0x22 then Some ([], s)
      else if c = CHR 0x5C then (case s of [] \<Rightarrow> None
        | d # t \<Rightarrow> map_option (\<lambda>(body, r). (c # d # body, r)) (string_end t))
      else map_option (\<lambda>(body, r). (c # body, r)) (string_end s))"

definition escaped_char :: "char \<Rightarrow> char option" where
  "escaped_char c =
     (if c = CHR ''b'' then Some (CHR 0x08)
      else if c = CHR ''f'' then Some (CHR 0x0C)
      else if c = CHR ''n'' then Some (CHR 0x0A)
      else if c = CHR ''r'' then Some (CHR 0x0D)
      else if c = CHR ''t'' then Some (CHR 0x09)
      else if c = CHR 0x22 \<or> c = CHR 0x5C \<or> c = CHR ''/'' then Some c
      else None)"

function (sequential) unescape :: "string \<Rightarrow> string option" where
  "unescape [] = Some []"
| "unescape (c # s) =
     (if c \<noteq> CHR 0x5C then map_option ((#) c) (unescape s)
      else (case s of [] \<Rightarrow> None
        | d # t \<Rightarrow>
            if d = CHR ''u'' then
              (case utf16_literal_to_utf8 (c # s) of None \<Rightarrow> None
               | Some (n, out) \<Rightarrow> map_option ((@) out) (unescape (drop (n - 1) s)))
            else (case escaped_char d of None \<Rightarrow> None
              | Some e \<Rightarrow> map_option ((#) e) (unescape t))))"
  by pat_completeness auto
termination by (relation "measure length") auto

text \<open>The result is a C string: it ends at the first NUL, which an escape may have put there.\<close>

definition c_string :: "string \<Rightarrow> string" where
  "c_string s = takeWhile (\<lambda>c. c \<noteq> CHR 0x00) s"

definition parse_string :: "string \<Rightarrow> (string \<times> string) option" where
  "parse_string input = (case input of [] \<Rightarrow> None
     | c # s \<Rightarrow>
         if c \<noteq> CHR 0x22 then None
         else (case string_end s of None \<Rightarrow> None
           | Some (body, rest) \<Rightarrow> map_option (\<lambda>out. (c_string out, rest)) (unescape body)))"

lemma string_end_length: "string_end s = Some (body, r) \<Longrightarrow> length r < length s"
  by (induction s arbitrary: body rule: string_end.induct)
    (auto split: if_split_asm list.split_asm, fastforce+)

lemma parse_string_length: "parse_string s = Some (out, r) \<Longrightarrow> length r < length s"
  by (auto simp: parse_string_def split: list.split_asm if_split_asm option.split_asm dest!: string_end_length)

section \<open>Values\<close>

text \<open>
  Everything up to the space is whitespace, also the terminating NUL; the offset is set back to
  the last character when all of them were skipped.
\<close>

definition buffer_skip_whitespace :: "string \<Rightarrow> string" where
  "buffer_skip_whitespace input =
     (let r = dropWhile (\<lambda>c. (of_char c :: nat) \<le> 32) input
      in if r = [] \<and> input \<noteq> [] then [last input] else r)"

lemma skip_length: "length (buffer_skip_whitespace s) \<le> length s"
  using length_dropWhile_le [of "\<lambda>c. (of_char c :: nat) \<le> 32" s] by (cases s) (auto simp: buffer_skip_whitespace_def Let_def)

definition CJSON_NESTING_LIMIT :: nat where
  "CJSON_NESTING_LIMIT = 1000"

text \<open>
  The loops of \<open>parse_array\<close> and \<open>parse_object\<close> continue behind a comma. Every value takes at
  least one character, so the comparison of lengths in them always holds.
\<close>

function (sequential) parse_value :: "nat \<Rightarrow> string \<Rightarrow> (LDJSON \<times> string) option"
  and parse_array :: "nat \<Rightarrow> string \<Rightarrow> (LDJSON \<times> string) option"
  and array_loop :: "nat \<Rightarrow> string \<Rightarrow> (LDJSON list \<times> string) option"
  and parse_object :: "nat \<Rightarrow> string \<Rightarrow> (LDJSON \<times> string) option"
  and object_loop :: "nat \<Rightarrow> string \<Rightarrow> ((string \<times> LDJSON) list \<times> string) option"
where
  "parse_value depth input =
     (if take 4 input = ''null'' then Some (JNull, drop 4 input)
      else if take 5 input = ''false'' then Some (JBool False, drop 5 input)
      else if take 4 input = ''true'' then Some (JBool True, drop 4 input)
      else (case input of [] \<Rightarrow> None
        | c # _ \<Rightarrow>
            if c = CHR 0x22 then map_option (\<lambda>(s, r). (JText s, r)) (parse_string input)
            else if c = CHR ''-'' \<or> is_digit c then parse_number input
            else if c = CHR ''['' then parse_array depth input
            else if c = CHR ''{'' then parse_object depth input
            else None))"
| "parse_array depth input =
     (if depth \<ge> CJSON_NESTING_LIMIT then None
      else (case input of [] \<Rightarrow> None
        | c # s \<Rightarrow>
            if c \<noteq> CHR ''['' then None
            else (case buffer_skip_whitespace s of [] \<Rightarrow> None
              | d # t \<Rightarrow>
                  if d = CHR '']'' then Some (JArray [], t)
                  else map_option (\<lambda>(xs, r). (JArray xs, r)) (array_loop (Suc depth) (d # t)))))"
| "array_loop depth input =
     (case parse_value depth (buffer_skip_whitespace input) of None \<Rightarrow> None
      | Some (v, r) \<Rightarrow>
          (case buffer_skip_whitespace r of [] \<Rightarrow> None
           | c # t \<Rightarrow>
               if c = CHR '','' \<and> length t < length input then
                 map_option (\<lambda>(vs, r). (v # vs, r)) (array_loop depth t)
               else if c = CHR '']'' then Some ([v], t)
               else None))"
| "parse_object depth input =
     (if depth \<ge> CJSON_NESTING_LIMIT then None
      else (case input of [] \<Rightarrow> None
        | c # s \<Rightarrow>
            if c \<noteq> CHR ''{'' then None
            else (case buffer_skip_whitespace s of [] \<Rightarrow> None
              | d # t \<Rightarrow>
                  if d = CHR ''}'' then Some (JObject [], t)
                  else map_option (\<lambda>(kvs, r). (JObject kvs, r)) (object_loop (Suc depth) (d # t)))))"
| "object_loop depth input =
     (case parse_string (buffer_skip_whitespace input) of None \<Rightarrow> None
      | Some (k, r1) \<Rightarrow>
          (case buffer_skip_whitespace r1 of [] \<Rightarrow> None
           | c # s \<Rightarrow>
               if c \<noteq> CHR '':'' then None
               else (case parse_value depth (buffer_skip_whitespace s) of None \<Rightarrow> None
                 | Some (v, r) \<Rightarrow>
                     (case buffer_skip_whitespace r of [] \<Rightarrow> None
                      | c # t \<Rightarrow>
                          if c = CHR '','' \<and> length t < length input then
                            map_option (\<lambda>(kvs, r). ((k, v) # kvs, r)) (object_loop depth t)
                          else if c = CHR ''}'' then Some ([(k, v)], t)
                          else None))))"
  by pat_completeness auto
termination
proof (relation "measures [
    \<lambda>x. case x of Inl (Inl (_, s)) \<Rightarrow> length s | Inl (Inr (_, s)) \<Rightarrow> length s | Inr (Inl (_, s)) \<Rightarrow> length s
      | Inr (Inr (Inl (_, s))) \<Rightarrow> length s | Inr (Inr (Inr (_, s))) \<Rightarrow> length s,
    \<lambda>x. case x of Inl (Inl _) \<Rightarrow> 1 | Inr (Inl _) \<Rightarrow> 2 | Inr (Inr (Inr _)) \<Rightarrow> 2 | _ \<Rightarrow> 0]", goal_cases)
  case (4 depth input c s d t)
  then show ?case using skip_length [of s] by simp
next
  case (7 depth input c s d t)
  then show ?case using skip_length [of s] by simp
next
  case (8 depth input a k r1 c s)
  then show ?case
    using skip_length [of input] skip_length [of r1] skip_length [of s] parse_string_length [of "buffer_skip_whitespace input" k r1]
    by simp
next
  case (5 depth input)
  then show ?case using skip_length [of input] by (simp add: le_less)
qed simp_all

declare parse_value.simps [simp del] parse_array.simps [simp del] array_loop.simps [simp del]
  parse_object.simps [simp del] object_loop.simps [simp del]

lemmas parse_simps = parse_value.simps parse_array.simps array_loop.simps parse_object.simps object_loop.simps

section \<open>Texts\<close>

definition skip_utf8_bom :: "string \<Rightarrow> string" where
  "skip_utf8_bom content =
     (if length content > 4 \<and> take 3 content = [CHR 0xEF, CHR 0xBB, CHR 0xBF] then drop 3 content else content)"

text \<open>The item and the rest of the buffer. \<open>None\<close> in place of the text is \<open>NULL\<close>.\<close>

definition cJSON_ParseWithOpts :: "string option \<Rightarrow> bool \<Rightarrow> (LDJSON \<times> string) option" where
  "cJSON_ParseWithOpts text require_null_terminated = (case text of None \<Rightarrow> None
     | Some s \<Rightarrow>
         (case parse_value 0 (buffer_skip_whitespace (skip_utf8_bom (s @ [CHR 0x00]))) of None \<Rightarrow> None
          | Some (item, r) \<Rightarrow>
              if require_null_terminated then
                (case buffer_skip_whitespace r of [] \<Rightarrow> None
                 | c # t \<Rightarrow> if c \<noteq> CHR 0x00 then None else Some (item, c # t))
              else Some (item, r)))"

definition cJSON_Parse :: "string option \<Rightarrow> LDJSON option" where
  "cJSON_Parse text = map_option fst (cJSON_ParseWithOpts text False)"

definition LDJSONDeserialize :: "string option \<Rightarrow> LDJSON option" where
  "LDJSONDeserialize text = cJSON_Parse text"

section \<open>Every value takes characters\<close>

lemma strtod_length: "strtod s = Some (d, r) \<Longrightarrow> length r < length s"
proof -
  have sign: "length (snd (read_sign s)) \<le> length s" for s by (cases s) auto
  have frac: "length (snd (read_fraction s)) + length (fst (read_fraction s)) \<le> length s" for s
  proof (cases s)
    case (Cons c t)
    have "length (dropWhile is_digit t) + length (takeWhile is_digit t) = length t"
      by (metis add.commute length_append takeWhile_dropWhile_id)
    then show ?thesis by (simp add: Cons)
  qed simp
  have exp: "length (snd (read_exponent s)) \<le> length s" for s
  proof (cases s)
    case (Cons c t)
    show ?thesis
      using sign [of t] length_dropWhile_le [of is_digit "snd (read_sign t)"]
      by (auto simp: Cons split: prod.split)
  qed simp
  assume a: "strtod s = Some (d, r)"
  let ?s1 = "snd (read_sign s)" and ?i = "takeWhile is_digit (snd (read_sign s))"
  let ?fr = "read_fraction (dropWhile is_digit (snd (read_sign s)))"
  have "length ?s1 = length ?i + length (dropWhile is_digit ?s1)"
    by (metis length_append takeWhile_dropWhile_id)
  moreover have r: "r = snd (read_exponent (snd ?fr))" and "?i \<noteq> [] \<or> fst ?fr \<noteq> []"
    using a by (auto simp: strtod_def Let_def split: prod.split_asm if_split_asm)
  moreover have "0 < length ?i + length (fst ?fr)" using calculation(3) by auto
  ultimately show ?thesis
    using sign [of s] frac [of "dropWhile is_digit ?s1"] exp [of "snd ?fr"] unfolding r by linarith
qed

lemma parse_number_length: "parse_number s = Some (v, r) \<Longrightarrow> length r < length s"
proof -
  assume "parse_number s = Some (v, r)"
  then obtain d a where a: "strtod (takeWhile number_char (take 63 s)) = Some (d, a)"
    "r = drop (length (takeWhile number_char (take 63 s)) - length a) s"
    by (auto simp: parse_number_def Let_def split: option.split_asm)
  moreover have "length (takeWhile number_char (take 63 s)) \<le> length s"
    using length_takeWhile_le [of number_char "take 63 s"] by simp
  ultimately show ?thesis using strtod_length [OF a(1)] by simp
qed

lemma parse_array_SomeE:
  assumes "parse_array depth input = Some (v, r)"
  obtains s d t where "depth < CJSON_NESTING_LIMIT" "input = CHR ''['' # s" "buffer_skip_whitespace s = d # t"
    "d = CHR '']'' \<and> v = JArray [] \<and> r = t \<or>
     d \<noteq> CHR '']'' \<and> (\<exists>xs. v = JArray xs \<and> array_loop (Suc depth) (d # t) = Some (xs, r))"
  using assms unfolding parse_array.simps [of depth input] by (auto split: list.split_asm if_split_asm)

lemma parse_object_SomeE:
  assumes "parse_object depth input = Some (v, r)"
  obtains s d t where "depth < CJSON_NESTING_LIMIT" "input = CHR ''{'' # s" "buffer_skip_whitespace s = d # t"
    "d = CHR ''}'' \<and> v = JObject [] \<and> r = t \<or>
     d \<noteq> CHR ''}'' \<and> (\<exists>kvs. v = JObject kvs \<and> object_loop (Suc depth) (d # t) = Some (kvs, r))"
  using assms unfolding parse_object.simps [of depth input] by (auto split: list.split_asm if_split_asm)

lemma array_loop_SomeE:
  assumes "array_loop depth input = Some (vs, r)"
  obtains v r' c t where "parse_value depth (buffer_skip_whitespace input) = Some (v, r')" "buffer_skip_whitespace r' = c # t"
    "c = CHR '']'' \<and> vs = [v] \<and> r = t \<or>
     c = CHR '','' \<and> length t < length input \<and> (\<exists>ws. vs = v # ws \<and> array_loop depth t = Some (ws, r))"
  using assms unfolding array_loop.simps [of depth input] by (auto split: option.split_asm list.split_asm if_split_asm)

lemma object_loop_SomeE:
  assumes "object_loop depth input = Some (kvs, r)"
  obtains k r1 s v r' c t where "parse_string (buffer_skip_whitespace input) = Some (k, r1)"
    "buffer_skip_whitespace r1 = CHR '':'' # s" "parse_value depth (buffer_skip_whitespace s) = Some (v, r')"
    "buffer_skip_whitespace r' = c # t"
    "c = CHR ''}'' \<and> kvs = [(k, v)] \<and> r = t \<or>
     c = CHR '','' \<and> length t < length input \<and> (\<exists>ws. kvs = (k, v) # ws \<and> object_loop depth t = Some (ws, r))"
  using assms unfolding object_loop.simps [of depth input] by (auto split: option.split_asm list.split_asm if_split_asm)

lemma parse_value_SomeE:
  assumes "parse_value depth input = Some (v, r)"
  obtains (keyword) "length r < length input"
    | (str) x where "v = JText x" "parse_string input = Some (x, r)"
    | (num) "parse_number input = Some (v, r)"
    | (arr) "parse_array depth input = Some (v, r)"
    | (obj) "parse_object depth input = Some (v, r)"
  using assms unfolding parse_value.simps [of depth input] by (auto split: list.split_asm if_split_asm)

lemma skip_Cons_length: "buffer_skip_whitespace s = c # t \<Longrightarrow> length t < length s"
  using skip_length [of s] by simp

text \<open>The lengths of what the functions leave, by induction on the length of what they are given.\<close>

lemma parse_lengths:
  "(\<forall>d v r. parse_value d s = Some (v, r) \<longrightarrow> length r < length s) \<and>
   (\<forall>d vs r. array_loop d s = Some (vs, r) \<longrightarrow> length r < length s) \<and>
   (\<forall>d kvs r. object_loop d s = Some (kvs, r) \<longrightarrow> length r < length s)"
proof (induction s rule: length_induct)
  case (1 s)
  have IH: "array_loop d t = Some (vs, r) \<Longrightarrow> length r < length t" "object_loop d t = Some (kvs, r) \<Longrightarrow> length r < length t"
    if "length t < length s" for t d vs kvs r
    using 1 that by blast+
  have val: "length r < length t" if "parse_value d t = Some (v, r)" "length t \<le> length s" for d t v r
    using that(1)
  proof (cases rule: parse_value_SomeE)
    case keyword
    then show ?thesis .
  next
    case arr
    then show ?thesis
    proof (cases rule: parse_array_SomeE)
      case (1 u c' t')
      then have "length (c' # t') < length t" using skip_length [of u] by simp
      with 1(4) IH(1) [of "c' # t'"] that(2) show ?thesis by fastforce
    qed
  next
    case obj
    then show ?thesis
    proof (cases rule: parse_object_SomeE)
      case (1 u c' t')
      then have "length (c' # t') < length t" using skip_length [of u] by simp
      with 1(4) IH(2) [of "c' # t'"] that(2) show ?thesis by fastforce
    qed
  qed (auto dest: parse_string_length parse_number_length)
  have arrays: "length r < length s" if "array_loop d s = Some (vs, r)" for d vs r
    using that
  proof (cases rule: array_loop_SomeE)
    case (1 v r' c t)
    have "length t < length s"
      using val [OF 1(1) skip_length] skip_Cons_length [OF 1(2)] skip_length [of s] by linarith
    then show ?thesis using 1(3) IH(1) by force
  qed
  have objects: "length r < length s" if "object_loop d s = Some (kvs, r)" for d kvs r
    using that
  proof (cases rule: object_loop_SomeE)
    case (1 k r1 u v r' c t)
    have u: "length (buffer_skip_whitespace u) < length s"
      using parse_string_length [OF 1(1)] skip_Cons_length [OF 1(2)] skip_length [of s] skip_length [of u] by linarith
    then have "length t < length s" using val [OF 1(3)] skip_Cons_length [OF 1(4)] by linarith
    then show ?thesis using 1(5) IH(2) by force
  qed
  show ?case using val arrays objects by blast
qed

text \<open>The comparisons of lengths in the loops are never the reason to stop.\<close>

lemma array_loop_eq:
  "array_loop depth input = (case parse_value depth (buffer_skip_whitespace input) of None \<Rightarrow> None
     | Some (v, r) \<Rightarrow> (case buffer_skip_whitespace r of [] \<Rightarrow> None
        | c # t \<Rightarrow> if c = CHR '','' then map_option (\<lambda>(vs, r). (v # vs, r)) (array_loop depth t)
                  else if c = CHR '']'' then Some ([v], t) else None))"
proof -
  have "length t < length input"
    if "parse_value depth (buffer_skip_whitespace input) = Some (v, r)" "buffer_skip_whitespace r = c # t" for v r c t
    using parse_lengths [of "buffer_skip_whitespace input"] that skip_length [of input] skip_Cons_length [OF that(2)]
    by fastforce
  then show ?thesis unfolding array_loop.simps [of depth input] by (auto split: option.split list.split)
qed

lemma object_loop_eq:
  "object_loop depth input = (case parse_string (buffer_skip_whitespace input) of None \<Rightarrow> None
     | Some (k, r1) \<Rightarrow> (case buffer_skip_whitespace r1 of [] \<Rightarrow> None
        | c # s \<Rightarrow> if c \<noteq> CHR '':'' then None
            else (case parse_value depth (buffer_skip_whitespace s) of None \<Rightarrow> None
              | Some (v, r) \<Rightarrow> (case buffer_skip_whitespace r of [] \<Rightarrow> None
                 | c # t \<Rightarrow> if c = CHR '','' then map_option (\<lambda>(kvs, r). ((k, v) # kvs, r)) (object_loop depth t)
                           else if c = CHR ''}'' then Some ([(k, v)], t) else None))))"
proof -
  have "length t < length input"
    if "parse_string (buffer_skip_whitespace input) = Some (k, r1)" "buffer_skip_whitespace r1 = c # s"
      "parse_value depth (buffer_skip_whitespace s) = Some (v, r)" "buffer_skip_whitespace r = c' # t" for k r1 c s v r c' t
    using parse_string_length [OF that(1)] parse_lengths [of "buffer_skip_whitespace s"] that(3) skip_length [of input]
      skip_length [of s] skip_Cons_length [OF that(2)] skip_Cons_length [OF that(4)]
    by fastforce
  then show ?thesis unfolding object_loop.simps [of depth input] by (auto split: option.split list.split)
qed

end
