(* ===== verification/Sse.thy ===== *)
theory Sse
  imports JsonParse
begin

text \<open>
  The parser of server-sent events, \<open>c-sdk-common/src/sse.c\<close>. The dispatch callback takes the
  name and the body of an event and works on a context, which is passed along.
\<close>

section \<open>The parser\<close>

type_synonym 'c dispatch = "string \<Rightarrow> string \<Rightarrow> 'c \<Rightarrow> (bool \<times> 'c) exec"

record LDSSEParser =
  sse_buffer :: "string option"
  sse_bufferSize :: nat
  sse_eventName :: "string option"
  sse_eventBody :: "string option"

definition LDSSEParserInitialize :: LDSSEParser where
  "LDSSEParserInitialize = \<lparr>sse_buffer = None, sse_bufferSize = 0, sse_eventName = None, sse_eventBody = None\<rparr>"

text \<open>The size of the buffer is left as it is.\<close>

definition LDSSEParserDestroy :: "LDSSEParser \<Rightarrow> LDSSEParser" where
  "LDSSEParserDestroy parser = parser\<lparr>sse_buffer := None, sse_eventName := None, sse_eventBody := None\<rparr>"

definition skip_space :: "string \<Rightarrow> string" where
  "skip_space line = (case line of [] \<Rightarrow> [] | c # s \<Rightarrow> if c = CHR '' '' then s else line)"

definition LDi_processLine :: "'c dispatch \<Rightarrow> LDSSEParser \<Rightarrow> string \<Rightarrow> 'c \<Rightarrow> (bool \<times> LDSSEParser \<times> 'c) exec" where
  "LDi_processLine dispatch parser line ctx =
     (if take 1 line = '':'' then Inr (True, parser, ctx)
      else if line = [] then
        exec_bind (case (sse_eventName parser, sse_eventBody parser) of
            (Some name, Some body) \<Rightarrow> dispatch name body ctx
          | _ \<Rightarrow> Inr (True, ctx)) (\<lambda>(status, ctx).
          Inr (status, parser\<lparr>sse_eventName := None, sse_eventBody := None\<rparr>, ctx))
      else if take 5 line = ''data:'' then
        (let rest = skip_space (drop 5 line) in
         Inr (True, parser\<lparr>sse_eventBody := Some (case sse_eventBody parser of
             None \<Rightarrow> rest | Some body \<Rightarrow> body @ [CHR 0x0A] @ rest)\<rparr>, ctx))
      else if take 6 line = ''event:'' then
        Inr (True, parser\<lparr>sse_eventName := Some (skip_space (drop 6 line))\<rparr>, ctx)
      else Inr (True, parser, ctx))"

text \<open>
  The loop over complete lines: what was consumed, with its newlines overwritten by NUL, and
  the rest. A line is a C string. After a failed line the buffer keeps everything.
\<close>

function sse_loop ::
  "'c dispatch \<Rightarrow> string \<Rightarrow> string \<Rightarrow> LDSSEParser \<Rightarrow> 'c \<Rightarrow> (bool \<times> LDSSEParser \<times> 'c) exec" where
  "sse_loop dispatch consumed rest parser ctx =
     (if CHR 0x0A \<notin> set rest then
        Inr (True, parser\<lparr>sse_buffer := Some rest, sse_bufferSize := length rest\<rparr>, ctx)
      else
        (let line = takeWhile (\<lambda>c. c \<noteq> CHR 0x0A) rest;
             consumed = consumed @ line @ [CHR 0x00];
             rest = drop (Suc (length line)) rest
         in exec_bind (LDi_processLine dispatch parser (c_string line) ctx) (\<lambda>(ok, parser, ctx).
           if \<not> ok then
             Inr (False, parser\<lparr>sse_buffer := Some (consumed @ rest), sse_bufferSize := length (consumed @ rest)\<rparr>, ctx)
           else sse_loop dispatch consumed rest parser ctx)))"
  by pat_completeness auto
termination by (relation "measure (\<lambda>(_, _, rest, _, _). length rest)") (auto intro!: diff_less dest: length_pos_if_in_set)

declare sse_loop.simps [simp del]

text \<open>
  Without a buffer the first \<open>bufferSize\<close> characters come from fresh memory, and searching them
  for a newline reads what was never written.
\<close>

definition LDSSEParserProcess ::
  "'c dispatch \<Rightarrow> LDSSEParser \<Rightarrow> string \<Rightarrow> 'c \<Rightarrow> (bool \<times> LDSSEParser \<times> 'c) exec" where
  "LDSSEParserProcess dispatch parser bytes ctx =
     (if bytes = [] then Inr (True, parser, ctx)
      else (case sse_buffer parser of
          None \<Rightarrow> if sse_bufferSize parser > 0 then Inl Uninitialized else sse_loop dispatch [] bytes parser ctx
        | Some buffer \<Rightarrow> sse_loop dispatch [] (take (sse_bufferSize parser) buffer @ bytes) parser ctx))"

section \<open>Lines and chunks\<close>

text \<open>The buffer holds the beginning of a line, of the recorded size.\<close>

definition sse_inv :: "LDSSEParser \<Rightarrow> bool" where
  "sse_inv parser \<longleftrightarrow> (case sse_buffer parser of None \<Rightarrow> sse_bufferSize parser = 0
     | Some b \<Rightarrow> sse_bufferSize parser = length b \<and> CHR 0x0A \<notin> set b)"

definition pending :: "LDSSEParser \<Rightarrow> string" where
  "pending parser = (case sse_buffer parser of None \<Rightarrow> [] | Some b \<Rightarrow> b)"

lemma sse_inv_init: "sse_inv LDSSEParserInitialize" "pending LDSSEParserInitialize = []"
  by (simp_all add: sse_inv_def LDSSEParserInitialize_def pending_def)

lemma process_loop:
  "sse_inv p \<Longrightarrow> LDSSEParserProcess dispatch p bytes ctx =
     (if bytes = [] then Inr (True, p, ctx) else sse_loop dispatch [] (pending p @ bytes) p ctx)"
  by (auto simp: LDSSEParserProcess_def sse_inv_def pending_def split: option.split)

text \<open>The complete lines of a text and what follows the last of them.\<close>

function complete_lines :: "string \<Rightarrow> string list" where
  "complete_lines s = (if CHR 0x0A \<notin> set s then []
     else takeWhile (\<lambda>c. c \<noteq> CHR 0x0A) s # complete_lines (drop (Suc (length (takeWhile (\<lambda>c. c \<noteq> CHR 0x0A) s))) s))"
  by pat_completeness auto
termination by (relation "measure length") (auto intro!: diff_less dest: length_pos_if_in_set)

declare complete_lines.simps [simp del]

definition last_line :: "string \<Rightarrow> string" where
  "last_line s = rev (takeWhile (\<lambda>c. c \<noteq> CHR 0x0A) (rev s))"

lemma takeWhile_neq: "x \<notin> set l \<Longrightarrow> takeWhile (\<lambda>c. c \<noteq> x) (l @ x # s) = l" "x \<notin> set l \<Longrightarrow> takeWhile (\<lambda>c. c \<noteq> x) l = l"
  by (induction l) auto

lemma complete_lines_none: "CHR 0x0A \<notin> set s \<Longrightarrow> complete_lines s = []" "CHR 0x0A \<notin> set s \<Longrightarrow> last_line s = s"
  by (simp_all add: complete_lines.simps last_line_def takeWhile_neq)

lemma complete_lines_line:
  assumes "CHR 0x0A \<notin> set l"
  shows "complete_lines (l @ CHR 0x0A # s) = l # complete_lines s" and "last_line (l @ CHR 0x0A # s) = last_line s"
proof -
  have "takeWhile (\<lambda>c. c \<noteq> CHR 0x0A) (l @ CHR 0x0A # s) = l" using assms by (rule takeWhile_neq)
  then show "complete_lines (l @ CHR 0x0A # s) = l # complete_lines s" by (simp add: complete_lines.simps [of "l @ _"])
  show "last_line (l @ CHR 0x0A # s) = last_line s"
  proof (cases "CHR 0x0A \<in> set s")
    case True
    then have "takeWhile (\<lambda>c. c \<noteq> CHR 0x0A) (rev s @ CHR 0x0A # rev l) = takeWhile (\<lambda>c. c \<noteq> CHR 0x0A) (rev s)"
      by (intro takeWhile_append1 [of "CHR 0x0A"]) auto
    then show ?thesis by (simp add: last_line_def)
  next
    case False
    then show ?thesis by (simp add: last_line_def takeWhile_neq)
  qed
qed

lemma line_cases:
  obtains (none) "CHR 0x0A \<notin> set s" | (line) l r where "s = l @ CHR 0x0A # r" "CHR 0x0A \<notin> set l"
  using split_list_first [of "CHR 0x0A" s] by blast

lemma complete_lines_append:
  "complete_lines (a @ b) = complete_lines a @ complete_lines (last_line a @ b) \<and>
   last_line (a @ b) = last_line (last_line a @ b)"
proof (induction a rule: length_induct)
  case (1 a)
  show ?case
  proof (cases a rule: line_cases)
    case none
    then show ?thesis by (simp add: complete_lines_none)
  next
    case (line l r)
    then show ?thesis using 1 complete_lines_line [OF line(2), of r] complete_lines_line [OF line(2), of "r @ b"] by simp
  qed
qed

lemma last_line_newline: "CHR 0x0A \<notin> set (last_line s)"
  by (auto simp: last_line_def dest: set_takeWhileD)

text \<open>The lines one after the other, up to one that fails.\<close>

fun run_lines :: "'c dispatch \<Rightarrow> LDSSEParser \<Rightarrow> string list \<Rightarrow> 'c \<Rightarrow> (bool \<times> LDSSEParser \<times> 'c) exec" where
  "run_lines dispatch p [] ctx = Inr (True, p, ctx)"
| "run_lines dispatch p (line # lines) ctx =
     exec_bind (LDi_processLine dispatch p (c_string line) ctx) (\<lambda>(ok, p, ctx).
       if ok then run_lines dispatch p lines ctx else Inr (False, p, ctx))"

lemma run_lines_append:
  "run_lines dispatch p (xs @ ys) ctx = exec_bind (run_lines dispatch p xs ctx) (\<lambda>(ok, p, ctx).
     if ok then run_lines dispatch p ys ctx else Inr (False, p, ctx))"
proof (induction xs arbitrary: p ctx)
  case (Cons x xs)
  show ?case
    by (cases "LDi_processLine dispatch p (c_string x) ctx") (auto simp: Cons)
qed simp

text \<open>A line does not touch the buffer.\<close>

definition set_buffer :: "string option \<Rightarrow> nat \<Rightarrow> LDSSEParser \<Rightarrow> LDSSEParser" where
  "set_buffer b n p = p\<lparr>sse_buffer := b, sse_bufferSize := n\<rparr>"

lemma set_buffer_simps [simp]: "set_buffer b n (set_buffer b' n' p) = set_buffer b n p" "sse_buffer (set_buffer b n p) = b"
  "sse_bufferSize (set_buffer b n p) = n"
  by (simp_all add: set_buffer_def)

lemma processLine_buffer:
  "LDi_processLine dispatch (set_buffer b n p) line ctx =
     exec_bind (LDi_processLine dispatch p line ctx) (\<lambda>(ok, p, ctx). Inr (ok, set_buffer b n p, ctx))"
  by (cases p) (auto simp: LDi_processLine_def Let_def exec_bind_def set_buffer_def split: option.split sum.split prod.split)

lemma run_lines_buffer:
  "run_lines dispatch (set_buffer b n p) lines ctx =
     exec_bind (run_lines dispatch p lines ctx) (\<lambda>(ok, p, ctx). Inr (ok, set_buffer b n p, ctx))"
proof (induction lines arbitrary: p ctx)
  case (Cons line lines)
  show ?case
    by (cases "LDi_processLine dispatch p (c_string line) ctx") (auto simp: Cons processLine_buffer)
qed simp

text \<open>The buffer a run leaves: one way when all lines succeeded, another after a failure.\<close>

definition finish ::
  "(LDSSEParser \<Rightarrow> LDSSEParser) \<Rightarrow> (LDSSEParser \<Rightarrow> LDSSEParser) \<Rightarrow> (bool \<times> LDSSEParser \<times> 'c) exec \<Rightarrow> (bool \<times> LDSSEParser \<times> 'c) exec" where
  "finish f g m = exec_bind m (\<lambda>(ok, p, ctx). Inr (ok, (if ok then f else g) p, ctx))"

lemma finish_simps [simp]: "finish f g (Inl e) = Inl e" "finish f g (Inr (True, p, ctx)) = Inr (True, f p, ctx)"
  "finish f g (Inr (False, p, ctx)) = Inr (False, g p, ctx)"
  by (simp_all add: finish_def)

definition keep_line :: "string \<Rightarrow> LDSSEParser \<Rightarrow> LDSSEParser" where
  "keep_line l = set_buffer (Some l) (length l)"

lemma sse_loop_lines:
  "\<exists>g. sse_loop dispatch consumed rest p ctx =
     finish (keep_line (last_line rest)) g (run_lines dispatch p (complete_lines rest) ctx)"
proof (induction dispatch consumed rest p ctx rule: sse_loop.induct)
  case (1 dispatch consumed rest p ctx)
  show ?case
  proof (cases rest rule: line_cases)
    case none
    then show ?thesis
      by (simp add: sse_loop.simps [of dispatch consumed rest] complete_lines_none set_buffer_def keep_line_def)
  next
    case (line l r)
    have tw: "takeWhile (\<lambda>c. c \<noteq> CHR 0x0A) rest = l" unfolding line(1) using line(2) by (rule takeWhile_neq)
    have d: "drop (Suc (length l)) rest = r" and mem: "CHR 0x0A \<in> set rest" by (simp_all add: line(1))
    have cl: "complete_lines rest = l # complete_lines r" "last_line rest = last_line r"
      using complete_lines_line [OF line(2)] by (simp_all add: line(1))
    let ?all = "(consumed @ l @ [CHR 0x00]) @ r"
    have loop: "sse_loop dispatch consumed rest p ctx =
        exec_bind (LDi_processLine dispatch p (c_string l) ctx) (\<lambda>(ok, p, ctx).
           if \<not> ok then Inr (False, set_buffer (Some ?all) (length ?all) p, ctx)
           else sse_loop dispatch (consumed @ l @ [CHR 0x00]) r p ctx)"
      unfolding sse_loop.simps [of dispatch consumed rest] tw Let_def d set_buffer_def using mem by simp
    show ?thesis
    proof (cases "LDi_processLine dispatch p (c_string l) ctx")
      case (Inl e)
      then show ?thesis by (simp add: loop cl)
    next
      case (Inr res)
      obtain ok p' c' where res: "res = (ok, p', c')" by (cases res)
      show ?thesis
      proof (cases ok)
        case True
        then have "\<exists>g. sse_loop dispatch (consumed @ l @ [CHR 0x00]) r p' c' =
            finish (keep_line (last_line r)) g (run_lines dispatch p' (complete_lines r) c')"
          using 1 [unfolded tw d, OF _ refl refl refl, of res] Inr res mem by (simp add: d)
        then show ?thesis using True Inr res by (simp add: loop cl)
      next
        case False
        then show ?thesis
          using Inr res by (intro exI [of _ "set_buffer (Some ?all) (length ?all)"]) (simp add: loop cl)
      qed
    qed
  qed
qed

text \<open>Feeding the parser chunk by chunk, up to one that fails.\<close>

fun feed :: "'c dispatch \<Rightarrow> LDSSEParser \<Rightarrow> string list \<Rightarrow> 'c \<Rightarrow> (bool \<times> LDSSEParser \<times> 'c) exec" where
  "feed dispatch p [] ctx = Inr (True, p, ctx)"
| "feed dispatch p (chunk # chunks) ctx =
     exec_bind (LDSSEParserProcess dispatch p chunk ctx) (\<lambda>(ok, p, ctx).
       if ok then feed dispatch p chunks ctx else Inr (False, p, ctx))"

text \<open>The parser after a text: only the unfinished line stays in the buffer.\<close>

definition after_text :: "LDSSEParser \<Rightarrow> string \<Rightarrow> LDSSEParser \<Rightarrow> LDSSEParser" where
  "after_text p s = (if s = [] then (\<lambda>q. q) else keep_line (last_line (pending p @ s)))"

lemma process_lines:
  assumes "sse_inv p"
  shows "\<exists>g. LDSSEParserProcess dispatch p bytes ctx =
     finish (after_text p bytes) g (run_lines dispatch p (complete_lines (pending p @ bytes)) ctx)"
proof (cases "bytes = []")
  case True
  have "CHR 0x0A \<notin> set (pending p)" using assms by (auto simp: sse_inv_def pending_def split: option.split_asm)
  then show ?thesis using True assms by (simp add: process_loop complete_lines_none after_text_def)
next
  case False
  then show ?thesis
    using sse_loop_lines [of dispatch "[]" "pending p @ bytes" p ctx] assms by (simp add: process_loop after_text_def)
qed

lemma keep_line_inv: "sse_inv (keep_line (last_line s) p) \<and> pending (keep_line (last_line s) p) = last_line s"
  using last_line_newline by (simp add: keep_line_def sse_inv_def pending_def)

lemma run_lines_keep:
  "run_lines dispatch (keep_line l p) lines ctx = finish (keep_line l) (keep_line l) (run_lines dispatch p lines ctx)"
  unfolding keep_line_def run_lines_buffer finish_def by simp

lemma finish_finish: "finish f g (finish f' g' m) = finish (f \<circ> f') (g \<circ> g') m"
  by (cases m) (auto simp: finish_def)

lemma feed_lines:
  assumes "sse_inv p"
  shows "\<exists>g. feed dispatch p chunks ctx =
     finish (after_text p (concat chunks)) g (run_lines dispatch p (complete_lines (pending p @ concat chunks)) ctx)"
  using assms
proof (induction chunks arbitrary: p ctx)
  case Nil
  then show ?case using process_lines [OF Nil, of dispatch "[]" ctx] by (simp add: process_loop)
next
  case (Cons chunk chunks)
  obtain g where one: "LDSSEParserProcess dispatch p chunk ctx =
     finish (after_text p chunk) g (run_lines dispatch p (complete_lines (pending p @ chunk)) ctx)"
    using process_lines [OF Cons.prems, of dispatch chunk ctx] by blast
  show ?case
  proof (cases "chunk = []")
    case True
    then show ?thesis using Cons by (simp add: process_loop)
  next
    case False
    let ?mid = "last_line (pending p @ chunk)"
    have split: "complete_lines (pending p @ chunk @ concat chunks) =
        complete_lines (pending p @ chunk) @ complete_lines (?mid @ concat chunks)"
      "last_line (pending p @ chunk @ concat chunks) = last_line (?mid @ concat chunks)"
      using complete_lines_append [of "pending p @ chunk" "concat chunks"] by simp_all
    have after: "after_text p chunk = keep_line ?mid" using False by (simp add: after_text_def)
    have after2: "after_text (keep_line ?mid q) cs \<circ> keep_line ?mid = after_text p (chunk @ cs)" for q cs
      using False keep_line_inv [of "pending p @ chunk" q] complete_lines_append [of "pending p @ chunk" cs]
      by (auto simp: after_text_def fun_eq_iff) (simp_all add: keep_line_def)
    show ?thesis
    proof (cases "run_lines dispatch p (complete_lines (pending p @ chunk)) ctx")
      case (Inl e)
      then show ?thesis by (simp add: one split run_lines_append)
    next
      case (Inr r)
      obtain ok p' c' where r: "r = (ok, p', c')" by (cases r)
      show ?thesis
      proof (cases ok)
        case False
        then show ?thesis using Inr r by (auto simp: one split run_lines_append)
      next
        case True
        obtain g' where "feed dispatch (keep_line ?mid p') chunks c' =
            finish (after_text (keep_line ?mid p') (concat chunks)) g'
              (run_lines dispatch (keep_line ?mid p') (complete_lines (?mid @ concat chunks)) c')"
          using Cons.IH [of "keep_line ?mid p'" c'] keep_line_inv [of "pending p @ chunk" p'] by auto
        then show ?thesis
          using True Inr r by (auto simp: one split(1) run_lines_append after run_lines_keep finish_finish after2)
      qed
    qed
  qed
qed

text \<open>C29: the event stream may arrive in any chunks: feeding them one after the other succeeds or fails, and
  leaves the context of the callback, exactly as feeding their concatenation at once, and on
  success also the parser is the same. The parser must be in a state it reaches, holding at most
  the beginning of a line.\<close>

theorem chunks_do_not_matter:
  assumes "sse_inv p"
  shows "case feed dispatch p chunks ctx of
      Inl e \<Rightarrow> LDSSEParserProcess dispatch p (concat chunks) ctx = Inl e
    | Inr (ok, p', ctx') \<Rightarrow> \<exists>q. LDSSEParserProcess dispatch p (concat chunks) ctx = Inr (ok, q, ctx') \<and> (ok \<longrightarrow> q = p' \<and> sse_inv q)"
proof -
  let ?run = "run_lines dispatch p (complete_lines (pending p @ concat chunks)) ctx"
  obtain g g' where eq: "feed dispatch p chunks ctx = finish (after_text p (concat chunks)) g ?run"
    "LDSSEParserProcess dispatch p (concat chunks) ctx = finish (after_text p (concat chunks)) g' ?run"
    using feed_lines [OF assms, of dispatch chunks ctx] process_lines [OF assms, of dispatch "concat chunks" ctx] by blast
  have inv: "sse_inv (after_text p (concat chunks) q)" if "?run = Inr (ok, q, c)" for ok q c
  proof (cases "concat chunks = []")
    case True
    have "CHR 0x0A \<notin> set (pending p)" using assms by (auto simp: sse_inv_def pending_def split: option.split_asm)
    then have "q = p" using that unfolding True by (simp add: complete_lines_none)
    then show ?thesis using assms True unfolding after_text_def by simp
  next
    case False
    then show ?thesis unfolding after_text_def by (simp only: if_False keep_line_inv)
  qed
  show ?thesis unfolding eq using inv by (cases ?run) (auto simp: finish_def)
qed

section \<open>Events on the wire\<close>

definition body_lines :: "string \<Rightarrow> string list" where
  "body_lines body = complete_lines body @ [last_line body]"

definition event_line :: "string \<Rightarrow> string" where
  "event_line name = ''event: '' @ name"

definition data_line :: "string \<Rightarrow> string" where
  "data_line l = ''data: '' @ l"

definition sse_text :: "string \<times> string \<Rightarrow> string" where
  "sse_text ev = event_line (fst ev) @ [CHR 0x0A] @
     concat (map (\<lambda>l. data_line l @ [CHR 0x0A]) (body_lines (snd ev))) @ [CHR 0x0A]"

text \<open>An event that can be sent: its strings are C strings and the name is one line.\<close>

definition sendable :: "string \<times> string \<Rightarrow> bool" where
  "sendable ev \<longleftrightarrow> CHR 0x00 \<notin> set (fst ev) \<and> CHR 0x0A \<notin> set (fst ev) \<and> CHR 0x00 \<notin> set (snd ev)"

fun run_events :: "'c dispatch \<Rightarrow> (string \<times> string) list \<Rightarrow> 'c \<Rightarrow> (bool \<times> 'c) exec" where
  "run_events dispatch [] ctx = Inr (True, ctx)"
| "run_events dispatch (ev # evs) ctx =
     exec_bind (dispatch (fst ev) (snd ev) ctx) (\<lambda>(ok, ctx). if ok then run_events dispatch evs ctx else Inr (False, ctx))"

fun join_lines :: "string list \<Rightarrow> string" where
  "join_lines [] = []"
| "join_lines (l # ls) = (if ls = [] then l else l @ [CHR 0x0A] @ join_lines ls)"

lemma join_body_lines: "join_lines (body_lines body) = body"
proof (induction body rule: length_induct)
  case (1 body)
  show ?case
  proof (cases body rule: line_cases)
    case none
    then show ?thesis by (simp add: body_lines_def complete_lines_none)
  next
    case (line l r)
    have "join_lines (body_lines r) = r" using 1 line(1) by simp
    then show ?thesis using complete_lines_line [OF line(2), of r] by (simp add: body_lines_def line(1))
  qed
qed

lemma body_lines_chars: "l \<in> set (body_lines body) \<Longrightarrow> CHR 0x0A \<notin> set l \<and> set l \<subseteq> set body"
proof (induction body rule: length_induct)
  case (1 body)
  show ?case
  proof (cases body rule: line_cases)
    case none
    then show ?thesis using 1 by (simp add: body_lines_def complete_lines_none)
  next
    case (line k r)
    have "l = k \<or> l \<in> set (body_lines r)"
      using 1(2) complete_lines_line [OF line(2), of r] by (auto simp: body_lines_def line(1))
    moreover have "l \<in> set (body_lines r) \<Longrightarrow> CHR 0x0A \<notin> set l \<and> set l \<subseteq> set r"
      using 1(1) [rule_format, of r] line(1) by simp
    ultimately show ?thesis using line by auto
  qed
qed

lemma sse_text_lines:
  assumes "sendable ev"
  shows "complete_lines (sse_text ev @ s) =
     (event_line (fst ev)) # map data_line (body_lines (snd ev)) @ [] # complete_lines s"
proof -
  have data: "complete_lines (concat (map (\<lambda>l. data_line l @ [CHR 0x0A]) ls) @ s) = map data_line ls @ complete_lines s"
    if "\<And>l. l \<in> set ls \<Longrightarrow> CHR 0x0A \<notin> set l" for ls s
    using that
  proof (induction ls)
    case (Cons l ls)
    then have "CHR 0x0A \<notin> set (data_line l)" by (simp add: data_line_def)
    then show ?case using Cons complete_lines_line(1) [of "data_line l"] by simp
  qed simp
  have "CHR 0x0A \<notin> set (event_line (fst ev))" using assms by (simp add: sendable_def event_line_def)
  then show ?thesis
    using data [of "body_lines (snd ev)"] body_lines_chars complete_lines_line(1) [of "[]" s]
      complete_lines_line(1) [of "event_line (fst ev)"]
    by (simp add: sse_text_def)
qed

lemma c_string_id: "CHR 0x00 \<notin> set s \<Longrightarrow> c_string s = s"
  unfolding c_string_def by (rule takeWhile_neq)

lemma run_data_lines:
  assumes "\<And>l. l \<in> set ls \<Longrightarrow> CHR 0x00 \<notin> set l"
  shows "run_lines dispatch p (map data_line ls) ctx = Inr (True,
     (if ls = [] then p else p\<lparr>sse_eventBody := Some (case sse_eventBody p of None \<Rightarrow> join_lines ls
        | Some b \<Rightarrow> b @ [CHR 0x0A] @ join_lines ls)\<rparr>), ctx)"
  using assms
proof (induction ls arbitrary: p)
  case (Cons l ls)
  have "c_string (data_line l) = data_line l" using Cons.prems [of l] by (intro c_string_id) (simp add: data_line_def)
  then have one: "LDi_processLine dispatch p (c_string (data_line l)) ctx = Inr (True, p\<lparr>sse_eventBody :=
      Some (case sse_eventBody p of None \<Rightarrow> l | Some b \<Rightarrow> b @ [CHR 0x0A] @ l)\<rparr>, ctx)"
    by (simp add: LDi_processLine_def skip_space_def data_line_def)
  show ?case using Cons by (simp add: one split: option.split)
qed simp

definition idle :: "LDSSEParser \<Rightarrow> bool" where
  "idle p \<longleftrightarrow> sse_eventName p = None \<and> sse_eventBody p = None"

lemma run_event:
  assumes "sendable ev" and "idle p"
  shows "run_lines dispatch p (complete_lines (sse_text ev @ s)) ctx =
     exec_bind (dispatch (fst ev) (snd ev) ctx) (\<lambda>(ok, ctx).
       if ok then run_lines dispatch p (complete_lines s) ctx else Inr (False, p, ctx))"
proof -
  have name: "c_string (event_line (fst ev)) = event_line (fst ev)" using assms(1) by (intro c_string_id) (simp add: sendable_def event_line_def)
  have nul: "CHR 0x00 \<notin> set l" if "l \<in> set (body_lines (snd ev))" for l
    using body_lines_chars [OF that] assms(1) by (auto simp: sendable_def)
  have event: "LDi_processLine dispatch p (c_string (event_line (fst ev))) ctx = Inr (True, p\<lparr>sse_eventName := Some (fst ev)\<rparr>, ctx)"
    unfolding name by (simp add: LDi_processLine_def skip_space_def event_line_def)
  have ne: "body_lines (snd ev) \<noteq> []" by (simp add: body_lines_def)
  have p: "p\<lparr>sse_eventName := None, sse_eventBody := None\<rparr> = p" using assms(2) by (cases p) (simp add: idle_def)
  have blank: "LDi_processLine dispatch (p\<lparr>sse_eventName := Some (fst ev), sse_eventBody := Some (snd ev)\<rparr>) (c_string []) ctx =
      exec_bind (dispatch (fst ev) (snd ev) ctx) (\<lambda>(ok, ctx). Inr (ok, p, ctx))"
    using p by (simp add: LDi_processLine_def c_string_def)
  show ?thesis
    using assms(2) ne unfolding sse_text_lines [OF assms(1)] run_lines.simps(2) event exec_bind_Inr prod.case run_lines_append
    by (simp add: run_data_lines [OF nul] join_body_lines idle_def blank)
      (cases "dispatch (fst ev) (snd ev) ctx", auto)
qed

lemma stream_delivers_run:
  assumes "sse_inv p" and "idle p" and "pending p = []" and "list_all sendable evs"
    and "concat chunks = concat (map sse_text evs)"
  shows "exec_bind (feed dispatch p chunks ctx) (\<lambda>(ok, p, ctx). Inr (ok, ctx)) = run_events dispatch evs ctx"
proof -
  have "exec_bind (run_lines dispatch p (complete_lines (concat (map sse_text evs))) ctx) (\<lambda>(ok, p, ctx). Inr (ok, ctx)) =
      run_events dispatch evs ctx"
    using assms(4)
  proof (induction evs arbitrary: ctx)
    case Nil
    then show ?case by (simp add: complete_lines_none)
  next
    case (Cons ev evs)
    then have "sendable ev" by simp
    then show ?case
      using Cons run_event [OF _ assms(2), of ev dispatch "concat (map sse_text evs)" ctx]
      by (cases "dispatch (fst ev) (snd ev) ctx") auto
  qed
  moreover obtain g where "feed dispatch p chunks ctx =
      finish (after_text p (concat chunks)) g (run_lines dispatch p (complete_lines (concat chunks)) ctx)"
    using feed_lines [OF assms(1), of dispatch chunks ctx] assms(3) by auto
  ultimately show ?thesis
    unfolding assms(5) by (cases "run_lines dispatch p (complete_lines (concat (map sse_text evs))) ctx") (auto simp: finish_def)
qed

text \<open>A stream of events reaches the callback: when the chunks together are the wire form of a sequence of
  events, an idle parser hands exactly these events to the callback, in order, until one of them
  fails, however the stream is cut into chunks.\<close>

theorem stream_delivers_events:
  assumes "sse_inv p" and "idle p" and "pending p = []" and "list_all sendable evs"
    and "concat chunks = concat (map sse_text evs)"
  shows "exec_bind (feed dispatch p chunks ctx) (\<lambda>(ok, p, ctx). Inr (ok, ctx)) = run_events dispatch evs ctx"
  by (rule stream_delivers_run [OF assms])

text \<open>A destroyed parser is not reset: when the stream ends in the middle of a line, the size of that line
  stays recorded although its buffer is gone, and the first bytes of the next stream make the
  parser search memory that was never written.\<close>

theorem destroyed_parser_keeps_size:
  assumes "sse_inv p" and "pending p \<noteq> []" and "bytes \<noteq> []"
  shows "LDSSEParserProcess dispatch (LDSSEParserDestroy p) bytes ctx = Inl Uninitialized"
  using assms by (auto simp: LDSSEParserProcess_def LDSSEParserDestroy_def sse_inv_def pending_def split: option.split_asm)

section \<open>A sample stream\<close>

definition record_event :: "(string \<times> string) list dispatch" where
  "record_event name body ctx = Inr (True, ctx @ [(name, body)])"

definition sample_events :: "(string \<times> string) list" where
  "sample_events = [(''put'', [CHR ''a'', CHR 0x0A, CHR ''b'']), (''delete'', [])]"

definition sample_chunks :: "string list" where
  "sample_chunks = (let s = concat (map sse_text sample_events) in [take 3 s, [], drop 3 s])"

lemma sample_chunks_concat: "concat sample_chunks = concat (map sse_text sample_events)"
  by (simp add: sample_chunks_def Let_def)

lemma sample_sendable: "list_all sendable sample_events"
  by (simp add: sample_events_def sendable_def)

lemma init_idle: "idle LDSSEParserInitialize"
  by (simp add: idle_def LDSSEParserInitialize_def)

theorem stream_delivers_events_witness:
  "exec_bind (feed record_event LDSSEParserInitialize sample_chunks []) (\<lambda>(ok, p, ctx). Inr (ok, ctx)) = Inr (True, sample_events)"
  using stream_delivers_events [OF sse_inv_init(1) init_idle sse_inv_init(2) sample_sendable sample_chunks_concat, of record_event "[]"]
  by (simp add: sample_events_def record_event_def)

theorem chunks_do_not_matter_witness:
  "\<exists>q. LDSSEParserProcess record_event LDSSEParserInitialize (concat sample_chunks) [] = Inr (True, q, sample_events) \<and> sse_inv q"
proof -
  obtain p where "feed record_event LDSSEParserInitialize sample_chunks [] = Inr (True, p, sample_events)"
  proof (cases "feed record_event LDSSEParserInitialize sample_chunks []")
    case (Inr r)
    obtain ok p c where "r = (ok, p, c)" by (cases r)
    then show ?thesis
      using that Inr stream_delivers_run [OF sse_inv_init(1) init_idle sse_inv_init(2) sample_sendable sample_chunks_concat, of record_event "[]"]
      by (simp add: sample_events_def record_event_def)
  qed (use stream_delivers_run [OF sse_inv_init(1) init_idle sse_inv_init(2) sample_sendable sample_chunks_concat, of record_event "[]"]
      in \<open>simp add: sample_events_def record_event_def\<close>)
  then show ?thesis
    using chunks_do_not_matter [OF sse_inv_init(1), of record_event sample_chunks "[]"] by simp
qed

theorem destroyed_parser_keeps_size_witness:
  "LDSSEParserProcess record_event (LDSSEParserDestroy (set_buffer (Some ''da'') 2 LDSSEParserInitialize)) ''ta: x'' [] = Inl Uninitialized"
  by (rule destroyed_parser_keeps_size) (simp_all add: sse_inv_def pending_def)

end
