(* ===== verification/Utility.thy ===== *)
theory Utility
  imports TimeUtils
begin

text \<open>
  Helpers of \<open>c-sdk-common/src/utility.c\<close>: scaling, random digits, and the conversions between
  \<open>double\<close> and \<open>unsigned long\<close>, which has 64 bits. Random numbers are arguments: the value
  \<open>rand_r\<close> returns, or \<open>None\<close> where \<open>LDi_random\<close> reports a failure.
\<close>

section \<open>Double arithmetic\<close>

text \<open>Multiplication and division, with the IEEE rules for infinities; a zero divisor is positive.\<close>

fun dbl_mul :: "dbl \<Rightarrow> dbl \<Rightarrow> dbl" where
  "dbl_mul (Fin a) (Fin b) = fl64 (a * b)"
| "dbl_mul NaN _ = NaN"
| "dbl_mul _ NaN = NaN"
| "dbl_mul (Fin a) b = (if a = 0 then NaN else if 0 < a then b else dbl_neg b)"
| "dbl_mul a (Fin b) = (if b = 0 then NaN else if 0 < b then a else dbl_neg a)"
| "dbl_mul a b = (if a = b then PInf else NInf)"

fun dbl_div :: "dbl \<Rightarrow> dbl \<Rightarrow> dbl" where
  "dbl_div NaN _ = NaN"
| "dbl_div _ NaN = NaN"
| "dbl_div (Fin a) (Fin b) = (if b = 0 then if a = 0 then NaN else if 0 < a then PInf else NInf else fl64 (a / b))"
| "dbl_div (Fin a) _ = Fin 0"
| "dbl_div a (Fin b) = (if 0 \<le> b then a else dbl_neg a)"
| "dbl_div _ _ = NaN"

text \<open>\<open>pow(2, n)\<close>\<close>

definition pow2 :: "uint \<Rightarrow> dbl" where
  "pow2 n = (if unat n < 1024 then Fin (2 ^ unat n) else PInf)"

type_synonym ulong = "64 word"

definition dbl_to_ulong :: "dbl \<Rightarrow> ulong exec" where
  "dbl_to_ulong d = exec_bind (dbl_to_int_range 0 (2 ^ 64) d) (\<lambda>i. Inr (word_of_int i))"

definition ulong_to_dbl :: "ulong \<Rightarrow> dbl" where
  "ulong_to_dbl w = fl64 (of_nat (unat w))"

section \<open>Scaling and random digits\<close>

definition LDi_normalize :: "dbl \<Rightarrow> dbl \<Rightarrow> dbl \<Rightarrow> dbl \<Rightarrow> dbl \<Rightarrow> dbl" where
  "LDi_normalize n nmin nmax omin omax =
     dbl_add (dbl_div (dbl_mul (dbl_sub n nmin) (dbl_sub omax omin)) (dbl_sub nmax nmin)) omin"

text \<open>\<open>RAND_MAX\<close> of the GNU C library.\<close>

definition LD_RAND_MAX :: uint where
  "LD_RAND_MAX = 2147483647"

definition hex_alphabet :: string where
  "hex_alphabet = ''0123456789ABCDEF''"

fun LDi_randomHex :: "uint option list \<Rightarrow> nat \<Rightarrow> string option" where
  "LDi_randomHex rngs 0 = Some []"
| "LDi_randomHex [] (Suc n) = None"
| "LDi_randomHex (rng # rngs) (Suc n) = (case rng of None \<Rightarrow> None
     | Some r \<Rightarrow> map_option ((#) (hex_alphabet ! unat (r mod 16))) (LDi_randomHex rngs n))"

definition LD_UUID_SIZE :: nat where
  "LD_UUID_SIZE = 36"

definition LDi_UUIDv4 :: "uint option list \<Rightarrow> string option" where
  "LDi_UUIDv4 rngs = map_option (\<lambda>buffer.
     buffer[8 := CHR ''-'', 13 := CHR ''-'', 18 := CHR ''-'', 23 := CHR ''-'']) (LDi_randomHex rngs LD_UUID_SIZE)"

section \<open>Bounds\<close>

lemma fl64_nat: "n < 2 ^ 53 \<Longrightarrow> fl64 (of_nat n) = Fin (of_nat n)"
  using fl64_int [of "int n"] by simp

lemma fl64_between:
  assumes "a \<le> x" and "x \<le> b" and "fl64 a = Fin a" and "fl64 b = Fin b"
  obtains y where "fl64 x = Fin y" and "a \<le> y" and "y \<le> b"
proof -
  have "dbl_le (Fin a) (fl64 x)" "dbl_le (fl64 x) (Fin b)"
    using fl_mono [of a x 53 "- 1074" 1024] fl_mono [of x b 53 "- 1074" 1024] assms by (simp_all add: fl64_def)
  then obtain y where y: "fl64 x = Fin y" by (cases "fl64 x") (auto simp: dbl_le_def)
  then show ?thesis using that \<open>dbl_le (Fin a) (fl64 x)\<close> \<open>dbl_le (fl64 x) (Fin b)\<close> by simp
qed

text \<open>A random number scaled to an interval from zero stays in it.\<close>

lemma normalize_bounds:
  assumes "unat rng \<le> unat LD_RAND_MAX" and "h \<le> 2 ^ 20"
  obtains y where "LDi_normalize (uint_to_dbl rng) (Fin 0) (uint_to_dbl LD_RAND_MAX) (Fin 0) (Fin (of_nat h)) = Fin y"
    and "0 \<le> y" and "y \<le> of_nat h"
proof -
  define r where "r = unat rng"
  define M :: nat where "M = 2147483647"
  have M: "uint_to_dbl LD_RAND_MAX = Fin (of_nat M)" by (simp add: uint_to_dbl_def LD_RAND_MAX_def M_def)
  have rM: "r \<le> M" using assms(1) by (simp add: r_def M_def LD_RAND_MAX_def)
  have "r * h \<le> 2147483647 * 2 ^ 20" using rM assms(2) unfolding M_def by (rule mult_le_mono)
  then have "r * h < 2 ^ 53" by simp
  then have prod: "fl64 (of_nat r * of_nat h) = Fin (of_nat r * of_nat h)" using fl64_nat [of "r * h"] by simp
  have ex: "fl64 (of_nat r) = Fin (of_nat r)" "fl64 (of_nat h) = Fin (of_nat h)" "fl64 (of_nat M) = Fin (of_nat M)"
    using fl64_nat [of r] fl64_nat [of h] fl64_nat [of M] rM assms(2) by (simp_all add: M_def)
  have "(of_nat r * of_nat h / of_nat M :: rat) \<le> of_nat h"
  proof -
    have "(of_nat r * of_nat h :: rat) \<le> of_nat M * of_nat h" using rM by (intro mult_right_mono) simp_all
    then show ?thesis by (simp add: M_def field_simps)
  qed
  then obtain y where y: "fl64 (of_nat r * of_nat h / of_nat M) = Fin y" "0 \<le> y" "y \<le> of_nat h"
    using fl64_between [of 0 "of_nat r * of_nat h / of_nat M" "of_nat h"] ex(2) by auto
  then obtain z where z: "fl64 y = Fin z" "0 \<le> z" "z \<le> of_nat h"
    using fl64_between [of 0 y "of_nat h"] ex(2) by auto
  have "M \<noteq> 0" by (simp add: M_def)
  then have "LDi_normalize (Fin (of_nat r)) (Fin 0) (Fin (of_nat M)) (Fin 0) (Fin (of_nat h)) = Fin z"
    using ex prod y(1) z(1) by (simp add: LDi_normalize_def dbl_sub_def)
  then show ?thesis using that [of z] z(2,3) M by (simp add: uint_to_dbl_def r_def)
qed

text \<open>The dashes split 36 random digits; no digit is fixed to the version.\<close>

lemma randomHex_digits:
  "LDi_randomHex rngs n = Some s \<Longrightarrow> length s = n \<and> set s \<subseteq> set hex_alphabet"
proof (induction rngs n arbitrary: s rule: LDi_randomHex.induct)
  case (3 rng rngs n)
  have "unat (r mod 16) < 16" for r :: uint by (simp add: unat_mod)
  then have "unat (r mod 16) < length hex_alphabet" for r :: uint by (simp add: hex_alphabet_def numeral_eq_Suc)
  then have "hex_alphabet ! unat (r mod 16) \<in> set hex_alphabet" for r :: uint by (rule nth_mem)
  with 3 show ?case by (fastforce split: option.split_asm)
qed simp_all

end
