(* ===== verification/Network.thy ===== *)
theory Network
  imports Config
begin

text \<open>
  Requests of the background thread, \<open>src/network.c\<close>. libcurl is not modelled: whether each of its
  calls succeeds is an argument. Header lists are allocated, so appending to one succeeds; a
  list that was freed while the pointer to it is kept is \<open>Dangling\<close>.
\<close>

datatype curl_call =
  CURL_EASY_INIT | CURLOPT_URL | CURLOPT_HTTPHEADER | CURLOPT_CONNECTTIMEOUT_MS | CURLOPT_WRITEDATA
| CURLOPT_WRITEFUNCTION | CURLOPT_HEADERFUNCTION | CURLOPT_HEADERDATA | CURLOPT_POSTFIELDS

type_synonym curl_outcome = "curl_call \<Rightarrow> bool"

record request =
  rq_url :: string
  rq_headers :: "string list"
  rq_timeout :: uint
  rq_body :: "string option"

datatype header_list = NoHeaders | HeaderList "string list" | Dangling

text \<open>\<open>curl_slist_free_all\<close> on a pointer that the caller keeps.\<close>

fun free_headers :: "header_list \<Rightarrow> header_list exec" where
  "free_headers NoHeaders = Inr NoHeaders"
| "free_headers (HeaderList hs) = Inr Dangling"
| "free_headers Dangling = Inl DoubleFree"

text \<open>\<open>snprintf\<close> into a buffer of a given size.\<close>

definition snprintf :: "nat \<Rightarrow> string \<Rightarrow> string" where
  "snprintf n s = take (n - 1) s"

definition LD_SDK_VERSION :: string where
  "LD_SDK_VERSION = ''2.9.3''"

definition LD_USER_AGENT :: string where
  "LD_USER_AGENT = ''User-Agent: CServerClient/'' @ LD_SDK_VERSION"

definition wrapper_headers :: "LDConfig \<Rightarrow> string list" where
  "wrapper_headers config = (case c_wrapperName config of None \<Rightarrow> []
     | Some name \<Rightarrow> (case c_wrapperVersion config of
           Some version \<Rightarrow> [snprintf 256 (''X-LaunchDarkly-Wrapper: '' @ name @ ''/'' @ version)]
         | None \<Rightarrow> [snprintf 256 (''X-LaunchDarkly-Wrapper: '' @ name)]))"

definition LDi_prepareShared :: "curl_outcome \<Rightarrow> LDConfig \<Rightarrow> string \<Rightarrow> request option" where
  "LDi_prepareShared curl config url =
     (if \<not> curl CURL_EASY_INIT then None
      else if \<not> curl CURLOPT_URL then None
      else (let headers = [snprintf 256 (''Authorization: '' @ c_key config)] @ wrapper_headers config @ [LD_USER_AGENT] in
        if \<not> curl CURLOPT_HTTPHEADER then None
        else if \<not> curl CURLOPT_CONNECTTIMEOUT_MS then None
        else Some \<lparr>rq_url = url, rq_headers = headers, rq_timeout = c_timeout config, rq_body = None\<rparr>))"

text \<open>The request that the thread's components share.\<close>

definition shared_request :: "LDConfig \<Rightarrow> string \<Rightarrow> request" where
  "shared_request config url = \<lparr>rq_url = url,
     rq_headers = [snprintf 256 (''Authorization: '' @ c_key config)] @ wrapper_headers config @ [LD_USER_AGENT],
     rq_timeout = c_timeout config, rq_body = None\<rparr>"

lemma prepareShared_eq:
  "LDi_prepareShared curl config url =
     (if curl CURL_EASY_INIT \<and> curl CURLOPT_URL \<and> curl CURLOPT_HTTPHEADER \<and> curl CURLOPT_CONNECTTIMEOUT_MS
      then Some (shared_request config url) else None)"
  by (simp add: LDi_prepareShared_def shared_request_def Let_def)

lemma prepareShared_all: "(\<And>c. curl c) \<Longrightarrow> \<exists>rq. LDi_prepareShared curl config url = Some rq"
  by (simp add: LDi_prepareShared_def Let_def)

end
