(* ===== verification/Streaming.thy ===== *)
theory Streaming
  imports Sse Utility Store Network
begin

text \<open>
  The streaming data source, \<open>src/streaming.c\<close>: the events it applies to the store, and the
  connection with its timeouts and backoff. The libcurl handles are not part of the state; the
  outcomes of the calls to libcurl are arguments, as are the clock readings and the random
  number.
\<close>

section \<open>Events\<close>

datatype ParsePathStatus = PARSE_PATH_SUCCESS FeatureKind string | PARSE_PATH_FAILURE | PARSE_PATH_IGNORE

definition LDi_parsePath :: "string \<Rightarrow> ParsePathStatus" where
  "LDi_parsePath path =
     (if take (length ''/segments/'') path = ''/segments/'' then
        PARSE_PATH_SUCCESS LD_SEGMENT (drop (length ''/segments/'') path)
      else if take (length ''/flags/'') path = ''/flags/'' then
        PARSE_PATH_SUCCESS LD_FLAG (drop (length ''/flags/'') path)
      else PARSE_PATH_IGNORE)"

definition getEventPath :: "LDJSON \<Rightarrow> ParsePathStatus exec" where
  "getEventPath event =
     exec_bind (ld_assert (LDJSONGetType (Some event) = LDObject)) (\<lambda>_.
       case LDObjectLookup (Some event) ''path'' of None \<Rightarrow> Inr PARSE_PATH_FAILURE
       | Some tmp \<Rightarrow>
           if LDJSONGetType (Some tmp) \<noteq> LDText then Inr PARSE_PATH_FAILURE
           else exec_bind (deref (LDGetText (Some tmp))) (\<lambda>path. Inr (LDi_parsePath path)))"

definition validatePutBody :: "LDJSON \<Rightarrow> bool" where
  "validatePutBody put \<longleftrightarrow> LDJSONGetType (Some put) = LDObject \<and>
     (case LDObjectLookup (Some put) ''flags'' of None \<Rightarrow> False
      | Some tmp \<Rightarrow> LDJSONGetType (Some tmp) = LDObject) \<and>
     (case LDObjectLookup (Some put) ''segments'' of None \<Rightarrow> False
      | Some tmp \<Rightarrow> LDJSONGetType (Some tmp) = LDObject)"

text \<open>The common end of \<open>onPut\<close> and of the polling source: \<open>flags\<close> are stored as \<open>features\<close>.\<close>

definition init_from_body :: "'s LDStore \<Rightarrow> LDJSON \<Rightarrow> (bool \<times> 's LDStore) exec" where
  "init_from_body store data = (case LDObjectDetachKey (Some data) ''flags'' of
       (None, _) \<Rightarrow> Inl AssertFailed
     | (Some features, data) \<Rightarrow> (case LDObjectSetKey data ''features'' (Some features) of
           (True, Some data) \<Rightarrow> LDStoreInit store data
         | _ \<Rightarrow> Inr (False, store)))"

definition onPut :: "'s LDStore \<Rightarrow> string \<Rightarrow> (bool \<times> 's LDStore) exec" where
  "onPut store eventBuffer = (case LDJSONDeserialize (Some eventBuffer) of None \<Rightarrow> Inr (False, store)
     | Some put \<Rightarrow>
         if LDJSONGetType (Some put) \<noteq> LDObject then Inr (False, store)
         else (case LDObjectDetachKey (Some put) ''data'' of
             (None, _) \<Rightarrow> Inr (False, store)
           | (Some data, _) \<Rightarrow>
               if \<not> validatePutBody data then Inr (False, store) else init_from_body store data))"

definition onPatch :: "'s LDStore \<Rightarrow> string \<Rightarrow> (bool \<times> 's LDStore) exec" where
  "onPatch store eventBuffer = (case LDJSONDeserialize (Some eventBuffer) of None \<Rightarrow> Inr (False, store)
     | Some data \<Rightarrow>
         if LDJSONGetType (Some data) \<noteq> LDObject then Inr (False, store)
         else exec_bind (getEventPath data) (\<lambda>parseStatus.
           case parseStatus of
             PARSE_PATH_FAILURE \<Rightarrow> Inr (False, store)
           | PARSE_PATH_IGNORE \<Rightarrow> Inr (True, store)
           | PARSE_PATH_SUCCESS kind keyUnused \<Rightarrow>
               (case LDObjectDetachKey (Some data) ''data'' of
                  (None, _) \<Rightarrow> Inr (False, store)
                | (Some tmp, _) \<Rightarrow> LDStoreUpsert store kind tmp)))"

text \<open>The version of a deletion is converted to an unsigned integer for \<open>LDStoreRemove\<close>.\<close>

definition onDelete :: "'s LDStore \<Rightarrow> string \<Rightarrow> (bool \<times> 's LDStore) exec" where
  "onDelete store eventBuffer = (case LDJSONDeserialize (Some eventBuffer) of None \<Rightarrow> Inr (False, store)
     | Some data \<Rightarrow>
         if LDJSONGetType (Some data) \<noteq> LDObject then Inr (False, store)
         else exec_bind (getEventPath data) (\<lambda>parseStatus.
           case parseStatus of
             PARSE_PATH_FAILURE \<Rightarrow> Inr (False, store)
           | PARSE_PATH_IGNORE \<Rightarrow> Inr (True, store)
           | PARSE_PATH_SUCCESS kind key \<Rightarrow>
               (case LDObjectLookup (Some data) ''version'' of None \<Rightarrow> Inr (False, store)
                | Some tmp \<Rightarrow>
                    if LDJSONGetType (Some tmp) \<noteq> LDNumber then Inr (False, store)
                    else exec_bind (dbl_to_uint (LDGetNumber (Some tmp))) (\<lambda>version.
                      LDStoreRemove store kind key version))))"

definition LDi_onEvent :: "'s LDStore dispatch" where
  "LDi_onEvent eventName eventBuffer store =
     (if eventName = ''put'' then onPut store eventBuffer
      else if eventName = ''patch'' then onPatch store eventBuffer
      else if eventName = ''delete'' then onDelete store eventBuffer
      else Inr (True, store))"

section \<open>The connection\<close>

text \<open>\<open>st_current\<close> is the handle of the running request, \<open>networkInterface->current\<close>.\<close>

record StreamContext =
  st_current :: "request option"
  st_parser :: LDSSEParser
  st_headers :: header_list
  st_active :: bool
  st_attempts :: uint
  st_waitUntil :: ulong
  st_startedOn :: ulong
  st_permanentFailure :: bool
  st_lastReadTimeMilliseconds :: dbl

definition LDi_constructStreamContext :: StreamContext where
  "LDi_constructStreamContext = \<lparr>st_current = None, st_parser = LDSSEParserInitialize, st_headers = NoHeaders, st_active = False,
     st_attempts = 0, st_waitUntil = 0, st_startedOn = 0, st_permanentFailure = False,
     st_lastReadTimeMilliseconds = Fin 0\<rparr>"

text \<open>The number of bytes accepted: all of them, or none after a failure.\<close>

definition LDi_streamWriteCallback ::
  "string \<Rightarrow> StreamContext \<Rightarrow> 's LDStore \<Rightarrow> dbl option \<Rightarrow> (nat \<times> StreamContext \<times> 's LDStore) exec" where
  "LDi_streamWriteCallback contents context store reading =
     exec_bind (LDi_getMonotonicMilliseconds reading) (\<lambda>now.
     exec_bind (LDSSEParserProcess LDi_onEvent (st_parser context) contents store) (\<lambda>(ok, parser, store).
       Inr (if ok then length contents else 0,
            context\<lparr>st_lastReadTimeMilliseconds := now, st_parser := parser\<rparr>, store)))"

definition resetMemory :: "StreamContext \<Rightarrow> StreamContext exec" where
  "resetMemory context = exec_bind (free_headers (st_headers context)) (\<lambda>_.
     Inr (context\<lparr>st_parser := LDSSEParserDestroy (st_parser context), st_headers := NoHeaders\<rparr>))"

text \<open>The clock is read only after a success.\<close>

definition stream_done :: "StreamContext \<Rightarrow> int \<Rightarrow> dbl option \<Rightarrow> StreamContext exec" where
  "stream_done context responseCode reading =
     (let context = context\<lparr>st_active := False\<rparr>;
          context = (if responseCode \<noteq> 200 \<and> 400 \<le> responseCode \<and> responseCode < 500 \<and>
              responseCode \<noteq> 400 \<and> responseCode \<noteq> 408 \<and> responseCode \<noteq> 429
            then context\<lparr>st_permanentFailure := True\<rparr> else context)
      in exec_bind (if responseCode = 200 then
          exec_bind (LDi_getMonotonicMilliseconds reading) (\<lambda>now.
            if dbl_le (ulong_to_dbl (st_startedOn context + 60000)) now
            then Inr (context\<lparr>st_attempts := 0\<rparr>)
            else Inr (context\<lparr>st_attempts := st_attempts context + 1\<rparr>))
        else Inr (context\<lparr>st_attempts := st_attempts context + 1\<rparr>)) resetMemory)"

text \<open>The time to wait before the next attempt, from the second one on.\<close>

definition backoff_time :: "uint \<Rightarrow> uint \<Rightarrow> dbl" where
  "backoff_time attempts rng =
     (let backoff = dbl_div_const (dbl_mul_const (pow2 attempts) 1000) 2;
          backoff = (if dbl_lt (Fin 30000) backoff then Fin 30000 else backoff);
          backoff = dbl_div_const backoff 2
      in dbl_add backoff (LDi_normalize (uint_to_dbl rng) (Fin 0) (uint_to_dbl LD_RAND_MAX) (Fin 0) backoff))"

text \<open>Whether to connect now, and the context.\<close>

definition check_backoff :: "StreamContext \<Rightarrow> dbl option \<Rightarrow> uint option \<Rightarrow> (bool \<times> StreamContext) exec" where
  "check_backoff context reading random =
     (if st_attempts context = 0 then Inr (True, context)
      else exec_bind (LDi_getMonotonicMilliseconds reading) (\<lambda>now.
        if st_waitUntil context \<noteq> 0 then
          (if dbl_le (ulong_to_dbl (st_waitUntil context)) now
           then exec_bind (dbl_to_ulong now) (\<lambda>started.
             Inr (True, context\<lparr>st_waitUntil := 0, st_startedOn := started\<rparr>))
           else Inr (False, context))
        else if st_attempts context = 1 then
          exec_bind (dbl_to_ulong (dbl_add now (Fin 1000))) (\<lambda>w. Inr (False, context\<lparr>st_waitUntil := w\<rparr>))
        else (case random of None \<Rightarrow> Inr (False, context)
          | Some rng \<Rightarrow>
              exec_bind (dbl_to_ulong (dbl_add now (backoff_time (st_attempts context) rng))) (\<lambda>w.
                Inr (False, context\<lparr>st_waitUntil := w\<rparr>)))))"

text \<open>The error exit of \<open>poll\<close>, which frees the headers and keeps the pointer.\<close>

definition stream_error :: "StreamContext \<Rightarrow> (request option \<times> StreamContext) exec" where
  "stream_error context = exec_bind (free_headers (st_headers context)) (\<lambda>hs.
     Inr (None, context\<lparr>st_headers := hs\<rparr>))"

text \<open>
  What one call of \<open>poll\<close> meets: whether the configuration has a data source of its own, whether
  the handle of a dead stream can be removed, the outcomes of the calls that prepare a request,
  the clock readings before and after that, and the random number.
\<close>

record stream_env =
  se_dataSource :: bool
  se_removed :: bool
  se_curl :: curl_outcome
  se_now :: "dbl option"
  se_connected :: "dbl option"
  se_random :: "uint option"

definition stream_connect :: "LDConfig \<Rightarrow> stream_env \<Rightarrow> StreamContext \<Rightarrow> (request option \<times> StreamContext) exec" where
  "stream_connect config env context =
     (let url = snprintf 4096 (c_streamURI config @ ''/all'')
      in case LDi_prepareShared (se_curl env) config url of None \<Rightarrow> stream_error context
         | Some curl \<Rightarrow>
             (let headers = rq_headers curl @ [''Accept: text/event-stream''];
                  context = context\<lparr>st_headers := HeaderList headers\<rparr>
              in if \<not> se_curl env CURLOPT_WRITEDATA then stream_error context
                 else if \<not> se_curl env CURLOPT_WRITEFUNCTION then stream_error context
                 else exec_bind (LDi_getMonotonicMilliseconds (se_connected env)) (\<lambda>now.
                   Inr (Some (curl\<lparr>rq_headers := headers\<rparr>),
                        context\<lparr>st_active := True, st_lastReadTimeMilliseconds := now\<rparr>))))"

definition stream_poll :: "LDConfig \<Rightarrow> stream_env \<Rightarrow> StreamContext \<Rightarrow> (request option \<times> StreamContext) exec" where
  "stream_poll config env context =
     (if se_dataSource env \<or> \<not> c_stream config \<or> st_permanentFailure context then Inr (None, context)
      else if st_active context then
        exec_bind (LDi_getMonotonicMilliseconds (se_now env)) (\<lambda>now.
          if dbl_le (dbl_add (st_lastReadTimeMilliseconds context) (Fin 300000)) now then
            exec_bind (ld_assert (st_current context \<noteq> None)) (\<lambda>_.
              if \<not> se_removed env then Inr (None, context)
              else exec_bind (stream_done (context\<lparr>st_current := None\<rparr>) 0 (se_now env)) (\<lambda>context. Inr (None, context)))
          else Inr (None, context))
      else exec_bind (check_backoff context (se_now env) (se_random env)) (\<lambda>(go, context).
        if \<not> go then Inr (None, context) else stream_connect config env context))"

end
