(* ===== verification/Decimal.thy ===== *)
theory Decimal
  imports JsonParse
begin

text \<open>
  Numbers survive printing: \<open>strtod\<close> reads the text of \<open>%1.pg\<close> as the decimal it shows, and with
  17 digits that decimal rounds to the double it came from.
\<close>

section \<open>Digits\<close>

lemma read_nat_append: "read_nat (a @ b) = read_nat a * 10 ^ length b + read_nat b"
proof (induction b rule: rev_induct)
  case (snoc x xs)
  then show ?case by (simp add: read_nat_def algebra_simps flip: append_assoc)
qed (simp add: read_nat_def)

lemma read_nat_zeros: "read_nat (replicate k CHR ''0'') = 0"
  by (induction k) (simp_all add: read_nat_def)

lemma strip_zeros_split: "\<exists>k. s = strip_zeros s @ replicate k CHR ''0''"
proof -
  let ?z = "\<lambda>c. c = CHR ''0''"
  have "rev s = takeWhile ?z (rev s) @ dropWhile ?z (rev s)" by simp
  moreover have "takeWhile ?z (rev s) = replicate (length (takeWhile ?z (rev s))) CHR ''0''"
    by (rule replicate_eqI) (auto dest: set_takeWhileD)
  ultimately have "rev (rev s) = strip_zeros s @ rev (replicate (length (takeWhile ?z (rev s))) CHR ''0'')"
    unfolding strip_zeros_def by (metis rev_append)
  then show ?thesis by auto
qed

lemma strip_zeros_value:
  obtains k where "length s = length (strip_zeros s) + k" and "read_nat (a @ s) = read_nat (a @ strip_zeros s) * 10 ^ k"
    and "set (strip_zeros s) \<subseteq> set s"
proof -
  obtain k where k: "s = strip_zeros s @ replicate k CHR ''0''" using strip_zeros_split by blast
  have "read_nat (a @ strip_zeros s @ replicate k CHR ''0'') = read_nat (a @ strip_zeros s) * 10 ^ k"
    by (simp add: read_nat_append [of "a @ strip_zeros s"] read_nat_zeros flip: append_assoc)
  then have "read_nat (a @ s) = read_nat (a @ strip_zeros s) * 10 ^ k" by (simp only: k [symmetric])
  moreover have "length s = length (strip_zeros s) + k" by (subst k) simp
  moreover have "set (strip_zeros s) \<subseteq> set s" by (subst (2) k) simp
  ultimately show ?thesis using that by blast
qed

lemma digit_chars [simp]: "\<not> is_digit CHR ''.''" "\<not> is_digit CHR ''e''" "\<not> is_digit CHR ''-''" "\<not> is_digit CHR ''+''"
  "is_digit CHR ''0''"
  by (simp_all add: is_digit_def)

section \<open>Reading back\<close>

text \<open>A decimal in the form \<open>printf\<close> writes it, and its value.\<close>

definition decimal :: "bool \<Rightarrow> string \<Rightarrow> string \<Rightarrow> int option \<Rightarrow> string" where
  "decimal negative i f e = (if negative then ''-'' else []) @ i @ (if f = [] then [] else CHR ''.'' # f) @
     (case e of None \<Rightarrow> [] | Some e \<Rightarrow> ''e'' @ (if e < 0 then ''-'' else ''+'') @ pad_zeros 2 (show_nat (nat \<bar>e\<bar>)))"

lemma read_pad: "read_nat (pad_zeros w s) = read_nat s" "list_all is_digit s \<Longrightarrow> list_all is_digit (pad_zeros w s)"
  "s \<noteq> [] \<Longrightarrow> pad_zeros w s \<noteq> []"
  by (simp_all add: pad_zeros_def read_nat_append read_nat_zeros) (simp add: list_all_iff)

lemma takeWhile_all: "list_all P xs \<Longrightarrow> takeWhile P xs = xs" "list_all P xs \<Longrightarrow> dropWhile P xs = []"
  by (simp_all add: list_all_iff takeWhile_eq_all_conv dropWhile_eq_Nil_conv)

lemma takeWhile_stop:
  assumes "list_all P xs" and "ys = [] \<or> \<not> P (hd ys)"
  shows "takeWhile P (xs @ ys) = xs" and "dropWhile P (xs @ ys) = ys"
  using assms by (cases ys; simp add: list_all_iff takeWhile_append2 dropWhile_append2)+

lemma read_exponent_decimal:
  "read_exponent (case e of None \<Rightarrow> [] | Some e \<Rightarrow> ''e'' @ (if e < 0 then ''-'' else ''+'') @ pad_zeros 2 (show_nat (nat \<bar>e\<bar>)))
     = (case e of None \<Rightarrow> 0 | Some e \<Rightarrow> e, [])"
proof (cases e)
  case (Some e')
  define ds where "ds = pad_zeros 2 (show_nat (nat \<bar>e'\<bar>))"
  have "list_all is_digit ds" "ds \<noteq> []" "read_nat ds = nat \<bar>e'\<bar>"
    using read_pad show_nat_digits by (simp_all add: read_show_nat ds_def)
  then show ?thesis unfolding Some option.case ds_def [symmetric] by (simp add: takeWhile_all)
qed simp

lemma strtod_decimal:
  assumes "list_all is_digit i" and "i \<noteq> []" and "list_all is_digit f"
  shows "strtod (decimal negative i f e) = Some (fl64 ((if negative then - 1 else 1) * of_nat (read_nat (i @ f)) *
      10 powi ((case e of None \<Rightarrow> 0 | Some e \<Rightarrow> e) - int (length f))), [])"
proof -
  define x where "x = (case e of None \<Rightarrow> [] | Some e \<Rightarrow> ''e'' @ (if e < 0 then ''-'' else ''+'') @ pad_zeros 2 (show_nat (nat \<bar>e\<bar>)))"
  have x: "x = [] \<or> hd x = CHR ''e''" by (cases e) (simp_all add: x_def)
  let ?y = "(if f = [] then [] else CHR ''.'' # f) @ x"
  have sign: "read_sign (decimal negative i f e) = (negative, i @ ?y)"
    using assms(1,2) by (cases i) (auto simp: decimal_def x_def [symmetric] list_all_iff)
  have y: "?y = [] \<or> \<not> is_digit (hd ?y)" using x by (cases f) auto
  have frac: "read_fraction ?y = (f, x)"
    using x takeWhile_stop [OF assms(3), of x] by (cases x; cases f) auto
  show ?thesis
    unfolding strtod_def sign prod.case takeWhile_stop [OF assms(1) y] frac
    using assms(2) read_exponent_decimal [of e] by (simp add: x_def [symmetric])
qed

section \<open>The text of a number\<close>

lemma ilog10_ge_one:
  assumes "1 \<le> x"
  shows "10 powi ilog10 x \<le> x" and "x < 10 powi (ilog10 x + 1)"
proof -
  let ?n = "nat \<lfloor>x\<rfloor>"
  have n: "0 < ?n" using assms by simp
  have b: "10 ^ (ndigits ?n - 1) \<le> ?n" "Suc ?n \<le> 10 ^ ndigits ?n"
    using ndigits_bounds(2) [OF n] Suc_leI [OF ndigits_bounds(1) [of ?n]] by simp_all
  have fl: "of_nat ?n \<le> x" "x < of_nat ?n + 1" using assms floor_correct [of x] by simp_all
  have e: "ilog10 x = int (ndigits ?n - 1)" "ilog10 x + 1 = int (ndigits ?n)"
    using assms ndigits_pos [of ?n] unfolding ilog10_def by (simp_all add: of_nat_diff Suc_leI)
  have "(10::rat) ^ (ndigits ?n - 1) \<le> of_nat ?n" using b(1) by (metis of_nat_le_iff of_nat_numeral of_nat_power)
  then show "10 powi ilog10 x \<le> x" unfolding e(1) power_int_of_nat using fl(1) by (rule order_trans)
  have "of_nat (Suc ?n) \<le> (10::rat) ^ ndigits ?n" using b(2) by (metis of_nat_le_iff of_nat_numeral of_nat_power)
  then show "x < 10 powi (ilog10 x + 1)" unfolding e(2) using fl(2) by simp
qed

lemma ilog10_lt_one:
  assumes "0 < x" and "x < 1"
  shows "10 powi ilog10 x \<le> x" and "x < 10 powi (ilog10 x + 1)"
proof -
  let ?m = "nat (\<lceil>1 / x\<rceil> - 1)"
  have "1 < 1 / x" using assms by simp
  then have c: "2 \<le> \<lceil>1 / x\<rceil>" by (simp add: less_ceiling_iff flip: zle_add1_eq_le)
  then have m: "0 < ?m" and im: "int ?m = \<lceil>1 / x\<rceil> - 1" by linarith+
  have b: "10 ^ (ndigits ?m - 1) \<le> ?m" "?m < 10 ^ ndigits ?m" using ndigits_bounds [of ?m] m by auto
  have bi: "(10::int) ^ (ndigits ?m - 1) \<le> int ?m" "int ?m < (10::int) ^ ndigits ?m"
    using b by (metis of_nat_le_iff of_nat_numeral of_nat_power) (metis b(2) of_nat_less_iff of_nat_numeral of_nat_power)
  have "\<lceil>1 / x\<rceil> \<le> (10::int) ^ ndigits ?m" using bi(2) im by linarith
  then have up: "1 / x \<le> 10 ^ ndigits ?m" by (simp add: ceiling_le_iff)
  have "(10::int) ^ (ndigits ?m - 1) < \<lceil>1 / x\<rceil>" using bi(1) im by linarith
  then have lo: "10 ^ (ndigits ?m - 1) < 1 / x" by (simp add: less_ceiling_iff)
  have e: "ilog10 x = - int (ndigits ?m)" "ilog10 x + 1 = - int (ndigits ?m - 1)"
    using assms ndigits_pos [of ?m] unfolding ilog10_def by (simp, simp add: of_nat_diff Suc_leI)
  show "10 powi ilog10 x \<le> x"
    using up assms unfolding e(1) power_int_minus power_int_of_nat by (simp add: field_simps)
  show "x < 10 powi (ilog10 x + 1)"
    using lo assms unfolding e(2) power_int_minus power_int_of_nat by (simp add: field_simps)
qed

lemma ilog10_bounds:
  assumes "0 < x"
  shows "10 powi ilog10 x \<le> x" and "x < 10 powi (ilog10 x + 1)"
  using assms ilog10_ge_one ilog10_lt_one by (cases "1 \<le> x"; force)+

lemma rhe_near: "\<bar>of_int (rhe x) - x\<bar> \<le> 1 / 2"
proof -
  have "of_int \<lfloor>x\<rfloor> \<le> x" "x < of_int \<lfloor>x\<rfloor> + 1" using floor_correct [of x] by simp_all
  then show ?thesis unfolding rhe_def Let_def abs_le_iff by (auto simp: field_simps) linarith+
qed

text \<open>The significand has exactly \<open>p\<close> digits, and the decimal is within half a unit of its last place.\<close>

lemma sci_significand:
  assumes "0 < x" and "0 < p" and "sci p x = (m, e)"
  shows "10 ^ (p - 1) \<le> m" and "m < 10 ^ p" and "ilog10 x \<le> e" and "e \<le> ilog10 x + 1"
    and "\<bar>of_nat m * 10 powi (e - int p + 1) - x\<bar> \<le> 10 powi (ilog10 x - int p + 1) / 2"
proof -
  let ?k = "ilog10 x" and ?u = "10 powi (ilog10 x - int p + 1) :: rat"
  let ?r = "rhe (x / ?u)"
  have u: "0 < ?u" by simp
  have p: "(10::rat) powi ?k = 10 ^ (p - 1) * ?u" "(10::rat) powi (?k + 1) = 10 ^ p * ?u"
    using assms(2) by (simp_all add: power_int_add [symmetric] of_nat_diff flip: power_int_of_nat)
  have "of_int (10 ^ (p - 1)) \<le> x / ?u" "x / ?u \<le> of_int (10 ^ p)"
    using ilog10_bounds [OF assms(1)] u unfolding p by (simp_all add: field_simps)
  then have r: "10 ^ (p - 1) \<le> ?r" "?r \<le> 10 ^ p" using rhe_mono rhe_of_int by metis+
  have r0: "0 \<le> ?r" using r(1) by (smt (verit) zero_le_power)
  have me: "(m, e) = (if nat ?r = 10 ^ p then (10 ^ (p - 1), ?k + 1) else (nat ?r, ?k))"
    using assms(3) by (simp add: sci_def Let_def)
  have nr: "10 ^ (p - 1) \<le> nat ?r" "nat ?r \<le> 10 ^ p" using r by (simp_all add: le_nat_iff nat_le_iff r0)
  have "(10::nat) ^ (p - 1) < 10 ^ p" using assms(2) by simp
  then show "10 ^ (p - 1) \<le> m" "m < 10 ^ p" "?k \<le> e" "e \<le> ?k + 1"
    using me nr by (auto split: if_split_asm)
  have val: "of_nat m * 10 powi (e - int p + 1) = of_int ?r * ?u"
  proof (cases "nat ?r = 10 ^ p")
    case True
    then have "?r = 10 ^ p" using r0 by (metis nat_0_le of_nat_numeral of_nat_power)
    moreover have "(10::rat) powi (?k + 1 - int p + 1) = 10 * ?u"
      using power_int_add [of "10::rat" 1 "?k - int p + 1"] by (simp add: algebra_simps)
    moreover have "(10::rat) ^ p = 10 ^ (p - 1) * 10" using assms(2) by (metis Suc_pred' power_Suc2)
    ultimately show ?thesis using me True by simp
  next
    case False
    then show ?thesis using me r0 by simp
  qed
  have "\<bar>of_int ?r - x / ?u\<bar> * ?u \<le> 1 / 2 * ?u" using rhe_near u by (intro mult_right_mono) auto
  moreover have "\<bar>of_int ?r - x / ?u\<bar> * ?u = \<bar>(of_int ?r - x / ?u) * ?u\<bar>" using u by (simp only: abs_mult abs_of_pos)
  moreover have "(of_int ?r - x / ?u) * ?u = of_int ?r * ?u - x" using u by (simp add: left_diff_distrib)
  ultimately show "\<bar>of_nat m * 10 powi (e - int p + 1) - x\<bar> \<le> ?u / 2" unfolding val by simp
qed

lemma ndigits_eq:
  assumes "10 ^ (p - 1) \<le> m" and "m < 10 ^ p" and "0 < p"
  shows "ndigits m = p"
proof -
  have "(10::nat) ^ (p - 1) < 10 ^ ndigits m" using assms(1) ndigits_bounds(1) [of m] by (rule le_less_trans)
  then have "p - 1 < ndigits m" by (rule power_less_imp_less_exp [rotated]) simp
  then show ?thesis using ndigits_le [OF assms(2,3)] by linarith
qed

definition shifted :: "string \<Rightarrow> string \<Rightarrow> int \<Rightarrow> rat" where
  "shifted i f e = of_nat (read_nat (i @ f)) * 10 powi (e - int (length f))"

lemma shifted_strip:
  assumes "read_nat (i @ s) = m" and "e - int (length s) = k"
  shows "shifted i (strip_zeros s) e = of_nat m * 10 powi k"
proof -
  obtain j where j: "length s = length (strip_zeros s) + j" "read_nat (i @ s) = read_nat (i @ strip_zeros s) * 10 ^ j"
    using strip_zeros_value [of s i] by blast
  have "e - int (length (strip_zeros s)) = int j + k" using assms(2) j(1) by simp
  then have "(10::rat) powi (e - int (length (strip_zeros s))) = 10 ^ j * 10 powi k" by (simp add: power_int_add)
  then show ?thesis using assms(1) j(2) unfolding shifted_def by (metis (no_types, lifting) mult.assoc of_nat_mult of_nat_numeral of_nat_power)
qed

lemma strip_zeros_digits: "list_all is_digit s \<Longrightarrow> list_all is_digit (strip_zeros s)" "length (strip_zeros s) \<le> length s"
proof -
  obtain k where "length s = length (strip_zeros s) + k" "set (strip_zeros s) \<subseteq> set s"
    by (rule strip_zeros_value [of s])
  then show "list_all is_digit s \<Longrightarrow> list_all is_digit (strip_zeros s)" "length (strip_zeros s) \<le> length s"
    by (auto simp: list_all_iff)
qed

lemma fmt_g_shape:
  assumes "x \<noteq> 0" and "0 < p" and "sci p \<bar>x\<bar> = (m, e)"
  obtains i f ex where "fmt_g p x = decimal (x < 0) i f ex" and "list_all is_digit i" and "i \<noteq> []" and "list_all is_digit f"
    and "shifted i f (case ex of None \<Rightarrow> 0 | Some e \<Rightarrow> e) = of_nat m * 10 powi (e - int p + 1)"
    and "ex = None \<and> length i + length f \<le> p + 4 \<or> ex = Some e \<and> length i + length f \<le> p"
proof -
  define ds where "ds = show_nat m"
  have m: "10 ^ (p - 1) \<le> m" "m < 10 ^ p" using sci_significand [OF _ assms(2,3)] assms(1) by auto
  have ds: "length ds = p" "list_all is_digit ds" "read_nat ds = m"
    using ndigits_eq [OF m assms(2)] by (simp_all add: ds_def length_show_nat show_nat_digits read_show_nat)
  have td: "list_all is_digit (take n ds)" "list_all is_digit (drop n ds)" for n
    using ds(2) by (auto simp: list_all_iff dest: in_set_takeD in_set_dropD)
  have "0 < m" using m(1) by (metis le_zero_eq not_gr_zero power_eq_0_iff zero_neq_numeral)
  then have nz: "strip_zeros ds \<noteq> []" using ds(3) strip_zeros_value [of ds "[]"] by (fastforce simp: read_nat_def)
  have all: "fmt_g p x = (if e < - 4 \<or> int p \<le> e then decimal (x < 0) (take 1 ds) (strip_zeros (drop 1 ds)) (Some e)
      else if 0 \<le> e then decimal (x < 0) (take (nat e + 1) ds) (strip_zeros (drop (nat e + 1) ds)) None
      else decimal (x < 0) ''0'' (replicate (nat (- e) - 1) CHR ''0'' @ strip_zeros ds) None)"
    using assms(1) nz unfolding fmt_g_def assms(3) prod.case Let_def ds_def [symmetric] decimal_def
    by simp
  consider (exp) "e < - 4 \<or> int p \<le> e" | (int) "\<not> (e < - 4 \<or> int p \<le> e)" "0 \<le> e"
    | (frac) "\<not> (e < - 4 \<or> int p \<le> e)" "\<not> 0 \<le> e" by blast
  then show ?thesis
  proof cases
    case exp
    have "shifted (take 1 ds) (strip_zeros (drop 1 ds)) e = of_nat m * 10 powi (e - int p + 1)"
      using ds assms(2) by (intro shifted_strip) (simp_all add: of_nat_diff)
    moreover have "take 1 ds \<noteq> []" using ds(1) assms(2) by (cases ds) auto
    moreover have "length (take 1 ds) + length (strip_zeros (drop 1 ds)) \<le> p"
      using strip_zeros_digits(2) [of "drop 1 ds"] ds(1) assms(2) by simp
    ultimately show ?thesis
      using all exp td strip_zeros_digits(1) by (intro that [of "take 1 ds" "strip_zeros (drop 1 ds)" "Some e"]) auto
  next
    case int
    let ?n = "nat e + 1"
    have n: "?n \<le> p" "int ?n = e + 1" using int by linarith+
    have "shifted (take ?n ds) (strip_zeros (drop ?n ds)) 0 = of_nat m * 10 powi (e - int p + 1)"
      using ds n by (intro shifted_strip) (simp_all add: of_nat_diff)
    moreover have "take ?n ds \<noteq> []" using ds(1) assms(2) by (cases ds) auto
    moreover have "length (take ?n ds) + length (strip_zeros (drop ?n ds)) \<le> p"
      using strip_zeros_digits(2) [of "drop ?n ds"] ds(1) n by simp
    ultimately show ?thesis
      using all int td strip_zeros_digits(1) by (intro that [of "take ?n ds" "strip_zeros (drop ?n ds)" None]) auto
  next
    case frac
    let ?z = "replicate (nat (- e) - 1) CHR ''0''"
    have z: "nat (- e) - 1 \<le> 3" "int (nat (- e) - 1) = - e - 1" using frac by linarith+
    have r: "read_nat (''0'' @ ?z @ b) = read_nat ([] @ b)" for b
    proof -
      have "read_nat (replicate (Suc (nat (- e) - 1)) CHR ''0'' @ b) = read_nat b"
        unfolding read_nat_append read_nat_zeros by simp
      then show ?thesis by simp
    qed
    have pos: "0 - int (length (?z @ strip_zeros ds)) = e + 1 - int (length (strip_zeros ds))" using z(2) by simp
    have "shifted [] (strip_zeros ds) (e + 1) = of_nat m * 10 powi (e - int p + 1)"
      using ds by (intro shifted_strip) simp_all
    moreover have "shifted ''0'' (?z @ strip_zeros ds) 0 = shifted [] (strip_zeros ds) (e + 1)"
      unfolding shifted_def pos r ..
    ultimately show ?thesis
      using all frac ds z(1) strip_zeros_digits [of ds]
      by (intro that [of "''0''" "?z @ strip_zeros ds" None]) (auto simp: list_all_iff)
  qed
qed

section \<open>Seventeen digits identify a double\<close>

definition representable :: "rat \<Rightarrow> bool" where
  "representable x \<longleftrightarrow> fl64 x = Fin x"

lemma representable_minus [simp]: "representable (- x) \<longleftrightarrow> representable x"
  by (auto simp: representable_def fl64_def fl_def Let_def rnd_minus split: if_split_asm)

lemma fl64_sign: "fl64 (- x) = Fin (- y) \<longleftrightarrow> fl64 x = Fin y"
  by (auto simp: fl64_def fl_def Let_def rnd_minus split: if_split_asm)

lemma representable_rnd: "representable x \<longleftrightarrow> rnd 53 (- 1074) x = x \<and> \<bar>x\<bar> < 2 powi 1024"
  by (auto simp: representable_def fl64_def fl_def Let_def abs_less_iff)

text \<open>A representable number is a multiple of its quantum, so it is at least that large.\<close>

lemma rhe_unique:
  assumes "\<bar>y - of_int n\<bar> < 1 / 2"
  shows "rhe y = n"
proof -
  have "\<bar>of_int (rhe y) - (of_int n :: rat)\<bar> < 1"
    using rhe_near [of y] assms by linarith
  then have "\<bar>rhe y - n\<bar> < 1" by (metis of_int_abs of_int_diff of_int_less_1_iff)
  then show ?thesis by simp
qed

lemma ilog2_ge:
  assumes "0 < y" and "2 powi k \<le> y"
  shows "k \<le> ilog2 y"
proof -
  have "(2::rat) powi k < 2 powi (ilog2 y + 1)" using assms ilog2_bounds(2) [of y] by linarith
  then have "k < ilog2 y + 1"
    using power_int_increasing [of "ilog2 y + 1" k "2::rat"] by (meson leD leI one_le_numeral)
  then show ?thesis by simp
qed

lemma rnd_to:
  assumes "x = of_int m * 2 powi quantum p emin y" and "0 < m" and "m \<le> 2 ^ 53" and "\<bar>y - x\<bar> \<le> x / (2 * 10 ^ 16)" and "y \<noteq> 0"
  shows "rnd p emin y = x"
proof -
  let ?u = "2 powi quantum p emin y :: rat"
  have u: "0 < ?u" by simp
  have "y / ?u - of_int m = (y - x) / ?u" using u by (simp add: assms(1) diff_divide_distrib)
  then have "\<bar>y / ?u - of_int m\<bar> = \<bar>y - x\<bar> / ?u" using u by (simp only: abs_divide abs_of_pos)
  also have "\<dots> \<le> x / (2 * 10 ^ 16) / ?u" using assms(4) u by (intro divide_right_mono) auto
  also have "\<dots> = of_int m / (2 * 10 ^ 16)" using u by (simp add: assms(1))
  also have "\<dots> < 1 / 2"
  proof -
    have "(of_int m :: rat) \<le> of_int (2 ^ 53)" using assms(3) by (simp only: of_int_le_iff)
    then show ?thesis by (simp add: field_simps)
  qed
  finally have "rhe (y / ?u) = m" by (rule rhe_unique)
  then show ?thesis using assms(1,5) by (simp add: rnd_def Let_def)
qed

text \<open>
  A number within one part in \<open>2 * 10 ^ 16\<close> of a positive double rounds to it. The nearest
  neighbour below a power of two is half a quantum away, which is the critical case.
\<close>

lemma rnd_near:
  assumes "rnd 53 (- 1074) x = x" and "0 < x" and "\<bar>y - x\<bar> \<le> x / (2 * 10 ^ 16)"
  shows "rnd 53 (- 1074) y = x"
proof -
  define q where "q = quantum 53 (- 1074) x"
  define n where "n = rhe (x / 2 powi q)"
  have x: "x = of_int n * 2 powi q" using assms(1,2) by (simp add: rnd_def Let_def q_def n_def)
  have q0: "(0::rat) < 2 powi q" by simp
  have n: "0 < n" using x assms(2) q0 by (simp add: zero_less_mult_iff)
  have qe: "ilog2 x + 1 \<le> q + 53" using assms(2) by (simp add: q_def quantum_def)
  have "x < 2 powi (q + 53)"
    using ilog2_bounds(2) [OF assms(2)] power_int_increasing [OF qe, of "2::rat"] by simp
  then have "of_int n * 2 powi q < of_int (2 ^ 53) * (2::rat) powi q" using x by (simp add: power_int_add mult.commute)
  then have n53: "n < 2 ^ 53" using q0 by (simp only: mult_less_cancel_right_pos of_int_less_iff)
  have "x / (2 * 10 ^ 16) < x / 2" using assms(2) by (simp add: field_simps)
  then have y2: "x / 2 \<le> y" using assms(3) by linarith
  then have y: "0 < y" using assms(2) by linarith
  have close: "\<bar>y - x\<bar> < 2 powi q"
  proof -
    have "(of_int n :: rat) \<le> of_int (2 ^ 53)" using n53 by (simp only: of_int_le_iff)
    then have "x / (2 * 10 ^ 16) < 2 powi q" using q0 by (simp add: x field_simps)
    then show ?thesis using assms(3) by linarith
  qed
  consider (same) "quantum 53 (- 1074) y = q" | (above) "q < quantum 53 (- 1074) y" | (below) "quantum 53 (- 1074) y < q" by linarith
  then show ?thesis
  proof cases
    case same
    then show ?thesis using x n n53 assms(3) y by (intro rnd_to) auto
  next
    case above
    then have "q + 53 \<le> ilog2 y" using y by (auto simp: quantum_def q_def)
    then have "2 powi (q + 53) \<le> y" using ilog2_bounds(1) [OF y] power_int_increasing [of "q + 53" "ilog2 y" "2::rat"] by simp
    moreover have "x \<le> 2 powi (q + 53) - 2 powi q"
    proof -
      have "(of_int n :: rat) \<le> of_int (2 ^ 53 - 1)" using n53 by (simp only: of_int_le_iff)
      then show ?thesis using q0 by (simp add: x power_int_add algebra_simps mult_left_mono)
    qed
    ultimately show ?thesis using close by simp
  next
    case below
    then have e: "q = ilog2 x - 52" "ilog2 y < ilog2 x" "- 1074 < q" using y assms(2) by (auto simp: quantum_def q_def)
    have "y < 2 powi ilog2 x"
      using ilog2_bounds(2) [OF y] power_int_increasing [of "ilog2 y + 1" "ilog2 x" "2::rat"] e(2) by simp
    then have yq: "y < of_int (2 ^ 52) * 2 powi q" by (simp add: e(1) power_int_diff)
    have xq: "of_int (2 ^ 52) * 2 powi q \<le> x" using ilog2_bounds(1) [OF assms(2)] by (simp add: e(1) power_int_diff)
    have "n = 2 ^ 52"
    proof -
      have "of_int (2 ^ 52) * 2 powi q \<le> of_int n * (2::rat) powi q" using xq x by simp
      then have "2 ^ 52 \<le> n" using q0 by (simp only: mult_le_cancel_right_pos of_int_le_iff)
      moreover have "of_int n * 2 powi q < of_int (2 ^ 52 + 1) * (2::rat) powi q" 
      proof -
        have "x < y + 2 powi q" using close by linarith
        moreover have "of_int (2 ^ 52 + 1) * (2::rat) powi q = of_int (2 ^ 52) * 2 powi q + 2 powi q" by (simp add: algebra_simps)
        ultimately show ?thesis using yq x by linarith
      qed
      then have "n < 2 ^ 52 + 1" using q0 by (simp only: mult_less_cancel_right_pos of_int_less_iff)
      ultimately show ?thesis by simp
    qed
    then have x2: "x = of_int (2 ^ 53) * 2 powi (q - 1)" by (simp add: x power_int_diff)
    have "2 powi (ilog2 x - 1) \<le> y"
    proof -
      have "2 powi (ilog2 x - 1) = x / 2" using x2 by (simp add: e(1) power_int_diff)
      then show ?thesis using y2 by simp
    qed
    then have "ilog2 x - 1 \<le> ilog2 y" using y by (intro ilog2_ge)
    then have "quantum 53 (- 1074) y = q - 1" using e y by (simp add: quantum_def)
    then show ?thesis using x2 assms(3) y by (intro rnd_to [of _ "2 ^ 53"]) auto
  qed
qed

lemma fl64_of_rnd:
  assumes "rnd 53 (- 1074) y = z" and "\<bar>z\<bar> < 2 powi 1024"
  shows "fl64 y = Fin z"
  using assms(2) unfolding fl64_def fl_def assms(1) Let_def abs_less_iff by auto

lemma scan_g_17:
  assumes "representable x"
  shows "scan_g 17 x = Fin x"
proof (cases "x = 0")
  case False
  obtain m e where me: "sci 17 \<bar>x\<bar> = (m, e)" by (cases "sci 17 \<bar>x\<bar>")
  let ?y = "of_nat m * 10 powi (e - int 17 + 1) :: rat"
  have "\<bar>?y - \<bar>x\<bar>\<bar> \<le> 10 powi (ilog10 \<bar>x\<bar> - int 17 + 1) / 2"
    using sci_significand(5) [OF _ _ me] False by simp
  also have "10 powi (ilog10 \<bar>x\<bar> - int 17 + 1) = 10 powi ilog10 \<bar>x\<bar> / (10 ^ 16 :: rat)"
    by (simp add: power_int_diff)
  also have "\<dots> / 2 \<le> \<bar>x\<bar> / (2 * 10 ^ 16)" using ilog10_bounds(1) [of "\<bar>x\<bar>"] False by (simp add: field_simps)
  finally have near: "\<bar>?y - \<bar>x\<bar>\<bar> \<le> \<bar>x\<bar> / (2 * 10 ^ 16)" .
  have r: "representable \<bar>x\<bar>" using assms by (simp add: abs_if)
  then have "rnd 53 (- 1074) \<bar>x\<bar> = \<bar>x\<bar>" by (simp only: representable_rnd)
  moreover have "0 < \<bar>x\<bar>" using False by simp
  ultimately have "rnd 53 (- 1074) ?y = \<bar>x\<bar>" using near by (rule rnd_near)
  then have y: "fl64 ?y = Fin \<bar>x\<bar>" by (rule fl64_of_rnd) (use r in \<open>simp only: representable_rnd abs_abs\<close>)
  show ?thesis
  proof (cases "x < 0")
    case True
    then show ?thesis using y fl64_sign [of ?y "- x"] unfolding scan_g_def me by simp
  next
    case pos: False
    then show ?thesis using y False unfolding scan_g_def me by simp
  qed
qed (simp add: scan_g_def)

lemma representable_least:
  assumes "representable x" and "x \<noteq> 0"
  shows "2 powi - 1074 \<le> \<bar>x\<bar>"
proof -
  let ?q = "quantum 53 (- 1074) x" and ?n = "rhe (x / 2 powi quantum 53 (- 1074) x)"
  have x: "x = of_int ?n * 2 powi ?q" using assms by (simp add: representable_rnd rnd_def Let_def)
  then have "?n \<noteq> 0" using assms(2) by force
  then have "1 \<le> \<bar>?n\<bar>" by linarith
  then have "(1::rat) \<le> of_int \<bar>?n\<bar>" by (simp only: of_int_1_le_iff)
  then have "1 * 2 powi ?q \<le> \<bar>of_int ?n\<bar> * (2::rat) powi ?q" by (intro mult_right_mono) simp_all
  also have "\<bar>of_int ?n\<bar> * (2::rat) powi ?q = \<bar>x\<bar>" by (subst (2) x) (simp add: abs_mult)
  finally have "2 powi ?q \<le> \<bar>x\<bar>" by simp
  moreover have "(2::rat) powi - 1074 \<le> 2 powi ?q" by (intro power_int_increasing) (simp_all add: quantum_def)
  ultimately show ?thesis by linarith
qed

lemma representable_exponent:
  assumes "representable x" and "x \<noteq> 0"
  shows "ilog10 \<bar>x\<bar> \<le> 308" and "- 325 \<le> ilog10 \<bar>x\<bar>"
proof -
  have x: "0 < \<bar>x\<bar>" using assms(2) by simp
  have "10 powi ilog10 \<bar>x\<bar> < (10::rat) powi 309"
  proof -
    have "\<bar>x\<bar> < 2 powi 1024" using assms(1) by (simp add: representable_rnd)
    also have "\<dots> < 10 powi 309" by simp
    finally show ?thesis using ilog10_bounds(1) [OF x] by linarith
  qed
  then have "ilog10 \<bar>x\<bar> < 309"
    using power_int_increasing [of 309 "ilog10 \<bar>x\<bar>" "10::rat"] by (meson leD leI one_le_numeral)
  then show "ilog10 \<bar>x\<bar> \<le> 308" by simp
  have "10 powi - 324 < (10::rat) powi (ilog10 \<bar>x\<bar> + 1)"
  proof -
    have "(10::rat) powi - 324 < 2 powi - 1074" by (simp add: power_int_minus)
    then show ?thesis using ilog10_bounds(2) [OF x] representable_least [OF assms] by linarith
  qed
  then have "- 324 < ilog10 \<bar>x\<bar> + 1"
    using power_int_increasing [of "ilog10 \<bar>x\<bar> + 1" "- 324" "10::rat"] by (meson leD leI one_le_numeral)
  then show "- 325 \<le> ilog10 \<bar>x\<bar>" by simp
qed

section \<open>Printed numbers\<close>

lemma length_exponent: "\<bar>e\<bar> < 1000 \<Longrightarrow> length (pad_zeros 2 (show_nat (nat \<bar>e\<bar>))) \<le> 3"
proof -
  assume "\<bar>e\<bar> < 1000"
  then have "ndigits (nat \<bar>e\<bar>) \<le> 3" using ndigits_le [of "nat \<bar>e\<bar>" 3] by simp
  then show ?thesis unfolding pad_zeros_def length_append length_replicate length_show_nat by linarith
qed

lemma decimal_chars:
  assumes "list_all is_digit i" and "i \<noteq> []" and "list_all is_digit f"
  shows "list_all number_char (decimal negative i f e)"
    and "\<exists>c s. decimal negative i f e = c # s \<and> (c = CHR ''-'' \<or> is_digit c)"
proof -
  have "list_all is_digit (pad_zeros 2 (show_nat n))" for n by (rule read_pad(2) [OF show_nat_digits])
  then show "list_all number_char (decimal negative i f e)"
    using assms by (auto simp: decimal_def number_char_def list_all_iff split: option.split)
  show "\<exists>c s. decimal negative i f e = c # s \<and> (c = CHR ''-'' \<or> is_digit c)"
    using assms(1,2) by (cases i) (auto simp: decimal_def)
qed

lemma fmt_g_read:
  assumes "representable x" and "0 < p" and "p \<le> 17"
  shows "strtod (fmt_g p x) = Some (scan_g p x, [])" and "length (fmt_g p x) \<le> 25" and "list_all number_char (fmt_g p x)"
    and "\<exists>c s. fmt_g p x = c # s \<and> (c = CHR ''-'' \<or> is_digit c)"
proof -
  have "strtod (fmt_g p x) = Some (scan_g p x, []) \<and> length (fmt_g p x) \<le> 25 \<and> list_all number_char (fmt_g p x) \<and>
    (\<exists>c s. fmt_g p x = c # s \<and> (c = CHR ''-'' \<or> is_digit c))"
  proof (cases "x = 0")
    case True
    then show ?thesis by (simp add: fmt_g_def scan_g_def strtod_def number_char_def read_nat_def)
  next
    case False
    obtain m e where me: "sci p \<bar>x\<bar> = (m, e)" by (cases "sci p \<bar>x\<bar>")
    obtain i f ex where d: "fmt_g p x = decimal (x < 0) i f ex" "list_all is_digit i" "i \<noteq> []" "list_all is_digit f"
      "shifted i f (case ex of None \<Rightarrow> 0 | Some e \<Rightarrow> e) = of_nat m * 10 powi (e - int p + 1)"
      "ex = None \<and> length i + length f \<le> p + 4 \<or> ex = Some e \<and> length i + length f \<le> p"
      by (rule fmt_g_shape [OF False assms(2) me])
    have "\<bar>e\<bar> < 1000"
      using sci_significand(3,4) [OF _ assms(2) me] False representable_exponent [OF assms(1) False] by auto
    then have "length (fmt_g p x) \<le> 25"
      using d(1,6) length_exponent [of e] assms(3) by (auto simp: decimal_def)
    moreover have "strtod (fmt_g p x) = Some (scan_g p x, [])"
      using strtod_decimal [OF d(2-4), of "x < 0" ex] d(1,5) False
      by (simp add: scan_g_def me shifted_def mult.assoc sgn_if)
    ultimately show ?thesis using decimal_chars [OF d(2-4)] d(1) by simp
  qed
  then show "strtod (fmt_g p x) = Some (scan_g p x, [])" "length (fmt_g p x) \<le> 25" "list_all number_char (fmt_g p x)"
    "\<exists>c s. fmt_g p x = c # s \<and> (c = CHR ''-'' \<or> is_digit c)" by blast+
qed

lemma printed_number:
  assumes "representable x"
  obtains t where "print_number (Fin x) = Some t" and "length t \<le> 25" and "list_all number_char t"
    and "strtod t = Some (Fin x, [])" and "\<exists>c s. t = c # s \<and> (c = CHR ''-'' \<or> is_digit c)"
proof -
  define p :: nat where "p = (if dbl_eq (scan_g 15 x) (Fin x) then 15 else 17)"
  have p: "0 < p" "p \<le> 17" "scan_g p x = Fin x"
    using scan_g_17 [OF assms] by (auto simp: p_def dbl_eq_iff)
  note f = fmt_g_read [OF assms p(1,2)]
  have "print_number (Fin x) = Some (fmt_g p x)" using f(2) by (auto simp: print_number_def p_def)
  then show ?thesis using that f p(3) by simp
qed

end
