(* ===== verification/JsonRoundtrip.thy ===== *)
theory JsonRoundtrip
  imports Decimal
begin

text \<open>
  The parser reads back what the printer writes: for every JSON value with finite doubles and
  strings without NUL, nested within the parser's limit, deserializing the serialized text
  gives the value again.
\<close>

section \<open>Strings\<close>

lemma hex_value_char: "d < 16 \<Longrightarrow> hex_value (hex_char d) = Some d"
  by (simp add: hex_value_def hex_char_def Let_def)

lemma parse_hex4_byte:
  assumes "n < 256"
  shows "parse_hex4 (CHR ''0'' # CHR ''0'' # hex_char (n div 16) # hex_char (n mod 16) # rest) = of_nat n"
proof -
  have d: "n div 16 < 16" "n mod 16 < 16" using assms by simp_all
  have "hex_value CHR ''0'' = Some 0" by (simp add: hex_value_def)
  moreover have "(of_nat (n div 16) :: 64 word) * 16 + of_nat (n mod 16) = of_nat n"
    by (metis div_mult_mod_eq of_nat_add of_nat_mult of_nat_numeral)
  ultimately show ?thesis
    by (simp add: parse_hex4_def hex_value_char [OF d(1)] hex_value_char [OF d(2)] push_bit_eq_mult)
qed

lemma encode_ascii:
  assumes "n < 128"
  shows "encode_utf8 (of_nat n) = Some [char_of n]"
proof -
  let ?w = "of_nat n :: 64 word"
  have u: "unat ?w = n" using assms by (simp add: unat_of_nat)
  have "?w AND mask 7 = ?w" "?w AND mask 8 = ?w"
    using assms unfolding take_bit_eq_mask [symmetric] word_unat_eq_iff unsigned_take_bit_eq u
    by (simp_all add: take_bit_nat_eq_self)
  then have "byte_of (?w AND 0x7F) = char_of n" using u by (simp add: byte_of_def mask_eq_exp_minus_1)
  moreover have "?w < 0x80" using assms u by (simp add: word_less_nat_alt)
  ultimately show ?thesis by (simp add: encode_utf8_def)
qed

lemma utf16_control:
  assumes "n < 32"
  shows "utf16_literal_to_utf8 (CHR 0x5C # ''u00'' @ [hex_char (n div 16), hex_char (n mod 16)] @ rest) = Some (6, [char_of n])"
proof -
  note n = parse_hex4_byte [of n rest] encode_ascii [of n]
  have "(of_nat n :: 64 word) < 0xD800" using assms by (simp add: word_less_nat_alt unat_of_nat)
  then have "\<not> 0xD800 \<le> (of_nat n :: 64 word)" "\<not> 0xDC00 \<le> (of_nat n :: 64 word)"
    by (auto simp: word_le_nat_alt word_less_nat_alt)
  then show ?thesis using n assms by (simp add: utf16_literal_to_utf8_def)
qed

text \<open>What an escape looks like: the character itself, a short escape, or a hexadecimal one.\<close>

lemma escape_cases:
  obtains (plain) "escape_char c = [c]" "c \<noteq> CHR 0x22" "c \<noteq> CHR 0x5C"
    | (short) d where "escape_char c = [CHR 0x5C, d]" "d \<noteq> CHR ''u''" "escaped_char d = Some c"
    | (hex) n where "n < 32" "c = char_of n" "escape_char c = CHR 0x5C # ''u00'' @ [hex_char (n div 16), hex_char (n mod 16)]"
proof -
  define n where "n = (of_char c :: nat)"
  have c: "c = char_of n" by (simp add: n_def)
  have e: "c = d \<longleftrightarrow> n = of_char d" for d unfolding n_def by (metis of_char_eq_iff)
  have e': "d = c \<longleftrightarrow> n = of_char d" for d using e [of d] by auto
  have esc: "escape_char c = (if 31 < n \<and> n \<noteq> 34 \<and> n \<noteq> 92 then [c]
      else CHR 0x5C # (if n = 92 then [CHR 0x5C] else if n = 34 then [CHR 0x22] else if n = 8 then ''b'' else if n = 12 then ''f''
        else if n = 10 then ''n'' else if n = 13 then ''r'' else if n = 9 then ''t''
        else ''u00'' @ [hex_char (n div 16), hex_char (n mod 16)]))"
    by (simp add: escape_char_def n_def Let_def)
  consider "31 < n \<and> n \<noteq> 34 \<and> n \<noteq> 92" | "n \<in> {92, 34, 8, 12, 10, 13, 9}" | "n < 32" "n \<notin> {92, 34, 8, 12, 10, 13, 9}" by force
  then show ?thesis
  proof cases
    case 1
    then show ?thesis using plain esc e by simp
  next
    case 2
    then show ?thesis using short esc by (auto simp: escaped_char_def e')
  next
    case 3
    then show ?thesis using hex esc c by simp
  qed
qed

lemma string_end_printed:
  "string_end (concat (map escape_char s) @ CHR 0x22 # rest) = Some (concat (map escape_char s), rest)"
proof (induction s)
  case (Cons c s)
  show ?case
  proof (cases c rule: escape_cases)
    case (hex n)
    have "hex_char d \<noteq> CHR 0x22 \<and> hex_char d \<noteq> CHR 0x5C" if "d < 16" for d
    proof -
      have "(of_char (hex_char d) :: nat) \<noteq> 34" "(of_char (hex_char d) :: nat) \<noteq> 92"
        using that by (auto simp: hex_char_def)
      then show ?thesis by auto
    qed
    then have "hex_char (n div 16) \<noteq> CHR 0x22 \<and> hex_char (n div 16) \<noteq> CHR 0x5C" "hex_char (n mod 16) \<noteq> CHR 0x22 \<and> hex_char (n mod 16) \<noteq> CHR 0x5C"
      using hex(1) by simp_all
    then show ?thesis using Cons hex(3) by simp
  qed (use Cons in simp_all)
qed simp

lemma unescape_printed: "unescape (concat (map escape_char s)) = Some s"
proof (induction s)
  case (Cons c s)
  show ?case
  proof (cases c rule: escape_cases)
    case (hex n)
    have "unescape (escape_char c @ concat (map escape_char s)) =
        map_option ((@) [c]) (unescape (concat (map escape_char s)))"
      using utf16_control [OF hex(1), of "concat (map escape_char s)"] hex(2)
      unfolding hex(3) by simp
    then show ?thesis using Cons by simp
  qed (use Cons in simp_all)
qed simp

definition nul_free :: "string \<Rightarrow> bool" where
  "nul_free s \<longleftrightarrow> CHR 0x00 \<notin> set s"

lemma parse_printed_string:
  assumes "nul_free s"
  shows "parse_string (print_string_ptr s @ rest) = Some (s, rest)"
proof -
  have "c_string s = s" using assms by (auto simp: c_string_def nul_free_def takeWhile_eq_all_conv)
  then show ?thesis by (simp add: parse_string_def print_string_ptr_def string_end_printed unescape_printed)
qed

section \<open>Values\<close>

fun json_ok :: "LDJSON \<Rightarrow> bool" where
  "json_ok (JNumber d) = (case d of Fin x \<Rightarrow> representable x | _ \<Rightarrow> False)"
| "json_ok (JText s) = nul_free s"
| "json_ok (JArray xs) = list_all json_ok xs"
| "json_ok (JObject kvs) = list_all (\<lambda>(k, j). nul_free k \<and> json_ok j) kvs"
| "json_ok _ = True"

fun jdepth :: "LDJSON \<Rightarrow> nat" where
  "jdepth (JArray xs) = Suc (Max (insert 0 (jdepth ` set xs)))"
| "jdepth (JObject kvs) = Suc (Max (insert 0 ((\<lambda>(k, j). jdepth j) ` set kvs)))"
| "jdepth _ = 0"

lemma skip_none: "32 < (of_char c :: nat) \<Longrightarrow> buffer_skip_whitespace (c # s) = c # s"
  by (simp add: buffer_skip_whitespace_def)

lemma parse_printed_number:
  assumes "representable x" and "rest \<noteq> []" and "\<not> number_char (hd rest)"
  shows "\<exists>t. print_number (Fin x) = Some t \<and> parse_value d (t @ rest) = Some (JNumber (Fin x), rest)"
proof -
  obtain t where t: "print_number (Fin x) = Some t" "length t \<le> 25" "list_all number_char t"
    "strtod t = Some (Fin x, [])" "\<exists>c s. t = c # s \<and> (c = CHR ''-'' \<or> is_digit c)"
    by (rule printed_number [OF assms(1)])
  have "take 63 (t @ rest) = t @ take (63 - length t) rest" using t(2) by simp
  moreover have "hd (take (63 - length t) rest) = hd rest" using t(2) by (cases rest) auto
  ultimately have n: "takeWhile number_char (take 63 (t @ rest)) = t" using takeWhile_stop(1) [OF t(3)] assms(3) by metis
  have "parse_number (t @ rest) = Some (JNumber (Fin x), rest)"
    unfolding parse_number_def Let_def n by (simp add: t(4))
  moreover obtain c s where c: "t = c # s" "c = CHR ''-'' \<or> is_digit c" using t(5) by blast
  have "c \<noteq> CHR ''n''" "c \<noteq> CHR ''f''" "c \<noteq> CHR ''t''" "c \<noteq> CHR 0x22" using c(2) by (auto simp: is_digit_def)
  ultimately have "parse_value d (t @ rest) = Some (JNumber (Fin x), rest)"
    using c(2) unfolding parse_value.simps [of d "t @ rest"] by (auto simp: c(1))
  then show ?thesis using t(1) by blast
qed

lemma parse_value_first:
  assumes "c \<noteq> CHR ''n''" and "c \<noteq> CHR ''f''" and "c \<noteq> CHR ''t''"
  shows "parse_value d (c # s) =
     (if c = CHR 0x22 then map_option (\<lambda>(t, r). (JText t, r)) (parse_string (c # s))
      else if c = CHR ''-'' \<or> is_digit c then parse_number (c # s)
      else if c = CHR ''['' then parse_array d (c # s)
      else if c = CHR ''{'' then parse_object d (c # s) else None)"
  unfolding parse_value.simps [of d "c # s"] using assms by simp

text \<open>The first character of a printed value is no whitespace and no closing bracket.\<close>

lemma printed_first:
  assumes "print_value j = Some t" and "json_ok j"
  shows "\<exists>c s. t = c # s \<and> 32 < (of_char c :: nat) \<and> (of_char c :: nat) < 128 \<and> c \<noteq> CHR '']'' \<and> c \<noteq> CHR ''}''"
proof (cases j)
  case (JNumber d)
  then obtain x where x: "d = Fin x" "representable x" using assms(2) by (auto split: dbl.split_asm)
  obtain t' where "print_number (Fin x) = Some t'" "\<exists>c s. t' = c # s \<and> (c = CHR ''-'' \<or> is_digit c)"
    by (rule printed_number [OF x(2)])
  then obtain c s where "t = c # s" "c = CHR ''-'' \<or> is_digit c" using assms(1) JNumber x(1) by auto
  then show ?thesis by (auto simp: is_digit_def)
next
  case (JBool b)
  then have "t = (if b then ''true'' else ''false'')" using assms(1) by simp
  then show ?thesis by (cases b) simp_all
next
  case (JText s)
  then have "t = CHR 0x22 # concat (map escape_char s) @ [CHR 0x22]" using assms(1) by (simp add: print_string_ptr_def)
  then show ?thesis by simp
next
  case (JArray xs)
  then obtain r where "t = CHR ''['' # r" using assms(1) by auto
  then show ?thesis by simp
next
  case (JObject kvs)
  then obtain r where "t = CHR ''{'' # r" using assms(1) by auto
  then show ?thesis by simp
next
  case JNull
  then have "t = ''null''" using assms(1) by simp
  then show ?thesis by simp
qed

definition stops :: "string \<Rightarrow> bool" where
  "stops rest \<longleftrightarrow> rest \<noteq> [] \<and> \<not> number_char (hd rest)"

lemma stops_simps [simp]: "stops (CHR '','' # s)" "stops (CHR '']'' # s)" "stops (CHR ''}'' # s)" "stops (CHR 0x00 # s)"
  by (simp_all add: stops_def number_char_def is_digit_def)

text \<open>What the three parts of the printer write, the three parts of the parser read.\<close>

definition reads_value :: "LDJSON \<Rightarrow> bool" where
  "reads_value j \<longleftrightarrow> (\<exists>t. print_value j = Some t \<and>
     (\<forall>d rest. jdepth j + d \<le> CJSON_NESTING_LIMIT \<longrightarrow> stops rest \<longrightarrow> parse_value d (t @ rest) = Some (j, rest)))"

definition reads_array :: "LDJSON list \<Rightarrow> bool" where
  "reads_array xs \<longleftrightarrow> (\<exists>t. print_array xs = Some t \<and>
     (\<forall>d rest. xs \<noteq> [] \<longrightarrow> (\<forall>x\<in>set xs. jdepth x + d \<le> CJSON_NESTING_LIMIT) \<longrightarrow> array_loop d (t @ rest) = Some (xs, rest)))"

definition reads_object :: "(string \<times> LDJSON) list \<Rightarrow> bool" where
  "reads_object kvs \<longleftrightarrow> (\<exists>t. print_object kvs = Some t \<and>
     (\<forall>d rest. kvs \<noteq> [] \<longrightarrow> (\<forall>x\<in>set kvs. jdepth (snd x) + d \<le> CJSON_NESTING_LIMIT) \<longrightarrow> object_loop d (t @ rest) = Some (kvs, rest)))"

lemma reads_array_Cons:
  assumes "reads_value x" and "reads_array xs" and "json_ok x"
  shows "reads_array (x # xs)"
proof -
  obtain v where v: "print_value x = Some v"
    "\<And>d rest. jdepth x + d \<le> CJSON_NESTING_LIMIT \<Longrightarrow> stops rest \<Longrightarrow> parse_value d (v @ rest) = Some (x, rest)"
    using assms(1) by (auto simp: reads_value_def)
  obtain t where t: "print_array xs = Some t"
    "\<And>d rest. xs \<noteq> [] \<Longrightarrow> \<forall>x\<in>set xs. jdepth x + d \<le> CJSON_NESTING_LIMIT \<Longrightarrow> array_loop d (t @ rest) = Some (xs, rest)"
    using assms(2) by (auto simp: reads_array_def)
  obtain c s where c: "v = c # s" "32 < (of_char c :: nat)" using printed_first [OF v(1) assms(3)] by blast
  have skip: "buffer_skip_whitespace (v @ u) = v @ u" for u using skip_none [OF c(2)] by (simp add: c(1))
  show ?thesis
  proof (cases xs)
    case Nil
    then have "t = '']''" using t(1) by simp
    then show ?thesis
      using v by (auto simp: reads_array_def array_loop_eq skip skip_none Nil)
  next
    case (Cons y ys)
    then show ?thesis
      using v t by (auto simp: reads_array_def array_loop_eq [of _ "v @ _"] skip skip_none)
  qed
qed

lemma reads_object_Cons:
  assumes "reads_value x" and "reads_object kvs" and "json_ok x" and "nul_free k"
  shows "reads_object ((k, x) # kvs)"
proof -
  obtain v where v: "print_value x = Some v"
    "\<And>d rest. jdepth x + d \<le> CJSON_NESTING_LIMIT \<Longrightarrow> stops rest \<Longrightarrow> parse_value d (v @ rest) = Some (x, rest)"
    using assms(1) by (auto simp: reads_value_def)
  obtain t where t: "print_object kvs = Some t"
    "\<And>d rest. kvs \<noteq> [] \<Longrightarrow> \<forall>x\<in>set kvs. jdepth (snd x) + d \<le> CJSON_NESTING_LIMIT \<Longrightarrow> object_loop d (t @ rest) = Some (kvs, rest)"
    using assms(2) by (auto simp: reads_object_def)
  obtain c s where c: "v = c # s" "32 < (of_char c :: nat)" using printed_first [OF v(1) assms(3)] by blast
  have skip: "buffer_skip_whitespace (v @ u) = v @ u" "buffer_skip_whitespace (print_string_ptr k @ u) = print_string_ptr k @ u" for u
    using skip_none [OF c(2)] skip_none [of "CHR 0x22"] by (simp_all add: c(1) print_string_ptr_def)
  note key = parse_printed_string [OF assms(4)]
  show ?thesis
  proof (cases kvs)
    case Nil
    then have "t = ''}''" using t(1) by simp
    then show ?thesis
      using v by (auto simp: reads_object_def object_loop_eq skip key skip_none Nil)
  next
    case (Cons y ys)
    then show ?thesis
      using v t by (auto simp: reads_object_def object_loop_eq [of _ "print_string_ptr k @ _"] skip key skip_none)
  qed
qed

lemma Max_bound:
  assumes "finite A"
  shows "Suc (Max (insert 0 A)) + d \<le> n \<longleftrightarrow> d < n \<and> (\<forall>a\<in>A. a + Suc d \<le> n)"
proof (cases "d < n")
  case True
  have "Suc (Max (insert 0 A)) + d \<le> n \<longleftrightarrow> Max (insert 0 A) \<le> n - Suc d" using True by linarith
  also have "\<dots> \<longleftrightarrow> (\<forall>a\<in>insert 0 A. a \<le> n - Suc d)" using assms by (intro Max_le_iff) auto
  also have "\<dots> \<longleftrightarrow> (\<forall>a\<in>A. a + Suc d \<le> n)" using True by (auto simp: le_diff_conv2)
  finally show ?thesis using True by simp
qed simp

lemma depth_members:
  "jdepth (JArray xs) + d \<le> n \<longleftrightarrow> d < n \<and> (\<forall>x\<in>set xs. jdepth x + Suc d \<le> n)"
  "jdepth (JObject kvs) + d \<le> n \<longleftrightarrow> d < n \<and> (\<forall>x\<in>set kvs. jdepth (snd x) + Suc d \<le> n)"
  using Max_bound [of "jdepth ` set xs" d n] Max_bound [of "(\<lambda>(k, j). jdepth j) ` set kvs" d n]
  by (simp_all add: split_def del: Max_insert)

lemma reads_value_array:
  assumes "reads_array xs" and "list_all json_ok xs"
  shows "reads_value (JArray xs)"
proof -
  obtain t where t: "print_array xs = Some t"
    "\<And>d rest. xs \<noteq> [] \<Longrightarrow> \<forall>x\<in>set xs. jdepth x + d \<le> CJSON_NESTING_LIMIT \<Longrightarrow> array_loop d (t @ rest) = Some (xs, rest)"
    using assms(1) by (auto simp: reads_array_def)
  have "parse_array d (CHR ''['' # t @ rest) = Some (JArray xs, rest)" if "jdepth (JArray xs) + d \<le> CJSON_NESTING_LIMIT" for d rest
  proof (cases xs)
    case Nil
    then have "t = '']''" using t(1) by simp
    then show ?thesis using that by (simp add: parse_array.simps skip_none Nil)
  next
    case (Cons x ys)
    then obtain v r where v: "print_value x = Some v" "t = v @ r"
      using t(1) by (auto split: option.split_asm)
    moreover have "json_ok x" using assms(2) Cons by simp
    ultimately obtain c s where c: "v = c # s" "32 < (of_char c :: nat)" "c \<noteq> CHR '']''" using printed_first [OF v(1)] by blast
    have "array_loop (Suc d) (t @ rest) = Some (xs, rest)" using t(2) [of "Suc d"] that Cons by (simp only: depth_members) simp
    then show ?thesis using that c v(2) by (simp add: parse_array.simps [of d "CHR ''['' # _"] skip_none depth_members)
  qed
  then show ?thesis using t(1) by (auto simp: reads_value_def parse_value_first is_digit_def)
qed

lemma reads_value_object:
  assumes "reads_object kvs"
  shows "reads_value (JObject kvs)"
proof -
  obtain t where t: "print_object kvs = Some t"
    "\<And>d rest. kvs \<noteq> [] \<Longrightarrow> \<forall>x\<in>set kvs. jdepth (snd x) + d \<le> CJSON_NESTING_LIMIT \<Longrightarrow> object_loop d (t @ rest) = Some (kvs, rest)"
    using assms(1) by (auto simp: reads_object_def)
  have "parse_object d (CHR ''{'' # t @ rest) = Some (JObject kvs, rest)" if "jdepth (JObject kvs) + d \<le> CJSON_NESTING_LIMIT" for d rest
  proof (cases kvs)
    case Nil
    then have "t = ''}''" using t(1) by simp
    then show ?thesis using that by (simp add: parse_object.simps skip_none Nil)
  next
    case (Cons x ys)
    then obtain s where s: "t = CHR 0x22 # s" using t(1) by (cases x) (auto simp: print_string_ptr_def split: option.split_asm)
    have "object_loop (Suc d) (t @ rest) = Some (kvs, rest)" using t(2) [of "Suc d"] that Cons by (simp only: depth_members) simp
    then show ?thesis using that s by (simp add: parse_object.simps [of d "CHR ''{'' # _"] skip_none depth_members)
  qed
  then show ?thesis using t(1) by (auto simp: reads_value_def parse_value_first is_digit_def)
qed

lemma reads_back: "json_ok j \<Longrightarrow> reads_value j"
proof (induction j)
  case (JNumber d)
  then obtain x where x: "d = Fin x" "representable x" by (auto split: dbl.split_asm)
  obtain t where t: "print_number (Fin x) = Some t" by (rule printed_number [OF x(2)])
  have "parse_value d' (t @ rest) = Some (JNumber (Fin x), rest)" if "stops rest" for d' rest
    using parse_printed_number [OF x(2), of rest d'] that t by (auto simp: stops_def)
  then show ?case using t x(1) by (simp add: reads_value_def)
next
  case (JText s)
  then show ?case
    using parse_printed_string by (auto simp: reads_value_def parse_value_first print_string_ptr_def)
next
  case (JArray xs)
  then have "reads_array xs"
  proof (induction xs)
    case (Cons x xs)
    then show ?case by (intro reads_array_Cons) auto
  qed (simp add: reads_array_def)
  then show ?case using JArray.prems by (intro reads_value_array) simp_all
next
  case (JObject kvs)
  then have "reads_object kvs"
  proof (induction kvs)
    case (Cons x kvs)
    obtain k j where x: "x = (k, j)" by (cases x)
    have "reads_value j" using Cons.prems(1) [of x j] Cons.prems(2) by (simp add: x)
    moreover have "reads_object kvs"
    proof (rule Cons.IH)
      show "reads_value z" if "y \<in> set kvs" "z \<in> Basic_BNFs.snds y" "json_ok z" for y z
        using Cons.prems(1) [of y z] that by simp
      show "json_ok (JObject kvs)" using Cons.prems(2) by simp
    qed
    ultimately show ?case using Cons.prems(2) by (simp add: x reads_object_Cons)
  qed (simp add: reads_object_def)
  then show ?case by (rule reads_value_object)
qed (auto simp: reads_value_def parse_value.simps)

section \<open>The round trip\<close>

lemma number_char_not_nul: "number_char c \<Longrightarrow> c \<noteq> CHR 0x00"
  by (auto simp: number_char_def is_digit_def)

lemma nul_free_simps [simp]: "nul_free []" "nul_free (c # s) \<longleftrightarrow> c \<noteq> CHR 0x00 \<and> nul_free s"
  "nul_free (s @ t) \<longleftrightarrow> nul_free s \<and> nul_free t"
  by (auto simp: nul_free_def)

lemma nul_free_escape: "nul_free (escape_char c)"
proof (cases c rule: escape_cases)
  case plain
  have "c \<noteq> CHR 0x00"
  proof
    assume "c = CHR 0x00"
    then have "hd (escape_char c) = CHR 0x5C" by (simp add: escape_char_def)
    with plain show False by simp
  qed
  then show ?thesis using plain by simp
next
  case (short d)
  then show ?thesis by (auto simp: escaped_char_def split: if_split_asm)
next
  case (hex n)
  have "hex_char d \<noteq> CHR 0x00" if "d < 16" for d
  proof -
    have "(of_char (hex_char d) :: nat) \<noteq> 0" using that by (auto simp: hex_char_def)
    then show ?thesis by auto
  qed
  then show ?thesis using hex by simp
qed

lemma nul_free_string: "nul_free (print_string_ptr s)"
proof -
  have "nul_free (concat (map escape_char s))" by (induction s) (simp_all add: nul_free_escape)
  then show ?thesis by (simp add: print_string_ptr_def)
qed

lemma print_nul_free:
  "print_value j = Some t \<Longrightarrow> json_ok j \<Longrightarrow> nul_free t"
  "print_array xs = Some t \<Longrightarrow> list_all json_ok xs \<Longrightarrow> nul_free t"
  "print_object kvs = Some t \<Longrightarrow> json_ok (JObject kvs) \<Longrightarrow> nul_free t"
proof (induction j and xs and kvs arbitrary: t and t and t rule: print_value_print_array_print_object.induct)
  case (3 d)
  then obtain x where x: "d = Fin x" "representable x" by (auto split: dbl.split_asm)
  obtain t' where t': "print_number (Fin x) = Some t'" "list_all number_char t'" by (rule printed_number [OF x(2)])
  then show ?case using 3 x(1) number_char_not_nul by (auto simp: nul_free_def list_all_iff)
qed (auto simp: nul_free_string split: option.split_asm)

lemma serialize_deserialize:
  assumes "json_ok j" and "jdepth j \<le> CJSON_NESTING_LIMIT"
  shows "\<exists>t. LDJSONSerialize (Some j) = Some t \<and> nul_free t \<and> LDJSONDeserialize (Some t) = Some j"
proof -
  obtain t where t: "print_value j = Some t"
    "\<And>d rest. jdepth j + d \<le> CJSON_NESTING_LIMIT \<Longrightarrow> stops rest \<Longrightarrow> parse_value d (t @ rest) = Some (j, rest)"
    using reads_back [OF assms(1)] by (auto simp: reads_value_def)
  obtain c s where c: "t = c # s" "32 < (of_char c :: nat)" "(of_char c :: nat) < 128"
    using printed_first [OF t(1) assms(1)] by blast
  have "c \<noteq> CHR 0xEF" using c(3) by auto
  then have "skip_utf8_bom (t @ [CHR 0x00]) = t @ [CHR 0x00]" by (simp add: skip_utf8_bom_def c(1))
  moreover have "buffer_skip_whitespace (t @ [CHR 0x00]) = t @ [CHR 0x00]" using skip_none [OF c(2)] by (simp add: c(1))
  ultimately have "LDJSONDeserialize (Some t) = Some j"
    using t(2) [of 0 "[CHR 0x00]"] assms(2)
    by (simp add: LDJSONDeserialize_def cJSON_Parse_def cJSON_ParseWithOpts_def)
  then show ?thesis using t(1) print_nul_free(1) [OF t(1) assms(1)] by (simp add: LDJSONSerialize_def)
qed

text \<open>C18: the JSON text round trip: every value whose numbers are finite doubles and whose strings contain no
  NUL, nested at most as deep as the parser allows, is serialized to a text (a C string), and
  deserializing that text gives back exactly that value: the digits printed identify every
  double, every string survives its escapes, and the members of objects keep their order.\<close>

theorem json_roundtrip:
  assumes "json_ok j" and "jdepth j \<le> CJSON_NESTING_LIMIT"
  shows "\<exists>t. LDJSONSerialize (Some j) = Some t \<and> nul_free t \<and> LDJSONDeserialize (Some t) = Some j"
  by (rule serialize_deserialize [OF assms])

definition sample_json :: LDJSON where
  "sample_json = JObject [(''list'', JArray [JNull, JBool True, JNumber (Fin (- 12)), JText ''a b'']), ([CHR 0x22, CHR 0x0A], JObject [])]"

theorem json_roundtrip_witness:
  "\<exists>t. LDJSONSerialize (Some sample_json) = Some t \<and> nul_free t \<and> LDJSONDeserialize (Some t) = Some sample_json"
proof (rule json_roundtrip)
  have "representable (- 12)" using fl64_int [of "- 12"] by (simp add: representable_def)
  then show "json_ok sample_json" by (simp add: sample_json_def nul_free_def)
  show "jdepth sample_json \<le> CJSON_NESTING_LIMIT" by (simp add: sample_json_def CJSON_NESTING_LIMIT_def)
qed

end
