(* ===== verification/StreamFlow.thy ===== *)
theory StreamFlow
  imports Streaming JsonRoundtrip
begin

text \<open>
  The streaming source from the bytes of the connection to the store, and its reconnection
  policy.
\<close>

section \<open>Messages of the service\<close>

fun kind_path :: "FeatureKind \<Rightarrow> string" where
  "kind_path LD_FLAG = ''/flags/''"
| "kind_path LD_SEGMENT = ''/segments/''"

datatype message = Put LDJSON | Update store_update

fun message_name :: "message \<Rightarrow> string" where
  "message_name (Put data) = ''put''"
| "message_name (Update (Upsert kind item)) = ''patch''"
| "message_name (Update (Remove kind key version)) = ''delete''"

fun message_body :: "message \<Rightarrow> LDJSON" where
  "message_body (Put data) = JObject [(''path'', JText ''/''), (''data'', data)]"
| "message_body (Update (Upsert kind item)) =
     JObject [(''path'', JText (kind_path kind @ item_key item)), (''data'', item)]"
| "message_body (Update (Remove kind key version)) =
     JObject [(''path'', JText (kind_path kind @ key)), (''version'', JNumber (uint_to_dbl version))]"

definition message_event :: "message \<Rightarrow> string \<times> string" where
  "message_event m = (message_name m, the (LDJSONSerialize (Some (message_body m))))"

text \<open>What the store is initialised with after a \<open>put\<close>.\<close>

definition put_data :: "LDJSON \<Rightarrow> LDJSON" where
  "put_data data = set_key (delete_key data ''flags'') ''features'' (the (LDObjectLookup (Some data) ''flags''))"

fun message_ok :: "message \<Rightarrow> bool" where
  "message_ok (Put data) \<longleftrightarrow> validatePutBody data \<and> init_data_ok (put_data data)"
| "message_ok (Update u) \<longleftrightarrow> valid_item (update_item u)"

definition transmissible :: "message \<Rightarrow> bool" where
  "transmissible m \<longleftrightarrow> message_ok m \<and> json_ok (message_body m) \<and> jdepth (message_body m) \<le> CJSON_NESTING_LIMIT"

lemma message_text:
  assumes "transmissible m"
  shows "nul_free (snd (message_event m))" and "LDJSONDeserialize (Some (snd (message_event m))) = Some (message_body m)"
  using serialize_deserialize [of "message_body m"] assms by (auto simp: transmissible_def message_event_def)

lemma parsePath_kind: "LDi_parsePath (kind_path kind @ key) = PARSE_PATH_SUCCESS kind key"
  by (cases kind) (simp_all add: LDi_parsePath_def)

lemma init_from_body_put:
  assumes "validatePutBody data"
  shows "init_from_body store data = LDStoreInit store (put_data data)"
proof -
  obtain kvs where "data = JObject kvs" using assms by (cases data) (auto simp: validatePutBody_def)
  then show ?thesis using assms
    by (auto simp: init_from_body_def put_data_def validatePutBody_def LDObjectDetachKey_def set_key_JObject delete_key_JObject split: option.split_asm)
qed

section \<open>One message\<close>

fun apply_message :: "'s LDStore \<Rightarrow> message \<Rightarrow> (bool \<times> 's LDStore) exec" where
  "apply_message store (Put data) = LDStoreInit store (put_data data)"
| "apply_message store (Update u) = apply_update store u"

lemma onEvent_message:
  assumes "transmissible m"
  shows "LDi_onEvent (fst (message_event m)) (snd (message_event m)) store = apply_message store m"
proof (cases m)
  case (Put data)
  then have "validatePutBody data" using assms by (simp add: transmissible_def)
  then show ?thesis
    using Put message_text(2) [OF assms] init_from_body_put [of data store]
    by (simp add: LDi_onEvent_def message_event_def onPut_def LDObjectDetachKey_def)
next
  case (Update u)
  show ?thesis
  proof (cases u)
    case (Upsert kind item)
    then show ?thesis
      using Update message_text(2) [OF assms]
      by (simp add: LDi_onEvent_def message_event_def onPatch_def getEventPath_def parsePath_kind LDObjectDetachKey_def)
  next
    case (Remove kind key version)
    then show ?thesis
      using Update message_text(2) [OF assms]
      by (simp add: LDi_onEvent_def message_event_def onDelete_def getEventPath_def parsePath_kind)
  qed
qed

section \<open>A connection\<close>

text \<open>What the messages make of a store: a \<open>put\<close> replaces everything, an update wins if it is newer.\<close>

fun kind_member :: "FeatureKind \<Rightarrow> string" where
  "kind_member LD_FLAG = ''flags''"
| "kind_member LD_SEGMENT = ''segments''"

fun message_view :: "store_view \<Rightarrow> message \<Rightarrow> store_view" where
  "message_view w (Put data) = (\<lambda>kind k. map_of (keyed_items (obj_lookup data (kind_member kind))) k)"
| "message_view w (Update u) = newer_wins w (update_kind u) (update_item u)"

definition stream_view :: "store_view \<Rightarrow> message list \<Rightarrow> store_view" where
  "stream_view = foldl message_view"

fun is_put :: "message \<Rightarrow> bool" where
  "is_put (Put data) \<longleftrightarrow> True"
| "is_put (Update u) \<longleftrightarrow> False"

text \<open>libcurl hands over the bytes with the clock readings of the callback, and gives the
  transfer up when the callback does not accept them all.\<close>

fun receive :: "(string \<times> dbl) list \<Rightarrow> StreamContext \<Rightarrow> 's LDStore \<Rightarrow> (bool \<times> StreamContext \<times> 's LDStore) exec" where
  "receive [] context store = Inr (True, context, store)"
| "receive ((bytes, now) # writes) context store =
     exec_bind (LDi_streamWriteCallback bytes context store (Some now)) (\<lambda>(n, context, store).
       if n = length bytes then receive writes context store else Inr (False, context, store))"

lemma put_data_lookup:
  assumes "validatePutBody data" and "init_data_ok (put_data data)"
  shows "obj_lookup (put_data data) (featureKindToString kind) = obj_lookup data (kind_member kind)"
proof -
  obtain kvs where data: "data = JObject kvs" using assms by (cases data) (auto simp: validatePutBody_def)
  have "distinct (map fst (del_first ''features'' (del_first ''flags'' kvs) @ [(''features'', the (obj_lookup data ''flags''))]))"
    using assms(2) by (simp add: data init_data_ok_def obj_inv_def put_data_def set_key_JObject delete_key_JObject)
  then have "map_of (del_first ''features'' (del_first ''flags'' kvs)) ''features'' = None"
    by (simp add: map_of_eq_None_iff)
  then show ?thesis using assms(1)
    by (cases kind) (auto simp: data put_data_def set_key_JObject delete_key_JObject validatePutBody_def map_add_def split: option.split_asm)
qed

lemma storeUpsert_initialized:
  "storeUpsert ctx kind key item = Inr (ok, ctx') \<Longrightarrow> ms_initialized ctx' = ms_initialized ctx"
  by (cases kind) (auto simp: storeUpsert_def addToStore_def removeAndDeleteItem_def Let_def exec_bind_eq_Inr split: option.splits if_splits)

lemma apply_message_put:
  assumes "message_ok (Put data)"
  shows "\<exists>ctx'. LDStoreInit (memory_handle ctx) (put_data data) = Inr (True, memory_handle ctx') \<and> ms_inv ctx' \<and>
     ms_view ctx' = message_view w (Put data) \<and> ms_initialized ctx'"
proof -
  obtain ctx' where c: "storeInit ctx (put_data data) = Inr (True, ctx')" "ms_inv ctx'" "ms_initialized ctx'"
    "\<forall>kind k. ms_view ctx' kind k = map_of (keyed_items (obj_lookup (put_data data) (featureKindToString kind))) k"
    using storeInit_ok [of "put_data data" ctx] assms by auto
  moreover have "ms_view ctx' = message_view w (Put data)"
    using c(4) put_data_lookup [of data] assms by (intro ext) simp
  ultimately show ?thesis
    by (auto simp: memory_handle_def LDStoreInit_def store_with_def LDStoreMemoryNew_def)
qed

lemma memory_reads:
  "ms_inv ctx \<Longrightarrow> LDStoreGet (memory_handle ctx) kind k = Inr (True, visible (ms_view ctx kind k), memory_handle ctx)"
  using mem.get_view [of ctx] by (simp add: memory_handle_def)

lemma memory_initialized: "LDStoreInitialized (memory_handle ctx) = (ms_initialized ctx, memory_handle ctx)"
  by (simp add: LDStoreInitialized_def memory_handle_def store_with_def LDStoreMemoryNew_def storeInitialized_def)

lemma apply_message_view:
  assumes "ms_inv ctx" and "message_ok m"
  shows "\<exists>ctx'. apply_message (memory_handle ctx) m = Inr (True, memory_handle ctx') \<and> ms_inv ctx' \<and>
     ms_view ctx' = message_view (ms_view ctx) m \<and> (ms_initialized ctx' \<longleftrightarrow> ms_initialized ctx \<or> is_put m)"
proof (cases m)
  case (Put data)
  then show ?thesis using apply_message_put [of data ctx "ms_view ctx"] assms(2) by auto
next
  case (Update u)
  then obtain ctx' where c: "apply_update (memory_handle ctx) u = Inr (True, memory_handle ctx')" "ms_inv ctx'"
    "ms_view ctx' = newer_wins (ms_view ctx) (update_kind u) (update_item u)"
    using mem.update_newer [of ctx u] assms by (auto simp: memory_handle_def)
  moreover have "ms_initialized ctx' = ms_initialized ctx"
    using c(1) storeUpsert_initialized
    by (cases u) (auto simp: LDStoreUpsert_def LDStoreRemove_def memory_handle_def store_with_def LDStoreMemoryNew_def exec_bind_eq_Inr split: if_splits)
  ultimately show ?thesis using Update by auto
qed

lemma run_messages:
  assumes "ms_inv ctx" and "list_all transmissible ms"
  shows "\<exists>ctx'. run_events LDi_onEvent (map message_event ms) (memory_handle ctx) = Inr (True, memory_handle ctx') \<and>
     ms_inv ctx' \<and> ms_view ctx' = stream_view (ms_view ctx) ms \<and> (ms_initialized ctx' \<longleftrightarrow> ms_initialized ctx \<or> list_ex is_put ms)"
  using assms
proof (induction ms arbitrary: ctx)
  case (Cons m ms)
  then have m: "transmissible m" "list_all transmissible ms" by simp_all
  obtain c1 where c1: "apply_message (memory_handle ctx) m = Inr (True, memory_handle c1)" "ms_inv c1"
    "ms_view c1 = message_view (ms_view ctx) m" "ms_initialized c1 \<longleftrightarrow> ms_initialized ctx \<or> is_put m"
    using apply_message_view [OF Cons.prems(1)] m(1) by (auto simp: transmissible_def)
  then show ?case using Cons.IH [OF c1(2) m(2)] by (auto simp: onEvent_message [OF m(1)] stream_view_def)
qed (auto simp: stream_view_def)

lemma receive_feed:
  "feed LDi_onEvent (st_parser sc) (map fst writes) store = Inr (True, p, store') \<Longrightarrow>
     \<exists>sc'. receive writes sc store = Inr (True, sc', store') \<and> st_parser sc' = p"
proof (induction writes arbitrary: sc store)
  case (Cons w writes)
  obtain bytes now where w: "w = (bytes, now)" by (cases w)
  obtain q s where q: "LDSSEParserProcess LDi_onEvent (st_parser sc) bytes store = Inr (True, q, s)"
    "feed LDi_onEvent q (map fst writes) s = Inr (True, p, store')"
    using Cons.prems by (auto simp: w exec_bind_eq_Inr split: if_splits)
  then show ?case
    using Cons.IH [of "sc\<lparr>st_lastReadTimeMilliseconds := now, st_parser := q\<rparr>" s]
    by (simp add: w LDi_streamWriteCallback_def LDi_getMonotonicMilliseconds_def)
qed simp

text \<open>C8: from the bytes to the store: when the bytes of a connection, cut into pieces in any way, are the
  wire form of a sequence of \<open>put\<close>, \<open>patch\<close> and \<open>delete\<close> messages with valid data, the write
  callback accepts all of them, and the memory store then answers every read with the items of
  the last \<open>put\<close> overtaken by the newer updates after it; the store is initialised once a \<open>put\<close>
  arrived.\<close>

theorem stream_synchronizes_store:
  assumes "sse_inv (st_parser sc)" and "idle (st_parser sc)" and "pending (st_parser sc) = []"
    and "ms_inv ctx" and "list_all transmissible ms"
    and "concat (map fst writes) = concat (map (sse_text \<circ> message_event) ms)"
  shows "\<exists>sc' store'. receive writes sc (memory_handle ctx) = Inr (True, sc', store') \<and>
     (\<forall>kind k. LDStoreGet store' kind k = Inr (True, visible (stream_view (ms_view ctx) ms kind k), store')) \<and>
     LDStoreInitialized store' = (ms_initialized ctx \<or> list_ex is_put ms, store')"
proof -
  have "sendable (message_event m)" if "m \<in> set ms" for m
  proof -
    have "nul_free (snd (message_event m))" using that assms(5) by (intro message_text) (auto simp: list_all_iff)
    moreover have "CHR 0x00 \<notin> set (message_name m) \<and> CHR 0x0A \<notin> set (message_name m)"
      by (cases m rule: message_name.cases) simp_all
    ultimately show ?thesis by (simp add: sendable_def message_event_def nul_free_def)
  qed
  then have "list_all sendable (map message_event ms)" by (simp add: list_all_iff)
  moreover obtain ctx' where c: "run_events LDi_onEvent (map message_event ms) (memory_handle ctx) = Inr (True, memory_handle ctx')"
    "ms_inv ctx'" "ms_view ctx' = stream_view (ms_view ctx) ms" "ms_initialized ctx' \<longleftrightarrow> ms_initialized ctx \<or> list_ex is_put ms"
    using run_messages [OF assms(4,5)] by blast
  ultimately have "exec_bind (feed LDi_onEvent (st_parser sc) (map fst writes) (memory_handle ctx)) (\<lambda>(ok, p, ctx). Inr (ok, ctx)) =
      Inr (True, memory_handle ctx')"
    using stream_delivers_run [OF assms(1-3), of "map message_event ms" "map fst writes" LDi_onEvent "memory_handle ctx"] assms(6) by simp
  then obtain p where "feed LDi_onEvent (st_parser sc) (map fst writes) (memory_handle ctx) = Inr (True, p, memory_handle ctx')"
    by (auto simp: exec_bind_eq_Inr)
  then obtain sc' where "receive writes sc (memory_handle ctx) = Inr (True, sc', memory_handle ctx')"
    using receive_feed by blast
  moreover have "LDStoreGet (memory_handle ctx') kind k =
      Inr (True, visible (stream_view (ms_view ctx) ms kind k), memory_handle ctx')" for kind k
    using memory_reads [OF c(2)] c(3) by simp
  moreover have "LDStoreInitialized (memory_handle ctx') = (ms_initialized ctx \<or> list_ex is_put ms, memory_handle ctx')"
    using memory_initialized [of ctx'] c(4) by simp
  ultimately show ?thesis by blast
qed

definition sample_messages :: "message list" where
  "sample_messages = [Put (JObject [(''flags'', JObject [(''a'', sample_item ''a'' 1)]), (''segments'', JObject [])]),
     Update (Upsert LD_FLAG (sample_item ''a'' 3)), Update (Remove LD_SEGMENT ''s'' 2)]"

definition sample_writes :: "(string \<times> dbl) list" where
  "sample_writes = (let s = concat (map (sse_text \<circ> message_event) sample_messages) in
     [(take 9 s, Fin 100), ([], Fin 150), (drop 9 s, Fin 200)])"

lemma sample_transmissible: "list_all transmissible sample_messages"
proof -
  have rep: "representable 1" "representable 2" "representable 3"
    using fl64_int [of 1] fl64_int [of 2] fl64_int [of 3] by (simp_all add: representable_def)
  have put: "put_data (JObject [(''flags'', JObject [(''a'', i)]), (''segments'', JObject [])]) =
      JObject [(''segments'', JObject []), (''features'', JObject [(''a'', i)])]" for i
    by (simp add: put_data_def set_key_JObject delete_key_JObject)
  have "list_all valid_item (iter_values (obj_lookup (JObject [(''segments'', JObject []), (''features'', JObject [(''a'', sample_item ''a'' 1)])]) (featureKindToString kind))) \<and>
     distinct (map fst (keyed_items (obj_lookup (JObject [(''segments'', JObject []), (''features'', JObject [(''a'', sample_item ''a'' 1)])]) (featureKindToString kind))))" for kind
    by (cases kind) (simp_all add: keyed_items_def)
  then have "init_data_ok (JObject [(''segments'', JObject []), (''features'', JObject [(''a'', sample_item ''a'' 1)])])"
    by (simp add: init_data_ok_def) (simp add: obj_inv_def)
  then have ok: "list_all message_ok sample_messages"
    by (simp add: sample_messages_def put validatePutBody_def)
  have "list_all (\<lambda>m. json_ok (message_body m) \<and> jdepth (message_body m) \<le> CJSON_NESTING_LIMIT) sample_messages"
    using rep by (simp add: sample_messages_def sample_item_def uint_to_dbl_def nul_free_def CJSON_NESTING_LIMIT_def item_key_def LDi_getDataKey_def)
  with ok show ?thesis by (simp add: transmissible_def list_all_iff)
qed

theorem stream_synchronizes_store_witness:
  "\<exists>sc' store'. receive sample_writes LDi_constructStreamContext (memory_handle memory_context) = Inr (True, sc', store') \<and>
     (\<forall>kind k. LDStoreGet store' kind k = Inr (True, visible (stream_view (ms_view memory_context) sample_messages kind k), store')) \<and>
     LDStoreInitialized store' = (ms_initialized memory_context \<or> list_ex is_put sample_messages, store')"
proof (rule stream_synchronizes_store [OF _ _ _ memory_context_inv sample_transmissible])
  show "sse_inv (st_parser LDi_constructStreamContext)" "idle (st_parser LDi_constructStreamContext)"
    "pending (st_parser LDi_constructStreamContext) = []"
    by (simp_all add: LDi_constructStreamContext_def sse_inv_init init_idle)
qed (simp add: sample_writes_def Let_def)

end
