(* ===== verification/Reconnect.thy ===== *)
theory Reconnect
  imports Streaming
begin

text \<open>
  When the streaming source reconnects, \<open>src/streaming.c\<close>: the bounds of the backoff, that
  polling comes back after it, and the failures after which it does not.
\<close>

section \<open>The time to wait\<close>

definition backoff_cap :: "uint \<Rightarrow> nat" where
  "backoff_cap attempts = min 30000 (500 * 2 ^ unat attempts)"

lemma backoff_capped:
  "(let backoff = dbl_div_const (dbl_mul_const (pow2 n) 1000) 2
    in if dbl_lt (Fin 30000) backoff then Fin 30000 else backoff) = Fin (of_nat (backoff_cap n))"
proof (cases "unat n < 6")
  case True
  then have "(2::nat) ^ unat n \<le> 2 ^ 5" by (intro power_increasing) simp_all
  then have small: "(1000::nat) * 2 ^ unat n \<le> 1000 * 2 ^ 5" "(500::nat) * 2 ^ unat n \<le> 500 * 2 ^ 5" by simp_all
  have "fl64 (2 ^ unat n * 1000) = Fin (2 ^ unat n * 1000)"
    using fl64_nat [of "1000 * 2 ^ unat n"] small(1) by (simp add: mult.commute)
  moreover have "fl64 (500 * 2 ^ unat n) = Fin (500 * 2 ^ unat n)"
    using fl64_nat [of "500 * 2 ^ unat n"] small(2) by simp
  moreover have "(of_nat (500 * 2 ^ unat n) :: rat) \<le> of_nat (500 * 2 ^ 5)" using small(2) by (simp only: of_nat_le_iff)
  moreover have "backoff_cap n = 500 * 2 ^ unat n" using small(2) by (simp add: backoff_cap_def)
  ultimately show ?thesis using True by (simp add: pow2_def Let_def)
next
  case False
  then have big: "(2::nat) ^ 6 \<le> 2 ^ unat n" by (intro power_increasing) simp_all
  then have cap: "backoff_cap n = 30000" by (simp add: backoff_cap_def)
  have ex: "fl64 64000 = Fin 64000" "fl64 32000 = Fin 32000" using fl64_nat [of 64000] fl64_nat [of 32000] by simp_all
  have "dbl_le (Fin 64000) (dbl_mul_const (pow2 n) 1000)"
  proof (cases "unat n < 1024")
    case True
    have "(of_nat (2 ^ 6) :: rat) \<le> of_nat (2 ^ unat n)" using big by (simp only: of_nat_le_iff)
    then show ?thesis using True fl_mono [of 64000 "2 ^ unat n * 1000" 53 "- 1074" 1024] ex(1)
      by (simp add: pow2_def fl64_def)
  qed (simp add: pow2_def dbl_le_def)
  then have "dbl_le (Fin 32000) (dbl_div_const (dbl_mul_const (pow2 n) 1000) 2)"
  proof (cases "dbl_mul_const (pow2 n) 1000")
    case (Fin x)
    with \<open>dbl_le (Fin 64000) _\<close> show ?thesis
      using fl_mono [of 32000 "x / 2" 53 "- 1074" 1024] ex(2) by (simp add: fl64_def)
  qed (auto simp: dbl_le_def)
  then have "dbl_lt (Fin 30000) (dbl_div_const (dbl_mul_const (pow2 n) 1000) 2)"
    using dbl_lt_le_trans [of "Fin 30000" "Fin 32000"] by simp
  then show ?thesis using cap by (simp add: Let_def)
qed

lemma backoff_time_bounds:
  assumes "unat rng \<le> unat LD_RAND_MAX" and "2 \<le> unat n"
  obtains y where "backoff_time n rng = Fin y" and "of_nat (backoff_cap n div 2) \<le> y" and "y \<le> of_nat (backoff_cap n)"
proof -
  obtain k where k: "unat n = Suc k" using assms(2) by (cases "unat n") auto
  have "even (backoff_cap n)" by (simp add: backoff_cap_def k min_def)
  then obtain h where h: "backoff_cap n = 2 * h" by (auto elim: evenE)
  have small: "h \<le> 15000" using h by (simp add: backoff_cap_def)
  have cap: "(let backoff = dbl_div_const (dbl_mul_const (pow2 n) 1000) 2
    in if dbl_lt (Fin 30000) backoff then Fin 30000 else backoff) = Fin (of_nat (2 * h))"
    unfolding backoff_capped h ..
  have half: "dbl_div_const (Fin (of_nat (2 * h))) 2 = Fin (of_nat h)" using fl64_nat [of h] small by simp
  obtain z where z: "LDi_normalize (uint_to_dbl rng) (Fin 0) (uint_to_dbl LD_RAND_MAX) (Fin 0) (Fin (of_nat h)) = Fin z"
    "0 \<le> z" "z \<le> of_nat h"
    using normalize_bounds [OF assms(1), of h] small by auto
  obtain y where y: "fl64 (of_nat h + z) = Fin y" "of_nat h \<le> y" "y \<le> of_nat (2 * h)"
    using fl64_between [of "of_nat h" "of_nat h + z" "of_nat (2 * h)"] fl64_nat [of h] fl64_nat [of "2 * h"] small z(2,3) by auto
  have "backoff_time n rng = Fin y"
    using cap half z(1) y(1) unfolding backoff_time_def Let_def by simp
  then show ?thesis using that y(2,3) by (simp add: h)
qed

lemma deadline:
  assumes "x < 2 ^ 52" and "of_nat lo \<le> y" and "y \<le> of_nat hi" and "hi \<le> 30000"
  obtains w where "dbl_to_ulong (dbl_add (Fin (of_nat x)) (Fin y)) = Inr w"
    and "x + lo \<le> unat w" and "unat w \<le> x + hi" and "ulong_to_dbl w = Fin (of_nat (unat w))"
proof -
  have le: "(of_nat lo :: rat) \<le> of_nat hi" using assms(2,3) by linarith
  then have le': "lo \<le> hi" by (simp only: of_nat_le_iff)
  obtain z where z: "fl64 (of_nat x + y) = Fin z" "of_nat (x + lo) \<le> z" "z \<le> of_nat (x + hi)"
    using fl64_between [of "of_nat (x + lo)" "of_nat x + y" "of_nat (x + hi)"] assms le' fl64_nat [of "x + lo"] fl64_nat [of "x + hi"]
    by auto
  define w where "w = nat \<lfloor>z\<rfloor>"
  have pos: "0 \<le> z" using z(2) of_nat_0_le_iff [of "x + lo"] by linarith
  have "int (x + lo) \<le> \<lfloor>z\<rfloor>" using z(2) by (simp add: le_floor_iff)
  then have lo: "x + lo \<le> w" by (simp add: w_def)
  have "int w \<le> int (x + hi)" using z(3) pos unfolding w_def by (simp add: floor_le_iff)
  then have hi: "w \<le> x + hi" by simp
  then have "w < 2 ^ 53" using assms(1,4) by simp
  then have w: "unat (word_of_nat w :: ulong) = w" by (simp add: unsigned_of_nat take_bit_nat_eq_self)
  have "trunc z = int w" using pos by (simp add: trunc_def w_def)
  then have "dbl_to_ulong (dbl_add (Fin (of_nat x)) (Fin y)) = Inr (word_of_nat w)"
    using \<open>w < 2 ^ 53\<close> by (simp add: dbl_to_ulong_def dbl_to_int_range_def z(1))
  moreover have "ulong_to_dbl (word_of_nat w :: ulong) = Fin (of_nat w)"
    using fl64_nat [OF \<open>w < 2 ^ 53\<close>] by (simp add: ulong_to_dbl_def w)
  ultimately show ?thesis using that [of "word_of_nat w"] lo hi unfolding w by blast
qed

section \<open>Polling after a failure\<close>

text \<open>The wait in milliseconds: a second for the first attempt, then half fixed and half random.\<close>

definition min_wait :: "uint \<Rightarrow> nat" where
  "min_wait attempts = (if attempts = 1 then 1000 else backoff_cap attempts div 2)"

definition max_wait :: "uint \<Rightarrow> nat" where
  "max_wait attempts = (if attempts = 1 then 1000 else backoff_cap attempts)"

definition poll_at :: "nat \<Rightarrow> uint \<Rightarrow> stream_env" where
  "poll_at n rng = \<lparr>se_dataSource = False, se_removed = True, se_curl = (\<lambda>_. True),
     se_now = Some (Fin (of_nat n)), se_connected = Some (Fin (of_nat n)), se_random = Some rng\<rparr>"

lemma poll_at_simps [simp]:
  "se_dataSource (poll_at n rng) = False" "se_removed (poll_at n rng) = True" "se_curl (poll_at n rng) = (\<lambda>_. True)"
  "se_now (poll_at n rng) = Some (Fin (of_nat n))" "se_connected (poll_at n rng) = Some (Fin (of_nat n))"
  "se_random (poll_at n rng) = Some rng"
  by (simp_all add: poll_at_def)

lemma connects:
  "\<exists>rq hs. stream_connect config (poll_at n rng) sc = Inr (Some rq,
     sc\<lparr>st_headers := HeaderList hs, st_active := True, st_lastReadTimeMilliseconds := Fin (of_nat n)\<rparr>)"
proof -
  obtain rq where "LDi_prepareShared (\<lambda>_. True) config (snprintf 4096 (c_streamURI config @ ''/all'')) = Some rq"
    using prepareShared_all [of "\<lambda>_. True"] by auto
  then have "stream_connect config (poll_at n rng) sc = Inr (Some (rq\<lparr>rq_headers := rq_headers rq @ [''Accept: text/event-stream'']\<rparr>),
     sc\<lparr>st_headers := HeaderList (rq_headers rq @ [''Accept: text/event-stream'']), st_active := True,
       st_lastReadTimeMilliseconds := Fin (of_nat n)\<rparr>)"
    by (simp add: stream_connect_def Let_def LDi_getMonotonicMilliseconds_def)
  then show ?thesis by blast
qed

lemma unat_at_least_2:
  fixes a :: uint
  assumes "a \<noteq> 0" and "a \<noteq> 1"
  shows "2 \<le> unat a"
proof (rule ccontr)
  assume "\<not> 2 \<le> unat a"
  then have "unat a = 0 \<or> unat a = 1" by linarith
  moreover have "a = word_of_nat (unat a)" by simp
  ultimately have "a = word_of_nat 0 \<or> a = word_of_nat 1" by metis
  with assms show False by simp
qed

lemma wait_starts:
  assumes "st_attempts sc \<noteq> 0" and "st_waitUntil sc = 0" and "n < 2 ^ 52" and "unat rng \<le> unat LD_RAND_MAX"
  obtains w where "check_backoff sc (Some (Fin (of_nat n))) (Some rng) = Inr (False, sc\<lparr>st_waitUntil := w\<rparr>)"
    and "n + min_wait (st_attempts sc) \<le> unat w" and "unat w \<le> n + max_wait (st_attempts sc)"
    and "ulong_to_dbl w = Fin (of_nat (unat w))" and "w \<noteq> 0"
proof -
  obtain w where w: "check_backoff sc (Some (Fin (of_nat n))) (Some rng) = Inr (False, sc\<lparr>st_waitUntil := w\<rparr>)"
    "n + min_wait (st_attempts sc) \<le> unat w" "unat w \<le> n + max_wait (st_attempts sc)" "ulong_to_dbl w = Fin (of_nat (unat w))"
  proof (cases "st_attempts sc = 1")
    case True
    obtain w where w: "dbl_to_ulong (dbl_add (Fin (of_nat n)) (Fin 1000)) = Inr w" "n + 1000 \<le> unat w" "unat w \<le> n + 1000"
      "ulong_to_dbl w = Fin (of_nat (unat w))"
      using deadline [OF assms(3), of 1000 1000 1000] by auto
    have "check_backoff sc (Some (Fin (of_nat n))) (Some rng) = Inr (False, sc\<lparr>st_waitUntil := w\<rparr>)"
      using True assms(2) w(1) by (simp add: check_backoff_def LDi_getMonotonicMilliseconds_def del: dbl_add.simps)
    moreover have "min_wait (st_attempts sc) = 1000" "max_wait (st_attempts sc) = 1000"
      using True by (simp_all add: min_wait_def max_wait_def)
    ultimately show ?thesis using that [of w] w(2-4) by metis
  next
    case False
    then have "2 \<le> unat (st_attempts sc)" using assms(1) by (intro unat_at_least_2)
    then obtain y where y: "backoff_time (st_attempts sc) rng = Fin y"
      "of_nat (backoff_cap (st_attempts sc) div 2) \<le> y" "y \<le> of_nat (backoff_cap (st_attempts sc))"
      using backoff_time_bounds [OF assms(4)] by blast
    have "backoff_cap (st_attempts sc) \<le> 30000" by (simp add: backoff_cap_def)
    then obtain w where w: "dbl_to_ulong (dbl_add (Fin (of_nat n)) (Fin y)) = Inr w"
      "n + backoff_cap (st_attempts sc) div 2 \<le> unat w" "unat w \<le> n + backoff_cap (st_attempts sc)"
      "ulong_to_dbl w = Fin (of_nat (unat w))"
      using deadline [OF assms(3) y(2,3)] by blast
    have "check_backoff sc (Some (Fin (of_nat n))) (Some rng) = Inr (False, sc\<lparr>st_waitUntil := w\<rparr>)"
      using False assms(1,2) w(1) y(1) by (simp add: check_backoff_def LDi_getMonotonicMilliseconds_def del: dbl_add.simps)
    then show ?thesis using that w False by (simp add: min_wait_def max_wait_def)
  qed
  have "2 \<le> backoff_cap (st_attempts sc)" by (simp add: backoff_cap_def)
  then have "0 < min_wait (st_attempts sc)" by (simp add: min_wait_def)
  then have "w \<noteq> 0" using w(2) by auto
  then show ?thesis using that w by simp
qed


text \<open>C27: after a failure polling waits and comes back: the next poll starts no request and the one after it
  starts none before the minimal wait has passed, and from the maximal wait on it does. The wait
  is one second for the first attempt, then between half and all of \<open>500 * 2 ^ attempts\<close>
  milliseconds, capped at 30 seconds.\<close>

theorem reconnects_after_backoff:
  assumes "c_stream config" and "\<not> st_permanentFailure sc" and "\<not> st_active sc"
    and "st_attempts sc \<noteq> 0" and "st_waitUntil sc = 0" and "n < 2 ^ 52" and "unat rng \<le> unat LD_RAND_MAX"
  shows "\<exists>sc1. stream_poll config (poll_at n rng) sc = Inr (None, sc1) \<and>
     (\<forall>n' rng'. n' < n + min_wait (st_attempts sc) \<longrightarrow> stream_poll config (poll_at n' rng') sc1 = Inr (None, sc1)) \<and>
     (\<forall>n' rng'. n + max_wait (st_attempts sc) \<le> n' \<and> n' < 2 ^ 52 \<longrightarrow>
        (\<exists>rq sc2. stream_poll config (poll_at n' rng') sc1 = Inr (Some rq, sc2) \<and> st_active sc2 \<and> unat (st_startedOn sc2) = n'))"
proof -
  obtain w where w: "check_backoff sc (Some (Fin (of_nat n))) (Some rng) = Inr (False, sc\<lparr>st_waitUntil := w\<rparr>)"
    "n + min_wait (st_attempts sc) \<le> unat w" "unat w \<le> n + max_wait (st_attempts sc)"
    "ulong_to_dbl w = Fin (of_nat (unat w))" "w \<noteq> 0"
    using wait_starts [OF assms(4-7)] by blast
  let ?sc = "sc\<lparr>st_waitUntil := w\<rparr>"
  have first: "stream_poll config (poll_at n rng) sc = Inr (None, ?sc)"
    using assms(1-3) w(1) by (simp add: stream_poll_def)
  have le: "dbl_le (ulong_to_dbl w) (Fin (of_nat n')) \<longleftrightarrow> unat w \<le> n'" for n'
    unfolding w(4) dbl_le_Fin of_nat_le_iff ..
  have "stream_poll config (poll_at n' rng') ?sc = Inr (None, ?sc)" if "n' < n + min_wait (st_attempts sc)" for n' rng'
    using that assms(1-4) w(2,5) le [of n']
    by (simp add: stream_poll_def check_backoff_def LDi_getMonotonicMilliseconds_def)
  moreover have "\<exists>rq sc2. stream_poll config (poll_at n' rng') ?sc = Inr (Some rq, sc2) \<and> st_active sc2 \<and> unat (st_startedOn sc2) = n'"
    if n': "n + max_wait (st_attempts sc) \<le> n' \<and> n' < 2 ^ 52" for n' rng'
  proof -
    obtain u where "dbl_to_ulong (dbl_add (Fin (of_nat n')) (Fin 0)) = Inr u" "unat u = n'"
      using deadline [of n' 0 0 0] n' by auto
    moreover have "dbl_add (Fin (of_nat n')) (Fin 0) = Fin (of_nat n')" using fl64_nat [of n'] n' by simp
    ultimately have u: "dbl_to_ulong (Fin (of_nat n')) = Inr u" "unat u = n'" by simp_all
    obtain rq hs where "stream_connect config (poll_at n' rng') (?sc\<lparr>st_waitUntil := 0, st_startedOn := u\<rparr>) = Inr (Some rq,
        ?sc\<lparr>st_waitUntil := 0, st_startedOn := u, st_headers := HeaderList hs, st_active := True,
          st_lastReadTimeMilliseconds := Fin (of_nat n')\<rparr>)" (is "_ = Inr (_, ?sc2)")
      using connects by blast
    then have "stream_poll config (poll_at n' rng') ?sc = Inr (Some rq, ?sc2)"
      using n' assms(1-4) w(3,5) le [of n'] u(1)
      by (simp add: stream_poll_def check_backoff_def LDi_getMonotonicMilliseconds_def)
    moreover have "st_active ?sc2" "unat (st_startedOn ?sc2) = n'" using u(2) by simp_all
    ultimately show ?thesis by blast
  qed
  ultimately show ?thesis using first by blast
qed

definition sample_failed :: StreamContext where
  "sample_failed = LDi_constructStreamContext\<lparr>st_attempts := 3\<rparr>"

theorem reconnects_after_backoff_witness:
  "\<exists>sc1 rq sc2. stream_poll sample_config (poll_at 100000 7) sample_failed = Inr (None, sc1) \<and>
     stream_poll sample_config (poll_at 101999 8) sc1 = Inr (None, sc1) \<and>
     stream_poll sample_config (poll_at 104000 9) sc1 = Inr (Some rq, sc2)"
proof -
  have cfg: "c_stream sample_config" by (simp add: sample_config_def LDConfigNew_def)
  have wait: "min_wait (st_attempts sample_failed) = 2000" "max_wait (st_attempts sample_failed) = 4000"
    by (simp_all add: sample_failed_def min_wait_def max_wait_def backoff_cap_def)
  obtain sc1 where "stream_poll sample_config (poll_at 100000 7) sample_failed = Inr (None, sc1)"
    "\<forall>n' rng'. n' < 100000 + min_wait (st_attempts sample_failed) \<longrightarrow> stream_poll sample_config (poll_at n' rng') sc1 = Inr (None, sc1)"
    "\<forall>n' rng'. 100000 + max_wait (st_attempts sample_failed) \<le> n' \<and> n' < 2 ^ 52 \<longrightarrow>
       (\<exists>rq sc2. stream_poll sample_config (poll_at n' rng') sc1 = Inr (Some rq, sc2) \<and> st_active sc2 \<and> unat (st_startedOn sc2) = n')"
    using reconnects_after_backoff [OF cfg, of sample_failed 100000 7]
    by (auto simp: sample_failed_def LDi_constructStreamContext_def LD_RAND_MAX_def)
  note sc1 = this(1) spec [OF spec [OF this(2), of 101999], of 8] spec [OF spec [OF this(3), of 104000], of 9]
  then show ?thesis unfolding wait by auto
qed

text \<open>Failures that cannot be repaired end the stream, all others are retried: after a response code
  from 400 to 499 other than 400, 408 and 429 no poll starts a request again, whatever the
  configuration and the clock; after any other code that is not 200 the failure is counted and
  nothing else of the reconnection state changes.\<close>

theorem failure_codes:
  assumes "code \<noteq> 200" and "st_headers sc \<noteq> Dangling"
  shows "\<exists>sc'. stream_done sc code reading = Inr sc' \<and> \<not> st_active sc' \<and> st_attempts sc' = st_attempts sc + 1 \<and>
     (if 400 \<le> code \<and> code < 500 \<and> code \<notin> {400, 408, 429}
      then \<forall>config env. stream_poll config env sc' = Inr (None, sc')
      else st_permanentFailure sc' = st_permanentFailure sc \<and> st_waitUntil sc' = st_waitUntil sc)"
proof -
  obtain hs where "free_headers (st_headers sc) = Inr hs" using assms(2) by (cases "st_headers sc") auto
  then show ?thesis using assms(1) by (auto simp: stream_done_def Let_def resetMemory_def stream_poll_def)
qed

theorem failure_codes_witness:
  "\<exists>sc'. stream_done sample_failed 401 None = Inr sc' \<and> \<not> st_active sc' \<and> st_attempts sc' = st_attempts sample_failed + 1 \<and>
     (\<forall>config env. stream_poll config env sc' = Inr (None, sc'))"
  using failure_codes [of 401 sample_failed None] by (simp add: sample_failed_def LDi_constructStreamContext_def)

text \<open>A stream that the server closes at once is reopened at once: the time of the first connection is
  not recorded, so unless the machine started less than a minute ago a connection that ends
  with code 200 is never counted as a failure, however short it was, and the next poll connects
  again without a wait, in a state that allows the same again.\<close>

theorem short_streams_reconnect_at_once:
  assumes "c_stream config" and "\<not> st_permanentFailure sc" and "\<not> st_active sc"
    and "st_attempts sc = 0" and "st_startedOn sc = 0" and "60000 \<le> n"
  shows "\<exists>rq sc1 sc2. stream_poll config (poll_at n rng) sc = Inr (Some rq, sc1) \<and>
     stream_done sc1 200 (Some (Fin (of_nat n))) = Inr sc2 \<and>
     \<not> st_permanentFailure sc2 \<and> \<not> st_active sc2 \<and> st_attempts sc2 = 0 \<and> st_startedOn sc2 = 0"
proof -
  have "(of_nat 60000 :: rat) \<le> of_nat n" using assms(6) by (simp only: of_nat_le_iff)
  moreover have "ulong_to_dbl 60000 = Fin 60000" using fl64_nat [of 60000] by (simp add: ulong_to_dbl_def)
  ultimately have late: "dbl_le (ulong_to_dbl 60000) (Fin (of_nat n))" by simp
  obtain rq hs where c: "stream_connect config (poll_at n rng) sc = Inr (Some rq,
      sc\<lparr>st_headers := HeaderList hs, st_active := True, st_lastReadTimeMilliseconds := Fin (of_nat n)\<rparr>)" (is "_ = Inr (_, ?sc)")
    using connects by blast
  have "stream_poll config (poll_at n rng) sc = Inr (Some rq, ?sc)"
    using assms(1-4) c by (simp add: stream_poll_def check_backoff_def)
  moreover have "stream_done ?sc 200 (Some (Fin (of_nat n))) = Inr (?sc\<lparr>st_active := False, st_attempts := 0,
      st_parser := LDSSEParserDestroy (st_parser ?sc), st_headers := NoHeaders\<rparr>)" (is "_ = Inr ?sc2")
    using assms(5) late by (simp add: stream_done_def Let_def resetMemory_def LDi_getMonotonicMilliseconds_def)
  moreover have "\<not> st_permanentFailure ?sc2" "\<not> st_active ?sc2" "st_attempts ?sc2 = 0" "st_startedOn ?sc2 = 0"
    using assms(2,5) by simp_all
  ultimately show ?thesis by blast
qed

theorem short_streams_reconnect_at_once_witness:
  "\<exists>rq sc1 sc2. stream_poll sample_config (poll_at 90000 7) LDi_constructStreamContext = Inr (Some rq, sc1) \<and>
     stream_done sc1 200 (Some (Fin (of_nat 90000))) = Inr sc2 \<and>
     \<not> st_permanentFailure sc2 \<and> \<not> st_active sc2 \<and> st_attempts sc2 = 0 \<and> st_startedOn sc2 = 0"
  by (rule short_streams_reconnect_at_once) (simp_all add: sample_config_def LDConfigNew_def LDi_constructStreamContext_def)

end
