(* ===== verification/Polling.thy ===== *)
theory Polling
  imports Streaming
begin

text \<open>
  The polling data source, \<open>src/polling.c\<close>: it downloads all flags and segments at intervals and
  initialises the store with them.
\<close>

text \<open>An empty response leaves no text, which \<open>updateStore\<close> asserts.\<close>

definition updateStore :: "'s LDStore \<Rightarrow> string option \<Rightarrow> (bool \<times> 's LDStore) exec" where
  "updateStore store rawupdate = (case rawupdate of None \<Rightarrow> Inl AssertFailed
     | Some raw \<Rightarrow> (case LDJSONDeserialize (Some raw) of None \<Rightarrow> Inr (False, store)
         | Some update \<Rightarrow>
             if \<not> validatePutBody update then Inr (False, store) else init_from_body store update))"

record PollContext =
  pc_memory :: "string option"
  pc_size :: nat
  pc_headers :: header_list
  pc_active :: bool
  pc_lastpoll :: dbl

definition LDi_constructPolling :: PollContext where
  "LDi_constructPolling = \<lparr>pc_memory = None, pc_size = 0, pc_headers = NoHeaders, pc_active = False, pc_lastpoll = Fin 0\<rparr>"

text \<open>The bytes received so far; a size without a buffer would leave bytes that were never written.\<close>

definition writeCallback :: "string \<Rightarrow> PollContext \<Rightarrow> (nat \<times> PollContext) exec" where
  "writeCallback contents mem = (case pc_memory mem of
       None \<Rightarrow> if pc_size mem \<noteq> 0 then Inl Uninitialized
         else Inr (length contents, mem\<lparr>pc_memory := Some contents, pc_size := length contents\<rparr>)
     | Some memory \<Rightarrow> Inr (length contents,
         mem\<lparr>pc_memory := Some (take (pc_size mem) memory @ contents), pc_size := pc_size mem + length contents\<rparr>))"

definition poll_resetMemory :: "PollContext \<Rightarrow> PollContext exec" where
  "poll_resetMemory context = exec_bind (free_headers (pc_headers context)) (\<lambda>_.
     Inr (context\<lparr>pc_memory := None, pc_headers := NoHeaders, pc_size := 0\<rparr>))"

definition poll_done ::
  "PollContext \<Rightarrow> 's LDStore \<Rightarrow> int \<Rightarrow> dbl option \<Rightarrow> (PollContext \<times> 's LDStore) exec" where
  "poll_done context store responseCode reading =
     (let context = context\<lparr>pc_active := False\<rparr>
      in exec_bind (if responseCode = 200 then
             exec_bind (updateStore store (map_option c_string (pc_memory context))) (\<lambda>(ok, store).
             exec_bind (LDi_getMonotonicMilliseconds reading) (\<lambda>now.
               Inr (context\<lparr>pc_lastpoll := now\<rparr>, store)))
           else Inr (context, store)) (\<lambda>(context, store).
         exec_bind (poll_resetMemory context) (\<lambda>context. Inr (context, store))))"

definition poll_error :: "PollContext \<Rightarrow> (request option \<times> PollContext) exec" where
  "poll_error context = exec_bind (free_headers (pc_headers context)) (\<lambda>hs.
     Inr (None, context\<lparr>pc_headers := hs\<rparr>))"

definition poll_connect :: "LDConfig \<Rightarrow> curl_outcome \<Rightarrow> PollContext \<Rightarrow> (request option \<times> PollContext) exec" where
  "poll_connect config curl context =
     (let url = snprintf 4096 (c_baseURI config @ ''/sdk/latest-all'')
      in case LDi_prepareShared curl config url of None \<Rightarrow> poll_error context
         | Some rq \<Rightarrow>
             (let context = context\<lparr>pc_headers := HeaderList (rq_headers rq)\<rparr>
              in if \<not> curl CURLOPT_WRITEFUNCTION then poll_error context
                 else if \<not> curl CURLOPT_WRITEDATA then poll_error context
                 else Inr (Some rq, context\<lparr>pc_active := True\<rparr>)))"

text \<open>The monotonic clock does not go back, which \<open>poll\<close> asserts.\<close>

definition poll_poll ::
  "LDConfig \<Rightarrow> bool \<Rightarrow> curl_outcome \<Rightarrow> dbl option \<Rightarrow> PollContext \<Rightarrow> (request option \<times> PollContext) exec" where
  "poll_poll config dataSource curl reading context =
     (if pc_active context \<or> c_stream config \<or> dataSource then Inr (None, context)
      else exec_bind (LDi_getMonotonicMilliseconds reading) (\<lambda>now.
        exec_bind (ld_assert (dbl_le (pc_lastpoll context) now)) (\<lambda>_.
          if dbl_lt (dbl_sub now (pc_lastpoll context)) (uint_to_dbl (c_pollInterval config)) then Inr (None, context)
          else poll_connect config curl context)))"

end
