(* ===== verification/Analytics.thy ===== *)
theory Analytics
  imports Client Utility Network JsonPrint
begin

text \<open>
  The sender of analytics events, \<open>src/events.c\<close>: when it asks the event processor for a payload,
  the request it makes, the retry after a failure, and the clock of the server read from the
  response headers. Outcomes of libcurl, clock readings and random numbers are arguments, and so
  is the conversion of a date to a time, which depends on locale and time zone.
\<close>

record AnalyticsContext =
  an_active :: bool
  an_lastFlush :: dbl
  an_headers :: header_list
  an_buffer :: "string option"
  an_failureTime :: uint
  an_payloadId :: string

definition LDi_constructAnalytics :: "dbl option \<Rightarrow> AnalyticsContext exec" where
  "LDi_constructAnalytics reading = exec_bind (LDi_getMonotonicMilliseconds reading) (\<lambda>now.
     Inr \<lparr>an_active = False, an_lastFlush = now, an_headers = NoHeaders, an_buffer = None,
       an_failureTime = 0, an_payloadId = []\<rparr>)"

definition analytics_resetMemory :: "AnalyticsContext \<Rightarrow> AnalyticsContext exec" where
  "analytics_resetMemory context = exec_bind (free_headers (an_headers context)) (\<lambda>_.
     Inr (context\<lparr>an_headers := NoHeaders, an_buffer := None, an_failureTime := 0\<rparr>))"

text \<open>The time of a failure is converted from \<open>double\<close> to \<open>unsigned int\<close>.\<close>

definition analytics_done ::
  "AnalyticsContext \<Rightarrow> 's LDClient \<Rightarrow> int \<Rightarrow> dbl option \<Rightarrow> (AnalyticsContext \<times> 's LDClient) exec" where
  "analytics_done context client responseCode reading =
     (let context = context\<lparr>an_active := False\<rparr>
      in if responseCode = 200 \<or> responseCode = 202 then
           (let client = client\<lparr>cl_shouldFlush := False\<rparr>
            in exec_bind (LDi_getMonotonicMilliseconds reading) (\<lambda>now.
               exec_bind (analytics_resetMemory (context\<lparr>an_lastFlush := now\<rparr>)) (\<lambda>context.
                 Inr (context, client))))
         else if an_failureTime context \<noteq> 0 then
           exec_bind (analytics_resetMemory context) (\<lambda>context. Inr (context, client))
         else
           exec_bind (LDi_getMonotonicMilliseconds reading) (\<lambda>now.
           exec_bind (dbl_to_uint now) (\<lambda>failureTime.
           exec_bind (free_headers (an_headers context)) (\<lambda>_.
             Inr (context\<lparr>an_failureTime := failureTime, an_headers := NoHeaders\<rparr>, client)))))"

section \<open>Response headers\<close>

definition lower :: "char \<Rightarrow> char" where
  "lower c = (if 65 \<le> (of_char c :: nat) \<and> (of_char c :: nat) \<le> 90 then char_of ((of_char c :: nat) + 32) else c)"

definition strncasecmp_eq :: "string \<Rightarrow> string \<Rightarrow> nat \<Rightarrow> bool" where
  "strncasecmp_eq s1 s2 n \<longleftrightarrow> map lower (take n s1) = map lower (take n s2)"

text \<open>\<open>strnchr\<close>: the offset of the first occurrence.\<close>

fun strnchr :: "string \<Rightarrow> char \<Rightarrow> nat \<Rightarrow> nat option" where
  "strnchr str c 0 = None"
| "strnchr [] c (Suc len) = None"
| "strnchr (x # str) c (Suc len) = (if x = c then Some 0 else map_option Suc (strnchr str c len))"

text \<open>
  The whole buffer is handed over, so every byte is accepted. \<open>date\<close> converts the text of a date
  as \<open>strptime\<close> and \<open>mktime\<close> do.
\<close>

definition LDi_onHeader ::
  "(string \<Rightarrow> int option) \<Rightarrow> string \<Rightarrow> 's LDClient \<Rightarrow> (nat \<times> 's LDClient) exec" where
  "LDi_onHeader date buffer client =
     (let total = length buffer; dateheader = ''Date:''
      in case strnchr buffer (CHR 0x0D) total of None \<Rightarrow> Inr (total, client)
         | Some headerend \<Rightarrow>
             if total \<le> length dateheader then Inr (total, client)
             else if \<not> strncasecmp_eq buffer dateheader (length dateheader) then Inr (total, client)
             else
               (let rest = dropWhile (\<lambda>c. c = CHR '' '' \<or> c = CHR 0x09) (drop (length dateheader) (take headerend buffer))
                in if length rest + 1 > 128 then Inr (total, client)
                   else (case date rest of None \<Rightarrow> Inr (total, client)
                     | Some serverTime \<Rightarrow>
                         if serverTime = - 1 then Inr (total, client)
                         else exec_bind (LDEventProcessor_SetLastServerTime (cl_eventProcessor client) serverTime) (\<lambda>p.
                           Inr (total, client\<lparr>cl_eventProcessor := p\<rparr>)))))"

section \<open>Sending\<close>

text \<open>
  What one call of \<open>poll\<close> meets: the monotonic clock, the Unix clock for the payload, the random
  numbers of its identifier and the outcomes of libcurl.
\<close>

record analytics_env =
  ae_now :: "dbl option"
  ae_unix :: "dbl option"
  ae_random :: "uint option list"
  ae_curl :: curl_outcome

definition analytics_error :: "AnalyticsContext \<Rightarrow> (request option \<times> AnalyticsContext) exec" where
  "analytics_error context = exec_bind (free_headers (an_headers context)) (\<lambda>hs.
     Inr (None, context\<lparr>an_headers := hs\<rparr>))"

definition event_headers :: "string \<Rightarrow> string list" where
  "event_headers payloadId = [''Content-Type: application/json'', ''X-LaunchDarkly-Event-Schema: 3'',
     ''X-LaunchDarkly-Payload-ID: '' @ payloadId]"

text \<open>Preparing the request for the buffered payload; the identifier has its full size.\<close>

definition analytics_connect ::
  "LDConfig \<Rightarrow> curl_outcome \<Rightarrow> AnalyticsContext \<Rightarrow> (request option \<times> AnalyticsContext) exec" where
  "analytics_connect config curl context =
     (let url = snprintf 4096 (c_eventsURI config @ ''/bulk'')
      in case LDi_prepareShared curl config url of None \<Rightarrow> analytics_error context
         | Some rq \<Rightarrow>
             exec_bind (ld_assert (length (an_payloadId context) = LD_UUID_SIZE)) (\<lambda>_.
             (let headers = rq_headers rq @ event_headers (an_payloadId context);
                  context = context\<lparr>an_headers := HeaderList headers\<rparr>
              in if \<not> curl CURLOPT_HTTPHEADER then analytics_error context
                 else if \<not> curl CURLOPT_HEADERFUNCTION then analytics_error context
                 else if \<not> curl CURLOPT_HEADERDATA then analytics_error context
                 else if \<not> curl CURLOPT_POSTFIELDS then analytics_error context
                 else Inr (Some (rq\<lparr>rq_headers := headers, rq_body := an_buffer context\<rparr>),
                           context\<lparr>an_active := True\<rparr>))))"

text \<open>Whether the flush interval has passed, unless a flush is requested.\<close>

definition flush_due :: "'s LDClient \<Rightarrow> AnalyticsContext \<Rightarrow> dbl option \<Rightarrow> bool exec" where
  "flush_due client context reading =
     (if cl_shouldFlush client then Inr True
      else exec_bind (LDi_getMonotonicMilliseconds reading) (\<lambda>now.
        exec_bind (ld_assert (dbl_le (an_lastFlush context) now)) (\<lambda>_.
          Inr (\<not> dbl_lt (dbl_sub now (an_lastFlush context)) (uint_to_dbl (c_flushInterval (cl_config client)))))))"

text \<open>
  A new payload: the sender goes on, or stops without a request. When there are no events the
  local copy of \<open>shouldFlush\<close> is cleared, which has no effect.
\<close>

definition take_payload ::
  "'s LDClient \<Rightarrow> analytics_env \<Rightarrow> AnalyticsContext \<Rightarrow> (bool \<times> AnalyticsContext \<times> 's LDClient) exec" where
  "take_payload client env context =
     exec_bind (flush_due client context (ae_now env)) (\<lambda>due.
       if \<not> due then Inr (False, context, client)
       else exec_bind (LDEventProcessor_CreateEventPayloadAndResetState (cl_eventProcessor client) (ae_unix env))
         (\<lambda>(ok, events, p).
           let client = client\<lparr>cl_eventProcessor := p\<rparr> in
           if \<not> ok then Inr (False, context, client)
           else (case events of None \<Rightarrow> Inr (False, context, client)
             | Some events \<Rightarrow>
                 (let buffer = LDJSONSerialize (Some events); context = context\<lparr>an_buffer := buffer\<rparr>
                  in if buffer = None then Inr (False, context, client)
                     else (case LDi_UUIDv4 (ae_random env) of
                         Some payloadId \<Rightarrow> Inr (True, context\<lparr>an_payloadId := payloadId\<rparr>, client)
                       | None \<Rightarrow> exec_bind (analytics_error context) (\<lambda>(_, context).
                           Inr (False, context, client)))))))"

text \<open>The wait of a second after a failure; the sum wraps.\<close>

definition retry_due :: "AnalyticsContext \<Rightarrow> dbl option \<Rightarrow> bool exec" where
  "retry_due context reading =
     (if an_failureTime context = 0 then Inr True
      else exec_bind (LDi_getMonotonicMilliseconds reading) (\<lambda>now.
        Inr (\<not> dbl_le now (uint_to_dbl (an_failureTime context + 1000)))))"

definition analytics_poll ::
  "'s LDClient \<Rightarrow> analytics_env \<Rightarrow> AnalyticsContext \<Rightarrow> (request option \<times> AnalyticsContext \<times> 's LDClient) exec" where
  "analytics_poll client env context =
     (if an_active context then Inr (None, context, client)
      else exec_bind (retry_due context (ae_now env)) (\<lambda>due.
        if \<not> due then Inr (None, context, client)
        else exec_bind (if an_failureTime context \<noteq> 0 then Inr (True, context, client)
                        else take_payload client env context) (\<lambda>(go, context, client).
          if \<not> go then Inr (None, context, client)
          else exec_bind (analytics_connect (cl_config client) (ae_curl env) context) (\<lambda>(rq, context).
            Inr (rq, context, client)))))"

end
