(* ===== verification/NetworkThread.thy ===== *)
theory NetworkThread
  imports Polling Analytics
begin

text \<open>
  The background thread, \<open>src/network.c\<close>: a loop that lets libcurl work, polls the interfaces for
  new requests and hands finished ones back. One iteration is a function of what happens in it:
  the bytes libcurl delivers, the outcomes of its calls, clock readings and random numbers.
\<close>

section \<open>State\<close>

text \<open>
  An interface that was not constructed is \<open>None\<close>; the current handle of the streaming interface
  is in its context. \<open>nw_dataSource\<close> says that the configuration has a data source of its own.
\<close>

record 's network =
  nw_client :: "'s LDClient"
  nw_dataSource :: bool
  nw_polling :: "PollContext option"
  nw_pollingCurrent :: "request option"
  nw_streaming :: "StreamContext option"
  nw_analytics :: "AnalyticsContext option"
  nw_analyticsCurrent :: "request option"

definition construct_interfaces :: "'s LDClient \<Rightarrow> bool \<Rightarrow> dbl option \<Rightarrow> 's network exec" where
  "construct_interfaces client dataSource reading =
     (let nw = \<lparr>nw_client = client, nw_dataSource = dataSource,
          nw_polling = (if c_useLDD (cl_config client) then None else Some LDi_constructPolling), nw_pollingCurrent = None,
          nw_streaming = (if c_useLDD (cl_config client) then None else Some LDi_constructStreamContext),
          nw_analytics = None, nw_analyticsCurrent = None\<rparr>
      in if c_sendEvents (cl_config client)
         then exec_bind (LDi_constructAnalytics reading) (\<lambda>an. Inr (nw\<lparr>nw_analytics := Some an\<rparr>))
         else Inr nw)"

abbreviation set_store :: "'s network \<Rightarrow> 's LDStore \<Rightarrow> 's network" where
  "set_store nw store \<equiv> nw\<lparr>nw_client := (nw_client nw)\<lparr>cl_store := store\<rparr>\<rparr>"

section \<open>Data arriving\<close>

text \<open>
  Callbacks that libcurl makes while it works, only for handles it was given. The number of bytes
  a callback accepts decides whether the transfer goes on, which a later message reports.
\<close>

datatype delivery = StreamBytes string "dbl option" | PollBytes string | EventsHeader string

fun deliver :: "(string \<Rightarrow> int option) \<Rightarrow> delivery \<Rightarrow> 's network \<Rightarrow> 's network exec" where
  "deliver date (StreamBytes bytes reading) nw = (case nw_streaming nw of None \<Rightarrow> Inr nw
     | Some sc \<Rightarrow> if st_current sc = None then Inr nw
         else exec_bind (LDi_streamWriteCallback bytes sc (cl_store (nw_client nw)) reading) (\<lambda>(n, sc, store).
           Inr (set_store (nw\<lparr>nw_streaming := Some sc\<rparr>) store)))"
| "deliver date (PollBytes bytes) nw = (case nw_polling nw of None \<Rightarrow> Inr nw
     | Some pc \<Rightarrow> if nw_pollingCurrent nw = None then Inr nw
         else exec_bind (writeCallback bytes pc) (\<lambda>(n, pc). Inr (nw\<lparr>nw_polling := Some pc\<rparr>)))"
| "deliver date (EventsHeader bytes) nw =
     (if nw_analyticsCurrent nw = None then Inr nw
      else exec_bind (LDi_onHeader date bytes (nw_client nw)) (\<lambda>(n, client). Inr (nw\<lparr>nw_client := client\<rparr>)))"

fun perform :: "(string \<Rightarrow> int option) \<Rightarrow> delivery list \<Rightarrow> 's network \<Rightarrow> 's network exec" where
  "perform date [] nw = Inr nw"
| "perform date (d # ds) nw = exec_bind (deliver date d nw) (perform date ds)"

section \<open>Polling the interfaces\<close>

text \<open>What the polls of one iteration meet; the last three say whether a handle can be added.\<close>

record poll_env =
  pe_polling :: "curl_outcome \<times> dbl option"
  pe_streaming :: stream_env
  pe_analytics :: analytics_env
  pe_addPolling :: bool
  pe_addStreaming :: bool
  pe_addAnalytics :: bool

text \<open>Whether the loop goes on, the requests started, and the state.\<close>

type_synonym 's turn = "(bool \<times> request list \<times> 's network) exec"

definition polling_turn :: "poll_env \<Rightarrow> 's network \<Rightarrow> 's turn" where
  "polling_turn env nw = (case nw_polling nw of None \<Rightarrow> Inr (True, [], nw)
     | Some pc \<Rightarrow>
         exec_bind (poll_poll (cl_config (nw_client nw)) (nw_dataSource nw) (fst (pe_polling env)) (snd (pe_polling env)) pc)
           (\<lambda>(handle, pc). case handle of None \<Rightarrow> Inr (True, [], nw\<lparr>nw_polling := Some pc\<rparr>)
             | Some rq \<Rightarrow> Inr (pe_addPolling env, [rq], nw\<lparr>nw_polling := Some pc, nw_pollingCurrent := Some rq\<rparr>)))"

definition streaming_turn :: "poll_env \<Rightarrow> 's network \<Rightarrow> 's turn" where
  "streaming_turn env nw = (case nw_streaming nw of None \<Rightarrow> Inr (True, [], nw)
     | Some sc \<Rightarrow>
         exec_bind (stream_poll (cl_config (nw_client nw)) ((pe_streaming env)\<lparr>se_dataSource := nw_dataSource nw\<rparr>) sc)
           (\<lambda>(handle, sc). case handle of None \<Rightarrow> Inr (True, [], nw\<lparr>nw_streaming := Some sc\<rparr>)
             | Some rq \<Rightarrow> Inr (pe_addStreaming env, [rq], nw\<lparr>nw_streaming := Some (sc\<lparr>st_current := Some rq\<rparr>)\<rparr>)))"

definition analytics_turn :: "poll_env \<Rightarrow> 's network \<Rightarrow> 's turn" where
  "analytics_turn env nw = (case nw_analytics nw of None \<Rightarrow> Inr (True, [], nw)
     | Some an \<Rightarrow>
         exec_bind (analytics_poll (nw_client nw) (pe_analytics env) an) (\<lambda>(handle, an, client).
           let nw = nw\<lparr>nw_analytics := Some an, nw_client := client\<rparr>
           in case handle of None \<Rightarrow> Inr (True, [], nw)
             | Some rq \<Rightarrow> Inr (pe_addAnalytics env, [rq], nw\<lparr>nw_analyticsCurrent := Some rq\<rparr>)))"

definition then_turn :: "'s turn \<Rightarrow> ('s network \<Rightarrow> 's turn) \<Rightarrow> 's turn" where
  "then_turn t f = exec_bind t (\<lambda>(go, rqs, nw).
     if \<not> go then Inr (False, rqs, nw) else exec_bind (f nw) (\<lambda>(go, rqs', nw). Inr (go, rqs @ rqs', nw)))"

definition poll_interfaces :: "poll_env \<Rightarrow> 's network \<Rightarrow> 's turn" where
  "poll_interfaces env nw =
     then_turn (then_turn (polling_turn env nw) (streaming_turn env)) (analytics_turn env)"

section \<open>Finished requests\<close>

datatype interface = Polling | Streaming | Analytics

record CURLMsg =
  msg_interface :: interface
  msg_codeRead :: bool
  msg_responseCode :: int
  msg_contextRead :: bool
  msg_ok :: bool
  msg_reading :: "dbl option"
  msg_removed :: bool

fun interface_done :: "interface \<Rightarrow> int \<Rightarrow> dbl option \<Rightarrow> 's network \<Rightarrow> 's network exec" where
  "interface_done Polling code reading nw = (case nw_polling nw of None \<Rightarrow> Inr nw
     | Some pc \<Rightarrow> exec_bind (poll_done pc (cl_store (nw_client nw)) code reading) (\<lambda>(pc, store).
         Inr (set_store (nw\<lparr>nw_polling := Some pc, nw_pollingCurrent := None\<rparr>) store)))"
| "interface_done Streaming code reading nw = (case nw_streaming nw of None \<Rightarrow> Inr nw
     | Some sc \<Rightarrow> exec_bind (stream_done sc code reading) (\<lambda>sc.
         Inr (nw\<lparr>nw_streaming := Some (sc\<lparr>st_current := None\<rparr>)\<rparr>)))"
| "interface_done Analytics code reading nw = (case nw_analytics nw of None \<Rightarrow> Inr nw
     | Some an \<Rightarrow> exec_bind (analytics_done an (nw_client nw) code reading) (\<lambda>(an, client).
         Inr (nw\<lparr>nw_analytics := Some an, nw_client := client, nw_analyticsCurrent := None\<rparr>)))"

fun has_handle :: "interface \<Rightarrow> 's network \<Rightarrow> bool" where
  "has_handle Polling nw \<longleftrightarrow> nw_polling nw \<noteq> None \<and> nw_pollingCurrent nw \<noteq> None"
| "has_handle Streaming nw \<longleftrightarrow> (case nw_streaming nw of None \<Rightarrow> False | Some sc \<Rightarrow> st_current sc \<noteq> None)"
| "has_handle Analytics nw \<longleftrightarrow> nw_analytics nw \<noteq> None \<and> nw_analyticsCurrent nw \<noteq> None"

text \<open>The loop over the messages of libcurl, which it only has for handles it was given.\<close>

fun read_messages :: "CURLMsg list \<Rightarrow> 's network \<Rightarrow> (bool \<times> 's network) exec" where
  "read_messages [] nw = Inr (True, nw)"
| "read_messages (m # ms) nw =
     (if \<not> has_handle (msg_interface m) nw then read_messages ms nw
      else if \<not> msg_codeRead m then Inr (False, nw)
      else if msg_responseCode m = 401 \<or> msg_responseCode m = 403 then Inr (False, nw)
      else if \<not> msg_contextRead m then Inr (False, nw)
      else exec_bind (interface_done (msg_interface m) (if msg_ok m then msg_responseCode m else 0) (msg_reading m) nw) (\<lambda>nw.
        if \<not> msg_removed m then Inr (False, nw) else read_messages ms nw))"

section \<open>The loop\<close>

record iteration =
  it_deliveries :: "delivery list"
  it_polls :: poll_env
  it_messages :: "CURLMsg list"
  it_wait :: bool

definition network_iteration :: "(string \<Rightarrow> int option) \<Rightarrow> iteration \<Rightarrow> 's network \<Rightarrow> 's turn" where
  "network_iteration date it nw =
     (if cl_shuttingdown (nw_client nw) then Inr (False, [], nw)
      else let offline = c_offline (cl_config (nw_client nw)) in
        exec_bind (perform date (it_deliveries it) nw) (\<lambda>nw.
        exec_bind (if offline then Inr (True, [], nw) else poll_interfaces (it_polls it) nw) (\<lambda>(go, rqs, nw).
          if \<not> go then Inr (False, rqs, nw)
          else exec_bind (read_messages (it_messages it) nw) (\<lambda>(go, nw).
            Inr (go \<and> it_wait it, rqs, nw)))))"

text \<open>The end of the thread: handles are removed and the contexts freed, in the order of construction.\<close>

definition destroy_interface :: "bool \<Rightarrow> bool \<Rightarrow> 'c exec \<Rightarrow> bool exec \<Rightarrow> bool exec" where
  "destroy_interface current removed reset rest =
     (if current \<and> \<not> removed then Inr False else exec_bind reset (\<lambda>_. rest))"

definition network_cleanup :: "(interface \<Rightarrow> bool) \<Rightarrow> 's network \<Rightarrow> bool exec" where
  "network_cleanup removed nw =
     (let analytics = (case nw_analytics nw of None \<Rightarrow> Inr True
            | Some an \<Rightarrow> destroy_interface (has_handle Analytics nw) (removed Analytics) (analytics_resetMemory an) (Inr True));
          streaming = (case nw_streaming nw of None \<Rightarrow> analytics
            | Some sc \<Rightarrow> destroy_interface (has_handle Streaming nw) (removed Streaming) (resetMemory sc) analytics)
      in case nw_polling nw of None \<Rightarrow> streaming
         | Some pc \<Rightarrow> destroy_interface (has_handle Polling nw) (removed Polling) (poll_resetMemory pc) streaming)"

end
