(* ===== verification/PollFlow.thy ===== *)
theory PollFlow
  imports Polling StreamFlow
begin

text \<open>
  The polling source from the bytes of a response to the store, and when it asks again.
\<close>

section \<open>A response\<close>

fun poll_receive :: "string list \<Rightarrow> PollContext \<Rightarrow> PollContext exec" where
  "poll_receive [] pc = Inr pc"
| "poll_receive (bytes # chunks) pc = exec_bind (writeCallback bytes pc) (\<lambda>(n, pc). poll_receive chunks pc)"

definition received :: "PollContext \<Rightarrow> string" where
  "received pc = (case pc_memory pc of None \<Rightarrow> [] | Some memory \<Rightarrow> memory)"

definition pc_inv :: "PollContext \<Rightarrow> bool" where
  "pc_inv pc \<longleftrightarrow> pc_size pc = length (received pc)"

text \<open>The buffer holds the bytes received so far, whatever the pieces.\<close>

lemma writeCallback_appends:
  assumes "pc_inv pc"
  shows "writeCallback bytes pc = Inr (length bytes,
     pc\<lparr>pc_memory := Some (received pc @ bytes), pc_size := length (received pc @ bytes)\<rparr>)"
  using assms by (auto simp: writeCallback_def pc_inv_def received_def split: option.split)

lemma poll_receive_appends:
  assumes "pc_inv pc" and "chunks \<noteq> []"
  shows "poll_receive chunks pc = Inr (pc\<lparr>pc_memory := Some (received pc @ concat chunks),
     pc_size := length (received pc @ concat chunks)\<rparr>)"
  using assms
proof (induction chunks arbitrary: pc)
  case (Cons bytes chunks)
  let ?pc = "pc\<lparr>pc_memory := Some (received pc @ bytes), pc_size := length (received pc @ bytes)\<rparr>"
  have "pc_inv ?pc" "received ?pc = received pc @ bytes" by (simp_all add: pc_inv_def received_def)
  then show ?case
    using Cons writeCallback_appends [OF Cons.prems(1)] by (cases "chunks = []") simp_all
qed simp

lemma updateStore_body:
  assumes "json_ok data" and "jdepth data \<le> CJSON_NESTING_LIMIT" and "LDJSONSerialize (Some data) = Some t"
    and "validatePutBody data"
  shows "nul_free t" and "t \<noteq> []" and "updateStore store (Some t) = LDStoreInit store (put_data data)"
proof -
  have d: "nul_free t" "LDJSONDeserialize (Some t) = Some data" using serialize_deserialize [OF assms(1,2)] assms(3) by auto
  then show "nul_free t" "updateStore store (Some t) = LDStoreInit store (put_data data)"
    using init_from_body_put [OF assms(4)] by (simp_all add: updateStore_def assms(4))
  show "t \<noteq> []" using printed_first [of data t] assms(1,3) by (auto simp: LDJSONSerialize_def)
qed

text \<open>C28: from a polled response to the store: when the bytes of a response with code 200, cut into pieces in any
  way, are the text of valid data, the memory store is afterwards initialised with exactly these
  flags and segments, the time of the poll is recorded, and the source is ready for the next.\<close>

theorem poll_synchronizes_store:
  assumes "pc_inv pc" and "pc_memory pc = None" and "pc_headers pc \<noteq> Dangling"
    and "json_ok data" and "jdepth data \<le> CJSON_NESTING_LIMIT" and "message_ok (Put data)"
    and "LDJSONSerialize (Some data) = Some (concat chunks)"
  shows "\<exists>pc1 pc2 store'. poll_receive chunks pc = Inr pc1 \<and>
     poll_done pc1 (memory_handle ctx) 200 (Some now) = Inr (pc2, store') \<and>
     (\<forall>kind k. LDStoreGet store' kind k =
        Inr (True, visible (map_of (keyed_items (obj_lookup data (kind_member kind))) k), store')) \<and>
     LDStoreInitialized store' = (True, store') \<and>
     pc_inv pc2 \<and> pc_memory pc2 = None \<and> \<not> pc_active pc2 \<and> pc_lastpoll pc2 = now"
proof -
  let ?t = "concat chunks"
  have valid: "validatePutBody data" using assms(6) by simp
  note body = updateStore_body [OF assms(4,5,7) valid]
  let ?pc = "pc\<lparr>pc_memory := Some ?t, pc_size := length ?t\<rparr>"
  have "chunks \<noteq> []" using body(2) by auto
  then have "poll_receive chunks pc = Inr ?pc"
    using poll_receive_appends [OF assms(1)] assms(2) by (simp add: received_def)
  moreover obtain ctx' where c: "LDStoreInit (memory_handle ctx) (put_data data) = Inr (True, memory_handle ctx')" "ms_inv ctx'"
    "ms_view ctx' = message_view (ms_view ctx) (Put data)" "ms_initialized ctx'"
    using apply_message_put [OF assms(6)] by auto
  moreover obtain hs where "free_headers (pc_headers pc) = Inr hs" using assms(3) by (cases "pc_headers pc") auto
  moreover have "c_string ?t = ?t" using body(1) by (intro c_string_id) (simp add: nul_free_def)
  ultimately have "poll_done ?pc (memory_handle ctx) 200 (Some now) =
      Inr (?pc\<lparr>pc_active := False, pc_lastpoll := now, pc_memory := None, pc_headers := NoHeaders, pc_size := 0\<rparr>, memory_handle ctx')"
      (is "_ = Inr (?pc2, _)")
    using body(3) [of "memory_handle ctx"] by (simp add: poll_done_def Let_def poll_resetMemory_def LDi_getMonotonicMilliseconds_def)
  moreover have "pc_inv ?pc2 \<and> pc_memory ?pc2 = None \<and> \<not> pc_active ?pc2 \<and> pc_lastpoll ?pc2 = now"
    by (simp add: pc_inv_def received_def)
  moreover have "LDStoreGet (memory_handle ctx') kind k =
      Inr (True, visible (map_of (keyed_items (obj_lookup data (kind_member kind))) k), memory_handle ctx')" for kind k
    using memory_reads [OF c(2)] c(3) by simp
  moreover have "LDStoreInitialized (memory_handle ctx') = (True, memory_handle ctx')"
    using memory_initialized [of ctx'] c(4) by simp
  ultimately show ?thesis using \<open>poll_receive chunks pc = Inr ?pc\<close> by metis
qed

definition sample_poll_data :: LDJSON where
  "sample_poll_data = JObject [(''flags'', JObject [(''a'', sample_item ''a'' 1)]), (''segments'', JObject [])]"

theorem poll_synchronizes_store_witness:
  "\<exists>chunks pc1 pc2 store'. poll_receive chunks LDi_constructPolling = Inr pc1 \<and>
     poll_done pc1 (memory_handle memory_context) 200 (Some (Fin 5)) = Inr (pc2, store') \<and>
     LDStoreGet store' LD_FLAG ''a'' = Inr (True, visible (Some (sample_item ''a'' 1)), store')"
proof -
  have ok: "json_ok sample_poll_data \<and> jdepth sample_poll_data \<le> CJSON_NESTING_LIMIT \<and> message_ok (Put sample_poll_data)"
    using sample_transmissible unfolding sample_messages_def sample_poll_data_def transmissible_def
    by (simp add: CJSON_NESTING_LIMIT_def)
  then obtain t where "LDJSONSerialize (Some sample_poll_data) = Some (concat [take 3 t, drop 3 t])"
    using serialize_deserialize [of sample_poll_data] by fastforce
  moreover have "pc_inv LDi_constructPolling" "pc_memory LDi_constructPolling = None" "pc_headers LDi_constructPolling \<noteq> Dangling"
    by (simp_all add: pc_inv_def received_def LDi_constructPolling_def)
  moreover have "map_of (keyed_items (obj_lookup sample_poll_data (kind_member LD_FLAG))) ''a'' = Some (sample_item ''a'' 1)"
    by (simp add: sample_poll_data_def keyed_items_def)
  ultimately show ?thesis
    using poll_synchronizes_store [of LDi_constructPolling sample_poll_data "[take 3 t, drop 3 t]" memory_context "Fin 5"] ok by metis
qed

section \<open>The interval\<close>

lemma poll_connects:
  "\<exists>rq pc'. poll_connect config (\<lambda>_. True) pc = Inr (Some rq, pc') \<and> pc_active pc'"
proof -
  obtain rq where "LDi_prepareShared (\<lambda>_. True) config (snprintf 4096 (c_baseURI config @ ''/sdk/latest-all'')) = Some rq"
    using prepareShared_all [of "\<lambda>_. True"] by auto
  then show ?thesis by (simp add: poll_connect_def Let_def)
qed

lemma poll_interval:
  assumes "\<not> c_stream config" and "\<not> pc_active pc" and "pc_lastpoll pc = Fin (of_nat n)" and "n \<le> n'" and "n' < 2 ^ 53"
  shows "poll_poll config False curl (Some (Fin (of_nat n'))) pc =
     (if n' < n + unat (c_pollInterval config) then Inr (None, pc) else poll_connect config curl pc)"
proof -
  have le: "(of_nat n :: rat) \<le> of_nat n'" using assms(4) by (simp only: of_nat_le_iff)
  have "dbl_sub (Fin (of_nat n')) (Fin (of_nat n)) = Fin (of_nat (n' - n))"
    using fl64_nat [of "n' - n"] assms(4,5) by (simp add: dbl_sub_def of_nat_diff)
  moreover have "(of_nat (n' - n) :: rat) < of_nat (unat (c_pollInterval config)) \<longleftrightarrow> n' < n + unat (c_pollInterval config)"
    unfolding of_nat_less_iff using assms(4) by auto
  ultimately show ?thesis
    using assms(1-3) le by (simp add: poll_poll_def LDi_getMonotonicMilliseconds_def ld_assert_def uint_to_dbl_def del: of_nat_unat)
qed

text \<open>Polls are spaced by the interval: once a poll at some time succeeded, no request is started before
  the poll interval has passed, and from then on the next poll starts one.\<close>

theorem polls_are_spaced:
  assumes "\<not> c_stream config" and "n \<le> n'" and "n' < 2 ^ 53"
    and "poll_done pc store 200 (Some (Fin (of_nat n))) = Inr (pc', store')"
  shows "if n' < n + unat (c_pollInterval config)
     then poll_poll config False curl (Some (Fin (of_nat n'))) pc' = Inr (None, pc')
     else \<exists>rq pc2. poll_poll config False (\<lambda>_. True) (Some (Fin (of_nat n'))) pc' = Inr (Some rq, pc2) \<and> pc_active pc2"
proof -
  have "\<not> pc_active pc'" "pc_lastpoll pc' = Fin (of_nat n)"
    using assms(4) by (auto simp: poll_done_def Let_def poll_resetMemory_def LDi_getMonotonicMilliseconds_def exec_bind_eq_Inr)
  then show ?thesis using poll_interval [OF assms(1), of pc' n n'] poll_connects [of config pc'] assms(2,3) by simp
qed

text \<open>Failed polls are not spaced: a response other than 200 records no time, so the poll that follows
  starts a request again at once, as often as the server refuses.\<close>

theorem failed_polls_repeat_at_once:
  assumes "\<not> c_stream config" and "code \<noteq> 200" and "pc_lastpoll pc = Fin (of_nat n)"
    and "n + unat (c_pollInterval config) \<le> n'" and "n' < 2 ^ 53" and "\<not> pc_active pc"
  shows "\<exists>rq pc1 pc2. poll_poll config False (\<lambda>_. True) (Some (Fin (of_nat n'))) pc = Inr (Some rq, pc1) \<and>
     poll_done pc1 store code reading = Inr (pc2, store) \<and> pc_lastpoll pc2 = Fin (of_nat n) \<and> \<not> pc_active pc2"
proof -
  obtain rq where "LDi_prepareShared (\<lambda>_. True) config (snprintf 4096 (c_baseURI config @ ''/sdk/latest-all'')) = Some rq"
    using prepareShared_all [of "\<lambda>_. True"] by auto
  then have "poll_connect config (\<lambda>_. True) pc = Inr (Some rq, pc\<lparr>pc_headers := HeaderList (rq_headers rq), pc_active := True\<rparr>)"
    by (simp add: poll_connect_def Let_def)
  then have "poll_poll config False (\<lambda>_. True) (Some (Fin (of_nat n'))) pc =
      Inr (Some rq, pc\<lparr>pc_headers := HeaderList (rq_headers rq), pc_active := True\<rparr>)"
    using poll_interval [OF assms(1,6,3), of n'] assms(4,5) by simp
  then show ?thesis using assms(2,3) by (simp add: poll_done_def Let_def poll_resetMemory_def)
qed

text \<open>A response with code 200 and no body aborts the process: no byte was written, so the text handed to
  the store update is \<open>NULL\<close>, which it asserts.\<close>

theorem empty_response_aborts:
  "poll_done (LDi_constructPolling\<lparr>pc_active := True, pc_headers := hs\<rparr>) store 200 reading = Inl AssertFailed"
  by (simp add: poll_done_def Let_def updateStore_def LDi_constructPolling_def)

definition polling_config :: LDConfig where
  "polling_config = sample_config\<lparr>c_stream := False\<rparr>"

theorem polls_are_spaced_witness:
  "\<exists>pc'. poll_done (LDi_constructPolling\<lparr>pc_memory := Some ''x''\<rparr>) (memory_handle memory_context) 200 (Some (Fin (of_nat 7))) =
     Inr (pc', memory_handle memory_context) \<and> poll_poll polling_config False (\<lambda>_. True) (Some (Fin (of_nat 29000))) pc' = Inr (None, pc')"
proof -
  have "LDJSONDeserialize (Some ''x'') = None" by code_simp
  then have "poll_done (LDi_constructPolling\<lparr>pc_memory := Some ''x''\<rparr>) (memory_handle memory_context) 200 (Some (Fin (of_nat 7))) =
      Inr (LDi_constructPolling\<lparr>pc_lastpoll := Fin (of_nat 7)\<rparr>, memory_handle memory_context)"
    by (simp add: poll_done_def Let_def updateStore_def c_string_def poll_resetMemory_def LDi_constructPolling_def LDi_getMonotonicMilliseconds_def)
  moreover have "\<not> c_stream polling_config" "unat (c_pollInterval polling_config) = 30000"
    by (simp_all add: polling_config_def sample_config_def LDConfigNew_def)
  ultimately show ?thesis
    using polls_are_spaced [of polling_config 7 29000 "LDi_constructPolling\<lparr>pc_memory := Some ''x''\<rparr>"]
    by (simp add: LDi_constructPolling_def)
qed

theorem failed_polls_repeat_at_once_witness:
  "\<exists>rq pc1 pc2. poll_poll polling_config False (\<lambda>_. True) (Some (Fin (of_nat 40000))) LDi_constructPolling = Inr (Some rq, pc1) \<and>
     poll_done pc1 (memory_handle memory_context) 503 None = Inr (pc2, memory_handle memory_context) \<and>
     pc_lastpoll pc2 = Fin (of_nat 0) \<and> \<not> pc_active pc2"
  by (rule failed_polls_repeat_at_once)
    (simp_all add: polling_config_def sample_config_def LDConfigNew_def LDi_constructPolling_def)

end
