(* ===== verification/AnalyticsFlow.thy ===== *)
theory AnalyticsFlow
  imports Analytics EventQueue JsonRoundtrip
begin

text \<open>
  The life of a payload of analytics events: from the event processor to a request, and what
  follows a success or a failure.
\<close>

section \<open>Requests\<close>

definition events_request :: "LDConfig \<Rightarrow> string \<Rightarrow> string option \<Rightarrow> request" where
  "events_request config payloadId buffer =
     (let rq = shared_request config (snprintf 4096 (c_eventsURI config @ ''/bulk''))
      in rq\<lparr>rq_headers := rq_headers rq @ event_headers payloadId, rq_body := buffer\<rparr>)"

abbreviation context_request :: "LDConfig \<Rightarrow> AnalyticsContext \<Rightarrow> request" where
  "context_request config an \<equiv> events_request config (an_payloadId an) (an_buffer an)"

abbreviation connected :: "LDConfig \<Rightarrow> AnalyticsContext \<Rightarrow> AnalyticsContext" where
  "connected config an \<equiv> an\<lparr>an_headers := HeaderList (rq_headers (context_request config an)), an_active := True\<rparr>"

lemma connect_request:
  assumes "analytics_connect config curl an = Inr (Some rq, an')"
  shows "rq = context_request config an \<and> an' = connected config an \<and> length (an_payloadId an) = LD_UUID_SIZE"
  using assms
  by (auto simp: analytics_connect_def prepareShared_eq Let_def analytics_error_def exec_bind_eq_Inr ld_assert_def events_request_def
      split: if_split_asm)

lemma connect_all:
  "length (an_payloadId an) = LD_UUID_SIZE \<Longrightarrow>
     analytics_connect config (\<lambda>_. True) an = Inr (Some (context_request config an), connected config an)"
  by (simp add: analytics_connect_def prepareShared_eq events_request_def Let_def ld_assert_def)

lemma poll_request:
  assumes "analytics_poll client env an = Inr (Some rq, an', client')"
  obtains hs where "an_headers an' = HeaderList hs" and "an_active an'" and "length (an_payloadId an') = LD_UUID_SIZE"
    and "rq = context_request (cl_config client') an'"
proof -
  obtain an0 where c: "analytics_connect (cl_config client') (ae_curl env) an0 = Inr (Some rq, an')"
    using assms by (auto simp: analytics_poll_def exec_bind_eq_Inr split: if_split_asm prod.split_asm)
  then show ?thesis using that connect_request [OF c] by simp
qed

lemma payload_failure:
  assumes "take_payload client env an = Inr (go, an', client')" shows "an_failureTime an' = an_failureTime an"
proof -
  obtain due where due: "flush_due client an (ae_now env) = Inr due"
    using assms by (auto simp: take_payload_def exec_bind_eq_Inr)
  show ?thesis
  proof (cases due)
    case True
    obtain ok events p where e: "LDEventProcessor_CreateEventPayloadAndResetState (cl_eventProcessor client) (ae_unix env) = Inr (ok, events, p)"
      using assms due True by (auto simp: take_payload_def exec_bind_eq_Inr)
    show ?thesis
      using assms by (cases events; cases "LDi_UUIDv4 (ae_random env)"; cases ok)
        (auto simp: take_payload_def due True e Let_def analytics_error_def exec_bind_eq_Inr split: if_split_asm)
  qed (use assms in \<open>simp add: take_payload_def due\<close>)
qed

lemma connect_failure:
  "analytics_connect config curl an = Inr (rq, an') \<Longrightarrow> an_failureTime an' = an_failureTime an"
  by (auto simp: analytics_connect_def Let_def exec_bind_eq_Inr ld_assert_def analytics_error_def
      split: if_split_asm option.split_asm)

lemma poll_failure:
  assumes "analytics_poll client env an = Inr (rq, an', client')" shows "an_failureTime an' = an_failureTime an"
proof (cases "an_active an")
  case False
  obtain due where due: "retry_due an (ae_now env) = Inr due"
    using assms False by (auto simp: analytics_poll_def exec_bind_eq_Inr)
  show ?thesis
  proof (cases due)
    case True
    obtain go an0 client0 where t: "(if an_failureTime an \<noteq> 0 then Inr (True, an, client) else take_payload client env an) = Inr (go, an0, client0)"
      using assms False True due by (auto simp: analytics_poll_def exec_bind_eq_Inr)
    then have "an_failureTime an0 = an_failureTime an" using payload_failure [of client env an go an0 client0] by (auto split: if_split_asm)
    then show ?thesis
      using assms False True due t connect_failure
      by (auto simp: analytics_poll_def exec_bind_eq_Inr split: if_split_asm)
  qed (use assms False due in \<open>simp add: analytics_poll_def\<close>)
qed (use assms in \<open>simp add: analytics_poll_def\<close>)

section \<open>A failed request\<close>

text \<open>The sender has no payload and is ready for a new one.\<close>

definition ready_for_payload :: "AnalyticsContext \<Rightarrow> bool" where
  "ready_for_payload an \<longleftrightarrow> an_buffer an = None \<and> an_failureTime an = 0 \<and> \<not> an_active an \<and> an_headers an = NoHeaders"

lemma done_ready:
  assumes "an_headers an = HeaderList hs" and "code \<in> {200, 202} \<or> an_failureTime an \<noteq> 0"
    and "code \<in> {200, 202} \<longrightarrow> reading \<noteq> None"
  shows "\<exists>an'. analytics_done an client code reading =
     Inr (an', if code \<in> {200, 202} then client\<lparr>cl_shouldFlush := False\<rparr> else client) \<and> ready_for_payload an'"
  using assms
  by (auto simp: analytics_done_def analytics_resetMemory_def ready_for_payload_def LDi_getMonotonicMilliseconds_def Let_def)

text \<open>Any answer to the request, with a readable clock where it is read, leaves the sender ready.\<close>

definition settles :: "'s LDClient \<Rightarrow> AnalyticsContext \<Rightarrow> bool" where
  "settles client an \<longleftrightarrow> (\<forall>code reading. (code \<in> {200, 202} \<longrightarrow> reading \<noteq> None) \<longrightarrow>
     (\<exists>an'. analytics_done an client code reading =
        Inr (an', if code \<in> {200, 202} then client\<lparr>cl_shouldFlush := False\<rparr> else client) \<and> ready_for_payload an'))"

lemma ready_sends_new:
  assumes "ready_for_payload an" and "analytics_poll client env an = Inr (Some rq, an', client')"
  shows "\<exists>events p. LDEventProcessor_CreateEventPayloadAndResetState (cl_eventProcessor client) (ae_unix env) =
     Inr (True, Some events, p) \<and> rq_body rq = LDJSONSerialize (Some events) \<and> client' = client\<lparr>cl_eventProcessor := p\<rparr>"
proof -
  obtain an0 client0 where t: "take_payload client env an = Inr (True, an0, client0)"
      "analytics_connect (cl_config client0) (ae_curl env) an0 = Inr (Some rq, an')" "client' = client0"
    using assms by (auto simp: ready_for_payload_def analytics_poll_def retry_due_def exec_bind_eq_Inr split: if_split_asm)
  then have "rq_body rq = an_buffer an0"
    using connect_request [OF t(2)] by (simp add: events_request_def Let_def)
  with t(1,3) show ?thesis
    by (auto simp: take_payload_def Let_def exec_bind_eq_Inr split: if_split_asm option.split_asm prod.split_asm)
qed


text \<open>The time of a failure does not fit its variable: it is kept in milliseconds of the monotonic clock in an
  \<open>unsigned int\<close>, so once that clock has reached \<open>2 ^ 32\<close> milliseconds (about 49.7 days) the
  first failed delivery is a conversion out of range, which the C language leaves undefined.\<close>

theorem failure_time_overflows:
  assumes "an_failureTime an = 0" and "code \<notin> {200, 202}" and "2 ^ 32 \<le> n"
  shows "analytics_done an client code (Some (Fin (of_nat n))) = Inl BadConversion"
proof -
  have "trunc (of_nat n) = int n" using trunc_of_int [of "int n"] by simp
  moreover have "\<not> int n < 2 ^ 32" using assms(3) by (simp add: not_less)
  ultimately have "dbl_to_uint (Fin (of_nat n)) = Inl BadConversion" by (simp add: dbl_to_uint_def dbl_to_int_range_def)
  then show ?thesis using assms(1,2) by (simp add: analytics_done_def LDi_getMonotonicMilliseconds_def)
qed

section \<open>A new payload\<close>

lemma flush_due_cases:
  assumes "cl_shouldFlush client \<or> an_lastFlush an = Fin (of_nat n) \<and> n + unat (c_flushInterval (cl_config client)) \<le> n' \<and> n' < 2 ^ 53"
  shows "flush_due client an (Some (Fin (of_nat n'))) = Inr True"
proof (cases "cl_shouldFlush client")
  case False
  with assms have a: "an_lastFlush an = Fin (of_nat n)" "n + unat (c_flushInterval (cl_config client)) \<le> n'" "n' < 2 ^ 53" by auto
  have le: "(of_nat n :: rat) \<le> of_nat n'" using a(2) by (simp only: of_nat_le_iff)
  have "dbl_sub (Fin (of_nat n')) (Fin (of_nat n)) = Fin (of_nat (n' - n))"
    using fl64_nat [of "n' - n"] a(2,3) by (simp add: dbl_sub_def of_nat_diff)
  moreover have "\<not> (of_nat (n' - n) :: rat) < of_nat (unat (c_flushInterval (cl_config client)))"
    unfolding of_nat_less_iff using a(2) by auto
  ultimately show ?thesis
    using False a(1) le by (simp add: flush_due_def LDi_getMonotonicMilliseconds_def ld_assert_def uint_to_dbl_def del: of_nat_unat)
qed (simp add: flush_due_def)

definition pending_events :: "LDEventProcessor \<Rightarrow> dbl \<Rightarrow> LDJSON list" where
  "pending_events p now = queued p @ (if object_entries (ep_summaryCounters p) = [] then [] else [summary_event p now])"

definition processor_ok :: "LDEventProcessor \<Rightarrow> bool" where
  "processor_ok p \<longleftrightarrow> queue_ok p \<and> summary_ok (ep_summaryCounters p) \<and> length (object_entries (ep_summaryCounters p)) < 2 ^ 32"

lemma due_sent:
  assumes "\<not> an_active an" and "an_failureTime an = 0"
    and "cl_shouldFlush client \<or> an_lastFlush an = Fin (of_nat n) \<and> n + unat (c_flushInterval (cl_config client)) \<le> n' \<and> n' < 2 ^ 53"
    and "processor_ok (cl_eventProcessor client)" and "pending_events (cl_eventProcessor client) now \<noteq> []"
    and "json_ok (JArray (pending_events (cl_eventProcessor client) now))"
    and "jdepth (JArray (pending_events (cl_eventProcessor client) now)) \<le> CJSON_NESTING_LIMIT"
    and "LDi_UUIDv4 rngs = Some payloadId"
  shows "\<exists>rq an' client' body. analytics_poll client
        \<lparr>ae_now = Some (Fin (of_nat n')), ae_unix = Some now, ae_random = rngs, ae_curl = (\<lambda>_. True)\<rparr> an =
      Inr (Some rq, an', client') \<and>
     rq_body rq = Some body \<and> LDJSONDeserialize (Some body) = Some (JArray (pending_events (cl_eventProcessor client) now)) \<and>
     (''X-LaunchDarkly-Payload-ID: '' @ payloadId) \<in> set (rq_headers rq) \<and>
     queued (cl_eventProcessor client') = [] \<and> object_entries (ep_summaryCounters (cl_eventProcessor client')) = [] \<and> an_active an'"
proof -
  let ?p = "cl_eventProcessor client" and ?events = "JArray (pending_events (cl_eventProcessor client) now)"
  let ?env = "\<lparr>ae_now = Some (Fin (of_nat n')), ae_unix = Some now, ae_random = rngs, ae_curl = (\<lambda>_. True)\<rparr>"
  obtain p' where p': "LDEventProcessor_CreateEventPayloadAndResetState ?p (Some now) = Inr (True, Some ?events, p')"
    "queued p' = []" "object_entries (ep_summaryCounters p') = []"
    using payload_ok [of ?p now] assms(4,5) by (auto simp: processor_ok_def pending_events_def queued_def split: if_split_asm)
  obtain body where b: "LDJSONSerialize (Some ?events) = Some body" "LDJSONDeserialize (Some body) = Some ?events"
    using serialize_deserialize [OF assms(6,7)] by blast
  let ?client = "client\<lparr>cl_eventProcessor := p'\<rparr>" and ?an = "an\<lparr>an_buffer := Some body, an_payloadId := payloadId\<rparr>"
  have id: "length payloadId = LD_UUID_SIZE"
    using assms(8) randomHex_digits [of rngs LD_UUID_SIZE] by (auto simp: LDi_UUIDv4_def)
  have "take_payload client ?env an = Inr (True, ?an, ?client)"
    using flush_due_cases [OF assms(3)] p'(1) b(1) assms(8) by (simp add: take_payload_def Let_def)
  then have "analytics_poll client ?env an =
      Inr (Some (context_request (cl_config ?client) ?an), connected (cl_config ?client) ?an, ?client)"
    using assms(1,2) connect_all [of ?an "cl_config ?client"] id by (simp add: analytics_poll_def retry_due_def)
  moreover have "rq_body (context_request (cl_config ?client) ?an) = Some body"
    "(''X-LaunchDarkly-Payload-ID: '' @ payloadId) \<in> set (rq_headers (context_request (cl_config ?client) ?an))"
    by (simp_all add: events_request_def Let_def event_headers_def)
  moreover have "queued (cl_eventProcessor ?client) = []" "object_entries (ep_summaryCounters (cl_eventProcessor ?client)) = []"
    "an_active (connected (cl_config ?client) ?an)"
    using p'(2,3) by simp_all
  ultimately show ?thesis using b(2) by blast
qed

text \<open>C26: due events are sent: an idle sender asked to flush, or whose flush interval has passed, takes everything the
  event processor holds, leaves it empty, and starts a request whose body reads back as exactly
  these events, followed by the summary, under an identifier of its own.\<close>

theorem due_events_are_sent:
  assumes "\<not> an_active an" and "an_failureTime an = 0"
    and "cl_shouldFlush client \<or> an_lastFlush an = Fin (of_nat n) \<and> n + unat (c_flushInterval (cl_config client)) \<le> n' \<and> n' < 2 ^ 53"
    and "processor_ok (cl_eventProcessor client)" and "pending_events (cl_eventProcessor client) now \<noteq> []"
    and "json_ok (JArray (pending_events (cl_eventProcessor client) now))"
    and "jdepth (JArray (pending_events (cl_eventProcessor client) now)) \<le> CJSON_NESTING_LIMIT"
    and "LDi_UUIDv4 rngs = Some payloadId"
  shows "\<exists>rq an' client' body. analytics_poll client
        \<lparr>ae_now = Some (Fin (of_nat n')), ae_unix = Some now, ae_random = rngs, ae_curl = (\<lambda>_. True)\<rparr> an =
      Inr (Some rq, an', client') \<and>
     rq_body rq = Some body \<and> LDJSONDeserialize (Some body) = Some (JArray (pending_events (cl_eventProcessor client) now)) \<and>
     (''X-LaunchDarkly-Payload-ID: '' @ payloadId) \<in> set (rq_headers rq) \<and>
     queued (cl_eventProcessor client') = [] \<and> object_entries (ep_summaryCounters (cl_eventProcessor client')) = [] \<and> an_active an'"
  by (rule due_sent [OF assms])

text \<open>A request to flush is not acknowledged when there is nothing to send: the sender clears its own copy of
  the flag, so the request stays pending in the client, and every later poll looks for events
  again without waiting for the interval, until something is sent.\<close>

theorem flush_request_stays:
  assumes "\<not> an_active an" and "an_failureTime an = 0" and "cl_shouldFlush client"
    and "processor_ok (cl_eventProcessor client)" and "pending_events (cl_eventProcessor client) now = []" and "ae_unix env = Some now"
  shows "analytics_poll client env an = Inr (None, an, client)"
proof -
  have "LDEventProcessor_CreateEventPayloadAndResetState (cl_eventProcessor client) (Some now) = Inr (True, None, cl_eventProcessor client)"
    using payload_ok [of "cl_eventProcessor client" now] assms(4,5) by (simp add: processor_ok_def pending_events_def split: if_split_asm)
  then have "take_payload client env an = Inr (False, an, client)"
    using assms(3,6) by (simp add: take_payload_def flush_due_def)
  then show ?thesis using assms(1,2) by (simp add: analytics_poll_def retry_due_def)
qed

section \<open>A sample client\<close>

definition sample_processor :: LDEventProcessor where
  "sample_processor = empty_processor\<lparr>ep_events := JArray [JObject [(''kind'', JText ''identify'')]]\<rparr>"

definition sample_client :: "LDEventProcessor \<Rightarrow> MemoryStoreContext LDClient" where
  "sample_client p = \<lparr>cl_shuttingdown = False, cl_config = sample_config, cl_shouldFlush = True,
     cl_store = memory_handle memory_context, cl_eventProcessor = p\<rparr>"

definition idle_sender :: AnalyticsContext where
  "idle_sender = \<lparr>an_active = False, an_lastFlush = Fin 0, an_headers = NoHeaders, an_buffer = None,
     an_failureTime = 0, an_payloadId = []\<rparr>"

definition sample_digits :: "uint option list" where
  "sample_digits = replicate 36 (Some 5)"

lemma sample_uuid: "\<exists>payloadId. LDi_UUIDv4 sample_digits = Some payloadId"
proof -
  have "\<exists>s. LDi_randomHex (replicate n (Some r)) n = Some s" for n r by (induction n) auto
  then show ?thesis by (auto simp: LDi_UUIDv4_def sample_digits_def LD_UUID_SIZE_def)
qed

lemma sample_processor_ok: "processor_ok sample_processor" "processor_ok empty_processor"
  "pending_events sample_processor now = [JObject [(''kind'', JText ''identify'')]]" "pending_events empty_processor now = []"
  using empty_summary(1) by (simp_all add: processor_ok_def sample_processor_def empty_processor_def queue_ok_def capacity_def
      sample_config_def LDConfigNew_def pending_events_def queued_def)

abbreviation sample_env :: analytics_env where
  "sample_env \<equiv> \<lparr>ae_now = Some (Fin (of_nat 9)), ae_unix = Some (Fin 1), ae_random = sample_digits, ae_curl = (\<lambda>_. True)\<rparr>"

lemma sample_due:
  "\<not> an_active idle_sender" "an_failureTime idle_sender = 0" "cl_shouldFlush (sample_client p)"
  "cl_eventProcessor (sample_client p) = p" "cl_config (sample_client p) = sample_config"
  "json_ok (JArray [JObject [(''kind'', JText ''identify'')]])" "jdepth (JArray [JObject [(''kind'', JText ''identify'')]]) \<le> CJSON_NESTING_LIMIT"
  by (simp_all add: idle_sender_def sample_client_def nul_free_def CJSON_NESTING_LIMIT_def)

theorem due_events_are_sent_witness:
  "\<exists>rq an' client' body. analytics_poll (sample_client sample_processor) sample_env idle_sender = Inr (Some rq, an', client') \<and>
     rq_body rq = Some body \<and> LDJSONDeserialize (Some body) = Some (JArray [JObject [(''kind'', JText ''identify'')]]) \<and>
     queued (cl_eventProcessor client') = []"
proof -
  obtain payloadId where "LDi_UUIDv4 sample_digits = Some payloadId" using sample_uuid by blast
  then show ?thesis
    using due_events_are_sent [of idle_sender "sample_client sample_processor" 0 9 "Fin 1" sample_digits payloadId]
      sample_due sample_processor_ok by auto
qed


theorem failure_time_overflows_witness:
  "analytics_done idle_sender (sample_client sample_processor) 0 (Some (Fin (of_nat 5000000000))) = Inl BadConversion"
  by (rule failure_time_overflows) (simp_all add: sample_due)

theorem flush_request_stays_witness:
  "analytics_poll (sample_client empty_processor) sample_env idle_sender = Inr (None, idle_sender, sample_client empty_processor)"
  by (rule flush_request_stays [of _ _ "Fin 1"]) (simp_all add: sample_due sample_processor_ok)

end
