(* ===== verification/NetworkFlow.thy ===== *)
theory NetworkFlow
  imports NetworkThread PollFlow AnalyticsFlow
begin

text \<open>
  What holds in every state the background thread can reach, whatever libcurl, the clocks and the
  servers do, and which requests it makes.
\<close>

section \<open>Invariant\<close>

definition polling_ok :: "PollContext \<Rightarrow> request option \<Rightarrow> bool" where
  "polling_ok pc cur \<longleftrightarrow> (pc_active pc \<longleftrightarrow> cur \<noteq> None) \<and> pc_inv pc \<and> (\<not> pc_active pc \<longrightarrow> pc_memory pc = None) \<and>
     (case cur of None \<Rightarrow> True | Some rq \<Rightarrow> pc_headers pc = HeaderList (rq_headers rq))"

definition streaming_ok :: "StreamContext \<Rightarrow> bool" where
  "streaming_ok sc \<longleftrightarrow> (st_active sc \<longleftrightarrow> st_current sc \<noteq> None) \<and>
     (case st_current sc of None \<Rightarrow> True | Some rq \<Rightarrow> st_headers sc = HeaderList (rq_headers rq))"

definition analytics_ok :: "AnalyticsContext \<Rightarrow> request option \<Rightarrow> bool" where
  "analytics_ok an cur \<longleftrightarrow> (an_active an \<longleftrightarrow> cur \<noteq> None) \<and>
     (an_failureTime an \<noteq> 0 \<longrightarrow> an_buffer an \<noteq> None \<and> length (an_payloadId an) = LD_UUID_SIZE) \<and>
     (case cur of None \<Rightarrow> True
      | Some rq \<Rightarrow> an_headers an = HeaderList (rq_headers rq) \<and> rq_body rq = an_buffer an \<and> an_buffer an \<noteq> None \<and>
          length (an_payloadId an) = LD_UUID_SIZE)"

definition net_inv :: "LDConfig \<Rightarrow> bool \<Rightarrow> 's network \<Rightarrow> bool" where
  "net_inv config dataSource nw \<longleftrightarrow>
     cl_config (nw_client nw) = config \<and> nw_dataSource nw = dataSource \<and>
     (nw_polling nw = None \<longleftrightarrow> c_useLDD config) \<and> (nw_streaming nw = None \<longleftrightarrow> c_useLDD config) \<and>
     (nw_analytics nw = None \<longleftrightarrow> \<not> c_sendEvents config) \<and>
     (case nw_polling nw of None \<Rightarrow> nw_pollingCurrent nw = None | Some pc \<Rightarrow> polling_ok pc (nw_pollingCurrent nw)) \<and>
     (case nw_streaming nw of None \<Rightarrow> True | Some sc \<Rightarrow> streaming_ok sc) \<and>
     (case nw_analytics nw of None \<Rightarrow> nw_analyticsCurrent nw = None | Some an \<Rightarrow> analytics_ok an (nw_analyticsCurrent nw))"

section \<open>The interfaces keep it\<close>

lemma poll_poll_keeps:
  assumes "poll_poll config dataSource curl reading pc = Inr (rq, pc')" and "polling_ok pc cur"
  shows "polling_ok pc' (case rq of None \<Rightarrow> cur | Some rq \<Rightarrow> Some rq)"
    and "rq = Some r \<Longrightarrow> cur = None \<and> \<not> c_stream config \<and> \<not> dataSource \<and>
      r = shared_request config (snprintf 4096 (c_baseURI config @ ''/sdk/latest-all''))"
  using assms
  by (auto simp: poll_poll_def poll_connect_def prepareShared_eq poll_error_def polling_ok_def pc_inv_def received_def Let_def
      exec_bind_eq_Inr split: if_split_asm option.split)

lemma poll_done_keeps:
  assumes "poll_done pc store code reading = Inr (pc', store')"
  shows "polling_ok pc' None"
  using assms by (auto simp: poll_done_def poll_resetMemory_def polling_ok_def pc_inv_def received_def Let_def exec_bind_eq_Inr
      split: if_split_asm)

lemma poll_write_keeps:
  assumes "writeCallback bytes pc = Inr (n, pc')" and "polling_ok pc (Some rq)"
  shows "polling_ok pc' (Some rq)"
proof -
  have "pc_inv pc" using assms(2) by (simp add: polling_ok_def)
  then show ?thesis using assms writeCallback_appends [of pc bytes] by (auto simp: polling_ok_def pc_inv_def received_def)
qed

lemma stream_done_keeps:
  "stream_done sc code reading = Inr sc' \<Longrightarrow> \<not> st_active sc' \<and> st_current sc' = st_current sc"
  by (auto simp: stream_done_def resetMemory_def Let_def exec_bind_eq_Inr split: if_split_asm)

lemma backoff_keeps:
  "check_backoff sc reading random = Inr (go, sc') \<Longrightarrow>
     st_active sc' = st_active sc \<and> st_current sc' = st_current sc \<and> st_headers sc' = st_headers sc"
  by (auto simp: check_backoff_def exec_bind_eq_Inr split: if_split_asm option.split_asm)

lemma connect_keeps:
  assumes "stream_connect config env sc = Inr (rq, sc')"
  shows "st_current sc' = st_current sc"
    and "rq = None \<Longrightarrow> st_active sc' = st_active sc"
    and "rq = Some r \<Longrightarrow> st_active sc' \<and> st_headers sc' = HeaderList (rq_headers r) \<and>
      rq_url r = snprintf 4096 (c_streamURI config @ ''/all'') \<and>
      rq_headers r = rq_headers (shared_request config []) @ [''Accept: text/event-stream''] \<and> rq_body r = None"
  using assms
  by (auto simp: stream_connect_def prepareShared_eq stream_error_def shared_request_def Let_def exec_bind_eq_Inr split: if_split_asm)

lemma stream_poll_keeps:
  assumes "stream_poll config env sc = Inr (rq, sc')" and "streaming_ok sc"
  shows "case rq of None \<Rightarrow> streaming_ok sc' | Some r \<Rightarrow> streaming_ok (sc'\<lparr>st_current := Some r\<rparr>)"
    and "rq = Some r \<Longrightarrow> st_current sc = None \<and> c_stream config \<and> \<not> se_dataSource env \<and>
      rq_url r = snprintf 4096 (c_streamURI config @ ''/all'') \<and>
      rq_headers r = rq_headers (shared_request config []) @ [''Accept: text/event-stream''] \<and> rq_body r = None"
proof -
  consider (same) "rq = None" "sc' = sc"
    | (timeout) "rq = None" "stream_done (sc\<lparr>st_current := None\<rparr>) 0 (se_now env) = Inr sc'"
    | (wait) "rq = None" "\<not> st_active sc" "check_backoff sc (se_now env) (se_random env) = Inr (False, sc')"
    | (connect) sc0 where "c_stream config" "\<not> se_dataSource env" "\<not> st_active sc"
      "check_backoff sc (se_now env) (se_random env) = Inr (True, sc0)" "stream_connect config env sc0 = Inr (rq, sc')"
    using assms(1) by (auto simp: stream_poll_def exec_bind_eq_Inr split: if_split_asm)
  note c = this
  have inactive: "st_current sc = None" if "\<not> st_active sc" using that assms(2) by (simp add: streaming_ok_def)
  show "case rq of None \<Rightarrow> streaming_ok sc' | Some r \<Rightarrow> streaming_ok (sc'\<lparr>st_current := Some r\<rparr>)"
    using c
  proof cases
    case timeout
    then show ?thesis using stream_done_keeps by (fastforce simp: streaming_ok_def)
  next
    case wait
    then show ?thesis using backoff_keeps inactive by (fastforce simp: streaming_ok_def)
  next
    case (connect sc0)
    then show ?thesis using backoff_keeps [OF connect(4)] connect_keeps [OF connect(5)] inactive
      by (auto simp: streaming_ok_def split: option.split)
  qed (use assms(2) in simp)
  show "st_current sc = None \<and> c_stream config \<and> \<not> se_dataSource env \<and>
      rq_url r = snprintf 4096 (c_streamURI config @ ''/all'') \<and>
      rq_headers r = rq_headers (shared_request config []) @ [''Accept: text/event-stream''] \<and> rq_body r = None" if "rq = Some r"
    using c
  proof cases
    case (connect sc0)
    then show ?thesis using connect_keeps(3) [OF connect(5) that] inactive by simp
  qed (simp_all add: that)
qed

lemma payload_keeps:
  assumes "take_payload client env an = Inr (go, an', client')"
  shows "cl_config client' = cl_config client \<and> an_active an' = an_active an"
    and "go \<Longrightarrow> an_buffer an' \<noteq> None \<and> length (an_payloadId an') = LD_UUID_SIZE"
proof -
  obtain due where due: "flush_due client an (ae_now env) = Inr due"
    using assms by (auto simp: take_payload_def exec_bind_eq_Inr)
  have uuid: "length payloadId = LD_UUID_SIZE" if "LDi_UUIDv4 (ae_random env) = Some payloadId" for payloadId
    using that randomHex_digits [of "ae_random env" LD_UUID_SIZE] by (auto simp: LDi_UUIDv4_def)
  have "cl_config client' = cl_config client \<and> an_active an' = an_active an \<and>
      (go \<longrightarrow> an_buffer an' \<noteq> None \<and> length (an_payloadId an') = LD_UUID_SIZE)"
  proof (cases due)
    case True
    obtain ok events p where e: "LDEventProcessor_CreateEventPayloadAndResetState (cl_eventProcessor client) (ae_unix env) = Inr (ok, events, p)"
      using assms due True by (auto simp: take_payload_def exec_bind_eq_Inr)
    show ?thesis
      using assms uuid by (cases events; cases "LDi_UUIDv4 (ae_random env)"; cases ok)
        (auto simp: take_payload_def due True e Let_def analytics_error_def exec_bind_eq_Inr split: if_split_asm)
  qed (use assms in \<open>auto simp: take_payload_def due\<close>)
  then show "cl_config client' = cl_config client \<and> an_active an' = an_active an"
    and "go \<Longrightarrow> an_buffer an' \<noteq> None \<and> length (an_payloadId an') = LD_UUID_SIZE" by auto
qed

lemma connect_refused:
  "analytics_connect config curl an = Inr (None, an') \<Longrightarrow> \<exists>hs. an' = an\<lparr>an_headers := hs\<rparr>"
  by (auto simp: analytics_connect_def prepareShared_eq analytics_error_def Let_def exec_bind_eq_Inr split: if_split_asm)

lemma analytics_poll_keeps:
  assumes "analytics_poll client env an = Inr (rq, an', client')" and "analytics_ok an cur"
  shows "analytics_ok an' (case rq of None \<Rightarrow> cur | Some r \<Rightarrow> Some r)" and "cl_config client' = cl_config client"
    and "rq = Some r \<Longrightarrow> cur = None \<and> r = events_request (cl_config client) (an_payloadId an') (an_buffer an')"
proof -
  consider (unchanged) "rq = None" "an' = an" "client' = client"
    | (no_payload) "rq = None" "\<not> an_active an" "an_failureTime an = 0" "take_payload client env an = Inr (False, an', client')"
    | (send) an0 where "\<not> an_active an0" "\<not> an_active an" "cl_config client' = cl_config client" "an_buffer an0 \<noteq> None"
      "length (an_payloadId an0) = LD_UUID_SIZE" "analytics_connect (cl_config client) (ae_curl env) an0 = Inr (rq, an')"
  proof (cases "an_active an \<or> retry_due an (ae_now env) \<noteq> Inr True")
    case True
    then show ?thesis using assms(1) that(1) by (auto simp: analytics_poll_def exec_bind_eq_Inr split: if_split_asm)
  next
    case False
    then have idle: "\<not> an_active an" "retry_due an (ae_now env) = Inr True" by auto
    show ?thesis
    proof (cases "an_failureTime an = 0")
      case True
      then obtain go an0 client0 where t: "take_payload client env an = Inr (go, an0, client0)"
        using assms(1) idle by (auto simp: analytics_poll_def exec_bind_eq_Inr)
      show ?thesis
      proof (cases go)
        case True
        then show ?thesis
          using assms(1) idle t \<open>an_failureTime an = 0\<close> payload_keeps [OF t] that(3) [of an0]
          by (auto simp: analytics_poll_def exec_bind_eq_Inr)
      next
        case False
        then show ?thesis using assms(1) idle t \<open>an_failureTime an = 0\<close> that(2) by (simp add: analytics_poll_def)
      qed
    next
      case False
      then show ?thesis
        using assms idle that(3) [of an] by (auto simp: analytics_poll_def analytics_ok_def exec_bind_eq_Inr)
    qed
  qed
  note c = this
  have idle: "cur = None" if "\<not> an_active an" using that assms(2) by (simp add: analytics_ok_def)
  have "analytics_ok an' (case rq of None \<Rightarrow> cur | Some r \<Rightarrow> Some r) \<and> cl_config client' = cl_config client \<and>
      (\<forall>r. rq = Some r \<longrightarrow> cur = None \<and> r = events_request (cl_config client) (an_payloadId an') (an_buffer an'))"
    using c
  proof cases
    case no_payload
    then show ?thesis
      using payload_keeps(1) [OF no_payload(4)] payload_failure [OF no_payload(4)] idle by (auto simp: analytics_ok_def)
  next
    case (send an0)
    show ?thesis
    proof (cases rq)
      case None
      then obtain hs where "an' = an0\<lparr>an_headers := hs\<rparr>" using connect_refused send(6) by blast
      then show ?thesis using None send(1-5) idle by (auto simp: analytics_ok_def)
    next
      case (Some r)
      then show ?thesis using connect_request [of "cl_config client" "ae_curl env" an0 r an'] send idle
        by (auto simp: analytics_ok_def events_request_def Let_def)
    qed
  qed (use assms(2) in simp_all)
  then show "analytics_ok an' (case rq of None \<Rightarrow> cur | Some r \<Rightarrow> Some r)" "cl_config client' = cl_config client"
    "rq = Some r \<Longrightarrow> cur = None \<and> r = events_request (cl_config client) (an_payloadId an') (an_buffer an')" by blast+
qed

lemma analytics_done_keeps:
  assumes "analytics_done an client code reading = Inr (an', client')" and "analytics_ok an (Some rq)"
  shows "analytics_ok an' None \<and> cl_config client' = cl_config client"
  using assms by (auto simp: analytics_done_def analytics_resetMemory_def analytics_ok_def Let_def exec_bind_eq_Inr split: if_split_asm)

section \<open>The thread keeps it\<close>

text \<open>The requests a configuration allows.\<close>

definition authorized :: "LDConfig \<Rightarrow> request \<Rightarrow> bool" where
  "authorized config rq \<longleftrightarrow> snprintf 256 (''Authorization: '' @ c_key config) \<in> set (rq_headers rq)"

definition allowed_request :: "LDConfig \<Rightarrow> bool \<Rightarrow> request \<Rightarrow> bool" where
  "allowed_request config dataSource rq \<longleftrightarrow> authorized config rq \<and> \<not> c_offline config \<and>
     (if rq_body rq = None then
        \<not> c_useLDD config \<and> \<not> dataSource \<and>
        rq_url rq = snprintf 4096 (if c_stream config then c_streamURI config @ ''/all'' else c_baseURI config @ ''/sdk/latest-all'')
      else c_sendEvents config \<and> rq_url rq = snprintf 4096 (c_eventsURI config @ ''/bulk''))"

definition turn_ok :: "LDConfig \<Rightarrow> bool \<Rightarrow> 's turn \<Rightarrow> bool" where
  "turn_ok config dataSource t \<longleftrightarrow> (\<forall>go rqs nw. t = Inr (go, rqs, nw) \<longrightarrow>
     net_inv config dataSource nw \<and> list_all (allowed_request config dataSource) rqs)"

lemma then_turn_ok:
  assumes "turn_ok config dataSource t" and "\<And>nw. net_inv config dataSource nw \<Longrightarrow> turn_ok config dataSource (f nw)"
  shows "turn_ok config dataSource (then_turn t f)"
  using assms by (fastforce simp: turn_ok_def then_turn_def exec_bind_eq_Inr split: if_split_asm)

lemma shared_authorized: "authorized config (shared_request config url)"
  by (simp add: authorized_def shared_request_def)

lemma polling_turn_ok:
  assumes "net_inv config dataSource nw" and "\<not> c_offline config"
  shows "turn_ok config dataSource (polling_turn env nw)"
  unfolding turn_ok_def
proof (intro allI impI)
  fix go rqs nw' assume t: "polling_turn env nw = Inr (go, rqs, nw')"
  show "net_inv config dataSource nw' \<and> list_all (allowed_request config dataSource) rqs"
  proof (cases "nw_polling nw")
    case None
    then show ?thesis using t assms by (simp add: polling_turn_def)
  next
    case (Some pc)
    have inv: "polling_ok pc (nw_pollingCurrent nw)" "cl_config (nw_client nw) = config" "nw_dataSource nw = dataSource" "\<not> c_useLDD config"
      using assms(1) Some by (auto simp: net_inv_def)
    obtain handle pc' where p: "poll_poll config dataSource (fst (pe_polling env)) (snd (pe_polling env)) pc = Inr (handle, pc')"
      using t Some inv by (auto simp: polling_turn_def exec_bind_eq_Inr)
    show ?thesis
      using t Some inv p poll_poll_keeps [OF p inv(1)] assms shared_authorized
      by (cases handle) (auto simp: polling_turn_def net_inv_def allowed_request_def shared_request_def)
  qed
qed

lemma streaming_turn_ok:
  assumes "net_inv config dataSource nw" and "\<not> c_offline config"
  shows "turn_ok config dataSource (streaming_turn env nw)"
  unfolding turn_ok_def
proof (intro allI impI)
  fix go rqs nw' assume t: "streaming_turn env nw = Inr (go, rqs, nw')"
  show "net_inv config dataSource nw' \<and> list_all (allowed_request config dataSource) rqs"
  proof (cases "nw_streaming nw")
    case None
    then show ?thesis using t assms by (simp add: streaming_turn_def)
  next
    case (Some sc)
    have inv: "streaming_ok sc" "cl_config (nw_client nw) = config" "nw_dataSource nw = dataSource" "\<not> c_useLDD config"
      using assms(1) Some by (auto simp: net_inv_def)
    let ?env = "(pe_streaming env)\<lparr>se_dataSource := dataSource\<rparr>"
    obtain handle sc' where p: "stream_poll config ?env sc = Inr (handle, sc')"
      using t Some inv by (auto simp: streaming_turn_def exec_bind_eq_Inr)
    show ?thesis
      using t Some inv p stream_poll_keeps [OF p inv(1)] assms shared_authorized [of config "[]"]
      by (cases handle) (auto simp: streaming_turn_def net_inv_def allowed_request_def authorized_def)
  qed
qed

lemma analytics_turn_ok:
  assumes "net_inv config dataSource nw" and "\<not> c_offline config"
  shows "turn_ok config dataSource (analytics_turn env nw)"
  unfolding turn_ok_def
proof (intro allI impI)
  fix go rqs nw' assume t: "analytics_turn env nw = Inr (go, rqs, nw')"
  show "net_inv config dataSource nw' \<and> list_all (allowed_request config dataSource) rqs"
  proof (cases "nw_analytics nw")
    case None
    then show ?thesis using t assms by (simp add: analytics_turn_def)
  next
    case (Some an)
    have inv: "analytics_ok an (nw_analyticsCurrent nw)" "cl_config (nw_client nw) = config" "c_sendEvents config"
      using assms(1) Some by (auto simp: net_inv_def)
    obtain handle an' client' where p: "analytics_poll (nw_client nw) (pe_analytics env) an = Inr (handle, an', client')"
      using t Some by (auto simp: analytics_turn_def exec_bind_eq_Inr)
    note k = analytics_poll_keeps [OF p inv(1)]
    show ?thesis
    proof (cases handle)
      case None
      then show ?thesis using t Some inv p k assms by (auto simp: analytics_turn_def net_inv_def)
    next
      case (Some r)
      have r: "r = events_request config (an_payloadId an') (an_buffer an')" using k(3) [OF Some] inv(2) by simp
      have "an_buffer an' \<noteq> None" using k(1) Some by (simp add: analytics_ok_def)
      then have "allowed_request config dataSource r"
        using inv(3) assms(2) shared_authorized [of config]
        by (auto simp: r allowed_request_def authorized_def events_request_def Let_def shared_request_def)
      then show ?thesis using t \<open>nw_analytics nw = Some an\<close> Some inv p k assms by (auto simp: analytics_turn_def net_inv_def)
    qed
  qed
qed

lemma poll_interfaces_ok:
  "net_inv config dataSource nw \<Longrightarrow> \<not> c_offline config \<Longrightarrow> turn_ok config dataSource (poll_interfaces env nw)"
  unfolding poll_interfaces_def by (intro then_turn_ok polling_turn_ok streaming_turn_ok analytics_turn_ok)

lemma onHeader_config:
  "LDi_onHeader date bytes client = Inr (n, client') \<Longrightarrow> cl_config client' = cl_config client"
  by (auto simp: LDi_onHeader_def Let_def exec_bind_eq_Inr split: if_split_asm option.split_asm)

lemma streamWrite_keeps:
  "LDi_streamWriteCallback bytes sc store reading = Inr (n, sc', store') \<Longrightarrow> streaming_ok sc \<Longrightarrow> streaming_ok sc'"
  by (auto simp: LDi_streamWriteCallback_def streaming_ok_def exec_bind_eq_Inr)

lemma deliver_keeps:
  assumes "deliver date d nw = Inr nw'" and "net_inv config dataSource nw"
  shows "net_inv config dataSource nw'"
proof (cases d)
  case (StreamBytes bytes reading)
  then show ?thesis
    using assms streamWrite_keeps by (fastforce simp: net_inv_def exec_bind_eq_Inr split: option.split_asm if_split_asm)
next
  case (PollBytes bytes)
  then show ?thesis
    using assms poll_write_keeps by (fastforce simp: net_inv_def exec_bind_eq_Inr split: option.split_asm if_split_asm)
next
  case (EventsHeader bytes)
  then show ?thesis
    using assms onHeader_config by (fastforce simp: net_inv_def exec_bind_eq_Inr split: if_split_asm)
qed

lemma perform_keeps:
  "perform date ds nw = Inr nw' \<Longrightarrow> net_inv config dataSource nw \<Longrightarrow> net_inv config dataSource nw'"
  by (induction ds arbitrary: nw) (auto simp: exec_bind_eq_Inr dest: deliver_keeps)

lemma interface_done_keeps:
  assumes "interface_done i code reading nw = Inr nw'" and "net_inv config dataSource nw" and "has_handle i nw"
  shows "net_inv config dataSource nw'"
proof (cases i)
  case Polling
  then show ?thesis
    using assms poll_done_keeps by (fastforce simp: net_inv_def exec_bind_eq_Inr split: option.split_asm)
next
  case Streaming
  then obtain sc sc' where "nw_streaming nw = Some sc" "stream_done sc code reading = Inr sc'"
    "nw' = nw\<lparr>nw_streaming := Some (sc'\<lparr>st_current := None\<rparr>)\<rparr>"
    using assms(1,3) by (auto simp: exec_bind_eq_Inr split: option.split_asm)
  then show ?thesis using assms(2) stream_done_keeps [of sc code reading sc'] by (auto simp: net_inv_def streaming_ok_def)
next
  case Analytics
  then obtain an an' client' where "nw_analytics nw = Some an" "analytics_done an (nw_client nw) code reading = Inr (an', client')"
    "nw' = nw\<lparr>nw_analytics := Some an', nw_client := client', nw_analyticsCurrent := None\<rparr>"
    using assms(1,3) by (auto simp: exec_bind_eq_Inr)
  moreover obtain rq where "nw_analyticsCurrent nw = Some rq" using Analytics assms(3) by auto
  ultimately show ?thesis
    using assms(2) analytics_done_keeps [of an "nw_client nw" code reading an' client' rq] by (auto simp: net_inv_def)
qed

lemma read_messages_keeps:
  "read_messages ms nw = Inr (go, nw') \<Longrightarrow> net_inv config dataSource nw \<Longrightarrow> net_inv config dataSource nw'"
  by (induction ms arbitrary: nw) (auto simp: exec_bind_eq_Inr dest: interface_done_keeps split: if_split_asm)

lemma iteration_ok:
  assumes "net_inv config dataSource nw"
  shows "turn_ok config dataSource (network_iteration date it nw)"
  unfolding turn_ok_def
proof (intro allI impI)
  fix go rqs nw' assume t: "network_iteration date it nw = Inr (go, rqs, nw')"
  show "net_inv config dataSource nw' \<and> list_all (allowed_request config dataSource) rqs"
  proof (cases "cl_shuttingdown (nw_client nw)")
    case True
    then show ?thesis using t assms by (simp add: network_iteration_def)
  next
    case False
    have cfg: "cl_config (nw_client nw) = config" using assms by (simp add: net_inv_def)
    obtain nw1 where p: "perform date (it_deliveries it) nw = Inr nw1"
      using t False by (auto simp: network_iteration_def Let_def exec_bind_eq_Inr)
    define polled where "polled = (if c_offline config then Inr (True, [], nw1) else poll_interfaces (it_polls it) nw1)"
    obtain go1 rqs1 nw2 where s: "polled = Inr (go1, rqs1, nw2)"
      using t False p cfg by (auto simp: network_iteration_def polled_def [symmetric] Let_def exec_bind_eq_Inr)
    have m: "rqs = rqs1" "nw' = nw2 \<or> (\<exists>go2. read_messages (it_messages it) nw2 = Inr (go2, nw'))"
      using t False p cfg s by (auto simp: network_iteration_def polled_def [symmetric] Let_def exec_bind_eq_Inr split: if_split_asm)
    have "net_inv config dataSource nw2 \<and> list_all (allowed_request config dataSource) rqs1"
      using s perform_keeps [OF p assms] poll_interfaces_ok [of config dataSource nw1 "it_polls it"]
      by (auto simp: polled_def turn_ok_def split: if_split_asm)
    then show ?thesis using m read_messages_keeps by blast
  qed
qed

section \<open>Runs of the thread\<close>

fun network_run :: "(string \<Rightarrow> int option) \<Rightarrow> iteration list \<Rightarrow> 's network \<Rightarrow> 's turn" where
  "network_run date [] nw = Inr (True, [], nw)"
| "network_run date (it # its) nw = then_turn (network_iteration date it nw) (network_run date its)"

lemma run_ok: "net_inv config dataSource nw \<Longrightarrow> turn_ok config dataSource (network_run date its nw)"
proof (induction its arbitrary: nw)
  case Nil
  then show ?case by (simp add: turn_ok_def)
next
  case (Cons it its)
  then show ?case by (simp add: then_turn_ok iteration_ok)
qed

lemma construct_inv:
  assumes "construct_interfaces client dataSource reading = Inr nw"
  shows "net_inv (cl_config client) dataSource nw"
  using assms by (auto simp: construct_interfaces_def net_inv_def Let_def LDi_constructAnalytics_def exec_bind_eq_Inr
      polling_ok_def streaming_ok_def analytics_ok_def LDi_constructPolling_def LDi_constructStreamContext_def pc_inv_def received_def
      split: if_split_asm)

text \<open>C9: in every state the background thread reaches, whatever libcurl, the clocks and the servers do, an interface
  is active exactly while it has a handle; the headers libcurl holds for that handle are still
  the ones of the request and not freed; the polling buffer has the recorded size and is empty
  between requests; and a payload of events waiting for a retry or being sent is still there
  with its identifier.\<close>

theorem thread_invariant:
  assumes "construct_interfaces client dataSource reading = Inr nw"
    and "network_run date its nw = Inr (go, rqs, nw')"
  shows "net_inv (cl_config client) dataSource nw'"
  using run_ok [OF construct_inv [OF assms(1)], of date its] assms(2) by (simp add: turn_ok_def)

text \<open>C24: the background thread makes only the requests its configuration allows: every request carries the SDK
  key, nothing is requested offline, flag data is requested from the streaming service or from
  the polling service as configured, never from both, and not at all with a daemon or a data
  source of the application, and events are sent only to the events service and only when
  enabled.\<close>

theorem thread_requests_allowed:
  assumes "construct_interfaces client dataSource reading = Inr nw"
    and "network_run date its nw = Inr (go, rqs, nw')"
  shows "list_all (allowed_request (cl_config client) dataSource) rqs"
  using run_ok [OF construct_inv [OF assms(1)], of date its] assms(2) by (simp add: turn_ok_def)

section \<open>A sample run\<close>

definition sample_polls :: poll_env where
  "sample_polls = \<lparr>pe_polling = (\<lambda>_. True, Some (Fin 9)),
     pe_streaming = \<lparr>se_dataSource = False, se_removed = True, se_curl = (\<lambda>_. True), se_now = Some (Fin 9), se_connected = Some (Fin 9), se_random = Some 3\<rparr>,
     pe_analytics = sample_env, pe_addPolling = True, pe_addStreaming = True, pe_addAnalytics = True\<rparr>"

definition quiet_client :: "MemoryStoreContext LDClient" where
  "quiet_client = (sample_client empty_processor)\<lparr>cl_config := sample_config\<lparr>c_sendEvents := False\<rparr>\<rparr>"

definition sample_iteration :: iteration where
  "sample_iteration = \<lparr>it_deliveries = [], it_polls = sample_polls, it_messages = [], it_wait = True\<rparr>"

lemma quiet_client_simps [simp]:
  "c_useLDD (cl_config quiet_client) = False" "c_sendEvents (cl_config quiet_client) = False" "c_stream (cl_config quiet_client)"
  "c_offline (cl_config quiet_client) = False" "cl_shuttingdown quiet_client = False"
  by (simp_all add: quiet_client_def sample_client_def sample_config_def LDConfigNew_def)

lemma sample_connects:
  "\<exists>rq sc. stream_poll (cl_config quiet_client) ((pe_streaming sample_polls)\<lparr>se_dataSource := False\<rparr>) LDi_constructStreamContext = Inr (Some rq, sc)"
  by (simp add: stream_poll_def sample_polls_def check_backoff_def stream_connect_def prepareShared_eq Let_def
      LDi_getMonotonicMilliseconds_def LDi_constructStreamContext_def)

lemma sample_run:
  "\<exists>nw rq nw'. construct_interfaces quiet_client False None = Inr nw \<and>
     network_run (\<lambda>_. None) [sample_iteration] nw = Inr (True, [rq], nw')"
proof -
  obtain rq sc where c: "stream_poll (cl_config quiet_client) ((pe_streaming sample_polls)\<lparr>se_dataSource := False\<rparr>) LDi_constructStreamContext = Inr (Some rq, sc)"
    using sample_connects by blast
  let ?nw = "\<lparr>nw_client = quiet_client, nw_dataSource = False, nw_polling = Some LDi_constructPolling, nw_pollingCurrent = None,
      nw_streaming = Some LDi_constructStreamContext, nw_analytics = None, nw_analyticsCurrent = None\<rparr>"
  let ?nw' = "?nw\<lparr>nw_streaming := Some (sc\<lparr>st_current := Some rq\<rparr>)\<rparr>"
  have "construct_interfaces quiet_client False None = Inr ?nw" by (simp add: construct_interfaces_def Let_def)
  moreover have "polling_turn sample_polls ?nw = Inr (True, [], ?nw)" by (simp add: polling_turn_def poll_poll_def)
  moreover have "streaming_turn sample_polls ?nw = Inr (True, [rq], ?nw')"
    using c by (simp add: streaming_turn_def) (simp add: sample_polls_def)
  moreover have "analytics_turn sample_polls ?nw' = Inr (True, [], ?nw')" by (simp add: analytics_turn_def)
  ultimately have "poll_interfaces sample_polls ?nw = Inr (True, [rq], ?nw')" by (simp add: poll_interfaces_def then_turn_def)
  then have "network_run (\<lambda>_. None) [sample_iteration] ?nw = Inr (True, [rq], ?nw')"
    by (simp add: network_iteration_def sample_iteration_def Let_def then_turn_def)
  then show ?thesis using \<open>construct_interfaces quiet_client False None = Inr ?nw\<close> by blast
qed

theorem thread_invariant_witness:
  "\<exists>nw rq nw'. construct_interfaces quiet_client False None = Inr nw \<and>
     network_run (\<lambda>_. None) [sample_iteration] nw = Inr (True, [rq], nw') \<and> net_inv (cl_config quiet_client) False nw'"
proof -
  obtain nw rq nw' where r: "construct_interfaces quiet_client False None = Inr nw"
    "network_run (\<lambda>_. None) [sample_iteration] nw = Inr (True, [rq], nw')"
    using sample_run by metis
  then show ?thesis using thread_invariant [OF r] by blast
qed

theorem thread_requests_allowed_witness:
  "\<exists>nw rq nw'. construct_interfaces quiet_client False None = Inr nw \<and>
     network_run (\<lambda>_. None) [sample_iteration] nw = Inr (True, [rq], nw') \<and> allowed_request (cl_config quiet_client) False rq"
proof -
  obtain nw rq nw' where r: "construct_interfaces quiet_client False None = Inr nw"
    "network_run (\<lambda>_. None) [sample_iteration] nw = Inr (True, [rq], nw')"
    using sample_run by metis
  moreover have "allowed_request (cl_config quiet_client) False rq" using thread_requests_allowed [OF r] by simp
  ultimately show ?thesis by blast
qed

section \<open>A defect\<close>

text \<open>A request that cannot be set up is cleaned up twice: when libcurl refuses an option after the headers were
  built, the streaming source frees the headers but keeps the pointer, so ending the thread, or
  another poll whose request cannot be prepared, frees them again.\<close>

theorem failed_setup_frees_twice:
  assumes "c_stream config" and "curl CURL_EASY_INIT" and "curl CURLOPT_URL" and "curl CURLOPT_HTTPHEADER"
    and "curl CURLOPT_CONNECTTIMEOUT_MS" and "\<not> curl CURLOPT_WRITEDATA"
  shows "\<exists>sc. stream_poll config \<lparr>se_dataSource = False, se_removed = r, se_curl = curl, se_now = now, se_connected = now, se_random = rng\<rparr>
        LDi_constructStreamContext = Inr (None, sc) \<and>
     resetMemory sc = Inl DoubleFree \<and>
     stream_poll config \<lparr>se_dataSource = False, se_removed = r, se_curl = (\<lambda>_. False), se_now = now, se_connected = now, se_random = rng\<rparr> sc =
       Inl DoubleFree"
  using assms by (simp add: stream_poll_def check_backoff_def LDi_constructStreamContext_def stream_connect_def prepareShared_eq
      stream_error_def resetMemory_def Let_def)

theorem failed_setup_frees_twice_witness:
  "\<exists>sc. stream_poll sample_config \<lparr>se_dataSource = False, se_removed = True, se_curl = (\<lambda>c. c \<noteq> CURLOPT_WRITEDATA), se_now = None, se_connected = None, se_random = None\<rparr>
        LDi_constructStreamContext = Inr (None, sc) \<and>
     resetMemory sc = Inl DoubleFree \<and>
     stream_poll sample_config \<lparr>se_dataSource = False, se_removed = True, se_curl = (\<lambda>_. False), se_now = None, se_connected = None, se_random = None\<rparr> sc =
       Inl DoubleFree"
  by (rule failed_setup_frees_twice) (simp_all add: sample_config_def LDConfigNew_def)

end
