(* ===== verification/MemoryCache.thy ===== *)
theory MemoryCache
  imports Json TimeUtils
begin

text \<open>
  The cache in front of a persistent store, \<open>src/store/memory_cache.c\<close>: a table of values with the
  time each was stored. The sentinel entry has no value.
\<close>

record LDCacheItem =
  ci_key :: string
  ci_feature :: "LDJSON option"
  ci_updatedOn :: dbl

record LDMemoryContext =
  mc_initialized :: bool
  mc_items :: "(string \<times> LDCacheItem) list"

definition LDi_memoryCacheGetCollectionItem :: "LDMemoryContext \<Rightarrow> string \<Rightarrow> LDCacheItem option" where
  "LDi_memoryCacheGetCollectionItem cache cacheKey = hash_find (mc_items cache) cacheKey"

definition LDi_deleteAndRemoveCacheItem :: "LDMemoryContext \<Rightarrow> LDCacheItem \<Rightarrow> LDMemoryContext" where
  "LDi_deleteAndRemoveCacheItem cache item = cache\<lparr>mc_items := hash_del (mc_items cache) (ci_key item)\<rparr>"

definition LDi_findAndRemoveCacheItem :: "LDMemoryContext \<Rightarrow> string \<Rightarrow> LDMemoryContext" where
  "LDi_findAndRemoveCacheItem cache key = (case LDi_memoryCacheGetCollectionItem cache key of
       None \<Rightarrow> cache | Some item \<Rightarrow> LDi_deleteAndRemoveCacheItem cache item)"

definition LDi_memoryCacheFlush :: "LDMemoryContext \<Rightarrow> LDMemoryContext" where
  "LDi_memoryCacheFlush cache = cache\<lparr>mc_items := []\<rparr>"

definition LDi_makeCacheItemFromRc :: "dbl option \<Rightarrow> string \<Rightarrow> LDJSON \<Rightarrow> LDCacheItem exec" where
  "LDi_makeCacheItemFromRc reading key valueRC = exec_bind (LDi_getMonotonicMilliseconds reading) (\<lambda>now.
     Inr \<lparr>ci_key = key, ci_feature = Some valueRC, ci_updatedOn = now\<rparr>)"

definition LDi_makeCacheItem :: "dbl option \<Rightarrow> string \<Rightarrow> LDJSON option \<Rightarrow> LDCacheItem exec" where
  "LDi_makeCacheItem reading key val = exec_bind (LDi_getMonotonicMilliseconds reading) (\<lambda>now.
     Inr \<lparr>ci_key = key, ci_feature = val, ci_updatedOn = now\<rparr>)"

definition LDi_addToCache :: "LDMemoryContext \<Rightarrow> LDCacheItem \<Rightarrow> LDMemoryContext" where
  "LDi_addToCache cache item = cache\<lparr>mc_items := hash_add (mc_items cache) (ci_key item) item\<rparr>"

definition LDi_memoryCacheExpireAll :: "LDMemoryContext \<Rightarrow> LDMemoryContext" where
  "LDi_memoryCacheExpireAll cache = cache\<lparr>mc_items := map (\<lambda>(k, item). (k, item\<lparr>ci_updatedOn := Fin 0\<rparr>)) (mc_items cache)\<rparr>"

section \<open>Lookups\<close>

lemma map_of_del_other: "k' \<noteq> k \<Longrightarrow> hash_find (hash_del t k) k' = hash_find t k'"
  by (simp add: hash_find_def hash_del_def)

lemma get_add:
  "LDi_memoryCacheGetCollectionItem (LDi_addToCache cache item) key =
     (if key = ci_key item then Some item else LDi_memoryCacheGetCollectionItem cache key)"
  by (simp add: LDi_memoryCacheGetCollectionItem_def LDi_addToCache_def hash_find_add)

lemma get_delete:
  "key \<noteq> ci_key item \<Longrightarrow> LDi_memoryCacheGetCollectionItem (LDi_deleteAndRemoveCacheItem cache item) key =
     LDi_memoryCacheGetCollectionItem cache key"
  by (simp add: LDi_memoryCacheGetCollectionItem_def LDi_deleteAndRemoveCacheItem_def map_of_del_other)

end
