(* ===== verification/CachingWrapper.thy ===== *)
theory CachingWrapper
  imports MemoryCache StoreInterface JsonParse
begin

text \<open>
  A persistent store behind a cache, \<open>src/store/caching_wrapper.c\<close>, with the conversion of items in
  \<open>src/store/persistent_store_collection.c\<close>. The persistent store is supplied by the application
  through the table of \<open>launchdarkly/store.h\<close>. The clock is a field of the context that the
  environment sets; it does not advance during one operation.
\<close>

section \<open>The table of a persistent store\<close>

text \<open>The size of a buffer is the length of its text.\<close>

record LDStoreCollectionItem =
  sc_buffer :: "string option"
  sc_version :: uint

type_synonym LDStoreCollectionState = "string \<times> (string \<times> LDStoreCollectionItem) list"

record 'b LDStoreInterface =
  pi_init :: "'b \<Rightarrow> LDStoreCollectionState list \<Rightarrow> (bool \<times> 'b) exec"
  pi_get :: "'b \<Rightarrow> string \<Rightarrow> string \<Rightarrow> (bool \<times> LDStoreCollectionItem \<times> 'b) exec"
  pi_all :: "'b \<Rightarrow> string \<Rightarrow> (bool \<times> LDStoreCollectionItem list \<times> 'b) exec"
  pi_upsert :: "'b \<Rightarrow> string \<Rightarrow> LDStoreCollectionItem \<Rightarrow> string \<Rightarrow> (bool \<times> 'b) exec"
  pi_initialized :: "'b \<Rightarrow> (bool \<times> 'b) exec"

record 'b PersistentStoreContext =
  ps_persistentStore :: "'b LDStoreInterface"
  ps_context :: 'b
  ps_cache :: LDMemoryContext
  ps_cacheMilliseconds :: uint
  ps_clock :: "dbl option"

section \<open>Collections\<close>

text \<open>Items that are not valid are left out.\<close>

fun LDi_makeKindCollection :: "LDJSON list \<Rightarrow> (string \<times> LDStoreCollectionItem) list exec" where
  "LDi_makeKindCollection [] = Inr []"
| "LDi_makeKindCollection (setItem # items) =
     (if \<not> LDi_validateData setItem then LDi_makeKindCollection items
      else exec_bind (deref (LDJSONSerialize (Some setItem))) (\<lambda>serialized.
        exec_bind (LDi_getDataKey setItem) (\<lambda>key.
        exec_bind (deref key) (\<lambda>key.
        exec_bind (LDi_getDataVersion setItem) (\<lambda>version.
        exec_bind (LDi_makeKindCollection items) (\<lambda>rest.
          Inr ((key, \<lparr>sc_buffer = Some serialized, sc_version = version\<rparr>) # rest)))))))"

fun make_collections :: "(string option \<times> LDJSON) list \<Rightarrow> LDStoreCollectionState list exec" where
  "make_collections [] = Inr []"
| "make_collections ((kind, items) # rest) =
     exec_bind (ld_assert (kind \<noteq> None)) (\<lambda>_.
     exec_bind (LDi_makeKindCollection (iter_values (Some items))) (\<lambda>c.
     exec_bind (make_collections rest) (\<lambda>cs. Inr ((the kind, c) # cs))))"

definition LDi_makeCollections :: "LDJSON \<Rightarrow> LDStoreCollectionState list exec" where
  "LDi_makeCollections sets = make_collections (LDGetIter (Some sets))"

section \<open>Cache keys and expiration\<close>

definition featureStoreAllCacheKey :: "string \<Rightarrow> string" where
  "featureStoreAllCacheKey kind = ''all:'' @ kind"

definition featureStoreCacheKey :: "string \<Rightarrow> string \<Rightarrow> string" where
  "featureStoreCacheKey kind key = kind @ '':'' @ key"

definition INIT_CHECKED_KEY :: string where
  "INIT_CHECKED_KEY = ''$initChecked''"

datatype ExpirationState = LD_EXP_ERROR | LD_EXP_CURRENT | LD_EXP_EXPIRED

text \<open>A clock that cannot be read aborts the process, so there is no error state.\<close>

definition getExpirationState :: "'b PersistentStoreContext \<Rightarrow> LDCacheItem \<Rightarrow> ExpirationState exec" where
  "getExpirationState store item =
     (if ps_cacheMilliseconds store = 0 then Inr LD_EXP_EXPIRED
      else exec_bind (LDi_getMonotonicMilliseconds (ps_clock store)) (\<lambda>now.
        Inr (if dbl_lt (uint_to_dbl (ps_cacheMilliseconds store)) (dbl_sub now (ci_updatedOn item))
             then LD_EXP_EXPIRED else LD_EXP_CURRENT)))"

section \<open>Writing the cache\<close>

definition data_key :: "LDJSON \<Rightarrow> string exec" where
  "data_key item = exec_bind (LDi_getDataKey item) (\<lambda>key. exec_bind (ld_assert (key \<noteq> None)) (\<lambda>_. Inr (the key)))"

definition with_cache :: "'b PersistentStoreContext \<Rightarrow> LDMemoryContext \<Rightarrow> 'b PersistentStoreContext" where
  "with_cache store cache = store\<lparr>ps_cache := cache\<rparr>"

definition remove_found :: "LDMemoryContext \<Rightarrow> LDCacheItem option \<Rightarrow> LDMemoryContext" where
  "remove_found cache item = (case item of None \<Rightarrow> cache | Some i \<Rightarrow> LDi_deleteAndRemoveCacheItem cache i)"

text \<open>The new entry replaces the cached one, and the cached list of its kind is dropped.\<close>

definition replace_cached :: "'b PersistentStoreContext \<Rightarrow> FeatureKind \<Rightarrow> string \<Rightarrow> LDJSON \<Rightarrow>
   LDCacheItem option \<Rightarrow> (bool \<times> 'b PersistentStoreContext) exec" where
  "replace_cached store kind cacheKey replacement currentItem =
     exec_bind (LDi_makeCacheItemFromRc (ps_clock store) cacheKey replacement) (\<lambda>replacementItem.
       let cache = ps_cache store;
           allItems = LDi_memoryCacheGetCollectionItem cache (featureStoreAllCacheKey (featureKindToString kind));
           cache = remove_found cache allItems;
           cache = remove_found cache currentItem
       in Inr (True, with_cache store (LDi_addToCache cache replacementItem)))"

definition upsertMemory ::
  "'b PersistentStoreContext \<Rightarrow> FeatureKind \<Rightarrow> LDJSON \<Rightarrow> (bool \<times> 'b PersistentStoreContext) exec" where
  "upsertMemory store kind replacement =
     exec_bind (data_key replacement) (\<lambda>key.
       let cacheKey = featureStoreCacheKey (featureKindToString kind) key
       in case LDi_memoryCacheGetCollectionItem (ps_cache store) cacheKey of
            None \<Rightarrow> replace_cached store kind cacheKey replacement None
          | Some currentItem \<Rightarrow>
              exec_bind (getExpirationState store currentItem) (\<lambda>expired.
                if expired = LD_EXP_ERROR then Inr (False, store)
                else exec_bind (ld_assert (ci_feature currentItem \<noteq> None)) (\<lambda>_.
                  let current = the (ci_feature currentItem) in
                  if expired = LD_EXP_CURRENT
                  then exec_bind (LDi_getDataVersion current) (\<lambda>v.
                       exec_bind (LDi_getDataVersion replacement) (\<lambda>v'.
                         if v \<ge> v' then Inr (True, store)
                         else replace_cached store kind cacheKey replacement (Some currentItem)))
                  else replace_cached store kind cacheKey replacement (Some currentItem))))"

fun cache_items :: "'b PersistentStoreContext \<Rightarrow> string \<Rightarrow> LDJSON list \<Rightarrow> 'b PersistentStoreContext exec" where
  "cache_items store kind [] = Inr store"
| "cache_items store kind (item # items) =
     exec_bind (data_key item) (\<lambda>key.
     exec_bind (LDi_makeCacheItem (ps_clock store) (featureStoreCacheKey kind key) (Some item)) (\<lambda>newItem.
       cache_items (with_cache store (LDi_addToCache (ps_cache store) newItem)) kind items))"

fun cache_kinds :: "'b PersistentStoreContext \<Rightarrow> (string option \<times> LDJSON) list \<Rightarrow> 'b PersistentStoreContext exec" where
  "cache_kinds store [] = Inr store"
| "cache_kinds store ((kind, items) # rest) =
     exec_bind (ld_assert (kind \<noteq> None)) (\<lambda>_.
     exec_bind (LDi_makeCacheItem (ps_clock store) (featureStoreAllCacheKey (the kind)) (Some items)) (\<lambda>newAll.
     exec_bind (cache_items (with_cache store (LDi_addToCache (ps_cache store) newAll)) (the kind) (iter_values (Some items)))
       (\<lambda>store. cache_kinds store rest)))"

definition memoryInit :: "'b PersistentStoreContext \<Rightarrow> LDJSON \<Rightarrow> (bool \<times> 'b PersistentStoreContext) exec" where
  "memoryInit store sets =
     exec_bind (ld_assert (LDJSONGetType (Some sets) = LDObject)) (\<lambda>_.
     exec_bind (cache_kinds (with_cache store (LDi_memoryCacheFlush (ps_cache store))) (LDGetIter (Some sets))) (\<lambda>store.
       Inr (True, store)))"

section \<open>Reading the persistent store\<close>

definition getSingleItemFromBackend ::
  "'b PersistentStoreContext \<Rightarrow> FeatureKind \<Rightarrow> string \<Rightarrow> (bool \<times> LDJSON option \<times> 'b PersistentStoreContext) exec" where
  "getSingleItemFromBackend store kind key =
     exec_bind (pi_get (ps_persistentStore store) (ps_context store) (featureKindToString kind) key) (\<lambda>(ok, collectionItem, b).
       let store = store\<lparr>ps_context := b\<rparr> in
       if \<not> ok then Inr (False, None, store)
       else (case sc_buffer collectionItem of
           Some buffer \<Rightarrow> (case LDJSONDeserialize (Some buffer) of None \<Rightarrow> Inr (False, None, store)
             | Some deserialized \<Rightarrow>
                 if \<not> LDi_validateData deserialized then Inr (False, None, store)
                 else exec_bind (upsertMemory store kind deserialized) (\<lambda>(status, store).
                   Inr (status, if LDi_isDataDeleted deserialized then None else Some deserialized, store)))
         | None \<Rightarrow>
             exec_bind (upsertMemory store kind (LDi_makeDeletedData key (sc_version collectionItem))) (\<lambda>(status, store).
               Inr (status, None, store))))"

text \<open>The items of a kind that are valid and not deleted; a text that is not JSON ends the reading.\<close>

fun backend_items :: "LDJSON \<Rightarrow> LDStoreCollectionItem list \<Rightarrow> LDJSON option exec" where
  "backend_items rawItems [] = Inr (Some rawItems)"
| "backend_items rawItems (i # is) = (case sc_buffer i of None \<Rightarrow> backend_items rawItems is
     | Some buffer \<Rightarrow> (case LDJSONDeserialize (Some buffer) of None \<Rightarrow> Inr None
         | Some deserialized \<Rightarrow>
             if \<not> LDi_validateData deserialized then backend_items rawItems is
             else if LDi_isDataDeleted deserialized then backend_items rawItems is
             else exec_bind (data_key deserialized) (\<lambda>key.
               backend_items (set_key rawItems key deserialized) is)))"

definition getAllItemsFromBackend ::
  "'b PersistentStoreContext \<Rightarrow> FeatureKind \<Rightarrow> (bool \<times> LDJSON option \<times> 'b PersistentStoreContext) exec" where
  "getAllItemsFromBackend store kind =
     exec_bind (pi_all (ps_persistentStore store) (ps_context store) (featureKindToString kind)) (\<lambda>(ok, items, b).
       let store = store\<lparr>ps_context := b\<rparr> in
       if \<not> ok then Inr (False, None, store)
       else exec_bind (backend_items (JObject []) items) (\<lambda>r. case r of None \<Rightarrow> Inr (False, None, store)
         | Some rawItems \<Rightarrow>
             exec_bind (LDi_makeCacheItemFromRc (ps_clock store) (featureStoreAllCacheKey (featureKindToString kind)) rawItems)
               (\<lambda>allCacheItem. Inr (True, Some rawItems, with_cache store (LDi_addToCache (ps_cache store) allCacheItem)))))"

section \<open>The operations\<close>

definition wrapper_storeInit :: "'b PersistentStoreContext \<Rightarrow> LDJSON \<Rightarrow> (bool \<times> 'b PersistentStoreContext) exec" where
  "wrapper_storeInit psCtx newData =
     exec_bind (LDi_makeCollections newData) (\<lambda>collections.
     exec_bind (pi_init (ps_persistentStore psCtx) (ps_context psCtx) collections) (\<lambda>(success, b).
       let psCtx = psCtx\<lparr>ps_context := b\<rparr>
       in if success then memoryInit psCtx newData else Inr (False, psCtx)))"

definition wrapper_storeGet ::
  "'b PersistentStoreContext \<Rightarrow> FeatureKind \<Rightarrow> string \<Rightarrow> (bool \<times> LDJSON option \<times> 'b PersistentStoreContext) exec" where
  "wrapper_storeGet psCtx kind key =
     (case LDi_memoryCacheGetCollectionItem (ps_cache psCtx) (featureStoreCacheKey (featureKindToString kind) key) of
        None \<Rightarrow> getSingleItemFromBackend psCtx kind key
      | Some item \<Rightarrow>
          exec_bind (getExpirationState psCtx item) (\<lambda>state. case state of
              LD_EXP_EXPIRED \<Rightarrow> getSingleItemFromBackend psCtx kind key
            | LD_EXP_ERROR \<Rightarrow> Inr (False, None, psCtx)
            | LD_EXP_CURRENT \<Rightarrow> exec_bind (ld_assert (ci_feature item \<noteq> None)) (\<lambda>_.
                if LDi_isDataDeleted (the (ci_feature item)) then Inr (True, None, psCtx)
                else Inr (True, ci_feature item, psCtx))))"

definition wrapper_storeAll ::
  "'b PersistentStoreContext \<Rightarrow> FeatureKind \<Rightarrow> (bool \<times> LDJSON option \<times> 'b PersistentStoreContext) exec" where
  "wrapper_storeAll psCtx kind =
     (case LDi_memoryCacheGetCollectionItem (ps_cache psCtx) (featureStoreAllCacheKey (featureKindToString kind)) of
        None \<Rightarrow> getAllItemsFromBackend psCtx kind
      | Some item \<Rightarrow>
          exec_bind (getExpirationState psCtx item) (\<lambda>state. case state of
              LD_EXP_EXPIRED \<Rightarrow> getAllItemsFromBackend psCtx kind
            | LD_EXP_ERROR \<Rightarrow> Inr (False, None, psCtx)
            | LD_EXP_CURRENT \<Rightarrow> exec_bind (ld_assert (ci_feature item \<noteq> None)) (\<lambda>_. Inr (True, ci_feature item, psCtx))))"

definition wrapper_storeUpsert ::
  "'b PersistentStoreContext \<Rightarrow> FeatureKind \<Rightarrow> string \<Rightarrow> LDJSON \<Rightarrow> (bool \<times> 'b PersistentStoreContext) exec" where
  "wrapper_storeUpsert psCtx kind key item = (case LDJSONSerialize (Some item) of None \<Rightarrow> Inr (False, psCtx)
     | Some serialized \<Rightarrow>
         exec_bind (LDi_getDataVersion item) (\<lambda>version.
         exec_bind (LDi_getDataKey item) (\<lambda>dataKey.
         exec_bind (deref dataKey) (\<lambda>dataKey.
         exec_bind (pi_upsert (ps_persistentStore psCtx) (ps_context psCtx) (featureKindToString kind)
             \<lparr>sc_buffer = Some serialized, sc_version = version\<rparr> dataKey) (\<lambda>(status, b).
           let psCtx = psCtx\<lparr>ps_context := b\<rparr>
           in if \<not> status then Inr (False, psCtx) else upsertMemory psCtx kind item)))))"

text \<open>A sentinel in the cache stands for a recent answer of the persistent store that it has no data.\<close>

definition cacheContainsUnexpired :: "'b PersistentStoreContext \<Rightarrow> string \<Rightarrow> bool exec" where
  "cacheContainsUnexpired store key =
     (if ps_cacheMilliseconds store = 0 then Inr False
      else case LDi_memoryCacheGetCollectionItem (ps_cache store) key of None \<Rightarrow> Inr False
        | Some item \<Rightarrow> exec_bind (LDi_getMonotonicMilliseconds (ps_clock store)) (\<lambda>now.
            Inr (\<not> dbl_lt (uint_to_dbl (ps_cacheMilliseconds store)) (dbl_sub now (ci_updatedOn item)))))"

definition quickCheckInitialization :: "'b PersistentStoreContext \<Rightarrow> bool option exec" where
  "quickCheckInitialization store =
     (if mc_initialized (ps_cache store) then Inr (Some True)
      else exec_bind (cacheContainsUnexpired store INIT_CHECKED_KEY) (\<lambda>found.
        Inr (if found then Some False else None)))"

definition queryAndUpdateInitialization :: "'b PersistentStoreContext \<Rightarrow> (bool \<times> 'b PersistentStoreContext) exec" where
  "queryAndUpdateInitialization store =
     (let cache = LDi_findAndRemoveCacheItem (ps_cache store) INIT_CHECKED_KEY
      in exec_bind (pi_initialized (ps_persistentStore store) (ps_context store)) (\<lambda>(initialized, b).
           let store = store\<lparr>ps_context := b\<rparr> in
           if initialized then Inr (True, with_cache store (cache\<lparr>mc_initialized := True\<rparr>))
           else exec_bind (LDi_makeCacheItem (ps_clock store) INIT_CHECKED_KEY None) (\<lambda>item.
             Inr (False, with_cache store (LDi_addToCache cache item)))))"

definition wrapper_storeInitialized :: "'b PersistentStoreContext \<Rightarrow> (bool \<times> 'b PersistentStoreContext) exec" where
  "wrapper_storeInitialized psCtx =
     exec_bind (quickCheckInitialization psCtx) (\<lambda>r. case r of
         Some initialized \<Rightarrow> Inr (initialized, psCtx)
       | None \<Rightarrow> queryAndUpdateInitialization psCtx)"

definition wrapper_storeExpireAll :: "'b PersistentStoreContext \<Rightarrow> 'b PersistentStoreContext" where
  "wrapper_storeExpireAll psCtx = with_cache psCtx (LDi_memoryCacheExpireAll (ps_cache psCtx))"

text \<open>The context \<open>LDStoreCachingWrapperNew\<close> makes.\<close>

definition caching_context :: "'b LDStoreInterface \<Rightarrow> 'b \<Rightarrow> uint \<Rightarrow> dbl option \<Rightarrow> 'b PersistentStoreContext" where
  "caching_context persistentStore b cacheMilliseconds clock = \<lparr>ps_persistentStore = persistentStore, ps_context = b,
     ps_cache = \<lparr>mc_initialized = False, mc_items = []\<rparr>, ps_cacheMilliseconds = cacheMilliseconds, ps_clock = clock\<rparr>"

end
