(* ===== verification/Redis.thy ===== *)
theory Redis
  imports CachingWrapper
begin

text \<open>
  The persistent store on a Redis server, \<open>stores/redis/src/redis.c\<close>: its configuration, the pool of
  connections and the operations of the store. The client library hiredis and the server are
  parameters: a table of the four functions the code calls, over the state of the world they act on.
\<close>

section \<open>hiredis\<close>

text \<open>A reply by its type; the texts and the integer are the fields the code reads.\<close>

datatype redisReply = REDIS_REPLY_STRING string | REDIS_REPLY_ARRAY "redisReply list" | REDIS_REPLY_INTEGER int
  | REDIS_REPLY_NIL | REDIS_REPLY_STATUS string | REDIS_REPLY_ERROR string

text \<open>The commands the code sends, after formatting.\<close>

datatype redis_command = MULTI | EXEC | WATCH string | HGET string string | HSET string string string
  | HGETALL string | DEL string | SET string string | EXISTS string

text \<open>
  \<open>hi_connect\<close> may return no context or one with an error, \<open>hi_command\<close> no reply; \<open>hi_err\<close> is the
  field \<open>err\<close> of a context.
\<close>

record 'w hiredis =
  hi_connect :: "'w \<Rightarrow> string \<Rightarrow> 16 word \<Rightarrow> nat option \<times> 'w"
  hi_err :: "'w \<Rightarrow> nat \<Rightarrow> bool"
  hi_command :: "'w \<Rightarrow> nat \<Rightarrow> redis_command \<Rightarrow> redisReply option \<times> 'w"
  hi_free :: "'w \<Rightarrow> nat \<Rightarrow> 'w"

section \<open>Configuration\<close>

definition defaultHost :: string where "defaultHost = ''127.0.0.1''"

definition defaultPrefix :: string where "defaultPrefix = ''launchdarkly''"

definition initedKey :: string where "initedKey = ''$inited''"

record LDRedisConfig =
  rc_host :: "string option"
  rc_port :: "16 word"
  rc_poolSize :: uint
  rc_prefix :: "string option"

definition LDRedisConfigGetPrefix :: "LDRedisConfig \<Rightarrow> string" where
  "LDRedisConfigGetPrefix config = (case rc_prefix config of Some prefix \<Rightarrow> prefix | None \<Rightarrow> defaultPrefix)"

definition LDRedisConfigGetHost :: "LDRedisConfig \<Rightarrow> string" where
  "LDRedisConfigGetHost config = (case rc_host config of Some host \<Rightarrow> host | None \<Rightarrow> defaultHost)"

definition LDRedisConfigNew :: LDRedisConfig where
  "LDRedisConfigNew = \<lparr>rc_host = None, rc_port = 6379, rc_poolSize = 10, rc_prefix = None\<rparr>"

definition LDRedisConfigSetHost :: "LDRedisConfig \<Rightarrow> string \<Rightarrow> bool \<times> LDRedisConfig" where
  "LDRedisConfigSetHost config host = (True, config\<lparr>rc_host := Some host\<rparr>)"

definition LDRedisConfigSetPort :: "LDRedisConfig \<Rightarrow> 16 word \<Rightarrow> bool \<times> LDRedisConfig" where
  "LDRedisConfigSetPort config port = (True, config\<lparr>rc_port := port\<rparr>)"

definition LDRedisConfigSetPrefix :: "LDRedisConfig \<Rightarrow> string \<Rightarrow> bool \<times> LDRedisConfig" where
  "LDRedisConfigSetPrefix config prefix = (True, config\<lparr>rc_prefix := Some prefix\<rparr>)"

definition LDRedisConfigSetPoolSize :: "LDRedisConfig \<Rightarrow> uint \<Rightarrow> bool \<times> LDRedisConfig" where
  "LDRedisConfigSetPoolSize config poolSize = (True, config\<lparr>rc_poolSize := poolSize\<rparr>)"

section \<open>The pool of connections\<close>

record 'w Context =
  rx_connections :: "nat list"
  rx_count :: uint
  rx_config :: LDRedisConfig
  rx_world :: 'w

text \<open>
  The body of \<open>borrowConnection\<close> for a pool with a free connection, a pool that may grow, and the way
  back of a failed connection. They are separate because other threads may run between them.
\<close>

definition pool_take :: "'w Context \<Rightarrow> (nat \<times> 'w Context) option" where
  "pool_take context = (case rx_connections context of [] \<Rightarrow> None
     | connection # rest \<Rightarrow> Some (connection, context\<lparr>rx_connections := rest\<rparr>))"

definition pool_reserve :: "'w Context \<Rightarrow> 'w Context option" where
  "pool_reserve context = (if rx_count context < rc_poolSize (rx_config context)
     then Some (context\<lparr>rx_count := rx_count context + 1\<rparr>) else None)"

definition pool_abandon :: "'w Context \<Rightarrow> 'w Context" where
  "pool_abandon context = context\<lparr>rx_count := rx_count context - 1\<rparr>"

definition pool_connect :: "'w hiredis \<Rightarrow> 'w Context \<Rightarrow> nat option \<times> 'w Context" where
  "pool_connect h context =
     (case hi_connect h (rx_world context) (LDRedisConfigGetHost (rx_config context)) (rc_port (rx_config context)) of
        (None, w) \<Rightarrow> (None, context\<lparr>rx_world := w\<rparr>)
      | (Some connection, w) \<Rightarrow> if hi_err h w connection then (None, context\<lparr>rx_world := hi_free h w connection\<rparr>)
          else (Some connection, context\<lparr>rx_world := w\<rparr>))"

text \<open>
  A thread that finds the pool exhausted waits until another returns a connection; with no other
  thread it waits for ever.
\<close>

definition borrowConnection :: "'w hiredis \<Rightarrow> 'w Context \<Rightarrow> (nat option \<times> 'w Context) exec" where
  "borrowConnection h context = (case pool_take context of
       Some (connection, context) \<Rightarrow> Inr (Some connection, context)
     | None \<Rightarrow> (case pool_reserve context of None \<Rightarrow> Inl NoReturn
         | Some context \<Rightarrow> (case pool_connect h context of
               (Some connection, context) \<Rightarrow> Inr (Some connection, context)
             | (None, context) \<Rightarrow> Inr (None, pool_abandon context))))"

definition returnConnection :: "'w hiredis \<Rightarrow> 'w Context \<Rightarrow> nat option \<Rightarrow> 'w Context" where
  "returnConnection h context connection = (case connection of None \<Rightarrow> context
     | Some connection \<Rightarrow>
         if \<not> hi_err h (rx_world context) connection then context\<lparr>rx_connections := connection # rx_connections context\<rparr>
         else context\<lparr>rx_world := hi_free h (rx_world context) connection, rx_count := rx_count context - 1\<rparr>)"

section \<open>Replies\<close>

datatype reply_type = STRING_REPLY | ARRAY_REPLY | INTEGER_REPLY | NIL_REPLY | STATUS_REPLY | ERROR_REPLY

fun type_of_reply :: "redisReply \<Rightarrow> reply_type" where
  "type_of_reply (REDIS_REPLY_STRING s) = STRING_REPLY"
| "type_of_reply (REDIS_REPLY_ARRAY rs) = ARRAY_REPLY"
| "type_of_reply (REDIS_REPLY_INTEGER i) = INTEGER_REPLY"
| "type_of_reply REDIS_REPLY_NIL = NIL_REPLY"
| "type_of_reply (REDIS_REPLY_STATUS s) = STATUS_REPLY"
| "type_of_reply (REDIS_REPLY_ERROR s) = ERROR_REPLY"

definition redisCheckReply :: "redisReply option \<Rightarrow> reply_type \<Rightarrow> bool" where
  "redisCheckReply reply expectedStatus = (case reply of None \<Rightarrow> False
     | Some r \<Rightarrow> if type_of_reply r = ERROR_REPLY then False else type_of_reply r = expectedStatus)"

definition redisCheckStatus :: "redisReply option \<Rightarrow> string \<Rightarrow> bool" where
  "redisCheckStatus reply expectedStatus =
     (if \<not> redisCheckReply reply STATUS_REPLY then False
      else case reply of Some (REDIS_REPLY_STATUS str) \<Rightarrow> str = expectedStatus | _ \<Rightarrow> False)"

section \<open>Operations\<close>

definition redisCommand :: "'w hiredis \<Rightarrow> 'w Context \<Rightarrow> nat \<Rightarrow> redis_command \<Rightarrow> redisReply option \<times> 'w Context" where
  "redisCommand h context connection command =
     (case hi_command h (rx_world context) connection command of (reply, w) \<Rightarrow> (reply, context\<lparr>rx_world := w\<rparr>))"

definition redis_key :: "'w Context \<Rightarrow> string \<Rightarrow> string" where
  "redis_key context kind = LDRedisConfigGetPrefix (rx_config context) @ '':'' @ kind"

text \<open>The value of an operation that ran on a borrowed connection, which goes back to the pool.\<close>

definition on_connection :: "'w hiredis \<Rightarrow> 'w Context \<Rightarrow> 'a \<Rightarrow> (nat \<Rightarrow> 'w Context \<Rightarrow> ('a \<times> 'w Context) exec) \<Rightarrow>
   ('a \<times> 'w Context) exec" where
  "on_connection h context failed body = exec_bind (borrowConnection h context) (\<lambda>(connection, context).
     case connection of None \<Rightarrow> Inr (failed, context)
       | Some c \<Rightarrow> exec_bind (body c context) (\<lambda>(result, context). Inr (result, returnConnection h context (Some c))))"

subsection \<open>Initialisation\<close>

text \<open>Sending a command inside a transaction; the value is whether it was queued.\<close>

definition queued :: "'w hiredis \<Rightarrow> nat \<Rightarrow> 'w Context \<Rightarrow> redis_command \<Rightarrow> bool \<times> 'w Context" where
  "queued h connection context command = (case redisCommand h context connection command of
     (reply, context) \<Rightarrow> (redisCheckStatus reply ''QUEUED'', context))"

fun queue_items :: "'w hiredis \<Rightarrow> nat \<Rightarrow> string \<Rightarrow> (string \<times> LDStoreCollectionItem) list \<Rightarrow> 'w Context \<Rightarrow> (bool \<times> 'w Context) exec" where
  "queue_items h connection kind [] context = Inr (True, context)"
| "queue_items h connection kind ((key, item) # items) context =
     exec_bind (deref (sc_buffer item)) (\<lambda>buffer.
       case queued h connection context (HSET (redis_key context kind) key buffer) of (ok, context) \<Rightarrow>
         if \<not> ok then Inr (False, context) else queue_items h connection kind items context)"

fun queue_collections :: "'w hiredis \<Rightarrow> nat \<Rightarrow> LDStoreCollectionState list \<Rightarrow> 'w Context \<Rightarrow> (bool \<times> 'w Context) exec" where
  "queue_collections h connection [] context = Inr (True, context)"
| "queue_collections h connection ((kind, items) # collections) context =
     (case queued h connection context (DEL (redis_key context kind)) of (ok, context) \<Rightarrow>
        if \<not> ok then Inr (False, context)
        else exec_bind (queue_items h connection kind items context) (\<lambda>(ok, context).
          if \<not> ok then Inr (False, context) else queue_collections h connection collections context))"

definition write_collections :: "'w hiredis \<Rightarrow> LDStoreCollectionState list \<Rightarrow> nat \<Rightarrow> 'w Context \<Rightarrow> (bool \<times> 'w Context) exec" where
  "write_collections h collections connection context =
     (case redisCommand h context connection MULTI of (reply, context) \<Rightarrow>
        if \<not> redisCheckStatus reply ''OK'' then Inr (False, context)
        else exec_bind (queue_collections h connection collections context) (\<lambda>(ok, context).
          if \<not> ok then Inr (False, context)
          else case queued h connection context (SET (redis_key context initedKey) '''') of (ok, context) \<Rightarrow>
            if \<not> ok then Inr (False, context)
            else case redisCommand h context connection EXEC of (reply, context) \<Rightarrow>
              Inr (redisCheckReply reply ARRAY_REPLY, context)))"

definition redis_storeInit :: "'w hiredis \<Rightarrow> 'w Context \<Rightarrow> LDStoreCollectionState list \<Rightarrow> (bool \<times> 'w Context) exec" where
  "redis_storeInit h context collections = on_connection h context False (write_collections h collections)"

subsection \<open>Reading\<close>

abbreviation no_item :: LDStoreCollectionItem where
  "no_item \<equiv> \<lparr>sc_buffer = None, sc_version = 0\<rparr>"

text \<open>When there is no item only the buffer of the result is set; the caller cleared the version.\<close>

definition fetch_item :: "'w hiredis \<Rightarrow> string \<Rightarrow> string \<Rightarrow> nat \<Rightarrow> 'w Context \<Rightarrow> ((bool \<times> LDStoreCollectionItem) \<times> 'w Context) exec" where
  "fetch_item h kind key connection context =
     (case redisCommand h context connection (HGET (redis_key context kind) key) of (reply, context) \<Rightarrow>
        (case reply of None \<Rightarrow> Inr ((False, no_item), context)
         | Some REDIS_REPLY_NIL \<Rightarrow> Inr ((True, no_item), context)
         | Some (REDIS_REPLY_STRING str) \<Rightarrow> (case LDJSONDeserialize (Some str) of
               None \<Rightarrow> Inr ((False, no_item), context)
             | Some feature \<Rightarrow> exec_bind (LDi_getDataVersion feature) (\<lambda>version.
                 Inr ((True, \<lparr>sc_buffer = Some str, sc_version = version\<rparr>), context)))
         | Some _ \<Rightarrow> Inr ((False, no_item), context)))"

definition redis_storeGet ::
  "'w hiredis \<Rightarrow> 'w Context \<Rightarrow> string \<Rightarrow> string \<Rightarrow> (bool \<times> LDStoreCollectionItem \<times> 'w Context) exec" where
  "redis_storeGet h context kind key = exec_bind (on_connection h context (False, no_item) (fetch_item h kind key))
     (\<lambda>((success, result), context). Inr (success, result, context))"

text \<open>Of the elements of a hash the names are skipped; without a value for the last name the loop reads past the array.\<close>

fun collect_items :: "redisReply list \<Rightarrow> LDStoreCollectionItem list option exec" where
  "collect_items [] = Inr (Some [])"
| "collect_items [name] = Inl Uninitialized"
| "collect_items (name # element # elements) =
     (case element of REDIS_REPLY_STRING raw \<Rightarrow> (case LDJSONDeserialize (Some raw) of None \<Rightarrow> Inr None
        | Some feature \<Rightarrow> exec_bind (LDi_getDataVersion feature) (\<lambda>version.
            exec_bind (collect_items elements) (\<lambda>rest.
              Inr (map_option (Cons \<lparr>sc_buffer = Some raw, sc_version = version\<rparr>) rest))))
      | _ \<Rightarrow> Inr None)"

definition fetch_items :: "'w hiredis \<Rightarrow> string \<Rightarrow> nat \<Rightarrow> 'w Context \<Rightarrow> ((bool \<times> LDStoreCollectionItem list) \<times> 'w Context) exec" where
  "fetch_items h kind connection context =
     (case redisCommand h context connection (HGETALL (redis_key context kind)) of (reply, context) \<Rightarrow>
        exec_bind (deref reply) (\<lambda>reply.
          case reply of REDIS_REPLY_NIL \<Rightarrow> Inr ((True, []), context)
            | REDIS_REPLY_ARRAY elements \<Rightarrow> exec_bind (collect_items elements) (\<lambda>r. case r of
                  None \<Rightarrow> Inr ((False, []), context)
                | Some collection \<Rightarrow> Inr ((True, collection), context))
            | _ \<Rightarrow> Inr ((False, []), context)))"

definition redis_storeAll ::
  "'w hiredis \<Rightarrow> 'w Context \<Rightarrow> string \<Rightarrow> (bool \<times> LDStoreCollectionItem list \<times> 'w Context) exec" where
  "redis_storeAll h context kind = exec_bind (on_connection h context (False, []) (fetch_items h kind))
     (\<lambda>((success, result), context). Inr (success, result, context))"

subsection \<open>Updating\<close>

text \<open>
  One round of the loop: the kind is watched, the stored item read and compared, and the new one
  written in a transaction that the server refuses if the kind has changed meanwhile. A deleted item
  counts as none. \<open>hook\<close> is the action of a test between reading and writing.
\<close>

datatype upsert_outcome = Finished bool | Retry

definition existing_item :: "redisReply \<Rightarrow> LDJSON option option" where
  "existing_item reply = (case reply of REDIS_REPLY_NIL \<Rightarrow> Some None
     | REDIS_REPLY_STRING str \<Rightarrow> (case LDJSONDeserialize (Some str) of None \<Rightarrow> None
         | Some existing \<Rightarrow> Some (if LDi_isDataDeleted existing then None else Some existing))
     | _ \<Rightarrow> None)"

definition up_to_date :: "LDJSON option \<Rightarrow> LDStoreCollectionItem \<Rightarrow> bool exec" where
  "up_to_date existing feature = (case existing of None \<Rightarrow> Inr False
     | Some item \<Rightarrow> exec_bind (LDi_getDataVersion item) (\<lambda>version. Inr (version \<ge> sc_version feature)))"

definition serialized_item :: "LDStoreCollectionItem \<Rightarrow> string \<Rightarrow> string option" where
  "serialized_item feature featureKey = (case sc_buffer feature of Some buffer \<Rightarrow> Some buffer
     | None \<Rightarrow> LDJSONSerialize (Some (LDi_makeDeletedData featureKey (sc_version feature))))"

definition write_item :: "'w hiredis \<Rightarrow> nat \<Rightarrow> string \<Rightarrow> string \<Rightarrow> string \<Rightarrow> 'w Context \<Rightarrow> upsert_outcome \<times> 'w Context" where
  "write_item h connection kind featureKey serialized context =
     (case redisCommand h context connection MULTI of (reply, context) \<Rightarrow>
        if \<not> redisCheckStatus reply ''OK'' then (Finished False, context)
        else case queued h connection context (HSET (redis_key context kind) featureKey serialized) of (ok, context) \<Rightarrow>
          if \<not> ok then (Finished False, context)
          else case redisCommand h context connection EXEC of (reply, context) \<Rightarrow>
            (case reply of Some (REDIS_REPLY_ARRAY rs) \<Rightarrow> (Finished True, context)
             | Some REDIS_REPLY_NIL \<Rightarrow> (Retry, context)
             | _ \<Rightarrow> (Finished False, context)))"

definition upsert_round :: "'w hiredis \<Rightarrow> nat \<Rightarrow> string \<Rightarrow> LDStoreCollectionItem \<Rightarrow> string \<Rightarrow> ('w \<Rightarrow> 'w) \<Rightarrow>
   'w Context \<Rightarrow> (upsert_outcome \<times> 'w Context) exec" where
  "upsert_round h connection kind feature featureKey hook context =
     (case redisCommand h context connection (WATCH (redis_key context kind)) of (reply, context) \<Rightarrow>
        if \<not> redisCheckStatus reply ''OK'' then Inr (Finished False, context)
        else case redisCommand h context connection (HGET (redis_key context kind) featureKey) of (reply, context) \<Rightarrow>
          (case Option.bind reply existing_item of None \<Rightarrow> Inr (Finished False, context)
           | Some existing \<Rightarrow> exec_bind (up_to_date existing feature) (\<lambda>newer.
               if newer then Inr (Finished True, context)
               else case serialized_item feature featureKey of None \<Rightarrow> Inr (Finished False, context)
                 | Some serialized \<Rightarrow>
                     Inr (write_item h connection kind featureKey serialized (context\<lparr>rx_world := hook (rx_world context)\<rparr>)))))"

text \<open>The loop ends when a round does not lose the race; the result is \<open>None\<close> if it never does.\<close>

partial_function (option) upsert_loop :: "'w hiredis \<Rightarrow> nat \<Rightarrow> string \<Rightarrow> LDStoreCollectionItem \<Rightarrow> string \<Rightarrow> ('w \<Rightarrow> 'w) \<Rightarrow>
   'w Context \<Rightarrow> (bool \<times> 'w Context) exec option" where
  "upsert_loop h connection kind feature featureKey hook context =
     (case upsert_round h connection kind feature featureKey hook context of
        Inl e \<Rightarrow> Some (Inl e)
      | Inr rc \<Rightarrow> (case fst rc of Finished success \<Rightarrow> Some (Inr (success, snd rc))
          | Retry \<Rightarrow> upsert_loop h connection kind feature featureKey hook (snd rc)))"

definition upsert_on :: "'w hiredis \<Rightarrow> string \<Rightarrow> LDStoreCollectionItem \<Rightarrow> string \<Rightarrow> ('w \<Rightarrow> 'w) \<Rightarrow> nat \<Rightarrow> 'w Context \<Rightarrow>
   (bool \<times> 'w Context) exec" where
  "upsert_on h kind feature featureKey hook connection context =
     (case upsert_loop h connection kind feature featureKey hook context of None \<Rightarrow> Inl NoReturn | Some r \<Rightarrow> r)"

definition storeUpsertInternal :: "'w hiredis \<Rightarrow> 'w Context \<Rightarrow> string \<Rightarrow> LDStoreCollectionItem \<Rightarrow> string \<Rightarrow> ('w \<Rightarrow> 'w) \<Rightarrow>
   (bool \<times> 'w Context) exec" where
  "storeUpsertInternal h context kind feature featureKey hook =
     on_connection h context False (upsert_on h kind feature featureKey hook)"

definition redis_storeUpsert ::
  "'w hiredis \<Rightarrow> 'w Context \<Rightarrow> string \<Rightarrow> LDStoreCollectionItem \<Rightarrow> string \<Rightarrow> (bool \<times> 'w Context) exec" where
  "redis_storeUpsert h context kind feature featureKey = storeUpsertInternal h context kind feature featureKey (\<lambda>w. w)"

subsection \<open>The other operations\<close>

text \<open>A reply that is not an integer counts as initialised.\<close>

definition redis_storeInitialized :: "'w hiredis \<Rightarrow> 'w Context \<Rightarrow> (bool \<times> 'w Context) exec" where
  "redis_storeInitialized h context = on_connection h context False (\<lambda>connection context.
     case redisCommand h context connection (EXISTS (redis_key context initedKey)) of (reply, context) \<Rightarrow>
       Inr (\<not> redisCheckReply reply INTEGER_REPLY \<or> (case reply of Some (REDIS_REPLY_INTEGER i) \<Rightarrow> i \<noteq> 0 | _ \<Rightarrow> False), context))"

definition redis_storeDestructor :: "'w hiredis \<Rightarrow> 'w Context \<Rightarrow> 'w" where
  "redis_storeDestructor h context = foldl (hi_free h) (rx_world context) (rx_connections context)"

definition redis_context :: "LDRedisConfig \<Rightarrow> 'w \<Rightarrow> 'w Context" where
  "redis_context config w = \<lparr>rx_connections = [], rx_count = 0, rx_config = config, rx_world = w\<rparr>"

definition LDStoreInterfaceRedisNew :: "'w hiredis \<Rightarrow> 'w Context LDStoreInterface" where
  "LDStoreInterfaceRedisNew h = \<lparr>pi_init = redis_storeInit h, pi_get = redis_storeGet h, pi_all = redis_storeAll h,
     pi_upsert = redis_storeUpsert h, pi_initialized = redis_storeInitialized h\<rparr>"

end
