(* ===== verification/RedisServer.thy ===== *)
theory RedisServer
  imports Redis
begin

text \<open>
  What the documentation of Redis and hiredis promises of the commands the store sends, as a
  specification of a server, and the hypothesis that the library and the server behave so.
\<close>

section \<open>Data commands\<close>

datatype redis_value = RString string | RHash "(string \<times> string) list"

type_synonym database = "string \<Rightarrow> redis_value option"

definition wrong_type :: redisReply where
  "wrong_type = REDIS_REPLY_ERROR ''WRONGTYPE''"

definition hash_put :: "string \<Rightarrow> string \<Rightarrow> (string \<times> string) list \<Rightarrow> (string \<times> string) list" where
  "hash_put field v m = (field, v) # filter (\<lambda>e. fst e \<noteq> field) m"

fun data_command :: "database \<Rightarrow> redis_command \<Rightarrow> redisReply \<times> database" where
  "data_command db (HGET k field) = (case db k of None \<Rightarrow> REDIS_REPLY_NIL
     | Some (RHash m) \<Rightarrow> (case map_of m field of None \<Rightarrow> REDIS_REPLY_NIL | Some v \<Rightarrow> REDIS_REPLY_STRING v)
     | Some (RString s) \<Rightarrow> wrong_type, db)"
| "data_command db (HSET k field v) = (case db k of None \<Rightarrow> (REDIS_REPLY_INTEGER 1, db(k \<mapsto> RHash [(field, v)]))
     | Some (RHash m) \<Rightarrow> (REDIS_REPLY_INTEGER (if map_of m field = None then 1 else 0), db(k \<mapsto> RHash (hash_put field v m)))
     | Some (RString s) \<Rightarrow> (wrong_type, db))"
| "data_command db (HGETALL k) = (case db k of None \<Rightarrow> REDIS_REPLY_ARRAY []
     | Some (RHash m) \<Rightarrow> REDIS_REPLY_ARRAY (concat (map (\<lambda>(field, v). [REDIS_REPLY_STRING field, REDIS_REPLY_STRING v]) m))
     | Some (RString s) \<Rightarrow> wrong_type, db)"
| "data_command db (DEL k) = (REDIS_REPLY_INTEGER (if db k = None then 0 else 1), db(k := None))"
| "data_command db (SET k v) = (REDIS_REPLY_STATUS ''OK'', db(k \<mapsto> RString v))"
| "data_command db (EXISTS k) = (REDIS_REPLY_INTEGER (if db k = None then 0 else 1), db)"
| "data_command db _ = (REDIS_REPLY_ERROR ''ERR'', db)"

fun written_keys :: "redis_command \<Rightarrow> string set" where
  "written_keys (HSET k field v) = {k}"
| "written_keys (DEL k) = {k}"
| "written_keys (SET k v) = {k}"
| "written_keys _ = {}"

fun run_commands :: "database \<Rightarrow> redis_command list \<Rightarrow> redisReply list \<times> database" where
  "run_commands db [] = ([], db)"
| "run_commands db (c # cs) = (case data_command db c of (r, db) \<Rightarrow> case run_commands db cs of (rs, db) \<Rightarrow> (r # rs, db))"

section \<open>Transactions\<close>

text \<open>
  Each connection may have a queue of commands, opened by \<open>MULTI\<close>, and watched keys; it is dirty when a
  watched key was written since.
\<close>

record client =
  cl_queue :: "redis_command list option"
  cl_watch :: "string set"
  cl_dirty :: bool

definition fresh_client :: client where
  "fresh_client = \<lparr>cl_queue = None, cl_watch = {}, cl_dirty = False\<rparr>"

record server =
  sv_db :: database
  sv_clients :: "nat \<Rightarrow> client"

definition touch :: "string set \<Rightarrow> client \<Rightarrow> client" where
  "touch ks cl = (if cl_watch cl \<inter> ks = {} then cl else cl\<lparr>cl_dirty := True\<rparr>)"

definition set_client :: "server \<Rightarrow> nat \<Rightarrow> client \<Rightarrow> server" where
  "set_client s c cl = s\<lparr>sv_clients := (sv_clients s)(c := cl)\<rparr>"

definition write_db :: "server \<Rightarrow> string set \<Rightarrow> database \<Rightarrow> server" where
  "write_db s ks db = s\<lparr>sv_db := db, sv_clients := touch ks \<circ> sv_clients s\<rparr>"

definition server_step :: "server \<Rightarrow> nat \<Rightarrow> redis_command \<Rightarrow> redisReply \<times> server" where
  "server_step s c command = (let cl = sv_clients s c in case command of
       MULTI \<Rightarrow> if cl_queue cl \<noteq> None then (REDIS_REPLY_ERROR ''ERR'', s)
         else (REDIS_REPLY_STATUS ''OK'', set_client s c (cl\<lparr>cl_queue := Some []\<rparr>))
     | WATCH k \<Rightarrow> if cl_queue cl \<noteq> None then (REDIS_REPLY_ERROR ''ERR'', s)
         else (REDIS_REPLY_STATUS ''OK'', set_client s c (cl\<lparr>cl_watch := insert k (cl_watch cl)\<rparr>))
     | EXEC \<Rightarrow> (case cl_queue cl of None \<Rightarrow> (REDIS_REPLY_ERROR ''ERR'', s)
         | Some cs \<Rightarrow> let s' = set_client s c fresh_client
             in if cl_dirty cl then (REDIS_REPLY_NIL, s')
                else (case run_commands (sv_db s) cs of (rs, db) \<Rightarrow>
                  (REDIS_REPLY_ARRAY rs, write_db s' (\<Union>(written_keys ` set cs)) db)))
     | _ \<Rightarrow> (case cl_queue cl of Some cs \<Rightarrow> (REDIS_REPLY_STATUS ''QUEUED'', set_client s c (cl\<lparr>cl_queue := Some (cs @ [command])\<rparr>))
         | None \<Rightarrow> (case data_command (sv_db s) command of (r, db) \<Rightarrow> (r, write_db s (written_keys command) db))))"

text \<open>Steps of the connections other than one.\<close>

definition others :: "nat \<Rightarrow> server \<Rightarrow> server \<Rightarrow> bool" where
  "others c = (\<lambda>s s'. \<exists>d command. d \<noteq> c \<and> s' = snd (server_step s d command))\<^sup>*\<^sup>*"

section \<open>A server that is reached and serves nobody else\<close>

text \<open>
  \<open>sv\<close> is the state of the server and \<open>opened\<close> the set of open connections. A connection can be opened,
  and every command is answered as specified.
\<close>

locale redis_server =
  fixes h :: "'w hiredis" and sv :: "'w \<Rightarrow> server" and opened :: "'w \<Rightarrow> nat set"
  assumes opens_context: "\<exists>c w'. hi_connect h w host port = (Some c, w') \<and> c \<notin> opened w \<and> opened w' = insert c (opened w) \<and>
      sv w' = set_client (sv w) c fresh_client"
    and no_error: "c \<in> opened w \<Longrightarrow> \<not> hi_err h w c"
    and answers: "c \<in> opened w \<Longrightarrow> \<exists>w'. hi_command h w c command = (Some (fst (server_step (sv w) c command)), w') \<and>
      sv w' = snd (server_step (sv w) c command) \<and> opened w' = opened w"

section \<open>The specification as a server\<close>

text \<open>A connection is the number of those opened before.\<close>

definition spec_server :: "(server \<times> nat) hiredis" where
  "spec_server = \<lparr>hi_connect = (\<lambda>(s, n) host port. (Some n, (set_client s n fresh_client, n + 1))),
     hi_err = (\<lambda>w c. False),
     hi_command = (\<lambda>(s, n) c command. (Some (fst (server_step s c command)), (snd (server_step s c command), n))),
     hi_free = (\<lambda>w c. w)\<rparr>"

interpretation spec: redis_server spec_server fst "\<lambda>w. {..<snd w}"
  by unfold_locales (auto simp: spec_server_def split: prod.split)

end
