(* ===== verification/PersistentStore.thy ===== *)
theory PersistentStore
  imports CachingWrapper Utility JsonRoundtrip MemoryStore Store
begin

text \<open>
  What \<open>launchdarkly/store.h\<close> asks of a persistent store, as a contract between the cache in front
  of it and its implementations.
\<close>

section \<open>Stored items\<close>

text \<open>What a store holds for a kind and key; a get of nothing leaves the result as the caller cleared it.\<close>

type_synonym 'b backend_view = "'b \<Rightarrow> FeatureKind \<Rightarrow> string \<Rightarrow> LDStoreCollectionItem option"

definition stored_or_absent :: "LDStoreCollectionItem option \<Rightarrow> LDStoreCollectionItem" where
  "stored_or_absent i = (case i of None \<Rightarrow> \<lparr>sc_buffer = None, sc_version = 0\<rparr> | Some item \<Rightarrow> item)"

definition backend_put ::
  "(FeatureKind \<Rightarrow> string \<Rightarrow> LDStoreCollectionItem option) \<Rightarrow> FeatureKind \<Rightarrow> string \<Rightarrow> LDStoreCollectionItem \<Rightarrow>
   FeatureKind \<Rightarrow> string \<Rightarrow> LDStoreCollectionItem option" where
  "backend_put v kind key item = v(kind := (v kind)(key \<mapsto> item))"

text \<open>An item written by this code: its text reads back as a valid item with its key and version.\<close>

definition stored_ok :: "string \<Rightarrow> LDStoreCollectionItem \<Rightarrow> bool" where
  "stored_ok key i \<longleftrightarrow> (case sc_buffer i of None \<Rightarrow> False
     | Some t \<Rightarrow> (case LDJSONDeserialize (Some t) of None \<Rightarrow> False
         | Some item \<Rightarrow> valid_item item \<and> item_key item = key \<and> item_version item = sc_version i))"

lemma stored_okE:
  assumes "stored_ok key i"
  obtains t item where "i = \<lparr>sc_buffer = Some t, sc_version = item_version item\<rparr>" and "LDJSONDeserialize (Some t) = Some item"
    and "valid_item item" and "item_key item = key"
  using assms by (cases i) (auto simp: stored_ok_def split: option.split_asm)

lemma stored_okI:
  "LDJSONDeserialize (Some t) = Some item \<Longrightarrow> valid_item item \<Longrightarrow>
   stored_ok (item_key item) \<lparr>sc_buffer = Some t, sc_version = item_version item\<rparr>"
  by (simp add: stored_ok_def)

definition collections_ok :: "LDStoreCollectionState list \<Rightarrow> bool" where
  "collections_ok cs \<longleftrightarrow> distinct (map fst cs) \<and> (\<forall>kind. featureKindToString kind \<in> fst ` set cs) \<and>
     (\<forall>c\<in>set cs. distinct (map fst (snd c)) \<and> (\<forall>e\<in>set (snd c). stored_ok (fst e) (snd e)))"

definition collections_view :: "LDStoreCollectionState list \<Rightarrow> FeatureKind \<Rightarrow> string \<Rightarrow> LDStoreCollectionItem option" where
  "collections_view cs kind key = Option.bind (map_of cs (featureKindToString kind)) (\<lambda>items. map_of items key)"

section \<open>The contract\<close>

text \<open>
  Items are stored under their kind and key. A read returns what is stored; an initialisation
  replaces everything; an update that is newer than what is stored replaces it. What becomes of an
  older update is left open.
\<close>

locale persistent_store =
  fixes ps :: "'b LDStoreInterface" and binv :: "'b \<Rightarrow> bool" and bview :: "'b backend_view"
  assumes stored: "binv b \<Longrightarrow> bview b kind key = Some i \<Longrightarrow> stored_ok key i"
    and get_stored: "binv b \<Longrightarrow> \<exists>b'. pi_get ps b (featureKindToString kind) key =
        Inr (True, stored_or_absent (bview b kind key), b') \<and> binv b' \<and> bview b' = bview b"
    and all_stored: "binv b \<Longrightarrow> \<exists>items b'. pi_all ps b (featureKindToString kind) = Inr (True, items, b') \<and>
        binv b' \<and> bview b' = bview b \<and> set items = {i. \<exists>key. bview b kind key = Some i}"
    and upsert_newer: "binv b \<Longrightarrow> stored_ok key item \<Longrightarrow> sc_version (stored_or_absent (bview b kind key)) < sc_version item \<Longrightarrow>
        \<exists>b'. pi_upsert ps b (featureKindToString kind) item key = Inr (True, b') \<and> binv b' \<and>
          bview b' = backend_put (bview b) kind key item"
    and init_replaces: "binv b \<Longrightarrow> collections_ok cs \<Longrightarrow>
        \<exists>b'. pi_init ps b cs = Inr (True, b') \<and> binv b' \<and> bview b' = collections_view cs"

end
