(* ===== verification/CacheFlow.thy ===== *)
theory CacheFlow
  imports PersistentStore
begin

text \<open>
  What readers see through the cache: with a persistent store that meets its contract, and updates
  that are newer than what is stored, every read returns the newest item, whether it comes from the
  cache or not. An update that is not newer breaks this.
\<close>

section \<open>Entries of the cache\<close>

text \<open>All entries under a key, the one a lookup meets last.\<close>

definition slots :: "LDMemoryContext \<Rightarrow> string \<Rightarrow> LDCacheItem list" where
  "slots c key = map snd (filter (\<lambda>e. fst e = key) (mc_items c))"

definition keyed_cache :: "LDMemoryContext \<Rightarrow> bool" where
  "keyed_cache c \<longleftrightarrow> (\<forall>key. \<forall>e\<in>set (slots c key). ci_key e = key)"

lemma get_slots:
  "LDi_memoryCacheGetCollectionItem c key = (if slots c key = [] then None else Some (last (slots c key)))"
proof -
  have "hash_find t key = (let l = map snd (filter (\<lambda>e. fst e = key) t) in if l = [] then None else Some (last l))"
    for t :: "(string \<times> LDCacheItem) list"
    by (induction t rule: rev_induct) (auto simp: hash_find_def)
  then show ?thesis by (simp add: LDi_memoryCacheGetCollectionItem_def slots_def Let_def)
qed

lemma slots_add [simp]: "slots (LDi_addToCache c e) key = (if ci_key e = key then slots c key @ [e] else slots c key)"
  by (simp add: slots_def LDi_addToCache_def hash_add_def)

lemma slots_delete [simp]:
  "slots (LDi_deleteAndRemoveCacheItem c e) key = (if ci_key e = key then butlast (slots c key) else slots c key)"
proof -
  have "map snd (filter (\<lambda>e. fst e = key) (rev (del_first k (rev t)))) =
      (let l = map snd (filter (\<lambda>e. fst e = key) t) in if k = key then butlast l else l)"
    for t :: "(string \<times> LDCacheItem) list" and k
    by (induction t rule: rev_induct) auto
  then show ?thesis by (simp add: slots_def LDi_deleteAndRemoveCacheItem_def hash_del_def Let_def)
qed

lemma slots_flush [simp]: "slots (LDi_memoryCacheFlush c) key = []"
  by (simp add: slots_def LDi_memoryCacheFlush_def)

lemma keyed_add [simp]: "keyed_cache c \<Longrightarrow> keyed_cache (LDi_addToCache c e)"
  by (auto simp: keyed_cache_def)

lemma keyed_delete [simp]: "keyed_cache c \<Longrightarrow> keyed_cache (LDi_deleteAndRemoveCacheItem c e)"
  by (auto simp: keyed_cache_def dest: in_set_butlastD)

lemma keyed_flush [simp]: "keyed_cache (LDi_memoryCacheFlush c)"
  by (simp add: keyed_cache_def)

text \<open>Removing what a lookup found drops the newest entry under the key.\<close>

lemma slots_remove_found:
  assumes "keyed_cache c"
  shows "slots (remove_found c (LDi_memoryCacheGetCollectionItem c key)) key' = (if key' = key then butlast (slots c key) else slots c key')"
    and "keyed_cache (remove_found c (LDi_memoryCacheGetCollectionItem c key))"
proof -
  have "ci_key (last (slots c key)) = key" if "slots c key \<noteq> []"
    using assms that last_in_set [OF that] by (simp add: keyed_cache_def)
  then show "slots (remove_found c (LDi_memoryCacheGetCollectionItem c key)) key' = (if key' = key then butlast (slots c key) else slots c key')"
    by (auto simp: get_slots remove_found_def)
  show "keyed_cache (remove_found c (LDi_memoryCacheGetCollectionItem c key))"
    using assms by (simp add: remove_found_def split: option.split)
qed

abbreviation item_key_of :: "FeatureKind \<Rightarrow> string \<Rightarrow> string" where
  "item_key_of kind k \<equiv> featureStoreCacheKey (featureKindToString kind) k"

abbreviation list_key_of :: "FeatureKind \<Rightarrow> string" where
  "list_key_of kind \<equiv> featureStoreAllCacheKey (featureKindToString kind)"

lemma kind_string_inj [simp]: "featureKindToString kind = featureKindToString kind' \<longleftrightarrow> kind = kind'"
  by (cases kind; cases kind') simp_all

lemma cache_key_inj [simp]:
  "featureStoreCacheKey (featureKindToString kind) k = featureStoreCacheKey (featureKindToString kind') k' \<longleftrightarrow>
     kind = kind' \<and> k = k'"
  "featureStoreAllCacheKey s = featureStoreAllCacheKey s' \<longleftrightarrow> s = s'"
  by (cases kind; cases kind') (auto simp: featureStoreCacheKey_def featureStoreAllCacheKey_def)

lemma all_key_differs [simp]:
  "featureStoreCacheKey (featureKindToString kind) k \<noteq> featureStoreAllCacheKey kind'"
  "featureStoreAllCacheKey kind' \<noteq> featureStoreCacheKey (featureKindToString kind) k"
  by (cases kind; simp add: featureStoreCacheKey_def featureStoreAllCacheKey_def)+

lemma data_key_valid: "valid_item item \<Longrightarrow> data_key item = Inr (item_key item)"
  by (simp add: data_key_def valid_item_key ld_assert_def)

lemma with_cache_simps [simp]:
  "ps_cache (with_cache s c) = c" "ps_context (with_cache s c) = ps_context s" "ps_clock (with_cache s c) = ps_clock s"
  "ps_persistentStore (with_cache s c) = ps_persistentStore s" "ps_cacheMilliseconds (with_cache s c) = ps_cacheMilliseconds s"
  "with_cache (with_cache s c) c' = with_cache s c'" "with_cache s (ps_cache s) = s"
  by (simp_all add: with_cache_def)

text \<open>A new entry takes the place of the newest one, and the list of its kind is dropped.\<close>

definition replaced :: "LDMemoryContext \<Rightarrow> FeatureKind \<Rightarrow> string \<Rightarrow> LDJSON \<Rightarrow> dbl \<Rightarrow> LDMemoryContext \<Rightarrow> bool" where
  "replaced c kind k item now c' \<longleftrightarrow> keyed_cache c' \<and> (\<forall>key. slots c' key =
     (if key = list_key_of kind then butlast (slots c key)
      else if key = item_key_of kind k then butlast (slots c key) @ [\<lparr>ci_key = key, ci_feature = Some item, ci_updatedOn = now\<rparr>]
      else slots c key))"

lemma replace_cached_ok:
  assumes "ps_clock s = Some now" and "keyed_cache (ps_cache s)"
  shows "\<exists>c. replace_cached s kind (item_key_of kind k) item (LDi_memoryCacheGetCollectionItem (ps_cache s) (item_key_of kind k)) =
     Inr (True, with_cache s c) \<and> replaced (ps_cache s) kind k item now c"
proof -
  let ?c = "remove_found (ps_cache s) (LDi_memoryCacheGetCollectionItem (ps_cache s) (list_key_of kind))"
  have c: "slots ?c key = (if key = list_key_of kind then butlast (slots (ps_cache s) key) else slots (ps_cache s) key)" "keyed_cache ?c" for key
    using slots_remove_found [OF assms(2), of "list_key_of kind"] by simp_all
  then have found: "LDi_memoryCacheGetCollectionItem (ps_cache s) (item_key_of kind k) = LDi_memoryCacheGetCollectionItem ?c (item_key_of kind k)"
    by (simp add: get_slots)
  let ?c' = "LDi_addToCache (remove_found ?c (LDi_memoryCacheGetCollectionItem ?c (item_key_of kind k)))
      \<lparr>ci_key = item_key_of kind k, ci_feature = Some item, ci_updatedOn = now\<rparr>"
  have "replaced (ps_cache s) kind k item now ?c'"
    using slots_remove_found [OF c(2), of "item_key_of kind k"] by (auto simp: replaced_def c(1))
  then show ?thesis
    unfolding found by (intro exI [of _ ?c'])
      (simp add: replace_cached_def LDi_makeCacheItemFromRc_def assms(1) LDi_getMonotonicMilliseconds_def Let_def)
qed

definition is_current :: "'b PersistentStoreContext \<Rightarrow> LDCacheItem \<Rightarrow> bool" where
  "is_current s e \<longleftrightarrow> getExpirationState s e = Inr LD_EXP_CURRENT"

lemma expiration_cases:
  assumes "ps_clock s = Some now"
  shows "getExpirationState s e = Inr (if is_current s e then LD_EXP_CURRENT else LD_EXP_EXPIRED)"
  using assms by (auto simp: is_current_def getExpirationState_def LDi_getMonotonicMilliseconds_def)

lemma is_current_same [simp]:
  "is_current (with_cache s c) e \<longleftrightarrow> is_current s e" "is_current (s\<lparr>ps_context := b\<rparr>) e \<longleftrightarrow> is_current s e"
  by (simp_all add: is_current_def getExpirationState_def with_cache_def)

text \<open>The cache takes an item, unless it holds a current one that is as new.\<close>

lemma upsertMemory_ok:
  assumes "ps_clock s = Some now" and "keyed_cache (ps_cache s)" and "valid_item item"
    and "\<And>e. LDi_memoryCacheGetCollectionItem (ps_cache s) (item_key_of kind (item_key item)) = Some e \<Longrightarrow>
      \<exists>c. ci_feature e = Some c \<and> valid_item c \<and> (is_current s e \<longrightarrow> item_version c < item_version item)"
  shows "\<exists>c. upsertMemory s kind item = Inr (True, with_cache s c) \<and> replaced (ps_cache s) kind (item_key item) item now c"
proof -
  let ?key = "item_key_of kind (item_key item)"
  have "upsertMemory s kind item = replace_cached s kind ?key item (LDi_memoryCacheGetCollectionItem (ps_cache s) ?key)"
  proof (cases "LDi_memoryCacheGetCollectionItem (ps_cache s) ?key")
    case None
    then show ?thesis by (simp add: upsertMemory_def data_key_valid [OF assms(3)])
  next
    case (Some e)
    then obtain c where "ci_feature e = Some c" "valid_item c" "is_current s e \<longrightarrow> item_version c < item_version item"
      using assms(4) by blast
    then show ?thesis
      using Some expiration_cases [OF assms(1), of e]
      by (auto simp: upsertMemory_def data_key_valid [OF assms(3)] Let_def ld_assert_def valid_item_version assms(3))
  qed
  then show ?thesis using replace_cached_ok [OF assms(1,2)] by simp
qed

section \<open>A cache that agrees with the store\<close>

text \<open>The view of the wrapper: the items the persistent store holds.\<close>

definition stored_item :: "LDStoreCollectionItem option \<Rightarrow> LDJSON option" where
  "stored_item i = Option.bind i (\<lambda>i. Option.bind (sc_buffer i) (\<lambda>t. LDJSONDeserialize (Some t)))"

definition wrapper_view :: "'b backend_view \<Rightarrow> 'b PersistentStoreContext \<Rightarrow> store_view" where
  "wrapper_view bview s kind k = stored_item (bview (ps_context s) kind k)"

definition version_of :: "LDJSON option \<Rightarrow> uint" where
  "version_of i = (case i of None \<Rightarrow> 0 | Some item \<Rightarrow> item_version item)"

text \<open>A cached item agrees with the stored one if it is the same, or both are absent.\<close>

definition agrees :: "LDJSON option \<Rightarrow> string \<Rightarrow> LDCacheItem \<Rightarrow> bool" where
  "agrees i k e \<longleftrightarrow> (\<exists>item. ci_feature e = Some item \<and> valid_item item \<and> item_key item = k \<and>
     (case i of Some j \<Rightarrow> item = j | None \<Rightarrow> LDi_isDataDeleted item \<and> item_version item = 0))"

definition list_agrees :: "(string \<Rightarrow> LDJSON option) \<Rightarrow> LDCacheItem \<Rightarrow> bool" where
  "list_agrees v e \<longleftrightarrow> (\<exists>items. ci_feature e = Some items \<and> obj_inv items \<and> (\<forall>k. obj_lookup items k = visible (v k)))"

text \<open>
  Entries of items agree with the store. Of the lists of a kind, which pile up, all but the newest
  have expired, and the newest has expired or agrees.
\<close>

definition cache_ok :: "(LDCacheItem \<Rightarrow> bool) \<Rightarrow> LDMemoryContext \<Rightarrow> store_view \<Rightarrow> bool" where
  "cache_ok current c v \<longleftrightarrow> keyed_cache c \<and>
     (\<forall>kind k. slots c (item_key_of kind k) \<noteq> [] \<longrightarrow> agrees (v kind k) k (last (slots c (item_key_of kind k)))) \<and>
     (\<forall>kind. \<forall>e\<in>set (butlast (slots c (list_key_of kind))). \<not> current e) \<and>
     (\<forall>kind. slots c (list_key_of kind) \<noteq> [] \<longrightarrow> current (last (slots c (list_key_of kind))) \<longrightarrow>
        list_agrees (v kind) (last (slots c (list_key_of kind))))"

definition coherent :: "'b LDStoreInterface \<Rightarrow> ('b \<Rightarrow> bool) \<Rightarrow> 'b backend_view \<Rightarrow> rat \<Rightarrow> 'b PersistentStoreContext \<Rightarrow> bool" where
  "coherent ps binv bview t0 s \<longleftrightarrow> ps_persistentStore s = ps \<and> binv (ps_context s) \<and> ps_clock s = Some (Fin t0) \<and>
     cache_ok (is_current s) (ps_cache s) (wrapper_view bview s)"

lemma version_of_simps [simp]: "version_of None = 0" "version_of (Some item) = item_version item"
  by (simp_all add: version_of_def)

lemma coherentD:
  assumes "coherent ps binv bview t0 s"
  shows "ps_persistentStore s = ps" and "binv (ps_context s)" and "ps_clock s = Some (Fin t0)" and "keyed_cache (ps_cache s)"
    and "LDi_memoryCacheGetCollectionItem (ps_cache s) (item_key_of kind k) = Some e \<Longrightarrow> agrees (wrapper_view bview s kind k) k e"
    and "LDi_memoryCacheGetCollectionItem (ps_cache s) (list_key_of kind) = Some e \<Longrightarrow> is_current s e \<Longrightarrow> list_agrees (wrapper_view bview s kind) e"
    and "cache_ok (is_current s) (ps_cache s) (wrapper_view bview s)"
  using assms by (auto simp: coherent_def cache_ok_def get_slots split: if_split_asm)

lemma cache_ok_old: "cache_ok current c v \<Longrightarrow> e \<in> set (butlast (slots c (list_key_of kind))) \<Longrightarrow> \<not> current e"
  by (simp add: cache_ok_def)

text \<open>Replacing an entry by one that agrees, when nothing else changes in the store.\<close>

lemma cache_ok_replaced:
  assumes "cache_ok current c v" and "replaced c kind k item now c'" and "valid_item item" and "item_key item = k"
    and "case v' kind k of Some j \<Rightarrow> item = j | None \<Rightarrow> LDi_isDataDeleted item \<and> item_version item = 0"
    and "\<And>kind' k'. (kind', k') \<noteq> (kind, k) \<Longrightarrow> v' kind' k' = v kind' k'"
  shows "cache_ok current c' v'"
proof -
  let ?l = "\<lambda>kind. slots c (list_key_of kind)"
  have sl: "slots c' (list_key_of kind') = (if kind' = kind then butlast (?l kind) else ?l kind')" for kind'
    using assms(2) by (auto simp: replaced_def)
  have si: "slots c' (item_key_of kind' k') = (if (kind', k') = (kind, k)
      then butlast (slots c (item_key_of kind k)) @ [\<lparr>ci_key = item_key_of kind k, ci_feature = Some item, ci_updatedOn = now\<rparr>]
      else slots c (item_key_of kind' k'))" for kind' k'
    using assms(2) by (auto simp: replaced_def)
  have old: "\<not> current e" if "e \<in> set (butlast (?l kind'))" for e kind'
    using assms(1) that by (simp add: cache_ok_def)
  have "\<not> current (last (butlast (?l kind)))" if "butlast (?l kind) \<noteq> []"
    using old last_in_set [OF that] by simp
  moreover have "agrees (v' kind' k') k' (last (slots c' (item_key_of kind' k')))" if "slots c' (item_key_of kind' k') \<noteq> []" for kind' k'
    using assms(1,3-5) assms(6) [of kind' k'] that by (auto simp: si agrees_def cache_ok_def split: if_split_asm)
  moreover have "v' kind' = v kind'" if "kind' \<noteq> kind" for kind' using assms(6) that by (simp add: fun_eq_iff)
  ultimately show ?thesis
    using assms(1,2) by (auto simp: cache_ok_def sl replaced_def dest: in_set_butlastD)
qed

section \<open>The operations keep cache and store together\<close>

lemma stored_item_simps [simp]:
  "stored_item None = None" "stored_item (Some \<lparr>sc_buffer = Some t, sc_version = v\<rparr>) = LDJSONDeserialize (Some t)"
  by (simp_all add: stored_item_def)

lemma wrapper_view_same [simp]:
  "wrapper_view bview (with_cache s c) = wrapper_view bview s" "wrapper_view bview (s\<lparr>ps_clock := t\<rparr>) = wrapper_view bview s"
  by (simp_all add: wrapper_view_def fun_eq_iff)

definition storable :: "LDJSON \<Rightarrow> bool" where
  "storable item \<longleftrightarrow> valid_item item \<and> json_ok item \<and> jdepth item \<le> CJSON_NESTING_LIMIT"

lemma storableE:
  assumes "storable item"
  obtains t where "LDJSONSerialize (Some item) = Some t" and "LDJSONDeserialize (Some t) = Some item" and "valid_item item"
  using assms serialize_deserialize [of item] by (auto simp: storable_def)

lemma agreesE:
  assumes "agrees i k e"
  obtains item where "ci_feature e = Some item" and "valid_item item" and "item_key item = k" and "item_version item = version_of i"
    and "visible i = (if LDi_isDataDeleted item then None else Some item)"
  using assms by (cases i) (auto simp: agrees_def visible_def)

text \<open>The list of a kind: one entry for every stored item that is not deleted.\<close>

definition listed :: "(string \<Rightarrow> LDStoreCollectionItem option) \<Rightarrow> LDStoreCollectionItem set \<Rightarrow> (string \<Rightarrow> LDJSON option) \<Rightarrow> string \<Rightarrow> LDJSON option" where
  "listed v is old k = (case v k of None \<Rightarrow> old k
     | Some i \<Rightarrow> if i \<in> is \<and> visible (stored_item (Some i)) \<noteq> None then visible (stored_item (Some i)) else old k)"

lemma backend_items_ok:
  assumes "\<And>i. i \<in> set is \<Longrightarrow> \<exists>k. v k = Some i" and "\<And>k i. v k = Some i \<Longrightarrow> stored_ok k i" and "obj_inv obj"
  shows "\<exists>obj'. backend_items obj is = Inr (Some obj') \<and> obj_inv obj' \<and>
     (\<forall>k. obj_lookup obj' k = listed v (set is) (obj_lookup obj) k)"
  using assms(1,3)
proof (induction "is" arbitrary: obj)
  case (Cons i "is")
  obtain k where k: "v k = Some i" using Cons.prems(1) by auto
  obtain t item where i: "i = \<lparr>sc_buffer = Some t, sc_version = item_version item\<rparr>" "LDJSONDeserialize (Some t) = Some item"
    "valid_item item" "item_key item = k"
    using assms(2) [OF k] by (rule stored_okE)
  let ?obj = "if LDi_isDataDeleted item then obj else set_key obj k item"
  have step: "backend_items obj (i # is) = backend_items ?obj is" and inv: "obj_inv ?obj"
    using i Cons.prems(2) obj.invar_put by (simp_all add: data_key_valid valid_item_def)
  obtain obj' where obj': "backend_items ?obj is = Inr (Some obj')" "obj_inv obj'"
    "\<forall>k. obj_lookup obj' k = listed v (set is) (obj_lookup ?obj) k"
    using Cons.IH [OF _ inv] Cons.prems(1) by auto
  have other: "v k' \<noteq> Some i" if "k' \<noteq> k" for k' using assms(2) [of k' i] k i that by (auto simp: stored_ok_def)
  have item: "stored_item (Some i) = Some item" using i by simp
  have "obj_lookup ?obj k' = (if k' = k \<and> \<not> LDi_isDataDeleted item then Some item else obj_lookup obj k')" for k'
    using Cons.prems(2) by (simp add: obj.lookup_put)
  then have "listed v (set is) (obj_lookup ?obj) k' = listed v (set (i # is)) (obj_lookup obj) k'" for k'
    using k item other [of k'] by (cases "k' = k") (auto simp: listed_def visible_def split: option.split)
  then have "obj_lookup obj' k' = listed v (set (i # is)) (obj_lookup obj) k'" for k' using obj'(3) by simp
  then show ?case using step obj'(1,2) by simp
qed (simp add: listed_def split: option.split)

context persistent_store
begin

lemma view_cases:
  assumes "binv b"
  obtains "bview b kind k = None"
  | t item where "bview b kind k = Some \<lparr>sc_buffer = Some t, sc_version = item_version item\<rparr>" and "LDJSONDeserialize (Some t) = Some item"
    and "valid_item item" and "item_key item = k"
  using stored [OF assms, of kind k] by (cases "bview b kind k") (auto elim: stored_okE)

lemma stored_version: "binv (ps_context s) \<Longrightarrow> sc_version (stored_or_absent (bview (ps_context s) kind k)) = version_of (wrapper_view bview s kind k)"
  by (rule view_cases [of "ps_context s" kind k]) (simp_all add: wrapper_view_def stored_or_absent_def)

lemma coherent_replaced:
  assumes "coherent ps binv bview t0 s" and "replaced (ps_cache s) kind (item_key item) item now c" and "valid_item item"
    and "case bview b kind (item_key item) of Some i \<Rightarrow> stored_item (Some i) = Some item | None \<Rightarrow> LDi_isDataDeleted item \<and> item_version item = 0"
    and "binv b" and "\<And>kind' k'. (kind', k') \<noteq> (kind, item_key item) \<Longrightarrow> bview b kind' k' = bview (ps_context s) kind' k'"
  shows "coherent ps binv bview t0 (with_cache (s\<lparr>ps_context := b\<rparr>) c)"
proof -
  let ?s = "with_cache (s\<lparr>ps_context := b\<rparr>) c"
  have "case wrapper_view bview ?s kind (item_key item) of Some j \<Rightarrow> item = j | None \<Rightarrow> LDi_isDataDeleted item \<and> item_version item = 0"
    using assms(4) by (auto simp: wrapper_view_def split: option.split_asm)
  then have "cache_ok (is_current s) c (wrapper_view bview ?s)"
    by (rule cache_ok_replaced [OF coherentD(7) [OF assms(1)] assms(2,3) refl]) (use assms(6) in \<open>simp add: wrapper_view_def\<close>)
  moreover have "is_current ?s = is_current s" by (rule ext) simp
  ultimately show ?thesis using assms(1,5) by (simp add: coherent_def)
qed

text \<open>An entry that is not current is fetched again.\<close>

lemma fetched:
  assumes "coherent ps binv bview t0 s" and "\<And>e. LDi_memoryCacheGetCollectionItem (ps_cache s) (item_key_of kind (item_key item)) = Some e \<Longrightarrow> \<not> is_current s e"
    and "valid_item item" and "binv b" and "bview b = bview (ps_context s)"
    and "case bview b kind (item_key item) of Some i \<Rightarrow> stored_item (Some i) = Some item | None \<Rightarrow> LDi_isDataDeleted item \<and> item_version item = 0"
  shows "\<exists>s'. upsertMemory (s\<lparr>ps_context := b\<rparr>) kind item = Inr (True, s') \<and> coherent ps binv bview t0 s' \<and> wrapper_view bview s' = wrapper_view bview s"
proof -
  obtain now where now: "ps_clock s = Some now" using coherentD(3) [OF assms(1)] by blast
  let ?s = "s\<lparr>ps_context := b\<rparr>"
  have "\<exists>c. ci_feature e = Some c \<and> valid_item c \<and> (is_current ?s e \<longrightarrow> item_version c < item_version item)"
    if "LDi_memoryCacheGetCollectionItem (ps_cache ?s) (item_key_of kind (item_key item)) = Some e" for e
    using coherentD(5) [OF assms(1), of kind "item_key item" e] that assms(2) by (auto simp: agrees_def)
  then obtain c where "upsertMemory ?s kind item = Inr (True, with_cache ?s c)" "replaced (ps_cache s) kind (item_key item) item now c"
    using upsertMemory_ok [of ?s now item kind] now coherentD(4) [OF assms(1)] assms(3) by auto
  then show ?thesis
    using coherent_replaced [OF assms(1) _ assms(3,6,4)] assms(5) by (auto simp: wrapper_view_def fun_eq_iff)
qed

lemma fetch_ok:
  assumes "coherent ps binv bview t0 s" and "\<And>e. LDi_memoryCacheGetCollectionItem (ps_cache s) (item_key_of kind k) = Some e \<Longrightarrow> \<not> is_current s e"
  shows "\<exists>s'. getSingleItemFromBackend s kind k = Inr (True, visible (wrapper_view bview s kind k), s') \<and>
     coherent ps binv bview t0 s' \<and> wrapper_view bview s' = wrapper_view bview s"
proof -
  obtain b where b: "pi_get ps (ps_context s) (featureKindToString kind) k = Inr (True, stored_or_absent (bview (ps_context s) kind k), b)"
    "binv b" "bview b = bview (ps_context s)"
    using get_stored [OF coherentD(2) [OF assms(1)]] by blast
  show ?thesis
  proof (rule view_cases [OF coherentD(2) [OF assms(1)], of kind k])
    assume none: "bview (ps_context s) kind k = None"
    let ?d = "LDi_makeDeletedData k 0"
    have "\<exists>s'. upsertMemory (s\<lparr>ps_context := b\<rparr>) kind ?d = Inr (True, s') \<and> coherent ps binv bview t0 s' \<and> wrapper_view bview s' = wrapper_view bview s"
      by (rule fetched [OF assms(1) _ _ b(2,3)]) (use assms(2) none b(3) in \<open>simp_all add: makeDeletedData_valid\<close>)
    then show ?thesis
      using none by (auto simp: getSingleItemFromBackend_def b(1) coherentD(1) [OF assms(1)] stored_or_absent_def wrapper_view_def visible_def)
  next
    fix t item
    assume i: "bview (ps_context s) kind k = Some \<lparr>sc_buffer = Some t, sc_version = item_version item\<rparr>"
      "LDJSONDeserialize (Some t) = Some item" "valid_item item" "item_key item = k"
    have "\<exists>s'. upsertMemory (s\<lparr>ps_context := b\<rparr>) kind item = Inr (True, s') \<and> coherent ps binv bview t0 s' \<and> wrapper_view bview s' = wrapper_view bview s"
      by (rule fetched [OF assms(1) _ i(3) b(2,3)]) (use assms(2) i b(3) in simp_all)
    then show ?thesis
      using i by (auto simp: getSingleItemFromBackend_def b(1) coherentD(1) [OF assms(1)] stored_or_absent_def wrapper_view_def visible_def
          valid_item_def)
  qed
qed

lemma get_ok:
  assumes "coherent ps binv bview t0 s"
  shows "\<exists>s'. wrapper_storeGet s kind k = Inr (True, visible (wrapper_view bview s kind k), s') \<and>
     coherent ps binv bview t0 s' \<and> wrapper_view bview s' = wrapper_view bview s"
proof -
  obtain now where now: "ps_clock s = Some now" using coherentD(3) [OF assms] by blast
  show ?thesis
  proof (cases "\<exists>e. LDi_memoryCacheGetCollectionItem (ps_cache s) (item_key_of kind k) = Some e \<and> is_current s e")
    case True
    then obtain e where e: "LDi_memoryCacheGetCollectionItem (ps_cache s) (item_key_of kind k) = Some e" "is_current s e"
      "agrees (wrapper_view bview s kind k) k e"
      using coherentD(5) [OF assms] by blast
    then show ?thesis
      using assms expiration_cases [OF now, of e] by (auto simp: wrapper_storeGet_def ld_assert_def elim: agreesE)
  next
    case False
    then have "wrapper_storeGet s kind k = getSingleItemFromBackend s kind k"
      using expiration_cases [OF now] by (auto simp: wrapper_storeGet_def split: option.split)
    then show ?thesis using fetch_ok [OF assms, of kind k] False by auto
  qed
qed

text \<open>A newer item goes to the store and to the cache.\<close>

lemma upsert_ok:
  assumes "coherent ps binv bview t0 s" and "storable item" and "version_of (wrapper_view bview s kind (item_key item)) < item_version item"
  shows "\<exists>s'. wrapper_storeUpsert s kind (item_key item) item = Inr (True, s') \<and> coherent ps binv bview t0 s' \<and>
     wrapper_view bview s' = view_put (wrapper_view bview s) kind item"
proof -
  let ?k = "item_key item"
  obtain now where now: "ps_clock s = Some now" using coherentD(3) [OF assms(1)] by blast
  obtain t where t: "LDJSONSerialize (Some item) = Some t" "LDJSONDeserialize (Some t) = Some item" and valid: "valid_item item"
    using assms(2) by (rule storableE)
  let ?i = "\<lparr>sc_buffer = Some t, sc_version = item_version item\<rparr>"
  obtain b where b: "pi_upsert ps (ps_context s) (featureKindToString kind) ?i ?k = Inr (True, b)" "binv b"
    "bview b = backend_put (bview (ps_context s)) kind ?k ?i"
    using upsert_newer [OF coherentD(2) [OF assms(1)] stored_okI [OF t(2) valid], of kind] assms(3)
      stored_version [OF coherentD(2) [OF assms(1)]] by auto
  let ?s = "s\<lparr>ps_context := b\<rparr>"
  have up: "wrapper_storeUpsert s kind ?k item = upsertMemory ?s kind item"
    using t(1) b(1) valid by (simp add: wrapper_storeUpsert_def valid_item_version valid_item_key coherentD(1) [OF assms(1)])
  have "\<exists>c. ci_feature e = Some c \<and> valid_item c \<and> (is_current ?s e \<longrightarrow> item_version c < item_version item)"
    if "LDi_memoryCacheGetCollectionItem (ps_cache ?s) (item_key_of kind ?k) = Some e" for e
    using coherentD(5) [OF assms(1), of kind ?k e] that assms(3) by (auto elim: agreesE)
  then obtain c where c: "upsertMemory ?s kind item = Inr (True, with_cache ?s c)" "replaced (ps_cache s) kind ?k item now c"
    using upsertMemory_ok [of ?s now item kind] now coherentD(4) [OF assms(1)] valid by auto
  have "coherent ps binv bview t0 (with_cache ?s c)"
    by (rule coherent_replaced [OF assms(1) c(2) valid _ b(2)]) (use t(2) in \<open>auto simp: b(3) backend_put_def\<close>)
  moreover have "wrapper_view bview (with_cache ?s c) = view_put (wrapper_view bview s) kind item"
    using t(2) by (auto simp: wrapper_view_def view_put_def fun_eq_iff b(3) backend_put_def)
  ultimately show ?thesis using up c(1) by auto
qed

text \<open>The list of a kind, from the cache or from the store.\<close>

lemma coherent_list:
  assumes "coherent ps binv bview t0 s" and "list_agrees (wrapper_view bview s kind) e" and "ci_key e = list_key_of kind"
    and "\<And>e'. LDi_memoryCacheGetCollectionItem (ps_cache s) (list_key_of kind) = Some e' \<Longrightarrow> \<not> is_current s e'"
    and "binv b" and "bview b = bview (ps_context s)"
  shows "coherent ps binv bview t0 (with_cache (s\<lparr>ps_context := b\<rparr>) (LDi_addToCache (ps_cache s) e))"
proof -
  let ?l = "slots (ps_cache s) (list_key_of kind)"
  have "\<forall>e\<in>set ?l. \<not> is_current s e"
  proof (cases ?l rule: rev_cases)
    case (snoc xs x)
    then show ?thesis using cache_ok_old [OF coherentD(7) [OF assms(1)], of _ kind] assms(4) [of x] by (auto simp: get_slots)
  qed simp
  moreover have "wrapper_view bview (with_cache (s\<lparr>ps_context := b\<rparr>) c) = wrapper_view bview s" for c
    using assms(6) by (simp add: wrapper_view_def fun_eq_iff)
  moreover have "is_current (with_cache (s\<lparr>ps_context := b\<rparr>) c) = is_current s" for c by (rule ext) simp
  ultimately show ?thesis using assms(1,2,3,5) by (auto simp: coherent_def cache_ok_def)
qed

lemma fetch_all_ok:
  assumes "coherent ps binv bview t0 s"
    and "\<And>e. LDi_memoryCacheGetCollectionItem (ps_cache s) (list_key_of kind) = Some e \<Longrightarrow> \<not> is_current s e"
  shows "\<exists>items e b. getAllItemsFromBackend s kind = Inr (True, Some items, with_cache (s\<lparr>ps_context := b\<rparr>) (LDi_addToCache (ps_cache s) e)) \<and>
     obj_inv items \<and> (\<forall>k. obj_lookup items k = visible (wrapper_view bview s kind k)) \<and>
     coherent ps binv bview t0 (with_cache (s\<lparr>ps_context := b\<rparr>) (LDi_addToCache (ps_cache s) e)) \<and> bview b = bview (ps_context s)"
proof -
  let ?v = "bview (ps_context s) kind"
  obtain stored_items b where b: "pi_all ps (ps_context s) (featureKindToString kind) = Inr (True, stored_items, b)" "binv b" "bview b = bview (ps_context s)"
    "set stored_items = {i. \<exists>key. ?v key = Some i}"
    using all_stored [OF coherentD(2) [OF assms(1)]] by blast
  obtain items where items: "backend_items (JObject []) stored_items = Inr (Some items)" "obj_inv items"
    "\<forall>k. obj_lookup items k = listed ?v (set stored_items) (obj_lookup (JObject [])) k"
    using backend_items_ok [of stored_items ?v "JObject []"] b(4) stored [OF coherentD(2) [OF assms(1)]] by auto
  have look: "obj_lookup items k = visible (wrapper_view bview s kind k)" for k
    using items(3) b(4) by (cases "?v k") (auto simp: wrapper_view_def listed_def visible_def)
  let ?e = "\<lparr>ci_key = list_key_of kind, ci_feature = Some items, ci_updatedOn = Fin t0\<rparr>"
  have "coherent ps binv bview t0 (with_cache (s\<lparr>ps_context := b\<rparr>) (LDi_addToCache (ps_cache s) ?e))"
    by (rule coherent_list [OF assms(1) _ _ assms(2) b(2,3)]) (use items(2) look in \<open>auto simp: list_agrees_def\<close>)
  then show ?thesis
    using items(1,2) look b(3) by (auto simp: getAllItemsFromBackend_def coherentD(1,3) [OF assms(1)] b(1) LDi_makeCacheItemFromRc_def
        LDi_getMonotonicMilliseconds_def)
qed

lemma all_ok:
  assumes "coherent ps binv bview t0 s"
  shows "\<exists>items s'. wrapper_storeAll s kind = Inr (True, Some items, s') \<and> obj_inv items \<and>
     (\<forall>k. obj_lookup items k = visible (wrapper_view bview s kind k)) \<and>
     coherent ps binv bview t0 s' \<and> wrapper_view bview s' = wrapper_view bview s"
proof (cases "\<exists>e. LDi_memoryCacheGetCollectionItem (ps_cache s) (list_key_of kind) = Some e \<and> is_current s e")
  case True
  then obtain e items where "LDi_memoryCacheGetCollectionItem (ps_cache s) (list_key_of kind) = Some e" "is_current s e"
    "ci_feature e = Some items" "obj_inv items" "\<forall>k. obj_lookup items k = visible (wrapper_view bview s kind k)"
    using coherentD(6) [OF assms] unfolding list_agrees_def by blast
  then show ?thesis using assms expiration_cases [OF coherentD(3) [OF assms], of e] by (auto simp: wrapper_storeAll_def ld_assert_def)
next
  case False
  then have "wrapper_storeAll s kind = getAllItemsFromBackend s kind"
    using expiration_cases [OF coherentD(3) [OF assms]] by (auto simp: wrapper_storeAll_def split: option.split)
  moreover have "wrapper_view bview (with_cache (s\<lparr>ps_context := b\<rparr>) c) = wrapper_view bview s" if "bview b = bview (ps_context s)" for b c
    using that by (simp add: wrapper_view_def fun_eq_iff)
  ultimately show ?thesis using fetch_all_ok [OF assms, of kind] False by auto
qed

end

text \<open>Time passes: what has expired stays so.\<close>

lemma dbl_sub_mono: "a \<le> a' \<Longrightarrow> dbl_lt x (dbl_sub (Fin a) u) \<Longrightarrow> dbl_lt x (dbl_sub (Fin a') u)"
  using fl_mono [of "a - b" "a' - b" 53 "- 1074" 1024 for b]
  by (cases u) (auto simp: dbl_sub_def fl64_def elim: dbl_lt_le_trans)

lemma expired_stays:
  assumes "ps_clock s = Some (Fin now)" and "now \<le> now'" and "is_current (s\<lparr>ps_clock := Some (Fin now')\<rparr>) e"
  shows "is_current s e"
  using assms dbl_sub_mono [OF assms(2)] by (auto simp: is_current_def getExpirationState_def LDi_getMonotonicMilliseconds_def split: if_split_asm)

lemma coherent_clock:
  assumes "coherent ps binv bview t0 s" and "t0 \<le> t1"
  shows "coherent ps binv bview t1 (s\<lparr>ps_clock := Some (Fin t1)\<rparr>)"
proof -
  let ?s = "s\<lparr>ps_clock := Some (Fin t1)\<rparr>"
  note stays = expired_stays [OF coherentD(3) [OF assms(1)] assms(2)]
  have "\<not> is_current ?s e" if "e \<in> set (butlast (slots (ps_cache s) (list_key_of kind)))" for e kind
    using cache_ok_old [OF coherentD(7) [OF assms(1)] that] stays by blast
  then show ?thesis using assms(1) stays by (simp add: coherent_def cache_ok_def)
qed

section \<open>Initialisation\<close>

text \<open>A full data set: the items of every kind, under their keys, none of them deleted.\<close>

type_synonym full_data = "(FeatureKind \<times> (string \<times> LDJSON) list) list"

definition data_json :: "full_data \<Rightarrow> LDJSON" where
  "data_json ks = JObject (map (\<lambda>(kind, items). (featureKindToString kind, JObject items)) ks)"

definition data_view :: "full_data \<Rightarrow> store_view" where
  "data_view ks kind k = Option.bind (map_of ks kind) (\<lambda>items. map_of items k)"

definition items_ok :: "(string \<times> LDJSON) list \<Rightarrow> bool" where
  "items_ok items \<longleftrightarrow> distinct (map fst items) \<and>
     (\<forall>e\<in>set items. storable (snd e) \<and> item_key (snd e) = fst e \<and> \<not> LDi_isDataDeleted (snd e))"

definition data_ok :: "full_data \<Rightarrow> bool" where
  "data_ok ks \<longleftrightarrow> distinct (map fst ks) \<and> (\<forall>kind. kind \<in> fst ` set ks) \<and> (\<forall>c\<in>set ks. items_ok (snd c))"

definition stored_form :: "LDJSON \<Rightarrow> LDStoreCollectionItem" where
  "stored_form item = \<lparr>sc_buffer = LDJSONSerialize (Some item), sc_version = item_version item\<rparr>"

definition collections_of :: "full_data \<Rightarrow> LDStoreCollectionState list" where
  "collections_of ks = map (\<lambda>(kind, items). (featureKindToString kind, map (\<lambda>(k, item). (k, stored_form item)) items)) ks"

lemma stored_form_ok: "storable item \<Longrightarrow> stored_ok (item_key item) (stored_form item) \<and> stored_item (Some (stored_form item)) = Some item"
  by (erule storableE) (simp add: stored_form_def stored_ok_def)

lemma kind_collection:
  assumes "\<forall>e\<in>set items. storable (snd e) \<and> item_key (snd e) = fst e"
  shows "LDi_makeKindCollection (map snd items) = Inr (map (\<lambda>(k, item). (k, stored_form item)) items)"
  using assms
proof (induction items)
  case (Cons e items)
  obtain t where "LDJSONSerialize (Some (snd e)) = Some t" "valid_item (snd e)" using Cons.prems by (auto elim: storableE)
  then show ?case
    using Cons by (cases e) (simp add: stored_form_def valid_item_def valid_item_key valid_item_version)
qed simp

lemma collections_made: "\<forall>c\<in>set ks. items_ok (snd c) \<Longrightarrow> LDi_makeCollections (data_json ks) = Inr (collections_of ks)"
proof -
  assume "\<forall>c\<in>set ks. items_ok (snd c)"
  then have "make_collections (map (\<lambda>(k, v). (Some k, v)) (map (\<lambda>(kind, items). (featureKindToString kind, JObject items)) ks)) =
      Inr (collections_of ks)"
    by (induction ks) (auto simp: collections_of_def ld_assert_def kind_collection items_ok_def)
  then show ?thesis by (simp add: LDi_makeCollections_def data_json_def)
qed

lemma data_items_ok: "data_ok ks \<Longrightarrow> map_of ks kind = Some items \<Longrightarrow> items_ok items"
  by (drule map_of_SomeD) (auto simp: data_ok_def)

lemma data_view_ok:
  assumes "data_ok ks" and "data_view ks kind k = Some item"
  shows "storable item" and "item_key item = k" and "\<not> LDi_isDataDeleted item"
proof -
  obtain items where "map_of ks kind = Some items" "map_of items k = Some item"
    using assms(2) by (auto simp: data_view_def bind_eq_Some_conv)
  then have "\<forall>e\<in>set items. storable (snd e) \<and> item_key (snd e) = fst e \<and> \<not> LDi_isDataDeleted (snd e)" "(k, item) \<in> set items"
    using data_items_ok [OF assms(1)] by (auto simp: items_ok_def dest: map_of_SomeD)
  then show "storable item" "item_key item = k" "\<not> LDi_isDataDeleted item" by auto
qed

lemma map_of_kinds: "map_of (map (\<lambda>(kind, x). (featureKindToString kind, f x)) ks) (featureKindToString kind) = map_option f (map_of ks kind)"
  by (induction ks) auto

lemma collections_of_ok:
  assumes "data_ok ks"
  shows "collections_ok (collections_of ks)"
    and "stored_item (collections_view (collections_of ks) kind k) = data_view ks kind k"
proof -
  have fst: "map fst (collections_of ks) = map featureKindToString (map fst ks)" by (simp add: collections_of_def case_prod_beta)
  have "inj featureKindToString" by (rule injI) simp
  then have "distinct (map fst (collections_of ks))" using assms unfolding fst distinct_map [of featureKindToString] by (auto simp: data_ok_def intro: inj_on_subset)
  moreover have "featureKindToString kind \<in> fst ` set (collections_of ks)" for kind
  proof -
    have "kind \<in> set (map fst ks)" using assms by (simp add: data_ok_def)
    then have "featureKindToString kind \<in> set (map fst (collections_of ks))" unfolding fst by (metis imageI set_map)
    then show ?thesis by simp
  qed
  moreover have "distinct (map fst (snd c)) \<and> (\<forall>e\<in>set (snd c). stored_ok (fst e) (snd e))" if "c \<in> set (collections_of ks)" for c
    using assms that stored_form_ok by (fastforce simp: data_ok_def items_ok_def collections_of_def comp_def case_prod_beta)
  ultimately show "collections_ok (collections_of ks)" by (simp add: collections_ok_def)
  have "map_of (map (\<lambda>(k, item). (k, stored_form item)) items) k = map_option stored_form (map_of items k)" for items
    by (induction items) auto
  then have "collections_view (collections_of ks) kind k = map_option stored_form (data_view ks kind k)"
    by (cases "map_of ks kind") (simp_all add: collections_view_def collections_of_def map_of_kinds data_view_def)
  then show "stored_item (collections_view (collections_of ks) kind k) = data_view ks kind k"
    using stored_form_ok [OF data_view_ok(1) [OF assms, of kind k]] by (cases "data_view ks kind k") simp_all
qed

text \<open>The entries an initialisation puts into the flushed cache.\<close>

definition item_entry :: "FeatureKind \<Rightarrow> dbl \<Rightarrow> LDJSON \<Rightarrow> LDCacheItem" where
  "item_entry kind now item = \<lparr>ci_key = item_key_of kind (item_key item), ci_feature = Some item, ci_updatedOn = now\<rparr>"

definition list_entry :: "FeatureKind \<Rightarrow> dbl \<Rightarrow> (string \<times> LDJSON) list \<Rightarrow> LDCacheItem" where
  "list_entry kind now items = \<lparr>ci_key = list_key_of kind, ci_feature = Some (JObject items), ci_updatedOn = now\<rparr>"

definition kind_entries :: "dbl \<Rightarrow> FeatureKind \<times> (string \<times> LDJSON) list \<Rightarrow> LDCacheItem list" where
  "kind_entries now c = list_entry (fst c) now (snd c) # map (\<lambda>e. item_entry (fst c) now (snd e)) (snd c)"

lemma slots_add_all: "slots (foldl LDi_addToCache c es) key = slots c key @ filter (\<lambda>e. ci_key e = key) es"
  by (induction es arbitrary: c) auto

lemma cache_items_added:
  assumes "ps_clock s = Some now" and "\<forall>item\<in>set items. valid_item item"
  shows "cache_items s (featureKindToString kind) items = Inr (with_cache s (foldl LDi_addToCache (ps_cache s) (map (item_entry kind now) items)))"
  using assms
  by (induction items arbitrary: s) (simp_all add: data_key_valid LDi_makeCacheItem_def LDi_getMonotonicMilliseconds_def item_entry_def)

lemma cache_kinds_added:
  assumes "ps_clock s = Some now" and "\<forall>c\<in>set ks. items_ok (snd c)"
  shows "cache_kinds s (map (\<lambda>(k, v). (Some k, v)) (map (\<lambda>(kind, items). (featureKindToString kind, JObject items)) ks)) =
     Inr (with_cache s (foldl LDi_addToCache (ps_cache s) (concat (map (kind_entries now) ks))))"
  using assms
proof (induction ks arbitrary: s)
  case (Cons c ks)
  obtain kind items where c: "c = (kind, items)" by (cases c)
  have valid: "\<forall>item\<in>set (map snd items). valid_item item" using Cons.prems(2) by (auto simp: c items_ok_def storable_def)
  let ?s = "with_cache s (LDi_addToCache (ps_cache s) (list_entry kind now items))"
  have "cache_items ?s (featureKindToString kind) (map snd items) =
      Inr (with_cache s (foldl LDi_addToCache (ps_cache s) (kind_entries now c)))"
    using cache_items_added [of ?s now "map snd items" kind] Cons.prems(1) valid by (simp add: c kind_entries_def comp_def)
  then show ?case
    using Cons.IH [of "with_cache s (foldl LDi_addToCache (ps_cache s) (kind_entries now c))"] Cons.prems
    by (simp add: c LDi_makeCacheItem_def LDi_getMonotonicMilliseconds_def list_entry_def ld_assert_def)
qed simp

lemma data_entries:
  assumes "distinct (map fst ks)" and "\<forall>c\<in>set ks. items_ok (snd c)"
  shows "filter (\<lambda>e. ci_key e = list_key_of kind) (concat (map (kind_entries now) ks)) =
      (case map_of ks kind of None \<Rightarrow> [] | Some items \<Rightarrow> [list_entry kind now items])" (is ?lists)
    and "filter (\<lambda>e. ci_key e = item_key_of kind k) (concat (map (kind_entries now) ks)) =
      (case data_view ks kind k of None \<Rightarrow> [] | Some item \<Rightarrow> [item_entry kind now item])" (is ?items)
proof -
  have "filter (\<lambda>e. ci_key e = list_key_of kind) (kind_entries now c) = (if fst c = kind then [list_entry kind now (snd c)] else [])" for c
    by (auto simp: kind_entries_def list_entry_def item_entry_def)
  moreover have "filter (\<lambda>e. ci_key e = item_key_of kind k) (kind_entries now c) =
      (if fst c = kind then case map_of (snd c) k of None \<Rightarrow> [] | Some item \<Rightarrow> [item_entry kind now item] else [])"
    if "items_ok (snd c)" for c
  proof -
    have "filter (\<lambda>e. ci_key e = item_key_of kind k) (map (\<lambda>e. item_entry (fst c) now (snd e)) items) =
        (if fst c = kind then case map_of items k of None \<Rightarrow> [] | Some item \<Rightarrow> [item_entry kind now item] else [])"
      if "items_ok items" for items
      using that by (induction items) (auto simp: item_entry_def items_ok_def split: option.split dest: map_of_SomeD intro: rev_image_eqI)
    then show ?thesis using that by (simp add: kind_entries_def list_entry_def)
  qed
  moreover have "map_of ks kind = None" if "kind \<notin> fst ` set ks" for ks :: full_data using that by (simp add: map_of_eq_None_iff)
  ultimately show ?lists and ?items
    using assms by (induction ks) (auto simp: data_view_def)
qed

text \<open>The flushed cache with these entries agrees with the data.\<close>

lemma cache_ok_data:
  assumes "data_ok ks" and "\<And>key. slots c key = filter (\<lambda>e. ci_key e = key) (concat (map (kind_entries now) ks))" 
  shows "cache_ok current c (data_view ks)"
proof -
  have ks: "distinct (map fst ks)" "\<forall>c\<in>set ks. items_ok (snd c)" using assms(1) by (simp_all add: data_ok_def)
  have "agrees (data_view ks kind k) k (item_entry kind now item)" if "data_view ks kind k = Some item" for kind k item
    using data_view_ok [OF assms(1) that] that by (simp add: agrees_def item_entry_def storable_def)
  moreover have "list_agrees (data_view ks kind) (list_entry kind now items)" if "map_of ks kind = Some items" for kind items
    using data_items_ok [OF assms(1) that] data_view_ok(3) [OF assms(1), of kind] that
    by (fastforce simp: list_agrees_def list_entry_def obj_inv_def items_ok_def data_view_def visible_def split: option.split)
  moreover have "slots c (list_key_of kind) = (case map_of ks kind of None \<Rightarrow> [] | Some items \<Rightarrow> [list_entry kind now items])"
    "slots c (item_key_of kind k) = (case data_view ks kind k of None \<Rightarrow> [] | Some item \<Rightarrow> [item_entry kind now item])" for kind k
    unfolding assms(2) by (rule data_entries [OF ks])+
  moreover have "keyed_cache c" unfolding keyed_cache_def assms(2) by simp
  ultimately show ?thesis by (auto simp: cache_ok_def split: option.split_asm)
qed

context persistent_store
begin

lemma init_ok:
  assumes "coherent ps binv bview t0 s" and "data_ok ks"
  shows "\<exists>s'. wrapper_storeInit s (data_json ks) = Inr (True, s') \<and> coherent ps binv bview t0 s' \<and> wrapper_view bview s' = data_view ks"
proof -
  obtain now where now: "ps_clock s = Some now" using coherentD(3) [OF assms(1)] by blast
  obtain b where b: "pi_init ps (ps_context s) (collections_of ks) = Inr (True, b)" "binv b" "bview b = collections_view (collections_of ks)"
    using init_replaces [OF coherentD(2) [OF assms(1)] collections_of_ok(1) [OF assms(2)]] by blast
  let ?s = "s\<lparr>ps_context := b\<rparr>"
  let ?c = "foldl LDi_addToCache (LDi_memoryCacheFlush (ps_cache s)) (concat (map (kind_entries now) ks))"
  have ks: "\<forall>c\<in>set ks. items_ok (snd c)" using assms(2) by (simp add: data_ok_def)
  have "cache_kinds (with_cache ?s (LDi_memoryCacheFlush (ps_cache s))) (LDGetIter (Some (data_json ks))) = Inr (with_cache ?s ?c)"
    using cache_kinds_added [OF _ ks, of "with_cache ?s (LDi_memoryCacheFlush (ps_cache s))" now] now by (simp add: data_json_def)
  then have "wrapper_storeInit s (data_json ks) = Inr (True, with_cache ?s ?c)"
    using b(1) by (simp add: wrapper_storeInit_def collections_made [OF ks] coherentD(1) [OF assms(1)] memoryInit_def)
      (simp add: data_json_def)
  moreover have view: "wrapper_view bview (with_cache ?s ?c) = data_view ks"
    using collections_of_ok(2) [OF assms(2)] by (simp add: wrapper_view_def b(3) fun_eq_iff)
  moreover have "cache_ok current ?c (data_view ks)" for current
    by (rule cache_ok_data [OF assms(2)]) (simp add: slots_add_all)
  ultimately show ?thesis using assms(1) b(2) by (auto simp: coherent_def)
qed

end

section \<open>Runs\<close>

datatype cache_op = Clock rat | Init full_data | Read FeatureKind string | ReadAll FeatureKind | Write FeatureKind LDJSON

datatype answer = Failed | Done | Item "LDJSON option" | Listing "string \<Rightarrow> LDJSON option"

definition items_lookup :: "LDJSON option \<Rightarrow> string \<Rightarrow> LDJSON option" where
  "items_lookup items k = Option.bind items (\<lambda>j. obj_lookup j k)"

fun cache_step :: "cache_op \<Rightarrow> 'b PersistentStoreContext \<Rightarrow> (answer \<times> 'b PersistentStoreContext) exec" where
  "cache_step (Clock now) s = Inr (Done, s\<lparr>ps_clock := Some (Fin now)\<rparr>)"
| "cache_step (Init ks) s = exec_bind (wrapper_storeInit s (data_json ks)) (\<lambda>(ok, s). Inr (if ok then Done else Failed, s))"
| "cache_step (Read kind k) s = exec_bind (wrapper_storeGet s kind k) (\<lambda>(ok, r, s). Inr (if ok then Item r else Failed, s))"
| "cache_step (ReadAll kind) s = exec_bind (wrapper_storeAll s kind) (\<lambda>(ok, r, s). Inr (if ok then Listing (items_lookup r) else Failed, s))"
| "cache_step (Write kind item) s = exec_bind (wrapper_storeUpsert s kind (item_key item) item) (\<lambda>(ok, s). Inr (if ok then Done else Failed, s))"

fun run_cache :: "cache_op list \<Rightarrow> 'b PersistentStoreContext \<Rightarrow> (answer list \<times> 'b PersistentStoreContext) exec" where
  "run_cache [] s = Inr ([], s)"
| "run_cache (op # ops) s = exec_bind (cache_step op s) (\<lambda>(a, s). exec_bind (run_cache ops s) (\<lambda>(as, s). Inr (a # as, s)))"

text \<open>What a single table without a cache would answer, and how it would change.\<close>

fun spec_answer :: "store_view \<Rightarrow> cache_op \<Rightarrow> answer" where
  "spec_answer v (Read kind k) = Item (visible (v kind k))"
| "spec_answer v (ReadAll kind) = Listing (\<lambda>k. visible (v kind k))"
| "spec_answer v _ = Done"

fun spec_view :: "store_view \<Rightarrow> cache_op \<Rightarrow> store_view" where
  "spec_view v (Init ks) = data_view ks"
| "spec_view v (Write kind item) = view_put v kind item"
| "spec_view v _ = v"

fun spec_answers :: "store_view \<Rightarrow> cache_op list \<Rightarrow> answer list" where
  "spec_answers v [] = []"
| "spec_answers v (op # ops) = spec_answer v op # spec_answers (spec_view v op) ops"

text \<open>Time does not go back, data is well-formed, and every update is newer than what is stored when it arrives.\<close>

fun admissible :: "rat \<Rightarrow> store_view \<Rightarrow> cache_op list \<Rightarrow> bool" where
  "admissible now v [] \<longleftrightarrow> True"
| "admissible now v (Clock now' # ops) \<longleftrightarrow> now \<le> now' \<and> admissible now' v ops"
| "admissible now v (Init ks # ops) \<longleftrightarrow> data_ok ks \<and> admissible now (data_view ks) ops"
| "admissible now v (Write kind item # ops) \<longleftrightarrow> storable item \<and> version_of (v kind (item_key item)) < item_version item \<and>
     admissible now (view_put v kind item) ops"
| "admissible now v (_ # ops) \<longleftrightarrow> admissible now v ops"

context persistent_store
begin

lemma step_ok:
  assumes "coherent ps binv bview t0 s" and "admissible t0 (wrapper_view bview s) (op # ops)"
  shows "\<exists>s' t1. cache_step op s = Inr (spec_answer (wrapper_view bview s) op, s') \<and> coherent ps binv bview t1 s' \<and>
     wrapper_view bview s' = spec_view (wrapper_view bview s) op \<and> admissible t1 (wrapper_view bview s') ops"
proof (cases op)
  case (Clock t1)
  then show ?thesis using coherent_clock [OF assms(1), of t1] assms(2) by auto
next
  case (Init ks)
  then show ?thesis using init_ok [OF assms(1), of ks] assms(2) by auto
next
  case (Read kind k)
  then show ?thesis using get_ok [OF assms(1), of kind k] assms(2) by auto
next
  case (ReadAll kind)
  then show ?thesis using all_ok [OF assms(1), of kind] assms(2) by (fastforce simp: items_lookup_def)
next
  case (Write kind item)
  then show ?thesis using upsert_ok [OF assms(1), of item kind] assms(2) by auto
qed

lemma run_agrees:
  assumes "coherent ps binv bview t0 s" and "admissible t0 (wrapper_view bview s) ops"
  shows "\<exists>s' t1. run_cache ops s = Inr (spec_answers (wrapper_view bview s) ops, s') \<and> coherent ps binv bview t1 s'"
  using assms
proof (induction ops arbitrary: s t0)
  case (Cons op ops)
  obtain s1 t1 where s1: "cache_step op s = Inr (spec_answer (wrapper_view bview s) op, s1)" "coherent ps binv bview t1 s1"
    "wrapper_view bview s1 = spec_view (wrapper_view bview s) op" "admissible t1 (wrapper_view bview s1) ops"
    using step_ok [OF Cons.prems] by blast
  obtain s2 t2 where "run_cache ops s1 = Inr (spec_answers (wrapper_view bview s1) ops, s2)" "coherent ps binv bview t2 s2"
    using Cons.IH [OF s1(2,4)] by blast
  then show ?case using s1(1,3) by auto
qed auto

lemma fresh_coherent: "binv b \<Longrightarrow> coherent ps binv bview t0 (caching_context ps b ttl (Some (Fin t0)))"
  by (simp add: coherent_def caching_context_def cache_ok_def keyed_cache_def slots_def)

end


text \<open>With caching switched off by a time to live of zero the cache grows without bound: every read of
  all items adds a copy of the list to the cache, where nothing ever reads or removes it.\<close>

theorem disabled_cache_grows:
  assumes "persistent_store ps binv bview" and "coherent ps binv bview t0 s" and "ps_cacheMilliseconds s = 0"
  shows "\<exists>as s'. run_cache (replicate n (ReadAll kind)) s = Inr (as, s') \<and>
     length (mc_items (ps_cache s')) = length (mc_items (ps_cache s)) + n"
  using assms(2,3)
proof (induction n arbitrary: s)
  case (Suc n)
  have "\<not> is_current s e" for e using Suc.prems(2) by (simp add: is_current_def getExpirationState_def)
  then obtain items e b where get: "getAllItemsFromBackend s kind = Inr (True, Some items, with_cache (s\<lparr>ps_context := b\<rparr>) (LDi_addToCache (ps_cache s) e))"
    and s1: "coherent ps binv bview t0 (with_cache (s\<lparr>ps_context := b\<rparr>) (LDi_addToCache (ps_cache s) e))" (is "coherent _ _ _ _ ?s1")
    using persistent_store.fetch_all_ok [OF assms(1) Suc.prems(1), of kind] by blast
  have "wrapper_storeAll s kind = getAllItemsFromBackend s kind"
    using Suc.prems(2) by (simp add: wrapper_storeAll_def getExpirationState_def split: option.split)
  moreover obtain as s' where "run_cache (replicate n (ReadAll kind)) ?s1 = Inr (as, s')" "length (mc_items (ps_cache s')) = length (mc_items (ps_cache ?s1)) + n"
    using Suc.IH [OF s1] Suc.prems(2) by auto
  ultimately show ?case using get by (auto simp: LDi_addToCache_def hash_add_def)
qed simp

text \<open>An update that the persistent store refuses as not newer poisons the cache: the store keeps its newer item and
  reports success, the item goes to the cache when that has no entry for the key, and reads return
  the old version until the entry expires.\<close>

theorem stale_update_poisons_cache:
  assumes "coherent ps binv bview t0 s" and "storable item"
    and "pi_upsert ps (ps_context s) (featureKindToString kind) (stored_form item) (item_key item) = Inr (True, b)"
    and "bview b = bview (ps_context s)" and "LDi_memoryCacheGetCollectionItem (ps_cache s) (item_key_of kind (item_key item)) = None"
    and "ps_cacheMilliseconds s \<noteq> 0"
  shows "\<exists>s'. wrapper_storeUpsert s kind (item_key item) item = Inr (True, s') \<and>
     wrapper_view bview s' = wrapper_view bview s \<and>
     wrapper_storeGet s' kind (item_key item) = Inr (True, if LDi_isDataDeleted item then None else Some item, s')"
proof -
  let ?k = "item_key item" and ?s = "s\<lparr>ps_context := b\<rparr>"
  obtain t where t: "LDJSONSerialize (Some item) = Some t" and valid: "valid_item item" using assms(2) by (rule storableE)
  have now: "ps_clock ?s = Some (Fin t0)" "keyed_cache (ps_cache ?s)" using coherentD(3,4) [OF assms(1)] by simp_all
  obtain c where c: "upsertMemory ?s kind item = Inr (True, with_cache ?s c)" "replaced (ps_cache s) kind ?k item (Fin t0) c"
    using upsertMemory_ok [OF now valid, of kind] assms(5) by auto
  have "wrapper_storeUpsert s kind ?k item = Inr (True, with_cache ?s c)"
    using t assms(3) valid c(1) by (simp add: wrapper_storeUpsert_def valid_item_version valid_item_key coherentD(1) [OF assms(1)] stored_form_def)
  moreover have "wrapper_view bview (with_cache ?s c) = wrapper_view bview s" using assms(4) by (simp add: wrapper_view_def fun_eq_iff)
  moreover have "wrapper_storeGet (with_cache ?s c) kind ?k = Inr (True, if LDi_isDataDeleted item then None else Some item, with_cache ?s c)"
  proof -
    let ?e = "\<lparr>ci_key = item_key_of kind ?k, ci_feature = Some item, ci_updatedOn = Fin t0\<rparr>"
    have "\<not> (of_nat (unat (ps_cacheMilliseconds s)) :: rat) < 0" using of_nat_0_le_iff [of "unat (ps_cacheMilliseconds s)"] by (simp only: not_less)
    then have "is_current s ?e"
      using assms(6) coherentD(3) [OF assms(1)]
      by (simp add: is_current_def getExpirationState_def LDi_getMonotonicMilliseconds_def dbl_sub_def uint_to_dbl_def del: of_nat_unat)
    then have "getExpirationState (with_cache ?s c) ?e = Inr LD_EXP_CURRENT" using is_current_same(1) [of ?s c ?e] by (simp add: is_current_def [symmetric])
    moreover have "LDi_memoryCacheGetCollectionItem c (item_key_of kind ?k) = Some ?e" using c(2) by (simp add: replaced_def get_slots)
    ultimately show ?thesis by (simp add: wrapper_storeGet_def ld_assert_def)
  qed
  ultimately show ?thesis by blast
qed

section \<open>Whether there is data\<close>

text \<open>
  Once the persistent store has said that it has data, this is remembered for good; the answer that
  it has none is remembered for the time to live, even if data arrives meanwhile.
\<close>

lemma initialized_remembered:
  assumes "wrapper_storeInitialized s = Inr (True, s')" and "ps_cache s'' = ps_cache s'"
  shows "wrapper_storeInitialized s'' = Inr (True, s'')"
proof -
  have "mc_initialized (ps_cache s')"
    using assms(1) by (auto simp: wrapper_storeInitialized_def quickCheckInitialization_def queryAndUpdateInitialization_def Let_def
        exec_bind_eq_Inr split: if_split_asm)
  then show ?thesis using assms(2) by (simp add: wrapper_storeInitialized_def quickCheckInitialization_def)
qed

lemma uninitialized_remembered:
  assumes "queryAndUpdateInitialization s = Inr (False, s')" and "\<not> mc_initialized (ps_cache s)" and "ps_clock s = Some (Fin (of_nat n))"
    and "ps_cacheMilliseconds s \<noteq> 0" and "n \<le> n'" and "n' \<le> n + unat (ps_cacheMilliseconds s)" and "n' < 2 ^ 53"
  shows "wrapper_storeInitialized (s'\<lparr>ps_clock := Some (Fin (of_nat n')), ps_context := b\<rparr>) =
     Inr (False, s'\<lparr>ps_clock := Some (Fin (of_nat n')), ps_context := b\<rparr>)"
proof -
  let ?e = "\<lparr>ci_key = INIT_CHECKED_KEY, ci_feature = None, ci_updatedOn = Fin (of_nat n)\<rparr>"
  obtain b' where s': "s' = with_cache (s\<lparr>ps_context := b'\<rparr>) (LDi_addToCache (LDi_findAndRemoveCacheItem (ps_cache s) INIT_CHECKED_KEY) ?e)"
    using assms(1,3) by (auto simp: queryAndUpdateInitialization_def Let_def LDi_makeCacheItem_def LDi_getMonotonicMilliseconds_def exec_bind_eq_Inr split: if_split_asm)
  have found: "LDi_memoryCacheGetCollectionItem (ps_cache s') INIT_CHECKED_KEY = Some ?e" by (simp add: s' get_add)
  have init: "\<not> mc_initialized (ps_cache s')"
    using assms(2) by (simp add: s' LDi_addToCache_def LDi_findAndRemoveCacheItem_def LDi_deleteAndRemoveCacheItem_def split: option.split)
  have "dbl_sub (Fin (of_nat n')) (Fin (of_nat n)) = Fin (of_nat (n' - n))"
    using fl64_nat [of "n' - n"] assms(5,7) by (simp add: dbl_sub_def of_nat_diff)
  moreover have "\<not> (of_nat (unat (ps_cacheMilliseconds s)) :: rat) < of_nat (n' - n)"
    unfolding of_nat_less_iff using assms(5,6) by auto
  ultimately have "cacheContainsUnexpired (s'\<lparr>ps_clock := Some (Fin (of_nat n')), ps_context := b\<rparr>) INIT_CHECKED_KEY = Inr True"
    using assms(4) found by (simp add: cacheContainsUnexpired_def LDi_getMonotonicMilliseconds_def uint_to_dbl_def s' del: of_nat_unat)
  then show ?thesis using init by (simp add: wrapper_storeInitialized_def quickCheckInitialization_def)
qed

section \<open>A sample persistent store\<close>

text \<open>A table of items by kind and key.\<close>

type_synonym table = "((string \<times> string) \<times> LDStoreCollectionItem) list"

definition table_view :: "table backend_view" where
  "table_view b kind key = map_of b (featureKindToString kind, key)"

definition rows_inv :: "table \<Rightarrow> bool" where
  "rows_inv b \<longleftrightarrow> distinct (map fst b) \<and> (\<forall>e\<in>set b. stored_ok (snd (fst e)) (snd e))"

definition flat_table :: "LDStoreCollectionState list \<Rightarrow> table" where
  "flat_table cs = concat (map (\<lambda>(kind, items). map (\<lambda>(key, i). ((kind, key), i)) items) cs)"

lemma flat_table_set: "((kind, key), i) \<in> set (flat_table cs) \<longleftrightarrow> (\<exists>items. (kind, items) \<in> set cs \<and> (key, i) \<in> set items)"
  by (induction cs) (auto simp: flat_table_def)

lemma flat_table:
  assumes "distinct (map fst cs)" and "\<forall>c\<in>set cs. distinct (map fst (snd c))"
  shows "distinct (map fst (flat_table cs)) \<and>
     (\<forall>kind key. map_of (flat_table cs) (kind, key) = Option.bind (map_of cs kind) (\<lambda>items. map_of items key))"
  using assms
proof (induction cs)
  case (Cons c cs)
  obtain kind items where c: "c = (kind, items)" by (cases c)
  let ?t = "map (\<lambda>(key, i). ((kind, key), i)) items"
  have "distinct (map fst ?t)" using Cons.prems(2) by (simp add: c distinct_map comp_def case_prod_beta inj_on_def)
  moreover have "map_of ?t (kind', key) = (if kind' = kind then map_of items key else None)" for kind' key
    by (induction items) auto
  moreover have "fst ` set ?t \<inter> fst ` set (flat_table cs) = {}"
    using Cons.prems(1) by (force simp: c flat_table_set)
  moreover have "flat_table (c # cs) = ?t @ flat_table cs" by (simp add: flat_table_def c)
  moreover have "map_of cs kind = None" "\<not> (\<exists>items. (kind, items) \<in> set cs)"
    using Cons.prems(1) by (auto simp: c map_of_eq_None_iff rev_image_eqI)
  moreover have "distinct (map fst (flat_table cs))"
    "\<And>kind key. map_of (flat_table cs) (kind, key) = Option.bind (map_of cs kind) (\<lambda>items. map_of items key)"
    using Cons by simp_all
  ultimately show ?case by (simp add: c map_add_def image_image split: option.split)
qed (simp add: flat_table_def)

definition table_store :: "table LDStoreInterface" where
  "table_store = \<lparr>pi_init = (\<lambda>b cs. Inr (True, flat_table cs)),
     pi_get = (\<lambda>b kind key. Inr (True, stored_or_absent (map_of b (kind, key)), b)),
     pi_all = (\<lambda>b kind. Inr (True, map snd (filter (\<lambda>e. fst (fst e) = kind) b), b)),
     pi_upsert = (\<lambda>b kind item key. Inr (True, if \<exists>old. map_of b (kind, key) = Some old \<and> sc_version item \<le> sc_version old then b
        else ((kind, key), item) # filter (\<lambda>e. fst e \<noteq> (kind, key)) b)),
     pi_initialized = (\<lambda>b. Inr (b \<noteq> [], b))\<rparr>"

lemma table_store_ok: "persistent_store table_store rows_inv table_view"
proof (unfold_locales, goal_cases)
  case (1 b kind key i)
  then show ?case by (force simp: rows_inv_def table_view_def dest: map_of_SomeD)
next
  case (2 b kind key)
  then show ?case by (simp add: table_store_def table_view_def)
next
  case (3 b kind)
  then have "{i. \<exists>key. map_of b (featureKindToString kind, key) = Some i} = snd ` {e \<in> set b. fst (fst e) = featureKindToString kind}"
    by (force simp: rows_inv_def)
  then show ?case using 3 by (simp add: table_store_def table_view_def)
next
  case (4 b key item kind)
  then have "\<not> (\<exists>old. map_of b (featureKindToString kind, key) = Some old \<and> sc_version item \<le> sc_version old)"
    by (auto simp: table_view_def stored_or_absent_def)
  moreover have "map_of (filter (\<lambda>e. fst e \<noteq> x) b) y = (if y = x then None else map_of b y)" for x y
    by (induction b) auto
  moreover have "distinct (map fst (filter P b))" for P using 4(1) by (simp add: rows_inv_def distinct_map_filter)
  ultimately show ?case using 4 by (auto simp: table_store_def table_view_def rows_inv_def backend_put_def fun_eq_iff)
next
  case (5 b cs)
  have t: "distinct (map fst (flat_table cs)) \<and> (\<forall>kind key. map_of (flat_table cs) (kind, key) = Option.bind (map_of cs kind) (\<lambda>items. map_of items key))"
    using 5(2) by (intro flat_table) (auto simp: collections_ok_def)
  then show ?case
    using 5(2) by (fastforce simp: table_store_def rows_inv_def table_view_def collections_view_def collections_ok_def fun_eq_iff flat_table_set)
qed

definition sample_cache :: "uint \<Rightarrow> table PersistentStoreContext" where
  "sample_cache ttl = caching_context table_store [((''features'', ''a''), stored_form (sample_item ''a'' 5))] ttl (Some (Fin 7))"

lemma sample_storable: "storable (sample_item ''a'' v)"
proof -
  have "unat v < 2 ^ 53" using unsigned_less [of v, where ?'a = nat] by simp
  then have "fl64 (of_nat (unat v)) = Fin (of_nat (unat v))" by (rule fl64_nat)
  then have "representable (of_nat (unat v))" unfolding representable_def .
  then show ?thesis
    by (simp add: storable_def del: of_nat_unat) (simp add: sample_item_def uint_to_dbl_def nul_free_def CJSON_NESTING_LIMIT_def del: of_nat_unat)
qed

lemma sample_visible: "visible (Some (sample_item k v)) = Some (sample_item k v)"
  by (simp add: visible_def sample_item_def LDi_isDataDeleted_def)

lemma sample_coherent: "coherent table_store rows_inv table_view 7 (sample_cache ttl)"
  using persistent_store.fresh_coherent [OF table_store_ok, of "[((''features'', ''a''), stored_form (sample_item ''a'' 5))]" 7 ttl]
    stored_form_ok [OF sample_storable [of 5]] by (simp add: sample_cache_def rows_inv_def)

lemma sample_cache_view: "wrapper_view table_view (sample_cache ttl) LD_FLAG ''a'' = Some (sample_item ''a'' 5)"
  using stored_form_ok [OF sample_storable [of 5]] by (simp add: wrapper_view_def sample_cache_def caching_context_def table_view_def)


theorem disabled_cache_grows_witness:
  "\<exists>as s'. run_cache (replicate 1000 (ReadAll LD_FLAG)) (sample_cache 0) = Inr (as, s') \<and> length (mc_items (ps_cache s')) = 1000"
  using disabled_cache_grows [OF table_store_ok sample_coherent [of 0], of 1000 LD_FLAG]
  by (simp add: sample_cache_def caching_context_def)

theorem stale_update_poisons_cache_witness:
  "\<exists>s'. wrapper_storeUpsert (sample_cache 30000) LD_FLAG ''a'' (sample_item ''a'' 3) = Inr (True, s') \<and>
     wrapper_view table_view s' = wrapper_view table_view (sample_cache 30000) \<and>
     wrapper_storeGet s' LD_FLAG ''a'' = Inr (True, Some (sample_item ''a'' 3), s')"
proof -
  let ?s = "sample_cache 30000"
  have "pi_upsert table_store (ps_context ?s) ''features'' (stored_form (sample_item ''a'' 3)) ''a'' = Inr (True, ps_context ?s)"
    by (simp add: table_store_def sample_cache_def caching_context_def stored_form_def)
  moreover have "LDi_memoryCacheGetCollectionItem (ps_cache ?s) (item_key_of LD_FLAG ''a'') = None" "ps_cacheMilliseconds ?s \<noteq> 0"
    by (simp_all add: sample_cache_def caching_context_def LDi_memoryCacheGetCollectionItem_def)
  moreover have "\<not> LDi_isDataDeleted (sample_item ''a'' 3)" by (simp add: sample_item_def LDi_isDataDeleted_def)
  ultimately show ?thesis
    using stale_update_poisons_cache [OF sample_coherent [of 30000] sample_storable [of 3], of LD_FLAG "ps_context ?s"] by simp
qed

text \<open>A list filled by an initialisation shows deleted items, which a list read from the persistent store leaves out.\<close>

lemma initialised_list_shows_deletions:
  "\<exists>s. wrapper_storeInit (sample_cache 30000) (JObject [(''features'', JObject [(''a'', removal_item ''a'' 2)])]) = Inr (True, s) \<and>
     wrapper_storeAll s LD_FLAG = Inr (True, Some (JObject [(''a'', removal_item ''a'' 2)]), s)"
proof -
  let ?d = "removal_item ''a'' 2"
  have v: "valid_item ?d" "item_key ?d = ''a''" by simp_all
  have "representable 2" using fl64_nat [of 2] by (simp add: representable_def)
  then have "json_ok ?d" "jdepth ?d \<le> CJSON_NESTING_LIMIT"
    by (simp_all add: removal_item_eq uint_to_dbl_def nul_free_def CJSON_NESTING_LIMIT_def)
  then obtain t where t: "LDJSONSerialize (Some ?d) = Some t" using serialize_deserialize by blast
  have c: "LDi_makeCollections (JObject [(''features'', JObject [(''a'', ?d)])]) =
      Inr [(''features'', [(''a'', \<lparr>sc_buffer = Some t, sc_version = item_version ?d\<rparr>)])]"
    using v t valid_item_key [OF v(1)] valid_item_version [OF v(1)] by (simp add: LDi_makeCollections_def valid_item_def ld_assert_def)
  show ?thesis
    by (simp add: wrapper_storeInit_def c memoryInit_def ld_assert_def data_key_valid [OF v(1)] LDi_makeCacheItem_def
        sample_cache_def caching_context_def LDi_getMonotonicMilliseconds_def wrapper_storeAll_def get_add
        table_store_def LDi_memoryCacheFlush_def with_cache_def getExpirationState_def dbl_sub_def uint_to_dbl_def
        featureStoreCacheKey_def featureStoreAllCacheKey_def)
qed

end
