(* ===== verification/RedisFlow.thy ===== *)
theory RedisFlow
  imports RedisServer CacheFlow
begin

text \<open>
  The Redis store meets the contract of a persistent store, so that the cache in front of it is
  transparent, as long as the server serves nobody else and updates are newer than what is stored.
\<close>

section \<open>What the database holds\<close>

definition item_of_text :: "string \<Rightarrow> LDStoreCollectionItem" where
  "item_of_text t = \<lparr>sc_buffer = Some t, sc_version = version_of (LDJSONDeserialize (Some t))\<rparr>"

definition db_view :: "string \<Rightarrow> database \<Rightarrow> FeatureKind \<Rightarrow> string \<Rightarrow> LDStoreCollectionItem option" where
  "db_view prefix db kind key = (case db (prefix @ '':'' @ featureKindToString kind) of
       Some (RHash m) \<Rightarrow> map_option item_of_text (map_of m key) | _ \<Rightarrow> None)"

definition hash_ok :: "(string \<times> string) list \<Rightarrow> bool" where
  "hash_ok m \<longleftrightarrow> distinct (map fst m) \<and> (\<forall>e\<in>set m. stored_ok (fst e) (item_of_text (snd e)))"

definition db_ok :: "string \<Rightarrow> database \<Rightarrow> bool" where
  "db_ok prefix db \<longleftrightarrow> (\<forall>kind. case db (prefix @ '':'' @ featureKindToString kind) of
     None \<Rightarrow> True | Some (RHash m) \<Rightarrow> hash_ok m | Some (RString s) \<Rightarrow> False)"

definition redis_view :: "('w \<Rightarrow> server) \<Rightarrow> 'w Context backend_view" where
  "redis_view sv ctx = db_view (LDRedisConfigGetPrefix (rx_config ctx)) (sv_db (sv (rx_world ctx)))"

text \<open>Between operations every connection is in the pool and has neither a transaction nor a watched key.\<close>

definition redis_inv :: "('w \<Rightarrow> server) \<Rightarrow> ('w \<Rightarrow> nat set) \<Rightarrow> 'w Context \<Rightarrow> bool" where
  "redis_inv sv opened ctx \<longleftrightarrow> db_ok (LDRedisConfigGetPrefix (rx_config ctx)) (sv_db (sv (rx_world ctx))) \<and>
     rx_count ctx = of_nat (length (rx_connections ctx)) \<and> rc_poolSize (rx_config ctx) \<noteq> 0 \<and>
     length (rx_connections ctx) \<le> unat (rc_poolSize (rx_config ctx)) \<and>
     (\<forall>c\<in>set (rx_connections ctx). c \<in> opened (rx_world ctx) \<and> sv_clients (sv (rx_world ctx)) c = fresh_client)"

lemma stored_ok_text: "stored_ok key i \<Longrightarrow> \<exists>t. i = item_of_text t"
  by (elim stored_okE) (auto simp: item_of_text_def)

lemma hash_okD:
  assumes "hash_ok m" and "map_of m key = Some t"
  obtains item where "LDJSONDeserialize (Some t) = Some item" and "valid_item item" and "item_key item = key"
  using assms by (auto simp: hash_ok_def item_of_text_def dest!: map_of_SomeD bspec elim: stored_okE)

lemma hash_ok_Nil [simp]: "hash_ok []"
  by (simp add: hash_ok_def)

lemma hash_put_ok:
  assumes "hash_ok m" and "stored_ok key (item_of_text t)"
  shows "hash_ok (hash_put key t m)" and "map_of (hash_put key t m) = (map_of m)(key \<mapsto> t)"
proof -
  show "hash_ok (hash_put key t m)" using assms by (auto simp: hash_ok_def hash_put_def distinct_map_filter)
  have "map_of (filter (\<lambda>e. fst e \<noteq> key) m) k = (if k = key then None else map_of m k)" for k by (induction m) auto
  then show "map_of (hash_put key t m) = (map_of m)(key \<mapsto> t)" by (auto simp: hash_put_def fun_eq_iff)
qed

section \<open>Commands\<close>

lemma db_okD: "db_ok prefix db \<Longrightarrow> db (prefix @ '':'' @ featureKindToString kind) = Some (RHash m) \<Longrightarrow> hash_ok m"
  "db_ok prefix db \<Longrightarrow> db (prefix @ '':'' @ featureKindToString kind) \<noteq> Some (RString s)"
  by (auto simp: db_ok_def dest!: spec [of _ kind] split: option.split_asm redis_value.split_asm)

lemma untouched [simp]: "write_db s {} (sv_db s) = s"
  by (simp add: write_db_def touch_def fun_eq_iff comp_def)

lemma read_step:
  assumes "cl_queue (sv_clients s c) = None"
  shows "server_step s c (HGET k field) = (fst (data_command (sv_db s) (HGET k field)), s)"
    and "server_step s c (HGETALL k) = (fst (data_command (sv_db s) (HGETALL k)), s)"
    and "server_step s c (EXISTS k) = (fst (data_command (sv_db s) (EXISTS k)), s)"
  using assms by (simp_all add: server_step_def)

lemma fresh_client_simps [simp]: "cl_queue fresh_client = None" "cl_watch fresh_client = {}" "\<not> cl_dirty fresh_client"
  by (simp_all add: fresh_client_def)

text \<open>The elements of a well-formed hash are its items.\<close>

lemma collect_items_ok:
  assumes "\<forall>e\<in>set m. stored_ok (fst e) (item_of_text (snd e))"
  shows "collect_items (concat (map (\<lambda>(field, v). [REDIS_REPLY_STRING field, REDIS_REPLY_STRING v]) m)) = Inr (Some (map (item_of_text \<circ> snd) m))"
  using assms
proof (induction m)
  case (Cons e m)
  then obtain item where "LDJSONDeserialize (Some (snd e)) = Some item" "valid_item item"
    by (auto simp: item_of_text_def elim!: stored_okE)
  then show ?case using Cons by (cases e) (simp add: valid_item_version item_of_text_def)
qed simp

lemma hash_items: "distinct (map fst m) \<Longrightarrow> set (map (item_of_text \<circ> snd) m) = {i. \<exists>key. map_option item_of_text (map_of m key) = Some i}"
  by force

context redis_server
begin

lemma command_ok:
  assumes "c \<in> opened (rx_world ctx)"
  shows "\<exists>w'. redisCommand h ctx c command = (Some (fst (server_step (sv (rx_world ctx)) c command)), ctx\<lparr>rx_world := w'\<rparr>) \<and>
     sv w' = snd (server_step (sv (rx_world ctx)) c command) \<and> opened w' = opened (rx_world ctx)"
  using answers [OF assms, of command] by (auto simp: redisCommand_def)

text \<open>An operation gets a connection that nobody else uses and gives it back.\<close>

lemma on_connection_ok:
  assumes "redis_inv sv opened ctx"
    and "\<And>c cs w. c \<in> opened w \<Longrightarrow> sv_db (sv w) = sv_db (sv (rx_world ctx)) \<Longrightarrow> sv_clients (sv w) c = fresh_client \<Longrightarrow>
      \<exists>w'. body c (ctx\<lparr>rx_connections := cs, rx_count := of_nat (length cs + 1), rx_world := w\<rparr>) =
           Inr (r, ctx\<lparr>rx_connections := cs, rx_count := of_nat (length cs + 1), rx_world := w'\<rparr>) \<and>
         opened w' = opened w \<and> sv_clients (sv w') c = fresh_client \<and>
         (\<forall>d. sv_clients (sv w) d = fresh_client \<longrightarrow> sv_clients (sv w') d = fresh_client) \<and>
         sv_db (sv w') = db \<and> db_ok (LDRedisConfigGetPrefix (rx_config ctx)) db"
  shows "\<exists>ctx'. on_connection h ctx failed body = Inr (r, ctx') \<and> redis_inv sv opened ctx' \<and> sv_db (sv (rx_world ctx')) = db \<and>
     rx_config ctx' = rx_config ctx"
proof -
  let ?w = "rx_world ctx"
  obtain c cs w where borrow: "borrowConnection h ctx = Inr (Some c, ctx\<lparr>rx_connections := cs, rx_count := of_nat (length cs + 1), rx_world := w\<rparr>)"
    and w: "c \<in> opened w" "sv_db (sv w) = sv_db (sv ?w)" "sv_clients (sv w) c = fresh_client"
      "\<forall>d\<in>set cs. d \<in> opened w \<and> sv_clients (sv w) d = fresh_client" "length cs + 1 \<le> unat (rc_poolSize (rx_config ctx))"
  proof (cases "rx_connections ctx")
    case (Cons c cs)
    have "ctx\<lparr>rx_connections := cs\<rparr> = ctx\<lparr>rx_connections := cs, rx_count := of_nat (length cs + 1), rx_world := ?w\<rparr>"
      using assms(1) Cons by (simp add: redis_inv_def)
    then show ?thesis using that [of c ?w cs] assms(1) Cons by (simp add: borrowConnection_def pool_take_def redis_inv_def)
  next
    case Nil
    then have "rx_count ctx = 0" "rx_count ctx < rc_poolSize (rx_config ctx)" using assms(1) by (simp_all add: redis_inv_def word_gt_0)
    moreover have "1 \<le> unat (rc_poolSize (rx_config ctx))" using assms(1) by (simp add: redis_inv_def Suc_le_eq unat_gt_0)
    moreover obtain c w where "hi_connect h ?w (LDRedisConfigGetHost (rx_config ctx)) (rc_port (rx_config ctx)) = (Some c, w)"
      "opened w = insert c (opened ?w)" "sv w = set_client (sv ?w) c fresh_client"
      using opens_context by blast
    ultimately show ?thesis
      using that [of c w "[]"] Nil no_error [of c w]
      by (simp add: borrowConnection_def pool_take_def pool_reserve_def pool_connect_def set_client_def)
  qed
  obtain w' where w': "body c (ctx\<lparr>rx_connections := cs, rx_count := of_nat (length cs + 1), rx_world := w\<rparr>) =
      Inr (r, ctx\<lparr>rx_connections := cs, rx_count := of_nat (length cs + 1), rx_world := w'\<rparr>)"
    "opened w' = opened w" "sv_clients (sv w') c = fresh_client"
    "\<forall>d. sv_clients (sv w) d = fresh_client \<longrightarrow> sv_clients (sv w') d = fresh_client"
    "sv_db (sv w') = db" "db_ok (LDRedisConfigGetPrefix (rx_config ctx)) db"
    using assms(2) [OF w(1-3)] by blast
  let ?c = "ctx\<lparr>rx_connections := c # cs, rx_count := of_nat (length cs + 1), rx_world := w'\<rparr>"
  have "on_connection h ctx failed body = Inr (r, ?c)"
    using w'(1,2) w(1) no_error [of c w'] by (simp add: on_connection_def borrow returnConnection_def)
  moreover have "redis_inv sv opened ?c" using assms(1) w w' by (auto simp: redis_inv_def)
  ultimately show ?thesis using w'(5) by auto
qed

lemma get_stored_ok:
  assumes "redis_inv sv opened ctx"
  shows "\<exists>ctx'. redis_storeGet h ctx (featureKindToString kind) key = Inr (True, stored_or_absent (redis_view sv ctx kind key), ctx') \<and>
     redis_inv sv opened ctx' \<and> redis_view sv ctx' = redis_view sv ctx"
proof -
  let ?db = "sv_db (sv (rx_world ctx))" and ?p = "LDRedisConfigGetPrefix (rx_config ctx)"
  have ok: "db_ok ?p ?db" using assms by (simp add: redis_inv_def)
  obtain ctx' where "on_connection h ctx (False, no_item) (fetch_item h (featureKindToString kind) key) =
      Inr ((True, stored_or_absent (redis_view sv ctx kind key)), ctx')" "redis_inv sv opened ctx'" "sv_db (sv (rx_world ctx')) = ?db"
      "rx_config ctx' = rx_config ctx"
  proof (atomize_elim, rule on_connection_ok [OF assms], goal_cases)
    case (1 c cs w)
    let ?ctx = "ctx\<lparr>rx_connections := cs, rx_count := of_nat (length cs + 1), rx_world := w\<rparr>"
    obtain w' where w': "redisCommand h ?ctx c (HGET (redis_key ?ctx (featureKindToString kind)) key) =
        (Some (fst (data_command ?db (HGET (?p @ '':'' @ featureKindToString kind) key))), ?ctx\<lparr>rx_world := w'\<rparr>)" "sv w' = sv w" "opened w' = opened w"
      using command_ok [of c ?ctx "HGET (redis_key ?ctx (featureKindToString kind)) key"] 1 by (auto simp: read_step redis_key_def)
    show ?case
    proof (cases "\<exists>m t. ?db (?p @ '':'' @ featureKindToString kind) = Some (RHash m) \<and> map_of m key = Some t")
      case True
      then obtain m t where m: "?db (?p @ '':'' @ featureKindToString kind) = Some (RHash m)" "map_of m key = Some t" by blast
      obtain item where "LDJSONDeserialize (Some t) = Some item" "valid_item item" using hash_okD [OF db_okD(1) [OF ok m(1)] m(2)] by blast
      then show ?thesis
        using w' 1 m ok by (auto simp: redis_view_def db_view_def stored_or_absent_def item_of_text_def valid_item_version fetch_item_def)
    next
      case False
      then show ?thesis
        using w' 1 ok db_okD(2) [OF ok, of kind]
        by (auto simp: redis_view_def db_view_def stored_or_absent_def fetch_item_def split: option.split redis_value.split)
    qed
  qed
  then show ?thesis by (auto simp: redis_storeGet_def redis_view_def)
qed

lemma all_stored_ok:
  assumes "redis_inv sv opened ctx"
  shows "\<exists>items ctx'. redis_storeAll h ctx (featureKindToString kind) = Inr (True, items, ctx') \<and>
     redis_inv sv opened ctx' \<and> redis_view sv ctx' = redis_view sv ctx \<and> set items = {i. \<exists>key. redis_view sv ctx kind key = Some i}"
proof -
  let ?db = "sv_db (sv (rx_world ctx))" and ?p = "LDRedisConfigGetPrefix (rx_config ctx)"
  let ?key = "?p @ '':'' @ featureKindToString kind"
  have ok: "db_ok ?p ?db" using assms by (simp add: redis_inv_def)
  define m where "m = (case ?db ?key of Some (RHash m) \<Rightarrow> m | _ \<Rightarrow> [])"
  have hash: "hash_ok m" using db_okD(1) [OF ok] by (auto simp: m_def split: option.split redis_value.split)
  have reply: "fst (data_command ?db (HGETALL ?key)) = REDIS_REPLY_ARRAY (concat (map (\<lambda>(field, v). [REDIS_REPLY_STRING field, REDIS_REPLY_STRING v]) m))"
    using db_okD(2) [OF ok, of kind] by (auto simp: m_def split: option.split redis_value.split)
  obtain ctx' where "on_connection h ctx (False, []) (fetch_items h (featureKindToString kind)) = Inr ((True, map (item_of_text \<circ> snd) m), ctx')"
    "redis_inv sv opened ctx'" "sv_db (sv (rx_world ctx')) = ?db" "rx_config ctx' = rx_config ctx"
  proof (atomize_elim, rule on_connection_ok [OF assms], goal_cases)
    case (1 c cs w)
    let ?ctx = "ctx\<lparr>rx_connections := cs, rx_count := of_nat (length cs + 1), rx_world := w\<rparr>"
    obtain w' where "redisCommand h ?ctx c (HGETALL (redis_key ?ctx (featureKindToString kind))) =
        (Some (fst (data_command ?db (HGETALL ?key))), ?ctx\<lparr>rx_world := w'\<rparr>)" "sv w' = sv w" "opened w' = opened w"
      using command_ok [of c ?ctx "HGETALL (redis_key ?ctx (featureKindToString kind))"] 1 by (auto simp: read_step redis_key_def)
    then show ?case using 1 ok hash collect_items_ok [of m] unfolding reply by (auto simp: fetch_items_def hash_ok_def)
  qed
  moreover have "redis_view sv ctx kind key = map_option item_of_text (map_of m key)" for key
    by (simp add: redis_view_def db_view_def m_def split: option.split redis_value.split)
  ultimately show ?thesis using hash_items [of m] hash by (auto simp: redis_storeAll_def redis_view_def hash_ok_def)
qed

end

section \<open>What a transaction writes\<close>

definition hash_of :: "redis_value option \<Rightarrow> (string \<times> string) list" where
  "hash_of v = (case v of Some (RHash m) \<Rightarrow> m | _ \<Rightarrow> [])"

definition is_hash :: "redis_value option \<Rightarrow> bool" where
  "is_hash v \<longleftrightarrow> (case v of Some (RString s) \<Rightarrow> False | _ \<Rightarrow> hash_ok (hash_of v))"

lemma hash_of_simps [simp]: "hash_of None = []" "hash_of (Some (RHash m)) = m"
  by (simp_all add: hash_of_def)

lemma is_hash_simps [simp]: "is_hash None" "is_hash (Some (RHash m)) \<longleftrightarrow> hash_ok m" "\<not> is_hash (Some (RString s))"
  by (simp_all add: is_hash_def)

lemma db_ok_hash: "db_ok prefix db \<longleftrightarrow> (\<forall>kind. is_hash (db (prefix @ '':'' @ featureKindToString kind)))"
  by (simp add: db_ok_def is_hash_def hash_of_def split: option.split redis_value.split)

lemma db_view_hash: "db_view prefix db kind key = map_option item_of_text (map_of (hash_of (db (prefix @ '':'' @ featureKindToString kind))) key)"
  by (simp add: db_view_def hash_of_def split: option.split redis_value.split)

definition item_commands :: "string \<Rightarrow> (string \<times> LDStoreCollectionItem) list \<Rightarrow> redis_command list" where
  "item_commands k items = map (\<lambda>(key, i). HSET k key (the (sc_buffer i))) items"

definition collection_commands :: "string \<Rightarrow> LDStoreCollectionState list \<Rightarrow> redis_command list" where
  "collection_commands prefix cs = concat (map (\<lambda>(kind, items). DEL (prefix @ '':'' @ kind) # item_commands (prefix @ '':'' @ kind) items) cs)"

lemma run_Cons: "snd (run_commands db (c # cs)) = snd (run_commands (snd (data_command db c)) cs)"
  by (simp split: prod.split)

lemma run_append: "snd (run_commands db (xs @ ys)) = snd (run_commands (snd (run_commands db xs)) ys)"
  by (induction xs arbitrary: db) (simp_all add: run_Cons del: run_commands.simps(2))

lemma hset_hash:
  assumes "is_hash (db k)" and "stored_ok key (item_of_text t)"
  shows "\<exists>m. snd (data_command db (HSET k key t)) = db(k \<mapsto> RHash m) \<and> hash_ok m \<and> map_of m = (map_of (hash_of (db k)))(key \<mapsto> t)"
proof (cases "db k")
  case None
  then show ?thesis using assms(2) by (intro exI [of _ "[(key, t)]"]) (simp add: hash_ok_def fun_eq_iff)
next
  case (Some v)
  then obtain m where "v = RHash m" "hash_ok m" using assms(1) by (cases v) auto
  then show ?thesis using Some hash_put_ok [OF _ assms(2)] by auto
qed

text \<open>The text of a stored item and the item of its text.\<close>

lemma stored_text: "stored_ok key i \<Longrightarrow> item_of_text (the (sc_buffer i)) = i"
  by (elim stored_okE) (simp add: item_of_text_def)

lemma run_items:
  assumes "is_hash (db k)" and "distinct (map fst items)" and "\<forall>e\<in>set items. stored_ok (fst e) (snd e)"
  shows "is_hash (snd (run_commands db (item_commands k items)) k) \<and>
     (\<forall>k'. k' \<noteq> k \<longrightarrow> snd (run_commands db (item_commands k items)) k' = db k') \<and>
     (\<forall>key. map_of (hash_of (snd (run_commands db (item_commands k items)) k)) key =
        (case map_of items key of Some i \<Rightarrow> sc_buffer i | None \<Rightarrow> map_of (hash_of (db k)) key))"
  using assms
proof (induction items arbitrary: db)
  case (Cons e items)
  obtain key i where e: "e = (key, i)" by (cases e)
  have "stored_ok key i" using Cons.prems(3) by (simp add: e)
  moreover from this obtain t where "sc_buffer i = Some t" by (auto elim: stored_okE)
  ultimately have t: "sc_buffer i = Some t" "stored_ok key (item_of_text t)" using stored_text [of key i] by simp_all
  obtain m where m: "snd (data_command db (HSET k key t)) = db(k \<mapsto> RHash m)" "hash_ok m" "map_of m = (map_of (hash_of (db k)))(key \<mapsto> t)"
    using hset_hash [of db k, OF Cons.prems(1) t(2)] by blast
  define db1 where "db1 = db(k \<mapsto> RHash m)"
  have db1: "db1 k = Some (RHash m)" "\<And>k'. k' \<noteq> k \<Longrightarrow> db1 k' = db k'" by (simp_all add: db1_def)
  have step: "snd (run_commands db (item_commands k (e # items))) = snd (run_commands db1 (item_commands k items))"
    using m(1) t(1) by (simp add: item_commands_def e run_Cons db1_def del: data_command.simps run_commands.simps(2))
  have "map_of items key = None" using Cons.prems(2) by (simp add: e map_of_eq_None_iff)
  then show ?case
    using Cons.IH [of db1] db1 m(2,3) t(1) Cons.prems(2,3) unfolding step by (simp add: e split: option.split)
qed (simp add: item_commands_def)

lemma run_collections:
  assumes "distinct (map fst cs)" and "\<forall>c\<in>set cs. distinct (map fst (snd c)) \<and> (\<forall>e\<in>set (snd c). stored_ok (fst e) (snd e))"
  shows "case map_of cs kind of
       None \<Rightarrow> snd (run_commands db (collection_commands prefix cs)) (prefix @ '':'' @ kind) = db (prefix @ '':'' @ kind)
     | Some items \<Rightarrow> is_hash (snd (run_commands db (collection_commands prefix cs)) (prefix @ '':'' @ kind)) \<and>
         (\<forall>key. map_of (hash_of (snd (run_commands db (collection_commands prefix cs)) (prefix @ '':'' @ kind))) key =
            Option.bind (map_of items key) sc_buffer)"
  using assms
proof (induction cs arbitrary: db)
  case (Cons c cs)
  obtain kind' items where c: "c = (kind', items)" by (cases c)
  let ?k = "prefix @ '':'' @ kind'"
  let ?db = "snd (run_commands (db(?k := None)) (item_commands ?k items))"
  have step: "snd (run_commands db (collection_commands prefix (c # cs))) = snd (run_commands ?db (collection_commands prefix cs))"
    by (simp add: collection_commands_def c run_append run_Cons del: run_commands.simps(2))
  have db: "is_hash (?db ?k)" "\<forall>k'. k' \<noteq> ?k \<longrightarrow> ?db k' = db k'"
    "\<forall>key. map_of (hash_of (?db ?k)) key = (case map_of items key of Some i \<Rightarrow> sc_buffer i | None \<Rightarrow> None)"
    using run_items [of "db(?k := None)" ?k items] Cons.prems(2) by (auto simp: c split: option.split)
  have IH: "case map_of cs kind of
       None \<Rightarrow> snd (run_commands ?db (collection_commands prefix cs)) (prefix @ '':'' @ kind) = ?db (prefix @ '':'' @ kind)
     | Some items \<Rightarrow> is_hash (snd (run_commands ?db (collection_commands prefix cs)) (prefix @ '':'' @ kind)) \<and>
         (\<forall>key. map_of (hash_of (snd (run_commands ?db (collection_commands prefix cs)) (prefix @ '':'' @ kind))) key =
            Option.bind (map_of items key) sc_buffer)"
    by (rule Cons.IH) (use Cons.prems in simp_all)
  show ?case
  proof (cases "kind = kind'")
    case True
    then have "map_of cs kind = None" using Cons.prems(1) by (simp add: c map_of_eq_None_iff)
    then show ?thesis using IH db True unfolding step by (auto simp: c split: option.split bind_split)
  next
    case False
    then show ?thesis using IH db(2) unfolding step by (auto simp: c split: option.split_asm)
  qed
qed (simp add: collection_commands_def)

lemma set_client_simps [simp]:
  "set_client (set_client s c a) c b = set_client s c b" "sv_clients (set_client s c a) c = a" "sv_db (set_client s c a) = sv_db s"
  "d \<noteq> c \<Longrightarrow> sv_clients (set_client s c a) d = sv_clients s d"
  by (simp_all add: set_client_def)

text \<open>Opening a transaction, queueing a write, and executing the queue on a connection without changes to watched keys.\<close>

lemma transaction_steps:
  "cl_queue cl = None \<Longrightarrow> server_step (set_client s c cl) c MULTI = (REDIS_REPLY_STATUS ''OK'', set_client s c (cl\<lparr>cl_queue := Some []\<rparr>))"
  "written_keys command \<noteq> {} \<Longrightarrow> server_step (set_client s c (cl\<lparr>cl_queue := Some q\<rparr>)) c command =
     (REDIS_REPLY_STATUS ''QUEUED'', set_client s c (cl\<lparr>cl_queue := Some (q @ [command])\<rparr>))"
  "\<not> cl_dirty cl \<Longrightarrow> server_step (set_client s c (cl\<lparr>cl_queue := Some q\<rparr>)) c EXEC =
     (REDIS_REPLY_ARRAY (fst (run_commands (sv_db s) q)),
      write_db (set_client s c fresh_client) (\<Union>(written_keys ` set q)) (snd (run_commands (sv_db s) q)))"
  by (simp add: server_step_def, cases command, simp_all add: server_step_def Let_def split: prod.split)

lemma write_db_simps [simp]:
  "sv_db (write_db s ks db) = db" "sv_clients s d = fresh_client \<Longrightarrow> sv_clients (write_db s ks db) d = fresh_client"
  by (simp_all add: write_db_def touch_def)

text \<open>A world in which the connection has queued commands since its transaction was opened.\<close>

definition queueing :: "('w \<Rightarrow> server) \<Rightarrow> ('w \<Rightarrow> nat set) \<Rightarrow> server \<Rightarrow> nat \<Rightarrow> client \<Rightarrow> nat set \<Rightarrow> redis_command list \<Rightarrow> 'w \<Rightarrow> bool" where
  "queueing sv opened s c cl os q w \<longleftrightarrow> sv w = set_client s c (cl\<lparr>cl_queue := Some q\<rparr>) \<and> opened w = os \<and> c \<in> os"

lemma set_client_same: "sv_clients s c = cl \<Longrightarrow> set_client s c cl = s"
  by (auto simp: set_client_def)

context redis_server
begin

lemma queued_ok:
  assumes "queueing sv opened s c cl os q w" and "written_keys command \<noteq> {}"
  shows "\<exists>w'. queued h c (ctx\<lparr>rx_world := w\<rparr>) command = (True, ctx\<lparr>rx_world := w'\<rparr>) \<and> queueing sv opened s c cl os (q @ [command]) w'"
  using command_ok [of c "ctx\<lparr>rx_world := w\<rparr>" command] assms
  by (auto simp: queued_def queueing_def transaction_steps(2) redisCheckStatus_def redisCheckReply_def)

lemma queue_items_ok:
  assumes "queueing sv opened s c cl os q w" and "\<forall>e\<in>set items. sc_buffer (snd e) \<noteq> None"
  shows "\<exists>w'. queue_items h c kind items (ctx\<lparr>rx_world := w\<rparr>) = Inr (True, ctx\<lparr>rx_world := w'\<rparr>) \<and>
     queueing sv opened s c cl os (q @ item_commands (redis_key ctx kind) items) w'"
  using assms
proof (induction items arbitrary: q w)
  case (Cons e items)
  obtain key i t where e: "e = (key, i)" "sc_buffer i = Some t" using Cons.prems(2) by (cases e) auto
  obtain w1 where w1: "queued h c (ctx\<lparr>rx_world := w\<rparr>) (HSET (redis_key ctx kind) key t) = (True, ctx\<lparr>rx_world := w1\<rparr>)"
    "queueing sv opened s c cl os (q @ [HSET (redis_key ctx kind) key t]) w1"
    using queued_ok [OF Cons.prems(1), of "HSET (redis_key ctx kind) key t"] by auto
  have "redis_key (ctx\<lparr>rx_world := w\<rparr>) kind = redis_key ctx kind" by (simp add: redis_key_def)
  then show ?case using Cons.IH [OF w1(2)] Cons.prems(2) w1(1) e by (simp add: item_commands_def)
qed (auto simp: item_commands_def)

lemma queue_collections_ok:
  assumes "queueing sv opened s c cl os q w" and "\<forall>col\<in>set cs. \<forall>e\<in>set (snd col). sc_buffer (snd e) \<noteq> None"
  shows "\<exists>w'. queue_collections h c cs (ctx\<lparr>rx_world := w\<rparr>) = Inr (True, ctx\<lparr>rx_world := w'\<rparr>) \<and>
     queueing sv opened s c cl os (q @ collection_commands (LDRedisConfigGetPrefix (rx_config ctx)) cs) w'"
  using assms
proof (induction cs arbitrary: q w)
  case (Cons col cs)
  obtain kind items where col: "col = (kind, items)" by (cases col)
  have key: "redis_key (ctx\<lparr>rx_world := w\<rparr>) kind = redis_key ctx kind" for w by (simp add: redis_key_def)
  obtain w1 where w1: "queued h c (ctx\<lparr>rx_world := w\<rparr>) (DEL (redis_key ctx kind)) = (True, ctx\<lparr>rx_world := w1\<rparr>)"
    "queueing sv opened s c cl os (q @ [DEL (redis_key ctx kind)]) w1"
    using queued_ok [OF Cons.prems(1), of "DEL (redis_key ctx kind)"] by auto
  obtain w2 where w2: "queue_items h c kind items (ctx\<lparr>rx_world := w1\<rparr>) = Inr (True, ctx\<lparr>rx_world := w2\<rparr>)"
    "queueing sv opened s c cl os ((q @ [DEL (redis_key ctx kind)]) @ item_commands (redis_key ctx kind) items) w2"
    using queue_items_ok [OF w1(2), of items kind ctx] Cons.prems(2) by (auto simp: col)
  show ?case using Cons.IH [OF w2(2)] Cons.prems(2) w1(1) w2(1) by (simp add: col key collection_commands_def redis_key_def)
qed (auto simp: collection_commands_def)

lemma multi_ok:
  assumes "c \<in> opened w" and "cl_queue (sv_clients (sv w) c) = None"
  shows "\<exists>w'. redisCommand h (ctx\<lparr>rx_world := w\<rparr>) c MULTI = (Some (REDIS_REPLY_STATUS ''OK''), ctx\<lparr>rx_world := w'\<rparr>) \<and>
     queueing sv opened (sv w) c (sv_clients (sv w) c) (opened w) [] w'"
  using command_ok [of c "ctx\<lparr>rx_world := w\<rparr>" MULTI] assms transaction_steps(1) [of "sv_clients (sv w) c" "sv w" c]
  by (auto simp: queueing_def set_client_same)

lemma exec_ok:
  assumes "queueing sv opened s c cl os q w" and "\<not> cl_dirty cl"
  shows "\<exists>rs w'. redisCommand h (ctx\<lparr>rx_world := w\<rparr>) c EXEC = (Some (REDIS_REPLY_ARRAY rs), ctx\<lparr>rx_world := w'\<rparr>) \<and>
     opened w' = os \<and> sv_clients (sv w') c = fresh_client \<and> (\<forall>d. sv_clients s d = fresh_client \<longrightarrow> sv_clients (sv w') d = fresh_client) \<and>
     sv_db (sv w') = snd (run_commands (sv_db s) q)"
proof -
  have "sv_clients (set_client s c fresh_client) d = fresh_client" if "sv_clients s d = fresh_client" for d
    using that by (cases "d = c") simp_all
  then show ?thesis
    using command_ok [of c "ctx\<lparr>rx_world := w\<rparr>" EXEC] assms by (fastforce simp: queueing_def transaction_steps(3))
qed

lemma collections_queued:
  assumes "c \<in> opened w" and "cl_queue (sv_clients (sv w) c) = None" and "\<forall>col\<in>set cs. \<forall>e\<in>set (snd col). sc_buffer (snd e) \<noteq> None"
  shows "\<exists>w'. write_collections h cs c (ctx\<lparr>rx_world := w\<rparr>) = (case redisCommand h (ctx\<lparr>rx_world := w'\<rparr>) c EXEC of (reply, context) \<Rightarrow>
       Inr (redisCheckReply reply ARRAY_REPLY, context)) \<and>
     queueing sv opened (sv w) c (sv_clients (sv w) c) (opened w)
       (collection_commands (LDRedisConfigGetPrefix (rx_config ctx)) cs @ [SET (redis_key ctx initedKey) '''']) w'"
proof -
  let ?cmds = "collection_commands (LDRedisConfigGetPrefix (rx_config ctx)) cs" and ?set = "SET (redis_key ctx initedKey) ''''"
  let ?cl = "sv_clients (sv w) c"
  have key: "redis_key (ctx\<lparr>rx_world := w\<rparr>) initedKey = redis_key ctx initedKey" for w by (simp add: redis_key_def)
  obtain w1 where w1: "redisCommand h (ctx\<lparr>rx_world := w\<rparr>) c MULTI = (Some (REDIS_REPLY_STATUS ''OK''), ctx\<lparr>rx_world := w1\<rparr>)"
    "queueing sv opened (sv w) c ?cl (opened w) [] w1"
    using multi_ok [OF assms(1,2), of ctx] by auto
  obtain w2 where w2: "queue_collections h c cs (ctx\<lparr>rx_world := w1\<rparr>) = Inr (True, ctx\<lparr>rx_world := w2\<rparr>)"
    "queueing sv opened (sv w) c ?cl (opened w) ?cmds w2"
    using queue_collections_ok [OF w1(2) assms(3), of ctx] by auto
  obtain w3 where w3: "queued h c (ctx\<lparr>rx_world := w2\<rparr>) ?set = (True, ctx\<lparr>rx_world := w3\<rparr>)"
    "queueing sv opened (sv w) c ?cl (opened w) (?cmds @ [?set]) w3"
    using queued_ok [OF w2(2), of ?set ctx] by auto
  then show ?thesis
    using w1(1) w2(1) by (intro exI [of _ w3]) (simp add: write_collections_def redisCheckStatus_def redisCheckReply_def key)
qed

lemma write_collections_ok:
  assumes "c \<in> opened w" and "sv_clients (sv w) c = fresh_client" and "\<forall>col\<in>set cs. \<forall>e\<in>set (snd col). sc_buffer (snd e) \<noteq> None"
  shows "\<exists>w'. write_collections h cs c (ctx\<lparr>rx_world := w\<rparr>) = Inr (True, ctx\<lparr>rx_world := w'\<rparr>) \<and> opened w' = opened w \<and>
     sv_clients (sv w') c = fresh_client \<and> (\<forall>d. sv_clients (sv w) d = fresh_client \<longrightarrow> sv_clients (sv w') d = fresh_client) \<and>
     sv_db (sv w') = snd (run_commands (sv_db (sv w)) (collection_commands (LDRedisConfigGetPrefix (rx_config ctx)) cs @ [SET (redis_key ctx initedKey) '''']))"
proof -
  obtain w1 where w1: "write_collections h cs c (ctx\<lparr>rx_world := w\<rparr>) = (case redisCommand h (ctx\<lparr>rx_world := w1\<rparr>) c EXEC of (reply, context) \<Rightarrow>
       Inr (redisCheckReply reply ARRAY_REPLY, context))"
    "queueing sv opened (sv w) c fresh_client (opened w) (collection_commands (LDRedisConfigGetPrefix (rx_config ctx)) cs @ [SET (redis_key ctx initedKey) '''']) w1"
    using collections_queued [OF assms(1) _ assms(3), of ctx] assms(2) by auto
  then show ?thesis using exec_ok [OF w1(2), of ctx] by (auto simp: redisCheckReply_def)
qed

lemma init_replaces_ok:
  assumes "redis_inv sv opened ctx" and "collections_ok cs"
  shows "\<exists>ctx'. redis_storeInit h ctx cs = Inr (True, ctx') \<and> redis_inv sv opened ctx' \<and> redis_view sv ctx' = collections_view cs"
proof -
  let ?db = "sv_db (sv (rx_world ctx))" and ?p = "LDRedisConfigGetPrefix (rx_config ctx)"
  let ?cmds = "collection_commands ?p cs" and ?inited = "?p @ '':'' @ initedKey"
  have buffers: "\<forall>col\<in>set cs. \<forall>e\<in>set (snd col). sc_buffer (snd e) \<noteq> None"
    using assms(2) by (auto simp: collections_ok_def elim!: stored_okE dest!: bspec)
  define db where "db = snd (run_commands ?db (?cmds @ [SET ?inited '''']))"
  have other: "?p @ '':'' @ featureKindToString kind \<noteq> ?inited" for kind by (cases kind) (simp_all add: initedKey_def)
  have db: "is_hash (db (?p @ '':'' @ featureKindToString kind)) \<and> db_view ?p db kind key = collections_view cs kind key" for kind key
  proof -
    have same: "db (?p @ '':'' @ featureKindToString kind) = snd (run_commands ?db ?cmds) (?p @ '':'' @ featureKindToString kind)"
      using other [of kind] by (simp add: db_def run_append)
    have "map_of cs (featureKindToString kind) \<noteq> None" using assms(2) by (simp add: collections_ok_def map_of_eq_None_iff)
    then obtain items where items: "map_of cs (featureKindToString kind) = Some items" by blast
    then have "\<forall>e\<in>set items. stored_ok (fst e) (snd e)" using assms(2) by (force simp: collections_ok_def dest: map_of_SomeD)
    then have "map_option item_of_text (Option.bind (map_of items key) sc_buffer) = map_of items key"
      using stored_text [of key] by (cases "map_of items key") (auto dest!: map_of_SomeD bspec elim!: stored_okE simp: item_of_text_def)
    then show ?thesis
      using run_collections [of cs ?db ?p "featureKindToString kind"] assms(2) items same
      by (simp add: db_view_hash collections_view_def collections_ok_def)
  qed
  have "\<exists>ctx'. on_connection h ctx False (write_collections h cs) = Inr (True, ctx') \<and> redis_inv sv opened ctx' \<and> sv_db (sv (rx_world ctx')) = db \<and>
     rx_config ctx' = rx_config ctx"
  proof (rule on_connection_ok [OF assms(1)], goal_cases)
    case (1 c conns w)
    let ?ctx = "ctx\<lparr>rx_connections := conns, rx_count := of_nat (length conns + 1)\<rparr>"
    obtain w' where w': "write_collections h cs c (?ctx\<lparr>rx_world := w\<rparr>) = Inr (True, ?ctx\<lparr>rx_world := w'\<rparr>)" "opened w' = opened w"
      "sv_clients (sv w') c = fresh_client" "\<forall>d. sv_clients (sv w) d = fresh_client \<longrightarrow> sv_clients (sv w') d = fresh_client"
      "sv_db (sv w') = snd (run_commands (sv_db (sv w)) (collection_commands (LDRedisConfigGetPrefix (rx_config ?ctx)) cs @ [SET (redis_key ?ctx initedKey) '''']))"
      using write_collections_ok [OF 1(1,3) buffers, of ?ctx] by blast
    have "sv_db (sv w') = db" using w'(5) 1(2) by (simp add: db_def redis_key_def)
    then show ?case using w'(1-4) db by (intro exI [of _ w']) (simp add: db_ok_hash)
  qed
  moreover have "db_view ?p db = collections_view cs" using db by (intro ext) simp
  ultimately show ?thesis by (auto simp: redis_storeInit_def redis_view_def)
qed

text \<open>The first two commands of a round read what is stored and watch the kind.\<close>

lemma watch_read:
  assumes "c \<in> opened w" and "cl_queue (sv_clients (sv w) c) = None" and "is_hash (sv_db (sv w) (redis_key ctx kind))"
  shows "\<exists>w1. redisCommand h (ctx\<lparr>rx_world := w\<rparr>) c (WATCH (redis_key ctx kind)) = (Some (REDIS_REPLY_STATUS ''OK''), ctx\<lparr>rx_world := w1\<rparr>) \<and>
     (\<exists>w2. redisCommand h (ctx\<lparr>rx_world := w1\<rparr>) c (HGET (redis_key ctx kind) key) =
        (Some (case map_of (hash_of (sv_db (sv w) (redis_key ctx kind))) key of None \<Rightarrow> REDIS_REPLY_NIL | Some t \<Rightarrow> REDIS_REPLY_STRING t), ctx\<lparr>rx_world := w2\<rparr>) \<and>
        opened w2 = opened w \<and>
        sv w2 = set_client (sv w) c ((sv_clients (sv w) c)\<lparr>cl_watch := insert (redis_key ctx kind) (cl_watch (sv_clients (sv w) c))\<rparr>))"
proof -
  let ?k = "redis_key ctx kind" and ?cl = "(sv_clients (sv w) c)\<lparr>cl_watch := insert (redis_key ctx kind) (cl_watch (sv_clients (sv w) c))\<rparr>"
  obtain w1 where w1: "redisCommand h (ctx\<lparr>rx_world := w\<rparr>) c (WATCH ?k) = (Some (REDIS_REPLY_STATUS ''OK''), ctx\<lparr>rx_world := w1\<rparr>)"
    "opened w1 = opened w" "sv w1 = set_client (sv w) c ?cl"
    using command_ok [of c "ctx\<lparr>rx_world := w\<rparr>" "WATCH ?k"] assms(1,2) by (auto simp: server_step_def Let_def)
  have "fst (data_command (sv_db (sv w)) (HGET ?k key)) =
      (case map_of (hash_of (sv_db (sv w) ?k)) key of None \<Rightarrow> REDIS_REPLY_NIL | Some t \<Rightarrow> REDIS_REPLY_STRING t)"
    using assms(3) by (auto simp: is_hash_def split: option.split redis_value.split)
  then obtain w2 where "redisCommand h (ctx\<lparr>rx_world := w1\<rparr>) c (HGET ?k key) =
      (Some (case map_of (hash_of (sv_db (sv w) ?k)) key of None \<Rightarrow> REDIS_REPLY_NIL | Some t \<Rightarrow> REDIS_REPLY_STRING t), ctx\<lparr>rx_world := w2\<rparr>)"
    "opened w2 = opened w" "sv w2 = set_client (sv w) c ?cl"
    using command_ok [of c "ctx\<lparr>rx_world := w1\<rparr>" "HGET ?k key"] w1(2,3) assms(1,2) read_step(1) [of "sv w1" c ?k key] by auto
  then show ?thesis using w1(1) by blast
qed

text \<open>The item is written when nothing, a deleted item or an older one is stored.\<close>

lemma update_writes:
  assumes "c \<in> opened w" and "sv_clients (sv w) c = fresh_client" and "is_hash (sv_db (sv w) (redis_key ctx kind))"
    and "\<And>t item. map_of (hash_of (sv_db (sv w) (redis_key ctx kind))) key = Some t \<Longrightarrow> LDJSONDeserialize (Some t) = Some item \<Longrightarrow>
      LDi_isDataDeleted item \<or> item_version item < sc_version feature"
    and "sc_buffer feature = Some new"
  shows "\<exists>w'. upsert_on h kind feature key (\<lambda>w. w) c (ctx\<lparr>rx_world := w\<rparr>) = Inr (True, ctx\<lparr>rx_world := w'\<rparr>) \<and> opened w' = opened w \<and>
     sv_clients (sv w') c = fresh_client \<and> (\<forall>d. sv_clients (sv w) d = fresh_client \<longrightarrow> sv_clients (sv w') d = fresh_client) \<and>
     sv_db (sv w') = snd (data_command (sv_db (sv w)) (HSET (redis_key ctx kind) key new))"
proof -
  let ?k = "redis_key ctx kind" and ?cl = "fresh_client\<lparr>cl_watch := {redis_key ctx kind}\<rparr>"
  let ?m = "hash_of (sv_db (sv w) ?k)"
  have key: "redis_key (ctx\<lparr>rx_world := w\<rparr>) kind = ?k" for w by (simp add: redis_key_def)
  obtain w1 w2 where w1: "redisCommand h (ctx\<lparr>rx_world := w\<rparr>) c (WATCH ?k) = (Some (REDIS_REPLY_STATUS ''OK''), ctx\<lparr>rx_world := w1\<rparr>)"
    and w2: "redisCommand h (ctx\<lparr>rx_world := w1\<rparr>) c (HGET ?k key) =
      (Some (case map_of ?m key of None \<Rightarrow> REDIS_REPLY_NIL | Some t \<Rightarrow> REDIS_REPLY_STRING t), ctx\<lparr>rx_world := w2\<rparr>)"
      "opened w2 = opened w" "sv w2 = set_client (sv w) c ?cl"
    using watch_read [OF assms(1) _ assms(3), of key] assms(2) by auto
  have cl: "sv_clients (sv w2) c = ?cl" "set_client (sv w2) c x = set_client (sv w) c x" for x by (simp_all add: w2(3))
  obtain w3 where w3: "redisCommand h (ctx\<lparr>rx_world := w2\<rparr>) c MULTI = (Some (REDIS_REPLY_STATUS ''OK''), ctx\<lparr>rx_world := w3\<rparr>)"
    "queueing sv opened (sv w2) c ?cl (opened w) [] w3"
    using multi_ok [of c w2 ctx] assms(1) w2(2) by (auto simp: cl(1))
  obtain w4 where w4: "queued h c (ctx\<lparr>rx_world := w3\<rparr>) (HSET ?k key new) = (True, ctx\<lparr>rx_world := w4\<rparr>)"
    "queueing sv opened (sv w2) c ?cl (opened w) [HSET ?k key new] w4"
    using queued_ok [OF w3(2), of "HSET ?k key new" ctx] by auto
  obtain rs w5 where w5: "redisCommand h (ctx\<lparr>rx_world := w4\<rparr>) c EXEC = (Some (REDIS_REPLY_ARRAY rs), ctx\<lparr>rx_world := w5\<rparr>)"
    "opened w5 = opened w" "sv_clients (sv w5) c = fresh_client" "\<forall>d. sv_clients (sv w2) d = fresh_client \<longrightarrow> sv_clients (sv w5) d = fresh_client"
    "sv_db (sv w5) = snd (run_commands (sv_db (sv w2)) [HSET ?k key new])"
    using exec_ok [OF w4(2), of ctx] by auto
  have written: "write_item h c kind key new (ctx\<lparr>rx_world := w2\<rparr>) = (Finished True, ctx\<lparr>rx_world := w5\<rparr>)"
    using w3(1) w4(1) w5(1) by (simp add: write_item_def redisCheckStatus_def redisCheckReply_def key)
  have "\<exists>e. existing_item (case map_of ?m key of None \<Rightarrow> REDIS_REPLY_NIL | Some t \<Rightarrow> REDIS_REPLY_STRING t) = Some e \<and> up_to_date e feature = Inr False"
  proof (cases "map_of ?m key")
    case (Some t)
    then obtain item where item: "LDJSONDeserialize (Some t) = Some item" "valid_item item"
      using assms(3) by (auto simp: is_hash_def hash_of_def split: option.split_asm redis_value.split_asm elim!: hash_okD)
    then show ?thesis using Some assms(4) [OF Some item(1)] by (auto simp: existing_item_def up_to_date_def valid_item_version)
  qed (simp add: existing_item_def up_to_date_def)
  then have "upsert_round h c kind feature key (\<lambda>w. w) (ctx\<lparr>rx_world := w\<rparr>) = Inr (Finished True, ctx\<lparr>rx_world := w5\<rparr>)"
    using w1 w2(1) written assms(5) by (auto simp: upsert_round_def redisCheckStatus_def redisCheckReply_def key serialized_item_def)
  then have "upsert_on h kind feature key (\<lambda>w. w) c (ctx\<lparr>rx_world := w\<rparr>) = Inr (True, ctx\<lparr>rx_world := w5\<rparr>)"
    by (simp add: upsert_on_def upsert_loop.simps)
  moreover have "sv_clients (sv w2) d = fresh_client" if "sv_clients (sv w) d = fresh_client" "d \<noteq> c" for d using that by (simp add: w2(3))
  moreover have "sv_db (sv w5) = snd (data_command (sv_db (sv w)) (HSET ?k key new))"
    using w5(5) w2(3) by (simp add: run_Cons del: data_command.simps run_commands.simps(2))
  ultimately show ?thesis using w5(2-4) by blast
qed

lemma upsert_writes:
  assumes "redis_inv sv opened ctx" and "stored_ok key (item_of_text new)" and "sc_buffer feature = Some new"
    and "\<And>i item. redis_view sv ctx kind key = Some i \<Longrightarrow> stored_item (Some i) = Some item \<Longrightarrow>
      LDi_isDataDeleted item \<or> item_version item < sc_version feature"
  shows "\<exists>ctx'. redis_storeUpsert h ctx (featureKindToString kind) feature key = Inr (True, ctx') \<and> redis_inv sv opened ctx' \<and>
     redis_view sv ctx' = backend_put (redis_view sv ctx) kind key (item_of_text new)"
proof -
  let ?db = "sv_db (sv (rx_world ctx))" and ?p = "LDRedisConfigGetPrefix (rx_config ctx)"
  let ?k = "?p @ '':'' @ featureKindToString kind"
  have ok: "is_hash (?db (?p @ '':'' @ featureKindToString kind'))" for kind' using assms(1) by (simp add: redis_inv_def db_ok_hash)
  obtain m where m: "snd (data_command ?db (HSET ?k key new)) = ?db(?k \<mapsto> RHash m)" "hash_ok m" "map_of m = (map_of (hash_of (?db ?k)))(key \<mapsto> new)"
    using hset_hash [of ?db ?k, OF ok assms(2)] by blast
  let ?db' = "?db(?k \<mapsto> RHash m)"
  have "is_hash (?db' (?p @ '':'' @ featureKindToString kind'))" for kind' using ok m(2) by simp
  then have db': "db_ok ?p ?db'" by (simp add: db_ok_hash)
  have old: "LDi_isDataDeleted item \<or> item_version item < sc_version feature"
    if "map_of (hash_of (?db ?k)) key = Some t" "LDJSONDeserialize (Some t) = Some item" for t item
    using assms(4) [of "item_of_text t" item] that by (simp add: redis_view_def db_view_hash item_of_text_def)
  have "\<exists>ctx'. on_connection h ctx False (upsert_on h (featureKindToString kind) feature key (\<lambda>w. w)) = Inr (True, ctx') \<and>
     redis_inv sv opened ctx' \<and> sv_db (sv (rx_world ctx')) = ?db' \<and> rx_config ctx' = rx_config ctx"
  proof (rule on_connection_ok [OF assms(1)], goal_cases)
    case (1 c conns w)
    let ?ctx = "ctx\<lparr>rx_connections := conns, rx_count := of_nat (length conns + 1)\<rparr>"
    have k: "redis_key ?ctx (featureKindToString kind) = ?k" by (simp add: redis_key_def)
    obtain w' where w': "upsert_on h (featureKindToString kind) feature key (\<lambda>w. w) c (?ctx\<lparr>rx_world := w\<rparr>) = Inr (True, ?ctx\<lparr>rx_world := w'\<rparr>)"
      "opened w' = opened w" "sv_clients (sv w') c = fresh_client" "\<forall>d. sv_clients (sv w) d = fresh_client \<longrightarrow> sv_clients (sv w') d = fresh_client"
      "sv_db (sv w') = snd (data_command (sv_db (sv w)) (HSET ?k key new))"
      using update_writes [OF 1(1,3), of ?ctx "featureKindToString kind" key feature new] ok old assms(3) unfolding k 1(2) by blast
    then show ?case using 1(2) m(1) db' by (intro exI [of _ w']) (simp del: data_command.simps)
  qed
  moreover have "db_view ?p ?db' = backend_put (redis_view sv ctx) kind key (item_of_text new)"
    using m(3) by (auto simp: db_view_hash redis_view_def backend_put_def fun_eq_iff)
  ultimately show ?thesis by (auto simp: redis_storeUpsert_def storeUpsertInternal_def redis_view_def)
qed

lemma meets_contract: "persistent_store (LDStoreInterfaceRedisNew h) (redis_inv sv opened) (redis_view sv)"
proof (unfold_locales, goal_cases)
  case (1 b kind key i)
  then have "is_hash (sv_db (sv (rx_world b)) (LDRedisConfigGetPrefix (rx_config b) @ '':'' @ featureKindToString kind))"
    by (simp add: redis_inv_def db_ok_hash)
  then show ?case
    using 1(2) by (auto simp: redis_view_def db_view_hash is_hash_def hash_ok_def hash_of_def split: option.split_asm redis_value.split_asm dest!: map_of_SomeD)
next
  case (2 b kind key)
  then show ?case using get_stored_ok by (auto simp: LDStoreInterfaceRedisNew_def)
next
  case (3 b kind)
  then show ?case using all_stored_ok [of b kind] by (auto simp: LDStoreInterfaceRedisNew_def)
next
  case (4 b key item kind)
  obtain t where t: "item = item_of_text t" using stored_ok_text [OF 4(2)] by blast
  have "LDi_isDataDeleted j \<or> item_version j < sc_version item" if "redis_view sv b kind key = Some i" "stored_item (Some i) = Some j" for i j
    using 4(3) that by (auto simp: stored_or_absent_def redis_view_def db_view_hash item_of_text_def)
  then show ?case using upsert_writes [OF 4(1), of key t item kind] 4(2) by (auto simp: LDStoreInterfaceRedisNew_def t item_of_text_def)
next
  case (5 b cs)
  then show ?case using init_replaces_ok by (auto simp: LDStoreInterfaceRedisNew_def)
qed

text \<open>An item that is not newer is refused, and the connection goes back to the pool watching its kind.\<close>

lemma update_refuses:
  assumes "c \<in> opened w" and "cl_queue (sv_clients (sv w) c) = None" and "is_hash (sv_db (sv w) (redis_key ctx kind))"
    and "map_of (hash_of (sv_db (sv w) (redis_key ctx kind))) key = Some t" and "LDJSONDeserialize (Some t) = Some item"
    and "\<not> LDi_isDataDeleted item" and "sc_version feature \<le> item_version item"
  shows "\<exists>w'. upsert_on h kind feature key hook c (ctx\<lparr>rx_world := w\<rparr>) = Inr (True, ctx\<lparr>rx_world := w'\<rparr>) \<and> opened w' = opened w \<and>
     sv w' = set_client (sv w) c ((sv_clients (sv w) c)\<lparr>cl_watch := insert (redis_key ctx kind) (cl_watch (sv_clients (sv w) c))\<rparr>)"
proof -
  let ?k = "redis_key ctx kind" and ?m = "hash_of (sv_db (sv w) (redis_key ctx kind))"
  have key: "redis_key (ctx\<lparr>rx_world := w\<rparr>) kind = ?k" for w by (simp add: redis_key_def)
  have valid: "valid_item item"
    using assms(3-5) by (auto simp: is_hash_def hash_of_def split: option.split_asm redis_value.split_asm elim!: hash_okD)
  obtain w1 w2 where w: "redisCommand h (ctx\<lparr>rx_world := w\<rparr>) c (WATCH ?k) = (Some (REDIS_REPLY_STATUS ''OK''), ctx\<lparr>rx_world := w1\<rparr>)"
    "redisCommand h (ctx\<lparr>rx_world := w1\<rparr>) c (HGET ?k key) = (Some (REDIS_REPLY_STRING t), ctx\<lparr>rx_world := w2\<rparr>)" "opened w2 = opened w"
    "sv w2 = set_client (sv w) c ((sv_clients (sv w) c)\<lparr>cl_watch := insert (redis_key ctx kind) (cl_watch (sv_clients (sv w) c))\<rparr>)"
    using watch_read [OF assms(1-3), of key] assms(4) by auto
  then have "upsert_round h c kind feature key hook (ctx\<lparr>rx_world := w\<rparr>) = Inr (Finished True, ctx\<lparr>rx_world := w2\<rparr>)"
    using assms(5-7) valid by (simp add: upsert_round_def redisCheckStatus_def redisCheckReply_def key existing_item_def up_to_date_def valid_item_version)
  then show ?thesis using w(3,4) by (auto simp: upsert_on_def upsert_loop.simps)
qed

lemma exec_dirty:
  assumes "queueing sv opened s c cl os q w" and "cl_dirty cl"
  shows "\<exists>w'. redisCommand h (ctx\<lparr>rx_world := w\<rparr>) c EXEC = (Some REDIS_REPLY_NIL, ctx\<lparr>rx_world := w'\<rparr>) \<and> opened w' = os \<and> sv_db (sv w') = sv_db s"
  using command_ok [of c "ctx\<lparr>rx_world := w\<rparr>" EXEC] assms by (auto simp: queueing_def server_step_def Let_def)

lemma init_on_dirty:
  assumes "rx_connections ctx = c # conns" and "c \<in> opened (rx_world ctx)" and "cl_queue (sv_clients (sv (rx_world ctx)) c) = None"
    and "cl_dirty (sv_clients (sv (rx_world ctx)) c)" and "\<forall>col\<in>set cs. \<forall>e\<in>set (snd col). sc_buffer (snd e) \<noteq> None"
  shows "\<exists>ctx'. redis_storeInit h ctx cs = Inr (False, ctx') \<and> sv_db (sv (rx_world ctx')) = sv_db (sv (rx_world ctx))"
proof -
  let ?ctx = "ctx\<lparr>rx_connections := conns\<rparr>"
  obtain w1 q where w1: "write_collections h cs c (?ctx\<lparr>rx_world := rx_world ctx\<rparr>) = (case redisCommand h (?ctx\<lparr>rx_world := w1\<rparr>) c EXEC of (reply, context) \<Rightarrow>
       Inr (redisCheckReply reply ARRAY_REPLY, context))"
    "queueing sv opened (sv (rx_world ctx)) c (sv_clients (sv (rx_world ctx)) c) (opened (rx_world ctx)) q w1"
    using collections_queued [OF assms(2,3,5), of ?ctx] by blast
  obtain w2 where w2: "redisCommand h (?ctx\<lparr>rx_world := w1\<rparr>) c EXEC = (Some REDIS_REPLY_NIL, ?ctx\<lparr>rx_world := w2\<rparr>)"
    "opened w2 = opened (rx_world ctx)" "sv_db (sv w2) = sv_db (sv (rx_world ctx))"
    using exec_dirty [OF w1(2) assms(4), of ?ctx] by blast
  have "write_collections h cs c ?ctx = Inr (False, ?ctx\<lparr>rx_world := w2\<rparr>)" using w1(1) w2(1) by (simp add: redisCheckReply_def)
  then show ?thesis
    using assms(1,2) w2(2,3) no_error [of c w2]
    by (simp add: redis_storeInit_def on_connection_def borrowConnection_def pool_take_def returnConnection_def)
qed

end

sublocale redis_server \<subseteq> redis: persistent_store "LDStoreInterfaceRedisNew h" "redis_inv sv opened" "redis_view sv"
  by (rule meets_contract)

lemma fresh_redis_inv:
  assumes "db_ok (LDRedisConfigGetPrefix config) (sv_db (sv w))" and "rc_poolSize config \<noteq> 0"
  shows "redis_inv sv opened (redis_context config w)"
  using assms by (simp add: redis_inv_def redis_context_def)

section \<open>The store as its clients see it\<close>


text \<open>C40: a deleted item comes back: an update that is older than the deletion replaces it, because the
  version of a deleted item is not compared.\<close>

theorem deleted_item_returns:
  assumes "redis_server h sv opened" and "redis_inv sv opened ctx" and "redis_view sv ctx kind (item_key item) = Some (stored_form old)"
    and "storable old" and "LDi_isDataDeleted old" and "storable item" and "item_version item < item_version old"
  shows "\<exists>ctx' ctx''. redis_storeUpsert h ctx (featureKindToString kind) (stored_form item) (item_key item) = Inr (True, ctx') \<and>
     redis_storeGet h ctx' (featureKindToString kind) (item_key item) = Inr (True, stored_form item, ctx'')"
proof -
  obtain t where t: "LDJSONSerialize (Some item) = Some t" "LDJSONDeserialize (Some t) = Some item" "valid_item item"
    using assms(6) by (rule storableE)
  then have form: "stored_form item = item_of_text t" by (simp add: stored_form_def item_of_text_def)
  have "stored_item (Some (stored_form old)) = Some old" using stored_form_ok [OF assms(4)] by simp
  then have "LDi_isDataDeleted j \<or> item_version j < sc_version (stored_form item)"
    if "redis_view sv ctx kind (item_key item) = Some i" "stored_item (Some i) = Some j" for i j
    using that assms(3,5) by simp
  then obtain ctx' where "redis_storeUpsert h ctx (featureKindToString kind) (stored_form item) (item_key item) = Inr (True, ctx')"
    "redis_inv sv opened ctx'" "redis_view sv ctx' = backend_put (redis_view sv ctx) kind (item_key item) (item_of_text t)"
    using redis_server.upsert_writes [OF assms(1,2), of "item_key item" t "stored_form item" kind] stored_form_ok [OF assms(6)]
    unfolding form by (auto simp: item_of_text_def)
  then show ?thesis
    using redis_server.get_stored_ok [OF assms(1), of ctx' kind "item_key item"] by (auto simp: form backend_put_def stored_or_absent_def)
qed

text \<open>An update refused as not newer breaks a later initialisation: its connection goes back to the pool
  still watching the kind; when another client then writes that kind, the next initialisation, which
  uses the same connection, is refused by the server and fails although nothing disturbed it.\<close>

theorem refused_update_fails_next_init:
  assumes "redis_server h sv opened" and "redis_inv sv opened ctx" and "rx_connections ctx = c # conns"
    and "redis_view sv ctx kind key = Some (stored_form old)" and "storable old" and "\<not> LDi_isDataDeleted old"
    and "sc_version feature \<le> item_version old" and "collections_ok cs"
  shows "\<exists>ctx1. redis_storeUpsert h ctx (featureKindToString kind) feature key = Inr (True, ctx1) \<and>
     (\<forall>d field v w2. d \<noteq> c \<longrightarrow> cl_queue (sv_clients (sv (rx_world ctx)) d) = None \<longrightarrow> opened w2 = opened (rx_world ctx1) \<longrightarrow>
        sv w2 = snd (server_step (sv (rx_world ctx1)) d (HSET (redis_key ctx1 (featureKindToString kind)) field v)) \<longrightarrow>
        (\<exists>ctx2. redis_storeInit h (ctx1\<lparr>rx_world := w2\<rparr>) cs = Inr (False, ctx2) \<and> sv_db (sv (rx_world ctx2)) = sv_db (sv w2)))"
proof -
  let ?w = "rx_world ctx" and ?ks = "featureKindToString kind" and ?ctx = "ctx\<lparr>rx_connections := conns\<rparr>"
  let ?k = "redis_key ctx ?ks"
  have k: "redis_key ?ctx ?ks = ?k" "?k = LDRedisConfigGetPrefix (rx_config ctx) @ '':'' @ ?ks" by (simp_all add: redis_key_def)
  have inv: "is_hash (sv_db (sv ?w) ?k)" "c \<in> opened ?w" "sv_clients (sv ?w) c = fresh_client"
    using assms(2,3) by (simp_all add: redis_inv_def db_ok_hash k(2))
  obtain t where t: "LDJSONSerialize (Some old) = Some t" "LDJSONDeserialize (Some t) = Some old" using assms(5) by (rule storableE)
  then have "map_of (hash_of (sv_db (sv ?w) ?k)) key = Some t"
    using assms(4) by (auto simp: redis_view_def db_view_hash k(2) item_of_text_def stored_form_def)
  then obtain w1 where w1: "upsert_on h ?ks feature key (\<lambda>w. w) c (?ctx\<lparr>rx_world := ?w\<rparr>) = Inr (True, ?ctx\<lparr>rx_world := w1\<rparr>)" "opened w1 = opened ?w"
    "sv w1 = set_client (sv ?w) c (fresh_client\<lparr>cl_watch := {?k}\<rparr>)"
    using redis_server.update_refuses [OF assms(1) inv(2), of ?ctx ?ks key t old feature "\<lambda>w. w"] inv t(2) assms(6,7) unfolding k(1) by auto
  let ?ctx1 = "ctx\<lparr>rx_world := w1\<rparr>"
  have up: "redis_storeUpsert h ctx ?ks feature key = Inr (True, ?ctx1)"
    using w1(1,2) redis_server.no_error [OF assms(1), of c w1] inv(2) assms(3)
    by (simp add: redis_storeUpsert_def storeUpsertInternal_def on_connection_def borrowConnection_def pool_take_def returnConnection_def)
  have buffers: "\<forall>col\<in>set cs. \<forall>e\<in>set (snd col). sc_buffer (snd e) \<noteq> None"
    using assms(8) by (auto simp: collections_ok_def elim!: stored_okE dest!: bspec)
  have "\<exists>ctx2. redis_storeInit h (?ctx1\<lparr>rx_world := w2\<rparr>) cs = Inr (False, ctx2) \<and> sv_db (sv (rx_world ctx2)) = sv_db (sv w2)"
    if d: "d \<noteq> c" "cl_queue (sv_clients (sv ?w) d) = None" "opened w2 = opened w1" "sv w2 = snd (server_step (sv w1) d (HSET ?k field v))" for d field v w2
  proof -
    have "sv w2 = write_db (sv w1) {?k} (snd (data_command (sv_db (sv w1)) (HSET ?k field v)))"
      using d(1,2,4) by (simp add: server_step_def w1(3) split: prod.split)
    then have "sv_clients (sv w2) c = (sv_clients (sv w1) c)\<lparr>cl_dirty := True\<rparr>" by (simp add: write_db_def touch_def w1(3))
    then have "cl_dirty (sv_clients (sv w2) c)" "cl_queue (sv_clients (sv w2) c) = None" by (simp_all add: w1(3))
    then show ?thesis
      using redis_server.init_on_dirty [OF assms(1), of "?ctx1\<lparr>rx_world := w2\<rparr>" c conns cs] assms(3) inv(2) w1(2) d(3) buffers by simp
  qed
  then show ?thesis using up by (intro exI [of _ ?ctx1]) (simp add: redis_key_def)
qed

section \<open>A sample database\<close>

definition sample_world :: "LDJSON option \<Rightarrow> server \<times> nat" where
  "sample_world item = (\<lparr>sv_db = (\<lambda>k. if k = ''launchdarkly:features'' then map_option (\<lambda>j. RHash [(''a'', the (LDJSONSerialize (Some j)))]) item else None),
     sv_clients = (\<lambda>_. fresh_client)\<rparr>, 1)"

definition sample_redis :: "LDJSON option \<Rightarrow> (server \<times> nat) Context" where
  "sample_redis item = \<lparr>rx_connections = [0], rx_count = 1, rx_config = LDRedisConfigNew, rx_world = sample_world item\<rparr>"

lemma sample_prefix: "LDRedisConfigGetPrefix LDRedisConfigNew = ''launchdarkly''"
  by (simp add: LDRedisConfigGetPrefix_def LDRedisConfigNew_def defaultPrefix_def)

lemma sample_redis_ok:
  assumes "storable item" and "item_key item = ''a''"
  shows "redis_inv fst (\<lambda>w. {..<snd w}) (sample_redis (Some item))" and "redis_view fst (sample_redis (Some item)) LD_FLAG ''a'' = Some (stored_form item)"
proof -
  obtain t where t: "LDJSONSerialize (Some item) = Some t" "LDJSONDeserialize (Some t) = Some item" using assms(1) by (rule storableE)
  have form: "stored_form item = item_of_text t" by (simp add: stored_form_def item_of_text_def t)
  have "is_hash (sv_db (fst (sample_world (Some item))) (''launchdarkly'' @ '':'' @ featureKindToString kind))" for kind
    using stored_form_ok [OF assms(1)] assms(2) by (cases kind) (simp_all add: sample_world_def hash_ok_def t(1) form)
  then show "redis_inv fst (\<lambda>w. {..<snd w}) (sample_redis (Some item))"
    by (simp add: redis_inv_def sample_redis_def sample_prefix db_ok_hash) (simp add: sample_world_def LDRedisConfigNew_def)
  show "redis_view fst (sample_redis (Some item)) LD_FLAG ''a'' = Some (stored_form item)"
    by (simp add: redis_view_def sample_redis_def sample_prefix db_view_hash sample_world_def t(1) form)
qed

lemma removal_storable: "storable (removal_item ''a'' v)"
proof -
  have "unat v < 2 ^ 53" using unsigned_less [of v, where ?'a = nat] by simp
  then have "fl64 (of_nat (unat v)) = Fin (of_nat (unat v))" by (rule fl64_nat)
  then have "representable (of_nat (unat v))" unfolding representable_def .
  then show ?thesis
    by (simp add: storable_def del: of_nat_unat) (simp add: removal_item_eq uint_to_dbl_def nul_free_def CJSON_NESTING_LIMIT_def del: of_nat_unat)
qed


theorem deleted_item_returns_witness:
  "\<exists>ctx' ctx''. redis_storeUpsert spec_server (sample_redis (Some (removal_item ''a'' 9))) ''features'' (stored_form (sample_item ''a'' 3)) ''a'' = Inr (True, ctx') \<and>
     redis_storeGet spec_server ctx' ''features'' ''a'' = Inr (True, stored_form (sample_item ''a'' 3), ctx'')"
  using deleted_item_returns [OF spec.redis_server_axioms sample_redis_ok(1) [OF removal_storable], of 9 LD_FLAG "sample_item ''a'' 3" "removal_item ''a'' 9"]
    sample_redis_ok(2) [OF removal_storable, of 9] removal_storable sample_storable by simp

theorem refused_update_fails_next_init_witness:
  "\<exists>ctx1. redis_storeUpsert spec_server (sample_redis (Some (sample_item ''a'' 5))) ''features'' (stored_form (sample_item ''a'' 3)) ''a'' = Inr (True, ctx1) \<and>
     (\<exists>ctx2. redis_storeInit spec_server (ctx1\<lparr>rx_world := (snd (server_step (fst (rx_world ctx1)) 7 (HSET (redis_key ctx1 ''features'') ''b'' ''{}'')), snd (rx_world ctx1))\<rparr>)
        [(''features'', []), (''segments'', [])] = Inr (False, ctx2))"
proof -
  let ?ctx = "sample_redis (Some (sample_item ''a'' 5))"
  have "featureKindToString kind \<in> {''features'', ''segments''}" for kind by (cases kind) simp_all
  then have cs: "collections_ok [(''features'', []), (''segments'', [])]" by (simp add: collections_ok_def)
  have old: "rx_connections ?ctx = [0]" "\<not> LDi_isDataDeleted (sample_item ''a'' 5)"
    by (simp_all add: sample_redis_def sample_item_def LDi_isDataDeleted_def)
  have new: "sc_version (stored_form (sample_item ''a'' 3)) \<le> item_version (sample_item ''a'' 5)" by (simp add: stored_form_def)
  have key: "item_key (sample_item ''a'' 5) = ''a''" by simp
  obtain ctx1 where up: "redis_storeUpsert spec_server ?ctx (featureKindToString LD_FLAG) (stored_form (sample_item ''a'' 3)) ''a'' = Inr (True, ctx1)"
    and init: "\<forall>d field v w2. d \<noteq> 0 \<longrightarrow> cl_queue (sv_clients (fst (rx_world ?ctx)) d) = None \<longrightarrow> {..<snd w2} = {..<snd (rx_world ctx1)} \<longrightarrow>
      fst w2 = snd (server_step (fst (rx_world ctx1)) d (HSET (redis_key ctx1 (featureKindToString LD_FLAG)) field v)) \<longrightarrow>
      (\<exists>ctx2. redis_storeInit spec_server (ctx1\<lparr>rx_world := w2\<rparr>) [(''features'', []), (''segments'', [])] = Inr (False, ctx2) \<and>
        sv_db (fst (rx_world ctx2)) = sv_db (fst w2))"
    using refused_update_fails_next_init [OF spec.redis_server_axioms sample_redis_ok(1) [OF sample_storable key] old(1)
        sample_redis_ok(2) [OF sample_storable key] sample_storable old(2) new cs] by (elim exE conjE)
  have "cl_queue (sv_clients (fst (rx_world ?ctx)) 7) = None" by (simp add: sample_redis_def sample_world_def)
  then show ?thesis
    using up spec [OF spec [OF spec [OF spec [OF init, of 7], of "''b''"], of "''{}''"],
        of "(snd (server_step (fst (rx_world ctx1)) 7 (HSET (redis_key ctx1 ''features'') ''b'' ''{}'')), snd (rx_world ctx1))"] by auto
qed

end
