(* ===== verification/RedisRace.thy ===== *)
theory RedisRace
  imports RedisFlow
begin

text \<open>
  Updates of the Redis store while other clients write the same database, and connections may be
  lost: what the optimistic locking of \<open>storeUpsertInternal\<close> achieves.
\<close>

section \<open>A server that serves others too\<close>

text \<open>
  Before a command runs, other connections may have run any number of theirs. A command without a
  reply promises nothing; a reply means that the command ran and that the connection is intact. To
  speak about the states in between, the world carries a history of the answered commands, each with
  its connection and the state of the server it met.
\<close>

type_synonym entry = "server \<times> nat \<times> redis_command"

fun entry_after :: "entry \<Rightarrow> server" where
  "entry_after (s, c, command) = snd (server_step s c command)"

locale shared_server =
  fixes h :: "'w hiredis" and sv :: "'w \<Rightarrow> server" and opened :: "'w \<Rightarrow> nat set" and history :: "'w \<Rightarrow> entry list"
  assumes opens: "hi_connect h w host port = (Some c, w') \<Longrightarrow> \<not> hi_err h w' c \<Longrightarrow>
      c \<in> opened w' \<and> cl_queue (sv_clients (sv w') c) = None \<and> history w' = history w"
    and replies: "c \<in> opened w \<Longrightarrow> hi_command h w c command = (Some r, w') \<Longrightarrow>
      c \<in> opened w' \<and> \<not> hi_err h w' c \<and>
      (\<exists>s. others c (sv w) s \<and> server_step s c command = (r, sv w') \<and> history w' = history w @ [(s, c, command)])"

section \<open>What the others cannot do\<close>

text \<open>The part of the state that a connection can rely on while others run.\<close>

definition intact :: "nat \<Rightarrow> server \<Rightarrow> server \<Rightarrow> bool" where
  "intact c s s' \<longleftrightarrow> cl_queue (sv_clients s' c) = cl_queue (sv_clients s c) \<and> cl_watch (sv_clients s' c) = cl_watch (sv_clients s c) \<and>
     (cl_dirty (sv_clients s c) \<longrightarrow> cl_dirty (sv_clients s' c)) \<and>
     (\<forall>k\<in>cl_watch (sv_clients s c). cl_dirty (sv_clients s' c) \<or> sv_db s' k = sv_db s k)"

lemma intact_refl: "intact c s s"
  by (simp add: intact_def)

lemma intact_trans: "intact c s s' \<Longrightarrow> intact c s' s'' \<Longrightarrow> intact c s s''"
  by (auto simp: intact_def)

lemma data_command_other: "k \<notin> written_keys command \<Longrightarrow> snd (data_command db command) k = db k"
  by (cases command) (auto split: option.split redis_value.split)

lemma run_commands_other: "k \<notin> \<Union>(written_keys ` set cs) \<Longrightarrow> snd (run_commands db cs) k = db k"
  by (induction cs arbitrary: db) (simp_all add: run_Cons data_command_other del: run_commands.simps(2))

lemma intact_write:
  assumes "sv_clients s' c = sv_clients s c" and "\<And>k. k \<notin> ks \<Longrightarrow> db k = sv_db s k"
  shows "intact c s (write_db s' ks db)"
  using assms by (auto simp: intact_def write_db_def touch_def)

lemma intact_step:
  assumes "d \<noteq> c"
  shows "intact c s (snd (server_step s d command))"
proof -
  have set: "intact c s (set_client s d cl)" for cl using assms by (simp add: intact_def)
  have data: "intact c s (write_db s (written_keys command) (snd (data_command (sv_db s) command)))" for command
    by (rule intact_write) (simp_all add: data_command_other)
  have exec: "intact c s (write_db (set_client s d fresh_client) (\<Union>(written_keys ` set cs)) (snd (run_commands (sv_db s) cs)))" for cs
    by (rule intact_write) (use assms run_commands_other in simp_all)
  show ?thesis
    using set exec data [of command] intact_refl by (cases command) (auto simp: server_step_def Let_def case_prod_beta split: option.split)
qed

lemma intact_others: "others c s s' \<Longrightarrow> intact c s s'"
  unfolding others_def
  by (induction rule: rtranclp_induct) (auto intro: intact_refl intact_trans intact_step)

section \<open>One round\<close>

text \<open>What is stored leaves room for a version: nothing, a deleted item, or an older one.\<close>

definition gives_way :: "database \<Rightarrow> string \<Rightarrow> string \<Rightarrow> uint \<Rightarrow> bool" where
  "gives_way db k key version \<longleftrightarrow> (\<forall>t item v. map_of (hash_of (db k)) key = Some t \<longrightarrow> LDJSONDeserialize (Some t) = Some item \<longrightarrow>
     LDi_getDataVersion item = Inr v \<longrightarrow> LDi_isDataDeleted item \<or> v < version)"

definition as_new :: "database \<Rightarrow> string \<Rightarrow> string \<Rightarrow> uint \<Rightarrow> bool" where
  "as_new db k key version \<longleftrightarrow> (\<exists>t item v. map_of (hash_of (db k)) key = Some t \<and> LDJSONDeserialize (Some t) = Some item \<and>
     LDi_getDataVersion item = Inr v \<and> \<not> LDi_isDataDeleted item \<and> version \<le> v)"

lemma gives_way_iff: "gives_way db k key version \<longleftrightarrow> \<not> as_new db k key version"
  by (fastforce simp: gives_way_def as_new_def not_less)

text \<open>A connection that watches a key whose value has been read, and what it has queued since.\<close>

definition watching :: "nat \<Rightarrow> string \<Rightarrow> redis_value option \<Rightarrow> redis_command list option \<Rightarrow> server \<Rightarrow> bool" where
  "watching c k v q s \<longleftrightarrow> k \<in> cl_watch (sv_clients s c) \<and> cl_queue (sv_clients s c) = q \<and> (cl_dirty (sv_clients s c) \<or> sv_db s k = v)"

lemma watching_intact: "watching c k v q s \<Longrightarrow> intact c s s' \<Longrightarrow> watching c k v q s'"
  by (auto simp: watching_def intact_def)

lemma watching_multi: "watching c k v None s \<Longrightarrow> server_step s c MULTI = (r, s') \<Longrightarrow> watching c k v (Some []) s'"
  by (auto simp: watching_def server_step_def Let_def)

lemma watching_queue:
  "watching c k v (Some q) s \<Longrightarrow> server_step s c (HSET k' field x) = (r, s') \<Longrightarrow> watching c k v (Some (q @ [HSET k' field x])) s'"
  by (auto simp: watching_def server_step_def Let_def)

lemma watching_exec:
  assumes "watching c k v (Some q) s" and "server_step s c EXEC = (r, s')"
  shows "cl_queue (sv_clients s' c) = None \<and>
     (r = REDIS_REPLY_NIL \<and> sv_db s' = sv_db s \<or> sv_db s k = v \<and> sv_db s' = snd (run_commands (sv_db s) q))"
  using assms by (auto simp: watching_def server_step_def Let_def write_db_def set_client_def touch_def case_prod_beta split: if_split_asm)

lemma queued_db:
  "watching c k v None s \<Longrightarrow> server_step s c MULTI = (r, s') \<Longrightarrow> sv_db s' = sv_db s"
  "watching c k v (Some q) s \<Longrightarrow> server_step s c (HSET k' field x) = (r, s') \<Longrightarrow> sv_db s' = sv_db s"
  by (auto simp: watching_def server_step_def Let_def set_client_def)

lemma watch_step:
  "server_step s c (WATCH k) = (r, s') \<Longrightarrow> cl_queue (sv_clients s c) = None \<Longrightarrow>
   cl_queue (sv_clients s' c) = None \<and> k \<in> cl_watch (sv_clients s' c) \<and> sv_db s' = sv_db s"
  by (auto simp: server_step_def Let_def set_client_def)

text \<open>
  A command that leaves the database alone, and one that replaces, in the very state it meets, something
  that gives way by the item of the update and changes nothing else.
\<close>

definition leaves_db :: "entry \<Rightarrow> bool" where
  "leaves_db e \<longleftrightarrow> sv_db (entry_after e) = sv_db (fst e)"

definition writes_over :: "string \<Rightarrow> string \<Rightarrow> LDStoreCollectionItem \<Rightarrow> entry \<Rightarrow> bool" where
  "writes_over k key feature e \<longleftrightarrow> (\<exists>new. serialized_item feature key = Some new \<and>
     gives_way (sv_db (fst e)) k key (sc_version feature) \<and>
     sv_db (entry_after e) = snd (data_command (sv_db (fst e)) (HSET k key new)))"

text \<open>The commands an update adds to the history, up to the state it ends in, and its result.\<close>

definition careful :: "string \<Rightarrow> string \<Rightarrow> LDStoreCollectionItem \<Rightarrow> entry list \<Rightarrow> bool" where
  "careful k key feature entries \<longleftrightarrow> (\<forall>e\<in>set entries. leaves_db e \<or> writes_over k key feature e)"

definition settled :: "string \<Rightarrow> string \<Rightarrow> LDStoreCollectionItem \<Rightarrow> entry list \<Rightarrow> server \<Rightarrow> bool" where
  "settled k key feature entries s \<longleftrightarrow> entries \<noteq> [] \<and> s = entry_after (last entries) \<and>
     (as_new (sv_db s) k key (sc_version feature) \<or> writes_over k key feature (last entries))"

lemma careful_simps [simp]: "careful k key feature []"
  "careful k key feature (e # es) \<longleftrightarrow> (leaves_db e \<or> writes_over k key feature e) \<and> careful k key feature es"
  "careful k key feature (es @ es') \<longleftrightarrow> careful k key feature es \<and> careful k key feature es'"
  by (auto simp: careful_def)

lemma settled_append: "settled k key feature es s \<Longrightarrow> settled k key feature (es' @ es) s"
  by (auto simp: settled_def)

lemma leaves_step: "server_step s c command = (r, s') \<Longrightarrow> sv_db s' = sv_db s \<Longrightarrow> leaves_db (s, c, command)"
  by (simp add: leaves_db_def)

lemma existing_read:
  assumes "existing_item (fst (data_command db (HGET k key))) = Some e" and "up_to_date e feature = Inr newer"
  shows "newer \<longleftrightarrow> as_new db k key (sc_version feature)"
  using assms by (auto simp: existing_item_def up_to_date_def as_new_def hash_of_def wrong_type_def exec_bind_eq_Inr
      split: option.split_asm redis_value.split_asm if_split_asm)

lemma as_new_cong: "db k = db' k \<Longrightarrow> as_new db k key v = as_new db' k key v"
  by (simp add: as_new_def)

text \<open>A property of the result of the loop, by induction on the rounds that were lost.\<close>

lemma upsert_loop_rule:
  assumes "upsert_loop h c kind feature key hook ctx = Some r"
    and "\<And>ctx r. (case upsert_round h c kind feature key hook ctx of Inl e \<Rightarrow> r = Inl e
      | Inr rc \<Rightarrow> (case fst rc of Finished success \<Rightarrow> r = Inr (success, snd rc) | Retry \<Rightarrow> Q (snd rc) r)) \<Longrightarrow> Q ctx r"
  shows "Q ctx r"
proof -
  have "(h', c', kind', feature', key', hook') = (h, c, kind, feature, key, hook) \<longrightarrow> Q ctx' r'"
    if "upsert_loop h' c' kind' feature' key' hook' ctx' = Some r'" for h' c' kind' feature' key' hook' ctx' r'
    using that
    by (rule upsert_loop.raw_induct [rotated]) (auto intro!: assms(2) split: sum.split_asm upsert_outcome.split_asm)
  then show ?thesis using assms(1) by blast
qed

context shared_server
begin

lemma reply_step:
  assumes "c \<in> opened (rx_world ctx)" and "redisCommand h ctx c command = (Some r, ctx')"
  shows "\<exists>w s. ctx' = ctx\<lparr>rx_world := w\<rparr> \<and> c \<in> opened w \<and> \<not> hi_err h w c \<and> intact c (sv (rx_world ctx)) s \<and>
     server_step s c command = (r, sv w) \<and> history w = history (rx_world ctx) @ [(s, c, command)]"
  using assms(2) replies [OF assms(1), of command r] intact_others
  by (fastforce simp: redisCommand_def split: prod.split_asm)

text \<open>The transaction succeeds only if the value read is still stored.\<close>

lemma write_settles:
  assumes "c \<in> opened (rx_world ctx)" and "watching c (redis_key ctx kind) v None (sv (rx_world ctx))"
    and "\<And>db. db (redis_key ctx kind) = v \<Longrightarrow> gives_way db (redis_key ctx kind) key (sc_version feature)"
    and "serialized_item feature key = Some new"
    and "write_item h c kind key new ctx = (outcome, ctx')" and "outcome \<noteq> Finished False"
  shows "\<exists>w es. ctx' = ctx\<lparr>rx_world := w\<rparr> \<and> c \<in> opened w \<and> \<not> hi_err h w c \<and> cl_queue (sv_clients (sv w) c) = None \<and>
     history w = history (rx_world ctx) @ es \<and> careful (redis_key ctx kind) key feature es \<and>
     (outcome = Finished True \<longrightarrow> settled (redis_key ctx kind) key feature es (sv w))"
proof -
  let ?k = "redis_key ctx kind"
  have key: "redis_key (ctx\<lparr>rx_world := w\<rparr>) kind = ?k" for w by (simp add: redis_key_def)
  obtain r1 ctx1 where c1: "redisCommand h ctx c MULTI = (Some r1, ctx1)" "redisCheckStatus (Some r1) ''OK''"
    using assms(5,6) by (auto simp: write_item_def redisCheckStatus_def redisCheckReply_def split: prod.split_asm if_split_asm option.split_asm)
  obtain w1 s1 where w1: "ctx1 = ctx\<lparr>rx_world := w1\<rparr>" "c \<in> opened w1" "intact c (sv (rx_world ctx)) s1"
    "server_step s1 c MULTI = (r1, sv w1)" "history w1 = history (rx_world ctx) @ [(s1, c, MULTI)]"
    using reply_step [OF assms(1) c1(1)] by blast
  note b1 = watching_intact [OF assms(2) w1(3)]
  have a1: "watching c ?k v (Some []) (sv w1)" using watching_multi [OF b1 w1(4)] .
  obtain r2 ctx2 where c2: "redisCommand h ctx1 c (HSET ?k key new) = (Some r2, ctx2)" "redisCheckStatus (Some r2) ''QUEUED''"
    using assms(5,6) c1 key [of w1] unfolding w1(1)
    by (auto simp: write_item_def queued_def redisCheckStatus_def redisCheckReply_def split: prod.split_asm if_split_asm option.split_asm)
  obtain w2 s2 where w2: "ctx2 = ctx\<lparr>rx_world := w2\<rparr>" "c \<in> opened w2" "intact c (sv w1) s2"
    "server_step s2 c (HSET ?k key new) = (r2, sv w2)" "history w2 = history w1 @ [(s2, c, HSET ?k key new)]"
    using reply_step [OF _ c2(1)] w1(1,2) by auto
  note b2 = watching_intact [OF a1 w2(3)]
  have a2: "watching c ?k v (Some [HSET ?k key new]) (sv w2)" using watching_queue [OF b2 w2(4)] by simp
  obtain r3 where c3: "redisCommand h ctx2 c EXEC = (Some r3, ctx')" "outcome = Finished True \<longrightarrow> r3 \<noteq> REDIS_REPLY_NIL"
    using assms(5,6) c1 c2 key [of w1] unfolding w1(1)
    by (auto simp: write_item_def queued_def split: prod.split_asm if_split_asm option.split_asm redisReply.split_asm)
  obtain w3 s3 where w3: "ctx' = ctx\<lparr>rx_world := w3\<rparr>" "c \<in> opened w3" "\<not> hi_err h w3 c" "intact c (sv w2) s3"
    "server_step s3 c EXEC = (r3, sv w3)" "history w3 = history w2 @ [(s3, c, EXEC)]"
    using reply_step [OF _ c3(1)] w2(1,2) by auto
  have exec: "cl_queue (sv_clients (sv w3) c) = None"
    "r3 = REDIS_REPLY_NIL \<and> leaves_db (s3, c, EXEC) \<or> writes_over ?k key feature (s3, c, EXEC)"
    using watching_exec [OF watching_intact [OF a2 w3(4)] w3(5)] assms(3) [of "sv_db s3"] assms(4) w3(5)
    by (auto simp: leaves_db_def writes_over_def run_Cons simp del: run_commands.simps(2) data_command.simps)
  let ?es = "[(s1, c, MULTI), (s2, c, HSET ?k key new), (s3, c, EXEC)]"
  have "careful ?k key feature ?es"
    using exec(2) leaves_step [OF w1(4) queued_db(1) [OF b1 w1(4)]] leaves_step [OF w2(4) queued_db(2) [OF b2 w2(4)]] by auto
  moreover have "settled ?k key feature ?es (sv w3)" if "outcome = Finished True"
    using exec(2) c3(2) that w3(5) by (auto simp: settled_def)
  ultimately show ?thesis using w3(1-3,6) w2(5) w1(5) exec(1) by (intro exI [of _ w3] exI [of _ ?es]) simp
qed

lemma round_settles:
  assumes "c \<in> opened (rx_world ctx)" and "cl_queue (sv_clients (sv (rx_world ctx)) c) = None"
    and "\<And>w. c \<in> opened w \<Longrightarrow> c \<in> opened (hook w) \<and> others c (sv w) (sv (hook w)) \<and> history (hook w) = history w"
    and "upsert_round h c kind feature key hook ctx = Inr (outcome, ctx')" and "outcome \<noteq> Finished False"
  shows "\<exists>w es. ctx' = ctx\<lparr>rx_world := w\<rparr> \<and> c \<in> opened w \<and> \<not> hi_err h w c \<and> cl_queue (sv_clients (sv w) c) = None \<and>
     history w = history (rx_world ctx) @ es \<and> careful (redis_key ctx kind) key feature es \<and>
     (outcome = Finished True \<longrightarrow> settled (redis_key ctx kind) key feature es (sv w))"
proof -
  let ?k = "redis_key ctx kind"
  have key: "redis_key (ctx\<lparr>rx_world := w\<rparr>) kind = ?k" for w by (simp add: redis_key_def)
  obtain r1 ctx1 where c1: "redisCommand h ctx c (WATCH ?k) = (Some r1, ctx1)" "redisCheckStatus (Some r1) ''OK''"
    using assms(4,5) by (auto simp: upsert_round_def redisCheckStatus_def redisCheckReply_def split: prod.split_asm if_split_asm option.split_asm)
  obtain w1 s1 where w1: "ctx1 = ctx\<lparr>rx_world := w1\<rparr>" "c \<in> opened w1" "intact c (sv (rx_world ctx)) s1"
    "server_step s1 c (WATCH ?k) = (r1, sv w1)" "history w1 = history (rx_world ctx) @ [(s1, c, WATCH ?k)]"
    using reply_step [OF assms(1) c1(1)] by blast
  have a1: "cl_queue (sv_clients (sv w1) c) = None" "?k \<in> cl_watch (sv_clients (sv w1) c)" "sv_db (sv w1) = sv_db s1"
    using watch_step [OF w1(4)] w1(3) assms(2) by (simp_all add: intact_def)
  obtain r2 ctx2 e where c2: "redisCommand h ctx1 c (HGET ?k key) = (Some r2, ctx2)" "existing_item r2 = Some e"
    using assms(4,5) c1 key [of w1] unfolding w1(1) by (auto simp: upsert_round_def bind_eq_Some_conv split: prod.split_asm if_split_asm option.split_asm)
  obtain w2 s2 where w2: "ctx2 = ctx\<lparr>rx_world := w2\<rparr>" "c \<in> opened w2" "\<not> hi_err h w2 c" "intact c (sv w1) s2"
    "server_step s2 c (HGET ?k key) = (r2, sv w2)" "history w2 = history w1 @ [(s2, c, HGET ?k key)]"
    using reply_step [OF _ c2(1)] w1(1,2) by auto
  have s2: "cl_queue (sv_clients s2 c) = None" "?k \<in> cl_watch (sv_clients s2 c)" using w2(4) a1 by (auto simp: intact_def)
  then have r2: "sv w2 = s2" "r2 = fst (data_command (sv_db s2) (HGET ?k key))" using w2(5) read_step(1) [OF s2(1)] by auto
  have a2: "watching c ?k (sv_db s2 ?k) None s2" using s2 by (simp add: watching_def)
  let ?es = "[(s1, c, WATCH ?k), (s2, c, HGET ?k key)]"
  have es: "careful ?k key feature ?es" "history w2 = history (rx_world ctx) @ ?es"
    using leaves_step [OF w1(4) a1(3)] leaves_step [OF w2(5)] r2(1) w1(5) w2(6) by simp_all
  obtain newer where newer: "up_to_date e feature = Inr newer"
    using assms(4) c1 c2 key [of w1] unfolding w1(1) by (auto simp: upsert_round_def exec_bind_eq_Inr split: prod.split_asm if_split_asm option.split_asm)
  have as_new: "newer \<longleftrightarrow> as_new (sv_db s2) ?k key (sc_version feature)" using existing_read [OF _ newer] c2(2) r2(2) by simp
  have rest: "upsert_round h c kind feature key hook ctx = (if newer then Inr (Finished True, ctx2) else
      case serialized_item feature key of None \<Rightarrow> Inr (Finished False, ctx2)
      | Some serialized \<Rightarrow> Inr (write_item h c kind key serialized (ctx2\<lparr>rx_world := hook (rx_world ctx2)\<rparr>)))"
    using c1 c2 newer key [of w1] unfolding w1(1) by (simp add: upsert_round_def)
  show ?thesis
  proof (cases newer)
    case True
    then have "settled ?k key feature ?es (sv w2)" using as_new w2(5) r2(1) by (simp add: settled_def)
    then show ?thesis
      using rest assms(4) w2(1-3) r2(1) s2(1) es True by (intro exI [of _ w2] exI [of _ ?es]) simp
  next
    case False
    obtain new where new: "serialized_item feature key = Some new" "write_item h c kind key new (ctx\<lparr>rx_world := hook w2\<rparr>) = (outcome, ctx')"
      using rest assms(4,5) False w2(1) by (auto split: option.split_asm)
    have open_hook: "c \<in> opened (hook w2)" "watching c ?k (sv_db s2 ?k) None (sv (hook w2))" "history (hook w2) = history w2"
      using assms(3) [OF w2(2)] watching_intact [OF a2 intact_others] r2(1) by auto
    have way: "gives_way db ?k key (sc_version feature)" if "db ?k = sv_db s2 ?k" for db
      using as_new False as_new_cong [of db ?k "sv_db s2", OF that] by (simp add: gives_way_iff)
    obtain w es' where w: "ctx' = ctx\<lparr>rx_world := w\<rparr>" "c \<in> opened w" "\<not> hi_err h w c" "cl_queue (sv_clients (sv w) c) = None"
      "history w = history (hook w2) @ es'" "careful ?k key feature es'" "outcome = Finished True \<longrightarrow> settled ?k key feature es' (sv w)"
      using write_settles [OF _ _ _ new assms(5), of "sv_db s2 ?k"] open_hook(1,2) way by (auto simp: key)
    then show ?thesis
      using es open_hook(3) settled_append [of ?k key feature es' "sv w" ?es] by (intro exI [of _ w] exI [of _ "?es @ es'"]) simp
  qed
qed

lemma loop_settles:
  assumes "upsert_loop h c kind feature key hook ctx = Some (Inr (True, ctx'))"
    and "c \<in> opened (rx_world ctx)" and "cl_queue (sv_clients (sv (rx_world ctx)) c) = None"
    and "\<And>w. c \<in> opened w \<Longrightarrow> c \<in> opened (hook w) \<and> others c (sv w) (sv (hook w)) \<and> history (hook w) = history w"
  shows "\<exists>w es. ctx' = ctx\<lparr>rx_world := w\<rparr> \<and> \<not> hi_err h w c \<and> history w = history (rx_world ctx) @ es \<and>
     careful (redis_key ctx kind) key feature es \<and> settled (redis_key ctx kind) key feature es (sv w)"
proof -
  let ?ends = "\<lambda>ctx. \<exists>w es. ctx' = ctx\<lparr>rx_world := w\<rparr> \<and> \<not> hi_err h w c \<and> history w = history (rx_world ctx) @ es \<and>
      careful (redis_key ctx kind) key feature es \<and> settled (redis_key ctx kind) key feature es (sv w)"
  let ?Q = "\<lambda>ctx (r :: (bool \<times> 'w Context) exec). c \<in> opened (rx_world ctx) \<longrightarrow>
      cl_queue (sv_clients (sv (rx_world ctx)) c) = None \<longrightarrow> r = Inr (True, ctx') \<longrightarrow> ?ends ctx"
  have "?Q ctx (Inr (True, ctx'))"
  proof (rule upsert_loop_rule [where Q = ?Q, OF assms(1)], intro impI)
    fix ctx and r :: "(bool \<times> 'w Context) exec"
    let ?round = "upsert_round h c kind feature key hook ctx"
    assume step: "case ?round of Inl e \<Rightarrow> r = Inl e | Inr rc \<Rightarrow> (case fst rc of Finished success \<Rightarrow> r = Inr (success, snd rc)
        | Retry \<Rightarrow> ?Q (snd rc) r)"
      and c: "c \<in> opened (rx_world ctx)" "cl_queue (sv_clients (sv (rx_world ctx)) c) = None" and r: "r = Inr (True, ctx')"
    then obtain outcome ctx1 where round: "?round = Inr (outcome, ctx1)" "outcome \<noteq> Finished False"
      by (auto split: sum.split_asm upsert_outcome.split_asm)
    obtain w es where w: "ctx1 = ctx\<lparr>rx_world := w\<rparr>" "c \<in> opened w" "\<not> hi_err h w c" "cl_queue (sv_clients (sv w) c) = None"
      "history w = history (rx_world ctx) @ es" "careful (redis_key ctx kind) key feature es"
      "outcome = Finished True \<longrightarrow> settled (redis_key ctx kind) key feature es (sv w)"
      using round_settles [OF c assms(4) round] by blast
    have key: "redis_key ctx1 kind = redis_key ctx kind" by (simp add: w(1) redis_key_def)
    show "?ends ctx"
    proof (cases outcome)
      case (Finished success)
      then have "ctx' = ctx1" success using step r round by auto
      then show ?thesis using w Finished by auto
    next
      case Retry
      then have "?ends ctx1" using step r round w(1,2,4) by simp
      then obtain w' es' where w': "ctx' = ctx1\<lparr>rx_world := w'\<rparr>" "\<not> hi_err h w' c" "history w' = history w @ es'"
        "careful (redis_key ctx kind) key feature es'" "settled (redis_key ctx kind) key feature es' (sv w')"
        unfolding key by (auto simp: w(1))
      then show ?thesis
        using w(1,5,6) settled_append [OF w'(5), of es] by (intro exI [of _ w'] exI [of _ "es @ es'"]) simp
    qed
  qed
  then show ?thesis using assms(2,3) by blast
qed

end

section \<open>Updates against others\<close>

text \<open>The pool holds connections without an open transaction.\<close>

definition idle_pool :: "('w \<Rightarrow> server) \<Rightarrow> ('w \<Rightarrow> nat set) \<Rightarrow> 'w Context \<Rightarrow> bool" where
  "idle_pool sv opened ctx \<longleftrightarrow> (\<forall>c\<in>set (rx_connections ctx). c \<in> opened (rx_world ctx) \<and> cl_queue (sv_clients (sv (rx_world ctx)) c) = None)"

text \<open>C12: whatever other clients write in between, an update of the Redis store that reports success never
  replaces an item that is as new and not deleted. Every command it sent either leaves the database as
  the server had it at that very moment, or writes exactly the item over a state of the server in which
  the stored item was missing, deleted or older; and when it returns, the database it last met holds an
  item that is as new, or its last command was that write.\<close>

theorem update_never_overwrites_newer:
  assumes "shared_server h sv opened history" and "idle_pool sv opened ctx"
    and "redis_storeUpsert h ctx kind feature key = Inr (True, ctx')"
  shows "\<exists>entries. history (rx_world ctx') = history (rx_world ctx) @ entries \<and>
     (\<forall>e\<in>set entries. leaves_db e \<or> writes_over (redis_key ctx kind) key feature e) \<and>
     entries \<noteq> [] \<and> sv (rx_world ctx') = entry_after (last entries) \<and>
     (as_new (sv_db (sv (rx_world ctx'))) (redis_key ctx kind) key (sc_version feature) \<or>
      writes_over (redis_key ctx kind) key feature (last entries))"
proof -
  obtain c ctx1 ctx2 where borrow: "borrowConnection h ctx = Inr (Some c, ctx1)" and on: "upsert_on h kind feature key (\<lambda>w. w) c ctx1 = Inr (True, ctx2)"
    and ctx': "ctx' = returnConnection h ctx2 (Some c)"
    using assms(3) by (auto simp: redis_storeUpsert_def storeUpsertInternal_def on_connection_def exec_bind_eq_Inr split: option.split_asm)
  have c: "c \<in> opened (rx_world ctx1)" "cl_queue (sv_clients (sv (rx_world ctx1)) c) = None" "rx_config ctx1 = rx_config ctx"
    "history (rx_world ctx1) = history (rx_world ctx)"
    using borrow assms(2) shared_server.opens [OF assms(1)]
    by (auto simp: borrowConnection_def pool_take_def pool_reserve_def pool_connect_def idle_pool_def
        split: list.split_asm option.split_asm prod.split_asm if_split_asm)
  have "\<exists>w es. ctx2 = ctx1\<lparr>rx_world := w\<rparr> \<and> \<not> hi_err h w c \<and> history w = history (rx_world ctx1) @ es \<and>
      careful (redis_key ctx1 kind) key feature es \<and> settled (redis_key ctx1 kind) key feature es (sv w)"
    by (rule shared_server.loop_settles [OF assms(1) _ c(1,2)]) (use on in \<open>auto simp: upsert_on_def others_def split: option.split_asm\<close>)
  then obtain es where "history (rx_world ctx') = history (rx_world ctx) @ es" "careful (redis_key ctx1 kind) key feature es"
    "settled (redis_key ctx1 kind) key feature es (sv (rx_world ctx'))"
    by (auto simp: ctx' returnConnection_def c(4))
  moreover have "redis_key ctx1 kind = redis_key ctx kind" using c(3) by (simp add: redis_key_def)
  ultimately show ?thesis by (auto simp: careful_def settled_def)
qed

section \<open>A server with a rival\<close>

text \<open>
  Connection 0 is a rival: before each command of the others it runs the next batch of its own. The
  world is the state of the server, the number of connections opened, the history and the batches.
\<close>

type_synonym busy_world = "server \<times> nat \<times> entry list \<times> redis_command list list"

fun rival :: "redis_command list list \<Rightarrow> server \<Rightarrow> server" where
  "rival [] s = s"
| "rival (batch # batches) s = fold (\<lambda>command s. snd (server_step s 0 command)) batch s"

definition busy_server :: "busy_world hiredis" where
  "busy_server = \<lparr>hi_connect = (\<lambda>(s, n, hist, batches) host port.
       (Some (Suc n), (set_client s (Suc n) fresh_client, Suc n, hist, batches))),
     hi_err = (\<lambda>w c. False),
     hi_command = (\<lambda>(s, n, hist, batches) c command. let s = rival batches s in
       (Some (fst (server_step s c command)), (snd (server_step s c command), n, hist @ [(s, c, command)], tl batches))),
     hi_free = (\<lambda>w c. w)\<rparr>"

definition busy_opened :: "busy_world \<Rightarrow> nat set" where
  "busy_opened w = {1..fst (snd w)}"

definition busy_history :: "busy_world \<Rightarrow> entry list" where
  "busy_history w = fst (snd (snd w))"

lemma rival_others: "c \<noteq> 0 \<Longrightarrow> others c s (rival batches s)"
proof (cases batches)
  case (Cons batch rest)
  assume c: "c \<noteq> 0"
  have "others c s (fold (\<lambda>command s. snd (server_step s 0 command)) batch s)"
  proof (induction batch arbitrary: s)
    case (Cons command batch)
    have "(\<lambda>s s'. \<exists>d command. d \<noteq> c \<and> s' = snd (server_step s d command)) s (snd (server_step s 0 command))" using c by auto
    then show ?case using Cons [of "snd (server_step s 0 command)"] unfolding others_def by (simp add: converse_rtranclp_into_rtranclp)
  qed (simp add: others_def)
  then show ?thesis using Cons by simp
qed (simp add: others_def)

interpretation busy: shared_server busy_server fst busy_opened busy_history
proof (unfold_locales, goal_cases)
  case (1 w host port c w')
  then show ?case by (auto simp: busy_server_def busy_opened_def busy_history_def fresh_client_def set_client_def split: prod.split_asm)
next
  case (2 c w command r w')
  then have "c \<noteq> 0" by (simp add: busy_opened_def)
  then show ?case
    using 2 rival_others [of c "fst w" "snd (snd (snd w))"]
    by (cases w) (auto simp: busy_server_def busy_opened_def busy_history_def Let_def prod_eq_iff
        intro!: exI [of _ "rival (snd (snd (snd w))) (fst w)"])
qed

text \<open>The rival writes version 9 between the read and the transaction of an update to version 7.\<close>

definition race_key :: string where "race_key = ''launchdarkly:features''"

definition race_text :: "uint \<Rightarrow> string" where
  "race_text v = the (LDJSONSerialize (Some (sample_item ''a'' v)))"

definition race_context :: "busy_world Context" where
  "race_context = \<lparr>rx_connections = [1], rx_count = 1, rx_config = LDRedisConfigNew,
     rx_world = (\<lparr>sv_db = (\<lambda>_. None)(race_key \<mapsto> RHash [(''a'', race_text 5)]), sv_clients = (\<lambda>_. fresh_client)\<rparr>, 1, [],
       [[], [], [HSET race_key ''a'' (race_text 9)]])\<rparr>"

lemma race_text_read: "LDJSONDeserialize (Some (race_text v)) = Some (sample_item ''a'' v)"
  using storableE [OF sample_storable [of v]] by (metis option.sel race_text_def)

lemma race_reads:
  "existing_item (REDIS_REPLY_STRING (race_text v)) = Some (Some (sample_item ''a'' v))"
  "up_to_date (Some (sample_item ''a'' v)) feature = Inr (v \<ge> sc_version feature)"
  by (simp_all add: existing_item_def race_text_read up_to_date_def)
    (simp add: sample_item_def LDi_getDataVersion_def)

lemma race_form: "stored_form (sample_item ''a'' v) = \<lparr>sc_buffer = Some (race_text v), sc_version = v\<rparr>"
  using storableE [OF sample_storable [of v]] by (metis option.sel race_text_def sample_item_valid(3) stored_form_def)

lemmas race_steps = redisCommand_def busy_server_def server_step_def redis_key_def sample_prefix race_key_def
  fresh_client_def set_client_def write_db_def touch_def redisCheckStatus_def redisCheckReply_def queued_def
  serialized_item_def hash_put_def Let_def

lemma race_update:
  "\<exists>ctx'. redis_storeUpsert busy_server race_context ''features'' (stored_form (sample_item ''a'' 7)) ''a'' = Inr (True, ctx') \<and>
     sv_db (fst (rx_world ctx')) race_key = Some (RHash [(''a'', race_text 9)])"
proof -
  let ?round = "upsert_round busy_server 1 ''features'' \<lparr>sc_buffer = Some (race_text 7), sc_version = 7\<rparr> ''a'' (\<lambda>w. w)"
  let ?ctx = "race_context\<lparr>rx_connections := []\<rparr>"
  obtain ctx1 where lost: "?round ?ctx = Inr (Retry, ctx1)" and rest: "rx_connections ctx1 = []" "rx_config ctx1 = LDRedisConfigNew"
    "sv_db (fst (rx_world ctx1)) = (\<lambda>_. None)(race_key \<mapsto> RHash [(''a'', race_text 9)])"
    "sv_clients (fst (rx_world ctx1)) 1 = fresh_client" "snd (snd (snd (rx_world ctx1))) = []"
    by (simp add: upsert_round_def write_item_def race_context_def race_reads race_steps)
  obtain ctx2 where second: "?round ctx1 = Inr (Finished True, ctx2)" and db: "sv_db (fst (rx_world ctx2)) race_key = Some (RHash [(''a'', race_text 9)])"
    using rest by (cases ctx1; cases "rx_world ctx1"; cases "fst (rx_world ctx1)")
      (simp add: upsert_round_def write_item_def race_reads race_steps)
  have "upsert_loop busy_server 1 ''features'' \<lparr>sc_buffer = Some (race_text 7), sc_version = 7\<rparr> ''a'' (\<lambda>w. w) ?ctx = Some (Inr (True, ctx2))"
    using lost second by (simp add: upsert_loop.simps)
  moreover have "borrowConnection busy_server race_context = Inr (Some 1, ?ctx)"
    by (simp add: borrowConnection_def pool_take_def race_context_def)
  ultimately have "redis_storeUpsert busy_server race_context ''features'' (stored_form (sample_item ''a'' 7)) ''a'' =
      Inr (True, returnConnection busy_server ctx2 (Some 1))"
    by (simp add: redis_storeUpsert_def storeUpsertInternal_def on_connection_def upsert_on_def race_form)
  then show ?thesis using db by (simp add: returnConnection_def busy_server_def)
qed

theorem update_never_overwrites_newer_witness:
  "\<exists>ctx' entries. redis_storeUpsert busy_server race_context ''features'' (stored_form (sample_item ''a'' 7)) ''a'' = Inr (True, ctx') \<and>
     map_of (hash_of (sv_db (fst (rx_world ctx')) race_key)) ''a'' = Some (race_text 9) \<and>
     busy_history (rx_world ctx') = entries \<and>
     (\<forall>e\<in>set entries. leaves_db e \<or> writes_over race_key ''a'' (stored_form (sample_item ''a'' 7)) e)"
proof -
  obtain ctx' where up: "redis_storeUpsert busy_server race_context ''features'' (stored_form (sample_item ''a'' 7)) ''a'' = Inr (True, ctx')"
    and db: "sv_db (fst (rx_world ctx')) race_key = Some (RHash [(''a'', race_text 9)])"
    using race_update by blast
  have idle: "idle_pool fst busy_opened race_context"
    by (simp add: idle_pool_def race_context_def busy_opened_def fresh_client_def)
  have start: "busy_history (rx_world race_context) = []" "redis_key race_context ''features'' = race_key"
    by (simp_all add: busy_history_def race_context_def redis_key_def sample_prefix race_key_def)
  from update_never_overwrites_newer [OF busy.shared_server_axioms idle up] show ?thesis
    using up db by (auto simp: start)
qed

end
