(* ===== verification/RedisPool.thy ===== *)
theory RedisPool
  imports RedisServer
begin

text \<open>
  The pool of connections under concurrency. Threads run the steps of \<open>borrowConnection\<close> and
  \<open>returnConnection\<close> that the lock makes atomic, in any order: taking a free connection, reserving a
  place for a new one, the outcome of connecting, and giving a connection back.
\<close>

section \<open>Steps\<close>

text \<open>Besides the pool, the state has the connections threads hold and how many threads are connecting.\<close>

record 'w pool_state =
  pl_context :: "'w Context"
  pl_held :: "nat list"
  pl_connecting :: nat

text \<open>
  What hiredis promises of contexts: a new one differs from those in use, a failed attempt and a use of
  one leave the others open, and so does freeing one.
\<close>

locale connections =
  fixes h :: "'w hiredis" and opened :: "'w \<Rightarrow> nat set"
  assumes fresh_context: "hi_connect h w host port = (Some c, w') \<Longrightarrow> c \<notin> opened w \<and> opened w' = insert c (opened w)"
    and no_context: "hi_connect h w host port = (None, w') \<Longrightarrow> opened w' = opened w"
    and free_context: "opened w - {c} \<subseteq> opened (hi_free h w c)"

inductive pool_step :: "'w hiredis \<Rightarrow> ('w \<Rightarrow> nat set) \<Rightarrow> 'w pool_state \<Rightarrow> 'w pool_state \<Rightarrow> bool"
  for h :: "'w hiredis" and opened :: "'w \<Rightarrow> nat set" where
  take_free: "pool_take (pl_context s) = Some (c, ctx) \<Longrightarrow>
    pool_step h opened s (s\<lparr>pl_context := ctx, pl_held := c # pl_held s\<rparr>)"
| reserve: "pool_take (pl_context s) = None \<Longrightarrow> pool_reserve (pl_context s) = Some ctx \<Longrightarrow>
    pool_step h opened s (s\<lparr>pl_context := ctx, pl_connecting := pl_connecting s + 1\<rparr>)"
| connected: "pl_connecting s = Suc n \<Longrightarrow> pool_connect h (pl_context s) = (Some c, ctx) \<Longrightarrow>
    pool_step h opened s (s\<lparr>pl_context := ctx, pl_held := c # pl_held s, pl_connecting := n\<rparr>)"
| failed: "pl_connecting s = Suc n \<Longrightarrow> pool_connect h (pl_context s) = (None, ctx) \<Longrightarrow>
    pool_step h opened s (s\<lparr>pl_context := pool_abandon ctx, pl_connecting := n\<rparr>)"
| work: "opened (rx_world (pl_context s)) \<subseteq> opened w \<Longrightarrow>
    pool_step h opened s (s\<lparr>pl_context := (pl_context s)\<lparr>rx_world := w\<rparr>\<rparr>)"
| give_back: "c \<in> set (pl_held s) \<Longrightarrow>
    pool_step h opened s (s\<lparr>pl_context := returnConnection h (pl_context s) (Some c), pl_held := remove1 c (pl_held s)\<rparr>)"

inductive pool_reachable :: "'w hiredis \<Rightarrow> ('w \<Rightarrow> nat set) \<Rightarrow> LDRedisConfig \<Rightarrow> 'w pool_state \<Rightarrow> bool"
  for h :: "'w hiredis" and opened :: "'w \<Rightarrow> nat set" and config :: LDRedisConfig where
  pool_start: "pool_reachable h opened config \<lparr>pl_context = redis_context config w, pl_held = [], pl_connecting = 0\<rparr>"
| pool_next: "pool_reachable h opened config s \<Longrightarrow> pool_step h opened s s' \<Longrightarrow> pool_reachable h opened config s'"

section \<open>Invariant\<close>

definition pool_inv :: "('w \<Rightarrow> nat set) \<Rightarrow> LDRedisConfig \<Rightarrow> 'w pool_state \<Rightarrow> bool" where
  "pool_inv opened config s \<longleftrightarrow> (let ctx = pl_context s in
     rx_config ctx = config \<and> unat (rx_count ctx) = length (rx_connections ctx) + length (pl_held s) + pl_connecting s \<and>
     unat (rx_count ctx) \<le> unat (rc_poolSize config) \<and> distinct (rx_connections ctx @ pl_held s) \<and>
     set (rx_connections ctx @ pl_held s) \<subseteq> opened (rx_world ctx))"

lemma unat_dec: "unat x = Suc n \<Longrightarrow> unat (x - 1) = n"
  for x :: uint
  by unat_arith

context connections
begin

lemma step_keeps:
  assumes "pool_step h opened s s'" and "pool_inv opened config s"
  shows "pool_inv opened config s'"
  using assms
proof (cases rule: pool_step.cases)
  case (take_free c ctx)
  then show ?thesis using assms(2) by (auto simp: pool_inv_def pool_take_def Let_def split: list.split_asm)
next
  case (reserve ctx)
  then show ?thesis using assms(2)
    by (auto simp: pool_inv_def pool_reserve_def Let_def word_less_nat_alt unat_inc split: if_split_asm)
next
  case (connected n c ctx)
  then obtain w where "hi_connect h (rx_world (pl_context s)) (LDRedisConfigGetHost config) (rc_port config) = (Some c, w)" "ctx = (pl_context s)\<lparr>rx_world := w\<rparr>"
    using assms(2) by (auto simp: pool_inv_def pool_connect_def Let_def split: prod.split_asm option.split_asm if_split_asm)
  then show ?thesis using assms(2) connected fresh_context by (fastforce simp: pool_inv_def Let_def)
next
  case (failed n ctx)
  have "opened (rx_world (pl_context s)) \<subseteq> opened (rx_world ctx) \<and> (\<exists>w. ctx = (pl_context s)\<lparr>rx_world := w\<rparr>)"
    using failed(3) no_context fresh_context free_context
    by (fastforce simp: pool_connect_def split: prod.split_asm option.split_asm if_split_asm)
  then show ?thesis using assms(2) failed by (auto simp: pool_inv_def pool_abandon_def Let_def unat_dec)
next
  case (work w)
  then show ?thesis using assms(2) by (auto simp: pool_inv_def Let_def)
next
  case (give_back c)
  obtain n where "length (pl_held s) = Suc n" using give_back(2) by (cases "pl_held s") auto
  then show ?thesis
    using assms(2) give_back free_context [of "rx_world (pl_context s)" c]
    by (auto simp: pool_inv_def Let_def returnConnection_def length_remove1 unat_dec dest: notin_set_remove1)
qed

lemma reachable_keeps: "pool_reachable h opened config s \<Longrightarrow> pool_inv opened config s"
proof (induction rule: pool_reachable.induct)
  case (pool_start w)
  show ?case by (simp add: pool_inv_def redis_context_def)
qed (blast intro: step_keeps)

end


section \<open>A sample run\<close>

interpretation spec_contexts: connections spec_server "\<lambda>w. {..<snd w}"
  by unfold_locales (auto simp: spec_server_def split: prod.split_asm)

definition sample_pool :: "(server \<times> nat) pool_state" where
  "sample_pool = \<lparr>pl_context = \<lparr>rx_connections = [], rx_count = 1, rx_config = LDRedisConfigNew,
     rx_world = (\<lparr>sv_db = (\<lambda>_. None), sv_clients = (\<lambda>_. fresh_client)\<rparr>, 1)\<rparr>, pl_held = [0], pl_connecting = 0\<rparr>"

lemma sample_pool_reachable: "pool_reachable spec_server (\<lambda>w. {..<snd w}) LDRedisConfigNew sample_pool"
proof -
  let ?w = "(\<lparr>sv_db = (\<lambda>_. None), sv_clients = (\<lambda>_. fresh_client)\<rparr>, 0 :: nat)"
  let ?s = "\<lparr>pl_context = redis_context LDRedisConfigNew ?w, pl_held = [], pl_connecting = 0\<rparr>"
  let ?ctx = "(redis_context LDRedisConfigNew ?w)\<lparr>rx_count := 1\<rparr>"
  let ?s1 = "\<lparr>pl_context = ?ctx, pl_held = [], pl_connecting = 1\<rparr>"
  have "pool_step spec_server (\<lambda>w. {..<snd w}) ?s ?s1"
    using reserve [of ?s ?ctx spec_server "\<lambda>w. {..<snd w}"]
    by (simp add: redis_context_def pool_take_def pool_reserve_def LDRedisConfigNew_def)
  moreover have "pool_step spec_server (\<lambda>w. {..<snd w}) ?s1 sample_pool"
    using connected [of ?s1 0 spec_server 0 "pl_context sample_pool" "\<lambda>w. {..<snd w}"]
    by (simp add: redis_context_def pool_connect_def spec_server_def sample_pool_def set_client_def fun_eq_iff)
  ultimately show ?thesis by (blast intro: pool_start pool_next)
qed


end
