(* ===== verification/TestData.thy ===== *)
theory TestData
  imports Precedence
begin

text \<open>
  The test data source, \<open>src/integrations/test_data.c\<close>: flag builders, the flags they
  build, and the delivery of those flags to the stores of the clients that use the source.

  A builder and its lists of targets, users, rules and clauses are values; a copy made by
  the code is a copy of the value. Two things need addresses, because copies share them or
  because the code keeps a pointer to what it has freed. The values of a clause are a cell
  of a \<open>json_heap\<close>: copying a builder copies the address. The head of the list of targets or
  rules may be left pointing at freed elements. A C \<open>int\<close> is an \<open>int\<close>; the only arithmetic
  on one is the version, where leaving the range is a fault. The strings of keys and
  attributes belong to the caller and outlive the builder.
\<close>

section \<open>Memory\<close>

text \<open>A cell is \<open>None\<close> once it is freed; an address is a position.\<close>

type_synonym json_heap = "LDJSON option list"

definition heap_new :: "json_heap \<Rightarrow> LDJSON \<Rightarrow> nat \<times> json_heap" where
  "heap_new h j = (length h, h @ [Some j])"

definition heap_read :: "json_heap \<Rightarrow> nat \<Rightarrow> LDJSON exec" where
  "heap_read h p = (if p < length h then (case h ! p of None \<Rightarrow> Inl UseAfterFree | Some j \<Rightarrow> Inr j)
     else Inl UseAfterFree)"

definition heap_free :: "json_heap \<Rightarrow> nat \<Rightarrow> json_heap exec" where
  "heap_free h p = (if p < length h \<and> h ! p \<noteq> None then Inr (h[p := None]) else Inl DoubleFree)"

fun heap_free_all :: "json_heap \<Rightarrow> nat list \<Rightarrow> json_heap exec" where
  "heap_free_all h [] = Inr h"
| "heap_free_all h (p # ps) = exec_bind (heap_free h p) (\<lambda>h. heap_free_all h ps)"

text \<open>The head of a linked list or hash table: the list, or a pointer to freed elements.\<close>

datatype 'a chain = Live "'a list" | Freed

fun chain_list :: "'a chain \<Rightarrow> 'a list exec" where
  "chain_list (Live xs) = Inr xs"
| "chain_list Freed = Inl UseAfterFree"

section \<open>Builders\<close>

record LDFlagBuilderTarget =
  bt_variation :: int
  bt_users :: "string list"

record LDFlagRuleBuilderClause =
  bc_attribute :: string
  bc_values :: nat
  bc_negate :: bool

record LDFlagRuleBuilder =
  br_variation :: int
  br_clauses :: "LDFlagRuleBuilderClause list"

record LDFlagBuilder =
  fb_key :: string
  fb_on :: bool
  fb_fallthroughVariation :: int
  fb_offVariation :: int
  fb_variations :: "LDJSON option"
  fb_targets :: "LDFlagBuilderTarget chain"
  fb_rules :: "LDFlagRuleBuilder chain"

definition variationForBoolean :: "bool \<Rightarrow> int" where
  "variationForBoolean aBoolean = (if aBoolean then 0 else 1)"

text \<open>
  The functions that free a list take its head by value, so the caller's pointer keeps
  its value: it is \<open>NULL\<close> only if the list was empty.
\<close>

fun flagBuilderTargetsFree :: "LDFlagBuilderTarget chain \<Rightarrow> LDFlagBuilderTarget chain exec" where
  "flagBuilderTargetsFree (Live []) = Inr (Live [])"
| "flagBuilderTargetsFree (Live (t # ts)) = Inr Freed"
| "flagBuilderTargetsFree Freed = Inl UseAfterFree"

definition rule_cells :: "LDFlagRuleBuilder list \<Rightarrow> nat list" where
  "rule_cells rules = concat (map (\<lambda>r. map bc_values (br_clauses r)) rules)"

fun flagBuilderRulesFree ::
  "json_heap \<Rightarrow> LDFlagRuleBuilder chain \<Rightarrow> (json_heap \<times> LDFlagRuleBuilder chain) exec" where
  "flagBuilderRulesFree h (Live []) = Inr (h, Live [])"
| "flagBuilderRulesFree h (Live (r # rs)) = exec_bind (heap_free_all h (rule_cells (r # rs))) (\<lambda>h. Inr (h, Freed))"
| "flagBuilderRulesFree h Freed = Inl UseAfterFree"

definition clearUserTargets :: "LDFlagBuilder \<Rightarrow> LDFlagBuilder exec" where
  "clearUserTargets fb = exec_bind (flagBuilderTargetsFree (fb_targets fb)) (\<lambda>ts. Inr (fb\<lparr>fb_targets := ts\<rparr>))"

definition clearRules :: "json_heap \<Rightarrow> LDFlagBuilder \<Rightarrow> (json_heap \<times> LDFlagBuilder) exec" where
  "clearRules h fb = exec_bind (flagBuilderRulesFree h (fb_rules fb)) (\<lambda>(h, rs). Inr (h, fb\<lparr>fb_rules := rs\<rparr>))"

definition LDi_isBooleanFlag :: "LDFlagBuilder \<Rightarrow> bool" where
  "LDi_isBooleanFlag fb =
     (let variations = fb_variations fb in
      if variations = None \<or> LDJSONGetType variations \<noteq> LDArray then False
      else if LDCollectionGetSize variations \<noteq> 2 then False
      else let variation = LDArrayLookup variations 0 in
        if LDJSONGetType variation \<noteq> LDBool \<or> LDGetBool variation \<noteq> True then False
        else let variation = LDArrayLookup variations 1 in
          if LDJSONGetType variation \<noteq> LDBool \<or> LDGetBool variation \<noteq> False then False
          else True)"

definition LDFlagBuilderFree :: "json_heap \<Rightarrow> LDFlagBuilder \<Rightarrow> json_heap exec" where
  "LDFlagBuilderFree h fb =
     exec_bind (clearUserTargets fb) (\<lambda>fb. exec_bind (clearRules h fb) (\<lambda>(h, fb). Inr h))"

section \<open>Copies\<close>

definition flagBuilderTargetsDuplicate :: "LDFlagBuilderTarget list \<Rightarrow> LDFlagBuilderTarget list" where
  "flagBuilderTargetsDuplicate src =
     map (\<lambda>target. \<lparr>bt_variation = bt_variation target, bt_users = bt_users target\<rparr>) src"

text \<open>\<open>memcpy\<close> of a clause copies the pointer to its values.\<close>

definition flagBuilderRulesDuplicate :: "LDFlagRuleBuilder list \<Rightarrow> LDFlagRuleBuilder list" where
  "flagBuilderRulesDuplicate src =
     map (\<lambda>rule. \<lparr>br_variation = br_variation rule,
        br_clauses = map (\<lambda>clause. \<lparr>bc_attribute = bc_attribute clause, bc_values = bc_values clause,
           bc_negate = bc_negate clause\<rparr>) (br_clauses rule)\<rparr>) src"

definition flagBuilderDuplicate :: "LDFlagBuilder \<Rightarrow> LDFlagBuilder exec" where
  "flagBuilderDuplicate src =
     exec_bind (chain_list (fb_targets src)) (\<lambda>targets.
     exec_bind (chain_list (fb_rules src)) (\<lambda>rules.
       Inr (src\<lparr>fb_targets := Live (flagBuilderTargetsDuplicate targets),
                fb_rules := Live (flagBuilderRulesDuplicate rules)\<rparr>)))"

section \<open>Setters\<close>

text \<open>\<open>None\<close> is \<open>NULL\<close>, before and after.\<close>

definition asJSONArray :: "LDJSON option \<Rightarrow> LDJSON option" where
  "asJSONArray v = (if LDJSONGetType v = LDArray then v
     else case LDArrayPush (Some (JArray [])) v of (True, array) \<Rightarrow> array | (False, _) \<Rightarrow> None)"

definition LDFlagBuilderVariations :: "LDFlagBuilder \<Rightarrow> LDJSON option \<Rightarrow> (bool \<times> LDFlagBuilder) exec" where
  "LDFlagBuilderVariations fb variations =
     exec_bind (ld_assert (variations \<noteq> None)) (\<lambda>_.
       case asJSONArray variations of
         None \<Rightarrow> Inr (False, fb)
       | Some newVariations \<Rightarrow> Inr (True, fb\<lparr>fb_variations := Some newVariations\<rparr>))"

definition LDFlagBuilderOn :: "LDFlagBuilder \<Rightarrow> bool \<Rightarrow> LDFlagBuilder" where
  "LDFlagBuilderOn fb on = fb\<lparr>fb_on := on\<rparr>"

definition LDFlagBuilderFallthroughVariation :: "LDFlagBuilder \<Rightarrow> int \<Rightarrow> LDFlagBuilder" where
  "LDFlagBuilderFallthroughVariation fb variationIndex = fb\<lparr>fb_fallthroughVariation := variationIndex\<rparr>"

definition LDFlagBuilderOffVariation :: "LDFlagBuilder \<Rightarrow> int \<Rightarrow> LDFlagBuilder" where
  "LDFlagBuilderOffVariation fb variationIndex = fb\<lparr>fb_offVariation := variationIndex\<rparr>"

definition LDFlagBuilderBooleanFlag :: "LDFlagBuilder \<Rightarrow> (bool \<times> LDFlagBuilder) exec" where
  "LDFlagBuilderBooleanFlag fb =
     (if LDi_isBooleanFlag fb then Inr (True, fb)
      else exec_bind (LDFlagBuilderVariations fb (Some (JArray [JBool True, JBool False]))) (\<lambda>(ok, fb).
        if \<not> ok then Inr (False, fb)
        else Inr (True, LDFlagBuilderOffVariation (LDFlagBuilderFallthroughVariation fb 0) 1)))"

definition LDFlagBuilderFallthroughVariationBoolean :: "LDFlagBuilder \<Rightarrow> bool \<Rightarrow> (bool \<times> LDFlagBuilder) exec" where
  "LDFlagBuilderFallthroughVariationBoolean fb v =
     exec_bind (LDFlagBuilderBooleanFlag fb) (\<lambda>(ok, fb).
       if \<not> ok then Inr (False, fb)
       else Inr (True, LDFlagBuilderFallthroughVariation fb (variationForBoolean v)))"

definition LDFlagBuilderOffVariationBoolean :: "LDFlagBuilder \<Rightarrow> bool \<Rightarrow> (bool \<times> LDFlagBuilder) exec" where
  "LDFlagBuilderOffVariationBoolean fb v =
     exec_bind (LDFlagBuilderBooleanFlag fb) (\<lambda>(ok, fb).
       if \<not> ok then Inr (False, fb)
       else Inr (True, LDFlagBuilderOffVariation fb (variationForBoolean v)))"

definition LDFlagBuilderVariationForAllUsers ::
  "json_heap \<Rightarrow> LDFlagBuilder \<Rightarrow> int \<Rightarrow> (json_heap \<times> LDFlagBuilder) exec" where
  "LDFlagBuilderVariationForAllUsers h fb variationIndex =
     exec_bind (clearUserTargets fb) (\<lambda>fb.
     exec_bind (clearRules h fb) (\<lambda>(h, fb).
       Inr (h, LDFlagBuilderFallthroughVariation (LDFlagBuilderOn fb True) variationIndex)))"

definition LDFlagBuilderVariationForAllUsersBoolean ::
  "json_heap \<Rightarrow> LDFlagBuilder \<Rightarrow> bool \<Rightarrow> (bool \<times> json_heap \<times> LDFlagBuilder) exec" where
  "LDFlagBuilderVariationForAllUsersBoolean h fb v =
     exec_bind (LDFlagBuilderBooleanFlag fb) (\<lambda>(ok, fb).
       if \<not> ok then Inr (False, h, fb)
       else exec_bind (LDFlagBuilderVariationForAllUsers h fb (variationForBoolean v)) (\<lambda>r. Inr (True, r)))"

definition LDFlagBuilderValueForAllUsers ::
  "json_heap \<Rightarrow> LDFlagBuilder \<Rightarrow> LDJSON option \<Rightarrow> (json_heap \<times> LDFlagBuilder) exec" where
  "LDFlagBuilderValueForAllUsers h fb v =
     exec_bind (LDFlagBuilderVariations fb v) (\<lambda>(_, fb). LDFlagBuilderVariationForAllUsers h fb 0)"

section \<open>Targets\<close>

text \<open>The first user with the key in a target of another variation is unlinked.\<close>

fun detachUserFromOtherTargets ::
  "LDFlagBuilderTarget list \<Rightarrow> string \<Rightarrow> int \<Rightarrow> LDFlagBuilderTarget list" where
  "detachUserFromOtherTargets [] userKey variationIndex = []"
| "detachUserFromOtherTargets (target # targets) userKey variationIndex =
     (if bt_variation target = variationIndex then target # detachUserFromOtherTargets targets userKey variationIndex
      else if userKey \<in> set (bt_users target) then target\<lparr>bt_users := remove1 userKey (bt_users target)\<rparr> # targets
      else target # detachUserFromOtherTargets targets userKey variationIndex)"

definition find_target :: "LDFlagBuilderTarget list \<Rightarrow> int \<Rightarrow> LDFlagBuilderTarget option" where
  "find_target targets variationIndex = List.find (\<lambda>t. bt_variation t = variationIndex) (rev targets)"

definition ensure_target :: "LDFlagBuilderTarget list \<Rightarrow> int \<Rightarrow> LDFlagBuilderTarget list" where
  "ensure_target targets variationIndex = (case find_target targets variationIndex of
       None \<Rightarrow> targets @ [\<lparr>bt_variation = variationIndex, bt_users = []\<rparr>]
     | Some _ \<Rightarrow> targets)"

text \<open>The variation is the key of the table, so one target at most has it.\<close>

definition prepend_user :: "string \<Rightarrow> int \<Rightarrow> LDFlagBuilderTarget list \<Rightarrow> LDFlagBuilderTarget list" where
  "prepend_user userKey variationIndex targets =
     map (\<lambda>t. if bt_variation t = variationIndex then t\<lparr>bt_users := userKey # bt_users t\<rparr> else t) targets"

definition LDFlagBuilderVariationForUser :: "LDFlagBuilder \<Rightarrow> string \<Rightarrow> int \<Rightarrow> (bool \<times> LDFlagBuilder) exec" where
  "LDFlagBuilderVariationForUser fb userKey variationIndex =
     exec_bind (chain_list (fb_targets fb)) (\<lambda>targets.
       let targets = ensure_target targets variationIndex in
       case find_target targets variationIndex of
         None \<Rightarrow> Inl NullDeref
       | Some target \<Rightarrow>
           if userKey \<in> set (bt_users target) then Inr (True, fb\<lparr>fb_targets := Live targets\<rparr>)
           else Inr (True, fb\<lparr>fb_targets :=
             Live (prepend_user userKey variationIndex (detachUserFromOtherTargets targets userKey variationIndex))\<rparr>))"

definition LDFlagBuilderVariationForUserBoolean ::
  "LDFlagBuilder \<Rightarrow> string \<Rightarrow> bool \<Rightarrow> (bool \<times> LDFlagBuilder) exec" where
  "LDFlagBuilderVariationForUserBoolean fb userKey v =
     exec_bind (LDFlagBuilderBooleanFlag fb) (\<lambda>(ok, fb).
       if \<not> ok then Inr (False, fb)
       else LDFlagBuilderVariationForUser fb userKey (variationForBoolean v))"

section \<open>Rules\<close>

definition newFlagRuleBuilderClause ::
  "json_heap \<Rightarrow> string \<Rightarrow> LDJSON option \<Rightarrow> bool \<Rightarrow> (LDFlagRuleBuilderClause \<times> json_heap) option" where
  "newFlagRuleBuilderClause h attribute values negate = (case asJSONArray values of
       None \<Rightarrow> None
     | Some tmp \<Rightarrow> (let (p, h) = heap_new h tmp
         in Some (\<lparr>bc_attribute = attribute, bc_values = p, bc_negate = negate\<rparr>, h)))"

text \<open>Both add the new clause in front of the others.\<close>

definition LDFlagRuleBuilderAndMatch ::
  "json_heap \<Rightarrow> LDFlagRuleBuilder \<Rightarrow> string \<Rightarrow> LDJSON option \<Rightarrow> bool \<times> json_heap \<times> LDFlagRuleBuilder" where
  "LDFlagRuleBuilderAndMatch h rule attribute values =
     (case newFlagRuleBuilderClause h attribute values False of
        None \<Rightarrow> (False, h, rule)
      | Some (clause, h) \<Rightarrow> (True, h, rule\<lparr>br_clauses := clause # br_clauses rule\<rparr>))"

definition LDFlagRuleBuilderAndNotMatch ::
  "json_heap \<Rightarrow> LDFlagRuleBuilder \<Rightarrow> string \<Rightarrow> LDJSON option \<Rightarrow> bool \<times> json_heap \<times> LDFlagRuleBuilder" where
  "LDFlagRuleBuilderAndNotMatch h rule attribute values =
     (case newFlagRuleBuilderClause h attribute values True of
        None \<Rightarrow> (False, h, rule)
      | Some (clause, h) \<Rightarrow> (True, h, rule\<lparr>br_clauses := clause # br_clauses rule\<rparr>))"

definition LDFlagRuleBuilderThenReturn :: "LDFlagRuleBuilder \<Rightarrow> int \<Rightarrow> LDFlagRuleBuilder" where
  "LDFlagRuleBuilderThenReturn rule variationIndex = rule\<lparr>br_variation := variationIndex\<rparr>"

text \<open>
  A new rule goes in front of the others. The code returns a pointer to it, which stays
  valid while the builder lives: the model's handle of a rule is its distance from the end
  of the list, which later rules do not change. \<open>None\<close> is \<open>NULL\<close>.
\<close>

definition add_rule ::
  "LDFlagBuilder \<Rightarrow> bool \<times> json_heap \<times> LDFlagRuleBuilder \<Rightarrow> (nat option \<times> json_heap \<times> LDFlagBuilder) exec" where
  "add_rule fb r = (case r of
       (False, h, rule) \<Rightarrow> Inr (None, h, fb)
     | (True, h, rule) \<Rightarrow> exec_bind (chain_list (fb_rules fb)) (\<lambda>rules.
         Inr (Some (length rules), h, fb\<lparr>fb_rules := Live (rule # rules)\<rparr>)))"

definition LDFlagBuilderIfMatch ::
  "json_heap \<Rightarrow> LDFlagBuilder \<Rightarrow> string \<Rightarrow> LDJSON option \<Rightarrow> (nat option \<times> json_heap \<times> LDFlagBuilder) exec" where
  "LDFlagBuilderIfMatch h fb attribute values =
     add_rule fb (LDFlagRuleBuilderAndMatch h \<lparr>br_variation = 0, br_clauses = []\<rparr> attribute values)"

definition LDFlagBuilderIfNotMatch ::
  "json_heap \<Rightarrow> LDFlagBuilder \<Rightarrow> string \<Rightarrow> LDJSON option \<Rightarrow> (nat option \<times> json_heap \<times> LDFlagBuilder) exec" where
  "LDFlagBuilderIfNotMatch h fb attribute values =
     add_rule fb (LDFlagRuleBuilderAndNotMatch h \<lparr>br_variation = 0, br_clauses = []\<rparr> attribute values)"

text \<open>The rule behind a handle, and the builder with that rule replaced.\<close>

definition rule_at :: "LDFlagRuleBuilder list \<Rightarrow> nat \<Rightarrow> LDFlagRuleBuilder exec" where
  "rule_at rules r = (if r < length rules then Inr (rules ! (length rules - Suc r)) else Inl UseAfterFree)"

definition put_rule :: "LDFlagRuleBuilder list \<Rightarrow> nat \<Rightarrow> LDFlagRuleBuilder \<Rightarrow> LDFlagRuleBuilder list" where
  "put_rule rules r rule = rules[length rules - Suc r := rule]"

definition LDFlagRuleBuilderThenReturnBoolean :: "LDFlagBuilder \<Rightarrow> nat \<Rightarrow> bool \<Rightarrow> (bool \<times> LDFlagBuilder) exec" where
  "LDFlagRuleBuilderThenReturnBoolean fb r v =
     exec_bind (LDFlagBuilderBooleanFlag fb) (\<lambda>(ok, fb).
       if \<not> ok then Inr (False, fb)
       else exec_bind (chain_list (fb_rules fb)) (\<lambda>rules.
            exec_bind (rule_at rules r) (\<lambda>rule.
              Inr (True, fb\<lparr>fb_rules :=
                Live (put_rule rules r (LDFlagRuleBuilderThenReturn rule (variationForBoolean v)))\<rparr>))))"

section \<open>The JSON of a flag\<close>

text \<open>A C \<open>int\<close> used as a \<open>double\<close>; every value is exact.\<close>

definition int_to_dbl :: "int \<Rightarrow> dbl" where
  "int_to_dbl i = Fin (of_int i)"

definition LDi_buildUsersJSON :: "string list \<Rightarrow> LDJSON" where
  "LDi_buildUsersJSON users = JArray (map JText users)"

definition LDi_buildTargetJSON :: "LDFlagBuilderTarget \<Rightarrow> LDJSON" where
  "LDi_buildTargetJSON target =
     (let res = JObject [];
          res = set_key res ''variation'' (JNumber (int_to_dbl (bt_variation target)))
      in set_key res ''values'' (LDi_buildUsersJSON (bt_users target)))"

definition LDi_buildTargetsJSON :: "LDFlagBuilderTarget list \<Rightarrow> LDJSON" where
  "LDi_buildTargetsJSON targets = JArray (map LDi_buildTargetJSON targets)"

definition LDi_buildClauseJSON :: "json_heap \<Rightarrow> LDFlagRuleBuilderClause \<Rightarrow> LDJSON exec" where
  "LDi_buildClauseJSON h clause =
     (let res = JObject [];
          res = set_key res ''attribute'' (JText (bc_attribute clause));
          res = set_key res ''op'' (JText ''in'');
          res = set_key res ''negate'' (JBool (bc_negate clause))
      in exec_bind (heap_read h (bc_values clause)) (\<lambda>jsonValues. Inr (set_key res ''values'' jsonValues)))"

fun build_clauses :: "json_heap \<Rightarrow> LDFlagRuleBuilderClause list \<Rightarrow> LDJSON list exec" where
  "build_clauses h [] = Inr []"
| "build_clauses h (c # cs) =
     exec_bind (LDi_buildClauseJSON h c) (\<lambda>j. exec_bind (build_clauses h cs) (\<lambda>js. Inr (j # js)))"

definition LDi_buildClausesJSON :: "json_heap \<Rightarrow> LDFlagRuleBuilderClause list \<Rightarrow> LDJSON exec" where
  "LDi_buildClausesJSON h clauses = exec_bind (build_clauses h clauses) (\<lambda>js. Inr (JArray js))"

definition LDi_buildRuleJSON :: "json_heap \<Rightarrow> LDFlagRuleBuilder \<Rightarrow> string \<Rightarrow> LDJSON exec" where
  "LDi_buildRuleJSON h rule ruleId =
     (let res = JObject [];
          res = set_key res ''id'' (JText ruleId);
          res = set_key res ''variation'' (JNumber (int_to_dbl (br_variation rule)))
      in exec_bind (LDi_buildClausesJSON h (br_clauses rule)) (\<lambda>jsonClauses.
           Inr (set_key res ''clauses'' jsonClauses)))"

text \<open>
  \<open>snprintf\<close> into 16 bytes: the text \<open>rule\<close> and the digits of an \<open>int\<close>, at most ten as the
  counter does not go below 0, always fit.
\<close>

fun build_rules :: "json_heap \<Rightarrow> nat \<Rightarrow> LDFlagRuleBuilder list \<Rightarrow> LDJSON list exec" where
  "build_rules h ri [] = Inr []"
| "build_rules h ri (r # rs) =
     exec_bind (LDi_buildRuleJSON h r (''rule'' @ show_nat ri)) (\<lambda>j.
     exec_bind (build_rules h (Suc ri) rs) (\<lambda>js. Inr (j # js)))"

definition LDi_buildRulesJSON :: "json_heap \<Rightarrow> LDFlagRuleBuilder list \<Rightarrow> LDJSON exec" where
  "LDi_buildRulesJSON h rules = exec_bind (build_rules h 0 rules) (\<lambda>js. Inr (JArray js))"

text \<open>\<open>None\<close> is \<open>NULL\<close>: the variations of the builder were never set.\<close>

definition LDFlagBuilderBuild :: "json_heap \<Rightarrow> LDFlagBuilder \<Rightarrow> int \<Rightarrow> LDJSON option exec" where
  "LDFlagBuilderBuild h fb version =
     (let res = JObject [];
          res = set_key res ''key'' (JText (fb_key fb));
          res = set_key res ''salt'' (JText ''salt'');
          res = set_key res ''version'' (JNumber (int_to_dbl version));
          res = set_key res ''on'' (JBool (fb_on fb));
          res = set_key res ''offVariation'' (JNumber (int_to_dbl (fb_offVariation fb)))
      in case fb_variations fb of
           None \<Rightarrow> Inr None
         | Some variations \<Rightarrow>
             (let res = set_key res ''variations'' variations;
                  fallthrough = set_key (JObject []) ''variation'' (JNumber (int_to_dbl (fb_fallthroughVariation fb)));
                  res = set_key res ''fallthrough'' fallthrough
              in exec_bind (chain_list (fb_targets fb)) (\<lambda>targets.
                 let res = (if targets = [] then res else set_key res ''targets'' (LDi_buildTargetsJSON targets))
                 in exec_bind (chain_list (fb_rules fb)) (\<lambda>rules.
                    if rules = [] then Inr (Some res)
                    else exec_bind (LDi_buildRulesJSON h rules) (\<lambda>jsonRules.
                      Inr (Some (set_key res ''rules'' jsonRules)))))))"

section \<open>The data source\<close>

text \<open>
  An instance is what one client holds of the source; \<open>ti_id\<close> is its address. Its store is
  known once the client has started it, and the model keeps the store with the instance.
\<close>

record 's LDTestDataInstance =
  ti_id :: nat
  ti_store :: "'s LDStore option"

record 's LDTestData =
  td_flagBuilders :: "(string \<times> LDFlagBuilder) list"
  td_currentFlags :: LDJSON
  td_instances :: "'s LDTestDataInstance list"

definition LDTestDataInit :: "'s LDTestData" where
  "LDTestDataInit = \<lparr>td_flagBuilders = [], td_currentFlags = JObject [], td_instances = []\<rparr>"

fun free_builders :: "json_heap \<Rightarrow> (string \<times> LDFlagBuilder) list \<Rightarrow> json_heap exec" where
  "free_builders h [] = Inr h"
| "free_builders h ((k, fb) # fbs) = exec_bind (LDFlagBuilderFree h fb) (\<lambda>h. free_builders h fbs)"

definition LDTestDataFree :: "json_heap \<Rightarrow> 's LDTestData option \<Rightarrow> json_heap exec" where
  "LDTestDataFree h testData = (case testData of None \<Rightarrow> Inr h | Some td \<Rightarrow> free_builders h (td_flagBuilders td))"

definition LDTestDataFlag :: "'s LDTestData \<Rightarrow> string \<Rightarrow> LDFlagBuilder option exec" where
  "LDTestDataFlag td key = (case hash_find (td_flagBuilders td) key of
       Some tmp \<Rightarrow> exec_bind (flagBuilderDuplicate tmp) (\<lambda>fb. Inr (Some fb))
     | None \<Rightarrow>
         (let res = \<lparr>fb_key = key, fb_on = False, fb_fallthroughVariation = 0, fb_offVariation = 0,
                     fb_variations = None, fb_targets = Live [], fb_rules = Live []\<rparr>;
              res = LDFlagBuilderOn res True
          in exec_bind (LDFlagBuilderBooleanFlag res) (\<lambda>(ok, res). Inr (if ok then Some res else None))))"

definition LDi_getPreviousFlagVersion :: "'s LDTestData \<Rightarrow> LDFlagBuilder \<Rightarrow> int exec" where
  "LDi_getPreviousFlagVersion td fb = (case LDObjectLookup (Some (td_currentFlags td)) (fb_key fb) of
       None \<Rightarrow> Inr 0
     | Some oldFlag \<Rightarrow> (case LDObjectLookup (Some oldFlag) ''version'' of
         None \<Rightarrow> Inr 0
       | Some jsonVersion \<Rightarrow> if LDJSONGetType (Some jsonVersion) = LDNumber
           then dbl_to_int32 (LDGetNumber (Some jsonVersion)) else Inr 0))"

definition LDi_createNewFlag :: "json_heap \<Rightarrow> 's LDTestData \<Rightarrow> LDFlagBuilder \<Rightarrow> LDJSON option exec" where
  "LDi_createNewFlag h td fb =
     exec_bind (LDi_getPreviousFlagVersion td fb) (\<lambda>oldVersion.
       if oldVersion + 1 < 2 ^ 31 then LDFlagBuilderBuild h fb (oldVersion + 1) else Inl SignedOverflow)"

definition LDi_updateCurrentFlagsMap :: "LDJSON \<Rightarrow> string \<Rightarrow> LDJSON \<Rightarrow> bool \<times> LDJSON option" where
  "LDi_updateCurrentFlagsMap currentFlags key newFlag = LDObjectSetKey (Some currentFlags) key (Some newFlag)"

definition LDi_updateFlagBuildersMap ::
  "json_heap \<Rightarrow> 's LDTestData \<Rightarrow> LDFlagBuilder \<Rightarrow> (json_heap \<times> 's LDTestData) exec" where
  "LDi_updateFlagBuildersMap h td fb =
     (let fbs = td_flagBuilders td; key = fb_key fb
      in case hash_find fbs key of
           Some tmp \<Rightarrow> exec_bind (LDFlagBuilderFree h tmp) (\<lambda>h.
             Inr (h, td\<lparr>td_flagBuilders := hash_add (hash_del fbs key) key fb\<rparr>))
         | None \<Rightarrow> Inr (h, td\<lparr>td_flagBuilders := hash_add fbs key fb\<rparr>))"

text \<open>The result of an upsert is not looked at.\<close>

fun LDi_notifyDataInstances ::
  "'s LDTestDataInstance list \<Rightarrow> LDJSON \<Rightarrow> (bool \<times> 's LDTestDataInstance list) exec" where
  "LDi_notifyDataInstances [] newFlag = Inr (True, [])"
| "LDi_notifyDataInstances (inst # insts) newFlag =
     exec_bind (case ti_store inst of
         None \<Rightarrow> Inr inst
       | Some store \<Rightarrow> exec_bind (LDStoreUpsert store LD_FLAG newFlag) (\<lambda>(_, store).
           Inr (inst\<lparr>ti_store := Some store\<rparr>))) (\<lambda>inst.
     exec_bind (LDi_notifyDataInstances insts newFlag) (\<lambda>(ok, insts). Inr (ok, inst # insts)))"

definition LDTestDataUpdate ::
  "json_heap \<Rightarrow> 's LDTestData \<Rightarrow> LDFlagBuilder option \<Rightarrow> (bool \<times> json_heap \<times> 's LDTestData) exec" where
  "LDTestDataUpdate h td flagBuilder =
     exec_bind (ld_assert (flagBuilder \<noteq> None)) (\<lambda>_.
     let fb = the flagBuilder in
     exec_bind (LDi_createNewFlag h td fb) (\<lambda>newFlag. case newFlag of
         None \<Rightarrow> Inr (False, h, td)
       | Some newFlag \<Rightarrow> (case LDi_updateCurrentFlagsMap (td_currentFlags td) (fb_key fb) newFlag of
             (False, _) \<Rightarrow> Inr (False, h, td)
           | (True, flags) \<Rightarrow>
               exec_bind (LDi_updateFlagBuildersMap h (td\<lparr>td_currentFlags := the flags\<rparr>) fb) (\<lambda>(h, td).
               exec_bind (LDi_notifyDataInstances (td_instances td) newFlag) (\<lambda>(ok, insts).
                 Inr (ok, h, td\<lparr>td_instances := insts\<rparr>))))))"

text \<open>
  Starting an instance with the store of its client. Both store implementations free the
  data they are initialised with whether they succeed or not, so the free after a failed
  \<open>LDStoreInit\<close> is the second.
\<close>

definition test_data_start ::
  "'s LDTestData \<Rightarrow> nat \<Rightarrow> 's LDStore \<Rightarrow> (bool \<times> 's LDTestData) exec" where
  "test_data_start td inst store =
     (let set = set_key (JObject []) ''features'' (td_currentFlags td)
      in exec_bind (LDStoreInit store set) (\<lambda>(ok, store).
           if \<not> ok then Inl DoubleFree
           else Inr (True, td\<lparr>td_instances := map (\<lambda>i. if ti_id i = inst then i\<lparr>ti_store := Some store\<rparr> else i)
             (td_instances td)\<rparr>)))"

definition test_data_close :: "'s LDTestData \<Rightarrow> nat \<Rightarrow> 's LDTestData" where
  "test_data_close td inst = td\<lparr>td_instances := filter (\<lambda>i. ti_id i \<noteq> inst) (td_instances td)\<rparr>"

text \<open>\<open>inst\<close> is the address of the new instance, one that no instance has.\<close>

definition LDTestDataCreateDataSource :: "'s LDTestData \<Rightarrow> nat \<Rightarrow> 's LDTestData" where
  "LDTestDataCreateDataSource td inst = td\<lparr>td_instances := \<lparr>ti_id = inst, ti_store = None\<rparr> # td_instances td\<rparr>"

end
