(* ===== verification/TestFlags.thy ===== *)
theory TestFlags
  imports TestData "HOL-Library.Multiset"
begin

text \<open>
  The flags the builders of \<open>TestData\<close> make. Targeting a user keeps every user in one target;
  a builder whose memory is live builds flag data, one that points to freed memory does not;
  the evaluator serves from that data what the builder was told; and any sequence of builder
  calls that respects the interface keeps the invariant of a builder.
\<close>

section \<open>Targets\<close>

text \<open>The variation a user key is targeted at, and the invariant that makes it unique.\<close>

definition assigned :: "LDFlagBuilderTarget list \<Rightarrow> string \<Rightarrow> int \<Rightarrow> bool" where
  "assigned ts u v \<longleftrightarrow> (\<exists>t\<in>set ts. bt_variation t = v \<and> u \<in> set (bt_users t))"

definition targets_ok :: "LDFlagBuilderTarget list \<Rightarrow> bool" where
  "targets_ok ts \<longleftrightarrow> distinct (map bt_variation ts) \<and> distinct (concat (map bt_users ts))"

lemma targets_ok_Nil [simp]: "targets_ok []"
  by (simp add: targets_ok_def)

lemma targets_ok_Cons:
  "targets_ok (t # ts) \<longleftrightarrow> targets_ok ts \<and> bt_variation t \<notin> bt_variation ` set ts \<and> distinct (bt_users t) \<and>
     (\<forall>u\<in>set (bt_users t). \<forall>v. \<not> assigned ts u v)"
  by (auto simp: targets_ok_def assigned_def)

lemma assigned_Cons: "assigned (t # ts) u v \<longleftrightarrow> bt_variation t = v \<and> u \<in> set (bt_users t) \<or> assigned ts u v"
  by (auto simp: assigned_def)

lemma assigned_Nil [simp]: "\<not> assigned [] u v"
  by (simp add: assigned_def)

lemma assigned_unique: "targets_ok ts \<Longrightarrow> assigned ts u v \<Longrightarrow> assigned ts u w \<Longrightarrow> v = w"
  by (induction ts) (auto simp: targets_ok_Cons assigned_Cons)

lemma find_target_None: "find_target ts i = None \<longleftrightarrow> i \<notin> bt_variation ` set ts"
  by (auto simp: find_target_def find_None_iff)

lemma find_target_Some:
  assumes "find_target ts i = Some t"
  shows "t \<in> set ts" and "bt_variation t = i"
  using assms by (auto simp: find_target_def find_Some_iff in_set_conv_nth) (metis length_rev nth_mem set_rev in_set_conv_nth)

lemma find_target_unique:
  assumes "targets_ok ts" and "t \<in> set ts"
  shows "find_target ts (bt_variation t) = Some t"
proof -
  obtain t' where t': "find_target ts (bt_variation t) = Some t'"
    using assms(2) by (cases "find_target ts (bt_variation t)") (auto simp: find_target_None)
  then have "t' \<in> set ts" "bt_variation t' = bt_variation t" by (auto dest: find_target_Some)
  moreover have "inj_on bt_variation (set ts)" using assms(1) by (simp add: targets_ok_def distinct_map)
  ultimately show ?thesis using t' assms(2) by (auto dest: inj_onD)
qed

lemma ensure_target_ok:
  assumes "targets_ok ts"
  shows "targets_ok (ensure_target ts i)" and "assigned (ensure_target ts i) = assigned ts"
    and "i \<in> bt_variation ` set (ensure_target ts i)"
proof -
  show "targets_ok (ensure_target ts i)"
    using assms find_target_None [of ts i] by (auto simp: ensure_target_def targets_ok_def split: option.split)
  show "assigned (ensure_target ts i) = assigned ts"
    by (auto simp: ensure_target_def assigned_def fun_eq_iff split: option.split)
  show "i \<in> bt_variation ` set (ensure_target ts i)"
    using find_target_None [of ts i] by (auto simp: ensure_target_def split: option.split)
qed

lemma variations_detach [simp]:
  "map bt_variation (detachUserFromOtherTargets ts u i) = map bt_variation ts"
  by (induction ts) auto

lemma image_variations: "map bt_variation ts = map bt_variation ts' \<Longrightarrow> bt_variation ` set ts = bt_variation ` set ts'"
  by (metis list.set_map)

lemma detach_ok:
  assumes "targets_ok ts" and "\<not> assigned ts u i"
  shows "targets_ok (detachUserFromOtherTargets ts u i) \<and>
     (\<forall>u' v. assigned (detachUserFromOtherTargets ts u i) u' v \<longleftrightarrow> assigned ts u' v \<and> u' \<noteq> u)"
  using assms
proof (induction ts)
  case (Cons t ts)
  have IH: "targets_ok (detachUserFromOtherTargets ts u i)"
    "\<And>u' v. assigned (detachUserFromOtherTargets ts u i) u' v \<longleftrightarrow> assigned ts u' v \<and> u' \<noteq> u"
    using Cons by (auto simp: targets_ok_Cons assigned_Cons)
  then show ?case
    using Cons.prems image_variations [OF variations_detach, of ts u i]
    by (auto simp: targets_ok_Cons assigned_Cons)
qed simp

lemma variations_prepend [simp]: "map bt_variation (prepend_user u i ts) = map bt_variation ts"
  by (simp add: prepend_user_def)

lemma prepend_user_Cons:
  "prepend_user u i (t # ts) =
     (if bt_variation t = i then t\<lparr>bt_users := u # bt_users t\<rparr> else t) # prepend_user u i ts"
  by (simp add: prepend_user_def)

lemma prepend_absent: "i \<notin> bt_variation ` set ts \<Longrightarrow> prepend_user u i ts = ts"
  by (induction ts) (auto simp: prepend_user_def)

lemma prepend_ok:
  assumes "targets_ok ts" and "\<And>v. \<not> assigned ts u v" and "i \<in> bt_variation ` set ts"
  shows "targets_ok (prepend_user u i ts) \<and>
     (\<forall>u' v. assigned (prepend_user u i ts) u' v \<longleftrightarrow> assigned ts u' v \<or> u' = u \<and> v = i)"
  using assms
proof (induction ts)
  case (Cons t ts)
  show ?case
  proof (cases "bt_variation t = i")
    case True
    then have "prepend_user u i ts = ts" using Cons.prems(1) by (intro prepend_absent) (auto simp: targets_ok_Cons)
    then show ?thesis
      using True Cons.prems by (auto simp: prepend_user_Cons targets_ok_Cons assigned_Cons)
  next
    case False
    then have "targets_ok (prepend_user u i ts) \<and>
       (\<forall>u' v. assigned (prepend_user u i ts) u' v \<longleftrightarrow> assigned ts u' v \<or> u' = u \<and> v = i)"
      using Cons by (auto simp: targets_ok_Cons assigned_Cons)
    then show ?thesis
      using False Cons.prems image_variations [OF variations_prepend, of u i ts]
      by (auto simp: prepend_user_Cons targets_ok_Cons assigned_Cons)
  qed
qed simp

text \<open>Targeting a user moves that user to the given variation and nobody else.\<close>

lemma variation_for_user:
  assumes "fb_targets fb = Live ts" and "targets_ok ts"
  shows "\<exists>ts'. LDFlagBuilderVariationForUser fb u i = Inr (True, fb\<lparr>fb_targets := Live ts'\<rparr>) \<and> targets_ok ts' \<and>
     (\<forall>u' v. assigned ts' u' v \<longleftrightarrow> (if u' = u then v = i else assigned ts u' v))"
proof -
  let ?ts = "ensure_target ts i"
  note ens = ensure_target_ok [OF assms(2), of i]
  then obtain t where t: "find_target ?ts i = Some t" "t \<in> set ?ts" "bt_variation t = i"
    using find_target_None [of ?ts i] find_target_Some [of ?ts i] by (cases "find_target ?ts i") auto
  show ?thesis
  proof (cases "u \<in> set (bt_users t)")
    case True
    then have "assigned ?ts u i" using t by (auto simp: assigned_def)
    then have "assigned ts u v \<longleftrightarrow> v = i" for v using ens(2) assigned_unique [OF assms(2), of u] by auto
    then show ?thesis
      using assms(1) t(1) True ens by (intro exI [of _ ?ts]) (simp add: LDFlagBuilderVariationForUser_def)
  next
    case False
    then have no: "\<not> assigned ?ts u i"
      using t(1) find_target_unique [OF ens(1)] by (fastforce simp: assigned_def)
    let ?d = "detachUserFromOtherTargets ?ts u i"
    have d: "targets_ok ?d" "\<And>u' v. assigned ?d u' v \<longleftrightarrow> assigned ?ts u' v \<and> u' \<noteq> u"
      using detach_ok [OF ens(1) no] by auto
    have "i \<in> bt_variation ` set ?d" using ens(3) image_variations [OF variations_detach, of ?ts u i] by simp
    then have "targets_ok (prepend_user u i ?d)"
      "\<And>u' v. assigned (prepend_user u i ?d) u' v \<longleftrightarrow> assigned ?d u' v \<or> u' = u \<and> v = i"
      using prepend_ok [OF d(1), of u i] d(2) by auto
    then show ?thesis using assms(1) t(1) False d(2) ens(2) by (auto simp: LDFlagBuilderVariationForUser_def)
  qed
qed

section \<open>Clause values in memory\<close>

definition cell_live :: "json_heap \<Rightarrow> nat \<Rightarrow> bool" where
  "cell_live h p \<longleftrightarrow> p < length h \<and> h ! p \<noteq> None"

definition cell :: "json_heap \<Rightarrow> nat \<Rightarrow> LDJSON" where
  "cell h p = (case heap_read h p of Inr j \<Rightarrow> j | Inl _ \<Rightarrow> JNull)"

lemma heap_read_live: "cell_live h p \<Longrightarrow> heap_read h p = Inr (cell h p)"
  by (auto simp: cell_live_def cell_def heap_read_def)

lemma heap_read_dead: "\<not> cell_live h p \<Longrightarrow> heap_read h p = Inl UseAfterFree"
  by (auto simp: cell_live_def heap_read_def split: option.split)

lemma heap_new_live:
  assumes "heap_new h j = (p, h')"
  shows "cell_live h' q \<longleftrightarrow> cell_live h q \<or> q = p" and "cell h' p = j" and "cell_live h q \<Longrightarrow> cell h' q = cell h q"
    and "\<not> cell_live h p"
  using assms by (auto simp: heap_new_def cell_live_def cell_def heap_read_def nth_append less_Suc_eq split: if_splits)

lemma heap_free_live:
  assumes "cell_live h p"
  shows "\<exists>h'. heap_free h p = Inr h' \<and> (\<forall>q. cell_live h' q \<longleftrightarrow> cell_live h q \<and> q \<noteq> p) \<and>
     (\<forall>q. q \<noteq> p \<longrightarrow> cell h' q = cell h q)"
  using assms by (auto simp: heap_free_def cell_live_def cell_def heap_read_def nth_list_update)

lemma heap_free_dead: "\<not> cell_live h p \<Longrightarrow> heap_free h p = Inl DoubleFree"
  by (auto simp: heap_free_def cell_live_def)

lemma heap_free_all_live:
  assumes "distinct ps" and "\<forall>p\<in>set ps. cell_live h p"
  shows "\<exists>h'. heap_free_all h ps = Inr h' \<and> (\<forall>q. cell_live h' q \<longleftrightarrow> cell_live h q \<and> q \<notin> set ps) \<and>
     (\<forall>q. q \<notin> set ps \<longrightarrow> cell h' q = cell h q)"
  using assms
proof (induction ps arbitrary: h)
  case (Cons p ps)
  obtain h1 where h1: "heap_free h p = Inr h1" "\<forall>q. cell_live h1 q \<longleftrightarrow> cell_live h q \<and> q \<noteq> p"
    "\<forall>q. q \<noteq> p \<longrightarrow> cell h1 q = cell h q"
    using heap_free_live [of h p] Cons.prems by auto
  moreover obtain h2 where "heap_free_all h1 ps = Inr h2" "\<forall>q. cell_live h2 q \<longleftrightarrow> cell_live h1 q \<and> q \<notin> set ps"
    "\<forall>q. q \<notin> set ps \<longrightarrow> cell h2 q = cell h1 q"
    using Cons.IH [of h1] Cons.prems h1(2) by auto
  ultimately show ?case by auto
qed simp

section \<open>The JSON of a builder whose memory is live\<close>

text \<open>The lists of a builder, and that everything it points to is live.\<close>

definition builder_live :: "json_heap \<Rightarrow> LDFlagBuilder \<Rightarrow> bool" where
  "builder_live h fb \<longleftrightarrow> fb_targets fb \<noteq> Freed \<and>
     (\<exists>rs. fb_rules fb = Live rs \<and> (\<forall>p\<in>set (rule_cells rs). cell_live h p))"

fun chain_of :: "'a chain \<Rightarrow> 'a list" where
  "chain_of (Live xs) = xs"
| "chain_of Freed = []"

abbreviation targets_of :: "LDFlagBuilder \<Rightarrow> LDFlagBuilderTarget list" where
  "targets_of fb \<equiv> chain_of (fb_targets fb)"

abbreviation rules_of :: "LDFlagBuilder \<Rightarrow> LDFlagRuleBuilder list" where
  "rules_of fb \<equiv> chain_of (fb_rules fb)"

lemma builder_liveE:
  assumes "builder_live h fb"
  obtains ts rs where "fb_targets fb = Live ts" and "fb_rules fb = Live rs" and "targets_of fb = ts"
    and "rules_of fb = rs" and "\<forall>p\<in>set (rule_cells rs). cell_live h p"
  using assms by (cases "fb_targets fb") (auto simp: builder_live_def)

definition clause_json :: "json_heap \<Rightarrow> LDFlagRuleBuilderClause \<Rightarrow> LDJSON" where
  "clause_json h c = JObject [(''attribute'', JText (bc_attribute c)), (''op'', JText ''in''),
     (''negate'', JBool (bc_negate c)), (''values'', cell h (bc_values c))]"

definition rule_json :: "json_heap \<Rightarrow> nat \<Rightarrow> LDFlagRuleBuilder \<Rightarrow> LDJSON" where
  "rule_json h ri r = JObject [(''id'', JText (''rule'' @ show_nat ri)),
     (''variation'', JNumber (int_to_dbl (br_variation r))), (''clauses'', JArray (map (clause_json h) (br_clauses r)))]"

definition rule_list_json :: "json_heap \<Rightarrow> nat \<Rightarrow> LDFlagRuleBuilder list \<Rightarrow> LDJSON list" where
  "rule_list_json h ri rs = map (\<lambda>(i, r). rule_json h i r) (enumerate ri rs)"

definition target_json :: "LDFlagBuilderTarget \<Rightarrow> LDJSON" where
  "target_json t = JObject [(''variation'', JNumber (int_to_dbl (bt_variation t))), (''values'', JArray (map JText (bt_users t)))]"

definition flag_json :: "json_heap \<Rightarrow> LDFlagBuilder \<Rightarrow> int \<Rightarrow> LDJSON" where
  "flag_json h fb version = JObject ([(''key'', JText (fb_key fb)), (''salt'', JText ''salt''),
     (''version'', JNumber (int_to_dbl version)), (''on'', JBool (fb_on fb)),
     (''offVariation'', JNumber (int_to_dbl (fb_offVariation fb))), (''variations'', the (fb_variations fb)),
     (''fallthrough'', JObject [(''variation'', JNumber (int_to_dbl (fb_fallthroughVariation fb)))])] @
     (if targets_of fb = [] then [] else [(''targets'', JArray (map target_json (targets_of fb)))]) @
     (if rules_of fb = [] then [] else [(''rules'', JArray (rule_list_json h 0 (rules_of fb)))]))"

lemma build_clauses_live:
  "\<forall>c\<in>set cs. cell_live h (bc_values c) \<Longrightarrow> build_clauses h cs = Inr (map (clause_json h) cs)"
  by (induction cs) (simp_all add: LDi_buildClauseJSON_def set_key_JObject heap_read_live clause_json_def)

lemma rule_cells_Cons [simp]:
  "rule_cells (r # rs) = map bc_values (br_clauses r) @ rule_cells rs"
  by (simp add: rule_cells_def)

lemma build_rules_live:
  "\<forall>p\<in>set (rule_cells rs). cell_live h p \<Longrightarrow> build_rules h ri rs = Inr (rule_list_json h ri rs)"
  by (induction rs arbitrary: ri)
    (simp_all add: rule_list_json_def LDi_buildRuleJSON_def LDi_buildClausesJSON_def build_clauses_live
      set_key_JObject rule_json_def)

lemma build_live:
  assumes "builder_live h fb" and "fb_variations fb = Some vs"
  shows "LDFlagBuilderBuild h fb version = Inr (Some (flag_json h fb version))"
proof -
  obtain ts rs where b: "fb_targets fb = Live ts" "fb_rules fb = Live rs" "\<forall>p\<in>set (rule_cells rs). cell_live h p"
    using assms(1) by (elim builder_liveE)
  have t: "LDi_buildTargetJSON t = target_json t" for t
    by (simp add: LDi_buildTargetJSON_def set_key_JObject target_json_def LDi_buildUsersJSON_def)
  show ?thesis
    using b assms(2)
    by (simp add: LDFlagBuilderBuild_def set_key_JObject Let_def LDi_buildTargetsJSON_def LDi_buildRulesJSON_def
        build_rules_live flag_json_def t [abs_def])
qed

lemma build_clauses_dead:
  "\<not> (\<forall>c\<in>set cs. cell_live h (bc_values c)) \<Longrightarrow> build_clauses h cs = Inl UseAfterFree"
proof (induction cs)
  case (Cons c cs)
  then show ?case
    by (cases "cell_live h (bc_values c)") (simp_all add: LDi_buildClauseJSON_def heap_read_live heap_read_dead)
qed simp

lemma build_rules_dead:
  "\<not> (\<forall>p\<in>set (rule_cells rs). cell_live h p) \<Longrightarrow> build_rules h ri rs = Inl UseAfterFree"
proof (induction rs arbitrary: ri)
  case (Cons r rs)
  show ?case
  proof (cases "\<forall>c\<in>set (br_clauses r). cell_live h (bc_values c)")
    case True
    then have "\<not> (\<forall>p\<in>set (rule_cells rs). cell_live h p)" using Cons.prems by auto
    then show ?thesis
      using True Cons.IH by (simp add: LDi_buildRuleJSON_def LDi_buildClausesJSON_def build_clauses_live)
  next
    case False
    then show ?thesis
      by (simp add: LDi_buildRuleJSON_def LDi_buildClausesJSON_def build_clauses_dead)
  qed
qed (simp add: rule_cells_def)

lemma build_dead:
  assumes "\<not> builder_live h fb" and "fb_variations fb = Some vs"
  shows "LDFlagBuilderBuild h fb version = Inl UseAfterFree"
proof (cases "fb_rules fb")
  case Freed
  then show ?thesis using assms(2) by (cases "fb_targets fb") (simp_all add: LDFlagBuilderBuild_def)
next
  case (Live rs)
  then have "fb_targets fb = Freed \<or> \<not> (\<forall>p\<in>set (rule_cells rs). cell_live h p)"
    using assms(1) by (auto simp: builder_live_def)
  then show ?thesis
    using Live assms(2)
    by (cases "fb_targets fb")
      (auto simp: LDFlagBuilderBuild_def LDi_buildRulesJSON_def build_rules_dead Let_def rule_cells_def)
qed

section \<open>What a built flag serves\<close>

text \<open>A clause on an attribute the evaluator can compare: no array that holds arrays or objects.\<close>

definition plain_attribute :: "LDUser \<Rightarrow> string \<Rightarrow> bool" where
  "plain_attribute user a \<longleftrightarrow> (case LDi_valueOfAttribute user a of
       Inl _ \<Rightarrow> False | Inr None \<Rightarrow> True | Inr (Some v) \<Rightarrow> v = JNull \<or> comparable v)"

definition clause_holds :: "json_heap \<Rightarrow> LDUser \<Rightarrow> LDFlagRuleBuilderClause \<Rightarrow> bool" where
  "clause_holds h user c \<longleftrightarrow> (case LDi_valueOfAttribute user (bc_attribute c) of
       Inr (Some v) \<Rightarrow> v \<noteq> JNull \<and>
         ((\<exists>x\<in>set (operands v). \<exists>w\<in>set (iter_values (Some (cell h (bc_values c)))). LDJSONCompare (Some x) (Some w))
            \<noteq> bc_negate c)
     | _ \<Rightarrow> False)"

definition rule_holds :: "json_heap \<Rightarrow> LDUser \<Rightarrow> LDFlagRuleBuilder \<Rightarrow> bool" where
  "rule_holds h user r \<longleftrightarrow> list_all (clause_holds h user) (br_clauses r)"

text \<open>Where the evaluation of a configuration stops, and the variation it selects.\<close>

datatype verdict = Off | Target int | Rule nat | Fallthrough

fun first_rule :: "json_heap \<Rightarrow> LDUser \<Rightarrow> nat \<Rightarrow> LDFlagRuleBuilder list \<Rightarrow> verdict" where
  "first_rule h user n [] = Fallthrough"
| "first_rule h user n (r # rs) = (if rule_holds h user r then Rule n else first_rule h user (Suc n) rs)"

definition verdict :: "json_heap \<Rightarrow> LDFlagBuilder \<Rightarrow> LDUser \<Rightarrow> verdict" where
  "verdict h fb user =
     (if \<not> fb_on fb then Off
      else case List.find (\<lambda>t. u_key user \<in> set (bt_users t)) (targets_of fb) of
          Some t \<Rightarrow> Target (bt_variation t)
        | None \<Rightarrow> first_rule h user 0 (rules_of fb))"

fun verdict_index :: "LDFlagBuilder \<Rightarrow> verdict \<Rightarrow> int" where
  "verdict_index fb Off = fb_offVariation fb"
| "verdict_index fb (Target v) = v"
| "verdict_index fb (Rule n) = br_variation (rules_of fb ! n)"
| "verdict_index fb Fallthrough = fb_fallthroughVariation fb"

fun verdict_status :: "verdict \<Rightarrow> EvalStatus" where
  "verdict_status Off = EVAL_MISS"
| "verdict_status _ = EVAL_MATCH"

fun verdict_reason :: "verdict \<Rightarrow> LDEvalReason" where
  "verdict_reason Off = LD_OFF"
| "verdict_reason (Target v) = LD_TARGET_MATCH"
| "verdict_reason (Rule n) = LD_RULE_MATCH"
| "verdict_reason Fallthrough = LD_FALLTHROUGH"

fun verdict_extra :: "evalstate \<Rightarrow> verdict \<Rightarrow> extra" where
  "verdict_extra st (Rule n) = DetailsRule (of_nat n) (Some (''rule'' @ show_nat n)) (Some False)"
| "verdict_extra st Fallthrough = DetailsFallthrough False"
| "verdict_extra st _ = d_extra (es_details st)"

text \<open>The outcome of an evaluation that selects an index of the variations.\<close>

definition serve :: "evalstate \<Rightarrow> LDJSON list \<Rightarrow> int \<Rightarrow> EvalStatus \<Rightarrow> LDEvalReason \<Rightarrow> extra \<Rightarrow> EvalStatus \<times> evalstate" where
  "serve st vs i status reason x =
     (if 0 \<le> i \<and> i < int (length vs) then (status, select_variation st reason x (of_int i) (vs ! nat i))
      else (EVAL_SCHEMA, malformed st))"

definition int32 :: "int \<Rightarrow> bool" where
  "int32 i \<longleftrightarrow> - (2 ^ 31) \<le> i \<and> i < 2 ^ 31"

lemma uint_of_int32:
  assumes "0 \<le> i" and "int32 i"
  shows "uint_to_dbl (of_int i) = int_to_dbl i"
proof -
  have "uint (of_int i :: uint) = i" using assms by (simp add: int32_def uint_word_of_int)
  then have "unat (of_int i :: uint) = nat i" by (metis unat_eq_nat_uint)
  then show ?thesis using assms(1) by (simp add: uint_to_dbl_def int_to_dbl_def)
qed

lemma sint_of_int32: "int32 i \<Longrightarrow> sint (of_int i :: uint) = i"
  by (simp add: int32_def signed_of_int signed_take_bit_int_eq_self)

lemma addValue_int:
  assumes "obj_lookup flag ''variations'' = Some (JArray vs)" and "int32 i"
  shows "addValue flag (Some (JNumber (int_to_dbl i))) st =
     Inr (0 \<le> i \<and> i < int (length vs), snd (serve st vs i EVAL_MATCH (d_reason (es_details st)) (d_extra (es_details st))))"
proof (cases "0 \<le> i")
  case True
  then have d: "int_to_dbl i = uint_to_dbl (of_int i)" using assms(2) by (simp add: uint_of_int32)
  show ?thesis
  proof (cases "i < int (length vs)")
    case True
    then have "variation_at flag (of_int i) = Some (vs ! nat i)"
      using assms \<open>0 \<le> i\<close> by (auto simp: variation_at_def sint_of_int32)
    then show ?thesis using True \<open>0 \<le> i\<close> by (simp add: d addValue_ok serve_def)
  next
    case False
    then have "getValue flag (Some (JNumber (int_to_dbl i))) = Inr None"
      using assms \<open>0 \<le> i\<close> obj_lookup_object [OF assms(1)]
      by (simp add: getValue_def d lookupRequiredValueOfType_def sint_of_int32)
    then show ?thesis using False
      by (simp add: addValue_def serve_def malformed_def LDDetailsClear_def LDDetailsInit_def)
  qed
next
  case False
  then have "getValue flag (Some (JNumber (int_to_dbl i))) = Inr None"
    by (simp add: getValue_def int_to_dbl_def)
  then show ?thesis using False
    by (simp add: addValue_def serve_def malformed_def LDDetailsClear_def LDDetailsInit_def)
qed

lemma serve_set [simp]:
  "serve (set_reason st r) vs i s r' x = serve st vs i s r' x"
  "serve (set_extra st y) vs i s r' x = serve st vs i s r' x"
  by (simp_all add: serve_def)

lemma serve_in: "0 \<le> i \<and> i < int (length vs) \<Longrightarrow> (s, snd (serve st vs i s' r x)) = serve st vs i s r x"
  by (simp add: serve_def)

lemma serve_out: "\<not> (0 \<le> i \<and> i < int (length vs)) \<Longrightarrow> (EVAL_SCHEMA, snd (serve st vs i s' r x)) = serve st vs i s r x"
  by (auto simp: serve_def)

lemma fixed_number:
  assumes "obj_lookup flag ''key'' = Some (JText k)" and "obj_lookup flag ''salt'' = Some (JText s)"
    and "obj_lookup vr ''variation'' = Some (JNumber d)"
  shows "LDi_getIndexForVariationOrRollout ext flag (Some vr) user = Inr (Some (Some (JNumber d), False))"
  using assms obj_lookup_object [OF assms(1)] obj_lookup_object [OF assms(3)]
  by (simp add: LDi_getIndexForVariationOrRollout_def lookupRequiredValueOfType_def
      LDi_variationIndexForUser_def lookupOptionalValueOfType_def)

lemma clause_json_decides:
  assumes "LDJSONGetType (Some (cell h (bc_values c))) = LDArray" and "plain_attribute user (bc_attribute c)"
  shows "LDi_clauseMatchesUser env (clause_json h c) user = Inr (decide (clause_holds h user c))"
proof -
  let ?j = "clause_json h c"
  have w: "wf_clause ?j" "text_member ?j ''op'' = ''in''" "text_member ?j ''attribute'' = bc_attribute c"
    "clause_values ?j = iter_values (Some (cell h (bc_values c)))" "negated ?j = bc_negate c"
    using assms(1)
    by (simp_all add: clause_json_def wf_clause_def req_member_def opt_member_def text_member_def clause_values_def
        member_value_def negated_def)
  have "LDi_clauseMatchesUser env ?j user = LDi_clauseMatchesUserNoSegments (e_ext env) ?j user"
    by (simp add: LDi_clauseMatchesUser_def clause_json_def lookupRequiredValueOfType_def)
  also have "\<dots> = Inr (decide (clause_holds h user c))"
  proof (cases "LDi_valueOfAttribute user (bc_attribute c)")
    case (Inr r)
    show ?thesis
    proof (cases "r = None \<or> r = Some JNull")
      case True
      then show ?thesis using Inr assms(1)
        by (auto simp: LDi_clauseMatchesUserNoSegments_def clause_json_def lookupRequiredValueOfType_def
            lookupOptionalValueOfType_def LDi_lookupOperation_def clause_holds_def decide_def)
    next
      case False
      then obtain v where v: "r = Some v" "v \<noteq> JNull" by auto
      then have "comparable v" using Inr assms(2) by (simp add: plain_attribute_def)
      then show ?thesis
        using clause_decides [OF w(1), of "e_ext env" operatorInFn user v "\<lambda>x w. LDJSONCompare (Some x) (Some w)"] w Inr v
        by (simp add: LDi_lookupOperation_def operatorInFn_def clause_holds_def)
    qed
  qed (use assms(2) in \<open>simp add: plain_attribute_def\<close>)
  finally show ?thesis .
qed

lemma clause_json_object [simp]: "LDJSONGetType (Some (clause_json h c)) = LDObject"
  by (simp add: clause_json_def)

lemma clauses_json_decide:
  "\<forall>c\<in>set cs. LDJSONGetType (Some (cell h (bc_values c))) = LDArray \<and> plain_attribute user (bc_attribute c) \<Longrightarrow>
   clauses_loop (\<lambda>c. if LDJSONGetType (Some c) \<noteq> LDObject then Inr EVAL_SCHEMA
     else LDi_clauseMatchesUser env c user) (map (clause_json h) cs) = Inr (decide (list_all (clause_holds h user) cs))"
  by (induction cs) (auto simp: clause_json_decides decide_def)

definition rule_ready :: "json_heap \<Rightarrow> LDUser \<Rightarrow> LDFlagRuleBuilder \<Rightarrow> bool" where
  "rule_ready h user r \<longleftrightarrow> (\<forall>c\<in>set (br_clauses r).
     LDJSONGetType (Some (cell h (bc_values c))) = LDArray \<and> plain_attribute user (bc_attribute c)) \<and> int32 (br_variation r)"

lemma rule_json_decides:
  "rule_ready h user r \<Longrightarrow> LDi_ruleMatchesUser env (rule_json h n r) user = Inr (decide (rule_holds h user r))"
  using clauses_json_decide [of "br_clauses r" h user env]
  by (simp add: LDi_ruleMatchesUser_def rule_json_def lookupOptionalValueOfType_def rule_holds_def rule_ready_def)

lemma rule_json_simps [simp]:
  "LDJSONGetType (Some (rule_json h n r)) = LDObject"
  "obj_lookup (rule_json h n r) ''variation'' = Some (JNumber (int_to_dbl (br_variation r)))"
  "lookupOptionalValueOfType (rule_json h n r) ''id'' LDText = Inr (Some (Some (JText (''rule'' @ show_nat n))))"
  by (simp_all add: rule_json_def lookupOptionalValueOfType_def)

text \<open>The flag data the loops of the evaluator read while they look at targets and rules.\<close>

definition flag_head :: "LDJSON \<Rightarrow> LDJSON list \<Rightarrow> bool" where
  "flag_head flag vs \<longleftrightarrow> obj_lookup flag ''variations'' = Some (JArray vs) \<and>
     (\<exists>k. obj_lookup flag ''key'' = Some (JText k)) \<and> (\<exists>s. obj_lookup flag ''salt'' = Some (JText s))"

lemma rule_json_matched:
  assumes "flag_head flag vs" and "int32 (br_variation r)"
  shows "rule_matched ext flag user (of_nat n) (rule_json h n r) st =
     Inr (serve st vs (br_variation r) EVAL_MATCH LD_RULE_MATCH (verdict_extra st (Rule n)))"
proof -
  have "LDi_getIndexForVariationOrRollout ext flag (Some (rule_json h n r)) user =
      Inr (Some (Some (JNumber (int_to_dbl (br_variation r))), False))"
    using assms(1) rule_json_simps(2) unfolding flag_head_def by (blast intro: fixed_number)
  then show ?thesis
    using assms
    by (auto simp: rule_matched_def Let_def addValue_int flag_head_def serve_def set_extra_def set_reason_def
        select_variation_def malformed_def)
qed

lemma first_rule_ge: "first_rule h user n rs = Rule m \<Longrightarrow> n \<le> m"
  by (induction rs arbitrary: n) (auto split: if_splits dest: Suc_leD)

lemma first_rule_cases: "first_rule h user n rs \<in> insert Fallthrough (range Rule)"
  by (induction rs arbitrary: n) auto

lemma rules_json_loop:
  assumes "flag_head flag vs" and "list_all (rule_ready h user) rs"
  shows "rules_loop env flag user st (of_nat n) (rule_list_json h n rs) = Inr (case first_rule h user n rs of
       Rule m \<Rightarrow> Some (serve st vs (br_variation (rs ! (m - n))) EVAL_MATCH LD_RULE_MATCH (verdict_extra st (Rule m)))
     | _ \<Rightarrow> None)"
  using assms(2)
proof (induction rs arbitrary: n)
  case (Cons r rs)
  have r: "rule_ready h user r" "int32 (br_variation r)" using Cons.prems by (auto simp: rule_ready_def)
  show ?case
  proof (cases "rule_holds h user r")
    case True
    then show ?thesis
      using r by (simp add: rule_list_json_def rule_json_decides decide_def rule_json_matched [OF assms(1)])
  next
    case False
    have "rules_loop env flag user st (of_nat (Suc n)) (rule_list_json h (Suc n) rs) = Inr (case first_rule h user (Suc n) rs of
         Rule m \<Rightarrow> Some (serve st vs (br_variation (rs ! (m - Suc n))) EVAL_MATCH LD_RULE_MATCH (verdict_extra st (Rule m)))
       | _ \<Rightarrow> None)"
      using Cons.IH [of "Suc n"] Cons.prems by simp
    moreover have "rs ! (m - Suc n) = (r # rs) ! (m - n)" if "first_rule h user (Suc n) rs = Rule m" for m
      using first_rule_ge [OF that] by (simp add: nth_Cons' Suc_diff_Suc)
    ultimately show ?thesis
      using False r by (auto simp: rule_list_json_def rule_json_decides decide_def add.commute split: verdict.splits)
  qed
qed (simp add: rule_list_json_def)

lemma names_of_texts [simp]: "names_of (JArray (map JText us)) = us"
  by (induction us) (simp_all add: List.map_filter_simps)

lemma target_json_simps [simp]:
  "LDJSONGetType (Some (target_json t)) = LDObject"
  "key_listed (target_json t) ''values'' user = Inr (Some (u_key user \<in> set (bt_users t)))"
  "lookupRequiredValueOfType (target_json t) ''variation'' LDNumber = Inr (Some (JNumber (int_to_dbl (bt_variation t))))"
proof -
  show "key_listed (target_json t) ''values'' user = Inr (Some (u_key user \<in> set (bt_users t)))"
    using key_listed_ok [of "target_json t" "''values''" user]
    by (simp add: keys_member_def listed_def target_json_def member_value_def list_all_iff del: names_of.simps)
qed (simp_all add: target_json_def lookupRequiredValueOfType_def)

lemma targets_json_loop:
  assumes "obj_lookup flag ''variations'' = Some (JArray vs)" and "\<forall>t\<in>set ts. int32 (bt_variation t)"
  shows "targets_loop flag user st (map target_json ts) = Inr (
     map_option (\<lambda>t. serve st vs (bt_variation t) EVAL_MATCH LD_TARGET_MATCH (d_extra (es_details st)))
       (List.find (\<lambda>t. u_key user \<in> set (bt_users t)) ts))"
  using assms(2)
proof (induction ts)
  case (Cons t ts)
  then show ?case
    by (auto simp: addValue_int [OF assms(1)] serve_def set_reason_def select_variation_def malformed_def)
qed simp

text \<open>A builder all of whose indices are C integers and whose clauses the user can be compared with.\<close>

definition builder_ready :: "json_heap \<Rightarrow> LDFlagBuilder \<Rightarrow> LDUser \<Rightarrow> bool" where
  "builder_ready h fb user \<longleftrightarrow> builder_live h fb \<and> LDJSONGetType (fb_variations fb) = LDArray \<and>
     list_all (rule_ready h user) (rules_of fb) \<and> list_all (\<lambda>t. int32 (bt_variation t)) (targets_of fb) \<and>
     int32 (fb_offVariation fb) \<and> int32 (fb_fallthroughVariation fb)"

lemma flag_json_simps:
  assumes "fb_variations fb = Some (JArray vs)"
  shows "LDJSONGetType (Some (flag_json h fb v)) = LDObject" and "flag_head (flag_json h fb v) vs"
    and "obj_lookup (flag_json h fb v) ''on'' = Some (JBool (fb_on fb))"
    and "obj_lookup (flag_json h fb v) ''offVariation'' = Some (JNumber (int_to_dbl (fb_offVariation fb)))"
    and "obj_lookup (flag_json h fb v) ''fallthrough'' =
      Some (JObject [(''variation'', JNumber (int_to_dbl (fb_fallthroughVariation fb)))])"
    and "obj_lookup (flag_json h fb v) ''prerequisites'' = None"
    and "iter_values (obj_lookup (flag_json h fb v) ''targets'') = map target_json (targets_of fb)"
    and "iter_values (obj_lookup (flag_json h fb v) ''rules'') = rule_list_json h 0 (rules_of fb)"
    and "lookupOptionalValueOfType (flag_json h fb v) ''targets'' LDArray = Inr (Some (obj_lookup (flag_json h fb v) ''targets''))"
    and "lookupOptionalValueOfType (flag_json h fb v) ''rules'' LDArray = Inr (Some (obj_lookup (flag_json h fb v) ''rules''))"
  using assms by (simp_all add: flag_json_def flag_head_def rule_list_json_def lookupOptionalValueOfType_def)

lemma flag_json_rest:
  assumes "fb_variations fb = Some (JArray vs)" and "list_all (rule_ready h user) (rules_of fb)"
    and "list_all (\<lambda>t. int32 (bt_variation t)) (targets_of fb)" and "int32 (fb_fallthroughVariation fb)" and "fb_on fb"
  shows "eval_rest env (flag_json h fb v) user st = Inr (let r = verdict h fb user in
     serve st vs (verdict_index fb r) (verdict_status r) (verdict_reason r) (verdict_extra st r))"
proof -
  let ?flag = "flag_json h fb v"
  note flag = flag_json_simps [OF assms(1), of h v]
  have vs: "obj_lookup ?flag ''variations'' = Some (JArray vs)" using flag(2) by (simp add: flag_head_def)
  have t: "eval_targets ?flag user st = Inr (
     map_option (\<lambda>t. serve st vs (bt_variation t) EVAL_MATCH LD_TARGET_MATCH (d_extra (es_details st)))
       (List.find (\<lambda>t. u_key user \<in> set (bt_users t)) (targets_of fb)))"
    using targets_json_loop [OF vs, of "targets_of fb" user st] flag(7) assms(3)
    by (auto simp: eval_targets_def flag(9) list_all_iff split: option.split)
  have r: "eval_rules env ?flag user st = Inr (case first_rule h user 0 (rules_of fb) of
       Rule m \<Rightarrow> Some (serve st vs (br_variation (rules_of fb ! m)) EVAL_MATCH LD_RULE_MATCH (verdict_extra st (Rule m)))
     | _ \<Rightarrow> None)"
    using rules_json_loop [OF flag(2) assms(2), of env st 0] flag(8)
    by (auto simp: eval_rules_def flag(10) split: option.split cong: verdict.case_cong)
  have "LDi_getIndexForVariationOrRollout (e_ext env) ?flag (obj_lookup ?flag ''fallthrough'') user =
      Inr (Some (Some (JNumber (int_to_dbl (fb_fallthroughVariation fb))), False))"
    using flag(2) unfolding flag_head_def flag(5) by (auto intro: fixed_number)
  then have f: "eval_fallthrough (e_ext env) ?flag user st =
      Inr (serve st vs (fb_fallthroughVariation fb) EVAL_MATCH LD_FALLTHROUGH (DetailsFallthrough False))"
    using assms(4)
    by (auto simp: eval_fallthrough_def Let_def addValue_int [OF vs] serve_def set_extra_def set_reason_def
        select_variation_def malformed_def)
  show ?thesis
    using t r f first_rule_cases [of h user 0 "rules_of fb"] assms(5)
    by (auto simp: eval_rest_def verdict_def split: option.split)
qed

lemma built_flag_evaluates:
  assumes "builder_ready h fb user" and "fb_variations fb = Some (JArray vs)"
  shows "LDi_evaluate (Suc n) env user (flag_json h fb v) st = Inr (let r = verdict h fb user in
     serve st vs (verdict_index fb r) (verdict_status r) (verdict_reason r) (verdict_extra st r))"
proof -
  let ?flag = "flag_json h fb v"
  note flag = flag_json_simps [OF assms(2), of h v]
  have vs: "obj_lookup ?flag ''variations'' = Some (JArray vs)" using flag(2) by (simp add: flag_head_def)
  show ?thesis
  proof (cases "fb_on fb")
    case True
    then have "is_on ?flag" "member_value ?flag ''prerequisites'' = None"
      using flag(3,6) by (simp_all add: is_on_def member_value_def)
    then have "LDi_evaluate (Suc n) env user ?flag st = eval_rest env ?flag user st" by (simp add: eval_on_flag)
    also have "\<dots> = Inr (let r = verdict h fb user in
        serve st vs (verdict_index fb r) (verdict_status r) (verdict_reason r) (verdict_extra st r))"
      using assms(1) True by (intro flag_json_rest [OF assms(2)]) (simp_all add: builder_ready_def)
    finally show ?thesis .
  next
    case False
    then have "is_off ?flag" using flag(1,3) by (simp add: is_off_def member_value_def)
    then show ?thesis
      using flag(4) assms(1) False
      by (auto simp: eval_off_flag eval_off_def Let_def addValue_int [OF vs] builder_ready_def verdict_def serve_def
          set_reason_def select_variation_def malformed_def)
  qed
qed

section \<open>Sequences of builder calls\<close>

text \<open>The calls of an application on one builder. A rule is named by its handle.\<close>

datatype builder_call =
    SetBoolean | SetOn bool | SetVariations "LDJSON option"
  | SetFallthrough int | SetFallthroughBoolean bool | SetOff int | SetOffBoolean bool
  | AllUsers int | AllUsersBoolean bool | AllUsersValue "LDJSON option"
  | ForUser string int | ForUserBoolean string bool
  | IfMatch string "LDJSON option" | IfNotMatch string "LDJSON option"
  | AndMatch nat string "LDJSON option" | AndNotMatch nat string "LDJSON option"
  | ThenReturn nat int | ThenReturnBoolean nat bool

definition on_rule ::
  "json_heap \<Rightarrow> LDFlagBuilder \<Rightarrow> nat \<Rightarrow> (LDFlagRuleBuilder \<Rightarrow> bool \<times> json_heap \<times> LDFlagRuleBuilder) \<Rightarrow>
   (json_heap \<times> LDFlagBuilder) exec" where
  "on_rule h fb r f =
     exec_bind (chain_list (fb_rules fb)) (\<lambda>rules.
     exec_bind (rule_at rules r) (\<lambda>rule.
       case f rule of (_, h, rule) \<Rightarrow> Inr (h, fb\<lparr>fb_rules := Live (put_rule rules r rule)\<rparr>)))"

fun do_call :: "json_heap \<Rightarrow> LDFlagBuilder \<Rightarrow> builder_call \<Rightarrow> (json_heap \<times> LDFlagBuilder) exec" where
  "do_call h fb SetBoolean = exec_bind (LDFlagBuilderBooleanFlag fb) (\<lambda>(_, fb). Inr (h, fb))"
| "do_call h fb (SetOn b) = Inr (h, LDFlagBuilderOn fb b)"
| "do_call h fb (SetVariations v) = exec_bind (LDFlagBuilderVariations fb v) (\<lambda>(_, fb). Inr (h, fb))"
| "do_call h fb (SetFallthrough i) = Inr (h, LDFlagBuilderFallthroughVariation fb i)"
| "do_call h fb (SetFallthroughBoolean b) =
     exec_bind (LDFlagBuilderFallthroughVariationBoolean fb b) (\<lambda>(_, fb). Inr (h, fb))"
| "do_call h fb (SetOff i) = Inr (h, LDFlagBuilderOffVariation fb i)"
| "do_call h fb (SetOffBoolean b) = exec_bind (LDFlagBuilderOffVariationBoolean fb b) (\<lambda>(_, fb). Inr (h, fb))"
| "do_call h fb (AllUsers i) = LDFlagBuilderVariationForAllUsers h fb i"
| "do_call h fb (AllUsersBoolean b) =
     exec_bind (LDFlagBuilderVariationForAllUsersBoolean h fb b) (\<lambda>(_, h, fb). Inr (h, fb))"
| "do_call h fb (AllUsersValue v) = LDFlagBuilderValueForAllUsers h fb v"
| "do_call h fb (ForUser u i) = exec_bind (LDFlagBuilderVariationForUser fb u i) (\<lambda>(_, fb). Inr (h, fb))"
| "do_call h fb (ForUserBoolean u b) =
     exec_bind (LDFlagBuilderVariationForUserBoolean fb u b) (\<lambda>(_, fb). Inr (h, fb))"
| "do_call h fb (IfMatch a v) = exec_bind (LDFlagBuilderIfMatch h fb a v) (\<lambda>(_, h, fb). Inr (h, fb))"
| "do_call h fb (IfNotMatch a v) = exec_bind (LDFlagBuilderIfNotMatch h fb a v) (\<lambda>(_, h, fb). Inr (h, fb))"
| "do_call h fb (AndMatch r a v) = on_rule h fb r (\<lambda>rule. LDFlagRuleBuilderAndMatch h rule a v)"
| "do_call h fb (AndNotMatch r a v) = on_rule h fb r (\<lambda>rule. LDFlagRuleBuilderAndNotMatch h rule a v)"
| "do_call h fb (ThenReturn r i) = on_rule h fb r (\<lambda>rule. (True, h, LDFlagRuleBuilderThenReturn rule i))"
| "do_call h fb (ThenReturnBoolean r b) =
     exec_bind (LDFlagRuleBuilderThenReturnBoolean fb r b) (\<lambda>(_, fb). Inr (h, fb))"

fun do_calls :: "json_heap \<Rightarrow> LDFlagBuilder \<Rightarrow> builder_call list \<Rightarrow> (json_heap \<times> LDFlagBuilder) exec" where
  "do_calls h fb [] = Inr (h, fb)"
| "do_calls h fb (c # cs) = exec_bind (do_call h fb c) (\<lambda>(h, fb). do_calls h fb cs)"

text \<open>The invariant of a builder that has not been left with a pointer to freed lists.\<close>

definition builder_inv :: "json_heap \<Rightarrow> LDFlagBuilder \<Rightarrow> bool" where
  "builder_inv h fb \<longleftrightarrow> (\<exists>ts rs. fb_targets fb = Live ts \<and> targets_ok ts \<and> fb_rules fb = Live rs \<and>
     distinct (rule_cells rs) \<and>
     (\<forall>p\<in>set (rule_cells rs). cell_live h p \<and> LDJSONGetType (Some (cell h p)) = LDArray) \<and>
     LDJSONGetType (fb_variations fb) = LDArray)"

text \<open>
  What the application has to respect: variations are not \<open>NULL\<close>, a handle names a rule,
  and a call for all users is made only while there are no targets and no rules.
\<close>

fun safe_call :: "LDFlagBuilder \<Rightarrow> builder_call \<Rightarrow> bool" where
  "safe_call fb (SetVariations v) \<longleftrightarrow> v \<noteq> None"
| "safe_call fb (AllUsers i) \<longleftrightarrow> targets_of fb = [] \<and> rules_of fb = []"
| "safe_call fb (AllUsersBoolean b) \<longleftrightarrow> targets_of fb = [] \<and> rules_of fb = []"
| "safe_call fb (AllUsersValue v) \<longleftrightarrow> v \<noteq> None \<and> targets_of fb = [] \<and> rules_of fb = []"
| "safe_call fb (AndMatch r a v) \<longleftrightarrow> r < length (rules_of fb)"
| "safe_call fb (AndNotMatch r a v) \<longleftrightarrow> r < length (rules_of fb)"
| "safe_call fb (ThenReturn r i) \<longleftrightarrow> r < length (rules_of fb)"
| "safe_call fb (ThenReturnBoolean r b) \<longleftrightarrow> r < length (rules_of fb)"
| "safe_call fb _ \<longleftrightarrow> True"

fun safe_calls :: "json_heap \<Rightarrow> LDFlagBuilder \<Rightarrow> builder_call list \<Rightarrow> bool" where
  "safe_calls h fb [] \<longleftrightarrow> True"
| "safe_calls h fb (c # cs) \<longleftrightarrow> safe_call fb c \<and>
     (case do_call h fb c of Inl _ \<Rightarrow> True | Inr (h, fb) \<Rightarrow> safe_calls h fb cs)"

definition keeps_inv :: "(json_heap \<times> LDFlagBuilder) exec \<Rightarrow> bool" where
  "keeps_inv m \<longleftrightarrow> (\<exists>h fb. m = Inr (h, fb) \<and> builder_inv h fb)"

lemma asJSONArray_Some: "\<exists>xs. asJSONArray (Some v) = Some (JArray xs)"
  by (cases v) (auto simp: asJSONArray_def)

lemma asJSONArray_None: "asJSONArray None = None"
  by (simp add: asJSONArray_def)

lemma variations_inv:
  assumes "builder_inv h fb" and "v \<noteq> None"
  shows "\<exists>fb'. LDFlagBuilderVariations fb v = Inr (True, fb') \<and> builder_inv h fb' \<and>
     fb_targets fb' = fb_targets fb \<and> fb_rules fb' = fb_rules fb"
  using assms asJSONArray_Some [of "the v"] by (auto simp: LDFlagBuilderVariations_def builder_inv_def)

lemma setters_inv [simp]:
  "builder_inv h (LDFlagBuilderOn fb b) = builder_inv h fb"
  "builder_inv h (LDFlagBuilderFallthroughVariation fb i) = builder_inv h fb"
  "builder_inv h (LDFlagBuilderOffVariation fb i) = builder_inv h fb"
  by (simp_all add: builder_inv_def LDFlagBuilderOn_def LDFlagBuilderFallthroughVariation_def LDFlagBuilderOffVariation_def)

lemma boolean_inv:
  assumes "builder_inv h fb"
  shows "\<exists>fb'. LDFlagBuilderBooleanFlag fb = Inr (True, fb') \<and> builder_inv h fb' \<and>
     fb_targets fb' = fb_targets fb \<and> fb_rules fb' = fb_rules fb"
  using assms variations_inv [OF assms, of "Some (JArray [JBool True, JBool False])"]
  by (auto simp: LDFlagBuilderBooleanFlag_def LDFlagBuilderFallthroughVariation_def LDFlagBuilderOffVariation_def
      builder_inv_def)

lemma all_users_inv:
  assumes "builder_inv h fb" and "targets_of fb = []" and "rules_of fb = []"
  shows "keeps_inv (LDFlagBuilderVariationForAllUsers h fb i)"
  using assms
  by (auto simp: LDFlagBuilderVariationForAllUsers_def clearUserTargets_def clearRules_def keeps_inv_def builder_inv_def
      LDFlagBuilderOn_def LDFlagBuilderFallthroughVariation_def)

lemma for_user_inv:
  assumes "builder_inv h fb"
  shows "\<exists>fb'. LDFlagBuilderVariationForUser fb u i = Inr (True, fb') \<and> builder_inv h fb'"
proof -
  obtain ts where ts: "fb_targets fb = Live ts" "targets_ok ts" using assms by (auto simp: builder_inv_def)
  obtain ts' where "LDFlagBuilderVariationForUser fb u i = Inr (True, fb\<lparr>fb_targets := Live ts'\<rparr>)" "targets_ok ts'"
    using variation_for_user [OF ts] by blast
  then show ?thesis using assms by (auto simp: builder_inv_def)
qed

text \<open>A new clause has a cell of its own.\<close>

definition and_clause ::
  "bool \<Rightarrow> json_heap \<Rightarrow> LDFlagRuleBuilder \<Rightarrow> string \<Rightarrow> LDJSON option \<Rightarrow> bool \<times> json_heap \<times> LDFlagRuleBuilder" where
  "and_clause negate h rule a v = (case newFlagRuleBuilderClause h a v negate of
       None \<Rightarrow> (False, h, rule)
     | Some (clause, h) \<Rightarrow> (True, h, rule\<lparr>br_clauses := clause # br_clauses rule\<rparr>))"

lemma and_clause_eqs:
  "LDFlagRuleBuilderAndMatch = and_clause False" "LDFlagRuleBuilderAndNotMatch = and_clause True"
  by (intro ext; simp add: and_clause_def LDFlagRuleBuilderAndMatch_def LDFlagRuleBuilderAndNotMatch_def)+

lemma and_clause_cases:
  obtains "and_clause negate h rule a v = (False, h, rule)" and "v = None"
  | p h' xs where "and_clause negate h rule a v =
        (True, h', rule\<lparr>br_clauses := \<lparr>bc_attribute = a, bc_values = p, bc_negate = negate\<rparr> # br_clauses rule\<rparr>)"
      and "heap_new h (JArray xs) = (p, h')"
proof (cases v)
  case None
  then show ?thesis using that(1) by (simp add: and_clause_def newFlagRuleBuilderClause_def asJSONArray_None)
next
  case (Some j)
  then obtain xs where "asJSONArray v = Some (JArray xs)" using asJSONArray_Some by auto
  moreover obtain p h' where "heap_new h (JArray xs) = (p, h')" by (cases "heap_new h (JArray xs)")
  ultimately show ?thesis using that(2) by (simp add: and_clause_def newFlagRuleBuilderClause_def)
qed

definition rules_inv :: "json_heap \<Rightarrow> LDFlagRuleBuilder list \<Rightarrow> bool" where
  "rules_inv h rs \<longleftrightarrow> distinct (rule_cells rs) \<and>
     (\<forall>p\<in>set (rule_cells rs). cell_live h p \<and> LDJSONGetType (Some (cell h p)) = LDArray)"

lemma builder_inv_rules:
  "builder_inv h fb \<longleftrightarrow> (\<exists>ts rs. fb_targets fb = Live ts \<and> targets_ok ts \<and> fb_rules fb = Live rs \<and> rules_inv h rs) \<and>
     LDJSONGetType (fb_variations fb) = LDArray"
  by (auto simp: builder_inv_def rules_inv_def)

lemma rules_inv_new:
  assumes "rules_inv h rs" and "heap_new h (JArray xs) = (p, h')"
    and "mset (rule_cells rs') = add_mset p (mset (rule_cells rs))"
  shows "rules_inv h' rs'"
proof -
  have "set (rule_cells rs') = insert p (set (rule_cells rs))" using assms(3) by (metis set_mset_add_mset_insert set_mset_mset)
  moreover have "p \<notin> set (rule_cells rs)" using assms(1) heap_new_live(4) [OF assms(2)] by (auto simp: rules_inv_def)
  moreover have "distinct (rule_cells rs')"
    using assms(1,3) calculation by (metis distinct.simps(2) mset.simps(2) mset_eq_imp_distinct_iff rules_inv_def)
  ultimately show ?thesis
    using assms(1) heap_new_live(1,2) [OF assms(2)] heap_new_live(3) [OF assms(2)] by (auto simp: rules_inv_def)
qed

lemma rules_inv_cells: "mset (rule_cells rs') = mset (rule_cells rs) \<Longrightarrow> rules_inv h rs' \<longleftrightarrow> rules_inv h rs"
  by (metis mset_eq_imp_distinct_iff mset_eq_setD rules_inv_def)

lemma put_rule_cells:
  assumes "rule_at rs r = Inr rule"
  shows "mset (rule_cells (put_rule rs r rule')) + mset (map bc_values (br_clauses rule)) =
     mset (rule_cells rs) + mset (map bc_values (br_clauses rule'))"
proof -
  let ?i = "length rs - Suc r"
  have i: "?i < length rs" "rs ! ?i = rule" using assms by (auto simp: rule_at_def split: if_splits)
  have app: "rule_cells (xs @ ys) = rule_cells xs @ rule_cells ys" for xs ys by (simp add: rule_cells_def)
  have "rs = take ?i rs @ rule # drop (Suc ?i) rs" using id_take_nth_drop [OF i(1)] i(2) by simp
  from arg_cong [OF this, of rule_cells]
  have 1: "rule_cells rs = rule_cells (take ?i rs) @ map bc_values (br_clauses rule) @ rule_cells (drop (Suc ?i) rs)"
    by (simp only: app rule_cells_Cons)
  have 2: "rule_cells (put_rule rs r rule') =
      rule_cells (take ?i rs) @ map bc_values (br_clauses rule') @ rule_cells (drop (Suc ?i) rs)"
    by (simp only: put_rule_def upd_conv_take_nth_drop [OF i(1)] app rule_cells_Cons)
  show ?thesis unfolding 2 arg_cong [OF 1, of mset] by (simp only: mset_append ac_simps)
qed

lemma on_rule_inv:
  assumes "builder_inv h fb" and "r < length (rules_of fb)"
    and "\<And>rule. f rule = and_clause negate h rule a v \<or> f rule = (True, h, LDFlagRuleBuilderThenReturn rule i)"
  shows "keeps_inv (on_rule h fb r f)"
proof -
  obtain rs where rs: "fb_rules fb = Live rs" "rules_inv h rs" using assms(1) by (auto simp: builder_inv_rules)
  then obtain rule where rule: "rule_at rs r = Inr rule" using assms(2) by (simp add: rule_at_def)
  obtain ok h' rule' where f: "f rule = (ok, h', rule')" by (cases "f rule")
  have "rules_inv h' (put_rule rs r rule')"
  proof (cases "f rule = (True, h, LDFlagRuleBuilderThenReturn rule i) \<or> f rule = (False, h, rule)")
    case True
    then have "h' = h" "br_clauses rule' = br_clauses rule" using f by (auto simp: LDFlagRuleBuilderThenReturn_def)
    then show ?thesis
      using rs(2) put_rule_cells [OF rule, of rule'] rules_inv_cells [of "put_rule rs r rule'" rs] by simp
  next
    case False
    then have "f rule = and_clause negate h rule a v" using assms(3) by blast
    then obtain p xs where new: "heap_new h (JArray xs) = (p, h')"
      "br_clauses rule' = \<lparr>bc_attribute = a, bc_values = p, bc_negate = negate\<rparr> # br_clauses rule"
      using False f and_clause_cases [of negate h rule a v] by (metis LDFlagRuleBuilder.select_convs(2)
          LDFlagRuleBuilder.surjective LDFlagRuleBuilder.update_convs(2) prod.inject)
    have "mset (rule_cells (put_rule rs r rule')) = add_mset p (mset (rule_cells rs))"
      using put_rule_cells [OF rule, of rule'] new(2) by simp
    then show ?thesis by (rule rules_inv_new [OF rs(2) new(1)])
  qed
  then show ?thesis
    using assms(1) rs rule f by (auto simp: on_rule_def keeps_inv_def builder_inv_rules)
qed

lemma add_rule_inv:
  assumes "builder_inv h fb"
  shows "\<exists>r h' fb'. add_rule fb (and_clause negate h \<lparr>br_variation = 0, br_clauses = []\<rparr> a v) = Inr (r, h', fb') \<and>
     builder_inv h' fb'"
proof (rule and_clause_cases [of negate h "\<lparr>br_variation = 0, br_clauses = []\<rparr>" a v])
  fix p h' xs
  assume new: "and_clause negate h \<lparr>br_variation = 0, br_clauses = []\<rparr> a v =
      (True, h', \<lparr>br_variation = 0, br_clauses = []\<rparr>\<lparr>br_clauses :=
         \<lparr>bc_attribute = a, bc_values = p, bc_negate = negate\<rparr> # br_clauses \<lparr>br_variation = 0, br_clauses = []\<rparr>\<rparr>)"
    "heap_new h (JArray xs) = (p, h')"
  obtain rs where rs: "fb_rules fb = Live rs" "rules_inv h rs" using assms by (auto simp: builder_inv_rules)
  have "rules_inv h' (\<lparr>br_variation = 0, br_clauses = [\<lparr>bc_attribute = a, bc_values = p, bc_negate = negate\<rparr>]\<rparr> # rs)"
    by (rule rules_inv_new [OF rs(2) new(2)]) simp
  then show ?thesis using assms rs(1) new(1) by (auto simp: add_rule_def builder_inv_rules)
qed (use assms in \<open>simp add: add_rule_def\<close>)

lemma then_boolean_inv:
  assumes "builder_inv h fb" and "r < length (rules_of fb)"
  shows "\<exists>fb'. LDFlagRuleBuilderThenReturnBoolean fb r b = Inr (True, fb') \<and> builder_inv h fb'"
proof -
  obtain fb1 where fb1: "LDFlagBuilderBooleanFlag fb = Inr (True, fb1)" "builder_inv h fb1" "fb_rules fb1 = fb_rules fb"
    using boolean_inv [OF assms(1)] by blast
  let ?f = "\<lambda>rule. (True, h, LDFlagRuleBuilderThenReturn rule (variationForBoolean b))"
  have "keeps_inv (on_rule h fb1 r ?f)" using fb1(2,3) assms(2) by (intro on_rule_inv) auto
  then show ?thesis
    using fb1(1) by (auto simp: LDFlagRuleBuilderThenReturnBoolean_def on_rule_def keeps_inv_def exec_simps)
qed

lemma call_inv:
  assumes "builder_inv h fb" and "safe_call fb c"
  shows "keeps_inv (do_call h fb c)"
proof -
  note bool = boolean_inv [OF assms(1)]
  obtain fb1 where fb1: "LDFlagBuilderBooleanFlag fb = Inr (True, fb1)" "builder_inv h fb1"
    "fb_targets fb1 = fb_targets fb" "fb_rules fb1 = fb_rules fb"
    using bool by blast
  show ?thesis
  proof (cases c)
    case (AllUsersBoolean b)
    then have "keeps_inv (LDFlagBuilderVariationForAllUsers h fb1 (variationForBoolean b))"
      using assms(2) fb1 by (intro all_users_inv) auto
    then show ?thesis
      using AllUsersBoolean fb1(1) by (auto simp: LDFlagBuilderVariationForAllUsersBoolean_def keeps_inv_def)
  next
    case (AllUsersValue v)
    then obtain fb2 where fb2: "LDFlagBuilderVariations fb v = Inr (True, fb2)" "builder_inv h fb2"
      "fb_targets fb2 = fb_targets fb" "fb_rules fb2 = fb_rules fb"
      using variations_inv [OF assms(1), of v] assms(2) by auto
    then have "keeps_inv (LDFlagBuilderVariationForAllUsers h fb2 0)"
      using assms(2) AllUsersValue by (intro all_users_inv) auto
    then show ?thesis using AllUsersValue fb2(1) by (simp add: LDFlagBuilderValueForAllUsers_def)
  next
    case (ForUser u i)
    then show ?thesis using for_user_inv [OF assms(1), of u i] by (auto simp: keeps_inv_def)
  next
    case (ForUserBoolean u b)
    then show ?thesis using fb1(1) for_user_inv [OF fb1(2), of u "variationForBoolean b"]
      by (auto simp: LDFlagBuilderVariationForUserBoolean_def keeps_inv_def)
  next
    case (ThenReturnBoolean r b)
    then show ?thesis using then_boolean_inv [OF assms(1), of r b] assms(2) by (auto simp: keeps_inv_def)
  next
    case (IfMatch a v)
    then show ?thesis using add_rule_inv [OF assms(1), of False a v]
      by (auto simp: keeps_inv_def LDFlagBuilderIfMatch_def and_clause_eqs)
  next
    case (IfNotMatch a v)
    then show ?thesis using add_rule_inv [OF assms(1), of True a v]
      by (auto simp: keeps_inv_def LDFlagBuilderIfNotMatch_def and_clause_eqs)
  next
    case (AndMatch r a v)
    then show ?thesis using assms by (auto simp: and_clause_eqs intro!: on_rule_inv)
  next
    case (AndNotMatch r a v)
    then show ?thesis using assms by (auto simp: and_clause_eqs intro!: on_rule_inv)
  next
    case (ThenReturn r i)
    then show ?thesis using assms by (auto intro!: on_rule_inv)
  next
    case (SetVariations v)
    then show ?thesis using variations_inv [OF assms(1), of v] assms(2) by (auto simp: keeps_inv_def)
  qed (use assms bool in \<open>auto simp: keeps_inv_def all_users_inv [unfolded keeps_inv_def]
      LDFlagBuilderFallthroughVariationBoolean_def LDFlagBuilderOffVariationBoolean_def\<close>)
qed

lemma calls_inv:
  assumes "builder_inv h fb" and "safe_calls h fb cs"
  shows "keeps_inv (do_calls h fb cs)"
  using assms
proof (induction cs arbitrary: h fb)
  case (Cons c cs)
  then obtain h' fb' where "do_call h fb c = Inr (h', fb')" "builder_inv h' fb'"
    using call_inv [of h fb c] by (auto simp: keeps_inv_def)
  then show ?case using Cons by simp
qed (simp add: keeps_inv_def)

end
