(* ===== verification/TestDataFlow.thy ===== *)
theory TestDataFlow
  imports TestFlags
begin

text \<open>
  The test data source and its clients. The stores of all started clients hold exactly the
  flags of the source, for any store that can be initialised and updated (locale
  \<open>seeded_store\<close>, interpreted on the memory store); publishing a flag reaches them; and the
  two ways in which the source loses track of memory.
\<close>

section \<open>Published flags\<close>

text \<open>A published flag is an item every store accepts, with a version in the range of a C integer.\<close>

definition built_item :: "string \<Rightarrow> LDJSON \<Rightarrow> int \<Rightarrow> bool" where
  "built_item k flag v \<longleftrightarrow> valid_item flag \<and> item_key flag = k \<and> \<not> LDi_isDataDeleted flag \<and> 0 < v \<and> v < 2 ^ 31 \<and>
     obj_lookup flag ''version'' = Some (JNumber (int_to_dbl v)) \<and> uint (item_version flag) = v"

definition flags_ok :: "LDJSON \<Rightarrow> bool" where
  "flags_ok j \<longleftrightarrow> obj_inv j \<and> (\<forall>k flag. obj_lookup j k = Some flag \<longrightarrow> (\<exists>v. built_item k flag v))"

definition published_version :: "LDJSON \<Rightarrow> string \<Rightarrow> int" where
  "published_version j k = (case obj_lookup j k of None \<Rightarrow> 0 | Some flag \<Rightarrow> uint (item_version flag))"

lemma flag_json_item:
  assumes "0 < v" and "v < 2 ^ 31"
  shows "built_item (fb_key fb) (flag_json h fb v) v"
proof -
  have i: "int32 v" using assms by (simp add: int32_def)
  then have "dbl_to_uint (int_to_dbl v) = Inr (of_int v)"
    using assms(1) uint_of_int32 [of v] dbl_to_uint_uint [of "of_int v"] by simp
  moreover have "uint (of_int v :: uint) = v" using assms by (simp add: uint_word_of_int)
  ultimately show ?thesis
    using assms
    by (simp add: built_item_def flag_json_def valid_item_def LDi_validateData_def LDi_getDataVersion_def item_version_def
        item_key_def LDi_getDataKey_def LDi_isDataDeleted_def)
qed

lemma previous_version:
  assumes "flags_ok (td_currentFlags td)"
  shows "LDi_getPreviousFlagVersion td fb = Inr (published_version (td_currentFlags td) (fb_key fb))"
    and "0 \<le> published_version (td_currentFlags td) (fb_key fb)"
proof -
  show "LDi_getPreviousFlagVersion td fb = Inr (published_version (td_currentFlags td) (fb_key fb))"
  proof (cases "obj_lookup (td_currentFlags td) (fb_key fb)")
    case (Some flag)
    then obtain v where v: "built_item (fb_key fb) flag v" using assms by (auto simp: flags_ok_def)
    then have "dbl_to_int32 (int_to_dbl v) = Inr v"
      by (simp add: built_item_def dbl_to_int32_def dbl_to_int_range_def int_to_dbl_def)
    then show ?thesis
      using Some v by (simp add: LDi_getPreviousFlagVersion_def published_version_def built_item_def)
  qed (simp add: LDi_getPreviousFlagVersion_def published_version_def)
qed (simp add: published_version_def split: option.split)

lemma flags_ok_put:
  assumes "flags_ok j" and "built_item k flag v"
  shows "flags_ok (set_key j k flag)" and "obj_lookup (set_key j k flag) k' = (if k' = k then Some flag else obj_lookup j k')"
  using assms obj.invar_put [of j k flag] obj.lookup_put [of j k flag] by (auto simp: flags_ok_def)

section \<open>Clients of the source\<close>

text \<open>A store that can be initialised: afterwards its view is the data it was given.\<close>

locale seeded_store = store_client store invar view
  for store :: "'s LDStore" and invar :: "'s \<Rightarrow> bool" and view :: "'s \<Rightarrow> store_view" +
  assumes init_view: "init_data_ok data \<Longrightarrow>
     \<exists>ctx'. si_init (implementation store) ctx data = Inr (True, ctx') \<and> invar ctx' \<and>
       (\<forall>kind k. view ctx' kind k = map_of (keyed_items (obj_lookup data (featureKindToString kind))) k)"

text \<open>Every started client has exactly the published flags in its store.\<close>

definition holds_flags ::
  "'s LDStore \<Rightarrow> ('s \<Rightarrow> bool) \<Rightarrow> ('s \<Rightarrow> store_view) \<Rightarrow> LDJSON \<Rightarrow> 's LDTestDataInstance \<Rightarrow> bool" where
  "holds_flags store invar view flags i \<longleftrightarrow> (\<forall>s. ti_store i = Some s \<longrightarrow> (\<exists>ctx. s = store_with store ctx \<and> invar ctx \<and>
     (\<forall>k. view ctx LD_FLAG k = obj_lookup flags k)))"

definition source_inv :: "'s LDStore \<Rightarrow> ('s \<Rightarrow> bool) \<Rightarrow> ('s \<Rightarrow> store_view) \<Rightarrow> 's LDTestData \<Rightarrow> bool" where
  "source_inv store invar view td \<longleftrightarrow> flags_ok (td_currentFlags td) \<and>
     list_all (holds_flags store invar view (td_currentFlags td)) (td_instances td)"

lemma flags_data_ok:
  assumes "flags_ok flags"
  shows "init_data_ok (set_key (JObject []) ''features'' flags)"
    and "map_of (keyed_items (obj_lookup (set_key (JObject []) ''features'' flags) ''features'')) k = obj_lookup flags k"
proof -
  obtain kvs where kvs: "flags = JObject kvs" "distinct (map fst kvs)" using assms by (auto simp: flags_ok_def obj_inv_def)
  have item: "\<exists>v. built_item k flag v" if "(k, flag) \<in> set kvs" for k flag
    using that assms kvs by (simp add: flags_ok_def)
  then have keyed: "keyed_items (Some flags) = kvs"
    using kvs(1) by (auto simp: keyed_items_def built_item_def split_def intro!: map_idI)
  have "list_all valid_item (iter_values (obj_lookup (set_key (JObject []) ''features'' flags) (featureKindToString kind)))"
    "distinct (map fst (keyed_items (obj_lookup (set_key (JObject []) ''features'' flags) (featureKindToString kind))))" for kind
    using kvs item keyed by (cases kind; force simp: set_key_JObject list_all_iff built_item_def keyed_items_def [of None])+
  then show "init_data_ok (set_key (JObject []) ''features'' flags)"
    by (simp add: init_data_ok_def)
  show "map_of (keyed_items (obj_lookup (set_key (JObject []) ''features'' flags) ''features'')) k = obj_lookup flags k"
    using keyed kvs(1) by (simp add: set_key_JObject)
qed

context seeded_store
begin

lemma start_inv:
  assumes "source_inv store invar view td"
  shows "\<exists>td'. test_data_start td inst (store_with store ctx) = Inr (True, td') \<and> source_inv store invar view td'"
proof -
  have ok: "flags_ok (td_currentFlags td)" using assms by (simp add: source_inv_def)
  obtain ctx' where c: "si_init (implementation store) ctx (set_key (JObject []) ''features'' (td_currentFlags td)) = Inr (True, ctx')"
    "invar ctx'" "\<forall>k. view ctx' LD_FLAG k = obj_lookup (td_currentFlags td) k"
    using init_view [OF flags_data_ok(1) [OF ok], of ctx] flags_data_ok(2) [OF ok] by fastforce
  have "LDStoreInit (store_with store ctx) (set_key (JObject []) ''features'' (td_currentFlags td)) =
      Inr (True, store_with store ctx')"
    using c(1) by (simp add: LDStoreInit_def store_with_def)
  then show ?thesis
    using assms c(2,3) by (auto simp: test_data_start_def source_inv_def list_all_iff holds_flags_def)
qed

lemma notify_inv:
  assumes "list_all (holds_flags store invar view flags) insts" and "built_item k flag v"
    and "published_version flags k < v" and "\<forall>k'. obj_lookup flags' k' = (if k' = k then Some flag else obj_lookup flags k')"
  shows "\<exists>insts'. LDi_notifyDataInstances insts flag = Inr (True, insts') \<and>
     list_all (holds_flags store invar view flags') insts'"
  using assms(1)
proof (induction insts)
  case (Cons i insts)
  then obtain insts' where rest: "LDi_notifyDataInstances insts flag = Inr (True, insts')"
    "list_all (holds_flags store invar view flags') insts'" by auto
  show ?case
  proof (cases "ti_store i")
    case None
    then show ?thesis using rest by (simp add: holds_flags_def [where i = i])
  next
    case (Some s)
    then obtain ctx where ctx: "s = store_with store ctx" "invar ctx" "\<And>k. view ctx LD_FLAG k = obj_lookup flags k"
      using Cons.prems by (auto simp: holds_flags_def)
    have item: "valid_item flag" "item_key flag = k" "uint (item_version flag) = v"
      using assms(2) by (auto simp: built_item_def)
    obtain ctx' where c: "LDStoreUpsert s LD_FLAG flag = Inr (True, store_with store ctx')" "invar ctx'"
      "view ctx' = newer_wins (view ctx) LD_FLAG flag"
      using update_newer [OF ctx(2), of "Upsert LD_FLAG flag"] item(1) ctx(1) by auto
    have "newer_wins (view ctx) LD_FLAG flag LD_FLAG k' = obj_lookup flags' k'" for k'
    proof (cases "k' = k")
      case True
      then show ?thesis
        using newer_wins_same [of "view ctx" LD_FLAG flag] item assms(3,4)
        by (auto simp: ctx(3) published_version_def word_le_def split: option.splits)
    next
      case False
      then show ?thesis using assms(4) newer_wins_other [of LD_FLAG LD_FLAG k' flag "view ctx"] item(2) ctx(3) by simp
    qed
    then have "holds_flags store invar view flags' (i\<lparr>ti_store := Some (store_with store ctx')\<rparr>)"
      using c(2,3) by (auto simp: holds_flags_def)
    then show ?thesis using Some c(1) rest by simp
  qed
qed simp

text \<open>An update that returns has either refused the builder or published it to everyone.\<close>

lemma update_inv:
  assumes "source_inv store invar view td" and "LDTestDataUpdate h td (Some fb) = Inr (ok, h', td')"
  shows "source_inv store invar view td'"
proof -
  let ?flags = "td_currentFlags td" and ?k = "fb_key fb"
  let ?v = "published_version ?flags ?k + 1"
  have ok: "flags_ok ?flags" using assms(1) by (simp add: source_inv_def)
  show ?thesis
  proof (cases "LDi_createNewFlag h td fb")
    case (Inl e)
    then show ?thesis using assms(2) by (simp add: LDTestDataUpdate_def)
  next
    case (Inr newFlag)
    have v: "0 < ?v" "?v < 2 ^ 31" and build: "LDFlagBuilderBuild h fb ?v = Inr newFlag"
      using Inr previous_version [OF ok, of fb] by (auto simp: LDi_createNewFlag_def split: if_splits)
    show ?thesis
    proof (cases newFlag)
      case None
      then show ?thesis using Inr assms by (simp add: LDTestDataUpdate_def)
    next
      case (Some flag)
      then obtain vs where vs: "fb_variations fb = Some vs"
        using build by (cases "fb_variations fb") (auto simp: LDFlagBuilderBuild_def Let_def)
      then have flag: "flag = flag_json h fb ?v"
        using build Some build_live [of h fb vs ?v] build_dead [of h fb vs ?v] by (cases "builder_live h fb") auto
      have item: "built_item ?k flag ?v" unfolding flag by (rule flag_json_item [OF v])
      let ?flags' = "set_key ?flags ?k flag"
      have map: "LDi_updateCurrentFlagsMap ?flags ?k flag = (True, Some ?flags')"
        using ok by (auto simp: LDi_updateCurrentFlagsMap_def flags_ok_def obj_inv_def set_key_def)
      have lookup: "\<forall>k'. obj_lookup ?flags' k' = (if k' = ?k then Some flag else obj_lookup ?flags k')"
        using flags_ok_put(2) [OF ok item] by blast
      obtain insts' where insts': "LDi_notifyDataInstances (td_instances td) flag = Inr (True, insts')"
        "list_all (holds_flags store invar view ?flags') insts'"
        using notify_inv [OF _ item _ lookup, of "td_instances td"] assms(1) by (auto simp: source_inv_def)
      obtain h1 td1 where td1: "LDi_updateFlagBuildersMap h (td\<lparr>td_currentFlags := ?flags'\<rparr>) fb = Inr (h1, td1)"
        using assms(2) Inr Some map by (cases "LDi_updateFlagBuildersMap h (td\<lparr>td_currentFlags := ?flags'\<rparr>) fb")
          (auto simp: LDTestDataUpdate_def)
      then have "td_currentFlags td1 = ?flags'" "td_instances td1 = td_instances td"
        by (auto simp: LDi_updateFlagBuildersMap_def Let_def exec_simps split: option.splits)
      then show ?thesis
        using assms(2) Inr Some map td1 insts' flags_ok_put(1) [OF ok item]
        by (auto simp: LDTestDataUpdate_def source_inv_def)
    qed
  qed
qed

lemma create_close_inv:
  assumes "source_inv store invar view td"
  shows "source_inv store invar view (LDTestDataCreateDataSource td inst)"
    and "source_inv store invar view (test_data_close td inst)"
  using assms
  by (auto simp: source_inv_def LDTestDataCreateDataSource_def test_data_close_def list_all_iff holds_flags_def)

lemma holds_flags_get:
  assumes "flags_ok flags" and "holds_flags store invar view flags i" and "ti_store i = Some s"
  shows "LDStoreGet s LD_FLAG k = Inr (True, obj_lookup flags k, s)"
proof -
  obtain ctx where ctx: "s = store_with store ctx" "invar ctx" "view ctx LD_FLAG k = obj_lookup flags k"
    using assms(2,3) by (auto simp: holds_flags_def)
  have "visible (obj_lookup flags k) = obj_lookup flags k"
    using assms(1) by (cases "obj_lookup flags k") (auto simp: visible_def flags_ok_def built_item_def)
  then show ?thesis using get_view [OF ctx(2)] ctx(1,3) by simp
qed

end

interpretation seeded_memory: seeded_store "\<lparr>implementation = LDStoreMemoryNew\<rparr>" ms_inv ms_view
proof
  fix data and ctx :: MemoryStoreContext
  assume "init_data_ok data"
  then show "\<exists>ctx'. si_init (implementation \<lparr>implementation = LDStoreMemoryNew\<rparr>) ctx data = Inr (True, ctx') \<and> ms_inv ctx' \<and>
       (\<forall>kind k. ms_view ctx' kind k = map_of (keyed_items (obj_lookup data (featureKindToString kind))) k)"
    using storeInit_ok [of data ctx] by (auto simp: LDStoreMemoryNew_def)
qed

section \<open>Sequences of calls on a source\<close>

text \<open>
  What an application does with a source: publish a flag (ask for its builder, change it,
  pass it to \<open>LDTestDataUpdate\<close>), and create, start and close the instance of a client.
\<close>

datatype source_call =
  Publish string "builder_call list" | Create nat | Start nat MemoryStoreContext | Close nat

fun do_source_call :: "json_heap \<Rightarrow> MemoryStoreContext LDTestData \<Rightarrow> source_call \<Rightarrow>
    (json_heap \<times> MemoryStoreContext LDTestData) exec" where
  "do_source_call h td (Publish key cs) =
     exec_bind (LDTestDataFlag td key) (\<lambda>fb. case fb of
         None \<Rightarrow> Inr (h, td)
       | Some fb \<Rightarrow> exec_bind (do_calls h fb cs) (\<lambda>(h, fb).
           exec_bind (LDTestDataUpdate h td (Some fb)) (\<lambda>(_, h, td). Inr (h, td))))"
| "do_source_call h td (Create inst) = Inr (h, LDTestDataCreateDataSource td inst)"
| "do_source_call h td (Start inst ctx) =
     exec_bind (test_data_start td inst (memory_handle ctx)) (\<lambda>(_, td). Inr (h, td))"
| "do_source_call h td (Close inst) = Inr (h, test_data_close td inst)"

fun do_source_calls :: "json_heap \<Rightarrow> MemoryStoreContext LDTestData \<Rightarrow> source_call list \<Rightarrow>
    (json_heap \<times> MemoryStoreContext LDTestData) exec" where
  "do_source_calls h td [] = Inr (h, td)"
| "do_source_calls h td (c # cs) = exec_bind (do_source_call h td c) (\<lambda>(h, td). do_source_calls h td cs)"

abbreviation memory_source_inv :: "MemoryStoreContext LDTestData \<Rightarrow> bool" where
  "memory_source_inv \<equiv> source_inv \<lparr>implementation = LDStoreMemoryNew\<rparr> ms_inv ms_view"

lemma source_call_inv:
  assumes "memory_source_inv td" and "do_source_call h td c = Inr (h', td')"
  shows "memory_source_inv td'"
proof (cases c)
  case (Publish key cs)
  then show ?thesis
    using assms seeded_memory.update_inv by (fastforce simp: exec_simps split: option.splits)
next
  case (Start inst ctx)
  then show ?thesis
    using assms(2) seeded_memory.start_inv [OF assms(1), of inst ctx] by (auto simp: memory_handle_def)
qed (use assms seeded_memory.create_close_inv [OF assms(1)] in auto)

lemma source_calls_inv:
  "memory_source_inv td \<Longrightarrow> do_source_calls h td cs = Inr (h', td') \<Longrightarrow> memory_source_inv td'"
proof (induction cs arbitrary: h td)
  case (Cons c cs)
  then obtain h1 td1 where "do_source_call h td c = Inr (h1, td1)" "do_source_calls h1 td1 cs = Inr (h', td')"
    by (auto simp: exec_simps)
  then show ?case using Cons.IH source_call_inv [OF Cons.prems(1)] by blast
qed simp

lemma source_init_inv: "memory_source_inv LDTestDataInit"
  by (simp add: source_inv_def LDTestDataInit_def flags_ok_def obj_inv_def)

section \<open>Properties\<close>

text \<open>C14: whatever flags an application publishes and whichever clients it starts and stops, in
  any order, the store of every started client holds exactly the flags the source has: a read
  of a flag returns what the source has under that key, and nothing else.\<close>

theorem clients_see_published_flags:
  assumes "do_source_calls [] LDTestDataInit cs = Inr (h, td)" and "i \<in> set (td_instances td)" and "ti_store i = Some s"
  shows "LDStoreGet s LD_FLAG k = Inr (True, LDObjectLookup (Some (td_currentFlags td)) k, s)"
proof -
  have inv: "memory_source_inv td" using source_calls_inv [OF source_init_inv assms(1)] .
  then have "flags_ok (td_currentFlags td)"
    "holds_flags \<lparr>implementation = LDStoreMemoryNew\<rparr> ms_inv ms_view (td_currentFlags td) i"
    using assms(2) by (auto simp: source_inv_def list_all_iff)
  then show ?thesis using seeded_memory.holds_flags_get [OF _ _ assms(3)] by simp
qed

lemma update_forward:
  assumes "memory_source_inv td" and "builder_live h fb" and "fb_variations fb = Some vs"
    and "published_version (td_currentFlags td) (fb_key fb) + 1 < 2 ^ 31"
    and "case hash_find (td_flagBuilders td) (fb_key fb) of None \<Rightarrow> h1 = h | Some old \<Rightarrow> LDFlagBuilderFree h old = Inr h1"
  shows "\<exists>td'. LDTestDataUpdate h td (Some fb) = Inr (True, h1, td') \<and> memory_source_inv td' \<and>
     td_currentFlags td' = set_key (td_currentFlags td) (fb_key fb)
       (flag_json h fb (published_version (td_currentFlags td) (fb_key fb) + 1)) \<and>
     hash_find (td_flagBuilders td') (fb_key fb) = Some fb \<and>
     map ti_id (td_instances td') = map ti_id (td_instances td)"
proof -
  let ?flags = "td_currentFlags td" and ?k = "fb_key fb"
  let ?v = "published_version ?flags ?k + 1"
  let ?flag = "flag_json h fb ?v"
  let ?flags' = "set_key ?flags ?k ?flag"
  let ?td = "td\<lparr>td_currentFlags := ?flags'\<rparr>"
  have ok: "flags_ok ?flags" using assms(1) by (simp add: source_inv_def)
  have item: "built_item ?k ?flag ?v"
    using previous_version(2) [OF ok, of fb] assms(4) by (intro flag_json_item) auto
  have new: "LDi_createNewFlag h td fb = Inr (Some ?flag)"
    using previous_version(1) [OF ok, of fb] assms(4) build_live [OF assms(2,3)] by (simp add: LDi_createNewFlag_def)
  have map: "LDi_updateCurrentFlagsMap ?flags ?k ?flag = (True, Some ?flags')"
    using ok by (auto simp: LDi_updateCurrentFlagsMap_def flags_ok_def obj_inv_def set_key_def)
  obtain td1 where td1: "LDi_updateFlagBuildersMap h ?td fb = Inr (h1, td1)"
    "td_currentFlags td1 = ?flags'" "td_instances td1 = td_instances td" "hash_find (td_flagBuilders td1) ?k = Some fb"
    using assms(5) by (auto simp: LDi_updateFlagBuildersMap_def Let_def hash_find_add split: option.splits)
  obtain insts' where insts': "LDi_notifyDataInstances (td_instances td) ?flag = Inr (True, insts')"
    using seeded_memory.notify_inv [OF _ item _, of ?flags "td_instances td" ?flags'] flags_ok_put(2) [OF ok item] assms(1)
    by (auto simp: source_inv_def)
  have ids: "map ti_id insts' = map ti_id (td_instances td)"
  proof -
    have "LDi_notifyDataInstances is f = Inr (b, is') \<Longrightarrow> map ti_id is' = map ti_id is" for "is" is' f b
      by (induction "is" arbitrary: is' b) (auto simp: exec_simps split: option.splits)
    then show ?thesis using insts' by blast
  qed
  have "LDTestDataUpdate h td (Some fb) = Inr (True, h1, td1\<lparr>td_instances := insts'\<rparr>)"
    using new map td1 insts' by (simp add: LDTestDataUpdate_def)
  moreover from this have "memory_source_inv (td1\<lparr>td_instances := insts'\<rparr>)"
    by (rule seeded_memory.update_inv [OF assms(1)])
  ultimately show ?thesis using td1(2,4) ids by simp
qed

lemma new_builder:
  assumes "hash_find (td_flagBuilders td) key = None"
  shows "LDTestDataFlag td key = Inr (Some \<lparr>fb_key = key, fb_on = True, fb_fallthroughVariation = 0, fb_offVariation = 1,
     fb_variations = Some (JArray [JBool True, JBool False]), fb_targets = Live [], fb_rules = Live []\<rparr>)"
  using assms
  by (simp add: LDTestDataFlag_def LDFlagBuilderOn_def LDFlagBuilderBooleanFlag_def LDi_isBooleanFlag_def
      LDFlagBuilderVariations_def asJSONArray_def LDFlagBuilderOffVariation_def LDFlagBuilderFallthroughVariation_def)

lemma builder_inv_live: "builder_inv h fb \<Longrightarrow> builder_live h fb \<and> (\<exists>vs. fb_variations fb = Some (JArray vs))"
  by (cases "fb_variations fb") (auto simp: builder_inv_def builder_live_def json_type_iff)

lemma duplicates_same [simp]: "flagBuilderTargetsDuplicate ts = ts" "flagBuilderRulesDuplicate rs = rs"
proof -
  have "(\<lambda>t. \<lparr>bt_variation = bt_variation t, bt_users = bt_users t\<rparr>) = id" by (rule ext) simp
  moreover have c: "(\<lambda>c. \<lparr>bc_attribute = bc_attribute c, bc_values = bc_values c, bc_negate = bc_negate c\<rparr>) = id"
    by (rule ext) simp
  moreover have "(\<lambda>r. \<lparr>br_variation = br_variation r, br_clauses = br_clauses r\<rparr>) = id" by (rule ext) simp
  ultimately show "flagBuilderTargetsDuplicate ts = ts" "flagBuilderRulesDuplicate rs = rs"
    by (simp_all add: flagBuilderTargetsDuplicate_def flagBuilderRulesDuplicate_def)
qed

lemma duplicate_inv: "builder_inv h fb \<Longrightarrow> flagBuilderDuplicate fb = Inr fb"
proof -
  assume "builder_inv h fb"
  then obtain ts rs where "fb_targets fb = Live ts" "fb_rules fb = Live rs" by (auto simp: builder_inv_def)
  moreover from this have "fb\<lparr>fb_targets := Live ts, fb_rules := Live rs\<rparr> = fb" by (cases fb) simp
  ultimately show ?thesis by (simp add: flagBuilderDuplicate_def)
qed

lemma setters_key [simp]:
  "fb_key (LDFlagBuilderOn fb b) = fb_key fb" "fb_key (LDFlagBuilderFallthroughVariation fb i) = fb_key fb"
  "fb_key (LDFlagBuilderOffVariation fb i) = fb_key fb"
  by (simp_all add: LDFlagBuilderOn_def LDFlagBuilderFallthroughVariation_def LDFlagBuilderOffVariation_def)

lemma variations_key: "LDFlagBuilderVariations fb v = Inr (ok, fb') \<Longrightarrow> fb_key fb' = fb_key fb"
  by (auto simp: LDFlagBuilderVariations_def exec_simps split: option.splits)

lemma boolean_key: "LDFlagBuilderBooleanFlag fb = Inr (ok, fb') \<Longrightarrow> fb_key fb' = fb_key fb"
  by (auto simp: LDFlagBuilderBooleanFlag_def exec_simps split: if_splits dest: variations_key)

lemma all_users_key: "LDFlagBuilderVariationForAllUsers h fb i = Inr (h', fb') \<Longrightarrow> fb_key fb' = fb_key fb"
  by (auto simp: LDFlagBuilderVariationForAllUsers_def clearUserTargets_def clearRules_def exec_simps)

lemma for_user_key: "LDFlagBuilderVariationForUser fb u i = Inr (ok, fb') \<Longrightarrow> fb_key fb' = fb_key fb"
  by (auto simp: LDFlagBuilderVariationForUser_def exec_simps Let_def split: option.splits if_splits)

lemma on_rule_key: "on_rule h fb r f = Inr (h', fb') \<Longrightarrow> fb_key fb' = fb_key fb"
  by (auto simp: on_rule_def exec_simps split_beta)

lemma add_rule_key: "add_rule fb r = Inr (n, h', fb') \<Longrightarrow> fb_key fb' = fb_key fb"
  by (auto simp: add_rule_def exec_simps split: prod.splits bool.splits)

lemma call_key:
  assumes "do_call h fb c = Inr (h', fb')"
  shows "fb_key fb' = fb_key fb"
proof (cases c)
  case (ThenReturnBoolean r b)
  then show ?thesis
    using assms by (auto simp: LDFlagRuleBuilderThenReturnBoolean_def exec_simps split: if_splits dest: boolean_key)
next
  case (AllUsersBoolean b)
  then show ?thesis using assms
    by (auto simp: LDFlagBuilderVariationForAllUsersBoolean_def exec_simps split: if_splits dest!: boolean_key all_users_key)
next
  case (ForUserBoolean u b)
  then show ?thesis using assms
    by (auto simp: LDFlagBuilderVariationForUserBoolean_def exec_simps split: if_splits dest!: boolean_key for_user_key)
qed (use assms in \<open>auto simp: exec_simps LDFlagBuilderFallthroughVariationBoolean_def LDFlagBuilderOffVariationBoolean_def
    LDFlagBuilderValueForAllUsers_def LDFlagBuilderIfMatch_def LDFlagBuilderIfNotMatch_def split: if_splits
    dest!: variations_key boolean_key all_users_key for_user_key on_rule_key add_rule_key\<close>)

lemma calls_key: "do_calls h fb cs = Inr (h', fb') \<Longrightarrow> fb_key fb' = fb_key fb"
  by (induction cs arbitrary: h fb) (auto simp: exec_simps dest!: call_key)

text \<open>What the source keeps of a key that was published without rules, if anything.\<close>

definition stored_plain :: "json_heap \<Rightarrow> 's LDTestData \<Rightarrow> string \<Rightarrow> bool" where
  "stored_plain h td key \<longleftrightarrow> (case hash_find (td_flagBuilders td) key of None \<Rightarrow> True
     | Some old \<Rightarrow> fb_key old = key \<and> builder_inv h old \<and> rules_of old = [])"

lemma plain_builder:
  assumes "stored_plain h td key"
  shows "\<exists>fb. LDTestDataFlag td key = Inr (Some fb) \<and> builder_inv h fb \<and> fb_key fb = key"
proof (cases "hash_find (td_flagBuilders td) key")
  case None
  then show ?thesis using new_builder [OF None] by (auto simp: builder_inv_def rule_cells_def)
next
  case (Some old)
  then show ?thesis using assms duplicate_inv [of h old] by (auto simp: stored_plain_def LDTestDataFlag_def)
qed

lemma plain_free:
  assumes "builder_inv h old" and "rules_of old = []"
  shows "LDFlagBuilderFree h' old = Inr h'"
proof -
  obtain ts where "fb_targets old = Live ts" "fb_rules old = Live []"
    using assms by (auto simp: builder_inv_def)
  then show ?thesis by (cases ts) (simp_all add: LDFlagBuilderFree_def clearUserTargets_def clearRules_def)
qed

lemma published_next:
  fixes td :: "'s LDTestData"
  assumes "flags_ok (td_currentFlags td)" and "published_version (td_currentFlags td) (fb_key fb) + 1 < 2 ^ 31"
  shows "published_version (set_key (td_currentFlags td) (fb_key fb)
     (flag_json h fb (published_version (td_currentFlags td) (fb_key fb) + 1))) (fb_key fb) =
     published_version (td_currentFlags td) (fb_key fb) + 1"
proof -
  have put: "built_item k flag v \<Longrightarrow> published_version (set_key (td_currentFlags td) k flag) k = v" for k flag v
    using flags_ok_put(2) [OF assms(1), of k flag v k] by (simp add: published_version_def built_item_def)
  show ?thesis using previous_version(2) [OF assms(1), of fb] assms(2) by (intro put flag_json_item) auto
qed

lemma publish_forward:
  assumes "memory_source_inv td" and "stored_plain h td key" and "LDTestDataFlag td key = Inr (Some fb0)"
    and "safe_calls h fb0 cs" and "published_version (td_currentFlags td) key + 1 < 2 ^ 31"
  shows "\<exists>h' fb td' vs. do_calls h fb0 cs = Inr (h', fb) \<and> do_source_call h td (Publish key cs) = Inr (h', td') \<and>
     memory_source_inv td' \<and> fb_variations fb = Some (JArray vs) \<and> fb_key fb = key \<and>
     td_currentFlags td' = set_key (td_currentFlags td) key
       (flag_json h' fb (published_version (td_currentFlags td) key + 1)) \<and>
     hash_find (td_flagBuilders td') key = Some fb \<and> builder_inv h' fb \<and>
     published_version (td_currentFlags td') key = published_version (td_currentFlags td) key + 1"
proof -
  have fb0: "builder_inv h fb0" "fb_key fb0 = key" using plain_builder [OF assms(2)] assms(3) by auto
  obtain h' fb where fb: "do_calls h fb0 cs = Inr (h', fb)" "builder_inv h' fb"
    using calls_inv [OF fb0(1) assms(4)] by (auto simp: keeps_inv_def)
  have key: "fb_key fb = key" using calls_key [OF fb(1)] fb0(2) by simp
  obtain vs where vs: "builder_live h' fb" "fb_variations fb = Some (JArray vs)" using builder_inv_live [OF fb(2)] by blast
  have "case hash_find (td_flagBuilders td) (fb_key fb) of None \<Rightarrow> h' = h' | Some old \<Rightarrow> LDFlagBuilderFree h' old = Inr h'"
    using assms(2) plain_free by (auto simp: stored_plain_def key split: option.splits)
  then obtain td' where "LDTestDataUpdate h' td (Some fb) = Inr (True, h', td')" "memory_source_inv td'"
     "td_currentFlags td' = set_key (td_currentFlags td) key
       (flag_json h' fb (published_version (td_currentFlags td) key + 1))"
     "hash_find (td_flagBuilders td') key = Some fb"
    using update_forward [OF assms(1) vs, of h'] assms(5) by (auto simp: key)
  then show ?thesis
    using assms(3) fb vs(2) key published_next [of td fb h'] assms(1,5) by (auto simp: source_inv_def)
qed


text \<open>A source with one started client.\<close>

definition sample_source :: "MemoryStoreContext LDTestData" where
  "sample_source = LDTestDataInit\<lparr>td_instances := [\<lparr>ti_id = 0, ti_store = Some (memory_handle
     \<lparr>ms_initialized = True, ms_features = [], ms_segments = []\<rparr>)\<rparr>]\<rparr>"

definition sample_calls :: "builder_call list" where
  "sample_calls = [ForUserBoolean ''bob'' True, IfMatch ''country'' (Some (JText ''nz'')), ThenReturnBoolean 0 True,
     AndNotMatch 0 ''name'' (Some (JArray [JText ''x''])), SetFallthroughBoolean False, ForUser ''bob'' 1]"

lemmas call_defs =
  LDFlagBuilderVariationForUserBoolean_def LDFlagBuilderBooleanFlag_def LDi_isBooleanFlag_def LDFlagBuilderVariations_def
  asJSONArray_def LDFlagBuilderOffVariation_def LDFlagBuilderFallthroughVariation_def LDFlagBuilderOn_def
  LDFlagBuilderVariationForUser_def ensure_target_def find_target_def prepend_user_def variationForBoolean_def
  LDFlagBuilderIfMatch_def add_rule_def LDFlagRuleBuilderAndMatch_def LDFlagRuleBuilderAndNotMatch_def
  newFlagRuleBuilderClause_def heap_new_def LDFlagRuleBuilderThenReturnBoolean_def rule_at_def put_rule_def
  LDFlagRuleBuilderThenReturn_def LDFlagBuilderFallthroughVariationBoolean_def on_rule_def

lemma sample_source_inv: "memory_source_inv sample_source"
  by (simp add: sample_source_def source_inv_def LDTestDataInit_def flags_ok_def obj_inv_def holds_flags_def memory_handle_def
      ms_inv_def table_inv_def ms_view_def getFromStore_def)
    (auto simp: ms_inv_def table_inv_def ms_view_def getFromStore_def intro!: exI)

lemma sample_source_run:
  "do_source_calls [] LDTestDataInit [Create 0, Start 0 memory_context] = Inr ([], sample_source)"
  by (simp add: LDTestDataInit_def LDTestDataCreateDataSource_def test_data_start_def LDStoreInit_def memory_handle_def
      store_with_def LDStoreMemoryNew_def storeInit_def set_key_JObject stringToFeatureKind_def clearStore_def
      memory_context_def sample_source_def)

theorem clients_see_published_flags_witness:
  "\<exists>i s. i \<in> set (td_instances sample_source) \<and> ti_store i = Some s \<and> LDStoreGet s LD_FLAG ''f'' = Inr (True, None, s)"
  using clients_see_published_flags [OF sample_source_run] by (auto simp: sample_source_def LDTestDataInit_def)

lemma sample_safe:
  "safe_calls [] \<lparr>fb_key = ''f'', fb_on = True, fb_fallthroughVariation = 0, fb_offVariation = 1,
     fb_variations = Some (JArray [JBool True, JBool False]), fb_targets = Live [], fb_rules = Live []\<rparr> sample_calls"
  by (simp add: sample_calls_def call_defs)

lemma sample_built: "\<exists>h fb. do_calls [] \<lparr>fb_key = ''f'', fb_on = True, fb_fallthroughVariation = 0, fb_offVariation = 1,
     fb_variations = Some (JArray [JBool True, JBool False]), fb_targets = Live [], fb_rules = Live []\<rparr> sample_calls =
     Inr (h, fb) \<and> rule_cells (rules_of fb) \<noteq> [] \<and> builder_ready h fb sample_user \<and>
     verdict h fb sample_user = Target 1 \<and> fb_variations fb = Some (JArray [JBool True, JBool False])"
  by (simp add: sample_calls_def call_defs rule_cells_def builder_ready_def builder_live_def rule_ready_def int32_def
    cell_live_def cell_def heap_read_def plain_attribute_def LDi_valueOfAttribute_def verdict_def sample_user_def LDi_userNew_def)

text \<open>The last word on a user counts and a user is targeted once: after any calls that respect
  the interface, targeting a user at a variation leaves that user in the target of that variation
  and in no other.\<close>

theorem last_target_wins:
  assumes "builder_inv h fb" and "safe_calls h fb cs"
  shows "\<exists>h' fb'. do_calls h fb (cs @ [ForUser u i]) = Inr (h', fb') \<and> builder_inv h' fb' \<and>
     (\<forall>v. assigned (targets_of fb') u v \<longleftrightarrow> v = i)"
proof -
  have app: "do_calls h fb (cs @ ds) = exec_bind (do_calls h fb cs) (\<lambda>(h, fb). do_calls h fb ds)" for ds
    by (induction cs arbitrary: h fb) (auto simp: exec_bind_def split: sum.splits)
  obtain h1 fb1 where fb1: "do_calls h fb cs = Inr (h1, fb1)" "builder_inv h1 fb1"
    using calls_inv [OF assms] by (auto simp: keeps_inv_def)
  then obtain ts where "fb_targets fb1 = Live ts" "targets_ok ts" by (auto simp: builder_inv_def)
  then obtain ts' where "LDFlagBuilderVariationForUser fb1 u i = Inr (True, fb1\<lparr>fb_targets := Live ts'\<rparr>)"
    "targets_ok ts'" "\<forall>v. assigned ts' u v \<longleftrightarrow> v = i"
    using variation_for_user [of fb1 ts u i] by auto
  then show ?thesis using fb1 by (auto simp: app builder_inv_def)
qed

theorem last_target_wins_witness:
  "\<exists>h' fb'. do_calls [] \<lparr>fb_key = ''f'', fb_on = True, fb_fallthroughVariation = 0, fb_offVariation = 1,
     fb_variations = Some (JArray [JBool True, JBool False]), fb_targets = Live [], fb_rules = Live []\<rparr>
     (sample_calls @ [ForUser ''bob'' 0]) = Inr (h', fb') \<and> assigned (targets_of fb') ''bob'' 0 \<and>
     \<not> assigned (targets_of fb') ''bob'' 1"
proof -
  have "builder_inv [] \<lparr>fb_key = ''f'', fb_on = True, fb_fallthroughVariation = 0, fb_offVariation = 1,
     fb_variations = Some (JArray [JBool True, JBool False]), fb_targets = Live [], fb_rules = Live []\<rparr>"
    by (simp add: builder_inv_def rule_cells_def)
  from last_target_wins [OF this sample_safe, of "''bob''" 0] show ?thesis by auto
qed

section \<open>Memory errors\<close>

text \<open>C39: rules do not survive being published twice more. Copying a builder copies the pointer to
  the values of each clause, and publishing the copy frees them with the builder it replaces:
  after a flag that has a clause is published again unchanged, the next publication of that flag
  reads freed memory.\<close>

theorem republished_rules_are_freed:
  assumes "memory_source_inv td" and "hash_find (td_flagBuilders td) key = Some fb" and "fb_key fb = key"
    and "builder_inv h fb" and "rule_cells (rules_of fb) \<noteq> []"
    and "published_version (td_currentFlags td) key + 2 < 2 ^ 31"
  shows "\<exists>h1 td1. do_source_call h td (Publish key []) = Inr (h1, td1) \<and>
     do_source_call h1 td1 (Publish key []) = Inl UseAfterFree"
proof -
  obtain ts rs where b: "fb_targets fb = Live ts" "fb_rules fb = Live rs" "distinct (rule_cells rs)"
    "\<forall>p\<in>set (rule_cells rs). cell_live h p"
    using assms(4) by (auto simp: builder_inv_def)
  then obtain r rs' where rs: "rs = r # rs'" using assms(5) by (cases rs) (auto simp: rule_cells_def)
  obtain h1 where h1: "heap_free_all h (rule_cells rs) = Inr h1" "\<forall>q. cell_live h1 q \<longleftrightarrow> cell_live h q \<and> q \<notin> set (rule_cells rs)"
    using heap_free_all_live [OF b(3,4)] by blast
  have free: "LDFlagBuilderFree h fb = Inr h1"
    using b(1,2) h1(1) by (cases ts) (simp_all add: LDFlagBuilderFree_def clearUserTargets_def clearRules_def rs)
  obtain vs where vs: "builder_live h fb" "fb_variations fb = Some (JArray vs)" using builder_inv_live [OF assms(4)] by blast
  have dup: "flagBuilderDuplicate fb = Inr fb" using duplicate_inv [OF assms(4)] .
  obtain td1 where td1: "LDTestDataUpdate h td (Some fb) = Inr (True, h1, td1)" "memory_source_inv td1"
    "hash_find (td_flagBuilders td1) key = Some fb"
    "td_currentFlags td1 = set_key (td_currentFlags td) key (flag_json h fb (published_version (td_currentFlags td) key + 1))"
    using update_forward [OF assms(1) vs, of h1] assms(2,3,6) free by auto
  have ok: "flags_ok (td_currentFlags td)" "flags_ok (td_currentFlags td1)" using assms(1) td1(2) by (simp_all add: source_inv_def)
  have v: "published_version (td_currentFlags td1) key = published_version (td_currentFlags td) key + 1"
    using published_next [OF ok(1), of fb h] assms(3,6) td1(4) by simp
  have "\<not> builder_live h1 fb"
    using h1(2) b(2) assms(5) by (auto simp: builder_live_def neq_Nil_conv)
  then have "LDTestDataUpdate h1 td1 (Some fb) = Inl UseAfterFree"
    using previous_version(1) [OF ok(2), of fb] v assms(3,6) build_dead [OF _ vs(2)]
    by (simp add: LDTestDataUpdate_def LDi_createNewFlag_def)
  then show ?thesis using td1(1,3) assms(2) dup by (simp add: LDTestDataFlag_def)
qed

theorem republished_rules_are_freed_witness:
  "do_source_calls [] sample_source [Publish ''f'' sample_calls, Publish ''f'' [], Publish ''f'' []] = Inl UseAfterFree"
proof -
  have find: "hash_find (td_flagBuilders sample_source) ''f'' = None" by (simp add: sample_source_def LDTestDataInit_def)
  have "stored_plain [] sample_source ''f''" using find by (simp add: stored_plain_def)
  moreover have v: "published_version (td_currentFlags sample_source) ''f'' = 0"
    by (simp add: published_version_def sample_source_def LDTestDataInit_def)
  ultimately obtain h fb td where p: "do_source_call [] sample_source (Publish ''f'' sample_calls) = Inr (h, td)"
    "memory_source_inv td" "fb_key fb = ''f''" "hash_find (td_flagBuilders td) ''f'' = Some fb" "builder_inv h fb"
    "rule_cells (rules_of fb) \<noteq> []" "published_version (td_currentFlags td) ''f'' = 1"
    using publish_forward [OF sample_source_inv _ new_builder [OF find] sample_safe] sample_built by auto
  then show ?thesis using republished_rules_are_freed [OF p(2,4,3,5,6)] by auto
qed

text \<open>\<open>LDFlagBuilderVariationForAllUsers\<close> frees the targets of a builder and leaves the pointer to
  them in place: from then on publishing the builder, targeting a user and even freeing the
  builder read freed memory.\<close>

theorem all_users_leaves_dangling_targets:
  assumes "fb_targets fb = Live (t # ts)" and "fb_rules fb = Live []" and "fb_variations fb = Some vs"
  shows "\<exists>fb'. LDFlagBuilderVariationForAllUsers h fb i = Inr (h, fb') \<and>
     LDFlagBuilderBuild h fb' v = Inl UseAfterFree \<and>
     LDFlagBuilderVariationForUser fb' u j = Inl UseAfterFree \<and>
     LDFlagBuilderFree h fb' = Inl UseAfterFree"
  using assms
  by (simp add: LDFlagBuilderVariationForAllUsers_def clearUserTargets_def clearRules_def LDFlagBuilderOn_def
      LDFlagBuilderFallthroughVariation_def LDFlagBuilderBuild_def LDFlagBuilderVariationForUser_def LDFlagBuilderFree_def)

text \<open>\<open>LDFlagBuilderValueForAllUsers\<close> leaves the off variation of a boolean flag at 1 while there is only
  one variation left: with targeting off the flag is malformed instead of returning the value.\<close>

theorem value_for_all_users_off_is_malformed:
  assumes "fb_targets fb = Live []" and "fb_rules fb = Live []" and "fb_offVariation fb = 1"
    and "LDJSONGetType (Some x) \<noteq> LDArray"
  shows "\<exists>fb'. LDFlagBuilderValueForAllUsers h fb (Some x) = Inr (h, fb') \<and>
     LDi_evaluate (Suc n) env user (flag_json h fb' v) st =
       Inr (EVAL_MATCH, select_variation st LD_FALLTHROUGH (DetailsFallthrough False) 0 x) \<and>
     LDi_evaluate (Suc n) env user (flag_json h (LDFlagBuilderOn fb' False) v) st = Inr (EVAL_SCHEMA, malformed st)"
proof -
  let ?fb = "fb\<lparr>fb_variations := Some (JArray [x]), fb_targets := Live [], fb_rules := Live [], fb_on := True,
     fb_fallthroughVariation := 0\<rparr>"
  have run: "LDFlagBuilderValueForAllUsers h fb (Some x) = Inr (h, ?fb)"
    using assms
    by (simp add: LDFlagBuilderValueForAllUsers_def LDFlagBuilderVariations_def asJSONArray_def
        LDFlagBuilderVariationForAllUsers_def clearUserTargets_def clearRules_def LDFlagBuilderOn_def
        LDFlagBuilderFallthroughVariation_def)
  have ready: "builder_ready h ?fb user" "builder_ready h (LDFlagBuilderOn ?fb False) user"
    using assms(3) by (simp_all add: builder_ready_def builder_live_def rule_cells_def int32_def LDFlagBuilderOn_def)
  show ?thesis
    using run built_flag_evaluates [OF ready(1), of "[x]" n env v st] built_flag_evaluates [OF ready(2), of "[x]" n env v st]
      assms(3)
    by (simp add: verdict_def serve_def LDFlagBuilderOn_def)
qed

end
