(* ===== verification/FileData.thy ===== *)
theory FileData
  imports Precedence JsonParse JsonHelpers
begin

text \<open>
  The file data source, \<open>src/integrations/file_data.c\<close>: flags and segments read from JSON
  files. The file system is an argument, a function from names to contents that gives \<open>None\<close>
  for a file that cannot be opened.
\<close>

section \<open>Reading a file\<close>

text \<open>
  The buffer starts with 512 bytes and doubles when it is full. Both counters are
  \<open>unsigned int\<close>, so the size becomes 0 when it should be 4 GB, and a block of 0 bytes has no
  room for the next character. (A \<open>realloc\<close> that answers a size of 0 by freeing the block and
  returning \<open>NULL\<close> leads to a second free instead; the model has the one fault for both.)
\<close>

fun read_loop :: "nat \<Rightarrow> nat \<Rightarrow> string \<Rightarrow> string \<Rightarrow> string exec" where
  "read_loop allocatedBytes bytesRead buffer rest =
     (let allocatedBytes = (if bytesRead \<ge> allocatedBytes then allocatedBytes * 2 mod 2 ^ 32 else allocatedBytes)
      in if \<not> bytesRead < allocatedBytes then Inl OutOfBounds
         else case rest of
             [] \<Rightarrow> Inr buffer
           | c # cs \<Rightarrow> read_loop allocatedBytes ((bytesRead + 1) mod 2 ^ 32) (buffer @ [c]) cs)"

declare read_loop.simps [simp del]

definition readFile :: "(string \<Rightarrow> string option) \<Rightarrow> string \<Rightarrow> string option exec" where
  "readFile fs filename = (case fs filename of
       None \<Rightarrow> Inr None
     | Some content \<Rightarrow> exec_bind (read_loop 512 0 [] content) (\<lambda>buffer. Inr (Some buffer)))"

text \<open>The parser reads the buffer as a C string, up to its first NUL.\<close>

definition LDi_loadJSONFile :: "(string \<Rightarrow> string option) \<Rightarrow> string \<Rightarrow> LDJSON option exec" where
  "LDi_loadJSONFile fs filename =
     exec_bind (readFile fs filename) (\<lambda>buffer. case buffer of
         None \<Rightarrow> Inr None
       | Some b \<Rightarrow> Inr (LDJSONDeserialize (Some (c_string b))))"

section \<open>Flags in a file\<close>

text \<open>A flag for every user from a value alone.\<close>

definition simple_flag :: "string \<Rightarrow> LDJSON \<Rightarrow> LDJSON" where
  "simple_flag key v =
     (let flag = JObject [];
          flag = set_key flag ''variations'' (JArray [v]);
          flag = set_key flag ''fallthrough'' (set_key (JObject []) ''variation'' (JNumber (Fin 0)));
          flag = set_key flag ''key'' (JText key);
          flag = set_key flag ''on'' (JBool True);
          flag = set_key flag ''version'' (JNumber (Fin 1))
      in set_key flag ''salt'' (JText ''salt''))"

fun expand_loop :: "LDJSON \<Rightarrow> (string option \<times> LDJSON) list \<Rightarrow> LDJSON exec" where
  "expand_loop flags [] = Inr flags"
| "expand_loop flags ((key, iter) # rest) =
     exec_bind (deref key) (\<lambda>key. expand_loop (set_key flags key (simple_flag key iter)) rest)"

definition expandSimpleFlags :: "LDJSON \<Rightarrow> LDJSON exec" where
  "expandSimpleFlags json =
     exec_bind (ld_assert (LDJSONGetType (Some json) = LDObject)) (\<lambda>_.
       expand_loop (JObject []) (LDGetIter (Some json)))"

text \<open>Every flag of a file gets version 1 and a salt; \<open>None\<close> where it is not an object.\<close>

definition stamp :: "LDJSON \<Rightarrow> LDJSON option" where
  "stamp iter = (case LDObjectSetNumber (Some iter) (Some ''version'') (Fin 1) of
       (False, _) \<Rightarrow> None
     | (True, iter) \<Rightarrow> (case LDObjectSetString iter (Some ''salt'') (Some ''salt'') of
         (False, _) \<Rightarrow> None
       | (True, iter) \<Rightarrow> iter))"

fun stamp_list :: "LDJSON list \<Rightarrow> LDJSON list option" where
  "stamp_list [] = Some []"
| "stamp_list (x # xs) = Option.bind (stamp x) (\<lambda>y. map_option (Cons y) (stamp_list xs))"

fun stamp_children :: "LDJSON \<Rightarrow> LDJSON option" where
  "stamp_children (JObject kvs) = map_option (\<lambda>vs. JObject (zip (map fst kvs) vs)) (stamp_list (map snd kvs))"
| "stamp_children (JArray xs) = map_option JArray (stamp_list xs)"
| "stamp_children j = Some j"

text \<open>The new members first, then what was loaded before over them.\<close>

definition merge_under :: "LDJSON \<Rightarrow> LDJSON \<Rightarrow> LDJSON option" where
  "merge_under new old = (case LDObjectMerge (Some (JObject [])) (Some new) of
       (False, _) \<Rightarrow> None
     | (True, temp) \<Rightarrow> (case LDObjectMerge temp (Some old) of
         (False, _) \<Rightarrow> None
       | (True, temp) \<Rightarrow> temp))"

definition handle_flags :: "LDJSON \<Rightarrow> LDJSON \<Rightarrow> (LDJSON \<times> LDJSON) option" where
  "handle_flags flags json = (case LDObjectDetachKey (Some json) ''flags'' of
       (None, json) \<Rightarrow> Some (flags, the json)
     | (Some tempFlags, json) \<Rightarrow> Option.bind (stamp_children tempFlags) (\<lambda>tempFlags.
         map_option (\<lambda>flags. (flags, the json)) (merge_under tempFlags flags)))"

definition handle_flag_values :: "LDJSON \<Rightarrow> LDJSON \<Rightarrow> LDJSON option exec" where
  "handle_flag_values flags json = (case LDObjectLookup (Some json) ''flagValues'' of
       None \<Rightarrow> Inr (Some flags)
     | Some tempFlagValues \<Rightarrow> exec_bind (expandSimpleFlags tempFlagValues) (\<lambda>expanded.
         Inr (merge_under expanded flags)))"

definition handle_segments :: "LDJSON \<Rightarrow> LDJSON \<Rightarrow> LDJSON option" where
  "handle_segments segments json = (case LDObjectDetachKey (Some json) ''segments'' of
       (None, _) \<Rightarrow> Some segments
     | (Some tempSegments, _) \<Rightarrow> merge_under tempSegments segments)"

section \<open>The data source\<close>

text \<open>
  The body of the loop over the files, on the flags and segments loaded so far: \<open>None\<close> jumps to
  \<open>fail\<close>. A name may be \<open>NULL\<close>; a file that cannot be read, that is not JSON or that is not an
  object is passed over.
\<close>

definition load_file ::
  "(string \<Rightarrow> string option) \<Rightarrow> LDJSON \<times> LDJSON \<Rightarrow> string option \<Rightarrow> (LDJSON \<times> LDJSON) option exec" where
  "load_file fs loaded filename = (case filename of
       None \<Rightarrow> Inr (Some loaded)
     | Some filename \<Rightarrow> exec_bind (LDi_loadJSONFile fs filename) (\<lambda>json. case json of
           None \<Rightarrow> Inr (Some loaded)
         | Some json \<Rightarrow>
             if LDJSONGetType (Some json) \<noteq> LDObject then Inr (Some loaded)
             else case handle_flags (fst loaded) json of
               None \<Rightarrow> Inr None
             | Some (flags, json) \<Rightarrow> exec_bind (handle_flag_values flags json) (\<lambda>r. case r of
                   None \<Rightarrow> Inr None
                 | Some flags \<Rightarrow>
                     Inr (map_option (Pair flags) (handle_segments (snd loaded) json)))))"

fun load_files ::
  "(string \<Rightarrow> string option) \<Rightarrow> LDJSON \<times> LDJSON \<Rightarrow> string option list \<Rightarrow> (LDJSON \<times> LDJSON) option exec" where
  "load_files fs loaded [] = Inr (Some loaded)"
| "load_files fs loaded (f # filenames) = exec_bind (load_file fs loaded f) (\<lambda>r. case r of
       None \<Rightarrow> Inr None
     | Some loaded \<Rightarrow> load_files fs loaded filenames)"

text \<open>The data of the source; \<open>None\<close> is a \<open>NULL\<close> data source.\<close>

definition LDFileDataInit :: "(string \<Rightarrow> string option) \<Rightarrow> string option list \<Rightarrow> LDJSON option exec" where
  "LDFileDataInit fs filenames =
     exec_bind (load_files fs (JObject [], JObject []) filenames) (\<lambda>r. Inr (map_option (\<lambda>(flags, segments).
       let data = set_key (JObject []) ''features'' flags in set_key data ''segments'' segments) r))"

definition file_data_start :: "LDJSON \<Rightarrow> 's LDStore \<Rightarrow> (bool \<times> 's LDStore) exec" where
  "file_data_start data store = LDStoreInit store data"

end
