(* ===== verification/FileDataFlow.thy ===== *)
theory FileDataFlow
  imports FileData
begin

text \<open>
  What a file data source loads and serves: the size of file its reader handles, which
  definition of a key stays, and the way of a plain value from a file to a user.
\<close>

section \<open>Reading\<close>

lemma read_loop_ok:
  assumes "9 \<le> j" and "j \<le> 31" and "n \<le> 2 ^ j" and "n + length rest < 2 ^ 31"
  shows "read_loop (2 ^ j) n buf rest = Inr (buf @ rest)"
  using assms
proof (induction rest arbitrary: j n buf)
  case (Cons c cs)
  have step: "read_loop (2 ^ i) (Suc n) (buf @ [c]) cs = Inr (buf @ c # cs)" if "9 \<le> i" "i \<le> 31" "n < 2 ^ i" for i
    using Cons.IH [of i "Suc n" "buf @ [c]"] Cons.prems that by simp
  show ?case
  proof (cases "n < 2 ^ j")
    case True
    then show ?thesis using step [of j] Cons.prems by (subst read_loop.simps) simp
  next
    case False
    then have n: "n = 2 ^ j" using Cons.prems by simp
    then have lt: "2 ^ j < (2 ^ 31 :: nat)" using Cons.prems by simp
    then have j: "j < 31" by (rule power_less_imp_less_exp [rotated]) simp
    then have "(2 :: nat) ^ Suc j \<le> 2 ^ 31" by (intro power_increasing) auto
    then have "2 ^ j * 2 mod 2 ^ 32 = (2 ^ Suc j :: nat)" by simp
    then show ?thesis using step [of "Suc j"] Cons.prems j n by (subst read_loop.simps) (simp add: mult.commute)
  qed
next
  case Nil
  show ?case
  proof (cases "n < 2 ^ j")
    case True
    then show ?thesis by (subst read_loop.simps) simp
  next
    case False
    then have n: "n = 2 ^ j" using Nil by simp
    then have "2 ^ j < (2 ^ 31 :: nat)" using Nil by simp
    then have "j < 31" by (rule power_less_imp_less_exp [rotated]) simp
    then have "(2 :: nat) ^ Suc j \<le> 2 ^ 31" by (intro power_increasing) auto
    then have "2 ^ j * 2 mod 2 ^ 32 = (2 ^ Suc j :: nat)" by simp
    then show ?thesis using n by (subst read_loop.simps) simp
  qed
qed

lemma read_loop_long:
  assumes "9 \<le> j" and "j \<le> 31" and "n \<le> 2 ^ j" and "2 ^ 31 \<le> n + length rest"
  shows "read_loop (2 ^ j) n buf rest = Inl OutOfBounds"
  using assms
proof (induction rest arbitrary: j n buf)
  case (Cons c cs)
  have step: "read_loop (2 ^ i) (Suc n) (buf @ [c]) cs = Inl OutOfBounds" if "9 \<le> i" "i \<le> 31" "n < 2 ^ i" for i
    using Cons.IH [of i "Suc n" "buf @ [c]"] Cons.prems that by simp
  have le: "n \<le> 2 ^ 31" using Cons.prems(2,3) power_increasing [of j 31 "2 :: nat"] by linarith
  show ?case
  proof (cases "n < 2 ^ j")
    case True
    then show ?thesis using step [of j] Cons.prems le by (subst read_loop.simps) simp
  next
    case False
    then have n: "n = 2 ^ j" using Cons.prems by simp
    show ?thesis
    proof (cases "j = 31")
      case True
      then show ?thesis using n by (subst read_loop.simps) simp
    next
      case False
      then have "(2 :: nat) ^ Suc j \<le> 2 ^ 31" using Cons.prems(2) by (intro power_increasing) auto
      then have "2 ^ j * 2 mod 2 ^ 32 = (2 ^ Suc j :: nat)" by simp
      then show ?thesis using step [of "Suc j"] Cons.prems False n le by (subst read_loop.simps) (simp add: mult.commute)
    qed
  qed
next
  case Nil
  then have "n = 2 ^ 31" "j = 31"
    using power_increasing [of j 31 "2 :: nat"] power_increasing_iff [of "2 :: nat" 31 j] by auto
  then show ?case by (subst read_loop.simps) simp
qed

text \<open>Files of up to 2 GB are read whole. From that size on the size of the buffer wraps to
  0 and the reader writes outside of it, although the code means to support files up to 4 GB.\<close>

theorem readFile_size_limit:
  "readFile fs f = (case fs f of None \<Rightarrow> Inr None
     | Some content \<Rightarrow> if length content < 2 ^ 31 then Inr (Some content) else Inl OutOfBounds)"
  using read_loop_ok [of 9 0 _ "[]"] read_loop_long [of 9 0 _ "[]"]
  by (auto simp: readFile_def split: option.split)

section \<open>Merging\<close>

definition or_else :: "'a option \<Rightarrow> 'a option \<Rightarrow> 'a option" where
  "or_else a b = (case a of None \<Rightarrow> b | Some x \<Rightarrow> Some x)"

lemma or_else_simps [simp]:
  "or_else None b = b" "or_else (Some x) b = Some x" "or_else a None = a" "or_else (or_else a b) c = or_else a (or_else b c)"
  by (simp_all add: or_else_def split: option.split)

definition members :: "LDJSON option \<Rightarrow> (string \<times> LDJSON) list" where
  "members j = (case j of Some (JObject kvs) \<Rightarrow> kvs | _ \<Rightarrow> [])"

lemma merge_object:
  assumes "obj_inv j"
  shows "\<exists>m. LDObjectMerge (Some j) (Some (JObject kvs)) = (True, Some m) \<and> obj_inv m \<and>
     (\<forall>k. obj_lookup m k = or_else (map_of (rev kvs) k) (obj_lookup j k))"
proof -
  obtain es where j: "j = JObject es" using assms by (auto simp: obj_inv_def)
  let ?m = "foldl (\<lambda>m p. set_key m (fst p) (snd p)) j kvs"
  have "LDObjectMerge (Some j) (Some (JObject kvs)) = (True, Some ?m)"
    using merge_entries_foldl [of j kvs] by (simp add: j)
  then show ?thesis
    using obj.invar_put_all [OF assms, of kvs] obj.lookup_put_all [OF assms, of kvs]
    by (auto simp: or_else_def split: option.split)
qed

lemma merge_under_ok:
  assumes "obj_inv old"
  shows "\<exists>m. merge_under (JObject kvs) old = Some m \<and> obj_inv m \<and>
     (\<forall>k. obj_lookup m k = or_else (obj_lookup old k) (map_of (rev kvs) k))"
proof -
  obtain es where old: "old = JObject es" "distinct (map fst es)" using assms by (auto simp: obj_inv_def)
  obtain t where t: "LDObjectMerge (Some (JObject [])) (Some (JObject kvs)) = (True, Some t)" "obj_inv t"
    "\<forall>k. obj_lookup t k = map_of (rev kvs) k"
    using merge_object [of "JObject []" kvs] by (auto simp: obj_inv_def)
  obtain m where "LDObjectMerge (Some t) (Some old) = (True, Some m)" "obj_inv m"
    "\<forall>k. obj_lookup m k = or_else (map_of (rev es) k) (obj_lookup t k)"
    using merge_object [OF t(2), of es] old(1) by auto
  then show ?thesis using t old by (auto simp: merge_under_def map_of_rev)
qed

text \<open>A flag as the file data source stores it.\<close>

definition stamped :: "LDJSON \<Rightarrow> LDJSON" where
  "stamped flag = set_key (set_key flag ''version'' (JNumber (Fin 1))) ''salt'' (JText ''salt'')"

lemma stamp_object: "LDJSONGetType (Some j) = LDObject \<Longrightarrow> stamp j = Some (stamped j)"
  by (auto simp: json_type_iff stamp_def stamped_def set_key_JObject)

lemma stamp_children_ok:
  assumes "\<forall>v\<in>snd ` set kvs. LDJSONGetType (Some v) = LDObject"
  shows "stamp_children (JObject kvs) = Some (JObject (map (\<lambda>(k, v). (k, stamped v)) kvs))"
proof -
  have "stamp_list vs = Some (map stamped vs)" if "\<forall>v\<in>set vs. LDJSONGetType (Some v) = LDObject" for vs
    using that by (induction vs) (auto simp: stamp_object)
  then have "stamp_list (map snd kvs) = Some (map (\<lambda>p. stamped (snd p)) kvs)" using assms by simp
  moreover have "zip (map fst kvs) (map (\<lambda>p. stamped (snd p)) kvs) = map (\<lambda>(k, v). (k, stamped v)) kvs"
    by (induction kvs) auto
  ultimately show ?thesis by simp
qed

lemma map_of_rev_map:
  "map_of (rev (map (\<lambda>(k, v). (k, f k v)) kvs)) k = map_option (f k) (map_of (rev kvs) k)"
  by (simp add: rev_map map_of_map split_def) (induction kvs, auto simp: map_add_def split: option.split)

section \<open>What the files define\<close>

text \<open>The object a file holds, if it counts: a file that is missing, not JSON or not an object does not.\<close>

definition file_json :: "(string \<Rightarrow> string option) \<Rightarrow> string option \<Rightarrow> LDJSON option" where
  "file_json fs f = Option.bind f (\<lambda>f. Option.bind (fs f) (\<lambda>content.
     Option.bind (LDJSONDeserialize (Some (c_string content))) (\<lambda>j.
       if LDJSONGetType (Some j) = LDObject then Some j else None)))"

definition object_member :: "LDJSON \<Rightarrow> string \<Rightarrow> bool" where
  "object_member j k \<longleftrightarrow> (case obj_lookup j k of None \<Rightarrow> True | Some v \<Rightarrow> LDJSONGetType (Some v) = LDObject)"

definition file_ok :: "LDJSON \<Rightarrow> bool" where
  "file_ok j \<longleftrightarrow> object_member j ''flags'' \<and> object_member j ''flagValues'' \<and> object_member j ''segments'' \<and>
     (\<forall>v\<in>snd ` set (members (obj_lookup j ''flags'')). LDJSONGetType (Some v) = LDObject)"

text \<open>What one file defines for a key: a definition comes before a plain value, and of equal
  keys in one object the last.\<close>

definition file_flag :: "LDJSON \<Rightarrow> string \<Rightarrow> LDJSON option" where
  "file_flag j k = or_else (map_option stamped (map_of (rev (members (obj_lookup j ''flags''))) k))
     (map_option (simple_flag k) (map_of (rev (members (obj_lookup j ''flagValues''))) k))"

definition file_segment :: "LDJSON \<Rightarrow> string \<Rightarrow> LDJSON option" where
  "file_segment j k = map_of (rev (members (obj_lookup j ''segments''))) k"

fun first_file :: "('a \<Rightarrow> 'b option) \<Rightarrow> 'a list \<Rightarrow> 'b option" where
  "first_file f [] = None"
| "first_file f (x # xs) = or_else (f x) (first_file f xs)"

lemma object_member_cases:
  assumes "object_member j k"
  obtains "obj_lookup j k = None" and "members (obj_lookup j k) = []"
  | kvs where "obj_lookup j k = Some (JObject kvs)" and "members (obj_lookup j k) = kvs"
  using assms by (cases "obj_lookup j k") (auto simp: object_member_def members_def json_type_iff)

lemma detach_object:
  assumes "LDJSONGetType (Some j) = LDObject"
  shows "LDObjectDetachKey (Some j) k = (obj_lookup j k, Some (delete_key j k))"
    and "k' \<noteq> k \<Longrightarrow> obj_lookup (delete_key j k) k' = obj_lookup j k'"
  using assms by (auto simp: json_type_iff LDObjectDetachKey_def delete_key_JObject)

lemma handle_flags_ok:
  assumes "LDJSONGetType (Some j) = LDObject" and "file_ok j" and "obj_inv flags"
  shows "\<exists>m. handle_flags flags j = Some (m, delete_key j ''flags'') \<and> obj_inv m \<and>
     (\<forall>k. obj_lookup m k = or_else (obj_lookup flags k)
        (map_option stamped (map_of (rev (members (obj_lookup j ''flags''))) k))) \<or>
     handle_flags flags j = Some (flags, delete_key j ''flags'') \<and> obj_lookup j ''flags'' = None"
proof (rule object_member_cases [of j "''flags''"])
  show "object_member j ''flags''" using assms(2) by (simp add: file_ok_def)
next
  assume "obj_lookup j ''flags'' = None"
  then show ?thesis using detach_object(1) [OF assms(1), of "''flags''"] by (simp add: handle_flags_def)
next
  fix kvs assume kvs: "obj_lookup j ''flags'' = Some (JObject kvs)" "members (obj_lookup j ''flags'') = kvs"
  then have s: "stamp_children (JObject kvs) = Some (JObject (map (\<lambda>(k, v). (k, stamped v)) kvs))"
    using assms(2) by (intro stamp_children_ok) (simp add: file_ok_def)
  obtain m where "merge_under (JObject (map (\<lambda>(k, v). (k, stamped v)) kvs)) flags = Some m" "obj_inv m"
    "\<forall>k. obj_lookup m k = or_else (obj_lookup flags k) (map_option stamped (map_of (rev kvs) k))"
    using merge_under_ok [OF assms(3), of "map (\<lambda>(k, v). (k, stamped v)) kvs"] map_of_rev_map [of "\<lambda>k. stamped" kvs] by auto
  then show ?thesis using detach_object(1) [OF assms(1), of "''flags''"] kvs s by (auto simp: handle_flags_def)
qed

lemma expand_loop_ok:
  "expand_loop j (map (\<lambda>(k, v). (Some k, v)) kvs) =
     Inr (foldl (\<lambda>m p. set_key m (fst p) (snd p)) j (map (\<lambda>(k, v). (k, simple_flag k v)) kvs))"
  by (induction kvs arbitrary: j) auto

lemma handle_values_ok:
  assumes "object_member j ''flagValues''" and "obj_inv flags"
  shows "\<exists>m. handle_flag_values flags j = Inr (Some m) \<and> obj_inv m \<and>
     (\<forall>k. obj_lookup m k = or_else (obj_lookup flags k)
        (map_option (simple_flag k) (map_of (rev (members (obj_lookup j ''flagValues''))) k)))"
proof (rule object_member_cases [OF assms(1)])
  assume none: "obj_lookup j ''flagValues'' = None" "members (obj_lookup j ''flagValues'') = []"
  then have "handle_flag_values flags j = Inr (Some flags)" by (simp add: handle_flag_values_def)
  then show ?thesis using none assms(2) by auto
next
  fix kvs assume kvs: "obj_lookup j ''flagValues'' = Some (JObject kvs)" "members (obj_lookup j ''flagValues'') = kvs"
  let ?es = "map (\<lambda>(k, v). (k, simple_flag k v)) kvs"
  let ?e = "foldl (\<lambda>m p. set_key m (fst p) (snd p)) (JObject []) ?es"
  have e: "obj_inv ?e" "\<And>k. obj_lookup ?e k = map_of (rev ?es) k"
    using obj.invar_put_all [of "JObject []" ?es] obj.lookup_put_all [of "JObject []" ?es]
    by (auto simp: obj_inv_def split: option.split)
  then obtain ds where ds: "?e = JObject ds" "distinct (map fst ds)" by (auto simp: obj_inv_def)
  obtain m where m: "merge_under ?e flags = Some m" "obj_inv m"
    "\<forall>k. obj_lookup m k = or_else (obj_lookup flags k) (map_of (rev ds) k)"
    using merge_under_ok [OF assms(2), of ds] ds(1) by auto
  have "map_of (rev ds) k = map_option (simple_flag k) (map_of (rev kvs) k)" for k
    using e(2) [of k] map_of_rev_map [of simple_flag kvs k] ds by (simp add: map_of_rev)
  moreover have "handle_flag_values flags j = Inr (Some m)"
    using kvs(1) m(1) expand_loop_ok [of "JObject []" kvs] by (simp add: handle_flag_values_def expandSimpleFlags_def)
  ultimately show ?thesis using m(2,3) kvs(2) by auto
qed

lemma handle_segments_ok:
  assumes "LDJSONGetType (Some j) = LDObject" and "object_member j ''segments''" and "obj_inv segments"
  shows "\<exists>m. handle_segments segments j = Some m \<and> obj_inv m \<and>
     (\<forall>k. obj_lookup m k = or_else (obj_lookup segments k) (file_segment j k))"
proof (rule object_member_cases [OF assms(2)])
  assume "obj_lookup j ''segments'' = None" "members (obj_lookup j ''segments'') = []"
  then show ?thesis using assms(3) detach_object(1) [OF assms(1), of "''segments''"]
    by (simp add: handle_segments_def file_segment_def)
next
  fix kvs assume "obj_lookup j ''segments'' = Some (JObject kvs)" "members (obj_lookup j ''segments'') = kvs"
  then show ?thesis using merge_under_ok [OF assms(3), of kvs] detach_object(1) [OF assms(1), of "''segments''"]
    by (simp add: handle_segments_def file_segment_def)
qed

text \<open>Data loaded so far extended with what a file defines.\<close>

definition extends :: "LDJSON \<times> LDJSON \<Rightarrow> LDJSON \<times> LDJSON \<Rightarrow> (string \<Rightarrow> LDJSON option) \<Rightarrow> (string \<Rightarrow> LDJSON option) \<Rightarrow> bool" where
  "extends a b f g \<longleftrightarrow> obj_inv (fst b) \<and> obj_inv (snd b) \<and>
     (\<forall>k. obj_lookup (fst b) k = or_else (obj_lookup (fst a) k) (f k)) \<and>
     (\<forall>k. obj_lookup (snd b) k = or_else (obj_lookup (snd a) k) (g k))"

definition readable :: "(string \<Rightarrow> string option) \<Rightarrow> string option \<Rightarrow> bool" where
  "readable fs f \<longleftrightarrow> (\<forall>n content. f = Some n \<and> fs n = Some content \<longrightarrow> length content < 2 ^ 31) \<and>
     (\<forall>j. file_json fs f = Some j \<longrightarrow> file_ok j)"

lemma load_file_ok:
  assumes "readable fs f" and "obj_inv (fst a)" and "obj_inv (snd a)"
  shows "\<exists>b. load_file fs a f = Inr (Some b) \<and>
     extends a b (\<lambda>k. Option.bind (file_json fs f) (\<lambda>j. file_flag j k)) (\<lambda>k. Option.bind (file_json fs f) (\<lambda>j. file_segment j k))"
proof (cases "file_json fs f")
  case None
  then have "load_file fs a f = Inr (Some a)"
    using assms(1)
    by (auto simp: load_file_def file_json_def LDi_loadJSONFile_def readFile_size_limit readable_def bind_eq_None_conv
        split: option.splits if_splits)
  then show ?thesis using None assms(2,3) by (auto simp: extends_def)
next
  case (Some j)
  then obtain n content where n: "f = Some n" "fs n = Some content" "LDJSONDeserialize (Some (c_string content)) = Some j"
    and obj: "LDJSONGetType (Some j) = LDObject"
    by (auto simp: file_json_def bind_eq_Some_conv split: if_splits)
  have ok: "file_ok j" "length content < 2 ^ 31" using assms(1) Some n by (auto simp: readable_def)
  have load: "LDi_loadJSONFile fs n = Inr (Some j)"
    using n ok(2) by (simp add: LDi_loadJSONFile_def readFile_size_limit)
  let ?j = "delete_key j ''flags''"
  have j': "LDJSONGetType (Some ?j) = LDObject" "obj_lookup ?j ''flagValues'' = obj_lookup j ''flagValues''"
    "obj_lookup ?j ''segments'' = obj_lookup j ''segments''"
    using obj detach_object(2) [OF obj] by (auto simp: json_type_iff delete_key_JObject)
  obtain m where m: "handle_flags (fst a) j = Some (m, ?j)" "obj_inv m"
    "\<forall>k. obj_lookup m k = or_else (obj_lookup (fst a) k) (map_option stamped (map_of (rev (members (obj_lookup j ''flags''))) k))"
    using handle_flags_ok [OF obj ok(1) assms(2)] assms(2) by (auto simp: members_def)
  obtain m2 where m2: "handle_flag_values m ?j = Inr (Some m2)" "obj_inv m2"
    "\<forall>k. obj_lookup m2 k = or_else (obj_lookup m k)
        (map_option (simple_flag k) (map_of (rev (members (obj_lookup j ''flagValues''))) k))"
    using handle_values_ok [OF _ m(2), of ?j] ok(1) j'(2) by (auto simp: file_ok_def object_member_def)
  obtain s where s: "handle_segments (snd a) ?j = Some s" "obj_inv s"
    "\<forall>k. obj_lookup s k = or_else (obj_lookup (snd a) k) (file_segment j k)"
    using handle_segments_ok [OF j'(1) _ assms(3)] ok(1) j'(3) by (auto simp: file_ok_def object_member_def file_segment_def)
  have "load_file fs a f = Inr (Some (m2, s))"
    using n(1) load obj m(1) m2(1) s(1) by (simp add: load_file_def)
  then show ?thesis using m(3) m2(2,3) s(2,3) Some by (auto simp: extends_def file_flag_def)
qed

lemma load_files_ok:
  assumes "list_all (readable fs) fnames" and "obj_inv (fst a)" and "obj_inv (snd a)"
  shows "\<exists>b. load_files fs a fnames = Inr (Some b) \<and>
     extends a b (\<lambda>k. first_file (\<lambda>f. Option.bind (file_json fs f) (\<lambda>j. file_flag j k)) fnames)
       (\<lambda>k. first_file (\<lambda>f. Option.bind (file_json fs f) (\<lambda>j. file_segment j k)) fnames)"
  using assms
proof (induction fnames arbitrary: a)
  case (Cons f fnames)
  then obtain b where b: "load_file fs a f = Inr (Some b)"
    "extends a b (\<lambda>k. Option.bind (file_json fs f) (\<lambda>j. file_flag j k)) (\<lambda>k. Option.bind (file_json fs f) (\<lambda>j. file_segment j k))"
    using load_file_ok [of fs f a] by auto
  then have inv: "obj_inv (fst b)" "obj_inv (snd b)" by (auto simp: extends_def)
  obtain c where "load_files fs b fnames = Inr (Some c)"
    "extends b c (\<lambda>k. first_file (\<lambda>f. Option.bind (file_json fs f) (\<lambda>j. file_flag j k)) fnames)
       (\<lambda>k. first_file (\<lambda>f. Option.bind (file_json fs f) (\<lambda>j. file_segment j k)) fnames)"
    using Cons.IH [OF _ inv] Cons.prems by auto
  then show ?case using b by (auto simp: extends_def)
qed (simp add: extends_def)

text \<open>C15: the data of a file data source is what its files define, and the first definition of a key
  stays: with files that can be read and whose members have the documented types, for every key
  the flag is the one of the first file that defines it, a full definition before a plain value,
  and likewise for segments. Files that are missing, malformed or not objects change nothing.\<close>

theorem first_definition_stays:
  assumes "list_all (readable fs) fnames"
  shows "\<exists>flags segments. LDFileDataInit fs fnames = Inr (Some (JObject [(''features'', flags), (''segments'', segments)])) \<and>
     (\<forall>k. LDObjectLookup (Some flags) k = first_file (\<lambda>f. Option.bind (file_json fs f) (\<lambda>j. file_flag j k)) fnames) \<and>
     (\<forall>k. LDObjectLookup (Some segments) k = first_file (\<lambda>f. Option.bind (file_json fs f) (\<lambda>j. file_segment j k)) fnames)"
proof -
  obtain b where "load_files fs (JObject [], JObject []) fnames = Inr (Some b)"
    "extends (JObject [], JObject []) b (\<lambda>k. first_file (\<lambda>f. Option.bind (file_json fs f) (\<lambda>j. file_flag j k)) fnames)
       (\<lambda>k. first_file (\<lambda>f. Option.bind (file_json fs f) (\<lambda>j. file_segment j k)) fnames)"
    using load_files_ok [OF assms, of "(JObject [], JObject [])"] by (auto simp: obj_inv_def)
  then show ?thesis by (cases b) (auto simp: LDFileDataInit_def set_key_JObject extends_def)
qed

definition sample_files :: "string \<Rightarrow> string option" where
  "sample_files f = (if f = ''a'' then Some (''{'' @ [CHR 0x22] @ ''flagValues'' @ [CHR 0x22] @ '':{'' @ [CHR 0x22] @ ''x'' @
       [CHR 0x22] @ '':true}}'')
     else if f = ''b'' then Some (''{'' @ [CHR 0x22] @ ''flags'' @ [CHR 0x22] @ '':{'' @ [CHR 0x22] @ ''x'' @ [CHR 0x22] @ '':{}}}'')
     else if f = ''c'' then Some ''nonsense'' else None)"

lemma sample_files_json:
  "file_json sample_files (Some ''a'') = Some (JObject [(''flagValues'', JObject [(''x'', JBool True)])])"
  "file_json sample_files (Some ''b'') = Some (JObject [(''flags'', JObject [(''x'', JObject [])])])"
  "file_json sample_files (Some ''c'') = None" "file_json sample_files (Some ''d'') = None" "file_json sample_files None = None"
  by (simp_all add: file_json_def sample_files_def, code_simp+)

lemma sample_readable: "list_all (readable sample_files) [Some ''c'', None, Some ''a'', Some ''d'', Some ''b'']"
  by (simp add: readable_def sample_files_json) (simp add: sample_files_def file_ok_def object_member_def members_def)

theorem first_definition_stays_witness:
  "\<exists>flags segments. LDFileDataInit sample_files [Some ''c'', None, Some ''a'', Some ''d'', Some ''b''] =
     Inr (Some (JObject [(''features'', flags), (''segments'', segments)])) \<and>
     LDObjectLookup (Some flags) ''x'' = Some (simple_flag ''x'' (JBool True))"
proof -
  have "file_flag (JObject [(''flagValues'', JObject [(''x'', JBool True)])]) ''x'' = Some (simple_flag ''x'' (JBool True))"
    by (simp add: file_flag_def members_def)
  then show ?thesis
    using first_definition_stays [OF sample_readable] by (auto simp: sample_files_json split: bind_splits)
qed

section \<open>From a file to a user\<close>

lemma simple_flag_eq:
  "simple_flag k v = JObject [(''variations'', JArray [v]), (''fallthrough'', JObject [(''variation'', JNumber (Fin 0))]),
     (''key'', JText k), (''on'', JBool True), (''version'', JNumber (Fin 1)), (''salt'', JText ''salt'')]"
  by (simp add: simple_flag_def set_key_JObject)

lemma simple_flag_item: "valid_item (simple_flag k v)" "item_key (simple_flag k v) = k" "\<not> LDi_isDataDeleted (simple_flag k v)"
proof -
  have "dbl_to_uint (Fin 1) = Inr 1" using dbl_to_uint_uint [of 1] by (simp add: uint_to_dbl_def)
  then show "valid_item (simple_flag k v)"
    by (simp add: simple_flag_eq valid_item_def LDi_validateData_def LDi_getDataVersion_def item_version_def)
qed (simp_all add: simple_flag_eq item_key_def LDi_getDataKey_def LDi_isDataDeleted_def)

lemma simple_flag_serves:
  "LDi_evaluate (Suc n) env user (simple_flag k v) st =
     Inr (EVAL_MATCH, select_variation st LD_FALLTHROUGH (DetailsFallthrough False) 0 v)"
proof -
  let ?flag = "simple_flag k v"
  have "eval_rest env ?flag user st = eval_fallthrough (e_ext env) ?flag user st"
    by (simp add: eval_rest_def eval_targets_def eval_rules_def lookupOptionalValueOfType_def simple_flag_eq)
  moreover have "eval_fallthrough (e_ext env) ?flag user st =
      Inr (EVAL_MATCH, select_variation st LD_FALLTHROUGH (DetailsFallthrough False) 0 v)"
  proof -
    have "variation_at ?flag 0 = Some v" by (simp add: variation_at_def simple_flag_eq)
    then show ?thesis
      using addValue_ok [of ?flag 0 v] fixed_variation [of ?flag k "''salt''" "JObject [(''variation'', JNumber (Fin 0))]" 0 "e_ext env" user]
      by (simp add: eval_fallthrough_def Let_def index_member_def uint_to_dbl_def)
        (simp add: simple_flag_eq)
  qed
  moreover have "is_on ?flag" "member_value ?flag ''prerequisites'' = None"
    by (simp_all add: is_on_def member_value_def simple_flag_eq)
  ultimately show ?thesis by (simp add: eval_on_flag)
qed

lemma keyed_member:
  assumes "distinct (map fst (keyed_items (Some (JObject kvs))))" and "(k, item) \<in> set kvs" and "item_key item = k"
  shows "map_of (keyed_items (Some (JObject kvs))) k = Some item"
  using assms by (force intro: map_of_is_SomeI simp: keyed_items_def)

text \<open>C31: a plain value in a file reaches every user: when the first file that defines a key gives it a
  value, and the data as a whole is fit for a store, starting the source initialises the store, a
  read of the key returns a flag, and evaluating that flag serves the value to any user.\<close>

theorem file_value_reaches_users:
  assumes "list_all (readable fs) fnames" and "LDFileDataInit fs fnames = Inr (Some data)" and "init_data_ok data"
    and "first_file (\<lambda>f. Option.bind (file_json fs f) (\<lambda>j. file_flag j k)) fnames = Some (simple_flag k v)"
  shows "\<exists>store' flag. file_data_start data (memory_handle ctx) = Inr (True, store') \<and>
     LDStoreGet store' LD_FLAG k = Inr (True, Some flag, store') \<and>
     LDi_evaluate (Suc n) env user flag st =
       Inr (EVAL_MATCH, select_variation st LD_FALLTHROUGH (DetailsFallthrough False) 0 v)"
proof -
  obtain flags segments where d: "data = JObject [(''features'', flags), (''segments'', segments)]"
    "obj_lookup flags k = Some (simple_flag k v)"
    using load_files_ok [OF assms(1), of "(JObject [], JObject [])"] assms(2,4)
    by (auto simp: LDFileDataInit_def set_key_JObject extends_def obj_inv_def)
  then obtain kvs where kvs: "flags = JObject kvs" "(k, simple_flag k v) \<in> set kvs"
    by (cases flags) (auto dest: map_of_SomeD)
  obtain c where c: "storeInit ctx data = Inr (True, c)" "ms_inv c"
    "ms_view c LD_FLAG k = map_of (keyed_items (Some flags)) k"
    using storeInit_ok [OF assms(3), of ctx] d(1) by fastforce
  have "distinct (map fst (keyed_items (Some (JObject kvs))))"
    using assms(3) d(1) kvs(1) by (auto simp: init_data_ok_def dest!: spec [of _ LD_FLAG])
  then have "ms_view c LD_FLAG k = Some (simple_flag k v)"
    using c(3) kvs keyed_member [of kvs k "simple_flag k v"] simple_flag_item(2) by simp
  then have "LDStoreGet (memory_handle c) LD_FLAG k = Inr (True, Some (simple_flag k v), memory_handle c)"
    using mem.get_view [OF c(2), of LD_FLAG k] simple_flag_item(3) by (simp add: memory_handle_def visible_def)
  moreover have "file_data_start data (memory_handle ctx) = Inr (True, memory_handle c)"
    using c(1) by (simp add: file_data_start_def LDStoreInit_def memory_handle_def store_with_def LDStoreMemoryNew_def)
  ultimately show ?thesis using simple_flag_serves by blast
qed

theorem file_value_reaches_users_witness:
  "\<exists>data store' flag. LDFileDataInit sample_files [Some ''a''] = Inr (Some data) \<and>
     file_data_start data (memory_handle memory_context) = Inr (True, store') \<and>
     LDStoreGet store' LD_FLAG ''x'' = Inr (True, Some flag, store') \<and>
     LDi_evaluate 1 sample_env sample_user flag (fresh_outputs 0) =
       Inr (EVAL_MATCH, select_variation (fresh_outputs 0) LD_FALLTHROUGH (DetailsFallthrough False) 0 (JBool True))"
proof -
  let ?data = "JObject [(''features'', JObject [(''x'', simple_flag ''x'' (JBool True))]), (''segments'', JObject [])]"
  have json: "LDi_loadJSONFile sample_files ''a'' = Inr (Some (JObject [(''flagValues'', JObject [(''x'', JBool True)])]))"
    using sample_files_json(1)
    by (auto simp: LDi_loadJSONFile_def readFile_size_limit file_json_def bind_eq_Some_conv sample_files_def split: if_splits)
  have read: "list_all (readable sample_files) [Some ''a'']" using sample_readable by simp
  have load: "LDFileDataInit sample_files [Some ''a''] = Inr (Some ?data)"
    by (simp add: LDFileDataInit_def load_file_def json handle_flags_def LDObjectDetachKey_def handle_flag_values_def
        expandSimpleFlags_def merge_under_def handle_segments_def set_key_JObject)
  have "list_all valid_item (iter_values (obj_lookup ?data (featureKindToString kind))) \<and>
     distinct (map fst (keyed_items (obj_lookup ?data (featureKindToString kind))))" for kind
    by (cases kind) (simp_all add: simple_flag_item keyed_items_def)
  then have "init_data_ok ?data" by (simp add: init_data_ok_def) (simp add: obj_inv_def)
  moreover have "first_file (\<lambda>f. Option.bind (file_json sample_files f) (\<lambda>j. file_flag j ''x'')) [Some ''a''] =
      Some (simple_flag ''x'' (JBool True))"
    by (simp add: sample_files_json file_flag_def members_def)
  ultimately show ?thesis
    using file_value_reaches_users [OF read load, of "''x''" "JBool True" memory_context 0 sample_env sample_user "fresh_outputs 0"]
      load by auto
qed

text \<open>Bad data is not always passed over: a file whose \<open>flagValues\<close> is not an object stops the process
  on a failed assertion, and one with a flag that is not an object makes the source \<open>NULL\<close>.\<close>

theorem bad_members_are_not_ignored:
  assumes "LDi_loadJSONFile fs f = Inr (Some (JObject kvs))"
  shows "(map_of kvs ''flags'' = None \<and> map_of kvs ''flagValues'' = Some v \<and> LDJSONGetType (Some v) \<noteq> LDObject \<longrightarrow>
       LDFileDataInit fs (Some f # fnames) = Inl AssertFailed) \<and>
     (map_of kvs ''flags'' = Some (JObject [(k, v)]) \<and> LDJSONGetType (Some v) \<noteq> LDObject \<longrightarrow>
       LDFileDataInit fs (Some f # fnames) = Inr None)"
proof -
  have "stamp v = None" if "LDJSONGetType (Some v) \<noteq> LDObject" using that by (cases v) (auto simp: stamp_def)
  then show ?thesis
    using assms
    by (auto simp: LDFileDataInit_def load_file_def handle_flags_def LDObjectDetachKey_def handle_flag_values_def
        expandSimpleFlags_def)
qed

text \<open>Of equal keys in one object of a file the last definition stays, not the first.\<close>

theorem duplicate_in_a_file_replaces:
  "file_flag (JObject [(''flags'', JObject [(k, a), (k, b)])]) k = Some (stamped b)"
  by (simp add: file_flag_def members_def)

end
