(* ===== verification/RefCount.thy ===== *)
theory RefCount
  imports Json
begin

text \<open>
  Reference-counted JSON values, \<open>src/store/ldjsonrc.c\<close>, over an explicit heap: a cell is
  \<open>None\<close> once it is destroyed. The lock of a cell makes each operation atomic and is not
  represented. An array of associated items is a list, empty where it is \<open>NULL\<close>. Retaining
  and releasing follow the associations, so both take a depth; the theorems use two levels,
  which is what the stores build.
\<close>

record LDJSONRC =
  rc_value :: LDJSON
  rc_count :: uint
  rc_associated :: "nat list"

type_synonym rc_heap = "LDJSONRC option list"

definition rc_read :: "rc_heap \<Rightarrow> nat \<Rightarrow> LDJSONRC exec" where
  "rc_read h p = (if p < length h then (case h ! p of None \<Rightarrow> Inl UseAfterFree | Some rc \<Rightarrow> Inr rc) else Inl UseAfterFree)"

text \<open>The address of the new cell and the heap with it.\<close>

definition LDJSONRCNew :: "rc_heap \<Rightarrow> LDJSON \<Rightarrow> nat \<times> rc_heap" where
  "LDJSONRCNew h json = (length h, h @ [Some \<lparr>rc_value = json, rc_count = 1, rc_associated = []\<rparr>])"

fun rc_each :: "(rc_heap \<Rightarrow> nat \<Rightarrow> rc_heap exec) \<Rightarrow> rc_heap \<Rightarrow> nat list \<Rightarrow> rc_heap exec" where
  "rc_each f h [] = Inr h"
| "rc_each f h (p # ps) = exec_bind (f h p) (\<lambda>h. rc_each f h ps)"

text \<open>\<open>rc_each (LDJSONRCRetain depth) h (rc_associated rc)\<close> is \<open>LDJSONRCRetainAssociated\<close>, and
  the same with \<open>LDJSONRCRelease\<close> is \<open>LDJSONRCReleaseAssociated\<close>.\<close>

primrec LDJSONRCRetain :: "nat \<Rightarrow> rc_heap \<Rightarrow> nat \<Rightarrow> rc_heap exec" where
  "LDJSONRCRetain 0 h p = Inl NoReturn"
| "LDJSONRCRetain (Suc depth) h p =
     exec_bind (rc_read h p) (\<lambda>rc.
       rc_each (LDJSONRCRetain depth) (h[p := Some (rc\<lparr>rc_count := rc_count rc + 1\<rparr>)]) (rc_associated rc))"

definition destroyJSONRC :: "rc_heap \<Rightarrow> nat \<Rightarrow> rc_heap" where
  "destroyJSONRC h p = h[p := None]"

primrec LDJSONRCRelease :: "nat \<Rightarrow> rc_heap \<Rightarrow> nat \<Rightarrow> rc_heap exec" where
  "LDJSONRCRelease 0 h p = Inl NoReturn"
| "LDJSONRCRelease (Suc depth) h p =
     exec_bind (rc_read h p) (\<lambda>rc.
     exec_bind (ld_assert (rc_count rc > 0)) (\<lambda>_.
     exec_bind (rc_each (LDJSONRCRelease depth) (h[p := Some (rc\<lparr>rc_count := rc_count rc - 1\<rparr>)]) (rc_associated rc)) (\<lambda>h.
     exec_bind (rc_read h p) (\<lambda>rc.
       Inr (if rc_count rc = 0 then destroyJSONRC h p else h)))))"

definition LDJSONRCGet :: "rc_heap \<Rightarrow> nat \<Rightarrow> LDJSON exec" where
  "LDJSONRCGet h p = exec_bind (rc_read h p) (\<lambda>rc. Inr (rc_value rc))"

definition LDJSONRCAssociate :: "nat \<Rightarrow> rc_heap \<Rightarrow> nat \<Rightarrow> nat list \<Rightarrow> rc_heap exec" where
  "LDJSONRCAssociate depth h p associates =
     exec_bind (rc_read h p) (\<lambda>rc.
     exec_bind (rc_each (LDJSONRCRelease depth) h (rc_associated rc)) (\<lambda>h.
     exec_bind (rc_read h p) (\<lambda>rc.
       rc_each (LDJSONRCRetain depth) (h[p := Some (rc\<lparr>rc_associated := associates\<rparr>)]) associates)))"

end
