(* ===== verification/RefCountFlow.thy ===== *)
theory RefCountFlow
  imports RefCount
begin

text \<open>
  What reference counting guarantees: the states in which the counts match the references that are
  held and the associations between cells, that every operation of \<open>RefCount\<close> keeps them, and the
  safety of every use that only touches values it holds a reference to.
\<close>

section \<open>Cells\<close>

definition rc_live :: "rc_heap \<Rightarrow> nat \<Rightarrow> bool" where
  "rc_live h p \<longleftrightarrow> p < length h \<and> h ! p \<noteq> None"

definition refs :: "rc_heap \<Rightarrow> nat \<Rightarrow> nat" where
  "refs h p = (if p < length h then (case h ! p of None \<Rightarrow> 0 | Some rc \<Rightarrow> unat (rc_count rc)) else 0)"

definition assocs :: "rc_heap \<Rightarrow> nat \<Rightarrow> nat list" where
  "assocs h p = (if p < length h then (case h ! p of None \<Rightarrow> [] | Some rc \<Rightarrow> rc_associated rc) else [])"

definition payload :: "rc_heap \<Rightarrow> nat \<Rightarrow> LDJSON option" where
  "payload h p = (if p < length h then map_option rc_value (h ! p) else None)"

lemma rc_read_live:
  assumes "rc_live h p"
  obtains rc where "rc_read h p = Inr rc" and "h ! p = Some rc" and "unat (rc_count rc) = refs h p"
    and "rc_associated rc = assocs h p" and "payload h p = Some (rc_value rc)"
  using assms by (auto simp: rc_live_def rc_read_def refs_def assocs_def payload_def)

text \<open>A heap after the counts of some cells have changed: those that lost their last reference are
  gone, the others keep their value and associations, and every other cell is as before.\<close>

definition recounted :: "nat set \<Rightarrow> rc_heap \<Rightarrow> (nat \<Rightarrow> nat) \<Rightarrow> rc_heap \<Rightarrow> bool" where
  "recounted A h f h' \<longleftrightarrow> length h' = length h \<and> (\<forall>q. q \<notin> A \<longrightarrow> h' ! q = h ! q) \<and> (\<forall>q\<in>A.
     if f q = 0 then \<not> rc_live h' q
     else rc_live h' q \<and> refs h' q = f q \<and> assocs h' q = assocs h q \<and> payload h' q = payload h q)"

lemma rc_live_update [simp]: "rc_live (h[p := x]) q \<longleftrightarrow> (if q = p \<and> p < length h then x \<noteq> None else rc_live h q)"
  by (auto simp: rc_live_def nth_list_update)

lemma refs_update [simp]: "refs (h[p := Some rc]) q = (if q = p \<and> p < length h then unat (rc_count rc) else refs h q)"
  by (auto simp: refs_def nth_list_update)

lemma assocs_update [simp]: "assocs (h[p := Some rc]) q = (if q = p \<and> p < length h then rc_associated rc else assocs h q)"
  by (auto simp: assocs_def nth_list_update)

lemma payload_update [simp]: "payload (h[p := Some rc]) q = (if q = p \<and> p < length h then Some (rc_value rc) else payload h q)"
  by (auto simp: payload_def nth_list_update)

lemma update_None [simp]:
  "q \<noteq> p \<Longrightarrow> refs (h[p := None]) q = refs h q" "q \<noteq> p \<Longrightarrow> assocs (h[p := None]) q = assocs h q"
  "q \<noteq> p \<Longrightarrow> payload (h[p := None]) q = payload h q"
  by (auto simp: refs_def assocs_def payload_def)

lemma recounted_other:
  assumes "recounted A h f h'" and "q \<notin> A"
  shows "rc_live h' q = rc_live h q" and "refs h' q = refs h q" and "assocs h' q = assocs h q" and "payload h' q = payload h q"
  using assms by (auto simp: recounted_def rc_live_def refs_def assocs_def payload_def)

lemma recounted_cell:
  assumes "recounted A h f h'" and "q \<in> A"
  shows "rc_live h' q \<longleftrightarrow> f q \<noteq> 0"
    and "f q \<noteq> 0 \<Longrightarrow> refs h' q = f q \<and> assocs h' q = assocs h q \<and> payload h' q = payload h q"
  using assms by (auto simp: recounted_def split: if_splits)

lemma recounted_insert:
  assumes "recounted {c} h f h1" and "recounted A h1 g h2" and "\<And>q. q \<in> A \<Longrightarrow> k q = g q" and "c \<notin> A \<Longrightarrow> k c = f c"
    and "c \<in> A \<Longrightarrow> f c \<noteq> 0"
  shows "recounted (insert c A) h k h2"
  unfolding recounted_def
proof (intro conjI ballI allI impI)
  show "length h2 = length h" using assms(1,2) by (simp add: recounted_def)
  show "h2 ! q = h ! q" if "q \<notin> insert c A" for q using that assms(1,2) by (simp add: recounted_def)
  show "if k q = 0 then \<not> rc_live h2 q
     else rc_live h2 q \<and> refs h2 q = k q \<and> assocs h2 q = assocs h q \<and> payload h2 q = payload h q" if "q \<in> insert c A" for q
  proof (cases "q \<in> A")
    case True
    have "assocs h1 q = assocs h q \<and> payload h1 q = payload h q"
      using assms(1,5) True recounted_cell(2) [OF assms(1), of q] recounted_other [OF assms(1), of q] by (cases "q = c") auto
    then show ?thesis using recounted_cell [OF assms(2) True] assms(3) [OF True] by auto
  next
    case False
    then have "q = c" using that by simp
    then show ?thesis
      using recounted_cell [OF assms(1), of c] recounted_other [OF assms(2) False] assms(4) False by auto
  qed
qed

section \<open>Retaining and releasing\<close>

lemma count_up: "unat w + 1 < 2 ^ 32 \<Longrightarrow> unat (w + 1 :: uint) = unat w + 1"
  by (simp add: unat_word_ariths)

lemma count_down: "0 < unat (w :: uint) \<Longrightarrow> unat (w - 1) = unat w - 1"
  by (metis (full_types) gr_implies_not0 unat_0 unat_eq_0 unat_minus_one)

text \<open>A cell without associations.\<close>

definition leaf :: "rc_heap \<Rightarrow> nat \<Rightarrow> bool" where
  "leaf h p \<longleftrightarrow> rc_live h p \<and> assocs h p = [] \<and> 0 < refs h p"

lemma retain_leaf:
  assumes "leaf h p" and "refs h p + 1 < 2 ^ 32"
  shows "\<exists>h'. LDJSONRCRetain (Suc d) h p = Inr h' \<and> recounted {p} h (\<lambda>q. refs h q + 1) h'"
proof -
  have live: "rc_live h p" "assocs h p = []" using assms(1) by (auto simp: leaf_def)
  obtain rc where rc: "rc_read h p = Inr rc" "h ! p = Some rc" "unat (rc_count rc) = refs h p"
    "rc_associated rc = assocs h p" "payload h p = Some (rc_value rc)"
    using rc_read_live [OF live(1)] .
  let ?h = "h[p := Some (rc\<lparr>rc_count := rc_count rc + 1\<rparr>)]"
  have "p < length h" using live(1) by (simp add: rc_live_def)
  then have "recounted {p} h (\<lambda>q. refs h q + 1) ?h"
    using rc assms(2) count_up [of "rc_count rc"] by (auto simp: recounted_def)
  then show ?thesis using rc(1,4) live(2) by simp
qed

lemma release_leaf:
  assumes "leaf h p"
  shows "\<exists>h'. LDJSONRCRelease (Suc d) h p = Inr h' \<and> recounted {p} h (\<lambda>q. refs h q - 1) h'"
proof -
  have live: "rc_live h p" "assocs h p = []" "0 < refs h p" "p < length h"
    using assms by (auto simp: leaf_def rc_live_def)
  obtain rc where rc: "rc_read h p = Inr rc" "h ! p = Some rc" "unat (rc_count rc) = refs h p"
    "rc_associated rc = assocs h p" "payload h p = Some (rc_value rc)"
    using rc_read_live [OF live(1)] .
  let ?rc = "rc\<lparr>rc_count := rc_count rc - 1\<rparr>"
  let ?h = "if rc_count ?rc = 0 then h[p := None] else h[p := Some ?rc]"
  have down: "unat (rc_count ?rc) = refs h p - 1" "rc_count rc > 0"
    using live(3) rc(3) count_down [of "rc_count rc"] by (auto simp: word_greater_zero_iff)
  then have zero: "rc_count ?rc = 0 \<longleftrightarrow> refs h p = 1"
    using live(3) unat_eq_zero [of "rc_count ?rc"] by auto
  have "LDJSONRCRelease (Suc d) h p = Inr ?h"
    using rc(1,4) live(2,4) down(2) by (simp add: rc_read_def destroyJSONRC_def)
  moreover have "recounted {p} h (\<lambda>q. refs h q - 1) ?h"
    using rc live down(1) zero by (auto simp: recounted_def)
  ultimately show ?thesis by blast
qed

lemma retain_leaves:
  assumes "\<forall>c\<in>set cs. leaf h c \<and> refs h c + count_list cs c < 2 ^ 32"
  shows "\<exists>h'. rc_each (LDJSONRCRetain (Suc d)) h cs = Inr h' \<and> recounted (set cs) h (\<lambda>q. refs h q + count_list cs q) h'"
  using assms
proof (induction cs arbitrary: h)
  case Nil
  then show ?case by (simp add: recounted_def)
next
  case (Cons c cs)
  have c: "leaf h c" "refs h c + 1 < 2 ^ 32" using Cons.prems by auto
  then obtain h1 where h1: "LDJSONRCRetain (Suc d) h c = Inr h1" "recounted {c} h (\<lambda>q. refs h q + 1) h1"
    using retain_leaf [of h c d] by blast
  note this_cell = recounted_cell [OF h1(2), of c, simplified] and other = recounted_other [OF h1(2), simplified]
  have refs1: "refs h1 q = refs h q + (if q = c then 1 else 0)" for q using this_cell other by auto
  have "leaf h1 q \<and> refs h1 q + count_list cs q < 2 ^ 32" if "q \<in> set cs" for q
    using Cons.prems that this_cell other c(1) by (cases "q = c") (auto simp: leaf_def)
  then obtain h2 where h2: "rc_each (LDJSONRCRetain (Suc d)) h1 cs = Inr h2"
    "recounted (set cs) h1 (\<lambda>q. refs h1 q + count_list cs q) h2"
    using Cons.IH by blast
  have "recounted (insert c (set cs)) h (\<lambda>q. refs h q + count_list (c # cs) q) h2"
    by (rule recounted_insert [OF h1(2) h2(2)]) (auto simp: refs1 count_list_0_iff)
  then show ?case using h1(1) h2(1) by (intro exI [of _ h2]) (simp del: LDJSONRCRetain.simps)
qed

lemma release_leaves:
  assumes "\<forall>c\<in>set cs. leaf h c \<and> count_list cs c \<le> refs h c"
  shows "\<exists>h'. rc_each (LDJSONRCRelease (Suc d)) h cs = Inr h' \<and> recounted (set cs) h (\<lambda>q. refs h q - count_list cs q) h'"
  using assms
proof (induction cs arbitrary: h)
  case Nil
  then show ?case by (simp add: recounted_def)
next
  case (Cons c cs)
  have c: "leaf h c" using Cons.prems by auto
  then obtain h1 where h1: "LDJSONRCRelease (Suc d) h c = Inr h1" "recounted {c} h (\<lambda>q. refs h q - 1) h1"
    using release_leaf [of h c d] by blast
  note this_cell = recounted_cell [OF h1(2), of c, simplified] and other = recounted_other [OF h1(2), simplified]
  have more: "1 < refs h c" if "c \<in> set cs"
  proof -
    have "0 < count_list cs c" using that by (metis count_list_0_iff gr0I)
    then show ?thesis using Cons.prems by fastforce
  qed
  have refs1: "refs h1 q = refs h q - (if q = c then 1 else 0)" if "q \<in> set cs" for q
    using this_cell(2) other more that by (cases "q = c") auto
  have "leaf h1 q \<and> count_list cs q \<le> refs h1 q" if "q \<in> set cs" for q
    using Cons.prems that this_cell other more by (cases "q = c") (auto simp: leaf_def)
  then obtain h2 where h2: "rc_each (LDJSONRCRelease (Suc d)) h1 cs = Inr h2"
    "recounted (set cs) h1 (\<lambda>q. refs h1 q - count_list cs q) h2"
    using Cons.IH by blast
  have "recounted (insert c (set cs)) h (\<lambda>q. refs h q - count_list (c # cs) q) h2"
    using more by (intro recounted_insert [OF h1(2) h2(2)]) (auto simp: refs1 count_list_0_iff)
  then show ?case using h1(1) h2(1) by (intro exI [of _ h2]) (simp del: LDJSONRCRelease.simps)
qed

section \<open>Two levels of cells\<close>

definition flat :: "rc_heap \<Rightarrow> bool" where
  "flat h \<longleftrightarrow> (\<forall>q. \<forall>c\<in>set (assocs h q). rc_live h c \<and> assocs h c = [])"

definition positive :: "rc_heap \<Rightarrow> bool" where
  "positive h \<longleftrightarrow> (\<forall>q. rc_live h q \<longrightarrow> 0 < refs h q)"

text \<open>How many references a cell gets from the cells it is associated with: one for each of theirs.\<close>

definition links :: "rc_heap \<Rightarrow> nat \<Rightarrow> nat" where
  "links h c = (\<Sum>q<length h. refs h q * count_list (assocs h q) c)"

text \<open>Every count is the references held outside and the links; \<open>ext\<close> counts the former.\<close>

definition balanced :: "rc_heap \<Rightarrow> (nat \<Rightarrow> nat) \<Rightarrow> bool" where
  "balanced h ext \<longleftrightarrow> positive h \<and> flat h \<and> (\<forall>p. rc_live h p \<longrightarrow> refs h p = ext p + links h p) \<and>
     (\<forall>p. \<not> rc_live h p \<longrightarrow> ext p = 0)"

lemma dead_cell: "\<not> rc_live h q \<Longrightarrow> refs h q = 0 \<and> assocs h q = []"
  by (auto simp: rc_live_def refs_def assocs_def)

lemma not_own_assoc: "flat h \<Longrightarrow> p \<notin> set (assocs h p)"
  by (metis empty_iff empty_set flat_def)

lemma count_own [simp]: "flat h \<Longrightarrow> count_list (assocs h p) p = 0"
  using not_own_assoc by (simp add: count_list_0_iff)

lemma links_ge: "q < length h \<Longrightarrow> refs h q * count_list (assocs h q) c \<le> links h c"
  unfolding links_def by (rule member_le_sum) auto

lemma links_step:
  assumes "length h' = length h" and "p < length h"
    and "\<And>q. q \<noteq> p \<Longrightarrow> refs h' q * count_list (assocs h' q) c = refs h q * count_list (assocs h q) c"
  shows "links h' c + refs h p * count_list (assocs h p) c = links h c + refs h' p * count_list (assocs h' p) c"
proof -
  have "(\<Sum>q\<in>{..<length h} - {p}. refs h' q * count_list (assocs h' q) c) =
      (\<Sum>q\<in>{..<length h} - {p}. refs h q * count_list (assocs h q) c)"
    using assms(3) by (intro sum.cong) auto
  then show ?thesis
    using assms(1,2) sum.remove [of "{..<length h}" p "\<lambda>q. refs h q * count_list (assocs h q) c"]
      sum.remove [of "{..<length h}" p "\<lambda>q. refs h' q * count_list (assocs h' q) c"]
    by (simp add: links_def)
qed

lemma parent_unlinked:
  assumes "flat h" and "assocs h p \<noteq> []"
  shows "links h p = 0"
proof -
  have "count_list (assocs h q) p = 0" for q using assms by (auto simp: flat_def count_list_0_iff)
  then show ?thesis by (simp add: links_def)
qed

definition room :: "rc_heap \<Rightarrow> nat \<Rightarrow> bool" where
  "room h p \<longleftrightarrow> refs h p + 1 < 2 ^ 32 \<and> (\<forall>c\<in>set (assocs h p). refs h c + count_list (assocs h p) c < 2 ^ 32)"

lemma children_leaf: "flat h \<Longrightarrow> positive h \<Longrightarrow> c \<in> set (assocs h p) \<Longrightarrow> leaf h c"
  by (auto simp: flat_def positive_def leaf_def)

lemma retain_two:
  assumes "rc_live h p" and "flat h" and "positive h" and "room h p"
  shows "\<exists>h'. LDJSONRCRetain (Suc (Suc d)) h p = Inr h' \<and> length h' = length h \<and>
     (\<forall>q. rc_live h' q = rc_live h q \<and> assocs h' q = assocs h q \<and> payload h' q = payload h q \<and>
        refs h' q = refs h q + (if q = p then 1 else 0) + count_list (assocs h p) q)"
proof -
  obtain rc where rc: "rc_read h p = Inr rc" "h ! p = Some rc" "unat (rc_count rc) = refs h p"
    "rc_associated rc = assocs h p" "payload h p = Some (rc_value rc)"
    using rc_read_live [OF assms(1)] .
  have p: "p < length h" using assms(1) by (simp add: rc_live_def)
  let ?h = "h[p := Some (rc\<lparr>rc_count := rc_count rc + 1\<rparr>)]"
  have h1: "rc_live ?h q = rc_live h q" "assocs ?h q = assocs h q" "payload ?h q = payload h q"
    "refs ?h q = refs h q + (if q = p then 1 else 0)" for q
    using p rc assms(1,4) count_up [of "rc_count rc"] by (auto simp: room_def)
  have "\<forall>c\<in>set (assocs h p). leaf ?h c \<and> refs ?h c + count_list (assocs h p) c < 2 ^ 32"
    using children_leaf [OF assms(2,3)] assms(4) not_own_assoc [OF assms(2), of p] by (auto simp: leaf_def h1 room_def)
  then obtain h2 where h2: "rc_each (LDJSONRCRetain (Suc d)) ?h (assocs h p) = Inr h2"
    "recounted (set (assocs h p)) ?h (\<lambda>q. refs ?h q + count_list (assocs h p) q) h2"
    using retain_leaves by blast
  have "rc_live h2 q = rc_live h q \<and> assocs h2 q = assocs h q \<and> payload h2 q = payload h q \<and>
      refs h2 q = refs h q + (if q = p then 1 else 0) + count_list (assocs h p) q" for q
  proof (cases "q \<in> set (assocs h p)")
    case True
    then have "0 < refs h q" "rc_live h q" using children_leaf [OF assms(2,3)] by (auto simp: leaf_def)
    then show ?thesis using recounted_cell [OF h2(2) True] h1 [of q] by auto
  next
    case False
    then show ?thesis using recounted_other [OF h2(2) False] h1 [of q] by (simp add: count_list_0_iff)
  qed
  moreover have "LDJSONRCRetain (Suc (Suc d)) h p = Inr h2"
    using rc(1,4) h2(1) by (subst LDJSONRCRetain.simps(2)) simp
  moreover have "length h2 = length h" using h2(2) by (simp add: recounted_def)
  ultimately show ?thesis by blast
qed

lemma release_two:
  assumes "rc_live h p" and "balanced h ext"
  shows "\<exists>h'. LDJSONRCRelease (Suc (Suc d)) h p = Inr h' \<and> length h' = length h \<and>
     (\<forall>q. (rc_live h' q \<longleftrightarrow> rc_live h q \<and> refs h q - (if q = p then 1 else 0) - count_list (assocs h p) q \<noteq> 0) \<and>
        refs h' q = refs h q - (if q = p then 1 else 0) - count_list (assocs h p) q \<and>
        (rc_live h' q \<longrightarrow> assocs h' q = assocs h q \<and> payload h' q = payload h q))"
proof -
  have b: "flat h" "positive h" using assms(2) by (auto simp: balanced_def)
  obtain rc where rc: "rc_read h p = Inr rc" "h ! p = Some rc" "unat (rc_count rc) = refs h p"
    "rc_associated rc = assocs h p" "payload h p = Some (rc_value rc)"
    using rc_read_live [OF assms(1)] .
  have p: "p < length h" "0 < refs h p" using assms(1) b(2) by (auto simp: rc_live_def positive_def)
  let ?rc = "rc\<lparr>rc_count := rc_count rc - 1\<rparr>"
  let ?h = "h[p := Some ?rc]"
  have down: "unat (rc_count rc - 1) = refs h p - 1" "rc_count rc > 0"
    using rc(3) p(2) count_down [of "rc_count rc"] by (auto simp: word_greater_zero_iff)
  have h1: "rc_live ?h q = rc_live h q" "assocs ?h q = assocs h q" "payload ?h q = payload h q"
    "refs ?h q = refs h q - (if q = p then 1 else 0)" for q
    using p rc assms(1) down by auto
  have own: "p \<notin> set (assocs h p)" using not_own_assoc [OF b(1)] .
  have "count_list (assocs h p) c \<le> refs h c" if "c \<in> set (assocs h p)" for c
  proof -
    have "count_list (assocs h p) c \<le> refs h p * count_list (assocs h p) c" using p(2) by simp
    also have "\<dots> \<le> links h c" by (rule links_ge [OF p(1)])
    also have "\<dots> \<le> refs h c" using assms(2) children_leaf [OF b that] by (auto simp: balanced_def leaf_def)
    finally show ?thesis .
  qed
  then have "\<forall>c\<in>set (assocs h p). leaf ?h c \<and> count_list (assocs h p) c \<le> refs ?h c"
    using children_leaf [OF b] own by (auto simp: leaf_def h1)
  then obtain h2 where h2: "rc_each (LDJSONRCRelease (Suc d)) ?h (assocs h p) = Inr h2"
    "recounted (set (assocs h p)) ?h (\<lambda>q. refs ?h q - count_list (assocs h p) q) h2"
    using release_leaves by blast
  have p2: "rc_read h2 p = Inr ?rc" "length h2 = length h"
    using h2(2) own p(1) by (auto simp: recounted_def rc_read_def)
  let ?h' = "if rc_count rc - 1 = 0 then h2[p := None] else h2"
  have run: "LDJSONRCRelease (Suc (Suc d)) h p = Inr ?h'"
    using rc(1,4) h2(1) down(2) p2(1) by (subst LDJSONRCRelease.simps(2)) (simp add: destroyJSONRC_def)
  have zero: "rc_count rc - 1 = 0 \<longleftrightarrow> refs h p = 1" using down(1) p(2) unat_eq_zero [of "rc_count rc - 1"] by auto
  have "(rc_live ?h' q \<longleftrightarrow> rc_live h q \<and> refs h q - (if q = p then 1 else 0) - count_list (assocs h p) q \<noteq> 0) \<and>
      refs ?h' q = refs h q - (if q = p then 1 else 0) - count_list (assocs h p) q \<and>
      (rc_live ?h' q \<longrightarrow> assocs ?h' q = assocs h q \<and> payload ?h' q = payload h q)" for q
  proof (cases "q = p")
    case True
    then show ?thesis
      using recounted_other [OF h2(2) own] h1 [of p] zero p p2(2) assms(1) b(1)
      by (auto simp: refs_def [of "h2[p := None]"])
  next
    case False
    then have other: "rc_live ?h' q = rc_live h2 q" "refs ?h' q = refs h2 q" "assocs ?h' q = assocs h2 q"
      "payload ?h' q = payload h2 q" by auto
    show ?thesis
    proof (cases "q \<in> set (assocs h p)")
      case True
      then have "rc_live h q" using children_leaf [OF b] by (auto simp: leaf_def)
      then show ?thesis
        using recounted_cell [OF h2(2) True] other h1 [of q] False dead_cell [of h2 q] by auto
    next
      case out: False
      then have c: "count_list (assocs h p) q = 0" by (simp add: count_list_0_iff)
      show ?thesis
        using recounted_other [OF h2(2) out] other h1 [of q] False c dead_cell [of h q] b(2) by (auto simp: positive_def)
    qed
  qed
  moreover have "length ?h' = length h" using p2(2) by simp
  ultimately show ?thesis using run by blast
qed

lemma retain_balanced:
  assumes "balanced h ext" and "0 < ext p" and "room h p"
  shows "\<exists>h'. LDJSONRCRetain 2 h p = Inr h' \<and> balanced h' (ext(p := ext p + 1)) \<and>
     (\<forall>q. payload h' q = payload h q)"
proof -
  have b: "flat h" "positive h" "rc_live h p" using assms(1,2) by (auto simp: balanced_def)
  then obtain h' where h': "LDJSONRCRetain 2 h p = Inr h'" "length h' = length h"
    "\<And>q. rc_live h' q = rc_live h q" "\<And>q. assocs h' q = assocs h q" "\<And>q. payload h' q = payload h q"
    "\<And>q. refs h' q = refs h q + (if q = p then 1 else 0) + count_list (assocs h p) q"
    using retain_two [of h p 0] assms(3) by (auto simp: numeral_2_eq_2 simp del: LDJSONRCRetain.simps)
  have leafs: "count_list (assocs h q) c = 0" if "q \<in> set (assocs h p)" for q c
    using b(1) that by (simp add: flat_def)
  have p: "p < length h" using b(3) by (simp add: rc_live_def)
  have "links h' c = links h c + count_list (assocs h p) c" for c
  proof -
    have "refs h' q * count_list (assocs h' q) c = refs h q * count_list (assocs h q) c" if "q \<noteq> p" for q
      using that leafs [of q c] by (cases "q \<in> set (assocs h p)") (auto simp: h'(4,6) count_list_0_iff)
    from links_step [OF h'(2) p this] show ?thesis
      using b(1) by (simp add: h'(4,6) algebra_simps)
  qed
  then have "balanced h' (ext(p := ext p + 1))"
    using assms(1) b h'(3,4,6) by (auto simp: balanced_def flat_def positive_def)
  then show ?thesis using h'(1,5) by blast
qed

lemma release_balanced:
  assumes "balanced h ext" and "0 < ext p"
  shows "\<exists>h'. LDJSONRCRelease 2 h p = Inr h' \<and> balanced h' (ext(p := ext p - 1)) \<and>
     (\<forall>q. rc_live h' q \<longrightarrow> payload h' q = payload h q)"
proof -
  let ?n = "\<lambda>q. refs h q - (if q = p then 1 else 0) - count_list (assocs h p) q"
  have b: "flat h" "positive h" "rc_live h p" using assms by (auto simp: balanced_def)
  then obtain h' where h': "LDJSONRCRelease 2 h p = Inr h'" "length h' = length h"
    "\<And>q. rc_live h' q \<longleftrightarrow> rc_live h q \<and> ?n q \<noteq> 0" "\<And>q. refs h' q = ?n q"
    "\<And>q. rc_live h' q \<Longrightarrow> assocs h' q = assocs h q \<and> payload h' q = payload h q"
    using release_two [OF b(3) assms(1), of 0] by (auto simp: numeral_2_eq_2 simp del: LDJSONRCRelease.simps)
  have p: "p < length h" "0 < refs h p" using b(2,3) by (auto simp: rc_live_def positive_def)
  have weight: "refs h' q * count_list (assocs h' q) c = ?n q * count_list (assocs h q) c" for q c
    using h'(4) [of q] h'(5) [of q] dead_cell [of h' q] by (cases "rc_live h' q") auto
  have links: "links h' c + count_list (assocs h p) c = links h c" for c
  proof -
    have "refs h' q * count_list (assocs h' q) c = refs h q * count_list (assocs h q) c" if "q \<noteq> p" for q
    proof (cases "q \<in> set (assocs h p)")
      case True
      then have "assocs h q = []" using b(1) by (auto simp: flat_def)
      then show ?thesis by (simp add: weight)
    next
      case False
      then show ?thesis using that by (simp add: weight count_list_0_iff)
    qed
    from links_step [OF h'(2) p(1) this]
    have "links h' c + refs h p * count_list (assocs h p) c = links h c + (refs h p - 1) * count_list (assocs h p) c"
      using b(1) by (simp add: weight)
    moreover have "refs h p * count_list (assocs h p) c = (refs h p - 1) * count_list (assocs h p) c + count_list (assocs h p) c"
      using p(2) by (cases "refs h p") auto
    ultimately show ?thesis by simp
  qed
  have n: "?n q = (ext(p := ext p - 1)) q + links h' q" if "rc_live h q" for q
    using that assms links [of q] b(1) by (auto simp: balanced_def)
  have "flat h'"
    unfolding flat_def
  proof (intro allI ballI)
    fix q c assume c: "c \<in> set (assocs h' q)"
    then have q: "rc_live h' q" using dead_cell by fastforce
    then have c0: "c \<in> set (assocs h q)" using c h'(5) by auto
    then have leaf: "rc_live h c" "assocs h c = []" using b(1) by (auto simp: flat_def)
    have "q < length h'" using q by (simp add: rc_live_def)
    moreover have "0 < refs h' q" using q h'(3,4) by auto
    moreover have "0 < count_list (assocs h' q) c" using c by (metis count_list_0_iff gr0I)
    ultimately have "0 < links h' c" using links_ge [of q h' c] by (metis gr0I le_zero_eq mult_is_0 neq0_conv)
    then have "rc_live h' c" using n [OF leaf(1)] h'(3) leaf(1) by simp
    then show "rc_live h' c \<and> assocs h' c = []" using h'(5) leaf(2) by simp
  qed
  moreover have "positive h'" using h'(3,4) by (auto simp: positive_def)
  moreover have "refs h' q = (ext(p := ext p - 1)) q + links h' q" if "rc_live h' q" for q
    using that n [of q] h'(3,4) [of q] by auto
  moreover have "(ext(p := ext p - 1)) q = 0" if "\<not> rc_live h' q" for q
    using that n [of q] h'(3) [of q] assms(1) b(3) by (cases "rc_live h q") (auto simp: balanced_def)
  ultimately have "balanced h' (ext(p := ext p - 1))" unfolding balanced_def by blast
  then show ?thesis using h'(1,5) by blast
qed

lemma new_balanced:
  assumes "balanced h ext" and "LDJSONRCNew h j = (p, h')"
  shows "balanced h' (ext(p := 1))" and "payload h' p = Some j" and "\<forall>q. rc_live h q \<longrightarrow> payload h' q = payload h q"
proof -
  have h': "p = length h" "h' = h @ [Some \<lparr>rc_value = j, rc_count = 1, rc_associated = []\<rparr>]"
    using assms(2) by (auto simp: LDJSONRCNew_def)
  have cells: "rc_live h' q \<longleftrightarrow> rc_live h q \<or> q = p" "refs h' q = (if q = p then 1 else refs h q)" "assocs h' q = assocs h q" for q
    by (auto simp: h' rc_live_def refs_def assocs_def nth_append less_Suc_eq)
  have out: "\<not> rc_live h p" "ext p = 0" using assms(1) by (auto simp: h' rc_live_def balanced_def)
  have "count_list (assocs h q) p = 0" for q using assms(1) out(1) by (auto simp: balanced_def flat_def count_list_0_iff)
  then have none: "links h p = 0" by (simp add: links_def)
  have "links h' c = links h c" for c
  proof -
    have "(\<Sum>q<length h. refs h' q * count_list (assocs h' q) c) = links h c"
      unfolding links_def by (intro sum.cong) (auto simp: cells h'(1))
    moreover have "assocs h' (length h) = []" using cells(3) dead_cell [OF out(1)] by (simp add: h'(1))
    ultimately show ?thesis unfolding links_def by (simp add: h'(2))
  qed
  then show "balanced h' (ext(p := 1))"
    using assms(1) cells none out dead_cell [OF out(1)] by (auto simp: balanced_def positive_def flat_def)
  show "payload h' p = Some j" "\<forall>q. rc_live h q \<longrightarrow> payload h' q = payload h q"
    by (auto simp: h' payload_def rc_live_def nth_append)
qed

lemma associate_balanced:
  assumes "balanced h ext" and "0 < ext p" and "refs h p = 1" and "assocs h p = []"
    and "\<forall>c\<in>set cs. 0 < ext c \<and> c \<noteq> p \<and> assocs h c = [] \<and> refs h c + count_list cs c < 2 ^ 32"
  shows "\<exists>h'. LDJSONRCAssociate 2 h p cs = Inr h' \<and> balanced h' ext \<and> (\<forall>q. payload h' q = payload h q)"
proof -
  have b: "flat h" "positive h" "rc_live h p" using assms(1,2) by (auto simp: balanced_def)
  obtain rc where rc: "rc_read h p = Inr rc" "h ! p = Some rc" "unat (rc_count rc) = refs h p"
    "rc_associated rc = assocs h p" "payload h p = Some (rc_value rc)"
    using rc_read_live [OF b(3)] .
  have p: "p < length h" using b(3) by (simp add: rc_live_def)
  let ?h = "h[p := Some (rc\<lparr>rc_associated := cs\<rparr>)]"
  have h1: "rc_live ?h q = rc_live h q" "assocs ?h q = (if q = p then cs else assocs h q)" "payload ?h q = payload h q"
    "refs ?h q = refs h q" for q
    using p rc b(3) by auto
  have leaf: "rc_live h c \<and> 0 < refs h c" if "c \<in> set cs" for c
  proof -
    have "rc_live h c" using assms(1,5) that unfolding balanced_def by (metis less_numeral_extra(3))
    then show ?thesis using b(2) by (simp add: positive_def)
  qed
  have "\<forall>c\<in>set cs. leaf ?h c \<and> refs ?h c + count_list cs c < 2 ^ 32"
    using assms(5) leaf by (auto simp: leaf_def h1)
  then obtain h' where h': "rc_each (LDJSONRCRetain 2) ?h cs = Inr h'"
    "recounted (set cs) ?h (\<lambda>q. refs ?h q + count_list cs q) h'"
    using retain_leaves [of cs ?h 1] by (auto simp: numeral_2_eq_2)
  have run: "LDJSONRCAssociate 2 h p cs = Inr h'"
    using rc(1,4) assms(4) h'(1) by (simp add: LDJSONRCAssociate_def)
  have cells: "rc_live h' q = rc_live h q \<and> assocs h' q = (if q = p then cs else assocs h q) \<and> payload h' q = payload h q \<and>
      refs h' q = refs h q + count_list cs q" for q
  proof (cases "q \<in> set cs")
    case True
    then show ?thesis using recounted_cell [OF h'(2) True] leaf [OF True] h1 [of q] by auto
  next
    case False
    then show ?thesis using recounted_other [OF h'(2) False] h1 [of q] by (simp add: count_list_0_iff)
  qed
  have own: "count_list cs p = 0" using assms(5) by (auto simp: count_list_0_iff)
  have unlinked: "count_list (assocs h q) p = 0" for q
  proof -
    have "links h p = 0" using assms(1-3) b(3) by (auto simp: balanced_def)
    then have "refs h q * count_list (assocs h q) p = 0" using links_ge [of q h p] by (cases "q < length h") (auto simp: assocs_def)
    then show ?thesis using b(2) dead_cell [of h q] by (cases "rc_live h q") (auto simp: positive_def)
  qed
  have links: "links h' c = links h c + count_list cs c" for c
  proof -
    have "refs h' q * count_list (assocs h' q) c = refs h q * count_list (assocs h q) c" if "q \<noteq> p" for q
      using that cells [of q] assms(5) by (cases "q \<in> set cs") (auto simp: count_list_0_iff)
    moreover have "length h' = length h" using h'(2) by (simp add: recounted_def)
    ultimately show ?thesis using links_step [of h' h p c] p cells [of p] own assms(3,4) by simp
  qed
  have "flat h'"
    unfolding flat_def
  proof (intro allI ballI)
    fix q c assume c: "c \<in> set (assocs h' q)"
    have "c \<noteq> p" using c cells [of q] unlinked [of q] assms(5) by (auto simp: count_list_0_iff split: if_splits)
    then show "rc_live h' c \<and> assocs h' c = []"
      using c cells [of q] cells [of c] b(1) leaf assms(5) by (auto simp: flat_def split: if_splits)
  qed
  then have "balanced h' ext" using assms(1) cells links by (auto simp: balanced_def positive_def)
  then show ?thesis using run cells by blast
qed

section \<open>Uses of reference-counted values\<close>

text \<open>
  The states that code can reach which only touches values it holds a reference to: \<open>ext\<close> counts
  the references it holds. A value is given its associated values while it is new, and no count
  reaches the limit of \<open>unsigned int\<close>.
\<close>

inductive rc_reach :: "rc_heap \<Rightarrow> (nat \<Rightarrow> nat) \<Rightarrow> bool" where
  rc_start: "rc_reach [] (\<lambda>_. 0)"
| rc_new: "rc_reach h ext \<Longrightarrow> LDJSONRCNew h j = (p, h') \<Longrightarrow> rc_reach h' (ext(p := 1))"
| rc_associate: "rc_reach h ext \<Longrightarrow> 0 < ext p \<Longrightarrow> refs h p = 1 \<Longrightarrow> assocs h p = [] \<Longrightarrow>
     \<forall>c\<in>set cs. 0 < ext c \<and> c \<noteq> p \<and> assocs h c = [] \<and> refs h c + count_list cs c < 2 ^ 32 \<Longrightarrow>
     LDJSONRCAssociate 2 h p cs = Inr h' \<Longrightarrow> rc_reach h' ext"
| rc_retain: "rc_reach h ext \<Longrightarrow> 0 < ext p \<Longrightarrow> room h p \<Longrightarrow> LDJSONRCRetain 2 h p = Inr h' \<Longrightarrow>
     rc_reach h' (ext(p := ext p + 1))"
| rc_release: "rc_reach h ext \<Longrightarrow> 0 < ext p \<Longrightarrow> LDJSONRCRelease 2 h p = Inr h' \<Longrightarrow>
     rc_reach h' (ext(p := ext p - 1))"

lemma reach_balanced: "rc_reach h ext \<Longrightarrow> balanced h ext"
proof (induction rule: rc_reach.induct)
  case rc_start
  show ?case by (simp add: balanced_def positive_def flat_def rc_live_def assocs_def)
next
  case (rc_new h ext j p h')
  then show ?case using new_balanced(1) by blast
next
  case (rc_associate h ext p cs h')
  then show ?case using associate_balanced [of h ext p cs] by auto
next
  case (rc_retain h ext p h')
  then obtain h'' where "LDJSONRCRetain 2 h p = Inr h''" "balanced h'' (ext(p := ext p + 1))"
    using retain_balanced [of h ext p] by blast
  then show ?case using rc_retain.hyps(4) by (simp del: fun_upd_apply)
next
  case (rc_release h ext p h')
  then obtain h'' where "LDJSONRCRelease 2 h p = Inr h''" "balanced h'' (ext(p := ext p - 1))"
    using release_balanced [of h ext p] by blast
  then show ?case using rc_release.hyps(3) by (simp del: fun_upd_apply)
qed

lemma get_payload: "LDJSONRCGet h p = (case payload h p of None \<Rightarrow> Inl UseAfterFree | Some j \<Rightarrow> Inr j)"
  by (auto simp: LDJSONRCGet_def rc_read_def payload_def split: option.split)

lemma no_leak:
  assumes "balanced h ext" and "\<forall>p. ext p = 0"
  shows "\<not> rc_live h p"
proof
  assume p: "rc_live h p"
  have b: "flat h" "positive h" using assms(1) by (auto simp: balanced_def)
  have "links h p \<noteq> 0" using p assms b(2) by (auto simp: balanced_def positive_def)
  then obtain q where "refs h q * count_list (assocs h q) p \<noteq> 0" by (auto simp: links_def)
  then have q: "0 < refs h q" "assocs h q \<noteq> []" by auto
  then have "rc_live h q" using dead_cell by fastforce
  then have "refs h q = links h q" using assms by (auto simp: balanced_def)
  then show False using q parent_unlinked [OF b(1) q(2)] by simp
qed

text \<open>C16: reference counting is safe and complete. In every reachable state a value with a reference
  held on it can be read, retained and released, and the operation leaves every value that is still
  referenced as it was, whatever else it frees, including values reached only through associations;
  and once no reference is held, nothing is left in memory.\<close>

theorem references_are_safe:
  assumes "rc_reach h ext"
  shows "(\<forall>p. 0 < ext p \<longrightarrow> (\<exists>j. LDJSONRCGet h p = Inr j)) \<and>
     (\<forall>p. 0 < ext p \<and> room h p \<longrightarrow> (\<exists>h'. LDJSONRCRetain 2 h p = Inr h' \<and> (\<forall>q. LDJSONRCGet h' q = LDJSONRCGet h q))) \<and>
     (\<forall>p. 0 < ext p \<longrightarrow> (\<exists>h'. LDJSONRCRelease 2 h p = Inr h' \<and>
        (\<forall>q. 0 < (ext(p := ext p - 1)) q \<longrightarrow> LDJSONRCGet h' q = LDJSONRCGet h q))) \<and>
     ((\<forall>p. ext p = 0) \<longrightarrow> (\<forall>p. LDJSONRCGet h p = Inl UseAfterFree))"
proof -
  have bal: "balanced h ext" using reach_balanced [OF assms] .
  then have live: "rc_live h p" if "0 < ext p" for p using that by (auto simp: balanced_def)
  have "\<exists>j. LDJSONRCGet h p = Inr j" if "0 < ext p" for p
    using live [OF that] by (auto simp: get_payload payload_def rc_live_def)
  moreover have "\<exists>h'. LDJSONRCRetain 2 h p = Inr h' \<and> (\<forall>q. LDJSONRCGet h' q = LDJSONRCGet h q)" if "0 < ext p" "room h p" for p
    using retain_balanced [OF bal that] by (auto simp: get_payload)
  moreover have "\<exists>h'. LDJSONRCRelease 2 h p = Inr h' \<and>
      (\<forall>q. 0 < (ext(p := ext p - 1)) q \<longrightarrow> LDJSONRCGet h' q = LDJSONRCGet h q)" if held: "0 < ext p" for p
  proof -
    obtain h' where h': "LDJSONRCRelease 2 h p = Inr h'" "balanced h' (ext(p := ext p - 1))"
      "\<forall>q. rc_live h' q \<longrightarrow> payload h' q = payload h q"
      using release_balanced [OF bal held] by blast
    have "LDJSONRCGet h' q = LDJSONRCGet h q" if "0 < (ext(p := ext p - 1)) q" for q
    proof -
      have "rc_live h' q" using that h'(2) unfolding balanced_def by (metis less_numeral_extra(3))
      then show ?thesis using h'(3) by (simp add: get_payload)
    qed
    then show ?thesis using h'(1) by blast
  qed
  moreover have "LDJSONRCGet h p = Inl UseAfterFree" if "\<forall>p. ext p = 0" for p
    using no_leak [OF bal that, of p] by (auto simp: get_payload payload_def rc_live_def)
  ultimately show ?thesis by blast
qed

text \<open>Two items and a listing of both: the items are released, the listing keeps them.\<close>

theorem references_are_safe_witness:
  "\<exists>h ext h'. rc_reach h ext \<and> ext 0 = 0 \<and> ext 2 = 1 \<and> LDJSONRCGet h 0 = Inr (JBool True) \<and>
     LDJSONRCRelease 2 h 2 = Inr h' \<and> LDJSONRCGet h' 0 = Inl UseAfterFree"
proof -
  let ?c = "\<lambda>j n as. Some \<lparr>rc_value = j, rc_count = n, rc_associated = as\<rparr>"
  have 1: "rc_reach [?c (JBool True) 1 []] ((\<lambda>_. 0)(0 := 1))"
    by (rule rc_new [OF rc_start, of "JBool True"]) (simp add: LDJSONRCNew_def)
  have 2: "rc_reach [?c (JBool True) 1 [], ?c JNull 1 []] ((\<lambda>_. 0)(0 := 1, 1 := 1))"
    by (rule rc_new [OF 1, of JNull]) (simp add: LDJSONRCNew_def)
  have 3: "rc_reach [?c (JBool True) 1 [], ?c JNull 1 [], ?c (JArray []) 1 []] ((\<lambda>_. 0)(0 := 1, 1 := 1, 2 := 1))"
    by (rule rc_new [OF 2, of "JArray []"]) (simp add: LDJSONRCNew_def)
  have 4: "rc_reach [?c (JBool True) 2 [], ?c JNull 2 [], ?c (JArray []) 1 [0, 1]] ((\<lambda>_. 0)(0 := 1, 1 := 1, 2 := 1))"
  proof (rule rc_associate [OF 3, of 2 "[0, 1]"])
    show "LDJSONRCAssociate 2 [?c (JBool True) 1 [], ?c JNull 1 [], ?c (JArray []) 1 []] 2 [0, 1] =
        Inr [?c (JBool True) 2 [], ?c JNull 2 [], ?c (JArray []) 1 [0, 1]]"
      by (simp add: LDJSONRCAssociate_def rc_read_def numeral_2_eq_2)
  qed (simp_all add: refs_def assocs_def)
  let ?h = "[?c (JBool True) 1 [], ?c JNull 2 [], ?c (JArray []) 1 [0, 1]]"
  let ?e = "((\<lambda>_. 0)(0 := 1, 1 := 1, 2 := 1))(0 := (0 :: nat))"
  have 5: "rc_reach ?h ?e"
    using rc_release [OF 4, of 0 ?h] by (simp add: numeral_2_eq_2 rc_read_def)
  have held: "0 < ?e (2 :: nat)" by simp
  obtain h' where h': "LDJSONRCRelease 2 ?h 2 = Inr h'" using references_are_safe [OF 5] held by blast
  then have "LDJSONRCGet h' 0 = Inl UseAfterFree"
    by (simp add: numeral_2_eq_2 rc_read_def destroyJSONRC_def LDJSONRCGet_def nth_Cons') (auto simp: rc_read_def)
  then show ?thesis
    using 5 h' by (intro exI [of _ ?h] exI [of _ ?e] exI [of _ h']) (simp add: LDJSONRCGet_def rc_read_def)
qed

end
