(* ===== verification/PrintBuffer.thy ===== *)
theory PrintBuffer
  imports JsonRoundtrip
begin

text \<open>
  The printer of \<open>c-sdk-common/src/cJSON.c\<close> as it works on memory: \<open>ensure\<close> makes room in the
  output buffer, the printing functions write at the offset, and \<open>update_offset\<close> finds the end of
  what was written. A byte of the buffer is \<open>None\<close> until it is written; writing outside the
  buffer and reading a byte that was never written are faults. The sizes are bounded by
  \<open>INT_MAX\<close>, so \<open>size_t\<close> is \<open>nat\<close>. \<open>LDGlobalInit\<close> installs the SDK's allocator, so the buffer grows
  by allocating and copying. The length field is the length of the list, and \<open>noalloc\<close>, which
  only preallocated printing sets, is left out. Both layouts are here, the compact and the formatted one.
\<close>

section \<open>The buffer\<close>

record printbuffer =
  pb_buffer :: "char option list"
  pb_offset :: nat
  pb_depth :: nat
  pb_format :: bool

definition INT_MAX :: nat where
  "INT_MAX = 2 ^ 31 - 1"

text \<open>\<open>None\<close> is \<open>NULL\<close>.\<close>

definition ensure :: "printbuffer \<Rightarrow> nat \<Rightarrow> printbuffer option" where
  "ensure p needed =
     (if 0 < length (pb_buffer p) \<and> pb_offset p \<ge> length (pb_buffer p) then None
      else if needed > INT_MAX then None
      else let needed = needed + pb_offset p + 1 in
        if needed \<le> length (pb_buffer p) then Some p
        else let resize = (\<lambda>newsize. Some (p\<lparr>pb_buffer :=
            take (pb_offset p + 1) (pb_buffer p) @ replicate (newsize - length (take (pb_offset p + 1) (pb_buffer p))) None\<rparr>)) in
          if needed > INT_MAX div 2 then (if needed \<le> INT_MAX then resize INT_MAX else None)
          else resize (needed * 2))"

text \<open>Writing consecutive bytes, and the C string at a position.\<close>

definition poke :: "printbuffer \<Rightarrow> nat \<Rightarrow> string \<Rightarrow> printbuffer exec" where
  "poke p i s = (if i + length s \<le> length (pb_buffer p)
     then Inr (p\<lparr>pb_buffer := take i (pb_buffer p) @ map Some s @ drop (i + length s) (pb_buffer p)\<rparr>)
     else Inl OutOfBounds)"

fun peek :: "char option list \<Rightarrow> string exec" where
  "peek [] = Inl OutOfBounds"
| "peek (None # bs) = Inl Uninitialized"
| "peek (Some c # bs) = (if c = CHR 0x00 then Inr [] else exec_bind (peek bs) (\<lambda>s. Inr (c # s)))"

definition update_offset :: "printbuffer \<Rightarrow> printbuffer exec" where
  "update_offset p = exec_bind (peek (drop (pb_offset p) (pb_buffer p))) (\<lambda>s.
     Inr (p\<lparr>pb_offset := pb_offset p + length s\<rparr>))"

section \<open>Printing into the buffer\<close>

text \<open>
  The results are \<open>None\<close> for \<open>false\<close>. \<open>reserve\<close> is the pattern of the code: make room, return on
  failure, write at the offset.
\<close>

definition reserve :: "printbuffer \<Rightarrow> nat \<Rightarrow> string \<Rightarrow> (printbuffer \<Rightarrow> printbuffer option exec) \<Rightarrow> printbuffer option exec" where
  "reserve p needed s f = (case ensure p needed of None \<Rightarrow> Inr None
     | Some p \<Rightarrow> exec_bind (poke p (pb_offset p) s) f)"

definition and_then :: "printbuffer option exec \<Rightarrow> (printbuffer \<Rightarrow> printbuffer option exec) \<Rightarrow> printbuffer option exec" where
  "and_then r f = exec_bind r (\<lambda>x. case x of None \<Rightarrow> Inr None | Some p \<Rightarrow> f p)"

definition buffer_number :: "dbl \<Rightarrow> printbuffer \<Rightarrow> printbuffer option exec" where
  "buffer_number d p = (case print_number d of
       None \<Rightarrow> Inr None
     | Some number \<Rightarrow> reserve p (length number + 1) (number @ [CHR 0x00]) (\<lambda>p.
         Inr (Some (p\<lparr>pb_offset := pb_offset p + length number\<rparr>))))"

definition escape_size :: "char \<Rightarrow> nat" where
  "escape_size c = (let n = (of_char c :: nat) in
     if n \<in> {34, 92, 8, 12, 10, 13, 9} then 1 else if n < 32 then 5 else 0)"

text \<open>\<open>sprintf\<close> ends the digits of a hexadecimal escape with a NUL, which the next character replaces.\<close>

fun escape_loop :: "printbuffer \<Rightarrow> nat \<Rightarrow> string \<Rightarrow> printbuffer exec" where
  "escape_loop p output_pointer [] = Inr p"
| "escape_loop p output_pointer (c # input) =
     exec_bind (poke p output_pointer (escape_char c @ (if escape_size c = 5 then [CHR 0x00] else []))) (\<lambda>p.
       escape_loop p (output_pointer + length (escape_char c)) input)"

definition buffer_string :: "string \<Rightarrow> printbuffer \<Rightarrow> printbuffer option exec" where
  "buffer_string input p =
     (let escape_characters = sum_list (map escape_size input);
          output_length = length input + escape_characters
      in case ensure p (output_length + 3) of None \<Rightarrow> Inr None
       | Some p \<Rightarrow>
           if escape_characters = 0 then
             exec_bind (poke p (pb_offset p) ([CHR 0x22] @ input @ [CHR 0x22, CHR 0x00])) (\<lambda>p. Inr (Some p))
           else
             exec_bind (poke p (pb_offset p) [CHR 0x22]) (\<lambda>p.
             exec_bind (escape_loop p (pb_offset p + 1) input) (\<lambda>p.
             exec_bind (poke p (pb_offset p + output_length + 1) [CHR 0x22, CHR 0x00]) (\<lambda>p. Inr (Some p)))))"

text \<open>\<open>print_value\<close>, and the loops of \<open>print_array\<close> and \<open>print_object\<close> with what follows them.\<close>

fun buffer_value :: "printbuffer \<Rightarrow> LDJSON \<Rightarrow> printbuffer option exec"
  and buffer_array :: "printbuffer \<Rightarrow> LDJSON list \<Rightarrow> printbuffer option exec"
  and buffer_object :: "printbuffer \<Rightarrow> (string \<times> LDJSON) list \<Rightarrow> printbuffer option exec"
where
  "buffer_value p JNull = reserve p 5 (''null'' @ [CHR 0x00]) (\<lambda>p. Inr (Some p))"
| "buffer_value p (JBool b) =
     (if b then reserve p 5 (''true'' @ [CHR 0x00]) (\<lambda>p. Inr (Some p))
      else reserve p 6 (''false'' @ [CHR 0x00]) (\<lambda>p. Inr (Some p)))"
| "buffer_value p (JNumber d) = buffer_number d p"
| "buffer_value p (JText s) = buffer_string s p"
| "buffer_value p (JArray xs) = reserve p 1 ''['' (\<lambda>p.
     buffer_array (p\<lparr>pb_offset := pb_offset p + 1, pb_depth := pb_depth p + 1\<rparr>) xs)"
| "buffer_value p (JObject kvs) =
     (let len = (if pb_format p then 2 else 1)
      in reserve p (len + 1) (CHR ''{'' # (if pb_format p then [CHR 0x0A] else [])) (\<lambda>p.
        buffer_object (p\<lparr>pb_offset := pb_offset p + len, pb_depth := pb_depth p + 1\<rparr>) kvs))"
| "buffer_array p [] = reserve p 2 ('']'' @ [CHR 0x00]) (\<lambda>p. Inr (Some (p\<lparr>pb_depth := pb_depth p - 1\<rparr>)))"
| "buffer_array p (x # xs) = and_then (buffer_value p x) (\<lambda>p. exec_bind (update_offset p) (\<lambda>p.
     if xs \<noteq> [] then
       (let len = (if pb_format p then 2 else 1)
        in reserve p (len + 1) (CHR '','' # (if pb_format p then '' '' else []) @ [CHR 0x00]) (\<lambda>p.
          buffer_array (p\<lparr>pb_offset := pb_offset p + len\<rparr>) xs))
     else buffer_array p xs))"
| "buffer_object p [] =
     reserve p (if pb_format p then pb_depth p + 1 else 2)
       ((if pb_format p then replicate (pb_depth p - 1) (CHR 0x09) else []) @ ''}'' @ [CHR 0x00])
       (\<lambda>p. Inr (Some (p\<lparr>pb_depth := pb_depth p - 1\<rparr>)))"
| "buffer_object p ((k, x) # kvs) =
     and_then (if pb_format p
       then reserve p (pb_depth p) (replicate (pb_depth p) (CHR 0x09)) (\<lambda>p. Inr (Some (p\<lparr>pb_offset := pb_offset p + pb_depth p\<rparr>)))
       else Inr (Some p)) (\<lambda>p.
     and_then (buffer_string k p) (\<lambda>p. exec_bind (update_offset p) (\<lambda>p.
     let len = (if pb_format p then 2 else 1)
     in reserve p len (CHR '':'' # (if pb_format p then [CHR 0x09] else [])) (\<lambda>p.
     and_then (buffer_value (p\<lparr>pb_offset := pb_offset p + len\<rparr>) x) (\<lambda>p. exec_bind (update_offset p) (\<lambda>p.
     let len = (if pb_format p then 1 else 0) + (if kvs \<noteq> [] then 1 else 0)
     in reserve p (len + 1) ((if kvs \<noteq> [] then '','' else []) @ (if pb_format p then [CHR 0x0A] else []) @ [CHR 0x00]) (\<lambda>p.
     buffer_object (p\<lparr>pb_offset := pb_offset p + len\<rparr>) kvs)))))))"

text \<open>The text is copied into a block of its own, as the SDK's allocator comes without \<open>realloc\<close>.\<close>

definition print_json :: "LDJSON \<Rightarrow> bool \<Rightarrow> string option exec" where
  "print_json item format =
     exec_bind (buffer_value \<lparr>pb_buffer = replicate 256 None, pb_offset = 0, pb_depth = 0, pb_format = format\<rparr> item) (\<lambda>r.
     case r of None \<Rightarrow> Inr None
     | Some p \<Rightarrow> exec_bind (update_offset p) (\<lambda>p.
         let copied = take (min (length (pb_buffer p)) (pb_offset p + 1)) (pb_buffer p);
             printed = copied @ replicate (pb_offset p + 1 - length copied) None
         in exec_bind (peek (printed[pb_offset p := Some (CHR 0x00)])) (\<lambda>t. Inr (Some t))))"

definition cJSON_Print :: "LDJSON option \<Rightarrow> string option exec" where
  "cJSON_Print item = (case item of None \<Rightarrow> Inr None | Some j \<Rightarrow> print_json j True)"

definition cJSON_PrintUnformatted :: "LDJSON option \<Rightarrow> string option exec" where
  "cJSON_PrintUnformatted item = (case item of None \<Rightarrow> Inr None | Some j \<Rightarrow> print_json j False)"

section \<open>The texts\<close>

fun text_value :: "bool \<Rightarrow> nat \<Rightarrow> LDJSON \<Rightarrow> string option"
  and text_array :: "bool \<Rightarrow> nat \<Rightarrow> LDJSON list \<Rightarrow> string option"
  and text_object :: "bool \<Rightarrow> nat \<Rightarrow> (string \<times> LDJSON) list \<Rightarrow> string option"
where
  "text_value fmt d JNull = Some ''null''"
| "text_value fmt d (JBool b) = Some (if b then ''true'' else ''false'')"
| "text_value fmt d (JNumber n) = print_number n"
| "text_value fmt d (JText s) = Some (print_string_ptr s)"
| "text_value fmt d (JArray xs) = map_option (\<lambda>r. ''['' @ r) (text_array fmt (Suc d) xs)"
| "text_value fmt d (JObject kvs) =
     map_option (\<lambda>r. ''{'' @ (if fmt then [CHR 0x0A] else []) @ r) (text_object fmt (Suc d) kvs)"
| "text_array fmt d [] = Some '']''"
| "text_array fmt d (x # xs) = (case text_value fmt d x of None \<Rightarrow> None
     | Some v \<Rightarrow> (case text_array fmt d xs of None \<Rightarrow> None
         | Some r \<Rightarrow> Some (v @ (if xs = [] then [] else CHR '','' # (if fmt then '' '' else [])) @ r)))"
| "text_object fmt d [] = Some ((if fmt then replicate (d - 1) (CHR 0x09) else []) @ ''}'')"
| "text_object fmt d ((k, x) # kvs) = (case text_value fmt d x of None \<Rightarrow> None
     | Some v \<Rightarrow> (case text_object fmt d kvs of None \<Rightarrow> None
         | Some r \<Rightarrow> Some ((if fmt then replicate d (CHR 0x09) else []) @ print_string_ptr k @
             CHR '':'' # (if fmt then [CHR 0x09] else []) @ v @
             (if kvs = [] then [] else '','') @ (if fmt then [CHR 0x0A] else []) @ r)))"

lemma append_single: "(@) [c] = (#) c"
  by (simp add: fun_eq_iff)

lemma text_compact:
  "text_value False d j = print_value j"
  "text_array False d xs = print_array xs"
  "text_object False d kvs = print_object kvs"
  by (induction j and xs and kvs arbitrary: d and d and d rule: print_value_print_array_print_object.induct)
    (auto simp: append_single split: option.split)


end
