(* ===== verification/PrintMemory.thy ===== *)
theory PrintMemory
  imports PrintBuffer
begin

text \<open>
  The printer of \<open>PrintBuffer\<close> stays inside its memory and writes the text of the value: what the
  buffer holds between two operations, what each part of the printer adds to it, and the theorem.
\<close>

section \<open>What the buffer holds\<close>

text \<open>The text so far, without and with its terminator.\<close>

definition wrote :: "printbuffer \<Rightarrow> string \<Rightarrow> bool" where
  "wrote p t \<longleftrightarrow> pb_offset p = length t \<and> take (length t) (pb_buffer p) = map Some t \<and>
     length t < length (pb_buffer p) \<and> length (pb_buffer p) \<le> INT_MAX \<and> nul_free t"

definition ended :: "printbuffer \<Rightarrow> string \<Rightarrow> bool" where
  "ended p t \<longleftrightarrow> pb_offset p \<le> length t \<and> take (length t + 1) (pb_buffer p) = map Some (t @ [CHR 0x00]) \<and>
     length t < length (pb_buffer p) \<and> length (pb_buffer p) \<le> INT_MAX \<and> nul_free t"

lemma ensure_fails: "wrote p t \<Longrightarrow> INT_MAX < length t + n + 1 \<Longrightarrow> ensure p n = None"
  by (auto simp: ensure_def wrote_def Let_def)

lemma ensure_succeeds:
  assumes "wrote p t" and "length t + n + 1 \<le> INT_MAX"
  obtains p' where "ensure p n = Some p'" and "wrote p' t" and "length t + n < length (pb_buffer p')"
    and "pb_depth p' = pb_depth p" and "pb_format p' = pb_format p"
proof (cases "n + pb_offset p + 1 \<le> length (pb_buffer p)")
  case True
  then have "ensure p n = Some p" using assms by (auto simp: ensure_def wrote_def)
  then show ?thesis using that assms True by (simp add: wrote_def)
next
  case False
  have w: "pb_offset p = length t" "take (length t) (pb_buffer p) = map Some t" "length t < length (pb_buffer p)" "nul_free t"
    using assms(1) by (auto simp: wrote_def)
  define size where "size = (if n + length t + 1 > INT_MAX div 2 then INT_MAX else (n + length t + 1) * 2)"
  define p' where "p' = p\<lparr>pb_buffer := take (length t + 1) (pb_buffer p) @ replicate (size - (length t + 1)) None\<rparr>"
  have size: "length t + n + 1 \<le> size" "size \<le> INT_MAX" using assms(2) by (auto simp: size_def)
  have "length (take (length t + 1) (pb_buffer p)) = length t + 1" using w(3) by simp
  then have "ensure p n = Some p'"
    using False assms(2) w(1,3) by (auto simp: ensure_def Let_def p'_def size_def)
  moreover have "length (pb_buffer p') = size" using size(1) w(3) by (simp add: p'_def)
  moreover have "take (length t) (pb_buffer p') = map Some t" using w(2,3) by (simp add: p'_def min_def)
  ultimately show ?thesis using that [of p'] size w by (simp add: wrote_def p'_def)
qed

lemma poke_fits:
  assumes "take i (pb_buffer p) = map Some u" and "length u = i" and "i + length (s @ z) \<le> length (pb_buffer p)"
  obtains p' where "poke p i (s @ z) = Inr p'" and "take (i + length s) (pb_buffer p') = map Some (u @ s)"
    and "take (i + length (s @ z)) (pb_buffer p') = map Some (u @ s @ z)"
    and "length (pb_buffer p') = length (pb_buffer p)" and "pb_offset p' = pb_offset p"
    and "pb_depth p' = pb_depth p" and "pb_format p' = pb_format p"
  using assms by (simp add: poke_def)

lemma reserve_fails: "wrote p t \<Longrightarrow> INT_MAX < length t + n + 1 \<Longrightarrow> reserve p n s f = Inr None"
  by (simp add: reserve_def ensure_fails)

lemma reserve_writes:
  assumes "wrote p t" and "length t + n + 1 \<le> INT_MAX" and "length (s @ z) \<le> n + 1"
  obtains p' where "\<And>f. reserve p n (s @ z) f = f p'" and "take (length t + length s) (pb_buffer p') = map Some (t @ s)"
    and "take (length t + length (s @ z)) (pb_buffer p') = map Some (t @ s @ z)"
    and "length t + n < length (pb_buffer p')" and "length (pb_buffer p') \<le> INT_MAX" and "pb_offset p' = length t"
    and "pb_depth p' = pb_depth p" and "pb_format p' = pb_format p"
proof -
  obtain p1 where p1: "ensure p n = Some p1" "wrote p1 t" "length t + n < length (pb_buffer p1)"
    "pb_depth p1 = pb_depth p" "pb_format p1 = pb_format p"
    by (rule ensure_succeeds [OF assms(1,2)])
  have w: "take (length t) (pb_buffer p1) = map Some t" "pb_offset p1 = length t" "length (pb_buffer p1) \<le> INT_MAX"
    using p1(2) by (auto simp: wrote_def)
  have "length t + length (s @ z) \<le> length (pb_buffer p1)" using assms(3) p1(3) by linarith
  then obtain p' where "poke p1 (length t) (s @ z) = Inr p'" "take (length t + length s) (pb_buffer p') = map Some (t @ s)"
    "take (length t + length (s @ z)) (pb_buffer p') = map Some (t @ s @ z)" "length (pb_buffer p') = length (pb_buffer p1)"
    "pb_offset p' = pb_offset p1" "pb_depth p' = pb_depth p1" "pb_format p' = pb_format p1"
    using poke_fits [OF w(1), of s z] by blast
  then show ?thesis using that [of p'] p1 w by (simp add: reserve_def)
qed

text \<open>Text without a terminator, after which the offset is moved, and text with one.\<close>

lemma reserve_part:
  assumes "wrote p t" and "length t + n + 1 \<le> INT_MAX" and "length (s @ z) \<le> n + 1" and "nul_free s" and "length s \<le> n"
  obtains p' where "\<And>f. reserve p n (s @ z) f = f p'" and "wrote (p'\<lparr>pb_offset := pb_offset p' + length s\<rparr>) (t @ s)"
    and "pb_depth p' = pb_depth p" and "pb_format p' = pb_format p"
proof -
  obtain p' where "\<And>f. reserve p n (s @ z) f = f p'" "take (length t + length s) (pb_buffer p') = map Some (t @ s)"
    "length t + n < length (pb_buffer p')" "length (pb_buffer p') \<le> INT_MAX" "pb_offset p' = length t"
    "pb_depth p' = pb_depth p" "pb_format p' = pb_format p"
    using reserve_writes [OF assms(1-3)] by blast
  then show ?thesis using that [of p'] assms(1,4,5) by (simp add: wrote_def)
qed

lemma reserve_end:
  assumes "wrote p t" and "length t + n + 1 \<le> INT_MAX" and "length s \<le> n" and "nul_free s"
  obtains p' where "\<And>f. reserve p n (s @ [CHR 0x00]) f = f p'" and "ended p' (t @ s)"
    and "ended (p'\<lparr>pb_offset := pb_offset p' + length s\<rparr>) (t @ s)"
    and "pb_depth p' = pb_depth p" and "pb_format p' = pb_format p"
proof -
  have "length (s @ [CHR 0x00]) \<le> n + 1" using assms(3) by simp
  then obtain p' where "\<And>f. reserve p n (s @ [CHR 0x00]) f = f p'"
    "take (length t + length (s @ [CHR 0x00])) (pb_buffer p') = map Some (t @ s @ [CHR 0x00])"
    "length t + n < length (pb_buffer p')" "length (pb_buffer p') \<le> INT_MAX" "pb_offset p' = length t"
    "pb_depth p' = pb_depth p" "pb_format p' = pb_format p"
    using reserve_writes [OF assms(1,2)] by blast
  then show ?thesis using that [of p'] assms by (simp add: ended_def wrote_def)
qed

lemma peek_text: "nul_free s \<Longrightarrow> peek (map Some s @ Some (CHR 0x00) # bs) = Inr s"
  by (induction s) auto

lemma update_ended:
  assumes "ended p t"
  shows "update_offset p = Inr (p\<lparr>pb_offset := length t\<rparr>)" and "wrote (p\<lparr>pb_offset := length t\<rparr>) t"
proof -
  have e: "pb_offset p \<le> length t" "take (length t + 1) (pb_buffer p) = map Some (t @ [CHR 0x00])"
    "length t < length (pb_buffer p)" "nul_free t" using assms by (auto simp: ended_def)
  have "pb_buffer p = map Some t @ Some (CHR 0x00) # drop (length t + 1) (pb_buffer p)"
    using append_take_drop_id [of "length t + 1" "pb_buffer p"] by (simp only: e(2)) simp
  then have "drop (pb_offset p) (pb_buffer p) = map Some (drop (pb_offset p) t) @ Some (CHR 0x00) # drop (length t + 1) (pb_buffer p)"
    using e(1) by (metis append_Nil2 cancel_comm_monoid_add_class.diff_cancel diff_is_0_eq drop0 drop_append drop_map length_map)
  moreover have "nul_free (drop (pb_offset p) t)" using e(4) by (auto simp: nul_free_def dest: in_set_dropD)
  ultimately show "update_offset p = Inr (p\<lparr>pb_offset := length t\<rparr>)" using e(1) by (simp add: update_offset_def peek_text)
  have "take (length t) (pb_buffer p) = map Some t"
    using e(2) by (metis append_eq_conv_conj length_map map_append take_add take_take min.absorb1 le_add1)
  then show "wrote (p\<lparr>pb_offset := length t\<rparr>) t" using assms by (simp add: wrote_def ended_def)
qed


section \<open>Printing writes the text\<close>

text \<open>
  Printing after the text \<open>t\<close> what should be the text \<open>s\<close>: it succeeds as long as the result fits,
  with a terminator and a byte to spare, into \<open>INT_MAX\<close> bytes.
\<close>

definition prints :: "string \<Rightarrow> nat \<Rightarrow> bool \<Rightarrow> string option \<Rightarrow> printbuffer option exec \<Rightarrow> bool" where
  "prints t d fmt so r \<longleftrightarrow> (case so of None \<Rightarrow> r = Inr None
     | Some s \<Rightarrow> if length t + length s + 2 \<le> INT_MAX
         then (\<exists>p. r = Inr (Some p) \<and> ended p (t @ s) \<and> pb_depth p = d \<and> pb_format p = fmt) else r = Inr None)"

lemma prints_reserved:
  assumes "wrote p t" and "nul_free s" and "n = length s + 1"
    and "\<And>p'. ended p' (t @ s) \<Longrightarrow> ended (p'\<lparr>pb_offset := pb_offset p' + length s\<rparr>) (t @ s) \<Longrightarrow>
       pb_depth p' = pb_depth p \<Longrightarrow> pb_format p' = pb_format p \<Longrightarrow> prints t d fmt (Some s) (f p')"
  shows "prints t d fmt (Some s) (reserve p n (s @ [CHR 0x00]) f)"
proof (cases "length t + n + 1 \<le> INT_MAX")
  case True
  then show ?thesis using reserve_end [OF assms(1) True _ assms(2)] assms(3,4) by (metis le_add1)
next
  case False
  then show ?thesis using reserve_fails [OF assms(1)] assms(3) by (simp add: prints_def)
qed

lemma prints_done: "ended p (t @ s) \<Longrightarrow> pb_depth p = d \<Longrightarrow> pb_format p = fmt \<Longrightarrow> length t + length s + 2 \<le> INT_MAX \<Longrightarrow>
    prints t d fmt (Some s) (Inr (Some p))"
  by (simp add: prints_def)

text \<open>Strings: the room that is counted is what the escapes take.\<close>

lemma escape_length: "length (escape_char c) = 1 + escape_size c"
  by (auto simp: escape_char_def escape_size_def Let_def)

lemma escapes_length: "length (concat (map escape_char s)) = length s + sum_list (map escape_size s)"
  by (induction s) (simp_all add: escape_length)

lemma no_escapes: "sum_list (map escape_size s) = 0 \<Longrightarrow> concat (map escape_char s) = s"
proof (induction s)
  case (Cons c s)
  then have "escape_size c = 0" by simp
  then have "escape_char c = [c]"
    by (auto simp: escape_size_def escape_char_def Let_def split: if_splits)
  then show ?case using Cons by simp
qed simp

lemma escape_loop_writes:
  assumes "take i (pb_buffer p) = map Some u" and "length u = i" and "i + length (concat (map escape_char s)) < length (pb_buffer p)"
  obtains p' where "escape_loop p i s = Inr p'"
    and "take (i + length (concat (map escape_char s))) (pb_buffer p') = map Some (u @ concat (map escape_char s))"
    and "length (pb_buffer p') = length (pb_buffer p)" and "pb_offset p' = pb_offset p"
    and "pb_depth p' = pb_depth p" and "pb_format p' = pb_format p"
  using assms
proof (induction s arbitrary: p i u thesis)
  case Nil
  show ?case using Nil.prems(1) [of p] Nil.prems(2) by simp
next
  case (Cons c s)
  let ?z = "if escape_size c = 5 then [CHR 0x00] else []"
  have "i + length (escape_char c @ ?z) \<le> length (pb_buffer p)" using Cons.prems(4) by simp
  then obtain p1 where p1: "poke p i (escape_char c @ ?z) = Inr p1"
    "take (i + length (escape_char c)) (pb_buffer p1) = map Some (u @ escape_char c)" "length (pb_buffer p1) = length (pb_buffer p)"
    "pb_offset p1 = pb_offset p" "pb_depth p1 = pb_depth p" "pb_format p1 = pb_format p"
    using poke_fits [OF Cons.prems(2,3)] by blast
  have "i + length (escape_char c) + length (concat (map escape_char s)) < length (pb_buffer p1)" using Cons.prems(4) p1(3) by simp
  then obtain p2 where "escape_loop p1 (i + length (escape_char c)) s = Inr p2"
    "take (i + length (escape_char c) + length (concat (map escape_char s))) (pb_buffer p2) =
       map Some ((u @ escape_char c) @ concat (map escape_char s))"
    "length (pb_buffer p2) = length (pb_buffer p1)" "pb_offset p2 = pb_offset p1" "pb_depth p2 = pb_depth p1" "pb_format p2 = pb_format p1"
    using Cons.IH [OF _ p1(2)] Cons.prems(3) by (metis length_append)
  then show ?case using Cons.prems(1) [of p2] p1 by (simp add: add.assoc)
qed

lemma string_prints:
  assumes "wrote p t"
  shows "prints t (pb_depth p) (pb_format p) (Some (print_string_ptr s)) (buffer_string s p)"
proof -
  let ?e = "concat (map escape_char s)" and ?n = "length s + sum_list (map escape_size s)"
  have len: "length ?e = ?n" "length (print_string_ptr s) = ?n + 2" by (simp_all add: escapes_length print_string_ptr_def)
  have nf: "nul_free (print_string_ptr s)" by (rule nul_free_string)
  show ?thesis
  proof (cases "length t + (?n + 3) + 1 \<le> INT_MAX")
    case False
    then have "ensure p (?n + 3) = None" using ensure_fails [OF assms] by simp
    then show ?thesis using False len(2) by (simp add: buffer_string_def prints_def)
  next
    case True
    obtain p1 where p1: "ensure p (?n + 3) = Some p1" "wrote p1 t" "length t + (?n + 3) < length (pb_buffer p1)"
      "pb_depth p1 = pb_depth p" "pb_format p1 = pb_format p"
      by (rule ensure_succeeds [OF assms True])
    have w: "take (length t) (pb_buffer p1) = map Some t" "pb_offset p1 = length t" "length (pb_buffer p1) \<le> INT_MAX" "nul_free t"
      using p1(2) by (auto simp: wrote_def)
    have "\<exists>p'. buffer_string s p = Inr (Some p') \<and>
        take (length t + length (print_string_ptr s) + 1) (pb_buffer p') = map Some (t @ print_string_ptr s @ [CHR 0x00]) \<and>
        length (pb_buffer p') = length (pb_buffer p1) \<and> pb_offset p' = pb_offset p1 \<and> pb_depth p' = pb_depth p1 \<and> pb_format p' = pb_format p1"
    proof (cases "sum_list (map escape_size s) = 0")
      case True
      have "length t + length ((print_string_ptr s @ [CHR 0x00]) @ []) \<le> length (pb_buffer p1)" using p1(3) len(2) by simp
      then obtain p' where "poke p1 (length t) (print_string_ptr s @ [CHR 0x00]) = Inr p'"
        "take (length t + length (print_string_ptr s @ [CHR 0x00])) (pb_buffer p') = map Some (t @ print_string_ptr s @ [CHR 0x00])"
        "length (pb_buffer p') = length (pb_buffer p1)" "pb_offset p' = pb_offset p1" "pb_depth p' = pb_depth p1" "pb_format p' = pb_format p1"
        using poke_fits [OF w(1) refl, of "print_string_ptr s @ [CHR 0x00]" "[]"] by auto
      moreover have "buffer_string s p = exec_bind (poke p1 (length t) (print_string_ptr s @ [CHR 0x00])) (\<lambda>p. Inr (Some p))"
        using p1(1) w(2) no_escapes [OF True] unfolding buffer_string_def Let_def True print_string_ptr_def by simp
      ultimately show ?thesis by simp
    next
      case False
      have "length t + length ([CHR 0x22] @ []) \<le> length (pb_buffer p1)" using p1(3) by simp
      then obtain p2 where p2: "poke p1 (length t) [CHR 0x22] = Inr p2" "take (length t + 1) (pb_buffer p2) = map Some (t @ [CHR 0x22])"
        "length (pb_buffer p2) = length (pb_buffer p1)" "pb_offset p2 = pb_offset p1" "pb_depth p2 = pb_depth p1" "pb_format p2 = pb_format p1"
        using poke_fits [OF w(1) refl, of "[CHR 0x22]" "[]"] by auto
      have "length t + 1 + length ?e < length (pb_buffer p2)" using p1(3) p2(3) len(1) by simp
      then obtain p3 where p3: "escape_loop p2 (length t + 1) s = Inr p3"
        "take (length t + 1 + length ?e) (pb_buffer p3) = map Some ((t @ [CHR 0x22]) @ ?e)" "length (pb_buffer p3) = length (pb_buffer p2)"
        "pb_offset p3 = pb_offset p2" "pb_depth p3 = pb_depth p2" "pb_format p3 = pb_format p2"
        using escape_loop_writes [OF p2(2), of s] by auto
      have "length t + 1 + length ?e + length ([CHR 0x22, CHR 0x00] @ []) \<le> length (pb_buffer p3)" using p1(3) p2(3) p3(3) len(1) by simp
      then obtain p4 where "poke p3 (length t + 1 + length ?e) [CHR 0x22, CHR 0x00] = Inr p4"
        "take (length t + 1 + length ?e + 2) (pb_buffer p4) = map Some (((t @ [CHR 0x22]) @ ?e) @ [CHR 0x22, CHR 0x00])"
        "length (pb_buffer p4) = length (pb_buffer p3)" "pb_offset p4 = pb_offset p3" "pb_depth p4 = pb_depth p3" "pb_format p4 = pb_format p3"
        using poke_fits [OF p3(2), of "[CHR 0x22, CHR 0x00]" "[]"] by auto
      moreover have "buffer_string s p = exec_bind (poke p3 (length t + 1 + length ?e) [CHR 0x22, CHR 0x00]) (\<lambda>p. Inr (Some p))"
        using p1(1) w(2) False p2(1,4) p3(1,4) len(1) by (simp only: buffer_string_def Let_def) (simp add: ac_simps)
      ultimately show ?thesis using p2 p3 len by (simp add: print_string_ptr_def)
    qed
    then show ?thesis
      using True len(2) p1 w nf by (auto simp: prints_def ended_def)
  qed
qed

lemma strip_zerosD: "c \<in> set (strip_zeros s) \<Longrightarrow> c \<in> set s"
  unfolding strip_zeros_def by (metis set_dropWhileD set_rev)

lemma number_nul_free: "print_number d = Some s \<Longrightarrow> nul_free s"
proof -
  have digits: "CHR 0x00 \<notin> set (show_nat n)" for n using show_nat_digits [of n] by (auto simp: list_all_iff is_digit_def)
  have "nul_free (fmt_g k x)" for k x
    using digits by (auto simp: fmt_g_def nul_free_def pad_zeros_def Let_def split: prod.split dest!: strip_zerosD dest: in_set_takeD in_set_dropD)
  then show "print_number d = Some s \<Longrightarrow> nul_free s"
    by (auto simp: print_number_def Let_def nul_free_def split: if_splits dbl.split_asm)
qed

lemma number_prints:
  assumes "wrote p t"
  shows "prints t (pb_depth p) (pb_format p) (print_number n) (buffer_number n p)"
proof (cases "print_number n")
  case None
  then show ?thesis by (simp add: buffer_number_def prints_def)
next
  case (Some s)
  have "prints t (pb_depth p) (pb_format p) (Some s) (reserve p (length s + 1) (s @ [CHR 0x00])
      (\<lambda>p. Inr (Some (p\<lparr>pb_offset := pb_offset p + length s\<rparr>))))"
  proof (cases "length t + length s + 2 \<le> INT_MAX")
    case True
    then show ?thesis using assms number_nul_free [OF Some] by (intro prints_reserved prints_done) auto
  next
    case False
    then show ?thesis using reserve_fails [OF assms(1), of "length s + 1"] by (simp add: prints_def)
  qed
  then show ?thesis using Some by (simp add: buffer_number_def)
qed

lemma constant_prints:
  assumes "wrote p t" and "nul_free s" and "n = length s + 1"
  shows "prints t (pb_depth p) (pb_format p) (Some s) (reserve p n (s @ [CHR 0x00]) (\<lambda>p. Inr (Some p)))"
proof (cases "length t + length s + 2 \<le> INT_MAX")
  case True
  then show ?thesis using assms by (intro prints_reserved prints_done) auto
next
  case False
  then show ?thesis using reserve_fails [OF assms(1), of n] assms(3) by (simp add: prints_def)
qed

section \<open>Composing texts\<close>

lemma prints_bind:
  assumes "prints t d fmt vo r"
    and "\<And>v p. vo = Some v \<Longrightarrow> wrote p (t @ v) \<Longrightarrow> pb_depth p = d \<Longrightarrow> pb_format p = fmt \<Longrightarrow> prints (t @ v) d' fmt wo (f p)"
  shows "prints t d' fmt (Option.bind vo (\<lambda>v. map_option ((@) v) wo)) (and_then r (\<lambda>p. exec_bind (update_offset p) f))"
proof (cases vo)
  case None
  then show ?thesis using assms(1) by (simp add: prints_def and_then_def)
next
  case (Some v)
  show ?thesis
  proof (cases "length t + length v + 2 \<le> INT_MAX")
    case True
    then obtain p where p: "r = Inr (Some p)" "ended p (t @ v)" "pb_depth p = d" "pb_format p = fmt"
      using assms(1) Some by (auto simp: prints_def)
    have "prints (t @ v) d' fmt wo (f (p\<lparr>pb_offset := length (t @ v)\<rparr>))"
      using assms(2) [OF Some update_ended(2) [OF p(2)]] p(3,4) by simp
    then show ?thesis
      using Some p(1) update_ended(1) [OF p(2)] by (cases wo) (auto simp: prints_def and_then_def add.assoc)
  next
    case False
    then show ?thesis using assms(1) Some by (cases wo) (auto simp: prints_def and_then_def)
  qed
qed

lemma prints_part:
  assumes "wrote p t" and "nul_free s" and "length (s @ z) \<le> n + 1" and "length s \<le> n" and "n \<le> length s + 1"
    and "wo \<noteq> Some []"
    and "\<And>p'. wrote (p'\<lparr>pb_offset := pb_offset p' + length s\<rparr>) (t @ s) \<Longrightarrow> pb_depth p' = pb_depth p \<Longrightarrow>
       pb_format p' = pb_format p \<Longrightarrow> prints (t @ s) d fmt wo (f p')"
  shows "prints t d fmt (map_option ((@) s) wo) (reserve p n (s @ z) f)"
proof (cases "length t + n + 1 \<le> INT_MAX")
  case True
  obtain p' where p': "\<And>f. reserve p n (s @ z) f = f p'" "wrote (p'\<lparr>pb_offset := pb_offset p' + length s\<rparr>) (t @ s)"
    "pb_depth p' = pb_depth p" "pb_format p' = pb_format p"
    using reserve_part [OF assms(1) True assms(3,2,4)] by blast
  then have "prints (t @ s) d fmt wo (f p')" using assms(7) by blast
  then show ?thesis by (cases wo) (auto simp: prints_def p'(1) add.assoc)
next
  case False
  moreover have "1 \<le> length w" if "wo = Some w" for w using assms(6) that by (cases w) auto
  ultimately show ?thesis
    using reserve_fails [OF assms(1), of n] assms(5) by (cases wo) (fastforce simp: prints_def)+
qed

lemma and_then_reserve: "and_then (reserve p n s (\<lambda>p. Inr (Some (g p)))) f = reserve p n s (\<lambda>p. f (g p))"
  by (auto simp: and_then_def reserve_def poke_def split: option.split)

lemma and_then_done: "and_then (Inr (Some p)) f = f p"
  by (simp add: and_then_def)

lemma text_not_Nil: "text_array fmt d xs \<noteq> Some []" "text_object fmt d kvs \<noteq> Some []"
  by (cases xs; auto split: option.split)
    (cases "(fmt, d, kvs)" rule: text_object.cases; auto split: option.split)


text \<open>What one part of the printer guarantees, for every text before it.\<close>

definition value_ok :: "LDJSON \<Rightarrow> bool" where
  "value_ok j \<longleftrightarrow> (\<forall>p t. wrote p t \<longrightarrow> prints t (pb_depth p) (pb_format p) (text_value (pb_format p) (pb_depth p) j) (buffer_value p j))"

definition array_ok :: "LDJSON list \<Rightarrow> bool" where
  "array_ok xs \<longleftrightarrow> (\<forall>p t. wrote p t \<longrightarrow> prints t (pb_depth p - 1) (pb_format p) (text_array (pb_format p) (pb_depth p) xs) (buffer_array p xs))"

definition object_ok :: "(string \<times> LDJSON) list \<Rightarrow> bool" where
  "object_ok kvs \<longleftrightarrow> (\<forall>p t. wrote p t \<longrightarrow> 0 < pb_depth p \<longrightarrow> prints t (pb_depth p - 1) (pb_format p) (text_object (pb_format p) (pb_depth p) kvs) (buffer_object p kvs))"

lemma value_okD: "value_ok j \<Longrightarrow> wrote p t \<Longrightarrow> pb_depth p = d \<Longrightarrow> pb_format p = fmt \<Longrightarrow>
    prints t d fmt (text_value fmt d j) (buffer_value p j)"
  by (auto simp: value_ok_def)

lemma array_okD: "array_ok xs \<Longrightarrow> wrote p t \<Longrightarrow> pb_depth p = d \<Longrightarrow> pb_format p = fmt \<Longrightarrow>
    prints t (d - 1) fmt (text_array fmt d xs) (buffer_array p xs)"
  by (auto simp: array_ok_def)

lemma object_okD: "object_ok kvs \<Longrightarrow> wrote p t \<Longrightarrow> pb_depth p = d \<Longrightarrow> pb_format p = fmt \<Longrightarrow> 0 < d \<Longrightarrow>
    prints t (d - 1) fmt (text_object fmt d kvs) (buffer_object p kvs)"
  by (auto simp: object_ok_def)

lemma map_append_Nil [simp]: "map_option ((@) []) x = x"
  by (cases x) simp_all

lemma closing_prints:
  assumes "wrote p t" and "nul_free s" and "n = length s + 1"
  shows "prints t (pb_depth p - 1) (pb_format p) (Some s)
     (reserve p n (s @ [CHR 0x00]) (\<lambda>p. Inr (Some (p\<lparr>pb_depth := pb_depth p - 1\<rparr>))))"
proof (cases "length t + length s + 2 \<le> INT_MAX")
  case True
  then show ?thesis using assms by (intro prints_reserved prints_done) (auto simp: ended_def)
next
  case False
  then show ?thesis using reserve_fails [OF assms(1), of n] assms(3) by (simp add: prints_def)
qed

lemma array_ok_Nil: "array_ok []"
  using closing_prints [of _ _ "'']''" 2] by (simp add: array_ok_def)

lemma object_ok_Nil: "object_ok []"
proof -
  have "prints t (pb_depth p - 1) (pb_format p) (text_object (pb_format p) (pb_depth p) []) (buffer_object p [])"
    if w: "wrote p t" and d: "0 < pb_depth p" for p t
  proof -
    let ?s = "(if pb_format p then replicate (pb_depth p - 1) (CHR 0x09) else []) @ ''}''"
    have s: "nul_free ?s" "(if pb_format p then pb_depth p + 1 else 2) = length ?s + 1" using d by (auto simp: nul_free_def)
    show ?thesis unfolding buffer_object.simps s(2) using closing_prints [OF w s(1) refl] by simp
  qed
  then show ?thesis by (simp add: object_ok_def)
qed

lemma array_ok_Cons:
  assumes "value_ok x" and "array_ok xs"
  shows "array_ok (x # xs)"
proof -
  have "prints t (pb_depth p - 1) (pb_format p) (text_array (pb_format p) (pb_depth p) (x # xs)) (buffer_array p (x # xs))"
    if w: "wrote p t" for p t
  proof -
    let ?fmt = "pb_format p" and ?d = "pb_depth p"
    let ?sep = "if xs = [] then [] else CHR '','' # (if ?fmt then '' '' else [])"
    have eq: "text_array ?fmt ?d (x # xs) =
        Option.bind (text_value ?fmt ?d x) (\<lambda>v. map_option ((@) v) (map_option ((@) ?sep) (text_array ?fmt ?d xs)))"
      by (cases "text_value ?fmt ?d x"; cases "text_array ?fmt ?d xs") auto
    have rest: "prints (t @ v) (?d - 1) ?fmt (map_option ((@) ?sep) (text_array ?fmt ?d xs))
        (if xs \<noteq> [] then (let len = (if pb_format p' then 2 else 1)
           in reserve p' (len + 1) (CHR '','' # (if pb_format p' then '' '' else []) @ [CHR 0x00]) (\<lambda>p.
             buffer_array (p\<lparr>pb_offset := pb_offset p + len\<rparr>) xs)) else buffer_array p' xs)"
      if p': "wrote p' (t @ v)" "pb_depth p' = ?d" "pb_format p' = ?fmt" for v p'
    proof (cases "xs = []")
      case True
      then show ?thesis using array_okD [OF assms(2) p'] by simp
    next
      case False
      have "prints (t @ v) (?d - 1) ?fmt (map_option ((@) ?sep) (text_array ?fmt ?d xs))
          (reserve p' (length ?sep + 1) (?sep @ [CHR 0x00]) (\<lambda>p. buffer_array (p\<lparr>pb_offset := pb_offset p + length ?sep\<rparr>) xs))"
      proof (rule prints_part [OF p'(1)])
        fix q assume "wrote (q\<lparr>pb_offset := pb_offset q + length ?sep\<rparr>) ((t @ v) @ ?sep)" "pb_depth q = pb_depth p'" "pb_format q = pb_format p'"
        then show "prints ((t @ v) @ ?sep) (?d - 1) ?fmt (text_array ?fmt ?d xs) (buffer_array (q\<lparr>pb_offset := pb_offset q + length ?sep\<rparr>) xs)"
          using p' by (intro array_okD assms(2)) simp_all
      qed (auto simp: text_not_Nil)
      then show ?thesis using False p'(3) by (cases ?fmt) (simp_all add: eval_nat_numeral)
    qed
    show ?thesis unfolding eq buffer_array.simps
      by (rule prints_bind [OF assms(1) [unfolded value_ok_def, rule_format, OF w]]) (rule rest)
  qed
  then show ?thesis by (simp add: array_ok_def)
qed


lemma object_ok_Cons:
  assumes "value_ok x" and "object_ok kvs"
  shows "object_ok ((k, x) # kvs)"
proof -
  have "prints t (pb_depth p - 1) (pb_format p) (text_object (pb_format p) (pb_depth p) ((k, x) # kvs)) (buffer_object p ((k, x) # kvs))"
    if w: "wrote p t" and d: "0 < pb_depth p" for p t
  proof -
    let ?fmt = "pb_format p" and ?d = "pb_depth p"
    let ?tabs = "if ?fmt then replicate ?d (CHR 0x09) else []"
    let ?colon = "CHR '':'' # (if ?fmt then [CHR 0x09] else [])"
    let ?sep = "(if kvs \<noteq> [] then '','' else []) @ (if ?fmt then [CHR 0x0A] else [])"
    let ?r0 = "text_object ?fmt ?d kvs"
    let ?r1 = "map_option ((@) ?sep) ?r0"
    let ?r2 = "Option.bind (text_value ?fmt ?d x) (\<lambda>v. map_option ((@) v) ?r1)"
    let ?r3 = "map_option ((@) ?colon) ?r2"
    let ?r4 = "Option.bind (Some (print_string_ptr k)) (\<lambda>v. map_option ((@) v) ?r3)"
    have eq: "text_object ?fmt ?d ((k, x) # kvs) = map_option ((@) ?tabs) ?r4"
      by (cases "text_value ?fmt ?d x"; cases "text_object ?fmt ?d kvs") auto
    define f0 where "f0 = (\<lambda>p. let len = (if pb_format p then 1 else 0) + (if kvs \<noteq> [] then 1 else 0)
      in reserve p (len + 1) ((if kvs \<noteq> [] then '','' else []) @ (if pb_format p then [CHR 0x0A] else []) @ [CHR 0x00]) (\<lambda>p.
        buffer_object (p\<lparr>pb_offset := pb_offset p + len\<rparr>) kvs))"
    define f1 where "f1 = (\<lambda>p. let len = (if pb_format p then 2 else 1)
      in reserve p len (CHR '':'' # (if pb_format p then [CHR 0x09] else [])) (\<lambda>p.
        and_then (buffer_value (p\<lparr>pb_offset := pb_offset p + len\<rparr>) x) (\<lambda>p. exec_bind (update_offset p) f0)))"
    define f2 where "f2 = (\<lambda>p. and_then (buffer_string k p) (\<lambda>p. exec_bind (update_offset p) f1))"
    have p0: "prints u (?d - 1) ?fmt ?r1 (f0 q)" if q: "wrote q u" "pb_depth q = ?d" "pb_format q = ?fmt" for q u
    proof -
      have "prints u (?d - 1) ?fmt ?r1 (reserve q (length ?sep + 1) (?sep @ [CHR 0x00]) (\<lambda>p. buffer_object (p\<lparr>pb_offset := pb_offset p + length ?sep\<rparr>) kvs))"
      proof (rule prints_part [OF q(1)])
        fix q' assume "wrote (q'\<lparr>pb_offset := pb_offset q' + length ?sep\<rparr>) (u @ ?sep)" "pb_depth q' = pb_depth q" "pb_format q' = pb_format q"
        then show "prints (u @ ?sep) (?d - 1) ?fmt ?r0 (buffer_object (q'\<lparr>pb_offset := pb_offset q' + length ?sep\<rparr>) kvs)"
          using q d by (intro object_okD assms(2)) simp_all
      qed (auto simp: text_not_Nil)
      then show ?thesis using q(3) by (cases ?fmt; cases "kvs = []") (simp_all add: f0_def eval_nat_numeral del: buffer_object.simps)
    qed
    have p2: "prints u (?d - 1) ?fmt ?r2 (and_then (buffer_value q x) (\<lambda>p. exec_bind (update_offset p) f0))"
      if q: "wrote q u" "pb_depth q = ?d" "pb_format q = ?fmt" for q u
      by (rule prints_bind [OF value_okD [OF assms(1) q]]) (rule p0)
    have p3: "prints u (?d - 1) ?fmt ?r3 (f1 q)" if q: "wrote q u" "pb_depth q = ?d" "pb_format q = ?fmt" for q u
    proof -
      have "prints u (?d - 1) ?fmt ?r3 (reserve q (length ?colon) (?colon @ []) (\<lambda>p.
          and_then (buffer_value (p\<lparr>pb_offset := pb_offset p + length ?colon\<rparr>) x) (\<lambda>p. exec_bind (update_offset p) f0)))"
        using q by (intro prints_part [OF q(1)] p2) (auto simp: text_not_Nil bind_eq_Some_conv)
      then show ?thesis using q(3) by (cases ?fmt) (simp_all add: f1_def eval_nat_numeral)
    qed
    have p4: "prints u (?d - 1) ?fmt ?r4 (f2 q)" if q: "wrote q u" "pb_depth q = ?d" "pb_format q = ?fmt" for q u
      unfolding f2_def by (rule prints_bind [OF string_prints [OF q(1), of k, unfolded q(2,3)]]) (rule p3)
    have run: "buffer_object p ((k, x) # kvs) = (if ?fmt then reserve p ?d (replicate ?d (CHR 0x09))
        (\<lambda>p. f2 (p\<lparr>pb_offset := pb_offset p + pb_depth p\<rparr>)) else f2 p)"
      unfolding f2_def f1_def f0_def by (cases ?fmt) (simp_all only: buffer_object.simps if_True if_False and_then_reserve and_then_done)
    show ?thesis
    proof (cases ?fmt)
      case True
      have "prints t (?d - 1) ?fmt (map_option ((@) (replicate ?d (CHR 0x09))) ?r4)
          (reserve p ?d (replicate ?d (CHR 0x09) @ []) (\<lambda>p. f2 (p\<lparr>pb_offset := pb_offset p + pb_depth p\<rparr>)))"
        by (intro prints_part [OF w] p4) (auto simp: nul_free_def print_string_ptr_def)
      then show ?thesis unfolding eq run using True by simp
    next
      case False
      then show ?thesis unfolding eq run using p4 [OF w] by simp
    qed
  qed
  then show ?thesis by (simp add: object_ok_def)
qed


lemma value_ok_array:
  assumes "array_ok xs"
  shows "value_ok (JArray xs)"
proof -
  have "prints t d fmt (map_option ((@) ''['') (text_array fmt (Suc d) xs)) (reserve p 1 (''['' @ []) (\<lambda>p.
      buffer_array (p\<lparr>pb_offset := pb_offset p + 1, pb_depth := pb_depth p + 1\<rparr>) xs))"
    if w: "wrote p t" "pb_depth p = d" "pb_format p = fmt" for p t d fmt
  proof (rule prints_part [OF w(1)])
    fix q assume "wrote (q\<lparr>pb_offset := pb_offset q + length ''[''\<rparr>) (t @ ''['')" "pb_depth q = pb_depth p" "pb_format q = pb_format p"
    then show "prints (t @ ''['') d fmt (text_array fmt (Suc d) xs)
        (buffer_array (q\<lparr>pb_offset := pb_offset q + 1, pb_depth := pb_depth q + 1\<rparr>) xs)"
      using array_okD [OF assms, of "q\<lparr>pb_offset := pb_offset q + 1, pb_depth := pb_depth q + 1\<rparr>" "t @ ''[''" "Suc d" fmt] w
      by (simp add: wrote_def)
  qed (auto simp: text_not_Nil)
  then show ?thesis by (simp add: value_ok_def append_single)
qed

lemma value_ok_object:
  assumes "object_ok kvs"
  shows "value_ok (JObject kvs)"
proof -
  have "prints t d fmt (text_value fmt d (JObject kvs)) (buffer_value p (JObject kvs))"
    if w: "wrote p t" "pb_depth p = d" "pb_format p = fmt" for p t d fmt
  proof -
    let ?s = "CHR ''{'' # (if fmt then [CHR 0x0A] else [])"
    have "prints t d fmt (map_option ((@) ?s) (text_object fmt (Suc d) kvs)) (reserve p (length ?s + 1) (?s @ []) (\<lambda>p.
        buffer_object (p\<lparr>pb_offset := pb_offset p + length ?s, pb_depth := pb_depth p + 1\<rparr>) kvs))"
    proof (rule prints_part [OF w(1)])
      fix q assume "wrote (q\<lparr>pb_offset := pb_offset q + length ?s\<rparr>) (t @ ?s)" "pb_depth q = pb_depth p" "pb_format q = pb_format p"
      then show "prints (t @ ?s) d fmt (text_object fmt (Suc d) kvs)
          (buffer_object (q\<lparr>pb_offset := pb_offset q + length ?s, pb_depth := pb_depth q + 1\<rparr>) kvs)"
        using object_okD [OF assms, of "q\<lparr>pb_offset := pb_offset q + length ?s, pb_depth := pb_depth q + 1\<rparr>" "t @ ?s" "Suc d" fmt] w
        by (simp add: wrote_def)
    qed (auto simp: text_not_Nil)
    moreover have "text_value fmt d (JObject kvs) = map_option ((@) ?s) (text_object fmt (Suc d) kvs)"
      by (cases "text_object fmt (Suc d) kvs") simp_all
    ultimately show ?thesis using w(3) by (cases fmt) (simp_all add: eval_nat_numeral del: buffer_object.simps text_value.simps)
  qed
  then show ?thesis by (simp add: value_ok_def)
qed

lemma value_ok: "value_ok j"
proof (induction j)
  case (JNumber d)
  show ?case using number_prints by (simp add: value_ok_def)
next
  case (JText s)
  show ?case using string_prints by (simp add: value_ok_def)
next
  case (JArray xs)
  then have "array_ok xs" by (induction xs) (simp_all add: array_ok_Nil array_ok_Cons)
  then show ?case by (rule value_ok_array)
next
  case (JObject kvs)
  then have "object_ok kvs"
  proof (induction kvs)
    case (Cons x kvs)
    obtain k j where x: "x = (k, j)" by (cases x)
    have "value_ok j" using Cons.prems [of x j] by (simp add: x)
    moreover have "object_ok kvs" using Cons.prems by (intro Cons.IH) auto
    ultimately show ?case by (simp add: x object_ok_Cons)
  qed (rule object_ok_Nil)
  then show ?case by (rule value_ok_object)
next
  case (JBool b)
  show ?case
    using constant_prints [of _ _ "''true''" 5] constant_prints [of _ _ "''false''" 6] by (simp add: value_ok_def)
next
  case JNull
  show ?case using constant_prints [of _ _ "''null''" 5] by (simp add: value_ok_def)
qed

lemma print_json_text:
  "print_json j fmt = Inr (Option.bind (text_value fmt 0 j) (\<lambda>t. if length t + 2 \<le> INT_MAX then Some t else None))"
proof -
  let ?p = "\<lparr>pb_buffer = replicate 256 None, pb_offset = 0, pb_depth = 0, pb_format = fmt\<rparr>"
  have "wrote ?p []" by (simp add: wrote_def INT_MAX_def)
  then have r: "prints [] 0 fmt (text_value fmt 0 j) (buffer_value ?p j)"
    using value_okD [OF value_ok, of ?p "[]" 0 fmt j] by simp
  show ?thesis
  proof (cases "text_value fmt 0 j")
    case None
    then show ?thesis using r by (simp add: prints_def print_json_def)
  next
    case (Some t)
    show ?thesis
    proof (cases "length t + 2 \<le> INT_MAX")
      case False
      then show ?thesis using r Some by (simp add: prints_def print_json_def)
    next
      case True
      then obtain p where p: "buffer_value ?p j = Inr (Some p)" "ended p t" using r Some by (auto simp: prints_def)
      have e: "take (length t + 1) (pb_buffer p) = map Some (t @ [CHR 0x00])" "length t < length (pb_buffer p)" "nul_free t"
        using p(2) by (auto simp: ended_def)
      have "(map Some t @ [Some (CHR 0x00)])[length t := Some (CHR 0x00)] = map Some t @ [Some (CHR 0x00)]"
        by (simp add: list_update_append)
      then have "print_json j fmt = exec_bind (peek (map Some t @ [Some (CHR 0x00)])) (\<lambda>t. Inr (Some t))"
        using e p(1) update_ended(1) [OF p(2)] by (simp add: print_json_def min_absorb2)
      then show ?thesis using peek_text [OF e(3), of "[]"] Some True by simp
    qed
  qed
qed

text \<open>C19: the printer writes exactly the text of a value and stays inside its memory. In both layouts,
  whatever the value, every write of the printer lies within the buffer, which grows as needed, no
  byte is read before it is written, and the result is the text; it is \<open>NULL\<close> exactly when a number has
  no text or the text and two more bytes exceed \<open>INT_MAX\<close>.\<close>

theorem print_stays_in_buffer:
  "print_json j fmt = Inr (Option.bind (text_value fmt 0 j) (\<lambda>t. if length t + 2 \<le> INT_MAX then Some t else None))"
  by (rule print_json_text)

end
