(* ===== verification/FormattedRoundtrip.thy ===== *)
theory FormattedRoundtrip
  imports PrintMemory
begin

text \<open>
  The parser reads back both layouts of the printer, the compact and the formatted one.
\<close>

section \<open>White space\<close>

definition blank :: "string \<Rightarrow> bool" where
  "blank ws \<longleftrightarrow> list_all (\<lambda>c. (of_char c :: nat) \<le> 32) ws"

lemma blank_simps [simp]: "blank []" "blank (c # ws) \<longleftrightarrow> (of_char c :: nat) \<le> 32 \<and> blank ws"
  "blank (v @ ws) \<longleftrightarrow> blank v \<and> blank ws" "(of_char c :: nat) \<le> 32 \<Longrightarrow> blank (replicate n c)"
  by (auto simp: blank_def list_all_iff)

lemma skip_blank:
  assumes "blank ws" and "32 < (of_char c :: nat)"
  shows "buffer_skip_whitespace (ws @ c # s) = c # s"
proof -
  have "dropWhile (\<lambda>c. (of_char c :: nat) \<le> 32) (ws @ c # s) = c # s"
    using assms by (induction ws) auto
  then show ?thesis by (simp add: buffer_skip_whitespace_def)
qed

section \<open>Reading back\<close>

text \<open>The first character of a text: no white space and no bracket that closes.\<close>

definition opens :: "string \<Rightarrow> bool" where
  "opens t \<longleftrightarrow> (\<exists>c s. t = c # s \<and> 32 < (of_char c :: nat) \<and> (of_char c :: nat) < 128 \<and> c \<noteq> CHR '']'' \<and> c \<noteq> CHR ''}'')"

definition rereads_value :: "bool \<Rightarrow> LDJSON \<Rightarrow> bool" where
  "rereads_value fmt j \<longleftrightarrow> (\<forall>n. \<exists>t. text_value fmt n j = Some t \<and> opens t \<and>
     (\<forall>d rest. jdepth j + d \<le> CJSON_NESTING_LIMIT \<longrightarrow> stops rest \<longrightarrow> parse_value d (t @ rest) = Some (j, rest)))"

definition rereads_array :: "bool \<Rightarrow> LDJSON list \<Rightarrow> bool" where
  "rereads_array fmt xs \<longleftrightarrow> (\<forall>n. \<exists>t. text_array fmt n xs = Some t \<and> (xs \<noteq> [] \<longrightarrow> opens t) \<and>
     (\<forall>d ws rest. xs \<noteq> [] \<longrightarrow> blank ws \<longrightarrow> (\<forall>x\<in>set xs. jdepth x + d \<le> CJSON_NESTING_LIMIT) \<longrightarrow>
        array_loop d (ws @ t @ rest) = Some (xs, rest)))"

definition rereads_object :: "bool \<Rightarrow> (string \<times> LDJSON) list \<Rightarrow> bool" where
  "rereads_object fmt kvs \<longleftrightarrow> (\<forall>n. \<exists>v s. text_object fmt n kvs = Some (v @ s) \<and> blank v \<and>
     (if kvs = [] then s = ''}'' else hd s = CHR 0x22 \<and> s \<noteq> []) \<and>
     (\<forall>d ws rest. kvs \<noteq> [] \<longrightarrow> blank ws \<longrightarrow> (\<forall>x\<in>set kvs. jdepth (snd x) + d \<le> CJSON_NESTING_LIMIT) \<longrightarrow>
        object_loop d (ws @ s @ rest) = Some (kvs, rest)))"

lemma stops_newline [simp]: "stops (CHR 0x0A # s)"
  by (simp add: stops_def number_char_def is_digit_def)

lemma rereads_array_Cons:
  assumes "rereads_value fmt x" and "rereads_array fmt xs"
  shows "rereads_array fmt (x # xs)"
  unfolding rereads_array_def
proof
  fix n
  obtain v where v: "text_value fmt n x = Some v" "opens v"
    "\<And>d rest. jdepth x + d \<le> CJSON_NESTING_LIMIT \<Longrightarrow> stops rest \<Longrightarrow> parse_value d (v @ rest) = Some (x, rest)"
    using assms(1) unfolding rereads_value_def by blast
  obtain t where t: "text_array fmt n xs = Some t" "xs \<noteq> [] \<Longrightarrow> opens t"
    "\<And>d ws rest. xs \<noteq> [] \<Longrightarrow> blank ws \<Longrightarrow> \<forall>x\<in>set xs. jdepth x + d \<le> CJSON_NESTING_LIMIT \<Longrightarrow> array_loop d (ws @ t @ rest) = Some (xs, rest)"
    using assms(2) unfolding rereads_array_def by blast
  let ?sep = "if xs = [] then [] else CHR '','' # (if fmt then '' '' else [])"
  obtain c s where c: "v = c # s" "32 < (of_char c :: nat)" using v(2) by (auto simp: opens_def)
  have skip: "buffer_skip_whitespace (ws @ v @ u) = v @ u" if "blank ws" for ws u using skip_blank [OF that c(2)] by (simp add: c(1))
  have "array_loop d (ws @ (v @ ?sep @ t) @ rest) = Some (x # xs, rest)"
    if "blank ws" "\<forall>y\<in>set (x # xs). jdepth y + d \<le> CJSON_NESTING_LIMIT" for d ws rest
  proof (cases xs)
    case Nil
    then have "t = '']''" using t(1) by simp
    then show ?thesis using that v(3) [of d "'']'' @ rest"] skip [of ws] by (simp add: array_loop_eq skip_none Nil)
  next
    case (Cons y ys)
    then have "array_loop d ((if fmt then '' '' else []) @ t @ rest) = Some (xs, rest)" using t(3) that(2) by simp
    then show ?thesis
      using that v(3) [of d "?sep @ t @ rest"] skip [of ws] Cons by (simp add: array_loop_eq [of d "ws @ _"] skip_none)
  qed
  moreover have "text_array fmt n (x # xs) = Some (v @ ?sep @ t)" using v(1) t(1) by simp
  moreover have "opens (v @ ?sep @ t)" using v(2) by (auto simp: opens_def)
  ultimately show "\<exists>t. text_array fmt n (x # xs) = Some t \<and> (x # xs \<noteq> [] \<longrightarrow> opens t) \<and>
     (\<forall>d ws rest. x # xs \<noteq> [] \<longrightarrow> blank ws \<longrightarrow> (\<forall>x\<in>set (x # xs). jdepth x + d \<le> CJSON_NESTING_LIMIT) \<longrightarrow>
        array_loop d (ws @ t @ rest) = Some (x # xs, rest))" by blast
qed

lemma rereads_object_Cons:
  assumes "rereads_value fmt x" and "rereads_object fmt kvs" and "nul_free k"
  shows "rereads_object fmt ((k, x) # kvs)"
  unfolding rereads_object_def
proof
  fix n
  obtain v where v: "text_value fmt n x = Some v" "opens v"
    "\<And>d rest. jdepth x + d \<le> CJSON_NESTING_LIMIT \<Longrightarrow> stops rest \<Longrightarrow> parse_value d (v @ rest) = Some (x, rest)"
    using assms(1) unfolding rereads_value_def by blast
  obtain b t where t: "text_object fmt n kvs = Some (b @ t)" "blank b" "if kvs = [] then t = ''}'' else hd t = CHR 0x22 \<and> t \<noteq> []"
    "\<And>d ws rest. kvs \<noteq> [] \<Longrightarrow> blank ws \<Longrightarrow> \<forall>x\<in>set kvs. jdepth (snd x) + d \<le> CJSON_NESTING_LIMIT \<Longrightarrow>
       object_loop d (ws @ t @ rest) = Some (kvs, rest)"
    using assms(2) unfolding rereads_object_def by blast
  let ?tabs = "if fmt then replicate n (CHR 0x09) else []" and ?tab = "if fmt then [CHR 0x09] else []"
    and ?nl = "if fmt then [CHR 0x0A] else []" and ?comma = "if kvs = [] then [] else '',''"
  let ?s = "print_string_ptr k @ CHR '':'' # ?tab @ v @ ?comma @ ?nl @ b @ t"
  obtain c u where c: "v = c # u" "32 < (of_char c :: nat)" using v(2) by (auto simp: opens_def)
  have skip: "buffer_skip_whitespace (ws @ v @ w) = v @ w" "buffer_skip_whitespace (ws @ print_string_ptr k @ w) = print_string_ptr k @ w"
    if "blank ws" for ws w
    using skip_blank [OF that c(2)] skip_blank [OF that, of "CHR 0x22"] by (simp_all add: c(1) print_string_ptr_def)
  have bnl: "blank (?nl @ b)" "blank ?tab" using t(2) by simp_all
  have "object_loop d (ws @ ?s @ rest) = Some ((k, x) # kvs, rest)"
    if that: "blank ws" "\<forall>y\<in>set ((k, x) # kvs). jdepth (snd y) + d \<le> CJSON_NESTING_LIMIT" for d ws rest
  proof -
    let ?close = "?comma @ ?nl @ b @ t @ rest"
    have st: "stops ?close"
    proof (cases kvs)
      case Nil
      then have "stops (b @ t @ rest)" using t(2,3) by (cases b) (auto simp: stops_def number_char_def is_digit_def)
      then show ?thesis using Nil by simp
    qed simp
    have first: "object_loop d (ws @ ?s @ rest) = (case buffer_skip_whitespace ?close of [] \<Rightarrow> None
        | c # t \<Rightarrow> if c = CHR '','' then map_option (\<lambda>(kvs, r). ((k, x) # kvs, r)) (object_loop d t)
                  else if c = CHR ''}'' then Some ([(k, x)], t) else None)"
      using that v(3) [OF _ st, of d] skip(2) [OF that(1)] skip(1) [OF bnl(2)]
      by (simp add: object_loop_eq [of d "ws @ _"] parse_printed_string [OF assms(3)] skip_none)
    show ?thesis
    proof (cases "kvs = []")
      case True
      then have "buffer_skip_whitespace ?close = CHR ''}'' # rest" using t(3) skip_blank [OF bnl(1), of "CHR ''}''" rest] by simp
      then show ?thesis using first True by simp
    next
      case False
      then have "object_loop d ((?nl @ b) @ t @ rest) = Some (kvs, rest)" using t(4) [OF _ bnl(1)] that(2) by simp
      then show ?thesis using first False by (simp add: skip_none)
    qed
  qed
  moreover have "text_object fmt n ((k, x) # kvs) = Some (?tabs @ ?s)" using v(1) t(1) by simp
  moreover have "blank ?tabs" "hd ?s = CHR 0x22 \<and> ?s \<noteq> []" by (simp_all add: print_string_ptr_def)
  ultimately show "\<exists>v s. text_object fmt n ((k, x) # kvs) = Some (v @ s) \<and> blank v \<and>
     (if (k, x) # kvs = [] then s = ''}'' else hd s = CHR 0x22 \<and> s \<noteq> []) \<and>
     (\<forall>d ws rest. (k, x) # kvs \<noteq> [] \<longrightarrow> blank ws \<longrightarrow> (\<forall>x\<in>set ((k, x) # kvs). jdepth (snd x) + d \<le> CJSON_NESTING_LIMIT) \<longrightarrow>
        object_loop d (ws @ s @ rest) = Some ((k, x) # kvs, rest))"
    by (intro exI [of _ ?tabs] exI [of _ ?s]) simp
qed


lemma rereads_value_array:
  assumes "rereads_array fmt xs"
  shows "rereads_value fmt (JArray xs)"
  unfolding rereads_value_def
proof
  fix n
  obtain t where t: "text_array fmt (Suc n) xs = Some t" "xs \<noteq> [] \<Longrightarrow> opens t"
    "\<And>d ws rest. xs \<noteq> [] \<Longrightarrow> blank ws \<Longrightarrow> \<forall>x\<in>set xs. jdepth x + d \<le> CJSON_NESTING_LIMIT \<Longrightarrow> array_loop d (ws @ t @ rest) = Some (xs, rest)"
    using assms unfolding rereads_array_def by blast
  have "parse_array d (CHR ''['' # t @ rest) = Some (JArray xs, rest)" if "jdepth (JArray xs) + d \<le> CJSON_NESTING_LIMIT" for d rest
  proof (cases "xs = []")
    case True
    then have "t = '']''" using t(1) by simp
    then show ?thesis using that by (simp add: parse_array.simps skip_none True)
  next
    case False
    obtain c s where c: "t = c # s" "32 < (of_char c :: nat)" "c \<noteq> CHR '']''" using t(2) [OF False] by (auto simp: opens_def)
    have "array_loop (Suc d) ([] @ t @ rest) = Some (xs, rest)" using that False by (intro t(3)) (simp_all only: depth_members, simp_all)
    then show ?thesis using that c by (simp add: parse_array.simps [of d "CHR ''['' # _"] skip_none depth_members)
  qed
  then show "\<exists>t. text_value fmt n (JArray xs) = Some t \<and> opens t \<and> (\<forall>d rest. jdepth (JArray xs) + d \<le> CJSON_NESTING_LIMIT \<longrightarrow>
      stops rest \<longrightarrow> parse_value d (t @ rest) = Some (JArray xs, rest))"
    using t(1) by (auto simp: parse_value_first is_digit_def opens_def)
qed

lemma rereads_value_object:
  assumes "rereads_object fmt kvs"
  shows "rereads_value fmt (JObject kvs)"
  unfolding rereads_value_def
proof
  fix n
  obtain b s where t: "text_object fmt (Suc n) kvs = Some (b @ s)" "blank b" "if kvs = [] then s = ''}'' else hd s = CHR 0x22 \<and> s \<noteq> []"
    "\<And>d ws rest. kvs \<noteq> [] \<Longrightarrow> blank ws \<Longrightarrow> \<forall>x\<in>set kvs. jdepth (snd x) + d \<le> CJSON_NESTING_LIMIT \<Longrightarrow>
       object_loop d (ws @ s @ rest) = Some (kvs, rest)"
    using assms unfolding rereads_object_def by blast
  let ?nl = "if fmt then [CHR 0x0A] else []"
  have b: "blank (?nl @ b)" using t(2) by simp
  have "parse_object d (CHR ''{'' # ?nl @ b @ s @ rest) = Some (JObject kvs, rest)" if "jdepth (JObject kvs) + d \<le> CJSON_NESTING_LIMIT" for d rest
  proof (cases "kvs = []")
    case True
    then have "buffer_skip_whitespace (?nl @ b @ s @ rest) = CHR ''}'' # rest" using t(3) skip_blank [OF b, of "CHR ''}''" rest] by simp
    then show ?thesis using that by (simp add: parse_object.simps True)
  next
    case False
    obtain s' where s': "s = CHR 0x22 # s'" using t(3) False by (cases s) auto
    have "buffer_skip_whitespace (?nl @ b @ s @ rest) = s @ rest" using skip_blank [OF b, of "CHR 0x22" "s' @ rest"] by (simp add: s')
    moreover have "object_loop (Suc d) ([] @ s @ rest) = Some (kvs, rest)" using that False by (intro t(4)) (simp_all only: depth_members, simp_all)
    ultimately show ?thesis using that s' by (simp add: parse_object.simps [of d "CHR ''{'' # _"] depth_members)
  qed
  then show "\<exists>t. text_value fmt n (JObject kvs) = Some t \<and> opens t \<and> (\<forall>d rest. jdepth (JObject kvs) + d \<le> CJSON_NESTING_LIMIT \<longrightarrow>
      stops rest \<longrightarrow> parse_value d (t @ rest) = Some (JObject kvs, rest))"
    using t(1) by (auto simp: parse_value_first is_digit_def opens_def)
qed

lemma plain_rereads:
  assumes "json_ok j" and "\<And>xs. j \<noteq> JArray xs" and "\<And>kvs. j \<noteq> JObject kvs"
  shows "rereads_value fmt j"
proof -
  obtain t where t: "print_value j = Some t"
    "\<And>d rest. jdepth j + d \<le> CJSON_NESTING_LIMIT \<Longrightarrow> stops rest \<Longrightarrow> parse_value d (t @ rest) = Some (j, rest)"
    using reads_back [OF assms(1)] by (auto simp: reads_value_def)
  have "opens t" using printed_first [OF t(1) assms(1)] by (auto simp: opens_def)
  moreover have "text_value fmt n j = Some t" for n using t(1) assms(2,3) by (cases j) (simp_all, blast+)
  ultimately show ?thesis using t(2) by (auto simp: rereads_value_def)
qed

lemma rereads: "json_ok j \<Longrightarrow> rereads_value fmt j"
proof (induction j)
  case (JArray xs)
  then have "rereads_array fmt xs"
  proof (induction xs)
    case (Cons x xs)
    then show ?case by (intro rereads_array_Cons) auto
  qed (simp add: rereads_array_def)
  then show ?case by (rule rereads_value_array)
next
  case (JObject kvs)
  then have "rereads_object fmt kvs"
  proof (induction kvs)
    case Nil
    then show ?case by (auto simp: rereads_object_def intro!: exI [of _ "if fmt then replicate _ (CHR 0x09) else []"] exI [of _ "''}''"])
  next
    case (Cons x kvs)
    obtain k j where x: "x = (k, j)" by (cases x)
    have "rereads_value fmt j" using Cons.prems(1) [of x j] Cons.prems(2) by (simp add: x)
    moreover have "rereads_object fmt kvs"
    proof (rule Cons.IH)
      show "rereads_value fmt z" if "y \<in> set kvs" "z \<in> Basic_BNFs.snds y" "json_ok z" for y z
        using Cons.prems(1) [of y z] that by simp
      show "json_ok (JObject kvs)" using Cons.prems(2) by simp
    qed
    ultimately show ?case using Cons.prems(2) by (simp add: x rereads_object_Cons)
  qed
  then show ?case by (rule rereads_value_object)
qed (simp_all add: plain_rereads)

lemma text_parses:
  assumes "json_ok j" and "jdepth j \<le> CJSON_NESTING_LIMIT"
  shows "\<exists>t. text_value fmt 0 j = Some t \<and> cJSON_Parse (Some t) = Some j"
proof -
  obtain t where t: "text_value fmt 0 j = Some t" "opens t"
    "\<And>d rest. jdepth j + d \<le> CJSON_NESTING_LIMIT \<Longrightarrow> stops rest \<Longrightarrow> parse_value d (t @ rest) = Some (j, rest)"
    using rereads [OF assms(1)] unfolding rereads_value_def by blast
  obtain c s where c: "t = c # s" "32 < (of_char c :: nat)" "(of_char c :: nat) < 128" using t(2) by (auto simp: opens_def)
  have "c \<noteq> CHR 0xEF" using c(3) by auto
  then have "skip_utf8_bom (t @ [CHR 0x00]) = t @ [CHR 0x00]" by (simp add: skip_utf8_bom_def c(1))
  moreover have "buffer_skip_whitespace (t @ [CHR 0x00]) = t @ [CHR 0x00]" using skip_none [OF c(2)] by (simp add: c(1))
  ultimately have "cJSON_Parse (Some t) = Some j"
    using t(3) [of 0 "[CHR 0x00]"] assms(2) by (simp add: cJSON_Parse_def cJSON_ParseWithOpts_def)
  then show ?thesis using t(1) by blast
qed

end
