(* ===== verification/LDValues.thy ===== *)
theory LDValues
  imports FormattedRoundtrip
begin

text \<open>
  The value API, \<open>c-sdk-common/src/ldvalue.c\<close>, and the functions of \<open>cJSON.c\<close> it wraps. A value is a
  JSON value, \<open>None\<close> where it may be \<open>NULL\<close>; the builders of arrays and objects are the lists of what
  was added to them; an iterator is the list of the elements from the current one on, with
  their keys, and \<open>NULL\<close> at the end is the empty list. Values that own their strings and
  values that refer to the caller's are the same here.
\<close>

section \<open>Values\<close>

datatype LDValueType = LDValueType_Unrecognized | LDValueType_Null | LDValueType_Bool | LDValueType_Number
  | LDValueType_String | LDValueType_Array | LDValueType_Object

definition cJSON_CreateNull :: LDJSON where
  "cJSON_CreateNull = JNull"

definition cJSON_CreateBool :: "bool \<Rightarrow> LDJSON" where
  "cJSON_CreateBool b = JBool b"

definition cJSON_CreateNumber :: "dbl \<Rightarrow> LDJSON" where
  "cJSON_CreateNumber num = JNumber num"

definition cJSON_CreateString :: "string \<Rightarrow> LDJSON" where
  "cJSON_CreateString s = JText s"

definition cJSON_CreateStringReference :: "string \<Rightarrow> LDJSON" where
  "cJSON_CreateStringReference s = JText s"

definition LDValue_Null :: LDJSON where
  "LDValue_Null = cJSON_CreateNull"

definition LDValue_Bool :: "bool \<Rightarrow> LDJSON" where
  "LDValue_Bool boolVal = cJSON_CreateBool boolVal"

definition LDValue_True :: LDJSON where
  "LDValue_True = LDValue_Bool True"

definition LDValue_False :: LDJSON where
  "LDValue_False = LDValue_Bool False"

definition LDValue_Number :: "dbl \<Rightarrow> LDJSON" where
  "LDValue_Number number = cJSON_CreateNumber number"

definition LDValue_ConstantString :: "string \<Rightarrow> LDJSON" where
  "LDValue_ConstantString s = cJSON_CreateStringReference s"

definition LDValue_OwnedString :: "string \<Rightarrow> LDJSON" where
  "LDValue_OwnedString s = cJSON_CreateString s"

fun cJSON_IsBool :: "LDJSON option \<Rightarrow> bool" where
  "cJSON_IsBool (Some (JBool b)) = True"
| "cJSON_IsBool _ = False"

fun cJSON_IsTrue :: "LDJSON option \<Rightarrow> bool" where
  "cJSON_IsTrue (Some (JBool b)) = b"
| "cJSON_IsTrue _ = False"

fun cJSON_IsNumber :: "LDJSON option \<Rightarrow> bool" where
  "cJSON_IsNumber (Some (JNumber n)) = True"
| "cJSON_IsNumber _ = False"

fun cJSON_IsNull :: "LDJSON option \<Rightarrow> bool" where
  "cJSON_IsNull (Some JNull) = True"
| "cJSON_IsNull _ = False"

fun cJSON_IsObject :: "LDJSON option \<Rightarrow> bool" where
  "cJSON_IsObject (Some (JObject kvs)) = True"
| "cJSON_IsObject _ = False"

fun cJSON_IsArray :: "LDJSON option \<Rightarrow> bool" where
  "cJSON_IsArray (Some (JArray xs)) = True"
| "cJSON_IsArray _ = False"

fun cJSON_IsString :: "LDJSON option \<Rightarrow> bool" where
  "cJSON_IsString (Some (JText s)) = True"
| "cJSON_IsString _ = False"

definition LDValue_Type :: "LDJSON option \<Rightarrow> LDValueType" where
  "LDValue_Type v =
     (if cJSON_IsBool v then LDValueType_Bool
      else if cJSON_IsNumber v then LDValueType_Number
      else if cJSON_IsNull v then LDValueType_Null
      else if cJSON_IsObject v then LDValueType_Object
      else if cJSON_IsArray v then LDValueType_Array
      else if cJSON_IsString v then LDValueType_String
      else LDValueType_Unrecognized)"

text \<open>A recursive copy, element by element.\<close>

fun cJSON_Duplicate :: "LDJSON \<Rightarrow> LDJSON" where
  "cJSON_Duplicate (JArray xs) = JArray (map cJSON_Duplicate xs)"
| "cJSON_Duplicate (JObject kvs) = JObject (map (\<lambda>(k, x). (k, cJSON_Duplicate x)) kvs)"
| "cJSON_Duplicate j = j"

definition LDValue_Clone :: "LDJSON \<Rightarrow> LDJSON" where
  "LDValue_Clone source = cJSON_Duplicate source"

definition LDValue_SerializeFormattedJSON :: "LDJSON option \<Rightarrow> string option exec" where
  "LDValue_SerializeFormattedJSON v = cJSON_Print v"

definition LDValue_SerializeJSON :: "LDJSON option \<Rightarrow> string option exec" where
  "LDValue_SerializeJSON v = cJSON_PrintUnformatted v"

definition LDValue_Equal :: "LDJSON option \<Rightarrow> LDJSON option \<Rightarrow> bool" where
  "LDValue_Equal left right = (case (left, right) of (Some a, Some b) \<Rightarrow> cJSON_Compare a b | _ \<Rightarrow> False)"

definition LDValue_ParseJSON :: "string option \<Rightarrow> LDJSON option" where
  "LDValue_ParseJSON json = cJSON_Parse json"

definition LDValue_GetNumber :: "LDJSON option \<Rightarrow> dbl" where
  "LDValue_GetNumber v = (case v of Some (JNumber n) \<Rightarrow> n | _ \<Rightarrow> Fin 0)"

definition LDValue_GetBool :: "LDJSON option \<Rightarrow> bool" where
  "LDValue_GetBool v = (if \<not> cJSON_IsBool v then False else cJSON_IsTrue v)"

definition LDValue_GetString :: "LDJSON option \<Rightarrow> string" where
  "LDValue_GetString v = (case v of Some (JText s) \<Rightarrow> s | _ \<Rightarrow> [])"

fun LDValue_GetIter :: "LDJSON option \<Rightarrow> (string option \<times> LDJSON) list" where
  "LDValue_GetIter (Some (JObject kvs)) = map (\<lambda>(k, x). (Some k, x)) kvs"
| "LDValue_GetIter (Some (JArray xs)) = map (Pair None) xs"
| "LDValue_GetIter _ = []"

fun cJSON_GetArraySize :: "LDJSON option \<Rightarrow> uint" where
  "cJSON_GetArraySize (Some (JObject kvs)) = of_nat (length kvs)"
| "cJSON_GetArraySize (Some (JArray xs)) = of_nat (length xs)"
| "cJSON_GetArraySize _ = 0"

definition LDValue_Count :: "LDJSON option \<Rightarrow> uint" where
  "LDValue_Count v = (if \<not> (cJSON_IsObject v \<or> cJSON_IsArray v) then 0 else cJSON_GetArraySize v)"

section \<open>Builders and iterators\<close>

type_synonym LDArray_builder = "LDJSON list"
type_synonym LDObject_builder = "(string \<times> LDJSON) list"

definition LDArray_New :: LDArray_builder where
  "LDArray_New = []"

definition LDArray_Add :: "LDArray_builder \<Rightarrow> LDJSON \<Rightarrow> LDArray_builder" where
  "LDArray_Add array child = array @ [child]"

definition LDArray_Build :: "LDArray_builder \<Rightarrow> LDJSON" where
  "LDArray_Build array = cJSON_Duplicate (JArray array)"

definition LDValue_Array :: "LDArray_builder \<Rightarrow> LDJSON" where
  "LDValue_Array array = JArray array"

definition LDObject_New :: LDObject_builder where
  "LDObject_New = []"

definition LDObject_AddConstantKey :: "LDObject_builder \<Rightarrow> string \<Rightarrow> LDJSON \<Rightarrow> LDObject_builder" where
  "LDObject_AddConstantKey obj key v = obj @ [(key, v)]"

definition LDObject_AddOwnedKey :: "LDObject_builder \<Rightarrow> string \<Rightarrow> LDJSON \<Rightarrow> LDObject_builder" where
  "LDObject_AddOwnedKey obj key v = obj @ [(key, v)]"

definition LDObject_Build :: "LDObject_builder \<Rightarrow> LDJSON" where
  "LDObject_Build obj = cJSON_Duplicate (JObject obj)"

definition LDValue_Object :: "LDObject_builder \<Rightarrow> LDJSON" where
  "LDValue_Object obj = JObject obj"

text \<open>The functions of an iterator dereference it.\<close>

fun LDIter_Next :: "(string option \<times> LDJSON) list \<Rightarrow> (string option \<times> LDJSON) list exec" where
  "LDIter_Next [] = Inl NullDeref"
| "LDIter_Next (e # iter) = Inr iter"

fun LDIter_Key :: "(string option \<times> LDJSON) list \<Rightarrow> string option exec" where
  "LDIter_Key [] = Inl NullDeref"
| "LDIter_Key (e # iter) = Inr (fst e)"

text \<open>The value of an iterator is the iterator.\<close>

fun LDIter_Val :: "(string option \<times> LDJSON) list \<Rightarrow> LDJSON option" where
  "LDIter_Val [] = None"
| "LDIter_Val (e # iter) = Some (snd e)"

section \<open>Properties\<close>

lemma duplicate_same [simp]: "cJSON_Duplicate j = j"
proof (induction j rule: cJSON_Duplicate.induct)
  case (2 kvs)
  have "map (\<lambda>(k, x). (k, cJSON_Duplicate x)) kvs = map (\<lambda>p. p) kvs"
  proof (rule map_cong [OF refl])
    fix p assume "p \<in> set kvs"
    then show "(case p of (k, x) \<Rightarrow> (k, cJSON_Duplicate x)) = p" using 2 [of p "fst p" "snd p"] by (simp add: split_beta)
  qed
  then show ?case by simp
qed (simp_all add: map_idI)

text \<open>C21: both serializations of a value read back as the value. For a value whose numbers are finite
  doubles, nested within the parser's limit, \<open>LDValue_SerializeJSON\<close> and
  \<open>LDValue_SerializeFormattedJSON\<close> either return a text that \<open>LDValue_ParseJSON\<close> turns back into the
  same value, or \<open>NULL\<close> because the text does not fit into \<open>INT_MAX\<close> bytes.\<close>

theorem serializations_read_back:
  assumes "json_ok v" and "jdepth v \<le> CJSON_NESTING_LIMIT"
  shows "\<exists>t f. text_value False 0 v = Some t \<and> text_value True 0 v = Some f \<and>
     LDValue_ParseJSON (Some t) = Some v \<and> LDValue_ParseJSON (Some f) = Some v \<and>
     LDValue_SerializeJSON (Some v) = Inr (if length t + 2 \<le> INT_MAX then Some t else None) \<and>
     LDValue_SerializeFormattedJSON (Some v) = Inr (if length f + 2 \<le> INT_MAX then Some f else None)"
proof -
  obtain t f where "text_value False 0 v = Some t" "cJSON_Parse (Some t) = Some v"
    "text_value True 0 v = Some f" "cJSON_Parse (Some f) = Some v"
    using text_parses [OF assms, of False] text_parses [OF assms, of True] by blast
  then show ?thesis
    by (intro exI [of _ t] exI [of _ f]) (simp add: LDValue_ParseJSON_def LDValue_SerializeJSON_def LDValue_SerializeFormattedJSON_def
        cJSON_Print_def cJSON_PrintUnformatted_def print_json_text)
qed

theorem serializations_read_back_witness:
  "\<exists>t f. text_value False 0 sample_json = Some t \<and> text_value True 0 sample_json = Some f \<and>
     LDValue_ParseJSON (Some t) = Some sample_json \<and> LDValue_ParseJSON (Some f) = Some sample_json \<and>
     LDValue_SerializeJSON (Some sample_json) = Inr (if length t + 2 \<le> INT_MAX then Some t else None) \<and>
     LDValue_SerializeFormattedJSON (Some sample_json) = Inr (if length f + 2 \<le> INT_MAX then Some f else None)"
proof (rule serializations_read_back)
  have "representable (- 12)" using fl64_int [of "- 12"] by (simp add: representable_def)
  then show "json_ok sample_json" by (simp add: sample_json_def nul_free_def)
  show "jdepth sample_json \<le> CJSON_NESTING_LIMIT" by (simp add: sample_json_def CJSON_NESTING_LIMIT_def)
qed

text \<open>A clone is equal to its source when no object in it has a key twice and no number is
  not-a-number.\<close>

theorem clone_is_equal: "wf_json v \<Longrightarrow> nan_free v \<Longrightarrow> LDValue_Equal (Some (LDValue_Clone v)) (Some v)"
  by (simp add: LDValue_Equal_def LDValue_Clone_def cJSON_Compare_refl)

text \<open>The builder of objects accepts a key twice; such a value need not be equal to itself, because
  the comparison looks up the first member with a key for every member.\<close>

theorem repeated_key_is_unequal:
  assumes "\<not> cJSON_Compare b a"
  shows "let v = LDObject_Build (LDObject_AddOwnedKey (LDObject_AddOwnedKey LDObject_New k a) k b)
     in \<not> LDValue_Equal (Some v) (Some v)"
  using assms by (simp add: LDObject_Build_def LDObject_AddOwnedKey_def LDObject_New_def LDValue_Equal_def Let_def
      del: cJSON_Duplicate.simps)

text \<open>Iterating over a built array or object visits what was added, in that order, and the count is
  the number of visited elements.\<close>

theorem iteration_visits_added:
  "map snd (LDValue_GetIter (Some (LDArray_Build a))) = a \<and>
   LDValue_GetIter (Some (LDObject_Build ob)) = map (\<lambda>(k, x). (Some k, x)) ob \<and>
   LDValue_Count (Some (LDArray_Build a)) = of_nat (length a) \<and> LDValue_Count (Some (LDObject_Build ob)) = of_nat (length ob)"
  by (simp add: LDArray_Build_def LDObject_Build_def LDValue_Count_def comp_def del: cJSON_Duplicate.simps)

end
