(* ===== verification/JsonHeap.thy ===== *)
theory JsonHeap
  imports Json
begin

text \<open>
  The memory of JSON values, \<open>c-sdk-common/src/cJSON.c\<close>: a value is a tree of nodes whose children
  are a doubly linked list. A heap maps addresses to nodes; an address without a node is free
  memory, and reading it is a fault. A node has its own type and scalar value, with an empty
  array or object for a container. Loops along a list take a bound on their steps, and
  running out of it is the fault \<open>NoReturn\<close>. Strings are values: they are copied and freed with
  their node.
\<close>

record cJSON_node =
  cn_next :: "nat option"
  cn_prev :: "nat option"
  cn_child :: "nat option"
  cn_item :: LDJSON
  cn_string :: "string option"

type_synonym json_memory = "nat \<Rightarrow> cJSON_node option"

definition node_at :: "json_memory \<Rightarrow> nat \<Rightarrow> cJSON_node exec" where
  "node_at h p = (case h p of None \<Rightarrow> Inl UseAfterFree | Some n \<Rightarrow> Inr n)"

definition change :: "json_memory \<Rightarrow> nat \<Rightarrow> (cJSON_node \<Rightarrow> cJSON_node) \<Rightarrow> json_memory exec" where
  "change h p f = exec_bind (node_at h p) (\<lambda>n. Inr (h(p \<mapsto> f n)))"

section \<open>Freeing\<close>

text \<open>The item, what is below it, and the items behind it.\<close>

fun cJSON_Delete :: "nat \<Rightarrow> json_memory \<Rightarrow> nat option \<Rightarrow> json_memory exec" where
  "cJSON_Delete 0 h item = Inl NoReturn"
| "cJSON_Delete (Suc fuel) h None = Inr h"
| "cJSON_Delete (Suc fuel) h (Some item) =
     exec_bind (node_at h item) (\<lambda>n.
     exec_bind (case cn_child n of None \<Rightarrow> Inr h | Some child \<Rightarrow> cJSON_Delete fuel h (Some child)) (\<lambda>h.
     exec_bind (if h item = None then Inl DoubleFree else Inr (h(item := None))) (\<lambda>h.
       cJSON_Delete fuel h (cn_next n))))"

section \<open>Looking up\<close>

fun count_from :: "nat \<Rightarrow> json_memory \<Rightarrow> nat option \<Rightarrow> nat exec" where
  "count_from 0 h child = Inl NoReturn"
| "count_from (Suc fuel) h None = Inr 0"
| "count_from (Suc fuel) h (Some child) =
     exec_bind (node_at h child) (\<lambda>n. exec_bind (count_from fuel h (cn_next n)) (\<lambda>k. Inr (Suc k)))"

definition array_size :: "nat \<Rightarrow> json_memory \<Rightarrow> nat option \<Rightarrow> nat exec" where
  "array_size fuel h array = (case array of None \<Rightarrow> Inr 0
     | Some a \<Rightarrow> exec_bind (node_at h a) (\<lambda>n. count_from fuel h (cn_child n)))"

fun item_from :: "json_memory \<Rightarrow> nat option \<Rightarrow> nat \<Rightarrow> nat option exec" where
  "item_from h current_child 0 = Inr current_child"
| "item_from h None (Suc index) = Inr None"
| "item_from h (Some current_child) (Suc index) =
     exec_bind (node_at h current_child) (\<lambda>n. item_from h (cn_next n) index)"

definition get_array_item :: "json_memory \<Rightarrow> nat option \<Rightarrow> nat \<Rightarrow> nat option exec" where
  "get_array_item h array index = (case array of None \<Rightarrow> Inr None
     | Some a \<Rightarrow> exec_bind (node_at h a) (\<lambda>n. item_from h (cn_child n) index))"

text \<open>The search stops at a member without a name, too.\<close>

fun find_from :: "nat \<Rightarrow> json_memory \<Rightarrow> string \<Rightarrow> nat option \<Rightarrow> nat option exec" where
  "find_from 0 h name current_element = Inl NoReturn"
| "find_from (Suc fuel) h name None = Inr None"
| "find_from (Suc fuel) h name (Some current_element) =
     exec_bind (node_at h current_element) (\<lambda>n. case cn_string n of
         None \<Rightarrow> Inr None
       | Some s \<Rightarrow> if name \<noteq> s then find_from fuel h name (cn_next n) else Inr (Some current_element))"

definition get_object_item :: "nat \<Rightarrow> json_memory \<Rightarrow> nat option \<Rightarrow> string option \<Rightarrow> nat option exec" where
  "get_object_item fuel h ob name = (case (ob, name) of
       (Some a, Some name) \<Rightarrow> exec_bind (node_at h a) (\<lambda>n. find_from fuel h name (cn_child n))
     | _ \<Rightarrow> Inr None)"

section \<open>Changing lists\<close>

fun last_from :: "nat \<Rightarrow> json_memory \<Rightarrow> nat \<Rightarrow> nat exec" where
  "last_from 0 h child = Inl NoReturn"
| "last_from (Suc fuel) h child =
     exec_bind (node_at h child) (\<lambda>n. case cn_next n of None \<Rightarrow> Inr child | Some next \<Rightarrow> last_from fuel h next)"

definition suffix_object :: "json_memory \<Rightarrow> nat \<Rightarrow> nat \<Rightarrow> json_memory exec" where
  "suffix_object h prev item =
     exec_bind (change h prev (\<lambda>n. n\<lparr>cn_next := Some item\<rparr>)) (\<lambda>h. change h item (\<lambda>n. n\<lparr>cn_prev := Some prev\<rparr>))"

definition add_item_to_array :: "nat \<Rightarrow> json_memory \<Rightarrow> nat option \<Rightarrow> nat option \<Rightarrow> (bool \<times> json_memory) exec" where
  "add_item_to_array fuel h array item = (case (array, item) of
       (Some array, Some item) \<Rightarrow>
         exec_bind (node_at h array) (\<lambda>n.
         exec_bind (case cn_child n of
             None \<Rightarrow> change h array (\<lambda>n. n\<lparr>cn_child := Some item\<rparr>)
           | Some child \<Rightarrow> exec_bind (last_from fuel h child) (\<lambda>child. suffix_object h child item)) (\<lambda>h.
           Inr (True, h)))
     | _ \<Rightarrow> Inr (False, h))"

definition add_item_to_object ::
  "nat \<Rightarrow> json_memory \<Rightarrow> nat option \<Rightarrow> string option \<Rightarrow> nat option \<Rightarrow> (bool \<times> json_memory) exec" where
  "add_item_to_object fuel h ob name item = (case (ob, name, item) of
       (Some ob, Some name, Some item) \<Rightarrow>
         exec_bind (change h item (\<lambda>n. n\<lparr>cn_string := Some name\<rparr>)) (\<lambda>h. add_item_to_array fuel h (Some ob) (Some item))
     | _ \<Rightarrow> Inr (False, h))"

definition cJSON_DetachItemViaPointer :: "json_memory \<Rightarrow> nat option \<Rightarrow> nat option \<Rightarrow> (nat option \<times> json_memory) exec" where
  "cJSON_DetachItemViaPointer h parent item = (case (parent, item) of
       (Some parent, Some item) \<Rightarrow>
         exec_bind (node_at h item) (\<lambda>n.
         exec_bind (case cn_prev n of None \<Rightarrow> Inr h | Some prev \<Rightarrow> change h prev (\<lambda>m. m\<lparr>cn_next := cn_next n\<rparr>)) (\<lambda>h.
         exec_bind (case cn_next n of None \<Rightarrow> Inr h | Some next \<Rightarrow> change h next (\<lambda>m. m\<lparr>cn_prev := cn_prev n\<rparr>)) (\<lambda>h.
         exec_bind (node_at h parent) (\<lambda>pn.
         exec_bind (if cn_child pn = Some item then change h parent (\<lambda>m. m\<lparr>cn_child := cn_next n\<rparr>) else Inr h) (\<lambda>h.
         exec_bind (change h item (\<lambda>m. m\<lparr>cn_prev := None, cn_next := None\<rparr>)) (\<lambda>h.
           Inr (Some item, h)))))))
     | _ \<Rightarrow> Inr (None, h))"

definition cJSON_DetachItemFromObjectCaseSensitive ::
  "nat \<Rightarrow> json_memory \<Rightarrow> nat option \<Rightarrow> string option \<Rightarrow> (nat option \<times> json_memory) exec" where
  "cJSON_DetachItemFromObjectCaseSensitive fuel h ob name =
     exec_bind (get_object_item fuel h ob name) (\<lambda>to_detach. cJSON_DetachItemViaPointer h ob to_detach)"

definition cJSON_DeleteItemFromObjectCaseSensitive ::
  "nat \<Rightarrow> json_memory \<Rightarrow> nat option \<Rightarrow> string option \<Rightarrow> json_memory exec" where
  "cJSON_DeleteItemFromObjectCaseSensitive fuel h ob name =
     exec_bind (cJSON_DetachItemFromObjectCaseSensitive fuel h ob name) (\<lambda>(item, h). cJSON_Delete fuel h item)"

text \<open>The two calls of \<open>LDObjectSetKey\<close>, behind its checks.\<close>

definition set_key_in_memory :: "nat \<Rightarrow> json_memory \<Rightarrow> nat \<Rightarrow> string \<Rightarrow> nat \<Rightarrow> json_memory exec" where
  "set_key_in_memory fuel h ob key item =
     exec_bind (cJSON_DeleteItemFromObjectCaseSensitive fuel h (Some ob) (Some key)) (\<lambda>h.
     exec_bind (add_item_to_object fuel h (Some ob) (Some key) (Some item)) (\<lambda>(ok, h). Inr h))"

end
