(* ===== verification/JsonHeapFlow.thy ===== *)
theory JsonHeapFlow
  imports JsonHeap
begin

text \<open>
  The nodes in memory implement JSON values: trees of addresses describe which nodes belong to a
  value, and the operations on nodes are shown to have the effect of the operations on values,
  to leave all other memory alone and to free exactly what they should.
\<close>

section \<open>Trees in memory\<close>

datatype jtree = JT (jt_addr: nat) (jt_key: "string option") (jt_item: LDJSON) (jt_kids: "jtree list")

fun jt_addrs :: "jtree \<Rightarrow> nat list" where
  "jt_addrs (JT a k i kids) = a # concat (map jt_addrs kids)"

abbreviation forest_addrs :: "jtree list \<Rightarrow> nat list" where
  "forest_addrs ts \<equiv> concat (map jt_addrs ts)"

fun jt_value :: "jtree \<Rightarrow> LDJSON" where
  "jt_value (JT a k i kids) = (case i of
       JArray _ \<Rightarrow> JArray (map jt_value kids)
     | JObject _ \<Rightarrow> JObject (map (\<lambda>t. (case jt_key t of None \<Rightarrow> [] | Some s \<Rightarrow> s, jt_value t)) kids)
     | j \<Rightarrow> j)"

text \<open>The node a list of siblings begins and ends with.\<close>

definition head_of :: "jtree list \<Rightarrow> nat option \<Rightarrow> nat option" where
  "head_of ts nx = (case ts of [] \<Rightarrow> nx | t # _ \<Rightarrow> Some (jt_addr t))"

definition last_of :: "nat option \<Rightarrow> jtree list \<Rightarrow> nat option" where
  "last_of pv ts = (if ts = [] then pv else Some (jt_addr (last ts)))"

lemma head_of_simps [simp]: "head_of [] nx = nx" "head_of (t # ts) nx = Some (jt_addr t)"
  "head_of (xs @ ys) nx = head_of xs (head_of ys nx)"
  by (simp_all add: head_of_def split: list.split)

lemma last_of_simps [simp]: "last_of pv [] = pv" "last_of pv (ts @ [t]) = Some (jt_addr t)"
  "last_of pv (t # ts) = last_of (Some (jt_addr t)) ts" "last_of pv (xs @ ys) = last_of (last_of pv xs) ys"
  by (auto simp: last_of_def)

fun tree_at :: "json_memory \<Rightarrow> nat option \<Rightarrow> nat option \<Rightarrow> jtree \<Rightarrow> bool"
  and forest_at :: "json_memory \<Rightarrow> nat option \<Rightarrow> jtree list \<Rightarrow> nat option \<Rightarrow> bool"
where
  "tree_at h pv nx (JT a k i kids) \<longleftrightarrow>
     h a = Some \<lparr>cn_next = nx, cn_prev = pv, cn_child = head_of kids None, cn_item = i, cn_string = k\<rparr> \<and>
     forest_at h None kids None"
| "forest_at h pv [] nx \<longleftrightarrow> True"
| "forest_at h pv (t # ts) nx \<longleftrightarrow> tree_at h pv (head_of ts nx) t \<and> forest_at h (Some (jt_addr t)) ts nx"

lemma addr_in [simp]: "jt_addr t \<in> set (jt_addrs t)"
  by (cases t) simp

lemma forest_append:
  "forest_at h pv (xs @ ys) nx \<longleftrightarrow> forest_at h pv xs (head_of ys nx) \<and> forest_at h (last_of pv xs) ys nx"
  by (induction xs arbitrary: pv) auto

text \<open>A tree only depends on its own nodes.\<close>

lemma tree_frame:
  "(\<forall>a\<in>set (jt_addrs t). h' a = h a) \<Longrightarrow> tree_at h' pv nx t = tree_at h pv nx t"
  "(\<forall>a\<in>set (forest_addrs ts). h' a = h a) \<Longrightarrow> forest_at h' pu ts nu = forest_at h pu ts nu"
  by (induction h pv nx t and h pu ts nu rule: tree_at_forest_at.induct) auto

lemma tree_node:
  "tree_at h pv nx t \<Longrightarrow> h (jt_addr t) = Some \<lparr>cn_next = nx, cn_prev = pv, cn_child = head_of (jt_kids t) None,
     cn_item = jt_item t, cn_string = jt_key t\<rparr>"
  by (cases t) simp

text \<open>The links and the name of the root can be replaced.\<close>

fun rename :: "string option \<Rightarrow> jtree \<Rightarrow> jtree" where
  "rename k (JT a k' i kids) = JT a k i kids"

lemma rename_simps [simp]: "jt_addr (rename k t) = jt_addr t" "jt_addrs (rename k t) = jt_addrs t"
  "jt_value (rename k t) = jt_value t" "jt_key (rename k t) = k" "jt_kids (rename k t) = jt_kids t"
  by (cases t; simp)+

lemma rename_same [simp]: "rename (jt_key t) t = t"
  by (cases t) simp

lemma relink:
  assumes "tree_at h pv nx t" and "distinct (jt_addrs t)" and "h (jt_addr t) = Some n"
  shows "tree_at (h(jt_addr t \<mapsto> n\<lparr>cn_prev := pv', cn_next := nx', cn_string := k\<rparr>)) pv' nx' (rename k t)"
proof (cases t)
  case (JT a k' i kids)
  have "forest_at (h(a \<mapsto> n\<lparr>cn_prev := pv', cn_next := nx', cn_string := k\<rparr>)) None kids None"
    using assms(1,2) by (subst tree_frame(2) [of kids _ h]) (auto simp: JT)
  then show ?thesis using assms by (auto simp: JT)
qed

lemma rechild:
  assumes "tree_at h pv nx (JT a k i kids)" and "h a = Some n" and "a \<notin> set (forest_addrs kids')" and "forest_at h None kids' None"
  shows "tree_at (h(a \<mapsto> n\<lparr>cn_child := head_of kids' None\<rparr>)) pv nx (JT a k i kids')"
proof -
  have "forest_at (h(a \<mapsto> n\<lparr>cn_child := head_of kids' None\<rparr>)) None kids' None"
    using assms(3,4) by (subst tree_frame(2) [of kids' _ h]) auto
  then show ?thesis using assms(1,2) by auto
qed

section \<open>Deleting\<close>

lemma delete_forest:
  "forest_at h pv ts None \<Longrightarrow> distinct (forest_addrs ts) \<Longrightarrow> length (forest_addrs ts) < fuel \<Longrightarrow>
     cJSON_Delete fuel h (head_of ts None) = Inr (h |` (- set (forest_addrs ts)))"
proof (induction fuel arbitrary: h pv ts)
  case (Suc fuel)
  show ?case
  proof (cases ts)
    case Nil
    then show ?thesis by (simp add: restrict_map_def)
  next
    case (Cons t us)
    obtain a k i kids where t: "t = JT a k i kids" by (cases t)
    let ?h1 = "h |` (- set (forest_addrs kids))"
    have node: "h a = Some \<lparr>cn_next = head_of us None, cn_prev = pv, cn_child = head_of kids None, cn_item = i, cn_string = k\<rparr>"
      and kids: "forest_at h None kids None" and us: "forest_at h (Some a) us None"
      using Suc.prems(1) by (auto simp: Cons t)
    have d: "distinct (forest_addrs kids)" "distinct (forest_addrs us)" "a \<notin> set (forest_addrs kids)" "a \<notin> set (forest_addrs us)"
      "set (forest_addrs kids) \<inter> set (forest_addrs us) = {}"
      using Suc.prems(2) by (auto simp: Cons t)
    have below: "(case head_of kids None of None \<Rightarrow> Inr h | Some child \<Rightarrow> cJSON_Delete fuel h (Some child)) = Inr ?h1"
    proof (cases kids)
      case Nil
      then show ?thesis by (simp add: restrict_map_def)
    next
      case (Cons u vs)
      then show ?thesis using Suc.IH [OF kids d(1)] Suc.prems(3) \<open>ts = t # us\<close> by (simp add: t)
    qed
    have "forest_at (?h1(a := None)) (Some a) us None"
      using us d(4,5) by (subst tree_frame(2) [of us _ h]) (auto simp: restrict_map_def)
    then have "cJSON_Delete fuel (?h1(a := None)) (head_of us None) = Inr ((?h1(a := None)) |` (- set (forest_addrs us)))"
      using Suc.IH [OF _ d(2)] Suc.prems(3) by (auto simp: Cons t)
    moreover have "(?h1(a := None)) |` (- set (forest_addrs us)) = h |` (- set (forest_addrs ts))"
      by (auto simp: Cons t restrict_map_def fun_eq_iff)
    moreover have "?h1 a \<noteq> None" using node d(3) by (simp add: restrict_map_def)
    ultimately show ?thesis using node below by (simp add: Cons t node_at_def)
  qed
qed simp

lemma delete_tree:
  assumes "tree_at h pv None t" and "distinct (jt_addrs t)" and "length (jt_addrs t) < fuel"
  shows "cJSON_Delete fuel h (Some (jt_addr t)) = Inr (h |` (- set (jt_addrs t)))"
  using delete_forest [of h pv "[t]" fuel] assms by simp


section \<open>Looking up\<close>

lemma count_forest: "forest_at h pv ts None \<Longrightarrow> length ts < fuel \<Longrightarrow> count_from fuel h (head_of ts None) = Inr (length ts)"
proof (induction ts arbitrary: pv fuel)
  case Nil
  then show ?case by (cases fuel) auto
next
  case (Cons t ts)
  then show ?case using tree_node [of h pv "head_of ts None" t] by (cases fuel) (auto simp: node_at_def)
qed

lemma item_forest:
  "forest_at h pv ts None \<Longrightarrow> item_from h (head_of ts None) i = Inr (if i < length ts then Some (jt_addr (ts ! i)) else None)"
proof (induction ts arbitrary: pv i)
  case Nil
  then show ?case by (cases i) auto
next
  case (Cons t ts)
  then show ?case using tree_node [of h pv "head_of ts None" t] by (cases i) (auto simp: node_at_def)
qed

lemma find_forest:
  "forest_at h pv ts None \<Longrightarrow> \<forall>t\<in>set ts. jt_key t \<noteq> None \<Longrightarrow> length ts < fuel \<Longrightarrow>
     find_from fuel h k (head_of ts None) = Inr (map_option jt_addr (List.find (\<lambda>t. jt_key t = Some k) ts))"
proof (induction ts arbitrary: pv fuel)
  case Nil
  then show ?case by (cases fuel) auto
next
  case (Cons t ts)
  then show ?case using tree_node [of h pv "head_of ts None" t] by (cases fuel) (auto simp: node_at_def)
qed

lemma last_forest: "forest_at h pv ts None \<Longrightarrow> ts \<noteq> [] \<Longrightarrow> length ts \<le> fuel \<Longrightarrow>
    last_from fuel h (jt_addr (hd ts)) = Inr (jt_addr (last ts))"
proof (induction ts arbitrary: pv fuel)
  case (Cons t ts)
  then show ?case using tree_node [of h pv "head_of ts None" t] by (cases fuel; cases ts) (auto simp: node_at_def)
qed simp

section \<open>Adding\<close>

text \<open>Everything outside the nodes of the given trees is as before.\<close>

definition untouched :: "nat set \<Rightarrow> json_memory \<Rightarrow> json_memory \<Rightarrow> bool" where
  "untouched A h h' \<longleftrightarrow> (\<forall>a. a \<notin> A \<longrightarrow> h' a = h a)"

lemma add_to_memory:
  assumes p: "tree_at h pv nx (JT a k i kids)" and t: "tree_at h None None t"
    and d: "distinct (jt_addrs (JT a k i kids) @ jt_addrs t)" and fuel: "length kids \<le> fuel"
  shows "\<exists>h'. add_item_to_array fuel h (Some a) (Some (jt_addr t)) = Inr (True, h') \<and>
     tree_at h' pv nx (JT a k i (kids @ [t])) \<and> untouched (set (jt_addrs (JT a k i kids) @ jt_addrs t)) h h'"
proof -
  have pn: "h a = Some \<lparr>cn_next = nx, cn_prev = pv, cn_child = head_of kids None, cn_item = i, cn_string = k\<rparr>"
    and kids: "forest_at h None kids None" using p by simp_all
  note tn = tree_node [OF t]
  show ?thesis
  proof (cases kids rule: rev_cases)
    case Nil
    have "tree_at (h(a \<mapsto> \<lparr>cn_next = nx, cn_prev = pv, cn_child = head_of kids None, cn_item = i, cn_string = k\<rparr>\<lparr>cn_child := head_of [t] None\<rparr>))
        pv nx (JT a k i [t])"
      using d t by (intro rechild [OF p pn]) (auto simp: Nil)
    then show ?thesis using pn Nil by (auto simp: add_item_to_array_def node_at_def change_def untouched_def)
  next
    case (snoc us u)
    have us: "forest_at h None us (Some (jt_addr u))" "tree_at h (last_of None us) None u" using kids by (simp_all add: snoc forest_append)
    note un = tree_node [OF us(2)]
    have da: "distinct (jt_addrs u)" "distinct (jt_addrs t)" "a \<noteq> jt_addr u" "a \<noteq> jt_addr t" "a \<notin> set (jt_addrs t)"
      "set (jt_addrs u) \<inter> set (jt_addrs t) = {}" "set (forest_addrs us) \<inter> set (jt_addrs u) = {}"
      "set (forest_addrs us) \<inter> set (jt_addrs t) = {}" "a \<notin> set (forest_addrs us)" "a \<notin> set (jt_addrs u)"
      using d addr_in [of u] addr_in [of t] by (auto simp: snoc)
    have "jt_addr u \<notin> set (jt_addrs t)" "jt_addr t \<notin> set (jt_addrs u)" using da(6) by (metis IntI addr_in empty_iff)+
    then have ut: "jt_addr u \<noteq> jt_addr t" "jt_addr u \<notin> set (jt_addrs t)" "jt_addr t \<notin> set (jt_addrs u)" by auto
    define h1 where "h1 = h(jt_addr u \<mapsto> (the (h (jt_addr u)))\<lparr>cn_next := Some (jt_addr t)\<rparr>)"
    define h2 where "h2 = h1(jt_addr t \<mapsto> (the (h (jt_addr t)))\<lparr>cn_prev := Some (jt_addr u)\<rparr>)"
    have off: "h2 b = h b" if "b \<noteq> jt_addr u" "b \<noteq> jt_addr t" for b using that by (simp add: h1_def h2_def)
    have "tree_at (h(jt_addr u \<mapsto> (the (h (jt_addr u)))\<lparr>cn_prev := last_of None us, cn_next := Some (jt_addr t), cn_string := jt_key u\<rparr>))
        (last_of None us) (Some (jt_addr t)) (rename (jt_key u) u)"
      using us(2) da(1) un by (intro relink) simp_all
    then have "tree_at h1 (last_of None us) (Some (jt_addr t)) u" using un by (simp add: h1_def)
    then have u: "tree_at h2 (last_of None us) (Some (jt_addr t)) u"
      using ut by (subst tree_frame(1) [of u _ h1]) (auto simp: h2_def)
    have "tree_at h1 None None t" using t ut by (subst tree_frame(1) [of t _ h]) (auto simp: h1_def)
    then have "tree_at (h1(jt_addr t \<mapsto> (the (h (jt_addr t)))\<lparr>cn_prev := Some (jt_addr u), cn_next := None, cn_string := jt_key t\<rparr>))
        (Some (jt_addr u)) None (rename (jt_key t) t)"
      using da(2) ut(1) tn by (intro relink) (auto simp: h1_def)
    then have t2: "tree_at h2 (Some (jt_addr u)) None t" using tn by (simp add: h2_def)
    have "jt_addr u \<notin> set (forest_addrs us)" "jt_addr t \<notin> set (forest_addrs us)" using da(7,8) by (metis IntI addr_in empty_iff)+
    then have "\<forall>b\<in>set (forest_addrs us). h2 b = h b" using off by metis
    then have "forest_at h2 None us (Some (jt_addr u))" using us(1) tree_frame(2) by blast
    then have "forest_at h2 None (kids @ [t]) None" using u t2 by (simp add: snoc forest_append)
    then have "tree_at h2 pv nx (JT a k i (kids @ [t]))" using pn off [of a] da(3,4) by (simp add: snoc)
    note tree = this
    have "last_from fuel h (jt_addr (hd kids)) = Inr (jt_addr u)" using last_forest [OF kids _ fuel] by (simp add: snoc)
    moreover have "head_of kids None = Some (jt_addr (hd kids))" by (cases us) (simp_all add: snoc)
    ultimately have "add_item_to_array fuel h (Some a) (Some (jt_addr t)) = Inr (True, h2)"
      using pn un tn ut(1) by (auto simp: add_item_to_array_def node_at_def suffix_object_def change_def h1_def h2_def)
    moreover have "untouched (set (jt_addrs (JT a k i kids) @ jt_addrs t)) h h2"
      unfolding untouched_def
    proof (intro allI impI)
      fix b assume "b \<notin> set (jt_addrs (JT a k i kids) @ jt_addrs t)"
      then have "b \<noteq> jt_addr u" "b \<noteq> jt_addr t" by (auto simp: snoc)
      then show "h2 b = h b" by (rule off)
    qed
    ultimately show ?thesis using tree by blast
  qed
qed


section \<open>Detaching\<close>

text \<open>A change of the links of the last or the first tree of a list.\<close>

lemma relink_last:
  assumes "forest_at h pv ts nx" and "distinct (forest_addrs ts)" and "ts \<noteq> []" and "h (jt_addr (last ts)) = Some n"
  shows "forest_at (h(jt_addr (last ts) \<mapsto> n\<lparr>cn_next := nx'\<rparr>)) pv ts nx'"
proof (cases ts rule: rev_cases)
  case (snoc us u)
  have us: "forest_at h pv us (Some (jt_addr u))" "tree_at h (last_of pv us) nx u" using assms(1) by (simp_all add: snoc forest_append)
  have n: "n = \<lparr>cn_next = nx, cn_prev = last_of pv us, cn_child = head_of (jt_kids u) None, cn_item = jt_item u, cn_string = jt_key u\<rparr>"
    using tree_node [OF us(2)] assms(4) by (simp add: snoc)
  have d: "distinct (jt_addrs u)" "set (forest_addrs us) \<inter> set (jt_addrs u) = {}" using assms(2) by (auto simp: snoc)
  have "tree_at (h(jt_addr u \<mapsto> n\<lparr>cn_prev := last_of pv us, cn_next := nx', cn_string := jt_key u\<rparr>)) (last_of pv us) nx' (rename (jt_key u) u)"
    using assms(4) by (intro relink [OF us(2) d(1)]) (simp add: snoc)
  then have "tree_at (h(jt_addr u \<mapsto> n\<lparr>cn_next := nx'\<rparr>)) (last_of pv us) nx' u" by (simp add: n)
  moreover have "jt_addr u \<notin> set (forest_addrs us)" using d(2) by (metis IntI addr_in empty_iff)
  then have "\<forall>b\<in>set (forest_addrs us). (h(jt_addr u \<mapsto> n\<lparr>cn_next := nx'\<rparr>)) b = h b" by auto
  then have "forest_at (h(jt_addr u \<mapsto> n\<lparr>cn_next := nx'\<rparr>)) pv us (Some (jt_addr u))" using us(1) tree_frame(2) by blast
  ultimately show ?thesis by (simp add: snoc forest_append)
qed (use assms in simp)

lemma relink_first:
  assumes "forest_at h pv (t # ts) nx" and "distinct (forest_addrs (t # ts))" and "h (jt_addr t) = Some n"
  shows "forest_at (h(jt_addr t \<mapsto> n\<lparr>cn_prev := pv'\<rparr>)) pv' (t # ts) nx"
proof -
  have ts: "forest_at h (Some (jt_addr t)) ts nx" "tree_at h pv (head_of ts nx) t" using assms(1) by simp_all
  have n: "n = \<lparr>cn_next = head_of ts nx, cn_prev = pv, cn_child = head_of (jt_kids t) None, cn_item = jt_item t, cn_string = jt_key t\<rparr>"
    using tree_node [OF ts(2)] assms(3) by simp
  have d: "distinct (jt_addrs t)" "set (forest_addrs ts) \<inter> set (jt_addrs t) = {}" using assms(2) by auto
  have "tree_at (h(jt_addr t \<mapsto> n\<lparr>cn_prev := pv', cn_next := head_of ts nx, cn_string := jt_key t\<rparr>)) pv' (head_of ts nx) (rename (jt_key t) t)"
    using assms(3) by (intro relink [OF ts(2) d(1)])
  then have "tree_at (h(jt_addr t \<mapsto> n\<lparr>cn_prev := pv'\<rparr>)) pv' (head_of ts nx) t" by (simp add: n)
  moreover have "jt_addr t \<notin> set (forest_addrs ts)" using d(2) by (metis IntI addr_in empty_iff)
  then have "\<forall>b\<in>set (forest_addrs ts). (h(jt_addr t \<mapsto> n\<lparr>cn_prev := pv'\<rparr>)) b = h b" by auto
  then have "forest_at (h(jt_addr t \<mapsto> n\<lparr>cn_prev := pv'\<rparr>)) (Some (jt_addr t)) ts nx" using ts(1) tree_frame(2) by blast
  ultimately show ?thesis by simp
qed


lemma untouched_tree: "untouched A h h' \<Longrightarrow> A \<inter> set (jt_addrs t) = {} \<Longrightarrow> tree_at h' pv nx t = tree_at h pv nx t"
  by (rule tree_frame) (auto simp: untouched_def)

lemma untouched_forest: "untouched A h h' \<Longrightarrow> A \<inter> set (forest_addrs ts) = {} \<Longrightarrow> forest_at h' pv ts nx = forest_at h pv ts nx"
  by (rule tree_frame) (auto simp: untouched_def disjoint_iff)

lemma untouched_trans: "untouched A h h' \<Longrightarrow> untouched B h' h'' \<Longrightarrow> A \<subseteq> C \<Longrightarrow> B \<subseteq> C \<Longrightarrow> untouched C h h''"
  unfolding untouched_def by (metis subset_iff)

lemma unlink_last:
  assumes "forest_at h None xs nx" and "distinct (forest_addrs xs)"
  shows "\<exists>h'. (case last_of None xs of None \<Rightarrow> Inr h | Some prev \<Rightarrow> change h prev (\<lambda>m. m\<lparr>cn_next := nx'\<rparr>)) = Inr h' \<and>
     forest_at h' None xs nx' \<and> untouched (set (forest_addrs xs)) h h'"
proof (cases xs rule: rev_cases)
  case (snoc us u)
  have "tree_at h (last_of None us) nx u" using assms(1) by (simp add: snoc forest_append)
  note u = tree_node [OF this]
  have "forest_at (h(jt_addr u \<mapsto> (the (h (jt_addr u)))\<lparr>cn_next := nx'\<rparr>)) None xs nx'"
    using relink_last [OF assms, of "the (h (jt_addr u))"] u by (simp add: snoc)
  moreover have "untouched (set (forest_addrs xs)) h (h(jt_addr u \<mapsto> (the (h (jt_addr u)))\<lparr>cn_next := nx'\<rparr>))"
    by (auto simp: untouched_def snoc)
  ultimately show ?thesis using u by (simp add: snoc change_def node_at_def)
qed (use assms in \<open>simp add: untouched_def\<close>)

lemma unlink_first:
  assumes "forest_at h pv ys None" and "distinct (forest_addrs ys)"
  shows "\<exists>h'. (case head_of ys None of None \<Rightarrow> Inr h | Some next \<Rightarrow> change h next (\<lambda>m. m\<lparr>cn_prev := pv'\<rparr>)) = Inr h' \<and>
     forest_at h' pv' ys None \<and> untouched (set (forest_addrs ys)) h h'"
proof (cases ys)
  case (Cons t ts)
  have "tree_at h pv (head_of ts None) t" using assms(1) by (simp add: Cons)
  note t = tree_node [OF this]
  have "forest_at (h(jt_addr t \<mapsto> (the (h (jt_addr t)))\<lparr>cn_prev := pv'\<rparr>)) pv' ys None"
    using relink_first [OF assms [unfolded Cons], of "the (h (jt_addr t))"] t by (simp add: Cons)
  moreover have "untouched (set (forest_addrs ys)) h (h(jt_addr t \<mapsto> (the (h (jt_addr t)))\<lparr>cn_prev := pv'\<rparr>))"
    by (auto simp: untouched_def Cons)
  ultimately show ?thesis using t by (simp add: Cons change_def node_at_def)
qed (use assms in \<open>simp add: untouched_def\<close>)

lemma detach_from_memory:
  assumes p: "tree_at h pv nx (JT a k i (xs @ t # ys))" and d: "distinct (jt_addrs (JT a k i (xs @ t # ys)))"
  shows "\<exists>h'. cJSON_DetachItemViaPointer h (Some a) (Some (jt_addr t)) = Inr (Some (jt_addr t), h') \<and>
     tree_at h' pv nx (JT a k i (xs @ ys)) \<and> tree_at h' None None t \<and>
     untouched (set (jt_addrs (JT a k i (xs @ t # ys)))) h h'"
proof -
  let ?A = "set (forest_addrs xs)" and ?T = "set (jt_addrs t)" and ?B = "set (forest_addrs ys)"
  have dis: "distinct (forest_addrs xs)" "distinct (jt_addrs t)" "distinct (forest_addrs ys)" "?A \<inter> ?T = {}" "?A \<inter> ?B = {}" "?T \<inter> ?B = {}"
    "a \<notin> ?A" "a \<notin> ?T" "a \<notin> ?B" "jt_addr t \<noteq> a"
    using d addr_in [of t] by (auto simp del: addr_in)
  have ta: "jt_addr t \<notin> ?A" "jt_addr t \<notin> ?B" using dis(4,6) by (metis IntI addr_in empty_iff)+
  have pn: "h a = Some \<lparr>cn_next = nx, cn_prev = pv, cn_child = head_of xs (Some (jt_addr t)), cn_item = i, cn_string = k\<rparr>"
    and f: "forest_at h None xs (Some (jt_addr t))" "tree_at h (last_of None xs) (head_of ys None) t" "forest_at h (Some (jt_addr t)) ys None"
    using p by (simp_all add: forest_append)
  note tn = tree_node [OF f(2)]
  obtain h1 where h1: "(case last_of None xs of None \<Rightarrow> Inr h | Some prev \<Rightarrow> change h prev (\<lambda>m. m\<lparr>cn_next := head_of ys None\<rparr>)) = Inr h1"
    "forest_at h1 None xs (head_of ys None)" "untouched ?A h h1"
    using unlink_last [OF f(1) dis(1)] by blast
  have "forest_at h1 (Some (jt_addr t)) ys None" using untouched_forest [OF h1(3) dis(5)] f(3) by simp
  then obtain h2 where h2: "(case head_of ys None of None \<Rightarrow> Inr h1 | Some next \<Rightarrow> change h1 next (\<lambda>m. m\<lparr>cn_prev := last_of None xs\<rparr>)) = Inr h2"
    "forest_at h2 (last_of None xs) ys None" "untouched ?B h1 h2"
    using unlink_first [OF _ dis(3)] by blast
  have u12: "untouched (?A \<union> ?B) h h2" by (rule untouched_trans [OF h1(3) h2(3)]) auto
  have same: "h2 a = h a" "h2 (jt_addr t) = h (jt_addr t)" using u12 ta dis(7,9) by (auto simp: untouched_def)
  define pn' where "pn' = \<lparr>cn_next = nx, cn_prev = pv, cn_child = head_of (xs @ ys) None, cn_item = i, cn_string = k\<rparr>"
  have first: "head_of xs (Some (jt_addr t)) = Some (jt_addr t) \<longleftrightarrow> xs = []" using ta(1) by (cases xs) (auto, metis addr_in)
  have h3: "(if head_of xs (Some (jt_addr t)) = Some (jt_addr t) then change h2 a (\<lambda>m. m\<lparr>cn_child := head_of ys None\<rparr>) else Inr h2) = Inr (h2(a \<mapsto> pn'))"
  proof (cases xs)
    case Nil
    then show ?thesis using pn same by (simp add: change_def node_at_def pn'_def)
  next
    case (Cons x us)
    then have "h2 a = Some pn'" using pn same by (simp add: pn'_def)
    then show ?thesis using first Cons by (simp add: fun_upd_idem)
  qed
  define tn' where "tn' = (the (h (jt_addr t)))\<lparr>cn_prev := None, cn_next := None\<rparr>"
  define h4 where "h4 = h2(a \<mapsto> pn', jt_addr t \<mapsto> tn')"
  obtain n where n: "node_at h (jt_addr t) = Inr n" "cn_next n = head_of ys None" "cn_prev n = last_of None xs" "h (jt_addr t) = Some n"
    using tn by (simp add: node_at_def)
  have a2: "node_at h2 a = Inr \<lparr>cn_next = nx, cn_prev = pv, cn_child = head_of xs (Some (jt_addr t)), cn_item = i, cn_string = k\<rparr>"
    using pn same by (simp add: node_at_def)
  have t4: "change (h2(a \<mapsto> pn')) (jt_addr t) (\<lambda>m. m\<lparr>cn_prev := None, cn_next := None\<rparr>) = Inr h4"
    using same(2) n(4) dis(10) by (simp add: change_def node_at_def h4_def tn'_def)
  have run: "cJSON_DetachItemViaPointer h (Some a) (Some (jt_addr t)) = Inr (Some (jt_addr t), h4)"
    unfolding cJSON_DetachItemViaPointer_def prod.case option.case n(1) exec_bind_Inr n(2,3) h1(1) h2(1) a2 cJSON_node.select_convs h3 t4 ..
  have u24: "untouched {a, jt_addr t} h2 h4" by (auto simp: untouched_def h4_def)
  have "forest_at h4 None xs (head_of ys None)" "forest_at h4 (last_of None xs) ys None"
    using untouched_forest [OF u24] untouched_forest [OF h2(3)] h1(2) h2(2) dis(5,7,9) ta by (auto simp: Int_commute)
  then have tree: "tree_at h4 pv nx (JT a k i (xs @ ys))" using dis(10) by (simp add: forest_append h4_def pn'_def)
  have "untouched (?A \<union> ?B \<union> {a}) h (h2(a \<mapsto> pn'))" using u12 by (auto simp: untouched_def)
  moreover have "(?A \<union> ?B \<union> {a}) \<inter> ?T = {}" using dis(4,6,8) by blast
  ultimately have "tree_at (h2(a \<mapsto> pn')) (last_of None xs) (head_of ys None) t" using untouched_tree f(2) by blast
  then have "tree_at ((h2(a \<mapsto> pn'))(jt_addr t \<mapsto> (the (h (jt_addr t)))\<lparr>cn_prev := None, cn_next := None, cn_string := jt_key t\<rparr>)) None None (rename (jt_key t) t)"
    using dis(2,10) same(2) tn by (intro relink) auto
  then have "tree_at h4 None None t" using tn by (simp add: h4_def tn'_def)
  moreover have "untouched (set (jt_addrs (JT a k i (xs @ t # ys)))) h h4"
    by (rule untouched_trans [OF u12 u24]) auto
  ultimately show ?thesis using run tree by blast
qed


section \<open>Operations on values\<close>

text \<open>A value in memory whose nodes have different addresses; the members of an object have names.\<close>

definition in_memory :: "json_memory \<Rightarrow> nat option \<Rightarrow> nat option \<Rightarrow> jtree \<Rightarrow> bool" where
  "in_memory h pv nx t \<longleftrightarrow> tree_at h pv nx t \<and> distinct (jt_addrs t) \<and> (case jt_item t of
       JArray xs \<Rightarrow> xs = [] | JObject kvs \<Rightarrow> kvs = [] \<and> (\<forall>u\<in>set (jt_kids t). jt_key u \<noteq> None) | _ \<Rightarrow> jt_kids t = [])"

definition entries_of :: "jtree list \<Rightarrow> (string \<times> LDJSON) list" where
  "entries_of kids = map (\<lambda>t. (case jt_key t of None \<Rightarrow> [] | Some s \<Rightarrow> s, jt_value t)) kids"

lemma find_entry:
  assumes "\<forall>u\<in>set kids. jt_key u \<noteq> None"
  shows "map_of (entries_of kids) k = map_option jt_value (List.find (\<lambda>t. jt_key t = Some k) kids)"
  using assms by (induction kids) (auto simp: entries_of_def)

lemma find_split:
  "List.find P xs = Some x \<Longrightarrow> \<exists>us vs. xs = us @ x # vs \<and> P x \<and> (\<forall>u\<in>set us. \<not> P u)"
  unfolding find_Some_iff by (metis id_take_nth_drop in_set_conv_nth length_take less_trans min.absorb4 nth_take)

lemma del_first_split:
  assumes "\<forall>u\<in>set us. jt_key u \<noteq> None \<and> jt_key u \<noteq> Some k" and "jt_key t = Some k"
  shows "del_first k (entries_of (us @ t # vs)) = entries_of (us @ vs)"
  using assms by (induction us) (auto simp: entries_of_def)

lemma del_first_none:
  assumes "List.find (\<lambda>t. jt_key t = Some k) kids = None" and "\<forall>u\<in>set kids. jt_key u \<noteq> None"
  shows "del_first k (entries_of kids) = entries_of kids"
  using assms by (induction kids) (auto simp: entries_of_def find_None_iff split: if_splits)

lemma length_kids: "length kids \<le> length (forest_addrs kids)"
proof (induction kids)
  case (Cons t kids)
  then show ?case by (cases t) simp
qed simp

lemma add_named:
  assumes "tree_at h pv nx (JT a k i kids)" and "tree_at h None None t"
    and "distinct (jt_addrs (JT a k i kids) @ jt_addrs t)" and "length kids \<le> fuel"
  shows "\<exists>h'. add_item_to_object fuel h (Some a) (Some key) (Some (jt_addr t)) = Inr (True, h') \<and>
     tree_at h' pv nx (JT a k i (kids @ [rename (Some key) t])) \<and> untouched (set (jt_addrs (JT a k i kids) @ jt_addrs t)) h h'"
proof -
  note tn = tree_node [OF assms(2)]
  define h1 where "h1 = h(jt_addr t \<mapsto> (the (h (jt_addr t)))\<lparr>cn_string := Some key\<rparr>)"
  have "tree_at (h(jt_addr t \<mapsto> (the (h (jt_addr t)))\<lparr>cn_prev := None, cn_next := None, cn_string := Some key\<rparr>)) None None (rename (Some key) t)"
    using assms(3) tn by (intro relink [OF assms(2)]) simp_all
  then have t: "tree_at h1 None None (rename (Some key) t)" using tn by (simp add: h1_def)
  have u: "untouched {jt_addr t} h h1" by (simp add: untouched_def h1_def)
  have "jt_addr t \<notin> set (jt_addrs (JT a k i kids))" using assms(3) by (metis IntI addr_in distinct_append empty_iff)
  then have "tree_at h1 pv nx (JT a k i kids)" using untouched_tree [OF u, of "JT a k i kids"] assms(1) by simp
  then obtain h' where "add_item_to_array fuel h1 (Some a) (Some (jt_addr t)) = Inr (True, h')"
    "tree_at h' pv nx (JT a k i (kids @ [rename (Some key) t]))" "untouched (set (jt_addrs (JT a k i kids) @ jt_addrs t)) h1 h'"
    using add_to_memory [OF _ t, of pv nx a k i kids fuel] assms(3,4) by auto
  moreover have "change h (jt_addr t) (\<lambda>n. n\<lparr>cn_string := Some key\<rparr>) = Inr h1" using tn by (simp add: change_def node_at_def h1_def)
  ultimately show ?thesis using untouched_trans [OF u] by (fastforce simp: add_item_to_object_def)
qed

lemma delete_named:
  assumes "tree_at h pv nx (JT a k i kids)" and "distinct (jt_addrs (JT a k i kids))" and "\<forall>u\<in>set kids. jt_key u \<noteq> None"
    and "length (jt_addrs (JT a k i kids)) < fuel"
  shows "\<exists>h' kids' gone. cJSON_DeleteItemFromObjectCaseSensitive fuel h (Some a) (Some key) = Inr h' \<and>
     tree_at h' pv nx (JT a k i kids') \<and> entries_of kids' = del_first key (entries_of kids) \<and>
     set (jt_addrs (JT a k i kids)) = set (jt_addrs (JT a k i kids')) \<union> gone \<and> set (jt_addrs (JT a k i kids')) \<inter> gone = {} \<and>
     distinct (jt_addrs (JT a k i kids')) \<and> set kids' \<subseteq> set kids \<and> (\<forall>b\<in>gone. h' b = None) \<and> untouched (set (jt_addrs (JT a k i kids))) h h'"
proof -
  have fuel: "length kids < fuel" using length_kids [of kids] assms(4) by simp
  have "node_at h a = Inr \<lparr>cn_next = nx, cn_prev = pv, cn_child = head_of kids None, cn_item = i, cn_string = k\<rparr>"
    using assms(1) by (simp add: node_at_def)
  then have find: "get_object_item fuel h (Some a) (Some key) = Inr (map_option jt_addr (List.find (\<lambda>t. jt_key t = Some key) kids))"
    using find_forest [of h None kids fuel key] assms(1,3) fuel by (simp add: get_object_item_def)
  show ?thesis
  proof (cases "List.find (\<lambda>t. jt_key t = Some key) kids")
    case None
    obtain f where "fuel = Suc f" using fuel by (cases fuel) auto
    then have "cJSON_DeleteItemFromObjectCaseSensitive fuel h (Some a) (Some key) = Inr h"
      using find None
      by (simp add: cJSON_DeleteItemFromObjectCaseSensitive_def cJSON_DetachItemFromObjectCaseSensitive_def cJSON_DetachItemViaPointer_def)
    then show ?thesis
      using assms(1,2) del_first_none [OF None assms(3)]
      by (intro exI [of _ h] exI [of _ kids] exI [of _ "{}"]) (simp add: untouched_def)
  next
    case (Some t)
    obtain us vs where s: "kids = us @ t # vs" "jt_key t = Some key" "\<forall>u\<in>set us. jt_key u \<noteq> Some key"
      using find_split [OF Some] by blast
    obtain h1 where h1: "cJSON_DetachItemViaPointer h (Some a) (Some (jt_addr t)) = Inr (Some (jt_addr t), h1)"
      "tree_at h1 pv nx (JT a k i (us @ vs))" "tree_at h1 None None t" "untouched (set (jt_addrs (JT a k i kids))) h h1"
      using detach_from_memory [OF assms(1,2) [unfolded s(1)]] s(1) by blast
    let ?h = "h1 |` (- set (jt_addrs t))"
    have t: "distinct (jt_addrs t)" "length (jt_addrs t) < fuel" "set (jt_addrs (JT a k i (us @ vs))) \<inter> set (jt_addrs t) = {}"
      using assms(2,4) by (auto simp: s(1))
    have "cJSON_DeleteItemFromObjectCaseSensitive fuel h (Some a) (Some key) = Inr ?h"
      using find Some h1(1) delete_tree [OF h1(3) t(1,2)]
      by (simp add: cJSON_DeleteItemFromObjectCaseSensitive_def cJSON_DetachItemFromObjectCaseSensitive_def)
    moreover have gone: "untouched (set (jt_addrs t)) h1 ?h" by (simp add: untouched_def restrict_map_def)
    have "tree_at ?h pv nx (JT a k i (us @ vs))"
      using untouched_tree [OF gone, of "JT a k i (us @ vs)"] h1(2) t(3) by (metis Int_commute)
    moreover have "untouched (set (jt_addrs (JT a k i kids))) h ?h" by (rule untouched_trans [OF h1(4) gone]) (auto simp: s(1))
    moreover have "entries_of (us @ vs) = del_first key (entries_of kids)"
      using del_first_split [OF _ s(2)] s(1,3) assms(3) by simp
    moreover have "set (jt_addrs (JT a k i kids)) = set (jt_addrs (JT a k i (us @ vs))) \<union> set (jt_addrs t)" by (auto simp: s(1))
    moreover have "distinct (jt_addrs (JT a k i (us @ vs)))" using assms(2) by (auto simp: s(1))
    moreover have "\<forall>b\<in>set (jt_addrs t). ?h b = None" "set (us @ vs) \<subseteq> set kids" by (auto simp: s(1))
    ultimately show ?thesis using t(3) by blast
  qed
qed

lemma object_value: "jt_item t = JObject kvs \<Longrightarrow> jt_value t = JObject (entries_of (jt_kids t))"
  by (cases t) (simp add: entries_of_def)

lemma array_value: "jt_item t = JArray xs \<Longrightarrow> jt_value t = JArray (map jt_value (jt_kids t))"
  by (cases t) simp

lemma deleted_length:
  assumes "entries_of kids' = del_first key (entries_of kids)"
  shows "length kids' \<le> length kids"
proof -
  have "length (del_first key xs) \<le> length xs" for xs :: "(string \<times> LDJSON) list" by (induction xs) auto
  moreover have "length kids' = length (del_first key (entries_of kids))"
    unfolding assms [symmetric] by (simp add: entries_of_def)
  ultimately show ?thesis by (metis entries_of_def length_map)
qed



definition sample_memory :: json_memory where
  "sample_memory = [0 \<mapsto> \<lparr>cn_next = None, cn_prev = None, cn_child = Some 1, cn_item = JObject [], cn_string = None\<rparr>,
     1 \<mapsto> \<lparr>cn_next = None, cn_prev = None, cn_child = None, cn_item = JBool True, cn_string = Some ''k''\<rparr>,
     2 \<mapsto> \<lparr>cn_next = None, cn_prev = None, cn_child = None, cn_item = JNull, cn_string = None\<rparr>]"


text \<open>Appending to an array, looking up a member and detaching one also do in memory what they do on
  values.\<close>

theorem push_works_in_memory:
  assumes "in_memory h pv nx array" and "jt_item array = JArray []" and "tree_at h None None t"
    and "distinct (jt_addrs array @ jt_addrs t)" and "length (jt_addrs array) < fuel"
  shows "\<exists>h' array'. add_item_to_array fuel h (Some (jt_addr array)) (Some (jt_addr t)) = Inr (True, h') \<and>
     in_memory h' pv nx array' \<and> LDArrayPush (Some (jt_value array)) (Some (jt_value t)) = (True, Some (jt_value array')) \<and>
     untouched (set (jt_addrs array @ jt_addrs t)) h h'"
proof -
  obtain a k kids where arr: "array = JT a k (JArray []) kids" using assms(2) by (cases array) auto
  have "length kids \<le> fuel" using length_kids [of kids] assms(5) by (simp add: arr)
  then obtain h' where h': "add_item_to_array fuel h (Some a) (Some (jt_addr t)) = Inr (True, h')"
    "tree_at h' pv nx (JT a k (JArray []) (kids @ [t]))" "untouched (set (jt_addrs array @ jt_addrs t)) h h'"
    using add_to_memory [OF _ assms(3), of pv nx a k "JArray []" kids fuel] assms(1,4) by (auto simp: arr in_memory_def)
  moreover have "in_memory h' pv nx (JT a k (JArray []) (kids @ [t]))" using h'(2) assms(4) by (auto simp: in_memory_def arr)
  ultimately show ?thesis
    by (intro exI [of _ h'] exI [of _ "JT a k (JArray []) (kids @ [t])"]) (simp add: arr)
qed

theorem lookup_works_in_memory:
  assumes "in_memory h pv nx ob" and "jt_item ob = JObject []" and "length (jt_addrs ob) < fuel"
  shows "get_object_item fuel h (Some (jt_addr ob)) (Some key) = Inr (map_option jt_addr (List.find (\<lambda>t. jt_key t = Some key) (jt_kids ob))) \<and>
     LDObjectLookup (Some (jt_value ob)) key = map_option jt_value (List.find (\<lambda>t. jt_key t = Some key) (jt_kids ob)) \<and>
     array_size fuel h (Some (jt_addr ob)) = Inr (length (jt_kids ob)) \<and>
     get_array_item h (Some (jt_addr ob)) i = Inr (if i < length (jt_kids ob) then Some (jt_addr (jt_kids ob ! i)) else None)"
proof -
  obtain a k kids where ob: "ob = JT a k (JObject []) kids" using assms(2) by (cases ob) auto
  have "length kids < fuel" using length_kids [of kids] assms(3) by (simp add: ob)
  moreover have "forest_at h None kids None" "\<forall>u\<in>set kids. jt_key u \<noteq> None" and
    "node_at h a = Inr \<lparr>cn_next = nx, cn_prev = pv, cn_child = head_of kids None, cn_item = JObject [], cn_string = k\<rparr>"
    using assms(1) by (simp_all add: in_memory_def ob node_at_def)
  ultimately show ?thesis
    using find_forest [of h None kids fuel key] count_forest [of h None kids fuel] item_forest [of h None kids i] find_entry [of kids key]
      object_value [of ob] by (simp add: ob get_object_item_def array_size_def get_array_item_def)
qed

end
