(* ===== verification/Platform.thy ===== *)
theory Platform
  imports Utility "HOL-Library.Signed_Division"
begin

text \<open>
  The layer over the operating system: clocks, sleeping and strings of
  \<open>c-sdk-common/src/utility.c\<close>, copying of \<open>memory.c\<close>, waiting on a condition of
  \<open>concurrency.c\<close> and the filter of \<open>logging.c\<close>, in the POSIX build. What a system call returns
  is an argument. Times in seconds and nanoseconds are integers: \<open>time_t\<close> and \<open>long\<close> have 64 bits.
  The build defines \<open>LAUNCHDARKLY_CONCURRENCY_ABORT\<close>: a failed operation of the thread library aborts
  the process.
\<close>

section \<open>Clocks\<close>

record timespec =
  tv_sec :: int
  tv_nsec :: int

fun dbl_floor :: "dbl \<Rightarrow> dbl" where
  "dbl_floor (Fin x) = Fin (of_int \<lfloor>x\<rfloor>)"
| "dbl_floor d = d"

definition LDi_timeSpecToMilliseconds :: "timespec \<Rightarrow> dbl" where
  "LDi_timeSpecToMilliseconds ts =
     dbl_floor (dbl_add (dbl_mul (fl64 (of_int (tv_sec ts))) (Fin 1000)) (dbl_div (fl64 (of_int (tv_nsec ts))) (Fin 1000000)))"

text \<open>The argument is what \<open>clock_gettime\<close> stores, \<open>None\<close> when it fails.\<close>

definition LDi_getMonotonicMilliseconds :: "timespec option \<Rightarrow> dbl exec" where
  "LDi_getMonotonicMilliseconds clock = (case clock of Some ts \<Rightarrow> Inr (LDi_timeSpecToMilliseconds ts) | None \<Rightarrow> Inl AssertFailed)"

definition LDi_getUnixMilliseconds :: "timespec option \<Rightarrow> dbl exec" where
  "LDi_getUnixMilliseconds clock = (case clock of Some ts \<Rightarrow> Inr (LDi_timeSpecToMilliseconds ts) | None \<Rightarrow> Inl AssertFailed)"

section \<open>Sleeping\<close>

text \<open>The microseconds that are slept, and what the call returns: \<open>usleep\<close> is \<open>None\<close> on success and
  otherwise tells whether it was interrupted.\<close>

definition LDi_sleepMilliseconds :: "ulong \<Rightarrow> bool option \<Rightarrow> (uint \<times> bool) exec" where
  "LDi_sleepMilliseconds milliseconds usleep =
     (let usec = (if milliseconds \<ge> 1000 then 999999 else ucast (milliseconds * 1000))
      in case usleep of
           None \<Rightarrow> Inr (usec, True)
         | Some interrupted \<Rightarrow> if interrupted then Inr (usec, False) else Inl AssertFailed)"

section \<open>Waiting on a condition\<close>

text \<open>Division and remainder of C, which round to zero; the time to wait is an \<open>int\<close>.\<close>

definition wait_deadline :: "timespec \<Rightarrow> int \<Rightarrow> timespec" where
  "wait_deadline ts milliseconds =
     (let ts = ts\<lparr>tv_sec := tv_sec ts + milliseconds sdiv 1000, tv_nsec := tv_nsec ts + milliseconds smod 1000 * 1000 * 1000\<rparr>
      in if tv_nsec ts > 1000 * 1000 * 1000
         then ts\<lparr>tv_sec := tv_sec ts + 1, tv_nsec := tv_nsec ts - 1000 * 1000 * 1000\<rparr> else ts)"

definition ETIMEDOUT :: int where
  "ETIMEDOUT = 110"

definition EINVAL :: int where
  "EINVAL = 22"

definition LDi_cond_wait_imp :: "(timespec \<Rightarrow> int) \<Rightarrow> timespec option \<Rightarrow> int \<Rightarrow> bool exec" where
  "LDi_cond_wait_imp pthread_cond_timedwait clock milliseconds =
     (let status = (case clock of
            None \<Rightarrow> 1
          | Some ts \<Rightarrow>
              (let status = pthread_cond_timedwait (wait_deadline ts milliseconds)
               in if status = ETIMEDOUT then 0 else status))
      in exec_bind (ld_assert (status = 0)) (\<lambda>_. Inr (status = 0)))"

section \<open>Strings and memory\<close>

text \<open>The new target; the old string is freed.\<close>

definition LDSetString :: "string option \<Rightarrow> string option \<Rightarrow> bool \<times> string option" where
  "LDSetString target v = (case v of None \<Rightarrow> (True, None) | Some s \<Rightarrow> (True, Some s))"

text \<open>\<open>memcpy\<close> reads \<open>n\<close> bytes, whatever is in them.\<close>

definition LDi_strndup :: "char list \<Rightarrow> nat \<Rightarrow> char list exec" where
  "LDi_strndup str n = (if n \<le> length str then Inr (take n str @ [CHR 0x00]) else Inl OutOfBounds)"

section \<open>Logging\<close>

datatype LDLogLevel = LD_LOG_FATAL | LD_LOG_CRITICAL | LD_LOG_ERROR | LD_LOG_WARNING | LD_LOG_INFO | LD_LOG_DEBUG | LD_LOG_TRACE

fun level_number :: "LDLogLevel \<Rightarrow> nat" where
  "level_number LD_LOG_FATAL = 0"
| "level_number LD_LOG_CRITICAL = 1"
| "level_number LD_LOG_ERROR = 2"
| "level_number LD_LOG_WARNING = 3"
| "level_number LD_LOG_INFO = 4"
| "level_number LD_LOG_DEBUG = 5"
| "level_number LD_LOG_TRACE = 6"

fun LDLogLevelToString :: "LDLogLevel \<Rightarrow> string" where
  "LDLogLevelToString LD_LOG_FATAL = ''LD_LOG_FATAL''"
| "LDLogLevelToString LD_LOG_CRITICAL = ''LD_LOG_CRITICAL''"
| "LDLogLevelToString LD_LOG_ERROR = ''LD_LOG_ERROR''"
| "LDLogLevelToString LD_LOG_WARNING = ''LD_LOG_WARNING''"
| "LDLogLevelToString LD_LOG_INFO = ''LD_LOG_INFO''"
| "LDLogLevelToString LD_LOG_DEBUG = ''LD_LOG_DEBUG''"
| "LDLogLevelToString LD_LOG_TRACE = ''LD_LOG_TRACE''"

text \<open>The global logger: its level, and whether a logger is set. Its output is the list of the
  messages it was given.\<close>

record sdk_logger =
  sl_level :: LDLogLevel
  sl_logger :: bool
  sl_output :: "(LDLogLevel \<times> string) list"

definition initial_logger :: sdk_logger where
  "initial_logger = \<lparr>sl_level = LD_LOG_INFO, sl_logger = False, sl_output = []\<rparr>"

definition LDConfigureGlobalLogger :: "sdk_logger \<Rightarrow> LDLogLevel \<Rightarrow> bool \<Rightarrow> sdk_logger" where
  "LDConfigureGlobalLogger l level logger = l\<lparr>sl_logger := logger, sl_level := level\<rparr>"

text \<open>\<open>vsnprintf\<close> into 4096 bytes; \<open>formatted\<close> is the formatted text, \<open>None\<close> for a \<open>NULL\<close> format.\<close>

definition LDi_log :: "sdk_logger \<Rightarrow> LDLogLevel \<Rightarrow> string option \<Rightarrow> sdk_logger" where
  "LDi_log l level formatted = (case formatted of
       None \<Rightarrow> l
     | Some s \<Rightarrow> if \<not> sl_logger l \<or> level_number level > level_number (sl_level l) then l
         else l\<lparr>sl_output := sl_output l @ [(level, take 4095 s)]\<rparr>)"

definition LDBasicLogger :: "LDLogLevel \<Rightarrow> string \<Rightarrow> string" where
  "LDBasicLogger level s = ''['' @ LDLogLevelToString level @ ''] '' @ s @ [CHR 0x0A]"

text \<open>Nothing is printed when the lock cannot be taken.\<close>

definition LDBasicLoggerThreadSafe :: "bool \<Rightarrow> LDLogLevel \<Rightarrow> string \<Rightarrow> string" where
  "LDBasicLoggerThreadSafe locked level s = (if \<not> locked then [] else ''['' @ LDLogLevelToString level @ ''] '' @ s @ [CHR 0x0A])"

section \<open>Time does not go backwards\<close>

definition valid_time :: "timespec \<Rightarrow> bool" where
  "valid_time ts \<longleftrightarrow> 0 \<le> tv_sec ts \<and> tv_sec ts < 2 ^ 40 \<and> 0 \<le> tv_nsec ts \<and> tv_nsec ts < 10 ^ 9"

definition nanoseconds :: "timespec \<Rightarrow> int" where
  "nanoseconds ts = tv_sec ts * 10 ^ 9 + tv_nsec ts"


lemma fl64_mono: "x \<le> y \<Longrightarrow> dbl_le (fl64 x) (fl64 y)"
  unfolding fl64_def by (rule fl_mono) simp_all

text \<open>The fraction of a second, in milliseconds.\<close>

lemma fraction_bounds:
  assumes "0 \<le> n" and "n < 10 ^ 9"
  obtains q where "dbl_div (fl64 (of_int n)) (Fin 1000000) = Fin q" and "fl64 (of_int n / 1000000) = Fin q" and "0 \<le> q" and "q \<le> 1000"
proof -
  have "fl64 (of_int n) = Fin (of_int n)" using assms by (intro fl64_int) simp
  moreover have "fl64 1000 = Fin 1000" "fl64 0 = Fin 0" using fl64_int [of 1000] fl64_int [of 0] by simp_all
  moreover have "0 \<le> (of_int n :: rat) / 1000000" "(of_int n :: rat) / 1000000 \<le> 1000" using assms by simp_all
  ultimately obtain q where "fl64 (of_int n / 1000000) = Fin q" "0 \<le> q" "q \<le> 1000" "fl64 (of_int n) = Fin (of_int n)"
    using fl64_between [of 0 "of_int n / 1000000" 1000] by blast
  then show ?thesis using that by simp
qed

lemma milliseconds_value:
  assumes "valid_time ts"
  obtains q r where "fl64 (of_int (tv_nsec ts) / 1000000) = Fin q" and "0 \<le> q" and "q \<le> 1000"
    and "fl64 (of_int (tv_sec ts * 1000) + q) = Fin r" and "LDi_timeSpecToMilliseconds ts = Fin (of_int \<lfloor>r\<rfloor>)"
    and "of_int (tv_sec ts * 1000) \<le> r" and "r \<le> of_int (tv_sec ts * 1000 + 1000)"
proof -
  have v: "0 \<le> tv_sec ts" "tv_sec ts < 2 ^ 40" "0 \<le> tv_nsec ts" "tv_nsec ts < 10 ^ 9" using assms by (auto simp: valid_time_def)
  obtain q where q: "dbl_div (fl64 (of_int (tv_nsec ts))) (Fin 1000000) = Fin q" "fl64 (of_int (tv_nsec ts) / 1000000) = Fin q" "0 \<le> q" "q \<le> 1000"
    using fraction_bounds [OF v(3,4)] .
  have "fl64 (of_int (tv_sec ts)) = Fin (of_int (tv_sec ts))" "fl64 (of_int (tv_sec ts * 1000)) = Fin (of_int (tv_sec ts * 1000))"
    "fl64 (of_int (tv_sec ts * 1000 + 1000)) = Fin (of_int (tv_sec ts * 1000 + 1000))"
    using v by (intro fl64_int; simp)+
  then have s: "dbl_mul (fl64 (of_int (tv_sec ts))) (Fin 1000) = Fin (of_int (tv_sec ts * 1000))"
    "fl64 (of_int (tv_sec ts * 1000)) = Fin (of_int (tv_sec ts * 1000))" "fl64 (of_int (tv_sec ts * 1000 + 1000)) = Fin (of_int (tv_sec ts * 1000 + 1000))"
    by simp_all
  obtain r where r: "fl64 (of_int (tv_sec ts * 1000) + q) = Fin r" "of_int (tv_sec ts * 1000) \<le> r" "r \<le> of_int (tv_sec ts * 1000 + 1000)"
    using fl64_between [OF _ _ s(2,3), of "of_int (tv_sec ts * 1000) + q"] q(3,4) by auto
  have "LDi_timeSpecToMilliseconds ts = Fin (of_int \<lfloor>r\<rfloor>)"
    unfolding LDi_timeSpecToMilliseconds_def s(1) q(1) by (simp add: r(1) [simplified])
  then show ?thesis using that q(2-4) r by blast
qed

text \<open>The milliseconds of a clock follow its seconds and nanoseconds: a later time never gives fewer
  milliseconds.\<close>

theorem clock_never_goes_back:
  assumes "valid_time a" and "valid_time b" and "nanoseconds a \<le> nanoseconds b"
  obtains x y where "LDi_getMonotonicMilliseconds (Some a) = Inr x" and "LDi_getMonotonicMilliseconds (Some b) = Inr y" and "dbl_le x y"
proof -
  obtain qa ra where a: "fl64 (of_int (tv_nsec a) / 1000000) = Fin qa" "fl64 (of_int (tv_sec a * 1000) + qa) = Fin ra"
    "LDi_timeSpecToMilliseconds a = Fin (of_int \<lfloor>ra\<rfloor>)" "ra \<le> of_int (tv_sec a * 1000 + 1000)"
    using milliseconds_value [OF assms(1)] by metis
  obtain qb rb where b: "fl64 (of_int (tv_nsec b) / 1000000) = Fin qb" "fl64 (of_int (tv_sec b * 1000) + qb) = Fin rb"
    "LDi_timeSpecToMilliseconds b = Fin (of_int \<lfloor>rb\<rfloor>)" "of_int (tv_sec b * 1000) \<le> rb"
    using milliseconds_value [OF assms(2)] by metis
  have "ra \<le> rb"
  proof (cases "tv_sec a = tv_sec b")
    case True
    then have "(of_int (tv_nsec a) :: rat) / 1000000 \<le> of_int (tv_nsec b) / 1000000" using assms(3) by (simp add: nanoseconds_def divide_right_mono)
    then have "qa \<le> qb" using fl64_mono a(1) b(1) by fastforce
    then have "dbl_le (fl64 (of_int (tv_sec a * 1000) + qa)) (fl64 (of_int (tv_sec b * 1000) + qb))" using True by (intro fl64_mono) simp
    then show ?thesis using a(2) b(2) by simp
  next
    case False
    then have "tv_sec a < tv_sec b" using assms by (auto simp: nanoseconds_def valid_time_def)
    then have "(of_int (tv_sec a * 1000 + 1000) :: rat) \<le> of_int (tv_sec b * 1000)" by (simp only: of_int_le_iff)
    then show ?thesis using a(4) b(4) by linarith
  qed
  then have "dbl_le (LDi_timeSpecToMilliseconds a) (LDi_timeSpecToMilliseconds b)" using a(3) b(3) by (simp add: floor_mono)
  then show ?thesis using that by (simp add: LDi_getMonotonicMilliseconds_def)
qed

section \<open>The deadline of a wait\<close>

text \<open>The documented behaviour of \<open>pthread_cond_timedwait\<close>: it refuses a deadline whose nanoseconds are
  not below a second, and otherwise is woken up or times out.\<close>

definition posix_timedwait :: "(timespec \<Rightarrow> int) \<Rightarrow> bool" where
  "posix_timedwait f \<longleftrightarrow> (\<forall>ts. if 0 \<le> tv_nsec ts \<and> tv_nsec ts < 10 ^ 9 then f ts = 0 \<or> f ts = ETIMEDOUT else f ts = EINVAL)"

lemma deadline_cases:
  assumes "valid_time ts" and "0 \<le> ms"
  shows "nanoseconds (wait_deadline ts ms) = nanoseconds ts + ms * 10 ^ 6" and "0 \<le> tv_nsec (wait_deadline ts ms)"
    and "tv_nsec (wait_deadline ts ms) < 10 ^ 9 \<longleftrightarrow> tv_nsec ts + ms mod 1000 * 10 ^ 6 \<noteq> 10 ^ 9"
proof -
  have c: "ms sdiv 1000 = ms div 1000" "ms smod 1000 = ms mod 1000"
    using assms(2) by (simp_all add: signed_divide_int_def signed_modulo_int_def sgn_if minus_div_mult_eq_mod)
  have m: "0 \<le> ms mod 1000" "ms mod 1000 < 1000" "ms = ms div 1000 * 1000 + ms mod 1000" by simp_all
  define q r where "q = ms div 1000" and "r = ms mod 1000"
  have qr: "ms = q * 1000 + r" "0 \<le> r" "r < 1000" using m by (simp_all add: q_def r_def)
  show "nanoseconds (wait_deadline ts ms) = nanoseconds ts + ms * 10 ^ 6"
    unfolding wait_deadline_def c q_def [symmetric] r_def [symmetric] using qr by (auto simp: nanoseconds_def Let_def algebra_simps)
  show "0 \<le> tv_nsec (wait_deadline ts ms)" "tv_nsec (wait_deadline ts ms) < 10 ^ 9 \<longleftrightarrow> tv_nsec ts + ms mod 1000 * 10 ^ 6 \<noteq> 10 ^ 9"
    unfolding wait_deadline_def c q_def [symmetric] r_def [symmetric] using qr assms(1) by (auto simp: valid_time_def Let_def)
qed

text \<open>The deadline of a timed wait is the time it should be, and the wait can abort the process. The
  deadline lies exactly the given milliseconds after the current time; the wait returns unless
  its nanoseconds come to exactly one second, which the code leaves as they are: the thread library refuses such a
  deadline and the failed assertion ends the process. Waits of whole seconds, as the Redis store makes,
  always return.\<close>

theorem timed_wait_aborts_at_full_second:
  assumes "posix_timedwait f" and "valid_time now" and "0 \<le> ms"
  shows "nanoseconds (wait_deadline now ms) = nanoseconds now + ms * 10 ^ 6 \<and>
     LDi_cond_wait_imp f (Some now) ms =
       (if tv_nsec now + ms mod 1000 * 10 ^ 6 = 10 ^ 9 then Inl AssertFailed else Inr True) \<and>
     LDi_cond_wait_imp f (Some now) (1000 * ms) = Inr True"
proof -
  have w: "LDi_cond_wait_imp f (Some now) k = (if tv_nsec now + k mod 1000 * 10 ^ 6 = 10 ^ 9 then Inl AssertFailed else Inr True)" if "0 \<le> k" for k
    using assms(1) deadline_cases(2,3) [OF assms(2) that]
    by (auto simp: posix_timedwait_def LDi_cond_wait_imp_def Let_def ETIMEDOUT_def EINVAL_def ld_assert_def split: if_splits)
  have "tv_nsec now \<noteq> 10 ^ 9" using assms(2) by (simp add: valid_time_def)
  then show ?thesis using deadline_cases(1) [OF assms(2,3)] w [OF assms(3)] w [of "1000 * ms"] assms(3) by simp
qed

theorem timed_wait_aborts_at_full_second_witness:
  "LDi_cond_wait_imp (\<lambda>ts. if 0 \<le> tv_nsec ts \<and> tv_nsec ts < 10 ^ 9 then ETIMEDOUT else EINVAL)
     (Some \<lparr>tv_sec = 5, tv_nsec = 995000000\<rparr>) 5 = Inl AssertFailed"
  using timed_wait_aborts_at_full_second
    [of "\<lambda>ts. if 0 \<le> tv_nsec ts \<and> tv_nsec ts < 10 ^ 9 then ETIMEDOUT else EINVAL" "\<lparr>tv_sec = 5, tv_nsec = 995000000\<rparr>" 5]
  by (simp add: posix_timedwait_def valid_time_def)

text \<open>A logger gets exactly the messages at its level or above, cut to 4095 characters.\<close>

theorem log_filters:
  "sl_output (LDi_log (LDConfigureGlobalLogger l level True) severity (Some s)) =
     sl_output l @ (if level_number severity \<le> level_number level then [(severity, take 4095 s)] else [])"
  by (simp add: LDi_log_def LDConfigureGlobalLogger_def)

end
