(* ===== verification/Spec2Isabelle.thy ===== *)
theory Spec2Isabelle
  imports Lru TimeUtils User Config FlagModel Operators Store Details Rollout Clauses Precedence VariationErrors FlagStates StreamFlow Reconnect NetworkFlow RedisRace RedisPool TestDataFlow FileDataFlow RefCountFlow LDValues JsonHeapFlow Platform
begin

text \<open>
  \<^bold>\<open>The LaunchDarkly server-side SDK for C.\<close>

  The SDK evaluates feature flags inside a server process. A data source (streaming or
  polling) delivers flags and segments as JSON; a feature store keeps the newest version of
  each; the evaluator computes the value of a flag for a user from the stored data; the
  event processor counts evaluations, queues analytics events and hands them to a sender.

  \<^bold>\<open>Theories and source files.\<close>

  \<^item> \<open>Prelude\<close>: results of code that may abort the process (\<open>exec\<close>: a fault or a value),
    keyed lists, the locale \<open>keyed_map\<close>, uthash tables as lists in insertion order.
  \<^item> \<open>Numbers\<close>: IEEE double and single precision as rationals with infinities and
    not-a-number, rounding to nearest even, and the conversions to integers, whose undefined
    cases are faults.
  \<^item> \<open>Json\<close> (\<open>c-sdk-common/src/json.c\<close>, \<open>cJSON.c\<close>): JSON values, accessors, objects as keyed
    containers (an interpretation of \<open>keyed_map\<close>), comparison, shown an equivalence.
  \<^item> \<open>JsonPrint\<close>, \<open>JsonParse\<close> (\<open>cJSON.c\<close>): the unformatted serializer and the parser. \<open>Decimal\<close> shows
    that the printed digits identify every double, \<open>JsonRoundtrip\<close> that a serialized value reads
    back as itself.
  \<^item> \<open>PrintBuffer\<close> (\<open>cJSON.c\<close>): the printer as the code has it, writing into a buffer of the heap that
    grows by copying, formatted or not; a write outside the buffer is a fault. \<open>PrintMemory\<close> shows that
    none happens and which text results, \<open>FormattedRoundtrip\<close> that the formatted text reads back too.
  \<^item> \<open>LDValues\<close> (\<open>c-sdk-common/src/ldvalue.c\<close>): the value API over these, with builders, iteration,
    comparison and both serializations.
  \<^item> \<open>JsonHeap\<close> (\<open>cJSON.c\<close>): the containers as linked nodes in memory, with their pointers and frees.
    \<open>JsonHeapFlow\<close> shows that appending, replacing and finding members refine the operations of
    \<open>Json\<close>, and that no freed node is reached.
  \<^item> \<open>TimeUtils\<close> (\<open>src/time_utils.c\<close>), \<open>Config\<close> (\<open>src/config.c\<close>), \<open>FlagModel\<close>
    (\<open>src/flag_model.c\<close>): timers, the configuration and its setters, flag metadata.
  \<^item> \<open>Lru\<close> (\<open>src/lru.c\<close>): the set of recent user keys, a refinement of a recency list.
  \<^item> \<open>User\<close> (\<open>c-sdk-common/src/user.c\<close>): users and the redacted JSON form.
  \<^item> \<open>External\<close>: SHA-1, hexify, PCRE, the timestamp and version parsers, which are fetched at
    build time, as fields of a record that every definition using them takes as an argument;
    hypotheses on them are named predicates, and \<open>sample_ext\<close> satisfies them.
  \<^item> \<open>Operators\<close> (\<open>src/operator.c\<close>): the clause operators.
  \<^item> \<open>StoreUtilities\<close>, \<open>StoreInterface\<close>, \<open>MemoryStore\<close>, \<open>Store\<close> (\<open>src/store/store_utilities.c\<close>,
    \<open>internal_store.h\<close>, \<open>memory_store.c\<close>, \<open>src/store.c\<close>): the locale \<open>feature_store\<close> is the
    contract of an implementation over an abstract view, the memory store interprets it, and
    \<open>store_client\<close> proves once what the handle guarantees for any implementation.
  \<^item> \<open>Details\<close> (\<open>src/variations.c\<close>, first part): reasons and their JSON form.
  \<^item> \<open>Events\<close>, \<open>EventProcessor\<close> (\<open>src/event_processor.c\<close>): construction of events, queue,
    summary counters, index events, payloads.
  \<^item> \<open>Evaluate\<close> (\<open>src/evaluate.c\<close>): the evaluator. The mutual recursion of \<open>LDi_evaluate\<close> and
    \<open>LDi_checkPrerequisites\<close> takes a depth; running out of it is the fault \<open>NoReturn\<close>.
  \<^item> \<open>EvaluateResult\<close>, \<open>Rollout\<close>, \<open>Clauses\<close>, \<open>Precedence\<close>: what evaluation returns, that it ends
    when prerequisites are acyclic, buckets and percentage rollouts, clauses, rules and segments,
    and the order of off, prerequisites, targets, rules and fallthrough.
  \<^item> \<open>Summaries\<close>, \<open>EventQueue\<close>, \<open>EventFlow\<close>: the counters, the reachable states of the event
    processor as an inductive step relation with its invariant, and the composition of
    evaluation and reporting.
  \<^item> \<open>Client\<close> (\<open>src/client.c\<close>), \<open>Variations\<close> (\<open>src/variations.c\<close>, second part): the client handle,
    the typed variation calls and the evaluation of all flags. \<open>VariationFlow\<close> shows what a call
    returns and reports, \<open>VariationErrors\<close> what it does with two malformed flags.
  \<^item> \<open>JsonHelpers\<close> (\<open>src/json_internal_helpers.c\<close>), \<open>AllFlags\<close> (\<open>src/all_flags_state.c\<close>,
    \<open>src/flag_state.c\<close>): the state of all flags; \<open>FlagStates\<close> shows what it holds.
  \<^item> \<open>Sse\<close> (\<open>c-sdk-common/src/sse.c\<close>): the parser of server-sent events; how a stream is cut into
    pieces does not matter, and a stream of events reaches the callback.
  \<^item> \<open>Utility\<close> (\<open>c-sdk-common/src/utility.c\<close>), \<open>Network\<close> (\<open>src/network.c\<close>, first part): scaling and random
    digits, the request every component of the thread builds on.
  \<^item> \<open>Streaming\<close> (\<open>src/streaming.c\<close>): events, timeouts, backoff. \<open>StreamFlow\<close> follows the bytes of a
    connection into the store, \<open>Reconnect\<close> shows when the source reconnects.
  \<^item> \<open>Polling\<close> (\<open>src/polling.c\<close>) with \<open>PollFlow\<close>, \<open>Analytics\<close> (\<open>src/events.c\<close>) with \<open>AnalyticsFlow\<close>: the
    polling source, and the sender of event payloads with its retry.
  \<^item> \<open>NetworkThread\<close> (\<open>src/network.c\<close>, second part): an iteration of the background thread over the
    three interfaces. \<open>NetworkFlow\<close> shows an invariant of all its runs and which requests it makes.
  \<^item> \<open>MemoryCache\<close>, \<open>CachingWrapper\<close> (\<open>src/store/memory_cache.c\<close>, \<open>caching_wrapper.c\<close>,
    \<open>persistent_store_collection.c\<close>): the cache in front of a persistent store. \<open>PersistentStore\<close> states
    the contract of \<open>launchdarkly/store.h\<close> as a locale, \<open>CacheFlow\<close> shows under it that the cache is
    transparent, and where it is not.
  \<^item> \<open>Redis\<close> (\<open>stores/redis/src/redis.c\<close>): the Redis store over a table of the hiredis functions.
    \<open>RedisServer\<close> states the documented behaviour of the commands as a locale, \<open>RedisFlow\<close> shows that
    the store then meets the contract of a persistent store. \<open>RedisRace\<close> shows what an update achieves
    while other clients write, \<open>RedisPool\<close> an invariant of the connection pool under concurrency.
  \<^item> \<open>TestData\<close>, \<open>TestFlags\<close> (\<open>src/integrations/test_data.c\<close>): the test data source, with the memory of its
    rules and clause values explicit. \<open>TestDataFlow\<close> shows that a built flag serves what was configured, that
    clients see it, and that an updated flag with rules shares memory with its first version.
  \<^item> \<open>FileData\<close> (\<open>src/integrations/file_data.c\<close>): reading and merging flag files over an argument for
    the file system. \<open>FileDataFlow\<close> follows a value of a file to the evaluation of its flag.
  \<^item> \<open>RefCount\<close> (\<open>src/store/ldjsonrc.c\<close>): counted references to JSON values on an explicit
    heap. \<open>RefCountFlow\<close> shows that a value lives as long as a reference to it.
  \<^item> \<open>Platform\<close> (\<open>utility.c\<close>, \<open>memory.c\<close>, \<open>concurrency.c\<close>, \<open>logging.c\<close> of \<open>c-sdk-common/src\<close>): clocks, sleeping,
    the timed wait, copying of strings and the logger.

  \<^bold>\<open>Depth.\<close> A theorem about a returned evaluation holds for every depth, and
  \<open>acyclic_evaluation_ends\<close> gives a depth that suffices: the rank of the flag plus one. For
  cyclic prerequisites no depth suffices, which is what the recursion of the code does. The loops over
  linked nodes in \<open>JsonHeap\<close> take fuel and fail without it; the theorems give one that suffices,
  more than the number of nodes. Releasing a reference in \<open>RefCount\<close> follows two levels, as a counted
  value of the stores can have associated ones and those have none.

  \<^bold>\<open>Choices.\<close> The build configuration is the default one: assertions abort the process and
  API functions check their arguments. Allocation succeeds. Strings contain no NUL. There is
  no signed zero. JSON values are mathematical values in the components that use them; their memory is
  represented where it is managed: nodes in \<open>JsonHeap\<close>, the output in \<open>PrintBuffer\<close>, counted references in
  \<open>RefCount\<close>, shared rules in \<open>TestData\<close>, and the header lists of requests in \<open>Network\<close>. Locks make each
  operation atomic. The evaluator reads the store through one snapshot. Clock readings, random numbers, the bytes
  libcurl delivers and the outcomes of its calls are arguments, so theorems hold for all of
  them. \<open>unsigned long\<close> has 64 bits, \<open>strtod\<close> and \<open>printf\<close> round correctly, \<open>RAND_MAX\<close> is that of the
  GNU C library.

  \<^bold>\<open>Not modelled.\<close> libcurl, hiredis and the Redis server themselves; the wrappers that only call the
  thread library (creating threads, taking locks); the functions of cJSON that the SDK never calls, among them
  printing into a caller's buffer and minifying; the C++ header over the value API. The caching
  wrapper is modelled with its own operations and not as an implementation behind the store handle,
  whose check for initialisation has no clock to read.
\<close>

end
